(* ===== verification/Tox_Prelude.thy ===== *)
theory Tox_Prelude
  imports Main "HOL-Library.Word"
begin

unbundle bit_operations_syntax

text \<open>
  Shared vocabulary of the development: the C integer types as words, byte
  buffers as lists, the parts of \<^verbatim>\<open>string.h\<close> the sources use (\<^verbatim>\<open>memcpy\<close> into the
  middle of a buffer, \<^verbatim>\<open>memcmp\<close>), the reading of a byte string as a big-endian
  number, the in-memory (little-endian host) representation of integers, and
  the generic list, option and word lemmas the components use.
\<close>

section \<open>Types\<close>

type_synonym byte = "8 word"
type_synonym bytes = "8 word list"
type_synonym u8 = "8 word"
type_synonym u16 = "16 word"
type_synonym u32 = "32 word"
type_synonym u64 = "64 word"

named_theorems size_defs "numeric constants of the C headers"
named_theorems wire_simps "encode/decode round trips"
named_theorems keep_inv "every operation keeps its component's invariant"

section \<open>Buffers\<close>

text \<open>\<open>slice off n xs\<close> is the C range \<open>xs + off .. xs + off + n\<close>.\<close>

definition slice :: "nat \<Rightarrow> nat \<Rightarrow> 'a list \<Rightarrow> 'a list" where
  "slice off n xs = take n (drop off xs)"

text \<open>\<open>write_at off src buf\<close> is the buffer after \<open>memcpy(buf + off, src, length src)\<close>.\<close>

definition write_at :: "nat \<Rightarrow> 'a list \<Rightarrow> 'a list \<Rightarrow> 'a list" where
  "write_at off src buf = take off buf @ src @ drop (off + length src) buf"

text \<open>\<open>memmove_at dst src n buf\<close> is the buffer after
  \<open>memmove(buf + dst, buf + src, n)\<close>.\<close>

definition memmove_at :: "nat \<Rightarrow> nat \<Rightarrow> nat \<Rightarrow> 'a list \<Rightarrow> 'a list" where
  "memmove_at dst src n buf = write_at dst (slice src n buf) buf"

lemma length_slice [simp]: "off + n \<le> length xs \<Longrightarrow> length (slice off n xs) = n"
  by (simp add: slice_def)

lemma length_write_at [simp]: "off + length src \<le> length buf \<Longrightarrow> length (write_at off src buf) = length buf"
  by (simp add: write_at_def)

lemma slice_full [simp]: "length xs = n \<Longrightarrow> slice 0 n xs = xs"
  by (simp add: slice_def)

lemma slice_0 [simp]: "slice off 0 xs = []"
  by (simp add: slice_def)

lemma slice_append_left: "off + n \<le> length xs \<Longrightarrow> slice off n (xs @ ys) = slice off n xs"
  by (simp add: slice_def)

lemma slice_append_right: "length xs \<le> off \<Longrightarrow> slice off n (xs @ ys) = slice (off - length xs) n ys"
  by (simp add: slice_def)

lemma slice_nth: "i < n \<Longrightarrow> off + n \<le> length xs \<Longrightarrow> slice off n xs ! i = xs ! (off + i)"
  by (simp add: slice_def)

lemma slice_write_at_same:
  "off + length src \<le> length buf \<Longrightarrow> slice off (length src) (write_at off src buf) = src"
  by (simp add: slice_def write_at_def)

lemma nth_write_at:
  "off + length src \<le> length buf \<Longrightarrow> i < length buf \<Longrightarrow>
   write_at off src buf ! i = (if off \<le> i \<and> i < off + length src then src ! (i - off) else buf ! i)"
  by (auto simp: write_at_def nth_append min_def)

section \<open>Byte strings as big-endian numbers\<close>

fun be_val :: "bytes \<Rightarrow> nat" where
  "be_val [] = 0"
| "be_val (b # bs) = unat b * 256 ^ length bs + be_val bs"

lemma byte_bound: "unat (b :: byte) < 256"
  by (rule order.strict_trans2 [OF unsigned_less]) simp

lemma be_val_bound: "be_val bs < 256 ^ length bs"
proof (induction bs)
  case (Cons b bs)
  have "Suc (unat b) \<le> 256"
    using byte_bound [of b] by linarith
  then have le: "Suc (unat b) * 256 ^ length bs \<le> 256 * 256 ^ length bs"
    by (rule mult_le_mono1)
  have "be_val (b # bs) < Suc (unat b) * 256 ^ length bs"
    using Cons by simp
  also note le
  finally show ?case by simp
qed simp

lemma be_val_append: "be_val (xs @ ys) = be_val xs * 256 ^ length ys + be_val ys"
  by (induction xs) (simp_all add: power_add algebra_simps)

lemma be_val_inject: "length xs = length ys \<Longrightarrow> be_val xs = be_val ys \<Longrightarrow> xs = ys"
proof (induction xs ys rule: list_induct2)
  case (Cons x xs y ys)
  let ?p = "256 ^ length xs :: nat"
  have xb: "be_val xs < ?p" and yb: "be_val ys < ?p"
    using be_val_bound [of xs] be_val_bound [of ys] Cons.hyps by simp_all
  have eq: "unat x * ?p + be_val xs = unat y * ?p + be_val ys"
    using Cons.prems Cons.hyps by simp
  have "(unat x * ?p + be_val xs) div ?p = unat x" "(unat y * ?p + be_val ys) div ?p = unat y"
    using xb yb by simp_all
  with eq have "unat x = unat y" by metis
  with eq Cons.IH show ?case by (simp add: word_unat_eq_iff)
qed simp

text \<open>C's \<^verbatim>\<open>memcmp\<close>: only the sign of its result is specified, so the model
  returns \<open>-1\<close>, \<open>0\<close> or \<open>1\<close>.\<close>

fun memcmp :: "bytes \<Rightarrow> bytes \<Rightarrow> int" where
  "memcmp (x # xs) (y # ys) = (if x < y then - 1 else if y < x then 1 else memcmp xs ys)"
| "memcmp _ _ = 0"

lemma be_val_lead_less:
  assumes "unat (x :: byte) < unat y" and "length xs = length ys"
  shows "be_val (x # xs) < be_val (y # ys)"
proof -
  have "be_val (x # xs) < Suc (unat x) * 256 ^ length xs"
    using be_val_bound [of xs] by simp
  also have "\<dots> \<le> unat y * 256 ^ length xs"
    using assms(1) by (intro mult_le_mono1) simp
  also have "\<dots> \<le> be_val (y # ys)"
    using assms(2) by simp
  finally show ?thesis .
qed

lemma memcmp_be_val:
  "length xs = length ys \<Longrightarrow>
   memcmp xs ys = (if be_val xs < be_val ys then - 1 else if be_val ys < be_val xs then 1 else 0)"
proof (induction xs ys rule: list_induct2)
  case (Cons x xs y ys)
  consider "x < y" | "y < x" | "x = y" by fastforce
  then show ?case
  proof cases
    case 1
    with be_val_lead_less [of x y xs ys] Cons.hyps show ?thesis
      by (simp add: word_less_nat_alt)
  next
    case 2
    with be_val_lead_less [of y x ys xs] Cons.hyps show ?thesis
      by (simp add: word_less_nat_alt)
  next
    case 3
    with Cons show ?thesis by simp
  qed
qed simp

lemma memcmp_eq_0: "length xs = length ys \<Longrightarrow> memcmp xs ys = 0 \<longleftrightarrow> xs = ys"
  by (auto simp: memcmp_be_val dest: be_val_inject)

section \<open>Integers in memory\<close>

text \<open>The host is little-endian (\<^verbatim>\<open>WORDS_BIGENDIAN\<close> undefined): copying an integer's
  object representation with \<^verbatim>\<open>memcpy\<close> gives its bytes, lowest first.\<close>

definition host_bytes :: "nat \<Rightarrow> 'a::len word \<Rightarrow> bytes" where
  "host_bytes n w = map (\<lambda>i. ucast (drop_bit (8 * i) w)) [0..<n]"

fun host_word :: "bytes \<Rightarrow> 'a::len word" where
  "host_word [] = 0"
| "host_word (b # bs) = ucast b OR push_bit 8 (host_word bs)"

lemma length_host_bytes [simp]: "length (host_bytes n w) = n"
  by (simp add: host_bytes_def)

lemma host_bytes_Suc: "host_bytes (Suc n) w = ucast w # host_bytes n (drop_bit 8 w)"
proof -
  have "host_bytes (Suc n) w = map (\<lambda>i. ucast (drop_bit (8 * i) w)) (0 # map Suc [0..<n])"
    unfolding host_bytes_def by (simp only: upt_conv_Cons zero_less_Suc map_Suc_upt)
  then show ?thesis by (simp add: host_bytes_def comp_def add.commute)
qed

lemma byte_split: "ucast (ucast w :: byte) OR push_bit 8 (drop_bit 8 w) = (w :: 'a::len word)"
proof (rule bit_word_eqI)
  fix k assume "k < LENGTH('a)"
  then show "bit (ucast (ucast w :: byte) OR push_bit 8 (drop_bit 8 w)) k \<longleftrightarrow> bit w k"
    by (cases "k < 8") (auto simp: bit_simps)
qed

lemma drop_bit_beyond: "LENGTH('a) \<le> n \<Longrightarrow> drop_bit n (w :: 'a::len word) = 0"
  by (rule bit_word_eqI) (auto simp: bit_simps dest: bit_imp_le_length)

lemma host_word_host_bytes_aux:
  "(\<And>k. bit w k \<Longrightarrow> k < 8 * n) \<Longrightarrow> host_word (host_bytes n w) = (w :: 'a::len word)"
proof (induction n arbitrary: w)
  case 0
  then have "w = 0" by (intro bit_word_eqI) auto
  then show ?case by (simp add: host_bytes_def)
next
  case (Suc n)
  have "host_word (host_bytes n (drop_bit 8 w)) = drop_bit 8 w"
    by (rule Suc.IH) (use Suc.prems in \<open>force simp: bit_simps\<close>)
  then show ?case by (simp add: host_bytes_Suc byte_split)
qed

lemma host_word_host_bytes [wire_simps]:
  assumes "LENGTH('a) \<le> 8 * n"
  shows "host_word (host_bytes n w) = (w :: 'a::len word)"
  by (rule host_word_host_bytes_aux) (use assms in \<open>auto dest!: bit_imp_le_length\<close>)

lemma host_word_u64 [wire_simps]: "host_word (host_bytes 8 w) = (w :: u64)"
  by (simp add: host_word_host_bytes)

lemma host_word_u32 [wire_simps]: "host_word (host_bytes 4 w) = (w :: u32)"
  by (simp add: host_word_host_bytes)

lemma host_word_u16 [wire_simps]: "host_word (host_bytes 2 w) = (w :: u16)"
  by (simp add: host_word_host_bytes)

lemma host_bytes_inject: "LENGTH('a) \<le> 8 * n \<Longrightarrow> host_bytes n v = host_bytes n w \<longleftrightarrow> v = (w :: 'a::len word)"
  by (metis host_word_host_bytes)

lemma bit_beyond: "LENGTH('a::len) \<le> n \<Longrightarrow> bit (w :: 'a word) n = False"
  by (auto dest: bit_imp_le_length)

lemma bit_host_word:
  "n < LENGTH('a) \<Longrightarrow>
   bit (host_word bs :: 'a::len word) n \<longleftrightarrow> n div 8 < length bs \<and> bit (bs ! (n div 8)) (n mod 8)"
proof (induction bs arbitrary: n)
  case (Cons b bs)
  show ?case
  proof (cases "n < 8")
    case True
    with Cons.prems show ?thesis by (simp add: bit_simps)
  next
    case False
    then obtain m where m: "n = m + 8" by (metis add.commute le_Suc_ex not_less)
    have "(m + 8) div 8 = Suc (m div 8)" by (simp add: div_add_self2)
    with m Cons show ?thesis by (simp add: bit_simps bit_beyond)
  qed
qed simp

lemma host_bytes_host_word:
  assumes "length bs = n" "8 * n \<le> LENGTH('a)"
  shows "host_bytes n (host_word bs :: 'a::len word) = bs"
proof (rule nth_equalityI)
  fix i assume "i < length (host_bytes n (host_word bs :: 'a word))"
  then have i: "i < n" by simp
  have "bit (ucast (drop_bit (8 * i) (host_word bs :: 'a word)) :: byte) k = bit (bs ! i) k" if "k < 8" for k
  proof -
    have lt: "8 * i + k < LENGTH('a)" using that i assms(2) by linarith
    have "(8 * i + k) div 8 = i" "(8 * i + k) mod 8 = k" using that by simp_all
    with lt i assms(1) that show ?thesis by (simp add: bit_simps bit_host_word)
  qed
  then have "(ucast (drop_bit (8 * i) (host_word bs :: 'a word)) :: byte) = bs ! i"
    by (intro bit_word_eqI) simp
  then show "host_bytes n (host_word bs :: 'a word) ! i = bs ! i"
    using i by (simp add: host_bytes_def)
qed (simp add: assms(1))

lemma host_word_inject:
  assumes "length xs = length ys" "8 * length xs \<le> LENGTH('a)"
  shows "(host_word xs :: 'a::len word) = host_word ys \<longleftrightarrow> xs = ys"
  using assms host_bytes_host_word [of xs "length xs", where 'a = 'a] host_bytes_host_word [of ys "length ys", where 'a = 'a]
  by metis

section \<open>The lowest set bit of a word\<close>

lemma word_low_bit_split:
  assumes "x \<noteq> (0 :: 'a::len word)"
  obtains k z where "k < LENGTH('a)" "x = push_bit (Suc k) z OR push_bit k 1"
proof -
  from assms obtain n where n: "bit x n" by (auto simp: bit_eq_iff)
  define k where "k = (LEAST n. bit x n)"
  have k: "bit x k" unfolding k_def by (rule LeastI) (rule n)
  have low: "\<not> bit x m" if "m < k" for m
    using that not_less_Least unfolding k_def by blast
  have "x = push_bit (Suc k) (drop_bit (Suc k) x) OR push_bit k 1"
  proof (rule bit_word_eqI)
    fix m assume "m < LENGTH('a)"
    then show "bit x m \<longleftrightarrow> bit (push_bit (Suc k) (drop_bit (Suc k) x) OR push_bit k 1) m"
      using k low [of m] by (cases m k rule: linorder_cases) (auto simp: bit_simps simp del: push_bit_Suc)
  qed
  with k bit_imp_le_length that show thesis by blast
qed

lemma word_pred_low_bit:
  assumes "k < LENGTH('a)" and "x = push_bit (Suc k) z OR push_bit k (1 :: 'a::len word)"
  shows "x - 1 = push_bit (Suc k) z OR mask k"
proof -
  have "push_bit (Suc k) z AND push_bit k 1 = 0" "push_bit (Suc k) z AND mask k = 0"
    by (rule bit_word_eqI; auto simp: bit_simps simp del: push_bit_Suc)+
  then have "x = push_bit (Suc k) z + push_bit k 1" "push_bit (Suc k) z OR mask k = push_bit (Suc k) z + mask k"
    using assms(2) by (simp_all add: disjunctive_add_eq_or)
  then show ?thesis by (simp add: mask_eq_decr_exp push_bit_eq_mult)
qed

lemma word_and_pred_eq_0:
  "(x :: 'a::len word) \<noteq> 0 \<Longrightarrow> x AND (x - 1) = 0 \<longleftrightarrow> (\<exists>k < LENGTH('a). x = 2 ^ k)"
proof
  assume "x \<noteq> 0" "x AND (x - 1) = 0"
  then obtain k z where k: "k < LENGTH('a)" and x: "x = push_bit (Suc k) z OR push_bit k 1"
    by (metis word_low_bit_split)
  have "x AND (x - 1) = push_bit (Suc k) z"
    by (subst word_pred_low_bit [OF k x], subst x, rule bit_word_eqI)
      (auto simp: bit_simps simp del: push_bit_Suc)
  with \<open>x AND (x - 1) = 0\<close> x have "x = 2 ^ k" by (simp add: push_bit_eq_mult)
  with k show "\<exists>k < LENGTH('a). x = 2 ^ k" by blast
next
  assume "\<exists>k < LENGTH('a). x = 2 ^ k"
  then obtain k where k: "k < LENGTH('a)" and x: "x = push_bit (Suc k) 0 OR push_bit k 1"
    by (auto simp: push_bit_eq_mult)
  show "x AND (x - 1) = 0"
    by (subst word_pred_low_bit [OF k x], subst x, rule bit_word_eqI)
      (auto simp: bit_simps simp del: push_bit_Suc)
qed

lemma word_and_minus_eq_self:
  "(x :: 'a::len word) AND (- x) = x \<longleftrightarrow> x AND (x - 1) = 0"
proof -
  have "- x = NOT (x - 1)" by (simp add: not_eq_complement)
  then show ?thesis
    by (metis (no_types, opaque_lifting) and.assoc and.commute and.right_idem
      bit.compl_zero bit.conj_cancel_right bit.conj_disj_distrib bit.conj_one_right
      bit.conj_zero_right bit.disj_cancel_right or.right_neutral)
qed

lemma sint_small: "unat (w :: u32) < 2 ^ 31 \<Longrightarrow> sint w = int (unat w)"
proof -
  assume small: "unat w < 2 ^ 31"
  have "sint (word_of_nat n :: u32) = int n" if "n < 2 ^ 31" for n
    using that by (simp add: signed_of_nat signed_take_bit_int_eq_self)
  from this [OF small] show ?thesis by simp
qed

section \<open>Lists and options\<close>

lemma nth_list_update_or: "i < length xs \<Longrightarrow> xs[j := v] ! i = (if i = j then v else xs ! i)"
  by (cases "i = j") simp_all

text \<open>Index of the first element with a property: the search loops of the sources.\<close>

fun find_index :: "('a \<Rightarrow> bool) \<Rightarrow> 'a list \<Rightarrow> nat option" where
  "find_index P [] = None"
| "find_index P (x # xs) = (if P x then Some 0 else map_option Suc (find_index P xs))"

lemma find_index_None [simp]: "find_index P xs = None \<longleftrightarrow> (\<forall>x \<in> set xs. \<not> P x)"
  by (induction xs) auto

lemma find_index_Some:
  "find_index P xs = Some i \<longleftrightarrow> i < length xs \<and> P (xs ! i) \<and> (\<forall>j < i. \<not> P (xs ! j))"
proof (induction xs arbitrary: i)
  case (Cons x xs)
  show ?case by (cases i) (auto simp: Cons.IH less_Suc_eq_0_disj)
qed simp

lemmas find_index_SomeD = find_index_Some [THEN iffD1]

end
