(* ===== verification/Util.thy ===== *)
theory Util
  imports Tox_Prelude
begin

text \<open>
  \<^verbatim>\<open>toxcore/util.c\<close>: the power-of-two test, the two-byte XOR checksum of Tox
  addresses, buffer comparison, the typed minimum and maximum helpers and the
  one-at-a-time hash. Shown here: the bit trick of \<^verbatim>\<open>is_power_of_2\<close> decides
  exactly the powers of two, and the checksum detects every single-byte change.
\<close>

section \<open>Definitions\<close>

definition is_power_of_2 :: "u64 \<Rightarrow> bool" where
  "is_power_of_2 x \<longleftrightarrow> x \<noteq> 0 \<and> (x AND (NOT x + 1)) = x"

text \<open>The loop of \<^verbatim>\<open>data_checksum\<close>: \<open>checksum[i % 2] ^= data[i]\<close>, here over the
  rest of the data with the two accumulator bytes.\<close>

fun data_checksum_loop :: "nat \<Rightarrow> bytes \<Rightarrow> byte \<times> byte \<Rightarrow> byte \<times> byte" where
  "data_checksum_loop i [] c = c"
| "data_checksum_loop i (d # ds) (c0, c1) =
     data_checksum_loop (Suc i) ds (if i mod 2 = 0 then (c0 XOR d, c1) else (c0, c1 XOR d))"

definition data_checksum :: "bytes \<Rightarrow> u16" where
  "data_checksum data = (case data_checksum_loop 0 data (0, 0) of (c0, c1) \<Rightarrow> host_word [c0, c1])"

definition memeq :: "bytes \<Rightarrow> bytes \<Rightarrow> bool" where
  "memeq a b \<longleftrightarrow> length a = length b \<and> memcmp a b = 0"

definition max_s16 :: "16 word \<Rightarrow> 16 word \<Rightarrow> 16 word" where
  "max_s16 a b = (if sint a > sint b then a else b)"
definition max_s32 :: "32 word \<Rightarrow> 32 word \<Rightarrow> 32 word" where
  "max_s32 a b = (if sint a > sint b then a else b)"
definition max_s64 :: "64 word \<Rightarrow> 64 word \<Rightarrow> 64 word" where
  "max_s64 a b = (if sint a > sint b then a else b)"
definition min_s16 :: "16 word \<Rightarrow> 16 word \<Rightarrow> 16 word" where
  "min_s16 a b = (if sint a < sint b then a else b)"
definition min_s32 :: "32 word \<Rightarrow> 32 word \<Rightarrow> 32 word" where
  "min_s32 a b = (if sint a < sint b then a else b)"
definition min_s64 :: "64 word \<Rightarrow> 64 word \<Rightarrow> 64 word" where
  "min_s64 a b = (if sint a < sint b then a else b)"

definition max_u16 :: "u16 \<Rightarrow> u16 \<Rightarrow> u16" where "max_u16 a b = (if a > b then a else b)"
definition max_u32 :: "u32 \<Rightarrow> u32 \<Rightarrow> u32" where "max_u32 a b = (if a > b then a else b)"
definition max_u64 :: "u64 \<Rightarrow> u64 \<Rightarrow> u64" where "max_u64 a b = (if a > b then a else b)"
definition min_u16 :: "u16 \<Rightarrow> u16 \<Rightarrow> u16" where "min_u16 a b = (if a < b then a else b)"
definition min_u32 :: "u32 \<Rightarrow> u32 \<Rightarrow> u32" where "min_u32 a b = (if a < b then a else b)"
definition min_u64 :: "u64 \<Rightarrow> u64 \<Rightarrow> u64" where "min_u64 a b = (if a < b then a else b)"

text \<open>One round and the finish of Jenkins' hash; the casts through \<^verbatim>\<open>uint64_t\<close> are
  kept.\<close>

definition jenkins_round :: "u32 \<Rightarrow> byte \<Rightarrow> u32" where
  "jenkins_round hash k =
     (let h1 = hash + ucast k;
          h2 = h1 + ucast (push_bit 10 (ucast h1 :: u64))
      in h2 XOR drop_bit 6 h2)"

definition jenkins_one_at_a_time_hash :: "bytes \<Rightarrow> u32" where
  "jenkins_one_at_a_time_hash key =
     (let h = foldl jenkins_round 0 key;
          h1 = h + ucast (push_bit 3 (ucast h :: u64));
          h2 = h1 XOR drop_bit 11 h1
      in h2 + ucast (push_bit 15 (ucast h2 :: u64)))"

section \<open>Correctness\<close>

lemma memeq_iff [simp]: "memeq a b \<longleftrightarrow> a = b"
  by (auto simp: memeq_def memcmp_eq_0)

lemma max_u64_max: "max_u64 a b = max a b"
  by (auto simp: max_u64_def max_def)

lemma min_u16_min: "min_u16 a b = min a b"
  by (auto simp: min_u16_def min_def)

lemma is_power_of_2_iff: "is_power_of_2 x \<longleftrightarrow> (\<exists>k < 64. x = 2 ^ k)"
proof (cases "x = 0")
  case True
  have "\<not> (\<exists>k < 64. (0 :: u64) = 2 ^ k)" by simp
  with True show ?thesis by (simp add: is_power_of_2_def)
next
  case False
  have "NOT x + 1 = - x" by (simp add: not_eq_complement)
  with False show ?thesis
    using word_and_minus_eq_self [of x] word_and_pred_eq_0 [of x] by (simp add: is_power_of_2_def)
qed

text \<open>The two accumulators are the XORs of the even and of the odd positions.\<close>

fun xor_stride :: "bool \<Rightarrow> bytes \<Rightarrow> byte" where
  "xor_stride p [] = 0"
| "xor_stride p (d # ds) = (if p then d else 0) XOR xor_stride (\<not> p) ds"

lemma data_checksum_loop_eq:
  "data_checksum_loop i ds (c0, c1) =
     (c0 XOR xor_stride (even i) ds, c1 XOR xor_stride (odd i) ds)"
  by (induction i ds "(c0, c1)" arbitrary: c0 c1 rule: data_checksum_loop.induct)
    (auto simp: even_iff_mod_2_eq_zero [symmetric] xor.assoc)

lemma xor_stride_update:
  "i < length ds \<Longrightarrow>
   xor_stride p (ds[i := b]) = xor_stride p ds XOR (if p = even i then ds ! i XOR b else 0)"
proof (induction ds arbitrary: i p)
  case (Cons d ds)
  show ?case
    by (cases i) (use Cons in \<open>auto simp: ac_simps\<close>)
qed simp

lemma host_word_pair_inject:
  "(host_word [a, b] :: u16) = host_word [c, d] \<longleftrightarrow> a = c \<and> b = d"
proof
  have low: "ucast (host_word [x, y] :: u16) = x"
    and high: "ucast (drop_bit 8 (host_word [x, y] :: u16)) = y" for x y :: byte
    by (rule bit_word_eqI; auto simp: bit_simps dest: bit_imp_le_length)+
  assume "(host_word [a, b] :: u16) = host_word [c, d]"
  then show "a = c \<and> b = d"
    using low [of a b] low [of c d] high [of a b] high [of c d] by metis
qed simp

lemma xor_cancel: "(a :: byte) XOR (b XOR c) = a \<longleftrightarrow> c = b"
  by (auto simp: bit_eq_iff bit_simps)

text \<open>The two-byte checksum detects every change of a single byte.\<close>

theorem data_checksum_single_change:
  assumes "i < length ds"
  shows "data_checksum (ds[i := b]) = data_checksum ds \<longleftrightarrow> b = ds ! i"
  using assms
  by (auto simp: data_checksum_def data_checksum_loop_eq host_word_pair_inject xor_stride_update
      xor_cancel simp del: host_word.simps)

theorem data_checksum_single_change_witness:
  "data_checksum ([1, 2, 3, 4][2 := 9]) = data_checksum [1, 2, 3, 4] \<longleftrightarrow> 9 = [1, 2, 3, 4 :: byte] ! 2"
  by (rule data_checksum_single_change) simp

end
