(* ===== verification/Mono_Time.thy ===== *)
theory Mono_Time
  imports Tox_Prelude
begin

text \<open>
  \<^verbatim>\<open>toxcore/mono_time.c\<close>: the cached clock every component reads. The operating
  system's clock reading (the value \<^verbatim>\<open>current_time_callback\<close> returns, in
  milliseconds) is an argument of the operations that call it. The Windows
  build's 32-bit tick counter is modelled too. Locks and allocation are left
  out: they do not change the values.
\<close>

section \<open>Definitions\<close>

record Mono_Time =
  cur_time :: u64
  base_time :: u64

definition timespec_to_u64 :: "u64 \<Rightarrow> u64 \<Rightarrow> u64" where
  "timespec_to_u64 tv_sec tv_nsec = 1000 * tv_sec + (tv_nsec div 1000000)"

definition mono_time_update :: "u64 \<Rightarrow> Mono_Time \<Rightarrow> Mono_Time" where
  "mono_time_update clock_ms mt = mt\<lparr>cur_time := clock_ms div 1000 + base_time mt\<rparr>"

text \<open>\<open>wall\<close> is \<^verbatim>\<open>time(nullptr)\<close>, \<open>clock_ms\<close> and \<open>clock_ms'\<close> the two callback readings.\<close>

definition mono_time_new :: "u64 \<Rightarrow> u64 \<Rightarrow> u64 \<Rightarrow> Mono_Time" where
  "mono_time_new wall clock_ms clock_ms' =
     mono_time_update clock_ms' \<lparr>cur_time = 0, base_time = wall - clock_ms div 1000\<rparr>"

definition mono_time_get :: "Mono_Time \<Rightarrow> u64" where
  "mono_time_get mt = cur_time mt"

definition mono_time_is_timeout :: "Mono_Time \<Rightarrow> u64 \<Rightarrow> u64 \<Rightarrow> bool" where
  "mono_time_is_timeout mt timestamp timeout \<longleftrightarrow> timestamp + timeout \<le> mono_time_get mt"

text \<open>The Windows build keeps the last tick count and a flag that asks the clock
  function to record it.\<close>

record Mono_Time_Win32 = Mono_Time +
  last_clock_mono :: u32
  last_clock_update :: bool

definition current_time_monotonic_win32 :: "u32 \<Rightarrow> Mono_Time_Win32 \<Rightarrow> u64 \<times> Mono_Time_Win32" where
  "current_time_monotonic_win32 ticks mt =
     (let old_ovf = cur_time mt AND NOT 0xFFFFFFFF;
          old_ovf = (if ticks < last_clock_mono mt then old_ovf + (0xFFFFFFFF + 1) else old_ovf);
          mt = (if last_clock_update mt
                then mt\<lparr>last_clock_mono := ticks, last_clock_update := False\<rparr> else mt)
      in (old_ovf + ucast ticks, mt))"

definition mono_time_update_win32 :: "u32 \<Rightarrow> Mono_Time_Win32 \<Rightarrow> Mono_Time_Win32" where
  "mono_time_update_win32 ticks mt =
     (case current_time_monotonic_win32 ticks (mt\<lparr>last_clock_update := True\<rparr>) of
        (t, mt') \<Rightarrow> mt'\<lparr>cur_time := t div 1000 + base_time mt'\<rparr>)"

section \<open>Behaviour\<close>

lemma mono_time_get_update [simp]:
  "mono_time_get (mono_time_update c mt) = c div 1000 + base_time mt"
  by (simp add: mono_time_get_def mono_time_update_def)

lemma base_time_update [simp]: "base_time (mono_time_update c mt) = base_time mt"
  by (simp add: mono_time_update_def)

text \<open>Away from the 64-bit wrap, \<^verbatim>\<open>mono_time_is_timeout\<close> compares numbers.\<close>

lemma mono_time_is_timeout_nat:
  "unat ts + unat tmo < 2 ^ 64 \<Longrightarrow>
   mono_time_is_timeout mt ts tmo \<longleftrightarrow> unat ts + unat tmo \<le> unat (mono_time_get mt)"
  by (simp add: mono_time_is_timeout_def word_le_nat_alt unat_word_ariths)

lemma mono_time_update_mono:
  assumes "c \<le> c'" and "unat (c' div 1000) + unat (base_time mt) < 2 ^ 64"
  shows "mono_time_get (mono_time_update c mt) \<le> mono_time_get (mono_time_update c' mt)"
proof -
  have le: "unat (c div 1000) \<le> unat (c' div 1000)"
    using assms(1) by (simp add: unat_div_distrib word_le_nat_alt div_le_mono)
  then show ?thesis
    using assms(2) by (simp add: word_le_nat_alt unat_word_ariths)
qed

text \<open>On Windows the cached time is in seconds, so its upper half does not count
  the wraps of the millisecond tick counter: after the counter wraps, the second
  update loses the wrap and the clock steps back.\<close>

theorem win32_clock_steps_back:
  "let mt0 = \<lparr>cur_time = 0, base_time = 1700000000, last_clock_mono = 0, last_clock_update = False\<rparr>;
       mt1 = mono_time_update_win32 0xFFFFFFFF mt0;
       mt2 = mono_time_update_win32 5 mt1;
       mt3 = mono_time_update_win32 1005 mt2
   in cur_time mt1 = 1704294967 \<and> cur_time mt2 = 1704294967 \<and> cur_time mt3 = 1700000001"
  by (simp add: mono_time_update_win32_def current_time_monotonic_win32_def Let_def)

end
