(* ===== verification/Crypto_Core.thy ===== *)
theory Crypto_Core
  imports Tox_Prelude
begin

text \<open>
  \<^verbatim>\<open>toxcore/crypto_core.c\<close>. The NaCl/libsodium primitives and the C allocator are
  not part of the repository: they are the fields of the record \<open>platform\<close>, an
  argument of every operation that calls them, and the locale \<open>box_platform\<close>
  states what the code relies on (the documented behaviour of
  \<^verbatim>\<open>crypto_box_afternm\<close> and \<^verbatim>\<open>crypto_box_open_afternm\<close>). The fuzzing build
  (\<^verbatim>\<open>FUZZING_BUILD_MODE_UNSAFE_FOR_PRODUCTION\<close>), whose cipher is in the source,
  is modelled as well and provides the interpretation of that locale.

  Shown here: the padding around the NaCl calls is right (decryption inverts
  encryption, lengths differ by the MAC), and the byte-wise carry loops of
  \<^verbatim>\<open>increment_nonce\<close> and \<^verbatim>\<open>increment_nonce_number\<close> add on 192-bit big-endian
  numbers.
\<close>

section \<open>Sizes\<close>

definition CRYPTO_PUBLIC_KEY_SIZE :: nat where [size_defs]: "CRYPTO_PUBLIC_KEY_SIZE = 32"
definition CRYPTO_SECRET_KEY_SIZE :: nat where [size_defs]: "CRYPTO_SECRET_KEY_SIZE = 32"
definition CRYPTO_SHARED_KEY_SIZE :: nat where [size_defs]: "CRYPTO_SHARED_KEY_SIZE = 32"
definition CRYPTO_MAC_SIZE :: nat where [size_defs]: "CRYPTO_MAC_SIZE = 16"
definition CRYPTO_NONCE_SIZE :: nat where [size_defs]: "CRYPTO_NONCE_SIZE = 24"
definition CRYPTO_SHA256_SIZE :: nat where [size_defs]: "CRYPTO_SHA256_SIZE = 32"
definition CRYPTO_SHA512_SIZE :: nat where [size_defs]: "CRYPTO_SHA512_SIZE = 64"
definition ENC_PUBLIC_KEY_SIZE :: nat where [size_defs]: "ENC_PUBLIC_KEY_SIZE = 32"
definition ENC_SECRET_KEY_SIZE :: nat where [size_defs]: "ENC_SECRET_KEY_SIZE = 32"
definition SIG_PUBLIC_KEY_SIZE :: nat where [size_defs]: "SIG_PUBLIC_KEY_SIZE = 32"
definition SIG_SECRET_KEY_SIZE :: nat where [size_defs]: "SIG_SECRET_KEY_SIZE = 64"

text \<open>NaCl's \<^verbatim>\<open>crypto_box_ZEROBYTES\<close> and \<^verbatim>\<open>crypto_box_BOXZEROBYTES\<close>.\<close>

definition crypto_box_ZEROBYTES :: nat where [size_defs]: "crypto_box_ZEROBYTES = 32"
definition crypto_box_BOXZEROBYTES :: nat where [size_defs]: "crypto_box_BOXZEROBYTES = 16"

section \<open>The platform: allocator and NaCl\<close>

text \<open>\<open>None\<close> stands for a non-zero return code. \<open>malloc_ok n\<close> says whether an
  allocation of \<open>n\<close> bytes succeeds.\<close>

record platform =
  malloc_ok :: "nat \<Rightarrow> bool"
  crypto_box_beforenm :: "bytes \<Rightarrow> bytes \<Rightarrow> bytes option"
  crypto_box_afternm :: "bytes \<Rightarrow> bytes \<Rightarrow> bytes \<Rightarrow> bytes option"
  crypto_box_open_afternm :: "bytes \<Rightarrow> bytes \<Rightarrow> bytes \<Rightarrow> bytes option"
  crypto_hash_sha256 :: "bytes \<Rightarrow> bytes"
  crypto_hash_sha512 :: "bytes \<Rightarrow> bytes"
  crypto_auth :: "bytes \<Rightarrow> bytes \<Rightarrow> bytes"
  crypto_auth_verify :: "bytes \<Rightarrow> bytes \<Rightarrow> bytes \<Rightarrow> bool"
  crypto_sign_detached :: "bytes \<Rightarrow> bytes \<Rightarrow> bytes option"
  crypto_sign_verify_detached :: "bytes \<Rightarrow> bytes \<Rightarrow> bytes \<Rightarrow> bool"

text \<open>Any platform, with an allocator that serves every request.\<close>

definition with_memory :: "platform \<Rightarrow> platform" where
  "with_memory P = P\<lparr>malloc_ok := \<lambda>_. True\<rparr>"

lemma malloc_ok_with_memory [simp]: "malloc_ok (with_memory P) s"
  by (simp add: with_memory_def)

section \<open>Keys\<close>

definition get_enc_key :: "bytes \<Rightarrow> bytes" where
  "get_enc_key key = key"

definition get_sig_pk :: "bytes \<Rightarrow> bytes" where
  "get_sig_pk key = drop ENC_PUBLIC_KEY_SIZE key"

definition set_sig_pk :: "bytes \<Rightarrow> bytes \<Rightarrow> bytes" where
  "set_sig_pk key sig_pk = write_at ENC_PUBLIC_KEY_SIZE (take SIG_PUBLIC_KEY_SIZE sig_pk) key"

definition get_sig_sk :: "bytes \<Rightarrow> bytes" where
  "get_sig_sk key = drop ENC_SECRET_KEY_SIZE key"

definition get_chat_id :: "bytes \<Rightarrow> bytes" where
  "get_chat_id key = drop ENC_PUBLIC_KEY_SIZE key"

text \<open>Production builds compare with \<^verbatim>\<open>crypto_verify_32\<close>, the constant-time
  equivalent of the \<^verbatim>\<open>memcmp\<close> of the fuzzing build, which is the one modelled.\<close>

definition pk_equal :: "bytes \<Rightarrow> bytes \<Rightarrow> bool" where
  "pk_equal pk1 pk2 \<longleftrightarrow>
     memcmp (take CRYPTO_PUBLIC_KEY_SIZE pk1) (take CRYPTO_PUBLIC_KEY_SIZE pk2) = 0"

definition pk_copy :: "bytes \<Rightarrow> bytes \<Rightarrow> bytes" where
  "pk_copy dest src = write_at 0 (take CRYPTO_PUBLIC_KEY_SIZE src) dest"

definition crypto_sha512_eq :: "bytes \<Rightarrow> bytes \<Rightarrow> bool" where
  "crypto_sha512_eq c1 c2 \<longleftrightarrow> memcmp (take CRYPTO_SHA512_SIZE c1) (take CRYPTO_SHA512_SIZE c2) = 0"

definition crypto_sha256_eq :: "bytes \<Rightarrow> bytes \<Rightarrow> bool" where
  "crypto_sha256_eq c1 c2 \<longleftrightarrow> memcmp (take CRYPTO_SHA256_SIZE c1) (take CRYPTO_SHA256_SIZE c2) = 0"

text \<open>The \<^verbatim>\<open>VANILLA_NACL\<close> build has only a 32-byte comparison, \<open>verify_32\<close>.\<close>

definition crypto_sha512_eq_nacl :: "(bytes \<Rightarrow> bytes \<Rightarrow> int) \<Rightarrow> bytes \<Rightarrow> bytes \<Rightarrow> bool" where
  "crypto_sha512_eq_nacl verify_32 c1 c2 \<longleftrightarrow>
     (let lo = (if verify_32 c1 c2 = 0 then 1 else 0) :: int;
          hi = (if verify_32 (drop 8 c1) (drop 8 c2) = 0 then 1 else 0)
      in (lo AND hi) = 1)"

definition public_key_valid :: "bytes \<Rightarrow> bool" where
  "public_key_valid public_key \<longleftrightarrow> public_key ! 31 < 128"

section \<open>Encryption\<close>

text \<open>The length returned by the C functions is the length of the returned buffer,
  \<open>None\<close> is \<open>-1\<close>. A shared key may be a null pointer (the key cache returns one),
  hence the option.\<close>

definition encrypt_precompute :: "platform \<Rightarrow> bytes \<Rightarrow> bytes \<Rightarrow> bytes option" where
  "encrypt_precompute P public_key secret_key = crypto_box_beforenm P public_key secret_key"

definition encrypt_data_symmetric :: "platform \<Rightarrow> bytes option \<Rightarrow> bytes \<Rightarrow> bytes \<Rightarrow> bytes option" where
  "encrypt_data_symmetric P shared_key nonce plain =
     (if length plain = 0 then None
      else case shared_key of None \<Rightarrow> None | Some key \<Rightarrow>
        let size_temp_plain = length plain + crypto_box_ZEROBYTES;
            size_temp_encrypted = length plain + CRYPTO_MAC_SIZE + crypto_box_BOXZEROBYTES
        in if \<not> malloc_ok P size_temp_plain \<or> \<not> malloc_ok P size_temp_encrypted then None
           else case crypto_box_afternm P (replicate crypto_box_ZEROBYTES 0 @ plain) nonce key of
               None \<Rightarrow> None
             | Some temp_encrypted \<Rightarrow>
                 Some (slice crypto_box_BOXZEROBYTES (length plain + CRYPTO_MAC_SIZE) temp_encrypted))"

definition decrypt_data_symmetric :: "platform \<Rightarrow> bytes option \<Rightarrow> bytes \<Rightarrow> bytes \<Rightarrow> bytes option" where
  "decrypt_data_symmetric P shared_key nonce encrypted =
     (if length encrypted \<le> crypto_box_BOXZEROBYTES then None
      else case shared_key of None \<Rightarrow> None | Some key \<Rightarrow>
        let size_temp_plain = length encrypted + crypto_box_ZEROBYTES;
            size_temp_encrypted = length encrypted + crypto_box_BOXZEROBYTES
        in if \<not> malloc_ok P size_temp_plain \<or> \<not> malloc_ok P size_temp_encrypted then None
           else case crypto_box_open_afternm P (replicate crypto_box_BOXZEROBYTES 0 @ encrypted) nonce key of
               None \<Rightarrow> None
             | Some temp_plain \<Rightarrow>
                 Some (slice crypto_box_ZEROBYTES (length encrypted - CRYPTO_MAC_SIZE) temp_plain))"

text \<open>\<^verbatim>\<open>encrypt_data\<close> ignores the result of \<^verbatim>\<open>encrypt_precompute\<close>: on its failure the key
  buffer holds whatever the stack held, the argument \<open>stack\<close>.\<close>

definition encrypt_data ::
  "platform \<Rightarrow> bytes \<Rightarrow> bytes \<Rightarrow> bytes \<Rightarrow> bytes \<Rightarrow> bytes \<Rightarrow> bytes option" where
  "encrypt_data P stack public_key secret_key nonce plain =
     (let k = (case encrypt_precompute P public_key secret_key of None \<Rightarrow> stack | Some k \<Rightarrow> k)
      in encrypt_data_symmetric P (Some k) nonce plain)"

definition decrypt_data ::
  "platform \<Rightarrow> bytes \<Rightarrow> bytes \<Rightarrow> bytes \<Rightarrow> bytes \<Rightarrow> bytes \<Rightarrow> bytes option" where
  "decrypt_data P stack public_key secret_key nonce encrypted =
     (let k = (case encrypt_precompute P public_key secret_key of None \<Rightarrow> stack | Some k \<Rightarrow> k)
      in decrypt_data_symmetric P (Some k) nonce encrypted)"

text \<open>The fuzzing build does not encrypt: the plain text followed by a zero MAC.\<close>

definition encrypt_data_symmetric_fuzz :: "bytes option \<Rightarrow> bytes \<Rightarrow> bytes \<Rightarrow> bytes option" where
  "encrypt_data_symmetric_fuzz shared_key nonce plain =
     (if length plain = 0 \<or> shared_key = None then None
      else Some (plain @ replicate CRYPTO_MAC_SIZE 0))"

definition decrypt_data_symmetric_fuzz :: "bytes option \<Rightarrow> bytes \<Rightarrow> bytes \<Rightarrow> bytes option" where
  "decrypt_data_symmetric_fuzz shared_key nonce encrypted =
     (if length encrypted \<le> crypto_box_BOXZEROBYTES \<or> shared_key = None then None
      else Some (take (length encrypted - CRYPTO_MAC_SIZE) encrypted))"

section \<open>Nonces\<close>

text \<open>\<open>i\<close> is the C loop counter: the byte worked on is \<open>nonce[i - 1]\<close>.\<close>

fun increment_nonce_loop :: "nat \<Rightarrow> u16 \<Rightarrow> bytes \<Rightarrow> bytes" where
  "increment_nonce_loop 0 carry nonce = nonce"
| "increment_nonce_loop (Suc i) carry nonce =
     (let carry = carry + ucast (nonce ! i)
      in increment_nonce_loop i (drop_bit 8 carry) (nonce[i := ucast carry]))"

definition increment_nonce :: "bytes \<Rightarrow> bytes" where
  "increment_nonce nonce = increment_nonce_loop CRYPTO_NONCE_SIZE 1 nonce"

fun increment_nonce_number_loop :: "nat \<Rightarrow> u16 \<Rightarrow> bytes \<Rightarrow> bytes \<Rightarrow> bytes" where
  "increment_nonce_number_loop 0 carry num_as_nonce nonce = nonce"
| "increment_nonce_number_loop (Suc i) carry num_as_nonce nonce =
     (let carry = carry + (ucast (nonce ! i) + ucast (num_as_nonce ! i))
      in increment_nonce_number_loop i (drop_bit 8 carry) num_as_nonce (nonce[i := ucast carry]))"

definition num_as_nonce :: "u32 \<Rightarrow> bytes" where
  "num_as_nonce increment =
     (replicate CRYPTO_NONCE_SIZE 0)
       [CRYPTO_NONCE_SIZE - 4 := ucast (drop_bit 24 increment),
        CRYPTO_NONCE_SIZE - 3 := ucast (drop_bit 16 increment),
        CRYPTO_NONCE_SIZE - 2 := ucast (drop_bit 8 increment),
        CRYPTO_NONCE_SIZE - 1 := ucast increment]"

definition increment_nonce_number :: "bytes \<Rightarrow> u32 \<Rightarrow> bytes" where
  "increment_nonce_number nonce increment =
     increment_nonce_number_loop CRYPTO_NONCE_SIZE 0 (num_as_nonce increment) nonce"

section \<open>Message authentication, hashes, signatures\<close>

definition crypto_hmac :: "platform \<Rightarrow> bytes \<Rightarrow> bytes \<Rightarrow> bytes" where
  "crypto_hmac P key data = crypto_auth P data key"

definition crypto_hmac_verify :: "platform \<Rightarrow> bytes \<Rightarrow> bytes \<Rightarrow> bytes \<Rightarrow> bool" where
  "crypto_hmac_verify P auth key data \<longleftrightarrow> crypto_auth_verify P auth data key"

definition crypto_sha256 :: "platform \<Rightarrow> bytes \<Rightarrow> bytes" where
  "crypto_sha256 P data = crypto_hash_sha256 P data"

definition crypto_sha512 :: "platform \<Rightarrow> bytes \<Rightarrow> bytes" where
  "crypto_sha512 P data = crypto_hash_sha512 P data"

definition crypto_signature_create :: "platform \<Rightarrow> bytes \<Rightarrow> bytes \<Rightarrow> bytes option" where
  "crypto_signature_create P message secret_key = crypto_sign_detached P message secret_key"

definition crypto_signature_verify :: "platform \<Rightarrow> bytes \<Rightarrow> bytes \<Rightarrow> bytes \<Rightarrow> bool" where
  "crypto_signature_verify P signature message public_key =
     crypto_sign_verify_detached P signature message public_key"

section \<open>Keys: lemmas\<close>

lemma pk_equal_iff: "length a = 32 \<Longrightarrow> length b = 32 \<Longrightarrow> pk_equal a b \<longleftrightarrow> a = b"
  by (simp add: pk_equal_def size_defs memcmp_eq_0)

lemma pk_equal_refl [simp]: "pk_equal a a"
  by (simp add: pk_equal_def memcmp_eq_0)

lemma pk_equal_sym: "length a \<ge> 32 \<Longrightarrow> length b \<ge> 32 \<Longrightarrow> pk_equal a b = pk_equal b a"
  by (auto simp: pk_equal_def size_defs memcmp_eq_0)

lemma pk_copy_eq [simp]: "length dest = 32 \<Longrightarrow> length src = 32 \<Longrightarrow> pk_copy dest src = src"
  by (simp add: pk_copy_def write_at_def size_defs)

lemma crypto_sha512_eq_iff: "length a = 64 \<Longrightarrow> length b = 64 \<Longrightarrow> crypto_sha512_eq a b \<longleftrightarrow> a = b"
  by (simp add: crypto_sha512_eq_def size_defs memcmp_eq_0)

lemma get_sig_pk_set_sig_pk:
  "length key = 64 \<Longrightarrow> length sig = 32 \<Longrightarrow> get_sig_pk (set_sig_pk key sig) = sig"
  by (simp add: get_sig_pk_def set_sig_pk_def write_at_def size_defs)

section \<open>The interface the rest of the code uses\<close>

text \<open>What clients rely on: authenticated encryption under a key that may be a null
  pointer.\<close>

locale secretbox =
  fixes enc :: "bytes option \<Rightarrow> bytes \<Rightarrow> bytes \<Rightarrow> bytes option"
    and dec :: "bytes option \<Rightarrow> bytes \<Rightarrow> bytes \<Rightarrow> bytes option"
  assumes enc_defined: "p \<noteq> [] \<Longrightarrow> \<exists>c. enc (Some key) n p = Some c"
    and enc_null_key: "enc None n p = None"
    and enc_empty: "enc k n [] = None"
    and length_enc: "enc k n p = Some c \<Longrightarrow> length c = length p + 16"
    and dec_enc: "enc k n p = Some c \<Longrightarrow> dec k n c = Some p"
    and dec_null_key: "dec None n c = None"
    and dec_short: "length c \<le> 16 \<Longrightarrow> dec k n c = None"
begin

lemma enc_SomeD: "enc k n p = Some c \<Longrightarrow> p \<noteq> [] \<and> k \<noteq> None"
  using enc_empty enc_null_key by (metis option.distinct(1))

lemma enc_cases:
  assumes "p \<noteq> []"
  obtains c where "enc (Some k) n p = Some c" "length c = length p + 16" "dec (Some k) n c = Some p"
  using enc_defined [OF assms] length_enc dec_enc by blast

end

text \<open>The documented contract of the NaCl calls: a message with 32 leading zero bytes
  encrypts to a box of the same length with 16 leading zero bytes, which opens to
  the message. Memory is available.\<close>

locale box_platform =
  fixes P :: platform
  assumes memory: "malloc_ok P sz"
    and afternm: "length m \<ge> 32 \<Longrightarrow> take 32 m = replicate 32 0 \<Longrightarrow>
      \<exists>c. crypto_box_afternm P m n k = Some c \<and> length c = length m \<and>
          take 16 c = replicate 16 0 \<and> crypto_box_open_afternm P c n k = Some m"
begin

lemma encrypt_decrypt:
  assumes "p \<noteq> []"
  shows "\<exists>c. encrypt_data_symmetric P (Some k) n p = Some c \<and> length c = length p + 16 \<and>
             decrypt_data_symmetric P (Some k) n c = Some p"
proof -
  obtain b where b: "crypto_box_afternm P (replicate 32 0 @ p) n k = Some b"
    and len: "length b = 32 + length p" and z: "take 16 b = replicate 16 0"
    and opened: "crypto_box_open_afternm P b n k = Some (replicate 32 0 @ p)"
    using afternm [of "replicate 32 0 @ p" n k] by auto
  let ?c = "slice 16 (length p + 16) b"
  have c: "replicate 16 0 @ ?c = b"
    using len by (subst z [symmetric]) (simp add: slice_def)
  have "encrypt_data_symmetric P (Some k) n p = Some ?c"
    using assms b by (simp add: encrypt_data_symmetric_def size_defs memory)
  moreover have "decrypt_data_symmetric P (Some k) n ?c = Some p"
    using assms opened len c by (simp add: decrypt_data_symmetric_def size_defs memory slice_def)
  moreover have "length ?c = length p + 16"
    using len by (simp add: slice_def)
  ultimately show ?thesis by blast
qed

end

sublocale box_platform \<subseteq> secretbox "encrypt_data_symmetric P" "decrypt_data_symmetric P"
proof unfold_locales
  fix k n p c
  assume enc: "encrypt_data_symmetric P k n p = Some c"
  then obtain key where key: "k = Some key" and ne: "p \<noteq> []"
    by (auto simp: encrypt_data_symmetric_def split: option.splits if_splits)
  with encrypt_decrypt [OF ne, of key n] enc
  show "length c = length p + 16" "decrypt_data_symmetric P k n c = Some p"
    by auto
next
  fix p n key :: bytes
  assume "p \<noteq> []"
  then show "\<exists>c. encrypt_data_symmetric P (Some key) n p = Some c"
    using encrypt_decrypt by blast
qed (simp_all add: encrypt_data_symmetric_def decrypt_data_symmetric_def size_defs split: option.split)

text \<open>The fuzzing build as a platform: the NaCl calls it replaces are chosen so that the
  production definitions compute exactly what the fuzzing build computes.\<close>

definition fuzz_platform :: platform where
  "fuzz_platform =
     \<lparr>malloc_ok = (\<lambda>_. True),
      crypto_box_beforenm = (\<lambda>pk sk. Some (take CRYPTO_SHARED_KEY_SIZE pk)),
      crypto_box_afternm = (\<lambda>m n k. Some (replicate 16 0 @ drop 32 m @ replicate 16 0)),
      crypto_box_open_afternm = (\<lambda>c n k. Some (replicate 32 0 @ take (length c - 32) (drop 16 c))),
      crypto_hash_sha256 = (\<lambda>d. take 32 (d @ replicate 32 0)),
      crypto_hash_sha512 = (\<lambda>d. take 64 (d @ replicate 64 0)),
      crypto_auth = (\<lambda>d key. take 16 key @ take 16 d @ replicate (16 - length d) 0),
      crypto_auth_verify = (\<lambda>auth d key. auth = take 16 key @ take 16 d @ replicate (16 - length d) 0),
      crypto_sign_detached = (\<lambda>m sk. None),
      crypto_sign_verify_detached = (\<lambda>s m pk. False)\<rparr>"

lemma malloc_ok_fuzz [simp]: "malloc_ok fuzz_platform s"
  by (simp add: fuzz_platform_def)

lemma encrypt_fuzz: "encrypt_data_symmetric fuzz_platform = encrypt_data_symmetric_fuzz"
  by (intro ext) (simp add: encrypt_data_symmetric_def encrypt_data_symmetric_fuzz_def
    fuzz_platform_def size_defs slice_def split: option.split)

lemma decrypt_fuzz: "decrypt_data_symmetric fuzz_platform = decrypt_data_symmetric_fuzz"
  by (intro ext) (auto simp: decrypt_data_symmetric_def decrypt_data_symmetric_fuzz_def
    fuzz_platform_def size_defs slice_def split: option.split)

interpretation fuzz: box_platform fuzz_platform
proof unfold_locales
  fix m n k :: bytes
  assume "length m \<ge> 32" and z: "take 32 m = replicate 32 0"
  moreover have "replicate 32 0 @ drop 32 m = m"
    unfolding z [symmetric] by simp
  ultimately show "\<exists>c. crypto_box_afternm fuzz_platform m n k = Some c \<and> length c = length m \<and>
      take 16 c = replicate 16 0 \<and> crypto_box_open_afternm fuzz_platform c n k = Some m"
    by (simp add: fuzz_platform_def)
qed (simp add: fuzz_platform_def)

section \<open>Nonce arithmetic\<close>

text \<open>\<^verbatim>\<open>increment_nonce\<close> is the other loop with nothing added.\<close>

lemma increment_nonce_loop_eq:
  "n \<le> length z \<Longrightarrow> (\<forall>j < n. z ! j = 0) \<Longrightarrow>
   increment_nonce_loop n carry nonce = increment_nonce_number_loop n carry z nonce"
  by (induction n carry nonce rule: increment_nonce_loop.induct) (simp_all add: Let_def)

lemma length_increment_nonce_number_loop [simp]:
  "length (increment_nonce_number_loop n carry z nonce) = length nonce"
  by (induction n carry z nonce rule: increment_nonce_number_loop.induct) (simp_all add: Let_def)

text \<open>One step of schoolbook addition: the sum of two bytes and a carry of at most one
  does not wrap in 16 bits, its low byte is stored and its high part is the next
  carry.\<close>

lemma carry_step:
  fixes carry :: u16 and a b :: byte
  assumes "unat carry \<le> 1"
  defines "s \<equiv> carry + (ucast a + ucast b)"
  shows "unat (drop_bit 8 s) = (unat carry + unat a + unat b) div 256"
    and "unat (ucast s :: byte) = (unat carry + unat a + unat b) mod 256"
    and "unat (drop_bit 8 s) \<le> 1"
proof -
  have u: "unat (ucast a :: u16) = unat a" "unat (ucast b :: u16) = unat b"
    by (simp_all only: unsigned_ucast_eq take_bit_eq_mod)
      (rule mod_less, rule order.strict_trans [OF byte_bound], simp)+
  have "unat carry + unat a + unat b < 2 ^ 16"
    using assms(1) byte_bound [of a] byte_bound [of b] unfolding power_numeral by simp
  then have s: "unat s = unat carry + unat a + unat b"
    by (simp add: s_def unat_word_ariths u)
  then show d: "unat (drop_bit 8 s) = (unat carry + unat a + unat b) div 256"
    using unat_drop_bit_eq [of 8 s] by (simp add: drop_bit_eq_div)
  show "unat (ucast s :: byte) = (unat carry + unat a + unat b) mod 256"
    using s by (simp add: unsigned_ucast_eq take_bit_eq_mod)
  show "unat (drop_bit 8 s) \<le> 1"
    using d assms(1) byte_bound [of a] byte_bound [of b] by linarith
qed

lemma be_val_snoc: "be_val (xs @ [x]) = be_val xs * 256 + unat x"
  by (simp add: be_val_append)

text \<open>The loop adds the first \<open>n\<close> bytes, carry included, and leaves the rest alone.\<close>

lemma increment_nonce_number_loop_value:
  assumes "n \<le> length nonce" and "n \<le> length z" and "unat carry \<le> 1"
  shows "be_val (take n (increment_nonce_number_loop n carry z nonce)) =
           (be_val (take n nonce) + be_val (take n z) + unat carry) mod 256 ^ n \<and>
         drop n (increment_nonce_number_loop n carry z nonce) = drop n nonce"
  using assms
proof (induction n arbitrary: carry nonce)
  case 0
  then show ?case by simp
next
  case (Suc n)
  define s where "s = carry + (ucast (nonce ! n) + ucast (z ! n))"
  define nonce' where "nonce' = nonce[n := ucast s]"
  define r where "r = increment_nonce_number_loop n (drop_bit 8 s) z nonce'"
  let ?t = "unat carry + unat (nonce ! n) + unat (z ! n)"
  have step: "unat (drop_bit 8 s) = ?t div 256" "unat (ucast s :: byte) = ?t mod 256" "unat (drop_bit 8 s) \<le> 1"
    using carry_step [OF Suc.prems(3), of "nonce ! n" "z ! n"] by (simp_all add: s_def)
  have len: "n < length nonce" "n < length z" "length nonce' = length nonce" "length r = length nonce"
    using Suc.prems by (simp_all add: nonce'_def r_def)
  have IH: "be_val (take n r) = (be_val (take n nonce) + be_val (take n z) + ?t div 256) mod 256 ^ n"
    "drop n r = drop n nonce'"
    using Suc.IH [of nonce' "drop_bit 8 s"] len step by (simp_all add: r_def nonce'_def)
  have rn: "r ! n = ucast s"
    using IH(2) len by (metis Cons_nth_drop_Suc list.sel(1) nonce'_def nth_list_update_eq)
  have "be_val (take (Suc n) r) = be_val (take n r) * 256 + ?t mod 256"
    using len rn step(2) by (simp add: take_Suc_conv_app_nth be_val_snoc)
  also have "\<dots> = ((be_val (take n nonce) + be_val (take n z)) * 256 + ?t) mod 256 ^ Suc n"
  proof -
    let ?a = "be_val (take n nonce) + be_val (take n z)"
    have "(?a * 256 + ?t) mod (256 * 256 ^ n) = 256 * ((?a * 256 + ?t) div 256 mod 256 ^ n) + (?a * 256 + ?t) mod 256"
      by (rule mod_mult2_eq)
    also have "(?a * 256 + ?t) div 256 = ?a + ?t div 256"
      by simp
    also have "(?a * 256 + ?t) mod 256 = ?t mod 256"
      by (rule mod_mult_self3)
    finally show ?thesis by (simp only: IH(1) power_Suc mult.commute [of _ 256])
  qed
  also have "(be_val (take n nonce) + be_val (take n z)) * 256 + ?t
      = be_val (take (Suc n) nonce) + be_val (take (Suc n) z) + unat carry"
    using len by (simp add: take_Suc_conv_app_nth be_val_snoc)
  finally have "be_val (take (Suc n) r) =
      (be_val (take (Suc n) nonce) + be_val (take (Suc n) z) + unat carry) mod 256 ^ Suc n" .
  moreover have "drop (Suc n) r = drop (Suc n) nonce"
    using IH(2) by (metis drop_Suc drop_update_cancel lessI nonce'_def tl_drop)
  ultimately show ?case by (simp add: r_def s_def nonce'_def Let_def)
qed

lemma be_val_zeros: "be_val (replicate n 0 @ xs) = be_val xs"
  by (induction n) simp_all

lemma num_as_nonce_eq:
  "num_as_nonce w = replicate 20 0 @
     [ucast (drop_bit 24 w), ucast (drop_bit 16 w), ucast (drop_bit 8 w), ucast w]"
proof -
  have "replicate 24 (0 :: byte) = replicate 20 0 @ [0, 0, 0, 0]"
    using replicate_add [of 20 4 "0 :: byte"] by (simp add: eval_nat_numeral)
  then show ?thesis
    by (simp add: num_as_nonce_def CRYPTO_NONCE_SIZE_def list_update_append del: replicate.simps)
qed

lemma byte_digits:
  "x div 256 div 256 div 256 * 16777216 + x div 256 div 256 mod 256 * 65536 + x div 256 mod 256 * 256 + x mod 256 = (x :: nat)"
proof -
  define q1 q2 q3 where "q1 = x div 256" and "q2 = q1 div 256" and "q3 = q2 div 256"
  have "q1 * 256 + x mod 256 = x" "q2 * 256 + q1 mod 256 = q1" "q3 * 256 + q2 mod 256 = q2"
    unfolding q1_def q2_def q3_def by (rule div_mult_mod_eq)+
  then show ?thesis
    unfolding q3_def [symmetric] q2_def [symmetric] q1_def [symmetric] by linarith
qed

lemma be_val_num_as_nonce: "be_val (num_as_nonce w) = unat w"
proof -
  have b: "unat (ucast (drop_bit k w) :: byte) = unat w div 2 ^ k mod 256" for k
  proof -
    have "unat (drop_bit k w) = drop_bit k (unat w)"
      by (rule unat_drop_bit_eq)
    then show ?thesis
      by (simp only: unsigned_ucast_eq take_bit_eq_mod drop_bit_eq_div) simp
  qed
  have b0: "unat (ucast w :: byte) = unat w mod 256"
    by (simp add: unsigned_ucast_eq take_bit_eq_mod)
  have w: "unat w < 2 ^ 32" using unsigned_less [of w] by simp
  have "be_val (num_as_nonce w) =
      (unat w div 2 ^ 24 mod 256) * 256 ^ 3 + (unat w div 2 ^ 16 mod 256) * 256 ^ 2 +
      (unat w div 2 ^ 8 mod 256) * 256 + unat w mod 256"
    by (simp add: num_as_nonce_eq be_val_zeros b b0 numeral_3_eq_3 numeral_2_eq_2)
  also have "\<dots> = unat w"
    using w byte_digits [of "unat w"] by (simp add: div_mult2_eq [symmetric])
  finally show ?thesis .
qed

lemma increment_nonce_number_value:
  assumes "length nonce = 24"
  shows "be_val (increment_nonce_number nonce k) = (be_val nonce + unat k) mod 2 ^ 192"
    and "length (increment_nonce_number nonce k) = 24"
proof -
  have "length (num_as_nonce k) = 24"
    by (simp add: num_as_nonce_def size_defs)
  then show "be_val (increment_nonce_number nonce k) = (be_val nonce + unat k) mod 2 ^ 192"
    using increment_nonce_number_loop_value [of 24 nonce "num_as_nonce k" 0] assms
    by (simp add: increment_nonce_number_def CRYPTO_NONCE_SIZE_def be_val_num_as_nonce)
  show "length (increment_nonce_number nonce k) = 24"
    using assms by (simp add: increment_nonce_number_def)
qed

lemma increment_nonce_eq_number:
  "length nonce = 24 \<Longrightarrow> increment_nonce nonce = increment_nonce_number nonce 1"
proof -
  assume len: "length nonce = 24"
  let ?z = "replicate 24 0 :: bytes"
  have inc: "increment_nonce nonce = increment_nonce_number_loop 24 1 ?z nonce"
    unfolding increment_nonce_def CRYPTO_NONCE_SIZE_def by (rule increment_nonce_loop_eq) simp_all
  have "be_val ?z = 0"
    using be_val_zeros [of 24 "[]"] by simp
  then have "be_val (increment_nonce nonce) = (be_val nonce + 1) mod 2 ^ 192"
    using increment_nonce_number_loop_value [of 24 nonce ?z 1] len by (simp add: inc)
  with increment_nonce_number_value [OF len, of 1] show ?thesis
    using len by (intro be_val_inject) (simp_all add: inc)
qed

lemma length_increment_nonce [simp]: "length nonce = 24 \<Longrightarrow> length (increment_nonce nonce) = 24"
  by (simp add: increment_nonce_eq_number increment_nonce_number_value)

section \<open>Properties\<close>

lemma add_left_cancel_mod_nat:
  fixes a b c m :: nat
  assumes "(a + b) mod m = (a + c) mod m"
  shows "b mod m = c mod m"
proof -
  have "(int a + int b) mod int m = (int a + int c) mod int m"
    using assms by (metis of_nat_add of_nat_mod)
  then have "int b mod int m = int c mod int m"
    by (metis add_diff_cancel_left' mod_diff_left_eq)
  then show ?thesis by (metis of_nat_eq_iff of_nat_mod)
qed

text \<open>Under the documented contract of the NaCl calls, everything that
  \<^verbatim>\<open>encrypt_data_symmetric\<close> produces is 16 bytes longer than the plain text and decrypts
  to it under the same key and nonce; with a key and a non-empty plain text it always
  produces something.\<close>

theorem encrypt_decrypt_symmetric:
  assumes "box_platform P"
  shows "(case encrypt_data_symmetric P k n p of
      None \<Rightarrow> k = None \<or> p = []
    | Some c \<Rightarrow> length c = length p + CRYPTO_MAC_SIZE \<and> decrypt_data_symmetric P k n c = Some p)"
proof (cases "k = None \<or> p = []")
  case True
  then show ?thesis by (auto simp: encrypt_data_symmetric_def split: option.split)
next
  case False
  then obtain key where "k = Some key" "p \<noteq> []" by auto
  then show ?thesis
    using box_platform.encrypt_decrypt [OF assms, of p key n] by (auto simp: size_defs)
qed

theorem encrypt_decrypt_symmetric_witness:
  "encrypt_data_symmetric fuzz_platform (Some [9]) [0] [1, 2] \<noteq> None \<and>
   (case encrypt_data_symmetric fuzz_platform (Some [9]) [0] [1, 2] of
      None \<Rightarrow> Some [9 :: byte] = None \<or> [1, 2 :: byte] = []
    | Some c \<Rightarrow> length c = length [1, 2 :: byte] + CRYPTO_MAC_SIZE \<and>
        decrypt_data_symmetric fuzz_platform (Some [9]) [0] c = Some [1, 2])"
  using encrypt_decrypt_symmetric [OF fuzz.box_platform_axioms, of "Some [9]" "[1, 2]" "[0]"]
  by (auto split: option.splits)

text \<open>The two nonce routines are addition modulo \<open>2 ^ 192\<close> on the nonce read as a
  big-endian number, keep its length, agree for an increment of one, and give
  different nonces for different increments.\<close>

theorem nonce_arithmetic:
  assumes "length nonce = CRYPTO_NONCE_SIZE"
  shows "be_val (increment_nonce_number nonce k) = (be_val nonce + unat k) mod 2 ^ 192 \<and>
    length (increment_nonce_number nonce k) = CRYPTO_NONCE_SIZE \<and>
    increment_nonce nonce = increment_nonce_number nonce 1 \<and>
    (increment_nonce_number nonce k = increment_nonce_number nonce j \<longrightarrow> k = j)"
proof -
  have len: "length nonce = 24" using assms by (simp add: size_defs)
  have "k = j" if "increment_nonce_number nonce k = increment_nonce_number nonce j"
  proof -
    have "(be_val nonce + unat k) mod 2 ^ 192 = (be_val nonce + unat j) mod 2 ^ 192"
      using that increment_nonce_number_value(1) [OF len] by metis
    moreover have "unat k < 2 ^ 192" "unat j < 2 ^ 192"
      by (rule order_less_trans [OF unsigned_less], simp)+
    ultimately have "unat k = unat j"
      by (metis add_left_cancel_mod_nat mod_less)
    then show ?thesis by (simp add: unsigned_word_eqI)
  qed
  then show ?thesis
    using increment_nonce_number_value [OF len] increment_nonce_eq_number [OF len] by (simp add: size_defs)
qed

theorem nonce_arithmetic_witness:
  "be_val (increment_nonce_number (replicate 24 255) 2) = (be_val (replicate 24 255) + unat (2 :: u32)) mod 2 ^ 192 \<and>
    length (increment_nonce_number (replicate 24 255) 2) = CRYPTO_NONCE_SIZE \<and>
    increment_nonce (replicate 24 255) = increment_nonce_number (replicate 24 255) 1 \<and>
    increment_nonce_number (replicate 24 255) 2 \<noteq> increment_nonce_number (replicate 24 255) 3"
  using nonce_arithmetic [of "replicate 24 255" 2 3] by (simp add: size_defs)

end
