(* ===== verification/BS_List.thy ===== *)
theory BS_List
  imports Crypto_Core
begin

text \<open>
  \<^verbatim>\<open>toxcore/list.c\<close>: a sorted array of fixed-size byte strings with an id for each,
  searched by a halving walk (\<^verbatim>\<open>find\<close>). The model keeps the two C arrays as they
  are: one flat byte buffer of \<open>capacity * element_size\<close> bytes and one array of
  \<open>capacity\<close> ids, of which the first \<open>n\<close> elements are in use; insertion and removal
  are the \<^verbatim>\<open>memmove\<close>s of the source. Reading outside the used part of the buffer
  is \<open>None\<close> in the search loop, and the search is shown never to do it.

  Shown here: the walk terminates and finds an element exactly if it is there,
  otherwise its insertion point; the operations keep the array sorted and
  implement a finite map from byte strings to ids (locale \<open>id_index\<close>, interpreted
  on these definitions).
\<close>

section \<open>Definitions\<close>

record BS_List =
  bs_n :: nat
  bs_capacity :: nat
  bs_element_size :: nat
  bs_data :: bytes
  bs_ids :: "int list"

text \<open>The \<open>i\<close>-th element of the flat buffer.\<close>

definition bs_elem :: "BS_List \<Rightarrow> nat \<Rightarrow> bytes" where
  "bs_elem l i = slice (bs_element_size l * i) (bs_element_size l) (bs_data l)"

definition list_index :: "u32 \<Rightarrow> int" where
  "list_index i = sint (NOT i)"

text \<open>A bound on the steps the walk still makes with a step width of one.\<close>

definition find_second_measure :: "nat \<Rightarrow> nat \<Rightarrow> nat \<Rightarrow> int \<Rightarrow> nat" where
  "find_second_measure n i delta d =
     (if delta = 0 then n + 3 else if d = 1 then n - i else if d = 0 then Suc i else n + 2)"

text \<open>The loop of \<^verbatim>\<open>find\<close>: \<open>i\<close> is the position, \<open>delta\<close> the step, \<open>d\<close> the direction of the
  last single step.\<close>

function find_loop :: "BS_List \<Rightarrow> bytes \<Rightarrow> nat \<Rightarrow> nat \<Rightarrow> int \<Rightarrow> int option" where
  "find_loop l data i delta d =
     (if i \<ge> bs_n l then None
      else
        let r = memcmp data (bs_elem l i) in
        if r = 0 then Some (int i)
        else if r > 0 then
          (if d = 0 \<or> i + delta = bs_n l then Some (list_index (of_nat (i + delta)))
           else if delta div 2 = 0 then find_loop l data (i + delta) 1 1
           else find_loop l data (i + delta) (delta div 2) d)
        else
          (if d = 1 \<or> i = 0 then Some (list_index (of_nat i))
           else if i < delta then None
           else if delta div 2 = 0 then find_loop l data (i - delta) 1 0
           else find_loop l data (i - delta) (delta div 2) d))"
  by pat_completeness auto

termination
  by (relation "measures [\<lambda>(l, data, i, delta, d). max 1 delta,
                          \<lambda>(l, data, i, delta, d). find_second_measure (bs_n l) i delta d]")
    (auto simp: find_second_measure_def max_def)

declare find_loop.simps [simp del]

definition find :: "BS_List \<Rightarrow> bytes \<Rightarrow> int option" where
  "find l data =
     (if bs_n l = 0 then Some (list_index 0)
      else
        let i = bs_n l div 2;
            delta = i div 2;
            delta = (if delta = 0 then 1 else delta)
        in find_loop l data i delta (- 1))"

definition bs_list_free :: "BS_List \<Rightarrow> BS_List" where
  "bs_list_free l = l\<lparr>bs_data := [], bs_ids := []\<rparr>"

text \<open>\<^verbatim>\<open>realloc\<close> keeps the common prefix; \<open>fill\<close> stands for the indeterminate new bytes.
  The byte count handed to it is a product of two \<^verbatim>\<open>uint32_t\<close> and wraps.\<close>

definition realloc_list :: "'a \<Rightarrow> nat \<Rightarrow> 'a list \<Rightarrow> 'a list" where
  "realloc_list fill m xs = take m xs @ replicate (m - length xs) fill"

definition resize :: "platform \<Rightarrow> byte \<times> int \<Rightarrow> BS_List \<Rightarrow> nat \<Rightarrow> bool \<times> BS_List" where
  "resize P fill l new_size =
     (if new_size = 0 then (True, bs_list_free l)
      else
        let sz = bs_element_size l * new_size mod 2 ^ 32 in
        if \<not> malloc_ok P sz then (False, l)
        else
        let l = l\<lparr>bs_data := realloc_list (fst fill) sz (bs_data l)\<rparr>
        in if \<not> malloc_ok P (4 * new_size) then (False, l)
           else (True, l\<lparr>bs_ids := realloc_list (snd fill) new_size (bs_ids l)\<rparr>))"

definition bs_list_init :: "platform \<Rightarrow> byte \<times> int \<Rightarrow> nat \<Rightarrow> nat \<Rightarrow> int \<times> BS_List" where
  "bs_list_init P fill element_size initial_capacity =
     (let l = \<lparr>bs_n = 0, bs_capacity = 0, bs_element_size = element_size, bs_data = [], bs_ids = []\<rparr>
      in if initial_capacity \<noteq> 0 then
           (case resize P fill l initial_capacity of (ok, l) \<Rightarrow>
              if \<not> ok then (0, l) else (1, l\<lparr>bs_capacity := initial_capacity\<rparr>))
         else (1, l\<lparr>bs_capacity := initial_capacity\<rparr>))"

definition bs_list_find :: "BS_List \<Rightarrow> bytes \<Rightarrow> int option" where
  "bs_list_find l data =
     (case find l data of None \<Rightarrow> None
      | Some r \<Rightarrow> if r < 0 then Some (- 1) else Some (bs_ids l ! nat r))"

text \<open>Growing the arrays when they are full (first half of \<^verbatim>\<open>bs_list_add\<close>).\<close>

definition bs_grow :: "platform \<Rightarrow> byte \<times> int \<Rightarrow> BS_List \<Rightarrow> bool \<times> BS_List" where
  "bs_grow P fill l =
     (if bs_n l = bs_capacity l then
        let new_capacity = bs_n l + bs_n l div 2 + 1;
            (ok, l) = resize P fill l new_capacity
        in if \<not> ok then (False, l) else (True, l\<lparr>bs_capacity := new_capacity\<rparr>)
      else (True, l))"

text \<open>The insertion proper: two \<^verbatim>\<open>memmove\<close>s and two stores.\<close>

definition bs_insert_at :: "BS_List \<Rightarrow> nat \<Rightarrow> bytes \<Rightarrow> int \<Rightarrow> BS_List" where
  "bs_insert_at l i data ident =
     (let es = bs_element_size l;
          data1 = memmove_at ((i + 1) * es) (i * es) ((bs_n l - i) * es) (bs_data l);
          data2 = write_at (i * es) (take es data) data1;
          ids1 = memmove_at (i + 1) i (bs_n l - i) (bs_ids l);
          ids2 = ids1[i := ident]
      in l\<lparr>bs_data := data2, bs_ids := ids2, bs_n := bs_n l + 1\<rparr>)"

definition bs_list_add ::
  "platform \<Rightarrow> byte \<times> int \<Rightarrow> BS_List \<Rightarrow> bytes \<Rightarrow> int \<Rightarrow> (bool \<times> BS_List) option" where
  "bs_list_add P fill l data ident =
     (case find l data of None \<Rightarrow> None
      | Some r \<Rightarrow>
          if r \<ge> 0 then Some (False, l)
          else
            let i = nat (NOT r);
                (ok, l) = bs_grow P fill l
            in if \<not> ok then Some (False, l) else Some (True, bs_insert_at l i data ident))"

text \<open>Shrinking the arrays (first half of \<^verbatim>\<open>bs_list_remove\<close>).\<close>

definition bs_shrink :: "platform \<Rightarrow> byte \<times> int \<Rightarrow> BS_List \<Rightarrow> BS_List" where
  "bs_shrink P fill l =
     (if bs_n l < bs_capacity l div 2 then
        let new_capacity = bs_capacity l div 2;
            (ok, l) = resize P fill l new_capacity
        in if ok then l\<lparr>bs_capacity := new_capacity\<rparr> else l
      else l)"

definition bs_remove_at :: "BS_List \<Rightarrow> nat \<Rightarrow> BS_List" where
  "bs_remove_at l i =
     (let l = l\<lparr>bs_n := bs_n l - 1\<rparr>;
          es = bs_element_size l;
          data1 = memmove_at (i * es) ((i + 1) * es) ((bs_n l - i) * es) (bs_data l);
          ids1 = memmove_at i (i + 1) (bs_n l - i) (bs_ids l)
      in l\<lparr>bs_data := data1, bs_ids := ids1\<rparr>)"

definition bs_list_remove ::
  "platform \<Rightarrow> byte \<times> int \<Rightarrow> BS_List \<Rightarrow> bytes \<Rightarrow> int \<Rightarrow> (bool \<times> BS_List) option" where
  "bs_list_remove P fill l data ident =
     (case find l data of None \<Rightarrow> None
      | Some r \<Rightarrow>
          if r < 0 then Some (False, l)
          else if bs_ids l ! nat r \<noteq> ident then Some (False, l)
          else Some (True, bs_remove_at (bs_shrink P fill l) (nat r)))"

section \<open>Invariant and abstraction\<close>

definition bs_elems :: "BS_List \<Rightarrow> bytes list" where
  "bs_elems l = map (bs_elem l) [0..<bs_n l]"

text \<open>The buffers may be longer than the recorded capacity: a failing \<^verbatim>\<open>resize\<close> leaves a
  larger data buffer behind. Below \<open>2 ^ 32\<close> bytes no offset computed from an index wraps.\<close>

definition bs_inv :: "BS_List \<Rightarrow> bool" where
  "bs_inv l \<longleftrightarrow> 0 < bs_element_size l \<and> bs_n l \<le> bs_capacity l \<and> bs_n l < 2 ^ 31 \<and>
     bs_element_size l * bs_capacity l < 2 ^ 32 \<and>
     bs_element_size l * bs_capacity l \<le> length (bs_data l) \<and> bs_capacity l \<le> length (bs_ids l) \<and>
     sorted_wrt (<) (map be_val (bs_elems l))"

text \<open>The list as a finite map.\<close>

definition bs_map :: "BS_List \<Rightarrow> bytes \<Rightarrow> int option" where
  "bs_map l = map_of (zip (bs_elems l) (take (bs_n l) (bs_ids l)))"

lemma length_bs_elems [simp]: "length (bs_elems l) = bs_n l"
  by (simp add: bs_elems_def)

lemma nth_bs_elems [simp]: "i < bs_n l \<Longrightarrow> bs_elems l ! i = bs_elem l i"
  by (simp add: bs_elems_def)

lemma length_bs_elem:
  assumes "bs_inv l" and "i < bs_n l"
  shows "length (bs_elem l i) = bs_element_size l"
proof -
  have "bs_element_size l * Suc i \<le> bs_element_size l * bs_capacity l"
    using assms by (intro mult_le_mono2) (simp add: bs_inv_def)
  then show ?thesis using assms(1) by (simp add: bs_elem_def bs_inv_def)
qed

lemma bs_elem_less:
  assumes "bs_inv l" "i < j" "j < bs_n l"
  shows "be_val (bs_elem l i) < be_val (bs_elem l j)"
  using assms sorted_wrt_nth_less [of "(<)" "map be_val (bs_elems l)" i j]
  by (simp add: bs_inv_def)

lemma memcmp_bs_elem:
  assumes "bs_inv l" "i < bs_n l" "length data = bs_element_size l"
  shows "memcmp data (bs_elem l i) =
    (if be_val data < be_val (bs_elem l i) then - 1 else if be_val (bs_elem l i) < be_val data then 1 else 0)"
  using assms by (simp add: memcmp_be_val length_bs_elem)

lemma list_index_of_nat: "i < 2 ^ 31 \<Longrightarrow> list_index (of_nat i) = - int i - 1"
proof -
  assume i: "i < 2 ^ 31"
  have "sint (word_of_nat i :: u32) = int i"
    using i by (simp add: signed_of_nat signed_take_bit_int_eq_self)
  moreover have "sint (NOT (w :: u32)) = NOT (sint w)" for w
    by (rule bit_eqI) (auto simp: bit_simps)
  ultimately show ?thesis by (simp add: list_index_def not_int_def)
qed

section \<open>The search\<close>

text \<open>What \<^verbatim>\<open>find\<close> returns: the index of the data, or the complement of the index where
  it belongs.\<close>

definition find_post :: "BS_List \<Rightarrow> bytes \<Rightarrow> int \<Rightarrow> bool" where
  "find_post l data r \<longleftrightarrow>
     (if r \<ge> 0 then nat r < bs_n l \<and> bs_elem l (nat r) = data
      else nat (NOT r) \<le> bs_n l \<and>
        (\<forall>k < nat (NOT r). be_val (bs_elem l k) < be_val data) \<and>
        (\<forall>k. nat (NOT r) \<le> k \<longrightarrow> k < bs_n l \<longrightarrow> be_val data < be_val (bs_elem l k)))"

text \<open>The loop invariant: a step of more than one stays inside the array on both
  sides, and the direction flag records on which side the data is known to lie.\<close>

definition find_pre :: "BS_List \<Rightarrow> bytes \<Rightarrow> nat \<Rightarrow> nat \<Rightarrow> int \<Rightarrow> bool" where
  "find_pre l data i delta d \<longleftrightarrow> i < bs_n l \<and> 1 \<le> delta \<and>
     (delta = 1 \<or> 2 * delta \<le> i \<and> i + 2 * delta \<le> bs_n l) \<and>
     (d = - 1 \<or>
      d = 1 \<and> delta = 1 \<and> 0 < i \<and> be_val (bs_elem l (i - 1)) < be_val data \<or>
      d = 0 \<and> delta = 1 \<and> i + 1 < bs_n l \<and> be_val data < be_val (bs_elem l (i + 1)))"

lemma find_post_found: "i < bs_n l \<Longrightarrow> bs_elem l i = data \<Longrightarrow> find_post l data (int i)"
  by (simp add: find_post_def)

lemma find_post_insert:
  assumes "bs_inv l" and "p \<le> bs_n l"
    and "p = 0 \<or> be_val (bs_elem l (p - 1)) < be_val data"
    and "p = bs_n l \<or> be_val data < be_val (bs_elem l p)"
  shows "find_post l data (list_index (of_nat p))"
proof -
  have li: "list_index (of_nat p) = - int p - 1"
    using assms(1,2) by (intro list_index_of_nat) (auto simp: bs_inv_def)
  have "nat (NOT (- int p - 1)) = p" by (simp add: not_int_def)
  moreover have "be_val (bs_elem l k) < be_val data" if "k < p" for k
    using assms(1,2,3) that bs_elem_less [of l k "p - 1"] by (cases "k = p - 1") fastforce+
  moreover have "be_val data < be_val (bs_elem l k)" if "p \<le> k" "k < bs_n l" for k
    using assms(1,2,4) that bs_elem_less [of l p k] by (cases "k = p") fastforce+
  ultimately show ?thesis using assms(2) by (simp add: find_post_def li)
qed

lemma find_loop_correct:
  assumes "bs_inv l" and "length data = bs_element_size l"
  shows "find_pre l data i delta d \<Longrightarrow> \<exists>r. find_loop l data i delta d = Some r \<and> find_post l data r"
  using assms
proof (induction l data i delta d rule: find_loop.induct)
  case (1 l data i delta d)
  note pre = 1(5)[unfolded find_pre_def] and inv = 1(6) and len = 1(7)
  have i: "i < bs_n l" and delta: "1 \<le> delta" using pre by simp_all
  note cmp = memcmp_bs_elem [OF inv i len]
  note unfold = find_loop.simps [of l data i delta d]
  consider (eq) "be_val data = be_val (bs_elem l i)" | (gt) "be_val (bs_elem l i) < be_val data"
    | (lt) "be_val data < be_val (bs_elem l i)" by linarith
  then show ?case
  proof cases
    case eq
    then have "bs_elem l i = data"
      using be_val_inject [of "bs_elem l i" data] length_bs_elem [OF inv i] len by simp
    with eq cmp i show ?thesis
      by (simp add: unfold find_post_found)
  next
    case gt
    then have m: "memcmp data (bs_elem l i) = 1" using cmp by simp
    show ?thesis
    proof (cases "d = 0 \<or> i + delta = bs_n l")
      case True
      then have "delta = 1" using pre by auto
      with True gt pre have "find_post l data (list_index (of_nat (i + delta)))"
        by (intro find_post_insert [OF inv]) auto
      with True m i show ?thesis by (simp add: unfold del: of_nat_add)
    next
      case False
      show ?thesis
      proof (cases "delta div 2 = 0")
        case True
        then have "delta = 1" using delta by simp
        with True False gt pre m i have "find_pre l data (i + delta) 1 1"
          by (auto simp: find_pre_def)
        with 1(1) m i False True inv len show ?thesis by (simp add: unfold)
      next
        case False2: False
        then have "find_pre l data (i + delta) (delta div 2) d"
          using pre False by (auto simp: find_pre_def)
        with 1(2) m i False False2 inv len show ?thesis by (simp add: unfold)
      qed
    qed
  next
    case lt
    then have m: "memcmp data (bs_elem l i) = - 1" using cmp by simp
    show ?thesis
    proof (cases "d = 1 \<or> i = 0")
      case True
      with lt pre have "find_post l data (list_index (of_nat i))"
        by (intro find_post_insert [OF inv]) auto
      with True m i show ?thesis by (simp add: unfold)
    next
      case False
      have ge: "\<not> i < delta" using False pre by auto
      show ?thesis
      proof (cases "delta div 2 = 0")
        case True
        then have "delta = 1" using delta by simp
        with True False lt pre have "find_pre l data (i - delta) 1 0"
          by (auto simp: find_pre_def)
        with 1(3) m i False True ge inv len show ?thesis by (simp add: unfold)
      next
        case False2: False
        then have "find_pre l data (i - delta) (delta div 2) d"
          using pre False by (auto simp: find_pre_def)
        with 1(4) m i False False2 ge inv len show ?thesis by (simp add: unfold)
      qed
    qed
  qed
qed

lemma find_correct:
  assumes "bs_inv l" and "length data = bs_element_size l"
  obtains r where "find l data = Some r" and "find_post l data r"
proof (cases "bs_n l = 0")
  case True
  then have "find_post l data (list_index (of_nat 0))"
    using assms(1) by (intro find_post_insert) simp_all
  with True that show thesis by (simp add: find_def)
next
  case False
  let ?i = "bs_n l div 2"
  let ?delta = "if ?i div 2 = 0 then 1 else ?i div 2"
  have "find_pre l data ?i ?delta (- 1)"
    using False by (auto simp: find_pre_def)
  from find_loop_correct [OF assms this] False that show thesis
    by (auto simp: find_def Let_def)
qed

section \<open>The flat buffer as a list of elements\<close>

definition chunks :: "nat \<Rightarrow> nat \<Rightarrow> bytes \<Rightarrow> bytes list" where
  "chunks es n buf = map (\<lambda>k. slice (es * k) es buf) [0..<n]"

lemma bs_elems_chunks: "bs_elems l = chunks (bs_element_size l) (bs_n l) (bs_data l)"
  by (simp add: bs_elems_def chunks_def bs_elem_def)

lemma length_chunks [simp]: "length (chunks es n buf) = n"
  by (simp add: chunks_def)

lemma nth_chunks [simp]: "k < n \<Longrightarrow> chunks es n buf ! k = slice (es * k) es buf"
  by (simp add: chunks_def)

lemma mult_Suc_le: "k < (n :: nat) \<Longrightarrow> es * k + es \<le> es * n"
  using mult_le_mono2 [of "Suc k" n es] by simp

lemma chunks_append:
  assumes "length xs = es * a"
  shows "chunks es (a + b) (xs @ ys) = chunks es a xs @ chunks es b ys"
proof (rule nth_equalityI)
  fix k assume "k < length (chunks es (a + b) (xs @ ys))"
  then have k: "k < a + b" by simp
  show "chunks es (a + b) (xs @ ys) ! k = (chunks es a xs @ chunks es b ys) ! k"
  proof (cases "k < a")
    case True
    with assms mult_Suc_le [OF True, of es] show ?thesis
      by (simp add: nth_append slice_append_left)
  next
    case False
    with k assms show ?thesis
      by (simp add: nth_append slice_append_right diff_mult_distrib2)
  qed
qed simp

lemma chunks_single: "length src = es \<Longrightarrow> chunks es (Suc 0) src = [src]"
  by (simp add: chunks_def)

lemma chunks_cong:
  assumes "take (es * n) xs = take (es * n) ys"
  shows "chunks es n xs = chunks es n ys"
proof (rule nth_equalityI)
  fix k assume "k < length (chunks es n xs)"
  then have k: "k < n" by simp
  have "slice (es * k) es zs = slice (es * k) es (take (es * n) zs)" for zs :: bytes
    using mult_Suc_le [OF k, of es] by (simp add: slice_def take_drop min_def add.commute)
  with assms k show "chunks es n xs ! k = chunks es n ys ! k" by simp metis
qed simp

lemma chunks_take: "chunks es i (take (es * i) buf) = take i (chunks es (i + j) buf)"
  by (subst chunks_cong [where ys = buf]) (simp_all add: chunks_def take_map)

lemma chunks_drop: "chunks es j (drop (es * i) buf) = drop i (chunks es (i + j) buf)"
  by (rule nth_equalityI) (simp_all add: slice_def algebra_simps)

lemma memmove_insert:
  "a + e + m \<le> length buf \<Longrightarrow> length src = e \<Longrightarrow>
   write_at a src (memmove_at (a + e) a m buf) = take a buf @ src @ slice a m buf @ drop (a + e + m) buf"
  by (simp add: write_at_def memmove_at_def slice_def min_def)

lemma memmove_remove:
  "a + e + m \<le> length buf \<Longrightarrow>
   memmove_at a (a + e) m buf = take a buf @ slice (a + e) m buf @ drop (a + m) buf"
  by (simp add: write_at_def memmove_at_def length_slice)

lemma list_update_write_at: "i < length xs \<Longrightarrow> xs[i := v] = write_at i [v] xs"
  by (simp add: write_at_def upd_conv_take_nth_drop)

lemma chunks_insert:
  assumes "es * Suc (i + j) \<le> length buf" "length src = es"
  shows "chunks es (Suc (i + j)) (write_at (i * es) src (memmove_at ((i + 1) * es) (i * es) (j * es) buf))
    = take i (chunks es (i + j) buf) @ src # drop i (chunks es (i + j) buf)"
proof -
  let ?rest = "drop (es * i + es + es * j) buf"
  have len: "es * i + es + es * j \<le> length buf" using assms(1) by (simp add: algebra_simps)
  have "write_at (i * es) src (memmove_at ((i + 1) * es) (i * es) (j * es) buf) =
      take (es * i) buf @ src @ slice (es * i) (es * j) buf @ ?rest"
    using memmove_insert [of "es * i" es "es * j" buf src] len assms(2) by (simp add: algebra_simps)
  moreover have "chunks es (i + (1 + j)) (take (es * i) buf @ src @ slice (es * i) (es * j) buf @ ?rest)
      = chunks es i (take (es * i) buf) @ chunks es 1 src @ chunks es j (slice (es * i) (es * j) buf @ ?rest)"
    using len assms(2) by (subst chunks_append, simp) (subst chunks_append, simp_all)
  moreover have "chunks es j (slice (es * i) (es * j) buf @ ?rest) = chunks es j (drop (es * i) buf)"
    using len by (intro chunks_cong) (simp add: slice_def)
  ultimately show ?thesis
    using assms(2) by (simp add: chunks_take chunks_drop chunks_single)
qed

lemma chunks_remove:
  assumes "es * Suc (i + j) \<le> length buf"
  shows "chunks es (i + j) (memmove_at (i * es) ((i + 1) * es) (j * es) buf)
    = take i (chunks es (Suc (i + j)) buf) @ drop (Suc i) (chunks es (Suc (i + j)) buf)"
proof -
  let ?rest = "drop (es * i + es * j) buf"
  have len: "es * i + es + es * j \<le> length buf" using assms(1) by (simp add: algebra_simps)
  have "memmove_at (i * es) ((i + 1) * es) (j * es) buf =
      take (es * i) buf @ slice (es * Suc i) (es * j) buf @ ?rest"
    using memmove_remove [of "es * i" es "es * j" buf] len by (simp add: algebra_simps)
  moreover have "chunks es (i + j) (take (es * i) buf @ slice (es * Suc i) (es * j) buf @ ?rest)
      = chunks es i (take (es * i) buf) @ chunks es j (slice (es * Suc i) (es * j) buf @ ?rest)"
    using len by (intro chunks_append) simp
  moreover have "chunks es j (slice (es * Suc i) (es * j) buf @ ?rest) = chunks es j (drop (es * Suc i) buf)"
    using len by (intro chunks_cong) (simp add: slice_def)
  ultimately show ?thesis
    using chunks_take [of es i buf "Suc j"] chunks_drop [of es j "Suc i" buf] by simp
qed

section \<open>Resizing\<close>

lemma take_realloc_list: "k \<le> length xs \<Longrightarrow> k \<le> m \<Longrightarrow> take k (realloc_list f m xs) = take k xs"
  by (simp add: realloc_list_def min_def)

lemma length_realloc_list [simp]: "length (realloc_list f m xs) = m"
  by (simp add: realloc_list_def)

text \<open>Growing or shrinking to at least the used size loses no element, whatever the
  allocator answers.\<close>

lemma resize_keeps:
  assumes "resize P fill l m = (ok, l')" and "m \<noteq> 0" and "bs_n l \<le> m"
    and "bs_element_size l * m < 2 ^ 32" and "bs_element_size l * bs_n l \<le> length (bs_data l)" and "bs_n l \<le> length (bs_ids l)"
  shows "bs_n l' = bs_n l" "bs_capacity l' = bs_capacity l" "bs_element_size l' = bs_element_size l"
    "bs_elems l' = bs_elems l" "take (bs_n l) (bs_ids l') = take (bs_n l) (bs_ids l)"
    "ok \<Longrightarrow> length (bs_data l') = bs_element_size l * m \<and> length (bs_ids l') = m"
    "\<not> ok \<Longrightarrow> bs_ids l' = bs_ids l \<and>
       (bs_data l' = bs_data l \<or> length (bs_data l') = bs_element_size l * m)"
proof -
  have keep: "chunks (bs_element_size l) (bs_n l) (realloc_list f (bs_element_size l * m) (bs_data l))
      = chunks (bs_element_size l) (bs_n l) (bs_data l)" for f
    using assms(3,5) by (intro chunks_cong take_realloc_list) simp_all
  show "bs_elems l' = bs_elems l"
    using assms(1,2,4) keep by (auto simp: resize_def Let_def bs_elems_chunks split: if_splits)
qed (use assms in \<open>auto simp: resize_def Let_def take_realloc_list split: if_splits\<close>)

lemma resize_ok: "m \<noteq> 0 \<Longrightarrow> (\<And>s. malloc_ok P s) \<Longrightarrow> fst (resize P fill l m)"
  by (simp add: resize_def Let_def)

section \<open>The array as a finite map\<close>

lemma map_of_insert_at:
  assumes "k \<notin> set (take i ks)" "length ks = length vs" "i \<le> length ks"
  shows "map_of (zip (take i ks @ k # drop i ks) (take i vs @ v # drop i vs)) = (map_of (zip ks vs))(k \<mapsto> v)"
proof -
  have "map_of (xs @ (k, v) # ys) = (map_of (xs @ ys))(k \<mapsto> v)" if "k \<notin> fst ` set xs" for xs ys
    using that by (induction xs) (auto simp: fun_upd_twist)
  moreover have "k \<notin> fst ` set (zip (take i ks) (take i vs))"
    using assms(1) by (auto dest: set_zip_leftD)
  ultimately have "map_of (zip (take i ks) (take i vs) @ (k, v) # zip (drop i ks) (drop i vs)) =
      (map_of (zip (take i ks) (take i vs) @ zip (drop i ks) (drop i vs)))(k \<mapsto> v)"
    by blast
  moreover have "zip (take i ks) (take i vs) @ zip (drop i ks) (drop i vs) = zip ks vs"
    by (metis append_take_drop_id assms(2) length_take zip_append)
  moreover have "zip (take i ks @ k # drop i ks) (take i vs @ v # drop i vs)
      = zip (take i ks) (take i vs) @ (k, v) # zip (drop i ks) (drop i vs)"
    using assms(2) by (simp add: zip_append)
  ultimately show ?thesis by simp
qed

lemma map_of_remove_at:
  assumes "distinct ks" "length ks = length vs" "i < length ks"
  shows "map_of (zip (take i ks @ drop (Suc i) ks) (take i vs @ drop (Suc i) vs)) = (map_of (zip ks vs))(ks ! i := None)"
proof -
  let ?A = "take i ks" and ?B = "drop (Suc i) ks"
  have ks: "ks = ?A @ ks ! i # ?B" and vs: "vs = take i vs @ vs ! i # drop (Suc i) vs"
    using assms by (simp_all add: id_take_nth_drop)
  have "distinct (?A @ ks ! i # ?B)" using assms(1) ks by simp
  then have nin: "ks ! i \<notin> set ?A" "ks ! i \<notin> set ?B" by auto
  have "map_of (zip ks vs) = (map_of (zip (?A @ ?B) (take i vs @ drop (Suc i) vs)))(ks ! i \<mapsto> vs ! i)"
    using map_of_insert_at [of "ks ! i" i "?A @ ?B" "take i vs @ drop (Suc i) vs" "vs ! i"] nin assms ks vs
    by (simp add: min_def)
  moreover have "map_of (zip (?A @ ?B) (take i vs @ drop (Suc i) vs)) (ks ! i) = None"
    using nin by (auto simp: map_of_eq_None_iff dest!: set_zip_leftD)
  ultimately show ?thesis by (simp add: fun_upd_idem)
qed

lemma bs_elems_distinct: "bs_inv l \<Longrightarrow> distinct (bs_elems l)"
  unfolding bs_inv_def by (metis distinct_map strict_sorted_iff)

lemma find_post_member:
  assumes "find_post l data r" "bs_inv l"
  shows "r \<ge> 0 \<longleftrightarrow> data \<in> set (bs_elems l)"
proof
  assume "r \<ge> 0"
  with assms show "data \<in> set (bs_elems l)"
    by (auto simp: find_post_def bs_elems_def)
next
  assume "data \<in> set (bs_elems l)"
  then obtain k where k: "k < bs_n l" "bs_elem l k = data"
    by (auto simp: bs_elems_def)
  show "r \<ge> 0"
  proof (rule ccontr)
    assume "\<not> r \<ge> 0"
    with assms(1) have "k < nat (NOT r) \<longrightarrow> be_val (bs_elem l k) < be_val data"
      "\<not> k < nat (NOT r) \<longrightarrow> be_val data < be_val (bs_elem l k)"
      using k(1) by (auto simp: find_post_def not_less)
    with k(2) show False by auto
  qed
qed

lemma bs_map_nth: "bs_inv l \<Longrightarrow> i < bs_n l \<Longrightarrow> bs_map l (bs_elem l i) = Some (bs_ids l ! i)"
  unfolding bs_map_def
  by (rule map_of_is_SomeI)
    (auto simp: bs_elems_distinct in_set_zip bs_inv_def intro!: exI [of _ i])

lemma bs_map_None: "bs_inv l \<Longrightarrow> bs_map l data = None \<longleftrightarrow> data \<notin> set (bs_elems l)"
  by (simp add: bs_map_def bs_inv_def)

lemma sorted_wrt_insert_at:
  assumes "sorted_wrt (<) (map f xs)" "\<forall>k < i. f (xs ! k) < (f x :: nat)"
    "\<forall>k. i \<le> k \<longrightarrow> k < length xs \<longrightarrow> f x < f (xs ! k)"
  shows "sorted_wrt (<) (map f (take i xs @ x # drop i xs))"
proof -
  have "sorted_wrt (<) (map f (take i xs) @ map f (drop i xs))"
    using assms(1) by (metis append_take_drop_id map_append)
  moreover have "\<forall>y \<in> set (take i xs). f y < f x"
    using assms(2) by (auto simp: in_set_conv_nth)
  moreover have "\<forall>y \<in> set (drop i xs). f x < f y"
    using assms(3) by (auto simp: in_set_conv_nth)
  ultimately show ?thesis by (auto simp: sorted_wrt_append)
qed

section \<open>The operations\<close>

definition bs_key :: "BS_List \<Rightarrow> bytes \<Rightarrow> bool" where
  "bs_key l data \<longleftrightarrow> length data = bs_element_size l"

lemma bs_list_find_eq:
  assumes "bs_inv l" and "bs_key l data"
  shows "bs_list_find l data = Some (case bs_map l data of None \<Rightarrow> - 1 | Some i \<Rightarrow> i)"
proof -
  obtain r where r: "find l data = Some r" "find_post l data r"
    using find_correct assms by (auto simp: bs_key_def)
  show ?thesis
  proof (cases "r \<ge> 0")
    case True
    with r assms show ?thesis
      using bs_map_nth [of l "nat r"] by (auto simp: bs_list_find_def find_post_def)
  next
    case False
    then have "bs_map l data = None"
      using find_post_member [OF r(2) assms(1)] bs_map_None [OF assms(1)] by simp
    with False r show ?thesis by (simp add: bs_list_find_def)
  qed
qed

text \<open>Insertion at the right place, once there is room for one more element.\<close>

lemma bs_insert_at_correct:
  assumes "sorted_wrt (<) (map be_val (bs_elems l))" "0 < bs_element_size l" "bs_key l data" "i \<le> bs_n l"
    and room: "bs_n l < bs_capacity l" "bs_element_size l * bs_capacity l \<le> length (bs_data l)"
      "bs_capacity l \<le> length (bs_ids l)" "bs_element_size l * bs_capacity l < 2 ^ 32"
    and small: "Suc (bs_n l) < 2 ^ 31"
    and below: "\<forall>k < i. be_val (bs_elem l k) < be_val data"
    and above: "\<forall>k. i \<le> k \<longrightarrow> k < bs_n l \<longrightarrow> be_val data < be_val (bs_elem l k)"
  shows "bs_inv (bs_insert_at l i data ident) \<and>
    bs_map (bs_insert_at l i data ident) = (bs_map l)(data \<mapsto> ident)"
proof -
  define es where "es = bs_element_size l"
  define l' where "l' = bs_insert_at l i data ident"
  obtain j where j: "bs_n l = i + j" using assms(4) le_Suc_ex by blast
  have es: "es * Suc (i + j) \<le> length (bs_data l)"
    using room j mult_le_mono2 [of "Suc (i + j)" "bs_capacity l" es] by (simp add: es_def)
  have len: "length data = es" using assms(3) by (simp add: bs_key_def es_def)
  note l'_eq = l'_def [unfolded bs_insert_at_def Let_def, folded es_def]
  have elems: "bs_elems l' = take i (bs_elems l) @ data # drop i (bs_elems l)"
    using chunks_insert [OF es, of data] len j by (simp add: l'_eq bs_elems_chunks flip: es_def)
  have il: "Suc (i + j) \<le> length (bs_ids l)" using room j by simp
  have ids: "bs_ids l' = take i (bs_ids l) @ ident # slice i j (bs_ids l) @ drop (Suc (i + j)) (bs_ids l)"
    using il j memmove_insert [of i 1 j "bs_ids l" "[ident]"] list_update_write_at [of i _ ident]
    by (simp add: l'_eq memmove_at_def)
  have tids: "take (Suc (i + j)) (bs_ids l') =
      take i (take (i + j) (bs_ids l)) @ ident # drop i (take (i + j) (bs_ids l))"
    using il by (simp add: ids slice_def min_def take_drop add.commute)
  have "sorted_wrt (<) (map be_val (bs_elems l'))"
    unfolding elems using assms(1) below above assms(4)
    by (intro sorted_wrt_insert_at) simp_all
  moreover have "length (bs_data l') = length (bs_data l)"
    using es len j memmove_insert [of "es * i" es "es * j" "bs_data l" data]
    by (simp add: l'_eq algebra_simps)
  moreover have "length (bs_ids l') = length (bs_ids l)"
    using il by (simp add: ids)
  moreover have "bs_n l' = Suc (bs_n l)" "bs_capacity l' = bs_capacity l" "bs_element_size l' = es"
    by (simp_all add: l'_eq es_def)
  ultimately have "bs_inv l'"
    using assms(2) room small by (simp add: bs_inv_def es_def)
  moreover have "data \<notin> set (take i (bs_elems l))"
    using below assms(4) by (auto simp: in_set_conv_nth)
  then have "bs_map l' = (bs_map l)(data \<mapsto> ident)"
    using map_of_insert_at [of data i "bs_elems l" "take (i + j) (bs_ids l)" ident] il j
      \<open>bs_n l' = Suc (bs_n l)\<close>
    unfolding bs_map_def elems by (simp add: tids)
  ultimately show ?thesis by (simp add: l'_def)
qed

lemma bs_remove_at_correct:
  assumes "sorted_wrt (<) (map be_val (bs_elems l))" "0 < bs_element_size l" "i < bs_n l"
    and room: "bs_n l \<le> bs_capacity l" "bs_element_size l * bs_capacity l \<le> length (bs_data l)"
      "bs_capacity l \<le> length (bs_ids l)" "bs_n l < 2 ^ 31" "bs_element_size l * bs_capacity l < 2 ^ 32"
  shows "bs_inv (bs_remove_at l i) \<and> bs_map (bs_remove_at l i) = (bs_map l)(bs_elem l i := None)"
proof -
  define es where "es = bs_element_size l"
  define l' where "l' = bs_remove_at l i"
  obtain j where j: "bs_n l = Suc (i + j)" using assms(3) less_imp_Suc_add by blast
  have es: "es * Suc (i + j) \<le> length (bs_data l)"
    using room j mult_le_mono2 [of "Suc (i + j)" "bs_capacity l" es] by (simp add: es_def)
  have l'_eq: "l' = l\<lparr>bs_n := i + j, bs_data := memmove_at (i * es) ((i + 1) * es) (j * es) (bs_data l),
      bs_ids := memmove_at i (i + 1) j (bs_ids l)\<rparr>"
    using j by (simp add: l'_def bs_remove_at_def Let_def es_def)
  have nl': "bs_n l' = i + j" by (simp add: l'_eq)
  have elems: "bs_elems l' = take i (bs_elems l) @ drop (Suc i) (bs_elems l)"
    using chunks_remove [OF es] j by (simp add: l'_eq bs_elems_chunks flip: es_def)
  have il: "Suc (i + j) \<le> length (bs_ids l)" using room j by simp
  have ids: "bs_ids l' = take i (bs_ids l) @ slice (Suc i) j (bs_ids l) @ drop (i + j) (bs_ids l)"
    using il memmove_remove [of i 1 j "bs_ids l"] by (simp add: l'_eq)
  have tids: "take (i + j) (bs_ids l') =
      take i (take (Suc (i + j)) (bs_ids l)) @ drop (Suc i) (take (Suc (i + j)) (bs_ids l))"
    using il by (simp add: ids slice_def min_def take_drop add.commute)
  have srt: "sorted_wrt (<) (map be_val (bs_elems l'))"
  proof -
    have "bs_elems l = take i (bs_elems l) @ bs_elems l ! i # drop (Suc i) (bs_elems l)"
      using assms(3) by (simp add: id_take_nth_drop del: nth_bs_elems)
    then have "sorted_wrt (<) (map be_val (take i (bs_elems l)) @ be_val (bs_elems l ! i) #
        map be_val (drop (Suc i) (bs_elems l)))"
      using assms(1) by (metis list.simps(9) map_append)
    then show ?thesis unfolding elems by (simp add: sorted_wrt_append)
  qed
  then have "distinct (bs_elems l)" using assms(1) by (metis distinct_map strict_sorted_iff)
  then have "bs_map l' = (bs_map l)(bs_elem l i := None)"
    using map_of_remove_at [of "bs_elems l" "take (Suc (i + j)) (bs_ids l)" i] il j nl'
    unfolding bs_map_def elems by (simp add: tids del: take_append drop_append)
  moreover have "length (bs_data l') = length (bs_data l)" "length (bs_ids l') = length (bs_ids l)"
    using es il memmove_remove [of "es * i" es "es * j" "bs_data l"]
    by (simp_all add: l'_eq ids [unfolded l'_eq, simplified] algebra_simps)
  then have "bs_inv l'"
    using srt assms(2) room j by (simp add: bs_inv_def l'_eq)
  ultimately show ?thesis by (simp add: l'_def)
qed

lemma bs_n_le_data:
  "bs_inv l \<Longrightarrow> bs_element_size l * bs_n l \<le> length (bs_data l) \<and> bs_n l \<le> length (bs_ids l)"
  unfolding bs_inv_def by (meson dual_order.trans mult_le_mono2)

lemma bs_map_cong:
  "bs_elems l' = bs_elems l \<Longrightarrow> bs_n l' = bs_n l \<Longrightarrow>
   take (bs_n l) (bs_ids l') = take (bs_n l) (bs_ids l) \<Longrightarrow> bs_map l' = bs_map l"
  by (simp add: bs_map_def)

text \<open>Growing keeps the contents; after success there is room.\<close>

definition bs_fits :: "BS_List \<Rightarrow> bool" where
  "bs_fits l \<longleftrightarrow> Suc (bs_n l) < 2 ^ 31 \<and> bs_element_size l * (bs_n l + bs_n l div 2 + 1) < 2 ^ 32"

lemma bs_grow_correct:
  assumes "bs_inv l" and "bs_fits l" and "bs_grow P fill l = (ok, l')"
  shows "bs_n l' = bs_n l" "bs_element_size l' = bs_element_size l" "bs_elems l' = bs_elems l" "bs_map l' = bs_map l"
    "bs_inv l'" "ok \<Longrightarrow> bs_n l' < bs_capacity l'" "(\<And>s. malloc_ok P s) \<Longrightarrow> ok"
proof -
  have "bs_n l' = bs_n l \<and> bs_element_size l' = bs_element_size l \<and> bs_elems l' = bs_elems l \<and>
    bs_map l' = bs_map l \<and> bs_inv l' \<and> (ok \<longrightarrow> bs_n l' < bs_capacity l') \<and> ((\<forall>s. malloc_ok P s) \<longrightarrow> ok)"
  proof (cases "bs_n l = bs_capacity l")
    case False
    with assms show ?thesis by (auto simp: bs_grow_def bs_inv_def)
  next
    case True
    let ?m = "bs_n l + bs_n l div 2 + 1"
    obtain ok' l1 where r: "resize P fill l ?m = (ok', l1)" by fastforce
    have fits: "bs_element_size l * ?m < 2 ^ 32" using assms(2) by (simp add: bs_fits_def)
    note k = resize_keeps [OF r _ _ fits conjunct1 [OF bs_n_le_data [OF assms(1)]] conjunct2 [OF bs_n_le_data [OF assms(1)]],
        simplified]
    have l': "l' = (if ok' then l1\<lparr>bs_capacity := ?m\<rparr> else l1)" "ok = ok'"
      using assms(3) True r by (auto simp: bs_grow_def Let_def split: if_splits)
    have el: "bs_elems (l1\<lparr>bs_capacity := ?m\<rparr>) = bs_elems l1"
      by (simp add: bs_elems_chunks)
    have "(\<forall>s. malloc_ok P s) \<longrightarrow> ok'"
      using resize_ok [of ?m P fill l] r by auto
    moreover have "bs_element_size l * bs_capacity l \<le> bs_element_size l * ?m"
      using True by (intro mult_le_mono2) simp
    then have "bs_inv l'"
      using assms(1) True k el l' fits by (auto simp: bs_inv_def)
    moreover have "bs_map l' = bs_map l"
      using k el l' by (intro bs_map_cong) auto
    ultimately show ?thesis using k el l' by auto
  qed
  then show "bs_n l' = bs_n l" "bs_element_size l' = bs_element_size l" "bs_elems l' = bs_elems l" "bs_map l' = bs_map l"
    "bs_inv l'" "ok \<Longrightarrow> bs_n l' < bs_capacity l'" "(\<And>s. malloc_ok P s) \<Longrightarrow> ok"
    by blast+
qed

text \<open>Shrinking keeps the contents if the allocator serves both requests.\<close>

lemma bs_shrink_correct:
  assumes "bs_inv l" and "\<And>s. malloc_ok P s"
  shows "bs_n (bs_shrink P fill l) = bs_n l" "bs_elems (bs_shrink P fill l) = bs_elems l"
    "bs_element_size (bs_shrink P fill l) = bs_element_size l"
    "bs_map (bs_shrink P fill l) = bs_map l" "bs_inv (bs_shrink P fill l)"
proof -
  have "bs_n (bs_shrink P fill l) = bs_n l \<and> bs_elems (bs_shrink P fill l) = bs_elems l \<and>
    bs_element_size (bs_shrink P fill l) = bs_element_size l \<and>
    bs_map (bs_shrink P fill l) = bs_map l \<and> bs_inv (bs_shrink P fill l)"
  proof (cases "bs_n l < bs_capacity l div 2")
    case False
    with assms(1) show ?thesis by (simp add: bs_shrink_def)
  next
    case True
    let ?m = "bs_capacity l div 2"
    obtain l1 where r: "resize P fill l ?m = (True, l1)"
      using resize_ok [of ?m P fill l] True assms(2) by (cases "resize P fill l ?m") auto
    have m: "?m \<noteq> 0" "bs_n l \<le> ?m" using True by auto
    have "bs_element_size l * ?m \<le> bs_element_size l * bs_capacity l" by (intro mult_le_mono2) simp
    then have fits: "bs_element_size l * ?m < 2 ^ 32"
      using assms(1) unfolding bs_inv_def by (meson le_less_trans)
    note k = resize_keeps [OF r m fits conjunct1 [OF bs_n_le_data [OF assms(1)]] conjunct2 [OF bs_n_le_data [OF assms(1)]],
        simplified]
    have s: "bs_shrink P fill l = l1\<lparr>bs_capacity := ?m\<rparr>"
      using True r by (simp add: bs_shrink_def Let_def)
    have el: "bs_elems (l1\<lparr>bs_capacity := ?m\<rparr>) = bs_elems l1"
      by (simp add: bs_elems_chunks)
    have "bs_inv (bs_shrink P fill l)"
      using assms(1) True k el fits by (simp add: s bs_inv_def)
    moreover have "bs_map (bs_shrink P fill l) = bs_map l"
      unfolding s using k el by (intro bs_map_cong) simp_all
    ultimately show ?thesis using k el by (simp add: s)
  qed
  then show "bs_n (bs_shrink P fill l) = bs_n l" "bs_elems (bs_shrink P fill l) = bs_elems l"
    "bs_element_size (bs_shrink P fill l) = bs_element_size l"
    "bs_map (bs_shrink P fill l) = bs_map l" "bs_inv (bs_shrink P fill l)"
    by blast+
qed

lemma bs_list_add_cases:
  assumes "bs_inv l" and "bs_key l data" and "bs_fits l"
  shows "\<exists>ok l'. bs_list_add P fill l data ident = Some (ok, l') \<and> bs_inv l' \<and>
    bs_map l' = (if ok then (bs_map l)(data \<mapsto> ident) else bs_map l) \<and>
    (ok \<longrightarrow> bs_map l data = None) \<and> ((\<forall>s. malloc_ok P s) \<longrightarrow> bs_map l data = None \<longrightarrow> ok) \<and>
    bs_element_size l' = bs_element_size l"
proof -
  obtain r where r: "find l data = Some r" "find_post l data r"
    using find_correct assms by (auto simp: bs_key_def)
  show ?thesis
  proof (cases "r \<ge> 0")
    case True
    then have "bs_map l data \<noteq> None"
      using find_post_member [OF r(2) assms(1)] bs_map_None [OF assms(1)] by simp
    with True r(1) assms(1) show ?thesis by (auto simp: bs_list_add_def intro: exI [of _ False])
  next
    case False
    then have nin: "bs_map l data = None"
      using find_post_member [OF r(2) assms(1)] bs_map_None [OF assms(1)] by simp
    obtain ok l1 where g: "bs_grow P fill l = (ok, l1)" by fastforce
    note gc = bs_grow_correct [OF assms(1,3) g]
    have e: "bs_elem l1 k = bs_elem l k" if "k < bs_n l" for k
      using that gc(1,3) nth_bs_elems [of k l1] by simp
    show ?thesis
    proof (cases ok)
      case False2: False
      with r(1) g gc nin False show ?thesis by (auto simp: bs_list_add_def Let_def)
    next
      case True
      have "bs_inv (bs_insert_at l1 (nat (NOT r)) data ident) \<and>
        bs_map (bs_insert_at l1 (nat (NOT r)) data ident) = (bs_map l1)(data \<mapsto> ident)"
        using r(2) False gc True assms(2,3) e
        by (intro bs_insert_at_correct) (auto simp: bs_inv_def bs_key_def bs_fits_def find_post_def)
      moreover have "bs_element_size (bs_insert_at l1 (nat (NOT r)) data ident) = bs_element_size l1"
        by (simp add: bs_insert_at_def Let_def)
      ultimately show ?thesis
        using r(1) g gc nin False True by (auto simp: bs_list_add_def Let_def intro: exI [of _ True])
    qed
  qed
qed

lemma bs_list_remove_cases:
  assumes "bs_inv l" and "bs_key l data" and "\<And>s. malloc_ok P s"
  shows "\<exists>ok l'. bs_list_remove P fill l data ident = Some (ok, l') \<and> bs_inv l' \<and>
    (ok \<longleftrightarrow> bs_map l data = Some ident) \<and>
    bs_map l' = (if ok then (bs_map l)(data := None) else bs_map l) \<and>
    bs_element_size l' = bs_element_size l"
proof -
  obtain r where r: "find l data = Some r" "find_post l data r"
    using find_correct assms by (auto simp: bs_key_def)
  show ?thesis
  proof (cases "r \<ge> 0")
    case False
    then have "bs_map l data = None"
      using find_post_member [OF r(2) assms(1)] bs_map_None [OF assms(1)] by simp
    with False r(1) assms(1) show ?thesis by (auto simp: bs_list_remove_def intro: exI [of _ False])
  next
    case True
    then have at: "nat r < bs_n l" "bs_elem l (nat r) = data" using r(2) by (simp_all add: find_post_def)
    have m: "bs_map l data = Some (bs_ids l ! nat r)" using bs_map_nth [OF assms(1) at(1)] at(2) by simp
    define l1 where "l1 = bs_shrink P fill l"
    note sc = bs_shrink_correct [OF assms(1,3), of fill, folded l1_def]
    have "bs_elem l1 (nat r) = data"
      using at sc(1,2) nth_bs_elems [of "nat r" l1] by simp
    moreover have "bs_inv (bs_remove_at l1 (nat r)) \<and>
        bs_map (bs_remove_at l1 (nat r)) = (bs_map l1)(bs_elem l1 (nat r) := None)"
      using sc at by (intro bs_remove_at_correct) (auto simp: bs_inv_def)
    moreover have "bs_element_size (bs_remove_at l1 (nat r)) = bs_element_size l1"
      by (simp add: bs_remove_at_def Let_def)
    ultimately show ?thesis
      using r(1) m sc True assms(1) by (simp add: bs_list_remove_def l1_def [symmetric])
  qed
qed

section \<open>The interface\<close>

text \<open>What a client of the list relies on: an index of ids by fixed-size byte strings.\<close>

locale id_index =
  fixes inv :: "'l \<Rightarrow> bool" and key :: "'l \<Rightarrow> bytes \<Rightarrow> bool" and room :: "'l \<Rightarrow> bool"
    and abs_map :: "'l \<Rightarrow> bytes \<Rightarrow> int option"
    and lookup :: "'l \<Rightarrow> bytes \<Rightarrow> int option"
    and add :: "'l \<Rightarrow> bytes \<Rightarrow> int \<Rightarrow> (bool \<times> 'l) option"
    and remove :: "'l \<Rightarrow> bytes \<Rightarrow> int \<Rightarrow> (bool \<times> 'l) option"
  assumes lookup_abs: "inv l \<Longrightarrow> key l d \<Longrightarrow> lookup l d = Some (case abs_map l d of None \<Rightarrow> - 1 | Some i \<Rightarrow> i)"
    and add_abs: "inv l \<Longrightarrow> key l d \<Longrightarrow> room l \<Longrightarrow>
      \<exists>ok l'. add l d i = Some (ok, l') \<and> inv l' \<and> key l' = key l \<and> (ok \<longleftrightarrow> abs_map l d = None) \<and>
        abs_map l' = (if ok then (abs_map l)(d \<mapsto> i) else abs_map l)"
    and remove_abs: "inv l \<Longrightarrow> key l d \<Longrightarrow>
      \<exists>ok l'. remove l d i = Some (ok, l') \<and> inv l' \<and> key l' = key l \<and> (ok \<longleftrightarrow> abs_map l d = Some i) \<and>
        abs_map l' = (if ok then (abs_map l)(d := None) else abs_map l)"
begin

text \<open>A fresh key is found under its id afterwards, every other key as before.\<close>

lemma lookup_after_add:
  assumes "inv l" "key l d" "key l e" "room l" "lookup l d = Some (- 1)" "\<forall>k j. abs_map l k = Some j \<longrightarrow> 0 \<le> j"
  shows "\<exists>l'. add l d i = Some (True, l') \<and> inv l' \<and>
    lookup l' e = (if e = d then Some i else lookup l e)"
proof -
  have "abs_map l d = None"
    using assms lookup_abs [OF assms(1,2)] by (cases "abs_map l d") force+
  with add_abs [OF assms(1,2,4), of i] obtain l' where l': "add l d i = Some (True, l')" "inv l'" "key l' = key l"
    "abs_map l' = (abs_map l)(d \<mapsto> i)" by auto
  with assms(1,3) lookup_abs [of l' e] lookup_abs [of l e] show ?thesis by simp
qed

text \<open>Removing what was just added gives the old index back.\<close>

lemma remove_after_add:
  assumes "inv l" "key l d" "room l" "abs_map l d = None"
  shows "\<exists>l1 l2. add l d i = Some (True, l1) \<and> remove l1 d i = Some (True, l2) \<and> inv l2 \<and> abs_map l2 = abs_map l"
proof -
  from add_abs [OF assms(1-3), of i] assms(4) obtain l1 where l1: "add l d i = Some (True, l1)" "inv l1"
    "key l1 = key l" "abs_map l1 = (abs_map l)(d \<mapsto> i)" by auto
  with remove_abs [of l1 d i] assms(2) obtain l2 where "remove l1 d i = Some (True, l2)" "inv l2"
    "abs_map l2 = (abs_map l1)(d := None)" by auto
  with l1 assms(4) show ?thesis by (auto simp: fun_upd_idem)
qed

end

interpretation bsl: id_index bs_inv bs_key bs_fits bs_map bs_list_find
  "bs_list_add (with_memory P) fill" "bs_list_remove (with_memory P) fill" for P fill
proof unfold_locales
  fix l d i assume l: "bs_inv l" "bs_key l d"
  show "bs_list_find l d = Some (case bs_map l d of None \<Rightarrow> - 1 | Some i \<Rightarrow> i)"
    by (rule bs_list_find_eq [OF l])
  show "\<exists>ok l'. bs_list_remove (with_memory P) fill l d i = Some (ok, l') \<and> bs_inv l' \<and> bs_key l' = bs_key l \<and>
      (ok \<longleftrightarrow> bs_map l d = Some i) \<and> bs_map l' = (if ok then (bs_map l)(d := None) else bs_map l)"
    using bs_list_remove_cases [OF l, of "with_memory P" fill i] by (auto simp: bs_key_def fun_eq_iff)
  assume "bs_fits l"
  then show "\<exists>ok l'. bs_list_add (with_memory P) fill l d i = Some (ok, l') \<and> bs_inv l' \<and> bs_key l' = bs_key l \<and>
      (ok \<longleftrightarrow> bs_map l d = None) \<and> bs_map l' = (if ok then (bs_map l)(d \<mapsto> i) else bs_map l)"
    using bs_list_add_cases [OF l, of "with_memory P" fill i] by (auto simp: bs_key_def fun_eq_iff)
qed

lemma bs_list_init_inv:
  assumes "bs_list_init P fill es cap = (1, l)" "0 < es" "es * cap < 2 ^ 32"
  shows "bs_inv l" and "bs_map l = Map.empty" and "bs_element_size l = es"
  using assms
  by (auto simp: bs_list_init_def resize_def Let_def bs_inv_def bs_map_def bs_elems_def split: if_splits)

section \<open>Properties\<close>

text \<open>C38: On a well-formed list the search always terminates inside the array: it returns
  a non-negative index exactly if the data is an element, then the index of that
  element, and otherwise the complement of the insertion point that keeps the array
  sorted.\<close>

theorem find_returns_position:
  assumes "bs_inv l" and "length data = bs_element_size l"
  shows "\<exists>r. find l data = Some r \<and> find_post l data r \<and> (r \<ge> 0 \<longleftrightarrow> data \<in> set (bs_elems l))"
  using find_correct [OF assms] find_post_member [OF _ assms(1)] by blast

text \<open>Three elements of two bytes with their ids.\<close>

definition bs_example :: BS_List where
  "bs_example = \<lparr>bs_n = 3, bs_capacity = 4, bs_element_size = 2,
     bs_data = [0, 1, 0, 7, 3, 0, 255, 255], bs_ids = [10, 11, 12, 0]\<rparr>"

lemma bs_example_inv: "bs_inv bs_example"
  by (simp add: bs_inv_def bs_example_def bs_elems_def bs_elem_def slice_def  upt_rec)

theorem find_returns_position_witness:
  "\<exists>r. find bs_example [0, 7] = Some r \<and> find_post bs_example [0, 7] r \<and>
     (r \<ge> 0 \<longleftrightarrow> [0, 7] \<in> set (bs_elems bs_example))"
  by (rule find_returns_position [OF bs_example_inv]) (simp add: bs_example_def)

text \<open>Adding to a well-formed list with room keeps it well-formed and sorted. On
  success the key was absent and the list, read as a finite map, gains exactly this
  binding; on failure the map is unchanged, and with memory available an absent key is
  always added.\<close>

theorem bs_list_add_refines_map:
  assumes "bs_inv l" and "bs_key l data" and "bs_fits l"
  shows "\<exists>ok l'. bs_list_add P fill l data ident = Some (ok, l') \<and> bs_inv l' \<and>
    bs_map l' = (if ok then (bs_map l)(data \<mapsto> ident) else bs_map l) \<and>
    (ok \<longrightarrow> bs_map l data = None) \<and> ((\<forall>s. malloc_ok P s) \<longrightarrow> bs_map l data = None \<longrightarrow> ok)"
  using bs_list_add_cases [OF assms] by blast

theorem bs_list_add_refines_map_witness:
  "\<exists>l'. bs_list_add fuzz_platform (0, 0) bs_example [2, 2] 5 = Some (True, l') \<and> bs_inv l' \<and>
    bs_map l' = (bs_map bs_example)([2, 2] \<mapsto> 5)"
proof -
  have "bs_map bs_example [2, 2] = None"
    by (simp add: bs_map_def bs_example_def bs_elems_def bs_elem_def slice_def upt_rec)
  then show ?thesis
    using bs_list_add_refines_map [OF bs_example_inv, of "[2, 2]" fuzz_platform "(0, 0)" 5]
    by (auto simp: bs_key_def bs_fits_def bs_example_def fuzz_platform_def)
qed

text \<open>With memory available, removal succeeds exactly if the key is bound to the given
  id, then deletes exactly this binding, and keeps the list well-formed.\<close>

theorem bs_list_remove_refines_map:
  assumes "bs_inv l" and "bs_key l data" and "\<And>s. malloc_ok P s"
  shows "\<exists>ok l'. bs_list_remove P fill l data ident = Some (ok, l') \<and> bs_inv l' \<and>
    (ok \<longleftrightarrow> bs_map l data = Some ident) \<and>
    bs_map l' = (if ok then (bs_map l)(data := None) else bs_map l)"
  using bs_list_remove_cases [OF assms] by blast

theorem bs_list_remove_refines_map_witness:
  "\<exists>ok l'. bs_list_remove fuzz_platform (0, 0) bs_example [0, 7] 11 = Some (ok, l') \<and> bs_inv l' \<and>
    (ok \<longleftrightarrow> bs_map bs_example [0, 7] = Some 11) \<and>
    bs_map l' = (if ok then (bs_map bs_example)([0, 7] := None) else bs_map bs_example)"
  by (rule bs_list_remove_refines_map [OF bs_example_inv])
    (simp_all add: bs_key_def bs_example_def fuzz_platform_def)

text \<open>Without memory for the second \<^verbatim>\<open>realloc\<close> the removal still succeeds, but the data buffer
  has been halved while the recorded capacity has not: later insertions write past it.\<close>

definition bs_tight :: platform where
  "bs_tight = fuzz_platform\<lparr>malloc_ok := \<lambda>s. s = 4\<rparr>"

lemma bs_list_remove_loses_capacity:
  "\<exists>l l'. bs_inv l \<and> bs_list_remove bs_tight (0, 0) l [7, 7] 1 = Some (True, l') \<and>
     length (bs_data l') < bs_element_size l' * bs_capacity l'"
  by (rule exI [of _ "\<lparr>bs_n = 1, bs_capacity = 4, bs_element_size = 2,
        bs_data = [7, 7, 0, 0, 0, 0, 0, 0], bs_ids = [1, 0, 0, 0]\<rparr>"])
    (simp add: bs_inv_def bs_elems_def bs_elem_def slice_def  bs_list_remove_def find_def
      find_loop.simps memcmp_be_val bs_shrink_def resize_def bs_tight_def realloc_list_def
      bs_remove_at_def memmove_at_def write_at_def Let_def)

end
