(* ===== verification/Packets_Array.thy ===== *)
theory Packets_Array
  imports Crypto_Core Util
begin

text \<open>
  The packet windows of \<^verbatim>\<open>toxcore/net_crypto.c\<close> (the array related functions): a ring of
  \<open>CRYPTO_PACKET_BUFFER_SIZE\<close> packet pointers indexed by a 32-bit packet number, of which
  \<open>{buffer_start, buffer_end)\<close> is in use, and the request packets in which the receiver
  tells the sender which packets it misses. Packet numbers are 32-bit words and wrap;
  the buffer is a function from slots to an optional packet (a null pointer is \<open>None\<close>),
  always read at a packet number modulo the buffer size.

  Shown here: each operation implements the corresponding operation on a finite map
  from packet numbers to packets (locale \<open>packet_window\<close>), and a sender that handles
  the request its peer generated never drops a packet the peer is missing.
\<close>

section \<open>Definitions\<close>

definition CRYPTO_PACKET_BUFFER_SIZE :: u32 where
  [size_defs]: "CRYPTO_PACKET_BUFFER_SIZE = 32768"

definition PACKET_ID_PADDING :: byte where [size_defs]: "PACKET_ID_PADDING = 0"
definition PACKET_ID_REQUEST :: byte where [size_defs]: "PACKET_ID_REQUEST = 1"
definition PACKET_ID_KILL :: byte where [size_defs]: "PACKET_ID_KILL = 2"

record Packet_Data =
  sent_time :: u64
  pd_length :: u16
  pd_data :: bytes

record Packets_Array =
  buffer :: "u32 \<Rightarrow> Packet_Data option"
  buffer_start :: u32
  buffer_end :: u32

text \<open>The slot of a packet number.\<close>

definition slot :: "u32 \<Rightarrow> u32" where
  "slot number = number mod CRYPTO_PACKET_BUFFER_SIZE"

definition num_packets_array :: "Packets_Array \<Rightarrow> u32" where
  "num_packets_array arr = buffer_end arr - buffer_start arr"

definition set_slot :: "u32 \<Rightarrow> Packet_Data option \<Rightarrow> Packets_Array \<Rightarrow> Packets_Array" where
  "set_slot s v arr = arr\<lparr>buffer := (buffer arr)(s := v)\<rparr>"

text \<open>The size of the allocation of one \<^verbatim>\<open>Packet_Data\<close>, padding included.\<close>

definition sizeof_Packet_Data :: nat where
  [size_defs]: "sizeof_Packet_Data = 1384"

definition add_data_to_buffer ::
  "platform \<Rightarrow> Packets_Array \<Rightarrow> u32 \<Rightarrow> Packet_Data \<Rightarrow> int \<times> Packets_Array" where
  "add_data_to_buffer P arr number data =
     (if number - buffer_start arr \<ge> CRYPTO_PACKET_BUFFER_SIZE then (- 1, arr)
      else
        let num = slot number in
        if buffer arr num \<noteq> None then (- 1, arr)
        else if \<not> malloc_ok P sizeof_Packet_Data then (- 1, arr)
        else
          let arr = set_slot num (Some data) arr in
          (0, if number - buffer_start arr \<ge> num_packets_array arr
              then arr\<lparr>buffer_end := number + 1\<rparr> else arr))"

definition get_data_pointer :: "Packets_Array \<Rightarrow> u32 \<Rightarrow> int \<times> Packet_Data option" where
  "get_data_pointer arr number =
     (let num_spots = num_packets_array arr in
      if buffer_end arr - number > num_spots \<or> number - buffer_start arr \<ge> num_spots then (- 1, None)
      else case buffer arr (slot number) of
          None \<Rightarrow> (0, None)
        | Some d \<Rightarrow> (1, Some d))"

definition add_data_end_of_buffer ::
  "platform \<Rightarrow> Packets_Array \<Rightarrow> Packet_Data \<Rightarrow> int \<times> Packets_Array" where
  "add_data_end_of_buffer P arr data =
     (if num_packets_array arr \<ge> CRYPTO_PACKET_BUFFER_SIZE then (- 1, arr)
      else if \<not> malloc_ok P sizeof_Packet_Data then (- 1, arr)
      else
        let ident = buffer_end arr;
            arr = set_slot (slot ident) (Some data) arr
        in (uint ident, arr\<lparr>buffer_end := buffer_end arr + 1\<rparr>))"

definition read_data_beg_buffer :: "Packets_Array \<Rightarrow> (int \<times> Packet_Data option) \<times> Packets_Array" where
  "read_data_beg_buffer arr =
     (if buffer_end arr = buffer_start arr then ((- 1, None), arr)
      else
        let num = slot (buffer_start arr) in
        case buffer arr num of
          None \<Rightarrow> ((- 1, None), arr)
        | Some d \<Rightarrow>
            let ident = buffer_start arr;
                arr = arr\<lparr>buffer_start := buffer_start arr + 1\<rparr>
            in ((uint ident, Some d), set_slot num None arr))"

lemma loop_decreases: "i \<noteq> e \<Longrightarrow> unat (e - (i + 1)) < unat (e - (i :: 'a::len word))"
  using measure_unat [of "e - i"] by (simp add: diff_diff_eq [symmetric])

text \<open>The loop \<open>for (i = from; i != to; ++i)\<close> that frees the slots it passes.\<close>

function free_loop :: "u32 \<Rightarrow> u32 \<Rightarrow> Packets_Array \<Rightarrow> Packets_Array" where
  "free_loop i number arr =
     (if i = number then arr
      else free_loop (i + 1) number
        (let num = slot i in if buffer arr num \<noteq> None then set_slot num None arr else arr))"
  by pat_completeness auto
termination
  by (relation "measure (\<lambda>(i, number, arr). unat (number - i))") (simp_all add: loop_decreases)

declare free_loop.simps [simp del]

definition clear_buffer_until :: "Packets_Array \<Rightarrow> u32 \<Rightarrow> int \<times> Packets_Array" where
  "clear_buffer_until arr number =
     (let num_spots = num_packets_array arr in
      if buffer_end arr - number \<ge> num_spots \<or> number - buffer_start arr > num_spots then (- 1, arr)
      else (0, (free_loop (buffer_start arr) number arr)\<lparr>buffer_start := number\<rparr>))"

definition clear_buffer :: "Packets_Array \<Rightarrow> int \<times> Packets_Array" where
  "clear_buffer arr =
     (0, (free_loop (buffer_start arr) (buffer_end arr) arr)\<lparr>buffer_start := buffer_end arr\<rparr>)"

definition set_buffer_end :: "Packets_Array \<Rightarrow> u32 \<Rightarrow> int \<times> Packets_Array" where
  "set_buffer_end arr number =
     (if number - buffer_start arr > CRYPTO_PACKET_BUFFER_SIZE then (- 1, arr)
      else if number - buffer_end arr > CRYPTO_PACKET_BUFFER_SIZE then (- 1, arr)
      else (0, arr\<lparr>buffer_end := number\<rparr>))"

text \<open>The loop of \<^verbatim>\<open>generate_request_packet\<close>: the bytes it appends from position
  \<open>cur_len\<close> on.\<close>

function generate_request_loop :: "Packets_Array \<Rightarrow> nat \<Rightarrow> nat \<Rightarrow> u32 \<Rightarrow> u32 \<Rightarrow> bytes" where
  "generate_request_loop recv len cur_len i n =
     (if i = buffer_end recv then []
      else if buffer recv (slot i) = None then
        ucast n # (if len \<le> cur_len + 1 then [] else generate_request_loop recv len (cur_len + 1) (i + 1) (0 + 1))
      else if n = 255 then
        0 # (if len \<le> cur_len + 1 then [] else generate_request_loop recv len (cur_len + 1) (i + 1) (0 + 1))
      else generate_request_loop recv len cur_len (i + 1) (n + 1))"
  by pat_completeness auto
termination
  by (relation "measure (\<lambda>(recv, len, cur_len, i, n). unat (buffer_end recv - i))")
    (simp_all add: loop_decreases)

declare generate_request_loop.simps [simp del]

definition generate_request_packet :: "nat \<Rightarrow> Packets_Array \<Rightarrow> bytes option" where
  "generate_request_packet len recv_array =
     (if len = 0 then None
      else if buffer_start recv_array = buffer_end recv_array then Some [PACKET_ID_REQUEST]
      else if len \<le> 1 then Some [PACKET_ID_REQUEST]
      else Some (PACKET_ID_REQUEST # generate_request_loop recv_array len 1 (buffer_start recv_array) 1))"

text \<open>A requested packet is made due for resending, unless it was sent less than a round
  trip ago.\<close>

definition mark_resend :: "u64 \<Rightarrow> u64 \<Rightarrow> u32 \<Rightarrow> Packets_Array \<Rightarrow> Packets_Array" where
  "mark_resend temp_time rtt_time num arr =
     (case buffer arr num of
        None \<Rightarrow> arr
      | Some p \<Rightarrow>
          if sent_time p + rtt_time < temp_time then set_slot num (Some (p\<lparr>sent_time := 0\<rparr>)) arr else arr)"

text \<open>A packet the other side has is released; its sending time is folded into the latest
  one.\<close>

definition release_acked :: "u32 \<Rightarrow> Packets_Array \<Rightarrow> u64 \<Rightarrow> Packets_Array \<times> u64" where
  "release_acked num arr l_sent_time =
     (case buffer arr num of
        None \<Rightarrow> (arr, l_sent_time)
      | Some p \<Rightarrow> (set_slot num None arr, max_u64 l_sent_time (sent_time p)))"

lemma buffer_end_marks [simp]:
  "buffer_end (mark_resend t r s arr) = buffer_end arr" "buffer_start (mark_resend t r s arr) = buffer_start arr"
  "buffer_end (fst (release_acked s arr l)) = buffer_end arr" "buffer_start (fst (release_acked s arr l)) = buffer_start arr"
  by (simp_all add: mark_resend_def release_acked_def set_slot_def split: option.split)

text \<open>The loop of \<^verbatim>\<open>handle_request_packet\<close>. After a match the source sets \<open>n\<close> to 0, so the test
  for 255 fails and \<open>n\<close> becomes 1; otherwise the data is still there when \<open>n\<close> is 255.\<close>

function handle_request_loop ::
  "u64 \<Rightarrow> u64 \<Rightarrow> u32 \<Rightarrow> Packets_Array \<Rightarrow> bytes \<Rightarrow> u32 \<Rightarrow> u32 \<Rightarrow> u64 \<Rightarrow> (u32 \<times> u64) option \<times> Packets_Array" where
  "handle_request_loop temp_time rtt_time i arr data n requested l_sent_time =
     (if i = buffer_end arr then (Some (requested, l_sent_time), arr)
      else case data of
          [] \<Rightarrow> (Some (requested, l_sent_time), arr)
        | b # rest \<Rightarrow>
            if n = ucast b then
              handle_request_loop temp_time rtt_time (i + 1) (mark_resend temp_time rtt_time (slot i) arr)
                rest (0 + 1) (requested + 1) l_sent_time
            else
              let r = release_acked (slot i) arr l_sent_time in
              if n = 255 then
                (if b \<noteq> 0 then (None, fst r)
                 else handle_request_loop temp_time rtt_time (i + 1) (fst r) rest 1 requested (snd r))
              else handle_request_loop temp_time rtt_time (i + 1) (fst r) data (n + 1) requested (snd r))"
  by pat_completeness auto
termination
  by (relation "measure (\<lambda>(temp_time, rtt_time, i, arr, data, n, requested, l). unat (buffer_end arr - i))")
    (simp_all add: loop_decreases)

declare handle_request_loop.simps [simp del]

text \<open>The result is \<open>-1\<close> or the number of requested packets; \<open>*latest_send_time\<close> and the array
  are passed through. The packets released before a malformed byte stay released.\<close>

definition handle_request_packet ::
  "u64 \<Rightarrow> Packets_Array \<Rightarrow> bytes \<Rightarrow> u64 \<Rightarrow> u64 \<Rightarrow> int \<times> u64 \<times> Packets_Array" where
  "handle_request_packet temp_time send_array data latest_send_time rtt_time =
     (case data of
        [] \<Rightarrow> (- 1, latest_send_time, send_array)
      | d # rest \<Rightarrow>
          if d \<noteq> PACKET_ID_REQUEST then (- 1, latest_send_time, send_array)
          else if rest = [] then (0, latest_send_time, send_array)
          else
            case handle_request_loop temp_time rtt_time (buffer_start send_array) send_array rest 1 0 0 of
              (None, arr) \<Rightarrow> (- 1, latest_send_time, arr)
            | (Some (requested, l_sent_time), arr) \<Rightarrow>
                (sint requested, max_u64 latest_send_time l_sent_time, arr))"

section \<open>Windows of packet numbers\<close>

text \<open>The numbers from \<open>i\<close> up to but not including \<open>e\<close>, modulo \<open>2 ^ 32\<close>.\<close>

definition in_window :: "u32 \<Rightarrow> u32 \<Rightarrow> u32 \<Rightarrow> bool" where
  "in_window i e y \<longleftrightarrow> y - i < e - i"

lemma in_window_empty [simp]: "\<not> in_window i i y"
  by (simp add: in_window_def)

lemma in_window_first [simp]: "in_window i e i \<longleftrightarrow> i \<noteq> e"
  by (auto simp: in_window_def word_gt_0)

lemma word_less_pred:
  "w \<noteq> 0 \<Longrightarrow> a < w \<longleftrightarrow> a = 0 \<or> a - 1 < w - (1 :: 'a::len word)"
proof (cases "a = 0")
  case True
  assume "w \<noteq> 0"
  with True show ?thesis by (simp add: word_gt_0)
next
  case False
  assume "w \<noteq> 0"
  moreover have "0 < unat a" "0 < unat w" using False \<open>w \<noteq> 0\<close> by (simp_all add: unat_gt_0)
  ultimately show ?thesis
    using False by (simp add: word_less_nat_alt unat_minus_one) linarith
qed

lemma in_window_step: "i \<noteq> e \<Longrightarrow> in_window i e y \<longleftrightarrow> y = i \<or> in_window (i + 1) e y"
  using word_less_pred [of "e - i" "y - i"] by (simp add: in_window_def diff_diff_eq [symmetric])

lemma not_in_window_succ: "i \<noteq> e \<Longrightarrow> \<not> in_window (i + 1) e i"
  by (simp add: in_window_def not_less word_n1_ge)

lemma unat_slot: "unat (slot number) = unat number mod 32768"
  by (simp add: slot_def size_defs unat_mod)

lemma slot_less: "slot number < 32768"
  by (simp add: word_less_nat_alt unat_slot)

lemma slot_add: "unat (slot (i + a)) = (unat i + unat a) mod 32768"
proof -
  have "(2 ^ 32 :: nat) = 32768 * 131072" by simp
  then show ?thesis
    by (simp add: unat_slot unat_word_ariths mod_mult2_eq mod_mod_cancel)
qed

lemma slot_inject:
  assumes "in_window i e y" "in_window i e z" "unat (e - i) \<le> 32768" "slot y = slot z"
  shows "y = z"
proof -
  let ?a = "y - i" and ?b = "z - i"
  have lt: "unat ?a < 32768" "unat ?b < 32768"
    using assms(1-3) by (simp_all add: in_window_def word_less_nat_alt)
  have "(unat i + unat ?a) mod 32768 = (unat i + unat ?b) mod 32768"
    using assms(4) slot_add [of i ?a] slot_add [of i ?b] by simp
  then have "unat ?a mod 32768 = unat ?b mod 32768" by (rule add_left_cancel_mod_nat)
  with lt have "?a = ?b" by (simp add: unsigned_word_eqI)
  then show ?thesis by simp
qed

section \<open>Invariant and abstraction\<close>

text \<open>The window fits into the ring, and only slots of the window are occupied.\<close>

definition pa_inv :: "Packets_Array \<Rightarrow> bool" where
  "pa_inv arr \<longleftrightarrow> unat (buffer_end arr - buffer_start arr) \<le> 32768 \<and>
     (\<forall>s. buffer arr s \<noteq> None \<longrightarrow>
        (\<exists>y. in_window (buffer_start arr) (buffer_end arr) y \<and> slot y = s))"

text \<open>The array as a finite map from packet numbers to packets.\<close>

definition pa_map :: "Packets_Array \<Rightarrow> u32 \<Rightarrow> Packet_Data option" where
  "pa_map arr y = (if in_window (buffer_start arr) (buffer_end arr) y then buffer arr (slot y) else None)"

lemma set_slot_simps [simp]:
  "buffer (set_slot s v arr) = (buffer arr)(s := v)"
  "buffer_start (set_slot s v arr) = buffer_start arr"
  "buffer_end (set_slot s v arr) = buffer_end arr"
  by (simp_all add: set_slot_def)

lemma in_window_mono: "in_window i e y \<Longrightarrow> e - i \<le> e' - i \<Longrightarrow> in_window i e' y"
  by (simp add: in_window_def)

text \<open>In any larger window that still fits, a slot holds what the map says.\<close>

lemma buffer_slot_eq:
  assumes "pa_inv arr" "in_window (buffer_start arr) e' y" "unat (e' - buffer_start arr) \<le> 32768"
    and "buffer_end arr - buffer_start arr \<le> e' - buffer_start arr"
  shows "buffer arr (slot y) = pa_map arr y"
proof (cases "buffer arr (slot y) = None")
  case True
  then show ?thesis by (simp add: pa_map_def)
next
  case False
  with assms(1) obtain z where z: "in_window (buffer_start arr) (buffer_end arr) z" "slot z = slot y"
    unfolding pa_inv_def by blast
  then have "z = y"
    using slot_inject [OF in_window_mono [OF z(1) assms(4)] assms(2,3)] by simp
  with z(1) show ?thesis by (simp add: pa_map_def)
qed

text \<open>Storing into a slot of a possibly larger window updates the map at one number.\<close>

lemma pa_set:
  assumes "pa_inv arr" "in_window (buffer_start arr) e' number" "unat (e' - buffer_start arr) \<le> 32768"
    and "buffer_end arr - buffer_start arr \<le> e' - buffer_start arr"
  shows "pa_inv ((set_slot (slot number) v arr)\<lparr>buffer_end := e'\<rparr>)"
    and "pa_map ((set_slot (slot number) v arr)\<lparr>buffer_end := e'\<rparr>) = (pa_map arr)(number := v)"
proof -
  show "pa_inv ((set_slot (slot number) v arr)\<lparr>buffer_end := e'\<rparr>)"
    using assms(1-3) in_window_mono [OF _ assms(4)] unfolding pa_inv_def by simp metis
  show "pa_map ((set_slot (slot number) v arr)\<lparr>buffer_end := e'\<rparr>) = (pa_map arr)(number := v)"
  proof
    fix y
    show "pa_map ((set_slot (slot number) v arr)\<lparr>buffer_end := e'\<rparr>) y = ((pa_map arr)(number := v)) y"
    proof (cases "in_window (buffer_start arr) e' y")
      case True
      with slot_inject [OF True assms(2,3)] buffer_slot_eq [OF assms(1) True assms(3,4)] assms(2)
      show ?thesis by (auto simp: pa_map_def)
    next
      case False
      with in_window_mono [OF _ assms(4)] assms(2) show ?thesis by (auto simp: pa_map_def)
    qed
  qed
qed

lemma pa_extend:
  assumes "pa_inv arr" "unat (e' - buffer_start arr) \<le> 32768"
    and "buffer_end arr - buffer_start arr \<le> e' - buffer_start arr"
  shows "pa_inv (arr\<lparr>buffer_end := e'\<rparr>)" and "pa_map (arr\<lparr>buffer_end := e'\<rparr>) = pa_map arr"
proof -
  show "pa_inv (arr\<lparr>buffer_end := e'\<rparr>)"
    using assms in_window_mono [OF _ assms(3)] unfolding pa_inv_def by fastforce
  show "pa_map (arr\<lparr>buffer_end := e'\<rparr>) = pa_map arr"
  proof
    fix y
    show "pa_map (arr\<lparr>buffer_end := e'\<rparr>) y = pa_map arr y"
      using buffer_slot_eq [OF assms(1) _ assms(2,3), of y] in_window_mono [OF _ assms(3), of y]
      by (cases "in_window (buffer_start arr) e' y") (auto simp: pa_map_def)
  qed
qed

lemma word_succ_small: "unat w < 32768 \<Longrightarrow> unat (w + 1 :: u32) = Suc (unat w)"
  by (simp add: unat_word_ariths)

section \<open>The operations on the map\<close>

lemma add_data_to_buffer_map:
  assumes "pa_inv arr"
  shows "add_data_to_buffer P arr number data = (r, arr') \<Longrightarrow>
    (if unat (number - buffer_start arr) < 32768 \<and> pa_map arr number = None \<and> malloc_ok P sizeof_Packet_Data
     then r = 0 \<and> pa_inv arr' \<and> pa_map arr' = (pa_map arr)(number \<mapsto> data) \<and>
       buffer_start arr' = buffer_start arr
     else r = - 1 \<and> arr' = arr)"
proof -
  assume call: "add_data_to_buffer P arr number data = (r, arr')"
  let ?s = "buffer_start arr" and ?e = "buffer_end arr"
  define e' where "e' = (if number - ?s \<ge> ?e - ?s then number + 1 else ?e)"
  show ?thesis
  proof (cases "unat (number - ?s) < 32768")
    case False
    with call show ?thesis by (simp add: add_data_to_buffer_def size_defs word_le_nat_alt)
  next
    case True
    have succ: "unat (number + 1 - ?s) = Suc (unat (number - ?s))"
      using word_succ_small [OF True] by (simp add: algebra_simps)
    have fits: "unat (e' - ?s) \<le> 32768" "?e - ?s \<le> e' - ?s"
      using True succ assms by (auto simp: e'_def pa_inv_def word_le_nat_alt)
    have inw: "in_window ?s e' number"
      using succ by (simp add: e'_def in_window_def word_less_nat_alt word_le_nat_alt)
    have free: "buffer arr (slot number) = pa_map arr number"
      by (rule buffer_slot_eq [OF assms inw fits])
    have "add_data_to_buffer P arr number data =
        (if pa_map arr number \<noteq> None \<or> \<not> malloc_ok P sizeof_Packet_Data then (- 1, arr)
         else (0, (set_slot (slot number) (Some data) arr)\<lparr>buffer_end := e'\<rparr>))"
      using True free
      by (simp add: add_data_to_buffer_def CRYPTO_PACKET_BUFFER_SIZE_def word_le_nat_alt Let_def
          num_packets_array_def e'_def)
    with call True pa_set [OF assms inw fits] show ?thesis
      by (auto split: if_splits)
  qed
qed

lemma get_data_pointer_map:
  "pa_inv arr \<Longrightarrow> get_data_pointer arr number =
     (if \<not> in_window (buffer_start arr) (buffer_end arr) number then (- 1, None)
      else case pa_map arr number of None \<Rightarrow> (0, None) | Some d \<Rightarrow> (1, Some d))"
proof -
  let ?w = "buffer_end arr - buffer_start arr" and ?a = "number - buffer_start arr"
  have "buffer_end arr - number = ?w - ?a" by simp
  moreover have "?a < ?w \<Longrightarrow> \<not> ?w - ?a > ?w"
    using word_sub_le [of ?a ?w] by (simp only: not_less order_less_imp_le)
  ultimately show ?thesis
    by (auto simp: get_data_pointer_def num_packets_array_def in_window_def pa_map_def Let_def
        word_sub_le not_less split: option.split)
qed

lemma add_data_end_of_buffer_map:
  assumes "pa_inv arr" "add_data_end_of_buffer P arr data = (r, arr')"
  shows "if unat (num_packets_array arr) < 32768 \<and> malloc_ok P sizeof_Packet_Data
     then r = uint (buffer_end arr) \<and> pa_inv arr' \<and> pa_map arr' = (pa_map arr)(buffer_end arr \<mapsto> data) \<and>
       buffer_start arr' = buffer_start arr \<and> buffer_end arr' = buffer_end arr + 1
     else r = - 1 \<and> arr' = arr"
proof (cases "unat (num_packets_array arr) < 32768")
  case False
  with assms(2) show ?thesis
    by (simp add: add_data_end_of_buffer_def CRYPTO_PACKET_BUFFER_SIZE_def word_le_nat_alt)
next
  case True
  let ?s = "buffer_start arr" and ?e = "buffer_end arr"
  have succ: "unat (?e + 1 - ?s) = Suc (unat (?e - ?s))"
    using word_succ_small [of "?e - ?s"] True by (simp add: num_packets_array_def algebra_simps)
  have fits: "unat (?e + 1 - ?s) \<le> 32768" "?e - ?s \<le> ?e + 1 - ?s" "in_window ?s (?e + 1) ?e"
    using True succ by (simp_all add: num_packets_array_def word_le_nat_alt in_window_def word_less_nat_alt)
  show ?thesis
    using pa_set [OF assms(1) fits(3,1,2), of "Some data"] True assms(2)
    by (auto simp: add_data_end_of_buffer_def CRYPTO_PACKET_BUFFER_SIZE_def word_le_nat_alt Let_def
        split: if_splits)
qed

lemma read_data_beg_buffer_map:
  assumes "pa_inv arr" "read_data_beg_buffer arr = ((r, d), arr')"
  shows "d = pa_map arr (buffer_start arr)"
    and "d = None \<Longrightarrow> r = - 1 \<and> arr' = arr"
    and "d \<noteq> None \<Longrightarrow> r = uint (buffer_start arr) \<and> pa_inv arr' \<and>
      pa_map arr' = (pa_map arr)(buffer_start arr := None) \<and>
      buffer_start arr' = buffer_start arr + 1 \<and> buffer_end arr' = buffer_end arr"
proof -
  let ?s = "buffer_start arr" and ?e = "buffer_end arr"
  show d: "d = pa_map arr (buffer_start arr)" and "d = None \<Longrightarrow> r = - 1 \<and> arr' = arr"
    using assms(2) by (auto simp: read_data_beg_buffer_def pa_map_def Let_def split: if_splits option.splits)
  assume "d \<noteq> None"
  with assms(2) have ne: "?s \<noteq> ?e" and r: "r = uint ?s"
    and arr': "arr' = set_slot (slot ?s) None (arr\<lparr>buffer_start := ?s + 1\<rparr>)"
    by (auto simp: read_data_beg_buffer_def Let_def split: if_splits option.splits)
  have fit: "unat (?e - ?s) \<le> 32768" using assms(1) by (simp add: pa_inv_def)
  have fit': "unat (?e - (?s + 1)) \<le> 32768" using loop_decreases [OF ne] fit by simp
  have win: "in_window ?s ?e y \<longleftrightarrow> y = ?s \<or> in_window (?s + 1) ?e y" for y
    by (rule in_window_step [OF ne])
  have inj: "slot y = slot ?s \<longleftrightarrow> y = ?s" if "in_window ?s ?e y" for y
    using slot_inject [OF that _ fit, of ?s] ne by auto
  have "pa_map arr' = (pa_map arr)(?s := None)"
    using win inj not_in_window_succ [OF ne] by (auto simp: pa_map_def arr' fun_eq_iff)
  moreover have "pa_inv arr'"
    using assms(1) fit' win unfolding pa_inv_def arr' by simp metis
  ultimately show "r = uint ?s \<and> pa_inv arr' \<and> pa_map arr' = (pa_map arr)(?s := None) \<and>
      buffer_start arr' = ?s + 1 \<and> buffer_end arr' = ?e"
    using r by (simp add: arr')
qed

lemma free_loop_buffer:
  "buffer (free_loop i number arr) s = (if \<exists>y. in_window i number y \<and> slot y = s then None else buffer arr s)
   \<and> buffer_start (free_loop i number arr) = buffer_start arr \<and> buffer_end (free_loop i number arr) = buffer_end arr"
proof (induction i number arr rule: free_loop.induct)
  case (1 i number arr)
  show ?case
  proof (cases "i = number")
    case True
    then show ?thesis by (simp add: free_loop.simps [of number number])
  next
    case False
    define arr1 where "arr1 = (let num = slot i in if buffer arr num \<noteq> None then set_slot num None arr else arr)"
    have eq: "free_loop i number arr = free_loop (i + 1) number arr1"
      using False by (simp add: arr1_def free_loop.simps [of i])
    have arr1: "buffer arr1 s = (if s = slot i then None else buffer arr s)"
      "buffer_start arr1 = buffer_start arr" "buffer_end arr1 = buffer_end arr"
      by (simp_all add: arr1_def Let_def)
    from 1 [OF False, folded arr1_def] in_window_step [OF False] show ?thesis
      unfolding eq arr1 by auto
  qed
qed

lemma in_window_split:
  assumes "n - i \<le> e - i"
  shows "in_window i e y \<longleftrightarrow> in_window i n y \<or> in_window n e y"
    and "in_window i n y \<Longrightarrow> \<not> in_window n e y"
proof -
  let ?a = "unat (y - i)" and ?n = "unat (n - i)" and ?e = "unat (e - i)"
  have e: "unat (e - n) = ?e - ?n"
    using unat_sub [OF assms] by simp
  have "y - n = (y - i) - (n - i)" by simp
  then have y: "unat (y - n) = (if ?n \<le> ?a then ?a - ?n else ?a + 2 ^ 32 - ?n)"
    using unat_sub_if' [of "y - i" "n - i"] by simp
  have "?a < 2 ^ 32" "?e < 2 ^ 32" by (rule order_less_le_trans [OF unsigned_less], simp)+
  moreover have "?n \<le> ?e" using assms by (simp add: word_le_nat_alt)
  ultimately show "in_window i e y \<longleftrightarrow> in_window i n y \<or> in_window n e y"
    and "in_window i n y \<Longrightarrow> \<not> in_window n e y"
    unfolding in_window_def word_less_nat_alt e y by auto
qed

text \<open>Advancing the start of the window to \<open>number\<close>, as both clearing operations do.\<close>

lemma free_until_map:
  assumes "pa_inv arr" "number - buffer_start arr \<le> buffer_end arr - buffer_start arr"
    and "arr' = (free_loop (buffer_start arr) number arr)\<lparr>buffer_start := number\<rparr>"
  shows "pa_inv arr'"
    and "pa_map arr' = (\<lambda>y. if in_window (buffer_start arr) number y then None else pa_map arr y)"
proof -
  let ?s = "buffer_start arr" and ?e = "buffer_end arr"
  note split = in_window_split [OF assms(2)]
  have fit: "unat (?e - ?s) \<le> 32768" using assms(1) by (simp add: pa_inv_def)
  have buf: "buffer arr' s = (if \<exists>y. in_window ?s number y \<and> slot y = s then None else buffer arr s)"
    and st: "buffer_start arr' = number" "buffer_end arr' = ?e" for s
    using free_loop_buffer [of ?s number arr] by (simp_all add: assms(3))
  have "?e - number = (?e - ?s) - (number - ?s)" by simp
  then have "unat (?e - number) \<le> unat (?e - ?s)"
    using unat_sub [OF assms(2)] by simp
  then have "unat (?e - number) \<le> 32768" using fit by simp
  then show "pa_inv arr'"
    using assms(1) split(1) unfolding pa_inv_def st buf by (metis (full_types))
  have inj: "slot z \<noteq> slot y" if "in_window number ?e y" "in_window ?s number z" for y z
    using that slot_inject [of ?s ?e z y] split fit by blast
  show "pa_map arr' = (\<lambda>y. if in_window ?s number y then None else pa_map arr y)"
  proof
    fix y
    consider "in_window number ?e y" | "\<not> in_window number ?e y" by blast
    then show "pa_map arr' y = (if in_window ?s number y then None else pa_map arr y)"
    proof cases
      case 1
      then have "\<not> in_window ?s number y" using split(2) by blast
      with 1 inj split(1) show ?thesis unfolding pa_map_def st buf by auto
    qed (auto simp: pa_map_def st split(1))
  qed
qed

lemma word_le_sub_iff:
  assumes "a \<le> (w :: 'a::len word)"
  shows "w \<le> w - a \<longleftrightarrow> a = 0"
proof -
  have "unat a \<le> unat w" using assms by (simp add: word_le_nat_alt)
  then have "unat w \<le> unat w - unat a \<longleftrightarrow> unat a = 0" by linarith
  then show ?thesis
    using unat_sub [OF assms] by (simp add: word_le_nat_alt unat_eq_0)
qed

lemma clear_buffer_until_map:
  assumes "pa_inv arr" "clear_buffer_until arr number = (r, arr')"
  shows "if number \<noteq> buffer_start arr \<and> number - buffer_start arr \<le> num_packets_array arr
     then r = 0 \<and> pa_inv arr' \<and> buffer_start arr' = number \<and> buffer_end arr' = buffer_end arr \<and>
       pa_map arr' = (\<lambda>y. if in_window (buffer_start arr) number y then None else pa_map arr y)
     else r = - 1 \<and> arr' = arr"
proof -
  let ?w = "buffer_end arr - buffer_start arr" and ?a = "number - buffer_start arr"
  have w: "buffer_end arr - number = ?w - ?a" by simp
  have "?a \<le> ?w \<Longrightarrow> ?w - ?a \<ge> ?w \<longleftrightarrow> ?a = 0"
    by (rule word_le_sub_iff)
  then have ok: "(\<not> (?w - ?a \<ge> ?w \<or> ?a > ?w)) \<longleftrightarrow> number \<noteq> buffer_start arr \<and> ?a \<le> ?w"
    by (auto simp: not_less)
  show ?thesis
    using assms(2) ok free_until_map [OF assms(1) _ refl, of number] free_loop_buffer [of "buffer_start arr" number arr]
    unfolding clear_buffer_until_def num_packets_array_def Let_def w by (auto split: if_splits)
qed

lemma clear_buffer_map:
  assumes "pa_inv arr" "clear_buffer arr = (r, arr')"
  shows "r = 0 \<and> pa_inv arr' \<and> pa_map arr' = (\<lambda>_. None) \<and> buffer arr' = (\<lambda>_. None)"
proof -
  have arr': "arr' = (free_loop (buffer_start arr) (buffer_end arr) arr)\<lparr>buffer_start := buffer_end arr\<rparr>" "r = 0"
    using assms(2) by (simp_all add: clear_buffer_def)
  have "buffer arr' = (\<lambda>_. None)"
    using assms(1) free_loop_buffer [of "buffer_start arr" "buffer_end arr" arr]
    unfolding pa_inv_def arr' by (auto simp: fun_eq_iff)
  then show ?thesis
    using free_until_map [OF assms(1) _ arr'(1)] arr'(2) by (auto simp: pa_map_def)
qed

lemma set_buffer_end_map:
  assumes "pa_inv arr" "set_buffer_end arr number = (r, arr')"
  shows "pa_inv arr'" "pa_map arr' = pa_map arr" "buffer_start arr' = buffer_start arr"
    "r = 0 \<longleftrightarrow> buffer_end arr - buffer_start arr \<le> number - buffer_start arr \<and> unat (number - buffer_start arr) \<le> 32768"
    "r = 0 \<Longrightarrow> buffer_end arr' = number" "r \<noteq> 0 \<Longrightarrow> r = - 1 \<and> arr' = arr"
proof -
  let ?w = "buffer_end arr - buffer_start arr" and ?a = "number - buffer_start arr"
  have w: "number - buffer_end arr = ?a - ?w" by simp
  have fit: "unat ?w \<le> 32768" using assms(1) by (simp add: pa_inv_def)
  have "unat ?a \<le> 32768 \<Longrightarrow> unat (?a - ?w) \<le> 32768 \<longleftrightarrow> ?w \<le> ?a"
    using unat_sub_if' [of ?a ?w] fit by (auto simp: word_le_nat_alt)
  then have ok: "r = 0 \<longleftrightarrow> ?w \<le> ?a \<and> unat ?a \<le> 32768"
    using assms(2) unfolding set_buffer_end_def w
    by (auto simp: CRYPTO_PACKET_BUFFER_SIZE_def word_less_nat_alt not_less split: if_splits)
  then show "r = 0 \<longleftrightarrow> ?w \<le> ?a \<and> unat ?a \<le> 32768" .
  have eq: "arr' = (if r = 0 then arr\<lparr>buffer_end := number\<rparr> else arr)" and "r \<noteq> 0 \<Longrightarrow> r = - 1"
    using assms(2) by (auto simp: set_buffer_end_def split: if_splits)
  then show "r \<noteq> 0 \<Longrightarrow> r = - 1 \<and> arr' = arr" "r = 0 \<Longrightarrow> buffer_end arr' = number"
    "buffer_start arr' = buffer_start arr" by simp_all
  show "pa_inv arr'" "pa_map arr' = pa_map arr"
    using eq ok pa_extend [OF assms(1), of number] assms(1) by auto
qed

section \<open>Request packets\<close>

lemma ucast_small: "n \<le> 255 \<Longrightarrow> (ucast (ucast (n :: u32) :: byte) :: u32) = n"
  by (simp add: word_unat_eq_iff word_le_nat_alt unsigned_ucast_eq unsigned_take_bit_eq take_bit_eq_mod unat_mod)

text \<open>The first byte emitted from a count of \<open>n\<close> on is zero or at least \<open>n\<close>.\<close>

lemma generate_request_loop_hd:
  "n \<le> 255 \<Longrightarrow> generate_request_loop recv len cur i n = b # rest \<Longrightarrow> b = 0 \<or> n \<le> ucast b"
proof (induction recv len cur i n rule: generate_request_loop.induct)
  case (1 recv len cur i n)
  have ne: "i \<noteq> buffer_end recv"
    using 1(5) by (auto simp: generate_request_loop.simps [of recv len cur i n])
  note eq = 1(5)[unfolded generate_request_loop.simps [of recv len cur i n]]
  show ?case
  proof (cases "buffer recv (slot i) = None")
    case True
    with eq ne 1(4) show ?thesis by (auto simp: ucast_small)
  next
    case present: False
    show ?thesis
    proof (cases "n = 255")
      case True
      with eq ne present show ?thesis by simp
    next
      case False
      then have n: "n + 1 \<le> 255" "n \<le> n + 1"
        using 1(4) by (auto simp: word_le_nat_alt unat_word_ariths word_unat_eq_iff)
      with 1(3) [OF ne present False] eq ne present False show ?thesis
        using order_trans [OF n(2)] by auto
    qed
  qed
qed

text \<open>What handling a request does to the packet of one number: a packet the receiver has
  may be released, any other is kept, possibly made due for resending.\<close>

definition request_effect :: "bool \<Rightarrow> Packet_Data option \<Rightarrow> Packet_Data option \<Rightarrow> bool" where
  "request_effect received p p' \<longleftrightarrow>
     p' = p \<or> (if received then p' = None else p' = map_option (sent_time_update (\<lambda>_. 0)) p)"

definition received_from :: "Packets_Array \<Rightarrow> u32 \<Rightarrow> u32 \<Rightarrow> bool" where
  "received_from recv i y \<longleftrightarrow> in_window i (buffer_end recv) y \<and> buffer recv (slot y) \<noteq> None"

text \<open>A missing packet that is older than a round trip is due for resending afterwards.\<close>

definition due_again :: "u64 \<Rightarrow> u64 \<Rightarrow> Packet_Data option \<Rightarrow> Packet_Data option \<Rightarrow> bool" where
  "due_again temp_time rtt_time p p' \<longleftrightarrow>
     (case p of None \<Rightarrow> p' = None
      | Some d \<Rightarrow> p' = Some (if sent_time d + rtt_time < temp_time then d\<lparr>sent_time := 0\<rparr> else d))"

text \<open>The specification of the handling loop from number \<open>i\<close> on, for a request whose bytes
  from here on are those the receiver \<open>recv\<close> emits.\<close>

definition handled_from ::
  "u64 \<Rightarrow> u64 \<Rightarrow> Packets_Array \<Rightarrow> bool \<Rightarrow> u32 \<Rightarrow> Packets_Array \<Rightarrow> Packets_Array \<Rightarrow> bool" where
  "handled_from temp_time rtt_time recv complete i arr arr' \<longleftrightarrow>
     buffer_start arr' = buffer_start arr \<and> buffer_end arr' = buffer_end arr \<and>
     (\<forall>s. (\<forall>y. in_window i (buffer_end arr) y \<longrightarrow> slot y \<noteq> s) \<longrightarrow> buffer arr' s = buffer arr s) \<and>
     (\<forall>y. in_window i (buffer_end arr) y \<longrightarrow>
        request_effect (received_from recv i y) (buffer arr (slot y)) (buffer arr' (slot y)) \<and>
        (complete \<longrightarrow> in_window i (buffer_end recv) y \<longrightarrow> \<not> received_from recv i y \<longrightarrow>
           due_again temp_time rtt_time (buffer arr (slot y)) (buffer arr' (slot y))))"

lemma handled_from_refl:
  "(complete \<Longrightarrow> \<forall>y. in_window i (buffer_end arr) y \<longrightarrow> in_window i (buffer_end recv) y \<longrightarrow> received_from recv i y) \<Longrightarrow>
   handled_from t r recv complete i arr arr"
  by (auto simp: handled_from_def request_effect_def)

text \<open>One step of the loop followed by the rest.\<close>

lemma handled_from_step:
  assumes ne: "i \<noteq> buffer_end arr" "i \<noteq> buffer_end recv"
    and fit: "unat (buffer_end arr - i) \<le> 32768"
    and rest: "handled_from t r recv complete (i + 1) arr1 arr'"
    and arr1: "buffer_start arr1 = buffer_start arr" "buffer_end arr1 = buffer_end arr"
      "\<And>s. s \<noteq> slot i \<Longrightarrow> buffer arr1 s = buffer arr s"
    and eff: "request_effect (buffer recv (slot i) \<noteq> None) (buffer arr (slot i)) (buffer arr1 (slot i))"
    and due: "buffer recv (slot i) = None \<Longrightarrow> due_again t r (buffer arr (slot i)) (buffer arr1 (slot i))"
  shows "handled_from t r recv complete i arr arr'"
proof -
  note step = in_window_step [OF ne(1)] and rstep = in_window_step [OF ne(2)]
  have inj: "slot y \<noteq> slot i" if "in_window (i + 1) (buffer_end arr) y" for y
    using slot_inject [of i "buffer_end arr" y i] step that not_in_window_succ [OF ne(1)] fit ne(1)
    by auto
  have at_i: "buffer arr' (slot i) = buffer arr1 (slot i)"
    using rest inj arr1 unfolding handled_from_def by metis
  have rec: "received_from recv i y = received_from recv (i + 1) y" if "y \<noteq> i" for y
    using that rstep by (auto simp: received_from_def)
  have rec_i: "received_from recv i i \<longleftrightarrow> buffer recv (slot i) \<noteq> None"
    using ne(2) by (simp add: received_from_def)
  have frame: "buffer arr' s = buffer arr s" if "\<forall>y. in_window i (buffer_end arr) y \<longrightarrow> slot y \<noteq> s" for s
    using that rest arr1 step ne(1) unfolding handled_from_def by (metis in_window_first)
  have each: "request_effect (received_from recv i y) (buffer arr (slot y)) (buffer arr' (slot y)) \<and>
        (complete \<longrightarrow> in_window i (buffer_end recv) y \<longrightarrow> \<not> received_from recv i y \<longrightarrow>
           due_again t r (buffer arr (slot y)) (buffer arr' (slot y)))"
    if y: "in_window i (buffer_end arr) y" for y
  proof (cases "y = i")
    case True
    with eff due rec_i at_i show ?thesis by simp
  next
    case False
    then have y1: "in_window (i + 1) (buffer_end arr) y" using y step by blast
    with rest arr1(2) have "request_effect (received_from recv (i + 1) y) (buffer arr1 (slot y)) (buffer arr' (slot y))"
      "complete \<longrightarrow> in_window (i + 1) (buffer_end recv) y \<longrightarrow> \<not> received_from recv (i + 1) y \<longrightarrow>
        due_again t r (buffer arr1 (slot y)) (buffer arr' (slot y))"
      unfolding handled_from_def by simp_all
    with arr1(3) [OF inj [OF y1]] rec [OF False] rstep [of y] False show ?thesis by simp
  qed
  show ?thesis
    unfolding handled_from_def
    using frame each rest arr1 by (simp add: handled_from_def)
qed

lemma release_acked_eq: "fst (release_acked s arr l) = set_slot s None arr"
  by (cases "buffer arr s") (auto simp: release_acked_def set_slot_def fun_upd_idem)

lemma request_effect_mark:
  "request_effect False (buffer arr s) (buffer (mark_resend t r s arr) s)"
  "due_again t r (buffer arr s) (buffer (mark_resend t r s arr) s)"
  "s' \<noteq> s \<Longrightarrow> buffer (mark_resend t r s arr) s' = buffer arr s'"
  by (auto simp: request_effect_def due_again_def mark_resend_def split: option.split)

lemma handle_request_loop_Nil [simp]:
  "handle_request_loop t r i arr [] n requested l = (Some (requested, l), arr)"
  by (simp add: handle_request_loop.simps [of t r i])

text \<open>A run of the handling loop that succeeds and meets the specification.\<close>

definition handles ::
  "u64 \<Rightarrow> u64 \<Rightarrow> Packets_Array \<Rightarrow> bool \<Rightarrow> u32 \<Rightarrow> Packets_Array \<Rightarrow> bytes \<Rightarrow> u32 \<Rightarrow> u32 \<Rightarrow> u64 \<Rightarrow> bool" where
  "handles t r recv complete i arr data n requested l \<longleftrightarrow>
     (\<exists>req l' arr'. handle_request_loop t r i arr data n requested l = (Some (req, l'), arr') \<and>
        handled_from t r recv complete i arr arr')"

lemma handles_Nil:
  "handled_from t r recv complete i arr arr \<Longrightarrow> handles t r recv complete i arr [] n requested l"
  by (simp add: handles_def)

lemma handles_missing:
  assumes "i \<noteq> buffer_end recv" "i \<noteq> buffer_end arr" "buffer recv (slot i) = None" "n \<le> 255"
    and fit: "unat (buffer_end arr - i) \<le> 32768"
    and tail: "handles t r recv complete (i + 1) (mark_resend t r (slot i) arr) tail 1 (requested + 1) l"
  shows "handles t r recv complete i arr (ucast n # tail) n requested l"
proof -
  from tail obtain req l' arr' where h:
    "handle_request_loop t r (i + 1) (mark_resend t r (slot i) arr) tail 1 (requested + 1) l = (Some (req, l'), arr')"
    "handled_from t r recv complete (i + 1) (mark_resend t r (slot i) arr) arr'"
    by (auto simp: handles_def)
  have "handled_from t r recv complete i arr arr'"
    using assms(3) request_effect_mark [where arr = arr and s = "slot i" and t = t and r = r]
    by (intro handled_from_step [OF assms(2,1) fit h(2)]) simp_all
  with h(1) assms show ?thesis
    by (simp add: handles_def handle_request_loop.simps [of t r i arr] ucast_small)
qed

lemma handles_release:
  assumes "i \<noteq> buffer_end recv" "i \<noteq> buffer_end arr" "buffer recv (slot i) \<noteq> None" "n \<noteq> ucast b"
    and fit: "unat (buffer_end arr - i) \<le> 32768"
    and tail: "handles t r recv complete (i + 1) (set_slot (slot i) None arr)
      (if n = 255 then rest else b # rest) (if n = 255 then 1 else n + 1) requested (snd (release_acked (slot i) arr l))"
    and "n = 255 \<Longrightarrow> b = 0"
  shows "handles t r recv complete i arr (b # rest) n requested l"
proof -
  from tail obtain req l' arr' where h:
    "handle_request_loop t r (i + 1) (set_slot (slot i) None arr) (if n = 255 then rest else b # rest)
       (if n = 255 then 1 else n + 1) requested (snd (release_acked (slot i) arr l)) = (Some (req, l'), arr')"
    "handled_from t r recv complete (i + 1) (set_slot (slot i) None arr) arr'"
    by (auto simp: handles_def)
  have "handled_from t r recv complete i arr arr'"
    using assms(3) by (intro handled_from_step [OF assms(2,1) fit h(2)]) (simp_all add: request_effect_def)
  with h(1) assms show ?thesis
    by (auto simp: handles_def handle_request_loop.simps [of t r i arr] release_acked_eq Let_def split: if_splits)
qed

text \<open>The rest of a request after a byte: nothing if the packet is full.\<close>

definition request_tail :: "Packets_Array \<Rightarrow> nat \<Rightarrow> nat \<Rightarrow> u32 \<Rightarrow> bytes" where
  "request_tail recv len cur i = (if len \<le> cur + 1 then [] else generate_request_loop recv len (cur + 1) (i + 1) 1)"

lemma generate_request_loop_cases:
  "generate_request_loop recv len cur i n =
     (if i = buffer_end recv then []
      else if buffer recv (slot i) = None then ucast n # request_tail recv len cur i
      else if n = 255 then 0 # request_tail recv len cur i
      else generate_request_loop recv len cur (i + 1) (n + 1))"
  by (subst generate_request_loop.simps) (simp add: request_tail_def)

text \<open>The handling loop, run on the bytes the generating loop emits.\<close>

lemma handle_generated_loop:
  assumes "n \<le> 255" "1 \<le> n" "unat (buffer_end arr - i) \<le> 32768"
    and "complete \<Longrightarrow> cur + length (generate_request_loop recv len cur i n) < len"
  shows "handles t r recv complete i arr (generate_request_loop recv len cur i n) n requested l"
  using assms
proof (induction recv len cur i n arbitrary: arr requested l rule: generate_request_loop.induct)
  case (1 recv len cur i n arr requested l)
  let ?gen = "generate_request_loop recv len cur i n" and ?tail = "request_tail recv len cur i"
  note gen = generate_request_loop_cases [of recv len cur i n]
  note n = 1(4,5) and fit = 1(6) and complete = 1(7)
  have tail: "handles t r recv complete (i + 1) arr1 ?tail 1 requested l"
    if "i \<noteq> buffer_end recv" "i \<noteq> buffer_end arr" "buffer recv (slot i) = None \<or> n = 255"
      "buffer_end arr1 = buffer_end arr" for arr1 requested l
  proof (cases "len \<le> cur + 1")
    case True
    then have "\<not> complete" using complete that by (auto simp: gen split: if_splits)
    with True show ?thesis by (auto simp: request_tail_def intro!: handles_Nil handled_from_refl)
  next
    case False
    have "complete \<Longrightarrow> cur + 1 + length ?tail < len"
      using complete that by (auto simp: gen split: if_splits)
    with False 1(1,2) that loop_decreases [OF that(2)] fit show ?thesis
      by (cases "buffer recv (slot i) = None") (auto simp: request_tail_def)
  qed
  consider (ended) "i = buffer_end recv \<or> i = buffer_end arr"
    | (missing) "i \<noteq> buffer_end recv" "i \<noteq> buffer_end arr" "buffer recv (slot i) = None"
    | (skip) "i \<noteq> buffer_end recv" "i \<noteq> buffer_end arr" "buffer recv (slot i) \<noteq> None" "n = 255"
    | (count) "i \<noteq> buffer_end recv" "i \<noteq> buffer_end arr" "buffer recv (slot i) \<noteq> None" "n \<noteq> 255"
    by blast
  then show ?case
  proof cases
    case ended
    then have "handled_from t r recv complete i arr arr"
      by (intro handled_from_refl) auto
    moreover have "?gen = [] \<or> i = buffer_end arr" using ended by (subst gen) auto
    moreover have "i = buffer_end arr \<Longrightarrow> handle_request_loop t r i arr ?gen n requested l = (Some (requested, l), arr)"
      by (subst handle_request_loop.simps) simp
    ultimately show ?thesis by (auto simp: handles_def)
  next
    case missing
    then show ?thesis using handles_missing [OF _ _ _ n(1) fit] tail by (simp add: gen)
  next
    case skip
    have g: "?gen = 0 # ?tail" using skip by (subst gen) simp
    show ?thesis
      unfolding g using skip tail by (intro handles_release [OF skip(1-3) _ fit]) simp_all
  next
    case count
    let ?data = "generate_request_loop recv len cur (i + 1) (n + 1)"
    have n1: "n + 1 \<le> 255" "1 \<le> n + 1" "\<not> n + 1 \<le> n"
      using n count(4) by (auto simp: word_le_nat_alt unat_word_ariths word_unat_eq_iff)
    have g: "?gen = ?data" using count by (subst gen) auto
    note IH = 1(3) [OF count(1,3,4) n1(1,2)]
    have fit1: "unat (buffer_end arr - (i + 1)) \<le> 32768"
      using loop_decreases [OF count(2)] fit by simp
    show ?thesis
    proof (cases ?data)
      case Nil
      then have "handled_from t r recv complete (i + 1) arr arr"
        using IH [of arr requested l] fit1 complete g by (simp add: handles_def)
      then have "handled_from t r recv complete i arr arr"
        using count by (intro handled_from_step [OF count(2,1) fit, where ?arr1.0 = arr]) (simp_all add: request_effect_def)
      then show ?thesis unfolding g Nil by (rule handles_Nil)
    next
      case (Cons b rest)
      have "b = 0 \<or> n + 1 \<le> ucast b"
        using generate_request_loop_hd [OF n1(1) Cons] .
      then have nb: "n \<noteq> ucast b"
        using n(2) n1(3) by auto
      have "handles t r recv complete (i + 1) (set_slot (slot i) None arr) (b # rest) (n + 1) requested
          (snd (release_acked (slot i) arr l))"
        using IH [of "set_slot (slot i) None arr"] fit1 complete g Cons by simp
      with count nb show ?thesis unfolding g Cons by (intro handles_release fit) simp_all
    qed
  qed
qed

text \<open>The number of requested packets is at most the number of packets passed.\<close>

lemma handle_request_loop_count:
  "handle_request_loop t r i arr data n requested l = (Some (req, l'), arr') \<Longrightarrow>
   unat requested + unat (buffer_end arr - i) < 2 ^ 32 \<Longrightarrow>
   unat req \<le> unat requested + unat (buffer_end arr - i)"
proof (induction t r i arr data n requested l rule: handle_request_loop.induct)
  case (1 t r i arr data n requested l)
  note loop = 1(4)[unfolded handle_request_loop.simps [of t r i arr]] and small = 1(5)
  show ?case
  proof (cases "i = buffer_end arr \<or> data = []")
    case True
    with loop show ?thesis by (auto split: if_splits)
  next
    case False
    then obtain b rest where data: "data = b # rest" and ne: "i \<noteq> buffer_end arr" by (cases data) auto
    have dec: "unat (buffer_end arr - (i + 1)) < unat (buffer_end arr - i)" by (rule loop_decreases [OF ne])
    then have "unat (requested + 1) = Suc (unat requested)"
      using small by (simp add: unat_word_ariths)
    with loop data ne dec small 1(1) [OF ne data] 1(2) [OF ne data _ refl] 1(3) [OF ne data _ refl]
    show ?thesis by (auto simp: Let_def split: if_splits)
  qed
qed

section \<open>The interface\<close>

text \<open>What the connection code relies on: a window of packets with a first number, filled in
  any order and read in order.\<close>

locale packet_window =
  fixes inv :: "'a \<Rightarrow> bool" and first :: "'a \<Rightarrow> u32" and contents :: "'a \<Rightarrow> u32 \<Rightarrow> 'p option"
    and put :: "'a \<Rightarrow> u32 \<Rightarrow> 'p \<Rightarrow> int \<times> 'a" and next_packet :: "'a \<Rightarrow> (int \<times> 'p option) \<times> 'a"
  assumes put_fresh: "inv a \<Longrightarrow> unat (number - first a) < 32768 \<Longrightarrow> contents a number = None \<Longrightarrow>
      \<exists>a'. put a number d = (0, a') \<and> inv a' \<and> first a' = first a \<and> contents a' = (contents a)(number \<mapsto> d)"
    and put_rejects: "inv a \<Longrightarrow> \<not> unat (number - first a) < 32768 \<or> contents a number \<noteq> None \<Longrightarrow>
      put a number d = (- 1, a)"
    and next_none: "inv a \<Longrightarrow> contents a (first a) = None \<Longrightarrow> next_packet a = ((- 1, None), a)"
    and next_some: "inv a \<Longrightarrow> contents a (first a) = Some d \<Longrightarrow>
      \<exists>a'. next_packet a = ((uint (first a), Some d), a') \<and> inv a' \<and> first a' = first a + 1 \<and>
        contents a' = (contents a)(first a := None)"
begin

text \<open>Two packets that arrive in the wrong order are read in the right one.\<close>

lemma reordered_delivery:
  assumes "inv a" "first a = n" "contents a n = None" "contents a (n + 1) = None"
  shows "\<exists>a1 a2 a3 a4. put a (n + 1) e = (0, a1) \<and> put a1 n d = (0, a2) \<and>
    next_packet a2 = ((uint n, Some d), a3) \<and> next_packet a3 = ((uint (n + 1), Some e), a4) \<and>
    inv a4 \<and> first a4 = n + 2 \<and> contents a4 = contents a"
proof -
  obtain a1 where a1: "put a (n + 1) e = (0, a1)" "inv a1" "first a1 = n" "contents a1 = (contents a)(n + 1 \<mapsto> e)"
    using put_fresh [of a "n + 1" e] assms by auto
  then obtain a2 where a2: "put a1 n d = (0, a2)" "inv a2" "first a2 = n"
    "contents a2 = (contents a)(n + 1 \<mapsto> e, n \<mapsto> d)"
    using put_fresh [of a1 n d] assms by auto
  then obtain a3 where a3: "next_packet a2 = ((uint n, Some d), a3)" "inv a3" "first a3 = n + 1"
    "contents a3 = (contents a)(n + 1 \<mapsto> e, n := None)"
    using next_some [of a2 d] by auto
  then obtain a4 where "next_packet a3 = ((uint (n + 1), Some e), a4)" "inv a4" "first a4 = n + 2"
    "contents a4 = (contents a)(n + 1 \<mapsto> e, n := None, n + 1 := None)"
    using next_some [of a3 e] by (auto simp: add.assoc)
  with a1 a2 a3 assms(3,4) show ?thesis by (auto simp: fun_upd_idem fun_upd_twist)
qed

end

interpretation pw: packet_window pa_inv buffer_start pa_map "add_data_to_buffer (with_memory P)" read_data_beg_buffer for P
proof unfold_locales
  fix a number d
  assume inv: "pa_inv a"
  obtain r a' where c: "add_data_to_buffer (with_memory P) a number d = (r, a')" by fastforce
  note add = add_data_to_buffer_map [OF inv c]
  obtain q e b where r: "read_data_beg_buffer a = ((q, e), b)" by (metis surj_pair)
  note read = read_data_beg_buffer_map [OF inv r]
  show "\<exists>a'. add_data_to_buffer (with_memory P) a number d = (0, a') \<and> pa_inv a' \<and>
      buffer_start a' = buffer_start a \<and> pa_map a' = (pa_map a)(number \<mapsto> d)"
    if "unat (number - buffer_start a) < 32768" "pa_map a number = None"
    using that add c by simp
  show "add_data_to_buffer (with_memory P) a number d = (- 1, a)"
    if "\<not> unat (number - buffer_start a) < 32768 \<or> pa_map a number \<noteq> None"
    using that add c by (auto split: if_splits)
  show "read_data_beg_buffer a = ((- 1, None), a)" if "pa_map a (buffer_start a) = None"
    using that read r by simp
  show "\<exists>a'. read_data_beg_buffer a = ((uint (buffer_start a), Some d), a') \<and> pa_inv a' \<and>
      buffer_start a' = buffer_start a + 1 \<and> pa_map a' = (pa_map a)(buffer_start a := None)"
    if "pa_map a (buffer_start a) = Some d"
    using that read r by auto
qed

lemma handled_from_map:
  assumes send: "pa_inv send" and start: "buffer_start send = buffer_start recv"
    and h: "handled_from t rtt recv complete (buffer_start send) send send'"
  shows "pa_inv send' \<and>
    (\<forall>y. pa_map recv y = None \<longrightarrow>
       pa_map send' y = pa_map send y \<or> pa_map send' y = map_option (sent_time_update (\<lambda>_. 0)) (pa_map send y)) \<and>
    (complete \<longrightarrow> (\<forall>y. in_window (buffer_start recv) (buffer_end recv) y \<longrightarrow> pa_map recv y = None \<longrightarrow>
       due_again t rtt (pa_map send y) (pa_map send' y)))"
proof -
  let ?s = "buffer_start send" and ?e = "buffer_end send"
  have st: "buffer_start send' = ?s" "buffer_end send' = ?e" using h by (simp_all add: handled_from_def)
  have recv: "received_from recv ?s y \<longleftrightarrow> pa_map recv y \<noteq> None" for y
    by (simp add: received_from_def pa_map_def start)
  have eff: "request_effect (pa_map recv y \<noteq> None) (buffer send (slot y)) (buffer send' (slot y))"
    and due: "complete \<Longrightarrow> in_window (buffer_start recv) (buffer_end recv) y \<Longrightarrow> pa_map recv y = None \<Longrightarrow>
      due_again t rtt (buffer send (slot y)) (buffer send' (slot y))"
    if "in_window ?s ?e y" for y
    using h that unfolding handled_from_def recv by (simp_all add: start)
  have "\<exists>y. in_window ?s ?e y \<and> slot y = s" if "buffer send' s \<noteq> None" for s
    using h send that unfolding handled_from_def pa_inv_def by metis
  then have "pa_inv send'" using send by (simp add: pa_inv_def st)
  moreover have "pa_map send' y = pa_map send y \<or> pa_map send' y = map_option (sent_time_update (\<lambda>_. 0)) (pa_map send y)"
    if "pa_map recv y = None" for y
    using eff [of y] that by (auto simp: pa_map_def st request_effect_def split: if_splits)
  moreover have "due_again t rtt (pa_map send y) (pa_map send' y)"
    if "complete" "in_window (buffer_start recv) (buffer_end recv) y" "pa_map recv y = None" for y
    using due [of y] that by (auto simp: pa_map_def st due_again_def)
  ultimately show ?thesis by blast
qed

section \<open>Properties\<close>

text \<open>C1: A sender whose window starts where its peer's does, and that handles a request
  packet its peer generated, accepts it, keeps its window well-formed, and keeps every
  packet the peer does not have, at most making it due for resending. If the request
  was not cut short by the packet size, every packet of the peer's window that the
  peer is missing and that was sent more than a round trip ago is made due.\<close>

theorem generated_request_keeps_missing:
  assumes send: "pa_inv send" and start: "buffer_start send = buffer_start recv"
    and gen: "generate_request_packet len recv = Some req"
  shows "\<exists>n latest' send'. handle_request_packet t send req latest rtt = (n, latest', send') \<and>
    0 \<le> n \<and> n \<le> 32768 \<and> pa_inv send' \<and>
    (\<forall>y. pa_map recv y = None \<longrightarrow>
       pa_map send' y = pa_map send y \<or> pa_map send' y = map_option (sent_time_update (\<lambda>_. 0)) (pa_map send y)) \<and>
    (length req < len \<longrightarrow> (\<forall>y. in_window (buffer_start recv) (buffer_end recv) y \<longrightarrow> pa_map recv y = None \<longrightarrow>
       due_again t rtt (pa_map send y) (pa_map send' y)))"
proof -
  let ?s = "buffer_start send" and ?e = "buffer_end send"
  have fit: "unat (?e - ?s) \<le> 32768" using send by (simp add: pa_inv_def)
  define body where "body = generate_request_loop recv len 1 ?s 1"
  show ?thesis
  proof (cases "buffer_start recv = buffer_end recv \<or> len \<le> 1")
    case True
    then have req: "req = [PACKET_ID_REQUEST]" "length req < len \<longrightarrow> buffer_start recv = buffer_end recv"
      using gen by (auto simp: generate_request_packet_def split: if_splits)
    with send show ?thesis by (simp add: handle_request_packet_def)
  next
    case False
    then have req: "req = PACKET_ID_REQUEST # body"
      using gen start by (auto simp: generate_request_packet_def body_def split: if_splits)
    have "handles t rtt recv (length req < len) ?s send body 1 0 0"
      unfolding body_def by (rule handle_generated_loop) (use fit req in \<open>simp_all add: body_def\<close>)
    then obtain k l' send' where run: "handle_request_loop t rtt ?s send body 1 0 0 = (Some (k, l'), send')"
      and h: "handled_from t rtt recv (length req < len) ?s send send'" by (auto simp: handles_def)
    have k: "unat k \<le> 32768"
      using handle_request_loop_count [OF run] fit by simp
    have "handle_request_packet t send req latest rtt = (sint k, max_u64 latest l', send')"
    proof (cases "body = []")
      case True
      with run show ?thesis by (auto simp: handle_request_packet_def req max_u64_max)
    qed (use run in \<open>simp add: handle_request_packet_def req\<close>)
    then show ?thesis
      using k sint_small [of k] handled_from_map [OF send start h] by (simp del: of_nat_unat)
  qed
qed

text \<open>A sender with packets 5, 6 and 7 and a receiver that has 6.\<close>

definition example_packet :: "byte \<Rightarrow> Packet_Data" where
  "example_packet b = \<lparr>sent_time = 10, pd_length = 1, pd_data = [b]\<rparr>"

definition example_send :: Packets_Array where
  "example_send = \<lparr>buffer = (\<lambda>_. None)(5 \<mapsto> example_packet 50, 6 \<mapsto> example_packet 60, 7 \<mapsto> example_packet 70),
     buffer_start = 5, buffer_end = 8\<rparr>"

definition example_recv :: Packets_Array where
  "example_recv = \<lparr>buffer = (\<lambda>_. None)(6 \<mapsto> example_packet 60), buffer_start = 5, buffer_end = 7\<rparr>"

lemma example_send_inv: "pa_inv example_send"
proof -
  have "\<exists>y. in_window 5 8 y \<and> slot y = s" if "s = 5 \<or> s = 6 \<or> s = 7" for s
    using that by (intro exI [of _ s]) (auto simp: in_window_def slot_def size_defs)
  then show ?thesis by (simp add: pa_inv_def example_send_def)
qed

theorem generated_request_keeps_missing_witness:
  "\<exists>n latest' send'. handle_request_packet 100 example_send [1, 1] 0 20 = (n, latest', send') \<and>
    0 \<le> n \<and> n \<le> 32768 \<and> pa_inv send' \<and> pa_map send' 5 = Some ((example_packet 50)\<lparr>sent_time := 0\<rparr>)"
proof -
  have gen: "generate_request_packet 9 example_recv = Some [1, 1]"
    by (simp add: generate_request_packet_def generate_request_loop.simps example_recv_def slot_def size_defs)
  have start: "buffer_start example_send = buffer_start example_recv"
    by (simp add: example_send_def example_recv_def)
  have five: "in_window (buffer_start example_recv) (buffer_end example_recv) 5" "pa_map example_recv 5 = None"
    "pa_map example_send 5 = Some (example_packet 50)"
    by (simp_all add: example_recv_def example_send_def pa_map_def slot_def size_defs)
  from generated_request_keeps_missing [OF example_send_inv start gen, of 100 0 20] obtain n l s'
    where "handle_request_packet 100 example_send [1, 1] 0 20 = (n, l, s')" "0 \<le> n" "n \<le> 32768" "pa_inv s'"
      "due_again 100 20 (pa_map example_send 5) (pa_map s' 5)"
    using five by fastforce
  with five(3) show ?thesis by (simp add: due_again_def example_packet_def)
qed

text \<open>C25: On a well-formed window, adding a packet under a number fails exactly if the number is
  \<open>CRYPTO_PACKET_BUFFER_SIZE\<close> or more after the start (modulo \<open>2 ^ 32\<close>), the number is
  taken or memory is exhausted, and then changes nothing; otherwise the window stays
  well-formed and gains exactly this packet, also across the wrap of the numbers.\<close>

theorem add_data_to_buffer_refines_map:
  assumes "pa_inv arr" and "add_data_to_buffer P arr number data = (r, arr')"
  shows "if unat (number - buffer_start arr) < unat CRYPTO_PACKET_BUFFER_SIZE \<and> pa_map arr number = None \<and>
      malloc_ok P sizeof_Packet_Data
     then r = 0 \<and> pa_inv arr' \<and> pa_map arr' = (pa_map arr)(number \<mapsto> data) \<and> buffer_start arr' = buffer_start arr
     else r = - 1 \<and> arr' = arr"
  using add_data_to_buffer_map [OF assms] by (simp add: CRYPTO_PACKET_BUFFER_SIZE_def)

definition empty_at :: "u32 \<Rightarrow> Packets_Array" where
  "empty_at n = \<lparr>buffer = \<lambda>_. None, buffer_start = n, buffer_end = n\<rparr>"

lemma empty_at_inv [simp]: "pa_inv (empty_at n)" "pa_map (empty_at n) y = None" "buffer_start (empty_at n) = n"
  by (simp_all add: pa_inv_def pa_map_def empty_at_def)

theorem add_data_to_buffer_refines_map_witness:
  "\<exists>r arr'. add_data_to_buffer fuzz_platform (empty_at 0xFFFFFFFF) 1 (example_packet 3) = (r, arr') \<and>
     r = 0 \<and> pa_inv arr' \<and> pa_map arr' = (pa_map (empty_at 0xFFFFFFFF))(1 \<mapsto> example_packet 3)"
proof -
  obtain r arr' where "add_data_to_buffer fuzz_platform (empty_at 0xFFFFFFFF) 1 (example_packet 3) = (r, arr')"
    by fastforce
  with add_data_to_buffer_refines_map [OF empty_at_inv(1) this] show ?thesis
    by (simp add: CRYPTO_PACKET_BUFFER_SIZE_def)
qed

text \<open>C26: Acknowledging all packets before \<open>number\<close> succeeds exactly if the number is past the
  start and not past the end of the window; then exactly the packets before it are
  gone, the window starts at it and stays well-formed, and otherwise nothing changes.\<close>

theorem clear_buffer_until_refines_map:
  assumes "pa_inv arr" and "clear_buffer_until arr number = (r, arr')"
  shows "if number \<noteq> buffer_start arr \<and> number - buffer_start arr \<le> num_packets_array arr
     then r = 0 \<and> pa_inv arr' \<and> buffer_start arr' = number \<and> buffer_end arr' = buffer_end arr \<and>
       pa_map arr' = (\<lambda>y. if in_window (buffer_start arr) number y then None else pa_map arr y)
     else r = - 1 \<and> arr' = arr"
  by (rule clear_buffer_until_map [OF assms])

theorem clear_buffer_until_refines_map_witness:
  "\<exists>r arr'. clear_buffer_until example_send 6 = (r, arr') \<and> r = 0 \<and> pa_inv arr' \<and>
     pa_map arr' 5 = None \<and> pa_map arr' 6 = Some (example_packet 60)"
proof -
  obtain r arr' where c: "clear_buffer_until example_send 6 = (r, arr')" by fastforce
  have "pa_map example_send 6 = Some (example_packet 60)"
    by (simp add: example_send_def pa_map_def in_window_def slot_def size_defs)
  with clear_buffer_until_refines_map [OF example_send_inv c] show ?thesis
    unfolding c by (simp add: example_send_def num_packets_array_def in_window_def)
qed

text \<open>Two packets that arrive in the wrong order are read in the right order, under their
  numbers, and the window is as before, advanced by two.\<close>

theorem reordered_packets_read_in_order:
  assumes "pa_inv arr" "buffer_start arr = n" "pa_map arr n = None" "pa_map arr (n + 1) = None"
  shows "\<exists>a1 a2 a3 a4. add_data_to_buffer (with_memory P) arr (n + 1) e = (0, a1) \<and>
    add_data_to_buffer (with_memory P) a1 n d = (0, a2) \<and>
    read_data_beg_buffer a2 = ((uint n, Some d), a3) \<and> read_data_beg_buffer a3 = ((uint (n + 1), Some e), a4) \<and>
    pa_inv a4 \<and> buffer_start a4 = n + 2 \<and> pa_map a4 = pa_map arr"
  by (rule pw.reordered_delivery [OF assms])

theorem reordered_packets_read_in_order_witness:
  "\<exists>a1 a2 a3 a4. add_data_to_buffer (with_memory fuzz_platform) (empty_at 0xFFFFFFFF) (0xFFFFFFFF + 1) (example_packet 2) = (0, a1) \<and>
    add_data_to_buffer (with_memory fuzz_platform) a1 0xFFFFFFFF (example_packet 1) = (0, a2) \<and>
    read_data_beg_buffer a2 = ((uint (0xFFFFFFFF :: u32), Some (example_packet 1)), a3) \<and>
    read_data_beg_buffer a3 = ((uint (0xFFFFFFFF + 1 :: u32), Some (example_packet 2)), a4) \<and>
    pa_inv a4 \<and> buffer_start a4 = 0xFFFFFFFF + 2 \<and> pa_map a4 = pa_map (empty_at 0xFFFFFFFF)"
  by (rule reordered_packets_read_in_order) simp_all

end
