(* ===== verification/Timed_Auth.thy ===== *)
theory Timed_Auth
  imports Crypto_Core Mono_Time
begin

text \<open>
  \<^verbatim>\<open>toxcore/timed_auth.c\<close>: authenticators bound to a period of the clock. The variable
  length array the source hashes is an argument (\<open>stack\<close>): where no data is given, its
  tail is hashed as it is.
\<close>

section \<open>Definitions\<close>

definition TIMED_AUTH_SIZE :: nat where [size_defs]: "TIMED_AUTH_SIZE = 32"

definition create_timed_auth_to_hash :: "Mono_Time \<Rightarrow> u16 \<Rightarrow> bool \<Rightarrow> bytes option \<Rightarrow> bytes \<Rightarrow> bytes" where
  "create_timed_auth_to_hash mt timeout previous data to_hash =
     (let t = (mono_time_get mt div ucast timeout) - (if previous then 1 else 0);
          to_hash = write_at 0 (host_bytes 8 t) to_hash
      in case data of None \<Rightarrow> to_hash | Some d \<Rightarrow> write_at 8 d to_hash)"

definition generate_timed_auth :: "platform \<Rightarrow> Mono_Time \<Rightarrow> u16 \<Rightarrow> bytes \<Rightarrow> bytes option \<Rightarrow> bytes \<Rightarrow> bytes" where
  "generate_timed_auth P mt timeout key data stack =
     crypto_hmac P key (create_timed_auth_to_hash mt timeout False data stack)"

definition check_timed_auth :: "platform \<Rightarrow> Mono_Time \<Rightarrow> u16 \<Rightarrow> bytes \<Rightarrow> bytes option \<Rightarrow> bytes \<Rightarrow> bytes \<Rightarrow> bool" where
  "check_timed_auth P mt timeout key data timed_auth stack \<longleftrightarrow>
     (let to_hash = create_timed_auth_to_hash mt timeout False data stack in
      if crypto_hmac_verify P timed_auth key to_hash then True
      else
        let to_hash = create_timed_auth_to_hash mt timeout True data to_hash in
        crypto_hmac_verify P timed_auth key to_hash)"

section \<open>Correctness\<close>

text \<open>With data that fills the array, the hashed bytes do not depend on what was in it.\<close>

lemma to_hash_eq:
  "length stack = 8 + length d \<Longrightarrow>
   create_timed_auth_to_hash mt timeout prev (Some d) stack =
     host_bytes 8 (mono_time_get mt div ucast timeout - (if prev then 1 else 0)) @ d"
  by (simp add: create_timed_auth_to_hash_def write_at_def Let_def)

text \<open>The documented contract of \<^verbatim>\<open>crypto_auth\<close>: verification accepts exactly the
  authenticator of the data under the key, and an authenticator has 32 bytes.\<close>

locale hmac_platform =
  fixes P :: platform
  assumes verify: "crypto_auth_verify P auth d key \<longleftrightarrow> auth = crypto_auth P d key"
    and auth_length: "length key = 32 \<Longrightarrow> length (crypto_auth P d key) = 32"
begin

lemma hmac_length: "length key = 32 \<Longrightarrow> length (crypto_hmac P key d) = 32"
  by (simp add: crypto_hmac_def auth_length)

lemma check_iff:
  assumes "length stack = 8 + length d"
  shows "check_timed_auth P mt timeout key (Some d) auth stack \<longleftrightarrow>
    (let t = mono_time_get mt div ucast timeout in
     auth = crypto_hmac P key (host_bytes 8 t @ d) \<or> auth = crypto_hmac P key (host_bytes 8 (t - 1) @ d))"
proof -
  have "length (host_bytes 8 (mono_time_get mt div ucast timeout - (if False then 1 else 0)) @ d) = 8 + length d"
    by simp
  then show ?thesis
    using assms
    by (simp add: check_timed_auth_def to_hash_eq crypto_hmac_verify_def crypto_hmac_def verify Let_def)
qed

end

interpretation hp: hmac_platform fuzz_platform
  by unfold_locales (simp_all add: fuzz_platform_def)

lemma div_window:
  fixes t1 t2 T :: nat
  assumes "t1 \<le> t2" "t2 \<le> t1 + T" "0 < T"
  shows "t2 div T = t1 div T \<or> t2 div T = Suc (t1 div T)"
proof -
  have "t1 div T \<le> t2 div T" using assms(1) by (rule div_le_mono)
  moreover have "t2 div T \<le> (t1 + T) div T" using assms(2) by (rule div_le_mono)
  moreover have "(t1 + T) div T = Suc (t1 div T)" using assms(3) by (simp add: div_add_self2)
  ultimately show ?thesis by linarith
qed

text \<open>An authenticator generated at one time is accepted, for the same key, data and
  timeout, at every time up to the timeout later.\<close>

lemma timed_auth_accepted:
  assumes "hmac_platform P" and "0 < timeout"
    and "mono_time_get mt1 \<le> mono_time_get mt2"
    and "unat (mono_time_get mt2) \<le> unat (mono_time_get mt1) + unat timeout"
    and "length stack1 = 8 + length d" "length stack2 = 8 + length d"
  shows "check_timed_auth P mt2 timeout key (Some d) (generate_timed_auth P mt1 timeout key (Some d) stack1) stack2"
proof -
  let ?T = "ucast timeout :: u64" and ?a = "mono_time_get mt1" and ?b = "mono_time_get mt2"
  have T: "unat ?T = unat timeout"
    using unsigned_less [of timeout, where 'a = nat]
    by (simp add: unsigned_ucast_eq take_bit_nat_eq_self_iff)
  have "0 < unat timeout" using assms(2) by (simp add: word_less_nat_alt)
  then have "unat ?b div unat ?T = unat ?a div unat ?T \<or> unat ?b div unat ?T = Suc (unat ?a div unat ?T)"
    using assms(3,4) by (intro div_window) (simp_all add: T word_le_nat_alt)
  then have "unat (?b div ?T) = unat (?a div ?T) \<or> unat (?b div ?T) = Suc (unat (?a div ?T))"
    by (simp only: unat_div)
  then have "?b div ?T = ?a div ?T \<or> ?b div ?T - 1 = ?a div ?T"
  proof
    assume "unat (?b div ?T) = Suc (unat (?a div ?T))"
    from arg_cong [OF this, where f = "word_of_nat :: nat \<Rightarrow> u64"]
    have "?b div ?T = ?a div ?T + 1" by (simp add: add.commute)
    then show ?thesis by simp
  qed (simp add: unsigned_word_eqI)
  then show ?thesis
    using hmac_platform.check_iff [OF assms(1,6)] to_hash_eq [OF assms(5)]
    by (auto simp: generate_timed_auth_def Let_def)
qed

end
