(* ===== verification/Ping_Array.thy ===== *)
theory Ping_Array
  imports Crypto_Core Mono_Time
begin

text \<open>
  \<^verbatim>\<open>toxcore/ping_array.c\<close>: a ring of outstanding requests, each with a random id whose
  value modulo the ring size is its index. The random number and the clock are
  arguments; the ring is a list of entries.

  Shown here: every operation keeps the ring well-formed; the id of an entry finds it
  again, exactly once, until it times out, and at most \<open>total_size - 1\<close> later
  additions do not disturb it.
\<close>

section \<open>Definitions\<close>

record Ping_Array_Entry =
  pe_data :: "bytes option"
  pe_length :: u32
  ping_time :: u64
  ping_id :: u64

record Ping_Array =
  entries :: "Ping_Array_Entry list"
  last_deleted :: u32
  last_added :: u32
  total_size :: u32
  pa_timeout :: u32

definition empty_entry :: Ping_Array_Entry where
  "empty_entry = \<lparr>pe_data = None, pe_length = 0, ping_time = 0, ping_id = 0\<rparr>"

definition ping_array_new :: "platform \<Rightarrow> u32 \<Rightarrow> u32 \<Rightarrow> Ping_Array option" where
  "ping_array_new P sz timeout =
     (if sz = 0 \<or> timeout = 0 then None
      else if sz AND (sz - 1) \<noteq> 0 then None
      else if \<not> malloc_ok P 24 then None
      else if \<not> malloc_ok P (unat sz * 32) then None
      else Some \<lparr>entries = replicate (unat sz) empty_entry, last_deleted = 0, last_added = 0,
                 total_size = sz, pa_timeout = timeout\<rparr>)"

definition clear_entry :: "Ping_Array \<Rightarrow> u32 \<Rightarrow> Ping_Array" where
  "clear_entry arr index = arr\<lparr>entries := (entries arr)[unat index := empty_entry]\<rparr>"

lemma clear_entry_simps [simp]:
  "last_deleted (clear_entry arr i) = last_deleted arr" "last_added (clear_entry arr i) = last_added arr"
  "total_size (clear_entry arr i) = total_size arr" "pa_timeout (clear_entry arr i) = pa_timeout arr"
  "entries (clear_entry arr i) = (entries arr)[unat i := empty_entry]"
  by (simp_all add: clear_entry_def)

lemma ring_decreases: "a \<noteq> d \<Longrightarrow> unat (a - (d + 1)) < unat (a - (d :: u32))"
  using measure_unat [of "a - d"] by (simp add: diff_diff_eq [symmetric])

text \<open>The loop of \<^verbatim>\<open>ping_array_kill\<close>; the array itself is freed afterwards.\<close>

function ping_array_kill_loop :: "Ping_Array \<Rightarrow> Ping_Array" where
  "ping_array_kill_loop arr =
     (if last_deleted arr \<noteq> last_added arr then
        let index = last_deleted arr mod total_size arr;
            arr = clear_entry arr index
        in ping_array_kill_loop (arr\<lparr>last_deleted := last_deleted arr + 1\<rparr>)
      else arr)"
  by pat_completeness auto
termination
  by (relation "measure (\<lambda>arr. unat (last_added arr - last_deleted arr))") (simp_all add: ring_decreases)

function ping_array_clear_timedout :: "Ping_Array \<Rightarrow> Mono_Time \<Rightarrow> Ping_Array" where
  "ping_array_clear_timedout arr mt =
     (if last_deleted arr \<noteq> last_added arr then
        let index = last_deleted arr mod total_size arr in
        if \<not> mono_time_is_timeout mt (ping_time (entries arr ! unat index)) (ucast (pa_timeout arr)) then arr
        else
          let arr = clear_entry arr index
          in ping_array_clear_timedout (arr\<lparr>last_deleted := last_deleted arr + 1\<rparr>) mt
      else arr)"
  by pat_completeness auto
termination
  by (relation "measure (\<lambda>(arr, mt). unat (last_added arr - last_deleted arr))") (simp_all add: ring_decreases)

declare ping_array_kill_loop.simps [simp del] ping_array_clear_timedout.simps [simp del]

definition ping_array_kill :: "Ping_Array option \<Rightarrow> Ping_Array option" where
  "ping_array_kill arr = map_option ping_array_kill_loop arr"

text \<open>The id of an entry: the random number with its low part replaced by the index, and
  never zero.\<close>

definition make_ping_id :: "u64 \<Rightarrow> u32 \<Rightarrow> u32 \<Rightarrow> u64" where
  "make_ping_id random sz index =
     (let pid = random div ucast sz;
          pid = pid * ucast sz;
          pid = pid + ucast index
      in if pid = 0 then pid + ucast sz else pid)"

text \<open>\<open>random\<close> is the result of \<^verbatim>\<open>random_u64\<close>; the result is the id, 0 on failure.\<close>

definition ping_array_add :: "platform \<Rightarrow> Ping_Array \<Rightarrow> Mono_Time \<Rightarrow> u64 \<Rightarrow> bytes \<Rightarrow> u64 \<times> Ping_Array" where
  "ping_array_add P arr mt random data =
     (let arr = ping_array_clear_timedout arr mt;
          index = last_added arr mod total_size arr;
          arr = (if pe_data (entries arr ! unat index) \<noteq> None
                 then clear_entry (arr\<lparr>last_deleted := last_added arr - total_size arr\<rparr>) index else arr)
      in if \<not> malloc_ok P (length data) then (0, arr)
         else
           let pid = make_ping_id random (total_size arr) index
           in (pid, arr\<lparr>entries := (entries arr)[unat index :=
                  \<lparr>pe_data = Some data, pe_length = of_nat (length data),
                   ping_time = mono_time_get mt, ping_id = pid\<rparr>],
                last_added := last_added arr + 1\<rparr>))"

text \<open>\<open>len\<close> is the room in the caller's buffer; the result is the data, or \<open>None\<close> for \<open>-1\<close>.\<close>

definition ping_array_check :: "Ping_Array \<Rightarrow> Mono_Time \<Rightarrow> nat \<Rightarrow> u64 \<Rightarrow> bytes option \<times> Ping_Array" where
  "ping_array_check arr mt len pid =
     (if pid = 0 then (None, arr)
      else
        let index = ucast (pid mod ucast (total_size arr));
            e = entries arr ! unat index
        in if ping_id e \<noteq> pid then (None, arr)
           else if mono_time_is_timeout mt (ping_time e) (ucast (pa_timeout arr)) then (None, arr)
           else if unat (pe_length e) > len then (None, arr)
           else case pe_data e of
               None \<Rightarrow> (None, arr)
             | Some d \<Rightarrow> (Some (take (unat (pe_length e)) d), clear_entry arr index))"

section \<open>Invariant\<close>

definition ping_inv :: "Ping_Array \<Rightarrow> bool" where
  "ping_inv arr \<longleftrightarrow> length (entries arr) = unat (total_size arr) \<and>
     (\<exists>k < 32. total_size arr = 2 ^ k) \<and> pa_timeout arr \<noteq> 0"

lemma ping_inv_size: "ping_inv arr \<Longrightarrow> 0 < unat (total_size arr) \<and> total_size arr \<noteq> 0"
  by (auto simp: ping_inv_def unat_gt_0)

lemma ring_index: "ping_inv arr \<Longrightarrow> unat (n mod total_size arr) < length (entries arr)"
  using ping_inv_size [of arr] by (simp add: ping_inv_def unat_mod)

lemma ping_array_new_inv [keep_inv]: "ping_array_new P sz timeout = Some arr \<Longrightarrow> ping_inv arr"
  using word_and_pred_eq_0 [of sz] by (auto simp: ping_array_new_def ping_inv_def split: if_splits)

lemma clear_entry_inv [keep_inv]: "ping_inv arr \<Longrightarrow> ping_inv (clear_entry arr i)"
  by (simp add: ping_inv_def)

lemma ping_inv_counters [simp]:
  "ping_inv (arr\<lparr>last_deleted := d\<rparr>) = ping_inv arr" "ping_inv (arr\<lparr>last_added := a\<rparr>) = ping_inv arr"
  by (simp_all add: ping_inv_def)

text \<open>Housekeeping clears only entries that have timed out.\<close>

lemma clear_timedout_keeps:
  "ping_inv arr \<Longrightarrow> let arr' = ping_array_clear_timedout arr mt in
     ping_inv arr' \<and> last_added arr' = last_added arr \<and> total_size arr' = total_size arr \<and>
     pa_timeout arr' = pa_timeout arr \<and>
     (\<forall>i < length (entries arr). entries arr' ! i = entries arr ! i \<or>
        (entries arr' ! i = empty_entry \<and>
         (mono_time_is_timeout mt (ping_time (entries arr ! i)) (ucast (pa_timeout arr)))))"
proof (induction arr mt rule: ping_array_clear_timedout.induct)
  case (1 arr mt)
  let ?i = "last_deleted arr mod total_size arr"
  show ?case
  proof (cases "last_deleted arr \<noteq> last_added arr \<and>
      mono_time_is_timeout mt (ping_time (entries arr ! unat ?i)) (ucast (pa_timeout arr))")
    case False
    with 1(2) show ?thesis by (auto simp: ping_array_clear_timedout.simps [of arr] Let_def)
  next
    case True
    let ?arr = "(clear_entry arr ?i)\<lparr>last_deleted := last_deleted arr + 1\<rparr>"
    have eq: "ping_array_clear_timedout arr mt = ping_array_clear_timedout ?arr mt"
      using True by (subst ping_array_clear_timedout.simps) (simp add: Let_def)
    have inv: "ping_inv ?arr" using 1(2) by (simp add: keep_inv)
    have IH: "ping_inv arr' \<and> last_added arr' = last_added arr \<and> total_size arr' = total_size arr \<and>
        pa_timeout arr' = pa_timeout arr"
      and each: "\<And>i. i < length (entries arr) \<Longrightarrow> entries arr' ! i = entries ?arr ! i \<or> (entries arr' ! i = empty_entry \<and>
         (mono_time_is_timeout mt (ping_time (entries ?arr ! i)) (ucast (pa_timeout arr))))"
      if "arr' = ping_array_clear_timedout ?arr mt" for arr'
      using 1(1) [OF _ refl _ refl] True inv that by (auto simp: Let_def)
    have "entries (ping_array_clear_timedout ?arr mt) ! i = entries arr ! i \<or>
        (entries (ping_array_clear_timedout ?arr mt) ! i = empty_entry \<and>
         (mono_time_is_timeout mt (ping_time (entries arr ! i)) (ucast (pa_timeout arr))))"
      if "i < length (entries arr)" for i
      using each [OF refl that] True that by (cases "i = unat ?i") auto
    then show ?thesis unfolding eq Let_def using IH [OF refl] by blast
  qed
qed

section \<open>Ids\<close>

text \<open>The id is never zero and its value modulo the ring size is the index.\<close>

lemma make_ping_id_index:
  assumes "k < 32" "sz = (2 :: u32) ^ k" "index < sz"
  shows "make_ping_id random sz index \<noteq> 0" "ucast (make_ping_id random sz index mod ucast sz) = index"
proof -
  let ?s = "2 ^ k :: nat" and ?q = "unat random div 2 ^ k"
  have "?s < 2 ^ 32" using assms(1) by (intro power_strict_increasing) simp_all
  then have s: "unat sz = ?s" and us: "unat (ucast sz :: u64) = ?s"
  proof -
    have "sz = word_of_nat ?s" using assms(2) by simp
    then show "unat sz = ?s" using \<open>?s < 2 ^ 32\<close>
      by (simp only: unat_of_nat) simp
    with \<open>?s < 2 ^ 32\<close> assms(1) show "unat (ucast sz :: u64) = ?s"
      by (simp add: unsigned_ucast_eq take_bit_nat_eq_self_iff)
  qed
  have i: "unat index < ?s" and ui: "unat (ucast index :: u64) = unat index"
    using assms(3) s unsigned_less [of index, where 'a = nat]
    by (simp_all add: word_less_nat_alt unsigned_ucast_eq take_bit_nat_eq_self_iff)
  have split: "2 ^ 64 = ?s * 2 ^ (64 - k)" using assms(1) by (simp flip: power_add)
  have "?q < 2 ^ (64 - k)"
    using unsigned_less [of random, where 'a = nat] split
    by (simp add: less_mult_imp_div_less mult.commute)
  then have "?s * Suc ?q \<le> 2 ^ 64" unfolding split by (intro mult_le_mono2) simp
  then have bound: "?q * ?s + unat index < 2 ^ 64" "?q * ?s < 2 ^ 64"
    using i by (simp_all add: algebra_simps)
  have q: "?q < 2 ^ 64"
    by (rule order_le_less_trans [OF div_le_dividend]) (rule order_less_le_trans [OF unsigned_less], simp)
  define pid where "pid = random div ucast sz * ucast sz + ucast index"
  have pid: "unat pid = ?q * ?s + unat index"
    using bound q by (simp add: pid_def unat_word_ariths unat_div us ui)
  have eq: "make_ping_id random sz index = (if pid = 0 then pid + ucast sz else pid)"
    by (simp add: make_ping_id_def pid_def Let_def)
  have big: "?s < 2 ^ 64" using \<open>?s < 2 ^ 32\<close> by simp
  have u: "unat (make_ping_id random sz index) = (if pid = 0 then ?s else ?q * ?s + unat index)"
    using pid us big by (simp add: eq)
  show "make_ping_id random sz index \<noteq> 0" using u pid by (auto simp: unat_eq_0 [symmetric] split: if_splits)
  have "unat (make_ping_id random sz index mod ucast sz) = unat index"
    using u pid i us by (auto simp: unat_mod split: if_splits)
  then have "unat (ucast (make_ping_id random sz index mod ucast sz) :: u32) = unat index"
    using unsigned_less [of index, where 'a = nat] by (simp add: unsigned_ucast_eq take_bit_nat_eq_self_iff)
  then show "ucast (make_ping_id random sz index mod ucast sz) = index" by (simp add: unsigned_word_eqI)
qed

section \<open>The operations\<close>

lemma unat_mod_less: "ping_inv arr \<Longrightarrow> n mod total_size arr < total_size arr"
  using ping_inv_size [of arr] by (simp add: word_less_nat_alt unat_mod)

text \<open>A successful addition stores the data under its id at the next index and keeps every
  other entry that has not timed out.\<close>

lemma ping_array_add_effect:
  assumes "ping_inv arr" and "malloc_ok P (length data)" and "length data < 2 ^ 32"
    and "ping_array_add P arr mt random data = (pid, arr')"
  defines "index \<equiv> last_added arr mod total_size arr"
  shows "ping_inv arr'" "total_size arr' = total_size arr" "pa_timeout arr' = pa_timeout arr"
    "last_added arr' = last_added arr + 1" "pid \<noteq> 0" "ucast (pid mod ucast (total_size arr)) = index"
    "entries arr' ! unat index = \<lparr>pe_data = Some data, pe_length = of_nat (length data),
       ping_time = mono_time_get mt, ping_id = pid\<rparr>"
    "\<And>i. i < length (entries arr) \<Longrightarrow> i \<noteq> unat index \<Longrightarrow>
       \<not> mono_time_is_timeout mt (ping_time (entries arr ! i)) (ucast (pa_timeout arr)) \<Longrightarrow>
       entries arr' ! i = entries arr ! i"
proof -
  define arr1 where "arr1 = ping_array_clear_timedout arr mt"
  note keep = clear_timedout_keeps [OF assms(1), of mt, unfolded Let_def, folded arr1_def]
  have len: "length (entries arr1) = length (entries arr)"
    using keep assms(1) by (auto simp: ping_inv_def)
  define arr2 where "arr2 = (if pe_data (entries arr1 ! unat index) \<noteq> None
    then clear_entry (arr1\<lparr>last_deleted := last_added arr1 - total_size arr1\<rparr>) index else arr1)"
  have arr2: "ping_inv arr2" "total_size arr2 = total_size arr" "pa_timeout arr2 = pa_timeout arr"
    "last_added arr2 = last_added arr" "length (entries arr2) = length (entries arr)"
    "\<And>i. i \<noteq> unat index \<Longrightarrow> entries arr2 ! i = entries arr1 ! i"
    using keep len by (auto simp: arr2_def keep_inv)
  have ix: "last_added arr1 mod total_size arr1 = index" using keep by (simp add: index_def)
  have res: "pid = make_ping_id random (total_size arr) index"
    "arr' = arr2\<lparr>entries := (entries arr2)[unat index := \<lparr>pe_data = Some data, pe_length = of_nat (length data),
       ping_time = mono_time_get mt, ping_id = pid\<rparr>], last_added := last_added arr + 1\<rparr>"
    using assms(2,4) arr2(2,4)
    unfolding ping_array_add_def Let_def arr1_def [symmetric] ix arr2_def [symmetric] by auto
  have i: "unat index < length (entries arr)" unfolding index_def by (rule ring_index [OF assms(1)])
  obtain k where k: "k < 32" "total_size arr = 2 ^ k" using assms(1) by (auto simp: ping_inv_def)
  note pid = make_ping_id_index [OF k unat_mod_less [OF assms(1), of "last_added arr"], folded index_def]
  show "ping_inv arr'" using arr2(1) by (simp add: res(2) ping_inv_def)
  show "total_size arr' = total_size arr" "pa_timeout arr' = pa_timeout arr" "last_added arr' = last_added arr + 1"
    using arr2 by (simp_all add: res(2))
  show "pid \<noteq> 0" "ucast (pid mod ucast (total_size arr)) = index"
    using pid by (simp_all add: res(1))
  show "entries arr' ! unat index = \<lparr>pe_data = Some data, pe_length = of_nat (length data),
       ping_time = mono_time_get mt, ping_id = pid\<rparr>"
    using i arr2(5) by (simp add: res(2))
  show "entries arr' ! i = entries arr ! i" if "i < length (entries arr)" "i \<noteq> unat index"
    "\<not> mono_time_is_timeout mt (ping_time (entries arr ! i)) (ucast (pa_timeout arr))" for i
    using keep that arr2(6) by (auto simp: res(2))
qed

text \<open>The data stored under an id.\<close>

definition stored :: "Ping_Array \<Rightarrow> u64 \<Rightarrow> bytes \<Rightarrow> u64 \<Rightarrow> bool" where
  "stored arr pid data time \<longleftrightarrow> pid \<noteq> 0 \<and> length data < 2 ^ 32 \<and>
     entries arr ! unat (ucast (pid mod ucast (total_size arr)) :: u32) =
       \<lparr>pe_data = Some data, pe_length = of_nat (length data), ping_time = time, ping_id = pid\<rparr>"

lemma ping_array_add_stored:
  assumes "ping_inv arr" and "malloc_ok P (length data)" and "length data < 2 ^ 32"
    and "ping_array_add P arr mt random data = (pid, arr')"
  shows "stored arr' pid data (mono_time_get mt)"
  using ping_array_add_effect [OF assms] assms(3) by (simp add: stored_def)

lemma id_index_less:
  fixes pid :: u64
  assumes "ping_inv arr"
  shows "unat (ucast (pid mod ucast (total_size arr)) :: u32) < length (entries arr)"
proof -
  have t: "unat (total_size arr) < 2 ^ 32" by (rule order_less_le_trans [OF unsigned_less]) simp
  then have "unat (ucast (total_size arr) :: u64) = unat (total_size arr)"
    by (simp add: unsigned_ucast_eq take_bit_nat_eq_self_iff)
  then have "unat (pid mod ucast (total_size arr)) < unat (total_size arr)"
    using ping_inv_size [OF assms] by (simp add: unat_mod)
  then have "take_bit 32 (unat (pid mod ucast (total_size arr))) < unat (total_size arr)"
    by (rule order_le_less_trans [OF take_bit_nat_less_eq_self])
  then show ?thesis using assms by (simp add: unsigned_ucast_eq ping_inv_def)
qed

text \<open>A stored entry is returned once.\<close>

lemma ping_array_check_stored:
  assumes "ping_inv arr" "stored arr pid data time" "length data \<le> len"
    and "\<not> mono_time_is_timeout mt time (ucast (pa_timeout arr))"
  shows "\<exists>arr'. ping_array_check arr mt len pid = (Some data, arr') \<and> ping_inv arr' \<and>
    (\<forall>mt' len'. ping_array_check arr' mt' len' pid = (None, arr'))"
proof -
  let ?i = "ucast (pid mod ucast (total_size arr)) :: u32"
  have i: "unat ?i < length (entries arr)" by (rule id_index_less [OF assms(1)])
  have pid: "pid \<noteq> 0" using assms(2) by (simp add: stored_def)
  have "ping_array_check arr mt len pid = (Some data, clear_entry arr ?i)"
    using assms by (simp add: ping_array_check_def stored_def Let_def unat_of_nat)
  moreover have "ping_array_check (clear_entry arr ?i) mt' len' pid = (None, clear_entry arr ?i)" for mt' len'
    using pid i by (simp add: ping_array_check_def Let_def empty_entry_def)
  ultimately show ?thesis using clear_entry_inv [OF assms(1)] by blast
qed

text \<open>Whatever the allocator does, both operations keep the ring well-formed and add nothing but
  the given data.\<close>

lemma ping_array_add_inv [keep_inv]:
  assumes "ping_inv arr" "ping_array_add P arr mt random data = (pid, arr')"
  shows "ping_inv arr'"
proof -
  define arr1 where "arr1 = ping_array_clear_timedout arr mt"
  have "ping_inv arr1" using clear_timedout_keeps [OF assms(1), of mt] by (simp add: arr1_def Let_def)
  with assms(2) show ?thesis
    unfolding ping_array_add_def Let_def arr1_def [symmetric]
    by (auto simp: ping_inv_def split: if_splits)
qed

lemma ping_array_check_inv [keep_inv]:
  "ping_inv arr \<Longrightarrow> ping_array_check arr mt len pid = (d, arr') \<Longrightarrow> ping_inv arr'"
  by (auto simp: ping_array_check_def Let_def keep_inv split: if_splits option.splits)

definition held_data :: "Ping_Array \<Rightarrow> bytes set" where
  "held_data arr = {d. \<exists>e \<in> set (entries arr). pe_data e = Some d}"

lemma held_data_last_deleted [simp]: "held_data (arr\<lparr>last_deleted := d\<rparr>) = held_data arr"
  by (simp add: held_data_def)

lemma held_data_clear: "held_data (clear_entry arr i) \<subseteq> held_data arr"
  using set_update_subset_insert [of "entries arr" "unat i" empty_entry]
  by (auto simp: held_data_def clear_entry_def empty_entry_def)

lemma held_data_timedout: "held_data (ping_array_clear_timedout arr mt) \<subseteq> held_data arr"
proof (induction arr mt rule: ping_array_clear_timedout.induct)
  case (1 arr mt)
  show ?case
    using 1 held_data_clear [of arr "last_deleted arr mod total_size arr"]
    by (subst ping_array_clear_timedout.simps) (auto simp: Let_def)
qed

lemma held_data_add:
  assumes "ping_array_add P arr mt random data = (pid, arr')"
  shows "held_data arr' \<subseteq> insert data (held_data arr)"
proof -
  define arr1 where "arr1 = ping_array_clear_timedout arr mt"
  define arr2 where "arr2 = (if pe_data (entries arr1 ! unat (last_added arr1 mod total_size arr1)) \<noteq> None
    then clear_entry (arr1\<lparr>last_deleted := last_added arr1 - total_size arr1\<rparr>) (last_added arr1 mod total_size arr1) else arr1)"
  have sub: "held_data arr2 \<subseteq> held_data arr"
    unfolding arr2_def
    using subset_trans [OF held_data_clear, of "arr1\<lparr>last_deleted := last_added arr1 - total_size arr1\<rparr>" "held_data arr"]
      held_data_timedout [of arr mt, folded arr1_def] by simp
  have "held_data arr' \<subseteq> insert data (held_data arr2)"
    using assms set_update_subset_insert [of "entries arr2"]
    unfolding ping_array_add_def Let_def arr1_def [symmetric] arr2_def [symmetric]
    by (fastforce simp: held_data_def split: if_splits)
  with sub show ?thesis by blast
qed

lemma ping_array_check_held:
  assumes "ping_inv arr" "ping_array_check arr mt len pid = (res, arr')"
  shows "held_data arr' \<subseteq> held_data arr"
    and "res = Some d \<Longrightarrow> \<exists>d' n. d' \<in> held_data arr \<and> d = take n d' \<and> length d \<le> len"
proof -
  let ?i = "ucast (pid mod ucast (total_size arr)) :: u32"
  have i: "entries arr ! unat ?i \<in> set (entries arr)" using id_index_less [OF assms(1)] by (rule nth_mem)
  show "held_data arr' \<subseteq> held_data arr"
    using assms(2) held_data_clear [of arr ?i]
    by (auto simp: ping_array_check_def Let_def split: if_splits option.splits)
  show "\<exists>d' n. d' \<in> held_data arr \<and> d = take n d' \<and> length d \<le> len" if "res = Some d"
    using assms(2) that i
    by (fastforce simp: ping_array_check_def Let_def held_data_def split: if_splits option.splits)
qed

lemma ping_array_check_once:
  assumes "ping_inv arr" "ping_array_check arr mt len pid = (Some d, arr')"
  shows "ping_array_check arr' mt' len' pid = (None, arr')"
proof -
  let ?i = "ucast (pid mod ucast (total_size arr)) :: u32"
  have "unat ?i < length (entries arr)" by (rule id_index_less [OF assms(1)])
  moreover have "pid \<noteq> 0" "arr' = clear_entry arr ?i"
    using assms(2) by (auto simp: ping_array_check_def Let_def split: if_splits option.splits)
  ultimately show ?thesis by (simp add: ping_array_check_def Let_def empty_entry_def)
qed

section \<open>The interface\<close>

text \<open>What the protocols rely on: an id handed out for data gives the data back, once.\<close>

locale one_shot_store =
  fixes inv :: "'a \<Rightarrow> bool" and add :: "'a \<Rightarrow> Mono_Time \<Rightarrow> u64 \<Rightarrow> bytes \<Rightarrow> u64 \<times> 'a"
    and check :: "'a \<Rightarrow> Mono_Time \<Rightarrow> nat \<Rightarrow> u64 \<Rightarrow> bytes option \<times> 'a"
    and held :: "'a \<Rightarrow> u64 \<Rightarrow> bytes \<Rightarrow> u64 \<Rightarrow> bool" and lifetime :: "'a \<Rightarrow> u64"
  assumes add_holds: "inv a \<Longrightarrow> length d < 2 ^ 32 \<Longrightarrow> add a mt rnd d = (i, a') \<Longrightarrow>
      inv a' \<and> i \<noteq> 0 \<and> held a' i d (mono_time_get mt) \<and> lifetime a' = lifetime a"
    and check_held: "inv a \<Longrightarrow> held a i d time \<Longrightarrow> length d \<le> len \<Longrightarrow>
      \<not> mono_time_is_timeout mt time (lifetime a) \<Longrightarrow>
      \<exists>a'. check a mt len i = (Some d, a') \<and> inv a' \<and> (\<forall>mt' len'. check a' mt' len' i = (None, a'))"
begin

lemma add_then_check:
  assumes "inv a" "length d < 2 ^ 32" "length d \<le> len" "add a mt rnd d = (i, a')"
    and "\<not> mono_time_is_timeout mt' (mono_time_get mt) (lifetime a)"
  shows "i \<noteq> 0 \<and> (\<exists>a''. check a' mt' len i = (Some d, a'') \<and> inv a'' \<and>
    (\<forall>mt' len'. check a'' mt' len' i = (None, a'')))"
  using add_holds [OF assms(1,2,4)] check_held assms(3,5) by metis

end

interpretation pas: one_shot_store ping_inv "ping_array_add (with_memory P)" ping_array_check stored
  "\<lambda>arr. ucast (pa_timeout arr)" for P
proof unfold_locales
  fix a d mt rnd i a'
  assume a: "ping_inv a" "length d < 2 ^ 32" "ping_array_add (with_memory P) a mt rnd d = (i, a')"
  have m: "malloc_ok (with_memory P) (length d)" by simp
  show "ping_inv a' \<and> i \<noteq> 0 \<and> stored a' i d (mono_time_get mt) \<and> ucast (pa_timeout a') = ucast (pa_timeout a)"
    using ping_array_add_effect [OF a(1) m a(2,3)] ping_array_add_stored [OF a(1) m a(2,3)] by simp
qed (rule ping_array_check_stored)

section \<open>Sequences of additions\<close>

fun ping_array_adds :: "platform \<Rightarrow> Ping_Array \<Rightarrow> (Mono_Time \<times> u64 \<times> bytes) list \<Rightarrow> Ping_Array" where
  "ping_array_adds P arr [] = arr"
| "ping_array_adds P arr ((mt, random, data) # ops) =
     ping_array_adds P (snd (ping_array_add P arr mt random data)) ops"

lemma ring_offset:
  assumes "k < 32" "c < 2 ^ 32"
  shows "unat ((a + word_of_nat c) mod (2 :: u32) ^ k) = (unat a + c) mod 2 ^ k"
proof -
  have small: "(2 :: nat) ^ k < 2 ^ 32" using assms(1) by (intro power_strict_increasing) simp_all
  have "(2 :: u32) ^ k = word_of_nat (2 ^ k)" by simp
  then have u: "unat ((2 :: u32) ^ k) = 2 ^ k" using small by (simp only: unat_of_nat) simp
  have "(2 :: nat) ^ 32 = 2 ^ k * 2 ^ (32 - k)" using assms(1) by (simp flip: power_add)
  then have "(2 :: nat) ^ k dvd 2 ^ 32" by (metis dvd_triv_left)
  moreover have "unat (a + word_of_nat c) = (unat a + c) mod 2 ^ 32"
    using assms(2) by (simp add: unat_word_ariths unat_of_nat)
  ultimately show ?thesis by (simp only: unat_mod u mod_mod_cancel)
qed

text \<open>The next \<open>total_size - 1\<close> additions go to other indices.\<close>

lemma ring_distinct:
  assumes "k < 32" "0 < c" "c < 2 ^ k"
  shows "(a + word_of_nat c) mod (2 :: u32) ^ k \<noteq> a mod 2 ^ k"
proof
  assume eq: "(a + word_of_nat c) mod (2 :: u32) ^ k = a mod 2 ^ k"
  have "(2 :: nat) ^ k < 2 ^ 32" using assms(1) by (intro power_strict_increasing) simp_all
  then have "c < 2 ^ 32" using assms(3) by simp
  then have "(unat a + c) mod 2 ^ k = (unat a + 0) mod 2 ^ k"
    using eq ring_offset [OF assms(1), of c a] ring_offset [OF assms(1), of 0 a] by simp
  then have "c mod 2 ^ k = 0 mod 2 ^ k" by (rule add_left_cancel_mod_nat)
  with assms(2,3) show False by simp
qed

lemma ping_array_adds_keep:
  assumes "ping_inv arr" "stored arr pid data time" "\<And>s. malloc_ok P s"
    and "\<forall>(mt, random, d) \<in> set ops. length d < 2 ^ 32 \<and> \<not> mono_time_is_timeout mt time (ucast (pa_timeout arr))"
    and "\<forall>m < length ops. (last_added arr + word_of_nat m) mod total_size arr \<noteq> ucast (pid mod ucast (total_size arr))"
  shows "ping_inv (ping_array_adds P arr ops) \<and> stored (ping_array_adds P arr ops) pid data time \<and>
    pa_timeout (ping_array_adds P arr ops) = pa_timeout arr"
  using assms
proof (induction ops arbitrary: arr)
  case (Cons op ops)
  obtain mt random d where op: "op = (mt, random, d)" by (metis prod_cases3)
  obtain i arr1 where call: "ping_array_add P arr mt random d = (i, arr1)" by fastforce
  have d: "length d < 2 ^ 32" "\<not> mono_time_is_timeout mt time (ucast (pa_timeout arr))"
    using Cons.prems(4) by (auto simp: op)
  note eff = ping_array_add_effect [OF Cons.prems(1,3) d(1) call]
  let ?j = "ucast (pid mod ucast (total_size arr)) :: u32"
  have "last_added arr mod total_size arr \<noteq> ?j" using Cons.prems(5) by force
  then have "unat ?j \<noteq> unat (last_added arr mod total_size arr)"
    by (metis unsigned_word_eqI)
  then have "stored arr1 pid data time"
    using eff(2) eff(8) [OF id_index_less [OF Cons.prems(1), of pid]] Cons.prems(2) d(2)
    by (simp add: stored_def)
  moreover have "\<forall>m < length ops. (last_added arr1 + word_of_nat m) mod total_size arr1 \<noteq> ucast (pid mod ucast (total_size arr1))"
    using Cons.prems(5) eff(2,4) by (force simp: add.assoc)
  ultimately have "ping_inv (ping_array_adds P arr1 ops) \<and> stored (ping_array_adds P arr1 ops) pid data time \<and>
    pa_timeout (ping_array_adds P arr1 ops) = pa_timeout arr1"
    using Cons.prems(3,4) eff(1,3) by (intro Cons.IH) auto
  then show ?case using eff(3) by (simp add: op call)
qed simp

section \<open>Properties\<close>

text \<open>C31: The data of a ping is given back for its id, exactly once, after fewer than
  \<open>total_size\<close> further pings, as long as the ping has not timed out.\<close>

theorem ping_survives_later_pings:
  assumes "ping_inv arr" "\<And>s. malloc_ok P s" "length data < 2 ^ 32" "length data \<le> len"
    and "ping_array_add P arr mt random data = (pid, arr1)"
    and "length ops < unat (total_size arr)"
    and "\<forall>(mt', random', d) \<in> set ops. length d < 2 ^ 32 \<and>
      \<not> mono_time_is_timeout mt' (mono_time_get mt) (ucast (pa_timeout arr))"
    and "\<not> mono_time_is_timeout mt2 (mono_time_get mt) (ucast (pa_timeout arr))"
  shows "\<exists>arr2. ping_array_check (ping_array_adds P arr1 ops) mt2 len pid = (Some data, arr2) \<and>
    (\<forall>mt' len'. ping_array_check arr2 mt' len' pid = (None, arr2))"
proof -
  note eff = ping_array_add_effect [OF assms(1,2,3,5)]
  note st = ping_array_add_stored [OF assms(1,2,3,5)]
  obtain k where k: "k < 32" "total_size arr = 2 ^ k" using assms(1) by (auto simp: ping_inv_def)
  have "(2 :: u32) ^ k = word_of_nat (2 ^ k)" by simp
  moreover have "(2 :: nat) ^ k < 2 ^ 32" using k(1) by (intro power_strict_increasing) simp_all
  ultimately have u: "unat (total_size arr) = 2 ^ k" unfolding k(2) by (simp only: unat_of_nat) simp
  have "(last_added arr1 + word_of_nat m) mod total_size arr1 \<noteq> ucast (pid mod ucast (total_size arr1))"
    if "m < length ops" for m
    using ring_distinct [OF k(1), of "Suc m" "last_added arr"] that assms(6) u eff(2,4,6)
    by (simp add: k(2) ac_simps)
  then have "ping_inv (ping_array_adds P arr1 ops) \<and> stored (ping_array_adds P arr1 ops) pid data (mono_time_get mt) \<and>
    pa_timeout (ping_array_adds P arr1 ops) = pa_timeout arr1"
    using assms(2,7) eff(1,3) st by (intro ping_array_adds_keep) auto
  with ping_array_check_stored [OF _ _ assms(4)] assms(8) eff(3) show ?thesis by metis
qed

definition example_ring :: Ping_Array where
  "example_ring = \<lparr>entries = replicate 4 empty_entry, last_deleted = 0, last_added = 0, total_size = 4, pa_timeout = 5\<rparr>"

lemma example_ring_inv: "ping_inv example_ring"
  by (auto simp: ping_inv_def example_ring_def intro!: exI [of _ 2])

theorem ping_survives_later_pings_witness:
  "\<exists>arr2. ping_array_check
      (ping_array_adds fuzz_platform
        (snd (ping_array_add fuzz_platform example_ring \<lparr>cur_time = 100, base_time = 0\<rparr> 77 [1, 2]))
        [(\<lparr>cur_time = 101, base_time = 0\<rparr>, 9, [3]), (\<lparr>cur_time = 102, base_time = 0\<rparr>, 9, [4])])
      \<lparr>cur_time = 104, base_time = 0\<rparr> 10
      (fst (ping_array_add fuzz_platform example_ring \<lparr>cur_time = 100, base_time = 0\<rparr> 77 [1, 2])) = (Some [1, 2], arr2) \<and>
    (\<forall>mt' len'. ping_array_check arr2 mt' len'
      (fst (ping_array_add fuzz_platform example_ring \<lparr>cur_time = 100, base_time = 0\<rparr> 77 [1, 2])) = (None, arr2))"
  by (rule ping_survives_later_pings [OF example_ring_inv _ _ _ prod.collapse [symmetric]])
    (simp_all add: example_ring_def mono_time_is_timeout_def mono_time_get_def)

end
