(* ===== verification/Shared_Key_Cache.thy ===== *)
theory Shared_Key_Cache
  imports Crypto_Core Mono_Time
begin

text \<open>
  \<^verbatim>\<open>toxcore/shared_key_cache.c\<close>: shared keys by public key, in 256 buckets of
  \<open>keys_per_slot\<close> entries selected by byte 8 of the public key. The clock a cache reads
  (\<^verbatim>\<open>time\<close>) is an argument; a slot is empty if its time is zero.

  Shown here: a lookup that answers returns the key \<^verbatim>\<open>encrypt_precompute\<close> gives for
  this public key, from the cache or not, and keeps that relation for all entries.
\<close>

section \<open>Definitions\<close>

record Shared_Key =
  sk_public_key :: bytes
  sk_shared_key :: bytes
  time_last_requested :: u64

record Shared_Key_Cache =
  keys :: "Shared_Key list"
  self_secret_key :: bytes
  skc_timeout :: u64
  keys_per_slot :: byte

definition empty_key :: Shared_Key where
  "empty_key = \<lparr>sk_public_key = replicate 32 0, sk_shared_key = replicate 32 0, time_last_requested = 0\<rparr>"

definition shared_key_is_empty :: "Shared_Key \<Rightarrow> bool" where
  "shared_key_is_empty k \<longleftrightarrow> time_last_requested k = 0"

definition shared_key_set_empty :: "Shared_Key \<Rightarrow> Shared_Key" where
  "shared_key_set_empty k = empty_key"

text \<open>The cache structure comes from \<^verbatim>\<open>calloc\<close>; no statement of the constructor assigns its
  timeout.\<close>

definition shared_key_cache_new ::
  "platform \<Rightarrow> Mono_Time option \<Rightarrow> bytes option \<Rightarrow> u64 \<Rightarrow> byte \<Rightarrow> Shared_Key_Cache option" where
  "shared_key_cache_new P time secret_key timeout kps =
     (case time of None \<Rightarrow> None | Some mt \<Rightarrow>
      case secret_key of None \<Rightarrow> None | Some sk \<Rightarrow>
        if timeout = 0 \<or> kps = 0 then None
        else if mono_time_get mt = 0 then None
        else if \<not> malloc_ok P 40 then None
        else
          let res = \<lparr>keys = [], self_secret_key = sk, skc_timeout = 0, keys_per_slot = kps\<rparr>;
              cache_size = 256 * unat kps
          in if \<not> malloc_ok P (cache_size * 72) then None
             else Some (res\<lparr>keys := replicate cache_size empty_key\<rparr>))"

text \<open>The three passes over a bucket: search, eviction, choice of the slot to fill.\<close>

definition bucket_start :: "Shared_Key_Cache \<Rightarrow> bytes \<Rightarrow> nat" where
  "bucket_start cache public_key = unat (public_key ! 8) * unat (keys_per_slot cache)"

definition get_bucket :: "Shared_Key_Cache \<Rightarrow> bytes \<Rightarrow> Shared_Key list" where
  "get_bucket cache public_key = slice (bucket_start cache public_key) (unat (keys_per_slot cache)) (keys cache)"

definition put_bucket :: "Shared_Key_Cache \<Rightarrow> bytes \<Rightarrow> Shared_Key list \<Rightarrow> Shared_Key_Cache" where
  "put_bucket cache public_key bucket =
     cache\<lparr>keys := write_at (bucket_start cache public_key) bucket (keys cache)\<rparr>"

definition find_in_bucket :: "bytes \<Rightarrow> Shared_Key list \<Rightarrow> nat option" where
  "find_in_bucket public_key bucket =
     find_index (\<lambda>k. \<not> shared_key_is_empty k \<and> pk_equal public_key (sk_public_key k)) bucket"

definition evict_timedout :: "u64 \<Rightarrow> u64 \<Rightarrow> Shared_Key \<Rightarrow> Shared_Key" where
  "evict_timedout now timeout k =
     (if shared_key_is_empty k then k
      else if time_last_requested k + timeout < now then shared_key_set_empty k else k)"

text \<open>\<open>i\<close> counts up; the state is the oldest time stamp and its index.\<close>

fun oldest_loop :: "nat \<Rightarrow> Shared_Key list \<Rightarrow> u64 \<times> nat \<Rightarrow> u64 \<times> nat" where
  "oldest_loop i [] acc = acc"
| "oldest_loop i (k # ks) (oldest_timestamp, oldest_index) =
     oldest_loop (Suc i) ks
       (if time_last_requested k < oldest_timestamp then (time_last_requested k, i)
        else (oldest_timestamp, oldest_index))"

text \<open>The result is the key the returned pointer points to when the call returns.\<close>

definition shared_key_cache_lookup ::
  "platform \<Rightarrow> Mono_Time \<Rightarrow> Shared_Key_Cache \<Rightarrow> bytes \<Rightarrow> bytes option \<times> Shared_Key_Cache" where
  "shared_key_cache_lookup P mt cache public_key =
     (let now = mono_time_get mt;
          bucket = get_bucket cache public_key;
          found = find_in_bucket public_key bucket;
          bucket = (case found of None \<Rightarrow> bucket
                    | Some i \<Rightarrow> bucket[i := (bucket ! i)\<lparr>time_last_requested := now\<rparr>]);
          bucket = map (evict_timedout now (skc_timeout cache)) bucket
      in case found of
          Some i \<Rightarrow> (Some (sk_shared_key (bucket ! i)), put_bucket cache public_key bucket)
        | None \<Rightarrow>
            let oldest_index = snd (oldest_loop 0 bucket (0xFFFFFFFFFFFFFFFF, 0)) in
            case encrypt_precompute P public_key (self_secret_key cache) of
              None \<Rightarrow> (None, put_bucket cache public_key bucket)
            | Some sk \<Rightarrow>
                (Some sk, put_bucket cache public_key
                   (bucket[oldest_index := \<lparr>sk_public_key = take CRYPTO_PUBLIC_KEY_SIZE public_key,
                      sk_shared_key = sk, time_last_requested = now\<rparr>])))"

section \<open>Correctness\<close>

text \<open>Every occupied entry holds the shared key of its public key.\<close>

definition key_ok :: "platform \<Rightarrow> bytes \<Rightarrow> Shared_Key \<Rightarrow> bool" where
  "key_ok P sk k \<longleftrightarrow> length (sk_public_key k) = 32 \<and>
     (\<not> shared_key_is_empty k \<longrightarrow> encrypt_precompute P (sk_public_key k) sk = Some (sk_shared_key k))"

definition cache_inv :: "platform \<Rightarrow> Shared_Key_Cache \<Rightarrow> bool" where
  "cache_inv P cache \<longleftrightarrow> keys_per_slot cache \<noteq> 0 \<and> length (keys cache) = 256 * unat (keys_per_slot cache) \<and>
     (\<forall>k \<in> set (keys cache). key_ok P (self_secret_key cache) k)"

lemma key_ok_empty [simp]: "key_ok P sk empty_key"
  by (simp add: key_ok_def empty_key_def shared_key_is_empty_def)

lemma evict_ok: "key_ok P sk k \<Longrightarrow> key_ok P sk (evict_timedout t tmo k)"
  by (simp add: evict_timedout_def shared_key_set_empty_def)

lemma shared_key_cache_new_inv [keep_inv]: "shared_key_cache_new P time sk timeout kps = Some cache \<Longrightarrow> cache_inv P cache"
  by (auto simp: shared_key_cache_new_def cache_inv_def Let_def split: option.splits if_splits)

lemma bucket_fits:
  assumes "cache_inv P cache"
  shows "bucket_start cache pk + unat (keys_per_slot cache) \<le> length (keys cache)"
proof -
  have "Suc (unat (pk ! 8)) * unat (keys_per_slot cache) \<le> 256 * unat (keys_per_slot cache)"
    using byte_bound [of "pk ! 8"] by (intro mult_le_mono1) simp
  then show ?thesis using assms by (simp add: bucket_start_def cache_inv_def)
qed

lemma put_bucket_inv:
  assumes "cache_inv P cache" "length bucket = unat (keys_per_slot cache)"
    and "\<forall>k \<in> set bucket. key_ok P (self_secret_key cache) k"
  shows "cache_inv P (put_bucket cache pk bucket)"
  using assms bucket_fits [OF assms(1), of pk]
  by (auto simp: cache_inv_def put_bucket_def write_at_def dest: in_set_takeD in_set_dropD)

lemma shared_key_cache_lookup_spec:
  assumes inv: "cache_inv P cache" and pk: "length public_key = CRYPTO_PUBLIC_KEY_SIZE"
    and now: "unat (mono_time_get mt) + unat (skc_timeout cache) < 2 ^ 64"
    and call: "shared_key_cache_lookup P mt cache public_key = (res, cache')"
  shows "res = encrypt_precompute P public_key (self_secret_key cache) \<and> cache_inv P cache'"
proof -
  let ?sk = "self_secret_key cache" and ?now = "mono_time_get mt" and ?b = "get_bucket cache public_key"
  let ?evict = "evict_timedout ?now (skc_timeout cache)"
  have len: "length ?b = unat (keys_per_slot cache)"
    using bucket_fits [OF inv, of public_key] by (simp add: get_bucket_def)
  have ok: "\<forall>k \<in> set ?b. key_ok P ?sk k"
    using inv by (auto simp: get_bucket_def slice_def cache_inv_def dest: in_set_takeD in_set_dropD)
  show ?thesis
  proof (cases "find_in_bucket public_key ?b")
    case None
    define b where "b = map ?evict ?b"
    have b: "length b = unat (keys_per_slot cache)" "\<forall>k \<in> set b. key_ok P ?sk k"
      using len ok by (auto simp: b_def evict_ok)
    have new: "key_ok P ?sk \<lparr>sk_public_key = take 32 public_key, sk_shared_key = s, time_last_requested = ?now\<rparr>"
      if "encrypt_precompute P public_key ?sk = Some s" for s
      using that pk by (simp add: key_ok_def size_defs)
    show ?thesis
      using call None b new inv
      by (auto simp: shared_key_cache_lookup_def Let_def b_def [symmetric] size_defs
          intro!: put_bucket_inv split: option.splits dest: set_update_subset_insert [THEN subsetD])
  next
    case (Some i)
    then have i: "i < length ?b" "pk_equal public_key (sk_public_key (?b ! i))" "\<not> shared_key_is_empty (?b ! i)"
      by (auto simp: find_in_bucket_def find_index_Some)
    define e where "e = (?b ! i)\<lparr>time_last_requested := ?now\<rparr>"
    define b where "b = map ?evict (?b[i := e])"
    have oki: "key_ok P ?sk (?b ! i)" using ok i(1) by simp
    then have "sk_public_key (?b ! i) = public_key"
      using i(2) pk pk_equal_iff by (simp add: key_ok_def size_defs)
    then have sk: "encrypt_precompute P public_key ?sk = Some (sk_shared_key e)" "key_ok P ?sk e"
      using oki i(3) by (simp_all add: key_ok_def e_def)
    have "\<not> ?now + skc_timeout cache < ?now"
      using now by (simp add: word_less_nat_alt unat_word_ariths)
    then have "?evict e = e" by (simp add: evict_timedout_def e_def)
    then have "b ! i = e" using i(1) by (simp add: b_def)
    moreover have "\<forall>k \<in> set b. key_ok P ?sk k" "length b = unat (keys_per_slot cache)"
      using ok sk(2) len by (auto simp: b_def evict_ok dest!: set_update_subset_insert [THEN subsetD])
    ultimately show ?thesis
      using call Some sk(1) put_bucket_inv [OF inv, of b public_key]
      by (simp add: shared_key_cache_lookup_def Let_def e_def [symmetric] b_def [symmetric])
  qed
qed

section \<open>Properties\<close>

text \<open>A lookup answers exactly what \<^verbatim>\<open>encrypt_precompute\<close> computes for the public key and the
  cache's secret key, whether the key was cached or not, and keeps the cache consistent.\<close>

theorem shared_key_cache_transparent:
  assumes "cache_inv P cache" and "length public_key = CRYPTO_PUBLIC_KEY_SIZE"
    and "unat (mono_time_get mt) + unat (skc_timeout cache) < 2 ^ 64"
    and "shared_key_cache_lookup P mt cache public_key = (res, cache')"
  shows "res = encrypt_precompute P public_key (self_secret_key cache) \<and> cache_inv P cache'"
  using assms by (rule shared_key_cache_lookup_spec)

definition example_cache :: Shared_Key_Cache where
  "example_cache = \<lparr>keys = replicate 256 empty_key, self_secret_key = [5], skc_timeout = 60, keys_per_slot = 1\<rparr>"

theorem shared_key_cache_transparent_witness:
  "fst (shared_key_cache_lookup fuzz_platform \<lparr>cur_time = 100, base_time = 0\<rparr> example_cache (replicate 32 7))
     = encrypt_precompute fuzz_platform (replicate 32 7) [5]"
proof -
  have inv: "cache_inv fuzz_platform example_cache"
    by (simp add: cache_inv_def example_cache_def)
  have "fst (shared_key_cache_lookup fuzz_platform \<lparr>cur_time = 100, base_time = 0\<rparr> example_cache (replicate 32 7))
      = encrypt_precompute fuzz_platform (replicate 32 7) (self_secret_key example_cache)"
    by (rule conjunct1 [OF shared_key_cache_transparent [OF inv _ _ prod.collapse [symmetric]]])
      (simp_all add: size_defs mono_time_get_def example_cache_def)
  then show ?thesis by (simp add: example_cache_def)
qed

text \<open>The constructor drops the timeout it is given: in every new cache it is zero, so
  each lookup in a bucket evicts every key of it that was not requested within the
  current second.\<close>

theorem shared_key_cache_new_drops_timeout:
  assumes "shared_key_cache_new P (Some mt) (Some sk) timeout kps = Some cache"
  shows "timeout \<noteq> 0 \<and> skc_timeout cache = 0 \<and>
    evict_timedout now (skc_timeout cache) k =
      (if \<not> shared_key_is_empty k \<and> time_last_requested k < now then empty_key else k)"
  using assms
  by (auto simp: shared_key_cache_new_def evict_timedout_def shared_key_set_empty_def Let_def split: if_splits)

theorem shared_key_cache_new_drops_timeout_witness:
  "\<exists>cache. shared_key_cache_new fuzz_platform (Some \<lparr>cur_time = 100, base_time = 0\<rparr>) (Some [5]) 600 1 = Some cache \<and>
     skc_timeout cache = 0"
proof -
  obtain cache where c:
    "shared_key_cache_new fuzz_platform (Some \<lparr>cur_time = 100, base_time = 0\<rparr>) (Some [5]) 600 1 = Some cache"
    by (simp add: shared_key_cache_new_def mono_time_get_def Let_def)
  with shared_key_cache_new_drops_timeout [OF c, of 0 empty_key] show ?thesis by blast
qed

end
