(* ===== verification/State_File.thy ===== *)
theory State_File
  imports Tox_Prelude
begin

text \<open>
  \<^verbatim>\<open>toxcore/state.c\<close>: the sections of the save file. The callback that consumes a section
  is an argument of the loader and threads the state it fills. The host is
  little-endian, so the conversions copy bytes.

  Shown here: loading what the section writer wrote gives the callback exactly these
  sections in order, and a file is accepted in full only if it is such a sequence.
\<close>

section \<open>Definitions\<close>

definition lendian_to_host16 :: "u16 \<Rightarrow> u16" where
  "lendian_to_host16 lendian = lendian"

definition host_to_lendian16 :: "u16 \<Rightarrow> u16" where
  "host_to_lendian16 host = lendian_to_host16 host"

definition host_to_lendian_bytes64 :: "u64 \<Rightarrow> bytes" where
  "host_to_lendian_bytes64 num = host_bytes 8 num"

definition lendian_bytes_to_host64 :: "bytes \<Rightarrow> u64" where
  "lendian_bytes_to_host64 lendian = host_word (take 8 lendian)"

definition host_to_lendian_bytes32 :: "u32 \<Rightarrow> bytes" where
  "host_to_lendian_bytes32 num = host_bytes 4 num"

definition lendian_bytes_to_host32 :: "bytes \<Rightarrow> u32" where
  "lendian_bytes_to_host32 lendian = host_word (take 4 lendian)"

definition host_to_lendian_bytes16 :: "u16 \<Rightarrow> bytes" where
  "host_to_lendian_bytes16 num = host_bytes 2 num"

definition lendian_bytes_to_host16 :: "bytes \<Rightarrow> u16" where
  "lendian_bytes_to_host16 lendian = host_word (take 2 lendian)"

definition STATE_COOKIE_TYPE :: u16 where
  [size_defs]: "STATE_COOKIE_TYPE = 0x01ce"

datatype State_Load_Status =
  STATE_LOAD_STATUS_CONTINUE | STATE_LOAD_STATUS_ERROR | STATE_LOAD_STATUS_END

text \<open>The section type is a \<^verbatim>\<open>uint32_t\<close> that the conversion narrows.\<close>

definition state_write_section_header :: "u16 \<Rightarrow> u32 \<Rightarrow> u32 \<Rightarrow> bytes" where
  "state_write_section_header cookie_type len section_type =
     host_to_lendian_bytes32 len @
     host_to_lendian_bytes32
       (push_bit 16 (ucast (host_to_lendian16 cookie_type)) OR ucast (host_to_lendian16 (ucast section_type)))"

text \<open>The loop of \<^verbatim>\<open>state_load\<close>, called with a callback and data; the result is 0 or -1 with the callback's state.\<close>

function state_load ::
  "('o \<Rightarrow> bytes \<Rightarrow> u16 \<Rightarrow> State_Load_Status \<times> 'o) \<Rightarrow> 'o \<Rightarrow> bytes \<Rightarrow> u16 \<Rightarrow> int \<times> 'o" where
  "state_load cb outer data cookie_inner =
     (if length data \<ge> 8 then
        let length_sub = lendian_bytes_to_host32 data;
            cookie_type = lendian_bytes_to_host32 (drop 4 data);
            rest = drop 8 data
        in if length rest < unat length_sub then (- 1, outer)
           else if lendian_to_host16 (ucast (drop_bit 16 cookie_type)) \<noteq> cookie_inner then (- 1, outer)
           else
             (case cb outer (take (unat length_sub) rest) (lendian_to_host16 (ucast (cookie_type AND 0xFFFF))) of
                (STATE_LOAD_STATUS_CONTINUE, outer) \<Rightarrow>
                  state_load cb outer (drop (unat length_sub) rest) cookie_inner
              | (STATE_LOAD_STATUS_ERROR, outer) \<Rightarrow> (- 1, outer)
              | (STATE_LOAD_STATUS_END, outer) \<Rightarrow> (0, outer))
      else if length data \<noteq> 0 then (- 1, outer)
      else (0, outer))"
  by pat_completeness auto
termination
  by (relation "measure (\<lambda>(cb, outer, data, cookie). length data)") auto

declare state_load.simps [simp del]

section \<open>Sections\<close>

text \<open>A section as the savers write it: its header, then its body.\<close>

definition section_bytes :: "u16 \<Rightarrow> u16 \<times> bytes \<Rightarrow> bytes" where
  "section_bytes cookie s =
     state_write_section_header cookie (word_of_nat (length (snd s))) (ucast (fst s)) @ snd s"

definition sections_bytes :: "u16 \<Rightarrow> (u16 \<times> bytes) list \<Rightarrow> bytes" where
  "sections_bytes cookie ss = concat (map (section_bytes cookie) ss)"

text \<open>What loading a list of sections means.\<close>

fun run_sections :: "('o \<Rightarrow> bytes \<Rightarrow> u16 \<Rightarrow> State_Load_Status \<times> 'o) \<Rightarrow> 'o \<Rightarrow> (u16 \<times> bytes) list \<Rightarrow> int \<times> 'o" where
  "run_sections cb outer [] = (0, outer)"
| "run_sections cb outer ((ty, body) # ss) =
     (case cb outer body ty of
        (STATE_LOAD_STATUS_CONTINUE, outer) \<Rightarrow> run_sections cb outer ss
      | (STATE_LOAD_STATUS_ERROR, outer) \<Rightarrow> (- 1, outer)
      | (STATE_LOAD_STATUS_END, outer) \<Rightarrow> (0, outer))"

lemmas lendian_defs = lendian_to_host16_def host_to_lendian16_def host_to_lendian_bytes32_def
  lendian_bytes_to_host32_def

text \<open>The two halves of the second header word.\<close>

lemma low_half: "(0xFFFF :: u32) = mask 16"
  by (simp add: mask_eq_exp_minus_1)

lemma cookie_word:
  fixes c t :: u16
  shows "ucast (drop_bit 16 (push_bit 16 (ucast c) OR (ucast t :: u32))) = c"
    and "ucast ((push_bit 16 (ucast c) OR (ucast t :: u32)) AND 0xFFFF) = t"
  unfolding low_half by (rule bit_word_eqI; auto simp: bit_simps bit_beyond)+

lemma word_of_halves:
  fixes w :: u32
  shows "push_bit 16 (ucast (ucast (drop_bit 16 w) :: u16)) OR ucast (ucast (w AND 0xFFFF) :: u16) = w"
proof (rule bit_word_eqI)
  fix n assume "n < LENGTH(32)"
  then show "bit (push_bit 16 (ucast (ucast (drop_bit 16 w) :: u16) :: u32) OR ucast (ucast (w AND 0xFFFF) :: u16)) n = bit w n"
    unfolding low_half by (cases "n < 16") (auto simp: bit_simps)
qed

lemma length_header [simp]: "length (state_write_section_header c l t) = 8"
  by (simp add: state_write_section_header_def lendian_defs)

lemma header_fields:
  "lendian_bytes_to_host32 (state_write_section_header c l t @ rest) = l"
  "lendian_bytes_to_host32 (drop 4 (state_write_section_header c l t) @ rest) =
     push_bit 16 (ucast c) OR ucast (ucast t :: u16)"
  by (simp_all add: state_write_section_header_def lendian_defs wire_simps)

lemma state_load_section:
  assumes "length body < 2 ^ 32"
  shows "state_load cb outer (section_bytes cookie (ty, body) @ rest) cookie =
    (case cb outer body ty of
        (STATE_LOAD_STATUS_CONTINUE, outer) \<Rightarrow> state_load cb outer rest cookie
      | (STATE_LOAD_STATUS_ERROR, outer) \<Rightarrow> (- 1, outer)
      | (STATE_LOAD_STATUS_END, outer) \<Rightarrow> (0, outer))"
proof -
  define len where "len = (word_of_nat (length body) :: u32)"
  define w where "w = push_bit 16 (ucast cookie) OR (ucast ty :: u32)"
  let ?data = "section_bytes cookie (ty, body) @ rest"
  have l: "unat len = length body"
    using assms by (simp add: len_def unat_of_nat)
  have w: "ucast (drop_bit 16 w) = cookie" "ucast (w AND 0xFFFF) = ty"
    unfolding w_def by (rule cookie_word)+
  have t: "ucast (ucast ty :: u32) = ty" by (rule bit_word_eqI) (auto simp: bit_simps)
  have "?data = state_write_section_header cookie len (ucast ty) @ body @ rest"
    by (simp add: section_bytes_def len_def)
  then have f: "lendian_bytes_to_host32 ?data = len" "lendian_bytes_to_host32 (drop 4 ?data) = w"
    "drop 8 ?data = body @ rest" "length ?data \<ge> 8"
    by (simp_all add: header_fields t w_def)
  show ?thesis
    by (subst state_load.simps) (simp only: f Let_def l w lendian_to_host16_def if_True, simp split: prod.split State_Load_Status.split)
qed

lemma state_load_sections:
  "\<forall>(ty, body) \<in> set ss. length body < 2 ^ 32 \<Longrightarrow>
   state_load cb outer (sections_bytes cookie ss) cookie = run_sections cb outer ss"
proof (induction ss arbitrary: outer)
  case Nil
  show ?case by (simp add: sections_bytes_def state_load.simps)
next
  case (Cons s ss)
  obtain ty body where s: "s = (ty, body)" by fastforce
  have "sections_bytes cookie (s # ss) = section_bytes cookie (ty, body) @ sections_bytes cookie ss"
    by (simp add: sections_bytes_def s)
  with Cons s show ?case
    by (auto simp: state_load_section split: prod.split State_Load_Status.split)
qed

text \<open>What every call of the callback keeps, loading keeps.\<close>

lemma state_load_keeps:
  assumes "\<And>outer data ty st outer'. P outer \<Longrightarrow> cb outer data ty = (st, outer') \<Longrightarrow> P outer'" "P outer"
  shows "P (snd (state_load cb outer data cookie))"
  using assms
proof (induction cb outer data cookie rule: state_load.induct)
  case (1 cb outer data cookie)
  then show ?case
    by (subst state_load.simps) (auto simp: Let_def split: prod.split State_Load_Status.split)
qed

text \<open>Conversely, the first section of an accepted file.\<close>

lemma data_as_section:
  assumes "length data \<ge> 8" and "unat (lendian_bytes_to_host32 data) \<le> length (drop 8 data)"
  defines "n \<equiv> unat (lendian_bytes_to_host32 data)" and "w \<equiv> lendian_bytes_to_host32 (drop 4 data)"
  shows "data = section_bytes (ucast (drop_bit 16 w)) (ucast (w AND 0xFFFF), take n (drop 8 data)) @ drop n (drop 8 data)"
proof -
  have l: "word_of_nat (length (take n (drop 8 data))) = lendian_bytes_to_host32 data"
    using assms(1,2) by (simp add: n_def min_def)
  have t: "ucast (ucast (ucast (w AND 0xFFFF) :: u16) :: u32) = (ucast (w AND 0xFFFF) :: u16)"
    by (rule bit_word_eqI) (auto simp: bit_simps)
  have "host_bytes 4 (lendian_bytes_to_host32 data) = take 4 data"
    "host_bytes 4 w = take 4 (drop 4 data)"
    using assms(1) by (simp_all add: w_def lendian_bytes_to_host32_def host_bytes_host_word)
  then have "section_bytes (ucast (drop_bit 16 w)) (ucast (w AND 0xFFFF), take n (drop 8 data)) =
      take 4 data @ take 4 (drop 4 data) @ take n (drop 8 data)"
    by (simp only: section_bytes_def state_write_section_header_def fst_conv snd_conv l t
        host_to_lendian16_def lendian_to_host16_def host_to_lendian_bytes32_def word_of_halves append_assoc)
  moreover have "take 4 data @ take 4 (drop 4 data) @ drop 8 data = data"
    by (metis append_take_drop_id drop_drop numeral_plus_numeral num.simps add_num_simps(1) semiring_norm(2) semiring_norm(6))
  ultimately show ?thesis by (metis append_assoc append_take_drop_id)
qed

text \<open>The callback that records the sections.\<close>

definition record_section :: "(u16 \<times> bytes) list \<Rightarrow> bytes \<Rightarrow> u16 \<Rightarrow> State_Load_Status \<times> (u16 \<times> bytes) list" where
  "record_section o' body ty = (STATE_LOAD_STATUS_CONTINUE, o' @ [(ty, body)])"

lemma run_record: "run_sections record_section o' ss = (0, o' @ ss)"
  by (induction ss arbitrary: o') (auto simp: record_section_def)

lemma load_record:
  "state_load record_section o' data cookie = (0, o'') \<Longrightarrow>
   \<exists>ss. o'' = o' @ ss \<and> data = sections_bytes cookie ss \<and> (\<forall>(ty, body) \<in> set ss. length body < 2 ^ 32)"
proof (induction "length data" arbitrary: o' data rule: less_induct)
  case less
  let ?l = "lendian_bytes_to_host32 data" and ?w = "lendian_bytes_to_host32 (drop 4 data)"
  note load = less(2)[unfolded state_load.simps [of _ o' data]]
  show ?case
  proof (cases "length data \<ge> 8")
    case False
    with load show ?thesis by (intro exI [of _ "[]"]) (auto simp: sections_bytes_def split: if_splits)
  next
    case True
    let ?s = "(ucast (?w AND 0xFFFF) :: u16, take (unat ?l) (drop 8 data))"
    from True load have fits: "unat ?l \<le> length (drop 8 data)" and c: "ucast (drop_bit 16 ?w) = cookie"
      and rest: "state_load record_section (o' @ [?s]) (drop (unat ?l) (drop 8 data)) cookie = (0, o'')"
      by (auto simp: Let_def record_section_def lendian_to_host16_def split: if_splits)
    have "length (drop (unat ?l) (drop 8 data)) < length data" using True by simp
    from less(1) [OF this rest] obtain ss where ss: "o'' = (o' @ [?s]) @ ss"
      "drop (unat ?l) (drop 8 data) = sections_bytes cookie ss" "\<forall>(ty, body) \<in> set ss. length body < 2 ^ 32"
      by blast
    have "length (snd ?s) < 2 ^ 32"
      by (rule order_le_less_trans [of _ "unat ?l"]) (simp, rule order_less_le_trans [OF unsigned_less], simp)
    moreover have "data = sections_bytes cookie (?s # ss)"
      using data_as_section [OF True fits] ss(2) c by (simp add: sections_bytes_def)
    ultimately show ?thesis using ss by (intro exI [of _ "?s # ss"]) auto
  qed
qed

section \<open>Properties\<close>

text \<open>Loading what the writer wrote gives the callback exactly the written sections, in
  order, until it stops or fails.\<close>

theorem state_load_written:
  assumes "\<forall>(ty, body) \<in> set ss. length body < 2 ^ 32"
  shows "state_load cb outer (sections_bytes cookie ss) cookie = run_sections cb outer ss"
  by (rule state_load_sections [OF assms])

theorem state_load_written_witness:
  "state_load record_section [] (sections_bytes STATE_COOKIE_TYPE [(4, [1, 2]), (255, [])]) STATE_COOKIE_TYPE
     = (0, [(4, [1, 2]), (255, [])])"
  using state_load_written [of "[(4, [1, 2]), (255, [])]" record_section "[]" STATE_COOKIE_TYPE]
  by (simp add: record_section_def)

text \<open>C34: A file is read to its end without an error exactly if it is a sequence of written
  sections with the right cookie; truncated or garbled files are rejected.\<close>

theorem state_load_accepts_iff:
  "state_load record_section [] data cookie = (0, ss) \<longleftrightarrow>
     data = sections_bytes cookie ss \<and> list_all (\<lambda>s. length (snd s) < 2 ^ 32) ss"
proof
  assume "state_load record_section [] data cookie = (0, ss)"
  from load_record [OF this] show "data = sections_bytes cookie ss \<and> list_all (\<lambda>s. length (snd s) < 2 ^ 32) ss"
    by (auto simp: list_all_iff)
next
  assume d: "data = sections_bytes cookie ss \<and> list_all (\<lambda>s. length (snd s) < 2 ^ 32) ss"
  then have "\<forall>(ty, body) \<in> set ss. length body < 2 ^ 32" by (auto simp: list_all_iff)
  from state_load_sections [OF this, of record_section "[]" cookie] d
  show "state_load record_section [] data cookie = (0, ss)" by (simp add: run_record)
qed

end
