(* ===== verification/Network.thy ===== *)
theory Network
  imports Crypto_Core
begin

text \<open>
  The address part of \<^verbatim>\<open>toxcore/network.c\<close> and the address classes of
  \<^verbatim>\<open>toxcore/LAN_discovery.c\<close>. An address is its family byte and the 16 bytes of the C union,
  of which the first four are the IPv4 view; ports are kept in network order, as the
  sources keep them. The operating system's \<^verbatim>\<open>sendto\<close> is an argument of the
  sending operations.

  Shown here: the pack functions are big-endian and invert the unpack functions;
  \<^verbatim>\<open>ip_equal\<close> is equality of a canonical form in which an IPv4 address and its
  IPv6-mapped form agree; mapping an IPv4 destination for an IPv6 socket and reading it
  back on receipt is the identity.
\<close>

section \<open>Definitions\<close>

definition TOX_AF_UNSPEC :: byte where [size_defs]: "TOX_AF_UNSPEC = 0"
definition TOX_AF_INET :: byte where [size_defs]: "TOX_AF_INET = 2"
definition TOX_AF_INET6 :: byte where [size_defs]: "TOX_AF_INET6 = 10"
definition TOX_TCP_INET :: byte where [size_defs]: "TOX_TCP_INET = 130"
definition TOX_TCP_INET6 :: byte where [size_defs]: "TOX_TCP_INET6 = 138"
definition TCP_CLIENT_FAMILY :: byte where [size_defs]: "TCP_CLIENT_FAMILY = TOX_AF_INET6 + 1"
definition TCP_INET :: byte where [size_defs]: "TCP_INET = TOX_AF_INET6 + 2"
definition TCP_INET6 :: byte where [size_defs]: "TCP_INET6 = TOX_AF_INET6 + 3"
definition TCP_SERVER_FAMILY :: byte where [size_defs]: "TCP_SERVER_FAMILY = TOX_AF_INET6 + 4"
definition SIZE_IP4 :: nat where [size_defs]: "SIZE_IP4 = 4"
definition SIZE_IP6 :: nat where [size_defs]: "SIZE_IP6 = 16"
definition MAX_UDP_PACKET_SIZE :: nat where [size_defs]: "MAX_UDP_PACKET_SIZE = 2048"
definition SIZE_IP :: nat where [size_defs]: "SIZE_IP = 1 + SIZE_IP6"
definition SIZE_PORT :: nat where [size_defs]: "SIZE_PORT = 2"
definition SIZE_IPPORT :: nat where [size_defs]: "SIZE_IPPORT = SIZE_IP + SIZE_PORT"

record IP =
  family :: byte
  addr :: bytes

record IP_Port =
  ip :: IP
  port :: u16

definition empty_ip :: IP where
  "empty_ip = \<lparr>family = 0, addr = replicate 16 0\<rparr>"

definition empty_ip_port :: IP_Port where
  "empty_ip_port = \<lparr>ip = empty_ip, port = 0\<rparr>"

text \<open>The views of the union.\<close>

definition v4 :: "IP \<Rightarrow> bytes" where
  "v4 a = take 4 (addr a)"

definition v6_uint32 :: "bytes \<Rightarrow> nat \<Rightarrow> u32" where
  "v6_uint32 a i = host_word (slice (4 * i) 4 a)"

definition v6_uint64 :: "bytes \<Rightarrow> nat \<Rightarrow> u64" where
  "v6_uint64 a i = host_word (slice (8 * i) 8 a)"

definition set_v4 :: "bytes \<Rightarrow> bytes \<Rightarrow> bytes" where
  "set_v4 four a = write_at 0 (take 4 four) a"

definition net_family_is_unspec :: "byte \<Rightarrow> bool" where "net_family_is_unspec f \<longleftrightarrow> f = TOX_AF_UNSPEC"
definition net_family_is_ipv4 :: "byte \<Rightarrow> bool" where "net_family_is_ipv4 f \<longleftrightarrow> f = TOX_AF_INET"
definition net_family_is_ipv6 :: "byte \<Rightarrow> bool" where "net_family_is_ipv6 f \<longleftrightarrow> f = TOX_AF_INET6"
definition net_family_is_tcp_server :: "byte \<Rightarrow> bool" where "net_family_is_tcp_server f \<longleftrightarrow> f = TCP_SERVER_FAMILY"
definition net_family_is_tcp_client :: "byte \<Rightarrow> bool" where "net_family_is_tcp_client f \<longleftrightarrow> f = TCP_CLIENT_FAMILY"
definition net_family_is_tcp_ipv4 :: "byte \<Rightarrow> bool" where "net_family_is_tcp_ipv4 f \<longleftrightarrow> f = TCP_INET"
definition net_family_is_tcp_ipv6 :: "byte \<Rightarrow> bool" where "net_family_is_tcp_ipv6 f \<longleftrightarrow> f = TCP_INET6"
definition net_family_is_tox_tcp_ipv4 :: "byte \<Rightarrow> bool" where "net_family_is_tox_tcp_ipv4 f \<longleftrightarrow> f = TOX_TCP_INET"
definition net_family_is_tox_tcp_ipv6 :: "byte \<Rightarrow> bool" where "net_family_is_tox_tcp_ipv6 f \<longleftrightarrow> f = TOX_TCP_INET6"

lemmas family_defs = net_family_is_unspec_def net_family_is_ipv4_def net_family_is_ipv6_def
  net_family_is_tcp_server_def net_family_is_tcp_client_def net_family_is_tcp_ipv4_def
  net_family_is_tcp_ipv6_def net_family_is_tox_tcp_ipv4_def net_family_is_tox_tcp_ipv6_def

subsection \<open>Byte order\<close>

definition net_htonl :: "u32 \<Rightarrow> u32" where
  "net_htonl hostlong = host_word (rev (host_bytes 4 hostlong))"

definition net_htons :: "u16 \<Rightarrow> u16" where
  "net_htons hostshort = host_word (rev (host_bytes 2 hostshort))"

definition net_ntohl :: "u32 \<Rightarrow> u32" where
  "net_ntohl hostlong = host_word (rev (host_bytes 4 hostlong))"

definition net_ntohs :: "u16 \<Rightarrow> u16" where
  "net_ntohs hostshort = host_word (rev (host_bytes 2 hostshort))"

definition net_pack_bool :: "bool \<Rightarrow> bytes" where
  "net_pack_bool v = [if v then 1 else 0]"

definition net_pack_u16 :: "u16 \<Rightarrow> bytes" where
  "net_pack_u16 v = [ucast (drop_bit 8 v AND 0xff), ucast (v AND 0xff)]"

definition net_pack_u32 :: "u32 \<Rightarrow> bytes" where
  "net_pack_u32 v = net_pack_u16 (ucast (drop_bit 16 v AND 0xffff)) @ net_pack_u16 (ucast (v AND 0xffff))"

definition net_pack_u64 :: "u64 \<Rightarrow> bytes" where
  "net_pack_u64 v = net_pack_u32 (ucast (drop_bit 32 v AND 0xffffffff)) @ net_pack_u32 (ucast (v AND 0xffffffff))"

definition net_unpack_bool :: "bytes \<Rightarrow> bool" where
  "net_unpack_bool bs \<longleftrightarrow> bs ! 0 \<noteq> 0"

definition net_unpack_u16 :: "bytes \<Rightarrow> u16" where
  "net_unpack_u16 bs = push_bit 8 (ucast (bs ! 0)) OR ucast (bs ! 1)"

definition net_unpack_u32 :: "bytes \<Rightarrow> u32" where
  "net_unpack_u32 bs = push_bit 16 (ucast (net_unpack_u16 bs)) OR ucast (net_unpack_u16 (drop 2 bs))"

definition net_unpack_u64 :: "bytes \<Rightarrow> u64" where
  "net_unpack_u64 bs = push_bit 32 (ucast (net_unpack_u32 bs)) OR ucast (net_unpack_u32 (drop 4 bs))"

subsection \<open>Addresses\<close>

definition ipv6_ipv4_in_v6 :: "bytes \<Rightarrow> bool" where
  "ipv6_ipv4_in_v6 a \<longleftrightarrow> v6_uint64 a 0 = 0 \<and> v6_uint32 a 2 = net_htonl 0xffff"

text \<open>The IPv4 address embedded in an IPv6 one, as a 32-bit value.\<close>

definition v4_uint32 :: "IP \<Rightarrow> u32" where
  "v4_uint32 a = host_word (v4 a)"

definition ip_equal :: "IP \<Rightarrow> IP \<Rightarrow> bool" where
  "ip_equal a b \<longleftrightarrow>
     (if family a = family b then
        (if net_family_is_ipv4 (family a) \<or> net_family_is_tcp_ipv4 (family a) then v4_uint32 a = v4_uint32 b
         else if net_family_is_ipv6 (family a) \<or> net_family_is_tcp_ipv6 (family a) then
           v6_uint64 (addr a) 0 = v6_uint64 (addr b) 0 \<and> v6_uint64 (addr a) 1 = v6_uint64 (addr b) 1
         else False)
      else if net_family_is_ipv4 (family a) \<and> net_family_is_ipv6 (family b) then
        (if ipv6_ipv4_in_v6 (addr b) then v4_uint32 a = v6_uint32 (addr b) 3 else False)
      else if net_family_is_ipv6 (family a) \<and> net_family_is_ipv4 (family b) then
        (if ipv6_ipv4_in_v6 (addr a) then v6_uint32 (addr a) 3 = v4_uint32 b else False)
      else False)"

definition ipport_equal :: "IP_Port \<Rightarrow> IP_Port \<Rightarrow> bool" where
  "ipport_equal a b \<longleftrightarrow>
     (if port a = 0 \<or> port a \<noteq> port b then False else ip_equal (ip a) (ip b))"

definition ip_reset :: "IP \<Rightarrow> IP" where
  "ip_reset a = empty_ip"

definition ipport_reset :: "IP_Port \<Rightarrow> IP_Port" where
  "ipport_reset a = empty_ip_port"

definition ip_init :: "bool \<Rightarrow> IP" where
  "ip_init ipv6enabled = empty_ip\<lparr>family := (if ipv6enabled then TOX_AF_INET6 else TOX_AF_INET)\<rparr>"

definition ip_isset :: "IP \<Rightarrow> bool" where
  "ip_isset a \<longleftrightarrow> \<not> net_family_is_unspec (family a)"

definition ipport_isset :: "IP_Port \<Rightarrow> bool" where
  "ipport_isset a \<longleftrightarrow> (if port a = 0 then False else ip_isset (ip a))"

definition ip_copy :: "IP \<Rightarrow> IP \<Rightarrow> IP" where
  "ip_copy target source = source"

definition ipport_copy :: "IP_Port \<Rightarrow> IP_Port \<Rightarrow> IP_Port" where
  "ipport_copy target source = source"

subsection \<open>Sending and receiving\<close>

text \<open>The operating system's socket addresses.\<close>

datatype sockaddr =
    Sockaddr_in (sin_port: u16) (sin_addr: bytes)
  | Sockaddr_in6 (sin6_port: u16) (sin6_addr: bytes)
  | Sockaddr_other

text \<open>The socket address \<^verbatim>\<open>send_packet\<close> builds, for a socket of the given family; an IPv4
  destination is mapped for an IPv6 socket.\<close>

definition send_packet_addr :: "byte \<Rightarrow> IP_Port \<Rightarrow> sockaddr option" where
  "send_packet_addr net_family ip_port =
     (if net_family_is_unspec (family (ip ip_port)) then None
      else if net_family_is_unspec net_family then None
      else if net_family_is_ipv4 net_family \<and> \<not> net_family_is_ipv4 (family (ip ip_port)) then None
      else
        let ipp = (if net_family_is_ipv4 (family (ip ip_port)) \<and> net_family_is_ipv6 net_family then
              ip_port\<lparr>ip := \<lparr>family = TOX_AF_INET6,
                addr = host_bytes 4 (0 :: u32) @ host_bytes 4 (0 :: u32) @ host_bytes 4 (net_htonl 0xFFFF)
                  @ host_bytes 4 (v4_uint32 (ip ip_port))\<rparr>\<rparr>
            else ip_port)
        in if net_family_is_ipv4 (family (ip ipp)) then Some (Sockaddr_in (port ipp) (v4 (ip ipp)))
           else if net_family_is_ipv6 (family (ip ipp)) then Some (Sockaddr_in6 (port ipp) (addr (ip ipp)))
           else None)"

definition send_packet :: "(sockaddr \<Rightarrow> bytes \<Rightarrow> int) \<Rightarrow> byte \<Rightarrow> IP_Port \<Rightarrow> bytes \<Rightarrow> int" where
  "send_packet sendto net_family ip_port packet =
     (case send_packet_addr net_family ip_port of None \<Rightarrow> - 1 | Some a \<Rightarrow> sendto a packet)"

definition sendpacket :: "(sockaddr \<Rightarrow> bytes \<Rightarrow> int) \<Rightarrow> byte \<Rightarrow> IP_Port \<Rightarrow> bytes \<Rightarrow> int" where
  "sendpacket sendto net_family ip_port data = send_packet sendto net_family ip_port data"

text \<open>The result of \<^verbatim>\<open>receivepacket\<close> for one call of \<^verbatim>\<open>recvfrom\<close>: \<open>None\<close> stands for its failure
  or an address of another kind.\<close>

definition receivepacket :: "(bytes \<times> sockaddr) option \<Rightarrow> (bytes \<times> IP_Port) option" where
  "receivepacket recvfrom =
     (case recvfrom of
        None \<Rightarrow> None
      | Some (data, Sockaddr_in p a) \<Rightarrow>
          Some (data, \<lparr>ip = \<lparr>family = TOX_AF_INET, addr = set_v4 a (replicate 16 0)\<rparr>, port = p\<rparr>)
      | Some (data, Sockaddr_in6 p a) \<Rightarrow>
          Some (data,
            if ipv6_ipv4_in_v6 a
            then \<lparr>ip = \<lparr>family = TOX_AF_INET, addr = set_v4 (host_bytes 4 (v6_uint32 a 3)) a\<rparr>, port = p\<rparr>
            else \<lparr>ip = \<lparr>family = TOX_AF_INET6, addr = a\<rparr>, port = p\<rparr>)
      | Some (data, Sockaddr_other) \<Rightarrow> None)"

subsection \<open>Local addresses\<close>

definition ip4_is_local :: "bytes \<Rightarrow> bool" where
  "ip4_is_local ip4 \<longleftrightarrow> ip4 ! 0 = 127"

definition ip_is_local :: "IP \<Rightarrow> bool" where
  "ip_is_local a \<longleftrightarrow>
     (if net_family_is_ipv4 (family a) then ip4_is_local (v4 a)
      else if ipv6_ipv4_in_v6 (addr a) then ip4_is_local (host_bytes 4 (v6_uint32 (addr a) 3))
      else v6_uint64 (addr a) 0 = 0 \<and> v6_uint32 (addr a) 2 = 0 \<and> v6_uint32 (addr a) 3 = net_htonl 1)"

definition ip4_is_lan :: "bytes \<Rightarrow> bool" where
  "ip4_is_lan ip4 \<longleftrightarrow>
     (if ip4 ! 0 = 10 then True
      else if ip4 ! 0 = 172 \<and> ip4 ! 1 \<ge> 16 \<and> ip4 ! 1 \<le> 31 then True
      else if ip4 ! 0 = 192 \<and> ip4 ! 1 = 168 then True
      else if ip4 ! 0 = 169 \<and> ip4 ! 1 = 254 \<and> ip4 ! 2 \<noteq> 0 \<and> ip4 ! 2 \<noteq> 255 then True
      else ip4 ! 0 = 100 \<and> ip4 ! 1 AND 0xC0 = 0x40)"

definition ip_is_lan :: "IP \<Rightarrow> bool" where
  "ip_is_lan a \<longleftrightarrow>
     (if ip_is_local a then True
      else if net_family_is_ipv4 (family a) then ip4_is_lan (v4 a)
      else if net_family_is_ipv6 (family a) then
        (if addr a ! 0 = 0xFF \<and> addr a ! 1 < 3 \<and> addr a ! 15 = 1 \<or> addr a ! 0 = 0xFE \<and> addr a ! 1 AND 0xC0 = 0x80
         then True
         else if ipv6_ipv4_in_v6 (addr a) then ip4_is_lan (host_bytes 4 (v6_uint32 (addr a) 3))
         else False)
      else False)"

definition broadcast_ip :: "byte \<Rightarrow> byte \<Rightarrow> IP" where
  "broadcast_ip family_socket family_broadcast =
     (if net_family_is_ipv6 family_socket then
        (if net_family_is_ipv6 family_broadcast then
           \<lparr>family = TOX_AF_INET6, addr = (replicate 16 0)[0 := 0xFF, 1 := 0x02, 15 := 0x01]\<rparr>
         else if net_family_is_ipv4 family_broadcast then
           \<lparr>family = TOX_AF_INET6, addr = replicate 10 0 @ replicate 6 0xff\<rparr>
         else empty_ip)
      else if net_family_is_ipv4 family_socket \<and> net_family_is_ipv4 family_broadcast then
        \<lparr>family = TOX_AF_INET, addr = replicate 4 0xff @ replicate 12 0\<rparr>
      else empty_ip)"

section \<open>Byte order\<close>

lemma pack_lengths [simp]:
  "length (net_pack_u16 a) = 2" "length (net_pack_u32 b) = 4" "length (net_pack_u64 c) = 8"
  by (simp_all add: net_pack_u16_def net_pack_u32_def net_pack_u64_def)

lemma word_masks: "(0xff :: u16) = mask 8" "(0xffff :: u32) = mask 16" "(0xffffffff :: u64) = mask 32"
  by (simp_all add: mask_eq_exp_minus_1)

lemma unpack_pack_u16 [wire_simps]: "net_unpack_u16 (net_pack_u16 v @ rest) = v"
proof (rule bit_word_eqI)
  fix n assume "n < LENGTH(16)"
  then show "bit (net_unpack_u16 (net_pack_u16 v @ rest)) n = bit v n"
    by (cases "n < 8") (auto simp: net_unpack_u16_def net_pack_u16_def word_masks bit_simps bit_beyond)
qed

lemma unpack_pack_u32 [wire_simps]: "net_unpack_u32 (net_pack_u32 v @ rest) = v"
proof (rule bit_word_eqI)
  fix n assume "n < LENGTH(32)"
  then show "bit (net_unpack_u32 (net_pack_u32 v @ rest)) n = bit v n"
    using unpack_pack_u16
    by (cases "n < 16") (auto simp: net_unpack_u32_def net_pack_u32_def word_masks bit_simps bit_beyond)
qed

lemma unpack_pack_u64 [wire_simps]: "net_unpack_u64 (net_pack_u64 v @ rest) = v"
proof (rule bit_word_eqI)
  fix n assume "n < LENGTH(64)"
  then show "bit (net_unpack_u64 (net_pack_u64 v @ rest)) n = bit v n"
    using unpack_pack_u32
    by (cases "n < 32") (auto simp: net_unpack_u64_def net_pack_u64_def word_masks bit_simps bit_beyond)
qed

lemma net_htonl_ffff: "net_htonl 0xffff = host_word [0, 0, 0xff, 0xff]"
proof -
  have "host_bytes 4 (0xffff :: u32) = [0xff, 0xff, 0, 0]"
    by (simp add: host_bytes_def upt_rec)
  then show ?thesis by (simp only: net_htonl_def) simp
qed

section \<open>Mapped addresses\<close>

definition mapped_prefix :: bytes where
  "mapped_prefix = replicate 10 0 @ [0xff, 0xff]"

lemma mapped_prefix_split: "mapped_prefix = replicate 8 0 @ [0, 0, 0xff, 0xff]"
  by (simp add: mapped_prefix_def numeral_eq_Suc)

lemma host_word_zeros: "host_word (replicate n 0) = 0"
  by (induction n) simp_all

lemma in_v6_iff:
  assumes "length a = 16"
  shows "ipv6_ipv4_in_v6 a \<longleftrightarrow> take 12 a = mapped_prefix"
proof -
  have "v6_uint64 a 0 = 0 \<longleftrightarrow> slice 0 8 a = replicate 8 0"
    using assms host_word_inject [of "slice 0 8 a" "replicate 8 0", where 'a = 64]
    by (simp add: v6_uint64_def host_word_zeros)
  moreover have "v6_uint32 a 2 = net_htonl 0xffff \<longleftrightarrow> slice 8 4 a = [0, 0, 0xff, 0xff]"
    using assms host_word_inject [of "slice 8 4 a" "[0, 0, 0xff, 0xff]", where 'a = 32]
    by (simp add: v6_uint32_def net_htonl_ffff)
  moreover have "take 12 a = slice 0 8 a @ slice 8 4 a"
    using assms by (simp add: slice_def take_add [of 8 4 a, simplified])
  ultimately show ?thesis using assms by (simp add: ipv6_ipv4_in_v6_def mapped_prefix_split)
qed

lemma mapped_words:
  "host_bytes 4 (0 :: u32) @ host_bytes 4 (0 :: u32) @ host_bytes 4 (net_htonl 0xFFFF) @ rest = mapped_prefix @ rest"
proof -
  have "host_bytes 4 (0 :: u32) = [0, 0, 0, 0]" by (simp add: host_bytes_def upt_rec)
  moreover have "host_bytes 4 (host_word [0, 0, 0xff, 0xff] :: u32) = [0, 0, 0xff, 0xff]"
    by (rule host_bytes_host_word) simp_all
  ultimately show ?thesis
    by (simp only: net_htonl_ffff) (simp add: mapped_prefix_split numeral_eq_Suc)
qed

lemma received_mapped:
  assumes "length a = 16" "take 12 a = mapped_prefix"
  shows "receivepacket (Some (data, Sockaddr_in6 p a)) =
    Some (data, \<lparr>ip = \<lparr>family = TOX_AF_INET, addr = set_v4 (drop 12 a) a\<rparr>, port = p\<rparr>)"
  using assms by (simp add: receivepacket_def in_v6_iff v6_uint32_def slice_def host_bytes_host_word)

text \<open>The canonical form of an address that can be compared: IPv4-mapped IPv6 addresses are
  IPv4 addresses.\<close>

definition canonical :: "IP \<Rightarrow> (byte \<times> bytes) option" where
  "canonical a =
     (if net_family_is_ipv4 (family a) \<or> net_family_is_tcp_ipv4 (family a) then Some (family a, v4 a)
      else if net_family_is_ipv6 (family a) then
        (if take 12 (addr a) = mapped_prefix then Some (TOX_AF_INET, drop 12 (addr a))
         else Some (family a, addr a))
      else if net_family_is_tcp_ipv6 (family a) then Some (family a, addr a)
      else None)"

definition ip_wf :: "IP \<Rightarrow> bool" where
  "ip_wf a \<longleftrightarrow> length (addr a) = 16"

lemma canonical_tag:
  "canonical a = Some x \<Longrightarrow> fst x = family a \<or> family a = TOX_AF_INET6 \<and> fst x = TOX_AF_INET"
  by (auto simp: canonical_def family_defs split: if_splits)

lemma v4_uint32_eq: "ip_wf a \<Longrightarrow> ip_wf b \<Longrightarrow> v4_uint32 a = v4_uint32 b \<longleftrightarrow> v4 a = v4 b"
  unfolding v4_uint32_def by (rule host_word_inject) (simp_all add: ip_wf_def v4_def)

lemma v4_uint32_embedded: "ip_wf a \<Longrightarrow> ip_wf b \<Longrightarrow> v4_uint32 a = v6_uint32 (addr b) 3 \<longleftrightarrow> v4 a = drop 12 (addr b)"
  using host_word_inject [of "v4 a" "slice 12 4 (addr b)", where 'a = 32]
  by (simp add: v4_uint32_def v6_uint32_def ip_wf_def v4_def slice_def)

lemma v6_words_eq:
  assumes "length a = 16" "length b = 16"
  shows "v6_uint64 a 0 = v6_uint64 b 0 \<and> v6_uint64 a 1 = v6_uint64 b 1 \<longleftrightarrow> a = b"
proof -
  have "v6_uint64 a i = v6_uint64 b i \<longleftrightarrow> slice (8 * i) 8 a = slice (8 * i) 8 b" if "i < 2" for i
    unfolding v6_uint64_def using assms that by (intro host_word_inject) simp_all
  then have "v6_uint64 a 0 = v6_uint64 b 0 \<and> v6_uint64 a 1 = v6_uint64 b 1 \<longleftrightarrow>
      take 8 a = take 8 b \<and> drop 8 a = drop 8 b"
    using assms by (simp add: slice_def)
  also have "\<dots> \<longleftrightarrow> a = b" by (metis append_take_drop_id)
  finally show ?thesis .
qed

lemma ip_equal_iff_canonical:
  assumes "ip_wf a" and "ip_wf b"
  shows "ip_equal a b \<longleftrightarrow> canonical a = canonical b \<and> canonical a \<noteq> None"
proof -
  have len: "length (addr a) = 16" "length (addr b) = 16" using assms by (simp_all add: ip_wf_def)
  have m: "ipv6_ipv4_in_v6 (addr a) \<longleftrightarrow> take 12 (addr a) = mapped_prefix"
    "ipv6_ipv4_in_v6 (addr b) \<longleftrightarrow> take 12 (addr b) = mapped_prefix"
    by (rule in_v6_iff, rule len)+
  have both: "take 12 (addr a) = mapped_prefix \<Longrightarrow> take 12 (addr b) = mapped_prefix \<Longrightarrow>
      drop 12 (addr a) = drop 12 (addr b) \<longleftrightarrow> addr a = addr b"
    by (metis append_take_drop_id)
  have emb: "v6_uint32 (addr a) 3 = v4_uint32 b \<longleftrightarrow> drop 12 (addr a) = v4 b"
    using v4_uint32_embedded [OF assms(2,1)] by metis
  note facts = v4_uint32_eq [OF assms] v4_uint32_embedded [OF assms] emb v6_words_eq [OF len] m both
  show ?thesis
  proof (cases "family a = family b")
    case True
    then show ?thesis
      using facts unfolding ip_equal_def canonical_def family_defs size_defs by auto
  next
    case False
    consider "family a = TOX_AF_INET" "family b = TOX_AF_INET6" | "family a = TOX_AF_INET6" "family b = TOX_AF_INET"
      | "\<not> (family a = TOX_AF_INET \<and> family b = TOX_AF_INET6)" "\<not> (family a = TOX_AF_INET6 \<and> family b = TOX_AF_INET)"
      by blast
    then show ?thesis
    proof cases
      case 3
      then have "\<not> ip_equal a b" using False by (auto simp: ip_equal_def family_defs)
      moreover have "canonical a \<noteq> canonical b \<or> canonical a = None"
        using 3 False canonical_tag [of a] canonical_tag [of b] by (cases "canonical a") fastforce+
      ultimately show ?thesis by auto
    qed (use facts in \<open>simp_all add: ip_equal_def canonical_def family_defs size_defs\<close>)
  qed
qed

section \<open>Properties\<close>

text \<open>C39: Two addresses are equal for \<^verbatim>\<open>ip_equal\<close> exactly if they have the same canonical form, in
  which an IPv4 address and its IPv4-in-IPv6 mapping coincide; addresses of other
  families equal nothing, not even themselves.\<close>

theorem ip_equal_canonical:
  assumes "ip_wf a" and "ip_wf b"
  shows "ip_equal a b \<longleftrightarrow> canonical a = canonical b \<and> canonical a \<noteq> None"
  by (rule ip_equal_iff_canonical [OF assms])

theorem ip_equal_canonical_witness:
  "ip_equal \<lparr>family = TOX_AF_INET, addr = [10, 0, 0, 1] @ replicate 12 9\<rparr>
            \<lparr>family = TOX_AF_INET6, addr = mapped_prefix @ [10, 0, 0, 1]\<rparr>"
proof -
  have wf: "ip_wf \<lparr>family = TOX_AF_INET, addr = [10, 0, 0, 1] @ replicate 12 9\<rparr>"
    "ip_wf \<lparr>family = TOX_AF_INET6, addr = mapped_prefix @ [10, 0, 0, 1]\<rparr>"
    by (simp_all add: ip_wf_def mapped_prefix_def)
  have "take 12 (mapped_prefix @ [10, 0, 0, 1]) = mapped_prefix" "drop 12 (mapped_prefix @ [10, 0, 0, 1]) = [10, 0, 0, 1]"
    by (simp_all add: mapped_prefix_def)
  with ip_equal_canonical [OF wf] show ?thesis
    by (simp add: canonical_def family_defs size_defs v4_def)
qed

text \<open>The big-endian pack functions write 2, 4 and 8 bytes that the unpack functions read
  back, whatever follows in the buffer.\<close>

theorem net_unpack_pack:
  "net_unpack_u16 (net_pack_u16 a @ rest) = a \<and> length (net_pack_u16 a) = 2 \<and>
   net_unpack_u32 (net_pack_u32 b @ rest) = b \<and> length (net_pack_u32 b) = 4 \<and>
   net_unpack_u64 (net_pack_u64 c @ rest) = c \<and> length (net_pack_u64 c) = 8"
  by (simp add: wire_simps)

text \<open>A packet sent to an IPv4 or IPv6 address over an IPv6 socket carries a socket
  address that the receiving code turns back into an equal address and port; a mapped
  IPv4 destination arrives as the IPv4 address.\<close>

theorem send_receive_address:
  assumes "ip_wf (ip dest)" "net_family_is_ipv4 (family (ip dest)) \<or> net_family_is_ipv6 (family (ip dest))"
  shows "\<exists>sa got. send_packet_addr TOX_AF_INET6 dest = Some sa \<and> receivepacket (Some (data, sa)) = Some (data, got) \<and>
    port got = port dest \<and> ip_wf (ip got) \<and> ip_equal (ip got) (ip dest)"
proof -
  have len: "length (addr (ip dest)) = 16" using assms(1) by (simp add: ip_wf_def)
  show ?thesis
  proof (cases "net_family_is_ipv4 (family (ip dest))")
    case True
    define d where "d = v4 (ip dest)"
    have d4: "length d = 4" using len by (simp add: d_def v4_def)
    have hb: "host_bytes 4 (v4_uint32 (ip dest)) = d"
      using d4 by (simp add: v4_uint32_def d_def host_bytes_host_word)
    have "send_packet_addr TOX_AF_INET6 dest = Some (Sockaddr_in6 (port dest) (mapped_prefix @ d))"
      using True by (simp add: send_packet_addr_def family_defs size_defs hb mapped_words)
    moreover have "receivepacket (Some (data, Sockaddr_in6 (port dest) (mapped_prefix @ d))) =
        Some (data, \<lparr>ip = \<lparr>family = TOX_AF_INET, addr = set_v4 d (mapped_prefix @ d)\<rparr>, port = port dest\<rparr>)"
      using received_mapped [of "mapped_prefix @ d"] d4 by (simp add: mapped_prefix_def)
    moreover have "ip_wf \<lparr>family = TOX_AF_INET, addr = set_v4 d (mapped_prefix @ d)\<rparr>"
      "ip_equal \<lparr>family = TOX_AF_INET, addr = set_v4 d (mapped_prefix @ d)\<rparr> (ip dest)"
      using True d4
      by (simp_all add: ip_wf_def ip_equal_def family_defs v4_uint32_def d_def [symmetric] set_v4_def write_at_def
          mapped_prefix_def) (simp add: v4_def)
    ultimately show ?thesis by (intro exI conjI) (assumption | simp)+
  next
    case False
    then have f: "family (ip dest) = TOX_AF_INET6" using assms(2) by (simp add: family_defs)
    let ?a = "addr (ip dest)"
    have dest: "ip_wf (ip dest)" "canonical (ip dest) = (if take 12 ?a = mapped_prefix
        then Some (TOX_AF_INET, drop 12 ?a) else Some (TOX_AF_INET6, ?a))"
      using f len by (simp_all add: ip_wf_def canonical_def family_defs size_defs)
    have sent: "send_packet_addr TOX_AF_INET6 dest = Some (Sockaddr_in6 (port dest) ?a)"
      using f by (simp add: send_packet_addr_def family_defs size_defs)
    define got where "got = (if take 12 ?a = mapped_prefix then \<lparr>family = TOX_AF_INET, addr = set_v4 (drop 12 ?a) ?a\<rparr>
      else \<lparr>family = TOX_AF_INET6, addr = ?a\<rparr>)"
    have "receivepacket (Some (data, Sockaddr_in6 (port dest) ?a)) = Some (data, \<lparr>ip = got, port = port dest\<rparr>)"
      using received_mapped [OF len] by (simp add: got_def) (simp add: receivepacket_def in_v6_iff [OF len])
    moreover have wf: "ip_wf got" using len by (simp add: got_def ip_wf_def set_v4_def write_at_def)
    moreover have "canonical got = canonical (ip dest)"
      using len dest(2) by (simp add: got_def canonical_def family_defs size_defs v4_def set_v4_def write_at_def)
    then have "ip_equal got (ip dest)"
      using ip_equal_iff_canonical [OF wf dest(1)] dest(2) by simp
    ultimately show ?thesis using sent by (intro exI conjI) (assumption | simp)+
  qed
qed

theorem send_receive_address_witness:
  "\<exists>sa got. send_packet_addr TOX_AF_INET6 \<lparr>ip = \<lparr>family = TOX_AF_INET, addr = [10, 0, 0, 1] @ replicate 12 0\<rparr>, port = 5\<rparr> = Some sa \<and>
    receivepacket (Some ([1], sa)) = Some ([1], got) \<and> port got = 5 \<and> ip_wf (ip got) \<and>
    ip_equal (ip got) \<lparr>family = TOX_AF_INET, addr = [10, 0, 0, 1] @ replicate 12 0\<rparr>"
  using send_receive_address [of "\<lparr>ip = \<lparr>family = TOX_AF_INET, addr = [10, 0, 0, 1] @ replicate 12 0\<rparr>, port = 5\<rparr>" "[1]"]
  by (simp add: ip_wf_def family_defs)

end
