(* ===== verification/DHT_Packets.thy ===== *)
theory DHT_Packets
  imports Network
begin

text \<open>
  The packets of \<^verbatim>\<open>toxcore/DHT.c\<close>: the distance between keys, crypto requests, packed
  addresses and nodes. Output buffers are returned; \<open>None\<close> stands for \<open>-1\<close>, the random
  nonce is an argument, and the room in an output buffer is a number.

  Shown here: \<^verbatim>\<open>id_closest\<close> compares XOR distances as numbers, \<^verbatim>\<open>bit_by_bit_cmp\<close> counts the
  common leading bits, and requests, addresses and node lists survive a round trip.
\<close>

section \<open>Definitions\<close>

definition MAX_CRYPTO_REQUEST_SIZE :: nat where [size_defs]: "MAX_CRYPTO_REQUEST_SIZE = 1024"
definition CRYPTO_SIZE :: nat where
  [size_defs]: "CRYPTO_SIZE = 1 + CRYPTO_PUBLIC_KEY_SIZE * 2 + CRYPTO_NONCE_SIZE"
definition PACKED_NODE_SIZE_IP4 :: nat where
  [size_defs]: "PACKED_NODE_SIZE_IP4 = 1 + SIZE_IP4 + 2 + CRYPTO_PUBLIC_KEY_SIZE"
definition PACKED_NODE_SIZE_IP6 :: nat where
  [size_defs]: "PACKED_NODE_SIZE_IP6 = 1 + SIZE_IP6 + 2 + CRYPTO_PUBLIC_KEY_SIZE"
definition NET_PACKET_CRYPTO :: byte where [size_defs]: "NET_PACKET_CRYPTO = 0x20"

record Node_format =
  nf_public_key :: bytes
  nf_ip_port :: IP_Port

subsection \<open>Distance\<close>

fun id_closest_loop :: "bytes \<Rightarrow> bytes \<Rightarrow> bytes \<Rightarrow> int" where
  "id_closest_loop (p # pk) (p1 # pk1) (p2 # pk2) =
     (let distance1 = p XOR p1; distance2 = p XOR p2
      in if distance1 < distance2 then 1
         else if distance1 > distance2 then 2
         else id_closest_loop pk pk1 pk2)"
| "id_closest_loop _ _ _ = 0"

definition id_closest :: "bytes \<Rightarrow> bytes \<Rightarrow> bytes \<Rightarrow> int" where
  "id_closest pk pk1 pk2 =
     id_closest_loop (take CRYPTO_PUBLIC_KEY_SIZE pk) (take CRYPTO_PUBLIC_KEY_SIZE pk1) (take CRYPTO_PUBLIC_KEY_SIZE pk2)"

text \<open>The inner loop of \<^verbatim>\<open>bit_by_bit_cmp\<close>, for \<open>j\<close> counting up from \<open>8 - k\<close>.\<close>

fun first_bit_loop :: "nat \<Rightarrow> byte \<Rightarrow> byte \<Rightarrow> nat" where
  "first_bit_loop 0 a b = 8"
| "first_bit_loop (Suc k) a b =
     (let j = 8 - Suc k; mask = push_bit (7 - j) 1
      in if a AND mask \<noteq> b AND mask then j else first_bit_loop k a b)"

fun bit_by_bit_loop :: "nat \<Rightarrow> bytes \<Rightarrow> bytes \<Rightarrow> nat" where
  "bit_by_bit_loop i (a # pk1) (b # pk2) =
     (if a = b then bit_by_bit_loop (Suc i) pk1 pk2 else i * 8 + first_bit_loop 8 a b)"
| "bit_by_bit_loop i _ _ = i * 8"

definition bit_by_bit_cmp :: "bytes \<Rightarrow> bytes \<Rightarrow> nat" where
  "bit_by_bit_cmp pk1 pk2 =
     bit_by_bit_loop 0 (take CRYPTO_PUBLIC_KEY_SIZE pk1) (take CRYPTO_PUBLIC_KEY_SIZE pk2)"

definition ip_port_normalize :: "IP_Port \<Rightarrow> IP_Port" where
  "ip_port_normalize ip_port =
     (if net_family_is_ipv6 (family (ip ip_port)) \<and> ipv6_ipv4_in_v6 (addr (ip ip_port)) then
        ip_port\<lparr>ip := \<lparr>family = TOX_AF_INET,
          addr = set_v4 (host_bytes 4 (v6_uint32 (addr (ip ip_port)) 3)) (addr (ip ip_port))\<rparr>\<rparr>
      else ip_port)"

subsection \<open>Crypto requests\<close>

definition create_request ::
  "platform \<Rightarrow> bytes \<Rightarrow> bytes \<Rightarrow> bytes \<Rightarrow> bytes \<Rightarrow> bytes \<Rightarrow> bytes \<Rightarrow> byte \<Rightarrow> bytes option" where
  "create_request P stack nonce send_public_key send_secret_key recv_public_key data request_id =
     (if MAX_CRYPTO_REQUEST_SIZE < length data + CRYPTO_SIZE + 1 + CRYPTO_MAC_SIZE then None
      else
        let temp = request_id # data in
        case encrypt_data P stack recv_public_key send_secret_key nonce temp of
          None \<Rightarrow> None
        | Some enc \<Rightarrow>
            Some (NET_PACKET_CRYPTO # take CRYPTO_PUBLIC_KEY_SIZE recv_public_key
                  @ take CRYPTO_PUBLIC_KEY_SIZE send_public_key @ take CRYPTO_NONCE_SIZE nonce @ enc))"

text \<open>The result is the sender's key, the request id and the data.\<close>

definition handle_request ::
  "platform \<Rightarrow> bytes \<Rightarrow> bytes \<Rightarrow> bytes \<Rightarrow> bytes \<Rightarrow> (bytes \<times> byte \<times> bytes) option" where
  "handle_request P stack self_public_key self_secret_key packet =
     (if length packet \<le> CRYPTO_SIZE + CRYPTO_MAC_SIZE \<or> length packet > MAX_CRYPTO_REQUEST_SIZE then None
      else if \<not> pk_equal (drop 1 packet) self_public_key then None
      else
        let public_key = slice (1 + CRYPTO_PUBLIC_KEY_SIZE) CRYPTO_PUBLIC_KEY_SIZE packet;
            nonce = slice (1 + CRYPTO_PUBLIC_KEY_SIZE * 2) CRYPTO_NONCE_SIZE packet
        in case decrypt_data P stack public_key self_secret_key nonce (drop CRYPTO_SIZE packet) of
             None \<Rightarrow> None
           | Some [] \<Rightarrow> None
           | Some (rid # data) \<Rightarrow> Some (public_key, rid, data))"

definition dht_create_packet ::
  "platform \<Rightarrow> bytes \<Rightarrow> bytes \<Rightarrow> bytes option \<Rightarrow> byte \<Rightarrow> bytes \<Rightarrow> nat \<Rightarrow> bytes option" where
  "dht_create_packet P nonce public_key shared_key type plain len =
     (if \<not> malloc_ok P (length plain + CRYPTO_MAC_SIZE) then None
      else case encrypt_data_symmetric P shared_key nonce plain of
          None \<Rightarrow> None
        | Some encrypted \<Rightarrow>
            if len < 1 + CRYPTO_PUBLIC_KEY_SIZE + CRYPTO_NONCE_SIZE + length encrypted then None
            else Some (type # take CRYPTO_PUBLIC_KEY_SIZE public_key @ take CRYPTO_NONCE_SIZE nonce @ encrypted))"

subsection \<open>Addresses and nodes\<close>

definition packed_node_size :: "byte \<Rightarrow> int" where
  "packed_node_size ip_family =
     (if net_family_is_ipv4 ip_family \<or> net_family_is_tcp_ipv4 ip_family then int PACKED_NODE_SIZE_IP4
      else if net_family_is_ipv6 ip_family \<or> net_family_is_tcp_ipv6 ip_family then int PACKED_NODE_SIZE_IP6
      else - 1)"

definition pack_ip_port :: "nat \<Rightarrow> IP_Port \<Rightarrow> bytes option" where
  "pack_ip_port len ip_port =
     (let f = family (ip ip_port);
          kind = (if net_family_is_ipv4 f then Some (True, TOX_AF_INET)
                  else if net_family_is_tcp_ipv4 f then Some (True, TOX_TCP_INET)
                  else if net_family_is_ipv6 f then Some (False, TOX_AF_INET6)
                  else if net_family_is_tcp_ipv6 f then Some (False, TOX_TCP_INET6)
                  else None)
      in case kind of
          None \<Rightarrow> None
        | Some (is_ipv4, fam) \<Rightarrow>
            if is_ipv4 then
              (if 1 + SIZE_IP4 + 2 > len then None
               else Some (fam # take SIZE_IP4 (addr (ip ip_port)) @ host_bytes 2 (port ip_port)))
            else
              (if 1 + SIZE_IP6 + 2 > len then None
               else Some (fam # take SIZE_IP6 (addr (ip ip_port)) @ host_bytes 2 (port ip_port))))"

text \<open>The source reads the family byte before it looks at the length; without a byte the
  model fails. The result is the size and the address.\<close>

definition unpack_ip_port :: "bytes \<Rightarrow> bool \<Rightarrow> (nat \<times> IP_Port) option" where
  "unpack_ip_port data tcp_enabled =
     (case data of
        [] \<Rightarrow> None
      | d # _ \<Rightarrow>
          let kind = (if d = TOX_AF_INET then Some (True, TOX_AF_INET)
                      else if d = TOX_TCP_INET then (if \<not> tcp_enabled then None else Some (True, TCP_INET))
                      else if d = TOX_AF_INET6 then Some (False, TOX_AF_INET6)
                      else if d = TOX_TCP_INET6 then (if \<not> tcp_enabled then None else Some (False, TCP_INET6))
                      else None)
          in case kind of
              None \<Rightarrow> None
            | Some (is_ipv4, host_family) \<Rightarrow>
                if is_ipv4 then
                  (if 1 + SIZE_IP4 + 2 > length data then None
                   else Some (1 + SIZE_IP4 + 2,
                     \<lparr>ip = \<lparr>family = host_family, addr = write_at 0 (slice 1 SIZE_IP4 data) (replicate 16 0)\<rparr>,
                      port = host_word (slice (1 + SIZE_IP4) 2 data)\<rparr>))
                else
                  (if 1 + SIZE_IP6 + 2 > length data then None
                   else Some (1 + SIZE_IP6 + 2,
                     \<lparr>ip = \<lparr>family = host_family, addr = slice 1 SIZE_IP6 data\<rparr>,
                      port = host_word (slice (1 + SIZE_IP6) 2 data)\<rparr>)))"

text \<open>\<open>len\<close> is the room left in the buffer.\<close>

fun pack_nodes :: "nat \<Rightarrow> Node_format list \<Rightarrow> bytes option" where
  "pack_nodes len [] = Some []"
| "pack_nodes len (n # nodes) =
     (if len = 0 then Some []
      else case pack_ip_port len (nf_ip_port n) of
          None \<Rightarrow> None
        | Some ipp \<Rightarrow>
            if length ipp + CRYPTO_PUBLIC_KEY_SIZE > len then None
            else map_option (\<lambda>rest. ipp @ take CRYPTO_PUBLIC_KEY_SIZE (nf_public_key n) @ rest)
                   (pack_nodes (len - (length ipp + CRYPTO_PUBLIC_KEY_SIZE)) nodes))"

text \<open>The result is the list of nodes and the number of bytes processed.\<close>

fun unpack_nodes :: "nat \<Rightarrow> bytes \<Rightarrow> bool \<Rightarrow> (Node_format list \<times> nat) option" where
  "unpack_nodes 0 data tcp_enabled = Some ([], 0)"
| "unpack_nodes (Suc max_num_nodes) data tcp_enabled =
     (if data = [] then Some ([], 0)
      else case unpack_ip_port data tcp_enabled of
          None \<Rightarrow> None
        | Some (ipp_size, ip_port) \<Rightarrow>
            if ipp_size + CRYPTO_PUBLIC_KEY_SIZE > length data then None
            else map_option
                   (\<lambda>(nodes, processed).
                      (\<lparr>nf_public_key = slice ipp_size CRYPTO_PUBLIC_KEY_SIZE data, nf_ip_port = ip_port\<rparr> # nodes,
                       ipp_size + CRYPTO_PUBLIC_KEY_SIZE + processed))
                   (unpack_nodes max_num_nodes (drop (ipp_size + CRYPTO_PUBLIC_KEY_SIZE) data) tcp_enabled))"

section \<open>Distance\<close>

definition xor_bytes :: "bytes \<Rightarrow> bytes \<Rightarrow> bytes" where
  "xor_bytes a b = map2 (XOR) a b"

text \<open>The XOR distance as a number.\<close>

definition key_distance :: "bytes \<Rightarrow> bytes \<Rightarrow> nat" where
  "key_distance a b = be_val (xor_bytes (take 32 a) (take 32 b))"

lemma id_closest_loop_memcmp:
  "length pk = length a \<Longrightarrow> length pk = length b \<Longrightarrow>
   id_closest_loop pk a b =
     (if memcmp (xor_bytes pk a) (xor_bytes pk b) < 0 then 1
      else if memcmp (xor_bytes pk a) (xor_bytes pk b) > 0 then 2 else 0)"
  by (induction pk a b rule: id_closest_loop.induct) (auto simp: xor_bytes_def Let_def)

lemma id_closest_distance:
  assumes "length pk = 32" "length a = 32" "length b = 32"
  shows "id_closest pk a b =
    (if key_distance pk a < key_distance pk b then 1 else if key_distance pk b < key_distance pk a then 2 else 0)"
proof -
  have "length (xor_bytes pk a) = length (xor_bytes pk b)" using assms by (simp add: xor_bytes_def)
  then show ?thesis
    using assms by (simp add: id_closest_def size_defs id_closest_loop_memcmp memcmp_be_val key_distance_def)
qed

lemma xor_bytes_inject:
  assumes "length pk = length a" "length pk = length b" "xor_bytes pk a = xor_bytes pk b"
  shows "a = b"
proof (rule nth_equalityI)
  show "length a = length b" using assms by simp
  fix i assume i: "i < length a"
  have "xor_bytes pk a ! i = pk ! i XOR a ! i" "xor_bytes pk b ! i = pk ! i XOR b ! i"
    using i assms(1,2) by (simp_all add: xor_bytes_def)
  then have "pk ! i XOR a ! i = pk ! i XOR b ! i" using assms(3) by simp
  then show "a ! i = b ! i" by (auto simp: bit_eq_iff bit_simps)
qed

lemma key_distance_inject:
  assumes "length pk = 32" "length a = 32" "length b = 32" "key_distance pk a = key_distance pk b"
  shows "a = b"
proof -
  have "xor_bytes pk a = xor_bytes pk b"
    using assms by (intro be_val_inject) (simp_all add: key_distance_def xor_bytes_def)
  then show ?thesis using xor_bytes_inject assms by metis
qed

text \<open>The bits of a key, most significant first.\<close>

definition key_bit :: "bytes \<Rightarrow> nat \<Rightarrow> bool" where
  "key_bit k n \<longleftrightarrow> bit (k ! (n div 8)) (7 - n mod 8)"

lemma mask_bit_differs: "j < 8 \<Longrightarrow> (a :: byte) AND push_bit j 1 \<noteq> b AND push_bit j 1 \<longleftrightarrow> bit a j \<noteq> bit b j"
proof -
  assume j: "j < 8"
  have "c AND push_bit j 1 = (if bit c j then push_bit j 1 else 0)" for c :: byte
    using j by (intro bit_word_eqI) (auto simp: bit_simps)
  moreover have "push_bit j 1 \<noteq> (0 :: byte)"
  proof
    assume "push_bit j 1 = (0 :: byte)"
    from arg_cong [OF this, of "\<lambda>w. bit w j"] j show False by (simp add: bit_simps)
  qed
  ultimately show ?thesis by simp
qed

lemma first_bit_loop_spec:
  "k \<le> 8 \<Longrightarrow> let j = first_bit_loop k a b in
     8 - k \<le> j \<and> j \<le> 8 \<and> (\<forall>i. 8 - k \<le> i \<longrightarrow> i < j \<longrightarrow> bit a (7 - i) = bit b (7 - i)) \<and>
     (j < 8 \<longrightarrow> bit a (7 - j) \<noteq> bit b (7 - j))"
proof (induction k)
  case (Suc k)
  let ?j = "8 - Suc k"
  have "7 - ?j < 8" by simp
  note m = mask_bit_differs [OF this, of a b]
  show ?case
  proof (cases "bit a (7 - ?j) = bit b (7 - ?j)")
    case False
    with m Suc.prems show ?thesis by (simp add: Let_def)
  next
    case True
    then have eq: "first_bit_loop (Suc k) a b = first_bit_loop k a b" using m by (simp add: Let_def)
    have "8 - k = Suc ?j" using Suc.prems by simp
    then have "bit a (7 - i) = bit b (7 - i)" if "?j \<le> i" "i < first_bit_loop k a b" for i
      using Suc True that by (cases "i = ?j") (auto simp: Let_def)
    with Suc eq show ?thesis by (auto simp: Let_def)
  qed
qed simp

lemma byte_differs: "(a :: byte) \<noteq> b \<Longrightarrow> \<exists>i < 8. bit a (7 - i) \<noteq> bit b (7 - i)"
proof -
  assume "a \<noteq> b"
  then obtain n where n: "n < LENGTH(8)" "bit a n \<noteq> bit b n" by (metis bit_word_eqI)
  then have "7 - (7 - n) = n" by simp
  with n show ?thesis by (intro exI [of _ "7 - n"]) simp
qed

lemma first_bit_of_different:
  assumes "a \<noteq> (b :: byte)"
  shows "first_bit_loop 8 a b < 8" "\<And>i. i < first_bit_loop 8 a b \<Longrightarrow> bit a (7 - i) = bit b (7 - i)"
    "bit a (7 - first_bit_loop 8 a b) \<noteq> bit b (7 - first_bit_loop 8 a b)"
proof -
  note spec = first_bit_loop_spec [of 8 a b, simplified Let_def, simplified]
  show "\<And>i. i < first_bit_loop 8 a b \<Longrightarrow> bit a (7 - i) = bit b (7 - i)" using spec by blast
  show lt: "first_bit_loop 8 a b < 8"
    using spec byte_differs [OF assms] by (metis order_le_less)
  then show "bit a (7 - first_bit_loop 8 a b) \<noteq> bit b (7 - first_bit_loop 8 a b)" using spec by blast
qed

lemma key_bit_Cons: "key_bit (x # xs) n = (if n < 8 then bit x (7 - n) else key_bit xs (n - 8))"
proof (cases "n < 8")
  case False
  then obtain m where "n = m + 8" by (metis add.commute le_Suc_ex not_less)
  moreover have "(m + 8) div 8 = Suc (m div 8)" by (simp add: div_add_self2)
  ultimately show ?thesis by (simp add: key_bit_def)
qed (simp add: key_bit_def)

lemma bit_by_bit_loop_spec:
  "length a = length b \<Longrightarrow> \<exists>r. bit_by_bit_loop i a b = i * 8 + r \<and> r \<le> 8 * length a \<and>
     (\<forall>n < r. key_bit a n = key_bit b n) \<and> (r < 8 * length a \<longrightarrow> key_bit a r \<noteq> key_bit b r)"
proof (induction i a b rule: bit_by_bit_loop.induct)
  case (1 i x a y b)
  show ?case
  proof (cases "x = y")
    case True
    with 1 obtain r where r: "bit_by_bit_loop (Suc i) a b = Suc i * 8 + r" "r \<le> 8 * length a"
      "\<forall>n < r. key_bit a n = key_bit b n" "r < 8 * length a \<longrightarrow> key_bit a r \<noteq> key_bit b r" by auto
    with True show ?thesis by (intro exI [of _ "8 + r"]) (auto simp: key_bit_Cons)
  next
    case False
    note fb = first_bit_of_different [OF False]
    have "key_bit (x # a) n = key_bit (y # b) n" if "n < first_bit_loop 8 x y" for n
      using fb(1,2) that by (simp add: key_bit_Cons)
    with False fb(1,3) show ?thesis
      by (intro exI [of _ "first_bit_loop 8 x y"]) (auto simp: key_bit_Cons)
  qed
qed auto

section \<open>Round trips\<close>

definition node_clean :: "Node_format \<Rightarrow> bool" where
  "node_clean n \<longleftrightarrow> length (nf_public_key n) = 32 \<and> ip_wf (ip (nf_ip_port n)) \<and>
     family (ip (nf_ip_port n)) \<in> {TOX_AF_INET, TCP_INET, TOX_AF_INET6, TCP_INET6} \<and>
     (family (ip (nf_ip_port n)) \<in> {TOX_AF_INET, TCP_INET} \<longrightarrow>
        drop 4 (addr (ip (nf_ip_port n))) = replicate 12 0)"

lemma unpack_pack_ip_port:
  assumes "pack_ip_port len ipp = Some bs" "ip_wf (ip ipp)"
    and "family (ip ipp) \<in> {TOX_AF_INET, TCP_INET} \<Longrightarrow> drop 4 (addr (ip ipp)) = replicate 12 0"
  shows "unpack_ip_port (bs @ rest) True = Some (length bs, ipp)" "length bs \<le> len" "bs \<noteq> []"
proof -
  have len: "length (addr (ip ipp)) = 16" using assms(2) by (simp add: ip_wf_def)
  let ?a = "addr (ip ipp)"
  have v4: "take 4 ?a @ replicate 12 0 = ?a" if "family (ip ipp) \<in> {TOX_AF_INET, TCP_INET}"
    using assms(3) [OF that] by (metis append_take_drop_id)
  obtain f a q where ipp: "ipp = \<lparr>ip = \<lparr>family = f, addr = a\<rparr>, port = q\<rparr>"
    by (metis IP.surjective IP_Port.surjective old.unit.exhaust)
  have "f = TOX_AF_INET \<or> f = TCP_INET \<or> f = TOX_AF_INET6 \<or> f = TCP_INET6"
    using assms(1) by (auto simp: ipp pack_ip_port_def family_defs split: if_splits)
  then show "unpack_ip_port (bs @ rest) True = Some (length bs, ipp)"
    using assms(1) len v4 unfolding ipp
    by (elim disjE)
      (auto simp: pack_ip_port_def unpack_ip_port_def family_defs size_defs slice_def write_at_def
        wire_simps split: if_splits)
  show "length bs \<le> len" "bs \<noteq> []"
    using assms(1) len by (auto simp: pack_ip_port_def family_defs size_defs Let_def split: if_splits)
qed

definition node_udp :: "Node_format \<Rightarrow> bool" where
  "node_udp n \<longleftrightarrow> family (ip (nf_ip_port n)) \<in> {TOX_AF_INET, TOX_AF_INET6}"

lemma unpack_ip_port_udp:
  assumes "pack_ip_port len ipp = Some bs" "family (ip ipp) \<in> {TOX_AF_INET, TOX_AF_INET6}"
  shows "unpack_ip_port (bs @ rest) tcp = unpack_ip_port (bs @ rest) True"
proof -
  have "bs \<noteq> [] \<and> hd bs = family (ip ipp)"
    using assms by (auto simp: pack_ip_port_def family_defs size_defs split: if_splits)
  then show ?thesis using assms(2)
    by (cases bs) (auto simp: unpack_ip_port_def family_defs size_defs)
qed

text \<open>Whatever follows the packed nodes; addresses of TCP relays need \<open>tcp\<close>.\<close>

lemma unpack_pack_nodes_append:
  assumes "pack_nodes len nodes = Some bs" "length bs < len" "\<forall>n \<in> set nodes. node_clean n \<and> (tcp \<or> node_udp n)"
  shows "unpack_nodes (length nodes) (bs @ junk) tcp = Some (nodes, length bs)"
  using assms
proof (induction nodes arbitrary: len bs)
  case (Cons n nodes)
  have clean: "node_clean n" using Cons.prems(3) by simp
  obtain ipp rest where ipp: "pack_ip_port len (nf_ip_port n) = Some ipp"
    and rest: "pack_nodes (len - (length ipp + 32)) nodes = Some rest"
    and bs: "bs = ipp @ nf_public_key n @ rest"
    using Cons.prems(1,2) clean
    by (auto simp: size_defs node_clean_def split: if_splits option.splits)
  note up = unpack_pack_ip_port(1) [OF ipp, where rest = "nf_public_key n @ rest @ junk"] unpack_pack_ip_port(3) [OF ipp]
  have pk: "length (nf_public_key n) = 32" using clean by (simp add: node_clean_def)
  have "unpack_ip_port (bs @ junk) True = Some (length ipp, nf_ip_port n)" "ipp \<noteq> []"
    using up clean bs by (auto simp: node_clean_def)
  then have un: "unpack_ip_port (bs @ junk) tcp = Some (length ipp, nf_ip_port n)" "ipp \<noteq> []"
    using unpack_ip_port_udp [OF ipp, of "nf_public_key n @ rest @ junk" tcp] Cons.prems(3) bs
    by (auto simp: node_udp_def)
  have "length rest < len - (length ipp + 32)" using Cons.prems(2) bs pk by simp
  then have "unpack_nodes (length nodes) (rest @ junk) tcp = Some (nodes, length rest)"
    using Cons.IH [OF rest] Cons.prems(3) by simp
  with un bs pk show ?case by (simp add: size_defs slice_def)
qed simp

lemmas unpack_pack_nodes = unpack_pack_nodes_append [where tcp = True and junk = "[]", simplified]

text \<open>A node takes 39 or 51 bytes, so that a buffer of 52 bytes per node is never full.\<close>

lemma pack_nodes_fits:
  assumes "\<forall>n \<in> set nodes. node_clean n" "52 * length nodes < len"
  shows "\<exists>bs. pack_nodes len nodes = Some bs \<and> 39 * length nodes \<le> length bs \<and> length bs \<le> 51 * length nodes"
  using assms
proof (induction nodes arbitrary: len)
  case (Cons n nodes)
  have n: "length (nf_public_key n) = 32" "length (addr (ip (nf_ip_port n))) = 16"
    "family (ip (nf_ip_port n)) \<in> {TOX_AF_INET, TCP_INET, TOX_AF_INET6, TCP_INET6}"
    using Cons.prems(1) by (auto simp: node_clean_def ip_wf_def)
  then obtain ipp where ipp: "pack_ip_port len (nf_ip_port n) = Some ipp" "length ipp = 7 \<or> length ipp = 19"
    using Cons.prems(2) by (auto simp: pack_ip_port_def family_defs size_defs)
  then have "52 * length nodes < len - (length ipp + 32)" using Cons.prems(2) by auto
  from Cons.IH [OF _ this] Cons.prems(1) obtain bs where
    "pack_nodes (len - (length ipp + 32)) nodes = Some bs" "39 * length nodes \<le> length bs" "length bs \<le> 51 * length nodes" by auto
  with ipp n Cons.prems(2) show ?case by (auto simp: size_defs)
qed simp

text \<open>What a request carries is what its receiver reads, provided the two key pairs agree on
  the shared key.\<close>

lemma handle_created_request:
  assumes "box_platform P"
    and shared: "encrypt_precompute P recv_pk send_sk = Some k" "encrypt_precompute P send_pk recv_sk = Some k"
    and len: "length send_pk = 32" "length recv_pk = 32" "length nonce = 24"
    and fits: "length data + 106 \<le> 1024"
  shows "\<exists>packet. create_request P stack nonce send_pk send_sk recv_pk data rid = Some packet \<and>
    length packet = length data + 106 \<and> handle_request P stack' recv_pk recv_sk packet = Some (send_pk, rid, data)"
proof -
  obtain enc where enc: "encrypt_data_symmetric P (Some k) nonce (rid # data) = Some enc"
    "length enc = length (rid # data) + 16" "decrypt_data_symmetric P (Some k) nonce enc = Some (rid # data)"
    using box_platform.encrypt_decrypt [OF assms(1), of "rid # data" k nonce] by auto
  let ?packet = "NET_PACKET_CRYPTO # recv_pk @ send_pk @ nonce @ enc"
  have "create_request P stack nonce send_pk send_sk recv_pk data rid = Some ?packet"
    using fits len enc(1) shared(1) by (simp add: create_request_def encrypt_data_def size_defs)
  moreover have "handle_request P stack' recv_pk recv_sk ?packet = Some (send_pk, rid, data)"
    using fits len enc shared(2)
    by (simp add: handle_request_def decrypt_data_def size_defs slice_def pk_equal_def memcmp_eq_0 Let_def)
  ultimately show ?thesis using len enc(2) by simp
qed

section \<open>Properties\<close>

text \<open>C28: \<^verbatim>\<open>id_closest\<close> compares the XOR distances of two keys to a third, read as 256-bit
  numbers; the distances are equal only for equal keys.\<close>

theorem id_closest_compares_distance:
  assumes "length pk = CRYPTO_PUBLIC_KEY_SIZE" "length a = CRYPTO_PUBLIC_KEY_SIZE" "length b = CRYPTO_PUBLIC_KEY_SIZE"
  shows "id_closest pk a b =
    (if key_distance pk a < key_distance pk b then 1 else if a = b then 0 else 2)"
proof -
  have len: "length pk = 32" "length a = 32" "length b = 32" using assms by (simp_all add: size_defs)
  show ?thesis
    using id_closest_distance [OF len] key_distance_inject [OF len] by (auto simp: not_less)
qed

theorem id_closest_compares_distance_witness:
  "id_closest (replicate 32 7) (replicate 32 7) (replicate 31 7 @ [6]) =
    (if key_distance (replicate 32 7) (replicate 32 7) < key_distance (replicate 32 7) (replicate 31 7 @ [6]) then 1
     else if replicate 32 7 = replicate 31 7 @ [6 :: byte] then 0 else 2)"
  by (rule id_closest_compares_distance) (simp_all add: size_defs)

text \<open>\<^verbatim>\<open>bit_by_bit_cmp\<close> is the number of leading bits two keys share: all bits before it
  agree and, unless it is 256, the bit at it differs.\<close>

theorem bit_by_bit_cmp_common_prefix:
  assumes "length a = CRYPTO_PUBLIC_KEY_SIZE" "length b = CRYPTO_PUBLIC_KEY_SIZE"
  shows "bit_by_bit_cmp a b \<le> 256 \<and>
    (\<forall>n < bit_by_bit_cmp a b. key_bit a n = key_bit b n) \<and>
    (bit_by_bit_cmp a b < 256 \<longrightarrow> key_bit a (bit_by_bit_cmp a b) \<noteq> key_bit b (bit_by_bit_cmp a b))"
  using bit_by_bit_loop_spec [of a b 0] assms by (auto simp: bit_by_bit_cmp_def size_defs)

theorem bit_by_bit_cmp_common_prefix_witness:
  "bit_by_bit_cmp (replicate 32 7) (3 # replicate 31 7) \<le> 256 \<and>
   key_bit (replicate 32 7) 4 = key_bit (3 # replicate 31 7) 4 \<and>
   key_bit (replicate 32 7) 5 \<noteq> key_bit (3 # replicate 31 7) 5"
proof -
  have c: "bit_by_bit_cmp (replicate 32 7) (3 # replicate 31 7) = 5"
    by code_simp
  show ?thesis
    using bit_by_bit_cmp_common_prefix [of "replicate 32 7" "3 # replicate 31 7"]
    unfolding c by (simp add: size_defs)
qed

text \<open>C29: A request that one side creates and the other handles delivers the sender's key, the
  request id and the data, for all data that fits a request, if the two key pairs agree
  on the shared key.\<close>

theorem request_round_trip:
  assumes "box_platform P"
    and "encrypt_precompute P recv_pk send_sk = Some k" "encrypt_precompute P send_pk recv_sk = Some k"
    and "length send_pk = CRYPTO_PUBLIC_KEY_SIZE" "length recv_pk = CRYPTO_PUBLIC_KEY_SIZE"
      "length nonce = CRYPTO_NONCE_SIZE"
    and "length data + CRYPTO_SIZE + 1 + CRYPTO_MAC_SIZE \<le> MAX_CRYPTO_REQUEST_SIZE"
  shows "\<exists>packet. create_request P stack nonce send_pk send_sk recv_pk data rid = Some packet \<and>
    handle_request P stack' recv_pk recv_sk packet = Some (send_pk, rid, data)"
  using handle_created_request [OF assms(1-3)] assms(4-7) by (fastforce simp: size_defs)

theorem request_round_trip_witness:
  "\<exists>packet. create_request fuzz_platform [] (replicate 24 1) (replicate 32 5) [8] (replicate 32 5) [1, 2, 3] 32 = Some packet \<and>
    handle_request fuzz_platform [] (replicate 32 5) [9] packet = Some (replicate 32 5, 32, [1, 2, 3])"
  by (rule request_round_trip [OF fuzz.box_platform_axioms, where k = "replicate 32 5"])
    (simp_all add: size_defs encrypt_precompute_def fuzz_platform_def)

text \<open>C30: Nodes that fit into a buffer with room to spare are packed and unpacked unchanged, and
  unpacking consumes exactly the packed bytes.\<close>

theorem nodes_round_trip:
  assumes "pack_nodes len nodes = Some bs" "length bs < len" "list_all node_clean nodes"
  shows "unpack_nodes (length nodes) bs True = Some (nodes, length bs)"
  using unpack_pack_nodes [OF assms(1,2)] assms(3) by (simp add: list_all_iff)

definition example_node :: Node_format where
  "example_node = \<lparr>nf_public_key = replicate 32 3, nf_ip_port = \<lparr>ip = \<lparr>family = TOX_AF_INET,
     addr = [10, 0, 0, 1] @ replicate 12 0\<rparr>, port = 99\<rparr>\<rparr>"

theorem nodes_round_trip_witness:
  "\<exists>bs. pack_nodes 100 [example_node] = Some bs \<and> unpack_nodes 1 bs True = Some ([example_node], length bs)"
proof -
  obtain bs where bs: "pack_nodes 100 [example_node] = Some bs" "length bs = 39"
    by (simp add: example_node_def pack_ip_port_def family_defs size_defs)
  have "list_all node_clean [example_node]"
    by (simp add: node_clean_def example_node_def ip_wf_def size_defs)
  with nodes_round_trip [OF bs(1)] bs show ?thesis by simp
qed

end
