(* ===== verification/DHT_Lists.thy ===== *)
theory DHT_Lists
  imports DHT_Packets Mono_Time "HOL-Library.Multiset"
begin

text \<open>
  The client and node lists of \<^verbatim>\<open>toxcore/DHT.c\<close>: lookup, refresh, replacement and the
  selection of the closest nodes. Arrays are lists of their fixed length; \<^verbatim>\<open>UINT32_MAX\<close> for
  "not found" is \<open>None\<close>. The C library's \<^verbatim>\<open>qsort\<close>, whose order of equal elements is
  unspecified, is an argument with its contract as a locale.

  Shown here: \<^verbatim>\<open>add_to_list\<close> terminates and drops a farthest node, \<^verbatim>\<open>get_close_nodes_inner\<close>
  collects the closest eligible clients, and \<^verbatim>\<open>replace_all\<close> never evicts a good client that is
  closer than the new one.
\<close>

section \<open>Definitions\<close>

definition BAD_NODE_TIMEOUT :: u64 where [size_defs]: "BAD_NODE_TIMEOUT = 122"
definition MAX_SENT_NODES :: nat where [size_defs]: "MAX_SENT_NODES = 4"

record IPPTsPng =
  assoc_ip_port :: IP_Port
  timestamp :: u64
  last_pinged :: u64
  ret_ip_port :: IP_Port
  ret_timestamp :: u64
  ret_ip_self :: bool

record Client_data =
  cd_public_key :: bytes
  assoc4 :: IPPTsPng
  assoc6 :: IPPTsPng
  announce_node :: bool

definition empty_ipptspng :: IPPTsPng where
  "empty_ipptspng = \<lparr>assoc_ip_port = empty_ip_port, timestamp = 0, last_pinged = 0,
     ret_ip_port = empty_ip_port, ret_timestamp = 0, ret_ip_self = False\<rparr>"

definition empty_client :: Client_data where
  "empty_client = \<lparr>cd_public_key = replicate 32 0, assoc4 = empty_ipptspng, assoc6 = empty_ipptspng,
     announce_node = False\<rparr>"

definition empty_node_format :: Node_format where
  "empty_node_format = \<lparr>nf_public_key = replicate 32 0, nf_ip_port = empty_ip_port\<rparr>"

definition assoc_timeout :: "u64 \<Rightarrow> IPPTsPng \<Rightarrow> bool" where
  "assoc_timeout now assoc \<longleftrightarrow> timestamp assoc + BAD_NODE_TIMEOUT \<le> now"

definition index_of_client_pk :: "Client_data list \<Rightarrow> bytes \<Rightarrow> nat option" where
  "index_of_client_pk array pk = find_index (\<lambda>c. pk_equal (cd_public_key c) pk) array"

definition index_of_node_pk :: "Node_format list \<Rightarrow> bytes \<Rightarrow> nat option" where
  "index_of_node_pk array pk = find_index (\<lambda>n. pk_equal (nf_public_key n) pk) array"

definition index_of_client_ip_port :: "Client_data list \<Rightarrow> IP_Port \<Rightarrow> nat option" where
  "index_of_client_ip_port array ipp =
     find_index (\<lambda>c. net_family_is_ipv4 (family (ip ipp)) \<and> ipport_equal (assoc_ip_port (assoc4 c)) ipp \<or>
                    net_family_is_ipv6 (family (ip ipp)) \<and> ipport_equal (assoc_ip_port (assoc6 c)) ipp) array"

text \<open>The tail of \<^verbatim>\<open>update_client\<close>, on the association it selected.\<close>

definition refresh_assoc :: "Mono_Time \<Rightarrow> IP_Port \<Rightarrow> IPPTsPng \<Rightarrow> IPPTsPng" where
  "refresh_assoc mt ipp assoc =
     (if \<not> ip_is_lan (ip (assoc_ip_port assoc)) \<and> ip_is_lan (ip ipp) then assoc
      else assoc\<lparr>assoc_ip_port := ipp, timestamp := mono_time_get mt\<rparr>)"

definition update_client :: "Mono_Time \<Rightarrow> Client_data \<Rightarrow> IP_Port \<Rightarrow> Client_data" where
  "update_client mt client ipp =
     (if net_family_is_ipv4 (family (ip ipp)) then client\<lparr>assoc4 := refresh_assoc mt ipp (assoc4 client)\<rparr>
      else if net_family_is_ipv6 (family (ip ipp)) then client\<lparr>assoc6 := refresh_assoc mt ipp (assoc6 client)\<rparr>
      else client)"

text \<open>When only the address is known, the entry gets the new key and the very association
  that matched is cleared, its fresh time stamp included.\<close>

definition client_or_ip_port_in_list ::
  "Mono_Time \<Rightarrow> Client_data list \<Rightarrow> bytes \<Rightarrow> IP_Port \<Rightarrow> bool \<times> Client_data list" where
  "client_or_ip_port_in_list mt list public_key ipp =
     (case index_of_client_pk list public_key of
        Some i \<Rightarrow> (True, list[i := update_client mt (list ! i) ipp])
      | None \<Rightarrow>
          case index_of_client_ip_port list ipp of
            None \<Rightarrow> (False, list)
          | Some i \<Rightarrow>
              let c = (list ! i)\<lparr>cd_public_key := take CRYPTO_PUBLIC_KEY_SIZE public_key\<rparr>
              in (True, list[i := if net_family_is_ipv4 (family (ip ipp)) then c\<lparr>assoc4 := empty_ipptspng\<rparr>
                               else c\<lparr>assoc6 := empty_ipptspng\<rparr>]))"

text \<open>A distance for keys of any length that decreases whenever \<^verbatim>\<open>id_closest\<close> prefers the other
  key; for keys of 32 bytes it is the XOR distance.\<close>

fun pad_xor :: "nat \<Rightarrow> bytes \<Rightarrow> bytes \<Rightarrow> bytes" where
  "pad_xor 0 _ _ = []"
| "pad_xor (Suc n) (p # pk) (a # as) = (p XOR a) # pad_xor n pk as"
| "pad_xor (Suc n) _ _ = replicate (Suc n) 0"

definition dist :: "bytes \<Rightarrow> bytes \<Rightarrow> nat" where
  "dist pk a = be_val (pad_xor 32 pk a)"

lemma length_pad_xor [simp]: "length (pad_xor n pk a) = n"
  by (induction n pk a rule: pad_xor.induct) simp_all

lemma id_closest_2_memcmp:
  "id_closest_loop (take n pk) (take n a) (take n b) = 2 \<Longrightarrow> memcmp (pad_xor n pk b) (pad_xor n pk a) = - 1"
proof (induction n arbitrary: pk a b)
  case (Suc n)
  then show ?case by (cases pk; cases a; cases b) (auto simp: Let_def split: if_splits)
qed simp

lemma id_closest_2_dist: "id_closest pk a b = 2 \<Longrightarrow> dist pk b < dist pk a"
  using id_closest_2_memcmp [of 32 pk a b] memcmp_be_val [of "pad_xor 32 pk b" "pad_xor 32 pk a"]
  by (simp add: id_closest_def dist_def size_defs split: if_splits)

lemma sum_list_update_less:
  "i < length xs \<Longrightarrow> f y < f (xs ! i) \<Longrightarrow> sum_list (map f (xs[i := y])) < (sum_list (map f xs) :: nat)"
proof (induction xs arbitrary: i)
  case (Cons x xs)
  then show ?case by (cases i) auto
qed simp

text \<open>The array is searched from the start again for each displaced node.\<close>

function add_to_list :: "Node_format list \<Rightarrow> bytes \<Rightarrow> IP_Port \<Rightarrow> bytes \<Rightarrow> bool \<times> Node_format list" where
  "add_to_list nodes pk ipp cmp_pk =
     (case find_index (\<lambda>n. id_closest cmp_pk (nf_public_key n) pk = 2) nodes of
        None \<Rightarrow> (False, nodes)
      | Some i \<Rightarrow>
          let bak = nodes ! i;
              nodes = nodes[i := \<lparr>nf_public_key = pk, nf_ip_port = ipp\<rparr>]
          in (True, if i \<noteq> length nodes - 1
                    then snd (add_to_list nodes (nf_public_key bak) (nf_ip_port bak) cmp_pk) else nodes))"
  by pat_completeness auto
termination
  by (relation "measure (\<lambda>(nodes, pk, ipp, cmp_pk). sum_list (map (dist cmp_pk \<circ> nf_public_key) nodes))")
    (auto dest!: find_index_SomeD simp: comp_def intro!: sum_list_update_less id_closest_2_dist)

declare add_to_list.simps [simp del]

subsection \<open>Close nodes\<close>

text \<open>The association of a client that is sent for a family, if the client qualifies.\<close>

definition select_assoc :: "byte \<Rightarrow> Client_data \<Rightarrow> IPPTsPng" where
  "select_assoc sa_family client =
     (if net_family_is_ipv4 sa_family then assoc4 client
      else if net_family_is_ipv6 sa_family then assoc6 client
      else if timestamp (assoc4 client) \<ge> timestamp (assoc6 client) then assoc4 client
      else assoc6 client)"

definition eligible :: "u64 \<Rightarrow> byte \<Rightarrow> bool \<Rightarrow> bool \<Rightarrow> Client_data \<Rightarrow> bool" where
  "eligible now sa_family is_LAN want_announce client \<longleftrightarrow>
     (let ipptp = select_assoc sa_family client in
      if assoc_timeout now ipptp then False
      else if ip_is_lan (ip (assoc_ip_port ipptp)) \<and> \<not> is_LAN then False
      else if want_announce \<and> \<not> announce_node client then False
      else True)"

fun get_close_nodes_loop ::
  "u64 \<Rightarrow> bytes \<Rightarrow> byte \<Rightarrow> bool \<Rightarrow> bool \<Rightarrow> Client_data list \<Rightarrow> Node_format list \<times> nat \<Rightarrow> Node_format list \<times> nat" where
  "get_close_nodes_loop now public_key sa_family is_LAN want_announce [] acc = acc"
| "get_close_nodes_loop now public_key sa_family is_LAN want_announce (client # clients) (nodes_list, num_nodes) =
     get_close_nodes_loop now public_key sa_family is_LAN want_announce clients
       (if index_of_node_pk nodes_list (cd_public_key client) \<noteq> None then (nodes_list, num_nodes)
        else if \<not> eligible now sa_family is_LAN want_announce client then (nodes_list, num_nodes)
        else
          let ipp = assoc_ip_port (select_assoc sa_family client) in
          if num_nodes < MAX_SENT_NODES then
            (nodes_list[num_nodes := \<lparr>nf_public_key = cd_public_key client, nf_ip_port = ipp\<rparr>], num_nodes + 1)
          else (snd (add_to_list nodes_list (cd_public_key client) ipp public_key), num_nodes))"

definition get_close_nodes_inner ::
  "u64 \<Rightarrow> bytes \<Rightarrow> Node_format list \<Rightarrow> byte \<Rightarrow> Client_data list \<Rightarrow> nat \<Rightarrow> bool \<Rightarrow> bool \<Rightarrow> Node_format list \<times> nat" where
  "get_close_nodes_inner now public_key nodes_list sa_family client_list num_nodes is_LAN want_announce =
     (if \<not> net_family_is_ipv4 sa_family \<and> \<not> net_family_is_ipv6 sa_family \<and> \<not> net_family_is_unspec sa_family
      then (nodes_list, num_nodes)
      else get_close_nodes_loop now public_key sa_family is_LAN want_announce client_list (nodes_list, num_nodes))"

lemma get_close_nodes_loop_skip:
  "list_all (\<lambda>c. \<not> eligible now sa_family is_LAN want_announce c) cs \<Longrightarrow>
     get_close_nodes_loop now public_key sa_family is_LAN want_announce (cs @ ds) acc =
     get_close_nodes_loop now public_key sa_family is_LAN want_announce ds acc"
  by (induction cs; cases acc) (auto)

subsection \<open>Replacement\<close>

definition both_timeout :: "u64 \<Rightarrow> Client_data \<Rightarrow> bool" where
  "both_timeout now c \<longleftrightarrow> assoc_timeout now (assoc4 c) \<and> assoc_timeout now (assoc6 c)"

definition dht_cmp_entry :: "u64 \<Rightarrow> bytes \<Rightarrow> Client_data \<Rightarrow> Client_data \<Rightarrow> int" where
  "dht_cmp_entry now cmp_public_key entry1 entry2 =
     (let t1 = both_timeout now entry1; t2 = both_timeout now entry2 in
      if t1 \<and> t2 then 0
      else if t1 then - 1
      else if t2 then 1
      else
        let closest = id_closest cmp_public_key (cd_public_key entry1) (cd_public_key entry2) in
        if closest = 1 then 1 else if closest = 2 then - 1 else 0)"

definition set_announce_node_in_list :: "Client_data list \<Rightarrow> bytes \<Rightarrow> Client_data list" where
  "set_announce_node_in_list list public_key =
     (case index_of_client_pk list public_key of
        None \<Rightarrow> list
      | Some i \<Rightarrow> list[i := (list ! i)\<lparr>announce_node := True\<rparr>])"

definition store_node_ok :: "Client_data \<Rightarrow> u64 \<Rightarrow> bytes \<Rightarrow> bytes \<Rightarrow> bool" where
  "store_node_ok client now public_key comp_public_key \<longleftrightarrow>
     both_timeout now client \<or> id_closest comp_public_key (cd_public_key client) public_key = 2"

type_synonym client_sort = "(Client_data \<Rightarrow> Client_data \<Rightarrow> int) \<Rightarrow> Client_data list \<Rightarrow> Client_data list"

definition sort_client_list :: "platform \<Rightarrow> client_sort \<Rightarrow> Client_data list \<Rightarrow> u64 \<Rightarrow> bytes \<Rightarrow> Client_data list" where
  "sort_client_list P qsort list now comp_public_key =
     (if \<not> malloc_ok P (length list * 248) then list
      else qsort (dht_cmp_entry now comp_public_key) list)"

definition written_assoc :: "Mono_Time \<Rightarrow> IP_Port \<Rightarrow> IPPTsPng \<Rightarrow> IPPTsPng" where
  "written_assoc mt ipp assoc =
     assoc\<lparr>assoc_ip_port := ipp, timestamp := mono_time_get mt, ret_ip_port := empty_ip_port,
       ret_timestamp := 0, ret_ip_self := False\<rparr>"

definition update_client_with_reset :: "Mono_Time \<Rightarrow> Client_data \<Rightarrow> IP_Port \<Rightarrow> Client_data" where
  "update_client_with_reset mt client ipp =
     (if net_family_is_ipv4 (family (ip ipp))
      then client\<lparr>assoc4 := written_assoc mt ipp (assoc4 client), assoc6 := empty_ipptspng\<rparr>
      else client\<lparr>assoc6 := written_assoc mt ipp (assoc6 client), assoc4 := empty_ipptspng\<rparr>)"

text \<open>The lists have at least two entries.\<close>

definition replace_all ::
  "platform \<Rightarrow> client_sort \<Rightarrow> Mono_Time \<Rightarrow> u64 \<Rightarrow> Client_data list \<Rightarrow> bytes \<Rightarrow> IP_Port \<Rightarrow> bytes
     \<Rightarrow> bool \<times> Client_data list" where
  "replace_all P qsort mt now list public_key ipp comp_public_key =
     (if \<not> net_family_is_ipv4 (family (ip ipp)) \<and> \<not> net_family_is_ipv6 (family (ip ipp)) then (False, list)
      else if \<not> store_node_ok (list ! 1) now public_key comp_public_key \<and>
              \<not> store_node_ok (list ! 0) now public_key comp_public_key then (False, list)
      else
        let list = sort_client_list P qsort list now comp_public_key;
            client = (list ! 0)\<lparr>cd_public_key := take CRYPTO_PUBLIC_KEY_SIZE public_key\<rparr>
        in (True, list[0 := update_client_with_reset mt client ipp]))"

definition is_pk_in_client_list :: "Client_data list \<Rightarrow> u64 \<Rightarrow> bytes \<Rightarrow> IP_Port \<Rightarrow> bool" where
  "is_pk_in_client_list list now public_key ipp =
     (case index_of_client_pk list public_key of
        None \<Rightarrow> False
      | Some i \<Rightarrow>
          \<not> assoc_timeout now (if net_family_is_ipv4 (family (ip ipp)) then assoc4 (list ! i) else assoc6 (list ! i)))"

definition update_client_data ::
  "Mono_Time \<Rightarrow> Client_data list \<Rightarrow> IP_Port \<Rightarrow> bytes \<Rightarrow> bool \<Rightarrow> bool \<times> Client_data list" where
  "update_client_data mt array ipp pk node_is_self =
     (case index_of_client_pk array pk of
        None \<Rightarrow> (False, array)
      | Some i \<Rightarrow>
          let data = array ! i;
              upd = (\<lambda>assoc. assoc\<lparr>ret_ip_port := ipp, ret_timestamp := mono_time_get mt, ret_ip_self := node_is_self\<rparr>)
          in if net_family_is_ipv4 (family (ip ipp)) then (True, array[i := data\<lparr>assoc4 := upd (assoc4 data)\<rparr>])
             else if net_family_is_ipv6 (family (ip ipp)) then (True, array[i := data\<lparr>assoc6 := upd (assoc6 data)\<rparr>])
             else (True, array))"

section \<open>Distances\<close>

lemma pad_xor_full: "n \<le> length pk \<Longrightarrow> n \<le> length a \<Longrightarrow> pad_xor n pk a = xor_bytes (take n pk) (take n a)"
proof (induction n arbitrary: pk a)
  case (Suc n)
  then show ?case by (cases pk; cases a) (auto simp: xor_bytes_def)
qed (simp add: xor_bytes_def)

lemma dist_eq: "length pk = 32 \<Longrightarrow> length a = 32 \<Longrightarrow> dist pk a = key_distance pk a"
  by (simp add: dist_def key_distance_def pad_xor_full)

lemma closest_2_iff:
  "length pk = 32 \<Longrightarrow> length a = 32 \<Longrightarrow> length b = 32 \<Longrightarrow> id_closest pk a b = 2 \<longleftrightarrow> dist pk b < dist pk a"
  by (simp add: id_closest_distance dist_eq)

section \<open>Adding to a list of nodes\<close>

definition keys_ok :: "Node_format list \<Rightarrow> bool" where
  "keys_ok nodes \<longleftrightarrow> (\<forall>n \<in> set nodes. length (nf_public_key n) = 32)"

definition node_dist :: "bytes \<Rightarrow> Node_format \<Rightarrow> nat" where
  "node_dist cmp_pk n = dist cmp_pk (nf_public_key n)"

lemma find_farther:
  assumes "length cmp_pk = 32" "length pk = 32" "keys_ok nodes"
  shows "find_index (\<lambda>n. id_closest cmp_pk (nf_public_key n) pk = 2) nodes =
    find_index (\<lambda>n. dist cmp_pk pk < node_dist cmp_pk n) nodes"
  using assms(3)
  by (induction nodes) (simp_all add: closest_2_iff assms(1,2) node_dist_def keys_ok_def)

lemma mset_list_update_add: "i < length xs \<Longrightarrow> mset (xs[i := y]) + {#xs ! i#} = mset xs + {#y#}"
  by (simp add: mset_update)

lemma node_eta: "\<lparr>nf_public_key = nf_public_key n, nf_ip_port = nf_ip_port n\<rparr> = (n :: Node_format)"
  by (cases n) simp

lemma add_to_list_drops_farthest:
  assumes "length cmp_pk = 32" "length pk = 32" "keys_ok nodes" "add_to_list nodes pk ipp cmp_pk = (r, nodes')"
  shows "\<exists>d. mset nodes' + {#d#} = mset nodes + {#\<lparr>nf_public_key = pk, nf_ip_port = ipp\<rparr>#} \<and>
      (\<forall>n \<in> set nodes'. node_dist cmp_pk n \<le> node_dist cmp_pk d)" (is "\<exists>d. ?P nodes pk ipp nodes' d")
    and "r \<longleftrightarrow> (\<exists>n \<in> set nodes. dist cmp_pk pk < node_dist cmp_pk n)"
proof -
  show "\<exists>d. ?P nodes pk ipp nodes' d"
    using assms
  proof (induction nodes pk ipp cmp_pk arbitrary: r nodes' rule: add_to_list.induct)
    case (1 nodes pk ipp cmp_pk)
    let ?new = "\<lparr>nf_public_key = pk, nf_ip_port = ipp\<rparr>"
    note find = find_farther [OF 1(2-4)]
    note step = 1(5)[unfolded add_to_list.simps [of nodes pk ipp cmp_pk] find]
    show ?case
    proof (cases "find_index (\<lambda>n. dist cmp_pk pk < node_dist cmp_pk n) nodes")
      case None
      then have "\<forall>n \<in> set nodes. node_dist cmp_pk n \<le> node_dist cmp_pk ?new"
        by (simp add: node_dist_def not_less)
      moreover have "nodes' = nodes" using None step by (simp del: find_index_None)
      ultimately show ?thesis by blast
    next
      case (Some i)
      note i = find_index_SomeD [OF Some]
      let ?nodes = "nodes[i := ?new]" and ?bak = "nodes ! i"
      have ms: "mset ?nodes + {#?bak#} = mset nodes + {#?new#}"
        using i by (intro mset_list_update_add) simp
      have keys: "keys_ok ?nodes" "length (nf_public_key ?bak) = 32"
        using 1(3,4) i set_update_subset_insert [of nodes i ?new] by (auto simp: keys_ok_def)
      show ?thesis
      proof (cases "i \<noteq> length ?nodes - 1")
        case True
        then have rec: "add_to_list ?nodes (nf_public_key ?bak) (nf_ip_port ?bak) cmp_pk = (fst (add_to_list ?nodes
            (nf_public_key ?bak) (nf_ip_port ?bak) cmp_pk), nodes')"
          using step Some by (simp add: Let_def prod_eq_iff)
        have "find_index (\<lambda>n. id_closest cmp_pk (nf_public_key n) pk = 2) nodes = Some i" using find Some by simp
        from 1(1) [OF this refl refl True 1(2) keys(2,1) rec]
        show ?thesis unfolding ms [symmetric] node_eta .
      next
        case False
        then have "nodes' = ?nodes" using step Some by (simp add: Let_def)
        moreover have "node_dist cmp_pk n \<le> node_dist cmp_pk ?bak" if n: "n \<in> set ?nodes" for n
        proof -
          obtain j where j: "j < length nodes" "n = ?nodes ! j" using n by (auto simp: in_set_conv_nth)
          show ?thesis
          proof (cases "j = i")
            case True
            with i j show ?thesis by (simp add: node_dist_def)
          next
            case neq: False
            then have "j < i" using False j by simp
            with i have "node_dist cmp_pk (nodes ! j) \<le> dist cmp_pk pk" by (simp add: not_less)
            with i j neq show ?thesis by simp
          qed
        qed
        ultimately show ?thesis using ms by blast
      qed
    qed
  qed
  show "r \<longleftrightarrow> (\<exists>n \<in> set nodes. dist cmp_pk pk < node_dist cmp_pk n)"
    using assms(4) find_farther [OF assms(1-3)]
    by (subst (asm) add_to_list.simps)
      (auto simp: Let_def split: option.splits dest!: find_index_SomeD intro: nth_mem)
qed

section \<open>The closest eligible clients\<close>

definition node_of :: "byte \<Rightarrow> Client_data \<Rightarrow> Node_format" where
  "node_of sa_family c = \<lparr>nf_public_key = cd_public_key c, nf_ip_port = assoc_ip_port (select_assoc sa_family c)\<rparr>"

text \<open>The state of the collection after some clients: the collected nodes come from eligible
  clients, each key once, unused entries are zero, and every eligible client that is not collected is
  at least as far as all collected nodes, which are then as many as fit.\<close>

definition collected :: "u64 \<Rightarrow> bytes \<Rightarrow> byte \<Rightarrow> bool \<Rightarrow> bool \<Rightarrow> Client_data set \<Rightarrow> Node_format list \<times> nat \<Rightarrow> bool" where
  "collected now public_key f lan ann seen acc \<longleftrightarrow>
     (let nodes = fst acc; num = snd acc in
      length nodes = MAX_SENT_NODES \<and> num \<le> MAX_SENT_NODES \<and> keys_ok nodes \<and>
      drop num nodes = replicate (MAX_SENT_NODES - num) empty_node_format \<and>
      distinct (map nf_public_key (take num nodes)) \<and>
      (\<forall>n \<in> set (take num nodes). \<exists>c \<in> seen. eligible now f lan ann c \<and> n = node_of f c) \<and>
      (\<forall>c \<in> seen. eligible now f lan ann c \<longrightarrow> cd_public_key c \<notin> nf_public_key ` set (take num nodes) \<longrightarrow>
         num = MAX_SENT_NODES \<and> (\<forall>n \<in> set nodes. node_dist public_key n \<le> dist public_key (cd_public_key c))))"

text \<open>No eligible client has the key of an unused entry.\<close>

definition client_key_ok :: "u64 \<Rightarrow> byte \<Rightarrow> bool \<Rightarrow> bool \<Rightarrow> Client_data \<Rightarrow> bool" where
  "client_key_ok now f lan ann c \<longleftrightarrow>
     length (cd_public_key c) = 32 \<and> (eligible now f lan ann c \<longrightarrow> cd_public_key c \<noteq> replicate 32 0)"

lemma collected_lists:
  "collected now public_key f lan ann seen (nodes, num) \<Longrightarrow>
   set nodes \<subseteq> set (take num nodes) \<union> {empty_node_format}"
  unfolding collected_def Let_def
  by (metis (no_types, lifting) append_take_drop_id fst_conv snd_conv set_append set_replicate_conv_if
      Un_mono empty_subsetI order_refl)

lemma index_of_node_pk_None:
  assumes "keys_ok nodes" "length pk = 32"
  shows "index_of_node_pk nodes pk = None \<longleftrightarrow> pk \<notin> nf_public_key ` set nodes"
  using assms by (auto simp: index_of_node_pk_def keys_ok_def pk_equal_iff)

lemma mset_replaced_set:
  assumes "mset xs' + {#d#} = mset xs + {#y#}"
  shows "set xs' \<subseteq> insert y (set xs)" "length xs' = length xs" "x \<in> insert y (set xs) \<Longrightarrow> x \<in> set xs' \<or> x = d"
proof -
  have m: "set_mset (mset xs' + {#d#}) = set_mset (mset xs + {#y#})" using assms by simp
  then show "set xs' \<subseteq> insert y (set xs)" "x \<in> insert y (set xs) \<Longrightarrow> x \<in> set xs' \<or> x = d" by auto
  have "size (mset xs' + {#d#}) = size (mset xs + {#y#})" using assms by simp
  then show "length xs' = length xs" by simp
qed

lemma distinct_replaced:
  assumes "mset xs' + {#d#} = mset xs + {#y#}" "distinct (map f (y # xs))"
  shows "distinct (map f xs')"
proof -
  have "image_mset f (mset xs') + {#f d#} = image_mset f (mset (y # xs))"
    using arg_cong [OF assms(1), of "image_mset f"] by simp
  then have "mset (f d # map f xs') = mset (map f (y # xs))" by simp
  then have "distinct (f d # map f xs')" using assms(2) by (metis mset_eq_imp_distinct_iff)
  then show ?thesis by simp
qed

text \<open>Adding one more eligible client to a full list.\<close>

lemma collected_full_step:
  assumes col: "collected now public_key f lan ann seen (nodes, MAX_SENT_NODES)"
    and len: "length public_key = 32" and c: "client_key_ok now f lan ann c" "eligible now f lan ann c"
    and new: "index_of_node_pk nodes (cd_public_key c) = None"
    and add: "add_to_list nodes (cd_public_key c) (assoc_ip_port (select_assoc f c)) public_key = (r, nodes')"
  shows "collected now public_key f lan ann (insert c seen) (nodes', MAX_SENT_NODES)"
proof -
  have keys: "keys_ok nodes" and ln: "length nodes = MAX_SENT_NODES"
    using col by (simp_all add: collected_def)
  have ck: "length (cd_public_key c) = 32" using c by (simp add: client_key_ok_def)
  from add_to_list_drops_farthest(1) [OF len ck keys add] obtain d where
    ms: "mset nodes' + {#d#} = mset nodes + {#node_of f c#}" and
    far: "\<forall>n \<in> set nodes'. node_dist public_key n \<le> node_dist public_key d" by (auto simp: node_of_def)
  note repl = mset_replaced_set [OF ms]
  have ln': "length nodes' = MAX_SENT_NODES" using repl(2) ln by simp
  have keys': "keys_ok nodes'"
    using repl(1) keys ck by (auto simp: keys_ok_def node_of_def)
  have "distinct (map nf_public_key (node_of f c # nodes))"
    using new col ln index_of_node_pk_None [OF keys ck] by (simp add: collected_def node_of_def)
  then have dis: "distinct (map nf_public_key nodes')" by (rule distinct_replaced [OF ms])
  have from_seen: "\<exists>e \<in> insert c seen. eligible now f lan ann e \<and> n = node_of f e" if "n \<in> set nodes'" for n
    using repl(1) that col c ln by (auto simp: collected_def)
  have farther: "node_dist public_key n \<le> dist public_key (cd_public_key e)"
    if e: "e \<in> insert c seen" "eligible now f lan ann e" "cd_public_key e \<notin> nf_public_key ` set nodes'"
      and n: "n \<in> set nodes'" for e n
  proof (cases "cd_public_key e \<in> nf_public_key ` insert (node_of f c) (set nodes)")
    case True
    then have "cd_public_key e = nf_public_key d" using repl(3) e(3) by auto
    then show ?thesis using far n by (simp add: node_dist_def)
  next
    case False
    then have "e \<in> seen" using e(1) by (auto simp: node_of_def)
    then have old: "\<forall>m \<in> set nodes. node_dist public_key m \<le> dist public_key (cd_public_key e)"
      using col e(2) False ln by (auto simp: collected_def)
    show ?thesis
    proof (cases "d = node_of f c")
      case True
      then have "mset nodes' = mset nodes" using ms by simp
      then have "set nodes' = set nodes" by (rule mset_eq_setD)
      with old n show ?thesis by blast
    next
      case False
      have "d \<in># mset nodes' + {#d#}" by simp
      then have "d \<in># mset nodes + {#node_of f c#}" unfolding ms .
      then have "node_dist public_key d \<le> dist public_key (cd_public_key e)" using False old by auto
      with far n show ?thesis by (meson order_trans)
    qed
  qed
  show ?thesis
    using ln' keys' dis from_seen farther by (simp add: collected_def)
qed

text \<open>Adding one more eligible client while there is room.\<close>

lemma collected_room_step:
  assumes col: "collected now public_key f lan ann seen (nodes, num)" and "num < MAX_SENT_NODES"
    and c: "client_key_ok now f lan ann c" "eligible now f lan ann c"
    and new: "index_of_node_pk nodes (cd_public_key c) = None"
  shows "collected now public_key f lan ann (insert c seen) (nodes[num := node_of f c], Suc num)"
proof -
  let ?nodes = "nodes[num := node_of f c]"
  have ln: "length nodes = MAX_SENT_NODES" and dr: "drop num nodes = replicate (MAX_SENT_NODES - num) empty_node_format"
    using col by (simp_all add: collected_def)
  have tk: "set (take (Suc num) ?nodes) = insert (node_of f c) (set (take num nodes))"
    using assms(2) ln by (simp add: take_Suc_conv_app_nth)
  have "drop (Suc num) ?nodes = drop 1 (drop num nodes)" by (simp add: drop_drop)
  then have dr': "drop (Suc num) ?nodes = replicate (MAX_SENT_NODES - Suc num) empty_node_format"
    using dr by (simp add: drop_replicate)
  have "cd_public_key c \<notin> nf_public_key ` set (take num nodes)"
    using new index_of_node_pk_None [of nodes "cd_public_key c"] col c set_take_subset [of num nodes]
    by (auto simp: collected_def client_key_ok_def)
  then have dis: "distinct (map nf_public_key (take (Suc num) ?nodes))"
    using col assms(2) ln by (simp add: collected_def take_Suc_conv_app_nth node_of_def)
  have "keys_ok ?nodes"
    using col c set_update_subset_insert [of nodes num "node_of f c"]
    by (auto simp: collected_def keys_ok_def client_key_ok_def node_of_def)
  moreover have "\<exists>e \<in> insert c seen. eligible now f lan ann e \<and> n = node_of f e" if "n \<in> set (take (Suc num) ?nodes)" for n
    using that col c tk by (auto simp: collected_def)
  moreover have "\<not> (e \<in> insert c seen \<and> eligible now f lan ann e \<and> cd_public_key e \<notin> nf_public_key ` set (take (Suc num) ?nodes))" for e
    using col assms(2) tk by (auto simp: collected_def node_of_def)
  ultimately show ?thesis
    using assms(2) ln dr' dis unfolding collected_def Let_def fst_conv snd_conv by (metis (no_types, lifting) Suc_leI length_list_update)
qed

text \<open>A client that is skipped because its key is there already or because it does not qualify.\<close>

lemma collected_skip_step:
  assumes col: "collected now public_key f lan ann seen (nodes, num)" and c: "client_key_ok now f lan ann c"
    and skip: "index_of_node_pk nodes (cd_public_key c) \<noteq> None \<or> \<not> eligible now f lan ann c"
  shows "collected now public_key f lan ann (insert c seen) (nodes, num)"
proof -
  have keys: "keys_ok nodes" using col by (simp add: collected_def)
  have "cd_public_key c \<in> nf_public_key ` set (take num nodes)" if "eligible now f lan ann c"
  proof -
    have "cd_public_key c \<in> nf_public_key ` set nodes"
      using skip that index_of_node_pk_None [OF keys, of "cd_public_key c"] c by (auto simp: client_key_ok_def)
    moreover have "cd_public_key c \<noteq> nf_public_key empty_node_format"
      using c that by (simp add: client_key_ok_def empty_node_format_def)
    ultimately show ?thesis using collected_lists [OF col] by auto
  qed
  then show ?thesis using col unfolding collected_def Let_def by auto
qed

lemma get_close_nodes_loop_collected:
  assumes "length public_key = 32" "\<forall>c \<in> set clients. client_key_ok now f lan ann c"
    and "collected now public_key f lan ann seen acc"
  shows "collected now public_key f lan ann (seen \<union> set clients)
    (get_close_nodes_loop now public_key f lan ann clients acc)"
  using assms(2,3)
proof (induction clients arbitrary: seen acc)
  case (Cons c clients)
  obtain nodes num where acc: "acc = (nodes, num)" by fastforce
  define acc' where "acc' = (if index_of_node_pk nodes (cd_public_key c) \<noteq> None then (nodes, num)
        else if \<not> eligible now f lan ann c then (nodes, num)
        else let ipp = assoc_ip_port (select_assoc f c) in
          if num < MAX_SENT_NODES then (nodes[num := \<lparr>nf_public_key = cd_public_key c, nf_ip_port = ipp\<rparr>], num + 1)
          else (snd (add_to_list nodes (cd_public_key c) ipp public_key), num))"
  have col: "collected now public_key f lan ann seen (nodes, num)" and c: "client_key_ok now f lan ann c"
    using Cons.prems acc by simp_all
  have num: "num \<le> MAX_SENT_NODES" using col by (simp add: collected_def)
  have "collected now public_key f lan ann (insert c seen) acc'"
  proof (cases "index_of_node_pk nodes (cd_public_key c) \<noteq> None \<or> \<not> eligible now f lan ann c")
    case True
    then have "acc' = (nodes, num)" by (auto simp: acc'_def)
    with collected_skip_step [OF col c True] show ?thesis by simp
  next
    case False
    show ?thesis
    proof (cases "num < MAX_SENT_NODES")
      case True
      with False have "acc' = (nodes[num := node_of f c], Suc num)" by (auto simp: acc'_def node_of_def Let_def)
      with collected_room_step [OF col True c(1)] False show ?thesis by simp
    next
      case full: False
      then have n4: "num = MAX_SENT_NODES" using num by simp
      with False have a: "acc' = (snd (add_to_list nodes (cd_public_key c) (assoc_ip_port (select_assoc f c)) public_key),
          MAX_SENT_NODES)" by (auto simp: acc'_def Let_def)
      show ?thesis
        unfolding a using False col n4
        by (intro collected_full_step [OF _ assms(1) c _ _ prod.collapse [symmetric]]) simp_all
    qed
  qed
  from Cons.IH [OF _ this] Cons.prems(1) show ?case by (simp add: acc acc'_def)
qed simp

section \<open>Sorting with the C library\<close>

text \<open>A comparison function as \<^verbatim>\<open>qsort\<close> requires it.\<close>

definition consistent :: "('a \<Rightarrow> 'a \<Rightarrow> int) \<Rightarrow> 'a set \<Rightarrow> bool" where
  "consistent cmp S \<longleftrightarrow>
     (\<forall>a \<in> S. \<forall>b \<in> S. cmp a b \<le> 0 \<or> cmp b a \<le> 0) \<and>
     (\<forall>a \<in> S. \<forall>b \<in> S. \<forall>c \<in> S. cmp a b \<le> 0 \<longrightarrow> cmp b c \<le> 0 \<longrightarrow> cmp a c \<le> 0)"

lemma consistent_subset: "consistent cmp S \<Longrightarrow> T \<subseteq> S \<Longrightarrow> consistent cmp T"
  unfolding consistent_def by (meson subsetD)

lemma consistent_total: "consistent cmp S \<Longrightarrow> a \<in> S \<Longrightarrow> b \<in> S \<Longrightarrow> \<not> cmp a b \<le> 0 \<Longrightarrow> cmp b a \<le> 0"
  unfolding consistent_def by blast

lemma consistent_trans:
  "consistent cmp S \<Longrightarrow> a \<in> S \<Longrightarrow> b \<in> S \<Longrightarrow> c \<in> S \<Longrightarrow> cmp a b \<le> 0 \<Longrightarrow> cmp b c \<le> 0 \<Longrightarrow> cmp a c \<le> 0"
  unfolding consistent_def by blast

text \<open>The contract of \<^verbatim>\<open>qsort\<close>: a permutation in ascending order, equal elements in any order.\<close>

locale qsort_contract =
  fixes qsort :: "('a \<Rightarrow> 'a \<Rightarrow> int) \<Rightarrow> 'a list \<Rightarrow> 'a list"
  assumes qsort_mset: "mset (qsort cmp xs) = mset xs"
    and qsort_sorted: "consistent cmp (set xs) \<Longrightarrow> sorted_wrt (\<lambda>a b. cmp a b \<le> 0) (qsort cmp xs)"
begin

lemma qsort_head:
  assumes "consistent cmp (set xs)" "xs \<noteq> []"
  obtains v rest where "qsort cmp xs = v # rest" "mset xs = add_mset v (mset rest)" "\<forall>c \<in> set rest. cmp v c \<le> 0"
proof -
  have m: "mset (qsort cmp xs) = mset xs" by (rule qsort_mset)
  then obtain v rest where q: "qsort cmp xs = v # rest" using assms(2) by (cases "qsort cmp xs") auto
  with m qsort_sorted [OF assms(1)] show thesis by (intro that [OF q]) auto
qed

end

fun insert_cmp :: "('a \<Rightarrow> 'a \<Rightarrow> int) \<Rightarrow> 'a \<Rightarrow> 'a list \<Rightarrow> 'a list" where
  "insert_cmp cmp x [] = [x]"
| "insert_cmp cmp x (y # ys) = (if cmp x y \<le> 0 then x # y # ys else y # insert_cmp cmp x ys)"

definition insertion_qsort :: "('a \<Rightarrow> 'a \<Rightarrow> int) \<Rightarrow> 'a list \<Rightarrow> 'a list" where
  "insertion_qsort cmp xs = foldr (insert_cmp cmp) xs []"

lemma mset_insert_cmp [simp]: "mset (insert_cmp cmp x ys) = add_mset x (mset ys)"
  by (induction ys) auto

lemma set_insert_cmp [simp]: "set (insert_cmp cmp x ys) = insert x (set ys)"
  by (metis mset_insert_cmp set_mset_add_mset_insert set_mset_mset)

lemma sorted_insert_cmp:
  "consistent cmp (insert x (set ys)) \<Longrightarrow> sorted_wrt (\<lambda>a b. cmp a b \<le> 0) ys \<Longrightarrow>
   sorted_wrt (\<lambda>a b. cmp a b \<le> 0) (insert_cmp cmp x ys)"
proof (induction ys)
  case (Cons y ys)
  have "consistent cmp (insert x (set ys))" using Cons.prems(1) by (rule consistent_subset) auto
  note IH = Cons.IH [OF this]
  show ?case
  proof (cases "cmp x y \<le> 0")
    case True
    have "cmp x z \<le> 0" if z: "z \<in> set ys" for z
      using True z Cons.prems(2) by (intro consistent_trans [OF Cons.prems(1), of x y z]) simp_all
    with True Cons.prems(2) show ?thesis by simp
  next
    case False
    then have "cmp y x \<le> 0" by (intro consistent_total [OF Cons.prems(1)]) simp_all
    with False IH Cons.prems(2) show ?thesis by simp
  qed
qed simp

lemma mset_insertion_qsort [simp]: "mset (insertion_qsort cmp xs) = mset xs"
  by (induction xs) (simp_all add: insertion_qsort_def)

lemma set_insertion_qsort [simp]: "set (insertion_qsort cmp xs) = set xs"
  using mset_insertion_qsort by (rule mset_eq_setD)

lemma sorted_insertion_qsort:
  "consistent cmp (set xs) \<Longrightarrow> sorted_wrt (\<lambda>a b. cmp a b \<le> 0) (insertion_qsort cmp xs)"
proof (induction xs)
  case (Cons x xs)
  have "consistent cmp (set xs)" using Cons.prems by (rule consistent_subset) auto
  with Cons.IH have "sorted_wrt (\<lambda>a b. cmp a b \<le> 0) (insertion_qsort cmp xs)" .
  moreover have "consistent cmp (insert x (set (insertion_qsort cmp xs)))" using Cons.prems by simp
  ultimately have "sorted_wrt (\<lambda>a b. cmp a b \<le> 0) (insert_cmp cmp x (insertion_qsort cmp xs))"
    by (intro sorted_insert_cmp)
  then show ?case by (simp add: insertion_qsort_def)
qed (simp add: insertion_qsort_def)

interpretation iqs: qsort_contract insertion_qsort
  by unfold_locales (simp_all add: sorted_insertion_qsort)

text \<open>The order of \<^verbatim>\<open>dht_cmp_entry\<close>: clients without a live address first, then by falling
  distance.\<close>

definition client_rank :: "u64 \<Rightarrow> bytes \<Rightarrow> Client_data \<Rightarrow> int" where
  "client_rank now pk c = (if both_timeout now c then - 1 - 256 ^ 32 else - int (dist pk (cd_public_key c)))"

lemma dist_bound: "dist pk a < 256 ^ 32"
  using be_val_bound [of "pad_xor 32 pk a"] by (simp add: dist_def)

lemma dht_cmp_entry_rank:
  assumes "length pk = 32" "length (cd_public_key a) = 32" "length (cd_public_key b) = 32"
  shows "dht_cmp_entry now pk a b \<le> 0 \<longleftrightarrow> client_rank now pk a \<le> client_rank now pk b"
proof -
  define N where "N = (256 :: nat) ^ 32"
  have bounds: "dist pk (cd_public_key a) < N" "dist pk (cd_public_key b) < N"
    unfolding N_def by (rule dist_bound)+
  have rank: "client_rank now pk c = (if both_timeout now c then - 1 - int N else - int (dist pk (cd_public_key c)))" for c
    by (simp only: client_rank_def N_def of_nat_power of_nat_numeral)
  have cl: "id_closest pk (cd_public_key a) (cd_public_key b) =
     (if dist pk (cd_public_key a) = dist pk (cd_public_key b) then 0
      else if dist pk (cd_public_key a) < dist pk (cd_public_key b) then 1 else 2)"
    using id_closest_distance [OF assms] assms by (simp add: dist_eq)
  show ?thesis
    unfolding dht_cmp_entry_def rank Let_def cl using bounds
    by (cases "both_timeout now a"; cases "both_timeout now b"; simp)
qed

lemma dht_cmp_entry_consistent:
  assumes "length pk = 32" "\<forall>c \<in> S. length (cd_public_key c) = 32"
  shows "consistent (dht_cmp_entry now pk) S"
  using assms by (auto simp: consistent_def dht_cmp_entry_rank)

section \<open>Replacement keeps the better clients\<close>

lemma store_node_ok_rank:
  assumes "length cpk = 32" "length pk = 32" "length (cd_public_key c) = 32" "length (cd_public_key v) = 32"
    and "store_node_ok c now pk cpk" "client_rank now cpk v \<le> client_rank now cpk c" "\<not> both_timeout now v"
  shows "dist cpk pk < dist cpk (cd_public_key v)"
proof -
  define N where "N = (256 :: nat) ^ 32"
  have b: "dist cpk (cd_public_key v) < N" unfolding N_def by (rule dist_bound)
  have rank: "client_rank now cpk c = (if both_timeout now c then - 1 - int N else - int (dist cpk (cd_public_key c)))" for c
    by (simp only: client_rank_def N_def of_nat_power of_nat_numeral)
  from assms(5) have "both_timeout now c \<or> dist cpk pk < dist cpk (cd_public_key c)"
    by (simp add: store_node_ok_def closest_2_iff assms(1-3))
  with assms(6,7) b show ?thesis by (auto simp: rank split: if_splits)
qed

lemma client_rank_good:
  assumes "client_rank now cpk v \<le> client_rank now cpk c" "\<not> both_timeout now v"
  shows "\<not> both_timeout now c \<and> dist cpk (cd_public_key c) \<le> dist cpk (cd_public_key v)"
proof -
  define N where "N = (256 :: nat) ^ 32"
  have b: "dist cpk (cd_public_key v) < N" unfolding N_def by (rule dist_bound)
  have rank: "client_rank now cpk c = (if both_timeout now c then - 1 - int N else - int (dist cpk (cd_public_key c)))" for c
    by (simp only: client_rank_def N_def of_nat_power of_nat_numeral)
  show ?thesis using assms b by (auto simp: rank split: if_splits)
qed

text \<open>The entry that is overwritten after sorting.\<close>

lemma replace_all_victim:
  assumes "qsort_contract qs" "malloc_ok P (length list * 248)" "length cpk = 32" "length pk = 32"
    and keys: "\<forall>c \<in> set list. length (cd_public_key c) = 32" and len: "2 \<le> length list"
    and repl: "replace_all P qs mt now list pk ipp cpk = (True, list')"
  shows "\<exists>victim rest. mset list = add_mset victim (mset rest) \<and>
     list' = update_client_with_reset mt (victim\<lparr>cd_public_key := pk\<rparr>) ipp # rest \<and>
     (both_timeout now victim \<or>
      key_distance cpk pk < key_distance cpk (cd_public_key victim) \<and>
      (\<forall>c \<in> set rest. \<not> both_timeout now c \<and> key_distance cpk (cd_public_key c) \<le> key_distance cpk (cd_public_key victim)))"
proof -
  let ?cmp = "dht_cmp_entry now cpk"
  have "consistent ?cmp (set list)" using assms(3) keys by (rule dht_cmp_entry_consistent)
  moreover have "list \<noteq> []" using len by auto
  ultimately obtain v rest where q: "qs ?cmp list = v # rest" and ms: "mset list = add_mset v (mset rest)"
    and first: "\<forall>c \<in> set rest. ?cmp v c \<le> 0"
    by (rule qsort_contract.qsort_head [OF assms(1)])
  have set: "set list = insert v (set rest)" using arg_cong [OF ms, of set_mset] by simp
  have rank: "client_rank now cpk v \<le> client_rank now cpk c" if "c \<in> set list" for c
    using that first keys dht_cmp_entry_rank [OF assms(3), of v c now] unfolding set by auto
  have "list' = update_client_with_reset mt (v\<lparr>cd_public_key := pk\<rparr>) ipp # rest"
    using repl q assms(2,4) by (auto simp: replace_all_def sort_client_list_def Let_def size_defs split: if_splits)
  moreover have "key_distance cpk pk < key_distance cpk (cd_public_key v)" if good: "\<not> both_timeout now v"
  proof -
    have "store_node_ok (list ! 1) now pk cpk \<or> store_node_ok (list ! 0) now pk cpk"
      using repl by (auto simp: replace_all_def split: if_splits)
    moreover have "list ! 1 \<in> set list" "list ! 0 \<in> set list" using len by (intro nth_mem, linarith)+
    ultimately obtain c where c: "c \<in> set list" "store_node_ok c now pk cpk" by blast
    have "length (cd_public_key c) = 32" "length (cd_public_key v) = 32" using keys c(1) set by auto
    then show ?thesis
      using store_node_ok_rank [OF assms(3,4) _ _ c(2) rank [OF c(1)] good] assms(3,4) by (simp add: dist_eq)
  qed
  moreover have "\<not> both_timeout now c \<and> key_distance cpk (cd_public_key c) \<le> key_distance cpk (cd_public_key v)"
    if "\<not> both_timeout now v" "c \<in> set rest" for c
    using client_rank_good [OF rank that(1)] that(2) keys set assms(3) by (simp add: dist_eq)
  ultimately show ?thesis using ms by blast
qed

section \<open>Properties\<close>

lemma collected_start: "collected now public_key f lan ann {} (replicate MAX_SENT_NODES empty_node_format, 0)"
  by (simp add: collected_def keys_ok_def empty_node_format_def)

lemma get_close_nodes_inner_closest:
  assumes "length public_key = 32" "list_all (client_key_ok now sa_family is_LAN want_announce) clients"
    and "sa_family \<in> {TOX_AF_INET, TOX_AF_INET6, TOX_AF_UNSPEC}"
    and "get_close_nodes_inner now public_key (replicate MAX_SENT_NODES empty_node_format) sa_family clients 0 is_LAN want_announce
      = (nodes, num)"
  shows "length nodes = MAX_SENT_NODES \<and> num \<le> MAX_SENT_NODES \<and> distinct (map nf_public_key (take num nodes)) \<and>
    (\<forall>n \<in> set (take num nodes). \<exists>c \<in> set clients. eligible now sa_family is_LAN want_announce c \<and> n = node_of sa_family c) \<and>
    (\<forall>c \<in> set clients. eligible now sa_family is_LAN want_announce c \<longrightarrow>
       cd_public_key c \<notin> nf_public_key ` set (take num nodes) \<longrightarrow>
       num = MAX_SENT_NODES \<and>
       (\<forall>n \<in> set nodes. key_distance public_key (nf_public_key n) \<le> key_distance public_key (cd_public_key c)))"
proof -
  have keys: "\<forall>c \<in> set clients. client_key_ok now sa_family is_LAN want_announce c" using assms(2) by (simp add: list_all_iff)
  have loop: "get_close_nodes_loop now public_key sa_family is_LAN want_announce clients
      (replicate MAX_SENT_NODES empty_node_format, 0) = (nodes, num)"
    using assms(3,4) by (auto simp: get_close_nodes_inner_def family_defs split: if_splits)
  have col: "collected now public_key sa_family is_LAN want_announce (set clients) (nodes, num)"
    using get_close_nodes_loop_collected [OF assms(1) keys collected_start] loop
    by simp
  have d: "node_dist public_key n = key_distance public_key (nf_public_key n)" if "n \<in> set nodes" for n
    using that col assms(1) by (simp add: collected_def keys_ok_def node_dist_def dist_eq)
  have d': "dist public_key (cd_public_key c) = key_distance public_key (cd_public_key c)" if "c \<in> set clients" for c
    using that keys assms(1) by (simp add: client_key_ok_def dist_eq)
  show ?thesis using col d d' unfolding collected_def Let_def fst_conv snd_conv by (metis (no_types, lifting))
qed

definition example_client :: "byte \<Rightarrow> u64 \<Rightarrow> Client_data" where
  "example_client k t = \<lparr>cd_public_key = replicate 32 k,
     assoc4 = empty_ipptspng\<lparr>assoc_ip_port := \<lparr>ip = \<lparr>family = TOX_AF_INET, addr = [77, 0, 0, k] @ replicate 12 0\<rparr>, port = 99\<rparr>,
       timestamp := t\<rparr>,
     assoc6 = empty_ipptspng, announce_node = False\<rparr>"

text \<open>C27: \<^verbatim>\<open>add_to_list\<close> gives up exactly one node, and none of the nodes it keeps is farther
  from the reference key than that one; its result says whether the new node is closer
  than some node of the list.\<close>

theorem add_to_list_keeps_closest:
  assumes "length cmp_pk = 32" "length pk = 32" "list_all (\<lambda>n. length (nf_public_key n) = 32) nodes"
    and "add_to_list nodes pk ipp cmp_pk = (r, nodes')"
  shows "(\<exists>d. mset nodes' + {#d#} = mset nodes + {#\<lparr>nf_public_key = pk, nf_ip_port = ipp\<rparr>#} \<and>
      (\<forall>n \<in> set nodes'. key_distance cmp_pk (nf_public_key n) \<le> key_distance cmp_pk (nf_public_key d))) \<and>
    (r \<longleftrightarrow> (\<exists>n \<in> set nodes. key_distance cmp_pk pk < key_distance cmp_pk (nf_public_key n)))"
proof -
  have keys: "keys_ok nodes" using assms(3) by (simp add: keys_ok_def list_all_iff)
  note drops = add_to_list_drops_farthest [OF assms(1,2) keys assms(4)]
  then obtain d where ms: "mset nodes' + {#d#} = mset nodes + {#\<lparr>nf_public_key = pk, nf_ip_port = ipp\<rparr>#}"
    and far: "\<forall>n \<in> set nodes'. node_dist cmp_pk n \<le> node_dist cmp_pk d" by blast
  have all: "set_mset (mset nodes' + {#d#}) = set_mset (mset nodes + {#\<lparr>nf_public_key = pk, nf_ip_port = ipp\<rparr>#})"
    by (rule arg_cong [OF ms])
  have "node_dist cmp_pk n = key_distance cmp_pk (nf_public_key n)"
    if "n = \<lparr>nf_public_key = pk, nf_ip_port = ipp\<rparr> \<or> n \<in> set nodes" for n
    using that keys assms(1,2) by (auto simp: node_dist_def keys_ok_def dist_eq)
  moreover have "n = \<lparr>nf_public_key = pk, nf_ip_port = ipp\<rparr> \<or> n \<in> set nodes" if "n = d \<or> n \<in> set nodes'" for n
    using that all by auto
  ultimately show ?thesis
    using ms far drops(2) dist_eq [OF assms(1,2)] by (intro conjI exI [of _ d]) auto
qed

theorem add_to_list_keeps_closest_witness:
  "(let nodes = map (\<lambda>k. \<lparr>nf_public_key = replicate 32 k, nf_ip_port = empty_ip_port\<rparr>) [1, 5, 3]
    in fst (add_to_list nodes (replicate 32 2) empty_ip_port (replicate 32 0)) \<and>
       (\<exists>n. n \<in> set nodes \<and> key_distance (replicate 32 0) (replicate 32 2) < key_distance (replicate 32 0) (nf_public_key n)))"
proof -
  define nodes where "nodes = map (\<lambda>k. \<lparr>nf_public_key = replicate 32 k, nf_ip_port = empty_ip_port\<rparr>) [1, 5, 3]"
  have k: "list_all (\<lambda>n. length (nf_public_key n) = 32) nodes" by (simp add: nodes_def)
  have "fst (add_to_list nodes (replicate 32 2) empty_ip_port (replicate 32 0))" unfolding nodes_def by code_simp
  then obtain nodes' where "add_to_list nodes (replicate 32 2) empty_ip_port (replicate 32 0) = (True, nodes')"
    by (metis (full_types) prod.collapse)
  from add_to_list_keeps_closest [OF _ _ k this] show ?thesis
    unfolding Let_def nodes_def [symmetric] using \<open>fst _\<close> by auto
qed

text \<open>C19: \<^verbatim>\<open>replace_all\<close> overwrites one entry and keeps all the others; the overwritten entry has
  no live address, or it is farther from the reference key than the new client, and then
  every entry is live and none is farther than the overwritten one.\<close>

theorem replace_all_evicts_worst:
  assumes "qsort_contract qs" "malloc_ok P (length list * 248)" "length cpk = 32" "length pk = 32"
    and "list_all (\<lambda>c. length (cd_public_key c) = 32) list" "2 \<le> length list"
    and "replace_all P qs mt now list pk ipp cpk = (True, list')"
  shows "\<exists>victim rest. mset list = add_mset victim (mset rest) \<and>
     list' = update_client_with_reset mt (victim\<lparr>cd_public_key := pk\<rparr>) ipp # rest \<and>
     (both_timeout now victim \<or>
      key_distance cpk pk < key_distance cpk (cd_public_key victim) \<and>
      (\<forall>c \<in> set rest. \<not> both_timeout now c \<and> key_distance cpk (cd_public_key c) \<le> key_distance cpk (cd_public_key victim)))"
  using replace_all_victim [OF assms(1-4) _ assms(6,7)] assms(5) by (simp add: list_all_iff)

definition example_ipp :: IP_Port where
  "example_ipp = \<lparr>ip = \<lparr>family = TOX_AF_INET, addr = [77, 0, 0, 2] @ replicate 12 0\<rparr>, port = 99\<rparr>"

definition example_time :: Mono_Time where
  "example_time = \<lparr>cur_time = 1000, base_time = 0\<rparr>"

theorem replace_all_evicts_worst_witness:
  "\<exists>list' victim rest. replace_all fuzz_platform insertion_qsort example_time 1000 [example_client 3 1000, example_client 9 1000]
       (replicate 32 2) example_ipp (replicate 32 0) = (True, list') \<and>
     mset [example_client 3 1000, example_client 9 1000] = add_mset victim (mset rest) \<and>
     list' = update_client_with_reset example_time (victim\<lparr>cd_public_key := replicate 32 2\<rparr>) example_ipp # rest"
proof -
  define list where "list = [example_client 3 1000, example_client 9 1000]"
  have "fst (replace_all fuzz_platform insertion_qsort example_time 1000 list (replicate 32 2) example_ipp (replicate 32 0))"
    unfolding list_def by code_simp
  then obtain list' where "replace_all fuzz_platform insertion_qsort example_time 1000 list (replicate 32 2) example_ipp
      (replicate 32 0) = (True, list')"
    by (metis (full_types) prod.collapse)
  moreover have "list_all (\<lambda>c. length (cd_public_key c) = 32) list" "2 \<le> length list"
    by (simp_all add: list_def example_client_def)
  ultimately show ?thesis
    using replace_all_evicts_worst [OF iqs.qsort_contract_axioms malloc_ok_fuzz, of "replicate 32 0" "replicate 32 2" list
      example_time 1000 example_ipp list'] unfolding list_def by (metis length_replicate)
qed

lemma find_index_update_new:
  "find_index P xs = None \<Longrightarrow> i < length xs \<Longrightarrow> P y \<Longrightarrow> find_index P (xs[i := y]) = Some i"
proof (induction xs arbitrary: i)
  case (Cons x xs)
  then show ?case by (cases i) (auto split: if_splits)
qed simp

text \<open>A client that answers from a known address under a new key takes over the entry, but
  its address is not kept: right after \<^verbatim>\<open>client_or_ip_port_in_list\<close> reported success, the list
  has the key and no live address for it.\<close>

theorem known_address_forgets_client:
  assumes "length pk = 32" "index_of_client_pk list pk = None"
    and "client_or_ip_port_in_list mt list pk ipp = (True, list')" and "BAD_NODE_TIMEOUT \<le> now"
  shows "index_of_client_pk list' pk \<noteq> None \<and> \<not> is_pk_in_client_list list' now pk ipp"
proof -
  obtain i where i: "index_of_client_ip_port list ipp = Some i"
    using assms(2,3) by (auto simp: client_or_ip_port_in_list_def split: option.splits)
  define c where "c = (let c = (list ! i)\<lparr>cd_public_key := take CRYPTO_PUBLIC_KEY_SIZE pk\<rparr> in
     if net_family_is_ipv4 (family (ip ipp)) then c\<lparr>assoc4 := empty_ipptspng\<rparr> else c\<lparr>assoc6 := empty_ipptspng\<rparr>)"
  have list': "list' = list[i := c]"
    using assms(2,3) i by (simp add: client_or_ip_port_in_list_def c_def Let_def)
  have il: "i < length list" using i find_index_SomeD unfolding index_of_client_ip_port_def by blast
  have "pk_equal (cd_public_key c) pk" using assms(1) by (simp add: c_def Let_def pk_equal_iff size_defs)
  then have "index_of_client_pk list' pk = Some i"
    using assms(2) il unfolding list' index_of_client_pk_def by (intro find_index_update_new)
  moreover have "assoc_timeout now (if net_family_is_ipv4 (family (ip ipp)) then assoc4 c else assoc6 c)"
    using assms(4) by (simp add: c_def Let_def assoc_timeout_def empty_ipptspng_def)
  ultimately show ?thesis using il by (auto simp: is_pk_in_client_list_def list' split: if_splits)
qed

theorem known_address_forgets_client_witness:
  "\<exists>list'. client_or_ip_port_in_list example_time [example_client 2 1000] (replicate 32 5) example_ipp = (True, list') \<and>
     is_pk_in_client_list [example_client 2 1000] 1000 (replicate 32 2) example_ipp \<and>
     \<not> is_pk_in_client_list list' 1000 (replicate 32 5) example_ipp"
proof -
  have "fst (client_or_ip_port_in_list example_time [example_client 2 1000] (replicate 32 5) example_ipp)" by code_simp
  then obtain list' where l: "client_or_ip_port_in_list example_time [example_client 2 1000] (replicate 32 5) example_ipp = (True, list')"
    by (metis (full_types) prod.collapse)
  have n: "index_of_client_pk [example_client 2 1000] (replicate 32 5) = None" by code_simp
  have "is_pk_in_client_list [example_client 2 1000] 1000 (replicate 32 2) example_ipp" by code_simp
  with known_address_forgets_client [OF _ n l, of 1000] l show ?thesis by (simp add: size_defs)
qed

end
