(* ===== verification/Tox_Random.thy ===== *)
theory Tox_Random
  imports Crypto_Core
begin

text \<open>
  The random source of \<^verbatim>\<open>toxcore/crypto_core.c\<close>. The functions behind \<^verbatim>\<open>Random\<close> belong to the host:
  they are the fields of a record, indexed by the number of values drawn so far, so that
  two draws may differ. The position is the only state.
\<close>

definition CRYPTO_SYMMETRIC_KEY_SIZE :: nat where [size_defs]: "CRYPTO_SYMMETRIC_KEY_SIZE = 32"
definition CRYPTO_HMAC_KEY_SIZE :: nat where [size_defs]: "CRYPTO_HMAC_KEY_SIZE = 32"

record Random =
  r_bytes :: "nat \<Rightarrow> byte"
  r_keypair :: "nat \<Rightarrow> bytes \<times> bytes"
  r_pos :: nat

definition random_bytes :: "Random \<Rightarrow> nat \<Rightarrow> bytes \<times> Random" where
  "random_bytes rng n = (map (r_bytes rng) [r_pos rng..<r_pos rng + n], rng\<lparr>r_pos := r_pos rng + n\<rparr>)"

definition random_u08 :: "Random \<Rightarrow> byte \<times> Random" where
  "random_u08 rng = (case random_bytes rng 1 of (bs, rng') \<Rightarrow> (host_word bs, rng'))"

definition random_u16 :: "Random \<Rightarrow> u16 \<times> Random" where
  "random_u16 rng = (case random_bytes rng 2 of (bs, rng') \<Rightarrow> (host_word bs, rng'))"

definition random_u32 :: "Random \<Rightarrow> u32 \<times> Random" where
  "random_u32 rng = (case random_bytes rng 4 of (bs, rng') \<Rightarrow> (host_word bs, rng'))"

definition random_u64 :: "Random \<Rightarrow> u64 \<times> Random" where
  "random_u64 rng = (case random_bytes rng 8 of (bs, rng') \<Rightarrow> (host_word bs, rng'))"

text \<open>\<open>random_uniform\<close> is the host's function of this name.\<close>

definition random_range_u32 :: "(nat \<Rightarrow> u32 \<Rightarrow> u32) \<Rightarrow> Random \<Rightarrow> u32 \<Rightarrow> u32 \<times> Random" where
  "random_range_u32 random_uniform rng upper_bound = (random_uniform (r_pos rng) upper_bound, rng\<lparr>r_pos := r_pos rng + 1\<rparr>)"

definition random_nonce :: "Random \<Rightarrow> bytes \<times> Random" where
  "random_nonce rng = random_bytes rng CRYPTO_NONCE_SIZE"

definition new_symmetric_key :: "Random \<Rightarrow> bytes \<times> Random" where
  "new_symmetric_key rng = random_bytes rng CRYPTO_SYMMETRIC_KEY_SIZE"

definition new_hmac_key :: "Random \<Rightarrow> bytes \<times> Random" where
  "new_hmac_key rng = random_bytes rng CRYPTO_HMAC_KEY_SIZE"

definition crypto_new_keypair :: "Random \<Rightarrow> (bytes \<times> bytes) \<times> Random" where
  "crypto_new_keypair rng = (r_keypair rng (r_pos rng), rng\<lparr>r_pos := r_pos rng + 1\<rparr>)"

lemma length_random_bytes: "random_bytes rng n = (bs, rng') \<Longrightarrow> length bs = n"
  by (auto simp: random_bytes_def)

lemma length_random_nonce: "random_nonce rng = (bs, rng') \<Longrightarrow> length bs = 24"
  by (auto simp: random_nonce_def size_defs dest: length_random_bytes)

section \<open>Uniform draws\<close>

text \<open>What the callers of \<^verbatim>\<open>random_range_u32\<close> rely on: the result is below a positive bound.\<close>

locale uniform_random =
  fixes uniform :: "nat \<Rightarrow> u32 \<Rightarrow> u32"
  assumes uniform_less: "0 < upper_bound \<Longrightarrow> uniform n upper_bound < upper_bound"
begin

lemma range_less:
  assumes "0 < u" "random_range_u32 uniform r u = (n, r')"
  shows "n < u" "unat n < unat u"
  using assms uniform_less by (auto simp: random_range_u32_def word_less_nat_alt)

end

text \<open>The program's own uniform draw, for NaCl: \<open>draw n\<close> is the \<open>n\<close>-th random 32-bit number.\<close>

definition sys_random_uniform :: "(nat \<Rightarrow> u32) \<Rightarrow> nat \<Rightarrow> u32 \<Rightarrow> u32" where
  "sys_random_uniform draw n upper_bound = (if upper_bound = 0 then 0 else draw n mod upper_bound)"

interpretation sys_random: uniform_random "sys_random_uniform draw"
  by unfold_locales (auto simp: sys_random_uniform_def word_less_nat_alt unat_mod unat_gt_0)

end
