(* ===== verification/DHT_State.thy ===== *)
theory DHT_State
  imports DHT_Lists Ping_Array Shared_Key_Cache Tox_Random "HOL-Library.Sublist"
begin

text \<open>
  The state of \<^verbatim>\<open>toxcore/DHT.c\<close> and what it does with its lists: the buckets of the close list,
  the friends and their clients, \<^verbatim>\<open>addto_lists\<close>, the locks of friends and their addresses.

  The DHT is a record that is passed and returned. Packets handed to \<^verbatim>\<open>sendpacket\<close> and calls of
  registered callbacks are appended to its fields \<open>sent\<close> and \<open>called\<close>; what lies outside
  (allocator, NaCl, \<^verbatim>\<open>qsort\<close>, the socket) is the argument \<open>host\<close>. Function pointers are numbers.
  \<^verbatim>\<open>num_friends\<close> and \<^verbatim>\<open>loaded_num_nodes\<close> are the lengths of their lists.
\<close>

section \<open>Definitions\<close>

definition MAX_FRIEND_CLIENTS :: nat where [size_defs]: "MAX_FRIEND_CLIENTS = 8"
definition LCLIENT_NODES :: nat where [size_defs]: "LCLIENT_NODES = MAX_FRIEND_CLIENTS"
definition LCLIENT_LENGTH :: nat where [size_defs]: "LCLIENT_LENGTH = 128"
definition LCLIENT_LIST :: nat where [size_defs]: "LCLIENT_LIST = LCLIENT_LENGTH * LCLIENT_NODES"
definition DHT_FAKE_FRIEND_NUMBER :: nat where [size_defs]: "DHT_FAKE_FRIEND_NUMBER = 2"
definition MAX_SAVED_DHT_NODES :: nat where
  [size_defs]: "MAX_SAVED_DHT_NODES = ((DHT_FAKE_FRIEND_NUMBER * MAX_FRIEND_CLIENTS) + LCLIENT_LIST) * 2"
definition MAX_CLOSE_TO_BOOTSTRAP_NODES :: nat where [size_defs]: "MAX_CLOSE_TO_BOOTSTRAP_NODES = 8"
definition MAX_TO_PING :: nat where [size_defs]: "MAX_TO_PING = 32"
definition DHT_FRIEND_MAX_LOCKS :: nat where [size_defs]: "DHT_FRIEND_MAX_LOCKS = 32"
definition NET_PACKET_DATA_SEARCH_REQUEST :: byte where [size_defs]: "NET_PACKET_DATA_SEARCH_REQUEST = 0x93"

text \<open>Sizes of C structures on a 64-bit host.\<close>

definition SIZEOF_DHT_Friend :: nat where [size_defs]: "SIZEOF_DHT_Friend = 2992"
definition SIZEOF_Node_format :: nat where [size_defs]: "SIZEOF_Node_format = 64"

record DHT_Friend_Callback =
  ip_callback :: "nat option"
  cb_data :: nat
  cb_number :: u32

record NAT =
  hole_punching :: bool
  punching_index :: u32
  tries :: u32
  punching_index2 :: u32
  punching_timestamp :: u64
  recv_nat_ping_timestamp :: u64
  nat_ping_id :: u64
  nat_ping_timestamp :: u64

record DHT_Friend =
  df_public_key :: bytes
  client_list :: "Client_data list"
  lastgetnode :: u64
  bootstrap_times :: u32
  friend_nat :: NAT
  lock_flags :: u32
  callbacks :: "DHT_Friend_Callback list"
  df_to_bootstrap :: "Node_format list"
  df_num_to_bootstrap :: nat

record Ping =
  ping_array :: Ping_Array
  to_ping :: "Node_format list"
  last_to_ping :: u64

datatype dht_call =
    Ip_callback nat nat u32 IP_Port
  | Get_nodes_response nat Node_format
  | Cryptopacket nat IP_Port bytes bytes

record DHT =
  dht_mono_time :: Mono_Time
  rng :: Random
  net_family :: byte
  sent :: "(IP_Port \<times> bytes) list"
  called :: "dht_call list"
  hole_punching_enabled :: bool
  lan_discovery_enabled :: bool
  close_clientlist :: "Client_data list"
  close_lastgetnodes :: u64
  close_bootstrap_times :: u32
  self_public_key :: bytes
  dht_self_secret_key :: bytes
  friends_list :: "DHT_Friend list"
  loaded_nodes_list :: "Node_format list option"
  loaded_nodes_index :: u32
  shared_keys_recv :: Shared_Key_Cache
  shared_keys_sent :: Shared_Key_Cache
  ping :: Ping
  dht_ping_array :: Ping_Array
  dht_cur_time :: u64
  cryptopackethandlers :: "nat option list"
  to_bootstrap :: "Node_format list"
  num_to_bootstrap :: nat
  get_nodes_response :: "nat option"

record host =
  plat :: platform
  host_qsort :: client_sort
  sendto :: "sockaddr \<Rightarrow> bytes \<Rightarrow> int"
  host_uniform :: "nat \<Rightarrow> u32 \<Rightarrow> u32"

definition empty_callback :: DHT_Friend_Callback where
  "empty_callback = \<lparr>ip_callback = None, cb_data = 0, cb_number = 0\<rparr>"

definition empty_nat :: NAT where
  "empty_nat = \<lparr>hole_punching = False, punching_index = 0, tries = 0, punching_index2 = 0, punching_timestamp = 0,
     recv_nat_ping_timestamp = 0, nat_ping_id = 0, nat_ping_timestamp = 0\<rparr>"

definition empty_dht_friend :: DHT_Friend where
  "empty_dht_friend = \<lparr>df_public_key = replicate 32 0, client_list = replicate MAX_FRIEND_CLIENTS empty_client,
     lastgetnode = 0, bootstrap_times = 0, friend_nat = empty_nat, lock_flags = 0,
     callbacks = replicate DHT_FRIEND_MAX_LOCKS empty_callback,
     df_to_bootstrap = replicate MAX_SENT_NODES empty_node_format, df_num_to_bootstrap = 0\<rparr>"

definition dht_send :: "host \<Rightarrow> DHT \<Rightarrow> IP_Port \<Rightarrow> bytes \<Rightarrow> int \<times> DHT" where
  "dht_send h dht ipp data =
     (sendpacket (sendto h) (net_family dht) ipp data, dht\<lparr>sent := sent dht @ [(ipp, data)]\<rparr>)"

definition dht_get_shared_key_recv :: "host \<Rightarrow> DHT \<Rightarrow> bytes \<Rightarrow> bytes option \<times> DHT" where
  "dht_get_shared_key_recv h dht public_key =
     (case shared_key_cache_lookup (plat h) (dht_mono_time dht) (shared_keys_recv dht) public_key of
        (k, c) \<Rightarrow> (k, dht\<lparr>shared_keys_recv := c\<rparr>))"

definition dht_get_shared_key_sent :: "host \<Rightarrow> DHT \<Rightarrow> bytes \<Rightarrow> bytes option \<times> DHT" where
  "dht_get_shared_key_sent h dht public_key =
     (case shared_key_cache_lookup (plat h) (dht_mono_time dht) (shared_keys_sent dht) public_key of
        (k, c) \<Rightarrow> (k, dht\<lparr>shared_keys_sent := c\<rparr>))"

definition index_of_friend_pk :: "DHT_Friend list \<Rightarrow> bytes \<Rightarrow> nat option" where
  "index_of_friend_pk array pk = find_index (\<lambda>f. pk_equal (df_public_key f) pk) array"

subsection \<open>Close nodes\<close>

fun get_close_nodes_friends ::
  "u64 \<Rightarrow> bytes \<Rightarrow> byte \<Rightarrow> bool \<Rightarrow> bool \<Rightarrow> DHT_Friend list \<Rightarrow> Node_format list \<times> nat \<Rightarrow> Node_format list \<times> nat" where
  "get_close_nodes_friends now public_key sa_family is_LAN want_announce [] acc = acc"
| "get_close_nodes_friends now public_key sa_family is_LAN want_announce (f # fs) (nodes_list, num_nodes) =
     get_close_nodes_friends now public_key sa_family is_LAN want_announce fs
       (get_close_nodes_inner now public_key nodes_list sa_family (client_list f) num_nodes is_LAN want_announce)"

definition get_somewhat_close_nodes ::
  "DHT \<Rightarrow> bytes \<Rightarrow> Node_format list \<Rightarrow> byte \<Rightarrow> bool \<Rightarrow> bool \<Rightarrow> Node_format list \<times> nat" where
  "get_somewhat_close_nodes dht public_key nodes_list sa_family is_LAN want_announce =
     get_close_nodes_friends (dht_cur_time dht) public_key sa_family is_LAN want_announce (friends_list dht)
       (get_close_nodes_inner (dht_cur_time dht) public_key nodes_list sa_family (close_clientlist dht) 0
          is_LAN want_announce)"

definition get_close_nodes :: "DHT \<Rightarrow> bytes \<Rightarrow> byte \<Rightarrow> bool \<Rightarrow> bool \<Rightarrow> Node_format list \<times> nat" where
  "get_close_nodes dht public_key sa_family is_LAN want_announce =
     get_somewhat_close_nodes dht public_key (replicate MAX_SENT_NODES empty_node_format) sa_family is_LAN want_announce"

subsection \<open>Announce nodes\<close>

text \<open>The bucket of the close list for a key.\<close>

definition bucket_of :: "DHT \<Rightarrow> bytes \<Rightarrow> nat" where
  "bucket_of dht public_key =
     (let index = bit_by_bit_cmp public_key (self_public_key dht)
      in if index \<ge> LCLIENT_LENGTH then LCLIENT_LENGTH - 1 else index)"

definition get_close_bucket :: "DHT \<Rightarrow> nat \<Rightarrow> Client_data list" where
  "get_close_bucket dht index = slice (index * LCLIENT_NODES) LCLIENT_NODES (close_clientlist dht)"

definition put_close_bucket :: "DHT \<Rightarrow> nat \<Rightarrow> Client_data list \<Rightarrow> DHT" where
  "put_close_bucket dht index cs =
     dht\<lparr>close_clientlist := write_at (index * LCLIENT_NODES) cs (close_clientlist dht)\<rparr>"

definition set_announce_node :: "DHT \<Rightarrow> bytes \<Rightarrow> DHT" where
  "set_announce_node dht public_key =
     (let index = bucket_of dht public_key;
          dht = put_close_bucket dht index (set_announce_node_in_list (get_close_bucket dht index) public_key)
      in dht\<lparr>friends_list := map (\<lambda>f. f\<lparr>client_list := set_announce_node_in_list (client_list f) public_key\<rparr>)
           (friends_list dht)\<rparr>)"

definition send_announce_ping :: "host \<Rightarrow> DHT \<Rightarrow> bytes \<Rightarrow> IP_Port \<Rightarrow> bool \<times> DHT" where
  "send_announce_ping h dht public_key ipp =
     (let ((plain_key, _), r) = crypto_new_keypair (rng dht);
          (n, r) = random_u64 r;
          (pid, arr) = ping_array_add (plat h) (dht_ping_array dht) (dht_mono_time dht) n
                         (take CRYPTO_PUBLIC_KEY_SIZE public_key);
          plain = take CRYPTO_PUBLIC_KEY_SIZE plain_key @ host_bytes 8 pid;
          (shared_key, dht) = dht_get_shared_key_sent h (dht\<lparr>dht_ping_array := arr\<rparr>) public_key;
          (nonce, r) = random_nonce r;
          dht = dht\<lparr>rng := r\<rparr>;
          size = 1 + CRYPTO_PUBLIC_KEY_SIZE + CRYPTO_NONCE_SIZE + length plain + CRYPTO_MAC_SIZE
      in case dht_create_packet (plat h) nonce (self_public_key dht) shared_key NET_PACKET_DATA_SEARCH_REQUEST
                plain size of
           None \<Rightarrow> (False, dht)
         | Some request \<Rightarrow>
             if length request \<noteq> size then (False, dht)
             else case dht_send h dht ipp request of (n, dht) \<Rightarrow> (n = int size, dht))"

definition handle_data_search_response :: "host \<Rightarrow> DHT \<Rightarrow> IP_Port \<Rightarrow> bytes \<Rightarrow> int \<times> DHT" where
  "handle_data_search_response h dht source packet =
     (let overhead = 1 + CRYPTO_PUBLIC_KEY_SIZE + CRYPTO_NONCE_SIZE + CRYPTO_MAC_SIZE in
      if length packet < overhead + CRYPTO_PUBLIC_KEY_SIZE + 8 then (1, dht)
      else
        let plain_len = length packet - overhead;
            public_key = slice 1 CRYPTO_PUBLIC_KEY_SIZE packet;
            (shared_key, dht) = dht_get_shared_key_recv h dht public_key
        in case decrypt_data_symmetric (plat h) shared_key (slice (1 + CRYPTO_PUBLIC_KEY_SIZE) CRYPTO_NONCE_SIZE packet)
                  (slice (1 + CRYPTO_PUBLIC_KEY_SIZE + CRYPTO_NONCE_SIZE) (plain_len + CRYPTO_MAC_SIZE) packet) of
             None \<Rightarrow> (1, dht)
           | Some plain \<Rightarrow>
               if length plain \<noteq> plain_len then (1, dht)
               else case ping_array_check (dht_ping_array dht) (dht_mono_time dht) CRYPTO_PUBLIC_KEY_SIZE
                           (host_word (drop (plain_len - 8) plain)) of
                   (None, arr) \<Rightarrow> (1, dht\<lparr>dht_ping_array := arr\<rparr>)
                 | (Some ping_data, arr) \<Rightarrow>
                     let dht = dht\<lparr>dht_ping_array := arr\<rparr> in
                     if length ping_data \<noteq> CRYPTO_PUBLIC_KEY_SIZE then (1, dht)
                     else if \<not> pk_equal ping_data public_key then (1, dht)
                     else (0, set_announce_node dht public_key))"

subsection \<open>The close list\<close>

definition add_to_close :: "host \<Rightarrow> DHT \<Rightarrow> bytes \<Rightarrow> IP_Port \<Rightarrow> bool \<Rightarrow> bool \<times> DHT" where
  "add_to_close h dht public_key ipp simulate =
     (let index = bucket_of dht public_key;
          bucket = get_close_bucket dht index
      in case find_index (both_timeout (dht_cur_time dht)) bucket of
           None \<Rightarrow> (False, dht)
         | Some i \<Rightarrow>
             if simulate then (True, dht)
             else
               let client = (bucket ! i)\<lparr>cd_public_key := pk_copy (cd_public_key (bucket ! i)) public_key\<rparr>;
                   client = (update_client_with_reset (dht_mono_time dht) client ipp)\<lparr>announce_node := False\<rparr>
               in (True, snd (send_announce_ping h (put_close_bucket dht index (bucket[i := client])) public_key ipp)))"

definition node_addable_to_close_list :: "host \<Rightarrow> DHT \<Rightarrow> bytes \<Rightarrow> IP_Port \<Rightarrow> bool" where
  "node_addable_to_close_list h dht public_key ipp = fst (add_to_close h dht public_key ipp True)"

definition is_pk_in_close_list :: "DHT \<Rightarrow> bytes \<Rightarrow> IP_Port \<Rightarrow> bool" where
  "is_pk_in_close_list dht public_key ipp =
     is_pk_in_client_list (get_close_bucket dht (bucket_of dht public_key)) (dht_cur_time dht) public_key ipp"

text \<open>One list of nodes to bootstrap from: \<open>cap\<close> entries of which \<open>num\<close> are used.\<close>

definition queue_node ::
  "nat \<Rightarrow> bytes \<Rightarrow> bytes \<Rightarrow> IP_Port \<Rightarrow> Node_format list \<times> nat \<Rightarrow> Node_format list \<times> nat" where
  "queue_node cap cmp_pk public_key ipp q =
     (case q of (nodes, num) \<Rightarrow>
        if num < cap
        then (nodes[num := \<lparr>nf_public_key = take CRYPTO_PUBLIC_KEY_SIZE public_key, nf_ip_port = ipp\<rparr>], num + 1)
        else (snd (add_to_list nodes public_key ipp cmp_pk), num))"

definition ping_node_friend :: "u64 \<Rightarrow> bytes \<Rightarrow> IP_Port \<Rightarrow> DHT_Friend \<Rightarrow> bool \<times> DHT_Friend" where
  "ping_node_friend now public_key ipp f =
     (let store_ok = store_node_ok (client_list f ! 1) now public_key (df_public_key f) \<or>
                     store_node_ok (client_list f ! 0) now public_key (df_public_key f);
          index = index_of_node_pk (take (df_num_to_bootstrap f) (df_to_bootstrap f)) public_key;
          pk_in_list = is_pk_in_client_list (client_list f) now public_key ipp
      in if store_ok \<and> index = None \<and> \<not> pk_in_list then
           case queue_node MAX_SENT_NODES (df_public_key f) public_key ipp (df_to_bootstrap f, df_num_to_bootstrap f) of
             (nodes, num) \<Rightarrow> (True, f\<lparr>df_to_bootstrap := nodes, df_num_to_bootstrap := num\<rparr>)
         else (False, f))"

definition ping_node_from_getnodes_ok :: "host \<Rightarrow> DHT \<Rightarrow> bytes \<Rightarrow> IP_Port \<Rightarrow> bool \<times> DHT" where
  "ping_node_from_getnodes_ok h dht public_key ipp =
     (let ret = fst (add_to_close h dht public_key ipp True);
          index = index_of_node_pk (take (num_to_bootstrap dht) (to_bootstrap dht)) public_key;
          in_close_list = is_pk_in_close_list dht public_key ipp;
          dht = (if ret \<and> index = None \<and> \<not> in_close_list then
                   (case queue_node MAX_CLOSE_TO_BOOTSTRAP_NODES (self_public_key dht) public_key ipp
                           (to_bootstrap dht, num_to_bootstrap dht) of
                      (nodes, num) \<Rightarrow> dht\<lparr>to_bootstrap := nodes, num_to_bootstrap := num\<rparr>)
                 else dht);
          visited = map (ping_node_friend (dht_cur_time dht) public_key ipp) (friends_list dht)
      in (ret \<or> list_ex fst visited, dht\<lparr>friends_list := map snd visited\<rparr>))"

text \<open>A friend's list in \<^verbatim>\<open>addto_lists\<close>: \<^verbatim>\<open>replace_all\<close> runs only if the client is not in the list.\<close>

definition addto_friend :: "host \<Rightarrow> DHT \<Rightarrow> bytes \<Rightarrow> IP_Port \<Rightarrow> DHT_Friend \<Rightarrow> bool \<times> DHT_Friend" where
  "addto_friend h dht public_key ipp f =
     (case client_or_ip_port_in_list (dht_mono_time dht) (client_list f) public_key ipp of
        (True, cl) \<Rightarrow> (True, f\<lparr>client_list := cl\<rparr>)
      | (False, cl) \<Rightarrow>
          case replace_all (plat h) (host_qsort h) (dht_mono_time dht) (dht_cur_time dht) cl public_key ipp (df_public_key f) of
            (r, cl) \<Rightarrow> (r, f\<lparr>client_list := cl\<rparr>))"

text \<open>The result: the friends, how many of them use the client, and the last friend that has the
  client's own key.\<close>

fun addto_friends ::
  "host \<Rightarrow> DHT \<Rightarrow> bytes \<Rightarrow> IP_Port \<Rightarrow> DHT_Friend list \<Rightarrow> nat \<Rightarrow> DHT_Friend option
     \<Rightarrow> DHT_Friend list \<times> nat \<times> DHT_Friend option" where
  "addto_friends h dht public_key ipp [] used found = ([], used, found)"
| "addto_friends h dht public_key ipp (f # fs) used found =
     (case addto_friend h dht public_key ipp f of
        (r, f') \<Rightarrow>
          case addto_friends h dht public_key ipp fs (if r then used + 1 else used)
                 (if r \<and> pk_equal public_key (df_public_key f') then Some f' else found) of
            (fs', res) \<Rightarrow> (f' # fs', res))"

definition friend_calls :: "DHT_Friend \<Rightarrow> IP_Port \<Rightarrow> dht_call list" where
  "friend_calls f ipp =
     concat (map (\<lambda>i. case ip_callback (callbacks f ! i) of
                        None \<Rightarrow> []
                      | Some fn \<Rightarrow>
                          if lock_flags f AND push_bit i 1 > 0
                          then [Ip_callback fn (cb_data (callbacks f ! i)) (cb_number (callbacks f ! i)) ipp] else [])
       [0..<DHT_FRIEND_MAX_LOCKS])"

definition addto_lists :: "host \<Rightarrow> DHT \<Rightarrow> IP_Port \<Rightarrow> bytes \<Rightarrow> nat \<times> DHT" where
  "addto_lists h dht ip_port public_key =
     (let ipp_copy = ip_port_normalize ip_port;
          (in_close_list, cl) = client_or_ip_port_in_list (dht_mono_time dht) (close_clientlist dht) public_key ipp_copy;
          dht = dht\<lparr>close_clientlist := cl\<rparr>;
          (added, dht) = (if in_close_list then (False, dht) else add_to_close h dht public_key ipp_copy False);
          used = (if in_close_list \<or> \<not> added then 1 else 0);
          (fs, used, friend_foundip) = addto_friends h dht public_key ipp_copy (friends_list dht) used None;
          dht = dht\<lparr>friends_list := fs\<rparr>
      in case friend_foundip of
           None \<Rightarrow> (used, dht)
         | Some f \<Rightarrow> (used, dht\<lparr>called := called dht @ friend_calls f ipp_copy\<rparr>))"

text \<open>Only the first friend with the key whose list has the node is updated.\<close>

fun returned_friends :: "Mono_Time \<Rightarrow> IP_Port \<Rightarrow> bytes \<Rightarrow> bytes \<Rightarrow> DHT_Friend list \<Rightarrow> DHT_Friend list" where
  "returned_friends mt ipp public_key nodepublic_key [] = []"
| "returned_friends mt ipp public_key nodepublic_key (f # fs) =
     (if pk_equal public_key (df_public_key f) then
        case update_client_data mt (client_list f) ipp nodepublic_key False of
          (True, cl) \<Rightarrow> f\<lparr>client_list := cl\<rparr> # fs
        | (False, cl) \<Rightarrow> f\<lparr>client_list := cl\<rparr> # returned_friends mt ipp public_key nodepublic_key fs
      else f # returned_friends mt ipp public_key nodepublic_key fs)"

definition returnedip_ports :: "DHT \<Rightarrow> IP_Port \<Rightarrow> bytes \<Rightarrow> bytes \<Rightarrow> DHT" where
  "returnedip_ports dht ip_port public_key nodepublic_key =
     (let ipp_copy = ip_port_normalize ip_port in
      if pk_equal public_key (self_public_key dht)
      then dht\<lparr>close_clientlist := snd (update_client_data (dht_mono_time dht) (close_clientlist dht) ipp_copy nodepublic_key True)\<rparr>
      else dht\<lparr>friends_list := returned_friends (dht_mono_time dht) ipp_copy public_key nodepublic_key (friends_list dht)\<rparr>)"

subsection \<open>Friends\<close>

text \<open>The result is the lock token, 0 if all locks are taken.\<close>

definition dht_friend_lock :: "DHT_Friend \<Rightarrow> nat option \<Rightarrow> nat \<Rightarrow> u32 \<Rightarrow> u32 \<times> DHT_Friend" where
  "dht_friend_lock f cb data number =
     (case find_index (\<lambda>n. lock_flags f AND push_bit n 1 = 0) [0..<DHT_FRIEND_MAX_LOCKS] of
        None \<Rightarrow> (0, f)
      | Some lock_num \<Rightarrow>
          let lock_token = push_bit lock_num 1
          in (lock_token, f\<lparr>lock_flags := lock_flags f OR lock_token,
                callbacks := (callbacks f)[lock_num := \<lparr>ip_callback = cb, cb_data = data, cb_number = number\<rparr>]\<rparr>))"

text \<open>\<open>None\<close> is the failed assertion.\<close>

definition dht_friend_unlock :: "DHT_Friend \<Rightarrow> u32 \<Rightarrow> DHT_Friend option" where
  "dht_friend_unlock f lock_token =
     (if \<not> lock_token AND lock_flags f > 0 then None
      else case find_index (\<lambda>n. push_bit n 1 AND lock_token > 0) [0..<DHT_FRIEND_MAX_LOCKS] of
          None \<Rightarrow> Some f
        | Some lock_num \<Rightarrow>
            Some (f\<lparr>lock_flags := lock_flags f AND NOT lock_token,
                    callbacks := (callbacks f)[lock_num := empty_callback]\<rparr>))"

text \<open>The second component is what is written to \<^verbatim>\<open>*lock_token\<close>, if anything.\<close>

definition dht_addfriend ::
  "host \<Rightarrow> DHT \<Rightarrow> bytes \<Rightarrow> nat option \<Rightarrow> nat \<Rightarrow> u32 \<Rightarrow> int \<times> u32 option \<times> DHT" where
  "dht_addfriend h dht public_key cb data number =
     (case index_of_friend_pk (friends_list dht) public_key of
        Some friend_num \<Rightarrow>
          (case dht_friend_lock (friends_list dht ! friend_num) cb data number of
             (tok, f) \<Rightarrow>
               if tok = 0 then (- 1, None, dht)
               else (0, None, dht\<lparr>friends_list := (friends_list dht)[friend_num := f]\<rparr>))
      | None \<Rightarrow>
          if \<not> malloc_ok (plat h) (SIZEOF_DHT_Friend * (length (friends_list dht) + 1)) then (- 1, None, dht)
          else
            let (n, r) = random_u64 (rng dht);
                f = empty_dht_friend\<lparr>df_public_key := take CRYPTO_PUBLIC_KEY_SIZE public_key,
                      friend_nat := empty_nat\<lparr>nat_ping_id := n\<rparr>\<rparr>;
                (tok, f) = dht_friend_lock f cb data number;
                dht = dht\<lparr>rng := r, friends_list := friends_list dht @ [f]\<rparr>;
                (nodes, num) = get_close_nodes dht (df_public_key f) TOX_AF_UNSPEC True False;
                f = f\<lparr>df_to_bootstrap := nodes, df_num_to_bootstrap := num\<rparr>
            in (0, Some tok, dht\<lparr>friends_list := butlast (friends_list dht) @ [f]\<rparr>))"

text \<open>\<open>None\<close> is the failed assertion of \<^verbatim>\<open>dht_friend_unlock\<close>; the last friend takes the place of
  the removed one.\<close>

definition dht_delfriend :: "host \<Rightarrow> DHT \<Rightarrow> bytes \<Rightarrow> u32 \<Rightarrow> (int \<times> DHT) option" where
  "dht_delfriend h dht public_key lock_token =
     (case index_of_friend_pk (friends_list dht) public_key of
        None \<Rightarrow> Some (- 1, dht)
      | Some friend_num \<Rightarrow>
          case dht_friend_unlock (friends_list dht ! friend_num) lock_token of
            None \<Rightarrow> None
          | Some f \<Rightarrow>
              let fs = (friends_list dht)[friend_num := f] in
              if lock_flags f > 0 then Some (0, dht\<lparr>friends_list := fs\<rparr>)
              else
                let num_friends = length fs - 1;
                    fs = take num_friends (if num_friends \<noteq> friend_num then fs[friend_num := fs ! num_friends] else fs);
                    dht = dht\<lparr>friends_list := fs\<rparr>
                in if num_friends = 0 then Some (0, dht)
                   else if \<not> malloc_ok (plat h) (SIZEOF_DHT_Friend * num_friends) then Some (- 1, dht)
                   else Some (0, dht))"

definition dht_getfriendip :: "DHT \<Rightarrow> bytes \<Rightarrow> int \<times> IP_Port" where
  "dht_getfriendip dht public_key =
     (case index_of_friend_pk (friends_list dht) public_key of
        None \<Rightarrow> (- 1, empty_ip_port)
      | Some friend_index \<Rightarrow>
          let frnd = friends_list dht ! friend_index in
          case index_of_client_pk (client_list frnd) public_key of
            None \<Rightarrow> (0, empty_ip_port)
          | Some client_index \<Rightarrow>
              let client = client_list frnd ! client_index in
              if \<not> assoc_timeout (dht_cur_time dht) (assoc6 client) then (1, assoc_ip_port (assoc6 client))
              else if \<not> assoc_timeout (dht_cur_time dht) (assoc4 client) then (1, assoc_ip_port (assoc4 client))
              else (- 1, empty_ip_port))"

section \<open>Well-formed states\<close>

definition clients_ok :: "nat \<Rightarrow> Client_data list \<Rightarrow> bool" where
  "clients_ok n cs \<longleftrightarrow> length cs = n \<and> list_all (\<lambda>c. length (cd_public_key c) = 32) cs"

definition nodes_ok :: "nat \<Rightarrow> Node_format list \<Rightarrow> bool" where
  "nodes_ok n ns \<longleftrightarrow> length ns = n \<and> keys_ok ns"

definition friend_ok :: "DHT_Friend \<Rightarrow> bool" where
  "friend_ok f \<longleftrightarrow> length (df_public_key f) = 32 \<and> clients_ok MAX_FRIEND_CLIENTS (client_list f) \<and>
     length (callbacks f) = DHT_FRIEND_MAX_LOCKS \<and> nodes_ok MAX_SENT_NODES (df_to_bootstrap f) \<and>
     df_num_to_bootstrap f \<le> MAX_SENT_NODES"

definition caches_ok :: "host \<Rightarrow> DHT \<Rightarrow> bool" where
  "caches_ok h dht \<longleftrightarrow> (\<forall>c \<in> {shared_keys_recv dht, shared_keys_sent dht}.
     cache_inv (plat h) c \<and> self_secret_key c = dht_self_secret_key dht \<and> skc_timeout c = 0)"

definition dht_inv :: "host \<Rightarrow> DHT \<Rightarrow> bool" where
  "dht_inv h dht \<longleftrightarrow> length (self_public_key dht) = 32 \<and> clients_ok LCLIENT_LIST (close_clientlist dht) \<and>
     list_all friend_ok (friends_list dht) \<and> nodes_ok MAX_CLOSE_TO_BOOTSTRAP_NODES (to_bootstrap dht) \<and>
     num_to_bootstrap dht \<le> MAX_CLOSE_TO_BOOTSTRAP_NODES \<and> ping_inv (dht_ping_array dht) \<and>
     ping_inv (ping_array (ping dht)) \<and> nodes_ok MAX_TO_PING (to_ping (ping dht)) \<and> caches_ok h dht \<and>
     (case loaded_nodes_list dht of None \<Rightarrow> True | Some ns \<Rightarrow> keys_ok ns \<and> length ns \<le> MAX_SAVED_DHT_NODES)"

lemma clients_ok_update:
  "clients_ok n cs \<Longrightarrow> length (cd_public_key c) = 32 \<Longrightarrow> clients_ok n (cs[i := c])"
  using set_update_subset_insert [of cs i c] by (auto simp: clients_ok_def list_all_iff)

lemma clients_ok_nth: "clients_ok n cs \<Longrightarrow> i < n \<Longrightarrow> length (cd_public_key (cs ! i)) = 32"
  by (auto simp: clients_ok_def list_all_length)

lemma client_index_less: "clients_ok n cs \<Longrightarrow> index_of_client_pk cs pk = Some i \<Longrightarrow> i < n"
  unfolding index_of_client_pk_def by (auto dest: find_index_SomeD simp: clients_ok_def)

lemma client_ip_index_less: "clients_ok n cs \<Longrightarrow> index_of_client_ip_port cs ipp = Some i \<Longrightarrow> i < n"
  unfolding index_of_client_ip_port_def by (auto dest: find_index_SomeD simp: clients_ok_def)

lemmas client_indices = client_index_less client_ip_index_less clients_ok_nth

lemma cd_public_key_update [simp]:
  "cd_public_key (update_client mt c ipp) = cd_public_key c"
  "cd_public_key (update_client_with_reset mt c ipp) = cd_public_key c"
  by (simp_all add: update_client_def update_client_with_reset_def)

subsection \<open>Client lists\<close>

lemma client_or_ip_port_in_list_ok [keep_inv]:
  assumes "clients_ok n cs" "length pk = 32" "client_or_ip_port_in_list mt cs pk ipp = (r, cs')"
  shows "clients_ok n cs'"
  using assms
  by (auto simp: client_or_ip_port_in_list_def Let_def size_defs client_indices
      intro!: clients_ok_update split: option.splits if_splits)

lemma set_announce_node_in_list_ok [keep_inv]: "clients_ok n cs \<Longrightarrow> clients_ok n (set_announce_node_in_list cs pk)"
  by (auto simp: set_announce_node_in_list_def client_indices intro!: clients_ok_update split: option.split)

lemma update_client_data_ok [keep_inv]:
  "clients_ok n cs \<Longrightarrow> update_client_data mt cs ipp pk self = (r, cs') \<Longrightarrow> clients_ok n cs'"
  by (auto simp: update_client_data_def Let_def client_indices intro!: clients_ok_update split: option.splits if_splits)

lemma sort_client_list_ok:
  assumes "qsort_contract qs" "clients_ok n cs"
  shows "clients_ok n (sort_client_list P qs cs now cpk)"
proof -
  have m: "mset (qs cmp cs) = mset cs" for cmp by (rule qsort_contract.qsort_mset [OF assms(1)])
  show ?thesis using assms(2) mset_eq_length [OF m] mset_eq_setD [OF m]
    by (simp add: sort_client_list_def clients_ok_def list_all_iff)
qed

lemma replace_all_ok [keep_inv]:
  assumes "qsort_contract qs" "clients_ok n cs" "length pk = 32" "replace_all P qs mt now cs pk ipp cpk = (r, cs')"
  shows "clients_ok n cs'"
  using assms(2-) sort_client_list_ok [OF assms(1,2), of P now cpk]
  by (auto simp: replace_all_def Let_def size_defs intro!: clients_ok_update split: if_splits)

lemma add_to_list_ok [keep_inv]:
  assumes "nodes_ok n ns" "length pk = 32" "length cmp_pk = 32"
  shows "nodes_ok n (snd (add_to_list ns pk ipp cmp_pk))"
proof -
  obtain r ns' where r: "add_to_list ns pk ipp cmp_pk = (r, ns')" by fastforce
  have "keys_ok ns" using assms(1) by (simp add: nodes_ok_def)
  from add_to_list_drops_farthest(1) [OF assms(3,2) this r]
  obtain d where "mset ns' + {#d#} = mset ns + {#\<lparr>nf_public_key = pk, nf_ip_port = ipp\<rparr>#}" by blast
  from mset_replaced_set(1,2) [OF this] show ?thesis
    using assms r by (auto simp: nodes_ok_def keys_ok_def)
qed

lemma queue_node_ok [keep_inv]:
  assumes "nodes_ok cap ns" "num \<le> cap" "length pk = 32" "length cmp_pk = 32"
    and "queue_node cap cmp_pk pk ipp (ns, num) = (ns', num')"
  shows "nodes_ok cap ns' \<and> num' \<le> cap"
proof (cases "num < cap")
  case True
  then show ?thesis
    using assms set_update_subset_insert [of ns num "\<lparr>nf_public_key = pk, nf_ip_port = ipp\<rparr>"]
    by (auto simp: queue_node_def nodes_ok_def keys_ok_def size_defs)
qed (use assms add_to_list_ok [OF assms(1,3,4)] in \<open>auto simp: queue_node_def\<close>)

subsection \<open>Shared keys and packets\<close>

lemma lookup_fields:
  "shared_key_cache_lookup P mt c pk = (k, c') \<Longrightarrow> self_secret_key c' = self_secret_key c \<and> skc_timeout c' = skc_timeout c"
  by (auto simp: shared_key_cache_lookup_def put_bucket_def Let_def split: option.splits)

lemma cache_lookup:
  assumes "cache_inv P c" "skc_timeout c = 0" "length pk = 32" "shared_key_cache_lookup P mt c pk = (k, c')"
  shows "k = encrypt_precompute P pk (self_secret_key c) \<and> cache_inv P c' \<and>
    self_secret_key c' = self_secret_key c \<and> skc_timeout c' = 0"
proof -
  have "unat (mono_time_get mt) + unat (skc_timeout c) < 2 ^ 64"
    using assms(2) unsigned_less [of "mono_time_get mt"] by simp
  from shared_key_cache_lookup_spec [OF assms(1) _ this assms(4)] lookup_fields [OF assms(4)] assms(2,3)
  show ?thesis by (simp add: size_defs)
qed

text \<open>A lookup gives the precomputed key and touches nothing but the cache.\<close>

lemma shared_key_sent:
  assumes "caches_ok h dht" "length pk = 32" "dht_get_shared_key_sent h dht pk = (k, dht')"
  shows "k = encrypt_precompute (plat h) pk (dht_self_secret_key dht)"
    and "\<exists>c. dht' = dht\<lparr>shared_keys_sent := c\<rparr> \<and> caches_ok h dht'"
proof -
  obtain c where c: "shared_key_cache_lookup (plat h) (dht_mono_time dht) (shared_keys_sent dht) pk = (k, c)"
    "dht' = dht\<lparr>shared_keys_sent := c\<rparr>"
    using assms(3) by (auto simp: dht_get_shared_key_sent_def split: prod.splits)
  have inv: "cache_inv (plat h) (shared_keys_sent dht)" "skc_timeout (shared_keys_sent dht) = 0"
    "self_secret_key (shared_keys_sent dht) = dht_self_secret_key dht" using assms(1) by (auto simp: caches_ok_def)
  note l = cache_lookup [OF inv(1,2) assms(2) c(1)]
  then show "k = encrypt_precompute (plat h) pk (dht_self_secret_key dht)" using inv(3) by simp
  show "\<exists>c. dht' = dht\<lparr>shared_keys_sent := c\<rparr> \<and> caches_ok h dht'"
    using l c(2) inv(3) assms(1) by (auto simp: caches_ok_def)
qed

lemma shared_key_recv:
  assumes "caches_ok h dht" "length pk = 32" "dht_get_shared_key_recv h dht pk = (k, dht')"
  shows "k = encrypt_precompute (plat h) pk (dht_self_secret_key dht)"
    and "\<exists>c. dht' = dht\<lparr>shared_keys_recv := c\<rparr> \<and> caches_ok h dht'"
proof -
  obtain c where c: "shared_key_cache_lookup (plat h) (dht_mono_time dht) (shared_keys_recv dht) pk = (k, c)"
    "dht' = dht\<lparr>shared_keys_recv := c\<rparr>"
    using assms(3) by (auto simp: dht_get_shared_key_recv_def split: prod.splits)
  have inv: "cache_inv (plat h) (shared_keys_recv dht)" "skc_timeout (shared_keys_recv dht) = 0"
    "self_secret_key (shared_keys_recv dht) = dht_self_secret_key dht" using assms(1) by (auto simp: caches_ok_def)
  note l = cache_lookup [OF inv(1,2) assms(2) c(1)]
  then show "k = encrypt_precompute (plat h) pk (dht_self_secret_key dht)" using inv(3) by simp
  show "\<exists>c. dht' = dht\<lparr>shared_keys_recv := c\<rparr> \<and> caches_ok h dht'"
    using l c(2) inv(3) assms(1) by (auto simp: caches_ok_def)
qed

lemma caches_ok_other [simp]:
  "caches_ok h (dht\<lparr>rng := r\<rparr>) = caches_ok h dht" "caches_ok h (dht\<lparr>sent := x\<rparr>) = caches_ok h dht"
  "caches_ok h (dht\<lparr>called := l\<rparr>) = caches_ok h dht" "caches_ok h (dht\<lparr>close_clientlist := cs\<rparr>) = caches_ok h dht"
  "caches_ok h (dht\<lparr>friends_list := fs\<rparr>) = caches_ok h dht" "caches_ok h (dht\<lparr>dht_ping_array := a\<rparr>) = caches_ok h dht"
  "caches_ok h (dht\<lparr>to_bootstrap := ns\<rparr>) = caches_ok h dht" "caches_ok h (dht\<lparr>num_to_bootstrap := n\<rparr>) = caches_ok h dht"
  "caches_ok h (dht\<lparr>ping := p\<rparr>) = caches_ok h dht" "caches_ok h (dht\<lparr>close_lastgetnodes := t\<rparr>) = caches_ok h dht"
  "caches_ok h (dht\<lparr>close_bootstrap_times := b\<rparr>) = caches_ok h dht" "caches_ok h (dht\<lparr>dht_mono_time := m\<rparr>) = caches_ok h dht"
  "caches_ok h (dht\<lparr>dht_cur_time := t\<rparr>) = caches_ok h dht"
  by (simp_all add: caches_ok_def)

text \<open>What sending may change: the random source, the ring of requests, the cache and the log.\<close>

definition only_sends :: "host \<Rightarrow> DHT \<Rightarrow> DHT \<Rightarrow> bool" where
  "only_sends h dht dht' \<longleftrightarrow>
     dht'\<lparr>rng := rng dht, dht_ping_array := dht_ping_array dht, shared_keys_sent := shared_keys_sent dht,
       sent := sent dht\<rparr> = dht \<and>
     prefix (sent dht) (sent dht') \<and>
     (ping_inv (dht_ping_array dht) \<longrightarrow> ping_inv (dht_ping_array dht')) \<and> (caches_ok h dht \<longrightarrow> caches_ok h dht')"

lemma only_sends_fields:
  assumes "only_sends h dht dht'"
  shows "dht_mono_time dht' = dht_mono_time dht"
    "net_family dht' = net_family dht"
    "called dht' = called dht"
    "close_clientlist dht' = close_clientlist dht"
    "close_lastgetnodes dht' = close_lastgetnodes dht"
    "close_bootstrap_times dht' = close_bootstrap_times dht"
    "self_public_key dht' = self_public_key dht"
    "dht_self_secret_key dht' = dht_self_secret_key dht"
    "friends_list dht' = friends_list dht"
    "shared_keys_recv dht' = shared_keys_recv dht"
    "ping dht' = ping dht"
    "dht_cur_time dht' = dht_cur_time dht"
    "to_bootstrap dht' = to_bootstrap dht"
    "num_to_bootstrap dht' = num_to_bootstrap dht"
    "get_nodes_response dht' = get_nodes_response dht"
    "loaded_nodes_list dht' = loaded_nodes_list dht"
proof -
  note eq = conjunct1 [OF assms [unfolded only_sends_def]]
  show "dht_mono_time dht' = dht_mono_time dht"
    "net_family dht' = net_family dht"
    "called dht' = called dht"
    "close_clientlist dht' = close_clientlist dht"
    "close_lastgetnodes dht' = close_lastgetnodes dht"
    "close_bootstrap_times dht' = close_bootstrap_times dht"
    "self_public_key dht' = self_public_key dht"
    "dht_self_secret_key dht' = dht_self_secret_key dht"
    "friends_list dht' = friends_list dht"
    "shared_keys_recv dht' = shared_keys_recv dht"
    "ping dht' = ping dht"
    "dht_cur_time dht' = dht_cur_time dht"
    "to_bootstrap dht' = to_bootstrap dht"
    "num_to_bootstrap dht' = num_to_bootstrap dht"
    "get_nodes_response dht' = get_nodes_response dht"
    "loaded_nodes_list dht' = loaded_nodes_list dht"
    using arg_cong [OF eq, of dht_mono_time]
      arg_cong [OF eq, of net_family]
      arg_cong [OF eq, of called]
      arg_cong [OF eq, of close_clientlist]
      arg_cong [OF eq, of close_lastgetnodes]
      arg_cong [OF eq, of close_bootstrap_times]
      arg_cong [OF eq, of self_public_key]
      arg_cong [OF eq, of dht_self_secret_key]
      arg_cong [OF eq, of friends_list]
      arg_cong [OF eq, of shared_keys_recv]
      arg_cong [OF eq, of ping]
      arg_cong [OF eq, of dht_cur_time]
      arg_cong [OF eq, of to_bootstrap]
      arg_cong [OF eq, of num_to_bootstrap]
      arg_cong [OF eq, of get_nodes_response]
      arg_cong [OF eq, of loaded_nodes_list]
    by simp_all
qed

lemma only_sends_inv [keep_inv]:
  assumes "only_sends h dht dht'" "dht_inv h dht"
  shows "dht_inv h dht'"
  using assms(2) only_sends_fields [OF assms(1)] assms(1) [unfolded only_sends_def] by (simp add: dht_inv_def)

lemma only_sends_refl [simp]: "only_sends h dht dht"
  by (simp add: only_sends_def)

lemma only_sends_trans:
  assumes "only_sends h a b" "only_sends h b c"
  shows "only_sends h a c"
proof -
  have "c\<lparr>rng := rng a, dht_ping_array := dht_ping_array a, shared_keys_sent := shared_keys_sent a, sent := sent a\<rparr> =
      c\<lparr>rng := rng b, dht_ping_array := dht_ping_array b, shared_keys_sent := shared_keys_sent b, sent := sent b\<rparr>
       \<lparr>rng := rng a, dht_ping_array := dht_ping_array a, shared_keys_sent := shared_keys_sent a, sent := sent a\<rparr>"
    by simp
  also have "\<dots> = b\<lparr>rng := rng a, dht_ping_array := dht_ping_array a, shared_keys_sent := shared_keys_sent a, sent := sent a\<rparr>"
    using assms(2) by (simp only: only_sends_def)
  also have "\<dots> = a" using assms(1) by (simp only: only_sends_def)
  finally show ?thesis using assms unfolding only_sends_def by (simp add: prefix_order.trans [of "sent a" "sent b" "sent c"])
qed

lemma send_announce_ping_only_sends:
  assumes "length pk = 32" "caches_ok h dht"
  shows "only_sends h dht (snd (send_announce_ping h dht pk ipp))"
proof -
  obtain plain_key sk r1 where kp: "crypto_new_keypair (rng dht) = ((plain_key, sk), r1)" by (metis prod.collapse)
  obtain n r2 where n: "random_u64 r1 = (n, r2)" by fastforce
  obtain pid arr where add: "ping_array_add (plat h) (dht_ping_array dht) (dht_mono_time dht) n (take 32 pk) = (pid, arr)" by fastforce
  obtain k d1 where key: "dht_get_shared_key_sent h (dht\<lparr>dht_ping_array := arr\<rparr>) pk = (k, d1)" by fastforce
  obtain nonce r3 where nonce: "random_nonce r2 = (nonce, r3)" by fastforce
  from shared_key_sent(2) [OF _ assms(1) key] assms(2) obtain c where
    d1: "d1 = dht\<lparr>dht_ping_array := arr, shared_keys_sent := c\<rparr>" and cok: "caches_ok h d1" by auto
  have inv: "ping_inv (dht_ping_array dht) \<Longrightarrow> ping_inv arr" using ping_array_add_inv add by blast
  have one: "only_sends h dht (d1\<lparr>rng := r3\<rparr>)"
    using inv cok by (simp add: only_sends_def d1)
  have two: "only_sends h dht (d1\<lparr>rng := r3, sent := sent d1 @ [x]\<rparr>)" for x
    using inv cok by (simp add: only_sends_def d1)
  have "snd (send_announce_ping h dht pk ipp) = d1\<lparr>rng := r3\<rparr> \<or>
      (\<exists>x. snd (send_announce_ping h dht pk ipp) = d1\<lparr>rng := r3, sent := sent d1 @ [x]\<rparr>)"
    unfolding send_announce_ping_def CRYPTO_PUBLIC_KEY_SIZE_def kp n add key nonce Let_def prod.case dht_send_def
    by (simp split: option.split) blast
  with one two show ?thesis by metis
qed

subsection \<open>Every operation keeps the state well-formed\<close>

lemma bucket_of_less: "bucket_of dht pk < LCLIENT_LENGTH"
  by (simp add: bucket_of_def Let_def size_defs)

lemma bucket_fits_close: "index < LCLIENT_LENGTH \<Longrightarrow> index * LCLIENT_NODES + LCLIENT_NODES \<le> LCLIENT_LIST"
  by (simp add: size_defs)

lemma get_close_bucket_ok:
  assumes "clients_ok LCLIENT_LIST (close_clientlist dht)" "index < LCLIENT_LENGTH"
  shows "clients_ok LCLIENT_NODES (get_close_bucket dht index)"
  using assms bucket_fits_close [OF assms(2)]
  by (auto simp: get_close_bucket_def clients_ok_def list_all_iff slice_def dest: in_set_takeD in_set_dropD)

lemma put_close_bucket_ok [keep_inv]:
  assumes "dht_inv h dht" "index < LCLIENT_LENGTH" "clients_ok LCLIENT_NODES cs"
  shows "dht_inv h (put_close_bucket dht index cs)"
proof -
  have "clients_ok LCLIENT_LIST (write_at (index * LCLIENT_NODES) cs (close_clientlist dht))"
    using assms bucket_fits_close [OF assms(2)]
    by (auto simp: clients_ok_def list_all_iff write_at_def dht_inv_def dest: in_set_takeD in_set_dropD)
  with assms(1) show ?thesis by (simp add: put_close_bucket_def dht_inv_def)
qed

lemma dht_inv_close: "dht_inv h dht \<Longrightarrow> clients_ok LCLIENT_LIST (close_clientlist dht)"
  and dht_inv_friends: "dht_inv h dht \<Longrightarrow> list_all friend_ok (friends_list dht)"
  and dht_inv_caches: "dht_inv h dht \<Longrightarrow> caches_ok h dht"
  and dht_inv_self: "dht_inv h dht \<Longrightarrow> length (self_public_key dht) = 32"
  and dht_inv_ping: "dht_inv h dht \<Longrightarrow> ping_inv (dht_ping_array dht)"
  by (simp_all add: dht_inv_def)

lemma dht_inv_set_friends: "dht_inv h dht \<Longrightarrow> list_all friend_ok fs \<Longrightarrow> dht_inv h (dht\<lparr>friends_list := fs\<rparr>)"
  and dht_inv_set_close: "dht_inv h dht \<Longrightarrow> clients_ok LCLIENT_LIST cs \<Longrightarrow> dht_inv h (dht\<lparr>close_clientlist := cs\<rparr>)"
  and dht_inv_set_ring: "dht_inv h dht \<Longrightarrow> ping_inv a \<Longrightarrow> dht_inv h (dht\<lparr>dht_ping_array := a\<rparr>)"
  and dht_inv_called [simp]: "dht_inv h (dht\<lparr>called := l\<rparr>) = dht_inv h dht"
  by (simp_all add: dht_inv_def)

lemmas dht_inv_parts = dht_inv_close dht_inv_friends dht_inv_caches dht_inv_self dht_inv_ping

lemma set_announce_node_inv [keep_inv]:
  assumes "dht_inv h dht"
  shows "dht_inv h (set_announce_node dht pk)"
proof -
  let ?i = "bucket_of dht pk"
  let ?d = "put_close_bucket dht ?i (set_announce_node_in_list (get_close_bucket dht ?i) pk)"
  have "dht_inv h ?d"
    using assms
    by (intro put_close_bucket_ok set_announce_node_in_list_ok get_close_bucket_ok bucket_of_less dht_inv_close)
  moreover have "friends_list ?d = friends_list dht" by (simp add: put_close_bucket_def)
  moreover have "friend_ok (f\<lparr>client_list := set_announce_node_in_list (client_list f) pk\<rparr>)" if "friend_ok f" for f
    using that set_announce_node_in_list_ok [of MAX_FRIEND_CLIENTS "client_list f" pk] by (simp add: friend_ok_def)
  ultimately show ?thesis
    unfolding set_announce_node_def Let_def using dht_inv_friends [OF assms]
    by (intro dht_inv_set_friends) (simp_all add: list_all_iff)
qed

lemma add_to_close_inv [keep_inv]:
  assumes "dht_inv h dht" "length pk = 32" "add_to_close h dht pk ipp sim = (r, dht')"
  shows "dht_inv h dht'"
proof (cases "find_index (both_timeout (dht_cur_time dht)) (get_close_bucket dht (bucket_of dht pk))")
  case None
  with assms show ?thesis by (simp add: add_to_close_def Let_def del: find_index_None)
next
  case (Some i)
  let ?b = "get_close_bucket dht (bucket_of dht pk)"
  have b: "clients_ok LCLIENT_NODES ?b"
    using assms(1) by (intro get_close_bucket_ok bucket_of_less dht_inv_close)
  have i: "i < LCLIENT_NODES" using find_index_SomeD [OF Some] b by (simp add: clients_ok_def)
  define c where "c = (update_client_with_reset (dht_mono_time dht)
      ((?b ! i)\<lparr>cd_public_key := pk_copy (cd_public_key (?b ! i)) pk\<rparr>) ipp)\<lparr>announce_node := False\<rparr>"
  let ?d = "put_close_bucket dht (bucket_of dht pk) (?b[i := c])"
  have "length (cd_public_key c) = 32"
    using clients_ok_nth [OF b i] assms(2) by (simp add: c_def pk_copy_def size_defs)
  then have d: "dht_inv h ?d" using assms(1) b by (intro put_close_bucket_ok bucket_of_less clients_ok_update)
  have "only_sends h ?d (snd (send_announce_ping h ?d pk ipp))"
    using assms(2) d by (intro send_announce_ping_only_sends dht_inv_caches)
  then have "dht_inv h (snd (send_announce_ping h ?d pk ipp))" using d by (rule only_sends_inv)
  with assms(1,3) Some show ?thesis by (auto simp: add_to_close_def Let_def c_def split: if_splits)
qed

lemma add_to_close_frame:
  assumes "dht_inv h dht" "length pk = 32"
  shows "ping (snd (add_to_close h dht pk ipp sim)) = ping dht \<and>
    self_public_key (snd (add_to_close h dht pk ipp sim)) = self_public_key dht \<and>
    dht_self_secret_key (snd (add_to_close h dht pk ipp sim)) = dht_self_secret_key dht \<and>
    dht_mono_time (snd (add_to_close h dht pk ipp sim)) = dht_mono_time dht"
proof -
  have "only_sends h (put_close_bucket dht i b) (snd (send_announce_ping h (put_close_bucket dht i b) pk ipp))" for i b
    using assms by (intro send_announce_ping_only_sends) (simp_all add: dht_inv_caches put_close_bucket_def)
  from only_sends_fields [OF this] show ?thesis
    by (simp add: add_to_close_def Let_def put_close_bucket_def split: option.split)
qed

lemma add_to_close_simulate [simp]: "snd (add_to_close h dht pk ipp True) = dht"
  by (simp add: add_to_close_def Let_def split: option.split)

lemma ping_node_friend_ok [keep_inv]:
  assumes "friend_ok f" "length pk = 32" "ping_node_friend now pk ipp f = (r, f')"
  shows "friend_ok f'"
proof -
  obtain ns n where q: "queue_node MAX_SENT_NODES (df_public_key f) pk ipp (df_to_bootstrap f, df_num_to_bootstrap f) = (ns, n)"
    by fastforce
  have "nodes_ok MAX_SENT_NODES ns \<and> n \<le> MAX_SENT_NODES"
    using assms(1,2) by (intro queue_node_ok [OF _ _ _ _ q]) (simp_all add: friend_ok_def)
  with assms q show ?thesis by (auto simp: ping_node_friend_def Let_def friend_ok_def split: if_splits)
qed

lemma ping_node_from_getnodes_ok_inv [keep_inv]:
  assumes "dht_inv h dht" "length pk = 32" "ping_node_from_getnodes_ok h dht pk ipp = (r, dht')"
  shows "dht_inv h dht'"
proof -
  obtain ns n where q: "queue_node MAX_CLOSE_TO_BOOTSTRAP_NODES (self_public_key dht) pk ipp
      (to_bootstrap dht, num_to_bootstrap dht) = (ns, n)" by fastforce
  have "nodes_ok MAX_CLOSE_TO_BOOTSTRAP_NODES ns \<and> n \<le> MAX_CLOSE_TO_BOOTSTRAP_NODES"
    using assms(1,2) by (intro queue_node_ok [OF _ _ _ _ q]) (simp_all add: dht_inv_def)
  moreover have "list_all friend_ok (map snd (map (ping_node_friend now pk ipp) (friends_list dht)))" for now
    using dht_inv_friends [OF assms(1)] ping_node_friend_ok [OF _ assms(2) prod.collapse [symmetric]]
    by (auto simp: list_all_iff)
  ultimately show ?thesis
    using assms(1,3) by (auto simp: ping_node_from_getnodes_ok_def Let_def q dht_inv_def split: if_splits)
qed

lemma addto_friend_ok [keep_inv]:
  assumes "qsort_contract (host_qsort h)" "friend_ok f" "length pk = 32" "addto_friend h dht pk ipp f = (r, f')"
  shows "friend_ok f'"
proof -
  obtain r1 cl1 where c: "client_or_ip_port_in_list (dht_mono_time dht) (client_list f) pk ipp = (r1, cl1)" by fastforce
  obtain r2 cl2 where r: "replace_all (plat h) (host_qsort h) (dht_mono_time dht) (dht_cur_time dht) cl1 pk ipp (df_public_key f)
      = (r2, cl2)" by fastforce
  have "clients_ok MAX_FRIEND_CLIENTS cl1"
    using assms(2,3) c by (intro client_or_ip_port_in_list_ok [OF _ _ c]) (simp_all add: friend_ok_def)
  moreover from this have "clients_ok MAX_FRIEND_CLIENTS cl2" using assms(1,3) r by (intro replace_all_ok [OF _ _ _ r])
  ultimately show ?thesis using assms(2,4) c r by (auto simp: addto_friend_def friend_ok_def split: if_splits bool.splits)
qed

lemma addto_friends_ok [keep_inv]:
  assumes "qsort_contract (host_qsort h)" "length pk = 32"
  shows "list_all friend_ok fs \<Longrightarrow> addto_friends h dht pk ipp fs used found = (fs', used', found') \<Longrightarrow> list_all friend_ok fs'"
proof (induction fs arbitrary: used found fs')
  case (Cons f fs)
  obtain r f1 where f: "addto_friend h dht pk ipp f = (r, f1)" by fastforce
  have "friend_ok f1" using Cons.prems(1) by (intro addto_friend_ok [OF assms(1) _ assms(2) f]) simp
  with Cons f show ?case by (auto split: prod.splits)
qed simp

lemma addto_lists_inv [keep_inv]:
  assumes "qsort_contract (host_qsort h)" "dht_inv h dht" "length pk = 32" "addto_lists h dht ip_port pk = (used, dht')"
  shows "dht_inv h dht'"
proof -
  let ?ipp = "ip_port_normalize ip_port"
  obtain inl cl where c: "client_or_ip_port_in_list (dht_mono_time dht) (close_clientlist dht) pk ?ipp = (inl, cl)" by fastforce
  let ?d1 = "dht\<lparr>close_clientlist := cl\<rparr>"
  have d1: "dht_inv h ?d1"
    using assms(2,3) by (intro dht_inv_set_close client_or_ip_port_in_list_ok [OF _ _ c] dht_inv_close)
  obtain added d2 where a: "(if inl then (False, ?d1) else add_to_close h ?d1 pk ?ipp False) = (added, d2)" by fastforce
  have d2: "dht_inv h d2" using a d1 assms(3) by (auto intro: add_to_close_inv split: if_splits)
  obtain fs used2 found where f: "addto_friends h d2 pk ?ipp (friends_list d2) (if inl \<or> \<not> added then 1 else 0) None
      = (fs, used2, found)" by (metis prod.collapse)
  have "list_all friend_ok fs" using addto_friends_ok [OF assms(1,3) _ f] dht_inv_friends [OF d2] by simp
  with d2 have "dht_inv h (d2\<lparr>friends_list := fs\<rparr>)" by (rule dht_inv_set_friends)
  then show ?thesis
    using assms(4) unfolding addto_lists_def Let_def c prod.case a f by (auto split: option.splits)
qed

lemma returned_friends_ok [keep_inv]:
  "list_all friend_ok fs \<Longrightarrow> list_all friend_ok (returned_friends mt ipp pk npk fs)"
proof (induction fs)
  case (Cons f fs)
  obtain r cl where u: "update_client_data mt (client_list f) ipp npk False = (r, cl)" by fastforce
  have "clients_ok MAX_FRIEND_CLIENTS cl"
    using Cons.prems by (intro update_client_data_ok [OF _ u]) (simp add: friend_ok_def)
  with Cons u show ?case by (auto simp: friend_ok_def split: bool.split)
qed simp

lemma returnedip_ports_inv [keep_inv]: "dht_inv h dht \<Longrightarrow> dht_inv h (returnedip_ports dht ip_port pk npk)"
  unfolding returnedip_ports_def Let_def
  by (simp add: dht_inv_set_friends dht_inv_set_close returned_friends_ok dht_inv_friends
      update_client_data_ok [OF dht_inv_close prod.collapse [symmetric]])

lemma shared_key_recv_inv:
  assumes "dht_inv h dht" "length pk = 32" "dht_get_shared_key_recv h dht pk = (k, dht')"
  shows "dht_inv h dht'"
  using shared_key_recv(2) [OF dht_inv_caches [OF assms(1)] assms(2,3)] assms(1) by (auto simp: dht_inv_def)

lemma shared_key_sent_inv:
  assumes "dht_inv h dht" "length pk = 32" "dht_get_shared_key_sent h dht pk = (k, dht')"
  shows "dht_inv h dht'"
  using shared_key_sent(2) [OF dht_inv_caches [OF assms(1)] assms(2,3)] assms(1) by (auto simp: dht_inv_def)

lemma handle_data_search_response_inv [keep_inv]:
  assumes "dht_inv h dht" "handle_data_search_response h dht source packet = (r, dht')"
  shows "dht_inv h dht'"
proof (cases "length packet < 113")
  case True
  with assms show ?thesis by (simp add: handle_data_search_response_def size_defs)
next
  case False
  let ?pk = "slice 1 CRYPTO_PUBLIC_KEY_SIZE packet"
  obtain k d1 where key: "dht_get_shared_key_recv h dht ?pk = (k, d1)" by fastforce
  have d1: "dht_inv h d1"
    using False by (intro shared_key_recv_inv [OF assms(1) _ key]) (simp add: size_defs)
  have ring: "dht_inv h (d1\<lparr>dht_ping_array := a\<rparr>)"
    if "ping_array_check (dht_ping_array d1) (dht_mono_time d1) n pid = (x, a)" for n pid x a
    using d1 ping_array_check_inv [OF dht_inv_ping [OF d1] that] by (rule dht_inv_set_ring)
  show ?thesis
    using assms key d1 ring set_announce_node_inv [OF ring]
    unfolding handle_data_search_response_def Let_def
    by (auto split: if_splits option.splits prod.splits)
qed

section \<open>Locks of friends\<close>

lemma lock_bit: "(w AND 2 ^ n = 0) = (\<not> bit w n)" "(2 ^ n AND w > 0) = bit w n" "(w AND 2 ^ n > 0) = bit w n"
  for w :: u32
  by (simp_all add: and_exp_eq_0_iff_not_bit and.commute [of "2 ^ n"] word_gt_0)

text \<open>The locks that are held, each with its callback.\<close>

definition locks :: "DHT_Friend \<Rightarrow> nat \<rightharpoonup> DHT_Friend_Callback" where
  "locks f n = (if n < DHT_FRIEND_MAX_LOCKS \<and> bit (lock_flags f) n then Some (callbacks f ! n) else None)"

lemma dht_friend_lock_spec:
  assumes "length (callbacks f) = DHT_FRIEND_MAX_LOCKS" "dht_friend_lock f cb data number = (tok, f')"
  shows "if \<forall>n < DHT_FRIEND_MAX_LOCKS. locks f n \<noteq> None then tok = 0 \<and> f' = f
    else \<exists>n < DHT_FRIEND_MAX_LOCKS. locks f n = None \<and> tok = push_bit n 1 \<and>
      locks f' = (locks f)(n \<mapsto> \<lparr>ip_callback = cb, cb_data = data, cb_number = number\<rparr>) \<and>
      length (callbacks f') = DHT_FRIEND_MAX_LOCKS"
proof (cases "find_index (\<lambda>n. lock_flags f AND push_bit n 1 = 0) [0..<DHT_FRIEND_MAX_LOCKS]")
  case None
  then have "\<forall>n < DHT_FRIEND_MAX_LOCKS. locks f n \<noteq> None" by (auto simp: locks_def size_defs lock_bit)
  moreover have "tok = 0 \<and> f' = f" using None assms(2) by (simp add: dht_friend_lock_def del: find_index_None)
  ultimately show ?thesis by simp
next
  case (Some n)
  then have n: "n < 32" "\<not> bit (lock_flags f) n"
    using find_index_SomeD [OF Some] by (auto simp: size_defs lock_bit)
  have res: "tok = push_bit n 1" "f' = f\<lparr>lock_flags := lock_flags f OR push_bit n 1,
      callbacks := (callbacks f)[n := \<lparr>ip_callback = cb, cb_data = data, cb_number = number\<rparr>]\<rparr>"
    using assms(2) Some by (auto simp: dht_friend_lock_def Let_def)
  have "locks f' = (locks f)(n \<mapsto> \<lparr>ip_callback = cb, cb_data = data, cb_number = number\<rparr>)"
    using n assms(1) by (auto simp: locks_def res(2) size_defs bit_simps fun_eq_iff)
  with n res assms(1) show ?thesis by (auto simp: locks_def size_defs)
qed

lemma dht_friend_unlock_spec:
  assumes "length (callbacks f) = DHT_FRIEND_MAX_LOCKS" "n < DHT_FRIEND_MAX_LOCKS"
  shows "if locks f n = None then dht_friend_unlock f (push_bit n 1) = None
    else \<exists>f'. dht_friend_unlock f (push_bit n 1) = Some f' \<and> locks f' = (locks f)(n := None) \<and>
      length (callbacks f') = DHT_FRIEND_MAX_LOCKS"
proof (cases "bit (lock_flags f) n")
  case False
  then have "\<not> push_bit n 1 AND lock_flags f > 0" using assms(2) by (simp add: lock_bit size_defs)
  with False show ?thesis by (simp add: locks_def dht_friend_unlock_def)
next
  case True
  have n: "n < 32" using assms(2) by (simp add: size_defs)
  have "find_index (\<lambda>i. push_bit i 1 AND push_bit n (1 :: u32) > 0) [0..<32] = Some n"
    using n by (auto simp: find_index_Some lock_bit bit_simps)
  moreover have "push_bit n 1 AND lock_flags f > 0" using True n by (simp add: lock_bit)
  ultimately have "dht_friend_unlock f (push_bit n 1) = Some (f\<lparr>lock_flags := lock_flags f AND NOT (push_bit n 1),
      callbacks := (callbacks f)[n := empty_callback]\<rparr>)" by (simp add: dht_friend_unlock_def size_defs)
  moreover have "locks (f\<lparr>lock_flags := lock_flags f AND NOT (push_bit n 1), callbacks := (callbacks f)[n := empty_callback]\<rparr>)
      = (locks f)(n := None)" using n by (auto simp: locks_def bit_simps fun_eq_iff size_defs)
  ultimately show ?thesis using True n assms(1) by (simp add: locks_def size_defs)
qed

lemma dht_friend_lock_ok [keep_inv]:
  "friend_ok f \<Longrightarrow> dht_friend_lock f cb data number = (tok, f') \<Longrightarrow> friend_ok f'"
  by (auto simp: dht_friend_lock_def Let_def friend_ok_def split: option.splits)

lemma dht_friend_unlock_ok [keep_inv]: "friend_ok f \<Longrightarrow> dht_friend_unlock f tok = Some f' \<Longrightarrow> friend_ok f'"
  by (auto simp: dht_friend_unlock_def friend_ok_def split: option.splits if_splits)

lemma empty_dht_friend_ok [simp]:
  "length pk = 32 \<Longrightarrow> friend_ok (empty_dht_friend\<lparr>df_public_key := pk, friend_nat := n\<rparr>)"
  by (simp add: friend_ok_def empty_dht_friend_def clients_ok_def nodes_ok_def keys_ok_def empty_client_def
      empty_node_format_def list_all_iff)

lemma friends_update_ok: "list_all friend_ok fs \<Longrightarrow> friend_ok f \<Longrightarrow> list_all friend_ok (fs[i := f])"
  using set_update_subset_insert [of fs i f] by (auto simp: list_all_iff)

section \<open>The closest nodes of the whole DHT\<close>

text \<open>All clients \<^verbatim>\<open>get_close_nodes\<close> looks at.\<close>

definition all_clients :: "DHT \<Rightarrow> Client_data list" where
  "all_clients dht = close_clientlist dht @ concat (map client_list (friends_list dht))"

lemma get_close_nodes_loop_append:
  "get_close_nodes_loop now pk f lan ann (cs @ ds) acc =
   get_close_nodes_loop now pk f lan ann ds (get_close_nodes_loop now pk f lan ann cs acc)"
proof (induction cs arbitrary: acc)
  case (Cons c cs)
  obtain nodes num where "acc = (nodes, num)" by fastforce
  with Cons show ?case by (simp del: if_split)
qed simp

text \<open>The two lists are searched like one.\<close>

lemma get_close_nodes_eq:
  assumes "f \<in> {TOX_AF_INET, TOX_AF_INET6, TOX_AF_UNSPEC}"
  shows "get_close_nodes dht pk f lan ann =
    get_close_nodes_inner (dht_cur_time dht) pk (replicate MAX_SENT_NODES empty_node_format) f (all_clients dht) 0 lan ann"
proof -
  have inner: "get_close_nodes_inner now pk nodes f cs num lan ann = get_close_nodes_loop now pk f lan ann cs (nodes, num)"
    for now nodes cs num
    using assms by (auto simp: get_close_nodes_inner_def family_defs)
  have "get_close_nodes_friends now pk f lan ann fs acc =
      get_close_nodes_loop now pk f lan ann (concat (map client_list fs)) acc" for now fs acc
  proof (induction fs arbitrary: acc)
    case (Cons f fs)
    then show ?case by (cases acc) (simp add: inner get_close_nodes_loop_append)
  qed simp
  then show ?thesis
    by (simp add: get_close_nodes_def get_somewhat_close_nodes_def inner all_clients_def get_close_nodes_loop_append)
qed

lemma get_close_nodes_shape:
  assumes "get_close_nodes dht pk f lan ann = (nodes, num)" "f \<in> {TOX_AF_INET, TOX_AF_INET6, TOX_AF_UNSPEC}"
    and "length pk = 32" "list_all (\<lambda>c. length (cd_public_key c) = 32) (all_clients dht)"
  shows "nodes_ok MAX_SENT_NODES nodes \<and> num \<le> MAX_SENT_NODES"
proof -
  have step: "nodes_ok MAX_SENT_NODES (fst acc) \<and> snd acc \<le> MAX_SENT_NODES \<Longrightarrow>
      list_all (\<lambda>c. length (cd_public_key c) = 32) cs \<Longrightarrow>
      nodes_ok MAX_SENT_NODES (fst (get_close_nodes_loop now pk f lan ann cs acc)) \<and>
      snd (get_close_nodes_loop now pk f lan ann cs acc) \<le> MAX_SENT_NODES" for now cs acc
  proof (induction cs arbitrary: acc)
    case (Cons c cs)
    obtain ns n where acc: "acc = (ns, n)" by fastforce
    have "nodes_ok MAX_SENT_NODES (snd (add_to_list ns (cd_public_key c) ipp pk))" for ipp
      using Cons.prems acc assms(3) by (intro add_to_list_ok) simp_all
    moreover have "nodes_ok MAX_SENT_NODES (ns[n := \<lparr>nf_public_key = cd_public_key c, nf_ip_port = ipp\<rparr>])" for ipp
      using Cons.prems acc set_update_subset_insert [of ns n "\<lparr>nf_public_key = cd_public_key c, nf_ip_port = ipp\<rparr>"]
      by (auto simp: nodes_ok_def keys_ok_def)
    ultimately show ?case using Cons acc by (simp add: Let_def)
  qed simp
  have start: "nodes_ok MAX_SENT_NODES (replicate MAX_SENT_NODES empty_node_format)"
    by (simp add: nodes_ok_def keys_ok_def empty_node_format_def)
  have "get_close_nodes_loop (dht_cur_time dht) pk f lan ann (all_clients dht) (replicate MAX_SENT_NODES empty_node_format, 0)
      = (nodes, num)"
    using assms(1,2) by (auto simp: get_close_nodes_eq get_close_nodes_inner_def family_defs)
  then show ?thesis using step [of "(replicate MAX_SENT_NODES empty_node_format, 0)" "all_clients dht" "dht_cur_time dht"] start assms(4)
    by simp
qed

lemma all_clients_ok: "dht_inv h dht \<Longrightarrow> list_all (\<lambda>c. length (cd_public_key c) = 32) (all_clients dht)"
  by (auto simp: dht_inv_def all_clients_def clients_ok_def friend_ok_def list_all_iff)

section \<open>Adding and removing friends\<close>

lemma dht_addfriend_inv [keep_inv]:
  assumes "dht_inv h dht" "length pk = 32" "dht_addfriend h dht pk cb data number = (r, tok, dht')"
  shows "dht_inv h dht'"
proof (cases "index_of_friend_pk (friends_list dht) pk")
  case (Some i)
  obtain t f where l: "dht_friend_lock (friends_list dht ! i) cb data number = (t, f)" by fastforce
  have "i < length (friends_list dht)" using Some by (auto simp: index_of_friend_pk_def dest: find_index_SomeD)
  then have "friend_ok (friends_list dht ! i)" using dht_inv_friends [OF assms(1)] by (simp add: list_all_length)
  then have "friend_ok f" using l by (rule dht_friend_lock_ok)
  with assms Some l show ?thesis
    by (auto simp: dht_addfriend_def friends_update_ok dht_inv_set_friends dht_inv_friends split: if_splits)
next
  case None
  obtain n r1 where n: "random_u64 (rng dht) = (n, r1)" by fastforce
  let ?f = "empty_dht_friend\<lparr>df_public_key := take CRYPTO_PUBLIC_KEY_SIZE pk, friend_nat := empty_nat\<lparr>nat_ping_id := n\<rparr>\<rparr>"
  obtain t f where l: "dht_friend_lock ?f cb data number = (t, f)" by fastforce
  have f: "friend_ok f" using assms(2) by (intro dht_friend_lock_ok [OF _ l]) (simp add: size_defs)
  let ?d = "dht\<lparr>rng := r1, friends_list := friends_list dht @ [f]\<rparr>"
  have d: "dht_inv h ?d" using assms(1) f by (simp add: dht_inv_def)
  obtain nodes num where g: "get_close_nodes ?d (df_public_key f) TOX_AF_UNSPEC True False = (nodes, num)" by fastforce
  have "nodes_ok MAX_SENT_NODES nodes \<and> num \<le> MAX_SENT_NODES"
    using get_close_nodes_shape [OF g _ _ all_clients_ok [OF d]] f by (simp add: friend_ok_def)
  then have "friend_ok (f\<lparr>df_to_bootstrap := nodes, df_num_to_bootstrap := num\<rparr>)" using f by (simp add: friend_ok_def)
  then have "dht_inv h (?d\<lparr>friends_list := friends_list dht @ [f\<lparr>df_to_bootstrap := nodes, df_num_to_bootstrap := num\<rparr>]\<rparr>)"
    using d by (simp add: dht_inv_def)
  with assms None n l g show ?thesis
    by (auto simp: dht_addfriend_def Let_def simp del: find_index_None split: if_splits)
qed

lemma dht_delfriend_inv [keep_inv]:
  assumes "dht_inv h dht" "dht_delfriend h dht pk tok = Some (r, dht')"
  shows "dht_inv h dht'"
proof (cases "index_of_friend_pk (friends_list dht) pk")
  case (Some i)
  obtain f where u: "dht_friend_unlock (friends_list dht ! i) tok = Some f"
    using assms(2) Some by (auto simp: dht_delfriend_def split: option.splits)
  have i: "i < length (friends_list dht)" using Some by (auto simp: index_of_friend_pk_def dest: find_index_SomeD)
  then have "friend_ok (friends_list dht ! i)" using dht_inv_friends [OF assms(1)] by (simp add: list_all_length)
  then have "friend_ok f" using u by (rule dht_friend_unlock_ok)
  then have fs: "list_all friend_ok ((friends_list dht)[i := f])"
    using dht_inv_friends [OF assms(1)] by (rule friends_update_ok [rotated])
  then have last: "friend_ok ((friends_list dht)[i := f] ! (length (friends_list dht) - 1))"
    using i by (simp add: list_all_length)
  have tk: "list_all friend_ok (take n gs)" if "list_all friend_ok gs" for n gs
    using that by (auto simp: list_all_iff dest: in_set_takeD)
  show ?thesis
    using assms Some u fs last tk dht_inv_friends [OF assms(1)]
    by (auto simp: dht_delfriend_def Let_def simp del: nth_list_update intro!: dht_inv_set_friends tk friends_update_ok split: if_splits)
qed (use assms in \<open>simp add: dht_delfriend_def del: find_index_None\<close>)

lemma index_of_friend_last:
  assumes "index_of_friend_pk fs pk = None" "length pk = 32" "length (df_public_key f) = 32" "df_public_key f = pk"
  shows "index_of_friend_pk (fs @ [f]) pk = Some (length fs)"
  using assms by (induction fs) (auto simp: index_of_friend_pk_def pk_equal_iff split: if_splits)

lemma lock_one: "lock_flags f = 0 \<Longrightarrow> dht_friend_lock f cb data number =
  (1, f\<lparr>lock_flags := 1, callbacks := (callbacks f)[0 := \<lparr>ip_callback = cb, cb_data = data, cb_number = number\<rparr>]\<rparr>)"
  by (simp add: dht_friend_lock_def size_defs upt_conv_Cons)

lemma unlock_one:
  "lock_flags f = 1 \<Longrightarrow> dht_friend_unlock f 1 = Some (f\<lparr>lock_flags := 0, callbacks := (callbacks f)[0 := empty_callback]\<rparr>)"
  by (simp add: dht_friend_unlock_def size_defs upt_conv_Cons)

lemma dht_addfriend_new:
  assumes "length pk = 32" "index_of_friend_pk (friends_list dht) pk = None" "\<And>n. malloc_ok (plat h) n"
  shows "\<exists>f r. lock_flags f = 1 \<and> df_public_key f = pk \<and>
    dht_addfriend h dht pk cb data number = (0, Some 1, dht\<lparr>rng := r, friends_list := friends_list dht @ [f]\<rparr>)"
proof -
  obtain n r where n: "random_u64 (rng dht) = (n, r)" by fastforce
  define f0 where "f0 = empty_dht_friend\<lparr>df_public_key := take CRYPTO_PUBLIC_KEY_SIZE pk, friend_nat := empty_nat\<lparr>nat_ping_id := n\<rparr>\<rparr>"
  define f where "f = f0\<lparr>lock_flags := 1, callbacks := (callbacks f0)[0 := \<lparr>ip_callback = cb, cb_data = data, cb_number = number\<rparr>]\<rparr>"
  have l: "dht_friend_lock f0 cb data number = (1, f)" unfolding f_def by (rule lock_one) (simp add: f0_def empty_dht_friend_def)
  obtain nodes num where g: "get_close_nodes (dht\<lparr>rng := r, friends_list := friends_list dht @ [f]\<rparr>) (df_public_key f)
      TOX_AF_UNSPEC True False = (nodes, num)" by fastforce
  have "dht_addfriend h dht pk cb data number =
      (0, Some 1, dht\<lparr>rng := r, friends_list := friends_list dht @ [f\<lparr>df_to_bootstrap := nodes, df_num_to_bootstrap := num\<rparr>]\<rparr>)"
    using assms(2,3) unfolding dht_addfriend_def n Let_def prod.case f0_def [symmetric] l g
    by (simp add: g del: find_index_None)
  then show ?thesis
    using assms(1) by (intro exI [of _ "f\<lparr>df_to_bootstrap := nodes, df_num_to_bootstrap := num\<rparr>"] exI [of _ r])
      (simp add: f_def f0_def size_defs)
qed

section \<open>Adding to the close list\<close>

lemma get_put_close_bucket:
  assumes "clients_ok LCLIENT_LIST (close_clientlist dht)" "index < LCLIENT_LENGTH" "length cs = LCLIENT_NODES"
  shows "get_close_bucket (put_close_bucket dht index cs) index = cs"
  using assms bucket_fits_close [OF assms(2)]
  by (simp add: get_close_bucket_def put_close_bucket_def slice_def write_at_def clients_ok_def)

lemma bucket_of_cong: "self_public_key dht' = self_public_key dht \<Longrightarrow> bucket_of dht' = bucket_of dht"
  by (simp add: bucket_of_def fun_eq_iff)

lemma get_close_bucket_cong: "close_clientlist dht' = close_clientlist dht \<Longrightarrow> get_close_bucket dht' = get_close_bucket dht"
  by (simp add: get_close_bucket_def fun_eq_iff)

text \<open>A node goes into its bucket if and only if an entry there has no live address, and takes
  the place of such an entry.\<close>

lemma add_to_close_effect:
  assumes "dht_inv h dht" "length pk = 32" "add_to_close h dht pk ipp False = (r, dht')"
  defines "b \<equiv> get_close_bucket dht (bucket_of dht pk)"
  shows "r \<longleftrightarrow> (\<exists>c \<in> set b. both_timeout (dht_cur_time dht) c)"
    and "r \<Longrightarrow> \<exists>i c. i < length b \<and> both_timeout (dht_cur_time dht) (b ! i) \<and> cd_public_key c = pk \<and>
      get_close_bucket dht' (bucket_of dht' pk) = b[i := c] \<and> friends_list dht' = friends_list dht"
proof -
  show "r \<longleftrightarrow> (\<exists>c \<in> set b. both_timeout (dht_cur_time dht) c)"
  proof (cases "find_index (both_timeout (dht_cur_time dht)) b")
    case None
    then have "\<not> (\<exists>c \<in> set b. both_timeout (dht_cur_time dht) c)" by simp
    then show ?thesis using assms(3) unfolding add_to_close_def Let_def b_def [symmetric] None by simp
  next
    case (Some i)
    from find_index_SomeD [OF this] have "\<exists>c \<in> set b. both_timeout (dht_cur_time dht) c" by (meson nth_mem)
    then show ?thesis using Some assms(3) unfolding add_to_close_def Let_def b_def [symmetric] by simp
  qed
  show "\<exists>i c. i < length b \<and> both_timeout (dht_cur_time dht) (b ! i) \<and> cd_public_key c = pk \<and>
      get_close_bucket dht' (bucket_of dht' pk) = b[i := c] \<and> friends_list dht' = friends_list dht" if r: r
  proof -
    obtain i where Some: "find_index (both_timeout (dht_cur_time dht)) b = Some i"
      using assms(3) r unfolding add_to_close_def Let_def b_def [symmetric] by (auto split: option.splits)
    note i = find_index_SomeD [OF Some]
    have b: "clients_ok LCLIENT_NODES b"
      unfolding b_def using assms(1) by (intro get_close_bucket_ok bucket_of_less dht_inv_close)
    define c where "c = (update_client_with_reset (dht_mono_time dht)
        ((b ! i)\<lparr>cd_public_key := pk_copy (cd_public_key (b ! i)) pk\<rparr>) ipp)\<lparr>announce_node := False\<rparr>"
    have len: "length (cd_public_key (b ! i)) = 32" using b i by (auto simp: clients_ok_def list_all_length)
    then have c: "cd_public_key c = pk" using assms(2) by (simp add: c_def pk_copy_def write_at_def size_defs)
    let ?d = "put_close_bucket dht (bucket_of dht pk) (b[i := c])"
    have "dht_inv h ?d" using assms(1,2) b c by (intro put_close_bucket_ok bucket_of_less clients_ok_update) simp_all
    then have s: "only_sends h ?d dht'"
      using assms(2,3) Some send_announce_ping_only_sends [of pk h ?d ipp] unfolding add_to_close_def Let_def b_def [symmetric]
      by (simp add: c_def dht_inv_caches)
    note fields = only_sends_fields [OF s]
    have "get_close_bucket dht' (bucket_of dht' pk) = get_close_bucket ?d (bucket_of dht pk)"
      using fields(4,7) by (simp add: get_close_bucket_cong [of dht' ?d] bucket_of_cong [of dht' dht] put_close_bucket_def)
    also have "\<dots> = b[i := c]"
      using assms(1) b by (intro get_put_close_bucket bucket_of_less dht_inv_close) (simp_all add: clients_ok_def)
    finally show ?thesis using i c fields(9) by (auto simp: put_close_bucket_def)
  qed
qed

section \<open>Properties\<close>

definition example_random :: Random where
  "example_random = \<lparr>r_bytes = \<lambda>n. of_nat n, r_keypair = \<lambda>_. (replicate 32 1, replicate 32 2), r_pos = 0\<rparr>"

definition example_host :: host where
  "example_host = \<lparr>plat = fuzz_platform, host_qsort = insertion_qsort, sendto = \<lambda>_ d. int (length d),
     host_uniform = sys_random_uniform (\<lambda>_. 0)\<rparr>"

text \<open>A platform on which key pairs of equal halves agree: the shared key is the XOR of the two keys.\<close>

definition xor_platform :: platform where
  "xor_platform = fuzz_platform\<lparr>crypto_box_beforenm := \<lambda>pk sk. Some (xor_bytes pk sk)\<rparr>"

lemma xor_box_platform: "box_platform xor_platform"
  using fuzz.box_platform_axioms by (simp add: box_platform_def xor_platform_def)

definition xor_host :: host where
  "xor_host = example_host\<lparr>plat := xor_platform\<rparr>"

definition new_cache :: "bytes \<Rightarrow> Shared_Key_Cache" where
  "new_cache sk = \<lparr>keys = replicate 1024 empty_key, self_secret_key = sk, skc_timeout = 0, keys_per_slot = 4\<rparr>"

text \<open>A node at time 1000 with the given keys and an empty close list.\<close>

definition example_dht :: "bytes \<Rightarrow> bytes \<Rightarrow> DHT" where
  "example_dht pk sk = \<lparr>dht_mono_time = example_time, rng = example_random, net_family = TOX_AF_INET, sent = [], called = [],
     hole_punching_enabled = True, lan_discovery_enabled = True,
     close_clientlist = replicate LCLIENT_LIST empty_client, close_lastgetnodes = 0, close_bootstrap_times = 0,
     self_public_key = pk, dht_self_secret_key = sk, friends_list = [], loaded_nodes_list = None, loaded_nodes_index = 0,
     shared_keys_recv = new_cache sk, shared_keys_sent = new_cache sk,
     ping = \<lparr>ping_array = example_ring, to_ping = replicate MAX_TO_PING empty_node_format, last_to_ping = 0\<rparr>,
     dht_ping_array = example_ring, dht_cur_time = 1000, cryptopackethandlers = replicate 256 None,
     to_bootstrap = replicate MAX_CLOSE_TO_BOOTSTRAP_NODES empty_node_format, num_to_bootstrap = 0,
     get_nodes_response = None\<rparr>"

lemma example_dht_inv: "length pk = 32 \<Longrightarrow> dht_inv h (example_dht pk sk)"
  by (simp add: dht_inv_def example_dht_def clients_ok_def list_all_iff empty_client_def nodes_ok_def keys_ok_def
      empty_node_format_def caches_ok_def new_cache_def cache_inv_def example_ring_inv)

text \<open>C15: \<^verbatim>\<open>get_close_nodes\<close> answers with the closest clients of the close list and of all friends: each
  node of the answer has its own key and is the live address of an eligible client, and an
  eligible client is left out only if four nodes are found and none of them is farther.\<close>

theorem get_close_nodes_closest:
  assumes "length public_key = 32" "sa_family \<in> {TOX_AF_INET, TOX_AF_INET6, TOX_AF_UNSPEC}"
    and "list_all (client_key_ok (dht_cur_time dht) sa_family is_LAN want_announce) (all_clients dht)"
    and "get_close_nodes dht public_key sa_family is_LAN want_announce = (nodes, num)"
  shows "length nodes = MAX_SENT_NODES \<and> num \<le> MAX_SENT_NODES \<and> distinct (map nf_public_key (take num nodes)) \<and>
    (\<forall>n \<in> set (take num nodes). \<exists>c \<in> set (all_clients dht).
       eligible (dht_cur_time dht) sa_family is_LAN want_announce c \<and> n = node_of sa_family c) \<and>
    (\<forall>c \<in> set (all_clients dht). eligible (dht_cur_time dht) sa_family is_LAN want_announce c \<longrightarrow>
       cd_public_key c \<notin> nf_public_key ` set (take num nodes) \<longrightarrow>
       num = MAX_SENT_NODES \<and>
       (\<forall>n \<in> set nodes. key_distance public_key (nf_public_key n) \<le> key_distance public_key (cd_public_key c)))"
  using get_close_nodes_inner_closest [OF assms(1,3,2)] assms(4) get_close_nodes_eq [OF assms(2)] by simp

theorem get_close_nodes_closest_witness:
  "\<exists>nodes. get_close_nodes ((example_dht (replicate 32 5) [])\<lparr>close_clientlist := map (\<lambda>k. example_client k 1000) [9, 1, 7],
        friends_list := [empty_dht_friend\<lparr>client_list := map (\<lambda>k. example_client k 1000) [2, 3]\<rparr>]\<rparr>)
      (replicate 32 0) TOX_AF_INET False False = (nodes, 4) \<and>
    map nf_public_key nodes = map (replicate 32) [3, 1, 7, 2] \<and> distinct (map nf_public_key nodes) \<and>
    key_distance (replicate 32 0) (nf_public_key (nodes ! 0)) \<le> key_distance (replicate 32 0) (replicate 32 9)"
proof -
  define dht where "dht = (example_dht (replicate 32 5) [])\<lparr>close_clientlist := map (\<lambda>k. example_client k 1000) [9, 1, 7],
        friends_list := [empty_dht_friend\<lparr>client_list := map (\<lambda>k. example_client k 1000) [2, 3]\<rparr>]\<rparr>"
  obtain nodes num where r: "get_close_nodes dht (replicate 32 0) TOX_AF_INET False False = (nodes, num)" by fastforce
  have cs: "all_clients dht = map (\<lambda>k. example_client k 1000) [9, 1, 7, 2, 3]" by (simp add: dht_def all_clients_def)
  have now: "dht_cur_time dht = 1000" by (simp add: dht_def example_dht_def)
  have "map_prod (map nf_public_key) (\<lambda>n. n) (nodes, num) = (map (replicate 32) [3, 1, 7, 2], 4)"
    unfolding r [symmetric] get_close_nodes_eq [of TOX_AF_INET, simplified] cs now by code_simp
  then have nodes: "map nf_public_key nodes = map (replicate 32) [3, 1, 7, 2]" and num: "num = 4" by simp_all
  then have "length (map nf_public_key nodes) = length [3, 1, 7, 2 :: nat]" by simp
  then have len: "length nodes = 4" by simp
  have keys: "list_all (client_key_ok (dht_cur_time dht) TOX_AF_INET False False) (all_clients dht)"
    unfolding cs now by code_simp
  have el: "eligible (dht_cur_time dht) TOX_AF_INET False False (example_client 9 1000)" unfolding now by code_simp
  have c: "cd_public_key (example_client 9 1000) = replicate 32 9" by (simp only: example_client_def Client_data.simps)
  note all = get_close_nodes_closest [OF _ _ keys r]
  have "set (map nf_public_key nodes) = replicate 32 ` {3, 1, 7, 2}" unfolding nodes by auto
  then have "cd_public_key (example_client 9 1000) \<notin> nf_public_key ` set (take num nodes)" using num len c by simp
  moreover have "example_client 9 1000 \<in> set (all_clients dht)" by (simp add: cs)
  ultimately have "\<forall>n \<in> set nodes. key_distance (replicate 32 0) (nf_public_key n) \<le> key_distance (replicate 32 0) (replicate 32 9)"
    using all el c by (metis (no_types, lifting) insertI1 length_replicate)
  moreover have "distinct (map nf_public_key nodes)" using all num len by simp
  moreover have "nodes ! 0 \<in> set nodes" using len by (intro nth_mem) simp
  ultimately show ?thesis using r nodes unfolding num dht_def by blast
qed

text \<open>The locks of a friend are a map from at most 32 lock numbers to callbacks:
  \<^verbatim>\<open>dht_friend_lock\<close> takes a free number and hands out its bit as token, or fails with token 0
  if all are taken; \<^verbatim>\<open>dht_friend_unlock\<close> with the token of a held lock frees exactly that lock, and
  with the token of a free one the assertion fails.\<close>

theorem friend_locks_refine_map:
  assumes "length (callbacks f) = DHT_FRIEND_MAX_LOCKS" "dht_friend_lock f cb data number = (tok, f')" "n < DHT_FRIEND_MAX_LOCKS"
  shows "(if \<forall>m < DHT_FRIEND_MAX_LOCKS. locks f m \<noteq> None then tok = 0 \<and> f' = f
     else \<exists>m < DHT_FRIEND_MAX_LOCKS. locks f m = None \<and> tok = push_bit m 1 \<and>
       locks f' = (locks f)(m \<mapsto> \<lparr>ip_callback = cb, cb_data = data, cb_number = number\<rparr>)) \<and>
    (case locks f n of
       None \<Rightarrow> dht_friend_unlock f (push_bit n 1) = None
     | Some _ \<Rightarrow> \<exists>f2. dht_friend_unlock f (push_bit n 1) = Some f2 \<and> locks f2 = (locks f)(n := None))"
  using dht_friend_lock_spec [OF assms(1,2)] dht_friend_unlock_spec [OF assms(1,3)]
  by (auto split: option.split if_splits)

theorem friend_locks_refine_map_witness:
  "\<exists>m. fst (dht_friend_lock empty_dht_friend (Some 1) 0 7) = push_bit m 1 \<and> dht_friend_unlock empty_dht_friend (push_bit 3 1) = None"
proof -
  have "locks empty_dht_friend m = None" for m by (simp add: locks_def empty_dht_friend_def)
  moreover have "length (callbacks empty_dht_friend) = DHT_FRIEND_MAX_LOCKS" by (simp add: empty_dht_friend_def)
  moreover have "0 < DHT_FRIEND_MAX_LOCKS" "3 < DHT_FRIEND_MAX_LOCKS" by (simp_all add: size_defs)
  ultimately show ?thesis
    using friend_locks_refine_map [of empty_dht_friend "Some 1" 0 7, OF _ prod.collapse [symmetric], of 3] by (auto split: if_splits)
qed

text \<open>A friend that is added and then removed with the token that was handed out leaves the list of
  friends as it was.\<close>

theorem friend_add_remove:
  assumes "length pk = 32" "index_of_friend_pk (friends_list dht) pk = None" "\<And>n. malloc_ok (plat h) n"
  shows "\<exists>tok dht1 dht2. dht_addfriend h dht pk cb data number = (0, Some tok, dht1) \<and> tok \<noteq> 0 \<and>
    index_of_friend_pk (friends_list dht1) pk = Some (length (friends_list dht)) \<and>
    dht_delfriend h dht1 pk tok = Some (0, dht2) \<and> friends_list dht2 = friends_list dht"
proof -
  obtain f r where f: "lock_flags f = 1" "df_public_key f = pk"
    and add: "dht_addfriend h dht pk cb data number = (0, Some 1, dht\<lparr>rng := r, friends_list := friends_list dht @ [f]\<rparr>)"
    using dht_addfriend_new [OF assms] by blast
  have "index_of_friend_pk (friends_list dht @ [f]) pk = Some (length (friends_list dht))"
    using assms(1,2) f(2) by (intro index_of_friend_last) simp_all
  with add f(1) unlock_one [of f] assms(3) show ?thesis
    by (auto simp: dht_delfriend_def Let_def)
qed

theorem friend_add_remove_witness:
  "\<exists>tok dht1 dht2. dht_addfriend example_host (example_dht (replicate 32 5) []) (replicate 32 8) (Some 1) 0 7 = (0, Some tok, dht1) \<and>
    tok \<noteq> 0 \<and> dht_delfriend example_host dht1 (replicate 32 8) tok = Some (0, dht2) \<and> friends_list dht2 = []"
proof -
  have fs: "friends_list (example_dht (replicate 32 5) []) = []" by (simp add: example_dht_def)
  have "malloc_ok (plat example_host) n" for n by (simp add: example_host_def)
  from friend_add_remove [OF _ _ this, of "replicate 32 8" "example_dht (replicate 32 5) []"] show ?thesis
    unfolding fs by (simp add: index_of_friend_pk_def) blast
qed

text \<open>For a friend that is in the list already, \<^verbatim>\<open>dht_addfriend\<close> takes another lock whenever one is free,
  but it never stores the token of that lock for the caller, who cannot release it.\<close>

theorem second_lock_token_lost:
  assumes "dht_inv h dht" "index_of_friend_pk (friends_list dht) pk = Some i"
    and "dht_addfriend h dht pk cb data number = (r, tok, dht')"
  shows "tok = None \<and> (r = 0 \<longleftrightarrow> (\<exists>n < DHT_FRIEND_MAX_LOCKS. locks (friends_list dht ! i) n = None)) \<and>
    (r \<noteq> 0 \<or> (\<exists>n. locks (friends_list dht ! i) n = None \<and>
       locks (friends_list dht' ! i) = (locks (friends_list dht ! i))(n \<mapsto> \<lparr>ip_callback = cb, cb_data = data, cb_number = number\<rparr>)))"
proof -
  let ?f = "friends_list dht ! i"
  have i: "i < length (friends_list dht)" using assms(2) by (auto simp: index_of_friend_pk_def dest: find_index_SomeD)
  then have "friend_ok ?f" using dht_inv_friends [OF assms(1)] by (simp add: list_all_length)
  then have cb: "length (callbacks ?f) = DHT_FRIEND_MAX_LOCKS" by (simp add: friend_ok_def)
  obtain t f where l: "dht_friend_lock ?f cb data number = (t, f)" by fastforce
  note spec = dht_friend_lock_spec [OF cb l]
  show ?thesis
  proof (cases "\<forall>n < DHT_FRIEND_MAX_LOCKS. locks ?f n \<noteq> None")
    case True
    with spec assms(2,3) l show ?thesis by (auto simp: dht_addfriend_def)
  next
    case False
    with spec obtain n where n: "n < DHT_FRIEND_MAX_LOCKS" "locks ?f n = None" "t = push_bit n 1"
      "locks f = (locks ?f)(n \<mapsto> \<lparr>ip_callback = cb, cb_data = data, cb_number = number\<rparr>)" by (metis (no_types, lifting))
    have "t \<noteq> 0" using n(1,3) by (simp add: size_defs)
    with n assms(2,3) l i show ?thesis by (auto simp: dht_addfriend_def)
  qed
qed

theorem second_lock_token_lost_witness:
  "(let (_, _, dht1) = dht_addfriend example_host (example_dht (replicate 32 5) []) (replicate 32 8) (Some 1) 0 7
    in fst (snd (dht_addfriend example_host dht1 (replicate 32 8) (Some 2) 0 9)) = None)"
proof -
  obtain f r where f: "df_public_key f = replicate 32 8" and
    add: "dht_addfriend example_host (example_dht (replicate 32 5) []) (replicate 32 8) (Some 1) 0 7 =
      (0, Some 1, (example_dht (replicate 32 5) [])\<lparr>rng := r, friends_list := [f]\<rparr>)" (is "_ = (0, Some 1, ?d)")
    using dht_addfriend_new [of "replicate 32 8" "example_dht (replicate 32 5) []" example_host "Some 1" 0 7]
    by (auto simp: example_dht_def example_host_def index_of_friend_pk_def)
  have inv: "dht_inv example_host ?d"
    using dht_addfriend_inv [OF example_dht_inv _ add] by simp
  have ix: "index_of_friend_pk (friends_list ?d) (replicate 32 8) = Some 0"
    using f by (simp add: index_of_friend_pk_def pk_equal_iff)
  obtain r2 tok d2 where two: "dht_addfriend example_host ?d (replicate 32 8) (Some 2) 0 9 = (r2, tok, d2)" by (metis prod.collapse)
  from second_lock_token_lost [OF inv ix two] show ?thesis unfolding add Let_def prod.case two by simp
qed

text \<open>For a node without friends, \<^verbatim>\<open>addto_lists\<close> counts the wrong way round: a new client that is
  stored in its bucket counts as not used, one that is dropped because its bucket is full counts
  as used.\<close>

theorem addto_lists_counts_dropped:
  assumes "dht_inv h dht" "length pk = 32" "friends_list dht = []"
    and "fst (client_or_ip_port_in_list (dht_mono_time dht) (close_clientlist dht) pk (ip_port_normalize ip_port)) = False"
    and "addto_lists h dht ip_port pk = (used, dht')"
  shows "used = (if \<exists>c \<in> set (get_close_bucket dht (bucket_of dht pk)). both_timeout (dht_cur_time dht) c then 0 else 1) \<and>
    (used = 0 \<longleftrightarrow> index_of_client_pk (get_close_bucket dht' (bucket_of dht' pk)) pk \<noteq> None)"
proof -
  let ?ipp = "ip_port_normalize ip_port" and ?b = "get_close_bucket dht (bucket_of dht pk)"
  have c: "client_or_ip_port_in_list (dht_mono_time dht) (close_clientlist dht) pk ?ipp = (False, close_clientlist dht)"
    and new: "index_of_client_pk (close_clientlist dht) pk = None"
    using assms(4) by (auto simp: client_or_ip_port_in_list_def Let_def split: option.splits)
  obtain r d1 where a: "add_to_close h dht pk ?ipp False = (r, d1)" by fastforce
  note eff = add_to_close_effect [OF assms(1,2) a]
  have res: "used = (if r then 0 else 1)" "dht' = d1\<lparr>friends_list := []\<rparr>" if "friends_list d1 = []"
    using assms(5) that by (auto simp: addto_lists_def Let_def c a)
  show ?thesis
  proof (cases r)
    case True
    from eff(2) [OF this] obtain i c where ic: "i < length ?b" "cd_public_key c = pk"
      "get_close_bucket d1 (bucket_of d1 pk) = ?b[i := c]" "friends_list d1 = friends_list dht" by blast
    have "c \<in> set (?b[i := c])" using ic(1) by (rule set_update_memI)
    moreover have "pk_equal (cd_public_key c) pk" using ic(2) assms(2) by (simp add: pk_equal_iff)
    ultimately have "index_of_client_pk (?b[i := c]) pk \<noteq> None"
      unfolding index_of_client_pk_def find_index_None by blast
    moreover have "get_close_bucket dht' (bucket_of dht' pk) = get_close_bucket d1 (bucket_of d1 pk)"
      using res(2) ic(4) assms(3) by (simp add: get_close_bucket_def bucket_of_def)
    ultimately have "index_of_client_pk (get_close_bucket dht' (bucket_of dht' pk)) pk \<noteq> None" using ic(3) by simp
    moreover have "used = 0" using res(1) ic(4) assms(3) True by simp
    ultimately show ?thesis using eff(1) True by simp
  next
    case False
    then have d1: "d1 = dht" using a by (auto simp: add_to_close_def Let_def split: option.splits)
    have "set ?b \<subseteq> set (close_clientlist dht)"
      by (auto simp: get_close_bucket_def slice_def dest: in_set_takeD in_set_dropD)
    then have "index_of_client_pk ?b pk = None" using new by (auto simp: index_of_client_pk_def)
    moreover have "get_close_bucket dht' (bucket_of dht' pk) = ?b"
      using res(2) d1 assms(3) by (simp add: get_close_bucket_def bucket_of_def)
    ultimately show ?thesis using res d1 assms(3) eff(1) False by simp
  qed
qed

theorem addto_lists_counts_dropped_witness:
  "fst (addto_lists example_host (example_dht (replicate 32 5) []) example_ipp (replicate 32 8)) = 0"
proof -
  let ?d = "example_dht (replicate 32 5) []"
  have cl: "close_clientlist ?d = replicate 1024 empty_client" "friends_list ?d = []" "dht_mono_time ?d = example_time"
    "dht_cur_time ?d = 1000" by (simp_all add: example_dht_def size_defs)
  have e: "\<not> pk_equal (cd_public_key empty_client) (replicate 32 8)"
    "\<not> ipport_equal (assoc_ip_port (assoc4 empty_client)) (ip_port_normalize example_ipp)"
    "\<not> ipport_equal (assoc_ip_port (assoc6 empty_client)) (ip_port_normalize example_ipp)"
    "both_timeout 1000 empty_client" by code_simp+
  have none: "index_of_client_pk (replicate 1024 empty_client) (replicate 32 8) = None"
    "index_of_client_ip_port (replicate 1024 empty_client) (ip_port_normalize example_ipp) = None"
    using e by (simp_all add: index_of_client_pk_def index_of_client_ip_port_def)
  then have "fst (client_or_ip_port_in_list example_time (replicate 1024 empty_client) (replicate 32 8) (ip_port_normalize example_ipp)) = False"
    by (simp add: client_or_ip_port_in_list_def)
  moreover have "get_close_bucket ?d (bucket_of ?d (replicate 32 8)) = replicate 8 empty_client"
    using bucket_of_less [of ?d "replicate 32 8"] by (simp add: get_close_bucket_def cl slice_def size_defs)
  ultimately show ?thesis
    using addto_lists_counts_dropped [OF example_dht_inv _ _ _ prod.collapse [symmetric], of "replicate 32 5" "replicate 32 8" "[]"
        example_ipp] e(4) by (simp add: cl)
qed

end
