(* ===== verification/Ping_Node.thy ===== *)
theory Ping_Node
  imports DHT_State
begin

text \<open>
  \<^verbatim>\<open>toxcore/ping.c\<close>: ping requests and responses between nodes, and the list of nodes that are
  pinged soon. The \<^verbatim>\<open>Ping\<close> object is a field of the DHT it belongs to.

  Shown here: a response is accepted only for an outstanding request to the same key and address.
\<close>

section \<open>Definitions\<close>

definition TIME_TO_PING :: u64 where [size_defs]: "TIME_TO_PING = 2"
definition PING_NUM_MAX :: u32 where [size_defs]: "PING_NUM_MAX = 512"
definition PING_TIMEOUT :: u32 where [size_defs]: "PING_TIMEOUT = 5"
definition PING_PLAIN_SIZE :: nat where [size_defs]: "PING_PLAIN_SIZE = 9"
definition DHT_PING_SIZE :: nat where [size_defs]:
  "DHT_PING_SIZE = 1 + CRYPTO_PUBLIC_KEY_SIZE + CRYPTO_NONCE_SIZE + PING_PLAIN_SIZE + CRYPTO_MAC_SIZE"
definition PING_DATA_SIZE :: nat where [size_defs]: "PING_DATA_SIZE = CRYPTO_PUBLIC_KEY_SIZE + 32"
definition NET_PACKET_PING_REQUEST :: byte where [size_defs]: "NET_PACKET_PING_REQUEST = 0x00"
definition NET_PACKET_PING_RESPONSE :: byte where [size_defs]: "NET_PACKET_PING_RESPONSE = 0x01"

text \<open>An address as it lies in memory on a 64-bit host, padding included; the padding is written
  as zero, and reading ignores it.\<close>

definition ip_port_mem :: "IP_Port \<Rightarrow> bytes" where
  "ip_port_mem ipp = family (ip ipp) # replicate 7 0 @ take 16 (addr (ip ipp)) @ host_bytes 2 (port ipp) @ replicate 6 0"

definition mem_ip_port :: "bytes \<Rightarrow> IP_Port" where
  "mem_ip_port bs = \<lparr>ip = \<lparr>family = bs ! 0, addr = slice 8 16 bs\<rparr>, port = host_word (slice 24 2 bs)\<rparr>"

definition ping_send_request :: "host \<Rightarrow> DHT \<Rightarrow> IP_Port \<Rightarrow> bytes \<Rightarrow> DHT" where
  "ping_send_request h dht ipp public_key =
     (if pk_equal public_key (self_public_key dht) then dht
      else
        let (shared_key, dht) = dht_get_shared_key_sent h dht public_key;
            data = take CRYPTO_PUBLIC_KEY_SIZE public_key @ ip_port_mem ipp;
            (n, r) = random_u64 (rng dht);
            (pid, arr) = ping_array_add (plat h) (ping_array (ping dht)) (dht_mono_time dht) n data;
            dht = dht\<lparr>rng := r, ping := (ping dht)\<lparr>ping_array := arr\<rparr>\<rparr>
        in if pid = 0 then dht
           else
             let ping_plain = NET_PACKET_PING_REQUEST # host_bytes 8 pid;
                 (nonce, r) = random_nonce (rng dht);
                 dht = dht\<lparr>rng := r\<rparr>
             in case encrypt_data_symmetric (plat h) shared_key nonce ping_plain of
                  None \<Rightarrow> dht
                | Some enc \<Rightarrow>
                    if length enc \<noteq> PING_PLAIN_SIZE + CRYPTO_MAC_SIZE then dht
                    else snd (dht_send h dht ipp
                           (NET_PACKET_PING_REQUEST # take CRYPTO_PUBLIC_KEY_SIZE (self_public_key dht) @ nonce @ enc)))"

definition ping_send_response :: "host \<Rightarrow> DHT \<Rightarrow> IP_Port \<Rightarrow> bytes \<Rightarrow> u64 \<Rightarrow> bytes option \<Rightarrow> int \<times> DHT" where
  "ping_send_response h dht ipp public_key pid shared_key =
     (if pk_equal public_key (self_public_key dht) then (1, dht)
      else
        let ping_plain = NET_PACKET_PING_RESPONSE # host_bytes 8 pid;
            (nonce, r) = random_nonce (rng dht);
            dht = dht\<lparr>rng := r\<rparr>
        in case encrypt_data_symmetric (plat h) shared_key nonce ping_plain of
             None \<Rightarrow> (1, dht)
           | Some enc \<Rightarrow>
               if length enc \<noteq> PING_PLAIN_SIZE + CRYPTO_MAC_SIZE then (1, dht)
               else dht_send h dht ipp
                      (NET_PACKET_PING_RESPONSE # take CRYPTO_PUBLIC_KEY_SIZE (self_public_key dht) @ nonce @ enc))"

definition in_list :: "Client_data list \<Rightarrow> Mono_Time \<Rightarrow> bytes \<Rightarrow> IP_Port \<Rightarrow> bool" where
  "in_list list mt public_key ipp =
     list_ex (\<lambda>c. pk_equal (cd_public_key c) public_key \<and>
        (let ipptp = (if net_family_is_ipv4 (family (ip ipp)) then assoc4 c else assoc6 c)
         in \<not> mono_time_is_timeout mt (timestamp ipptp) BAD_NODE_TIMEOUT \<and> ipport_equal (assoc_ip_port ipptp) ipp)) list"

text \<open>The search for a free entry stops at an unset address or at the same key.\<close>

definition ping_add :: "host \<Rightarrow> DHT \<Rightarrow> bytes \<Rightarrow> IP_Port \<Rightarrow> int \<times> DHT" where
  "ping_add h dht public_key ipp =
     (if \<not> ip_isset (ip ipp) then (- 1, dht)
      else if \<not> node_addable_to_close_list h dht public_key ipp then (- 1, dht)
      else if in_list (close_clientlist dht) (dht_mono_time dht) public_key ipp then (- 1, dht)
      else if fst (dht_getfriendip dht public_key) = 0 then (- 1, ping_send_request h dht ipp public_key)
      else
        let tp = to_ping (ping dht);
            node = \<lparr>nf_public_key = take CRYPTO_PUBLIC_KEY_SIZE public_key, nf_ip_port = ipp\<rparr>
        in case find_index (\<lambda>n. \<not> ip_isset (ip (nf_ip_port n)) \<or> pk_equal (nf_public_key n) public_key) tp of
             Some i \<Rightarrow>
               if \<not> ip_isset (ip (nf_ip_port (tp ! i))) then (0, dht\<lparr>ping := (ping dht)\<lparr>to_ping := tp[i := node]\<rparr>\<rparr>)
               else (- 1, dht)
           | None \<Rightarrow>
               case add_to_list tp public_key ipp (self_public_key dht) of
                 (added, tp) \<Rightarrow> (if added then 0 else - 1, dht\<lparr>ping := (ping dht)\<lparr>to_ping := tp\<rparr>\<rparr>))"

definition handle_ping_request :: "host \<Rightarrow> DHT \<Rightarrow> IP_Port \<Rightarrow> bytes \<Rightarrow> int \<times> DHT" where
  "handle_ping_request h dht source packet =
     (if length packet \<noteq> DHT_PING_SIZE then (1, dht)
      else
        let pk = slice 1 CRYPTO_PUBLIC_KEY_SIZE packet in
        if pk_equal pk (self_public_key dht) then (1, dht)
        else
          let (shared_key, dht) = dht_get_shared_key_recv h dht pk
          in case decrypt_data_symmetric (plat h) shared_key (slice (1 + CRYPTO_PUBLIC_KEY_SIZE) CRYPTO_NONCE_SIZE packet)
                    (slice (1 + CRYPTO_PUBLIC_KEY_SIZE + CRYPTO_NONCE_SIZE) (PING_PLAIN_SIZE + CRYPTO_MAC_SIZE) packet) of
               None \<Rightarrow> (1, dht)
             | Some ping_plain \<Rightarrow>
                 if length ping_plain \<noteq> PING_PLAIN_SIZE then (1, dht)
                 else if ping_plain ! 0 \<noteq> NET_PACKET_PING_REQUEST then (1, dht)
                 else
                   let dht = snd (ping_send_response h dht source pk (host_word (drop 1 ping_plain)) shared_key)
                   in (0, snd (ping_add h dht pk source)))"

definition handle_ping_response :: "host \<Rightarrow> DHT \<Rightarrow> IP_Port \<Rightarrow> bytes \<Rightarrow> int \<times> DHT" where
  "handle_ping_response h dht source packet =
     (if length packet \<noteq> DHT_PING_SIZE then (1, dht)
      else
        let pk = slice 1 CRYPTO_PUBLIC_KEY_SIZE packet in
        if pk_equal pk (self_public_key dht) then (1, dht)
        else
          let (shared_key, dht) = dht_get_shared_key_sent h dht pk
          in case decrypt_data_symmetric (plat h) shared_key (slice (1 + CRYPTO_PUBLIC_KEY_SIZE) CRYPTO_NONCE_SIZE packet)
                    (slice (1 + CRYPTO_PUBLIC_KEY_SIZE + CRYPTO_NONCE_SIZE) (PING_PLAIN_SIZE + CRYPTO_MAC_SIZE) packet) of
               None \<Rightarrow> (1, dht)
             | Some ping_plain \<Rightarrow>
                 if length ping_plain \<noteq> PING_PLAIN_SIZE then (1, dht)
                 else if ping_plain ! 0 \<noteq> NET_PACKET_PING_RESPONSE then (1, dht)
                 else case ping_array_check (ping_array (ping dht)) (dht_mono_time dht) PING_DATA_SIZE
                             (host_word (drop 1 ping_plain)) of
                     (None, arr) \<Rightarrow> (1, dht\<lparr>ping := (ping dht)\<lparr>ping_array := arr\<rparr>\<rparr>)
                   | (Some data, arr) \<Rightarrow>
                       let dht = dht\<lparr>ping := (ping dht)\<lparr>ping_array := arr\<rparr>\<rparr> in
                       if length data \<noteq> PING_DATA_SIZE then (1, dht)
                       else if \<not> pk_equal pk data then (1, dht)
                       else if \<not> ipport_equal (mem_ip_port (drop CRYPTO_PUBLIC_KEY_SIZE data)) source then (1, dht)
                       else (0, snd (addto_lists h dht source pk)))"

text \<open>The loop of \<^verbatim>\<open>ping_iterate\<close> with \<open>n\<close> entries left from \<open>i\<close> on; the result is the final index.\<close>

fun ping_iterate_loop :: "host \<Rightarrow> nat \<Rightarrow> nat \<Rightarrow> DHT \<Rightarrow> nat \<times> DHT" where
  "ping_iterate_loop h 0 i dht = (i, dht)"
| "ping_iterate_loop h (Suc n) i dht =
     (let node = to_ping (ping dht) ! i in
      if \<not> ip_isset (ip (nf_ip_port node)) then (i, dht)
      else if \<not> node_addable_to_close_list h dht (nf_public_key node) (nf_ip_port node)
        then ping_iterate_loop h n (i + 1) dht
      else
        let dht = ping_send_request h dht (nf_ip_port node) (nf_public_key node);
            node = node\<lparr>nf_ip_port := (nf_ip_port node)\<lparr>ip := ip_reset (ip (nf_ip_port node))\<rparr>\<rparr>
        in ping_iterate_loop h n (i + 1) (dht\<lparr>ping := (ping dht)\<lparr>to_ping := (to_ping (ping dht))[i := node]\<rparr>\<rparr>))"

definition ping_iterate :: "host \<Rightarrow> DHT \<Rightarrow> DHT" where
  "ping_iterate h dht =
     (if \<not> mono_time_is_timeout (dht_mono_time dht) (last_to_ping (ping dht)) TIME_TO_PING then dht
      else if \<not> ip_isset (ip (nf_ip_port (to_ping (ping dht) ! 0))) then dht
      else case ping_iterate_loop h MAX_TO_PING 0 dht of
          (i, dht) \<Rightarrow>
            if i \<noteq> 0 then dht\<lparr>ping := (ping dht)\<lparr>last_to_ping := mono_time_get (dht_mono_time dht)\<rparr>\<rparr> else dht)"

definition ping_new :: "platform \<Rightarrow> Ping option" where
  "ping_new P =
     (if \<not> malloc_ok P 2088 then None
      else map_option (\<lambda>arr. \<lparr>ping_array = arr, to_ping = replicate MAX_TO_PING empty_node_format, last_to_ping = 0\<rparr>)
             (ping_array_new P PING_NUM_MAX PING_TIMEOUT))"

section \<open>Every operation keeps the state well-formed\<close>

lemma dht_inv_rng [simp]: "dht_inv h (dht\<lparr>rng := r\<rparr>) = dht_inv h dht"
  and dht_inv_sent [simp]: "dht_inv h (dht\<lparr>sent := x\<rparr>) = dht_inv h dht"
  by (simp_all add: dht_inv_def)

lemma dht_inv_set_ping_array: "dht_inv h dht \<Longrightarrow> ping_inv a \<Longrightarrow> dht_inv h (dht\<lparr>ping := (ping dht)\<lparr>ping_array := a\<rparr>\<rparr>)"
  and dht_inv_set_to_ping: "dht_inv h dht \<Longrightarrow> nodes_ok MAX_TO_PING ns \<Longrightarrow> dht_inv h (dht\<lparr>ping := (ping dht)\<lparr>to_ping := ns\<rparr>\<rparr>)"
  and dht_inv_last_to_ping [simp]: "dht_inv h (dht\<lparr>ping := (ping dht)\<lparr>last_to_ping := t\<rparr>\<rparr>) = dht_inv h dht"
  and dht_inv_ping_array: "dht_inv h dht \<Longrightarrow> ping_inv (ping_array (ping dht))"
  and dht_inv_to_ping: "dht_inv h dht \<Longrightarrow> nodes_ok MAX_TO_PING (to_ping (ping dht))"
  by (simp_all add: dht_inv_def)

lemma dht_send_eq: "dht_send h dht ipp data = (sendpacket (sendto h) (net_family dht) ipp data, dht\<lparr>sent := sent dht @ [(ipp, data)]\<rparr>)"
  by (simp add: dht_send_def)

text \<open>What a ping changes: the key cache, the random source, the ring of pings and the log.\<close>

lemma ping_send_request_shape:
  assumes "caches_ok h dht" "length pk = 32"
  shows "\<exists>c r a s. ping_send_request h dht ipp pk =
      dht\<lparr>shared_keys_sent := c, rng := r, ping := (ping dht)\<lparr>ping_array := a\<rparr>, sent := s\<rparr> \<and>
    caches_ok h (dht\<lparr>shared_keys_sent := c\<rparr>) \<and> (ping_inv (ping_array (ping dht)) \<longrightarrow> ping_inv a) \<and> prefix (sent dht) s"
proof (cases "pk_equal pk (self_public_key dht)")
  case True
  then show ?thesis
    using assms(1) by (intro exI [of _ "shared_keys_sent dht"] exI [of _ "rng dht"] exI [of _ "ping_array (ping dht)"] exI [of _ "sent dht"])
      (simp add: ping_send_request_def)
next
  case False
  obtain k d1 where key: "dht_get_shared_key_sent h dht pk = (k, d1)" by fastforce
  from shared_key_sent(2) [OF assms key] obtain c where d1: "d1 = dht\<lparr>shared_keys_sent := c\<rparr>" and cok: "caches_ok h d1" by blast
  obtain n r1 where n: "random_u64 (rng d1) = (n, r1)" by fastforce
  let ?data = "take CRYPTO_PUBLIC_KEY_SIZE pk @ ip_port_mem ipp"
  obtain pid a where add: "ping_array_add (plat h) (ping_array (ping d1)) (dht_mono_time d1) n ?data = (pid, a)" by fastforce
  obtain nonce r2 where nonce: "random_nonce r1 = (nonce, r2)" by fastforce
  have inv: "ping_inv (ping_array (ping dht)) \<longrightarrow> ping_inv a" using ping_array_add_inv add by (auto simp: d1)
  let ?d = "dht\<lparr>shared_keys_sent := c, ping := (ping dht)\<lparr>ping_array := a\<rparr>\<rparr>"
  have "ping_send_request h dht ipp pk \<in> {?d\<lparr>rng := r1\<rparr>, ?d\<lparr>rng := r2\<rparr>} \<union> range (\<lambda>x. ?d\<lparr>rng := r2, sent := sent dht @ [(ipp, x)]\<rparr>)"
    using False unfolding ping_send_request_def key Let_def prod.case n add d1 dht_send_def
    by (auto simp: nonce add [unfolded d1, simplified] n [unfolded d1, simplified] split: option.split)
  then consider "ping_send_request h dht ipp pk = ?d\<lparr>rng := r1\<rparr>" | "ping_send_request h dht ipp pk = ?d\<lparr>rng := r2\<rparr>"
    | x where "ping_send_request h dht ipp pk = ?d\<lparr>rng := r2, sent := sent dht @ [(ipp, x)]\<rparr>" by blast
  then have "\<exists>r s. ping_send_request h dht ipp pk = ?d\<lparr>rng := r, sent := s\<rparr> \<and> prefix (sent dht) s"
  proof cases
    case 1
    then show ?thesis by (intro exI [of _ r1] exI [of _ "sent dht"]) simp
  next
    case 2
    then show ?thesis by (intro exI [of _ r2] exI [of _ "sent dht"]) simp
  next
    case (3 x)
    then show ?thesis by (intro exI [of _ r2] exI [of _ "sent dht @ [(ipp, x)]"]) simp
  qed
  then obtain r s where "ping_send_request h dht ipp pk = ?d\<lparr>rng := r, sent := s\<rparr>" "prefix (sent dht) s" by blast
  then show ?thesis using inv cok d1 by (intro exI [of _ c] exI [of _ r] exI [of _ a] exI [of _ s]) simp
qed

lemma ping_send_request_inv [keep_inv]:
  assumes "dht_inv h dht" "length pk = 32"
  shows "dht_inv h (ping_send_request h dht ipp pk)"
proof -
  from ping_send_request_shape [OF dht_inv_caches [OF assms(1)] assms(2)] obtain c r a s where
    "ping_send_request h dht ipp pk = dht\<lparr>shared_keys_sent := c, rng := r, ping := (ping dht)\<lparr>ping_array := a\<rparr>, sent := s\<rparr>"
    "caches_ok h (dht\<lparr>shared_keys_sent := c\<rparr>)" "ping_inv (ping_array (ping dht)) \<longrightarrow> ping_inv a" by blast
  with assms(1) show ?thesis by (simp add: dht_inv_def)
qed

lemma ping_send_response_inv [keep_inv]:
  "dht_inv h dht \<Longrightarrow> dht_inv h (snd (ping_send_response h dht ipp pk pid k))"
  by (simp add: ping_send_response_def Let_def dht_send_eq split: prod.split option.split)

lemma ping_add_inv [keep_inv]:
  assumes "dht_inv h dht" "length pk = 32"
  shows "dht_inv h (snd (ping_add h dht pk ipp))"
proof -
  let ?tp = "to_ping (ping dht)" and ?node = "\<lparr>nf_public_key = take CRYPTO_PUBLIC_KEY_SIZE pk, nf_ip_port = ipp\<rparr>"
  have ok: "nodes_ok MAX_TO_PING ?tp" using assms(1) by (rule dht_inv_to_ping)
  then have "nodes_ok MAX_TO_PING (?tp[i := ?node])" for i
    using assms(2) set_update_subset_insert [of ?tp i ?node] by (auto simp: nodes_ok_def keys_ok_def size_defs)
  then have one: "dht_inv h (dht\<lparr>ping := (ping dht)\<lparr>to_ping := ?tp[i := ?node]\<rparr>\<rparr>)" for i
    using assms(1) by (intro dht_inv_set_to_ping)
  have two: "dht_inv h (dht\<lparr>ping := (ping dht)\<lparr>to_ping := snd (add_to_list ?tp pk ipp (self_public_key dht))\<rparr>\<rparr>)"
    using assms ok by (intro dht_inv_set_to_ping add_to_list_ok dht_inv_self)
  show ?thesis
    using assms one two ping_send_request_inv [OF assms, of ipp]
    by (auto simp: ping_add_def Let_def simp del: find_index_None split: option.split prod.split)
qed

lemma handle_ping_request_inv [keep_inv]:
  assumes "dht_inv h dht" "handle_ping_request h dht source packet = (r, dht')"
  shows "dht_inv h dht'"
proof (cases "length packet \<noteq> DHT_PING_SIZE \<or> pk_equal (slice 1 CRYPTO_PUBLIC_KEY_SIZE packet) (self_public_key dht)")
  case True
  with assms show ?thesis by (auto simp: handle_ping_request_def Let_def split: if_splits)
next
  case False
  let ?pk = "slice 1 CRYPTO_PUBLIC_KEY_SIZE packet"
  have pk: "length ?pk = 32" using False by (simp add: size_defs)
  obtain k d1 where key: "dht_get_shared_key_recv h dht ?pk = (k, d1)" by fastforce
  have d1: "dht_inv h d1" by (rule shared_key_recv_inv [OF assms(1) pk key])
  have "dht_inv h (snd (ping_add h (snd (ping_send_response h d1 source ?pk pid k)) ?pk source))" for pid
    by (intro ping_add_inv ping_send_response_inv d1 pk)
  with assms(2) False d1 key show ?thesis
    unfolding handle_ping_request_def Let_def by (auto split: option.splits if_splits)
qed

text \<open>The stages of \<^verbatim>\<open>handle_ping_response\<close>: what is known when it accepts or refuses.\<close>

lemma handle_ping_response_cases:
  assumes "dht_inv h dht" "handle_ping_response h dht source packet = (r, dht')"
  defines "pk \<equiv> slice 1 CRYPTO_PUBLIC_KEY_SIZE packet"
  obtains (refused) d1 where "r = 1" "dht_inv h d1" "dht' = d1"
  | (accepted) k d1 plain data a where
      "r = 0" "length packet = DHT_PING_SIZE" "dht_get_shared_key_sent h dht pk = (k, d1)"
      "\<not> pk_equal pk (self_public_key dht)"
      "decrypt_data_symmetric (plat h) k (slice (1 + CRYPTO_PUBLIC_KEY_SIZE) CRYPTO_NONCE_SIZE packet)
         (slice (1 + CRYPTO_PUBLIC_KEY_SIZE + CRYPTO_NONCE_SIZE) (PING_PLAIN_SIZE + CRYPTO_MAC_SIZE) packet) = Some plain"
      "length plain = PING_PLAIN_SIZE" "plain ! 0 = NET_PACKET_PING_RESPONSE"
      "ping_array_check (ping_array (ping d1)) (dht_mono_time d1) PING_DATA_SIZE (host_word (drop 1 plain)) = (Some data, a)"
      "length data = PING_DATA_SIZE" "pk_equal pk data" "ipport_equal (mem_ip_port (drop CRYPTO_PUBLIC_KEY_SIZE data)) source"
      "dht' = snd (addto_lists h (d1\<lparr>ping := (ping d1)\<lparr>ping_array := a\<rparr>\<rparr>) source pk)"
proof (cases "length packet \<noteq> DHT_PING_SIZE \<or> pk_equal pk (self_public_key dht)")
  case True
  with assms(2) have "r = 1" "dht' = dht" by (auto simp: handle_ping_response_def pk_def Let_def split: if_splits)
  with assms(1) refused show thesis by blast
next
  case False
  have pk: "length pk = 32" using False by (simp add: pk_def size_defs)
  obtain k d1 where key: "dht_get_shared_key_sent h dht pk = (k, d1)" by fastforce
  have d1: "dht_inv h d1" by (rule shared_key_sent_inv [OF assms(1) pk key])
  have ring: "dht_inv h (d1\<lparr>ping := (ping d1)\<lparr>ping_array := a\<rparr>\<rparr>)"
    if "ping_array_check (ping_array (ping d1)) (dht_mono_time d1) n pid = (x, a)" for n pid x a
    by (rule dht_inv_set_ping_array [OF d1 ping_array_check_inv [OF dht_inv_ping_array [OF d1] that]])
  let ?dec = "decrypt_data_symmetric (plat h) k (slice (1 + CRYPTO_PUBLIC_KEY_SIZE) CRYPTO_NONCE_SIZE packet)
         (slice (1 + CRYPTO_PUBLIC_KEY_SIZE + CRYPTO_NONCE_SIZE) (PING_PLAIN_SIZE + CRYPTO_MAC_SIZE) packet)"
  note run = assms(2)[unfolded handle_ping_response_def Let_def pk_def [symmetric] key prod.case]
  show thesis
  proof (cases "\<exists>plain. ?dec = Some plain \<and> length plain = PING_PLAIN_SIZE \<and> plain ! 0 = NET_PACKET_PING_RESPONSE")
    case False
    with run \<open>\<not> (length packet \<noteq> DHT_PING_SIZE \<or> _)\<close> have "r = 1" "dht' = d1" by (auto split: option.splits if_splits)
    then show thesis using d1 by (intro refused)
  next
    case True
    then obtain plain where dec: "?dec = Some plain" and pl: "length plain = PING_PLAIN_SIZE" "plain ! 0 = NET_PACKET_PING_RESPONSE" by blast
    obtain res a where chk: "ping_array_check (ping_array (ping d1)) (dht_mono_time d1) PING_DATA_SIZE (host_word (drop 1 plain)) = (res, a)"
      by fastforce
    note run' = run [unfolded dec option.case chk prod.case]
    show thesis
    proof (cases "\<exists>data. res = Some data \<and> length data = PING_DATA_SIZE \<and> pk_equal pk data \<and>
        ipport_equal (mem_ip_port (drop CRYPTO_PUBLIC_KEY_SIZE data)) source")
      case True
      then obtain data where data: "res = Some data" "length data = PING_DATA_SIZE" "pk_equal pk data"
        "ipport_equal (mem_ip_port (drop CRYPTO_PUBLIC_KEY_SIZE data)) source" by blast
      with run' \<open>\<not> (length packet \<noteq> DHT_PING_SIZE \<or> _)\<close> pl
      have "r = 0" "dht' = snd (addto_lists h (d1\<lparr>ping := (ping d1)\<lparr>ping_array := a\<rparr>\<rparr>) source pk)" by auto
      then show thesis
        using accepted [OF _ _ key _ dec pl chk [unfolded data(1)] data(2-4)] \<open>\<not> (length packet \<noteq> DHT_PING_SIZE \<or> _)\<close> by blast
    next
      case False
      with run' \<open>\<not> (length packet \<noteq> DHT_PING_SIZE \<or> _)\<close> pl
      have "r = 1" "dht' = d1\<lparr>ping := (ping d1)\<lparr>ping_array := a\<rparr>\<rparr>" by (auto split: option.splits if_splits)
      then show thesis using ring [OF chk] by (intro refused)
    qed
  qed
qed

lemma handle_ping_response_inv [keep_inv]:
  assumes "qsort_contract (host_qsort h)" "dht_inv h dht" "handle_ping_response h dht source packet = (r, dht')"
  shows "dht_inv h dht'"
  using assms(2,3)
proof (cases rule: handle_ping_response_cases)
  case (accepted k d1 plain data a)
  let ?pk = "slice 1 CRYPTO_PUBLIC_KEY_SIZE packet"
  have pk: "length ?pk = 32" using accepted(2) by (simp add: size_defs)
  have "dht_inv h d1" by (rule shared_key_sent_inv [OF assms(2) pk accepted(3)])
  moreover from this have "ping_inv a" by (intro ping_array_check_inv [OF dht_inv_ping_array accepted(8)])
  ultimately show ?thesis unfolding accepted(12)
    by (intro addto_lists_inv [OF assms(1) _ pk prod.collapse [symmetric]] dht_inv_set_ping_array)
qed simp

lemma ping_iterate_loop_inv:
  "dht_inv h dht \<Longrightarrow> i + n = MAX_TO_PING \<Longrightarrow> dht_inv h (snd (ping_iterate_loop h n i dht))"
proof (induction n arbitrary: i dht)
  case (Suc n)
  let ?node = "to_ping (ping dht) ! i"
  let ?d = "ping_send_request h dht (nf_ip_port ?node) (nf_public_key ?node)"
  let ?n = "?node\<lparr>nf_ip_port := (nf_ip_port ?node)\<lparr>ip := ip_reset (ip (nf_ip_port ?node))\<rparr>\<rparr>"
  have key: "length (nf_public_key ?node) = 32"
    using dht_inv_to_ping [OF Suc.prems(1)] Suc.prems(2) by (simp add: nodes_ok_def keys_ok_def)
  have d: "dht_inv h ?d" by (rule ping_send_request_inv [OF Suc.prems(1) key])
  have "nodes_ok MAX_TO_PING ((to_ping (ping ?d))[i := ?n])"
    using dht_inv_to_ping [OF d] key set_update_subset_insert [of "to_ping (ping ?d)" i ?n] by (auto simp: nodes_ok_def keys_ok_def)
  then have "dht_inv h (?d\<lparr>ping := (ping ?d)\<lparr>to_ping := (to_ping (ping ?d))[i := ?n]\<rparr>\<rparr>)"
    by (rule dht_inv_set_to_ping [OF d])
  with Suc show ?case by (simp add: Let_def)
qed simp

lemma ping_iterate_inv [keep_inv]: "dht_inv h dht \<Longrightarrow> dht_inv h (ping_iterate h dht)"
  using ping_iterate_loop_inv [of h dht 0 MAX_TO_PING]
  by (auto simp: ping_iterate_def split: prod.splits)

lemma ping_new_ok: "ping_new P = Some p \<Longrightarrow> ping_inv (ping_array p) \<and> nodes_ok MAX_TO_PING (to_ping p)"
  by (auto simp: ping_new_def nodes_ok_def keys_ok_def empty_node_format_def dest: ping_array_new_inv split: if_splits)

section \<open>The exchange\<close>

lemma mem_ip_port_mem [wire_simps]: "ip_wf (ip ipp) \<Longrightarrow> mem_ip_port (ip_port_mem ipp) = ipp"
  by (cases ipp; cases "ip ipp") (simp add: ip_port_mem_def mem_ip_port_def slice_def ip_wf_def host_word_host_bytes)

lemma mem_ip_port_append: "26 \<le> length bs \<Longrightarrow> mem_ip_port (bs @ xs) = mem_ip_port bs"
  by (cases bs) (simp_all add: mem_ip_port_def slice_def)

lemma length_ip_port_mem: "ip_wf (ip ipp) \<Longrightarrow> length (ip_port_mem ipp) = 32"
  by (simp add: ip_port_mem_def ip_wf_def)

lemma ping_packet_parts:
  assumes "length pk = 32" "length nonce = 24" "length enc = 25"
  shows "length (t # pk @ nonce @ enc) = DHT_PING_SIZE"
    "slice 1 CRYPTO_PUBLIC_KEY_SIZE (t # pk @ nonce @ enc) = pk"
    "slice (1 + CRYPTO_PUBLIC_KEY_SIZE) CRYPTO_NONCE_SIZE (t # pk @ nonce @ enc) = nonce"
    "slice (1 + CRYPTO_PUBLIC_KEY_SIZE + CRYPTO_NONCE_SIZE) (PING_PLAIN_SIZE + CRYPTO_MAC_SIZE) (t # pk @ nonce @ enc) = enc"
  using assms by (simp_all add: slice_def size_defs)

text \<open>A ping request that is sent: the ring holds the key and address, the packet carries the id.\<close>

lemma ping_send_request_sends:
  assumes "box_platform (plat h)" "dht_inv h dht" "length pk = 32" "pk \<noteq> self_public_key dht" "ip_wf (ip ipp)"
    and key: "encrypt_precompute (plat h) pk (dht_self_secret_key dht) = Some k"
  shows "\<exists>nonce pid enc. length nonce = 24 \<and> length enc = 25 \<and>
    sent (ping_send_request h dht ipp pk) =
      sent dht @ [(ipp, NET_PACKET_PING_REQUEST # self_public_key dht @ nonce @ enc)] \<and>
    decrypt_data_symmetric (plat h) (Some k) nonce enc = Some (NET_PACKET_PING_REQUEST # host_bytes 8 pid) \<and>
    stored (ping_array (ping (ping_send_request h dht ipp pk))) pid (pk @ ip_port_mem ipp) (mono_time_get (dht_mono_time dht)) \<and>
    pa_timeout (ping_array (ping (ping_send_request h dht ipp pk))) = pa_timeout (ping_array (ping dht)) \<and>
    dht_self_secret_key (ping_send_request h dht ipp pk) = dht_self_secret_key dht \<and>
    self_public_key (ping_send_request h dht ipp pk) = self_public_key dht"
proof -
  obtain k' d1 where look: "dht_get_shared_key_sent h dht pk = (k', d1)" by fastforce
  note sk = shared_key_sent [OF dht_inv_caches [OF assms(2)] assms(3) look]
  have k': "k' = Some k" using sk(1) key by simp
  obtain c where d1: "d1 = dht\<lparr>shared_keys_sent := c\<rparr>" using sk(2) by blast
  obtain n r1 where n: "random_u64 (rng d1) = (n, r1)" by fastforce
  let ?data = "pk @ ip_port_mem ipp"
  have tk: "take CRYPTO_PUBLIC_KEY_SIZE pk = pk" "take CRYPTO_PUBLIC_KEY_SIZE (self_public_key dht) = self_public_key dht"
    using assms(3) dht_inv_self [OF assms(2)] by (simp_all add: size_defs)
  obtain pid a where add: "ping_array_add (plat h) (ping_array (ping dht)) (dht_mono_time dht) n ?data = (pid, a)" by fastforce
  have len: "length ?data < 2 ^ 32" using assms(3) length_ip_port_mem [OF assms(5)] by simp
  note eff = ping_array_add_effect [OF dht_inv_ping_array [OF assms(2)] box_platform.memory [OF assms(1)] len add]
    and st = ping_array_add_stored [OF dht_inv_ping_array [OF assms(2)] box_platform.memory [OF assms(1)] len add]
  obtain nonce r2 where nonce: "random_nonce r1 = (nonce, r2)" by fastforce
  obtain enc where enc: "encrypt_data_symmetric (plat h) (Some k) nonce (NET_PACKET_PING_REQUEST # host_bytes 8 pid) = Some enc"
    "length enc = 25" "decrypt_data_symmetric (plat h) (Some k) nonce enc = Some (NET_PACKET_PING_REQUEST # host_bytes 8 pid)"
    using box_platform.encrypt_decrypt [OF assms(1), of "NET_PACKET_PING_REQUEST # host_bytes 8 pid" k nonce] by auto
  have "\<not> pk_equal pk (self_public_key dht)"
    using assms(3,4) dht_inv_self [OF assms(2)] by (simp add: pk_equal_iff)
  then have res: "ping_send_request h dht ipp pk = dht\<lparr>shared_keys_sent := c, rng := r2, ping := (ping dht)\<lparr>ping_array := a\<rparr>,
      sent := sent dht @ [(ipp, NET_PACKET_PING_REQUEST # self_public_key dht @ nonce @ enc)]\<rparr>"
    using eff(5) enc(2) unfolding ping_send_request_def look Let_def prod.case k' d1 tk
    by (simp add: n [unfolded d1, simplified] add nonce enc(1) dht_send_eq tk PING_PLAIN_SIZE_def CRYPTO_MAC_SIZE_def)
  show ?thesis
    using length_random_nonce [OF nonce] enc st eff(3) by (intro exI [of _ nonce] exI [of _ pid] exI [of _ enc]) (simp add: res)
qed

text \<open>The node that is pinged answers before anything else, and may ping back.\<close>

lemma prefix_ping_add:
  assumes "dht_inv h dht" "length pk = 32"
  shows "prefix (sent dht) (sent (snd (ping_add h dht pk ipp)))"
proof -
  have "prefix (sent dht) (sent (ping_send_request h dht ipp pk))"
    using ping_send_request_shape [OF dht_inv_caches [OF assms(1)] assms(2), of ipp] by auto
  then show ?thesis
    by (auto simp: ping_add_def Let_def simp del: find_index_None split: option.split prod.split)
qed

lemma handle_ping_request_answers:
  fixes pid :: u64
  assumes "box_platform (plat h)" "dht_inv h dht" "length pk = 32" "pk \<noteq> self_public_key dht"
    and key: "encrypt_precompute (plat h) pk (dht_self_secret_key dht) = Some k"
    and len: "length nonce = 24" "length enc = 25"
    and dec: "decrypt_data_symmetric (plat h) (Some k) nonce enc = Some (NET_PACKET_PING_REQUEST # host_bytes 8 pid)"
  shows "\<exists>dht' nonce' enc' rest. handle_ping_request h dht source (t # pk @ nonce @ enc) = (0, dht') \<and>
    length nonce' = 24 \<and> length enc' = 25 \<and>
    sent dht' = sent dht @ (source, NET_PACKET_PING_RESPONSE # self_public_key dht @ nonce' @ enc') # rest \<and>
    decrypt_data_symmetric (plat h) (Some k) nonce' enc' = Some (NET_PACKET_PING_RESPONSE # host_bytes 8 pid)"
proof -
  note parts = ping_packet_parts [OF assms(3) len]
  obtain k' d1 where look: "dht_get_shared_key_recv h dht pk = (k', d1)" by fastforce
  note rk = shared_key_recv [OF dht_inv_caches [OF assms(2)] assms(3) look]
  have k': "k' = Some k" using rk(1) key by simp
  have d1: "dht_inv h d1" by (rule shared_key_recv_inv [OF assms(2,3) look])
  have self: "sent d1 = sent dht" "self_public_key d1 = self_public_key dht" using rk(2) by auto
  have ne: "\<not> pk_equal pk (self_public_key dht)" using assms(3,4) dht_inv_self [OF assms(2)] by (simp add: pk_equal_iff)
  obtain nonce' r2 where nonce: "random_nonce (rng d1) = (nonce', r2)" by fastforce
  obtain enc' where enc': "encrypt_data_symmetric (plat h) (Some k) nonce' (NET_PACKET_PING_RESPONSE # host_bytes 8 pid) = Some enc'"
    "length enc' = 25" "decrypt_data_symmetric (plat h) (Some k) nonce' enc' = Some (NET_PACKET_PING_RESPONSE # host_bytes 8 pid)"
    using box_platform.encrypt_decrypt [OF assms(1), of "NET_PACKET_PING_RESPONSE # host_bytes 8 pid" k nonce'] by auto
  let ?d2 = "snd (ping_send_response h d1 source pk pid (Some k))"
  have "take CRYPTO_PUBLIC_KEY_SIZE (self_public_key dht) = self_public_key dht" using dht_inv_self [OF assms(2)] by (simp add: size_defs)
  then have d2: "sent ?d2 = sent dht @ [(source, NET_PACKET_PING_RESPONSE # self_public_key dht @ nonce' @ enc')]"
    using ne enc'(1,2) self by (simp add: ping_send_response_def nonce dht_send_eq PING_PLAIN_SIZE_def CRYPTO_MAC_SIZE_def)
  have "dht_inv h ?d2" using d1 by (rule ping_send_response_inv)
  from prefix_ping_add [OF this assms(3), of source] obtain rest where
    rest: "sent (snd (ping_add h ?d2 pk source)) = sent ?d2 @ rest" by (auto simp: prefix_def)
  have "host_word (host_bytes 8 pid) = pid" by (rule host_word_u64)
  then have "handle_ping_request h dht source (t # pk @ nonce @ enc) = (0, snd (ping_add h ?d2 pk source))"
    unfolding handle_ping_request_def Let_def parts look prod.case k' dec option.case using ne
    by (simp add: PING_PLAIN_SIZE_def)
  then show ?thesis
    using rest d2 enc'(2,3) length_random_nonce [OF nonce]
    by (intro exI [of _ "snd (ping_add h ?d2 pk source)"] exI [of _ nonce'] exI [of _ enc'] exI [of _ rest]) simp
qed

lemma handle_ping_response_accepts:
  fixes pid :: u64
  assumes "dht_inv h dht" "length pk = 32" "pk \<noteq> self_public_key dht"
    and key: "encrypt_precompute (plat h) pk (dht_self_secret_key dht) = Some k"
    and len: "length nonce = 24" "length enc = 25"
    and dec: "decrypt_data_symmetric (plat h) (Some k) nonce enc = Some (NET_PACKET_PING_RESPONSE # host_bytes 8 pid)"
    and st: "stored (ping_array (ping dht)) pid (pk @ ip_port_mem ipp) time" "ip_wf (ip ipp)" "ipport_equal ipp source"
    and fresh: "\<not> mono_time_is_timeout (dht_mono_time dht) time (ucast (pa_timeout (ping_array (ping dht))))"
  shows "fst (handle_ping_response h dht source (t # pk @ nonce @ enc)) = 0"
proof -
  note parts = ping_packet_parts [OF assms(2) len]
  obtain k' d1 where look: "dht_get_shared_key_sent h dht pk = (k', d1)" by fastforce
  note sk = shared_key_sent [OF dht_inv_caches [OF assms(1)] assms(2) look]
  have k': "k' = Some k" using sk(1) key by simp
  have self: "ping d1 = ping dht" "dht_mono_time d1 = dht_mono_time dht" using sk(2) by auto
  have ne: "\<not> pk_equal pk (self_public_key dht)" using assms(2,3) dht_inv_self [OF assms(1)] by (simp add: pk_equal_iff)
  have ld: "length (pk @ ip_port_mem ipp) = PING_DATA_SIZE" using assms(2) length_ip_port_mem [OF st(2)] by (simp add: size_defs)
  obtain a where chk: "ping_array_check (ping_array (ping dht)) (dht_mono_time dht) PING_DATA_SIZE pid = (Some (pk @ ip_port_mem ipp), a)"
    using ping_array_check_stored [OF dht_inv_ping_array [OF assms(1)] st(1) _ fresh, of PING_DATA_SIZE] ld by auto
  have "host_word (host_bytes 8 pid) = pid" by (rule host_word_u64)
  moreover have "pk_equal pk (pk @ ip_port_mem ipp)" using assms(2) by (simp add: pk_equal_def size_defs memcmp_eq_0)
  moreover have "drop CRYPTO_PUBLIC_KEY_SIZE (pk @ ip_port_mem ipp) = ip_port_mem ipp" using assms(2) by (simp add: size_defs)
  ultimately show ?thesis
    unfolding handle_ping_response_def Let_def parts look prod.case k' dec option.case self
    using ne chk ld st(3) mem_ip_port_mem [OF st(2)] by (simp add: PING_PLAIN_SIZE_def)
qed

section \<open>Replays\<close>

text \<open>Adding a node to the lists leaves the pings and the keys alone.\<close>

lemma addto_lists_frame:
  fixes ip_port :: IP_Port
  assumes "dht_inv h dht" "length pk = 32"
  defines "dht' \<equiv> snd (addto_lists h dht ip_port pk)"
  shows "ping dht' = ping dht" "self_public_key dht' = self_public_key dht"
    "dht_self_secret_key dht' = dht_self_secret_key dht" "dht_mono_time dht' = dht_mono_time dht"
proof -
  let ?ipp = "ip_port_normalize ip_port"
  obtain inl cl where c: "client_or_ip_port_in_list (dht_mono_time dht) (close_clientlist dht) pk ?ipp = (inl, cl)" by fastforce
  let ?d1 = "dht\<lparr>close_clientlist := cl\<rparr>"
  have d1: "dht_inv h ?d1"
    using assms(1,2) by (intro dht_inv_set_close client_or_ip_port_in_list_ok [OF _ _ c] dht_inv_close)
  obtain added d2 where a: "(if inl then (False, ?d1) else add_to_close h ?d1 pk ?ipp False) = (added, d2)" by fastforce
  have frame: "ping d2 = ping dht \<and> self_public_key d2 = self_public_key dht \<and>
      dht_self_secret_key d2 = dht_self_secret_key dht \<and> dht_mono_time d2 = dht_mono_time dht"
  proof (cases inl)
    case False
    then show ?thesis using a add_to_close_frame [OF d1 assms(2), of ?ipp False] by (simp add: prod_eq_iff)
  qed (use a in auto)
  obtain fs used2 found where f: "addto_friends h d2 pk ?ipp (friends_list d2) (if inl \<or> \<not> added then 1 else 0) None
      = (fs, used2, found)" by (metis prod.collapse)
  have "dht' \<in> {d2\<lparr>friends_list := fs\<rparr>} \<union> range (\<lambda>l. d2\<lparr>friends_list := fs, called := l\<rparr>)"
    unfolding dht'_def addto_lists_def Let_def c prod.case a f by (auto split: option.splits)
  then show "ping dht' = ping dht" "self_public_key dht' = self_public_key dht"
    "dht_self_secret_key dht' = dht_self_secret_key dht" "dht_mono_time dht' = dht_mono_time dht"
    using frame by auto
qed

lemma ping_round_trip:
  assumes "box_platform P" "plat ha = P" "plat hb = P" "dht_inv ha a" "dht_inv hb b"
    and "self_public_key a \<noteq> self_public_key b"
    and "encrypt_precompute P (self_public_key b) (dht_self_secret_key a) = Some k"
      "encrypt_precompute P (self_public_key a) (dht_self_secret_key b) = Some k"
    and "ip_wf (ip ipb)" "ipport_equal ipb ipb"
    and "\<not> mono_time_is_timeout mt (mono_time_get (dht_mono_time a)) (ucast (pa_timeout (ping_array (ping a))))"
  shows "\<exists>request b' response rest.
    sent (ping_send_request ha a ipb (self_public_key b)) = sent a @ [(ipb, request)] \<and>
    handle_ping_request hb b ipa request = (0, b') \<and> sent b' = sent b @ (ipa, response) # rest \<and>
    fst (handle_ping_response ha ((ping_send_request ha a ipb (self_public_key b))\<lparr>dht_mono_time := mt\<rparr>) ipb response) = 0"
proof -
  let ?a = "ping_send_request ha a ipb (self_public_key b)"
  have keys: "length (self_public_key a) = 32" "length (self_public_key b) = 32" using assms(4,5) by (auto dest: dht_inv_self)
  obtain nonce pid enc where r: "length nonce = 24" "length enc = 25"
    "sent ?a = sent a @ [(ipb, NET_PACKET_PING_REQUEST # self_public_key a @ nonce @ enc)]"
    "decrypt_data_symmetric P (Some k) nonce enc = Some (NET_PACKET_PING_REQUEST # host_bytes 8 pid)"
    "stored (ping_array (ping ?a)) pid (self_public_key b @ ip_port_mem ipb) (mono_time_get (dht_mono_time a))"
    "pa_timeout (ping_array (ping ?a)) = pa_timeout (ping_array (ping a))"
    "dht_self_secret_key ?a = dht_self_secret_key a" "self_public_key ?a = self_public_key a"
    using ping_send_request_sends [of ha a "self_public_key b" ipb k] assms keys by auto
  obtain b' nonce' enc' rest where b: "handle_ping_request hb b ipa (NET_PACKET_PING_REQUEST # self_public_key a @ nonce @ enc) = (0, b')"
    "length nonce' = 24" "length enc' = 25"
    "sent b' = sent b @ (ipa, NET_PACKET_PING_RESPONSE # self_public_key b @ nonce' @ enc') # rest"
    "decrypt_data_symmetric P (Some k) nonce' enc' = Some (NET_PACKET_PING_RESPONSE # host_bytes 8 pid)"
    using handle_ping_request_answers [of hb b "self_public_key a" k nonce enc pid ipa NET_PACKET_PING_REQUEST] assms keys r by auto
  have "dht_inv ha ?a" using assms(4) keys by (intro ping_send_request_inv)
  then have "dht_inv ha (?a\<lparr>dht_mono_time := mt\<rparr>)" by (simp add: dht_inv_def)
  from handle_ping_response_accepts [OF this, of "self_public_key b" k nonce' enc' pid ipb "mono_time_get (dht_mono_time a)" ipb
      NET_PACKET_PING_RESPONSE]
  have "fst (handle_ping_response ha (?a\<lparr>dht_mono_time := mt\<rparr>) ipb (NET_PACKET_PING_RESPONSE # self_public_key b @ nonce' @ enc')) = 0"
    using assms keys r b by simp
  with r(3) b(1,4) show ?thesis by blast
qed

section \<open>Properties\<close>

text \<open>C20: A ping reaches its target and comes back: if two nodes agree on the shared key of their key
  pairs, the request one of them sends makes the other answer at once, and the answer is accepted
  as long as the request has not timed out.\<close>

theorem ping_exchange:
  assumes "box_platform P" "plat ha = P" "plat hb = P" "dht_inv ha a" "dht_inv hb b"
    and "self_public_key a \<noteq> self_public_key b"
    and "encrypt_precompute P (self_public_key b) (dht_self_secret_key a) = Some k"
      "encrypt_precompute P (self_public_key a) (dht_self_secret_key b) = Some k"
    and "ip_wf (ip ipb)" "ipport_equal ipb ipb"
    and "\<not> mono_time_is_timeout mt (mono_time_get (dht_mono_time a)) (ucast (pa_timeout (ping_array (ping a))))"
  shows "\<exists>request b' response rest.
    sent (ping_send_request ha a ipb (self_public_key b)) = sent a @ [(ipb, request)] \<and>
    handle_ping_request hb b ipa request = (0, b') \<and> sent b' = sent b @ (ipa, response) # rest \<and>
    fst (handle_ping_response ha ((ping_send_request ha a ipb (self_public_key b))\<lparr>dht_mono_time := mt\<rparr>) ipb response) = 0"
  using assms by (rule ping_round_trip)

definition example_node_dht :: "byte \<Rightarrow> DHT" where
  "example_node_dht k = example_dht (replicate 32 k) (replicate 32 k)"

lemma example_node_dht:
  "dht_inv h (example_node_dht k)" "self_public_key (example_node_dht k) = replicate 32 k"
  "dht_self_secret_key (example_node_dht k) = replicate 32 k" "sent (example_node_dht k) = []"
  "dht_mono_time (example_node_dht k) = example_time" "ping_array (ping (example_node_dht k)) = example_ring"
  unfolding example_node_dht_def by (rule example_dht_inv) (simp_all add: example_dht_def)

lemma example_exchange:
  "encrypt_precompute xor_platform (replicate 32 6) (replicate 32 5) = Some (replicate 32 3)"
  "encrypt_precompute xor_platform (replicate 32 5) (replicate 32 6) = Some (replicate 32 3)"
  "ip_wf (ip example_ipp)" "ipport_equal example_ipp example_ipp"
  "\<not> mono_time_is_timeout example_time (mono_time_get example_time) (ucast (pa_timeout example_ring))"
  "replicate 32 5 \<noteq> (replicate 32 6 :: bytes)"
  by code_simp+

lemma plat_xor_host: "plat xor_host = xor_platform"
  by (simp add: xor_host_def)

theorem ping_exchange_witness:
  "\<exists>request b' response rest.
    sent (ping_send_request xor_host (example_node_dht 5) example_ipp (replicate 32 6)) = [(example_ipp, request)] \<and>
    handle_ping_request xor_host (example_node_dht 6) example_ipp request = (0, b') \<and> sent b' = (example_ipp, response) # rest \<and>
    fst (handle_ping_response xor_host
      ((ping_send_request xor_host (example_node_dht 5) example_ipp (replicate 32 6))\<lparr>dht_mono_time := example_time\<rparr>)
      example_ipp response) = 0"
  using ping_exchange [OF xor_box_platform _ _ example_node_dht(1,1), of xor_host xor_host 5 6 "replicate 32 3" example_ipp
      example_time example_ipp] example_exchange plat_xor_host unfolding example_node_dht append_Nil by blast

text \<open>C21: A ping response is accepted only if a ping to the same key and address is outstanding, and
  the same response is not accepted a second time.\<close>

theorem ping_response_solicited:
  assumes "qsort_contract (host_qsort h)" "dht_inv h dht" "handle_ping_response h dht source packet = (0, dht')"
  shows "(\<exists>data \<in> held_data (ping_array (ping dht)). pk_equal (slice 1 CRYPTO_PUBLIC_KEY_SIZE packet) data \<and>
      ipport_equal (mem_ip_port (drop CRYPTO_PUBLIC_KEY_SIZE data)) source) \<and>
    fst (handle_ping_response h dht' source packet) = 1"
  using assms(2,3)
proof (cases rule: handle_ping_response_cases)
  case (accepted k d1 plain data a)
  let ?pk = "slice 1 CRYPTO_PUBLIC_KEY_SIZE packet" and ?d2 = "d1\<lparr>ping := (ping d1)\<lparr>ping_array := a\<rparr>\<rparr>"
  have pk: "length ?pk = 32" using accepted(2) by (simp add: size_defs)
  have d1: "dht_inv h d1" by (rule shared_key_sent_inv [OF assms(2) pk accepted(3)])
  note sk = shared_key_sent [OF dht_inv_caches [OF assms(2)] pk accepted(3)]
  have same: "ping d1 = ping dht" "dht_self_secret_key d1 = dht_self_secret_key dht" "self_public_key d1 = self_public_key dht"
    using sk(2) by auto
  have ring: "ping_inv (ping_array (ping d1))" by (rule dht_inv_ping_array [OF d1])
  from ping_array_check_held(2) [OF ring accepted(8) refl] obtain d' n where
    d': "d' \<in> held_data (ping_array (ping dht))" "data = take n d'" using same by auto
  have d2: "dht_inv h ?d2" by (rule dht_inv_set_ping_array [OF d1 ping_array_check_inv [OF ring accepted(8)]])
  note frame = addto_lists_frame [OF d2 pk, of source, folded accepted(12)]
  have inv': "dht_inv h dht'" by (rule handle_ping_response_inv [OF assms(1-3)])
  obtain k' d3 where look: "dht_get_shared_key_sent h dht' ?pk = (k', d3)" by fastforce
  note sk' = shared_key_sent [OF dht_inv_caches [OF inv'] pk look]
  have k': "k' = k" using sk(1) sk'(1) frame(3) same(2) by simp
  have d3: "ping_array (ping d3) = a" using sk'(2) frame(1) by auto
  have once: "ping_array_check a mt len (host_word (drop 1 plain)) = (None, a)" for mt len
    by (rule ping_array_check_once [OF ring accepted(8)])
  have "fst (handle_ping_response h dht' source packet) = 1"
    unfolding handle_ping_response_def Let_def look prod.case k' accepted(5) option.case d3 once
    using accepted(2,4,6,7) frame(2) same(3) by simp
  moreover have split: "d' = data @ drop n d'" using d'(2) by simp
  moreover have "pk_equal ?pk d'"
    using accepted(9,10) by (subst split) (simp add: pk_equal_def size_defs)
  moreover have "ipport_equal (mem_ip_port (drop CRYPTO_PUBLIC_KEY_SIZE d')) source"
    using accepted(9,11) by (subst split) (simp add: mem_ip_port_append size_defs)
  ultimately show ?thesis using d'(1) by blast
qed simp

theorem ping_response_solicited_witness:
  "\<exists>dht response dht'. handle_ping_response xor_host dht example_ipp response = (0, dht') \<and>
    held_data (ping_array (ping dht)) \<noteq> {} \<and> fst (handle_ping_response xor_host dht' example_ipp response) = 1"
proof -
  let ?a = "(ping_send_request xor_host (example_node_dht 5) example_ipp (replicate 32 6))\<lparr>dht_mono_time := example_time\<rparr>"
  obtain response where "fst (handle_ping_response xor_host ?a example_ipp response) = 0"
    using ping_round_trip [OF xor_box_platform _ _ example_node_dht(1,1), of xor_host xor_host 5 6 "replicate 32 3" example_ipp
        example_time example_ipp] example_exchange plat_xor_host unfolding example_node_dht append_Nil by blast
  then obtain dht' where r: "handle_ping_response xor_host ?a example_ipp response = (0, dht')" by (metis prod.collapse)
  have "dht_inv xor_host (ping_send_request xor_host (example_node_dht 5) example_ipp (replicate 32 6))"
    by (intro ping_send_request_inv example_node_dht) simp
  then have "dht_inv xor_host ?a" by (simp add: dht_inv_def)
  moreover have "qsort_contract (host_qsort xor_host)"
    using iqs.qsort_contract_axioms by (simp add: xor_host_def example_host_def)
  ultimately show ?thesis using ping_response_solicited [OF _ _ r] r by blast
qed

end
