(* ===== verification/DHT_Nodes.thy ===== *)
theory DHT_Nodes
  imports Ping_Node
begin

text \<open>
  The node exchange of \<^verbatim>\<open>toxcore/DHT.c\<close>: get nodes requests, send nodes responses, and the
  periodic maintenance of the close list and of the friends' lists.

  Shown here: a request and its response deliver the closest nodes; a response is accepted only for
  an outstanding request to the same key and address, once; and the 8-bit count of live
  addresses in \<^verbatim>\<open>do_ping_and_sendnode_requests\<close> wraps.
\<close>

section \<open>Definitions\<close>

definition KILL_NODE_TIMEOUT :: u64 where [size_defs]: "KILL_NODE_TIMEOUT = 182"
definition PING_INTERVAL :: u64 where [size_defs]: "PING_INTERVAL = 60"
definition GET_NODE_INTERVAL :: u64 where [size_defs]: "GET_NODE_INTERVAL = 20"
definition MAX_BOOTSTRAP_TIMES :: u32 where [size_defs]: "MAX_BOOTSTRAP_TIMES = 5"
definition NET_PACKET_GET_NODES :: byte where [size_defs]: "NET_PACKET_GET_NODES = 0x02"
definition NET_PACKET_SEND_NODES_IPV6 :: byte where [size_defs]: "NET_PACKET_SEND_NODES_IPV6 = 0x04"
definition CRYPTO_NODE_SIZE :: nat where [size_defs]: "CRYPTO_NODE_SIZE = CRYPTO_PUBLIC_KEY_SIZE + 8"

text \<open>\<open>pad_to n bs\<close> is the buffer of \<open>n\<close> zero bytes after \<open>bs\<close> was written to its start.\<close>

definition pad_to :: "nat \<Rightarrow> bytes \<Rightarrow> bytes" where
  "pad_to n bs = bs @ replicate (n - length bs) 0"

definition dht_getnodes :: "host \<Rightarrow> DHT \<Rightarrow> IP_Port \<Rightarrow> bytes \<Rightarrow> bytes \<Rightarrow> bool \<times> DHT" where
  "dht_getnodes h dht ipp public_key client_id =
     (if pk_equal public_key (self_public_key dht) then (False, dht)
      else case pack_nodes (SIZEOF_Node_format * 2)
                  [\<lparr>nf_public_key = take CRYPTO_PUBLIC_KEY_SIZE public_key, nf_ip_port = ipp\<rparr>] of
          None \<Rightarrow> (False, dht)
        | Some packed \<Rightarrow>
            let (n, r) = random_u64 (rng dht);
                (pid, arr) = ping_array_add (plat h) (dht_ping_array dht) (dht_mono_time dht) n
                               (take SIZEOF_Node_format (pad_to (SIZEOF_Node_format * 2) packed));
                dht = dht\<lparr>rng := r, dht_ping_array := arr\<rparr>
            in if pid = 0 then (False, dht)
               else
                 let plain = take CRYPTO_PUBLIC_KEY_SIZE client_id @ host_bytes 8 pid;
                     (shared_key, dht) = dht_get_shared_key_sent h dht public_key;
                     (nonce, r) = random_nonce (rng dht);
                     dht = dht\<lparr>rng := r\<rparr>;
                     size = 1 + CRYPTO_PUBLIC_KEY_SIZE + CRYPTO_NONCE_SIZE + CRYPTO_NODE_SIZE + CRYPTO_MAC_SIZE
                 in case dht_create_packet (plat h) nonce (self_public_key dht) shared_key NET_PACKET_GET_NODES plain size of
                      None \<Rightarrow> (False, dht)
                    | Some data \<Rightarrow>
                        if length data \<noteq> size then (False, dht)
                        else case dht_send h dht ipp data of (n, dht) \<Rightarrow> (n > 0, dht))"

text \<open>The result is the number of bytes sent, or \<open>-1\<close>.\<close>

definition sendnodes_ipv6 ::
  "host \<Rightarrow> DHT \<Rightarrow> IP_Port \<Rightarrow> bytes \<Rightarrow> bytes \<Rightarrow> bytes \<Rightarrow> bytes option \<Rightarrow> int \<times> DHT" where
  "sendnodes_ipv6 h dht ipp public_key client_id sendback_data shared_key =
     (if pk_equal public_key (self_public_key dht) then (- 1, dht)
      else if length sendback_data \<noteq> 8 then (- 1, dht)
      else
        let (nodes_list, num_nodes) = get_close_nodes dht client_id TOX_AF_UNSPEC (ip_is_lan (ip ipp)) False;
            packed = (if num_nodes > 0 then pack_nodes (SIZEOF_Node_format * MAX_SENT_NODES) (take num_nodes nodes_list)
                      else Some [])
        in case packed of
             None \<Rightarrow> (- 1, dht)
           | Some nodes \<Rightarrow>
               if num_nodes > 0 \<and> nodes = [] then (- 1, dht)
               else
                 let plain = of_nat num_nodes # nodes @ sendback_data;
                     (nonce, r) = random_nonce (rng dht);
                     dht = dht\<lparr>rng := r\<rparr>;
                     size = length plain + (1 + CRYPTO_PUBLIC_KEY_SIZE + CRYPTO_NONCE_SIZE + CRYPTO_MAC_SIZE)
                 in case dht_create_packet (plat h) nonce (self_public_key dht) shared_key NET_PACKET_SEND_NODES_IPV6 plain size of
                      None \<Rightarrow> (- 1, dht)
                    | Some data \<Rightarrow> if length data \<noteq> size then (- 1, dht) else dht_send h dht ipp data)"

definition handle_getnodes :: "host \<Rightarrow> DHT \<Rightarrow> IP_Port \<Rightarrow> bytes \<Rightarrow> int \<times> DHT" where
  "handle_getnodes h dht source packet =
     (if length packet \<noteq> CRYPTO_SIZE + CRYPTO_MAC_SIZE + 8 then (1, dht)
      else
        let pk = slice 1 CRYPTO_PUBLIC_KEY_SIZE packet in
        if pk_equal pk (self_public_key dht) then (1, dht)
        else
          let (shared_key, dht) = dht_get_shared_key_recv h dht pk
          in case decrypt_data_symmetric (plat h) shared_key (slice (1 + CRYPTO_PUBLIC_KEY_SIZE) CRYPTO_NONCE_SIZE packet)
                    (slice (1 + CRYPTO_PUBLIC_KEY_SIZE + CRYPTO_NONCE_SIZE) (CRYPTO_NODE_SIZE + CRYPTO_MAC_SIZE) packet) of
               None \<Rightarrow> (1, dht)
             | Some plain \<Rightarrow>
                 if length plain \<noteq> CRYPTO_NODE_SIZE then (1, dht)
                 else
                   let dht = snd (sendnodes_ipv6 h dht source pk (take CRYPTO_PUBLIC_KEY_SIZE plain)
                                    (drop CRYPTO_PUBLIC_KEY_SIZE plain) shared_key)
                   in (0, snd (ping_add h dht pk source)))"

text \<open>The buffer has room for two nodes; what the ring does not fill is the argument \<open>stack\<close>.\<close>

definition sent_getnode_to_node :: "bytes \<Rightarrow> DHT \<Rightarrow> bytes \<Rightarrow> IP_Port \<Rightarrow> u64 \<Rightarrow> bool \<times> DHT" where
  "sent_getnode_to_node stack dht public_key node_ip_port pid =
     (case ping_array_check (dht_ping_array dht) (dht_mono_time dht) (SIZEOF_Node_format * 2) pid of
        (None, arr) \<Rightarrow> (False, dht\<lparr>dht_ping_array := arr\<rparr>)
      | (Some data, arr) \<Rightarrow>
          let dht = dht\<lparr>dht_ping_array := arr\<rparr> in
          if length data \<noteq> SIZEOF_Node_format then (False, dht)
          else case unpack_nodes 1 (data @ take SIZEOF_Node_format stack) False of
              None \<Rightarrow> (False, dht)
            | Some (nodes, _) \<Rightarrow>
                (case nodes of
                   [test] \<Rightarrow> (ipport_equal (nf_ip_port test) node_ip_port \<and> pk_equal (nf_public_key test) public_key, dht)
                 | _ \<Rightarrow> (False, dht)))"

definition handle_sendnodes_core :: "host \<Rightarrow> bytes \<Rightarrow> DHT \<Rightarrow> IP_Port \<Rightarrow> bytes \<Rightarrow> Node_format list option \<times> DHT" where
  "handle_sendnodes_core h stack dht source packet =
     (let cid_size = 1 + CRYPTO_PUBLIC_KEY_SIZE + CRYPTO_NONCE_SIZE + 1 + 8 + CRYPTO_MAC_SIZE in
      if length packet < cid_size then (None, dht)
      else
        let data_size = length packet - cid_size in
        if data_size = 0 then (None, dht)
        else if data_size > SIZEOF_Node_format * MAX_SENT_NODES then (None, dht)
        else
          let pk = slice 1 CRYPTO_PUBLIC_KEY_SIZE packet;
              (shared_key, dht) = dht_get_shared_key_sent h dht pk
          in case decrypt_data_symmetric (plat h) shared_key (slice (1 + CRYPTO_PUBLIC_KEY_SIZE) CRYPTO_NONCE_SIZE packet)
                    (slice (1 + CRYPTO_PUBLIC_KEY_SIZE + CRYPTO_NONCE_SIZE) (1 + data_size + 8 + CRYPTO_MAC_SIZE) packet) of
               None \<Rightarrow> (None, dht)
             | Some plain \<Rightarrow>
                 if length plain \<noteq> 1 + data_size + 8 then (None, dht)
                 else if unat (plain ! 0) > MAX_SENT_NODES then (None, dht)
                 else
                   let (asked, dht) = sent_getnode_to_node stack dht pk source (host_word (drop (1 + data_size) plain)) in
                   if \<not> asked then (None, dht)
                   else case unpack_nodes (unat (plain ! 0)) (slice 1 data_size plain) False of
                       None \<Rightarrow> (None, dht)
                     | Some (nodes, length_nodes) \<Rightarrow>
                         if length_nodes \<noteq> data_size then (None, dht)
                         else if length nodes \<noteq> unat (plain ! 0) then (None, dht)
                         else (Some nodes, snd (addto_lists h dht source pk)))"

fun visit_nodes :: "host \<Rightarrow> bytes \<Rightarrow> Node_format list \<Rightarrow> DHT \<Rightarrow> DHT" where
  "visit_nodes h sender [] dht = dht"
| "visit_nodes h sender (n # nodes) dht =
     visit_nodes h sender nodes
       (if ipport_isset (nf_ip_port n) then
          let dht = snd (ping_node_from_getnodes_ok h dht (nf_public_key n) (nf_ip_port n));
              dht = returnedip_ports dht (nf_ip_port n) (nf_public_key n) sender
          in case get_nodes_response dht of
               None \<Rightarrow> dht
             | Some cb \<Rightarrow> dht\<lparr>called := called dht @ [Get_nodes_response cb n]\<rparr>
        else dht)"

definition handle_sendnodes_ipv6 :: "host \<Rightarrow> bytes \<Rightarrow> DHT \<Rightarrow> IP_Port \<Rightarrow> bytes \<Rightarrow> int \<times> DHT" where
  "handle_sendnodes_ipv6 h stack dht source packet =
     (case handle_sendnodes_core h stack dht source packet of
        (None, dht) \<Rightarrow> (1, dht)
      | (Some nodes, dht) \<Rightarrow> (0, visit_nodes h (slice 1 CRYPTO_PUBLIC_KEY_SIZE packet) nodes dht))"

section \<open>Every handler keeps the state well-formed\<close>

lemma only_sendsI:
  assumes "caches_ok h dht \<Longrightarrow> caches_ok h (dht\<lparr>shared_keys_sent := c\<rparr>)" "ping_inv (dht_ping_array dht) \<Longrightarrow> ping_inv a"
  shows "only_sends h dht (dht\<lparr>dht_ping_array := a, shared_keys_sent := c, rng := r\<rparr>)"
    "only_sends h dht (dht\<lparr>dht_ping_array := a, shared_keys_sent := c, rng := r, sent := sent dht @ x\<rparr>)"
proof -
  have "caches_ok h (dht\<lparr>dht_ping_array := a, shared_keys_sent := c, rng := r\<rparr>) = caches_ok h (dht\<lparr>shared_keys_sent := c\<rparr>)"
    "caches_ok h (dht\<lparr>dht_ping_array := a, shared_keys_sent := c, rng := r, sent := sent dht @ x\<rparr>) =
      caches_ok h (dht\<lparr>shared_keys_sent := c\<rparr>)"
    by (simp_all add: caches_ok_def)
  with assms show "only_sends h dht (dht\<lparr>dht_ping_array := a, shared_keys_sent := c, rng := r\<rparr>)"
    "only_sends h dht (dht\<lparr>dht_ping_array := a, shared_keys_sent := c, rng := r, sent := sent dht @ x\<rparr>)"
    by (simp_all add: only_sends_def)
qed

lemma dht_getnodes_only_sends:
  assumes "caches_ok h dht" "length pk = 32"
  shows "only_sends h dht (snd (dht_getnodes h dht ipp pk client_id))"
proof (cases "pk_equal pk (self_public_key dht) \<or>
    pack_nodes (SIZEOF_Node_format * 2) [\<lparr>nf_public_key = take CRYPTO_PUBLIC_KEY_SIZE pk, nf_ip_port = ipp\<rparr>] = None")
  case True
  then show ?thesis by (auto simp: dht_getnodes_def simp del: pack_nodes.simps)
next
  case False
  then obtain packed where packed: "pack_nodes (SIZEOF_Node_format * 2)
      [\<lparr>nf_public_key = take CRYPTO_PUBLIC_KEY_SIZE pk, nf_ip_port = ipp\<rparr>] = Some packed" by blast
  obtain n r1 where n: "random_u64 (rng dht) = (n, r1)" by fastforce
  obtain pid a where add: "ping_array_add (plat h) (dht_ping_array dht) (dht_mono_time dht) n
      (take SIZEOF_Node_format (pad_to (SIZEOF_Node_format * 2) packed)) = (pid, a)" by fastforce
  let ?d = "dht\<lparr>rng := r1, dht_ping_array := a\<rparr>"
  obtain k d1 where key: "dht_get_shared_key_sent h ?d pk = (k, d1)" by fastforce
  obtain nonce r2 where nonce: "random_nonce r1 = (nonce, r2)" by fastforce
  from shared_key_sent(2) [OF _ assms(2) key] assms(1) obtain c where
    d1: "d1 = dht\<lparr>rng := r1, dht_ping_array := a, shared_keys_sent := c\<rparr>" and cok: "caches_ok h d1" by auto
  have c: "caches_ok h (dht\<lparr>shared_keys_sent := c\<rparr>)" using cok by (simp add: d1 caches_ok_def)
  have inv: "ping_inv (dht_ping_array dht) \<Longrightarrow> ping_inv a" using ping_array_add_inv add by blast
  have early: "only_sends h dht ?d" using inv assms(1) by (simp add: only_sends_def)
  let ?e = "dht\<lparr>dht_ping_array := a, shared_keys_sent := c, rng := r2\<rparr>"
  have "snd (dht_getnodes h dht ipp pk client_id) \<in> {?d, ?e} \<union> range (\<lambda>x. ?e\<lparr>sent := sent dht @ [(ipp, x)]\<rparr>)"
    using False unfolding dht_getnodes_def packed option.case n add Let_def prod.case key d1 dht_send_eq
    by (auto simp: nonce split: option.split)
  then show ?thesis using early only_sendsI [OF c inv] by auto
qed

lemma sendnodes_only_sends:
  "only_sends h dht (snd (sendnodes_ipv6 h dht ipp pk client_id back k))"
proof -
  have a: "only_sends h dht (dht\<lparr>rng := r\<rparr>)" "only_sends h dht (dht\<lparr>rng := r, sent := sent dht @ x\<rparr>)" for r x
    by (simp_all add: only_sends_def)
  show ?thesis
    by (simp add: sendnodes_ipv6_def Let_def dht_send_eq a split: prod.split option.split)
qed

lemma handle_getnodes_inv [keep_inv]:
  assumes "dht_inv h dht" "handle_getnodes h dht source packet = (r, dht')"
  shows "dht_inv h dht'"
proof (cases "length packet \<noteq> CRYPTO_SIZE + CRYPTO_MAC_SIZE + 8 \<or> pk_equal (slice 1 CRYPTO_PUBLIC_KEY_SIZE packet) (self_public_key dht)")
  case True
  with assms show ?thesis by (auto simp: handle_getnodes_def Let_def split: if_splits)
next
  case False
  let ?pk = "slice 1 CRYPTO_PUBLIC_KEY_SIZE packet"
  have pk: "length ?pk = 32" using False by (simp add: size_defs)
  obtain k d1 where key: "dht_get_shared_key_recv h dht ?pk = (k, d1)" by fastforce
  have d1: "dht_inv h d1" by (rule shared_key_recv_inv [OF assms(1) pk key])
  have "dht_inv h (snd (ping_add h (snd (sendnodes_ipv6 h d1 source ?pk c b k)) ?pk source))" for c b
    by (intro ping_add_inv pk only_sends_inv [OF sendnodes_only_sends d1])
  with assms(2) False d1 key show ?thesis
    unfolding handle_getnodes_def Let_def by (auto split: option.splits if_splits)
qed

lemma sent_getnode_to_node_shape:
  assumes "dht_inv h dht" "sent_getnode_to_node stack dht pk ipp pid = (r, dht')"
  shows "dht_inv h dht' \<and> (\<exists>x a. ping_array_check (dht_ping_array dht) (dht_mono_time dht) (SIZEOF_Node_format * 2) pid = (x, a) \<and>
    dht' = dht\<lparr>dht_ping_array := a\<rparr> \<and>
    (r \<longrightarrow> (\<exists>data test n. x = Some data \<and> length data = SIZEOF_Node_format \<and>
       unpack_nodes 1 (data @ take SIZEOF_Node_format stack) False = Some ([test], n) \<and>
       ipport_equal (nf_ip_port test) ipp \<and> pk_equal (nf_public_key test) pk)))"
proof -
  obtain x a where chk: "ping_array_check (dht_ping_array dht) (dht_mono_time dht) (SIZEOF_Node_format * 2) pid = (x, a)" by fastforce
  have "dht_inv h (dht\<lparr>dht_ping_array := a\<rparr>)"
    by (rule dht_inv_set_ring [OF assms(1) ping_array_check_inv [OF dht_inv_ping [OF assms(1)] chk]])
  with assms(2) chk show ?thesis
    unfolding sent_getnode_to_node_def chk prod.case Let_def
    by (auto split: option.splits if_splits list.splits simp del: unpack_nodes.simps)
qed

lemma unpack_nodes_keys: "unpack_nodes n data tcp = Some (nodes, len) \<Longrightarrow> keys_ok nodes"
proof (induction n data tcp arbitrary: nodes len rule: unpack_nodes.induct)
  case (2 n data tcp)
  then show ?case by (fastforce simp: keys_ok_def size_defs split: if_splits option.splits prod.splits)
qed (simp add: keys_ok_def)

text \<open>The stages of \<^verbatim>\<open>handle_sendnodes_core\<close>.\<close>

lemma handle_sendnodes_core_cases:
  assumes "dht_inv h dht" "handle_sendnodes_core h stack dht source packet = (res, dht')"
  defines "pk \<equiv> slice 1 CRYPTO_PUBLIC_KEY_SIZE packet" and "ds \<equiv> length packet - 82"
  obtains (refused) "res = None" "dht_inv h dht'"
  | (accepted) k d1 plain d2 nodes where
      "length pk = 32" "0 < ds" "ds \<le> 256" "length packet = 82 + ds" "dht_get_shared_key_sent h dht pk = (k, d1)" "dht_inv h d1"
      "decrypt_data_symmetric (plat h) k (slice (1 + CRYPTO_PUBLIC_KEY_SIZE) CRYPTO_NONCE_SIZE packet)
         (slice (1 + CRYPTO_PUBLIC_KEY_SIZE + CRYPTO_NONCE_SIZE) (1 + ds + 8 + CRYPTO_MAC_SIZE) packet) = Some plain"
      "length plain = 1 + ds + 8" "unat (plain ! 0) \<le> MAX_SENT_NODES"
      "sent_getnode_to_node stack d1 pk source (host_word (drop (1 + ds) plain)) = (True, d2)"
      "unpack_nodes (unat (plain ! 0)) (slice 1 ds plain) False = Some (nodes, ds)"
      "res = Some nodes" "dht' = snd (addto_lists h d2 source pk)"
proof (cases "length packet \<le> 82 \<or> length packet > 82 + 256")
  case True
  have c: "1 + CRYPTO_PUBLIC_KEY_SIZE + CRYPTO_NONCE_SIZE + 1 + 8 + CRYPTO_MAC_SIZE = 82" "SIZEOF_Node_format * MAX_SENT_NODES = 256"
    by (simp_all add: size_defs)
  have "res = None \<and> dht' = dht"
    using assms(2) True unfolding handle_sendnodes_core_def Let_def c by (auto split: if_splits)
  then show thesis using assms(1) refused by simp
next
  case False
  have c: "1 + CRYPTO_PUBLIC_KEY_SIZE + CRYPTO_NONCE_SIZE + 1 + 8 + CRYPTO_MAC_SIZE = 82" "SIZEOF_Node_format * MAX_SENT_NODES = 256"
    by (simp_all add: size_defs)
  have guards: "\<not> length packet < 82" "ds \<noteq> 0" "\<not> ds > 256" using False by (auto simp: ds_def)
  have pk: "length pk = 32" using False by (simp add: pk_def size_defs)
  obtain k d1 where key: "dht_get_shared_key_sent h dht pk = (k, d1)" by fastforce
  have d1: "dht_inv h d1" by (rule shared_key_sent_inv [OF assms(1) pk key])
  let ?dec = "decrypt_data_symmetric (plat h) k (slice (1 + CRYPTO_PUBLIC_KEY_SIZE) CRYPTO_NONCE_SIZE packet)
         (slice (1 + CRYPTO_PUBLIC_KEY_SIZE + CRYPTO_NONCE_SIZE) (1 + ds + 8 + CRYPTO_MAC_SIZE) packet)"
  note run = assms(2)[unfolded handle_sendnodes_core_def Let_def c ds_def [symmetric] pk_def [symmetric] key prod.case]
  show thesis
  proof (cases "\<exists>plain. ?dec = Some plain \<and> length plain = 1 + ds + 8 \<and> unat (plain ! 0) \<le> MAX_SENT_NODES")
    case False
    with run guards have "res = None" "dht' = d1" by (auto split: option.splits if_splits)
    then show thesis using d1 refused by simp
  next
    case True
    then obtain plain where dec: "?dec = Some plain" and pl: "length plain = 1 + ds + 8" "unat (plain ! 0) \<le> MAX_SENT_NODES" by blast
    obtain asked d2 where ask: "sent_getnode_to_node stack d1 pk source (host_word (drop (1 + ds) plain)) = (asked, d2)" by fastforce
    have d2: "dht_inv h d2" using sent_getnode_to_node_shape [OF d1 ask] by blast
    have pl': "\<not> length plain \<noteq> 1 + ds + 8" "\<not> unat (plain ! 0) > MAX_SENT_NODES" using pl by simp_all
    note run' = run [unfolded dec option.case ask prod.case if_not_P [OF guards(1)] if_not_P [OF guards(2)] if_not_P [OF guards(3)]
        if_not_P [OF pl'(1)] if_not_P [OF pl'(2)]]
    show thesis
    proof (cases "asked \<and> (\<exists>nodes. unpack_nodes (unat (plain ! 0)) (slice 1 ds plain) False = Some (nodes, ds) \<and>
        length nodes = unat (plain ! 0))")
      case True
      then obtain nodes where asked and nodes: "unpack_nodes (unat (plain ! 0)) (slice 1 ds plain) False = Some (nodes, ds)"
        "length nodes = unat (plain ! 0)" by blast
      then have "res = Some nodes" "dht' = snd (addto_lists h d2 source pk)" using run' by simp_all
      moreover have "0 < ds" "ds \<le> 256" "length packet = 82 + ds" using guards by (simp_all add: ds_def)
      moreover have "sent_getnode_to_node stack d1 pk source (host_word (drop (1 + ds) plain)) = (True, d2)" using ask \<open>asked\<close> by simp
      ultimately show thesis by (intro accepted [OF pk _ _ _ key d1 dec pl _ nodes(1)])
    next
      case False
      with run' have "res = None" "dht' = d2" by (auto split: option.splits if_splits)
      then show thesis using d2 refused by simp
    qed
  qed
qed

lemma handle_sendnodes_core_inv [keep_inv]:
  assumes "qsort_contract (host_qsort h)" "dht_inv h dht" "handle_sendnodes_core h stack dht source packet = (res, dht')"
  shows "dht_inv h dht' \<and> (case res of None \<Rightarrow> True | Some nodes \<Rightarrow> keys_ok nodes)"
  using assms(2,3)
proof (cases rule: handle_sendnodes_core_cases)
  case (accepted k d1 plain d2 nodes)
  have "dht_inv h d2" using sent_getnode_to_node_shape [OF accepted(6,10)] by blast
  then have "dht_inv h dht'"
    unfolding accepted(13) by (intro addto_lists_inv [OF assms(1) _ accepted(1) prod.collapse [symmetric]])
  then show ?thesis using unpack_nodes_keys [OF accepted(11)] accepted(12) by simp
qed simp

lemma visit_nodes_inv [keep_inv]: "dht_inv h dht \<Longrightarrow> keys_ok nodes \<Longrightarrow> dht_inv h (visit_nodes h sender nodes dht)"
proof (induction nodes arbitrary: dht)
  case (Cons n nodes)
  let ?d = "returnedip_ports (snd (ping_node_from_getnodes_ok h dht (nf_public_key n) (nf_ip_port n))) (nf_ip_port n) (nf_public_key n) sender"
  have "length (nf_public_key n) = 32" "keys_ok nodes" using Cons.prems(2) by (simp_all add: keys_ok_def)
  moreover from this have "dht_inv h ?d"
    using Cons.prems(1) by (intro returnedip_ports_inv ping_node_from_getnodes_ok_inv [OF _ _ prod.collapse [symmetric]])
  ultimately show ?case using Cons by (simp add: Let_def split: option.split)
qed simp

lemma handle_sendnodes_inv [keep_inv]:
  assumes "qsort_contract (host_qsort h)" "dht_inv h dht" "handle_sendnodes_ipv6 h stack dht source packet = (r, dht')"
  shows "dht_inv h dht'"
proof -
  obtain res d1 where core: "handle_sendnodes_core h stack dht source packet = (res, d1)" by fastforce
  note inv = handle_sendnodes_core_inv [OF assms(1,2) core]
  show ?thesis
    using inv assms(3) core visit_nodes_inv by (auto simp: handle_sendnodes_ipv6_def split: option.splits)
qed

section \<open>The exchange\<close>

lemma dht_packet_parts:
  assumes "length pk = 32" "length nonce = 24"
  shows "slice 1 CRYPTO_PUBLIC_KEY_SIZE (t # pk @ nonce @ enc) = pk"
    "slice (1 + CRYPTO_PUBLIC_KEY_SIZE) CRYPTO_NONCE_SIZE (t # pk @ nonce @ enc) = nonce"
    "length enc = n \<Longrightarrow> slice (1 + CRYPTO_PUBLIC_KEY_SIZE + CRYPTO_NONCE_SIZE) n (t # pk @ nonce @ enc) = enc"
  using assms by (simp_all add: slice_def size_defs)

text \<open>A packet that is created with a shared key and a fresh nonce can be opened with the key.\<close>

lemma dht_create_packet_opens:
  assumes "box_platform P" "length self = 32" "length nonce = 24" "plain \<noteq> []" "len = 73 + length plain"
  shows "\<exists>enc. dht_create_packet P nonce self (Some k) t plain len = Some (t # self @ nonce @ enc) \<and>
    length enc = length plain + 16 \<and> decrypt_data_symmetric P (Some k) nonce enc = Some plain"
proof -
  obtain enc where "encrypt_data_symmetric P (Some k) nonce plain = Some enc" "length enc = length plain + 16"
    "decrypt_data_symmetric P (Some k) nonce enc = Some plain"
    using box_platform.encrypt_decrypt [OF assms(1,4)] by blast
  with assms box_platform.memory [OF assms(1)] show ?thesis by (simp add: dht_create_packet_def size_defs)
qed

definition node_at :: "bytes \<Rightarrow> IP_Port \<Rightarrow> Node_format" where
  "node_at pk ipp = \<lparr>nf_public_key = pk, nf_ip_port = ipp\<rparr>"

text \<open>The ring entry of a request: the packed node, padded to the size of the C structure.\<close>

definition request_entry :: "bytes \<Rightarrow> IP_Port \<Rightarrow> bytes \<Rightarrow> bool" where
  "request_entry pk ipp data \<longleftrightarrow> (\<exists>packed. pack_nodes 128 [node_at pk ipp] = Some packed \<and>
     data = take 64 (pad_to 128 packed))"

lemma request_entry_unpack:
  assumes "request_entry pk ipp data" "node_clean (node_at pk ipp)" "node_udp (node_at pk ipp)"
  shows "length data = 64" "\<exists>n. unpack_nodes 1 (data @ junk) False = Some ([node_at pk ipp], n)"
proof -
  obtain packed where p: "pack_nodes 128 [node_at pk ipp] = Some packed" and d: "data = take 64 (pad_to 128 packed)"
    using assms(1) by (auto simp: request_entry_def)
  from pack_nodes_fits [of "[node_at pk ipp]" 128] assms(2) p have len: "length packed \<le> 51" by auto
  then show "length data = 64" by (simp add: d pad_to_def)
  have "data = packed @ replicate (64 - length packed) 0" using len by (simp add: d pad_to_def)
  moreover have "unpack_nodes (length [node_at pk ipp]) (packed @ replicate (64 - length packed) 0 @ junk) False =
      Some ([node_at pk ipp], length packed)"
    using len assms(2,3) by (intro unpack_pack_nodes_append [OF p]) simp_all
  ultimately show "\<exists>n. unpack_nodes 1 (data @ junk) False = Some ([node_at pk ipp], n)"
    by (simp del: unpack_nodes.simps)
qed

lemma dht_getnodes_sends:
  assumes "box_platform (plat h)" "dht_inv h dht" "length pk = 32" "length client_id = 32" "pk \<noteq> self_public_key dht"
    and node: "node_clean (node_at pk ipp)"
    and key: "encrypt_precompute (plat h) pk (dht_self_secret_key dht) = Some k"
  defines "dht' \<equiv> snd (dht_getnodes h dht ipp pk client_id)"
  shows "\<exists>nonce pid enc data. length nonce = 24 \<and> length enc = 56 \<and>
    sent dht' = sent dht @ [(ipp, NET_PACKET_GET_NODES # self_public_key dht @ nonce @ enc)] \<and>
    decrypt_data_symmetric (plat h) (Some k) nonce enc = Some (client_id @ host_bytes 8 pid) \<and>
    request_entry pk ipp data \<and> stored (dht_ping_array dht') pid data (mono_time_get (dht_mono_time dht)) \<and>
    pa_timeout (dht_ping_array dht') = pa_timeout (dht_ping_array dht)"
proof -
  have tk: "take CRYPTO_PUBLIC_KEY_SIZE pk = pk" "take CRYPTO_PUBLIC_KEY_SIZE client_id = client_id"
    "\<lparr>nf_public_key = pk, nf_ip_port = ipp\<rparr> = node_at pk ipp" "SIZEOF_Node_format = 64" "(64 :: nat) * 2 = 128"
    using assms(3,4) by (simp_all add: size_defs node_at_def)
  from pack_nodes_fits [of "[node_at pk ipp]" 128] node obtain packed where
    packed: "pack_nodes 128 [node_at pk ipp] = Some packed" and pl: "length packed \<le> 51" by auto
  obtain n r1 where n: "random_u64 (rng dht) = (n, r1)" by fastforce
  let ?data = "take 64 (pad_to 128 packed)"
  obtain pid a where add: "ping_array_add (plat h) (dht_ping_array dht) (dht_mono_time dht) n ?data = (pid, a)" by fastforce
  have len: "length ?data < 2 ^ 32" using pl by (simp add: pad_to_def)
  note eff = ping_array_add_effect [OF dht_inv_ping [OF assms(2)] box_platform.memory [OF assms(1)] len add]
    and st = ping_array_add_stored [OF dht_inv_ping [OF assms(2)] box_platform.memory [OF assms(1)] len add]
  let ?d = "dht\<lparr>rng := r1, dht_ping_array := a\<rparr>"
  obtain k' d1 where look: "dht_get_shared_key_sent h ?d pk = (k', d1)" by fastforce
  have "caches_ok h ?d" using dht_inv_caches [OF assms(2)] by simp
  note sk = shared_key_sent [OF this assms(3) look]
  have k': "k' = Some k" using sk(1) key by simp
  obtain c where d1: "d1 = ?d\<lparr>shared_keys_sent := c\<rparr>" using sk(2) by blast
  obtain nonce r2 where nonce: "random_nonce r1 = (nonce, r2)" by fastforce
  have ln: "length nonce = 24" by (rule length_random_nonce [OF nonce])
  have "client_id @ host_bytes 8 pid \<noteq> []" using assms(4) by auto
  then obtain enc where enc: "dht_create_packet (plat h) nonce (self_public_key dht) (Some k) NET_PACKET_GET_NODES (client_id @ host_bytes 8 pid) 113
      = Some (NET_PACKET_GET_NODES # self_public_key dht @ nonce @ enc)" "length enc = 56"
    "decrypt_data_symmetric (plat h) (Some k) nonce enc = Some (client_id @ host_bytes 8 pid)"
    using dht_create_packet_opens [OF assms(1) dht_inv_self [OF assms(2)] ln, of "client_id @ host_bytes 8 pid" 113 k NET_PACKET_GET_NODES]
      assms(4) by auto
  have size: "1 + CRYPTO_PUBLIC_KEY_SIZE + CRYPTO_NONCE_SIZE + CRYPTO_NODE_SIZE + CRYPTO_MAC_SIZE = 113" by (simp add: size_defs)
  have "\<not> pk_equal pk (self_public_key dht)" using assms(3,5) dht_inv_self [OF assms(2)] by (simp add: pk_equal_iff)
  then have res: "dht' = d1\<lparr>rng := r2, sent := sent dht @ [(ipp, NET_PACKET_GET_NODES # self_public_key dht @ nonce @ enc)]\<rparr>"
    using eff(5) enc(2) ln dht_inv_self [OF assms(2)]
    unfolding dht'_def dht_getnodes_def tk packed option.case n add Let_def prod.case look k' size
    by (simp add: d1 nonce enc(1) dht_send_eq)
  have "request_entry pk ipp ?data" using packed by (auto simp: request_entry_def)
  then show ?thesis
    using ln enc st eff(3) by (intro exI [of _ nonce] exI [of _ pid] exI [of _ enc] exI [of _ ?data]) (simp add: res d1)
qed

lemma sendnodes_sends:
  assumes "box_platform (plat h)" "length (self_public_key dht) = 32" "length pk = 32" "pk \<noteq> self_public_key dht" "length back = 8"
    and close: "get_close_nodes dht client_id TOX_AF_UNSPEC (ip_is_lan (ip source)) False = (nodes, num)"
    and num: "0 < num" "num \<le> MAX_SENT_NODES" "length nodes = MAX_SENT_NODES" and clean: "list_all node_clean (take num nodes)"
  shows "\<exists>nonce enc packed. length nonce = 24 \<and> pack_nodes 256 (take num nodes) = Some packed \<and>
    0 < length packed \<and> length packed < 256 \<and> length enc = length packed + 25 \<and>
    sent (snd (sendnodes_ipv6 h dht source pk client_id back (Some k))) =
      sent dht @ [(source, NET_PACKET_SEND_NODES_IPV6 # self_public_key dht @ nonce @ enc)] \<and>
    decrypt_data_symmetric (plat h) (Some k) nonce enc = Some (of_nat num # packed @ back)"
proof -
  have ln: "length (take num nodes) = num" using num by simp
  have "\<forall>n \<in> set (take num nodes). node_clean n" using clean by (simp add: list_all_iff)
  from pack_nodes_fits [OF this, of 256] num obtain packed where
    packed: "pack_nodes 256 (take num nodes) = Some packed" and pl: "39 * num \<le> length packed" "length packed \<le> 51 * num"
    by (auto simp: ln size_defs)
  have "num \<le> 4" using num(2) by (simp add: size_defs)
  then have len: "0 < length packed" "length packed < 256" using pl num(1) by linarith+
  obtain nonce r where nonce: "random_nonce (rng dht) = (nonce, r)" by fastforce
  have n24: "length nonce = 24" by (rule length_random_nonce [OF nonce])
  let ?plain = "of_nat num # packed @ back"
  obtain enc where enc: "dht_create_packet (plat h) nonce (self_public_key dht) (Some k) NET_PACKET_SEND_NODES_IPV6 ?plain
      (82 + length packed) = Some (NET_PACKET_SEND_NODES_IPV6 # self_public_key dht @ nonce @ enc)" "length enc = 25 + length packed"
    "decrypt_data_symmetric (plat h) (Some k) nonce enc = Some ?plain"
    using dht_create_packet_opens [OF assms(1,2) n24, of ?plain "82 + length packed" k NET_PACKET_SEND_NODES_IPV6] assms(5) by auto
  have c: "SIZEOF_Node_format * MAX_SENT_NODES = 256" "1 + CRYPTO_PUBLIC_KEY_SIZE + CRYPTO_NONCE_SIZE + CRYPTO_MAC_SIZE = 73"
    by (simp_all add: size_defs)
  have "\<not> pk_equal pk (self_public_key dht)" using assms(2-4) by (simp add: pk_equal_iff)
  then have "sent (snd (sendnodes_ipv6 h dht source pk client_id back (Some k))) =
      sent dht @ [(source, NET_PACKET_SEND_NODES_IPV6 # self_public_key dht @ nonce @ enc)]"
    using assms(2,5) num(1) len enc(2) n24
    unfolding sendnodes_ipv6_def close prod.case Let_def c packed nonce
    by (simp add: packed enc(1) dht_send_eq)
  then show ?thesis using n24 packed len enc assms(5) by (intro exI [of _ nonce] exI [of _ enc] exI [of _ packed]) simp
qed

lemma handle_getnodes_answers:
  fixes pid :: u64
  assumes "box_platform (plat h)" "dht_inv h dht" "length pk = 32" "pk \<noteq> self_public_key dht" "length client_id = 32"
    and key: "encrypt_precompute (plat h) pk (dht_self_secret_key dht) = Some k"
    and len: "length nonce = 24" "length enc = 56"
    and dec: "decrypt_data_symmetric (plat h) (Some k) nonce enc = Some (client_id @ host_bytes 8 pid)"
    and close: "get_close_nodes dht client_id TOX_AF_UNSPEC (ip_is_lan (ip source)) False = (nodes, num)"
    and num: "0 < num" "list_all node_clean (take num nodes)"
  shows "\<exists>dht' nonce' enc' packed rest. handle_getnodes h dht source (t # pk @ nonce @ enc) = (0, dht') \<and>
    length nonce' = 24 \<and> length enc' = length packed + 25 \<and> 0 < length packed \<and> length packed < 256 \<and>
    num \<le> MAX_SENT_NODES \<and> pack_nodes 256 (take num nodes) = Some packed \<and> length (take num nodes) = num \<and>
    sent dht' = sent dht @ (source, NET_PACKET_SEND_NODES_IPV6 # self_public_key dht @ nonce' @ enc') # rest \<and>
    decrypt_data_symmetric (plat h) (Some k) nonce' enc' = Some (of_nat num # packed @ host_bytes 8 pid)"
proof -
  note parts = dht_packet_parts(1,2) [OF assms(3) len(1)] dht_packet_parts(3) [OF assms(3) len]
  have c: "CRYPTO_SIZE + CRYPTO_MAC_SIZE + 8 = 113" "40 + CRYPTO_MAC_SIZE = 56" "CRYPTO_NODE_SIZE = 40"
    by (simp_all add: size_defs)
  obtain k' d1 where look: "dht_get_shared_key_recv h dht pk = (k', d1)" by fastforce
  note rk = shared_key_recv [OF dht_inv_caches [OF assms(2)] assms(3) look]
  have k': "k' = Some k" using rk(1) key by simp
  have d1: "dht_inv h d1" by (rule shared_key_recv_inv [OF assms(2,3) look])
  have self: "sent d1 = sent dht" "self_public_key d1 = self_public_key dht" using rk(2) by auto
  have close1: "get_close_nodes d1 client_id TOX_AF_UNSPEC (ip_is_lan (ip source)) False = (nodes, num)"
    using rk(2) close by (auto simp: get_close_nodes_def get_somewhat_close_nodes_def)
  have shape: "nodes_ok MAX_SENT_NODES nodes \<and> num \<le> MAX_SENT_NODES"
    by (rule get_close_nodes_shape [OF close _ assms(5) all_clients_ok [OF assms(2)]]) simp
  have ne: "\<not> pk_equal pk (self_public_key dht)" using assms(3,4) dht_inv_self [OF assms(2)] by (simp add: pk_equal_iff)
  let ?d2 = "snd (sendnodes_ipv6 h d1 source pk client_id (host_bytes 8 pid) (Some k))"
  obtain nonce' enc' packed where s: "length nonce' = 24" "pack_nodes 256 (take num nodes) = Some packed" "0 < length packed"
    "length packed < 256" "length enc' = length packed + 25"
    "sent ?d2 = sent d1 @ [(source, NET_PACKET_SEND_NODES_IPV6 # self_public_key d1 @ nonce' @ enc')]"
    "decrypt_data_symmetric (plat h) (Some k) nonce' enc' = Some (of_nat num # packed @ host_bytes 8 pid)"
    using sendnodes_sends [OF assms(1) _ assms(3) _ _ close1 num(1) _ _ num(2), of "host_bytes 8 pid" k] shape dht_inv_self [OF assms(2)] assms(4) self
    by (auto simp: nodes_ok_def)
  have "dht_inv h ?d2" by (rule only_sends_inv [OF sendnodes_only_sends d1])
  from prefix_ping_add [OF this assms(3), of source] obtain rest where
    rest: "sent (snd (ping_add h ?d2 pk source)) = sent ?d2 @ rest" by (auto simp: prefix_def)
  have "take CRYPTO_PUBLIC_KEY_SIZE (client_id @ host_bytes 8 pid) = client_id"
    "drop CRYPTO_PUBLIC_KEY_SIZE (client_id @ host_bytes 8 pid) = host_bytes 8 pid" using assms(5) by (simp_all add: size_defs)
  then have "handle_getnodes h dht source (t # pk @ nonce @ enc) = (0, snd (ping_add h ?d2 pk source))"
    unfolding handle_getnodes_def Let_def c parts look prod.case k' dec option.case using ne len assms(3,5)
    by simp
  then show ?thesis
    using rest s self shape by (intro exI [of _ "snd (ping_add h ?d2 pk source)"] exI [of _ nonce'] exI [of _ enc'] exI [of _ packed] exI [of _ rest])
      (simp add: nodes_ok_def)
qed

lemma handle_sendnodes_accepts:
  fixes pid :: u64
  assumes "dht_inv h dht" "length pk = 32"
    and key: "encrypt_precompute (plat h) pk (dht_self_secret_key dht) = Some k"
    and len: "length nonce = 24" "length enc = length packed + 25" "0 < length packed" "length packed < 256" "length nodes \<le> MAX_SENT_NODES"
    and dec: "decrypt_data_symmetric (plat h) (Some k) nonce enc = Some (of_nat (length nodes) # packed @ host_bytes 8 pid)"
    and nodes: "pack_nodes 256 nodes = Some packed" "list_all (\<lambda>n. node_clean n \<and> node_udp n) nodes"
    and entry: "request_entry pk ipp data" "node_clean (node_at pk ipp)" "node_udp (node_at pk ipp)" "ipport_equal ipp ipp"
    and st: "stored (dht_ping_array dht) pid data time"
      "\<not> mono_time_is_timeout (dht_mono_time dht) time (ucast (pa_timeout (dht_ping_array dht)))"
  shows "fst (handle_sendnodes_core h stack dht ipp (t # pk @ nonce @ enc)) = Some nodes"
proof -
  note parts = dht_packet_parts(1,2) [OF assms(2) len(1)] dht_packet_parts(3) [OF assms(2) len(1,2)]
  have c: "1 + CRYPTO_PUBLIC_KEY_SIZE + CRYPTO_NONCE_SIZE + 1 + 8 + 16 = 82" "SIZEOF_Node_format * MAX_SENT_NODES = 256"
    "CRYPTO_MAC_SIZE = 16"
    by (simp_all add: size_defs)
  have size: "length (t # pk @ nonce @ enc) - 82 = length packed" "1 + length packed + 8 + 16 = length packed + 25" using assms(2) len by simp_all
  obtain k' d1 where look: "dht_get_shared_key_sent h dht pk = (k', d1)" by fastforce
  note sk = shared_key_sent [OF dht_inv_caches [OF assms(1)] assms(2) look]
  have k': "k' = Some k" using sk(1) key by simp
  have self: "dht_ping_array d1 = dht_ping_array dht" "dht_mono_time d1 = dht_mono_time dht" using sk(2) by auto
  let ?plain = "of_nat (length nodes) # packed @ host_bytes 8 pid"
  have n: "unat (?plain ! 0) = length nodes" using len(5) by (simp add: size_defs unat_of_nat)
  have hw: "host_word (drop (1 + length packed) ?plain) = pid" "slice 1 (length packed) ?plain = packed"
    by (simp_all add: host_word_u64 slice_def)
  obtain m where un: "length data = 64" "unpack_nodes 1 (data @ take 64 stack) False = Some ([node_at pk ipp], m)"
    using request_entry_unpack [OF entry(1-3)] by blast
  obtain a where chk: "ping_array_check (dht_ping_array dht) (dht_mono_time dht) 128 pid = (Some data, a)"
    using ping_array_check_stored [OF dht_inv_ping [OF assms(1)] st(1) _ st(2), of 128] un(1) by auto
  have asked: "sent_getnode_to_node stack d1 pk ipp pid = (True, d1\<lparr>dht_ping_array := a\<rparr>)"
    using chk un entry(4) by (simp add: sent_getnode_to_node_def self size_defs Let_def node_at_def del: unpack_nodes.simps)
  have "unpack_nodes (length nodes) packed False = Some (nodes, length packed)"
    using unpack_pack_nodes_append [OF nodes(1), where tcp = False and junk = "[]"] len(4) nodes(2) by (simp add: list_all_iff)
  then show ?thesis
    using len assms(2)
    unfolding handle_sendnodes_core_def Let_def c size parts look prod.case k' dec option.case hw asked n
    by (simp del: unpack_nodes.simps)
qed

lemma getnodes_round_trip:
  assumes "box_platform P" "plat ha = P" "plat hb = P" "dht_inv ha a" "dht_inv hb b"
    and "self_public_key a \<noteq> self_public_key b" "length client_id = 32"
    and "encrypt_precompute P (self_public_key b) (dht_self_secret_key a) = Some k"
      "encrypt_precompute P (self_public_key a) (dht_self_secret_key b) = Some k"
    and "node_clean (node_at (self_public_key b) ipb)" "node_udp (node_at (self_public_key b) ipb)" "ipport_equal ipb ipb"
    and "\<not> mono_time_is_timeout mt (mono_time_get (dht_mono_time a)) (ucast (pa_timeout (dht_ping_array a)))"
    and "get_close_nodes b client_id TOX_AF_UNSPEC (ip_is_lan (ip ipa)) False = (nodes, num)"
    and "0 < num" "list_all (\<lambda>n. node_clean n \<and> node_udp n) (take num nodes)"
  shows "\<exists>request b' response rest.
    sent (snd (dht_getnodes ha a ipb (self_public_key b) client_id)) = sent a @ [(ipb, request)] \<and>
    handle_getnodes hb b ipa request = (0, b') \<and> sent b' = sent b @ (ipa, response) # rest \<and>
    fst (handle_sendnodes_core ha stack ((snd (dht_getnodes ha a ipb (self_public_key b) client_id))\<lparr>dht_mono_time := mt\<rparr>)
      ipb response) = Some (take num nodes)"
proof -
  let ?a = "snd (dht_getnodes ha a ipb (self_public_key b) client_id)"
  have keys: "length (self_public_key a) = 32" "length (self_public_key b) = 32" using assms(4,5) by (simp_all add: dht_inv_self)
  obtain nonce pid enc data where r: "length nonce = 24" "length enc = 56"
    "sent ?a = sent a @ [(ipb, NET_PACKET_GET_NODES # self_public_key a @ nonce @ enc)]"
    "decrypt_data_symmetric P (Some k) nonce enc = Some (client_id @ host_bytes 8 pid)"
    "request_entry (self_public_key b) ipb data" "stored (dht_ping_array ?a) pid data (mono_time_get (dht_mono_time a))"
    "pa_timeout (dht_ping_array ?a) = pa_timeout (dht_ping_array a)"
    using dht_getnodes_sends [of ha a "self_public_key b" client_id ipb k, unfolded assms(2),
        OF assms(1,4) keys(2) assms(7) assms(6) [symmetric] assms(10,8)] by blast
  have clean: "list_all node_clean (take num nodes)" using assms(16) by (simp add: list_all_iff)
  obtain b' nonce' enc' packed rest where
    b: "handle_getnodes hb b ipa (NET_PACKET_GET_NODES # self_public_key a @ nonce @ enc) = (0, b')"
    "length nonce' = 24" "length enc' = length packed + 25" "0 < length packed" "length packed < 256" "num \<le> MAX_SENT_NODES"
    "pack_nodes 256 (take num nodes) = Some packed" "length (take num nodes) = num"
    "sent b' = sent b @ (ipa, NET_PACKET_SEND_NODES_IPV6 # self_public_key b @ nonce' @ enc') # rest"
    "decrypt_data_symmetric P (Some k) nonce' enc' = Some (of_nat num # packed @ host_bytes 8 pid)"
    using handle_getnodes_answers [of hb b "self_public_key a" client_id k nonce enc pid ipa nodes num NET_PACKET_GET_NODES,
        unfolded assms(3), OF assms(1,5) keys(1) assms(6,7,9) r(1,2,4) assms(14,15) clean] by blast
  have "dht_inv ha ?a" using assms(4) keys by (intro only_sends_inv [OF dht_getnodes_only_sends] dht_inv_caches)
  then have inv: "dht_inv ha (?a\<lparr>dht_mono_time := mt\<rparr>)" by (simp add: dht_inv_def)
  have sk: "dht_self_secret_key ?a = dht_self_secret_key a"
    using only_sends_fields [OF dht_getnodes_only_sends [OF dht_inv_caches [OF assms(4)] keys(2)]] by simp
  have "fst (handle_sendnodes_core ha stack (?a\<lparr>dht_mono_time := mt\<rparr>) ipb
      (NET_PACKET_SEND_NODES_IPV6 # self_public_key b @ nonce' @ enc')) = Some (take num nodes)"
    by (rule handle_sendnodes_accepts [OF inv keys(2), where k = k and packed = packed and pid = pid and ipp = ipb and data = data and
          time = "mono_time_get (dht_mono_time a)"]) (use assms keys r b sk in simp_all)
  with r(3) b(1,9) show ?thesis by blast
qed

section \<open>Properties\<close>

text \<open>C5: A node exchange delivers what the other side knows: the request for nodes close to a key
  makes its receiver answer with the nodes that \<^verbatim>\<open>get_close_nodes\<close> selects there, and the
  requester decodes exactly those nodes as long as the request has not timed out.\<close>

theorem getnodes_exchange:
  assumes "box_platform P" "plat ha = P" "plat hb = P" "dht_inv ha a" "dht_inv hb b"
    and "self_public_key a \<noteq> self_public_key b" "length client_id = 32"
    and "encrypt_precompute P (self_public_key b) (dht_self_secret_key a) = Some k"
      "encrypt_precompute P (self_public_key a) (dht_self_secret_key b) = Some k"
    and "node_clean (node_at (self_public_key b) ipb)" "node_udp (node_at (self_public_key b) ipb)" "ipport_equal ipb ipb"
    and "\<not> mono_time_is_timeout mt (mono_time_get (dht_mono_time a)) (ucast (pa_timeout (dht_ping_array a)))"
    and "get_close_nodes b client_id TOX_AF_UNSPEC (ip_is_lan (ip ipa)) False = (nodes, num)"
    and "0 < num" "list_all (\<lambda>n. node_clean n \<and> node_udp n) (take num nodes)"
  shows "\<exists>request b' response rest.
    sent (snd (dht_getnodes ha a ipb (self_public_key b) client_id)) = sent a @ [(ipb, request)] \<and>
    handle_getnodes hb b ipa request = (0, b') \<and> sent b' = sent b @ (ipa, response) # rest \<and>
    fst (handle_sendnodes_core ha stack ((snd (dht_getnodes ha a ipb (self_public_key b) client_id))\<lparr>dht_mono_time := mt\<rparr>)
      ipb response) = Some (take num nodes)"
  using assms by (rule getnodes_round_trip)

text \<open>A node whose close list holds one client, in its last entry.\<close>

definition example_busy_dht :: DHT where
  "example_busy_dht = (example_node_dht 6)\<lparr>close_clientlist := replicate 1023 empty_client @ [example_client 9 1000]\<rparr>"

lemma example_busy_dht:
  "dht_inv h example_busy_dht" "self_public_key example_busy_dht = replicate 32 6"
  "dht_self_secret_key example_busy_dht = replicate 32 6" "sent example_busy_dht = []"
proof -
  have "length (cd_public_key (example_client 9 1000)) = 32" by (simp add: example_client_def)
  then show "dht_inv h example_busy_dht"
    using example_node_dht(1) [of h 6]
    by (simp add: example_busy_dht_def dht_inv_def clients_ok_def list_all_iff empty_client_def caches_ok_def size_defs)
qed (simp_all add: example_busy_dht_def example_node_dht)

lemma example_busy_close:
  "get_close_nodes example_busy_dht (replicate 32 5) TOX_AF_UNSPEC (ip_is_lan (ip example_ipp)) False =
    (\<lparr>nf_public_key = replicate 32 9, nf_ip_port = assoc_ip_port (assoc4 (example_client 9 1000))\<rparr> # replicate 3 empty_node_format, 1)"
proof -
  have all: "all_clients example_busy_dht = replicate 1023 empty_client @ [example_client 9 1000]"
    "dht_cur_time example_busy_dht = 1000"
    by (simp_all add: all_clients_def example_busy_dht_def example_node_dht_def example_dht_def)
  have "\<not> eligible 1000 TOX_AF_UNSPEC False False empty_client" by code_simp
  then have "list_all (\<lambda>c. \<not> eligible 1000 TOX_AF_UNSPEC False False c) (replicate 1023 empty_client)" by (simp add: list_all_iff)
  note skip = get_close_nodes_loop_skip [OF this]
  have "\<not> ip_is_lan (ip example_ipp)" "TOX_AF_UNSPEC \<in> {TOX_AF_INET, TOX_AF_INET6, TOX_AF_UNSPEC}"
    "net_family_is_unspec TOX_AF_UNSPEC" "index_of_node_pk (replicate MAX_SENT_NODES empty_node_format) (replicate 32 9) = None"
    "eligible 1000 TOX_AF_UNSPEC False False (example_client 9 1000)"
    "assoc_ip_port (select_assoc TOX_AF_UNSPEC (example_client 9 1000)) = assoc_ip_port (assoc4 (example_client 9 1000))"
    by code_simp+
  note facts = this
  have key: "cd_public_key (example_client 9 1000) = replicate 32 9" by (simp add: example_client_def)
  have four: "replicate 4 empty_node_format = empty_node_format # replicate 3 empty_node_format"
    by (simp add: numeral_eq_Suc)
  have lan: "ip_is_lan (ip example_ipp) = False" using facts(1) by simp
  have "get_close_nodes example_busy_dht (replicate 32 5) TOX_AF_UNSPEC (ip_is_lan (ip example_ipp)) False =
    get_close_nodes_loop 1000 (replicate 32 5) TOX_AF_UNSPEC False False [example_client 9 1000]
      (replicate MAX_SENT_NODES empty_node_format, 0)"
    unfolding get_close_nodes_eq [OF facts(2)] all get_close_nodes_inner_def lan skip using facts(3) by simp
  also have "\<dots> = (\<lparr>nf_public_key = replicate 32 9, nf_ip_port = assoc_ip_port (assoc4 (example_client 9 1000))\<rparr> #
      replicate 3 empty_node_format, 1)"
    using facts(4-6) key by (simp add: Let_def size_defs) (simp add: four)
  finally show ?thesis .
qed

theorem getnodes_exchange_witness:
  "\<exists>request b' response rest.
    sent (snd (dht_getnodes xor_host (example_node_dht 5) example_ipp (replicate 32 6) (replicate 32 5))) = [(example_ipp, request)] \<and>
    handle_getnodes xor_host example_busy_dht example_ipp request = (0, b') \<and> sent b' = (example_ipp, response) # rest \<and>
    fst (handle_sendnodes_core xor_host [] ((snd (dht_getnodes xor_host (example_node_dht 5) example_ipp (replicate 32 6)
        (replicate 32 5)))\<lparr>dht_mono_time := example_time\<rparr>) example_ipp response) =
      Some [\<lparr>nf_public_key = replicate 32 9, nf_ip_port = assoc_ip_port (assoc4 (example_client 9 1000))\<rparr>]"
proof -
  have "node_clean (node_at (replicate 32 6) example_ipp)" "node_udp (node_at (replicate 32 6) example_ipp)"
    "list_all (\<lambda>n. node_clean n \<and> node_udp n)
      [\<lparr>nf_public_key = replicate 32 9, nf_ip_port = assoc_ip_port (assoc4 (example_client 9 1000))\<rparr>]"
    by code_simp+
  moreover have "dht_ping_array (example_node_dht 5) = example_ring" by (simp add: example_node_dht_def example_dht_def)
  ultimately show ?thesis
    using getnodes_exchange [OF xor_box_platform _ _ example_node_dht(1) example_busy_dht(1), of xor_host xor_host 5 "replicate 32 5"
        "replicate 32 3" example_ipp example_time, OF _ _ _ _ _ _ _ _ _ _ example_busy_close, of "[]"]
      example_exchange plat_xor_host
    unfolding example_node_dht example_busy_dht append_Nil by simp
qed

text \<open>C22: A send nodes response is accepted only if a get nodes request to the same key and address is
  outstanding, and its nodes, at most four, are the ones its encrypted part holds.\<close>

theorem sendnodes_solicited:
  assumes "dht_inv h dht" "handle_sendnodes_core h stack dht source packet = (Some nodes, dht')"
  shows "(\<exists>data \<in> held_data (dht_ping_array dht). \<exists>test n.
      unpack_nodes 1 (take SIZEOF_Node_format data @ take SIZEOF_Node_format stack) False = Some ([test], n) \<and>
      ipport_equal (nf_ip_port test) source \<and> pk_equal (nf_public_key test) (slice 1 CRYPTO_PUBLIC_KEY_SIZE packet)) \<and>
    (\<exists>plain. decrypt_data_symmetric (plat h) (encrypt_precompute (plat h) (slice 1 CRYPTO_PUBLIC_KEY_SIZE packet) (dht_self_secret_key dht))
        (slice (1 + CRYPTO_PUBLIC_KEY_SIZE) CRYPTO_NONCE_SIZE packet)
        (drop (1 + CRYPTO_PUBLIC_KEY_SIZE + CRYPTO_NONCE_SIZE) packet) = Some plain \<and>
      unat (plain ! 0) \<le> MAX_SENT_NODES \<and>
      unpack_nodes (unat (plain ! 0)) (take (length plain - 9) (drop 1 plain)) False = Some (nodes, length plain - 9))"
  using assms
proof (cases rule: handle_sendnodes_core_cases)
  case (accepted k d1 plain d2 nodes')
  let ?pk = "slice 1 CRYPTO_PUBLIC_KEY_SIZE packet" and ?pid = "host_word (drop (1 + (length packet - 82)) plain)"
  note sk = shared_key_sent [OF dht_inv_caches [OF assms(1)] accepted(1,5)]
  have same: "dht_ping_array d1 = dht_ping_array dht" using sk(2) by auto
  from sent_getnode_to_node_shape [OF accepted(6,10)] obtain data a test n where
    chk: "ping_array_check (dht_ping_array d1) (dht_mono_time d1) (SIZEOF_Node_format * 2) ?pid = (Some data, a)"
    and data: "length data = SIZEOF_Node_format"
      "unpack_nodes 1 (data @ take SIZEOF_Node_format stack) False = Some ([test], n)"
      "ipport_equal (nf_ip_port test) source" "pk_equal (nf_public_key test) ?pk" by blast
  have ring: "ping_inv (dht_ping_array d1)" by (rule dht_inv_ping [OF accepted(6)])
  from ping_array_check_held(2) [OF ring chk refl] obtain d' m where
    d': "d' \<in> held_data (dht_ping_array dht)" "data = take m d'" using same by auto
  have cut: "take SIZEOF_Node_format d' = data" using d'(2) data(1) by (simp add: min_def split: if_splits)
  have c: "1 + CRYPTO_PUBLIC_KEY_SIZE + CRYPTO_NONCE_SIZE = 57" by (simp add: size_defs)
  have enc: "slice (1 + CRYPTO_PUBLIC_KEY_SIZE + CRYPTO_NONCE_SIZE) (1 + (length packet - 82) + 8 + CRYPTO_MAC_SIZE) packet =
      drop (1 + CRYPTO_PUBLIC_KEY_SIZE + CRYPTO_NONCE_SIZE) packet"
    using accepted(4) by (simp add: slice_def c size_defs)
  have ds: "take (length plain - 9) (drop 1 plain) = slice 1 (length packet - 82) plain" "length plain - 9 = length packet - 82"
    using accepted(8) by (simp_all add: slice_def)
  have nodes: "nodes' = nodes" using accepted(12) by simp
  show ?thesis
    using d'(1) data(2-4) [folded cut] accepted(9) accepted(7) [unfolded enc sk(1)] accepted(11) [folded ds, unfolded nodes] by blast
qed simp

theorem sendnodes_solicited_witness:
  "\<exists>dht response dht' data test n nodes. handle_sendnodes_core xor_host [] dht example_ipp response = (Some nodes, dht') \<and>
    data \<in> held_data (dht_ping_array dht) \<and> unpack_nodes 1 (take SIZEOF_Node_format data) False = Some ([test], n) \<and>
    ipport_equal (nf_ip_port test) example_ipp"
proof -
  let ?a = "(snd (dht_getnodes xor_host (example_node_dht 5) example_ipp (replicate 32 6) (replicate 32 5)))\<lparr>dht_mono_time := example_time\<rparr>"
  have "node_clean (node_at (replicate 32 6) example_ipp)" "node_udp (node_at (replicate 32 6) example_ipp)"
    "list_all (\<lambda>n. node_clean n \<and> node_udp n)
      [\<lparr>nf_public_key = replicate 32 9, nf_ip_port = assoc_ip_port (assoc4 (example_client 9 1000))\<rparr>]"
    by code_simp+
  moreover have "dht_ping_array (example_node_dht 5) = example_ring" by (simp add: example_node_dht_def example_dht_def)
  ultimately obtain response nodes where "fst (handle_sendnodes_core xor_host [] ?a example_ipp response) = Some nodes"
    using getnodes_round_trip [OF xor_box_platform _ _ example_node_dht(1) example_busy_dht(1), of xor_host xor_host 5 "replicate 32 5"
        "replicate 32 3" example_ipp example_time, OF _ _ _ _ _ _ _ _ _ _ example_busy_close, of "[]"]
      example_exchange plat_xor_host
    unfolding example_node_dht example_busy_dht append_Nil by auto
  then obtain dht' where r: "handle_sendnodes_core xor_host [] ?a example_ipp response = (Some nodes, dht')" by (metis prod.collapse)
  have "dht_inv xor_host (snd (dht_getnodes xor_host (example_node_dht 5) example_ipp (replicate 32 6) (replicate 32 5)))"
    by (intro only_sends_inv [OF dht_getnodes_only_sends] dht_inv_caches [OF example_node_dht(1)] example_node_dht(1)) simp
  then have "dht_inv xor_host ?a" by (simp add: dht_inv_def)
  from sendnodes_solicited [OF this r, unfolded take_Nil append_Nil2] r show ?thesis by blast
qed

end
