(* ===== verification/DHT_Maintenance.thy ===== *)
theory DHT_Maintenance
  imports DHT_Nodes
begin

text \<open>
  The periodic maintenance of \<^verbatim>\<open>toxcore/DHT.c\<close>: get nodes requests to the clients of the close list and
  of the friends' lists, and bootstrapping.

  Shown here: every step keeps the state well-formed, and \<^verbatim>\<open>do_Close\<close> resets the timestamps of the
  close list exactly if the number of live addresses is a multiple of 256, because the count is
  kept in 8 bits.
\<close>

section \<open>Definitions\<close>

text \<open>The local variables of \<^verbatim>\<open>do_ping_and_sendnode_requests\<close>. The two pointer arrays are the list of
  positions of good addresses, the flag telling the IPv6 address from the IPv4 one: the pointers are
  followed after the list may have been sorted.\<close>

record Scan =
  scan_dht :: DHT
  scan_list :: "Client_data list"
  not_kill :: byte
  scan_sort :: u32
  sort_ok :: bool
  good_nodes :: "(nat \<times> bool) list"

definition get_assoc :: "bool \<Rightarrow> Client_data \<Rightarrow> IPPTsPng" where
  "get_assoc v6 c = (if v6 then assoc6 c else assoc4 c)"

definition put_assoc :: "bool \<Rightarrow> IPPTsPng \<Rightarrow> Client_data \<Rightarrow> Client_data" where
  "put_assoc v6 a c = (if v6 then c\<lparr>assoc6 := a\<rparr> else c\<lparr>assoc4 := a\<rparr>)"

definition scan_assoc :: "host \<Rightarrow> bytes \<Rightarrow> nat \<Rightarrow> bool \<Rightarrow> Scan \<Rightarrow> Scan" where
  "scan_assoc h public_key i v6 s =
     (let client = scan_list s ! i;
          assoc = get_assoc v6 client;
          mt = dht_mono_time (scan_dht s);
          j = (if v6 then 0 else 1)
      in if \<not> mono_time_is_timeout mt (timestamp assoc) KILL_NODE_TIMEOUT then
           let s = s\<lparr>scan_sort := 0, not_kill := not_kill s + 1\<rparr>;
               s = (if mono_time_is_timeout mt (last_pinged assoc) PING_INTERVAL then
                      s\<lparr>scan_dht := snd (dht_getnodes h (scan_dht s) (assoc_ip_port assoc) (cd_public_key client) public_key),
                        scan_list := (scan_list s)[i := put_assoc v6 (assoc\<lparr>last_pinged := mono_time_get mt\<rparr>) client]\<rparr>
                    else s)
           in if \<not> assoc_timeout (dht_cur_time (scan_dht s)) assoc then s\<lparr>good_nodes := good_nodes s @ [(i, v6)]\<rparr> else s
         else
           let s = s\<lparr>scan_sort := scan_sort s + 1\<rparr> in
           if scan_sort s > 1 \<and> scan_sort s < (j + 1) * 2 - 1 then s\<lparr>sort_ok := True\<rparr> else s)"

definition scan_client :: "host \<Rightarrow> bytes \<Rightarrow> nat \<Rightarrow> Scan \<Rightarrow> Scan" where
  "scan_client h public_key i s = scan_assoc h public_key i False (scan_assoc h public_key i True s)"

definition scan_clients :: "host \<Rightarrow> DHT \<Rightarrow> bytes \<Rightarrow> Client_data list \<Rightarrow> Scan" where
  "scan_clients h dht public_key list = fold (scan_client h public_key) [0..<length list]
     \<lparr>scan_dht = dht, scan_list = list, not_kill = 0, scan_sort = 0, sort_ok = False, good_nodes = []\<rparr>"

text \<open>The choice of a good address: the second draw moves the first one towards the end.\<close>

definition pick_node :: "host \<Rightarrow> Random \<Rightarrow> u32 \<Rightarrow> u32 \<times> Random" where
  "pick_node h r num_nodes =
     (let (rand_node, r) = random_range_u32 (host_uniform h) r num_nodes in
      if num_nodes - 1 \<noteq> rand_node then
        let (n, r) = random_range_u32 (host_uniform h) r (num_nodes - (rand_node + 1)) in (rand_node + n, r)
      else (rand_node, r))"

definition do_ping_and_sendnode_requests ::
  "host \<Rightarrow> DHT \<Rightarrow> u64 \<Rightarrow> bytes \<Rightarrow> Client_data list \<Rightarrow> u32 \<Rightarrow> bool \<Rightarrow> byte \<times> DHT \<times> u64 \<times> Client_data list \<times> u32" where
  "do_ping_and_sendnode_requests h dht lastget public_key list boots sortable =
     (if \<not> malloc_ok (plat h) (length list * 2 * 8) then (0, dht, lastget, list, boots)
      else
        let temp_time = mono_time_get (dht_mono_time dht);
            s = scan_clients h dht public_key list;
            dht = scan_dht s;
            list = (if sortable \<and> sort_ok s
                    then sort_client_list (plat h) (host_qsort h) (scan_list s) (dht_cur_time dht) public_key
                    else scan_list s);
            num_nodes = of_nat (length (good_nodes s))
        in if num_nodes > 0 \<and> (mono_time_is_timeout (dht_mono_time dht) lastget GET_NODE_INTERVAL \<or>
                boots < MAX_BOOTSTRAP_TIMES) then
             let (rand_node, r) = pick_node h (rng dht) num_nodes;
                 (i, v6) = good_nodes s ! unat rand_node;
                 client = list ! i;
                 dht = snd (dht_getnodes h (dht\<lparr>rng := r\<rparr>) (assoc_ip_port (get_assoc v6 client)) (cd_public_key client) public_key)
             in (not_kill s, dht, temp_time, list, boots + 1)
           else (not_kill s, dht, lastget, list, boots))"

text \<open>The get nodes requests to the nodes that are queued for bootstrapping.\<close>

definition bootstrap_all :: "host \<Rightarrow> bytes \<Rightarrow> Node_format list \<Rightarrow> DHT \<Rightarrow> DHT" where
  "bootstrap_all h public_key nodes dht =
     fold (\<lambda>n dht. snd (dht_getnodes h dht (nf_ip_port n) (nf_public_key n) public_key)) nodes dht"

definition do_dht_friend :: "host \<Rightarrow> nat \<Rightarrow> DHT \<Rightarrow> DHT" where
  "do_dht_friend h i dht =
     (let f = friends_list dht ! i;
          dht = bootstrap_all h (df_public_key f) (take (df_num_to_bootstrap f) (df_to_bootstrap f)) dht;
          (_, dht, last, list, boots) = do_ping_and_sendnode_requests h dht (lastgetnode f) (df_public_key f) (client_list f)
                                          (bootstrap_times f) True
      in dht\<lparr>friends_list := (friends_list dht)[i := f\<lparr>df_num_to_bootstrap := 0, lastgetnode := last, client_list := list,
           bootstrap_times := boots\<rparr>]\<rparr>)"

definition do_dht_friends :: "host \<Rightarrow> DHT \<Rightarrow> DHT" where
  "do_dht_friends h dht = fold (do_dht_friend h) [0..<length (friends_list dht)] dht"

definition reset_assoc :: "u64 \<Rightarrow> IPPTsPng \<Rightarrow> IPPTsPng" where
  "reset_assoc badonly a = (if timestamp a \<noteq> 0 then a\<lparr>timestamp := badonly\<rparr> else a)"

definition do_Close :: "host \<Rightarrow> DHT \<Rightarrow> DHT" where
  "do_Close h dht =
     (let dht = bootstrap_all h (self_public_key dht) (take (num_to_bootstrap dht) (to_bootstrap dht)) dht;
          dht = dht\<lparr>num_to_bootstrap := 0\<rparr>;
          (not_killed, dht, last, list, boots) =
            do_ping_and_sendnode_requests h dht (close_lastgetnodes dht) (self_public_key dht) (close_clientlist dht)
              (close_bootstrap_times dht) False;
          dht = dht\<lparr>close_lastgetnodes := last, close_clientlist := list, close_bootstrap_times := boots\<rparr>
      in if not_killed \<noteq> 0 then dht
         else
           let badonly = mono_time_get (dht_mono_time dht) - BAD_NODE_TIMEOUT
           in dht\<lparr>close_clientlist :=
                map (\<lambda>c. c\<lparr>assoc6 := reset_assoc badonly (assoc6 c), assoc4 := reset_assoc badonly (assoc4 c)\<rparr>) (close_clientlist dht)\<rparr>)"

definition dht_bootstrap :: "host \<Rightarrow> DHT \<Rightarrow> IP_Port \<Rightarrow> bytes \<Rightarrow> bool \<times> DHT" where
  "dht_bootstrap h dht ipp public_key =
     (if pk_equal public_key (self_public_key dht) then (True, dht)
      else dht_getnodes h dht ipp public_key (self_public_key dht))"

section \<open>Every step keeps the state well-formed\<close>

lemma put_assoc_fields [simp]:
  "cd_public_key (put_assoc v6 a c) = cd_public_key c"
  "get_assoc w (put_assoc v6 a c) = (if w = v6 then a else get_assoc w c)"
  by (simp_all add: put_assoc_def get_assoc_def)

text \<open>What a scan keeps: the keys and timestamps of the list; of the state, all but what sending changes.\<close>

definition stamps :: "Client_data list \<Rightarrow> (bytes \<times> u64 \<times> u64) list" where
  "stamps cs = map (\<lambda>c. (cd_public_key c, timestamp (assoc6 c), timestamp (assoc4 c))) cs"

lemma stamps_put:
  assumes "timestamp a = timestamp (get_assoc v6 (cs ! i))"
  shows "stamps (cs[i := put_assoc v6 a (cs ! i)]) = stamps cs"
proof -
  let ?f = "\<lambda>c. (cd_public_key c, timestamp (assoc6 c), timestamp (assoc4 c))"
  have "?f (put_assoc v6 a (cs ! i)) = ?f (cs ! i)" using assms by (simp add: put_assoc_def get_assoc_def)
  then have "map ?f (cs[i := put_assoc v6 a (cs ! i)]) = map ?f (cs[i := cs ! i])" by (simp only: map_update)
  then show ?thesis by (simp add: stamps_def)
qed

lemma length_stamps: "stamps cs = stamps ds \<Longrightarrow> length cs = length ds"
  unfolding stamps_def by (rule map_eq_imp_length_eq)

lemma stamps_nth:
  assumes "stamps cs = stamps ds" "i < length ds"
  shows "cd_public_key (cs ! i) = cd_public_key (ds ! i)" "timestamp (get_assoc v6 (cs ! i)) = timestamp (get_assoc v6 (ds ! i))"
  using arg_cong [OF assms(1), of "\<lambda>l. l ! i"] assms(2) length_stamps [OF assms(1)] by (auto simp: stamps_def get_assoc_def)

lemma stamps_clients_ok: "stamps cs = stamps ds \<Longrightarrow> clients_ok n ds \<Longrightarrow> clients_ok n cs"
  using length_stamps [of cs ds] stamps_nth(1) [of cs ds] by (auto simp: clients_ok_def list_all_length)

definition live :: "Mono_Time \<Rightarrow> IPPTsPng \<Rightarrow> bool" where
  "live mt a \<longleftrightarrow> \<not> mono_time_is_timeout mt (timestamp a) KILL_NODE_TIMEOUT"

lemma scan_assoc_keeps:
  fixes pk :: bytes and v6 :: bool
  assumes "caches_ok h (scan_dht s)" "clients_ok n (scan_list s)" "i < n"
  defines "s' \<equiv> scan_assoc h pk i v6 s"
  shows "only_sends h (scan_dht s) (scan_dht s')" "stamps (scan_list s') = stamps (scan_list s)"
    "not_kill s' = not_kill s + of_bool (live (dht_mono_time (scan_dht s)) (get_assoc v6 (scan_list s ! i)))"
    "set (good_nodes s') \<subseteq> insert (i, v6) (set (good_nodes s))"
  using dht_getnodes_only_sends [OF assms(1) clients_ok_nth [OF assms(2,3)]]
  by (simp_all add: s'_def scan_assoc_def Let_def live_def stamps_put subset_insertI2)

text \<open>The number of live addresses of a list.\<close>

definition live_count :: "Mono_Time \<Rightarrow> Client_data list \<Rightarrow> nat" where
  "live_count mt cs = (\<Sum>c \<leftarrow> cs. of_bool (live mt (assoc6 c)) + of_bool (live mt (assoc4 c)))"

definition scanned :: "host \<Rightarrow> DHT \<Rightarrow> Client_data list \<Rightarrow> nat \<Rightarrow> nat \<Rightarrow> Scan \<Rightarrow> bool" where
  "scanned h dht cs k m s \<longleftrightarrow> only_sends h dht (scan_dht s) \<and> stamps (scan_list s) = stamps cs \<and>
     not_kill s = of_nat m \<and> set (good_nodes s) \<subseteq> {..<k} \<times> UNIV"

lemma scanned_assoc:
  assumes "caches_ok h dht" "clients_ok n cs" "i < n" "i < k" "scanned h dht cs k m s"
  shows "scanned h dht cs k (m + of_bool (live (dht_mono_time dht) (get_assoc v6 (cs ! i)))) (scan_assoc h pk i v6 s)"
proof -
  have s: "only_sends h dht (scan_dht s)" "stamps (scan_list s) = stamps cs" using assms(5) by (simp_all add: scanned_def)
  have "caches_ok h (scan_dht s)" using s(1) assms(1) by (simp add: only_sends_def)
  note keeps = scan_assoc_keeps [OF this stamps_clients_ok [OF s(2) assms(2)] assms(3), of pk v6]
  have "i < length cs" using assms(2,3) by (simp add: clients_ok_def)
  from stamps_nth(2) [OF s(2) this] have "live mt (get_assoc v6 (scan_list s ! i)) = live mt (get_assoc v6 (cs ! i))" for mt
    by (simp add: live_def)
  moreover have "dht_mono_time (scan_dht s) = dht_mono_time dht" by (rule only_sends_fields [OF s(1)])
  ultimately show ?thesis
    using keeps assms(4,5) only_sends_trans [OF s(1) keeps(1)] unfolding scanned_def by auto
qed

lemma scanned_clients:
  assumes "caches_ok h dht" "clients_ok n cs" "k \<le> n"
  shows "scanned h dht cs k (live_count (dht_mono_time dht) (take k cs)) (fold (scan_client h pk) [0..<k]
    \<lparr>scan_dht = dht, scan_list = cs, not_kill = 0, scan_sort = 0, sort_ok = False, good_nodes = []\<rparr>)"
  using assms(3)
proof (induction k)
  case 0
  then show ?case by (simp add: scanned_def live_count_def)
next
  case (Suc k)
  let ?mt = "dht_mono_time dht"
  have len: "length cs = n" using assms(2) by (simp add: clients_ok_def)
  have more: "scanned h dht cs (Suc k) m s" if "scanned h dht cs k m s" for m s using that by (auto simp: scanned_def)
  have "live_count ?mt (take (Suc k) cs) = live_count ?mt (take k cs) + of_bool (live ?mt (get_assoc True (cs ! k))) +
      of_bool (live ?mt (get_assoc False (cs ! k)))"
    using Suc.prems len by (simp add: live_count_def take_Suc_conv_app_nth get_assoc_def)
  moreover have "k < n" "k < Suc k" using Suc.prems by simp_all
  note two = scanned_assoc [OF assms(1,2) this scanned_assoc [OF assms(1,2) this]]
  ultimately show ?case
    using two [OF more [OF Suc.IH], of True False pk pk] Suc.prems by (simp add: scan_client_def)
qed

lemma scan_clients_scanned:
  assumes "caches_ok h dht" "clients_ok n cs"
  shows "scanned h dht cs n (live_count (dht_mono_time dht) cs) (scan_clients h dht pk cs)"
  using scanned_clients [OF assms order_refl, of pk] assms(2) by (simp add: scan_clients_def clients_ok_def)

lemma pick_node_less:
  assumes "uniform_random (host_uniform h)" "0 < n" "pick_node h r n = (k, r')"
  shows "k < n"
proof -
  obtain k1 r1 where 1: "random_range_u32 (host_uniform h) r n = (k1, r1)" by fastforce
  note less = uniform_random.range_less [OF assms(1,2) 1]
  show ?thesis
  proof (cases "n - 1 = k1")
    case True
    then show ?thesis using assms(3) 1 less by (simp add: pick_node_def)
  next
    case False
    obtain k2 r2 where 2: "random_range_u32 (host_uniform h) r1 (n - (k1 + 1)) = (k2, r2)" by fastforce
    have k: "k = k1 + k2" using assms(3) 1 2 False by (simp add: pick_node_def)
    have "1 \<le> n" using assms(2) by (simp add: word_le_nat_alt word_less_nat_alt Suc_le_eq)
    then have "unat (n - 1) = unat n - 1" by (simp add: unat_sub)
    then have "unat k1 \<noteq> unat n - 1" "unat k1 < unat n" using False less(1) by (auto simp: word_unat_eq_iff word_less_nat_alt)
    then have pos: "unat k1 + 1 < unat n" by linarith
    have n32: "unat n < 2 ^ 32" by (rule order_less_le_trans [OF unsigned_less]) simp
    then have "unat (k1 + 1) = unat k1 + 1" using pos by (simp add: unat_word_ariths)
    then have sub: "unat (n - (k1 + 1)) = unat n - (unat k1 + 1)" using pos by (subst unat_sub) (simp_all add: word_le_nat_alt)
    have "0 < n - (k1 + 1)" using pos sub by (simp add: word_less_nat_alt)
    from uniform_random.range_less(2) [OF assms(1) this 2] sub pos have "unat k1 + unat k2 < unat n" by linarith
    then show ?thesis using n32 by (simp add: k word_less_nat_alt unat_word_ariths)
  qed
qed

text \<open>What the maintenance relies on: the host's sort and its uniform draws.\<close>

definition host_ok :: "host \<Rightarrow> bool" where
  "host_ok h \<longleftrightarrow> qsort_contract (host_qsort h) \<and> uniform_random (host_uniform h)"

lemma only_sends_rng [simp]: "only_sends h dht (dht\<lparr>rng := r\<rparr>)"
  by (simp add: only_sends_def)

lemma unat_of_nat_le: "unat (of_nat n :: 'a :: len word) \<le> n"
  by (simp add: unat_of_nat)

lemma do_ping_keeps:
  assumes "host_ok h" "caches_ok h dht" "clients_ok n cs"
    and run: "do_ping_and_sendnode_requests h dht lastget pk cs boots sortable = (nk, dht', lastget', cs', boots')"
  shows "only_sends h dht dht'" "clients_ok n cs'" "\<not> sortable \<Longrightarrow> stamps cs' = stamps cs"
    "malloc_ok (plat h) (n * 2 * 8) \<Longrightarrow> nk = of_nat (live_count (dht_mono_time dht) cs)"
    "\<not> malloc_ok (plat h) (n * 2 * 8) \<Longrightarrow> nk = 0"
proof -
  have len: "length cs = n" using assms(3) by (simp add: clients_ok_def)
  define s where "s = scan_clients h dht pk cs"
  define l where "l = (if sortable \<and> sort_ok s
    then sort_client_list (plat h) (host_qsort h) (scan_list s) (dht_cur_time (scan_dht s)) pk else scan_list s)"
  have sc: "scanned h dht cs n (live_count (dht_mono_time dht) cs) s"
    unfolding s_def by (rule scan_clients_scanned [OF assms(2,3)])
  then have os: "only_sends h dht (scan_dht s)" and st: "stamps (scan_list s) = stamps cs"
    and nk: "not_kill s = of_nat (live_count (dht_mono_time dht) cs)" and good: "set (good_nodes s) \<subseteq> {..<n} \<times> UNIV"
    by (simp_all add: scanned_def)
  have cok: "caches_ok h (scan_dht s)" using os assms(2) by (simp add: only_sends_def)
  have ok: "clients_ok n (scan_list s)" by (rule stamps_clients_ok [OF st assms(3)])
  then have l_ok: "clients_ok n l" and l_st: "\<not> sortable \<Longrightarrow> stamps l = stamps cs"
    using assms(1) st sort_client_list_ok by (auto simp: l_def host_ok_def)
  let ?num = "of_nat (length (good_nodes s)) :: u32"
  obtain k r where pick: "pick_node h (rng (scan_dht s)) ?num = (k, r)" by fastforce
  obtain i v6 where at: "good_nodes s ! unat k = (i, v6)" by fastforce
  let ?d = "snd (dht_getnodes h ((scan_dht s)\<lparr>rng := r\<rparr>) (assoc_ip_port (get_assoc v6 (l ! i))) (cd_public_key (l ! i)) pk)"
  have d: "only_sends h dht ?d" if "0 < ?num"
  proof -
    have "k < ?num" using pick_node_less [OF _ that pick] assms(1) by (simp add: host_ok_def)
    then have "unat k < length (good_nodes s)" using unat_of_nat_le order_less_le_trans by (auto simp: word_less_nat_alt)
    then have "(i, v6) \<in> set (good_nodes s)" using at by (metis nth_mem)
    then have "i < n" using good by auto
    note go = dht_getnodes_only_sends [OF _ clients_ok_nth [OF l_ok this], of h "(scan_dht s)\<lparr>rng := r\<rparr>"]
    show ?thesis using cok by (intro only_sends_trans [OF os only_sends_trans [OF only_sends_rng go]]) simp
  qed
  have cases: "nk = 0 \<and> dht' = dht \<and> cs' = cs \<and> \<not> malloc_ok (plat h) (n * 2 * 8) \<or>
      nk = not_kill s \<and> cs' = l \<and> malloc_ok (plat h) (n * 2 * 8) \<and> (dht' = scan_dht s \<or> 0 < ?num \<and> dht' = ?d)"
    using run unfolding do_ping_and_sendnode_requests_def Let_def s_def [symmetric] l_def [symmetric] pick prod.case at len
    by (auto split: if_splits)
  then show "only_sends h dht dht'" "clients_ok n cs'" "\<not> sortable \<Longrightarrow> stamps cs' = stamps cs"
    "malloc_ok (plat h) (n * 2 * 8) \<Longrightarrow> nk = of_nat (live_count (dht_mono_time dht) cs)"
    "\<not> malloc_ok (plat h) (n * 2 * 8) \<Longrightarrow> nk = 0"
    using d os l_ok l_st nk assms(3) by auto
qed

lemma bootstrap_all_only_sends:
  "caches_ok h dht \<Longrightarrow> keys_ok nodes \<Longrightarrow> only_sends h dht (bootstrap_all h pk nodes dht)"
proof (induction nodes arbitrary: dht)
  case (Cons n nodes)
  let ?d = "snd (dht_getnodes h dht (nf_ip_port n) (nf_public_key n) pk)"
  have one: "only_sends h dht ?d" using Cons.prems by (intro dht_getnodes_only_sends) (simp_all add: keys_ok_def)
  then have "caches_ok h ?d" using Cons.prems(1) by (simp add: only_sends_def)
  then have "only_sends h ?d (bootstrap_all h pk nodes ?d)" using Cons by (simp add: keys_ok_def)
  then show ?case using only_sends_trans [OF one] by (simp add: bootstrap_all_def)
qed (simp add: bootstrap_all_def)

lemma keys_ok_take: "keys_ok ns \<Longrightarrow> keys_ok (take k ns)"
  by (auto simp: keys_ok_def dest: in_set_takeD)

lemma dht_inv_bootstrap: "dht_inv h dht \<Longrightarrow> keys_ok (take k (to_bootstrap dht))"
  by (simp add: dht_inv_def nodes_ok_def keys_ok_take)

lemma dht_inv_close_fields:
  "dht_inv h dht \<Longrightarrow> clients_ok LCLIENT_LIST cs \<Longrightarrow>
     dht_inv h (dht\<lparr>close_lastgetnodes := t, close_clientlist := cs, close_bootstrap_times := b\<rparr>)"
  "dht_inv h dht \<Longrightarrow> dht_inv h (dht\<lparr>num_to_bootstrap := 0\<rparr>)"
  by (simp_all add: dht_inv_def caches_ok_def)

definition reset_stamp :: "u64 \<Rightarrow> u64 \<Rightarrow> u64" where
  "reset_stamp now t = (if t = 0 then 0 else now - BAD_NODE_TIMEOUT)"

lemma do_Close_stages:
  assumes "host_ok h" "dht_inv h dht"
  obtains dht1 not_killed where "dht_inv h dht1" "stamps (close_clientlist dht1) = stamps (close_clientlist dht)"
    "dht_mono_time dht1 = dht_mono_time dht"
    "malloc_ok (plat h) (LCLIENT_LIST * 2 * 8) \<Longrightarrow>
       (not_killed :: byte) = of_nat (live_count (dht_mono_time dht) (close_clientlist dht))"
    "do_Close h dht = (if not_killed \<noteq> 0 then dht1 else dht1\<lparr>close_clientlist :=
       map (\<lambda>c. c\<lparr>assoc6 := reset_assoc (mono_time_get (dht_mono_time dht1) - BAD_NODE_TIMEOUT) (assoc6 c),
         assoc4 := reset_assoc (mono_time_get (dht_mono_time dht1) - BAD_NODE_TIMEOUT) (assoc4 c)\<rparr>) (close_clientlist dht1)\<rparr>)"
proof -
  define d1 where "d1 = bootstrap_all h (self_public_key dht) (take (num_to_bootstrap dht) (to_bootstrap dht)) dht"
  have os: "only_sends h dht d1"
    unfolding d1_def by (intro bootstrap_all_only_sends dht_inv_caches [OF assms(2)] dht_inv_bootstrap [OF assms(2)])
  note same = only_sends_fields [OF os]
  let ?d = "d1\<lparr>num_to_bootstrap := 0\<rparr>"
  have d: "dht_inv h ?d" by (intro dht_inv_close_fields only_sends_inv [OF os assms(2)])
  obtain nk d2 last cs boots where run: "do_ping_and_sendnode_requests h ?d (close_lastgetnodes ?d) (self_public_key ?d)
      (close_clientlist ?d) (close_bootstrap_times ?d) False = (nk, d2, last, cs, boots)" by (metis prod.collapse)
  note keeps = do_ping_keeps [OF assms(1) dht_inv_caches [OF d] dht_inv_close [OF d] run]
  let ?e = "d2\<lparr>close_lastgetnodes := last, close_clientlist := cs, close_bootstrap_times := boots\<rparr>"
  have e: "dht_inv h ?e" by (intro dht_inv_close_fields only_sends_inv [OF keeps(1) d] keeps(2))
  have t: "dht_mono_time d2 = dht_mono_time dht" using only_sends_fields [OF keeps(1)] same by simp
  show thesis
  proof (rule that [of ?e nk])
    show "stamps (close_clientlist ?e) = stamps (close_clientlist dht)" using keeps(3) same by simp
    show "nk = of_nat (live_count (dht_mono_time dht) (close_clientlist dht))" if "malloc_ok (plat h) (LCLIENT_LIST * 2 * 8)"
      using keeps(4) [OF that] same by simp
    show "do_Close h dht = (if nk \<noteq> 0 then ?e else ?e\<lparr>close_clientlist :=
       map (\<lambda>c. c\<lparr>assoc6 := reset_assoc (mono_time_get (dht_mono_time ?e) - BAD_NODE_TIMEOUT) (assoc6 c),
         assoc4 := reset_assoc (mono_time_get (dht_mono_time ?e) - BAD_NODE_TIMEOUT) (assoc4 c)\<rparr>) (close_clientlist ?e)\<rparr>)"
      unfolding do_Close_def d1_def [symmetric] Let_def run prod.case ..
  qed (use e t in simp_all)
qed

lemma do_Close_inv [keep_inv]:
  assumes "host_ok h" "dht_inv h dht"
  shows "dht_inv h (do_Close h dht)"
  using assms
proof (rule do_Close_stages)
  fix dht1 and nk :: byte
  assume 1: "dht_inv h dht1"
    and eq: "do_Close h dht = (if nk \<noteq> 0 then dht1 else dht1\<lparr>close_clientlist :=
       map (\<lambda>c. c\<lparr>assoc6 := reset_assoc (mono_time_get (dht_mono_time dht1) - BAD_NODE_TIMEOUT) (assoc6 c),
         assoc4 := reset_assoc (mono_time_get (dht_mono_time dht1) - BAD_NODE_TIMEOUT) (assoc4 c)\<rparr>) (close_clientlist dht1)\<rparr>)"
  have "clients_ok LCLIENT_LIST (map (\<lambda>c. c\<lparr>assoc6 := f c, assoc4 := g c\<rparr>) (close_clientlist dht1))" for f g
    using dht_inv_close [OF 1] by (simp add: clients_ok_def list_all_iff)
  then show ?thesis using 1 by (simp add: eq dht_inv_set_close)
qed

lemma do_Close_stamps:
  assumes "host_ok h" "dht_inv h dht" "malloc_ok (plat h) (LCLIENT_LIST * 2 * 8)"
  shows "stamps (close_clientlist (do_Close h dht)) =
    (if 256 dvd live_count (dht_mono_time dht) (close_clientlist dht)
     then map (\<lambda>(k, t6, t4). (k, reset_stamp (mono_time_get (dht_mono_time dht)) t6, reset_stamp (mono_time_get (dht_mono_time dht)) t4))
            (stamps (close_clientlist dht))
     else stamps (close_clientlist dht))"
  using assms(1,2)
proof (rule do_Close_stages)
  fix dht1 and nk :: byte
  assume st: "stamps (close_clientlist dht1) = stamps (close_clientlist dht)" "dht_mono_time dht1 = dht_mono_time dht"
    and nk: "malloc_ok (plat h) (LCLIENT_LIST * 2 * 8) \<Longrightarrow> nk = of_nat (live_count (dht_mono_time dht) (close_clientlist dht))"
    and eq: "do_Close h dht = (if nk \<noteq> 0 then dht1 else dht1\<lparr>close_clientlist :=
       map (\<lambda>c. c\<lparr>assoc6 := reset_assoc (mono_time_get (dht_mono_time dht1) - BAD_NODE_TIMEOUT) (assoc6 c),
         assoc4 := reset_assoc (mono_time_get (dht_mono_time dht1) - BAD_NODE_TIMEOUT) (assoc4 c)\<rparr>) (close_clientlist dht1)\<rparr>)"
  have zero: "nk = 0 \<longleftrightarrow> 256 dvd live_count (dht_mono_time dht) (close_clientlist dht)"
    using nk [OF assms(3)] by (simp add: word_of_nat_eq_0_iff)
  have "stamps (map (\<lambda>c. c\<lparr>assoc6 := reset_assoc (now - BAD_NODE_TIMEOUT) (assoc6 c),
      assoc4 := reset_assoc (now - BAD_NODE_TIMEOUT) (assoc4 c)\<rparr>) cs) =
    map (\<lambda>(k, t6, t4). (k, reset_stamp now t6, reset_stamp now t4)) (stamps cs)" for now cs
    by (simp add: stamps_def reset_assoc_def reset_stamp_def)
  then show ?thesis using st zero by (simp add: eq)
qed

lemma friend_okD:
  "friend_ok f \<Longrightarrow> length (df_public_key f) = 32" "friend_ok f \<Longrightarrow> clients_ok MAX_FRIEND_CLIENTS (client_list f)"
  "friend_ok f \<Longrightarrow> keys_ok (take k (df_to_bootstrap f))"
  by (simp_all add: friend_ok_def nodes_ok_def keys_ok_take)

lemma do_dht_friend_inv:
  assumes "host_ok h" "dht_inv h dht" "i < length (friends_list dht)"
  shows "dht_inv h (do_dht_friend h i dht) \<and> length (friends_list (do_dht_friend h i dht)) = length (friends_list dht)"
proof -
  let ?f = "friends_list dht ! i"
  have f: "friend_ok ?f" using dht_inv_friends [OF assms(2)] assms(3) by (simp add: list_all_length)
  define d1 where "d1 = bootstrap_all h (df_public_key ?f) (take (df_num_to_bootstrap ?f) (df_to_bootstrap ?f)) dht"
  have os: "only_sends h dht d1"
    unfolding d1_def by (intro bootstrap_all_only_sends dht_inv_caches [OF assms(2)] friend_okD [OF f])
  have d1: "dht_inv h d1" by (rule only_sends_inv [OF os assms(2)])
  obtain nk d2 last cs boots where run: "do_ping_and_sendnode_requests h d1 (lastgetnode ?f) (df_public_key ?f) (client_list ?f)
      (bootstrap_times ?f) True = (nk, d2, last, cs, boots)" by (metis prod.collapse)
  note keeps = do_ping_keeps [OF assms(1) dht_inv_caches [OF d1] friend_okD(2) [OF f] run]
  have d2: "dht_inv h d2" by (rule only_sends_inv [OF keeps(1) d1])
  let ?g = "?f\<lparr>df_num_to_bootstrap := 0, lastgetnode := last, client_list := cs, bootstrap_times := boots\<rparr>"
  have "friend_ok ?g" using f keeps(2) by (simp add: friend_ok_def)
  then have "list_all friend_ok ((friends_list d2)[i := ?g])"
    using dht_inv_friends [OF d2] set_update_subset_insert [of "friends_list d2" i ?g] by (auto simp: list_all_iff)
  from dht_inv_set_friends [OF d2 this]
  have "dht_inv h (do_dht_friend h i dht)" unfolding do_dht_friend_def Let_def d1_def [symmetric] run prod.case .
  moreover have "length (friends_list (do_dht_friend h i dht)) = length (friends_list d2)"
    unfolding do_dht_friend_def Let_def d1_def [symmetric] run prod.case by simp
  ultimately show ?thesis using only_sends_fields(9) [OF os] only_sends_fields(9) [OF keeps(1)] by simp
qed

lemma do_dht_friends_inv [keep_inv]:
  assumes "host_ok h" "dht_inv h dht"
  shows "dht_inv h (do_dht_friends h dht)"
proof -
  have "dht_inv h (fold (do_dht_friend h) [0..<n] dht) \<and>
      length (friends_list (fold (do_dht_friend h) [0..<n] dht)) = length (friends_list dht)"
    if "n \<le> length (friends_list dht)" for n
    using that
  proof (induction n)
    case (Suc n)
    then show ?case using do_dht_friend_inv [OF assms(1), of "fold (do_dht_friend h) [0..<n] dht" n] by simp
  qed (simp add: assms(2))
  then show ?thesis by (simp add: do_dht_friends_def)
qed

lemma dht_bootstrap_inv [keep_inv]:
  "dht_inv h dht \<Longrightarrow> length pk = 32 \<Longrightarrow> dht_inv h (snd (dht_bootstrap h dht ipp pk))"
  unfolding dht_bootstrap_def
  by (auto intro: only_sends_inv [OF dht_getnodes_only_sends] dht_inv_caches)

section \<open>Properties\<close>

text \<open>\<^verbatim>\<open>do_Close\<close> keeps every timestamp of the close list unless the number of live addresses is a
  multiple of 256, and then it marks all nodes as bad: with no live address, as intended, but
  also with 256 of them, because the count is an 8-bit integer.\<close>

theorem do_Close_resets_iff_256_divides:
  assumes "host_ok h" "dht_inv h dht" "malloc_ok (plat h) (LCLIENT_LIST * 2 * 8)"
  shows "stamps (close_clientlist (do_Close h dht)) =
    (if 256 dvd live_count (dht_mono_time dht) (close_clientlist dht)
     then map (\<lambda>(k, t6, t4). (k, reset_stamp (mono_time_get (dht_mono_time dht)) t6, reset_stamp (mono_time_get (dht_mono_time dht)) t4))
            (stamps (close_clientlist dht))
     else stamps (close_clientlist dht))"
  using assms by (rule do_Close_stamps)

definition example_crowded_dht :: DHT where
  "example_crowded_dht = (example_node_dht 6)\<lparr>close_clientlist := replicate 256 (example_client 9 1000) @ replicate 768 empty_client\<rparr>"

lemma host_ok_xor_host: "host_ok xor_host"
  using iqs.qsort_contract_axioms sys_random.uniform_random_axioms by (simp add: host_ok_def xor_host_def example_host_def)

theorem do_Close_resets_iff_256_divides_witness:
  "live_count (dht_mono_time example_crowded_dht) (close_clientlist example_crowded_dht) = 256 \<and>
   timestamp (assoc4 (close_clientlist example_crowded_dht ! 0)) = 1000 \<and>
   stamps (close_clientlist (do_Close xor_host example_crowded_dht)) =
     replicate 256 (replicate 32 9, 0, 878) @ replicate 768 (replicate 32 0, 0, 0)"
proof -
  have c: "close_clientlist example_crowded_dht = replicate 256 (example_client 9 1000) @ replicate 768 empty_client"
    "dht_mono_time example_crowded_dht = example_time"
    by (simp_all add: example_crowded_dht_def example_node_dht)
  have "length (cd_public_key (example_client 9 1000)) = 32" by (simp add: example_client_def)
  then have inv: "dht_inv xor_host example_crowded_dht"
    using example_node_dht(1) [of xor_host 6]
    by (simp add: example_crowded_dht_def dht_inv_def clients_ok_def list_all_iff empty_client_def caches_ok_def size_defs)
  have "live example_time (assoc4 (example_client 9 1000))" "\<not> live example_time (assoc6 (example_client 9 1000))"
    "\<not> live example_time (assoc4 empty_client)" "\<not> live example_time (assoc6 empty_client)" by code_simp+
  then have n: "live_count example_time (close_clientlist example_crowded_dht) = 256"
    by (simp add: c live_count_def sum_list_replicate)
  have st: "stamps (close_clientlist example_crowded_dht) = replicate 256 (replicate 32 9, 0, 1000) @ replicate 768 (replicate 32 0, 0, 0)"
    by (simp add: c stamps_def example_client_def empty_client_def empty_ipptspng_def)
  have "malloc_ok (plat xor_host) (LCLIENT_LIST * 2 * 8)" by (simp add: plat_xor_host xor_box_platform [THEN box_platform.memory])
  note r = do_Close_resets_iff_256_divides [OF host_ok_xor_host inv this]
  have now: "reset_stamp (mono_time_get example_time) 0 = 0" "reset_stamp (mono_time_get example_time) 1000 = 878" by code_simp+
  show ?thesis using n r unfolding st c(2) by (simp add: now c example_client_def nth_append)
qed

end
