(* ===== verification/DHT_NAT.thy ===== *)
theory DHT_NAT
  imports DHT_Maintenance
begin

text \<open>
  Routing to friends and NAT hole punching of \<^verbatim>\<open>toxcore/DHT.c\<close>.

  Shown here: every operation keeps the state well-formed; \<^verbatim>\<open>nat_commonip\<close> finds an address with the
  required number of occurrences whenever there is one; and which addresses \<^verbatim>\<open>foreach_ip_port\<close> visits.
\<close>

section \<open>Definitions\<close>

definition MAX_PUNCHING_PORTS :: nat where [size_defs]: "MAX_PUNCHING_PORTS = 48"
definition PUNCH_INTERVAL :: u64 where [size_defs]: "PUNCH_INTERVAL = 3"
definition PUNCH_RESET_TIME :: u64 where [size_defs]: "PUNCH_RESET_TIME = 40"
definition MAX_NORMAL_PUNCHING_TRIES :: u32 where [size_defs]: "MAX_NORMAL_PUNCHING_TRIES = 5"
definition NAT_PING_REQUEST :: byte where [size_defs]: "NAT_PING_REQUEST = 0"
definition NAT_PING_RESPONSE :: byte where [size_defs]: "NAT_PING_RESPONSE = 1"
definition CRYPTO_PACKET_NAT_PING :: byte where [size_defs]: "CRYPTO_PACKET_NAT_PING = 254"

definition route_packet :: "host \<Rightarrow> DHT \<Rightarrow> bytes \<Rightarrow> bytes \<Rightarrow> int \<times> DHT" where
  "route_packet h dht public_key packet =
     (case find_index (\<lambda>c. pk_equal public_key (cd_public_key c)) (close_clientlist dht) of
        None \<Rightarrow> (- 1, dht)
      | Some i \<Rightarrow>
          let client = close_clientlist dht ! i in
          if ip_isset (ip (assoc_ip_port (assoc6 client))) then dht_send h dht (assoc_ip_port (assoc6 client)) packet
          else if ip_isset (ip (assoc_ip_port (assoc4 client))) then dht_send h dht (assoc_ip_port (assoc4 client)) packet
          else (- 1, dht))"

subsection \<open>Addresses of friends\<close>

definition returned_ok :: "Mono_Time \<Rightarrow> IPPTsPng \<Rightarrow> bool" where
  "returned_ok mt a \<longleftrightarrow> ip_isset (ip (ret_ip_port a)) \<and> \<not> mono_time_is_timeout mt (ret_timestamp a) BAD_NODE_TIMEOUT"

text \<open>The loop of \<^verbatim>\<open>friend_iplist\<close>; \<open>None\<close> is the early return for a friend with a direct connection.\<close>

fun iplist_loop :: "Mono_Time \<Rightarrow> u64 \<Rightarrow> bytes \<Rightarrow> Client_data list \<Rightarrow> IP_Port list \<Rightarrow> IP_Port list \<Rightarrow> (IP_Port list \<times> IP_Port list) option" where
  "iplist_loop mt now friend_pk [] ipv4s ipv6s = Some (ipv4s, ipv6s)"
| "iplist_loop mt now friend_pk (client # clients) ipv4s ipv6s =
     (let ipv4s = (if returned_ok mt (assoc4 client) then ipv4s @ [ret_ip_port (assoc4 client)] else ipv4s);
          ipv6s = (if returned_ok mt (assoc6 client) then ipv6s @ [ret_ip_port (assoc6 client)] else ipv6s)
      in if pk_equal (cd_public_key client) friend_pk \<and> (\<not> assoc_timeout now (assoc6 client) \<or> \<not> assoc_timeout now (assoc4 client))
         then None
         else iplist_loop mt now friend_pk clients ipv4s ipv6s)"

text \<open>\<open>None\<close> is the result \<open>-1\<close>; the number of addresses is the length of the list.\<close>

definition friend_iplist :: "DHT \<Rightarrow> nat \<Rightarrow> IP_Port list option" where
  "friend_iplist dht friend_num =
     (if friend_num \<ge> length (friends_list dht) then None
      else
        let f = friends_list dht ! friend_num in
        case iplist_loop (dht_mono_time dht) (dht_cur_time dht) (df_public_key f) (client_list f) [] [] of
          None \<Rightarrow> Some []
        | Some (ipv4s, ipv6s) \<Rightarrow> Some (if length ipv6s \<ge> length ipv4s then ipv6s else ipv4s))"

text \<open>The callback gets the address and the state and says whether it wants the next address of the client.\<close>

fun foreach_assoc :: "(IP_Port \<Rightarrow> 's \<Rightarrow> bool \<times> 's) \<Rightarrow> Mono_Time \<Rightarrow> IPPTsPng list \<Rightarrow> 's \<Rightarrow> 's" where
  "foreach_assoc callback mt [] s = s"
| "foreach_assoc callback mt (assoc # assocs) s =
     (if \<not> ip_isset (ip (ret_ip_port assoc)) \<and> \<not> mono_time_is_timeout mt (ret_timestamp assoc) BAD_NODE_TIMEOUT
      then foreach_assoc callback mt assocs s
      else case callback (assoc_ip_port assoc) s of
          (True, s) \<Rightarrow> foreach_assoc callback mt assocs s
        | (False, s) \<Rightarrow> s)"

definition foreach_ip_port :: "Mono_Time \<Rightarrow> DHT_Friend \<Rightarrow> (IP_Port \<Rightarrow> 's \<Rightarrow> bool \<times> 's) \<Rightarrow> 's \<Rightarrow> 's" where
  "foreach_ip_port mt f callback s = fold (\<lambda>c. foreach_assoc callback mt [assoc4 c, assoc6 c]) (client_list f) s"

definition send_packet_to_friend :: "host \<Rightarrow> bytes \<Rightarrow> IP_Port \<Rightarrow> u32 \<times> DHT \<Rightarrow> bool \<times> u32 \<times> DHT" where
  "send_packet_to_friend h packet ipp s =
     (case s of (n, dht) \<Rightarrow>
        let (retval, dht) = dht_send h dht ipp packet in
        if word_of_int retval = (of_nat (length packet) :: u32) then (False, n + 1, dht) else (True, n, dht))"

definition route_to_friend :: "host \<Rightarrow> DHT \<Rightarrow> bytes \<Rightarrow> bytes \<Rightarrow> u32 \<times> DHT" where
  "route_to_friend h dht friend_id packet =
     (case index_of_friend_pk (friends_list dht) friend_id of
        None \<Rightarrow> (0, dht)
      | Some num \<Rightarrow>
          (case friend_iplist dht num of
             None \<Rightarrow> (0, dht)
           | Some ip_list \<Rightarrow>
               if length ip_list < MAX_FRIEND_CLIENTS div 4 then (0, dht)
               else foreach_ip_port (dht_mono_time dht) (friends_list dht ! num) (send_packet_to_friend h packet) (0, dht)))"

definition get_ip_port :: "IP_Port \<Rightarrow> IP_Port list \<Rightarrow> bool \<times> IP_Port list" where
  "get_ip_port ipp ip_list = (True, ip_list @ [ipp])"

definition routeone_to_friend :: "host \<Rightarrow> DHT \<Rightarrow> bytes \<Rightarrow> bytes \<Rightarrow> u32 \<times> DHT" where
  "routeone_to_friend h dht friend_id packet =
     (case index_of_friend_pk (friends_list dht) friend_id of
        None \<Rightarrow> (0, dht)
      | Some num \<Rightarrow>
          let ip_list = foreach_ip_port (dht_mono_time dht) (friends_list dht ! num) get_ip_port [] in
          if length ip_list < 1 then (0, dht)
          else
            let (rand_idx, r) = random_range_u32 (host_uniform h) (rng dht) (of_nat (length ip_list));
                (retval, dht) = dht_send h (dht\<lparr>rng := r\<rparr>) (ip_list ! unat rand_idx) packet
            in if word_of_int retval = (of_nat (length packet) :: u32) then (1, dht) else (0, dht))"

subsection \<open>NAT pings\<close>

text \<open>\<open>stack\<close> is the memory \<^verbatim>\<open>create_request\<close> encrypts in.\<close>

definition send_NATping :: "host \<Rightarrow> bytes \<Rightarrow> DHT \<Rightarrow> bytes \<Rightarrow> u64 \<Rightarrow> byte \<Rightarrow> int \<times> DHT" where
  "send_NATping h stack dht public_key pid type =
     (let (nonce, r) = random_nonce (rng dht);
          dht = dht\<lparr>rng := r\<rparr>
      in case create_request (plat h) stack nonce (self_public_key dht) (dht_self_secret_key dht) public_key
                (type # host_bytes 8 pid) CRYPTO_PACKET_NAT_PING of
           None \<Rightarrow> (- 1, dht)
         | Some packet \<Rightarrow>
             let (num, dht) = (if type = 0 then route_to_friend h dht public_key packet
                               else if type = 1 then routeone_to_friend h dht public_key packet
                               else (0, dht))
             in if num = 0 then (- 1, dht) else (sint num, dht))"

text \<open>Writes the NAT record of a friend.\<close>

definition set_nat :: "nat \<Rightarrow> (NAT \<Rightarrow> NAT) \<Rightarrow> DHT \<Rightarrow> DHT" where
  "set_nat i f dht = dht\<lparr>friends_list := (friends_list dht)[i := (friends_list dht ! i)\<lparr>friend_nat := f (friend_nat (friends_list dht ! i))\<rparr>]\<rparr>"

definition handle_NATping :: "host \<Rightarrow> bytes \<Rightarrow> DHT \<Rightarrow> bytes \<Rightarrow> bytes \<Rightarrow> int \<times> DHT" where
  "handle_NATping h stack dht source_pubkey packet =
     (if length packet \<noteq> 8 + 1 then (1, dht)
      else
        let pid = host_word (drop 1 packet) in
        case index_of_friend_pk (friends_list dht) source_pubkey of
          None \<Rightarrow> (1, dht)
        | Some friendnumber \<Rightarrow>
            if packet ! 0 = NAT_PING_REQUEST then
              let dht = snd (send_NATping h stack dht source_pubkey pid NAT_PING_RESPONSE)
              in (0, set_nat friendnumber (\<lambda>n. n\<lparr>recv_nat_ping_timestamp := mono_time_get (dht_mono_time dht)\<rparr>) dht)
            else if packet ! 0 = NAT_PING_RESPONSE then
              (if nat_ping_id (friend_nat (friends_list dht ! friendnumber)) = pid then
                 let (n, r) = random_u64 (rng dht)
                 in (0, set_nat friendnumber (\<lambda>nat. nat\<lparr>nat_ping_id := n, hole_punching := True\<rparr>) (dht\<lparr>rng := r\<rparr>))
               else (1, dht))
            else (1, dht))"

subsection \<open>Hole punching\<close>

text \<open>The counts of equal addresses are 16-bit numbers of at most 8.\<close>

definition same_ip :: "IP_Port list \<Rightarrow> IP_Port \<Rightarrow> u16" where
  "same_ip ip_portlist p = fold (\<lambda>q n. if ip_equal (ip p) (ip q) then n + 1 else n) ip_portlist 0"

definition nat_commonip :: "IP_Port list \<Rightarrow> u16 \<Rightarrow> IP" where
  "nat_commonip ip_portlist min_num =
     (if length ip_portlist > MAX_FRIEND_CLIENTS then ip empty_ip_port
      else case find_index (\<lambda>p. same_ip ip_portlist p \<ge> min_num) ip_portlist of
          None \<Rightarrow> ip empty_ip_port
        | Some i \<Rightarrow> ip (ip_portlist ! i))"

definition nat_getports :: "IP_Port list \<Rightarrow> IP \<Rightarrow> u16 list" where
  "nat_getports ip_portlist a = map (\<lambda>p. net_ntohs (port p)) (filter (\<lambda>p. ip_equal (ip p) a) ip_portlist)"

text \<open>The port guessed in round \<open>it\<close>: 32-bit unsigned arithmetic, truncated to 16 bits.\<close>

definition guess_port :: "u16 list \<Rightarrow> u32 \<Rightarrow> u16" where
  "guess_port port_list it =
     (let numports = of_nat (length port_list) :: u32;
          delta = (if it mod 2 \<noteq> 0 then - 1 else 1) * (it div (2 * numports));
          index = (it div 2) mod numports
      in ucast (ucast (port_list ! unat index) + delta :: u32))"

definition ping_port :: "host \<Rightarrow> IP \<Rightarrow> bytes \<Rightarrow> u16 \<Rightarrow> DHT \<Rightarrow> DHT" where
  "ping_port h a public_key p dht = ping_send_request h dht \<lparr>ip = a, port = net_htons p\<rparr> public_key"

definition punch_holes :: "host \<Rightarrow> DHT \<Rightarrow> IP \<Rightarrow> u16 list \<Rightarrow> nat \<Rightarrow> DHT" where
  "punch_holes h dht a port_list friend_num =
     (if \<not> hole_punching_enabled dht then dht
      else if length port_list > MAX_FRIEND_CLIENTS \<or> length port_list = 0 then dht
      else
        let first_port = port_list ! 0;
            f = friends_list dht ! friend_num;
            pk = df_public_key f;
            dht = (if \<forall>p \<in> set port_list. first_port = p then ping_port h a pk first_port dht
                   else
                     let dht = fold (\<lambda>i. ping_port h a pk (guess_port port_list (of_nat i + punching_index (friend_nat f))))
                                 [0..<MAX_PUNCHING_PORTS] dht
                     in set_nat friend_num (\<lambda>n. n\<lparr>punching_index := punching_index n + of_nat MAX_PUNCHING_PORTS\<rparr>) dht);
            dht = (if tries (friend_nat f) > MAX_NORMAL_PUNCHING_TRIES then
                     let dht = fold (\<lambda>i. ping_port h a pk (ucast (1024 + (of_nat i + punching_index2 (friend_nat f)) :: u32)))
                                 [0..<MAX_PUNCHING_PORTS] dht
                     in set_nat friend_num
                          (\<lambda>n. n\<lparr>punching_index2 := punching_index2 n + of_nat (MAX_PUNCHING_PORTS - MAX_PUNCHING_PORTS div 2)\<rparr>) dht
                   else dht)
        in set_nat friend_num (\<lambda>n. n\<lparr>tries := tries n + 1\<rparr>) dht)"

definition do_NAT_friend :: "host \<Rightarrow> bytes \<Rightarrow> nat \<Rightarrow> DHT \<Rightarrow> DHT" where
  "do_NAT_friend h stack i dht =
     (let temp_time = mono_time_get (dht_mono_time dht) in
      case friend_iplist dht i of
        None \<Rightarrow> dht
      | Some ip_list \<Rightarrow>
          if length ip_list < MAX_FRIEND_CLIENTS div 2 then dht
          else
            let nat = friend_nat (friends_list dht ! i);
                dht = (if nat_ping_timestamp nat + PUNCH_INTERVAL < temp_time then
                         let dht = snd (send_NATping h stack dht (df_public_key (friends_list dht ! i)) (nat_ping_id nat) NAT_PING_REQUEST)
                         in set_nat i (\<lambda>n. n\<lparr>nat_ping_timestamp := temp_time\<rparr>) dht
                       else dht)
            in if hole_punching nat \<and> punching_timestamp nat + PUNCH_INTERVAL < temp_time \<and>
                  recv_nat_ping_timestamp nat + PUNCH_INTERVAL * 2 \<ge> temp_time then
                 let a = nat_commonip ip_list (of_nat (MAX_FRIEND_CLIENTS div 2)) in
                 if \<not> ip_isset a then dht
                 else
                   let dht = (if punching_timestamp nat + PUNCH_RESET_TIME < temp_time
                              then set_nat i (\<lambda>n. n\<lparr>tries := 0, punching_index := 0, punching_index2 := 0\<rparr>) dht else dht);
                       dht = punch_holes h dht a (nat_getports ip_list a) i
                   in set_nat i (\<lambda>n. n\<lparr>punching_timestamp := temp_time, hole_punching := False\<rparr>) dht
               else dht)"

definition do_NAT :: "host \<Rightarrow> bytes \<Rightarrow> DHT \<Rightarrow> DHT" where
  "do_NAT h stack dht = fold (do_NAT_friend h stack) [0..<length (friends_list dht)] dht"

section \<open>Every operation keeps the state well-formed\<close>

lemma dht_send_only_sends: "only_sends h dht (snd (dht_send h dht ipp data))"
  by (simp add: dht_send_def only_sends_def)

lemma route_packet_only_sends: "only_sends h dht (snd (route_packet h dht pk packet))"
  by (simp add: route_packet_def Let_def dht_send_only_sends split: option.split)

lemma foreach_assoc_keeps:
  assumes "\<And>ipp s. P s \<Longrightarrow> P (snd (cb ipp s))" "P s"
  shows "P (foreach_assoc cb mt as s)"
  using assms(2)
proof (induction as arbitrary: s)
  case (Cons a as)
  then show ?case using assms(1) [of s "assoc_ip_port a"] by (auto split: prod.split bool.split)
qed simp

lemma foreach_ip_port_keeps:
  assumes "\<And>ipp s. P s \<Longrightarrow> P (snd (cb ipp s))" "P s"
  shows "P (foreach_ip_port mt f cb s)"
proof -
  have "P (fold (\<lambda>c. foreach_assoc cb mt [assoc4 c, assoc6 c]) cs s)" for cs
    using assms(2)
  proof (induction cs arbitrary: s)
    case (Cons c cs)
    have "P (foreach_assoc cb mt [assoc4 c, assoc6 c] s)" using assms(1) Cons.prems by (rule foreach_assoc_keeps)
    then show ?case using Cons.IH by simp
  qed simp
  then show ?thesis by (simp add: foreach_ip_port_def)
qed

lemma send_packet_to_friend_only_sends:
  "only_sends h dht (snd s) \<Longrightarrow> only_sends h dht (snd (snd (send_packet_to_friend h packet ipp s)))"
  using only_sends_trans [OF _ dht_send_only_sends, of h dht "snd s" ipp packet]
  by (cases s) (simp add: send_packet_to_friend_def dht_send_def)

lemma route_to_friend_only_sends: "only_sends h dht (snd (route_to_friend h dht pk packet))"
  unfolding route_to_friend_def
  by (auto split: option.split intro!: foreach_ip_port_keeps [where P = "\<lambda>s. only_sends h dht (snd s)"]
      send_packet_to_friend_only_sends)

lemma routeone_to_friend_only_sends: "only_sends h dht (snd (routeone_to_friend h dht pk packet))"
proof -
  have "only_sends h dht (snd (dht_send h (dht\<lparr>rng := r\<rparr>) ipp packet))" for r ipp
    by (rule only_sends_trans [OF only_sends_rng dht_send_only_sends])
  then show ?thesis by (simp add: routeone_to_friend_def Let_def dht_send_def split: option.split prod.split)
qed

lemma send_NATping_only_sends: "only_sends h dht (snd (send_NATping h stack dht pk pid type))"
proof -
  have "only_sends h dht (snd (route_to_friend h (dht\<lparr>rng := r\<rparr>) pk packet))"
    "only_sends h dht (snd (routeone_to_friend h (dht\<lparr>rng := r\<rparr>) pk packet))" for r packet
    by (rule only_sends_trans [OF only_sends_rng]; rule route_to_friend_only_sends routeone_to_friend_only_sends)+
  then show ?thesis by (simp add: send_NATping_def Let_def case_prod_beta split: option.split)
qed

lemma set_nat_inv [keep_inv]:
  assumes "dht_inv h dht"
  shows "dht_inv h (set_nat i f dht)"
proof -
  have "list_all friend_ok ((friends_list dht)[i := (friends_list dht ! i)\<lparr>friend_nat := n\<rparr>])" for n
    using dht_inv_friends [OF assms]
    by (cases "i < length (friends_list dht)") (simp_all add: list_all_length nth_list_update friend_ok_def)
  with assms show ?thesis by (simp add: set_nat_def dht_inv_set_friends)
qed

lemma length_friends_set_nat [simp]: "length (friends_list (set_nat i f dht)) = length (friends_list dht)"
  by (simp add: set_nat_def)

lemma handle_NATping_inv [keep_inv]:
  assumes "dht_inv h dht"
  shows "dht_inv h (snd (handle_NATping h stack dht pk packet))"
proof -
  have "dht_inv h (snd (send_NATping h stack dht pk pid t))" for pid t
    by (rule only_sends_inv [OF send_NATping_only_sends assms])
  then show ?thesis
    using assms by (simp add: handle_NATping_def Let_def set_nat_inv split: option.split prod.split)
qed

text \<open>A ping keeps the friends.\<close>

lemma ping_port_keeps:
  assumes "dht_inv h dht" "length pk = 32"
  shows "dht_inv h (ping_port h a pk p dht) \<and> friends_list (ping_port h a pk p dht) = friends_list dht"
  using ping_send_request_inv [OF assms, of "\<lparr>ip = a, port = net_htons p\<rparr>"]
    ping_send_request_shape [OF dht_inv_caches [OF assms(1)] assms(2), of "\<lparr>ip = a, port = net_htons p\<rparr>"]
  by (auto simp: ping_port_def)

lemma fold_ping_port_keeps:
  assumes "dht_inv h dht" "length pk = 32"
  shows "dht_inv h (fold (\<lambda>i. ping_port h a pk (g i)) is dht) \<and> friends_list (fold (\<lambda>i. ping_port h a pk (g i)) is dht) = friends_list dht"
  using assms(1)
proof (induction "is" arbitrary: dht)
  case (Cons i "is")
  then show ?case using ping_port_keeps [OF Cons.prems assms(2), of a "g i"] by simp
qed simp

text \<open>A well-formed state with a given number of friends.\<close>

definition friends_inv :: "host \<Rightarrow> nat \<Rightarrow> DHT \<Rightarrow> bool" where
  "friends_inv h n dht \<longleftrightarrow> dht_inv h dht \<and> length (friends_list dht) = n"

lemma friends_inv_set_nat: "friends_inv h n dht \<Longrightarrow> friends_inv h n (set_nat i f dht)"
  by (simp add: friends_inv_def set_nat_inv)

lemma friends_inv_only_sends: "only_sends h dht dht' \<Longrightarrow> friends_inv h n dht \<Longrightarrow> friends_inv h n dht'"
  using only_sends_fields(9) [of h dht dht'] by (simp add: friends_inv_def only_sends_inv)

lemma friends_inv_ping: "length pk = 32 \<Longrightarrow> friends_inv h n dht \<Longrightarrow> friends_inv h n (ping_port h a pk p dht)"
  using ping_port_keeps [of h dht pk a p] by (simp add: friends_inv_def)

lemma friends_inv_pings:
  "length pk = 32 \<Longrightarrow> friends_inv h n dht \<Longrightarrow> friends_inv h n (fold (\<lambda>i. ping_port h a pk (g i)) is dht)"
  using fold_ping_port_keeps [of h dht pk a g "is"] by (simp add: friends_inv_def)

lemma friends_inv_key: "friends_inv h n dht \<Longrightarrow> i < n \<Longrightarrow> length (df_public_key (friends_list dht ! i)) = 32"
  using dht_inv_friends [of h dht] by (auto simp: friends_inv_def list_all_length friend_ok_def)

lemma punch_holes_inv [keep_inv]:
  assumes "friends_inv h n dht" "i < n"
  shows "friends_inv h n (punch_holes h dht a ports i)"
  using assms(1) friends_inv_key [OF assms]
  unfolding punch_holes_def Let_def by (simp add: friends_inv_ping friends_inv_pings friends_inv_set_nat)

lemma do_NAT_friend_inv:
  assumes "friends_inv h n dht" "i < n"
  shows "friends_inv h n (do_NAT_friend h stack i dht)"
  using assms friends_inv_only_sends [OF send_NATping_only_sends assms(1)]
  unfolding do_NAT_friend_def Let_def by (simp add: punch_holes_inv friends_inv_set_nat split: option.split)

lemma do_NAT_inv [keep_inv]:
  assumes "dht_inv h dht"
  shows "dht_inv h (do_NAT h stack dht)"
proof -
  have "friends_inv h (length (friends_list dht)) (fold (do_NAT_friend h stack) [0..<n] dht)"
    if "n \<le> length (friends_list dht)" for n
    using that by (induction n) (simp_all add: assms friends_inv_def [of h _ dht] do_NAT_friend_inv)
  then show ?thesis by (simp add: do_NAT_def friends_inv_def)
qed

section \<open>Common addresses\<close>

lemma same_ip_count: "length l < 2 ^ 16 \<Longrightarrow> unat (same_ip l p) = length (filter (\<lambda>q. ip_equal (ip p) (ip q)) l)"
proof -
  have "fold (\<lambda>q n. if ip_equal (ip p) (ip q) then n + 1 else n) l n = n + of_nat (length (filter (\<lambda>q. ip_equal (ip p) (ip q)) l))"
    for n :: u16 by (induction l arbitrary: n) (simp_all add: algebra_simps)
  moreover assume "length l < 2 ^ 16"
  moreover from this have "length (filter (\<lambda>q. ip_equal (ip p) (ip q)) l) < 2 ^ 16"
    using length_filter_le order_le_less_trans by blast
  ultimately show ?thesis by (simp add: same_ip_def unat_of_nat)
qed

lemma visited_assocs:
  "foreach_assoc get_ip_port mt as l = l @ map assoc_ip_port (filter
     (\<lambda>a. ip_isset (ip (ret_ip_port a)) \<or> mono_time_is_timeout mt (ret_timestamp a) BAD_NODE_TIMEOUT) as)"
  by (induction as arbitrary: l) (simp_all add: get_ip_port_def)

section \<open>Properties\<close>

text \<open>The addresses that \<^verbatim>\<open>foreach_ip_port\<close> hands out for a friend are those of all clients that have
  returned an address of the friend, however long ago, and also those that have never returned
  one, unless their last return is recent; the documented choice, a set and recent return, is
  not made.\<close>

theorem foreach_ip_port_visits:
  "foreach_ip_port mt f get_ip_port [] = map assoc_ip_port (filter
     (\<lambda>a. ip_isset (ip (ret_ip_port a)) \<or> mono_time_is_timeout mt (ret_timestamp a) BAD_NODE_TIMEOUT)
     (concat (map (\<lambda>c. [assoc4 c, assoc6 c]) (client_list f))))"
proof -
  have "fold (\<lambda>c. foreach_assoc get_ip_port mt [assoc4 c, assoc6 c]) cs l = l @ map assoc_ip_port (filter
      (\<lambda>a. ip_isset (ip (ret_ip_port a)) \<or> mono_time_is_timeout mt (ret_timestamp a) BAD_NODE_TIMEOUT)
      (concat (map (\<lambda>c. [assoc4 c, assoc6 c]) cs)))" for cs l
    by (induction cs arbitrary: l) (simp_all add: visited_assocs del: foreach_assoc.simps)
  from this [of "client_list f" "[]"] show ?thesis by (simp add: foreach_ip_port_def)
qed

text \<open>\<^verbatim>\<open>nat_commonip\<close> returns the address of the first entry that occurs at least \<open>min_num\<close> times in the
  list, and an unset address exactly if there is none (or that entry is itself unset).\<close>

theorem nat_commonip_first_common:
  assumes "length l \<le> MAX_FRIEND_CLIENTS"
  shows "nat_commonip l min_num =
    (case find (\<lambda>p. unat min_num \<le> length (filter (\<lambda>q. ip_equal (ip p) (ip q)) l)) l of
       None \<Rightarrow> ip empty_ip_port | Some p \<Rightarrow> ip p)"
proof -
  have find: "(case find_index P xs of None \<Rightarrow> z | Some i \<Rightarrow> f (xs ! i)) = (case find P xs of None \<Rightarrow> z | Some x \<Rightarrow> f x)"
    for P z and f :: "IP_Port \<Rightarrow> IP" and xs
  proof (induction xs)
    case (Cons x xs)
    then show ?case by (cases "find_index P xs") (simp_all del: find_index_None)
  qed simp
  have "min_num \<le> same_ip l p \<longleftrightarrow> unat min_num \<le> length (filter (\<lambda>q. ip_equal (ip p) (ip q)) l)" for p
    using assms by (subst same_ip_count [symmetric]) (simp_all add: size_defs word_le_nat_alt)
  then show ?thesis using assms by (simp add: nat_commonip_def find)
qed

theorem nat_commonip_first_common_witness:
  "nat_commonip [example_ipp, example_ipp\<lparr>port := 7\<rparr>] 2 = ip example_ipp"
  using nat_commonip_first_common [of "[example_ipp, example_ipp\<lparr>port := 7\<rparr>]" 2] example_exchange(4)
  by (simp add: size_defs ipport_equal_def split: if_splits)

end
