(* ===== verification/DHT_Save.thy ===== *)
theory DHT_Save
  imports DHT_NAT State_File
begin

text \<open>
  Saving and loading the nodes of the DHT, \<^verbatim>\<open>dht_size\<close> to \<^verbatim>\<open>dht_load\<close> of \<^verbatim>\<open>toxcore/DHT.c\<close>.

  Shown here: up to 1023 saved nodes are loaded again unchanged, in a file of exactly \<^verbatim>\<open>dht_size\<close> bytes;
  from 1024 nodes on, the 16-bit buffer length of \<^verbatim>\<open>pack_nodes\<close> wraps and no node is saved.
\<close>

section \<open>Definitions\<close>

definition DHT_STATE_COOKIE_GLOBAL :: u32 where [size_defs]: "DHT_STATE_COOKIE_GLOBAL = 0x159000d"
definition DHT_STATE_COOKIE_TYPE :: u16 where [size_defs]: "DHT_STATE_COOKIE_TYPE = 0x11ce"
definition DHT_STATE_TYPE_NODES :: u16 where [size_defs]: "DHT_STATE_TYPE_NODES = 4"
definition SAVE_BOOTSTAP_FREQUENCY :: nat where [size_defs]: "SAVE_BOOTSTAP_FREQUENCY = 8"

definition loaded_nodes :: "DHT \<Rightarrow> Node_format list" where
  "loaded_nodes dht = (case loaded_nodes_list dht of None \<Rightarrow> [] | Some ns \<Rightarrow> ns)"

text \<open>The clients that are saved: the close list and the friends that are not real friends.\<close>

definition saved_clients :: "DHT \<Rightarrow> Client_data list" where
  "saved_clients dht = close_clientlist dht @ concat (map client_list (take DHT_FAKE_FRIEND_NUMBER (friends_list dht)))"

definition count32 :: "('a \<Rightarrow> bool) \<Rightarrow> 'a list \<Rightarrow> u32 \<Rightarrow> u32" where
  "count32 P xs n = fold (\<lambda>x n. if P x then n + 1 else n) xs n"

definition dht_size :: "DHT \<Rightarrow> u32" where
  "dht_size dht =
     (let numv4 = count32 (\<lambda>n. net_family_is_ipv4 (family (ip (nf_ip_port n)))) (loaded_nodes dht) 0;
          numv6 = count32 (\<lambda>n. net_family_is_ipv6 (family (ip (nf_ip_port n)))) (loaded_nodes dht) 0;
          numv4 = count32 (\<lambda>c. timestamp (assoc4 c) \<noteq> 0) (saved_clients dht) numv4;
          numv6 = count32 (\<lambda>c. timestamp (assoc6 c) \<noteq> 0) (saved_clients dht) numv6;
          size32 = 4;
          sizesubhead = size32 * 2
      in size32 + sizesubhead + word_of_int (packed_node_size TOX_AF_INET) * numv4 +
         word_of_int (packed_node_size TOX_AF_INET6) * numv6)"

definition client_nodes :: "Client_data \<Rightarrow> Node_format list" where
  "client_nodes c =
     (if timestamp (assoc4 c) \<noteq> 0 then [\<lparr>nf_public_key = cd_public_key c, nf_ip_port = assoc_ip_port (assoc4 c)\<rparr>] else []) @
     (if timestamp (assoc6 c) \<noteq> 0 then [\<lparr>nf_public_key = cd_public_key c, nf_ip_port = assoc_ip_port (assoc6 c)\<rparr>] else [])"

definition saved_nodes :: "DHT \<Rightarrow> Node_format list" where
  "saved_nodes dht = loaded_nodes dht @ concat (map client_nodes (saved_clients dht))"

text \<open>The bytes that \<^verbatim>\<open>pack_nodes\<close> has written when it returns, also with an error.\<close>

fun pack_written :: "nat \<Rightarrow> Node_format list \<Rightarrow> bytes" where
  "pack_written len [] = []"
| "pack_written len (n # nodes) =
     (if len = 0 then []
      else case pack_ip_port len (nf_ip_port n) of
          None \<Rightarrow> []
        | Some ipp \<Rightarrow>
            if length ipp + CRYPTO_PUBLIC_KEY_SIZE > len then ipp
            else ipp @ take CRYPTO_PUBLIC_KEY_SIZE (nf_public_key n) @
                   pack_written (len - (length ipp + CRYPTO_PUBLIC_KEY_SIZE)) nodes)"

text \<open>The bytes written to the buffer; \<open>None\<close> is a write beyond the array of \<^verbatim>\<open>MAX_SAVED_DHT_NODES\<close> nodes.
  The length that \<^verbatim>\<open>pack_nodes\<close> gets is a 16-bit number.\<close>

definition dht_save :: "platform \<Rightarrow> DHT \<Rightarrow> bytes option" where
  "dht_save P dht =
     (let cookie = host_to_lendian_bytes32 DHT_STATE_COOKIE_GLOBAL in
      if \<not> malloc_ok P (MAX_SAVED_DHT_NODES * SIZEOF_Node_format)
      then Some (cookie @ state_write_section_header DHT_STATE_COOKIE_TYPE 0 0)
      else
        let clients = saved_nodes dht in
        if length clients > MAX_SAVED_DHT_NODES then None
        else
          let room = SIZEOF_Node_format * length clients mod 2 ^ 16;
              len = (case pack_nodes room clients of None \<Rightarrow> - 1 | Some bs \<Rightarrow> of_nat (length bs))
          in Some (cookie @ state_write_section_header DHT_STATE_COOKIE_TYPE len (ucast DHT_STATE_TYPE_NODES) @
                   pack_written room clients))"

text \<open>The length of the section is narrowed to 16 bits by \<^verbatim>\<open>unpack_nodes\<close>.\<close>

definition dht_load_state_callback :: "platform \<Rightarrow> DHT \<Rightarrow> bytes \<Rightarrow> u16 \<Rightarrow> State_Load_Status \<times> DHT" where
  "dht_load_state_callback P dht data type =
     (STATE_LOAD_STATUS_CONTINUE,
      if type = DHT_STATE_TYPE_NODES then
        (if length data = 0 then dht
         else if \<not> malloc_ok P (MAX_SAVED_DHT_NODES * SIZEOF_Node_format) then dht\<lparr>loaded_nodes_list := None\<rparr>
         else case unpack_nodes MAX_SAVED_DHT_NODES (take (length data mod 2 ^ 16) data) False of
             None \<Rightarrow> dht\<lparr>loaded_nodes_list := Some []\<rparr>
           | Some (nodes, _) \<Rightarrow> dht\<lparr>loaded_nodes_list := Some nodes\<rparr>)
      else dht)"

definition dht_load :: "platform \<Rightarrow> DHT \<Rightarrow> bytes \<Rightarrow> int \<times> DHT" where
  "dht_load P dht data =
     (if length data > 4 \<and> lendian_bytes_to_host32 data = DHT_STATE_COOKIE_GLOBAL
      then state_load (dht_load_state_callback P) dht (drop 4 data) DHT_STATE_COOKIE_TYPE
      else (- 1, dht))"

definition dht_isconnected :: "DHT \<Rightarrow> bool" where
  "dht_isconnected dht \<longleftrightarrow> list_ex (\<lambda>c. \<not> assoc_timeout (dht_cur_time dht) (assoc4 c) \<or> \<not> assoc_timeout (dht_cur_time dht) (assoc6 c))
     (close_clientlist dht)"

definition dht_non_lan_connected :: "DHT \<Rightarrow> bool" where
  "dht_non_lan_connected dht \<longleftrightarrow> list_ex
     (\<lambda>c. \<not> assoc_timeout (dht_cur_time dht) (assoc4 c) \<and> \<not> ip_is_lan (ip (assoc_ip_port (assoc4 c))) \<or>
          \<not> assoc_timeout (dht_cur_time dht) (assoc6 c) \<and> \<not> ip_is_lan (ip (assoc_ip_port (assoc6 c)))) (close_clientlist dht)"

definition connect_node :: "host \<Rightarrow> Node_format list \<Rightarrow> DHT \<Rightarrow> DHT" where
  "connect_node h nodes dht =
     (let n = nodes ! unat (loaded_nodes_index dht mod of_nat (length nodes));
          dht = snd (dht_bootstrap h dht (nf_ip_port n) (nf_public_key n))
      in dht\<lparr>loaded_nodes_index := loaded_nodes_index dht + 1\<rparr>)"

definition dht_connect_after_load :: "host \<Rightarrow> DHT \<Rightarrow> int \<times> DHT" where
  "dht_connect_after_load h dht =
     (case loaded_nodes_list dht of
        None \<Rightarrow> (- 1, dht)
      | Some nodes \<Rightarrow>
          if dht_non_lan_connected dht then (0, dht\<lparr>loaded_nodes_list := None\<rparr>)
          else (0, (connect_node h nodes ^^ min (length nodes) SAVE_BOOTSTAP_FREQUENCY) dht))"

text \<open>The own address as other nodes see it: the result and the address.\<close>

fun self_copy_loop :: "Client_data list \<Rightarrow> IP_Port \<times> bool \<Rightarrow> IP_Port \<times> bool" where
  "self_copy_loop [] s = s"
| "self_copy_loop (c # cs) s =
     (let a4 = ret_ip_port (assoc4 c);
          a6 = ret_ip_port (assoc6 c);
          found4 = ret_ip_self (assoc4 c) \<and> ipport_isset a4;
          found6 = ret_ip_self (assoc6 c) \<and> ipport_isset a6;
          s = (if found4 then (a4, ip_is_lan (ip a4)) else s)
      in if found4 \<and> \<not> snd s then s
         else
           let s = (if found6 then (a6, ip_is_lan (ip a6)) else s) in
           if found6 \<and> \<not> snd s then s else self_copy_loop cs s)"

definition ipport_self_copy :: "DHT \<Rightarrow> nat \<times> IP_Port" where
  "ipport_self_copy dht =
     (case self_copy_loop (close_clientlist dht) (empty_ip_port, False) of
        (dest, is_lan) \<Rightarrow> (if \<not> ipport_isset dest then 0 else if is_lan then 2 else 1, dest))"

section \<open>What is saved\<close>

lemma pack_written_eq: "pack_nodes len nodes = Some bs \<Longrightarrow> pack_written len nodes = bs"
  by (induction len nodes arbitrary: bs rule: pack_nodes.induct) (auto split: if_splits option.splits)

lemma unpack_nodes_more:
  "unpack_nodes n data tcp = Some (nodes, length data) \<Longrightarrow> n \<le> m \<Longrightarrow> unpack_nodes m data tcp = Some (nodes, length data)"
proof (induction n data tcp arbitrary: m nodes rule: unpack_nodes.induct)
  case (1 data tcp)
  then show ?case by (cases m) auto
next
  case (2 n data tcp)
  from \<open>Suc n \<le> m\<close> obtain m' where m: "m = Suc m'" "n \<le> m'" by (cases m) auto
  show ?case
  proof (cases "data = []")
    case False
    with "2.prems"(1) obtain sz ipp rest k where u: "unpack_ip_port data tcp = Some (sz, ipp)" "sz + CRYPTO_PUBLIC_KEY_SIZE \<le> length data"
      and r: "unpack_nodes n (drop (sz + CRYPTO_PUBLIC_KEY_SIZE) data) tcp = Some (rest, k)"
      and nodes: "nodes = \<lparr>nf_public_key = slice sz CRYPTO_PUBLIC_KEY_SIZE data, nf_ip_port = ipp\<rparr> # rest"
      and k: "sz + CRYPTO_PUBLIC_KEY_SIZE + k = length data"
      by (auto split: option.splits if_splits)
    have "k = length (drop (sz + CRYPTO_PUBLIC_KEY_SIZE) data)" using k by simp
    with "2.IH" [OF False u(1) refl] u(2) r m(2) have "unpack_nodes m' (drop (sz + CRYPTO_PUBLIC_KEY_SIZE) data) tcp = Some (rest, k)"
      by auto
    then show ?thesis using False u nodes k m(1) by simp
  qed (use "2.prems" m in auto)
qed

definition is_v4 :: "Node_format \<Rightarrow> bool" where
  "is_v4 n \<longleftrightarrow> net_family_is_ipv4 (family (ip (nf_ip_port n)))"

lemma pack_nodes_length:
  assumes "\<forall>n \<in> set nodes. node_clean n \<and> node_udp n" "52 * length nodes < len" "pack_nodes len nodes = Some bs"
  shows "length bs = 39 * length (filter is_v4 nodes) + 51 * length (filter (\<lambda>n. \<not> is_v4 n) nodes)"
  using assms
proof (induction nodes arbitrary: len bs)
  case (Cons n nodes)
  have n: "length (nf_public_key n) = 32" "length (addr (ip (nf_ip_port n))) = 16"
    "family (ip (nf_ip_port n)) = TOX_AF_INET \<or> family (ip (nf_ip_port n)) = TOX_AF_INET6"
    using Cons.prems(1) by (auto simp: node_clean_def ip_wf_def node_udp_def)
  then obtain ipp where ipp: "pack_ip_port len (nf_ip_port n) = Some ipp" "length ipp = (if is_v4 n then 7 else 19)"
    using Cons.prems(2) by (auto simp: pack_ip_port_def family_defs size_defs is_v4_def)
  moreover obtain rest where "pack_nodes (len - (length ipp + 32)) nodes = Some rest" "bs = ipp @ nf_public_key n @ rest"
    using Cons.prems(2,3) ipp n by (auto simp: size_defs split: if_splits)
  ultimately show ?case using Cons.IH [of "len - (length ipp + 32)" rest] Cons.prems(1,2) n by (auto split: if_splits)
qed simp

lemma count32_eq: "count32 P xs n = n + of_nat (length (filter P xs))"
  unfolding count32_def by (induction xs arbitrary: n) (simp_all add: algebra_simps)

text \<open>The two associations of a client hold addresses of their own kind, and so do saved nodes.\<close>

definition families_ok :: "DHT \<Rightarrow> bool" where
  "families_ok dht \<longleftrightarrow>
     list_all (\<lambda>c. (timestamp (assoc4 c) = 0 \<or> family (ip (assoc_ip_port (assoc4 c))) = TOX_AF_INET) \<and>
                   (timestamp (assoc6 c) = 0 \<or> family (ip (assoc_ip_port (assoc6 c))) = TOX_AF_INET6)) (saved_clients dht) \<and>
     list_all node_udp (loaded_nodes dht)"

lemma saved_counts:
  assumes "families_ok dht"
  shows "length (filter is_v4 (saved_nodes dht)) =
      length (filter is_v4 (loaded_nodes dht)) + length (filter (\<lambda>c. timestamp (assoc4 c) \<noteq> 0) (saved_clients dht))"
    and "length (filter (\<lambda>n. \<not> is_v4 n) (saved_nodes dht)) =
      length (filter (\<lambda>n. net_family_is_ipv6 (family (ip (nf_ip_port n)))) (loaded_nodes dht)) +
      length (filter (\<lambda>c. timestamp (assoc6 c) \<noteq> 0) (saved_clients dht))"
proof -
  have c: "length (filter is_v4 (concat (map client_nodes cs))) = length (filter (\<lambda>c. timestamp (assoc4 c) \<noteq> 0) cs) \<and>
      length (filter (\<lambda>n. \<not> is_v4 n) (concat (map client_nodes cs))) = length (filter (\<lambda>c. timestamp (assoc6 c) \<noteq> 0) cs)"
    if "list_all (\<lambda>c. (timestamp (assoc4 c) = 0 \<or> family (ip (assoc_ip_port (assoc4 c))) = TOX_AF_INET) \<and>
      (timestamp (assoc6 c) = 0 \<or> family (ip (assoc_ip_port (assoc6 c))) = TOX_AF_INET6)) cs" for cs
    using that by (induction cs) (auto simp: client_nodes_def is_v4_def family_defs size_defs)
  have l: "filter (\<lambda>n. \<not> is_v4 n) (loaded_nodes dht) = filter (\<lambda>n. net_family_is_ipv6 (family (ip (nf_ip_port n)))) (loaded_nodes dht)"
    using assms by (intro filter_cong) (auto simp: families_ok_def list_all_iff is_v4_def node_udp_def family_defs size_defs)
  from c assms l show "length (filter is_v4 (saved_nodes dht)) =
      length (filter is_v4 (loaded_nodes dht)) + length (filter (\<lambda>c. timestamp (assoc4 c) \<noteq> 0) (saved_clients dht))"
    "length (filter (\<lambda>n. \<not> is_v4 n) (saved_nodes dht)) =
      length (filter (\<lambda>n. net_family_is_ipv6 (family (ip (nf_ip_port n)))) (loaded_nodes dht)) +
      length (filter (\<lambda>c. timestamp (assoc6 c) \<noteq> 0) (saved_clients dht))"
    by (simp_all add: saved_nodes_def families_ok_def)
qed

lemma dht_save_packed:
  assumes "malloc_ok P (MAX_SAVED_DHT_NODES * SIZEOF_Node_format)" "length (saved_nodes dht) < 1024"
    and "list_all (\<lambda>n. node_clean n \<and> node_udp n) (saved_nodes dht)"
  shows "\<exists>bs. dht_save P dht = Some (host_to_lendian_bytes32 DHT_STATE_COOKIE_GLOBAL @
      section_bytes DHT_STATE_COOKIE_TYPE (DHT_STATE_TYPE_NODES, bs)) \<and>
    unpack_nodes MAX_SAVED_DHT_NODES bs False = Some (saved_nodes dht, length bs) \<and>
    length bs = 39 * length (filter is_v4 (saved_nodes dht)) + 51 * length (filter (\<lambda>n. \<not> is_v4 n) (saved_nodes dht))"
proof (cases "saved_nodes dht = []")
  case True
  then show ?thesis
    using assms(1) by (intro exI [of _ "[]"]) (simp add: dht_save_def section_bytes_def size_defs unpack_nodes_more [of 0 "[]" False "[]"])
next
  case False
  let ?ns = "saved_nodes dht"
  have clean: "\<forall>n \<in> set ?ns. node_clean n \<and> node_udp n" using assms(3) by (simp add: list_all_iff)
  have fits: "52 * length ?ns < 64 * length ?ns" using False by simp
  obtain bs where bs: "pack_nodes (64 * length ?ns) ?ns = Some bs" "length bs \<le> 51 * length ?ns"
    using pack_nodes_fits [OF _ fits] clean by blast
  have room: "SIZEOF_Node_format * length ?ns mod 2 ^ 16 = 64 * length ?ns" using assms(2) by (simp add: size_defs)
  have "length bs < 64 * length ?ns" using bs(2) fits by linarith
  then have "unpack_nodes (length ?ns) bs False = Some (?ns, length bs)"
    using unpack_pack_nodes_append [OF bs(1), of False "[]"] clean by simp
  from unpack_nodes_more [OF this, of MAX_SAVED_DHT_NODES] assms(2)
  have un: "unpack_nodes MAX_SAVED_DHT_NODES bs False = Some (?ns, length bs)" by (simp add: size_defs)
  have "\<not> MAX_SAVED_DHT_NODES < length ?ns" using assms(2) by (simp add: size_defs)
  then have "dht_save P dht = Some (host_to_lendian_bytes32 DHT_STATE_COOKIE_GLOBAL @
      section_bytes DHT_STATE_COOKIE_TYPE (DHT_STATE_TYPE_NODES, bs))"
    unfolding dht_save_def Let_def room bs(1) option.case pack_written_eq [OF bs(1)] section_bytes_def using assms(1) by simp
  with un pack_nodes_length [OF clean fits bs(1)] show ?thesis by blast
qed

lemma dht_load_section:
  assumes "length bs < 2 ^ 16" "unpack_nodes MAX_SAVED_DHT_NODES bs False = Some (nodes, length bs)" "bs \<noteq> []"
    and "malloc_ok P (MAX_SAVED_DHT_NODES * SIZEOF_Node_format)"
  shows "dht_load P dht (host_to_lendian_bytes32 DHT_STATE_COOKIE_GLOBAL @
      section_bytes DHT_STATE_COOKIE_TYPE (DHT_STATE_TYPE_NODES, bs)) = (0, dht\<lparr>loaded_nodes_list := Some nodes\<rparr>)"
proof -
  let ?s = "section_bytes DHT_STATE_COOKIE_TYPE (DHT_STATE_TYPE_NODES, bs)"
  have cb: "dht_load_state_callback P dht bs DHT_STATE_TYPE_NODES =
      (STATE_LOAD_STATUS_CONTINUE, dht\<lparr>loaded_nodes_list := Some nodes\<rparr>)"
    using assms by (simp add: dht_load_state_callback_def)
  have "state_load (dht_load_state_callback P) dht (?s @ []) DHT_STATE_COOKIE_TYPE = (0, dht\<lparr>loaded_nodes_list := Some nodes\<rparr>)"
    using assms(1) by (subst state_load_section) (simp_all add: cb state_load.simps)
  then show ?thesis by (simp add: dht_load_def section_bytes_def lendian_defs wire_simps)
qed

section \<open>Properties\<close>

text \<open>C24: Up to 1023 nodes survive a restart: \<^verbatim>\<open>dht_save\<close> writes exactly \<^verbatim>\<open>dht_size\<close> bytes, and \<^verbatim>\<open>dht_load\<close> of
  these bytes succeeds and gives the nodes that were saved, in order.\<close>

theorem dht_save_load:
  assumes "malloc_ok P (MAX_SAVED_DHT_NODES * SIZEOF_Node_format)" "saved_nodes dht \<noteq> []" "length (saved_nodes dht) < 1024"
    and "families_ok dht" "list_all (\<lambda>n. node_clean n \<and> node_udp n) (saved_nodes dht)"
  shows "\<exists>data. dht_save P dht = Some data \<and> length data = unat (dht_size dht) \<and>
    dht_load P dht0 data = (0, dht0\<lparr>loaded_nodes_list := Some (saved_nodes dht)\<rparr>)"
proof -
  let ?v4 = "length (filter is_v4 (saved_nodes dht))" and ?v6 = "length (filter (\<lambda>n. \<not> is_v4 n) (saved_nodes dht))"
  obtain bs where bs: "dht_save P dht = Some (host_to_lendian_bytes32 DHT_STATE_COOKIE_GLOBAL @
      section_bytes DHT_STATE_COOKIE_TYPE (DHT_STATE_TYPE_NODES, bs))"
    "unpack_nodes MAX_SAVED_DHT_NODES bs False = Some (saved_nodes dht, length bs)" "length bs = 39 * ?v4 + 51 * ?v6"
    using dht_save_packed [OF assms(1,3,5)] by blast
  have sum: "?v4 + ?v6 = length (saved_nodes dht)" by (rule sum_length_filter_compl)
  then have small: "length bs < 2 ^ 16" using bs(3) assms(3) by simp
  have ne: "bs \<noteq> []" using bs(3) sum assms(2) by auto
  have sz: "packed_node_size TOX_AF_INET = 39" "packed_node_size TOX_AF_INET6 = 51" by code_simp+
  have v4: "(\<lambda>n. net_family_is_ipv4 (family (ip (nf_ip_port n)))) = is_v4" by (simp add: is_v4_def fun_eq_iff)
  have "dht_size dht = of_nat (12 + length bs)"
    unfolding dht_size_def Let_def count32_eq bs(3) saved_counts [OF assms(4)] sz v4 by (simp add: algebra_simps)
  then have "unat (dht_size dht) = 12 + length bs" using small by (simp only: unat_of_nat) simp
  then have "length (host_to_lendian_bytes32 DHT_STATE_COOKIE_GLOBAL @ section_bytes DHT_STATE_COOKIE_TYPE (DHT_STATE_TYPE_NODES, bs)) =
      unat (dht_size dht)"
    by (simp add: section_bytes_def lendian_defs)
  with bs(1) dht_load_section [OF small bs(2) ne assms(1)] show ?thesis by blast
qed

lemma example_busy_saved:
  "saved_nodes example_busy_dht = [\<lparr>nf_public_key = replicate 32 9, nf_ip_port = assoc_ip_port (assoc4 (example_client 9 1000))\<rparr>]"
  "families_ok example_busy_dht"
proof -
  have none: "client_nodes empty_client = []" by (simp add: client_nodes_def empty_client_def empty_ipptspng_def)
  then have "concat (map client_nodes (replicate n empty_client)) = []" for n by (induction n) simp_all
  moreover have cs: "saved_clients example_busy_dht = replicate 1023 empty_client @ [example_client 9 1000]" "loaded_nodes example_busy_dht = []"
    by (simp_all add: saved_clients_def loaded_nodes_def example_busy_dht_def example_node_dht_def example_dht_def)
  moreover have "timestamp (assoc4 (example_client 9 1000)) \<noteq> 0" "timestamp (assoc6 (example_client 9 1000)) = 0"
    "cd_public_key (example_client 9 1000) = replicate 32 9" "family (ip (assoc_ip_port (assoc4 (example_client 9 1000)))) = TOX_AF_INET"
    "timestamp (assoc4 empty_client) = 0" "timestamp (assoc6 empty_client) = 0"
    by (simp_all add: example_client_def empty_ipptspng_def empty_client_def)
  ultimately show
    "saved_nodes example_busy_dht = [\<lparr>nf_public_key = replicate 32 9, nf_ip_port = assoc_ip_port (assoc4 (example_client 9 1000))\<rparr>]"
    "families_ok example_busy_dht"
    by (simp_all add: saved_nodes_def families_ok_def client_nodes_def list_all_iff)
qed

theorem dht_save_load_witness:
  "\<exists>data. dht_save xor_platform example_busy_dht = Some data \<and> length data = unat (dht_size example_busy_dht) \<and>
    loaded_nodes_list (snd (dht_load xor_platform (example_node_dht 5) data)) =
      Some [\<lparr>nf_public_key = replicate 32 9, nf_ip_port = assoc_ip_port (assoc4 (example_client 9 1000))\<rparr>]"
proof -
  have "malloc_ok xor_platform (MAX_SAVED_DHT_NODES * SIZEOF_Node_format)" by (rule box_platform.memory [OF xor_box_platform])
  moreover have "list_all (\<lambda>n. node_clean n \<and> node_udp n)
      [\<lparr>nf_public_key = replicate 32 9, nf_ip_port = assoc_ip_port (assoc4 (example_client 9 1000))\<rparr>]"
    by code_simp
  ultimately show ?thesis
    using dht_save_load [of xor_platform example_busy_dht "example_node_dht 5"] example_busy_saved by auto
qed

text \<open>C40: With 1024 nodes \<^verbatim>\<open>dht_save\<close> saves none of them: the buffer length of \<^verbatim>\<open>pack_nodes\<close>, 65536, wraps to 0, and
  loading the file leaves the list of loaded nodes as it is.\<close>

theorem dht_save_1024_nodes_lost:
  assumes "malloc_ok P (MAX_SAVED_DHT_NODES * SIZEOF_Node_format)" "length (saved_nodes dht) = 1024"
  shows "\<exists>data. dht_save P dht = Some data \<and> length data = 12 \<and> dht_load P dht0 data = (0, dht0)"
proof -
  have ne: "saved_nodes dht \<noteq> []" using assms(2) by auto
  then have p: "pack_nodes 0 (saved_nodes dht) = Some []" "pack_written 0 (saved_nodes dht) = []" by (cases "saved_nodes dht"; simp)+
  have room: "SIZEOF_Node_format * length (saved_nodes dht) mod 2 ^ 16 = 0" using assms(2) by (simp add: size_defs)
  let ?s = "section_bytes DHT_STATE_COOKIE_TYPE (DHT_STATE_TYPE_NODES, [])"
  have save: "dht_save P dht = Some (host_to_lendian_bytes32 DHT_STATE_COOKIE_GLOBAL @ ?s)"
    unfolding dht_save_def Let_def room p option.case section_bytes_def using assms by (simp add: size_defs)
  have "state_load (dht_load_state_callback P) dht0 (?s @ []) DHT_STATE_COOKIE_TYPE = (0, dht0)"
    by (subst state_load_section) (simp_all add: dht_load_state_callback_def state_load.simps)
  then have "dht_load P dht0 (host_to_lendian_bytes32 DHT_STATE_COOKIE_GLOBAL @ ?s) = (0, dht0)"
    by (simp add: dht_load_def section_bytes_def lendian_defs wire_simps)
  with save show ?thesis by (simp add: section_bytes_def lendian_defs)
qed

theorem dht_save_1024_nodes_lost_witness:
  "\<exists>data. dht_save xor_platform ((example_node_dht 5)\<lparr>close_clientlist := replicate 1024 (example_client 9 1000)\<rparr>) = Some data \<and>
    length data = 12 \<and> dht_load xor_platform (example_node_dht 6) data = (0, example_node_dht 6)"
proof -
  let ?d = "(example_node_dht 5)\<lparr>close_clientlist := replicate 1024 (example_client 9 1000)\<rparr>"
  have "length (client_nodes (example_client 9 1000)) = 1" by (simp add: client_nodes_def example_client_def empty_ipptspng_def)
  then have "length (concat (map client_nodes (replicate n (example_client 9 1000)))) = n" for n by (induction n) simp_all
  moreover have "saved_clients ?d = replicate 1024 (example_client 9 1000)" "loaded_nodes ?d = []"
    by (simp_all add: saved_clients_def loaded_nodes_def example_node_dht_def example_dht_def)
  ultimately have "length (saved_nodes ?d) = 1024" by (simp only: saved_nodes_def append_Nil)
  then show ?thesis by (intro dht_save_1024_nodes_lost box_platform.memory [OF xor_box_platform])
qed

end
