(* ===== verification/DHT_Main.thy ===== *)
theory DHT_Main
  imports DHT_Save
begin

text \<open>
  The rest of \<^verbatim>\<open>toxcore/DHT.c\<close>: lists of nodes for the onion, crypto packets, LAN discovery, creation of a
  node and its periodic work; and the node as a state machine whose steps are all of its operations.

  Shown here: every reachable state is well-formed.
\<close>

section \<open>Definitions\<close>

definition DHT_PING_ARRAY_SIZE :: u32 where [size_defs]: "DHT_PING_ARRAY_SIZE = 512"
definition SIZEOF_DHT :: nat where [size_defs]: "SIZEOF_DHT = 242392"
definition KEYS_TIMEOUT :: u64 where [size_defs]: "KEYS_TIMEOUT = 600"
definition MAX_KEYS_PER_SLOT :: byte where [size_defs]: "MAX_KEYS_PER_SLOT = 4"

text \<open>The address of a client to list; one random byte decides if both are alive.\<close>

definition choose_assoc :: "Random \<Rightarrow> u64 \<Rightarrow> Client_data \<Rightarrow> IPPTsPng option \<times> Random" where
  "choose_assoc r now c =
     (if \<not> assoc_timeout now (assoc6 c) then
        (if assoc_timeout now (assoc4 c) then (Some (assoc6 c), r)
         else let (b, r) = random_u08 r in (Some (if b mod 2 \<noteq> 0 then assoc6 c else assoc4 c), r))
      else if \<not> assoc_timeout now (assoc4 c) then (Some (assoc4 c), r)
      else (None, r))"

text \<open>The loop of \<^verbatim>\<open>list_nodes\<close> runs from the last client to the first.\<close>

fun list_nodes_loop :: "u64 \<Rightarrow> nat \<Rightarrow> Client_data list \<Rightarrow> Node_format list \<Rightarrow> Random \<Rightarrow> Node_format list \<times> Random" where
  "list_nodes_loop now max_num [] nodes r = (nodes, r)"
| "list_nodes_loop now max_num (c # cs) nodes r =
     (case choose_assoc r now c of
        (None, r) \<Rightarrow> list_nodes_loop now max_num cs nodes r
      | (Some assoc, r) \<Rightarrow>
          let nodes = nodes @ [\<lparr>nf_public_key = cd_public_key c, nf_ip_port = assoc_ip_port assoc\<rparr>] in
          if length nodes \<ge> max_num then (nodes, r) else list_nodes_loop now max_num cs nodes r)"

definition list_nodes :: "Random \<Rightarrow> Client_data list \<Rightarrow> u64 \<Rightarrow> nat \<Rightarrow> Node_format list \<times> Random" where
  "list_nodes r list now max_num = (if max_num = 0 then ([], r) else list_nodes_loop now max_num (rev list) [] r)"

text \<open>\<open>None\<close> is the failed assertion.\<close>

definition randfriends_nodes :: "DHT \<Rightarrow> nat \<Rightarrow> (Node_format list \<times> DHT) option" where
  "randfriends_nodes dht max_num =
     (if max_num = 0 then Some ([], dht)
      else
        let (n, r) = random_u32 (rng dht);
            friend = (\<lambda>i. client_list (friends_list dht ! unat ((i + n) mod of_nat DHT_FAKE_FRIEND_NUMBER)))
        in if DHT_FAKE_FRIEND_NUMBER > length (friends_list dht) then None
           else
             let (nodes, r) = list_nodes r (friend 0) (dht_cur_time dht) max_num in
             if length nodes \<ge> max_num then Some (nodes, dht\<lparr>rng := r\<rparr>)
             else
               let (more, r) = list_nodes r (friend 1) (dht_cur_time dht) (max_num - length nodes)
               in Some (nodes @ more, dht\<lparr>rng := r\<rparr>))"

definition closelist_nodes :: "DHT \<Rightarrow> nat \<Rightarrow> Node_format list \<times> DHT" where
  "closelist_nodes dht max_num =
     (case list_nodes (rng dht) (close_clientlist dht) (dht_cur_time dht) max_num of (nodes, r) \<Rightarrow> (nodes, dht\<lparr>rng := r\<rparr>))"

definition cryptopacket_registerhandler :: "DHT \<Rightarrow> byte \<Rightarrow> nat option \<Rightarrow> DHT" where
  "cryptopacket_registerhandler dht b cb = dht\<lparr>cryptopackethandlers := (cryptopackethandlers dht)[unat b := cb]\<rparr>"

text \<open>Handler 0 is \<^verbatim>\<open>handle_NATping\<close>; the others belong to other components, are recorded and answer as
  the argument \<open>others\<close> says.\<close>

definition cryptopacket_handle ::
  "host \<Rightarrow> bytes \<Rightarrow> (nat \<Rightarrow> IP_Port \<Rightarrow> bytes \<Rightarrow> bytes \<Rightarrow> int) \<Rightarrow> DHT \<Rightarrow> IP_Port \<Rightarrow> bytes \<Rightarrow> int \<times> DHT" where
  "cryptopacket_handle h stack others dht source packet =
     (if length packet \<le> CRYPTO_PUBLIC_KEY_SIZE * 2 + CRYPTO_NONCE_SIZE + 1 + CRYPTO_MAC_SIZE \<or>
         length packet > MAX_CRYPTO_REQUEST_SIZE + CRYPTO_MAC_SIZE then (1, dht)
      else if pk_equal (drop 1 packet) (self_public_key dht) then
        (case handle_request (plat h) stack (self_public_key dht) (dht_self_secret_key dht) packet of
           None \<Rightarrow> (1, dht)
         | Some (public_key, number, data) \<Rightarrow>
             if length data = 0 then (1, dht)
             else (case cryptopackethandlers dht ! unat number of
                     None \<Rightarrow> (1, dht)
                   | Some 0 \<Rightarrow> handle_NATping h stack dht public_key data
                   | Some f \<Rightarrow> (others f source public_key data, dht\<lparr>called := called dht @ [Cryptopacket f source public_key data]\<rparr>)))
      else case route_packet h dht (drop 1 packet) packet of
          (retval, dht) \<Rightarrow> (if word_of_int retval = (of_nat (length packet) :: u32) then 0 else 1, dht))"

definition dht_callback_get_nodes_response :: "DHT \<Rightarrow> nat option \<Rightarrow> DHT" where
  "dht_callback_get_nodes_response dht f = dht\<lparr>get_nodes_response := f\<rparr>"

definition handle_LANdiscovery :: "host \<Rightarrow> DHT \<Rightarrow> IP_Port \<Rightarrow> bytes \<Rightarrow> int \<times> DHT" where
  "handle_LANdiscovery h dht source packet =
     (if \<not> lan_discovery_enabled dht then (1, dht)
      else if \<not> ip_is_lan (ip source) then (1, dht)
      else if length packet \<noteq> CRYPTO_PUBLIC_KEY_SIZE + 1 then (1, dht)
      else (0, snd (dht_bootstrap h dht source (drop 1 packet))))"

text \<open>Adds a friend with a fresh key; \<open>None\<close> if it fails.\<close>

definition add_fake_friend :: "host \<Rightarrow> DHT option \<Rightarrow> DHT option" where
  "add_fake_friend h d =
     (case d of
        None \<Rightarrow> None
      | Some dht \<Rightarrow>
          let ((pk, sk), r) = crypto_new_keypair (rng dht) in
          (case dht_addfriend h (dht\<lparr>rng := r\<rparr>) pk None 0 0 of
             (res, tok, dht) \<Rightarrow> if res \<noteq> 0 then None else Some dht))"

text \<open>The arguments are the random source, the clock and the family of the socket; the handlers of the
  socket are registered outside the model.\<close>

definition new_dht :: "host \<Rightarrow> Random \<Rightarrow> Mono_Time \<Rightarrow> byte option \<Rightarrow> bool \<Rightarrow> bool \<Rightarrow> DHT option" where
  "new_dht h r mt net punching lan_discovery =
     (case net of
        None \<Rightarrow> None
      | Some fam \<Rightarrow>
          if \<not> malloc_ok (plat h) SIZEOF_DHT then None
          else case ping_new (plat h) of
              None \<Rightarrow> None
            | Some p \<Rightarrow>
                let ((pk, sk), r) = crypto_new_keypair r in
                (case shared_key_cache_new (plat h) (Some mt) (Some sk) KEYS_TIMEOUT MAX_KEYS_PER_SLOT of
                   None \<Rightarrow> None
                 | Some recv \<Rightarrow>
                     (case shared_key_cache_new (plat h) (Some mt) (Some sk) KEYS_TIMEOUT MAX_KEYS_PER_SLOT of
                        None \<Rightarrow> None
                      | Some snt \<Rightarrow>
                          (case ping_array_new (plat h) DHT_PING_ARRAY_SIZE PING_TIMEOUT of
                             None \<Rightarrow> None
                           | Some arr \<Rightarrow>
                               let dht = \<lparr>dht_mono_time = mt, rng = r, net_family = fam, sent = [], called = [],
                                     hole_punching_enabled = punching, lan_discovery_enabled = lan_discovery,
                                     close_clientlist = replicate LCLIENT_LIST empty_client, close_lastgetnodes = 0,
                                     close_bootstrap_times = 0, self_public_key = pk, dht_self_secret_key = sk, friends_list = [],
                                     loaded_nodes_list = None, loaded_nodes_index = 0, shared_keys_recv = recv,
                                     shared_keys_sent = snt, ping = p, dht_ping_array = arr, dht_cur_time = mono_time_get mt,
                                     cryptopackethandlers = replicate 256 None,
                                     to_bootstrap = replicate MAX_CLOSE_TO_BOOTSTRAP_NODES empty_node_format,
                                     num_to_bootstrap = 0, get_nodes_response = None\<rparr>;
                                   dht = cryptopacket_registerhandler dht CRYPTO_PACKET_NAT_PING (Some 0)
                               in (case (add_fake_friend h ^^ DHT_FAKE_FRIEND_NUMBER) (Some dht) of
                                     None \<Rightarrow> None
                                   | Some dht \<Rightarrow>
                                       if length (friends_list dht) \<noteq> DHT_FAKE_FRIEND_NUMBER then None else Some dht)))))"

definition do_dht :: "host \<Rightarrow> bytes \<Rightarrow> DHT \<Rightarrow> DHT" where
  "do_dht h stack dht =
     (let now = mono_time_get (dht_mono_time dht) in
      if dht_cur_time dht = now then dht
      else
        let dht = dht\<lparr>dht_cur_time := now\<rparr>;
            dht = (if length (loaded_nodes dht) > 0 then snd (dht_connect_after_load h dht) else dht)
        in ping_iterate h (do_NAT h stack (do_dht_friends h (do_Close h dht))))"

section \<open>The own keys\<close>

definition dht_set_self_public_key :: "DHT \<Rightarrow> bytes \<Rightarrow> DHT" where
  "dht_set_self_public_key dht key = dht\<lparr>self_public_key := take CRYPTO_PUBLIC_KEY_SIZE key\<rparr>"

text \<open>Both caches point to the secret key of the node, so that they compute with the new one from then on. The shared keys they hold stay.\<close>

definition dht_set_self_secret_key :: "DHT \<Rightarrow> bytes \<Rightarrow> DHT" where
  "dht_set_self_secret_key dht key =
     (let sk = take CRYPTO_SECRET_KEY_SIZE key
      in dht\<lparr>dht_self_secret_key := sk, shared_keys_recv := (shared_keys_recv dht)\<lparr>self_secret_key := sk\<rparr>,
             shared_keys_sent := (shared_keys_sent dht)\<lparr>self_secret_key := sk\<rparr>\<rparr>)"

definition no_shared_keys :: "DHT \<Rightarrow> bool" where
  "no_shared_keys dht \<longleftrightarrow> list_all shared_key_is_empty (keys (shared_keys_recv dht) @ keys (shared_keys_sent dht))"

section \<open>The node as a state machine\<close>

text \<open>The steps of a node: the clock, the handlers of packets, the calls of its clients and its periodic
  work. Keys that clients pass have 32 bytes. The own secret key is replaced only while no shared key is cached;
  the bootstrap programs (\<^verbatim>\<open>other/DHT_bootstrap.c\<close> and the bootstrap daemon), its only callers, do it
  right after \<^verbatim>\<open>new_dht\<close>.\<close>

inductive dht_step :: "host \<Rightarrow> DHT \<Rightarrow> DHT \<Rightarrow> bool" for h where
  clock: "dht_step h dht (dht\<lparr>dht_mono_time := mt\<rparr>)"
| ping_request: "handle_ping_request h dht source packet = (r, dht') \<Longrightarrow> dht_step h dht dht'"
| ping_response: "handle_ping_response h dht source packet = (r, dht') \<Longrightarrow> dht_step h dht dht'"
| get_nodes: "handle_getnodes h dht source packet = (r, dht') \<Longrightarrow> dht_step h dht dht'"
| send_nodes: "handle_sendnodes_ipv6 h stack dht source packet = (r, dht') \<Longrightarrow> dht_step h dht dht'"
| data_search_response: "handle_data_search_response h dht source packet = (r, dht') \<Longrightarrow> dht_step h dht dht'"
| crypto_packet: "cryptopacket_handle h stack others dht source packet = (r, dht') \<Longrightarrow> dht_step h dht dht'"
| lan_discovery: "handle_LANdiscovery h dht source packet = (r, dht') \<Longrightarrow> dht_step h dht dht'"
| add_friend: "length pk = 32 \<Longrightarrow> dht_addfriend h dht pk cb data number = (r, tok, dht') \<Longrightarrow> dht_step h dht dht'"
| del_friend: "dht_delfriend h dht pk tok = Some (r, dht') \<Longrightarrow> dht_step h dht dht'"
| bootstrap: "length pk = 32 \<Longrightarrow> dht_bootstrap h dht ipp pk = (r, dht') \<Longrightarrow> dht_step h dht dht'"
| get_nodes_request: "length pk = 32 \<Longrightarrow> dht_getnodes h dht ipp pk client_id = (ok, dht') \<Longrightarrow> dht_step h dht dht'"
| load: "dht_load (plat h) dht data = (r, dht') \<Longrightarrow> dht_step h dht dht'"
| work: "dht_step h dht (do_dht h stack dht)"
| random_friends: "randfriends_nodes dht n = Some (nodes, dht') \<Longrightarrow> dht_step h dht dht'"
| close_nodes: "closelist_nodes dht n = (nodes, dht') \<Longrightarrow> dht_step h dht dht'"
| route: "route_packet h dht pk packet = (r, dht') \<Longrightarrow> dht_step h dht dht'"
| route_friend: "route_to_friend h dht pk packet = (num, dht') \<Longrightarrow> dht_step h dht dht'"
| shared_recv: "length pk = 32 \<Longrightarrow> dht_get_shared_key_recv h dht pk = (k, dht') \<Longrightarrow> dht_step h dht dht'"
| shared_sent: "length pk = 32 \<Longrightarrow> dht_get_shared_key_sent h dht pk = (k, dht') \<Longrightarrow> dht_step h dht dht'"
| announce_node: "dht_step h dht (set_announce_node dht pk)"
| add_lists: "length pk = 32 \<Longrightarrow> addto_lists h dht ipp pk = (used, dht') \<Longrightarrow> dht_step h dht dht'"
| add_ping: "length pk = 32 \<Longrightarrow> ping_add h dht pk ipp = (r, dht') \<Longrightarrow> dht_step h dht dht'"
| send_ping: "length pk = 32 \<Longrightarrow> dht_step h dht (ping_send_request h dht ipp pk)"
| connect_loaded: "dht_connect_after_load h dht = (r, dht') \<Longrightarrow> dht_step h dht dht'"
| set_public_key: "length key = 32 \<Longrightarrow> dht_step h dht (dht_set_self_public_key dht key)"
| set_secret_key: "no_shared_keys dht \<Longrightarrow> dht_step h dht (dht_set_self_secret_key dht key)"
| register: "dht_step h dht (cryptopacket_registerhandler dht b cb)"
| register_nodes: "dht_step h dht (dht_callback_get_nodes_response dht f)"

text \<open>A node starts with \<^verbatim>\<open>new_dht\<close>; new key pairs have keys of 32 bytes.\<close>

inductive dht_reachable :: "host \<Rightarrow> DHT \<Rightarrow> bool" for h where
  start: "new_dht h r mt net hp lan = Some dht \<Longrightarrow> (\<And>n. length (fst (r_keypair r n)) = 32) \<Longrightarrow> dht_reachable h dht"
| step: "dht_reachable h dht \<Longrightarrow> dht_step h dht dht' \<Longrightarrow> dht_reachable h dht'"

subsection \<open>Every step keeps the state well-formed\<close>

lemma dht_inv_other [simp]:
  "dht_inv h (dht\<lparr>dht_mono_time := mt\<rparr>) = dht_inv h dht" "dht_inv h (dht\<lparr>dht_cur_time := t\<rparr>) = dht_inv h dht"
  "dht_inv h (dht\<lparr>loaded_nodes_index := i\<rparr>) = dht_inv h dht" "dht_inv h (dht\<lparr>cryptopackethandlers := hs\<rparr>) = dht_inv h dht"
  "dht_inv h (dht\<lparr>get_nodes_response := f\<rparr>) = dht_inv h dht"
  by (simp_all add: dht_inv_def caches_ok_def)

lemma dht_inv_loaded: "dht_inv h dht \<Longrightarrow> loaded_nodes_list dht = Some ns \<Longrightarrow> keys_ok ns \<and> length ns \<le> MAX_SAVED_DHT_NODES"
  and dht_inv_set_loaded: "dht_inv h dht \<Longrightarrow> (case l of None \<Rightarrow> True | Some ns \<Rightarrow> keys_ok ns \<and> length ns \<le> MAX_SAVED_DHT_NODES) \<Longrightarrow> dht_inv h (dht\<lparr>loaded_nodes_list := l\<rparr>)"
  by (simp_all add: dht_inv_def caches_ok_def)

lemma cryptopacket_handle_inv [keep_inv]:
  assumes "dht_inv h dht" "cryptopacket_handle h stack others dht source packet = (r, dht')"
  shows "dht_inv h dht'"
proof -
  have "dht_inv h (snd (cryptopacket_handle h stack others dht source packet))"
    unfolding cryptopacket_handle_def
    by (simp add: assms(1) handle_NATping_inv only_sends_inv [OF route_packet_only_sends assms(1)] case_prod_beta
        split: option.split nat.split)
  with assms(2) show ?thesis by simp
qed

lemma handle_LANdiscovery_inv [keep_inv]:
  "dht_inv h dht \<Longrightarrow> handle_LANdiscovery h dht source packet = (r, dht') \<Longrightarrow> dht_inv h dht'"
  using dht_bootstrap_inv [of h dht "drop 1 packet" source]
  by (auto simp: handle_LANdiscovery_def size_defs split: if_splits)

text \<open>A loaded list has at most \<^verbatim>\<open>MAX_SAVED_DHT_NODES\<close> nodes.\<close>

lemma unpack_nodes_le: "unpack_nodes n data tcp = Some (nodes, len) \<Longrightarrow> length nodes \<le> n"
proof (induction n data tcp arbitrary: nodes len rule: unpack_nodes.induct)
  case (2 n data tcp)
  then show ?case by (fastforce split: if_splits option.splits prod.splits)
qed simp

lemma dht_load_inv [keep_inv]:
  assumes "dht_inv h dht" "dht_load P dht data = (r, dht')"
  shows "dht_inv h dht'"
proof -
  have cb: "dht_inv h d'" if "dht_inv h d" "dht_load_state_callback P d bs ty = (st, d')" for d bs ty st d'
    using that unpack_nodes_keys unpack_nodes_le
    by (auto simp: dht_load_state_callback_def keys_ok_def [of "[]"] split: option.splits if_splits intro!: dht_inv_set_loaded
        simp del: unpack_nodes.simps)
  have "dht_inv h (snd (state_load (dht_load_state_callback P) dht bs c))" for bs c
    by (rule state_load_keeps [where P = "dht_inv h"]) (rule cb, assumption+, rule assms(1))
  then show ?thesis using assms by (auto simp: dht_load_def split: if_splits) (metis snd_conv)
qed

lemma connect_node_inv:
  assumes "dht_inv h dht" "keys_ok nodes" "nodes \<noteq> []" "length nodes < 2 ^ 32"
  shows "dht_inv h (connect_node h nodes dht)"
proof -
  have "unat (loaded_nodes_index dht mod of_nat (length nodes)) < length nodes"
    using assms(3,4) by (simp add: unat_mod unat_of_nat)
  then have "length (nf_public_key (nodes ! unat (loaded_nodes_index dht mod of_nat (length nodes)))) = 32"
    using assms(2) by (simp add: keys_ok_def)
  from dht_bootstrap_inv [OF assms(1) this] show ?thesis by (simp add: connect_node_def Let_def)
qed

lemma dht_connect_after_load_inv [keep_inv]:
  assumes "dht_inv h dht"
  shows "dht_inv h (snd (dht_connect_after_load h dht))"
proof (cases "loaded_nodes_list dht")
  case (Some nodes)
  have keys: "keys_ok nodes" "length nodes < 2 ^ 32" using dht_inv_loaded [OF assms Some] by (simp_all add: size_defs)
  have "dht_inv h ((connect_node h nodes ^^ n) dht)" if "0 < n \<Longrightarrow> nodes \<noteq> []" for n
    using that
  proof (induction n)
    case (Suc n)
    then show ?case using keys by (simp add: connect_node_inv)
  qed (simp add: assms)
  from this [of "min (length nodes) SAVE_BOOTSTAP_FREQUENCY"] show ?thesis
    using assms Some by (auto simp: dht_connect_after_load_def dht_inv_set_loaded)
qed (simp add: assms dht_connect_after_load_def)

lemma do_dht_inv [keep_inv]:
  assumes "host_ok h" "dht_inv h dht"
  shows "dht_inv h (do_dht h stack dht)"
proof -
  have "dht_inv h (dht\<lparr>dht_cur_time := t\<rparr>)" for t using assms(2) by simp
  from this dht_connect_after_load_inv [OF this] show ?thesis
    using assms unfolding do_dht_def Let_def
    by (auto intro!: ping_iterate_inv do_NAT_inv do_dht_friends_inv do_Close_inv)
qed

lemma random_friends_inv: "dht_inv h dht \<Longrightarrow> randfriends_nodes dht n = Some (nodes, dht') \<Longrightarrow> dht_inv h dht'"
  by (auto simp: randfriends_nodes_def Let_def split: if_splits prod.splits)

lemma close_nodes_inv: "dht_inv h dht \<Longrightarrow> closelist_nodes dht n = (nodes, dht') \<Longrightarrow> dht_inv h dht'"
  by (auto simp: closelist_nodes_def split: prod.splits)

lemma set_public_key_inv: "dht_inv h dht \<Longrightarrow> length key = 32 \<Longrightarrow> dht_inv h (dht_set_self_public_key dht key)"
  by (simp add: dht_set_self_public_key_def dht_inv_def caches_ok_def size_defs)

lemma set_secret_key_inv:
  assumes "dht_inv h dht" "no_shared_keys dht"
  shows "dht_inv h (dht_set_self_secret_key dht key)"
proof -
  have "cache_inv P (c\<lparr>self_secret_key := sk\<rparr>)" if "cache_inv P c" "list_all shared_key_is_empty (keys c)" for P c sk
    using that by (auto simp: cache_inv_def key_ok_def list_all_iff)
  then show ?thesis using assms by (simp add: dht_set_self_secret_key_def dht_inv_def caches_ok_def no_shared_keys_def Let_def)
qed

lemma step_inv:
  assumes "host_ok h" "dht_step h dht dht'" "dht_inv h dht"
  shows "dht_inv h dht'"
  using assms(2,3)
proof induction
  case (bootstrap pk dht ipp r dht')
  then show ?case using dht_bootstrap_inv [of h dht pk ipp] by simp
next
  case (get_nodes_request pk dht ipp client_id ok dht')
  then show ?case using only_sends_inv [OF dht_getnodes_only_sends [OF dht_inv_caches]] by (metis snd_conv)
next
  case (shared_recv pk dht k dht')
  then show ?case using shared_key_recv_inv by blast
next
  case (shared_sent pk dht k dht')
  then show ?case using shared_key_sent_inv by blast
next
  case (add_ping pk dht ipp r dht')
  then show ?case using ping_add_inv [of h dht pk ipp] by simp
next
  case (connect_loaded dht r dht')
  then show ?case using dht_connect_after_load_inv [of h dht] by simp
next
  case (route dht pk packet r dht')
  then show ?case using only_sends_inv [OF route_packet_only_sends] by (metis snd_conv)
next
  case (route_friend dht pk packet num dht')
  then show ?case using only_sends_inv [OF route_to_friend_only_sends] by (metis snd_conv)
qed (use assms(1) in \<open>auto simp: host_ok_def cryptopacket_registerhandler_def dht_callback_get_nodes_response_def
    intro: handle_ping_request_inv handle_ping_response_inv handle_getnodes_inv handle_sendnodes_inv handle_data_search_response_inv
      cryptopacket_handle_inv handle_LANdiscovery_inv dht_addfriend_inv dht_delfriend_inv dht_load_inv do_dht_inv [OF assms(1)]
      random_friends_inv close_nodes_inv set_announce_node_inv addto_lists_inv ping_send_request_inv set_public_key_inv set_secret_key_inv\<close>)

text \<open>If a shared key is cached when the secret key is replaced, it goes on being used, although it belongs to the old secret key.\<close>

lemma replaced_secret_key_stale:
  assumes "dht_inv h dht" "length pk = 32" "find_in_bucket pk (get_bucket (shared_keys_recv dht) pk) = Some i"
  shows "fst (dht_get_shared_key_recv h (dht_set_self_secret_key dht key) pk) = encrypt_precompute (plat h) pk (dht_self_secret_key dht)"
proof -
  let ?c = "shared_keys_recv dht" and ?sk = "take CRYPTO_SECRET_KEY_SIZE key"
  have b: "get_bucket (?c\<lparr>self_secret_key := ?sk\<rparr>) pk = get_bucket ?c pk" by (simp add: get_bucket_def bucket_start_def)
  have "fst (shared_key_cache_lookup (plat h) mt (?c\<lparr>self_secret_key := ?sk\<rparr>) pk) = fst (shared_key_cache_lookup (plat h) mt ?c pk)" for mt
    using assms(3) by (simp add: shared_key_cache_lookup_def b Let_def)
  then have "fst (dht_get_shared_key_recv h (dht_set_self_secret_key dht key) pk) = fst (dht_get_shared_key_recv h dht pk)"
    by (simp add: dht_get_shared_key_recv_def dht_set_self_secret_key_def Let_def case_prod_beta)
  then show ?thesis using shared_key_recv(1) [OF dht_inv_caches [OF assms(1)] assms(2)] by (metis prod.collapse)
qed

lemma add_fake_friend_inv:
  assumes "dht_inv h dht" "\<And>n. length (fst (r_keypair (rng dht) n)) = 32" "add_fake_friend h (Some dht) = Some dht'"
  shows "dht_inv h dht'"
proof -
  obtain pk sk r where kp: "crypto_new_keypair (rng dht) = ((pk, sk), r)" by (metis prod.collapse)
  have "length pk = 32" using kp assms(2) by (auto simp: crypto_new_keypair_def) (metis fst_conv)
  then show ?thesis
    using assms(1,3) kp dht_addfriend_inv [of h "dht\<lparr>rng := r\<rparr>" pk None 0 0]
    by (auto simp: add_fake_friend_def split: prod.splits if_splits)
qed

lemma add_fake_friend_rng:
  assumes "add_fake_friend h (Some dht) = Some dht'"
  shows "r_keypair (rng dht') = r_keypair (rng dht)"
proof -
  have u: "r_keypair (snd (random_u64 r)) = r_keypair r" for r by (simp add: random_u64_def random_bytes_def)
  have "r_keypair (rng (snd (snd (dht_addfriend h d pk cb data number)))) = r_keypair (rng d)" for d pk cb data number
    using u [of "rng d"] by (auto simp: dht_addfriend_def Let_def split: option.split prod.split)
  from this [of "dht\<lparr>rng := snd (crypto_new_keypair (rng dht))\<rparr>"] assms show ?thesis
    by (auto simp: add_fake_friend_def crypto_new_keypair_def split: prod.splits if_splits) (metis snd_conv select_convs(1) Random.select_convs Random.surjective Random.update_convs)
qed

text \<open>The node before its fake friends are added.\<close>

definition started_dht :: "Mono_Time \<Rightarrow> Random \<Rightarrow> byte \<Rightarrow> bool \<Rightarrow> bool \<Rightarrow> bytes \<Rightarrow> bytes \<Rightarrow> Shared_Key_Cache \<Rightarrow> Ping \<Rightarrow> Ping_Array \<Rightarrow> DHT" where
  "started_dht mt r fam hp lan pk sk recv p arr = cryptopacket_registerhandler \<lparr>dht_mono_time = mt, rng = r, net_family = fam, sent = [], called = [],
     hole_punching_enabled = hp, lan_discovery_enabled = lan,
     close_clientlist = replicate LCLIENT_LIST empty_client, close_lastgetnodes = 0,
     close_bootstrap_times = 0, self_public_key = pk, dht_self_secret_key = sk, friends_list = [],
     loaded_nodes_list = None, loaded_nodes_index = 0, shared_keys_recv = recv,
     shared_keys_sent = recv, ping = p, dht_ping_array = arr, dht_cur_time = mono_time_get mt,
     cryptopackethandlers = replicate 256 None,
     to_bootstrap = replicate MAX_CLOSE_TO_BOOTSTRAP_NODES empty_node_format,
     num_to_bootstrap = 0, get_nodes_response = None\<rparr> CRYPTO_PACKET_NAT_PING (Some 0)"

lemma new_dht_start:
  assumes "new_dht h r mt net hp lan = Some dht"
  obtains fam p pk sk r' recv arr where "net = Some fam" "ping_new (plat h) = Some p" "crypto_new_keypair r = ((pk, sk), r')"
    "shared_key_cache_new (plat h) (Some mt) (Some sk) KEYS_TIMEOUT MAX_KEYS_PER_SLOT = Some recv"
    "ping_array_new (plat h) DHT_PING_ARRAY_SIZE PING_TIMEOUT = Some arr"
    "(add_fake_friend h ^^ DHT_FAKE_FRIEND_NUMBER) (Some (started_dht mt r' fam hp lan pk sk recv p arr)) = Some dht"
proof -
  obtain fam p pk sk r' recv arr where n: "net = Some fam" "ping_new (plat h) = Some p" "crypto_new_keypair r = ((pk, sk), r')"
    and c: "shared_key_cache_new (plat h) (Some mt) (Some sk) KEYS_TIMEOUT MAX_KEYS_PER_SLOT = Some recv"
    "ping_array_new (plat h) DHT_PING_ARRAY_SIZE PING_TIMEOUT = Some arr"
    using assms by (auto simp: new_dht_def Let_def split: option.splits if_splits prod.splits)
  have "(add_fake_friend h ^^ DHT_FAKE_FRIEND_NUMBER) (Some (started_dht mt r' fam hp lan pk sk recv p arr)) = Some dht"
    using assms [unfolded new_dht_def n option.case Let_def c prod.case, folded started_dht_def] by (auto split: option.splits if_splits)
  then show ?thesis using that n c by blast
qed

lemma new_dht_inv:
  assumes "new_dht h r mt net hp lan = Some dht" "\<And>n. length (fst (r_keypair r n)) = 32"
  shows "dht_inv h dht"
proof -
  obtain fam p pk sk r' recv arr where n: "net = Some fam" "ping_new (plat h) = Some p" "crypto_new_keypair r = ((pk, sk), r')"
    and c: "shared_key_cache_new (plat h) (Some mt) (Some sk) KEYS_TIMEOUT MAX_KEYS_PER_SLOT = Some recv"
    "ping_array_new (plat h) DHT_PING_ARRAY_SIZE PING_TIMEOUT = Some arr"
    and add: "(add_fake_friend h ^^ DHT_FAKE_FRIEND_NUMBER) (Some (started_dht mt r' fam hp lan pk sk recv p arr)) = Some dht"
    by (rule new_dht_start [OF assms(1)])
  define d where "d = started_dht mt r' fam hp lan pk sk recv p arr"
  have pk: "length pk = 32" using n(3) assms(2) by (auto simp: crypto_new_keypair_def) (metis fst_conv)
  have cache: "cache_inv (plat h) recv" "self_secret_key recv = sk" "skc_timeout recv = 0"
    using c shared_key_cache_new_inv [OF c(1)]
    by (auto simp: shared_key_cache_new_def Let_def split: if_splits)
  have "dht_inv h d"
    using pk cache ping_new_ok [OF n(2)] ping_array_new_inv [OF c(2)]
    by (simp add: d_def started_dht_def cryptopacket_registerhandler_def dht_inv_def clients_ok_def list_all_iff empty_client_def nodes_ok_def keys_ok_def
        empty_node_format_def caches_ok_def)
  moreover have "r_keypair (rng d) = r_keypair r"
    using n(3) by (auto simp: d_def started_dht_def cryptopacket_registerhandler_def crypto_new_keypair_def)
  moreover have two: "add_fake_friend h (add_fake_friend h (Some d)) = Some dht"
    using add by (simp add: d_def DHT_FAKE_FRIEND_NUMBER_def numeral_2_eq_2)
  then obtain d1 where d1: "add_fake_friend h (Some d) = Some d1"
    by (cases "add_fake_friend h (Some d)") (simp_all add: add_fake_friend_def [of h None])
  moreover have d2: "add_fake_friend h (Some d1) = Some dht" using two d1 by simp
  ultimately show ?thesis
    using assms(2) add_fake_friend_inv [OF _ _ d1] add_fake_friend_inv [OF _ _ d2] add_fake_friend_rng [OF d1] by simp
qed

text \<open>A new node has no shared keys, so that its keys can be replaced.\<close>

lemma add_fake_friend_caches:
  assumes "add_fake_friend h (Some dht) = Some dht'"
  shows "shared_keys_recv dht' = shared_keys_recv dht" "shared_keys_sent dht' = shared_keys_sent dht"
  using assms by (auto simp: add_fake_friend_def dht_addfriend_def Let_def split: prod.splits if_splits option.splits)

lemma new_dht_no_shared_keys:
  assumes "new_dht h r mt net hp lan = Some dht"
  shows "no_shared_keys dht"
proof -
  have cache: "list_all shared_key_is_empty (keys c)" if "shared_key_cache_new P t sk tmo kps = Some c" for P t sk tmo kps c
    using that by (auto simp: shared_key_cache_new_def Let_def list_all_iff empty_key_def shared_key_is_empty_def split: option.splits if_splits)
  obtain d where d: "no_shared_keys d" "(add_fake_friend h ^^ DHT_FAKE_FRIEND_NUMBER) (Some d) = Some dht"
  proof (rule new_dht_start [OF assms])
    fix fam p pk sk r' recv arr
    assume c: "shared_key_cache_new (plat h) (Some mt) (Some sk) KEYS_TIMEOUT MAX_KEYS_PER_SLOT = Some recv"
      and add: "(add_fake_friend h ^^ DHT_FAKE_FRIEND_NUMBER) (Some (started_dht mt r' fam hp lan pk sk recv p arr)) = Some dht"
    show ?thesis by (rule that [OF _ add]) (use cache [OF c] in \<open>simp add: no_shared_keys_def started_dht_def cryptopacket_registerhandler_def\<close>)
  qed
  have "no_shared_keys d'" if "(add_fake_friend h ^^ n) (Some d) = Some d'" for n d'
    using that
  proof (induction n arbitrary: d')
    case (Suc n)
    then obtain d1 where "(add_fake_friend h ^^ n) (Some d) = Some d1" "add_fake_friend h (Some d1) = Some d'"
      by (cases "(add_fake_friend h ^^ n) (Some d)") (auto simp: add_fake_friend_def [of h None])
    then show ?case using Suc.IH [of d1] add_fake_friend_caches by (metis no_shared_keys_def)
  qed (use d(1) in simp)
  then show ?thesis using d(2) by blast
qed

section \<open>Properties\<close>

text \<open>C23: Every state a node can reach by packets, by the calls of its clients (with the own secret key replaced only while no
  shared key is cached) and by its periodic work is well-formed: the tables keep their sizes, every stored key has 32 bytes,
  the queues and rings stay within their bounds, and both key caches hold only keys derived
  from the own secret key.\<close>

theorem dht_reachable_inv:
  assumes "host_ok h" "dht_reachable h dht"
  shows "dht_inv h dht"
  using assms(2)
proof induction
  case (start r mt net hp lan dht)
  then show ?case by (intro new_dht_inv)
next
  case (step dht dht')
  then show ?case using step_inv [OF assms(1)] by blast
qed

definition counting_random :: Random where
  "counting_random = \<lparr>r_bytes = of_nat, r_keypair = \<lambda>n. (replicate 32 (of_nat n), replicate 32 (of_nat n)), r_pos = 1\<rparr>"

lemma add_fake_friend_new:
  assumes "\<And>n. malloc_ok (plat h) n" "r_keypair (rng dht) (r_pos (rng dht)) = (pk, sk)" "length pk = 32"
    and "index_of_friend_pk (friends_list dht) pk = None"
  shows "\<exists>f n r. random_u64 ((rng dht)\<lparr>r_pos := r_pos (rng dht) + 1\<rparr>) = (n, r) \<and> df_public_key f = pk \<and>
    add_fake_friend h (Some dht) = Some (dht\<lparr>rng := r, friends_list := friends_list dht @ [f]\<rparr>)"
proof -
  let ?r = "(rng dht)\<lparr>r_pos := r_pos (rng dht) + 1\<rparr>"
  obtain n r where n: "random_u64 ?r = (n, r)" by fastforce
  from dht_addfriend_new [of pk "dht\<lparr>rng := ?r\<rparr>" h None 0 0] assms obtain f r' where f: "df_public_key f = pk"
    and add: "dht_addfriend h (dht\<lparr>rng := ?r\<rparr>) pk None 0 0 = (0, Some 1, dht\<lparr>rng := r', friends_list := friends_list dht @ [f]\<rparr>)"
    by auto
  have "rng (snd (snd (dht_addfriend h (dht\<lparr>rng := ?r\<rparr>) pk None 0 0))) = r"
    using n assms by (simp add: dht_addfriend_def Let_def split: prod.split)
  then have "r' = r" using add by simp
  then show ?thesis using add f n assms(2) by (auto simp: add_fake_friend_def crypto_new_keypair_def)
qed

lemma new_dht_example: "\<exists>dht. new_dht xor_host counting_random example_time (Some TOX_AF_INET) True True = Some dht"
proof -
  have mem: "malloc_ok (plat xor_host) n" for n by (simp add: plat_xor_host box_platform.memory [OF xor_box_platform])
  have "PING_NUM_MAX AND (PING_NUM_MAX - 1) = 0" "PING_NUM_MAX \<noteq> 0" "PING_TIMEOUT \<noteq> 0"
    "DHT_PING_ARRAY_SIZE AND (DHT_PING_ARRAY_SIZE - 1) = 0" "DHT_PING_ARRAY_SIZE \<noteq> 0" "mono_time_get example_time \<noteq> 0"
    "KEYS_TIMEOUT \<noteq> 0" "MAX_KEYS_PER_SLOT \<noteq> 0" by code_simp+
  with mem obtain p recv arr where new: "ping_new (plat xor_host) = Some p" "ping_array_new (plat xor_host) DHT_PING_ARRAY_SIZE PING_TIMEOUT = Some arr"
    "shared_key_cache_new (plat xor_host) (Some example_time) (Some (replicate 32 1)) KEYS_TIMEOUT MAX_KEYS_PER_SLOT = Some recv"
    by (auto simp: ping_new_def ping_array_new_def shared_key_cache_new_def Let_def)
  let ?r = "counting_random\<lparr>r_pos := 2\<rparr>"
  have kp: "crypto_new_keypair counting_random = ((replicate 32 1, replicate 32 1), ?r)"
    by (simp add: crypto_new_keypair_def counting_random_def)
  define d where "d = cryptopacket_registerhandler \<lparr>dht_mono_time = example_time, rng = ?r, net_family = TOX_AF_INET, sent = [], called = [],
     hole_punching_enabled = True, lan_discovery_enabled = True,
     close_clientlist = replicate LCLIENT_LIST empty_client, close_lastgetnodes = 0,
     close_bootstrap_times = 0, self_public_key = replicate 32 1, dht_self_secret_key = replicate 32 1, friends_list = [],
     loaded_nodes_list = None, loaded_nodes_index = 0, shared_keys_recv = recv,
     shared_keys_sent = recv, ping = p, dht_ping_array = arr, dht_cur_time = mono_time_get example_time,
     cryptopackethandlers = replicate 256 None,
     to_bootstrap = replicate MAX_CLOSE_TO_BOOTSTRAP_NODES empty_node_format,
     num_to_bootstrap = 0, get_nodes_response = None\<rparr> CRYPTO_PACKET_NAT_PING (Some 0)"
  have d: "rng d = ?r" "friends_list d = []" by (simp_all add: d_def cryptopacket_registerhandler_def)
  obtain f n r1 where 1: "random_u64 (?r\<lparr>r_pos := 3\<rparr>) = (n, r1)" "df_public_key f = replicate 32 2"
    "add_fake_friend xor_host (Some d) = Some (d\<lparr>rng := r1, friends_list := [f]\<rparr>)"
    using add_fake_friend_new [of xor_host d "replicate 32 2" "replicate 32 2"] mem d
    by (auto simp: counting_random_def index_of_friend_pk_def)
  have r1: "r1 = counting_random\<lparr>r_pos := 11\<rparr>" using 1(1) by (simp add: random_u64_def random_bytes_def)
  have ne: "\<not> pk_equal (replicate 32 2) (replicate 32 11)" by code_simp
  obtain g d2 where 2: "add_fake_friend xor_host (Some (d\<lparr>rng := r1, friends_list := [f]\<rparr>)) = Some d2" "friends_list d2 = [f, g]"
    using add_fake_friend_new [of xor_host "d\<lparr>rng := r1, friends_list := [f]\<rparr>" "replicate 32 11" "replicate 32 11"] mem r1 1(2) ne
    by (auto simp: counting_random_def index_of_friend_pk_def)
  have "(add_fake_friend xor_host ^^ DHT_FAKE_FRIEND_NUMBER) (Some d) = Some d2" "length (friends_list d2) = DHT_FAKE_FRIEND_NUMBER"
    using 1(3) 2 by (simp_all add: DHT_FAKE_FRIEND_NUMBER_def numeral_2_eq_2)
  then show ?thesis
    unfolding new_dht_def option.case new Let_def kp prod.case d_def [symmetric] using mem by simp
qed

theorem dht_reachable_inv_witness:
  "\<exists>dht dht'. new_dht xor_host counting_random example_time (Some TOX_AF_INET) True True = Some dht \<and>
    dht' = dht_set_self_secret_key (dht_set_self_public_key dht (replicate 32 5)) (replicate 32 5) \<and>
    dht_reachable xor_host (do_dht xor_host [] dht') \<and> dht_inv xor_host (do_dht xor_host [] dht')"
proof -
  obtain dht where n: "new_dht xor_host counting_random example_time (Some TOX_AF_INET) True True = Some dht"
    using new_dht_example by blast
  let ?d = "dht_set_self_public_key dht (replicate 32 5)"
  let ?d' = "dht_set_self_secret_key ?d (replicate 32 5)"
  have "dht_reachable xor_host dht" by (rule dht_reachable.start [OF n]) (simp add: counting_random_def)
  then have "dht_reachable xor_host ?d" by (rule dht_reachable.step) (simp add: dht_step.set_public_key)
  moreover have "no_shared_keys ?d" using new_dht_no_shared_keys [OF n] by (simp add: no_shared_keys_def dht_set_self_public_key_def)
  ultimately have "dht_reachable xor_host ?d'" by (rule dht_reachable.step [OF _ dht_step.set_secret_key])
  then have r: "dht_reachable xor_host (do_dht xor_host [] ?d')" by (rule dht_reachable.step) (rule dht_step.work)
  with n dht_reachable_inv [OF host_ok_xor_host r] show ?thesis by blast
qed

end
