(* ===== verification/Net_Crypto_Handshake.thy ===== *)
theory Net_Crypto_Handshake
  imports DHT_Main Packets_Array BS_List
begin

text \<open>
  The state of \<^verbatim>\<open>toxcore/net_crypto.c\<close> and the packets of its handshake: cookie requests, cookies, cookie
  responses and handshake packets.

  Shown here: cookies open for 15 seconds and give back what was sealed; a complete handshake gives both
  sides the session key, the nonce and the identity of the other; and a cookie request with
  a key that has no shared key makes its handler read through a null pointer.
\<close>

section \<open>State\<close>

datatype Crypto_Conn_State =
    CRYPTO_CONN_FREE
  | CRYPTO_CONN_NO_CONNECTION
  | CRYPTO_CONN_COOKIE_REQUESTING
  | CRYPTO_CONN_HANDSHAKE_SENT
  | CRYPTO_CONN_NOT_CONFIRMED
  | CRYPTO_CONN_ESTABLISHED

text \<open>A callback is its function, object and number. The fields of the floating-point rate control are not
  part of the model.\<close>

record Crypto_Connection =
  cc_public_key :: bytes
  recv_nonce :: bytes
  sent_nonce :: bytes
  sessionpublic_key :: bytes
  sessionsecret_key :: bytes
  peersessionpublic_key :: bytes
  cc_shared_key :: bytes
  status :: Crypto_Conn_State
  cookie_request_number :: u64
  cc_dht_public_key :: bytes
  temp_packet :: "bytes option"
  temp_packet_sent_time :: u64
  temp_packet_num_sent :: u32
  ip_portv4 :: IP_Port
  ip_portv6 :: IP_Port
  direct_lastrecv_timev4 :: u64
  direct_lastrecv_timev6 :: u64
  last_tcp_sent :: u64
  send_array :: Packets_Array
  recv_array :: Packets_Array
  connection_status_callback :: "(nat \<times> nat \<times> int) option"
  connection_data_callback :: "(nat \<times> nat \<times> int) option"
  connection_lossy_data_callback :: "(nat \<times> nat \<times> int) option"
  last_request_packet_sent :: u64
  direct_send_attempt_time :: u64
  packet_counter :: u32
  packets_left :: u32
  packets_left_requested :: u32
  packets_sent :: u32
  rtt_time :: u64
  connection_number_tcp :: u32
  maximum_speed_reached :: bool
  dht_pk_callback :: "(nat \<times> nat \<times> u32) option"

record New_Connection =
  nc_source :: IP_Port
  nc_public_key :: bytes
  nc_dht_public_key :: bytes
  nc_recv_nonce :: bytes
  nc_peersessionpublic_key :: bytes
  nc_cookie :: bytes

text \<open>The calls to the TCP connections and to the callbacks of the clients. They are recorded in the order they are made; what
  a call to the TCP connections returns is a function of the calls before it and of the call itself.\<close>

datatype nc_call =
    Tcp_send u32 bytes
  | Tcp_oob u32 bytes bytes
  | Tcp_new bytes int
  | Tcp_kill u32
  | Tcp_relay u32 u32
  | Tcp_status u32 bool
  | Tcp_work
  | Tcp_close
  | Cb_status "nat \<times> nat \<times> int" bool
  | Cb_data "nat \<times> nat \<times> int" bytes
  | Cb_lossy "nat \<times> nat \<times> int" bytes
  | Cb_dht_pk "nat \<times> nat \<times> u32" bytes
  | Cb_new "nat \<times> nat" New_Connection

type_synonym tcp_results = "nc_call list \<Rightarrow> nc_call \<Rightarrow> int"

record Net_Crypto =
  nc_dht :: DHT
  nc_calls :: "nc_call list"
  crypto_connections :: "Crypto_Connection list"
  nc_self_public_key :: bytes
  nc_self_secret_key :: bytes
  secret_symmetric_key :: bytes
  new_connection_callback :: "(nat \<times> nat) option"
  ip_port_list :: BS_List

definition log_call :: "nc_call \<Rightarrow> Net_Crypto \<Rightarrow> Net_Crypto" where
  "log_call call c = c\<lparr>nc_calls := nc_calls c @ [call]\<rparr>"

definition tcp_call :: "tcp_results \<Rightarrow> nc_call \<Rightarrow> Net_Crypto \<Rightarrow> int \<times> Net_Crypto" where
  "tcp_call results call c = (results (nc_calls c) call, log_call call c)"

section \<open>Cookies\<close>

definition COOKIE_TIMEOUT :: u64 where [size_defs]: "COOKIE_TIMEOUT = 15"
definition COOKIE_DATA_LENGTH :: nat where [size_defs]: "COOKIE_DATA_LENGTH = CRYPTO_PUBLIC_KEY_SIZE * 2"
definition COOKIE_CONTENTS_LENGTH :: nat where [size_defs]: "COOKIE_CONTENTS_LENGTH = 8 + COOKIE_DATA_LENGTH"
definition COOKIE_LENGTH :: nat where [size_defs]: "COOKIE_LENGTH = CRYPTO_NONCE_SIZE + COOKIE_CONTENTS_LENGTH + CRYPTO_MAC_SIZE"
definition COOKIE_REQUEST_PLAIN_LENGTH :: nat where [size_defs]: "COOKIE_REQUEST_PLAIN_LENGTH = COOKIE_DATA_LENGTH + 8"
definition COOKIE_REQUEST_LENGTH :: nat where
  [size_defs]: "COOKIE_REQUEST_LENGTH = 1 + CRYPTO_PUBLIC_KEY_SIZE + CRYPTO_NONCE_SIZE + COOKIE_REQUEST_PLAIN_LENGTH + CRYPTO_MAC_SIZE"
definition COOKIE_RESPONSE_LENGTH :: nat where
  [size_defs]: "COOKIE_RESPONSE_LENGTH = 1 + CRYPTO_NONCE_SIZE + COOKIE_LENGTH + 8 + CRYPTO_MAC_SIZE"
definition HANDSHAKE_PACKET_LENGTH :: nat where
  [size_defs]: "HANDSHAKE_PACKET_LENGTH = 1 + COOKIE_LENGTH + CRYPTO_NONCE_SIZE + CRYPTO_NONCE_SIZE + CRYPTO_PUBLIC_KEY_SIZE +
     CRYPTO_SHA512_SIZE + COOKIE_LENGTH + CRYPTO_MAC_SIZE"
definition NET_PACKET_COOKIE_REQUEST :: byte where [size_defs]: "NET_PACKET_COOKIE_REQUEST = 0x18"
definition NET_PACKET_COOKIE_RESPONSE :: byte where [size_defs]: "NET_PACKET_COOKIE_RESPONSE = 0x19"
definition NET_PACKET_CRYPTO_HS :: byte where [size_defs]: "NET_PACKET_CRYPTO_HS = 0x1a"
definition NET_PACKET_CRYPTO_DATA :: byte where [size_defs]: "NET_PACKET_CRYPTO_DATA = 0x1b"

definition set_rng :: "Random \<Rightarrow> Net_Crypto \<Rightarrow> Net_Crypto" where
  "set_rng r c = c\<lparr>nc_dht := (nc_dht c)\<lparr>rng := r\<rparr>\<rparr>"

text \<open>The results of the functions that copy a shared key of the DHT are options: \<open>None\<close> is the copy from the null
  pointer that \<^verbatim>\<open>dht_get_shared_key_sent\<close> returns if there is no shared key. The packet of
  \<^verbatim>\<open>create_cookie_request\<close> is missing if it returns an error.\<close>

definition create_cookie_request :: "host \<Rightarrow> Net_Crypto \<Rightarrow> bytes \<Rightarrow> u64 \<Rightarrow> (bytes option \<times> bytes \<times> Net_Crypto) option" where
  "create_cookie_request h c dht_public_key number =
     (let plain = take CRYPTO_PUBLIC_KEY_SIZE (nc_self_public_key c) @ replicate CRYPTO_PUBLIC_KEY_SIZE 0 @ host_bytes 8 number;
          (tmp_shared_key, dht) = dht_get_shared_key_sent h (nc_dht c) dht_public_key
      in case tmp_shared_key of
           None \<Rightarrow> None
         | Some shared_key \<Rightarrow>
             let (nonce, r) = random_nonce (rng dht);
                 c = c\<lparr>nc_dht := dht\<lparr>rng := r\<rparr>\<rparr>
             in case encrypt_data_symmetric (plat h) (Some shared_key) nonce plain of
                  None \<Rightarrow> Some (None, shared_key, c)
                | Some enc \<Rightarrow>
                    if length enc \<noteq> COOKIE_REQUEST_PLAIN_LENGTH + CRYPTO_MAC_SIZE then Some (None, shared_key, c)
                    else Some (Some (NET_PACKET_COOKIE_REQUEST # take CRYPTO_PUBLIC_KEY_SIZE (self_public_key (nc_dht c)) @
                           nonce @ enc), shared_key, c))"

definition create_cookie :: "platform \<Rightarrow> Random \<Rightarrow> Mono_Time \<Rightarrow> bytes \<Rightarrow> bytes \<Rightarrow> bytes option \<times> Random" where
  "create_cookie P r mt bs encryption_key =
     (let contents = host_bytes 8 (mono_time_get mt) @ take COOKIE_DATA_LENGTH bs;
          (nonce, r) = random_nonce r
      in case encrypt_data_symmetric P (Some encryption_key) nonce contents of
           None \<Rightarrow> (None, r)
         | Some enc \<Rightarrow> if length enc \<noteq> COOKIE_LENGTH - CRYPTO_NONCE_SIZE then (None, r) else (Some (nonce @ enc), r))"

definition open_cookie :: "platform \<Rightarrow> Mono_Time \<Rightarrow> bytes \<Rightarrow> bytes \<Rightarrow> bytes option" where
  "open_cookie P mt cookie encryption_key =
     (case decrypt_data_symmetric P (Some encryption_key) (take CRYPTO_NONCE_SIZE cookie)
             (slice CRYPTO_NONCE_SIZE (COOKIE_LENGTH - CRYPTO_NONCE_SIZE) cookie) of
        None \<Rightarrow> None
      | Some contents \<Rightarrow>
          if length contents \<noteq> COOKIE_CONTENTS_LENGTH then None
          else
            let cookie_time = host_word (take 8 contents);
                temp_time = mono_time_get mt
            in if cookie_time + COOKIE_TIMEOUT < temp_time \<or> temp_time < cookie_time then None
               else Some (slice 8 COOKIE_DATA_LENGTH contents))"

definition create_cookie_response :: "host \<Rightarrow> Net_Crypto \<Rightarrow> bytes \<Rightarrow> bytes \<Rightarrow> bytes \<Rightarrow> bytes option \<times> Net_Crypto" where
  "create_cookie_response h c request_plain shared_key dht_public_key =
     (let cookie_plain = take CRYPTO_PUBLIC_KEY_SIZE request_plain @ take CRYPTO_PUBLIC_KEY_SIZE dht_public_key;
          (cookie, r) = create_cookie (plat h) (rng (nc_dht c)) (dht_mono_time (nc_dht c)) cookie_plain (secret_symmetric_key c)
      in case cookie of
           None \<Rightarrow> (None, set_rng r c)
         | Some cookie \<Rightarrow>
             let plain = cookie @ slice COOKIE_DATA_LENGTH 8 request_plain;
                 (nonce, r) = random_nonce r
             in case encrypt_data_symmetric (plat h) (Some shared_key) nonce plain of
                  None \<Rightarrow> (None, set_rng r c)
                | Some enc \<Rightarrow>
                    if length enc \<noteq> COOKIE_RESPONSE_LENGTH - (1 + CRYPTO_NONCE_SIZE) then (None, set_rng r c)
                    else (Some (NET_PACKET_COOKIE_RESPONSE # nonce @ enc), set_rng r c))"

text \<open>The result is the plain request, the shared key and the key of the sender.\<close>

definition handle_cookie_request :: "host \<Rightarrow> Net_Crypto \<Rightarrow> bytes \<Rightarrow> ((bytes \<times> bytes \<times> bytes) option \<times> Net_Crypto) option" where
  "handle_cookie_request h c packet =
     (if length packet \<noteq> COOKIE_REQUEST_LENGTH then Some (None, c)
      else
        let dht_public_key = slice 1 CRYPTO_PUBLIC_KEY_SIZE packet;
            (tmp_shared_key, dht) = dht_get_shared_key_sent h (nc_dht c) dht_public_key;
            c = c\<lparr>nc_dht := dht\<rparr>
        in case tmp_shared_key of
             None \<Rightarrow> None
           | Some shared_key \<Rightarrow>
               (case decrypt_data_symmetric (plat h) (Some shared_key) (slice (1 + CRYPTO_PUBLIC_KEY_SIZE) CRYPTO_NONCE_SIZE packet)
                       (slice (1 + CRYPTO_PUBLIC_KEY_SIZE + CRYPTO_NONCE_SIZE) (COOKIE_REQUEST_PLAIN_LENGTH + CRYPTO_MAC_SIZE) packet) of
                  None \<Rightarrow> Some (None, c)
                | Some request_plain \<Rightarrow>
                    if length request_plain \<noteq> COOKIE_REQUEST_PLAIN_LENGTH then Some (None, c)
                    else Some (Some (request_plain, shared_key, dht_public_key), c)))"

definition udp_handle_cookie_request :: "host \<Rightarrow> Net_Crypto \<Rightarrow> IP_Port \<Rightarrow> bytes \<Rightarrow> (int \<times> Net_Crypto) option" where
  "udp_handle_cookie_request h c source packet =
     (case handle_cookie_request h c packet of
        None \<Rightarrow> None
      | Some (None, c) \<Rightarrow> Some (1, c)
      | Some (Some (request_plain, shared_key, dht_public_key), c) \<Rightarrow>
          (case create_cookie_response h c request_plain shared_key dht_public_key of
             (None, c) \<Rightarrow> Some (1, c)
           | (Some data, c) \<Rightarrow>
               if length data \<noteq> COOKIE_RESPONSE_LENGTH then Some (1, c)
               else
                 let (n, dht) = dht_send h (nc_dht c) source data;
                     c = c\<lparr>nc_dht := dht\<rparr>
                 in Some (if word_of_int n \<noteq> (of_nat (length data) :: u32) then 1 else 0, c)))"

definition tcp_handle_cookie_request :: "host \<Rightarrow> tcp_results \<Rightarrow> Net_Crypto \<Rightarrow> u32 \<Rightarrow> bytes \<Rightarrow> (int \<times> Net_Crypto) option" where
  "tcp_handle_cookie_request h results c connections_number packet =
     (case handle_cookie_request h c packet of
        None \<Rightarrow> None
      | Some (None, c) \<Rightarrow> Some (- 1, c)
      | Some (Some (request_plain, shared_key, dht_public_key), c) \<Rightarrow>
          (case create_cookie_response h c request_plain shared_key dht_public_key of
             (None, c) \<Rightarrow> Some (- 1, c)
           | (Some data, c) \<Rightarrow>
               if length data \<noteq> COOKIE_RESPONSE_LENGTH then Some (- 1, c)
               else Some (tcp_call results (Tcp_send connections_number data) c)))"

definition tcp_oob_handle_cookie_request :: "host \<Rightarrow> tcp_results \<Rightarrow> Net_Crypto \<Rightarrow> u32 \<Rightarrow> bytes \<Rightarrow> bytes \<Rightarrow> (int \<times> Net_Crypto) option" where
  "tcp_oob_handle_cookie_request h results c tcp_connections_number dht_public_key packet =
     (case handle_cookie_request h c packet of
        None \<Rightarrow> None
      | Some (None, c) \<Rightarrow> Some (- 1, c)
      | Some (Some (request_plain, shared_key, dht_public_key_temp), c) \<Rightarrow>
          if \<not> pk_equal dht_public_key dht_public_key_temp then Some (- 1, c)
          else
            (case create_cookie_response h c request_plain shared_key dht_public_key of
               (None, c) \<Rightarrow> Some (- 1, c)
             | (Some data, c) \<Rightarrow>
                 if length data \<noteq> COOKIE_RESPONSE_LENGTH then Some (- 1, c)
                 else Some (tcp_call results (Tcp_oob tcp_connections_number dht_public_key data) c)))"

text \<open>The result is the cookie and the number of the request.\<close>

definition handle_cookie_response :: "platform \<Rightarrow> bytes \<Rightarrow> bytes \<Rightarrow> (bytes \<times> u64) option" where
  "handle_cookie_response P packet shared_key =
     (if length packet \<noteq> COOKIE_RESPONSE_LENGTH then None
      else case decrypt_data_symmetric P (Some shared_key) (slice 1 CRYPTO_NONCE_SIZE packet)
                  (slice (1 + CRYPTO_NONCE_SIZE) (length packet - (1 + CRYPTO_NONCE_SIZE)) packet) of
          None \<Rightarrow> None
        | Some plain \<Rightarrow>
            if length plain \<noteq> COOKIE_LENGTH + 8 then None
            else Some (take COOKIE_LENGTH plain, host_word (drop COOKIE_LENGTH plain)))"

section \<open>Handshake packets\<close>

text \<open>\<open>stack\<close> is the memory the shared key is computed in.\<close>

definition create_crypto_handshake ::
  "host \<Rightarrow> bytes \<Rightarrow> Net_Crypto \<Rightarrow> bytes \<Rightarrow> bytes \<Rightarrow> bytes \<Rightarrow> bytes \<Rightarrow> bytes \<Rightarrow> bytes option \<times> Net_Crypto" where
  "create_crypto_handshake h stack c cookie nonce session_pk peer_real_pk peer_dht_pubkey =
     (let cookie_plain = take CRYPTO_PUBLIC_KEY_SIZE peer_real_pk @ take CRYPTO_PUBLIC_KEY_SIZE peer_dht_pubkey;
          (new_cookie, r) = create_cookie (plat h) (rng (nc_dht c)) (dht_mono_time (nc_dht c)) cookie_plain (secret_symmetric_key c)
      in case new_cookie of
           None \<Rightarrow> (None, set_rng r c)
         | Some new_cookie \<Rightarrow>
             let plain = take CRYPTO_NONCE_SIZE nonce @ take CRYPTO_PUBLIC_KEY_SIZE session_pk @
                         crypto_sha512 (plat h) (take COOKIE_LENGTH cookie) @ new_cookie;
                 (n, r) = random_nonce r
             in case encrypt_data (plat h) stack peer_real_pk (nc_self_secret_key c) n plain of
                  None \<Rightarrow> (None, set_rng r c)
                | Some enc \<Rightarrow>
                    if length enc \<noteq> HANDSHAKE_PACKET_LENGTH - (1 + COOKIE_LENGTH + CRYPTO_NONCE_SIZE) then (None, set_rng r c)
                    else (Some (NET_PACKET_CRYPTO_HS # take COOKIE_LENGTH cookie @ n @ enc), set_rng r c))"

text \<open>The result is the nonce, the session key, the real key and the DHT key of the peer, and its cookie.\<close>

definition handle_crypto_handshake ::
  "host \<Rightarrow> bytes \<Rightarrow> Net_Crypto \<Rightarrow> bytes \<Rightarrow> bytes option \<Rightarrow> (bytes \<times> bytes \<times> bytes \<times> bytes \<times> bytes) option" where
  "handle_crypto_handshake h stack c packet expected_real_pk =
     (if length packet \<noteq> HANDSHAKE_PACKET_LENGTH then None
      else case open_cookie (plat h) (dht_mono_time (nc_dht c)) (drop 1 packet) (secret_symmetric_key c) of
          None \<Rightarrow> None
        | Some cookie_plain \<Rightarrow>
            if expected_real_pk \<noteq> None \<and> \<not> pk_equal cookie_plain (the expected_real_pk) then None
            else
              let cookie_hash = crypto_sha512 (plat h) (slice 1 COOKIE_LENGTH packet)
              in case decrypt_data (plat h) stack (take CRYPTO_PUBLIC_KEY_SIZE cookie_plain) (nc_self_secret_key c) (slice (1 + COOKIE_LENGTH) CRYPTO_NONCE_SIZE packet)
                        (slice (1 + COOKIE_LENGTH + CRYPTO_NONCE_SIZE)
                           (HANDSHAKE_PACKET_LENGTH - (1 + COOKIE_LENGTH + CRYPTO_NONCE_SIZE)) packet) of
                   None \<Rightarrow> None
                 | Some plain \<Rightarrow>
                     if length plain \<noteq> CRYPTO_NONCE_SIZE + CRYPTO_PUBLIC_KEY_SIZE + CRYPTO_SHA512_SIZE + COOKIE_LENGTH then None
                     else if \<not> crypto_sha512_eq cookie_hash (drop (CRYPTO_NONCE_SIZE + CRYPTO_PUBLIC_KEY_SIZE) plain) then None
                     else Some (take CRYPTO_NONCE_SIZE plain, slice CRYPTO_NONCE_SIZE CRYPTO_PUBLIC_KEY_SIZE plain,
                            take CRYPTO_PUBLIC_KEY_SIZE cookie_plain, slice CRYPTO_PUBLIC_KEY_SIZE CRYPTO_PUBLIC_KEY_SIZE cookie_plain,
                            drop (CRYPTO_NONCE_SIZE + CRYPTO_PUBLIC_KEY_SIZE + CRYPTO_SHA512_SIZE) plain))"

section \<open>Contracts\<close>

text \<open>What the handshake relies on besides encryption: hashes have 64 bytes.\<close>

locale hash_platform = box_platform +
  assumes sha512_length: "length (crypto_hash_sha512 P d) = 64"
begin

lemma sha512_64: "length (crypto_sha512 P d) = 64"
  by (simp add: crypto_sha512_def sha512_length)

end

interpretation xor_hash: hash_platform xor_platform
proof (intro hash_platform.intro hash_platform_axioms.intro xor_box_platform)
  show "length (crypto_hash_sha512 xor_platform d) = 64" for d
    by (simp add: xor_platform_def fuzz_platform_def)
qed

text \<open>The time a cookie is accepted: not before it was made and not more than 15 seconds later.\<close>

definition fresh :: "u64 \<Rightarrow> Mono_Time \<Rightarrow> bool" where
  "fresh made mt \<longleftrightarrow> \<not> (made + COOKIE_TIMEOUT < mono_time_get mt \<or> mono_time_get mt < made)"

lemma cookie_opens:
  assumes "box_platform P" "length bs = 64"
  shows "\<exists>cookie r'. create_cookie P r mt bs key = (Some cookie, r') \<and> length cookie = 112 \<and>
    (\<forall>mt' rest. open_cookie P mt' (cookie @ rest) key = (if fresh (mono_time_get mt) mt' then Some bs else None))"
proof -
  obtain nonce r' where nonce: "random_nonce r = (nonce, r')" by fastforce
  have n: "length nonce = 24" by (rule length_random_nonce [OF nonce])
  let ?contents = "host_bytes 8 (mono_time_get mt) @ bs"
  have "?contents \<noteq> []" using assms(2) by auto
  from box_platform.encrypt_decrypt [OF assms(1) this, of key nonce] obtain enc where
    enc: "encrypt_data_symmetric P (Some key) nonce ?contents = Some enc" "length enc = 88"
      "decrypt_data_symmetric P (Some key) nonce enc = Some ?contents"
    using assms(2) by auto
  have "create_cookie P r mt bs key = (Some (nonce @ enc), r')"
    using enc assms(2) by (simp add: create_cookie_def nonce size_defs)
  moreover have "open_cookie P mt' ((nonce @ enc) @ rest) key = (if fresh (mono_time_get mt) mt' then Some bs else None)" for mt' rest
    using enc n assms(2) by (simp add: open_cookie_def size_defs slice_def Let_def fresh_def wire_simps)
  ultimately show ?thesis using n enc(2) by (intro exI [of _ "nonce @ enc"] exI [of _ r']) simp
qed

lemma response_opens:
  assumes "box_platform (plat h)" "length plain = 72" "length dht_pk = 32"
  shows "\<exists>packet c' cookie. create_cookie_response h c plain k dht_pk = (Some packet, c') \<and> length packet = 161 \<and>
    handle_cookie_response (plat h) packet k = Some (cookie, host_word (drop 64 plain)) \<and> length cookie = 112 \<and>
    (\<exists>r. c' = set_rng r c) \<and>
    (\<forall>mt rest. fresh (mono_time_get (dht_mono_time (nc_dht c))) mt \<longrightarrow>
       open_cookie (plat h) mt (cookie @ rest) (secret_symmetric_key c) = Some (take 32 plain @ dht_pk))"
proof -
  let ?bs = "take 32 plain @ dht_pk"
  have len: "length ?bs = 64" using assms by simp
  from cookie_opens [OF assms(1) len, of "rng (nc_dht c)" "dht_mono_time (nc_dht c)" "secret_symmetric_key c"] obtain cookie r where
    cookie: "create_cookie (plat h) (rng (nc_dht c)) (dht_mono_time (nc_dht c)) ?bs (secret_symmetric_key c) = (Some cookie, r)"
      "length cookie = 112" "\<forall>mt' rest. open_cookie (plat h) mt' (cookie @ rest) (secret_symmetric_key c) =
        (if fresh (mono_time_get (dht_mono_time (nc_dht c))) mt' then Some ?bs else None)" by blast
  obtain nonce r' where nonce: "random_nonce r = (nonce, r')" by fastforce
  have n: "length nonce = 24" by (rule length_random_nonce [OF nonce])
  let ?plain = "cookie @ slice 64 8 plain"
  have "?plain \<noteq> []" using cookie(2) by auto
  from box_platform.encrypt_decrypt [OF assms(1) this, of k nonce] obtain enc where
    enc: "encrypt_data_symmetric (plat h) (Some k) nonce ?plain = Some enc" "length enc = 136"
      "decrypt_data_symmetric (plat h) (Some k) nonce enc = Some ?plain"
    using cookie(2) assms(2) by (auto simp: slice_def)
  let ?p = "NET_PACKET_COOKIE_RESPONSE # nonce @ enc"
  have sizes: "take CRYPTO_PUBLIC_KEY_SIZE plain = take 32 plain" "take CRYPTO_PUBLIC_KEY_SIZE dht_pk = dht_pk" "COOKIE_DATA_LENGTH = 64"
    "COOKIE_RESPONSE_LENGTH - (1 + CRYPTO_NONCE_SIZE) = 136" "COOKIE_RESPONSE_LENGTH = 161" "COOKIE_LENGTH = 112" "CRYPTO_NONCE_SIZE = 24"
    using assms(3) by (simp_all add: size_defs)
  have "create_cookie_response h c plain k dht_pk = (Some ?p, set_rng r' c)"
    unfolding create_cookie_response_def sizes cookie(1) Let_def prod.case option.case nonce enc(1) by (simp add: enc(2))
  moreover have "slice 1 24 ?p = nonce" "slice 25 136 ?p = enc" using n enc(2) by (simp_all add: slice_def)
  then have "handle_cookie_response (plat h) ?p k = Some (cookie, host_word (drop 64 plain))"
    using enc n cookie(2) assms(2) by (simp add: handle_cookie_response_def sizes slice_def)
  ultimately show ?thesis using cookie(2,3) n enc(2) by (intro exI [of _ ?p] exI [of _ "set_rng r' c"] exI [of _ cookie]) auto
qed

lemma request_opens:
  assumes "box_platform P" "plat ha = P" "plat hb = P" "dht_inv ha (nc_dht a)" "dht_inv hb (nc_dht b)" "length (nc_self_public_key a) = 32"
    and "encrypt_precompute P (self_public_key (nc_dht b)) (dht_self_secret_key (nc_dht a)) = Some k"
      "encrypt_precompute P (self_public_key (nc_dht a)) (dht_self_secret_key (nc_dht b)) = Some k"
  shows "\<exists>request a' b'. create_cookie_request ha a (self_public_key (nc_dht b)) number = Some (Some request, k, a') \<and>
    handle_cookie_request hb b request =
      Some (Some (nc_self_public_key a @ replicate 32 0 @ host_bytes 8 number, k, self_public_key (nc_dht a)), b') \<and>
    (\<exists>d. a' = a\<lparr>nc_dht := d\<rparr> \<and> only_sends ha (nc_dht a) d) \<and> (\<exists>d. b' = b\<lparr>nc_dht := d\<rparr> \<and> only_sends hb (nc_dht b) d)"
proof -
  have keys: "length (self_public_key (nc_dht a)) = 32" "length (self_public_key (nc_dht b)) = 32"
    using assms(4,5) by (simp_all add: dht_inv_self)
  let ?plain = "nc_self_public_key a @ replicate 32 0 @ host_bytes 8 number"
  obtain ka da where la: "dht_get_shared_key_sent ha (nc_dht a) (self_public_key (nc_dht b)) = (ka, da)" by fastforce
  note sa = shared_key_sent [OF dht_inv_caches [OF assms(4)] keys(2) la]
  obtain ca where da: "da = (nc_dht a)\<lparr>shared_keys_sent := ca\<rparr>" and cka: "caches_ok ha da" using sa(2) by blast
  have ka: "ka = Some k" using sa(1) assms(2,7) by simp
  obtain kb db where lb: "dht_get_shared_key_sent hb (nc_dht b) (self_public_key (nc_dht a)) = (kb, db)" by fastforce
  note sb = shared_key_sent [OF dht_inv_caches [OF assms(5)] keys(1) lb]
  obtain cb where db: "db = (nc_dht b)\<lparr>shared_keys_sent := cb\<rparr>" and ckb: "caches_ok hb db" using sb(2) by blast
  have kb: "kb = Some k" using sb(1) assms(3,8) by simp
  obtain nonce r where nonce: "random_nonce (rng da) = (nonce, r)" by fastforce
  have n: "length nonce = 24" by (rule length_random_nonce [OF nonce])
  have "?plain \<noteq> []" using assms(6) by auto
  from box_platform.encrypt_decrypt [OF assms(1) this, of k nonce] obtain enc where
    enc: "encrypt_data_symmetric P (Some k) nonce ?plain = Some enc" "length enc = 88"
      "decrypt_data_symmetric P (Some k) nonce enc = Some ?plain" using assms(6) by auto
  let ?req = "NET_PACKET_COOKIE_REQUEST # self_public_key (nc_dht a) @ nonce @ enc"
  have sizes: "COOKIE_REQUEST_PLAIN_LENGTH + CRYPTO_MAC_SIZE = 88" "COOKIE_REQUEST_LENGTH = 145" "COOKIE_REQUEST_PLAIN_LENGTH = 72"
    "take CRYPTO_PUBLIC_KEY_SIZE (nc_self_public_key a) = nc_self_public_key a" "replicate CRYPTO_PUBLIC_KEY_SIZE (0 :: byte) = replicate 32 0"
    "take CRYPTO_PUBLIC_KEY_SIZE (self_public_key (nc_dht a)) = self_public_key (nc_dht a)"
    using assms(6) keys by (simp_all add: size_defs)
  have "create_cookie_request ha a (self_public_key (nc_dht b)) number = Some (Some ?req, k, a\<lparr>nc_dht := da\<lparr>rng := r\<rparr>\<rparr>)"
    unfolding create_cookie_request_def Let_def la prod.case ka option.case nonce assms(2) sizes(4,5) enc(1) sizes(1)
    using enc(2) sizes(6) by (simp add: da)
  moreover have parts: "slice 1 CRYPTO_PUBLIC_KEY_SIZE ?req = self_public_key (nc_dht a)"
    "slice (1 + CRYPTO_PUBLIC_KEY_SIZE) CRYPTO_NONCE_SIZE ?req = nonce"
    "slice (1 + CRYPTO_PUBLIC_KEY_SIZE + CRYPTO_NONCE_SIZE) 88 ?req = enc"
    using dht_packet_parts [OF keys(1) n] enc(2) by simp_all
  have "handle_cookie_request hb b ?req = Some (Some (?plain, k, self_public_key (nc_dht a)), b\<lparr>nc_dht := db\<rparr>)"
    unfolding handle_cookie_request_def Let_def parts(1,2) lb prod.case kb option.case sizes(1) parts(3) assms(3) enc(3) sizes(2)
    using keys(1) n enc(2) assms(6) sizes(3) by simp
  moreover have "only_sends ha (nc_dht a) (da\<lparr>rng := r\<rparr>)" "only_sends hb (nc_dht b) db"
    using cka ckb by (simp_all add: da db only_sends_def)
  ultimately show ?thesis by blast
qed

lemma handshake_opens:
  assumes "hash_platform P" "plat ha = P" "plat hb = P"
    and "encrypt_precompute P real_b (nc_self_secret_key a) = Some k" "encrypt_precompute P real_a (nc_self_secret_key b) = Some k"
    and len: "length real_a = 32" "length real_b = 32" "length dht_a = 32" "length dht_b = 32" "length cookie = 112"
      "length nonce = 24" "length session_pk = 32"
    and cookie: "\<And>rest. open_cookie P (dht_mono_time (nc_dht b)) (cookie @ rest) (secret_symmetric_key b) = Some (real_a @ dht_a)"
    and expected: "expected \<in> {None, Some real_a}"
  shows "\<exists>packet a' cookie_a. create_crypto_handshake ha stack a cookie nonce session_pk real_b dht_b = (Some packet, a') \<and>
    handle_crypto_handshake hb stack' b packet expected = Some (nonce, session_pk, real_a, dht_a, cookie_a) \<and>
    length cookie_a = 112 \<and> (\<exists>r. a' = set_rng r a) \<and> length packet = 385 \<and>
    (\<forall>mt rest. fresh (mono_time_get (dht_mono_time (nc_dht a))) mt \<longrightarrow>
       open_cookie P mt (cookie_a @ rest) (secret_symmetric_key a) = Some (real_b @ dht_b))"
proof -
  have box: "box_platform P" using assms(1) by (simp add: hash_platform_def)
  let ?bs = "real_b @ dht_b" and ?hash = "crypto_sha512 P cookie"
  have h64: "length ?hash = 64" by (rule hash_platform.sha512_64 [OF assms(1)])
  from cookie_opens [OF box, of ?bs "rng (nc_dht a)" "dht_mono_time (nc_dht a)" "secret_symmetric_key a"] len(2,4) obtain ca r where
    ca: "create_cookie P (rng (nc_dht a)) (dht_mono_time (nc_dht a)) ?bs (secret_symmetric_key a) = (Some ca, r)" "length ca = 112"
      "\<forall>mt' rest. open_cookie P mt' (ca @ rest) (secret_symmetric_key a) =
        (if fresh (mono_time_get (dht_mono_time (nc_dht a))) mt' then Some ?bs else None)" by auto
  obtain n r' where n: "random_nonce r = (n, r')" by fastforce
  have n24: "length n = 24" by (rule length_random_nonce [OF n])
  let ?plain = "nonce @ session_pk @ ?hash @ ca"
  have "?plain \<noteq> []" using len by auto
  from box_platform.encrypt_decrypt [OF box this, of k n] obtain enc where
    enc: "encrypt_data_symmetric P (Some k) n ?plain = Some enc" "length enc = 248" "decrypt_data_symmetric P (Some k) n enc = Some ?plain"
    using len h64 ca(2) by auto
  have sizes: "take CRYPTO_PUBLIC_KEY_SIZE real_b @ take CRYPTO_PUBLIC_KEY_SIZE dht_b = ?bs" "take CRYPTO_NONCE_SIZE nonce = nonce"
    "take CRYPTO_PUBLIC_KEY_SIZE session_pk = session_pk" "take COOKIE_LENGTH cookie = cookie"
    "HANDSHAKE_PACKET_LENGTH - (1 + COOKIE_LENGTH + CRYPTO_NONCE_SIZE) = 248" "HANDSHAKE_PACKET_LENGTH = 385"
    "CRYPTO_NONCE_SIZE + CRYPTO_PUBLIC_KEY_SIZE + CRYPTO_SHA512_SIZE + COOKIE_LENGTH = 232" "CRYPTO_NONCE_SIZE + CRYPTO_PUBLIC_KEY_SIZE = 56"
    "COOKIE_LENGTH = 112" "CRYPTO_NONCE_SIZE = 24" "CRYPTO_PUBLIC_KEY_SIZE = 32" "CRYPTO_SHA512_SIZE = 64"
    using len by (simp_all add: size_defs)
  let ?p = "NET_PACKET_CRYPTO_HS # cookie @ n @ enc"
  have e: "encrypt_data P stack real_b (nc_self_secret_key a) n ?plain = Some enc" using assms(4) enc(1) by (simp add: encrypt_data_def)
  have "create_crypto_handshake ha stack a cookie nonce session_pk real_b dht_b = (Some ?p, set_rng r' a)"
    unfolding create_crypto_handshake_def assms(2) sizes(1-5) ca(1) Let_def prod.case option.case n e by (simp add: enc(2))
  moreover have parts: "slice 1 112 ?p = cookie" "slice (1 + 112) 24 ?p = n" "slice (1 + 112 + 24) 248 ?p = enc" "drop 1 ?p = cookie @ n @ enc"
    using len n24 enc(2) by (simp_all add: slice_def)
  have d: "decrypt_data P stack' real_a (nc_self_secret_key b) n enc = Some ?plain" using assms(5) enc(3) by (simp add: decrypt_data_def)
  have tk: "take 32 (real_a @ dht_a) = real_a" "slice 32 32 (real_a @ dht_a) = dht_a" using len by (simp_all add: slice_def)
  have expd: "\<not> (expected \<noteq> None \<and> \<not> pk_equal (real_a @ dht_a) (the expected))"
    using expected len by (auto simp: pk_equal_def sizes memcmp_eq_0)
  have fields: "take 24 ?plain = nonce" "slice 24 32 ?plain = session_pk" "drop 56 ?plain = ?hash @ ca" "drop 120 ?plain = ca"
    using len h64 by (simp_all add: slice_def)
  have eq: "crypto_sha512_eq ?hash (?hash @ ca)" using h64 by (simp add: crypto_sha512_eq_def size_defs memcmp_eq_0)
  have "handle_crypto_handshake hb stack' b ?p expected = Some (nonce, session_pk, real_a, dht_a, ca)"
    unfolding handle_crypto_handshake_def assms(3) sizes(5,6) sizes(9-12) Let_def parts cookie option.case if_not_P [OF expd] tk d
    using len n24 enc(2) ca(2) h64 eq parts(3) d by (simp add: slice_def)
  ultimately show ?thesis
    using ca(2,3) len n24 enc(2) by (intro exI [of _ ?p] exI [of _ "set_rng r' a"] exI [of _ ca]) auto
qed

section \<open>Properties\<close>

text \<open>The state at a later time.\<close>

definition at_time :: "Mono_Time \<Rightarrow> Net_Crypto \<Rightarrow> Net_Crypto" where
  "at_time mt c = c\<lparr>nc_dht := (nc_dht c)\<lparr>dht_mono_time := mt\<rparr>\<rparr>"

lemma at_time_sel [simp]:
  "nc_self_secret_key (at_time mt c) = nc_self_secret_key c" "secret_symmetric_key (at_time mt c) = secret_symmetric_key c"
  "dht_mono_time (nc_dht (at_time mt c)) = mt" "self_public_key (nc_dht (at_time mt c)) = self_public_key (nc_dht c)"
  by (simp_all add: at_time_def)

lemma set_rng_sel [simp]:
  "nc_self_secret_key (set_rng r c) = nc_self_secret_key c" "secret_symmetric_key (set_rng r c) = secret_symmetric_key c"
  "dht_mono_time (nc_dht (set_rng r c)) = dht_mono_time (nc_dht c)" "self_public_key (nc_dht (set_rng r c)) = self_public_key (nc_dht c)"
  by (simp_all add: set_rng_def)

text \<open>C17: A complete handshake. Node \<open>a\<close> asks node \<open>b\<close> for a cookie, gets it with the number of its request, and
  sends a handshake with it at most 15 seconds after the cookie was made; \<open>b\<close> answers with the cookie of that
  handshake, also within 15 seconds. Then each side has the nonce and session key that the other chose, and the real
  and DHT keys of the other. \<open>b\<close> needs no state for \<open>a\<close> before the handshake of \<open>a\<close> arrives.\<close>

theorem handshake_agreement:
  assumes "hash_platform P" "plat ha = P" "plat hb = P" "dht_inv ha (nc_dht a)" "dht_inv hb (nc_dht b)"
    and "encrypt_precompute P (self_public_key (nc_dht b)) (dht_self_secret_key (nc_dht a)) = Some k"
      "encrypt_precompute P (self_public_key (nc_dht a)) (dht_self_secret_key (nc_dht b)) = Some k"
    and "encrypt_precompute P (nc_self_public_key b) (nc_self_secret_key a) = Some rk"
      "encrypt_precompute P (nc_self_public_key a) (nc_self_secret_key b) = Some rk"
    and len: "length (nc_self_public_key a) = 32" "length (nc_self_public_key b) = 32" "length nonce_a = 24" "length nonce_b = 24"
      "length session_a = 32" "length session_b = 32"
    and fresh: "fresh (mono_time_get (dht_mono_time (nc_dht b))) mtb" "fresh (mono_time_get mta) mta'"
    and "expected \<in> {None, Some (nc_self_public_key a)}"
  shows "\<exists>request a' plain b' response b'' cookie hs a'' cookie_a hs' b''' cookie_b.
    create_cookie_request ha a (self_public_key (nc_dht b)) number = Some (Some request, k, a') \<and>
    handle_cookie_request hb b request = Some (Some (plain, k, self_public_key (nc_dht a)), b') \<and>
    create_cookie_response hb b' plain k (self_public_key (nc_dht a)) = (Some response, b'') \<and>
    handle_cookie_response (plat ha) response k = Some (cookie, number) \<and>
    create_crypto_handshake ha stack (at_time mta a') cookie nonce_a session_a (nc_self_public_key b) (self_public_key (nc_dht b)) =
      (Some hs, a'') \<and>
    handle_crypto_handshake hb stack' (at_time mtb b'') hs expected =
      Some (nonce_a, session_a, nc_self_public_key a, self_public_key (nc_dht a), cookie_a) \<and>
    create_crypto_handshake hb stack (at_time mtb b'') cookie_a nonce_b session_b (nc_self_public_key a) (self_public_key (nc_dht a)) =
      (Some hs', b''') \<and>
    handle_crypto_handshake ha stack' (at_time mta' a'') hs' (Some (nc_self_public_key b)) =
      Some (nonce_b, session_b, nc_self_public_key b, self_public_key (nc_dht b), cookie_b)"
proof -
  have box: "box_platform (plat hb)" using assms(1,3) by (simp add: hash_platform_def)
  have keys: "length (self_public_key (nc_dht a)) = 32" "length (self_public_key (nc_dht b)) = 32"
    using assms(4,5) by (simp_all add: dht_inv_self)
  let ?plain = "nc_self_public_key a @ replicate 32 0 @ host_bytes 8 number"
  obtain request a' b' da db where req: "create_cookie_request ha a (self_public_key (nc_dht b)) number = Some (Some request, k, a')"
      "handle_cookie_request hb b request = Some (Some (?plain, k, self_public_key (nc_dht a)), b')"
    and a': "a' = a\<lparr>nc_dht := da\<rparr>" "only_sends ha (nc_dht a) da" and b': "b' = b\<lparr>nc_dht := db\<rparr>" "only_sends hb (nc_dht b) db"
    using request_opens [OF box [unfolded assms(3)] assms(2-5) len(1) assms(6,7), of number] by blast
  obtain response b'' cookie r where resp: "create_cookie_response hb b' ?plain k (self_public_key (nc_dht a)) = (Some response, b'')"
      "handle_cookie_response (plat hb) response k = Some (cookie, host_word (drop 64 ?plain))" "length cookie = 112" "b'' = set_rng r b'"
      "\<forall>mt rest. fresh (mono_time_get (dht_mono_time (nc_dht b'))) mt \<longrightarrow>
        open_cookie (plat hb) mt (cookie @ rest) (secret_symmetric_key b') = Some (take 32 ?plain @ self_public_key (nc_dht a))"
    using response_opens [OF box, of ?plain "self_public_key (nc_dht a)" b' k] len(1) keys(1) by auto
  have number: "host_word (drop 64 ?plain) = number" and real: "take 32 ?plain = nc_self_public_key a"
    using len(1) by (simp_all add: wire_simps)
  have opens: "open_cookie P (dht_mono_time (nc_dht (at_time mtb b''))) (cookie @ rest) (secret_symmetric_key (at_time mtb b'')) =
      Some (nc_self_public_key a @ self_public_key (nc_dht a))" for rest
    using resp(5) fresh(1) only_sends_fields(1) [OF b'(2)] real assms(3) by (simp add: resp(4) b'(1))
  note h1 = handshake_opens [OF assms(1-3), of "nc_self_public_key b" "at_time mta a'" rk "nc_self_public_key a" "at_time mtb b''"
      "self_public_key (nc_dht a)" "self_public_key (nc_dht b)" cookie nonce_a session_a expected stack stack']
  obtain hs a'' cookie_a r2 where hs: "create_crypto_handshake ha stack (at_time mta a') cookie nonce_a session_a (nc_self_public_key b)
        (self_public_key (nc_dht b)) = (Some hs, a'')"
      "handle_crypto_handshake hb stack' (at_time mtb b'') hs expected =
        Some (nonce_a, session_a, nc_self_public_key a, self_public_key (nc_dht a), cookie_a)"
      "length cookie_a = 112" "a'' = set_rng r2 (at_time mta a')"
      "\<forall>mt rest. fresh (mono_time_get mta) mt \<longrightarrow> open_cookie P mt (cookie_a @ rest) (secret_symmetric_key (at_time mta a')) =
        Some (nc_self_public_key b @ self_public_key (nc_dht b))"
    using h1 [OF _ _ len(1,2) keys resp(3) len(3,5) opens assms(18)] assms(8,9) by (auto simp: a' b' resp(4))
  have opens': "open_cookie P (dht_mono_time (nc_dht (at_time mta' a''))) (cookie_a @ rest) (secret_symmetric_key (at_time mta' a'')) =
      Some (nc_self_public_key b @ self_public_key (nc_dht b))" for rest
    using hs(5) fresh(2) by (simp add: hs(4))
  obtain hs' b''' cookie_b where "create_crypto_handshake hb stack (at_time mtb b'') cookie_a nonce_b session_b (nc_self_public_key a)
        (self_public_key (nc_dht a)) = (Some hs', b''')"
      "handle_crypto_handshake ha stack' (at_time mta' a'') hs' (Some (nc_self_public_key b)) =
        Some (nonce_b, session_b, nc_self_public_key b, self_public_key (nc_dht b), cookie_b)"
    using handshake_opens [OF assms(1,3,2), of "nc_self_public_key a" "at_time mtb b''" rk "nc_self_public_key b" "at_time mta' a''"
      "self_public_key (nc_dht b)" "self_public_key (nc_dht a)" cookie_a nonce_b session_b "Some (nc_self_public_key b)" stack stack',
      OF _ _ len(2,1) keys(2,1) hs(3) len(4,6) opens'] assms(8,9) by (auto simp: a' b' resp(4) hs(4))
  with req resp hs number assms(2,3) show ?thesis by auto
qed

text \<open>A node whose long-term keys and DHT keys have equal halves.\<close>

definition example_net_crypto :: "byte \<Rightarrow> Net_Crypto" where
  "example_net_crypto k =
     \<lparr>nc_dht = example_node_dht k, nc_calls = [], crypto_connections = [], nc_self_public_key = replicate 32 k,
      nc_self_secret_key = replicate 32 k, secret_symmetric_key = replicate 32 9, new_connection_callback = None,
      ip_port_list = \<lparr>bs_n = 0, bs_capacity = 0, bs_element_size = 32, bs_data = [], bs_ids = []\<rparr>\<rparr>"

theorem handshake_agreement_witness:
  "\<exists>request a' plain b' response b'' cookie hs a'' cookie_a hs' b''' cookie_b.
    create_cookie_request xor_host (example_net_crypto 5) (replicate 32 6) 7 = Some (Some request, replicate 32 3, a') \<and>
    handle_cookie_request xor_host (example_net_crypto 6) request = Some (Some (plain, replicate 32 3, replicate 32 5), b') \<and>
    create_cookie_response xor_host b' plain (replicate 32 3) (replicate 32 5) = (Some response, b'') \<and>
    handle_cookie_response xor_platform response (replicate 32 3) = Some (cookie, 7) \<and>
    create_crypto_handshake xor_host [] (at_time example_time a') cookie (replicate 24 1) (replicate 32 2) (replicate 32 6) (replicate 32 6) =
      (Some hs, a'') \<and>
    handle_crypto_handshake xor_host [] (at_time example_time b'') hs None =
      Some (replicate 24 1, replicate 32 2, replicate 32 5, replicate 32 5, cookie_a) \<and>
    create_crypto_handshake xor_host [] (at_time example_time b'') cookie_a (replicate 24 3) (replicate 32 4) (replicate 32 5) (replicate 32 5) =
      (Some hs', b''') \<and>
    handle_crypto_handshake xor_host [] (at_time example_time a'') hs' (Some (replicate 32 6)) =
      Some (replicate 24 3, replicate 32 4, replicate 32 6, replicate 32 6, cookie_b)"
proof -
  let ?a = "example_net_crypto 5" and ?b = "example_net_crypto 6"
  have sel: "nc_dht ?a = example_node_dht 5" "nc_dht ?b = example_node_dht 6" "nc_self_public_key ?a = replicate 32 5"
    "nc_self_public_key ?b = replicate 32 6" "nc_self_secret_key ?a = replicate 32 5" "nc_self_secret_key ?b = replicate 32 6"
    by (simp_all add: example_net_crypto_def)
  have "fresh (mono_time_get example_time) example_time" by code_simp
  then show ?thesis
    using handshake_agreement [OF xor_hash.hash_platform_axioms plat_xor_host plat_xor_host, of ?a ?b "replicate 32 3" "replicate 32 3"
      "replicate 24 1" "replicate 24 3" "replicate 32 2" "replicate 32 4" example_time example_time example_time None 7 "[]" "[]"]
    unfolding sel example_node_dht(2,3,5) plat_xor_host using example_node_dht(1) [of xor_host] example_exchange by auto
qed

text \<open>C35: A cookie request decides by its sender key whether its handler survives: whatever else the packet holds, if the platform finds no
  shared key for that key (libsodium rejects keys of small order) the handler copies the shared key from a null pointer, and
  otherwise it returns.\<close>

theorem cookie_request_null_key:
  assumes "dht_inv h (nc_dht c)" "length packet = COOKIE_REQUEST_LENGTH"
  shows "handle_cookie_request h c packet = None \<longleftrightarrow>
    encrypt_precompute (plat h) (slice 1 CRYPTO_PUBLIC_KEY_SIZE packet) (dht_self_secret_key (nc_dht c)) = None"
proof -
  let ?pk = "slice 1 CRYPTO_PUBLIC_KEY_SIZE packet"
  have "length ?pk = 32" using assms(2) by (simp add: slice_def size_defs)
  moreover obtain k d where l: "dht_get_shared_key_sent h (nc_dht c) ?pk = (k, d)" by fastforce
  ultimately have "k = encrypt_precompute (plat h) ?pk (dht_self_secret_key (nc_dht c))"
    using shared_key_sent(1) [OF dht_inv_caches [OF assms(1)] _ l] by blast
  then show ?thesis
    unfolding handle_cookie_request_def Let_def l prod.case using assms(2) by (simp split: option.split)
qed

theorem cookie_request_null_key_witness:
  "handle_cookie_request (xor_host\<lparr>plat := xor_platform\<lparr>crypto_box_beforenm := \<lambda>_ _. None\<rparr>\<rparr>) (example_net_crypto 5) (replicate 145 0) = None"
proof -
  have "length (replicate 145 (0 :: byte)) = COOKIE_REQUEST_LENGTH" by (simp add: size_defs)
  then show ?thesis
    using cookie_request_null_key [of "xor_host\<lparr>plat := xor_platform\<lparr>crypto_box_beforenm := \<lambda>_ _. None\<rparr>\<rparr>" "example_net_crypto 5" "replicate 145 0"]
      example_node_dht(1) by (simp add: example_net_crypto_def encrypt_precompute_def)
qed

end
