(* ===== verification/Net_Crypto_Connection.thy ===== *)
theory Net_Crypto_Connection
  imports Net_Crypto_Handshake "HOL-Library.Monad_Syntax"
begin

text \<open>
  The connections of \<^verbatim>\<open>toxcore/net_crypto.c\<close>: their table, the addresses they are reached at, data packets in both
  directions, the state machine of a connection and the entry points for packets and for the clients of the
  module. The congestion control of \<^verbatim>\<open>send_crypto_packets\<close> computes with floating point numbers and is not modelled.

  An operation runs in an environment: the host, the clock in milliseconds, what the TCP connections answer, and the
  callbacks that the clients have registered, which may change the state again. A result of type \<open>option\<close> is \<open>None\<close> if
  the code does not return: it reads freed memory or a null pointer, or loops without end.
\<close>

section \<open>Environment\<close>

record nc_env =
  nh :: host
  clock_ms :: u64
  junk :: "byte \<times> int"
  stack_mem :: bytes
  tcp :: tcp_results
  tcp_relays :: "nc_call list \<Rightarrow> u32 \<Rightarrow> u32"
  on_status :: "nat \<times> nat \<times> int \<Rightarrow> bool \<Rightarrow> Net_Crypto \<Rightarrow> Net_Crypto"
  on_data :: "nat \<times> nat \<times> int \<Rightarrow> bytes \<Rightarrow> Net_Crypto \<Rightarrow> Net_Crypto"
  on_lossy :: "nat \<times> nat \<times> int \<Rightarrow> bytes \<Rightarrow> Net_Crypto \<Rightarrow> Net_Crypto"
  on_dht_pk :: "nat \<times> nat \<times> u32 \<Rightarrow> bytes \<Rightarrow> Net_Crypto \<Rightarrow> Net_Crypto"
  on_new :: "nat \<times> nat \<Rightarrow> New_Connection \<Rightarrow> Net_Crypto \<Rightarrow> int \<times> Net_Crypto"

definition MAX_CRYPTO_PACKET_SIZE :: nat where [size_defs]: "MAX_CRYPTO_PACKET_SIZE = 1400"
definition CRYPTO_DATA_PACKET_MIN_SIZE :: nat where [size_defs]: "CRYPTO_DATA_PACKET_MIN_SIZE = 1 + 2 + (4 + 4) + CRYPTO_MAC_SIZE"
definition MAX_CRYPTO_DATA_SIZE :: nat where [size_defs]: "MAX_CRYPTO_DATA_SIZE = MAX_CRYPTO_PACKET_SIZE - CRYPTO_DATA_PACKET_MIN_SIZE"
definition CRYPTO_MIN_PACKET_SIZE :: nat where [size_defs]: "CRYPTO_MIN_PACKET_SIZE = 1 + 2 + CRYPTO_MAC_SIZE"
definition CRYPTO_MAX_PADDING :: nat where [size_defs]: "CRYPTO_MAX_PADDING = 8"
definition CRYPTO_MIN_QUEUE_LENGTH :: u32 where [size_defs]: "CRYPTO_MIN_QUEUE_LENGTH = 64"
definition MAX_NUM_SENDPACKET_TRIES :: u32 where [size_defs]: "MAX_NUM_SENDPACKET_TRIES = 8"
definition UDP_DIRECT_TIMEOUT :: u64 where [size_defs]: "UDP_DIRECT_TIMEOUT = 8"
definition DEFAULT_PING_CONNECTION :: u64 where [size_defs]: "DEFAULT_PING_CONNECTION = 1000"
definition DEFAULT_TCP_PING_CONNECTION :: u64 where [size_defs]: "DEFAULT_TCP_PING_CONNECTION = 500"
definition DATA_NUM_THRESHOLD :: u16 where [size_defs]: "DATA_NUM_THRESHOLD = 21845"
definition PACKET_ID_RANGE_LOSSLESS_START :: byte where [size_defs]: "PACKET_ID_RANGE_LOSSLESS_START = 16"
definition PACKET_ID_RANGE_LOSSLESS_END :: byte where [size_defs]: "PACKET_ID_RANGE_LOSSLESS_END = 191"
definition PACKET_ID_RANGE_LOSSY_START :: byte where [size_defs]: "PACKET_ID_RANGE_LOSSY_START = 192"
definition PACKET_ID_RANGE_LOSSY_END :: byte where [size_defs]: "PACKET_ID_RANGE_LOSSY_END = 254"

text \<open>The sizes of a connection and of an address in memory on a 64-bit host.\<close>

definition sizeof_Crypto_Connection :: nat where [size_defs]: "sizeof_Crypto_Connection = 525352"
definition sizeof_IP_Port :: nat where [size_defs]: "sizeof_IP_Port = 32"

definition empty_packets_array :: Packets_Array where
  "empty_packets_array = \<lparr>buffer = \<lambda>_. None, buffer_start = 0, buffer_end = 0\<rparr>"

definition empty_crypto_connection :: Crypto_Connection where
  "empty_crypto_connection =
     \<lparr>cc_public_key = replicate 32 0, recv_nonce = replicate 24 0, sent_nonce = replicate 24 0,
      sessionpublic_key = replicate 32 0, sessionsecret_key = replicate 32 0, peersessionpublic_key = replicate 32 0,
      cc_shared_key = replicate 32 0, status = CRYPTO_CONN_FREE, cookie_request_number = 0,
      cc_dht_public_key = replicate 32 0, temp_packet = None, temp_packet_sent_time = 0, temp_packet_num_sent = 0,
      ip_portv4 = empty_ip_port, ip_portv6 = empty_ip_port, direct_lastrecv_timev4 = 0, direct_lastrecv_timev6 = 0,
      last_tcp_sent = 0, send_array = empty_packets_array, recv_array = empty_packets_array,
      connection_status_callback = None, connection_data_callback = None, connection_lossy_data_callback = None,
      last_request_packet_sent = 0, direct_send_attempt_time = 0, packet_counter = 0, packets_left = 0,
      packets_left_requested = 0, packets_sent = 0, rtt_time = 0, connection_number_tcp = 0,
      maximum_speed_reached = False, dht_pk_callback = None\<rparr>"

section \<open>Connections and their addresses\<close>

text \<open>The index of an \<^verbatim>\<open>int\<close> that is converted to \<^verbatim>\<open>uint32_t\<close>.\<close>

definition conn_index :: "int \<Rightarrow> nat" where
  "conn_index crypt_connection_id = unat (word_of_int crypt_connection_id :: u32)"

definition crypt_connection_id_is_valid :: "Net_Crypto \<Rightarrow> int \<Rightarrow> bool" where
  "crypt_connection_id_is_valid c crypt_connection_id =
     (if conn_index crypt_connection_id \<ge> length (crypto_connections c) then False
      else
        let s = status (crypto_connections c ! conn_index crypt_connection_id)
        in s \<noteq> CRYPTO_CONN_NO_CONNECTION \<and> s \<noteq> CRYPTO_CONN_FREE)"

definition get_crypto_connection :: "Net_Crypto \<Rightarrow> int \<Rightarrow> Crypto_Connection option" where
  "get_crypto_connection c crypt_connection_id =
     (if \<not> crypt_connection_id_is_valid c crypt_connection_id then None
      else Some (crypto_connections c ! conn_index crypt_connection_id))"

text \<open>Writing through a pointer to a connection, and reading through one that may have become invalid.\<close>

definition set_conn :: "int \<Rightarrow> (Crypto_Connection \<Rightarrow> Crypto_Connection) \<Rightarrow> Net_Crypto \<Rightarrow> Net_Crypto" where
  "set_conn crypt_connection_id f c =
     c\<lparr>crypto_connections := (crypto_connections c)[conn_index crypt_connection_id :=
         f (crypto_connections c ! conn_index crypt_connection_id)]\<rparr>"

definition conn_slot :: "Net_Crypto \<Rightarrow> int \<Rightarrow> Crypto_Connection option" where
  "conn_slot c crypt_connection_id =
     (if conn_index crypt_connection_id < length (crypto_connections c)
      then Some (crypto_connections c ! conn_index crypt_connection_id) else None)"

text \<open>The index of addresses holds the bytes of the structures in memory (\<open>ip_port_mem\<close>).\<close>

definition add_ip_port_connection :: "nc_env \<Rightarrow> Net_Crypto \<Rightarrow> int \<Rightarrow> IP_Port \<Rightarrow> (int \<times> Net_Crypto) option" where
  "add_ip_port_connection E c crypt_connection_id ip_port =
     (case get_crypto_connection c crypt_connection_id of
        None \<Rightarrow> Some (- 1, c)
      | Some conn \<Rightarrow>
          if net_family_is_ipv4 (family (ip ip_port)) then
            (if \<not> ipport_equal ip_port (ip_portv4 conn) \<and> \<not> ip_is_lan (ip (ip_portv4 conn)) then
               do {
                 (ok, l) \<leftarrow> bs_list_add (plat (nh E)) (junk E) (ip_port_list c) (ip_port_mem ip_port) crypt_connection_id;
                 if \<not> ok then Some (- 1, c\<lparr>ip_port_list := l\<rparr>)
                 else do {
                   (_, l) \<leftarrow> bs_list_remove (plat (nh E)) (junk E) l (ip_port_mem (ip_portv4 conn)) crypt_connection_id;
                   Some (0, set_conn crypt_connection_id (\<lambda>k. k\<lparr>ip_portv4 := ip_port\<rparr>) (c\<lparr>ip_port_list := l\<rparr>))
                 }
               }
             else Some (- 1, c))
          else if net_family_is_ipv6 (family (ip ip_port)) then
            (if \<not> ipport_equal ip_port (ip_portv6 conn) then
               do {
                 (ok, l) \<leftarrow> bs_list_add (plat (nh E)) (junk E) (ip_port_list c) (ip_port_mem ip_port) crypt_connection_id;
                 if \<not> ok then Some (- 1, c\<lparr>ip_port_list := l\<rparr>)
                 else do {
                   (_, l) \<leftarrow> bs_list_remove (plat (nh E)) (junk E) l (ip_port_mem (ip_portv6 conn)) crypt_connection_id;
                   Some (0, set_conn crypt_connection_id (\<lambda>k. k\<lparr>ip_portv6 := ip_port\<rparr>) (c\<lparr>ip_port_list := l\<rparr>))
                 }
               }
             else Some (- 1, c))
          else Some (- 1, c))"

definition return_ip_port_connection :: "Net_Crypto \<Rightarrow> int \<Rightarrow> IP_Port" where
  "return_ip_port_connection c crypt_connection_id =
     (case get_crypto_connection c crypt_connection_id of
        None \<Rightarrow> empty_ip_port
      | Some conn \<Rightarrow>
          let current_time = mono_time_get (dht_mono_time (nc_dht c));
              v4 = (UDP_DIRECT_TIMEOUT + direct_lastrecv_timev4 conn > current_time);
              v6 = (UDP_DIRECT_TIMEOUT + direct_lastrecv_timev6 conn > current_time)
          in if v4 \<and> ip_is_lan (ip (ip_portv4 conn)) then ip_portv4 conn
             else if v6 \<and> net_family_is_ipv6 (family (ip (ip_portv6 conn))) then ip_portv6 conn
             else if v4 \<and> net_family_is_ipv4 (family (ip (ip_portv4 conn))) then ip_portv4 conn
             else if ip_is_lan (ip (ip_portv4 conn)) then ip_portv4 conn
             else if net_family_is_ipv6 (family (ip (ip_portv6 conn))) then ip_portv6 conn
             else if net_family_is_ipv4 (family (ip (ip_portv4 conn))) then ip_portv4 conn
             else empty_ip_port)"

text \<open>The result is whether there is a direct connection, and the number of relays that are online.\<close>

definition crypto_connection_status :: "nc_env \<Rightarrow> Net_Crypto \<Rightarrow> int \<Rightarrow> (bool \<times> u32) option" where
  "crypto_connection_status E c crypt_connection_id =
     (case get_crypto_connection c crypt_connection_id of
        None \<Rightarrow> None
      | Some conn \<Rightarrow>
          let current_time = mono_time_get (dht_mono_time (nc_dht c));
              direct_connected =
                (if UDP_DIRECT_TIMEOUT + direct_lastrecv_timev4 conn > current_time then True
                 else if UDP_DIRECT_TIMEOUT + direct_lastrecv_timev6 conn > current_time then True
                 else False)
          in Some (direct_connected, tcp_relays E (nc_calls c) (connection_number_tcp conn)))"

text \<open>Sending over UDP through the socket of the DHT.\<close>

definition nc_sendpacket :: "nc_env \<Rightarrow> IP_Port \<Rightarrow> bytes \<Rightarrow> Net_Crypto \<Rightarrow> int \<times> Net_Crypto" where
  "nc_sendpacket E ip_port data c =
     (case dht_send (nh E) (nc_dht c) ip_port data of (n, dht) \<Rightarrow> (n, c\<lparr>nc_dht := dht\<rparr>))"

text \<open>The second half of \<^verbatim>\<open>send_packet_to\<close>: the packet goes to the relays.\<close>

definition send_packet_relays :: "nc_env \<Rightarrow> Net_Crypto \<Rightarrow> int \<Rightarrow> bytes \<Rightarrow> bool \<Rightarrow> int \<times> Net_Crypto" where
  "send_packet_relays E c crypt_connection_id data direct_send_attempt =
     (let (ret, c) = tcp_call (tcp E) (Tcp_send (connection_number_tcp (crypto_connections c ! conn_index crypt_connection_id)) data) c;
          c = (if ret = 0 then set_conn crypt_connection_id (\<lambda>k. k\<lparr>last_tcp_sent := clock_ms E\<rparr>) c else c)
      in (if direct_send_attempt then 0 else ret, c))"

definition send_packet_to :: "nc_env \<Rightarrow> Net_Crypto \<Rightarrow> int \<Rightarrow> bytes \<Rightarrow> int \<times> Net_Crypto" where
  "send_packet_to E c crypt_connection_id data =
     (case get_crypto_connection c crypt_connection_id of
        None \<Rightarrow> (- 1, c)
      | Some conn \<Rightarrow>
          let ip_port = return_ip_port_connection c crypt_connection_id in
          if net_family_is_unspec (family (ip ip_port)) then send_packet_relays E c crypt_connection_id data False
          else if (case crypto_connection_status E c crypt_connection_id of None \<Rightarrow> False | Some (direct_connected, _) \<Rightarrow> direct_connected) then
            (let (n, c) = nc_sendpacket E ip_port data c
             in (if word_of_int n = (of_nat (length data) :: u32) then 0 else - 1, c))
          else
            let current_time = mono_time_get (dht_mono_time (nc_dht c)) in
            if (UDP_DIRECT_TIMEOUT div 2 + direct_send_attempt_time conn < current_time \<and> length data < 96) \<or>
               hd data = NET_PACKET_COOKIE_REQUEST \<or> hd data = NET_PACKET_CRYPTO_HS then
              (let (n, c) = nc_sendpacket E ip_port data c
               in if word_of_int n = (of_nat (length data) :: u32)
                  then send_packet_relays E (set_conn crypt_connection_id (\<lambda>k. k\<lparr>direct_send_attempt_time := current_time\<rparr>) c)
                         crypt_connection_id data True
                  else send_packet_relays E c crypt_connection_id data False)
            else send_packet_relays E c crypt_connection_id data False)"

section \<open>Data packets\<close>

definition send_data_packet :: "nc_env \<Rightarrow> Net_Crypto \<Rightarrow> int \<Rightarrow> bytes \<Rightarrow> int \<times> Net_Crypto" where
  "send_data_packet E c crypt_connection_id data =
     (let max_length = MAX_CRYPTO_PACKET_SIZE - (1 + 2 + CRYPTO_MAC_SIZE) in
      if length data = 0 \<or> length data > max_length then (- 1, c)
      else case get_crypto_connection c crypt_connection_id of
          None \<Rightarrow> (- 1, c)
        | Some conn \<Rightarrow>
            let packet_size = 1 + 2 + length data + CRYPTO_MAC_SIZE in
            (case encrypt_data_symmetric (plat (nh E)) (Some (cc_shared_key conn)) (sent_nonce conn) data of
               None \<Rightarrow> (- 1, c)
             | Some enc \<Rightarrow>
                 if length enc + 1 + 2 \<noteq> packet_size then (- 1, c)
                 else
                   let packet = NET_PACKET_CRYPTO_DATA # slice (CRYPTO_NONCE_SIZE - 2) 2 (sent_nonce conn) @ enc;
                       c = set_conn crypt_connection_id (\<lambda>k. k\<lparr>sent_nonce := increment_nonce (sent_nonce k)\<rparr>) c
                   in send_packet_to E c crypt_connection_id packet))"

definition send_data_packet_helper :: "nc_env \<Rightarrow> Net_Crypto \<Rightarrow> int \<Rightarrow> u32 \<Rightarrow> u32 \<Rightarrow> bytes \<Rightarrow> int \<times> Net_Crypto" where
  "send_data_packet_helper E c crypt_connection_id start num data =
     (if length data = 0 \<or> length data > MAX_CRYPTO_DATA_SIZE then (- 1, c)
      else
        let padding_length = (MAX_CRYPTO_DATA_SIZE - length data) mod CRYPTO_MAX_PADDING;
            packet = host_bytes 4 (net_htonl start) @ host_bytes 4 (net_htonl num) @
              replicate padding_length PACKET_ID_PADDING @ data
        in send_data_packet E c crypt_connection_id packet)"

text \<open>The bytes a stored packet holds, and the update of a stored packet through the pointer from \<^verbatim>\<open>get_data_pointer\<close>.\<close>

definition packet_bytes :: "Packet_Data \<Rightarrow> bytes" where
  "packet_bytes dt = take (unat (pd_length dt)) (pd_data dt)"

definition set_sent_time :: "u64 \<Rightarrow> u32 \<Rightarrow> Packet_Data \<Rightarrow> Crypto_Connection \<Rightarrow> Crypto_Connection" where
  "set_sent_time t num dt k = k\<lparr>send_array := set_slot (slot num) (Some (dt\<lparr>sent_time := t\<rparr>)) (send_array k)\<rparr>"

definition reset_max_speed_reached :: "nc_env \<Rightarrow> Net_Crypto \<Rightarrow> int \<Rightarrow> int \<times> Net_Crypto" where
  "reset_max_speed_reached E c crypt_connection_id =
     (case get_crypto_connection c crypt_connection_id of
        None \<Rightarrow> (- 1, c)
      | Some conn \<Rightarrow>
          if maximum_speed_reached conn then
            let packet_num = buffer_end (send_array conn) - 1;
                reset = set_conn crypt_connection_id (\<lambda>k. k\<lparr>maximum_speed_reached := False\<rparr>)
            in case get_data_pointer (send_array conn) packet_num of
                 (_, None) \<Rightarrow> (0, reset c)
               | (ret, Some dt) \<Rightarrow>
                   if ret = 1 \<and> sent_time dt = 0 then
                     (case send_data_packet_helper E c crypt_connection_id (buffer_start (recv_array conn)) packet_num (packet_bytes dt) of
                        (res, c) \<Rightarrow>
                          if res \<noteq> 0 then (- 1, c)
                          else (0, reset (set_conn crypt_connection_id (set_sent_time (clock_ms E) packet_num dt) c)))
                   else (0, reset c)
          else (0, c))"

definition send_lossless_packet :: "nc_env \<Rightarrow> Net_Crypto \<Rightarrow> int \<Rightarrow> bytes \<Rightarrow> bool \<Rightarrow> int \<times> Net_Crypto" where
  "send_lossless_packet E c crypt_connection_id data congestion_control =
     (if length data = 0 \<or> length data > MAX_CRYPTO_DATA_SIZE then (- 1, c)
      else if get_crypto_connection c crypt_connection_id = None then (- 1, c)
      else
        let c = snd (reset_max_speed_reached E c crypt_connection_id);
            conn = crypto_connections c ! conn_index crypt_connection_id
        in if maximum_speed_reached conn \<and> congestion_control then (- 1, c)
           else
             let dt = \<lparr>sent_time = 0, pd_length = of_nat (length data), pd_data = data\<rparr>;
                 (packet_num, arr) = add_data_end_of_buffer (plat (nh E)) (send_array conn) dt;
                 c = set_conn crypt_connection_id (\<lambda>k. k\<lparr>send_array := arr\<rparr>) c
             in if packet_num = - 1 then (- 1, c)
                else if \<not> congestion_control \<and> maximum_speed_reached conn then (packet_num, c)
                else case send_data_packet_helper E c crypt_connection_id (buffer_start (recv_array conn)) (word_of_int packet_num) data of
                    (res, c) \<Rightarrow>
                      if res = 0 then
                        (case get_data_pointer (send_array (crypto_connections c ! conn_index crypt_connection_id)) (word_of_int packet_num) of
                           (_, None) \<Rightarrow> (packet_num, c)
                         | (ret, Some dt1) \<Rightarrow>
                             (packet_num, if ret = 1 then set_conn crypt_connection_id (set_sent_time (clock_ms E) (word_of_int packet_num) dt1) c
                                          else c))
                      else (packet_num, set_conn crypt_connection_id (\<lambda>k. k\<lparr>maximum_speed_reached := True\<rparr>) c))"

definition get_nonce_uint16 :: "bytes \<Rightarrow> u16" where
  "get_nonce_uint16 nonce = net_ntohs (host_word (slice (CRYPTO_NONCE_SIZE - 2) 2 nonce))"

text \<open>The sum \<^verbatim>\<open>DATA_NUM_THRESHOLD * 2\<close> is an \<^verbatim>\<open>int\<close>; the comparison is exact.\<close>

definition handle_data_packet :: "nc_env \<Rightarrow> Net_Crypto \<Rightarrow> int \<Rightarrow> bytes \<Rightarrow> bytes option \<times> Net_Crypto" where
  "handle_data_packet E c crypt_connection_id packet =
     (let crypto_packet_overhead = 1 + 2 + CRYPTO_MAC_SIZE in
      if length packet \<le> crypto_packet_overhead \<or> length packet > MAX_CRYPTO_PACKET_SIZE then (None, c)
      else case get_crypto_connection c crypt_connection_id of
          None \<Rightarrow> (None, c)
        | Some conn \<Rightarrow>
            let num_cur_nonce = get_nonce_uint16 (recv_nonce conn);
                num = net_unpack_u16 (drop 1 packet);
                diff = num - num_cur_nonce;
                nonce = increment_nonce_number (recv_nonce conn) (ucast diff)
            in case decrypt_data_symmetric (plat (nh E)) (Some (cc_shared_key conn)) nonce (drop (1 + 2) packet) of
                 None \<Rightarrow> (None, c)
               | Some data \<Rightarrow>
                   if length data \<noteq> length packet - crypto_packet_overhead then (None, c)
                   else
                     (Some data,
                      if uint diff > uint DATA_NUM_THRESHOLD * 2
                      then set_conn crypt_connection_id
                             (\<lambda>k. k\<lparr>recv_nonce := increment_nonce_number (recv_nonce k) (ucast DATA_NUM_THRESHOLD)\<rparr>) c
                      else c))"

definition send_request_packet :: "nc_env \<Rightarrow> Net_Crypto \<Rightarrow> int \<Rightarrow> int \<times> Net_Crypto" where
  "send_request_packet E c crypt_connection_id =
     (case get_crypto_connection c crypt_connection_id of
        None \<Rightarrow> (- 1, c)
      | Some conn \<Rightarrow>
          (case generate_request_packet MAX_CRYPTO_DATA_SIZE (recv_array conn) of
             None \<Rightarrow> (- 1, c)
           | Some data \<Rightarrow>
               send_data_packet_helper E c crypt_connection_id (buffer_start (recv_array conn)) (buffer_end (send_array conn)) data))"

text \<open>The loop of \<^verbatim>\<open>send_requested_packets\<close>, from index \<open>i\<close> on, with the number of packets it has sent.\<close>

function send_requested_loop :: "nc_env \<Rightarrow> int \<Rightarrow> u32 \<Rightarrow> u32 \<Rightarrow> u32 \<Rightarrow> u32 \<Rightarrow> Net_Crypto \<Rightarrow> int \<times> Net_Crypto" where
  "send_requested_loop E crypt_connection_id max_num array_size i num_sent c =
     (if \<not> i < array_size then (sint num_sent, c)
      else
        let conn = crypto_connections c ! conn_index crypt_connection_id;
            packet_num = i + buffer_start (send_array conn);
            (ret, dt) = get_data_pointer (send_array conn) packet_num
        in if ret = - 1 then (- 1, c)
           else case dt of
               None \<Rightarrow> send_requested_loop E crypt_connection_id max_num array_size (i + 1) num_sent c
             | Some dt \<Rightarrow>
                 if sent_time dt \<noteq> 0 then send_requested_loop E crypt_connection_id max_num array_size (i + 1) num_sent c
                 else
                   let (res, c) = send_data_packet_helper E c crypt_connection_id (buffer_start (recv_array conn)) packet_num (packet_bytes dt);
                       (num_sent, c) = (if res = 0
                         then (num_sent + 1, set_conn crypt_connection_id (set_sent_time (clock_ms E) packet_num dt) c) else (num_sent, c))
                   in if num_sent \<ge> max_num then (sint num_sent, c)
                      else send_requested_loop E crypt_connection_id max_num array_size (i + 1) num_sent c)"
  by pat_completeness auto
termination
  by (relation "measure (\<lambda>(E, crypt_connection_id, max_num, array_size, i, num_sent, c). unat (array_size - i))")
    (auto simp: loop_decreases)

declare send_requested_loop.simps [simp del]

definition send_requested_packets :: "nc_env \<Rightarrow> Net_Crypto \<Rightarrow> int \<Rightarrow> u32 \<Rightarrow> int \<times> Net_Crypto" where
  "send_requested_packets E c crypt_connection_id max_num =
     (if max_num = 0 then (- 1, c)
      else case get_crypto_connection c crypt_connection_id of
          None \<Rightarrow> (- 1, c)
        | Some conn \<Rightarrow> send_requested_loop E crypt_connection_id max_num (num_packets_array (send_array conn)) 0 0 c)"

section \<open>Packets sent until they are answered\<close>

definition new_temp_packet :: "nc_env \<Rightarrow> Net_Crypto \<Rightarrow> int \<Rightarrow> bytes \<Rightarrow> int \<times> Net_Crypto" where
  "new_temp_packet E c crypt_connection_id packet =
     (if length packet = 0 \<or> length packet > MAX_CRYPTO_PACKET_SIZE then (- 1, c)
      else if get_crypto_connection c crypt_connection_id = None then (- 1, c)
      else if \<not> malloc_ok (plat (nh E)) (length packet) then (- 1, c)
      else
        (0, set_conn crypt_connection_id
              (\<lambda>k. k\<lparr>temp_packet := Some packet, temp_packet_sent_time := 0, temp_packet_num_sent := 0\<rparr>) c))"

definition clear_temp_packet :: "Net_Crypto \<Rightarrow> int \<Rightarrow> int \<times> Net_Crypto" where
  "clear_temp_packet c crypt_connection_id =
     (if get_crypto_connection c crypt_connection_id = None then (- 1, c)
      else
        (0, set_conn crypt_connection_id
              (\<lambda>k. k\<lparr>temp_packet := None, temp_packet_sent_time := 0, temp_packet_num_sent := 0\<rparr>) c))"

definition send_temp_packet :: "nc_env \<Rightarrow> Net_Crypto \<Rightarrow> int \<Rightarrow> int \<times> Net_Crypto" where
  "send_temp_packet E c crypt_connection_id =
     (case get_crypto_connection c crypt_connection_id of
        None \<Rightarrow> (- 1, c)
      | Some conn \<Rightarrow>
          (case temp_packet conn of
             None \<Rightarrow> (- 1, c)
           | Some packet \<Rightarrow>
               (case send_packet_to E c crypt_connection_id packet of (ret, c) \<Rightarrow>
                  if ret \<noteq> 0 then (- 1, c)
                  else
                    (0, set_conn crypt_connection_id
                          (\<lambda>k. k\<lparr>temp_packet_sent_time := clock_ms E, temp_packet_num_sent := temp_packet_num_sent k + 1\<rparr>) c))))"

definition create_send_handshake :: "nc_env \<Rightarrow> Net_Crypto \<Rightarrow> int \<Rightarrow> bytes \<Rightarrow> bytes \<Rightarrow> int \<times> Net_Crypto" where
  "create_send_handshake E c crypt_connection_id cookie dht_public_key =
     (case get_crypto_connection c crypt_connection_id of
        None \<Rightarrow> (- 1, c)
      | Some conn \<Rightarrow>
          (case create_crypto_handshake (nh E) (stack_mem E) c cookie (sent_nonce conn) (sessionpublic_key conn)
                  (cc_public_key conn) dht_public_key of
             (None, c) \<Rightarrow> (- 1, c)
           | (Some handshake_packet, c) \<Rightarrow>
               if length handshake_packet \<noteq> HANDSHAKE_PACKET_LENGTH then (- 1, c)
               else
                 (case new_temp_packet E c crypt_connection_id handshake_packet of (ret, c) \<Rightarrow>
                    if ret \<noteq> 0 then (- 1, c) else (0, snd (send_temp_packet E c crypt_connection_id)))))"

definition send_kill_packet :: "nc_env \<Rightarrow> Net_Crypto \<Rightarrow> int \<Rightarrow> int \<times> Net_Crypto" where
  "send_kill_packet E c crypt_connection_id =
     (case get_crypto_connection c crypt_connection_id of
        None \<Rightarrow> (- 1, c)
      | Some conn \<Rightarrow>
          send_data_packet_helper E c crypt_connection_id (buffer_start (recv_array conn)) (buffer_end (send_array conn)) [PACKET_ID_KILL])"

section \<open>The table of connections\<close>

definition create_crypto_connection :: "nc_env \<Rightarrow> Net_Crypto \<Rightarrow> int \<times> Net_Crypto" where
  "create_crypto_connection E c =
     (let n = length (crypto_connections c);
          set_status = (\<lambda>i. set_conn i (\<lambda>k. k\<lparr>status := CRYPTO_CONN_NO_CONNECTION\<rparr>))
      in case find_index (\<lambda>k. status k = CRYPTO_CONN_FREE) (crypto_connections c) of
           Some i \<Rightarrow> (int i, set_status (int i) c)
         | None \<Rightarrow>
             if malloc_ok (plat (nh E)) ((n + 1) * sizeof_Crypto_Connection)
             then (int n, set_status (int n) (c\<lparr>crypto_connections := crypto_connections c @ [empty_crypto_connection]\<rparr>))
             else (- 1, c))"

text \<open>The loop of \<^verbatim>\<open>wipe_crypto_connection\<close>: the number of connections up to the last one in use.\<close>

fun used_length :: "Crypto_Connection list \<Rightarrow> nat \<Rightarrow> nat" where
  "used_length conns 0 = 0"
| "used_length conns (Suc i) = (if status (conns ! i) \<noteq> CRYPTO_CONN_FREE then Suc i else used_length conns i)"

definition wipe_crypto_connection :: "Net_Crypto \<Rightarrow> int \<Rightarrow> int \<times> Net_Crypto" where
  "wipe_crypto_connection c crypt_connection_id =
     (if conn_index crypt_connection_id \<ge> length (crypto_connections c) then (- 1, c)
      else if status (crypto_connections c ! conn_index crypt_connection_id) = CRYPTO_CONN_FREE then (- 1, c)
      else
        let c = set_conn crypt_connection_id (\<lambda>_. empty_crypto_connection) c;
            i = used_length (crypto_connections c) (length (crypto_connections c))
        in (0, c\<lparr>crypto_connections := take i (crypto_connections c)\<rparr>))"

definition getcryptconnection_id :: "Net_Crypto \<Rightarrow> bytes \<Rightarrow> int" where
  "getcryptconnection_id c public_key =
     (case find_index (\<lambda>k. status k \<noteq> CRYPTO_CONN_NO_CONNECTION \<and> status k \<noteq> CRYPTO_CONN_FREE \<and> pk_equal public_key (cc_public_key k))
             (crypto_connections c) of
        Some i \<Rightarrow> int i
      | None \<Rightarrow> - 1)"

definition crypto_kill :: "nc_env \<Rightarrow> Net_Crypto \<Rightarrow> int \<Rightarrow> (int \<times> Net_Crypto) option" where
  "crypto_kill E c crypt_connection_id =
     (case get_crypto_connection c crypt_connection_id of
        None \<Rightarrow> Some (- 1, c)
      | Some conn \<Rightarrow>
          let c = (if status conn = CRYPTO_CONN_ESTABLISHED then snd (send_kill_packet E c crypt_connection_id) else c);
              c = snd (tcp_call (tcp E) (Tcp_kill (connection_number_tcp conn)) c)
          in do {
               (_, l) \<leftarrow> bs_list_remove (plat (nh E)) (junk E) (ip_port_list c) (ip_port_mem (ip_portv4 conn)) crypt_connection_id;
               (_, l) \<leftarrow> bs_list_remove (plat (nh E)) (junk E) l (ip_port_mem (ip_portv6 conn)) crypt_connection_id;
               let c = snd (clear_temp_packet (c\<lparr>ip_port_list := l\<rparr>) crypt_connection_id);
               let c = set_conn crypt_connection_id
                 (\<lambda>k. k\<lparr>send_array := snd (clear_buffer (send_array k)), recv_array := snd (clear_buffer (recv_array k))\<rparr>) c;
               Some (wipe_crypto_connection c crypt_connection_id)
             })"

definition connection_kill :: "nc_env \<Rightarrow> Net_Crypto \<Rightarrow> int \<Rightarrow> Net_Crypto option" where
  "connection_kill E c crypt_connection_id =
     (case get_crypto_connection c crypt_connection_id of
        None \<Rightarrow> Some c
      | Some conn \<Rightarrow>
          let c = (case connection_status_callback conn of None \<Rightarrow> c | Some cb \<Rightarrow> on_status E cb False (log_call (Cb_status cb False) c))
          in do { (_, c) \<leftarrow> crypto_kill E c crypt_connection_id; Some c })"

section \<open>Received data packets\<close>

fun skip_padding :: "bytes \<Rightarrow> bytes option" where
  "skip_padding [] = None"
| "skip_padding (b # bs) = (if b = PACKET_ID_PADDING then skip_padding bs else Some (b # bs))"

text \<open>The loop that hands the packets at the start of the window to the client. The packet number is stored
  in an \<^verbatim>\<open>int\<close>. The result is whether the connection still exists.\<close>

partial_function (option) read_loop :: "nc_env \<Rightarrow> int \<Rightarrow> Net_Crypto \<Rightarrow> (bool \<times> Net_Crypto) option" where
  "read_loop E crypt_connection_id c =
     do {
       conn \<leftarrow> conn_slot c crypt_connection_id;
       let r = read_data_beg_buffer (recv_array conn);
       let c = set_conn crypt_connection_id (\<lambda>k. k\<lparr>recv_array := snd r\<rparr>) c;
       if sint (word_of_int (fst (fst r)) :: 32 word) = - 1 then Some (True, c)
       else do {
         dt \<leftarrow> snd (fst r);
         let c = (case connection_data_callback conn of None \<Rightarrow> c | Some cb \<Rightarrow> on_data E cb (packet_bytes dt) (log_call (Cb_data cb (packet_bytes dt)) c));
         if get_crypto_connection c crypt_connection_id = None then Some (False, c)
         else read_loop E crypt_connection_id c
       }
     }"

text \<open>The end of \<^verbatim>\<open>handle_data_packet_core\<close>: the new round trip time.\<close>

definition update_rtt :: "nc_env \<Rightarrow> int \<Rightarrow> u64 \<Rightarrow> Net_Crypto \<Rightarrow> (int \<times> Net_Crypto) option" where
  "update_rtt E crypt_connection_id rtt_calc_time c =
     (if rtt_calc_time \<noteq> 0 then
        do {
          conn \<leftarrow> conn_slot c crypt_connection_id;
          let rtt = clock_ms E - rtt_calc_time;
          Some (0, if rtt < rtt_time conn then set_conn crypt_connection_id (\<lambda>k. k\<lparr>rtt_time := rtt\<rparr>) c else c)
        }
      else Some (0, c))"

text \<open>The part of \<^verbatim>\<open>handle_data_packet_core\<close> after the padding is removed and the connection is confirmed.\<close>

definition handle_real_data :: "nc_env \<Rightarrow> Net_Crypto \<Rightarrow> int \<Rightarrow> u32 \<Rightarrow> bytes \<Rightarrow> bool \<Rightarrow> u64 \<Rightarrow> (int \<times> Net_Crypto) option" where
  "handle_real_data E c crypt_connection_id num real_data udp rtt_calc_time =
     do {
       conn \<leftarrow> conn_slot c crypt_connection_id;
       if hd real_data = PACKET_ID_REQUEST then
         let (requested, rtt_calc_time, arr) = handle_request_packet (clock_ms E) (send_array conn) real_data rtt_calc_time
               (if udp then rtt_time conn else DEFAULT_TCP_PING_CONNECTION);
             c = set_conn crypt_connection_id (\<lambda>k. k\<lparr>send_array := arr\<rparr>) c
         in if requested = - 1 then Some (- 1, c)
            else update_rtt E crypt_connection_id rtt_calc_time
                   (set_conn crypt_connection_id (\<lambda>k. k\<lparr>recv_array := snd (set_buffer_end (recv_array k) num)\<rparr>) c)
       else if hd real_data \<ge> PACKET_ID_RANGE_LOSSLESS_START \<and> hd real_data \<le> PACKET_ID_RANGE_LOSSLESS_END then
         let dt = \<lparr>sent_time = 0, pd_length = of_nat (length real_data), pd_data = real_data\<rparr>;
             (ret, arr) = add_data_to_buffer (plat (nh E)) (recv_array conn) num dt;
             c = set_conn crypt_connection_id (\<lambda>k. k\<lparr>recv_array := arr\<rparr>) c
         in if ret \<noteq> 0 then Some (- 1, c)
            else do {
              (exists, c) \<leftarrow> read_loop E crypt_connection_id c;
              if \<not> exists then Some (- 1, c)
              else update_rtt E crypt_connection_id rtt_calc_time
                     (set_conn crypt_connection_id (\<lambda>k. k\<lparr>packet_counter := packet_counter k + 1\<rparr>) c)
            }
       else if hd real_data \<ge> PACKET_ID_RANGE_LOSSY_START \<and> hd real_data \<le> PACKET_ID_RANGE_LOSSY_END then
         let c = set_conn crypt_connection_id (\<lambda>k. k\<lparr>recv_array := snd (set_buffer_end (recv_array k) num)\<rparr>) c;
             c = (case connection_lossy_data_callback conn of None \<Rightarrow> c | Some cb \<Rightarrow> on_lossy E cb real_data (log_call (Cb_lossy cb real_data) c))
         in update_rtt E crypt_connection_id rtt_calc_time c
       else Some (- 1, c)
     }"

text \<open>The acknowledgement in front of the data releases sent packets; the result is whether it was well-formed, and when the oldest
  released packet was sent.\<close>

definition release_sent :: "Packets_Array \<Rightarrow> u32 \<Rightarrow> bool \<times> u64 \<times> Packets_Array" where
  "release_sent arr start =
     (if start \<noteq> buffer_start arr then
        let t = (case get_data_pointer arr (buffer_start arr) of
                   (_, None) \<Rightarrow> 0
                 | (ret, Some packet_time) \<Rightarrow> if ret = 1 then sent_time packet_time else 0);
            (ret, arr) = clear_buffer_until arr start
        in (ret = 0, t, arr)
      else (True, 0, arr))"

text \<open>The first data packet confirms the connection.\<close>

definition confirm_connection :: "nc_env \<Rightarrow> Net_Crypto \<Rightarrow> int \<Rightarrow> Net_Crypto" where
  "confirm_connection E c crypt_connection_id =
     (let conn = crypto_connections c ! conn_index crypt_connection_id in
      if status conn = CRYPTO_CONN_NOT_CONFIRMED then
        let c = snd (clear_temp_packet c crypt_connection_id);
            c = set_conn crypt_connection_id (\<lambda>k. k\<lparr>status := CRYPTO_CONN_ESTABLISHED\<rparr>) c
        in (case connection_status_callback conn of None \<Rightarrow> c | Some cb \<Rightarrow> on_status E cb True (log_call (Cb_status cb True) c))
      else c)"

definition handle_data_packet_core :: "nc_env \<Rightarrow> Net_Crypto \<Rightarrow> int \<Rightarrow> bytes \<Rightarrow> bool \<Rightarrow> (int \<times> Net_Crypto) option" where
  "handle_data_packet_core E c crypt_connection_id packet udp =
     (if length packet > MAX_CRYPTO_PACKET_SIZE \<or> length packet \<le> CRYPTO_DATA_PACKET_MIN_SIZE then Some (- 1, c)
      else if get_crypto_connection c crypt_connection_id = None then Some (- 1, c)
      else case handle_data_packet E c crypt_connection_id packet of
          (None, c) \<Rightarrow> Some (- 1, c)
        | (Some data, c) \<Rightarrow>
            if length data \<le> 4 * 2 then Some (- 1, c)
            else
              let start = net_ntohl (host_word (take 4 data));
                  num = net_ntohl (host_word (slice 4 4 data));
                  (ok, rtt_calc_time, arr) = release_sent (send_array (crypto_connections c ! conn_index crypt_connection_id)) start;
                  c = set_conn crypt_connection_id (\<lambda>k. k\<lparr>send_array := arr\<rparr>) c
              in if \<not> ok then Some (- 1, c)
                 else case skip_padding (drop (4 * 2) data) of
                     None \<Rightarrow> Some (- 1, c)
                   | Some real_data \<Rightarrow>
                       if hd real_data = PACKET_ID_KILL then
                         do { c \<leftarrow> connection_kill E c crypt_connection_id; Some (0, c) }
                       else handle_real_data E (confirm_connection E c crypt_connection_id) crypt_connection_id num real_data udp rtt_calc_time)"

section \<open>The state machine of a connection\<close>

definition handle_packet_cookie_response :: "nc_env \<Rightarrow> Net_Crypto \<Rightarrow> int \<Rightarrow> bytes \<Rightarrow> int \<times> Net_Crypto" where
  "handle_packet_cookie_response E c crypt_connection_id packet =
     (case get_crypto_connection c crypt_connection_id of
        None \<Rightarrow> (- 1, c)
      | Some conn \<Rightarrow>
          if status conn \<noteq> CRYPTO_CONN_COOKIE_REQUESTING then (- 1, c)
          else case handle_cookie_response (plat (nh E)) packet (cc_shared_key conn) of
              None \<Rightarrow> (- 1, c)
            | Some (cookie, number) \<Rightarrow>
                if number \<noteq> cookie_request_number conn then (- 1, c)
                else
                  (case create_send_handshake E c crypt_connection_id cookie (cc_dht_public_key conn) of (ret, c) \<Rightarrow>
                     if ret \<noteq> 0 then (- 1, c)
                     else (0, set_conn crypt_connection_id (\<lambda>k. k\<lparr>status := CRYPTO_CONN_HANDSHAKE_SENT\<rparr>) c)))"

text \<open>The result of \<^verbatim>\<open>encrypt_precompute\<close> is not checked by its callers here: if it fails, the shared key stays as it is.\<close>

definition precompute_session :: "nc_env \<Rightarrow> Crypto_Connection \<Rightarrow> Crypto_Connection" where
  "precompute_session E k =
     (case encrypt_precompute (plat (nh E)) (peersessionpublic_key k) (sessionsecret_key k) of
        None \<Rightarrow> k
      | Some shared_key \<Rightarrow> k\<lparr>cc_shared_key := shared_key\<rparr>)"

definition handle_packet_crypto_hs :: "nc_env \<Rightarrow> Net_Crypto \<Rightarrow> int \<Rightarrow> bytes \<Rightarrow> int \<times> Net_Crypto" where
  "handle_packet_crypto_hs E c crypt_connection_id packet =
     (case get_crypto_connection c crypt_connection_id of
        None \<Rightarrow> (- 1, c)
      | Some conn \<Rightarrow>
          if status conn \<noteq> CRYPTO_CONN_COOKIE_REQUESTING \<and> status conn \<noteq> CRYPTO_CONN_HANDSHAKE_SENT \<and>
             status conn \<noteq> CRYPTO_CONN_NOT_CONFIRMED then (- 1, c)
          else case handle_crypto_handshake (nh E) (stack_mem E) c packet (Some (cc_public_key conn)) of
              None \<Rightarrow> (- 1, c)
            | Some (nonce, session_pk, peer_real_pk, dht_public_key, cookie) \<Rightarrow>
                let c = set_conn crypt_connection_id (\<lambda>k. k\<lparr>recv_nonce := nonce, peersessionpublic_key := session_pk\<rparr>) c in
                if pk_equal dht_public_key (cc_dht_public_key conn) then
                  let c = set_conn crypt_connection_id (precompute_session E) c;
                      (ret, c) = (if status conn = CRYPTO_CONN_COOKIE_REQUESTING
                                  then create_send_handshake E c crypt_connection_id cookie dht_public_key else (0, c))
                  in if ret \<noteq> 0 then (- 1, c)
                     else (0, set_conn crypt_connection_id (\<lambda>k. k\<lparr>status := CRYPTO_CONN_NOT_CONFIRMED\<rparr>) c)
                else
                  (0, case dht_pk_callback conn of None \<Rightarrow> c | Some cb \<Rightarrow> on_dht_pk E cb dht_public_key (log_call (Cb_dht_pk cb dht_public_key) c)))"

definition handle_packet_crypto_data :: "nc_env \<Rightarrow> Net_Crypto \<Rightarrow> int \<Rightarrow> bytes \<Rightarrow> bool \<Rightarrow> (int \<times> Net_Crypto) option" where
  "handle_packet_crypto_data E c crypt_connection_id packet udp =
     (case get_crypto_connection c crypt_connection_id of
        None \<Rightarrow> Some (- 1, c)
      | Some conn \<Rightarrow>
          if status conn \<noteq> CRYPTO_CONN_NOT_CONFIRMED \<and> status conn \<noteq> CRYPTO_CONN_ESTABLISHED then Some (- 1, c)
          else handle_data_packet_core E c crypt_connection_id packet udp)"

definition handle_packet_connection :: "nc_env \<Rightarrow> Net_Crypto \<Rightarrow> int \<Rightarrow> bytes \<Rightarrow> bool \<Rightarrow> (int \<times> Net_Crypto) option" where
  "handle_packet_connection E c crypt_connection_id packet udp =
     (if length packet = 0 \<or> length packet > MAX_CRYPTO_PACKET_SIZE then Some (- 1, c)
      else if hd packet = NET_PACKET_COOKIE_RESPONSE then Some (handle_packet_cookie_response E c crypt_connection_id packet)
      else if hd packet = NET_PACKET_CRYPTO_HS then Some (handle_packet_crypto_hs E c crypt_connection_id packet)
      else if hd packet = NET_PACKET_CRYPTO_DATA then handle_packet_crypto_data E c crypt_connection_id packet udp
      else Some (- 1, c))"

text \<open>An address that stands for a connection to a TCP relay.\<close>

definition tcp_connections_number_to_ip_port :: "u32 \<Rightarrow> IP_Port" where
  "tcp_connections_number_to_ip_port tcp_connections_number =
     \<lparr>ip = \<lparr>family = TCP_SERVER_FAMILY, addr = host_bytes 4 tcp_connections_number @ replicate 12 0\<rparr>, port = 0\<rparr>"

definition ip_port_to_tcp_connections_number :: "IP_Port \<Rightarrow> bool \<times> u32" where
  "ip_port_to_tcp_connections_number ip_port = (net_family_is_tcp_server (family (ip ip_port)), v6_uint32 (addr (ip ip_port)) 0)"

definition crypto_connection_add_source :: "nc_env \<Rightarrow> Net_Crypto \<Rightarrow> int \<Rightarrow> IP_Port \<Rightarrow> (int \<times> Net_Crypto) option" where
  "crypto_connection_add_source E c crypt_connection_id source =
     (case get_crypto_connection c crypt_connection_id of
        None \<Rightarrow> Some (- 1, c)
      | Some conn \<Rightarrow>
          if net_family_is_ipv4 (family (ip source)) \<or> net_family_is_ipv6 (family (ip source)) then
            do {
              (ret, c) \<leftarrow> add_ip_port_connection E c crypt_connection_id source;
              let now = mono_time_get (dht_mono_time (nc_dht c));
              Some (if ret \<noteq> 0 then (- 1, c)
                    else if net_family_is_ipv4 (family (ip source))
                    then (0, set_conn crypt_connection_id (\<lambda>k. k\<lparr>direct_lastrecv_timev4 := now\<rparr>) c)
                    else (0, set_conn crypt_connection_id (\<lambda>k. k\<lparr>direct_lastrecv_timev6 := now\<rparr>) c))
            }
          else
            let (is_tcp, tcp_connections_number) = ip_port_to_tcp_connections_number source in
            if is_tcp then
              (case tcp_call (tcp E) (Tcp_relay (connection_number_tcp conn) tcp_connections_number) c of
                 (ret, c) \<Rightarrow> Some (if ret = 0 then 1 else - 1, c))
            else Some (- 1, c))"

definition new_connection_handler :: "Net_Crypto \<Rightarrow> (nat \<times> nat) option \<Rightarrow> Net_Crypto" where
  "new_connection_handler c cb = c\<lparr>new_connection_callback := cb\<rparr>"

text \<open>The last step of \<^verbatim>\<open>handle_new_connection_handshake\<close>: the client decides about the connection. The callback
  is called without a test that it is set.\<close>

definition offer_connection :: "nc_env \<Rightarrow> Net_Crypto \<Rightarrow> New_Connection \<Rightarrow> (int \<times> Net_Crypto) option" where
  "offer_connection E c n_c = (case new_connection_callback c of None \<Rightarrow> None | Some cb \<Rightarrow> Some (on_new E cb n_c (log_call (Cb_new cb n_c) c)))"

definition handle_new_connection_handshake :: "nc_env \<Rightarrow> Net_Crypto \<Rightarrow> IP_Port \<Rightarrow> bytes \<Rightarrow> (int \<times> Net_Crypto) option" where
  "handle_new_connection_handshake E c source data =
     (if \<not> malloc_ok (plat (nh E)) COOKIE_LENGTH then Some (- 1, c)
      else case handle_crypto_handshake (nh E) (stack_mem E) c data None of
          None \<Rightarrow> Some (- 1, c)
        | Some (nonce, session_pk, peer_real_pk, dht_public_key, cookie) \<Rightarrow>
            let n_c = \<lparr>nc_source = source, nc_public_key = peer_real_pk, nc_dht_public_key = dht_public_key, nc_recv_nonce = nonce,
                  nc_peersessionpublic_key = session_pk, nc_cookie = cookie\<rparr>;
                crypt_connection_id = getcryptconnection_id c peer_real_pk
            in if crypt_connection_id = - 1 then offer_connection E c n_c
               else case get_crypto_connection c crypt_connection_id of
                   None \<Rightarrow> Some (- 1, c)
                 | Some conn \<Rightarrow>
                     if \<not> pk_equal dht_public_key (cc_dht_public_key conn) then
                       do { c \<leftarrow> connection_kill E c crypt_connection_id; offer_connection E c n_c }
                     else if status conn \<noteq> CRYPTO_CONN_COOKIE_REQUESTING \<and> status conn \<noteq> CRYPTO_CONN_HANDSHAKE_SENT then Some (- 1, c)
                     else
                       let c = set_conn crypt_connection_id
                         (\<lambda>k. precompute_session E (k\<lparr>recv_nonce := nonce, peersessionpublic_key := session_pk\<rparr>)) c
                       in do {
                            (_, c) \<leftarrow> crypto_connection_add_source E c crypt_connection_id source;
                            let (ret, c) = create_send_handshake E c crypt_connection_id cookie dht_public_key;
                            Some (if ret \<noteq> 0 then (- 1, c)
                                  else (0, set_conn crypt_connection_id (\<lambda>k. k\<lparr>status := CRYPTO_CONN_NOT_CONFIRMED\<rparr>) c))
                          })"

section \<open>New connections\<close>

definition accept_crypto_connection :: "nc_env \<Rightarrow> Net_Crypto \<Rightarrow> New_Connection \<Rightarrow> (int \<times> Net_Crypto) option" where
  "accept_crypto_connection E c n_c =
     (if getcryptconnection_id c (nc_public_key n_c) \<noteq> - 1 then Some (- 1, c)
      else
        let (i, c) = create_crypto_connection E c in
        if i = - 1 then Some (- 1, c)
        else if length (nc_cookie n_c) \<noteq> COOKIE_LENGTH then Some (- 1, snd (wipe_crypto_connection c i))
        else
          let (connection_number, c) = tcp_call (tcp E) (Tcp_new (nc_dht_public_key n_c) i) c in
          if connection_number = - 1 then Some (- 1, snd (wipe_crypto_connection c i))
          else
            let (nonce, r) = random_nonce (rng (nc_dht c));
                ((session_pk, session_sk), r) = crypto_new_keypair r;
                c = set_conn i
                  (\<lambda>k. (precompute_session E (k\<lparr>connection_number_tcp := word_of_int connection_number, cc_public_key := nc_public_key n_c,
                     recv_nonce := nc_recv_nonce n_c, peersessionpublic_key := nc_peersessionpublic_key n_c, sent_nonce := nonce,
                     sessionpublic_key := session_pk, sessionsecret_key := session_sk\<rparr>))\<lparr>status := CRYPTO_CONN_NOT_CONFIRMED\<rparr>) (set_rng r c);
                (ret, c) = create_send_handshake E c i (nc_cookie n_c) (nc_dht_public_key n_c)
            in if ret \<noteq> 0 then
                 Some (- 1, snd (wipe_crypto_connection (snd (tcp_call (tcp E) (Tcp_kill (word_of_int connection_number)) c)) i))
               else
                 do {
                   (_, c) \<leftarrow> crypto_connection_add_source E
                     (set_conn i (\<lambda>k. k\<lparr>cc_dht_public_key := nc_dht_public_key n_c, packets_left := CRYPTO_MIN_QUEUE_LENGTH,
                        rtt_time := DEFAULT_PING_CONNECTION\<rparr>) c) i (nc_source n_c);
                   Some (i, c)
                 })"

definition new_crypto_connection :: "nc_env \<Rightarrow> Net_Crypto \<Rightarrow> bytes \<Rightarrow> bytes \<Rightarrow> (int \<times> Net_Crypto) option" where
  "new_crypto_connection E c real_public_key dht_public_key =
     (if getcryptconnection_id c real_public_key \<noteq> - 1 then Some (getcryptconnection_id c real_public_key, c)
      else
        let (i, c) = create_crypto_connection E c in
        if i = - 1 then Some (- 1, c)
        else
          let (connection_number, c) = tcp_call (tcp E) (Tcp_new dht_public_key i) c in
          if connection_number = - 1 then Some (- 1, snd (wipe_crypto_connection c i))
          else
            let (nonce, r) = random_nonce (rng (nc_dht c));
                ((session_pk, session_sk), r) = crypto_new_keypair r;
                (number, r) = random_u64 r;
                c = set_conn i
                  (\<lambda>k. k\<lparr>connection_number_tcp := word_of_int connection_number, cc_public_key := take CRYPTO_PUBLIC_KEY_SIZE real_public_key,
                     sent_nonce := nonce, sessionpublic_key := session_pk, sessionsecret_key := session_sk,
                     status := CRYPTO_CONN_COOKIE_REQUESTING, packets_left := CRYPTO_MIN_QUEUE_LENGTH, rtt_time := DEFAULT_PING_CONNECTION,
                     cc_dht_public_key := take CRYPTO_PUBLIC_KEY_SIZE dht_public_key, cookie_request_number := number\<rparr>) (set_rng r c);
                give_up = (\<lambda>c. (- 1, snd (wipe_crypto_connection (snd (tcp_call (tcp E) (Tcp_kill (word_of_int connection_number)) c)) i)))
            in do {
                 (cookie_request, shared_key, c) \<leftarrow> create_cookie_request (nh E) c (take CRYPTO_PUBLIC_KEY_SIZE dht_public_key) number;
                 let c = set_conn i (\<lambda>k. k\<lparr>cc_shared_key := shared_key\<rparr>) c;
                 Some (case cookie_request of
                         None \<Rightarrow> give_up c
                       | Some cookie_request \<Rightarrow>
                           if length cookie_request \<noteq> COOKIE_REQUEST_LENGTH then give_up c
                           else let (ret, c) = new_temp_packet E c i cookie_request
                                in if ret \<noteq> 0 then give_up c else (i, c))
               })"

section \<open>Entry points\<close>

definition set_direct_ip_port :: "nc_env \<Rightarrow> Net_Crypto \<Rightarrow> int \<Rightarrow> IP_Port \<Rightarrow> bool \<Rightarrow> (int \<times> Net_Crypto) option" where
  "set_direct_ip_port E c crypt_connection_id ip_port connected =
     (if get_crypto_connection c crypt_connection_id = None then Some (- 1, c)
      else do {
        (ret, c) \<leftarrow> add_ip_port_connection E c crypt_connection_id ip_port;
        let direct_lastrecv_time = (if connected then mono_time_get (dht_mono_time (nc_dht c)) else 0);
        Some (if ret \<noteq> 0 then (- 1, c)
              else if net_family_is_ipv4 (family (ip ip_port))
              then (0, set_conn crypt_connection_id (\<lambda>k. k\<lparr>direct_lastrecv_timev4 := direct_lastrecv_time\<rparr>) c)
              else (0, set_conn crypt_connection_id (\<lambda>k. k\<lparr>direct_lastrecv_timev6 := direct_lastrecv_time\<rparr>) c))
      })"

definition tcp_data_callback :: "nc_env \<Rightarrow> Net_Crypto \<Rightarrow> int \<Rightarrow> bytes \<Rightarrow> (int \<times> Net_Crypto) option" where
  "tcp_data_callback E c crypt_connection_id data =
     (if length data = 0 \<or> length data > MAX_CRYPTO_PACKET_SIZE then Some (- 1, c)
      else case get_crypto_connection c crypt_connection_id of
          None \<Rightarrow> Some (- 1, c)
        | Some conn \<Rightarrow>
            if hd data = NET_PACKET_COOKIE_REQUEST then tcp_handle_cookie_request (nh E) (tcp E) c (connection_number_tcp conn) data
            else do {
              (ret, c) \<leftarrow> handle_packet_connection E c crypt_connection_id data False;
              Some (if ret \<noteq> 0 then - 1 else 0, c)
            })"

definition tcp_oob_callback :: "nc_env \<Rightarrow> Net_Crypto \<Rightarrow> bytes \<Rightarrow> u32 \<Rightarrow> bytes \<Rightarrow> (int \<times> Net_Crypto) option" where
  "tcp_oob_callback E c public_key tcp_connections_number data =
     (if length data = 0 \<or> length data > MAX_CRYPTO_PACKET_SIZE then Some (- 1, c)
      else if hd data = NET_PACKET_COOKIE_REQUEST then
        tcp_oob_handle_cookie_request (nh E) (tcp E) c tcp_connections_number public_key data
      else if hd data = NET_PACKET_CRYPTO_HS then
        do {
          (ret, c) \<leftarrow> handle_new_connection_handshake E c (tcp_connections_number_to_ip_port tcp_connections_number) data;
          Some (if ret \<noteq> 0 then - 1 else 0, c)
        }
      else Some (- 1, c))"

definition set_callback :: "(Crypto_Connection \<Rightarrow> Crypto_Connection) \<Rightarrow> Net_Crypto \<Rightarrow> int \<Rightarrow> int \<times> Net_Crypto" where
  "set_callback f c crypt_connection_id =
     (if get_crypto_connection c crypt_connection_id = None then (- 1, c) else (0, set_conn crypt_connection_id f c))"

definition connection_status_handler :: "Net_Crypto \<Rightarrow> int \<Rightarrow> (nat \<times> nat \<times> int) option \<Rightarrow> int \<times> Net_Crypto" where
  "connection_status_handler c crypt_connection_id cb = set_callback (\<lambda>k. k\<lparr>connection_status_callback := cb\<rparr>) c crypt_connection_id"

definition connection_data_handler :: "Net_Crypto \<Rightarrow> int \<Rightarrow> (nat \<times> nat \<times> int) option \<Rightarrow> int \<times> Net_Crypto" where
  "connection_data_handler c crypt_connection_id cb = set_callback (\<lambda>k. k\<lparr>connection_data_callback := cb\<rparr>) c crypt_connection_id"

definition connection_lossy_data_handler :: "Net_Crypto \<Rightarrow> int \<Rightarrow> (nat \<times> nat \<times> int) option \<Rightarrow> int \<times> Net_Crypto" where
  "connection_lossy_data_handler c crypt_connection_id cb =
     set_callback (\<lambda>k. k\<lparr>connection_lossy_data_callback := cb\<rparr>) c crypt_connection_id"

definition nc_dht_pk_callback :: "Net_Crypto \<Rightarrow> int \<Rightarrow> (nat \<times> nat \<times> u32) option \<Rightarrow> int \<times> Net_Crypto" where
  "nc_dht_pk_callback c crypt_connection_id cb = set_callback (\<lambda>k. k\<lparr>dht_pk_callback := cb\<rparr>) c crypt_connection_id"

definition crypto_id_ip_port :: "Net_Crypto \<Rightarrow> IP_Port \<Rightarrow> int option" where
  "crypto_id_ip_port c ip_port = bs_list_find (ip_port_list c) (ip_port_mem ip_port)"

definition udp_handle_packet :: "nc_env \<Rightarrow> Net_Crypto \<Rightarrow> IP_Port \<Rightarrow> bytes \<Rightarrow> (int \<times> Net_Crypto) option" where
  "udp_handle_packet E c source packet =
     (if length packet \<le> CRYPTO_MIN_PACKET_SIZE \<or> length packet > MAX_CRYPTO_PACKET_SIZE then Some (1, c)
      else do {
        crypt_connection_id \<leftarrow> crypto_id_ip_port c source;
        if crypt_connection_id = - 1 then
          (if hd packet \<noteq> NET_PACKET_CRYPTO_HS then Some (1, c)
           else do {
             (ret, c) \<leftarrow> handle_new_connection_handshake E c source packet;
             Some (if ret \<noteq> 0 then 1 else 0, c)
           })
        else do {
          (ret, c) \<leftarrow> handle_packet_connection E c crypt_connection_id packet True;
          let now = mono_time_get (dht_mono_time (nc_dht c));
          Some (if ret \<noteq> 0 then (1, c)
                else if get_crypto_connection c crypt_connection_id = None then (- 1, c)
                else if net_family_is_ipv4 (family (ip source))
                then (0, set_conn crypt_connection_id (\<lambda>k. k\<lparr>direct_lastrecv_timev4 := now\<rparr>) c)
                else (0, set_conn crypt_connection_id (\<lambda>k. k\<lparr>direct_lastrecv_timev6 := now\<rparr>) c))
        }
      })"

definition max_speed_reached :: "nc_env \<Rightarrow> Net_Crypto \<Rightarrow> int \<Rightarrow> bool \<times> Net_Crypto" where
  "max_speed_reached E c crypt_connection_id =
     (case reset_max_speed_reached E c crypt_connection_id of (ret, c) \<Rightarrow> (ret \<noteq> 0, c))"

definition crypto_num_free_sendqueue_slots :: "Net_Crypto \<Rightarrow> int \<Rightarrow> u32" where
  "crypto_num_free_sendqueue_slots c crypt_connection_id =
     (case get_crypto_connection c crypt_connection_id of
        None \<Rightarrow> 0
      | Some conn \<Rightarrow>
          let max_packets = CRYPTO_PACKET_BUFFER_SIZE - num_packets_array (send_array conn)
          in if packets_left conn < max_packets then packets_left conn else max_packets)"

definition write_cryptpacket :: "nc_env \<Rightarrow> Net_Crypto \<Rightarrow> int \<Rightarrow> bytes \<Rightarrow> bool \<Rightarrow> int \<times> Net_Crypto" where
  "write_cryptpacket E c crypt_connection_id data congestion_control =
     (if length data = 0 then (- 1, c)
      else if hd data < PACKET_ID_RANGE_LOSSLESS_START \<or> hd data > PACKET_ID_RANGE_LOSSLESS_END then (- 1, c)
      else case get_crypto_connection c crypt_connection_id of
          None \<Rightarrow> (- 1, c)
        | Some conn \<Rightarrow>
            if status conn \<noteq> CRYPTO_CONN_ESTABLISHED then (- 1, c)
            else if congestion_control \<and> packets_left conn = 0 then (- 1, c)
            else case send_lossless_packet E c crypt_connection_id data congestion_control of (ret, c) \<Rightarrow>
              if ret = - 1 then (- 1, c)
              else if congestion_control then
                (ret, set_conn crypt_connection_id
                   (\<lambda>k. k\<lparr>packets_left := packets_left k - 1, packets_left_requested := packets_left_requested k - 1,
                      packets_sent := packets_sent k + 1\<rparr>) c)
              else (ret, c))"

definition cryptpacket_received :: "Net_Crypto \<Rightarrow> int \<Rightarrow> u32 \<Rightarrow> int" where
  "cryptpacket_received c crypt_connection_id packet_number =
     (case get_crypto_connection c crypt_connection_id of
        None \<Rightarrow> - 1
      | Some conn \<Rightarrow>
          let num = num_packets_array (send_array conn);
              num1 = packet_number - buffer_start (send_array conn)
          in if num \<ge> num1 then - 1 else 0)"

definition send_lossy_cryptpacket :: "nc_env \<Rightarrow> Net_Crypto \<Rightarrow> int \<Rightarrow> bytes \<Rightarrow> int \<times> Net_Crypto" where
  "send_lossy_cryptpacket E c crypt_connection_id data =
     (if length data = 0 \<or> length data > MAX_CRYPTO_DATA_SIZE then (- 1, c)
      else if hd data < PACKET_ID_RANGE_LOSSY_START \<or> hd data > PACKET_ID_RANGE_LOSSY_END then (- 1, c)
      else case get_crypto_connection c crypt_connection_id of
          None \<Rightarrow> (- 1, c)
        | Some conn \<Rightarrow>
            send_data_packet_helper E c crypt_connection_id (buffer_start (recv_array conn)) (buffer_end (send_array conn)) data)"

definition new_keys :: "Net_Crypto \<Rightarrow> Net_Crypto" where
  "new_keys c =
     (let ((pk, sk), r) = crypto_new_keypair (rng (nc_dht c))
      in set_rng r (c\<lparr>nc_self_public_key := pk, nc_self_secret_key := sk\<rparr>))"

definition save_keys :: "Net_Crypto \<Rightarrow> bytes" where
  "save_keys c = take CRYPTO_PUBLIC_KEY_SIZE (nc_self_public_key c) @ take CRYPTO_SECRET_KEY_SIZE (nc_self_secret_key c)"

text \<open>The public key is computed by the platform's \<^verbatim>\<open>crypto_scalarmult_curve25519_base\<close>.\<close>

definition load_secret_key :: "(bytes \<Rightarrow> bytes) \<Rightarrow> Net_Crypto \<Rightarrow> bytes \<Rightarrow> Net_Crypto" where
  "load_secret_key scalarmult_base c sk =
     c\<lparr>nc_self_secret_key := take CRYPTO_SECRET_KEY_SIZE sk, nc_self_public_key := scalarmult_base (take CRYPTO_SECRET_KEY_SIZE sk)\<rparr>"

text \<open>Creation, given whether the TCP connections could be created. The handlers the function registers are not part of the state.\<close>

definition sizeof_Net_Crypto :: nat where [size_defs]: "sizeof_Net_Crypto = 240"

definition new_net_crypto :: "nc_env \<Rightarrow> DHT option \<Rightarrow> bool \<Rightarrow> Net_Crypto option" where
  "new_net_crypto E dht tcp_ok =
     (case dht of
        None \<Rightarrow> None
      | Some dht \<Rightarrow>
          if \<not> malloc_ok (plat (nh E)) sizeof_Net_Crypto then None
          else if \<not> tcp_ok then None
          else
            let c = new_keys \<lparr>nc_dht = dht, nc_calls = [], crypto_connections = [], nc_self_public_key = replicate 32 0,
                  nc_self_secret_key = replicate 32 0, secret_symmetric_key = replicate 32 0, new_connection_callback = None,
                  ip_port_list = \<lparr>bs_n = 0, bs_capacity = 0, bs_element_size = 0, bs_data = [], bs_ids = []\<rparr>\<rparr>;
                (k, r) = new_symmetric_key (rng (nc_dht c))
            in Some (set_rng r (c\<lparr>secret_symmetric_key := k, ip_port_list := snd (bs_list_init (plat (nh E)) (junk E) sizeof_IP_Port 8)\<rparr>)))"

section \<open>Periodic work\<close>

text \<open>The loops run while the index is below the length of the table, which the body may change.\<close>

lemma below_decreases: "i < n \<Longrightarrow> unat (- 2 - i) < unat (- 1 - (i :: u32))"
proof -
  assume "i < n"
  then have "i \<noteq> - 1" using word_order.extremum_strict by auto
  from loop_decreases [OF this] show ?thesis by (simp add: diff_diff_eq)
qed

function kill_timedout_loop :: "nc_env \<Rightarrow> u32 \<Rightarrow> Net_Crypto \<Rightarrow> Net_Crypto option" where
  "kill_timedout_loop E i c =
     (if \<not> i < of_nat (length (crypto_connections c)) then Some c
      else case get_crypto_connection c (uint i) of
          None \<Rightarrow> kill_timedout_loop E (i + 1) c
        | Some conn \<Rightarrow>
            if status conn = CRYPTO_CONN_COOKIE_REQUESTING \<or> status conn = CRYPTO_CONN_HANDSHAKE_SENT \<or>
               status conn = CRYPTO_CONN_NOT_CONFIRMED then
              (if temp_packet_num_sent conn < MAX_NUM_SENDPACKET_TRIES then kill_timedout_loop E (i + 1) c
               else case connection_kill E c (uint i) of None \<Rightarrow> None | Some c \<Rightarrow> kill_timedout_loop E (i + 1) c)
            else kill_timedout_loop E (i + 1) c)"
  by pat_completeness auto
termination
  by (relation "measure (\<lambda>(E, i, c). unat (- 1 - i))") (auto simp: below_decreases)

declare kill_timedout_loop.simps [simp del]

definition kill_timedout :: "nc_env \<Rightarrow> Net_Crypto \<Rightarrow> Net_Crypto option" where
  "kill_timedout E c = kill_timedout_loop E 0 c"

definition do_tcp_step :: "nc_env \<Rightarrow> Net_Crypto \<Rightarrow> nat \<Rightarrow> Net_Crypto" where
  "do_tcp_step E c i =
     (case get_crypto_connection c (int i) of
        None \<Rightarrow> c
      | Some conn \<Rightarrow>
          if status conn \<noteq> CRYPTO_CONN_ESTABLISHED then c
          else case crypto_connection_status E c (int i) of
              None \<Rightarrow> c
            | Some (direct_connected, _) \<Rightarrow> snd (tcp_call (tcp E) (Tcp_status (connection_number_tcp conn) (\<not> direct_connected)) c))"

definition do_tcp :: "nc_env \<Rightarrow> Net_Crypto \<Rightarrow> Net_Crypto" where
  "do_tcp E c =
     (let c = snd (tcp_call (tcp E) Tcp_work c)
      in foldl (do_tcp_step E) c [0..<length (crypto_connections c)])"

function kill_all_loop :: "nc_env \<Rightarrow> u32 \<Rightarrow> Net_Crypto \<Rightarrow> Net_Crypto option" where
  "kill_all_loop E i c =
     (if \<not> i < of_nat (length (crypto_connections c)) then Some c
      else case crypto_kill E c (uint i) of None \<Rightarrow> None | Some (_, c) \<Rightarrow> kill_all_loop E (i + 1) c)"
  by pat_completeness auto
termination
  by (relation "measure (\<lambda>(E, i, c). unat (- 1 - i))") (auto simp: below_decreases)

declare kill_all_loop.simps [simp del]

text \<open>The connections that are left when the module is destroyed, with the calls it has made.\<close>

definition kill_net_crypto :: "nc_env \<Rightarrow> Net_Crypto option \<Rightarrow> Net_Crypto option option" where
  "kill_net_crypto E c =
     (case c of
        None \<Rightarrow> Some None
      | Some c \<Rightarrow>
          do {
            c \<leftarrow> kill_all_loop E 0 c;
            let c = snd (tcp_call (tcp E) Tcp_close c);
            Some (Some (c\<lparr>ip_port_list := bs_list_free (ip_port_list c)\<rparr>))
          })"

section \<open>Reading and writing connections\<close>

text \<open>A connection that is in use.\<close>

definition in_use :: "Crypto_Connection \<Rightarrow> bool" where
  "in_use k \<longleftrightarrow> status k \<noteq> CRYPTO_CONN_NO_CONNECTION \<and> status k \<noteq> CRYPTO_CONN_FREE"

lemma get_crypto_connection_iff:
  "get_crypto_connection c i = Some k \<longleftrightarrow>
     conn_index i < length (crypto_connections c) \<and> crypto_connections c ! conn_index i = k \<and> in_use k"
  by (auto simp: get_crypto_connection_def crypt_connection_id_is_valid_def in_use_def Let_def)

lemma get_set_conn:
  assumes "get_crypto_connection c i = Some k" "in_use (f k)"
  shows "get_crypto_connection (set_conn i f c) i = Some (f k)"
  using assms by (simp add: get_crypto_connection_iff set_conn_def)

lemma set_conn_set_conn [simp]: "set_conn i f (set_conn i g c) = set_conn i (f \<circ> g) c"
  by (cases "conn_index i < length (crypto_connections c)") (simp_all add: set_conn_def list_update_beyond)

lemma set_conn_sel [simp]:
  "nc_dht (set_conn i f c) = nc_dht c" "nc_calls (set_conn i f c) = nc_calls c" "ip_port_list (set_conn i f c) = ip_port_list c"
  "nc_self_public_key (set_conn i f c) = nc_self_public_key c" "nc_self_secret_key (set_conn i f c) = nc_self_secret_key c"
  "secret_symmetric_key (set_conn i f c) = secret_symmetric_key c" "new_connection_callback (set_conn i f c) = new_connection_callback c"
  "length (crypto_connections (set_conn i f c)) = length (crypto_connections c)"
  by (simp_all add: set_conn_def)

lemma set_conn_nth: "conn_index i < length (crypto_connections c) \<Longrightarrow>
    crypto_connections (set_conn i f c) ! conn_index i = f (crypto_connections c ! conn_index i)"
  by (simp add: set_conn_def)

lemma conn_slot_get: "get_crypto_connection c i = Some k \<Longrightarrow> conn_slot c i = Some k"
  by (simp add: get_crypto_connection_iff conn_slot_def)

end
