(* ===== verification/Net_Crypto_Data.thy ===== *)
theory Net_Crypto_Data
  imports Net_Crypto_Connection
begin

text \<open>
  Data packets of \<^verbatim>\<open>toxcore/net_crypto.c\<close>: a packet whose nonce is at most 65535 ahead of the receiver's opens at
  the receiver, and the receiver follows; lossless packets reach the client in the order of
  their numbers, each once.
\<close>

section \<open>Nonces\<close>

lemma low_bytes_value: "unat (push_bit 8 (ucast a) OR ucast b :: u16) = unat (a :: byte) * 256 + unat (b :: byte)"
proof -
  have "push_bit 8 (ucast a :: u16) AND ucast b = 0"
    by (rule bit_word_eqI) (auto simp: bit_simps dest: bit_imp_le_length)
  then have "push_bit 8 (ucast a :: u16) OR ucast b = push_bit 8 (ucast a) + ucast b" by (simp add: disjunctive_add_eq_or)
  moreover have "unat (ucast a :: u16) = unat a" "unat (ucast b :: u16) = unat b"
    using byte_bound [of a] byte_bound [of b] by (simp_all add: unsigned_ucast_eq take_bit_nat_eq_self)
  moreover have "unat a * 256 + unat b < 65536" using byte_bound [of a] byte_bound [of b] by simp
  ultimately show ?thesis by (simp add: unat_word_ariths push_bit_eq_mult)
qed

lemma uint_unat: "uint w = int (unat w)"
  by simp

lemma u16_facts: "unat (d :: u16) < 65536" "ucast (ucast d :: u32) = d" "unat (ucast d :: u32) = unat d"
proof -
  show d: "unat d < 65536" by (rule order.strict_trans2 [OF unsigned_less]) simp
  show "ucast (ucast d :: u32) = d" by (rule bit_word_eqI) (simp add: bit_simps)
  show "unat (ucast d :: u32) = unat d" using d by (simp add: unsigned_ucast_eq take_bit_nat_eq_self)
qed

lemma nonce_split:
  assumes "length (nonce :: bytes) = 24"
  obtains p a b where "nonce = p @ [a, b]" "length p = 22"
proof -
  have "length (drop 22 nonce) = 2" using assms by simp
  then obtain a b where "drop 22 nonce = [a, b]"
    unfolding numeral_2_eq_2 length_Suc_conv by auto
  then have "nonce = take 22 nonce @ [a, b]" by (metis append_take_drop_id)
  with that assms show thesis by fastforce
qed

text \<open>The last two bytes of a nonce, as the sender copies them and as the receiver reads them.\<close>

lemma nonce_low:
  assumes "length nonce = 24"
  shows "get_nonce_uint16 nonce = of_nat (be_val nonce)" "net_unpack_u16 (slice 22 2 nonce @ rest) = of_nat (be_val nonce)"
proof -
  from nonce_split [OF assms] obtain p a b where n: "nonce = p @ [a, b]" "length p = 22" .
  have low: "push_bit 8 (ucast a) OR ucast b = (of_nat (be_val nonce) :: u16)"
  proof (rule word_unat_eq_iff [THEN iffD2])
    have "be_val nonce = be_val p * 65536 + (unat a * 256 + unat b)" by (simp add: n be_val_append)
    moreover have "unat a * 256 + unat b < 65536" using byte_bound [of a] byte_bound [of b] by simp
    ultimately have "be_val nonce mod 65536 = unat a * 256 + unat b" by simp
    then show "unat (push_bit 8 (ucast a) OR ucast b :: u16) = unat (of_nat (be_val nonce) :: u16)"
      by (simp add: low_bytes_value unat_of_nat)
  qed
  have sl: "slice 22 2 nonce = [a, b]" using n by (simp add: slice_def)
  then show "net_unpack_u16 (slice 22 2 nonce @ rest) = of_nat (be_val nonce)" using low by (simp add: net_unpack_u16_def)
  have "host_bytes 2 (host_word [a, b] :: u16) = [a, b]" by (rule host_bytes_host_word) simp_all
  then have "net_ntohs (host_word [a, b]) = (host_word [b, a] :: u16)" by (simp only: net_ntohs_def) simp
  then show "get_nonce_uint16 nonce = of_nat (be_val nonce)"
    using low by (simp add: get_nonce_uint16_def size_defs sl or.commute)
qed

lemma nonce_low_add:
  assumes "length nonce = 24"
  shows "of_nat (be_val (increment_nonce_number nonce k)) = (of_nat (be_val nonce) + ucast k :: u16)"
proof (rule word_unat_eq_iff [THEN iffD2])
  have "(be_val nonce + unat k) mod 2 ^ 192 mod 2 ^ 16 = (be_val nonce + unat k) mod 2 ^ 16"
    by (rule mod_mod_cancel) (simp add: le_imp_power_dvd)
  then show "unat (of_nat (be_val (increment_nonce_number nonce k)) :: u16) = unat (of_nat (be_val nonce) + ucast k :: u16)"
    by (simp add: increment_nonce_number_value [OF assms] unat_of_nat unat_word_ariths unsigned_ucast_eq take_bit_eq_mod mod_add_eq)
qed

lemma increment_add:
  assumes "length nonce = 24" "unat j + unat k < 2 ^ 32"
  shows "increment_nonce_number (increment_nonce_number nonce j) k = increment_nonce_number nonce (j + k)"
proof (rule be_val_inject)
  have "unat (j + k) = unat j + unat k" using assms(2) by (simp add: unat_word_ariths)
  then show "be_val (increment_nonce_number (increment_nonce_number nonce j) k) = be_val (increment_nonce_number nonce (j + k))"
    using assms(1) by (simp add: increment_nonce_number_value mod_simps add.assoc)
qed (simp add: increment_nonce_number_value assms)

section \<open>The window of nonces\<close>

lemma send_data_packet_opens:
  assumes "box_platform P" "plat (nh EA) = P" "plat (nh EB) = P"
    and a: "get_crypto_connection a i = Some ka" and b: "get_crypto_connection b j = Some kb"
    and "cc_shared_key ka = cc_shared_key kb" "length (recv_nonce kb) = 24"
    and "sent_nonce ka = increment_nonce_number (recv_nonce kb) (ucast (d :: u16))"
    and "data \<noteq> []" "length data \<le> 1381"
  shows "\<exists>packet. send_data_packet EA a i data =
      send_packet_to EA (set_conn i (\<lambda>k. k\<lparr>sent_nonce := increment_nonce (sent_nonce k)\<rparr>) a) i packet \<and>
    length packet = length data + 19 \<and> hd packet = NET_PACKET_CRYPTO_DATA \<and>
    handle_data_packet EB b j packet =
      (Some data, if uint d > 43690 then set_conn j (\<lambda>k. k\<lparr>recv_nonce := increment_nonce_number (recv_nonce k) 21845\<rparr>) b else b)"
proof -
  from box_platform.encrypt_decrypt [OF assms(1,9), of "cc_shared_key kb" "sent_nonce ka"] obtain enc where
    enc: "encrypt_data_symmetric P (Some (cc_shared_key kb)) (sent_nonce ka) data = Some enc" "length enc = length data + 16"
      "decrypt_data_symmetric P (Some (cc_shared_key kb)) (sent_nonce ka) enc = Some data" by blast
  let ?low = "slice 22 2 (sent_nonce ka)"
  let ?packet = "NET_PACKET_CRYPTO_DATA # ?low @ enc"
  have len: "length (sent_nonce ka) = 24" using assms(7,8) by (simp add: increment_nonce_number_value)
  then have low: "length ?low = 2" by (simp add: slice_def)
  have num: "net_unpack_u16 (?low @ enc) = get_nonce_uint16 (recv_nonce kb) + d"
    using nonce_low(2) [OF len] nonce_low(1) [OF assms(7)] nonce_low_add [OF assms(7), of "ucast d"]
    by (simp add: assms(8) u16_facts)
  have "send_data_packet EA a i data =
      send_packet_to EA (set_conn i (\<lambda>k. k\<lparr>sent_nonce := increment_nonce (sent_nonce k)\<rparr>) a) i ?packet"
    using assms(2,6,9,10) enc a by (simp add: send_data_packet_def Let_def size_defs)
  moreover have "handle_data_packet EB b j ?packet =
      (Some data, if uint d > 43690 then set_conn j (\<lambda>k. k\<lparr>recv_nonce := increment_nonce_number (recv_nonce k) 21845\<rparr>) b else b)"
  proof -
    have "get_nonce_uint16 (recv_nonce kb) + d - get_nonce_uint16 (recv_nonce kb) = d" by simp
    moreover have "drop (1 + 2) ?packet = enc" "drop 1 ?packet = ?low @ enc" using low by simp_all
    moreover have "(ucast DATA_NUM_THRESHOLD :: u32) = 21845" "uint DATA_NUM_THRESHOLD * 2 = 43690" by (simp_all add: size_defs)
    moreover have "\<not> (length ?packet \<le> 1 + 2 + CRYPTO_MAC_SIZE \<or> MAX_CRYPTO_PACKET_SIZE < length ?packet)"
      "length data = length ?packet - (1 + 2 + CRYPTO_MAC_SIZE)"
      using low enc(2) assms(9,10) by (simp_all add: size_defs)
    ultimately show ?thesis
      unfolding handle_data_packet_def Let_def b option.case assms(3)
      using num enc(3) assms(8) by simp
  qed
  ultimately show ?thesis using low enc(2) by (intro exI [of _ ?packet]) simp
qed

lemma window_follows:
  assumes "length n = 24"
  shows "\<exists>d' \<le> 43691. increment_nonce (increment_nonce_number n (ucast d)) =
    increment_nonce_number (if uint (d :: u16) > 43690 then increment_nonce_number n 21845 else n) (ucast (d' :: u16))"
proof (cases "uint d > 43690")
  case True
  note u = u16_facts(3) [of d]
  have d: "43690 < unat d" "unat d < 65536" using True u16_facts(1) [of d] uint_unat [of d] by linarith+
  let ?d = "d - 21844"
  have d': "unat ?d = unat d - 21844" using d by (subst unat_sub) (auto simp: word_le_nat_alt)
  have u': "unat (ucast ?d :: u32) = unat d - 21844"
    using d' u16_facts(3) by simp
  have "increment_nonce_number (increment_nonce_number n 21845) (ucast ?d) = increment_nonce_number n (21845 + ucast ?d)"
    using d u' by (intro increment_add assms) simp
  moreover have "21845 + ucast ?d = (ucast d + 1 :: u32)"
    using d u u' by (simp add: word_unat_eq_iff unat_word_ariths)
  moreover have "increment_nonce (increment_nonce_number n (ucast d)) = increment_nonce_number n (ucast d + 1)"
    using d u by (subst increment_nonce_eq_number) (simp_all add: increment_nonce_number_value assms increment_add)
  moreover have "?d \<le> 43691" using d d' by (simp add: word_le_nat_alt)
  ultimately show ?thesis using True by (auto intro!: exI [of _ ?d])
next
  case False
  note u = u16_facts(3) [of d]
  have d: "unat d \<le> 43690" using False uint_unat [of d] by linarith
  have d': "unat (d + 1) = unat d + 1" using d by (simp add: unat_word_ariths)
  have u': "unat (ucast (d + 1) :: u32) = unat d + 1"
    using d' u16_facts(3) by simp
  have "increment_nonce (increment_nonce_number n (ucast d)) = increment_nonce_number n (ucast d + 1)"
    using d u by (subst increment_nonce_eq_number) (simp_all add: increment_nonce_number_value assms increment_add)
  moreover have "ucast d + 1 = (ucast (d + 1) :: u32)" using d u u' by (simp add: word_unat_eq_iff unat_word_ariths)
  moreover have "d + 1 \<le> 43691" using d d' by (simp add: word_le_nat_alt)
  ultimately show ?thesis using False by (auto intro!: exI [of _ "d + 1"])
qed

section \<open>Delivery in order\<close>

text \<open>The specification of the receiver: the packets that are available from number \<open>s\<close> on without a gap are taken out and
  handed over, then the window starts at the first missing number.\<close>

fun flush :: "nat \<Rightarrow> u32 \<Rightarrow> (u32 \<Rightarrow> 'p option) \<Rightarrow> 'p list \<times> u32 \<times> (u32 \<Rightarrow> 'p option)" where
  "flush 0 s m = ([], s, m)"
| "flush (Suc n) s m =
     (case m s of
        None \<Rightarrow> ([], s, m)
      | Some d \<Rightarrow> (case flush n (s + 1) (m(s := None)) of (ds, s', m') \<Rightarrow> (d # ds, s', m')))"

text \<open>The calls that hand packets to a client, and clients that leave the connections alone while they are called.\<close>

definition data_calls :: "(nat \<times> nat \<times> int) option \<Rightarrow> Packet_Data list \<Rightarrow> nc_call list" where
  "data_calls cb ds = (case cb of None \<Rightarrow> [] | Some cb \<Rightarrow> map (\<lambda>d. Cb_data cb (packet_bytes d)) ds)"

definition quiet :: "nc_env \<Rightarrow> bool" where
  "quiet E \<longleftrightarrow> (\<forall>cb d c. crypto_connections (on_data E cb d c) = crypto_connections c \<and> nc_calls (on_data E cb d c) = nc_calls c)"

lemma data_calls_simps [simp]:
  "data_calls cb [] = []" "data_calls None ds = []" "data_calls (Some f) (d # ds) = Cb_data f (packet_bytes d) # data_calls (Some f) ds"
  by (simp_all add: data_calls_def split: option.split)

lemma log_call_sel [simp]:
  "crypto_connections (log_call x c) = crypto_connections c" "nc_calls (log_call x c) = nc_calls c @ [x]"
  "nc_dht (log_call x c) = nc_dht c" "ip_port_list (log_call x c) = ip_port_list c"
  by (simp_all add: log_call_def)

lemma int_of_number: "sint s = - 1 \<longleftrightarrow> s = (- 1 :: u32)"
proof -
  have "s = - 1" if "sint s = - 1"
    by (rule signed_word_eqI) (use that in simp)
  then show ?thesis by auto
qed

lemma read_loop_flush:
  assumes "quiet E" "get_crypto_connection c i = Some k" "pa_inv (recv_array k)"
    and "\<not> in_window (buffer_start (recv_array k)) (buffer_end (recv_array k)) (- 1)"
    and "unat (buffer_end (recv_array k) - buffer_start (recv_array k)) \<le> n"
    and "flush n (buffer_start (recv_array k)) (pa_map (recv_array k)) = (ds, s', m')"
  shows "\<exists>c' arr'. read_loop E i c = Some (True, c') \<and> pa_inv arr' \<and> buffer_start arr' = s' \<and> pa_map arr' = m' \<and>
    crypto_connections c' = (crypto_connections c)[conn_index i := k\<lparr>recv_array := arr'\<rparr>] \<and>
    nc_calls c' = nc_calls c @ data_calls (connection_data_callback k) ds"
  using assms(2-)
proof (induction n arbitrary: c k ds)
  case (0 c k)
  let ?arr = "recv_array k"
  have e: "buffer_end ?arr = buffer_start ?arr" using 0 by (simp add: unat_eq_0)
  then have "pa_map ?arr = (\<lambda>_. None)" by (simp add: pa_map_def fun_eq_iff)
  moreover have "read_data_beg_buffer ?arr = ((- 1, None), ?arr)" using e by (simp add: read_data_beg_buffer_def)
  ultimately show ?case
    using 0 conn_slot_get [OF 0(1)]
    by (subst read_loop.simps) (auto simp: set_conn_def get_crypto_connection_iff intro!: exI [of _ ?arr])
next
  case (Suc n c k)
  let ?arr = "recv_array k" and ?s = "buffer_start (recv_array k)"
  obtain r d arr1 where r: "read_data_beg_buffer ?arr = ((r, d), arr1)" by (metis surj_pair)
  note rd = read_data_beg_buffer_map [OF Suc.prems(2) r]
  have slot: "conn_slot c i = Some k" by (rule conn_slot_get [OF Suc.prems(1)])
  have get: "conn_index i < length (crypto_connections c)" "crypto_connections c ! conn_index i = k" "in_use k"
    using Suc.prems(1) by (simp_all add: get_crypto_connection_iff)
  show ?case
  proof (cases d)
    case None
    then have "r = - 1" "arr1 = ?arr" "pa_map ?arr ?s = None" using rd by auto
    then show ?thesis
      using Suc.prems get slot r None
      by (subst read_loop.simps) (auto simp: set_conn_def intro!: exI [of _ ?arr])
  next
    case (Some p)
    then have r1: "r = uint ?s" "pa_inv arr1" "pa_map arr1 = (pa_map ?arr)(?s := None)" "buffer_start arr1 = ?s + 1"
      "buffer_end arr1 = buffer_end ?arr" "pa_map ?arr ?s = Some p" using rd by auto
    then have ne: "?s \<noteq> buffer_end ?arr" by (auto simp: pa_map_def)
    have "\<not> in_window ?s (buffer_end ?arr) (- 1)" by (rule Suc.prems(3))
    then have s: "?s \<noteq> - 1" and w: "\<not> in_window (?s + 1) (buffer_end ?arr) (- 1)"
      using in_window_step [OF ne, of "- 1"] by (auto simp: eq_commute)
    obtain ds' where ds': "flush n (?s + 1) ((pa_map ?arr)(?s := None)) = (ds', s', m')" and ds: "ds = p # ds'"
      using Suc.prems(5) r1(6) by (auto split: prod.splits)
    let ?k = "k\<lparr>recv_array := arr1\<rparr>" and ?c = "set_conn i (\<lambda>k. k\<lparr>recv_array := arr1\<rparr>) c"
    define c1 where "c1 = (case connection_data_callback k of None \<Rightarrow> ?c
      | Some cb \<Rightarrow> on_data E cb (packet_bytes p) (log_call (Cb_data cb (packet_bytes p)) ?c))"
    have c1: "crypto_connections c1 = (crypto_connections c)[conn_index i := ?k]"
      "nc_calls c1 = nc_calls c @ data_calls (connection_data_callback k) [p]"
      using assms(1) get by (auto simp: c1_def quiet_def set_conn_def split: option.split)
    have get1: "get_crypto_connection c1 i = Some ?k"
      using get by (simp add: get_crypto_connection_iff c1 in_use_def)
    have "unat (buffer_end arr1 - buffer_start arr1) \<le> n"
      using Suc.prems(4) loop_decreases [OF ne] r1 by simp
    moreover have "flush n (buffer_start (recv_array ?k)) (pa_map (recv_array ?k)) = (ds', s', m')"
      unfolding ds' [symmetric] by (simp add: r1)
    ultimately obtain c' arr' where c': "read_loop E i c1 = Some (True, c')" "pa_inv arr'" "buffer_start arr' = s'"
      "pa_map arr' = m'" "crypto_connections c' = (crypto_connections c1)[conn_index i := ?k\<lparr>recv_array := arr'\<rparr>]"
      "nc_calls c' = nc_calls c1 @ data_calls (connection_data_callback k) ds'"
      using Suc.IH [OF get1, of ds'] r1(2,4,5) w by auto
    have "read_loop E i c = read_loop E i c1"
      unfolding read_loop.simps [of E i c] slot Option.bind.bind_lunit r Let_def fst_conv snd_conv Some c1_def [symmetric]
      by (simp add: r1(1) int_of_number s get1)
    moreover have "nc_calls c' = nc_calls c @ data_calls (connection_data_callback k) ds"
      using c'(6) c1(2) by (cases "connection_data_callback k") (simp_all add: ds)
    ultimately show ?thesis using c' c1(1) by auto
  qed
qed

section \<open>From one side to the other\<close>

lemma ntohl_htonl [simp]: "net_ntohl (net_htonl w) = w"
proof -
  have "host_bytes 4 (host_word (rev (host_bytes 4 w)) :: u32) = rev (host_bytes 4 w)"
    by (rule host_bytes_host_word) simp_all
  then show ?thesis by (simp add: net_ntohl_def net_htonl_def wire_simps)
qed

lemma skip_padding_replicate:
  "data \<noteq> [] \<Longrightarrow> hd data \<noteq> PACKET_ID_PADDING \<Longrightarrow> skip_padding (replicate n PACKET_ID_PADDING @ data) = Some data"
  by (induction n) (cases data; simp)+

text \<open>What \<^verbatim>\<open>handle_data_packet_core\<close> does with the contents of a packet it has opened.\<close>

definition handle_contents :: "nc_env \<Rightarrow> Net_Crypto \<Rightarrow> int \<Rightarrow> u32 \<Rightarrow> u32 \<Rightarrow> bytes \<Rightarrow> bool \<Rightarrow> (int \<times> Net_Crypto) option" where
  "handle_contents E c i start num data udp =
     (let (ok, t, arr) = release_sent (send_array (crypto_connections c ! conn_index i)) start;
          c = set_conn i (\<lambda>k. k\<lparr>send_array := arr\<rparr>) c
      in if \<not> ok then Some (- 1, c)
         else if hd data = PACKET_ID_KILL then do { c \<leftarrow> connection_kill E c i; Some (0, c) }
         else handle_real_data E (confirm_connection E c i) i num data udp t)"

lemma sent_packet_arrives:
  assumes "box_platform P" "plat (nh EA) = P" "plat (nh EB) = P"
    and a: "get_crypto_connection a i = Some ka" and b: "get_crypto_connection b j = Some kb"
    and "cc_shared_key ka = cc_shared_key kb" "length (recv_nonce kb) = 24"
    and "sent_nonce ka = increment_nonce_number (recv_nonce kb) (ucast (d :: u16))"
    and data: "data \<noteq> []" "length data \<le> 1373" "hd data \<noteq> PACKET_ID_PADDING"
  shows "\<exists>packet. send_data_packet_helper EA a i start num data =
      send_packet_to EA (set_conn i (\<lambda>k. k\<lparr>sent_nonce := increment_nonce (sent_nonce k)\<rparr>) a) i packet \<and>
    27 < length packet \<and> length packet \<le> 1400 \<and> hd packet = NET_PACKET_CRYPTO_DATA \<and>
    handle_data_packet_core EB b j packet udp = handle_contents EB
      (if uint d > 43690 then set_conn j (\<lambda>k. k\<lparr>recv_nonce := increment_nonce_number (recv_nonce k) 21845\<rparr>) b else b) j start num data udp"
proof -
  let ?pad = "replicate ((MAX_CRYPTO_DATA_SIZE - length data) mod CRYPTO_MAX_PADDING) PACKET_ID_PADDING"
  let ?plain = "host_bytes 4 (net_htonl start) @ host_bytes 4 (net_htonl num) @ ?pad @ data"
  let ?b = "if uint d > 43690 then set_conn j (\<lambda>k. k\<lparr>recv_nonce := increment_nonce_number (recv_nonce k) 21845\<rparr>) b else b"
  have "length ?pad \<le> 1373 - length data"
    by (simp add: size_defs order.trans [OF mod_less_eq_dividend])
  then have len: "?plain \<noteq> []" "length ?plain \<le> 1381" "8 < length ?plain" using data by auto
  from send_data_packet_opens [OF assms(1-8) len(1,2)] obtain packet where
    packet: "send_data_packet EA a i ?plain =
      send_packet_to EA (set_conn i (\<lambda>k. k\<lparr>sent_nonce := increment_nonce (sent_nonce k)\<rparr>) a) i packet"
      "length packet = length ?plain + 19" "hd packet = NET_PACKET_CRYPTO_DATA" "handle_data_packet EB b j packet = (Some ?plain, ?b)" by blast
  have "send_data_packet_helper EA a i start num data = send_data_packet EA a i ?plain"
    using data by (simp add: send_data_packet_helper_def Let_def size_defs)
  moreover have l: "27 < length packet" "length packet \<le> 1400" using packet(2) len by auto
  moreover have "handle_data_packet_core EB b j packet udp = handle_contents EB ?b j start num data udp"
  proof -
    have p: "take 4 ?plain = host_bytes 4 (net_htonl start)" "slice 4 4 ?plain = host_bytes 4 (net_htonl num)"
      "drop (4 * 2) ?plain = ?pad @ data" by (simp_all add: slice_def)
    have sizes: "\<not> (length packet > MAX_CRYPTO_PACKET_SIZE \<or> length packet \<le> CRYPTO_DATA_PACKET_MIN_SIZE)"
      using l by (simp add: size_defs)
    have g: "\<not> get_crypto_connection b j = None" "\<not> length ?plain \<le> 4 * 2" using b len(3) by simp_all
    show ?thesis
      unfolding handle_data_packet_core_def if_not_P [OF sizes] if_not_P [OF g(1)] packet(4) prod.case option.case if_not_P [OF g(2)] p
        skip_padding_replicate [OF data(1,3)] wire_simps ntohl_htonl handle_contents_def Let_def by (rule refl)
  qed
  ultimately show ?thesis using packet by (intro exI [of _ packet]) simp
qed

lemma far_from_last:
  assumes "unat s + 32768 < 2 ^ 32" "unat (e - s) \<le> 32768"
  shows "\<not> in_window s e (- 1 :: u32)"
proof -
  have "unat (- 1 - s) = 2 ^ 32 - 1 - unat s"
    using unat_sub [of s "- 1"] by (simp add: unsigned_minus_1_eq_mask mask_eq_exp_minus_1)
  then show ?thesis using assms by (simp add: in_window_def word_less_nat_alt)
qed

lemma update_rtt_get:
  assumes "get_crypto_connection c i = Some k"
  shows "\<exists>c' r. update_rtt E i t c = Some (0, c') \<and> get_crypto_connection c' i = Some (k\<lparr>rtt_time := r\<rparr>) \<and> nc_calls c' = nc_calls c"
proof (cases "t \<noteq> 0 \<and> clock_ms E - t < rtt_time k")
  case True
  then have "update_rtt E i t c = Some (0, set_conn i (\<lambda>k. k\<lparr>rtt_time := clock_ms E - t\<rparr>) c)"
    by (simp add: update_rtt_def conn_slot_get [OF assms] Let_def)
  moreover have "in_use (k\<lparr>rtt_time := clock_ms E - t\<rparr>)" using assms by (simp add: get_crypto_connection_iff in_use_def)
  ultimately show ?thesis using get_set_conn [OF assms, of "\<lambda>k. k\<lparr>rtt_time := clock_ms E - t\<rparr>"] by auto
next
  case False
  then have "update_rtt E i t c = Some (0, c)" by (auto simp: update_rtt_def conn_slot_get [OF assms] Let_def)
  then show ?thesis using assms by (intro exI [of _ c] exI [of _ "rtt_time k"]) simp
qed

definition lossless :: "bytes \<Rightarrow> bool" where
  "lossless data \<longleftrightarrow> data \<noteq> [] \<and> length data \<le> 1373 \<and> hd data \<ge> PACKET_ID_RANGE_LOSSLESS_START \<and> hd data \<le> PACKET_ID_RANGE_LOSSLESS_END"

text \<open>A packet as it is stored when it has arrived.\<close>

definition received :: "bytes \<Rightarrow> Packet_Data" where
  "received data = \<lparr>sent_time = 0, pd_length = of_nat (length data), pd_data = data\<rparr>"

lemma packet_bytes_received: "length data \<le> 1373 \<Longrightarrow> packet_bytes (received data) = data"
  by (simp add: packet_bytes_def received_def unat_of_nat)

lemma lossless_ids: "lossless data \<Longrightarrow> hd data \<notin> {PACKET_ID_PADDING, PACKET_ID_REQUEST, PACKET_ID_KILL}"
  by (auto simp: lossless_def size_defs word_le_nat_alt)

lemma lossless_handled:
  assumes "quiet E" "get_crypto_connection c i = Some k" "pa_inv (recv_array k)" "malloc_ok (plat (nh E)) sizeof_Packet_Data"
    and data: "lossless data"
    and num: "unat (num - buffer_start (recv_array k)) < 32768" "pa_map (recv_array k) num = None"
    and "unat (buffer_start (recv_array k)) + 32768 < 2 ^ 32"
    and flush: "flush 32768 (buffer_start (recv_array k)) ((pa_map (recv_array k))(num \<mapsto> received data)) = (ds, s', m')"
  shows "\<exists>c' k'. handle_real_data E c i num data udp t = Some (0, c') \<and> get_crypto_connection c' i = Some k' \<and>
    pa_inv (recv_array k') \<and> buffer_start (recv_array k') = s' \<and> pa_map (recv_array k') = m' \<and>
    nc_calls c' = nc_calls c @ data_calls (connection_data_callback k) ds \<and> send_array k' = send_array k"
proof -
  obtain r arr where add: "add_data_to_buffer (plat (nh E)) (recv_array k) num (received data) = (r, arr)" by fastforce
  with add_data_to_buffer_map [OF assms(3) add] num assms(4) have arr: "r = 0" "pa_inv arr" "buffer_start arr = buffer_start (recv_array k)"
    "pa_map arr = (pa_map (recv_array k))(num \<mapsto> received data)" by auto
  let ?k = "k\<lparr>recv_array := arr\<rparr>" and ?c = "set_conn i (\<lambda>k. k\<lparr>recv_array := arr\<rparr>) c"
  have get: "get_crypto_connection ?c i = Some ?k"
    using get_set_conn [OF assms(2), of "\<lambda>k. k\<lparr>recv_array := arr\<rparr>"] assms(2) by (simp add: get_crypto_connection_iff in_use_def)
  have fit: "unat (buffer_end arr - buffer_start arr) \<le> 32768" using arr(2) by (simp add: pa_inv_def)
  then have last: "\<not> in_window (buffer_start arr) (buffer_end arr) (- 1)"
    using assms(8) arr(3) by (intro far_from_last) simp_all
  obtain c1 arr' where c1: "read_loop E i ?c = Some (True, c1)" "pa_inv arr'" "buffer_start arr' = s'" "pa_map arr' = m'"
    "crypto_connections c1 = (crypto_connections ?c)[conn_index i := ?k\<lparr>recv_array := arr'\<rparr>]"
    "nc_calls c1 = nc_calls c @ data_calls (connection_data_callback k) ds"
    using read_loop_flush [OF assms(1) get, of 32768 ds s' m'] arr fit last flush by auto
  let ?inc = "\<lambda>k. k\<lparr>packet_counter := packet_counter k + 1\<rparr>"
  have "get_crypto_connection c1 i = Some (?k\<lparr>recv_array := arr'\<rparr>)"
    using get by (simp add: get_crypto_connection_iff c1(5) in_use_def)
  then have g: "get_crypto_connection (set_conn i ?inc c1) i = Some (?inc (?k\<lparr>recv_array := arr'\<rparr>))"
    by (intro get_set_conn) (simp_all add: get_crypto_connection_iff in_use_def)
  have kinds: "\<not> hd data = PACKET_ID_REQUEST" "hd data \<ge> PACKET_ID_RANGE_LOSSLESS_START \<and> hd data \<le> PACKET_ID_RANGE_LOSSLESS_END"
    using data lossless_ids [OF data] by (simp_all add: lossless_def)
  have "handle_real_data E c i num data udp t = update_rtt E i t (set_conn i ?inc c1)"
    unfolding handle_real_data_def conn_slot_get [OF assms(2)] Option.bind.bind_lunit if_not_P [OF kinds(1)] if_P [OF kinds(2)] Let_def
      received_def [symmetric] add prod.case c1(1) by (simp add: arr(1) c1(1))
  with update_rtt_get [OF g, of E t] c1 show ?thesis by auto
qed

text \<open>A packet acknowledges what the other side has sent: the packets below the number it carries are released.\<close>

lemma release_sent_map:
  assumes "pa_inv arr" "start - buffer_start arr \<le> num_packets_array arr"
  obtains t arr' where "release_sent arr start = (True, t, arr')" "pa_inv arr'" "buffer_start arr' = start" "buffer_end arr' = buffer_end arr"
    "pa_map arr' = (\<lambda>y. if in_window (buffer_start arr) start y then None else pa_map arr y)"
proof (cases "start = buffer_start arr")
  case True
  show ?thesis
    by (rule that [of 0 arr]) (use True assms(1) in \<open>simp_all add: release_sent_def in_window_def\<close>)
next
  case False
  obtain r arr' where c: "clear_buffer_until arr start = (r, arr')" by fastforce
  obtain t where "release_sent arr start = (r = 0, t, arr')" using False c by (simp add: release_sent_def Let_def)
  with clear_buffer_until_map [OF assms(1) c] False assms(2) show ?thesis by (intro that [of t arr']) simp_all
qed

lemma handle_contents_lossless:
  assumes "get_crypto_connection c i = Some k" "status k = CRYPTO_CONN_ESTABLISHED" "lossless data"
    and "release_sent (send_array k) start = (True, t, arr)"
  shows "handle_contents E c i start num data udp = handle_real_data E (set_conn i (\<lambda>x. x\<lparr>send_array := arr\<rparr>) c) i num data udp t"
proof -
  have k: "crypto_connections c ! conn_index i = k" "conn_index i < length (crypto_connections c)"
    using assms(1) by (simp_all add: get_crypto_connection_iff)
  have "confirm_connection E (set_conn i (\<lambda>x. x\<lparr>send_array := arr\<rparr>) c) i = set_conn i (\<lambda>x. x\<lparr>send_array := arr\<rparr>) c"
    using k assms(2) by (simp add: confirm_connection_def set_conn_def)
  then show ?thesis
    using k assms lossless_ids [OF assms(3)] by (simp add: handle_contents_def)
qed

lemma crypto_data_dispatch:
  assumes "get_crypto_connection c i = Some k" "status k = CRYPTO_CONN_ESTABLISHED" "27 < length packet" "length packet \<le> 1400"
    "hd packet = NET_PACKET_CRYPTO_DATA"
  shows "handle_packet_connection E c i packet udp = handle_data_packet_core E c i packet udp"
  using assms by (auto simp: handle_packet_connection_def handle_packet_crypto_data_def size_defs)

section \<open>Properties\<close>

text \<open>C18: A data packet reaches the other side: if the nonce of the sender is at most 65535 ahead of the one the receiver
  keeps, the receiver opens the packet to exactly the data that was sent. The receiver then follows: the next nonce of the sender is at
  most 43691 ahead, so up to 21844 packets in a row may be lost after every packet that arrives, also when the nonces wrap around.\<close>

theorem data_packet_window:
  assumes "box_platform P" "plat (nh EA) = P" "plat (nh EB) = P"
    and "get_crypto_connection a i = Some ka" and b: "get_crypto_connection b j = Some kb"
    and "cc_shared_key ka = cc_shared_key kb" "length (recv_nonce kb) = 24"
    and sync: "sent_nonce ka = increment_nonce_number (recv_nonce kb) (ucast (d :: u16))"
    and "data \<noteq> []" "length data \<le> MAX_CRYPTO_PACKET_SIZE - (1 + 2 + CRYPTO_MAC_SIZE)"
  shows "\<exists>packet b' kb' d'. send_data_packet EA a i data =
      send_packet_to EA (set_conn i (\<lambda>k. k\<lparr>sent_nonce := increment_nonce (sent_nonce k)\<rparr>) a) i packet \<and>
    handle_data_packet EB b j packet = (Some data, b') \<and> get_crypto_connection b' j = Some kb' \<and>
    increment_nonce (sent_nonce ka) = increment_nonce_number (recv_nonce kb') (ucast (d' :: u16)) \<and> d' \<le> 43691"
proof -
  let ?f = "\<lambda>k. k\<lparr>recv_nonce := increment_nonce_number (recv_nonce k) 21845\<rparr>"
  let ?b = "if uint d > 43690 then set_conn j ?f b else b" and ?kb = "if uint d > 43690 then ?f kb else kb"
  have "length data \<le> 1381" using assms(10) by (simp add: size_defs)
  from send_data_packet_opens [OF assms(1-9) this] obtain packet where
    p: "send_data_packet EA a i data = send_packet_to EA (set_conn i (\<lambda>k. k\<lparr>sent_nonce := increment_nonce (sent_nonce k)\<rparr>) a) i packet"
      "handle_data_packet EB b j packet = (Some data, ?b)" by blast
  have "get_crypto_connection (set_conn j ?f b) j = Some (?f kb)"
    using get_set_conn [OF b, of ?f] b by (simp add: get_crypto_connection_iff in_use_def)
  then have "get_crypto_connection ?b j = Some ?kb" using b by simp
  moreover obtain d' where "d' \<le> 43691" "increment_nonce (sent_nonce ka) = increment_nonce_number (recv_nonce ?kb) (ucast (d' :: u16))"
    using window_follows [OF assms(7), of d] unfolding sync by auto
  ultimately show ?thesis using p by blast
qed

text \<open>C16: Lossless packets are delivered in order. Packet \<open>num\<close> of an established connection, sent by one side with the start of its own
  receive window as the acknowledgement, is accepted by the other if the number is in its window and new, and the acknowledgement is
  of packets the other has sent. The receiver then calls its client for exactly the packets that are available without a gap from the
  start of the window, in the order of their numbers and each once, and takes them out; a packet after a gap waits. Of the packets it has
  sent itself it releases exactly the acknowledged ones. The hypothesis on the start of the window keeps away from packet number \<open>0xFFFFFFFF\<close>,
  which is lost.\<close>

theorem lossless_delivery:
  assumes "box_platform P" "plat (nh EA) = P" "plat (nh EB) = P" "quiet EB"
    and a: "get_crypto_connection a i = Some ka" and b: "get_crypto_connection b j = Some kb"
    and "cc_shared_key ka = cc_shared_key kb" "length (recv_nonce kb) = 24"
    and "sent_nonce ka = increment_nonce_number (recv_nonce kb) (ucast (d :: u16))"
    and "status kb = CRYPTO_CONN_ESTABLISHED" "pa_inv (recv_array kb)" "lossless data"
    and "unat (num - buffer_start (recv_array kb)) < 32768" "pa_map (recv_array kb) num = None"
    and "unat (buffer_start (recv_array kb)) + 32768 < 2 ^ 32"
    and flush: "flush 32768 (buffer_start (recv_array kb)) ((pa_map (recv_array kb))(num \<mapsto> received data)) = (ds, s', m')"
    and ack: "pa_inv (send_array kb)" "buffer_start (recv_array ka) - buffer_start (send_array kb) \<le> num_packets_array (send_array kb)"
  shows "\<exists>packet b' kb'. send_data_packet_helper EA a i (buffer_start (recv_array ka)) num data =
      send_packet_to EA (set_conn i (\<lambda>k. k\<lparr>sent_nonce := increment_nonce (sent_nonce k)\<rparr>) a) i packet \<and>
    handle_packet_connection EB b j packet udp = Some (0, b') \<and> get_crypto_connection b' j = Some kb' \<and>
    nc_calls b' = nc_calls b @ data_calls (connection_data_callback kb) ds \<and>
    pa_inv (recv_array kb') \<and> buffer_start (recv_array kb') = s' \<and> pa_map (recv_array kb') = m' \<and>
    pa_inv (send_array kb') \<and> buffer_start (send_array kb') = buffer_start (recv_array ka) \<and>
    buffer_end (send_array kb') = buffer_end (send_array kb) \<and>
    pa_map (send_array kb') = (\<lambda>y. if in_window (buffer_start (send_array kb)) (buffer_start (recv_array ka)) y then None
      else pa_map (send_array kb) y)"
proof -
  let ?f = "\<lambda>k. k\<lparr>recv_nonce := increment_nonce_number (recv_nonce k) 21845\<rparr>"
  let ?b = "if uint d > 43690 then set_conn j ?f b else b" and ?kb = "if uint d > 43690 then ?f kb else kb"
  let ?start = "buffer_start (recv_array ka)"
  have ll: "data \<noteq> []" "length data \<le> 1373" "hd data \<noteq> PACKET_ID_PADDING"
    using assms(12) lossless_ids [OF assms(12)] by (auto simp: lossless_def)
  obtain packet where p: "send_data_packet_helper EA a i ?start num data =
      send_packet_to EA (set_conn i (\<lambda>k. k\<lparr>sent_nonce := increment_nonce (sent_nonce k)\<rparr>) a) i packet"
      "27 < length packet" "length packet \<le> 1400" "hd packet = NET_PACKET_CRYPTO_DATA"
      "handle_data_packet_core EB b j packet udp = handle_contents EB ?b j ?start num data udp"
    using sent_packet_arrives [OF assms(1-3) a b assms(7-9) ll, of ?start num udp] by blast
  have "get_crypto_connection (set_conn j ?f b) j = Some (?f kb)"
    using get_set_conn [OF b, of ?f] b by (simp add: get_crypto_connection_iff in_use_def)
  then have get: "get_crypto_connection ?b j = Some ?kb" using b by simp
  have keep: "status ?kb = status kb" "recv_array ?kb = recv_array kb" "send_array ?kb = send_array kb"
    "connection_data_callback ?kb = connection_data_callback kb" "nc_calls ?b = nc_calls b" by simp_all
  obtain t arr where r: "release_sent (send_array ?kb) ?start = (True, t, arr)" "pa_inv arr" "buffer_start arr = ?start"
    "buffer_end arr = buffer_end (send_array kb)"
    "pa_map arr = (\<lambda>y. if in_window (buffer_start (send_array kb)) ?start y then None else pa_map (send_array kb) y)"
    unfolding keep by (rule release_sent_map [OF ack])
  let ?g = "\<lambda>x. x\<lparr>send_array := arr\<rparr>"
  have get': "get_crypto_connection (set_conn j ?g ?b) j = Some (?g ?kb)"
    using get_set_conn [OF get, of ?g] get by (simp add: get_crypto_connection_iff in_use_def)
  have keep': "recv_array (?g ?kb) = recv_array kb" "connection_data_callback (?g ?kb) = connection_data_callback kb"
    "nc_calls (set_conn j ?g ?b) = nc_calls b" "send_array (?g ?kb) = arr" by simp_all
  have mem: "malloc_ok (plat (nh EB)) sizeof_Packet_Data" using assms(1,3) box_platform.memory by blast
  have "handle_packet_connection EB b j packet udp = handle_real_data EB (set_conn j ?g ?b) j num data udp t"
    using crypto_data_dispatch [OF b assms(10) p(2-4)] p(5) handle_contents_lossless [OF get _ assms(12) r(1)] assms(10) keep by simp
  moreover obtain c' k' where "handle_real_data EB (set_conn j ?g ?b) j num data udp t = Some (0, c')" "get_crypto_connection c' j = Some k'"
    "pa_inv (recv_array k')" "buffer_start (recv_array k') = s'" "pa_map (recv_array k') = m'"
    "nc_calls c' = nc_calls b @ data_calls (connection_data_callback kb) ds" "send_array k' = arr"
    using lossless_handled [OF assms(4) get' _ mem assms(12), of num ds s' m' udp t] assms(11,13-15) flush unfolding keep' by blast
  ultimately show ?thesis using p(1) r(2-5) by (intro exI [of _ packet] exI [of _ c'] exI [of _ k']) simp
qed

text \<open>C36: Packet number \<open>0xFFFFFFFF\<close> is lost. When it is the next one the client waits for and it arrives, the handler reports success and
  moves the window past it, but the client is not called: the number is stored in an \<^verbatim>\<open>int\<close>, where it is the
  error value \<open>-1\<close> of \<^verbatim>\<open>read_data_beg_buffer\<close>.\<close>

theorem last_packet_number_lost:
  assumes "get_crypto_connection c i = Some k" "pa_inv (recv_array k)" "malloc_ok (plat (nh E)) sizeof_Packet_Data" "lossless data"
    and "buffer_start (recv_array k) = 0xFFFFFFFF" "pa_map (recv_array k) 0xFFFFFFFF = None"
  shows "\<exists>c' k'. handle_real_data E c i 0xFFFFFFFF data udp t = Some (0, c') \<and> nc_calls c' = nc_calls c \<and>
    get_crypto_connection c' i = Some k' \<and> buffer_start (recv_array k') = 0 \<and> pa_map (recv_array k') = pa_map (recv_array k)"
proof -
  obtain r arr where add: "add_data_to_buffer (plat (nh E)) (recv_array k) 0xFFFFFFFF (received data) = (r, arr)" by fastforce
  have arr: "r = 0" "pa_inv arr" "buffer_start arr = 0xFFFFFFFF" "pa_map arr = (pa_map (recv_array k))(0xFFFFFFFF \<mapsto> received data)"
    using add_data_to_buffer_map [OF assms(2) add] assms(3,5,6) by auto
  obtain q p arr1 where r: "read_data_beg_buffer arr = ((q, p), arr1)" by (metis surj_pair)
  note rd = read_data_beg_buffer_map [OF arr(2) r]
  have p: "p = Some (received data)" using rd(1) arr(3,4) by simp
  with rd(3) arr assms(6) have arr1: "q = uint (0xFFFFFFFF :: u32)" "buffer_start arr1 = 0" "pa_map arr1 = pa_map (recv_array k)"
    by (auto simp: fun_upd_idem)
  let ?put = "\<lambda>a. set_conn i (\<lambda>k. k\<lparr>recv_array := a\<rparr>)"
  have get: "get_crypto_connection (?put a c) i = Some (k\<lparr>recv_array := a\<rparr>)" for a
    using get_set_conn [OF assms(1), of "\<lambda>k. k\<lparr>recv_array := a\<rparr>"] assms(1) by (simp add: get_crypto_connection_iff in_use_def)
  have "sint (word_of_int q :: 32 word) = - 1" by (simp add: arr1(1))
  then have loop: "read_loop E i (?put arr c) = Some (True, ?put arr1 (?put arr c))"
    unfolding read_loop.simps [of E i "?put arr c"] conn_slot_get [OF get] Option.bind.bind_lunit Let_def by (simp add: r)
  let ?inc = "\<lambda>k. k\<lparr>packet_counter := packet_counter k + 1\<rparr>"
  have "in_use k" using assms(1) by (simp add: get_crypto_connection_iff)
  have g1: "get_crypto_connection (?put arr1 (?put arr c)) i = Some (k\<lparr>recv_array := arr1\<rparr>)"
    using get_set_conn [OF get, of "\<lambda>k. k\<lparr>recv_array := arr1\<rparr>" arr] assms(1) by (simp add: get_crypto_connection_iff in_use_def)
  have g: "get_crypto_connection (set_conn i ?inc (?put arr1 (?put arr c))) i = Some (?inc (k\<lparr>recv_array := arr1\<rparr>))"
    by (rule get_set_conn [OF g1, of ?inc]) (use \<open>in_use k\<close> in \<open>simp add: in_use_def\<close>)
  have kinds: "\<not> hd data = PACKET_ID_REQUEST" "hd data \<ge> PACKET_ID_RANGE_LOSSLESS_START \<and> hd data \<le> PACKET_ID_RANGE_LOSSLESS_END"
    using assms(4) lossless_ids [OF assms(4)] by (simp_all add: lossless_def)
  have "handle_real_data E c i 0xFFFFFFFF data udp t = update_rtt E i t (set_conn i ?inc (?put arr1 (?put arr c)))"
    unfolding handle_real_data_def conn_slot_get [OF assms(1)] Option.bind.bind_lunit if_not_P [OF kinds(1)] if_P [OF kinds(2)] Let_def
      received_def [symmetric] add prod.case loop by (simp add: arr(1) loop)
  with update_rtt_get [OF g, of E t] arr1 show ?thesis by auto
qed

section \<open>Examples\<close>

text \<open>An environment whose clients do nothing and whose TCP connections always succeed, and two nodes with one established connection.\<close>

definition example_env :: nc_env where
  "example_env = \<lparr>nh = xor_host, clock_ms = 1000000, junk = (0, 0), stack_mem = [], tcp = \<lambda>_ _. 0, tcp_relays = \<lambda>_ _. 0,
     on_status = \<lambda>_ _ c. c, on_data = \<lambda>_ _ c. c, on_lossy = \<lambda>_ _ c. c, on_dht_pk = \<lambda>_ _ c. c, on_new = \<lambda>_ _ c. (- 1, c)\<rparr>"

definition example_conn :: "u32 \<Rightarrow> Crypto_Connection" where
  "example_conn n = empty_crypto_connection\<lparr>status := CRYPTO_CONN_ESTABLISHED, recv_array := empty_at n,
     connection_data_callback := Some (1, 2, 3)\<rparr>"

definition example_connected :: "byte \<Rightarrow> u32 \<Rightarrow> Net_Crypto" where
  "example_connected x n = (example_net_crypto x)\<lparr>crypto_connections := [example_conn n]\<rparr>"

lemma example_connected_get: "get_crypto_connection (example_connected x n) 0 = Some (example_conn n)"
  by (simp add: get_crypto_connection_iff example_connected_def conn_index_def in_use_def example_conn_def)

lemma example_conn_sel [simp]:
  "recv_array (example_conn n) = empty_at n" "status (example_conn n) = CRYPTO_CONN_ESTABLISHED"
  "cc_shared_key (example_conn n) = replicate 32 0" "connection_data_callback (example_conn n) = Some (1, 2, 3)"
  "sent_nonce (example_conn n) = replicate 24 0" "recv_nonce (example_conn n) = replicate 24 0"
  by (simp_all add: example_conn_def empty_crypto_connection_def)

lemma example_sync: "replicate 24 0 = increment_nonce_number (replicate 24 0) (ucast (0 :: u16))"
  by code_simp

lemma quiet_example_env: "quiet example_env" by (simp add: quiet_def example_env_def)

lemma nh_example_env: "plat (nh example_env) = xor_platform" by (simp add: example_env_def plat_xor_host)

lemma lossless_example: "lossless [0x40, 7]" by (simp add: lossless_def size_defs)

theorem data_packet_window_witness:
  "\<exists>packet b' kb' d'. send_data_packet example_env (example_connected 5 0) 0 [7] =
      send_packet_to example_env (set_conn 0 (\<lambda>k. k\<lparr>sent_nonce := increment_nonce (sent_nonce k)\<rparr>) (example_connected 5 0)) 0 packet \<and>
    handle_data_packet example_env (example_connected 6 0) 0 packet = (Some [7], b') \<and> get_crypto_connection b' 0 = Some kb' \<and>
    increment_nonce (sent_nonce (example_conn 0)) = increment_nonce_number (recv_nonce kb') (ucast (d' :: u16)) \<and> d' \<le> 43691"
  by (rule data_packet_window [OF xor_box_platform nh_example_env nh_example_env example_connected_get example_connected_get, where d = 0])
    (use example_sync in \<open>simp_all add: size_defs\<close>)

definition example_sender :: Crypto_Connection where
  "example_sender = (example_conn 9)\<lparr>send_array := example_send\<rparr>"

text \<open>The packet carries the acknowledgement 6: packet 5 is released, packets 6 and 7 are kept.\<close>

theorem lossless_delivery_witness:
  "\<exists>packet b' kb'. send_data_packet_helper example_env (example_connected 5 6) 0 6 9 [0x40, 7] =
      send_packet_to example_env (set_conn 0 (\<lambda>k. k\<lparr>sent_nonce := increment_nonce (sent_nonce k)\<rparr>) (example_connected 5 6)) 0 packet \<and>
    handle_packet_connection example_env ((example_net_crypto 6)\<lparr>crypto_connections := [example_sender]\<rparr>) 0 packet True = Some (0, b') \<and>
    get_crypto_connection b' 0 = Some kb' \<and> nc_calls b' = [Cb_data (1, 2, 3) [0x40, 7]] \<and> buffer_start (recv_array kb') = 10 \<and>
    pa_map (send_array kb') 5 = None \<and> pa_map (send_array kb') 6 = Some (example_packet 60)"
proof -
  let ?b = "(example_net_crypto 6)\<lparr>crypto_connections := [example_sender]\<rparr>"
  have m: "pa_map (empty_at 9) = (\<lambda>_. None)" by (simp add: fun_eq_iff)
  have "(32768 :: nat) = Suc (Suc 32766)" by simp
  then have "flush 32768 9 ((pa_map (empty_at 9))(9 \<mapsto> received [0x40, 7])) = ([received [0x40, 7]], 10, (\<lambda>_. None))"
    by (simp only: flush.simps) (simp add: m fun_eq_iff)
  moreover have "get_crypto_connection ?b 0 = Some example_sender"
    by (simp add: get_crypto_connection_iff conn_index_def in_use_def example_sender_def)
  moreover have "recv_array example_sender = empty_at 9" "send_array example_sender = example_send" "status example_sender = CRYPTO_CONN_ESTABLISHED"
    "cc_shared_key example_sender = replicate 32 0" "recv_nonce example_sender = replicate 24 0"
    "connection_data_callback example_sender = Some (1, 2, 3)" by (simp_all add: example_sender_def)
  moreover have "buffer_start example_send = 5" "num_packets_array example_send = 3" "pa_map example_send 6 = Some (example_packet 60)"
    by (simp_all add: example_send_def num_packets_array_def pa_map_def in_window_def slot_def size_defs)
  moreover have "nc_calls ?b = []" by (simp add: example_net_crypto_def)
  ultimately show ?thesis
    using lossless_delivery [OF xor_box_platform nh_example_env nh_example_env quiet_example_env
        example_connected_get [of 5 6], where b = ?b and j = 0 and kb = example_sender and d = 0 and data = "[0x40, 7]" and num = 9 and udp = True]
      example_sync lossless_example example_send_inv by (fastforce simp: packet_bytes_received in_window_def)
qed

theorem last_packet_number_lost_witness:
  "\<exists>c' k'. handle_real_data example_env (example_connected 6 0xFFFFFFFF) 0 0xFFFFFFFF [0x40, 7] True 0 = Some (0, c') \<and> nc_calls c' = [] \<and>
    get_crypto_connection c' 0 = Some k' \<and> buffer_start (recv_array k') = 0"
  using last_packet_number_lost [OF example_connected_get [of 6 "0xFFFFFFFF"] _ _ lossless_example, of example_env True 0]
    nh_example_env box_platform.memory [OF xor_box_platform]
  by (auto simp: example_connected_def example_net_crypto_def)

end
