(* ===== verification/Onion_Route.thy ===== *)
theory Onion_Route
  imports Onion
begin

text \<open>
  What onion routing promises: the specification of a hop, and that three hops deliver a packet and its answer.
\<close>

section \<open>Addresses\<close>

definition addr_ok :: "IP_Port \<Rightarrow> bool" where
  "addr_ok a \<longleftrightarrow> (net_family_is_ipv4 (family (ip a)) \<or> net_family_is_ipv6 (family (ip a))) \<and> length (addr (ip a)) = 16"

text \<open>Reading an address into \<open>mem\<close>: for IPv4 the last twelve bytes of the union stay.\<close>

definition read_into :: "IP_Port \<Rightarrow> IP_Port \<Rightarrow> IP_Port" where
  "read_into mem a = a\<lparr>ip := (ip a)\<lparr>addr :=
     if net_family_is_ipv4 (family (ip a)) \<or> net_family_is_tox_tcp_ipv4 (family (ip a)) then set_v4 (v4 (ip a)) (addr (ip mem))
     else addr (ip a)\<rparr>\<rparr>"

lemma length_ipport_pack [simp]: "length (addr (ip a)) = 16 \<Longrightarrow> length (ipport_pack a) = 19"
  by (simp add: ipport_pack_def ip_pack_def v4_def size_defs)

lemma ipport_unpack_pack [wire_simps]:
  assumes "addr_ok a" "length (addr (ip mem)) = 16"
  shows "ipport_unpack mem (ipport_pack a @ rest) check = Some (read_into mem a)"
proof -
  have len: "length (addr (ip a)) = 16" and fam: "net_family_is_ipv4 (family (ip a)) \<or> net_family_is_ipv6 (family (ip a))"
    using assms(1) by (auto simp: addr_ok_def)
  have port: "slice 17 2 (ipport_pack a @ rest) = host_bytes 2 (port a)"
    using len by (simp add: ipport_pack_def ip_pack_def slice_def v4_def size_defs)
  show ?thesis
    using len fam assms(2) port length_ipport_pack [OF len]
    by (auto simp: ipport_unpack_def ip_unpack_def size_defs wire_simps Let_def read_into_def)
      (auto simp: ipport_pack_def ip_pack_def slice_def v4_def set_v4_def size_defs family_defs)
qed

definition same_address :: "IP_Port \<Rightarrow> IP_Port \<Rightarrow> bool" where
  "same_address a b \<longleftrightarrow> ip_equal (ip a) (ip b) \<and> port a = port b"

lemma read_into_same: "addr_ok a \<Longrightarrow> length (addr (ip mem)) = 16 \<Longrightarrow> same_address (read_into mem a) a"
  by (auto simp: same_address_def read_into_def ip_equal_def addr_ok_def v4_uint32_def v4_def set_v4_def write_at_def
      family_defs size_defs)

section \<open>Sealed return addresses\<close>

definition onion_ok :: "platform \<Rightarrow> Onion \<Rightarrow> bool" where
  "onion_ok P onion \<longleftrightarrow> (\<forall>c \<in> {shared_keys_1 onion, shared_keys_2 onion, shared_keys_3 onion}.
     cache_inv P c \<and> skc_timeout c = 0 \<and> self_secret_key c = dht_self_secret_key (o_dht onion))"

text \<open>\<open>ret\<close> is the address of \<open>src\<close> and the part \<open>inner\<close> of the relay before, encrypted with the relay's own key.\<close>

definition seals :: "platform \<Rightarrow> bytes \<Rightarrow> IP_Port \<Rightarrow> bytes \<Rightarrow> bytes \<Rightarrow> bool" where
  "seals P key src inner ret \<longleftrightarrow> (\<exists>n c. length n = 24 \<and>
     encrypt_data_symmetric P (Some key) n (ipport_pack src @ inner) = Some c \<and> ret = n @ c)"

lemma sealsE:
  assumes "box_platform P" "seals P key src inner ret" "length (addr (ip src)) = 16"
  obtains n c where "length n = 24" "length c = 35 + length inner" "ret = n @ c"
    "encrypt_data_symmetric P (Some key) n (ipport_pack src @ inner) = Some c"
    "decrypt_data_symmetric P (Some key) n c = Some (ipport_pack src @ inner)"
proof -
  obtain n c where c: "length n = 24" "encrypt_data_symmetric P (Some key) n (ipport_pack src @ inner) = Some c" "ret = n @ c"
    using assms(2) by (auto simp: seals_def)
  have "ipport_pack src \<noteq> []" by (simp add: ipport_pack_def ip_pack_def)
  then show thesis
    using that [OF c(1) _ c(3,2)] box_platform.encrypt_decrypt [OF assms(1), of "ipport_pack src @ inner" key n] c(2) assms(3) by simp
qed


text \<open>Sealing: what every relay does before it sends a packet on.\<close>

lemma sealing:
  assumes "box_platform P" "length (addr (ip src)) = 16" "o_random_nonce onion = (n, onion')"
  obtains c where "encrypt_data_symmetric P (Some key) n (ipport_pack src @ inner) = Some c" "length c = 35 + length inner"
    "seals P key src inner (n @ c)"
proof -
  have "length n = 24" using assms(3) by (auto simp: o_random_nonce_def dest: length_random_nonce split: prod.splits)
  moreover obtain c where "encrypt_data_symmetric P (Some key) n (ipport_pack src @ inner) = Some c" "length c = length (ipport_pack src @ inner) + 16"
    using box_platform.encrypt_decrypt [OF assms(1), of "ipport_pack src @ inner" key n] by (auto simp: ipport_pack_def ip_pack_def)
  ultimately show thesis using that assms(2) by (auto simp: seals_def)
qed

lemma o_random_nonce_frame:
  assumes "o_random_nonce onion = (n, onion')"
  shows "sent (o_dht onion') = sent (o_dht onion)" "o_secret_symmetric_key onion' = o_secret_symmetric_key onion"
  using assms by (auto simp: o_random_nonce_def split: prod.splits)

lemma change_symmetric_key_frame [simp]:
  "sent (o_dht (change_symmetric_key onion)) = sent (o_dht onion)"
  "shared_keys_1 (change_symmetric_key onion) = shared_keys_1 onion"
  "shared_keys_2 (change_symmetric_key onion) = shared_keys_2 onion"
  "shared_keys_3 (change_symmetric_key onion) = shared_keys_3 onion"
  by (simp_all add: change_symmetric_key_def Let_def split: prod.splits)

text \<open>A relay has handed on one packet, under the key it has after the check of its age.\<close>

definition relayed :: "Onion \<Rightarrow> IP_Port \<Rightarrow> bytes \<Rightarrow> Onion \<Rightarrow> bool" where
  "relayed onion a d onion' \<longleftrightarrow> sent (o_dht onion') = sent (o_dht onion) @ [(a, d)] \<and>
     o_secret_symmetric_key onion' = o_secret_symmetric_key (change_symmetric_key onion)"

lemma o_send_frame:
  "snd (case o_send h a d onion of (ok, onion) \<Rightarrow> (f ok, onion)) = onion\<lparr>o_dht := (o_dht onion)\<lparr>sent := sent (o_dht onion) @ [(a, d)]\<rparr>\<rparr>"
  by (simp add: o_send_def dht_send_def)

section \<open>The way out\<close>

lemma onion_send_1_hop:
  assumes "box_platform (plat h)" "addr_ok next" "length (addr (ip mem)) = 16" "length (addr (ip src)) = 16" "length nonce = 24"
    and "134 < length rest" "length rest \<le> 1316"
  shows "\<exists>ret. sent (o_dht (snd (onion_send_1 h mem onion (ipport_pack next @ rest) src (nonce @ tail)))) =
      sent (o_dht onion) @ [(read_into mem next, NET_PACKET_ONION_SEND_1 # nonce @ rest @ ret)] \<and>
    o_secret_symmetric_key (snd (onion_send_1 h mem onion (ipport_pack next @ rest) src (nonce @ tail))) = o_secret_symmetric_key onion \<and>
    seals (plat h) (o_secret_symmetric_key onion) src [] ret"
proof -
  obtain n o1 where n: "o_random_nonce onion = (n, o1)" by fastforce
  from sealing [OF assms(1,4) n, of "o_secret_symmetric_key onion" "[]"] obtain c where
    c: "encrypt_data_symmetric (plat h) (Some (o_secret_symmetric_key onion)) n (ipport_pack src) = Some c" "length c = 35"
    "seals (plat h) (o_secret_symmetric_key onion) src [] (n @ c)" by auto
  have len: "length (ipport_pack next) = 19" using assms(2) by (simp add: addr_ok_def)
  show ?thesis
    unfolding onion_send_1_def Let_def n prod.case o_random_nonce_frame [OF n] c(1) option.case ipport_unpack_pack [OF assms(2,3)]
    using len assms(5-7) c(2,3) o_random_nonce_frame [OF n]
    by (intro exI [of _ "n @ c"]) (simp add: size_defs o_send_frame)
qed


lemma layer_removed:
  assumes "box_platform P" "encrypt_data_symmetric P (Some k) nonce (ipport_pack next @ rest) = Some enc" "length (addr (ip next)) = 16"
  shows "decrypt_data_symmetric P (Some k) nonce enc = Some (ipport_pack next @ rest)" "length enc = 35 + length rest"
proof -
  have "ipport_pack next @ rest \<noteq> []" by (simp add: ipport_pack_def ip_pack_def)
  from box_platform.encrypt_decrypt [OF assms(1) this, of k nonce] assms(2,3)
  show "decrypt_data_symmetric P (Some k) nonce enc = Some (ipport_pack next @ rest)" "length enc = 35 + length rest" by auto
qed

lemma onion_lookup:
  assumes "cache_inv P c" "skc_timeout c = 0" "length pk = 32"
  obtains c' where "shared_key_cache_lookup P mt c pk = (encrypt_precompute P pk (self_secret_key c), c')"
  using cache_lookup [OF assms] by (metis surj_pair)

lemma handle_send_initial_hop:
  assumes "box_platform (plat h)" "onion_ok (plat h) onion" "addr_ok next" "length (addr (ip mem)) = 16" "length (addr (ip src)) = 16"
    and "length nonce = 24" "length pk = 32" "encrypt_precompute (plat h) pk (dht_self_secret_key (o_dht onion)) = Some k"
    and "encrypt_data_symmetric (plat h) (Some k) nonce (ipport_pack next @ rest) = Some enc"
    and "134 < length rest" "length rest \<le> 1308"
  shows "\<exists>ret. relayed onion (read_into mem next) (NET_PACKET_ONION_SEND_1 # nonce @ rest @ ret)
      (snd (handle_send_initial h mem onion src (NET_PACKET_ONION_SEND_INITIAL # nonce @ pk @ enc))) \<and>
    seals (plat h) (o_secret_symmetric_key (change_symmetric_key onion)) src [] ret"
proof -
  have len: "length (addr (ip next)) = 16" using assms(3) by (simp add: addr_ok_def)
  note layer = layer_removed [OF assms(1,9) len]
  let ?p = "NET_PACKET_ONION_SEND_INITIAL # nonce @ pk @ enc"
  have parts: "slice (1 + CRYPTO_NONCE_SIZE) CRYPTO_PUBLIC_KEY_SIZE ?p = pk" "slice 1 CRYPTO_NONCE_SIZE ?p = nonce"
    "drop (1 + CRYPTO_NONCE_SIZE + CRYPTO_PUBLIC_KEY_SIZE) ?p = enc" "drop 1 ?p = nonce @ pk @ enc"
    using assms(6,7) by (simp_all add: size_defs slice_def)
  obtain c' where look: "shared_key_cache_lookup (plat h) (dht_mono_time (o_dht (change_symmetric_key onion)))
      (shared_keys_1 (change_symmetric_key onion)) pk = (Some k, c')"
    using onion_lookup [of "plat h" "shared_keys_1 onion" pk] assms(2,7,8) by (auto simp: onion_ok_def)
  show ?thesis
    unfolding handle_send_initial_def Let_def parts look prod.case option.case layer(1)
    using onion_send_1_hop [OF assms(1,3-6,10), of "(change_symmetric_key onion)\<lparr>shared_keys_1 := c'\<rparr>"]
      layer(2) assms(6,7,10,11) len
    by (simp add: size_defs relayed_def)
qed

lemma drop_return_part: "length nonce = 24 \<Longrightarrow> length pk = 32 \<Longrightarrow> drop (57 + length enc) (b # nonce @ pk @ enc @ inner) = inner"
  by (simp add: drop_Cons')

lemma handle_send_1_hop:
  assumes "box_platform (plat h)" "onion_ok (plat h) onion" "addr_ok next" "length (addr (ip mem)) = 16" "length (addr (ip src)) = 16"
    and "length nonce = 24" "length pk = 32" "encrypt_precompute (plat h) pk (dht_self_secret_key (o_dht onion)) = Some k"
    and "encrypt_data_symmetric (plat h) (Some k) nonce (ipport_pack next @ rest) = Some enc" "length inner = 59"
    and "67 < length rest" "length rest \<le> 1249"
  shows "\<exists>ret. relayed onion (read_into mem next) (NET_PACKET_ONION_SEND_2 # nonce @ rest @ ret)
      (snd (handle_send_1 h mem onion src (NET_PACKET_ONION_SEND_1 # nonce @ pk @ enc @ inner))) \<and>
    seals (plat h) (o_secret_symmetric_key (change_symmetric_key onion)) src inner ret"
proof -
  have len: "length (addr (ip next)) = 16" using assms(3) by (simp add: addr_ok_def)
  note layer = layer_removed [OF assms(1,9) len]
  let ?p = "NET_PACKET_ONION_SEND_1 # nonce @ pk @ enc @ inner"
  have size: "length ?p = 116 + length enc" using assms(6,7,10) by simp
  have parts: "slice (1 + CRYPTO_NONCE_SIZE) CRYPTO_PUBLIC_KEY_SIZE ?p = pk" "slice 1 CRYPTO_NONCE_SIZE ?p = nonce"
    "slice (1 + CRYPTO_NONCE_SIZE + CRYPTO_PUBLIC_KEY_SIZE)
       (116 + length enc - (1 + CRYPTO_NONCE_SIZE + CRYPTO_PUBLIC_KEY_SIZE + ONION_RETURN_1)) ?p = enc"
    "drop (116 + length enc - ONION_RETURN_1) ?p = inner"
    using assms(6,7,10) drop_return_part [of nonce pk enc] by (simp_all add: size_defs slice_def)
  let ?o = "change_symmetric_key onion"
  obtain c' where look: "shared_key_cache_lookup (plat h) (dht_mono_time (o_dht ?o)) (shared_keys_2 ?o) pk = (Some k, c')"
    using onion_lookup [of "plat h" "shared_keys_2 onion" pk] assms(2,7,8) by (auto simp: onion_ok_def)
  obtain n o1 where n: "o_random_nonce (?o\<lparr>shared_keys_2 := c'\<rparr>) = (n, o1)" by fastforce
  note frame = o_random_nonce_frame [OF n, simplified]
  from sealing [OF assms(1,5) n, of "o_secret_symmetric_key ?o" inner] obtain c where
    c: "encrypt_data_symmetric (plat h) (Some (o_secret_symmetric_key ?o)) n (ipport_pack src @ inner) = Some c"
      "length c = 94" "seals (plat h) (o_secret_symmetric_key ?o) src inner (n @ c)" using assms(10) by auto
  show ?thesis
    unfolding handle_send_1_def size Let_def parts look prod.case option.case layer(1) ipport_unpack_pack [OF assms(3,4)] n frame c(1)
    using layer(2) assms(11,12) len c(2,3) frame
    by (intro exI [of _ "n @ c"]) (simp add: size_defs o_send_frame relayed_def)
qed

definition onion_request :: "byte \<Rightarrow> bool" where
  "onion_request packet_id \<longleftrightarrow>
     packet_id \<in> {NET_PACKET_ANNOUNCE_REQUEST, NET_PACKET_ANNOUNCE_REQUEST_OLD, NET_PACKET_ONION_DATA_REQUEST}"

lemma handle_send_2_hop:
  assumes "box_platform (plat h)" "onion_ok (plat h) onion" "addr_ok next" "length (addr (ip mem)) = 16" "length (addr (ip src)) = 16"
    and "length nonce = 24" "length pk = 32" "encrypt_precompute (plat h) pk (dht_self_secret_key (o_dht onion)) = Some k"
    and "encrypt_data_symmetric (plat h) (Some k) nonce (ipport_pack next @ rest) = Some enc" "length inner = 118"
    and "onion_request (hd rest)" "rest \<noteq> []" "length rest \<le> 1190"
  shows "\<exists>ret. relayed onion (read_into mem next) (rest @ ret)
      (snd (handle_send_2 h mem onion src (NET_PACKET_ONION_SEND_2 # nonce @ pk @ enc @ inner))) \<and>
    seals (plat h) (o_secret_symmetric_key (change_symmetric_key onion)) src inner ret"
proof -
  have len: "length (addr (ip next)) = 16" using assms(3) by (simp add: addr_ok_def)
  note layer = layer_removed [OF assms(1,9) len]
  let ?p = "NET_PACKET_ONION_SEND_2 # nonce @ pk @ enc @ inner"
  have size: "length ?p = 175 + length enc" using assms(6,7,10) by simp
  have parts: "slice (1 + CRYPTO_NONCE_SIZE) CRYPTO_PUBLIC_KEY_SIZE ?p = pk" "slice 1 CRYPTO_NONCE_SIZE ?p = nonce"
    "slice (1 + CRYPTO_NONCE_SIZE + CRYPTO_PUBLIC_KEY_SIZE)
       (175 + length enc - (1 + CRYPTO_NONCE_SIZE + CRYPTO_PUBLIC_KEY_SIZE + ONION_RETURN_2)) ?p = enc"
    "drop (175 + length enc - ONION_RETURN_2) ?p = inner"
    using assms(6,7,10) drop_return_part [of nonce pk enc] by (simp_all add: size_defs slice_def)
  let ?o = "change_symmetric_key onion"
  obtain c' where look: "shared_key_cache_lookup (plat h) (dht_mono_time (o_dht ?o)) (shared_keys_3 ?o) pk = (Some k, c')"
    using onion_lookup [of "plat h" "shared_keys_3 onion" pk] assms(2,7,8) by (auto simp: onion_ok_def)
  obtain n o1 where n: "o_random_nonce (?o\<lparr>shared_keys_3 := c'\<rparr>) = (n, o1)" by fastforce
  note frame = o_random_nonce_frame [OF n, simplified]
  from sealing [OF assms(1,5) n, of "o_secret_symmetric_key ?o" inner] obtain c where
    c: "encrypt_data_symmetric (plat h) (Some (o_secret_symmetric_key ?o)) n (ipport_pack src @ inner) = Some c"
      "length c = 153" "seals (plat h) (o_secret_symmetric_key ?o) src inner (n @ c)" using assms(10) by auto
  show ?thesis
    unfolding handle_send_2_def size Let_def parts look prod.case option.case layer(1) ipport_unpack_pack [OF assms(3,4)] n frame c(1)
    using layer(2) assms(11-13) len c(2,3) frame
    by (intro exI [of _ "n @ c"]) (simp add: size_defs o_send_frame relayed_def onion_request_def nth_append hd_conv_nth)
qed

section \<open>The way back\<close>

lemma handle_recv_3_hop:
  assumes "box_platform (plat h)" "seals (plat h) (o_secret_symmetric_key (change_symmetric_key onion)) src inner ret"
    and "addr_ok src" "length (addr (ip mem)) = 16" "length inner = 118" "resp \<noteq> []" "onion_response (hd resp)" "length resp \<le> 1222"
  shows "relayed onion (read_into mem src) (NET_PACKET_ONION_RECV_2 # inner @ resp)
    (snd (handle_recv_3 h mem onion from (NET_PACKET_ONION_RECV_3 # ret @ resp)))"
proof -
  have len: "length (addr (ip src)) = 16" using assms(3) by (simp add: addr_ok_def)
  let ?p = "NET_PACKET_ONION_RECV_3 # ret @ resp"
  from sealsE [OF assms(1,2) len] obtain n c where c: "length n = 24" "length c = 35 + length inner" "ret = n @ c"
    "decrypt_data_symmetric (plat h) (Some (o_secret_symmetric_key (change_symmetric_key onion))) n c = Some (ipport_pack src @ inner)"
    by metis
  have parts: "slice 1 CRYPTO_NONCE_SIZE ?p = n" "slice (1 + CRYPTO_NONCE_SIZE) (SIZE_IPPORT + ONION_RETURN_2 + CRYPTO_MAC_SIZE) ?p = c"
    "drop (1 + ONION_RETURN_3) ?p = resp" "?p ! (1 + ONION_RETURN_3) = hd resp" "length ?p = 178 + length resp"
    using c(1-3) assms(5,6) by (simp_all add: size_defs slice_def nth_append hd_conv_nth)
  show ?thesis
    unfolding handle_recv_3_def Let_def parts c(4) option.case ipport_unpack_pack [OF assms(3,4)]
    using assms(5-8) len by (simp add: size_defs o_send_frame relayed_def)
qed

lemma handle_recv_2_hop:
  assumes "box_platform (plat h)" "seals (plat h) (o_secret_symmetric_key (change_symmetric_key onion)) src inner ret"
    and "addr_ok src" "length (addr (ip mem)) = 16" "length inner = 59" "resp \<noteq> []" "onion_response (hd resp)" "length resp \<le> 1281"
  shows "relayed onion (read_into mem src) (NET_PACKET_ONION_RECV_1 # inner @ resp)
    (snd (handle_recv_2 h mem onion from (NET_PACKET_ONION_RECV_2 # ret @ resp)))"
proof -
  have len: "length (addr (ip src)) = 16" using assms(3) by (simp add: addr_ok_def)
  let ?p = "NET_PACKET_ONION_RECV_2 # ret @ resp"
  from sealsE [OF assms(1,2) len] obtain n c where c: "length n = 24" "length c = 35 + length inner" "ret = n @ c"
    "decrypt_data_symmetric (plat h) (Some (o_secret_symmetric_key (change_symmetric_key onion))) n c = Some (ipport_pack src @ inner)"
    by metis
  have parts: "slice 1 CRYPTO_NONCE_SIZE ?p = n" "slice (1 + CRYPTO_NONCE_SIZE) (SIZE_IPPORT + ONION_RETURN_1 + CRYPTO_MAC_SIZE) ?p = c"
    "drop (1 + ONION_RETURN_2) ?p = resp" "?p ! (1 + ONION_RETURN_2) = hd resp" "length ?p = 119 + length resp"
    using c(1-3) assms(5,6) by (simp_all add: size_defs slice_def nth_append hd_conv_nth)
  show ?thesis
    unfolding handle_recv_2_def Let_def parts c(4) option.case ipport_unpack_pack [OF assms(3,4)]
    using assms(5-8) len by (simp add: size_defs o_send_frame relayed_def)
qed

lemma handle_recv_1_hop:
  assumes "box_platform (plat h)" "seals (plat h) (o_secret_symmetric_key (change_symmetric_key onion)) src [] ret"
    and "addr_ok src" "length (addr (ip mem)) = 16" "resp \<noteq> []" "onion_response (hd resp)" "length resp \<le> 1340"
  shows "relayed onion (read_into mem src) resp (snd (handle_recv_1 h mem result onion from (NET_PACKET_ONION_RECV_1 # ret @ resp)))"
proof -
  have len: "length (addr (ip src)) = 16" using assms(3) by (simp add: addr_ok_def)
  have fam: "net_family_is_ipv4 (family (ip (read_into mem src))) \<or> net_family_is_ipv6 (family (ip (read_into mem src)))"
    using assms(3) by (simp add: addr_ok_def read_into_def)
  let ?p = "NET_PACKET_ONION_RECV_1 # ret @ resp"
  from sealsE [OF assms(1,2) len] obtain n c where c: "length n = 24" "length c = 35" "ret = n @ c"
    "decrypt_data_symmetric (plat h) (Some (o_secret_symmetric_key (change_symmetric_key onion))) n c = Some (ipport_pack src)"
    by (metis append_Nil2 list.size(3) add_0_right)
  have parts: "slice 1 CRYPTO_NONCE_SIZE ?p = n" "slice (1 + CRYPTO_NONCE_SIZE) (SIZE_IPPORT + CRYPTO_MAC_SIZE) ?p = c"
    "drop (1 + ONION_RETURN_1) ?p = resp" "?p ! (1 + ONION_RETURN_1) = hd resp" "length ?p = 60 + length resp"
    using c(1-3) assms(5) by (simp_all add: size_defs slice_def nth_append hd_conv_nth)
  show ?thesis
    unfolding handle_recv_1_def Let_def parts c(4) option.case ipport_unpack_pack [OF assms(3,4), where rest = "[]", unfolded append_Nil2]
    using assms(5-7) len fam by (auto simp: size_defs o_send_frame relayed_def split: option.split)
qed

section \<open>Building packets\<close>

lemma enc_onion:
  assumes "box_platform P" "length (addr (ip a)) = 16"
  obtains c where "encrypt_data_symmetric P (Some k) n (ipport_pack a @ rest) = Some c" "length c = 35 + length rest"
proof -
  have "ipport_pack a @ rest \<noteq> []" by (simp add: ipport_pack_def ip_pack_def)
  from box_platform.encrypt_decrypt [OF assms(1) this, of k n] assms(2) that show thesis by auto
qed

lemma create_onion_packet_layers:
  assumes "box_platform P" "list_all (\<lambda>a. length (addr (ip a)) = 16) [dest, ip_port2 path, ip_port3 path]"
    and "length (public_key2 path) = 32" "length (public_key3 path) = 32" "data \<noteq> []" "226 + length data \<le> max_len"
  obtains nonce enc3 enc2 enc1 r' where
    "create_onion_packet P r max_len path dest data = (Some (NET_PACKET_ONION_SEND_INITIAL # nonce @ public_key1 path @ enc1), r')"
    "length nonce = 24" "length enc2 = 102 + length data" "length enc3 = 35 + length data"
    "encrypt_data_symmetric P (Some (shared_key3 path)) nonce (ipport_pack dest @ data) = Some enc3"
    "encrypt_data_symmetric P (Some (shared_key2 path)) nonce (ipport_pack (ip_port3 path) @ public_key3 path @ enc3) = Some enc2"
    "encrypt_data_symmetric P (Some (shared_key1 path)) nonce (ipport_pack (ip_port2 path) @ public_key2 path @ enc2) = Some enc1"
proof -
  have a: "length (addr (ip dest)) = 16" "length (addr (ip (ip_port2 path))) = 16" "length (addr (ip (ip_port3 path))) = 16"
    using assms(2) by auto
  obtain nonce r' where n: "random_nonce r = (nonce, r')" by fastforce
  obtain enc3 where 3: "encrypt_data_symmetric P (Some (shared_key3 path)) nonce (ipport_pack dest @ data) = Some enc3"
    "length enc3 = 35 + length data" by (rule enc_onion [OF assms(1) a(1)])
  obtain enc2 where 2: "encrypt_data_symmetric P (Some (shared_key2 path)) nonce (ipport_pack (ip_port3 path) @ public_key3 path @ enc3) = Some enc2"
    "length enc2 = 35 + length (public_key3 path @ enc3)" by (rule enc_onion [OF assms(1) a(3)])
  obtain enc1 where 1: "encrypt_data_symmetric P (Some (shared_key1 path)) nonce (ipport_pack (ip_port2 path) @ public_key2 path @ enc2) = Some enc1"
    "length enc1 = 35 + length (public_key2 path @ enc2)" by (rule enc_onion [OF assms(1) a(2)])
  have "create_onion_packet P r max_len path dest data = (Some (NET_PACKET_ONION_SEND_INITIAL # nonce @ public_key1 path @ enc1), r')"
    unfolding create_onion_packet_def Let_def n prod.case 3(1) option.case 2(1) 1(1)
    using assms(3-6) 1(2) 2(2) 3(2) by (simp add: size_defs)
  then show thesis using length_random_nonce [OF n] 2 3 1(1) assms(4) that by simp
qed

section \<open>Three relays\<close>

definition keys_agree :: "platform \<Rightarrow> bytes \<times> bytes \<Rightarrow> bytes \<times> bytes \<Rightarrow> bool" where
  "keys_agree P a b \<longleftrightarrow> length (fst a) = 32 \<and>
     encrypt_precompute P (fst b) (snd a) = encrypt_precompute P (fst a) (snd b) \<and> encrypt_precompute P (fst a) (snd b) \<noteq> None"

definition keeps_key :: "Onion \<Rightarrow> Onion \<Rightarrow> bool" where
  "keeps_key onion onion' \<longleftrightarrow>
     o_secret_symmetric_key (change_symmetric_key onion') = o_secret_symmetric_key (change_symmetric_key onion)"

lemma create_onion_path_keys:
  assumes "create_onion_path P dht (Some p0) (Some [n1, n2, n3]) = (Some path, dht')"
    and "crypto_new_keypair (rng dht) = (kp2, r2)" "crypto_new_keypair r2 = (kp3, r3)"
    and "keys_agree P (self_public_key dht, dht_self_secret_key dht) (nf_public_key n1, sk1)"
    and "keys_agree P kp2 (nf_public_key n2, sk2)" "keys_agree P kp3 (nf_public_key n3, sk3)"
  shows "length (public_key1 path) = 32" "length (public_key2 path) = 32" "length (public_key3 path) = 32"
    "encrypt_precompute P (public_key1 path) sk1 = Some (shared_key1 path)"
    "encrypt_precompute P (public_key2 path) sk2 = Some (shared_key2 path)"
    "encrypt_precompute P (public_key3 path) sk3 = Some (shared_key3 path)"
    "ip_port2 path = nf_ip_port n2" "ip_port3 path = nf_ip_port n3"
  using assms by (auto simp: create_onion_path_def precomputed_def keys_agree_def Let_def split: prod.splits option.splits)

lemma onion_way_out:
  assumes "box_platform P" "plat h1 = P" "plat h2 = P" "plat h3 = P" "onion_ok P o1" "onion_ok P o2" "onion_ok P o3"
    and "encrypt_precompute P (public_key1 path) (dht_self_secret_key (o_dht o1)) = Some (shared_key1 path)"
    and "encrypt_precompute P (public_key2 path) (dht_self_secret_key (o_dht o2)) = Some (shared_key2 path)"
    and "encrypt_precompute P (public_key3 path) (dht_self_secret_key (o_dht o3)) = Some (shared_key3 path)"
    and "length (public_key1 path) = 32" "length (public_key2 path) = 32" "length (public_key3 path) = 32"
    and ok: "list_all addr_ok [ip_port2 path, ip_port3 path, dest, client, s1, s2]" and mem: "length (addr (ip mem)) = 16"
    and data: "data \<noteq> []" "onion_request (hd data)" "length data \<le> ONION_MAX_DATA_SIZE"
  shows "\<exists>packet r' p2 p3 ret1 ret2 ret3.
    create_onion_packet P r ONION_MAX_PACKET_SIZE path dest data = (Some packet, r') \<and>
    relayed o1 (read_into mem (ip_port2 path)) p2 (snd (handle_send_initial h1 mem o1 client packet)) \<and>
    relayed o2 (read_into mem (ip_port3 path)) p3 (snd (handle_send_1 h2 mem o2 s1 p2)) \<and>
    relayed o3 (read_into mem dest) (data @ ret3) (snd (handle_send_2 h3 mem o3 s2 p3)) \<and>
    seals P (o_secret_symmetric_key (change_symmetric_key o1)) client [] ret1 \<and>
    seals P (o_secret_symmetric_key (change_symmetric_key o2)) s1 ret1 ret2 \<and>
    seals P (o_secret_symmetric_key (change_symmetric_key o3)) s2 ret2 ret3"
proof -
  have a: "addr_ok (ip_port2 path)" "addr_ok (ip_port3 path)" "addr_ok dest" and
    len: "length (addr (ip dest)) = 16" "length (addr (ip (ip_port2 path))) = 16" "length (addr (ip (ip_port3 path))) = 16"
      "length (addr (ip client)) = 16" "length (addr (ip s1)) = 16" "length (addr (ip s2)) = 16"
    using ok by (auto simp: addr_ok_def)
  have max: "226 + length data \<le> ONION_MAX_PACKET_SIZE" using data(3) by (simp add: size_defs)
  have "list_all (\<lambda>a. length (addr (ip a)) = 16) [dest, ip_port2 path, ip_port3 path]" using len by simp
  from create_onion_packet_layers [OF assms(1) this assms(12,13) data(1) max] obtain nonce enc3 enc2 enc1 r' where
    p: "create_onion_packet P r ONION_MAX_PACKET_SIZE path dest data = (Some (NET_PACKET_ONION_SEND_INITIAL # nonce @ public_key1 path @ enc1), r')"
      "length nonce = 24" "length enc2 = 102 + length data" "length enc3 = 35 + length data"
    and enc: "encrypt_data_symmetric P (Some (shared_key3 path)) nonce (ipport_pack dest @ data) = Some enc3"
      "encrypt_data_symmetric P (Some (shared_key2 path)) nonce (ipport_pack (ip_port3 path) @ public_key3 path @ enc3) = Some enc2"
      "encrypt_data_symmetric P (Some (shared_key1 path)) nonce (ipport_pack (ip_port2 path) @ public_key2 path @ enc2) = Some enc1" .
  have d: "0 < length data" "length data \<le> 1174" using data by (auto simp: size_defs)
  from handle_send_initial_hop [of h1 o1 "ip_port2 path" mem client nonce, unfolded assms(2),
      OF assms(1,5) a(1) mem len(4) p(2) assms(11,8) enc(3)] assms(12) p(3) d
  obtain ret1 where 1: "relayed o1 (read_into mem (ip_port2 path)) (NET_PACKET_ONION_SEND_1 # nonce @ public_key2 path @ enc2 @ ret1)
      (snd (handle_send_initial h1 mem o1 client (NET_PACKET_ONION_SEND_INITIAL # nonce @ public_key1 path @ enc1)))"
    "seals P (o_secret_symmetric_key (change_symmetric_key o1)) client [] ret1" by auto
  have l1: "length ret1 = 59" by (rule sealsE [OF assms(1) 1(2) len(4)]) simp
  from handle_send_1_hop [of h2 o2 "ip_port3 path" mem s1 nonce, unfolded assms(3),
      OF assms(1,6) a(2) mem len(5) p(2) assms(12,9) enc(2) l1] assms(13) p(4) d
  obtain ret2 where 2: "relayed o2 (read_into mem (ip_port3 path)) (NET_PACKET_ONION_SEND_2 # nonce @ public_key3 path @ enc3 @ ret2)
      (snd (handle_send_1 h2 mem o2 s1 (NET_PACKET_ONION_SEND_1 # nonce @ public_key2 path @ enc2 @ ret1)))"
    "seals P (o_secret_symmetric_key (change_symmetric_key o2)) s1 ret1 ret2" by auto
  have l2: "length ret2 = 118" by (rule sealsE [OF assms(1) 2(2) len(5)]) (simp add: l1)
  from handle_send_2_hop [of h3 o3 dest mem s2 nonce, unfolded assms(4),
      OF assms(1,7) a(3) mem len(6) p(2) assms(13,10) enc(1) l2 data(2,1)] d
  obtain ret3 where "relayed o3 (read_into mem dest) (data @ ret3) (snd (handle_send_2 h3 mem o3 s2 (NET_PACKET_ONION_SEND_2 # nonce @ public_key3 path @ enc3 @ ret2)))"
    "seals P (o_secret_symmetric_key (change_symmetric_key o3)) s2 ret2 ret3" by auto
  with p(1) 1 2 show ?thesis by blast
qed

lemma onion_way_back:
  assumes "box_platform P" "plat h1 = P" "plat h2 = P" "plat h3 = P"
    and "seals P (o_secret_symmetric_key (change_symmetric_key o1)) client [] ret1"
    and "seals P (o_secret_symmetric_key (change_symmetric_key o2)) s1 ret1 ret2"
    and "seals P (o_secret_symmetric_key (change_symmetric_key o3)) s2 ret2 ret3"
    and ok: "list_all addr_ok [client, s1, s2]" and mem: "length (addr (ip mem)) = 16"
    and resp: "resp \<noteq> []" "onion_response (hd resp)" "length resp \<le> ONION_RESPONSE_MAX_DATA_SIZE"
  shows "\<exists>q3 q2 q1. sent (snd (send_onion_response h4 d4 s3 resp ret3)) = sent d4 @ [(s3, q3)] \<and>
    relayed o3 (read_into mem s2) q2 (snd (handle_recv_3 h3 mem o3 f3 q3)) \<and>
    relayed o2 (read_into mem s1) q1 (snd (handle_recv_2 h2 mem o2 f2 q2)) \<and>
    relayed o1 (read_into mem client) resp (snd (handle_recv_1 h1 mem res o1 f1 q1)) \<and> length ret3 = ONION_RETURN_3"
proof -
  have len: "length (addr (ip client)) = 16" "length (addr (ip s1)) = 16" "length (addr (ip s2)) = 16" using ok by (auto simp: addr_ok_def)
  have a: "addr_ok client" "addr_ok s1" "addr_ok s2" using ok by auto
  have l1: "length ret1 = 59" by (rule sealsE [OF assms(1,5) len(1)]) simp
  have l2: "length ret2 = 118" by (rule sealsE [OF assms(1,6) len(2)]) (simp add: l1)
  have l3: "length ret3 = 177" by (rule sealsE [OF assms(1,7) len(3)]) (simp add: l2)
  have l3': "length ret3 = ONION_RETURN_3" using l3 by (simp add: size_defs)
  have max: "length resp \<le> 1222" "length resp \<le> 1281" "length resp \<le> 1340" using resp(3) by (simp_all add: size_defs)
  have "sent (snd (send_onion_response h4 d4 s3 resp ret3)) = sent d4 @ [(s3, NET_PACKET_ONION_RECV_3 # ret3 @ resp)]"
    using resp(1,3) l3 by (simp add: send_onion_response_def Let_def dht_send_def size_defs)
  then show ?thesis
    using handle_recv_3_hop [of h3, unfolded assms(4), OF assms(1,7) a(3) mem l2 resp(1,2) max(1)]
      handle_recv_2_hop [of h2, unfolded assms(3), OF assms(1,6) a(2) mem l1 resp(1,2) max(2)]
      handle_recv_1_hop [of h1, unfolded assms(2), OF assms(1,5) a(1) mem resp(1,2) max(3)] l3' by blast
qed

section \<open>Properties\<close>

text \<open>C2: A packet built for a path of three relays, handed from relay to relay, reaches its destination with exactly the data of the client, followed by
  177 bytes of sealed return addresses; an answer sent with these bytes comes back through the same relays, each of which sends it to the
  address it got the request from, and the client receives exactly the answer. The relays keep no
  state in between but their symmetric keys, which must not have been replaced.\<close>

theorem onion_round_trip:
  assumes "box_platform P" "plat h1 = P" "plat h2 = P" "plat h3 = P"
    and "onion_ok P o1" "onion_ok P o2" "onion_ok P o3"
    and "create_onion_path P dht (Some p0) (Some [n1, n2, n3]) = (Some path, dht')"
    and "crypto_new_keypair (rng dht) = (kp2, r2)" "crypto_new_keypair r2 = (kp3, r3)"
    and "keys_agree P (self_public_key dht, dht_self_secret_key dht) (nf_public_key n1, dht_self_secret_key (o_dht o1))"
    and "keys_agree P kp2 (nf_public_key n2, dht_self_secret_key (o_dht o2))"
    and "keys_agree P kp3 (nf_public_key n3, dht_self_secret_key (o_dht o3))"
    and ok: "list_all addr_ok [nf_ip_port n2, nf_ip_port n3, dest, client, s1, s2]" and mem: "length (addr (ip mem)) = 16"
    and data: "data \<noteq> []" "onion_request (hd data)" "length data \<le> ONION_MAX_DATA_SIZE"
    and resp: "resp \<noteq> []" "onion_response (hd resp)" "length resp \<le> ONION_RESPONSE_MAX_DATA_SIZE"
    and kept: "keeps_key o1 o1'" "keeps_key o2 o2'" "keeps_key o3 o3'"
  shows "\<exists>packet r' a2 p2 a3 p3 a4 ret q3 b2 q2 b1 q1 b0.
    create_onion_packet P r ONION_MAX_PACKET_SIZE path dest data = (Some packet, r') \<and>
    relayed o1 a2 p2 (snd (handle_send_initial h1 mem o1 client packet)) \<and> same_address a2 (nf_ip_port n2) \<and>
    relayed o2 a3 p3 (snd (handle_send_1 h2 mem o2 s1 p2)) \<and> same_address a3 (nf_ip_port n3) \<and>
    relayed o3 a4 (data @ ret) (snd (handle_send_2 h3 mem o3 s2 p3)) \<and> same_address a4 dest \<and> length ret = ONION_RETURN_3 \<and>
    sent (snd (send_onion_response h4 d4 s3 resp ret)) = sent d4 @ [(s3, q3)] \<and>
    relayed o3' b2 q2 (snd (handle_recv_3 h3 mem o3' f3 q3)) \<and> same_address b2 s2 \<and>
    relayed o2' b1 q1 (snd (handle_recv_2 h2 mem o2' f2 q2)) \<and> same_address b1 s1 \<and>
    relayed o1' b0 resp (snd (handle_recv_1 h1 mem res o1' f1 q1)) \<and> same_address b0 client"
proof -
  note path = create_onion_path_keys [OF assms(8-13)]
  have ok': "list_all addr_ok [ip_port2 path, ip_port3 path, dest, client, s1, s2]" "list_all addr_ok [client, s1, s2]"
    using ok path(7,8) by auto
  have same: "same_address (read_into mem a) a" if "a \<in> {nf_ip_port n2, nf_ip_port n3, dest, client, s1, s2}" for a
    using that ok by (intro read_into_same mem) auto
  from onion_way_out [OF assms(1-7) path(4-6,1-3) ok'(1) mem data, of r] obtain packet r' p2 p3 ret1 ret2 ret3 where
    out: "create_onion_packet P r ONION_MAX_PACKET_SIZE path dest data = (Some packet, r')"
      "relayed o1 (read_into mem (nf_ip_port n2)) p2 (snd (handle_send_initial h1 mem o1 client packet))"
      "relayed o2 (read_into mem (nf_ip_port n3)) p3 (snd (handle_send_1 h2 mem o2 s1 p2))"
      "relayed o3 (read_into mem dest) (data @ ret3) (snd (handle_send_2 h3 mem o3 s2 p3))" and
    seals: "seals P (o_secret_symmetric_key (change_symmetric_key o1)) client [] ret1"
      "seals P (o_secret_symmetric_key (change_symmetric_key o2)) s1 ret1 ret2"
      "seals P (o_secret_symmetric_key (change_symmetric_key o3)) s2 ret2 ret3" unfolding path(7,8) by metis
  note seals' = seals [folded kept [unfolded keeps_key_def]]
  show ?thesis
    using out onion_way_back [OF assms(1-4) seals' ok'(2) mem resp, of h4 d4 s3 f3 f2 res f1] same by blast
qed

definition example_onion :: "byte \<Rightarrow> Onion" where
  "example_onion k = \<lparr>o_dht = example_node_dht k, o_secret_symmetric_key = replicate 32 k, o_timestamp = 1000,
     shared_keys_1 = new_cache (replicate 32 k), shared_keys_2 = new_cache (replicate 32 k), shared_keys_3 = new_cache (replicate 32 k),
     recv_1_function = None, o_called = []\<rparr>"

definition example_relay :: "byte \<Rightarrow> Node_format" where
  "example_relay k = \<lparr>nf_public_key = replicate 32 k, nf_ip_port = example_ipp\<lparr>port := ucast k\<rparr>\<rparr>"

definition empty_path :: Onion_Path where
  "empty_path = \<lparr>shared_key1 = [], shared_key2 = [], shared_key3 = [], public_key1 = [], public_key2 = [], public_key3 = [],
     ip_port1 = empty_ip_port, node_public_key1 = [], ip_port2 = empty_ip_port, node_public_key2 = [],
     ip_port3 = empty_ip_port, node_public_key3 = [], path_num = 0\<rparr>"

theorem onion_round_trip_witness:
  "\<exists>path packet r' a2 p2 a3 p3 a4 ret q3 b2 q2 b1 q1 b0.
    fst (create_onion_path xor_platform ((example_node_dht 5)\<lparr>rng := counting_random\<rparr>) (Some empty_path)
      (Some [example_relay 6, example_relay 7, example_relay 8])) = Some path \<and>
    create_onion_packet xor_platform counting_random ONION_MAX_PACKET_SIZE path example_ipp [NET_PACKET_ONION_DATA_REQUEST, 42] = (Some packet, r') \<and>
    relayed (example_onion 6) a2 p2 (snd (handle_send_initial xor_host empty_ip_port (example_onion 6) example_ipp packet)) \<and>
    relayed (example_onion 7) a3 p3 (snd (handle_send_1 xor_host empty_ip_port (example_onion 7) example_ipp p2)) \<and>
    relayed (example_onion 8) a4 ([NET_PACKET_ONION_DATA_REQUEST, 42] @ ret) (snd (handle_send_2 xor_host empty_ip_port (example_onion 8) example_ipp p3)) \<and>
    same_address a4 example_ipp \<and>
    sent (snd (send_onion_response xor_host (example_node_dht 9) example_ipp [NET_PACKET_ONION_DATA_RESPONSE, 43] ret)) = [(example_ipp, q3)] \<and>
    relayed (example_onion 8) b2 q2 (snd (handle_recv_3 xor_host empty_ip_port (example_onion 8) example_ipp q3)) \<and>
    relayed (example_onion 7) b1 q1 (snd (handle_recv_2 xor_host empty_ip_port (example_onion 7) example_ipp q2)) \<and>
    relayed (example_onion 6) b0 [NET_PACKET_ONION_DATA_RESPONSE, 43] (snd (handle_recv_1 xor_host empty_ip_port 0 (example_onion 6) example_ipp q1)) \<and>
    same_address b0 example_ipp"
proof -
  let ?d = "(example_node_dht 5)\<lparr>rng := counting_random\<rparr>"
  have ok: "onion_ok xor_platform (example_onion k)" for k
    by (simp add: onion_ok_def example_onion_def new_cache_def cache_inv_def example_node_dht)
  have sk: "dht_self_secret_key (o_dht (example_onion k)) = replicate 32 k" for k by (simp add: example_onion_def example_node_dht)
  have agree: "keys_agree xor_platform (replicate 32 j, replicate 32 j) (replicate 32 k, replicate 32 k)" for j k :: byte
    by (simp add: keys_agree_def encrypt_precompute_def xor_platform_def xor_bytes_def zip_replicate xor.commute)
  have kp: "crypto_new_keypair (rng ?d) = ((replicate 32 1, replicate 32 1), counting_random\<lparr>r_pos := 2\<rparr>)"
    "crypto_new_keypair (counting_random\<lparr>r_pos := 2\<rparr>) = ((replicate 32 2, replicate 32 2), counting_random\<lparr>r_pos := 3\<rparr>)"
    by (simp_all add: crypto_new_keypair_def counting_random_def)
  obtain path d' where path: "create_onion_path xor_platform ?d (Some empty_path) (Some [example_relay 6, example_relay 7, example_relay 8]) = (Some path, d')"
    using kp by (simp add: create_onion_path_def Let_def)
  have ks: "keys_agree xor_platform (self_public_key ?d, dht_self_secret_key ?d) (nf_public_key (example_relay 6), dht_self_secret_key (o_dht (example_onion 6)))"
    "keys_agree xor_platform (replicate 32 1, replicate 32 1) (nf_public_key (example_relay 7), dht_self_secret_key (o_dht (example_onion 7)))"
    "keys_agree xor_platform (replicate 32 2, replicate 32 2) (nf_public_key (example_relay 8), dht_self_secret_key (o_dht (example_onion 8)))"
    using agree by (simp_all add: sk example_node_dht example_relay_def)
  have addrs: "list_all addr_ok [nf_ip_port (example_relay 7), nf_ip_port (example_relay 8), example_ipp, example_ipp, example_ipp, example_ipp]"
    by (simp add: addr_ok_def example_relay_def example_ipp_def family_defs)
  have mem: "length (addr (ip empty_ip_port)) = 16" by (simp add: empty_ip_port_def empty_ip_def)
  have req: "[NET_PACKET_ONION_DATA_REQUEST, 42] \<noteq> []" "onion_request (hd [NET_PACKET_ONION_DATA_REQUEST, 42])"
    "length [NET_PACKET_ONION_DATA_REQUEST, 42] \<le> ONION_MAX_DATA_SIZE" by (simp_all add: onion_request_def size_defs)
  have resp: "[NET_PACKET_ONION_DATA_RESPONSE, 43] \<noteq> []" "onion_response (hd [NET_PACKET_ONION_DATA_RESPONSE, 43])"
    "length [NET_PACKET_ONION_DATA_RESPONSE, 43] \<le> ONION_RESPONSE_MAX_DATA_SIZE" by (simp_all add: onion_response_def size_defs)
  have kept: "keeps_key onion onion" for onion by (simp add: keeps_key_def)
  show ?thesis
    using onion_round_trip [OF xor_box_platform plat_xor_host plat_xor_host plat_xor_host ok ok ok path kp ks addrs mem req resp kept kept kept,
        of counting_random xor_host "example_node_dht 9" example_ipp example_ipp example_ipp 0 example_ipp] path
    unfolding example_node_dht append_Nil by (metis fst_conv)
qed

end
