(* ===== verification/Group_Announce.thy ===== *)
theory Group_Announce
  imports DHT_Packets Mono_Time "HOL-Library.Monad_Syntax"
begin

text \<open>
  Announces of group chats, \<^verbatim>\<open>toxcore/group_announce.c\<close>: how an announce is packed and unpacked, and the store of announces, a doubly linked
  list of groups with the last 16 announces of each.

  The nodes of the list live in a heap from addresses to structures; reading a null or dangling pointer, or past an array, and an
  endless walk are the result \<open>None\<close>. The address \<^verbatim>\<open>calloc\<close> returns is an argument of the operation that allocates.

  Shown here: the list implements a finite map from groups to their announces (locale \<open>announce_store\<close>), and a packed announce
  is read back.
\<close>

section \<open>Announces and their encoding\<close>

definition CHAT_ID_SIZE :: nat where [size_defs]: "CHAT_ID_SIZE = SIG_PUBLIC_KEY_SIZE"
definition GCA_MAX_SAVED_ANNOUNCES_PER_GC :: nat where [size_defs]: "GCA_MAX_SAVED_ANNOUNCES_PER_GC = 16"
definition GCA_MAX_ANNOUNCED_TCP_RELAYS :: nat where [size_defs]: "GCA_MAX_ANNOUNCED_TCP_RELAYS = 1"
definition GCA_MAX_SENT_ANNOUNCES :: nat where [size_defs]: "GCA_MAX_SENT_ANNOUNCES = 4"
definition GCA_ANNOUNCE_MAX_SIZE :: nat where
  [size_defs]: "GCA_ANNOUNCE_MAX_SIZE = ENC_PUBLIC_KEY_SIZE + 1 + 1 + PACKED_NODE_SIZE_IP6 * 2"
definition GCA_PUBLIC_ANNOUNCE_MAX_SIZE :: nat where
  [size_defs]: "GCA_PUBLIC_ANNOUNCE_MAX_SIZE = ENC_PUBLIC_KEY_SIZE + GCA_ANNOUNCE_MAX_SIZE"
definition GCA_ANNOUNCE_SAVE_TIMEOUT :: u64 where [size_defs]: "GCA_ANNOUNCE_SAVE_TIMEOUT = 30"
definition GCA_DO_GCA_TIMEOUT :: u64 where [size_defs]: "GCA_DO_GCA_TIMEOUT = 1"

record GC_Announce =
  ga_tcp_relays :: "Node_format list"
  tcp_relays_count :: byte
  ip_port_is_set :: bool
  ga_ip_port :: IP_Port
  peer_public_key :: bytes

record GC_Peer_Announce =
  base_announce :: GC_Announce
  ga_timestamp :: u64

record GC_Public_Announce =
  public_base_announce :: GC_Announce
  chat_public_key :: bytes

definition gca_is_valid_announce :: "GC_Announce option \<Rightarrow> bool" where
  "gca_is_valid_announce announce =
     (case announce of None \<Rightarrow> False | Some a \<Rightarrow> tcp_relays_count a > 0 \<or> ip_port_is_set a)"

definition gca_pack_announces_list_size :: "u16 \<Rightarrow> u16" where
  "gca_pack_announces_list_size count = count * of_nat GCA_ANNOUNCE_MAX_SIZE"

text \<open>The inner option is the result \<^verbatim>\<open>-1\<close>. More relays than the array holds are read past its end.\<close>

definition gca_pack_announce :: "nat \<Rightarrow> GC_Announce \<Rightarrow> bytes option option" where
  "gca_pack_announce len announce =
     (if len < GCA_ANNOUNCE_MAX_SIZE then Some None
      else if \<not> ip_port_is_set announce \<and> tcp_relays_count announce = 0 then Some None
      else
        let start = take ENC_PUBLIC_KEY_SIZE (peer_public_key announce) @ [if ip_port_is_set announce then 1 else 0, tcp_relays_count announce]
        in case (if ip_port_is_set announce then pack_ip_port (len - length start) (ga_ip_port announce) else Some []) of
             None \<Rightarrow> Some None
           | Some ipp \<Rightarrow>
               if unat (tcp_relays_count announce) > length (ga_tcp_relays announce) then None
               else case pack_nodes (len - (length start + length ipp)) (take (unat (tcp_relays_count announce)) (ga_tcp_relays announce)) of
                   None \<Rightarrow> Some None
                 | Some nodes \<Rightarrow> Some (Some (start @ ipp @ nodes)))"

text \<open>The result is the structure and the number of bytes read; what the packet does not set stays as in \<open>target\<close>.\<close>

definition gca_unpack_announce :: "GC_Announce \<Rightarrow> bytes \<Rightarrow> (GC_Announce \<times> nat) option" where
  "gca_unpack_announce target data =
     (if length data < ENC_PUBLIC_KEY_SIZE + 2 then None
      else
        let pk = take ENC_PUBLIC_KEY_SIZE data;
            is_set = net_unpack_bool (drop ENC_PUBLIC_KEY_SIZE data);
            relays = data ! (ENC_PUBLIC_KEY_SIZE + 1);
            offset = ENC_PUBLIC_KEY_SIZE + 2
        in if unat relays > GCA_MAX_ANNOUNCED_TCP_RELAYS then None
           else if is_set \<and> length data - offset = 0 then None
           else case (if is_set then unpack_ip_port (drop offset data) False else Some (0, ga_ip_port target)) of
               None \<Rightarrow> None
             | Some (ip_port_length, ip_port) \<Rightarrow>
                 let offset = offset + ip_port_length
                 in case unpack_nodes (unat relays) (drop offset data) True of
                     None \<Rightarrow> None
                   | Some (nodes, nodes_length) \<Rightarrow>
                       if length nodes \<noteq> unat relays then None
                       else Some (\<lparr>ga_tcp_relays = nodes @ drop (length nodes) (ga_tcp_relays target), tcp_relays_count = relays,
                                   ip_port_is_set = is_set, ga_ip_port = ip_port, peer_public_key = pk\<rparr>, offset + nodes_length))"

definition gca_pack_public_announce :: "nat \<Rightarrow> GC_Public_Announce \<Rightarrow> bytes option option" where
  "gca_pack_public_announce len public_announce =
     (if len < CHAT_ID_SIZE then Some None
      else do {
        packed \<leftarrow> gca_pack_announce (len - CHAT_ID_SIZE) (public_base_announce public_announce);
        Some (map_option ((@) (take CHAT_ID_SIZE (chat_public_key public_announce))) packed)
      })"

definition gca_unpack_public_announce :: "GC_Public_Announce \<Rightarrow> bytes \<Rightarrow> (GC_Public_Announce \<times> nat) option" where
  "gca_unpack_public_announce target data =
     (if length data < CHAT_ID_SIZE then None
      else case gca_unpack_announce (public_base_announce target) (drop ENC_PUBLIC_KEY_SIZE data) of
          None \<Rightarrow> None
        | Some (a, n) \<Rightarrow> Some (\<lparr>public_base_announce = a, chat_public_key = take CHAT_ID_SIZE data\<rparr>, n + CHAT_ID_SIZE))"

fun gca_pack_announces_list :: "nat \<Rightarrow> GC_Announce list \<Rightarrow> bytes option option" where
  "gca_pack_announces_list len [] = Some (Some [])"
| "gca_pack_announces_list len (a # announces) =
     do {
       packed \<leftarrow> gca_pack_announce len a;
       case packed of
         None \<Rightarrow> Some None
       | Some bs \<Rightarrow> do {
           rest \<leftarrow> gca_pack_announces_list (len - length bs) announces;
           Some (map_option ((@) bs) rest)
         }
     }"

text \<open>The first argument is the array of targets, of \<^verbatim>\<open>max_count\<close> elements.\<close>

fun gca_unpack_announces_list :: "GC_Announce list \<Rightarrow> bytes \<Rightarrow> GC_Announce list option" where
  "gca_unpack_announces_list [] data = Some []"
| "gca_unpack_announces_list (target # targets) data =
     (if data = [] then Some []
      else case gca_unpack_announce target data of
          None \<Rightarrow> None
        | Some (a, n) \<Rightarrow> map_option ((#) a) (gca_unpack_announces_list targets (drop n data)))"

section \<open>The store\<close>

record GC_Announces =
  gca_chat_id :: bytes
  gca_index :: u64
  last_announce_received_timestamp :: u64
  peer_announces :: "GC_Peer_Announce list"
  next_announce :: "nat option"
  prev_announce :: "nat option"

record GC_Announces_List =
  gca_heap :: "nat \<rightharpoonup> GC_Announces"
  root_announces :: "nat option"
  last_timeout_check :: u64

definition empty_gc_announce :: GC_Announce where
  "empty_gc_announce = \<lparr>ga_tcp_relays = [\<lparr>nf_public_key = replicate 32 0, nf_ip_port = empty_ip_port\<rparr>], tcp_relays_count = 0,
     ip_port_is_set = False, ga_ip_port = empty_ip_port, peer_public_key = replicate 32 0\<rparr>"

definition empty_gc_announces :: GC_Announces where
  "empty_gc_announces = \<lparr>gca_chat_id = replicate 32 0, gca_index = 0, last_announce_received_timestamp = 0,
     peer_announces = replicate GCA_MAX_SAVED_ANNOUNCES_PER_GC \<lparr>base_announce = empty_gc_announce, ga_timestamp = 0\<rparr>,
     next_announce = None, prev_announce = None\<rparr>"

definition gca_write :: "nat \<Rightarrow> (GC_Announces \<Rightarrow> GC_Announces) \<Rightarrow> GC_Announces_List \<Rightarrow> GC_Announces_List option" where
  "gca_write p f l = do { a \<leftarrow> gca_heap l p; Some (l\<lparr>gca_heap := (gca_heap l)(p \<mapsto> f a)\<rparr>) }"

definition remove_announces :: "GC_Announces_List \<Rightarrow> nat \<Rightarrow> GC_Announces_List option" where
  "remove_announces l announces =
     do {
       a \<leftarrow> gca_heap l announces;
       l \<leftarrow> (case prev_announce a of
               Some q \<Rightarrow> gca_write q (\<lambda>b. b\<lparr>next_announce := next_announce a\<rparr>) l
             | None \<Rightarrow> Some (l\<lparr>root_announces := next_announce a\<rparr>));
       a \<leftarrow> gca_heap l announces;
       l \<leftarrow> (case next_announce a of
               Some n \<Rightarrow> gca_write n (\<lambda>b. b\<lparr>prev_announce := prev_announce a\<rparr>) l
             | None \<Rightarrow> Some l);
       Some (l\<lparr>gca_heap := (gca_heap l)(announces := None)\<rparr>)
     }"

partial_function (option) find_announces :: "(nat \<rightharpoonup> GC_Announces) \<Rightarrow> bytes \<Rightarrow> nat option \<Rightarrow> nat option option" where
  "find_announces h chat_id announces =
     (case announces of
        None \<Rightarrow> Some None
      | Some p \<Rightarrow> do {
          a \<leftarrow> h p;
          if memcmp (take CHAT_ID_SIZE (gca_chat_id a)) (take CHAT_ID_SIZE chat_id) = 0 then Some (Some p)
          else find_announces h chat_id (next_announce a)
        })"

definition get_announces_by_chat_id :: "GC_Announces_List \<Rightarrow> bytes \<Rightarrow> nat option option" where
  "get_announces_by_chat_id l chat_id = find_announces (gca_heap l) chat_id (root_announces l)"

fun get_announces_loop :: "nat \<Rightarrow> bytes \<Rightarrow> GC_Peer_Announce list \<Rightarrow> GC_Announce list \<Rightarrow> GC_Announce list" where
  "get_announces_loop max_nodes except_public_key [] added = added"
| "get_announces_loop max_nodes except_public_key (a # announces) added =
     (if length added \<ge> max_nodes then added
      else if memcmp (take ENC_PUBLIC_KEY_SIZE except_public_key) (take ENC_PUBLIC_KEY_SIZE (peer_public_key (base_announce a))) = 0
      then get_announces_loop max_nodes except_public_key announces added
      else if list_ex (\<lambda>g. memcmp (take ENC_PUBLIC_KEY_SIZE (peer_public_key g)) (take ENC_PUBLIC_KEY_SIZE (peer_public_key (base_announce a))) = 0) added
      then get_announces_loop max_nodes except_public_key announces added
      else get_announces_loop max_nodes except_public_key announces (added @ [base_announce a]))"

text \<open>The inner option is \<^verbatim>\<open>-1\<close>; the target array is not null and has room for \<^verbatim>\<open>max_nodes\<close>.\<close>

definition gca_get_announces ::
  "GC_Announces_List option \<Rightarrow> byte \<Rightarrow> bytes option \<Rightarrow> bytes option \<Rightarrow> GC_Announce list option option" where
  "gca_get_announces gc_announces_list max_nodes chat_id except_public_key =
     (case (gc_announces_list, chat_id, except_public_key) of
        (Some l, Some cid, Some except) \<Rightarrow>
          if max_nodes = 0 then Some None
          else do {
            found \<leftarrow> get_announces_by_chat_id l cid;
            case found of
              None \<Rightarrow> Some (Some [])
            | Some p \<Rightarrow> do {
                a \<leftarrow> gca_heap l p;
                Some (Some (get_announces_loop (unat max_nodes) except
                  (take (min (unat (gca_index a)) GCA_MAX_SAVED_ANNOUNCES_PER_GC) (peer_announces a)) []))
              }
          }
      | _ \<Rightarrow> Some None)"

text \<open>The result is the address of the structure and the position of the announce in it.\<close>

definition insert_announces :: "nat \<Rightarrow> bytes \<Rightarrow> GC_Announces_List \<Rightarrow> GC_Announces_List option" where
  "insert_announces p chat_id l =
     do {
       l \<leftarrow> (case root_announces l of
               Some q \<Rightarrow> gca_write q (\<lambda>b. b\<lparr>prev_announce := Some p\<rparr>) l
             | None \<Rightarrow> Some l);
       Some (l\<lparr>gca_heap := (gca_heap l)(p \<mapsto> empty_gc_announces\<lparr>next_announce := root_announces l,
                 gca_chat_id := take CHAT_ID_SIZE chat_id\<rparr>), root_announces := Some p\<rparr>)
     }"

definition gca_add_announce ::
  "nat option \<Rightarrow> Mono_Time \<Rightarrow> GC_Announces_List \<Rightarrow> GC_Public_Announce \<Rightarrow> ((nat \<times> nat) option \<times> GC_Announces_List) option" where
  "gca_add_announce calloc mono_time l public_announce =
     do {
       found \<leftarrow> get_announces_by_chat_id l (chat_public_key public_announce);
       (p, l) \<leftarrow> (case (found, calloc) of
           (Some p, _) \<Rightarrow> Some (Some p, l)
         | (None, None) \<Rightarrow> Some (None, l)
         | (None, Some p) \<Rightarrow> map_option (Pair (Some p)) (insert_announces p (chat_public_key public_announce) l));
       case p of
         None \<Rightarrow> Some (None, l)
       | Some p \<Rightarrow> do {
           let cur_time = mono_time_get mono_time;
           a \<leftarrow> gca_heap l p;
           let index = unat (gca_index a) mod GCA_MAX_SAVED_ANNOUNCES_PER_GC;
           l \<leftarrow> gca_write p (\<lambda>a. a\<lparr>last_announce_received_timestamp := cur_time,
             peer_announces := (peer_announces a)[index := \<lparr>base_announce = public_base_announce public_announce, ga_timestamp = cur_time\<rparr>],
             gca_index := gca_index a + 1\<rparr>) l;
           Some (Some (p, index), l)
         }
     }"

definition new_gca_list :: "platform \<Rightarrow> GC_Announces_List option" where
  "new_gca_list P = (if malloc_ok P 16 then Some \<lparr>gca_heap = Map.empty, root_announces = None, last_timeout_check = 0\<rparr> else None)"

partial_function (option) kill_gca_loop :: "(nat \<rightharpoonup> GC_Announces) \<Rightarrow> nat option \<Rightarrow> (nat \<rightharpoonup> GC_Announces) option" where
  "kill_gca_loop h root =
     (case root of
        None \<Rightarrow> Some h
      | Some p \<Rightarrow> do { a \<leftarrow> h p; kill_gca_loop (h(p := None)) (next_announce a) })"

text \<open>What is left of the heap.\<close>

definition kill_gca :: "GC_Announces_List \<Rightarrow> (nat \<rightharpoonup> GC_Announces) option" where
  "kill_gca l = kill_gca_loop (gca_heap l) (root_announces l)"

partial_function (option) do_gca_loop :: "Mono_Time \<Rightarrow> nat option \<Rightarrow> GC_Announces_List \<Rightarrow> GC_Announces_List option" where
  "do_gca_loop mono_time announces l =
     (case announces of
        None \<Rightarrow> Some l
      | Some p \<Rightarrow> do {
          a \<leftarrow> gca_heap l p;
          if mono_time_is_timeout mono_time (last_announce_received_timestamp a) GCA_ANNOUNCE_SAVE_TIMEOUT
          then do { l \<leftarrow> remove_announces l p; do_gca_loop mono_time (next_announce a) l }
          else do_gca_loop mono_time (next_announce a) l
        })"

definition do_gca :: "Mono_Time \<Rightarrow> GC_Announces_List \<Rightarrow> GC_Announces_List option" where
  "do_gca mono_time l =
     (if \<not> mono_time_is_timeout mono_time (last_timeout_check l) GCA_DO_GCA_TIMEOUT then Some l
      else do_gca_loop mono_time (root_announces l) (l\<lparr>last_timeout_check := mono_time_get mono_time\<rparr>))"

definition cleanup_gca :: "GC_Announces_List \<Rightarrow> bytes \<Rightarrow> GC_Announces_List option" where
  "cleanup_gca l chat_id =
     do {
       found \<leftarrow> get_announces_by_chat_id l chat_id;
       case found of None \<Rightarrow> Some l | Some p \<Rightarrow> remove_announces l p
     }"

declare find_announces.simps [code] kill_gca_loop.simps [code] do_gca_loop.simps [code]

section \<open>The linked list\<close>

definition first :: "nat list \<Rightarrow> nat option \<Rightarrow> nat option" where
  "first ps nxt = (case ps of [] \<Rightarrow> nxt | p # _ \<Rightarrow> Some p)"

definition final :: "nat option \<Rightarrow> nat list \<Rightarrow> nat option" where
  "final prev ps = (if ps = [] then prev else Some (last ps))"

text \<open>A segment of the list: the nodes \<open>ps\<close> in this order, after \<open>prev\<close> and before \<open>nxt\<close>.\<close>

fun seg :: "(nat \<rightharpoonup> GC_Announces) \<Rightarrow> nat option \<Rightarrow> nat list \<Rightarrow> nat option \<Rightarrow> bool" where
  "seg h prev [] nxt = True"
| "seg h prev (p # ps) nxt \<longleftrightarrow>
     (\<exists>a. h p = Some a \<and> prev_announce a = prev \<and> next_announce a = first ps nxt) \<and> seg h (Some p) ps nxt"

lemma first_append [simp]: "first (xs @ ys) nxt = first xs (first ys nxt)"
  by (simp add: first_def split: list.split)

lemma first_simps [simp]: "first [] nxt = nxt" "first (p # ps) nxt = Some p"
  by (simp_all add: first_def)

lemma final_simps [simp]: "final prev [] = prev" "final prev (ps @ [p]) = Some p" "final (Some q) ps = final prev (q # ps)"
  by (simp_all add: final_def)

lemma seg_append: "seg h prev (xs @ ys) nxt \<longleftrightarrow> seg h prev xs (first ys nxt) \<and> seg h (final prev xs) ys nxt"
  by (induction xs arbitrary: prev) (auto simp: final_def)

lemma seg_frame: "seg h prev ps nxt \<Longrightarrow> \<forall>p \<in> set ps. h' p = h p \<Longrightarrow> seg h' prev ps nxt"
  by (induction ps arbitrary: prev) auto

lemma seg_set_next:
  assumes "seg h prev (xs @ [q]) nxt" "distinct (xs @ [q])" "h q = Some a"
  shows "seg (h(q \<mapsto> a\<lparr>next_announce := n\<rparr>)) prev (xs @ [q]) n"
  using assms by (auto simp: seg_append intro: seg_frame)

lemma seg_set_prev:
  assumes "seg h prev (q # ys) nxt" "q \<notin> set ys" "h q = Some a"
  shows "seg (h(q \<mapsto> a\<lparr>prev_announce := prev'\<rparr>)) prev' (q # ys) nxt"
  using assms by (auto intro: seg_frame)

text \<open>What the list stores, without its pointers: the group and its announces at each address.\<close>

record group_announces =
  announced :: u64
  received_at :: u64
  saved :: "GC_Peer_Announce list"

definition content :: "GC_Announces \<Rightarrow> group_announces" where
  "content a = \<lparr>announced = gca_index a, received_at = last_announce_received_timestamp a, saved = peer_announces a\<rparr>"

definition group_of :: "(nat \<rightharpoonup> GC_Announces) \<Rightarrow> nat \<rightharpoonup> bytes \<times> group_announces" where
  "group_of h p = map_option (\<lambda>a. (gca_chat_id a, content a)) (h p)"

definition groups_wf :: "(nat \<rightharpoonup> bytes \<times> group_announces) \<Rightarrow> bool" where
  "groups_wf G \<longleftrightarrow> (\<forall>p q cid c d. G p = Some (cid, c) \<longrightarrow> G q = Some (cid, d) \<longrightarrow> p = q) \<and>
     (\<forall>p cid c. G p = Some (cid, c) \<longrightarrow> length cid = 32 \<and> length (saved c) = GCA_MAX_SAVED_ANNOUNCES_PER_GC)"

definition list_ok :: "GC_Announces_List \<Rightarrow> nat list \<Rightarrow> bool" where
  "list_ok l ps \<longleftrightarrow> seg (gca_heap l) None ps None \<and> root_announces l = first ps None \<and> distinct ps \<and>
     dom (gca_heap l) = set ps \<and> groups_wf (group_of (gca_heap l))"

lemma group_of_upd [simp]:
  "group_of (h(p \<mapsto> a)) = (group_of h)(p \<mapsto> (gca_chat_id a, content a))" "group_of (h(p := None)) = (group_of h)(p := None)"
  by (auto simp: group_of_def fun_eq_iff)

lemma group_of_same: "h p = Some a \<Longrightarrow> (group_of h)(p \<mapsto> (gca_chat_id a, content a)) = group_of h"
  by (auto simp: group_of_def fun_eq_iff)

lemma content_pointers [simp]:
  "content (a\<lparr>next_announce := n\<rparr>) = content a" "content (a\<lparr>prev_announce := n\<rparr>) = content a"
  by (simp_all add: content_def)

lemma groups_wf_remove: "groups_wf G \<Longrightarrow> groups_wf (G(p := None))"
  by (fastforce simp: groups_wf_def split: if_splits)

lemma heap_in_list: "list_ok l ps \<Longrightarrow> p \<in> set ps \<Longrightarrow> \<exists>a. gca_heap l p = Some a"
  by (auto simp: list_ok_def)

lemma group_length:
  assumes "list_ok l ps" "gca_heap l p = Some a"
  shows "length (gca_chat_id a) = 32" "length (peer_announces a) = GCA_MAX_SAVED_ANNOUNCES_PER_GC"
proof -
  have "group_of (gca_heap l) p = Some (gca_chat_id a, content a)" using assms(2) by (simp add: group_of_def)
  then show "length (gca_chat_id a) = 32" "length (peer_announces a) = GCA_MAX_SAVED_ANNOUNCES_PER_GC"
    using assms(1) by (fastforce simp: list_ok_def groups_wf_def content_def)+
qed

lemma remove_announces_list:
  assumes ok: "list_ok l (xs @ p # ys)"
  shows "\<exists>l'. remove_announces l p = Some l' \<and> list_ok l' (xs @ ys) \<and>
    group_of (gca_heap l') = (group_of (gca_heap l))(p := None) \<and> last_timeout_check l' = last_timeout_check l"
proof -
  let ?h = "gca_heap l"
  have seg: "seg ?h None xs (Some p)" "seg ?h (Some p) ys None" and dist: "distinct (xs @ p # ys)"
    and wf: "groups_wf (group_of ?h)" and dom: "dom ?h = insert p (set xs \<union> set ys)" "root_announces l = first xs (Some p)"
    using ok by (auto simp: list_ok_def seg_append)
  obtain a where a: "?h p = Some a" "prev_announce a = final None xs" "next_announce a = first ys None"
    using ok by (auto simp: list_ok_def seg_append)
  have "\<exists>l1. (case prev_announce a of Some q \<Rightarrow> gca_write q (\<lambda>b. b\<lparr>next_announce := next_announce a\<rparr>) l
        | None \<Rightarrow> Some (l\<lparr>root_announces := next_announce a\<rparr>)) = Some l1 \<and>
      seg (gca_heap l1) None xs (first ys None) \<and> seg (gca_heap l1) (Some p) ys None \<and> gca_heap l1 p = Some a \<and>
      dom (gca_heap l1) = dom ?h \<and> group_of (gca_heap l1) = group_of ?h \<and> root_announces l1 = first xs (first ys None) \<and>
      last_timeout_check l1 = last_timeout_check l"
  proof (cases xs rule: rev_cases)
    case (snoc xs' q)
    then obtain b where b: "?h q = Some b" using dom(1) by auto
    have "seg (?h(q \<mapsto> b\<lparr>next_announce := first ys None\<rparr>)) None xs (first ys None)"
      using seg_set_next [of ?h None xs' q "Some p" b] seg(1) dist b snoc by simp
    moreover have "seg (?h(q \<mapsto> b\<lparr>next_announce := first ys None\<rparr>)) (Some p) ys None"
      using seg(2) dist snoc by (auto intro: seg_frame)
    moreover have "first xs n = first xs m" for n m using snoc by (cases xs) auto
    ultimately show ?thesis
      using a b snoc dist dom by (auto simp: gca_write_def group_of_same [of ?h q b])
  qed (use seg a dom in auto)
  then obtain l1 where l1: "(case prev_announce a of Some q \<Rightarrow> gca_write q (\<lambda>b. b\<lparr>next_announce := next_announce a\<rparr>) l
        | None \<Rightarrow> Some (l\<lparr>root_announces := next_announce a\<rparr>)) = Some l1"
      "seg (gca_heap l1) None xs (first ys None)" "seg (gca_heap l1) (Some p) ys None" "gca_heap l1 p = Some a"
      "dom (gca_heap l1) = dom ?h" "group_of (gca_heap l1) = group_of ?h" "root_announces l1 = first xs (first ys None)"
      "last_timeout_check l1 = last_timeout_check l" by blast
  have "\<exists>l2. (case next_announce a of Some n \<Rightarrow> gca_write n (\<lambda>b. b\<lparr>prev_announce := prev_announce a\<rparr>) l1 | None \<Rightarrow> Some l1) = Some l2 \<and>
      seg (gca_heap l2) None xs (first ys None) \<and> seg (gca_heap l2) (final None xs) ys None \<and> dom (gca_heap l2) = dom ?h \<and>
      group_of (gca_heap l2) = group_of ?h \<and> root_announces l2 = first xs (first ys None) \<and> last_timeout_check l2 = last_timeout_check l"
  proof (cases ys)
    case (Cons q ys')
    then obtain b where b: "gca_heap l1 q = Some b" using dom(1) l1(5) by auto
    have "seg ((gca_heap l1)(q \<mapsto> b\<lparr>prev_announce := final None xs\<rparr>)) (final None xs) ys None"
      using seg_set_prev [of "gca_heap l1" "Some p" q ys' None b] l1(3) dist b Cons by simp
    moreover have "seg ((gca_heap l1)(q \<mapsto> b\<lparr>prev_announce := final None xs\<rparr>)) None xs (first ys None)"
      using l1(2) dist Cons by (auto intro: seg_frame)
    moreover have "(group_of ?h)(q \<mapsto> (gca_chat_id b, content b)) = group_of ?h"
      using group_of_same [of "gca_heap l1" q b] b l1(6) by simp
    ultimately show ?thesis
      using a(2,3) b Cons l1 by (auto simp: gca_write_def)
  qed (use l1 a in auto)
  then obtain l2 where l2: "(case next_announce a of Some n \<Rightarrow> gca_write n (\<lambda>b. b\<lparr>prev_announce := prev_announce a\<rparr>) l1 | None \<Rightarrow> Some l1) = Some l2"
      "seg (gca_heap l2) None xs (first ys None)" "seg (gca_heap l2) (final None xs) ys None" "dom (gca_heap l2) = dom ?h"
      "group_of (gca_heap l2) = group_of ?h" "root_announces l2 = first xs (first ys None)" "last_timeout_check l2 = last_timeout_check l" by blast
  have "seg ((gca_heap l2)(p := None)) None (xs @ ys) None"
    using l2(2,3) dist by (auto simp: seg_append intro: seg_frame)
  then have "list_ok (l2\<lparr>gca_heap := (gca_heap l2)(p := None)\<rparr>) (xs @ ys)"
    using l2 dist dom groups_wf_remove [OF wf] by (auto simp: list_ok_def)
  moreover have "remove_announces l p = Some (l2\<lparr>gca_heap := (gca_heap l2)(p := None)\<rparr>)"
    using a(1) l1(1,4) l2(1) by (simp add: remove_announces_def)
  ultimately show ?thesis using l2(5,7) by auto
qed

lemma chat_id_equal: "length a = 32 \<Longrightarrow> length b = 32 \<Longrightarrow> memcmp (take CHAT_ID_SIZE a) (take CHAT_ID_SIZE b) = 0 \<longleftrightarrow> a = b"
  by (simp add: memcmp_eq_0 size_defs)

lemma find_announces_seg:
  assumes "seg h prev ps None" "length cid = 32" "\<forall>p \<in> set ps. \<exists>a. h p = Some a \<and> length (gca_chat_id a) = 32"
  shows "find_announces h cid (first ps None) = Some (find (\<lambda>p. map_option gca_chat_id (h p) = Some cid) ps)"
  using assms
proof (induction ps arbitrary: prev)
  case Nil
  show ?case by (subst find_announces.simps) simp
next
  case (Cons p ps)
  then obtain a where a: "h p = Some a" "next_announce a = first ps None" "seg h (Some p) ps None" "length (gca_chat_id a) = 32" by auto
  then show ?case
    using Cons.IH [OF a(3)] Cons.prems(2,3) by (subst find_announces.simps) (simp add: chat_id_equal)
qed

text \<open>The map from groups to announces that the list stands for.\<close>

definition represents :: "(nat \<rightharpoonup> bytes \<times> group_announces) \<Rightarrow> (bytes \<rightharpoonup> group_announces) \<Rightarrow> bool" where
  "represents G M \<longleftrightarrow> (\<forall>cid c. M cid = Some c \<longleftrightarrow> (\<exists>p. G p = Some (cid, c)))"

definition stores :: "GC_Announces_List \<Rightarrow> (bytes \<rightharpoonup> group_announces) \<Rightarrow> bool" where
  "stores l M \<longleftrightarrow> (\<exists>ps. list_ok l ps) \<and> represents (group_of (gca_heap l)) M"

lemma get_announces_spec:
  assumes "stores l M" "length cid = 32"
  shows "(M cid = None \<and> get_announces_by_chat_id l cid = Some None) \<or>
    (\<exists>p a. get_announces_by_chat_id l cid = Some (Some p) \<and> gca_heap l p = Some a \<and> gca_chat_id a = cid \<and> M cid = Some (content a))"
proof -
  obtain ps where ok: "list_ok l ps" and rep: "represents (group_of (gca_heap l)) M" using assms(1) by (auto simp: stores_def)
  have mem: "\<exists>a. gca_heap l p = Some a \<and> length (gca_chat_id a) = 32" if "p \<in> set ps" for p
    using heap_in_list [OF ok that] group_length(1) [OF ok] by auto
  have f: "get_announces_by_chat_id l cid = Some (find (\<lambda>p. map_option gca_chat_id (gca_heap l p) = Some cid) ps)"
    using find_announces_seg [of "gca_heap l" None ps cid] ok mem assms(2)
    by (simp add: get_announces_by_chat_id_def list_ok_def)
  show ?thesis
  proof (cases "find (\<lambda>p. map_option gca_chat_id (gca_heap l p) = Some cid) ps")
    case None
    have "M cid = None"
    proof (rule ccontr)
      assume "M cid \<noteq> None"
      then obtain p c where "group_of (gca_heap l) p = Some (cid, c)" using rep by (auto simp: represents_def)
      then have "p \<in> set ps" "map_option gca_chat_id (gca_heap l p) = Some cid"
        using ok by (auto simp: group_of_def list_ok_def)
      with None show False by (auto simp: find_None_iff)
    qed
    with f None show ?thesis by simp
  next
    case (Some p)
    then obtain a where a: "gca_heap l p = Some a" "gca_chat_id a = cid" by (auto simp: find_Some_iff)
    then have "group_of (gca_heap l) p = Some (cid, content a)" by (simp add: group_of_def)
    then have "M cid = Some (content a)" using rep by (auto simp: represents_def)
    with a f Some show ?thesis by auto
  qed
qed

lemma groups_wf_unique: "groups_wf G \<Longrightarrow> G p = Some (cid, c) \<Longrightarrow> G q = Some (cid, d) \<Longrightarrow> p = q"
  unfolding groups_wf_def by blast

lemma represents_remove:
  assumes "represents G M" "groups_wf G" "G p = Some (cid, c)"
  shows "represents (G(p := None)) (M(cid := None))"
  unfolding represents_def
proof (intro allI)
  fix cid' d
  have M: "M cid' = Some d \<longleftrightarrow> (\<exists>q. G q = Some (cid', d))" using assms(1) by (simp add: represents_def)
  show "((M(cid := None)) cid' = Some d) = (\<exists>q. (G(p := None)) q = Some (cid', d))"
  proof (cases "cid' = cid")
    case True
    then show ?thesis using groups_wf_unique [OF assms(2,3), of _ d] by auto
  next
    case False
    with assms(3) have "(G(p := None)) q = Some (cid', d) \<longleftrightarrow> G q = Some (cid', d)" for q by simp
    with False M show ?thesis by simp
  qed
qed

lemma represents_update:
  assumes "represents G M" "groups_wf G" "(G p = None \<and> M cid = None) \<or> (\<exists>d. G p = Some (cid, d))"
  shows "represents (G(p \<mapsto> (cid, c))) (M(cid \<mapsto> c))"
  unfolding represents_def
proof (intro allI)
  fix cid' d
  have M: "M x = Some y \<longleftrightarrow> (\<exists>q. G q = Some (x, y))" for x y using assms(1) by (simp add: represents_def)
  show "((M(cid \<mapsto> c)) cid' = Some d) = (\<exists>q. (G(p \<mapsto> (cid, c))) q = Some (cid', d))"
  proof (cases "cid' = cid")
    case True
    have "q = p" if "G q = Some (cid, e)" for q e
      using assms(3) M [of cid e] that groups_wf_unique [OF assms(2) that] by (metis option.distinct(1))
    then show ?thesis using True by auto
  next
    case False
    with assms(3) have "(G(p \<mapsto> (cid, c))) q = Some (cid', d) \<longleftrightarrow> G q = Some (cid', d)" for q by auto
    with False M show ?thesis by simp
  qed
qed

lemma groups_wf_update:
  assumes "groups_wf G" "\<forall>q d. G q = Some (cid, d) \<longrightarrow> q = p" "length cid = 32" "length (saved c) = GCA_MAX_SAVED_ANNOUNCES_PER_GC"
  shows "groups_wf (G(p \<mapsto> (cid, c)))"
  unfolding groups_wf_def
proof (intro conjI allI impI)
  fix q r x d e
  assume "(G(p \<mapsto> (cid, c))) q = Some (x, d)" "(G(p \<mapsto> (cid, c))) r = Some (x, e)"
  then show "q = r" using assms(2) groups_wf_unique [OF assms(1), of q x d r e] by (auto split: if_splits)
next
  fix q x d
  assume "(G(p \<mapsto> (cid, c))) q = Some (x, d)"
  then show "length x = 32" "length (saved d) = GCA_MAX_SAVED_ANNOUNCES_PER_GC"
    using assms(1,3,4) by (auto simp: groups_wf_def split: if_splits)
qed

section \<open>Operations on the store\<close>

lemma cleanup_stores:
  assumes "stores l M" "length cid = 32"
  shows "\<exists>l'. cleanup_gca l cid = Some l' \<and> stores l' (M(cid := None))"
  using get_announces_spec [OF assms]
proof
  assume "M cid = None \<and> get_announces_by_chat_id l cid = Some None"
  then show ?thesis using assms(1) by (simp add: cleanup_gca_def fun_upd_idem)
next
  assume "\<exists>p a. get_announces_by_chat_id l cid = Some (Some p) \<and> gca_heap l p = Some a \<and> gca_chat_id a = cid \<and> M cid = Some (content a)"
  then obtain p a where p: "get_announces_by_chat_id l cid = Some (Some p)" "gca_heap l p = Some a" "gca_chat_id a = cid" by blast
  obtain ps where ok: "list_ok l ps" and rep: "represents (group_of (gca_heap l)) M" using assms(1) by (auto simp: stores_def)
  have "p \<in> set ps" using ok p(2) by (auto simp: list_ok_def)
  then obtain xs ys where "ps = xs @ p # ys" by (meson split_list)
  then obtain l' where l': "remove_announces l p = Some l'" "list_ok l' (xs @ ys)" "group_of (gca_heap l') = (group_of (gca_heap l))(p := None)"
    using remove_announces_list [of l xs p ys] ok by auto
  have "represents ((group_of (gca_heap l))(p := None)) (M(cid := None))"
    using ok p by (intro represents_remove [OF rep, of p cid "content a"]) (simp_all add: list_ok_def group_of_def)
  then show ?thesis using p(1) l' by (auto simp: cleanup_gca_def stores_def)
qed

text \<open>The specification of an announce: it goes to the next of 16 positions of its group.\<close>

definition no_announces :: group_announces where
  "no_announces = content empty_gc_announces"

definition push :: "u64 \<Rightarrow> GC_Announce \<Rightarrow> group_announces \<Rightarrow> group_announces" where
  "push now a g = \<lparr>announced = announced g + 1, received_at = now,
     saved = (saved g)[unat (announced g) mod 16 := \<lparr>base_announce = a, ga_timestamp = now\<rparr>]\<rparr>"

lemma insert_announces_list:
  assumes "list_ok l ps" "p \<notin> set ps" "length cid = 32" "\<forall>q d. group_of (gca_heap l) q \<noteq> Some (cid, d)"
  shows "\<exists>l'. insert_announces p cid l = Some l' \<and> list_ok l' (p # ps) \<and>
    group_of (gca_heap l') = (group_of (gca_heap l))(p \<mapsto> (cid, no_announces))"
proof -
  let ?n = "empty_gc_announces\<lparr>next_announce := first ps None, gca_chat_id := cid\<rparr>"
  have root: "root_announces l = first ps None" and wf: "groups_wf (group_of (gca_heap l))" and dom: "dom (gca_heap l) = set ps"
    and seg: "seg (gca_heap l) None ps None" and dist: "distinct ps" using assms(1) by (auto simp: list_ok_def)
  have n: "(gca_chat_id ?n, content ?n) = (cid, no_announces)" "prev_announce ?n = None" by (simp_all add: content_def no_announces_def empty_gc_announces_def)
  have wf': "groups_wf ((group_of (gca_heap l))(p \<mapsto> (cid, no_announces)))"
    using assms(4) by (intro groups_wf_update [OF wf _ assms(3)]) (auto simp: no_announces_def content_def empty_gc_announces_def)
  have "\<exists>h. (case root_announces l of Some q \<Rightarrow> gca_write q (\<lambda>b. b\<lparr>prev_announce := Some p\<rparr>) l | None \<Rightarrow> Some l) = Some (l\<lparr>gca_heap := h\<rparr>) \<and>
      seg h (Some p) ps None \<and> group_of h = group_of (gca_heap l) \<and> dom h = dom (gca_heap l)"
  proof (cases ps)
    case (Cons q ps')
    then obtain b where b: "gca_heap l q = Some b" using dom by auto
    have "seg ((gca_heap l)(q \<mapsto> b\<lparr>prev_announce := Some p\<rparr>)) (Some p) ps None"
      using seg_set_prev [of "gca_heap l" None q ps' None b] seg dist b Cons by simp
    then show ?thesis using root Cons b group_of_same [of "gca_heap l" q b]
      by (intro exI [of _ "(gca_heap l)(q \<mapsto> b\<lparr>prev_announce := Some p\<rparr>)"]) (auto simp: gca_write_def)
  qed (use root seg in \<open>auto intro: exI [of _ "gca_heap l"]\<close>)
  then obtain h where h: "(case root_announces l of Some q \<Rightarrow> gca_write q (\<lambda>b. b\<lparr>prev_announce := Some p\<rparr>) l | None \<Rightarrow> Some l) = Some (l\<lparr>gca_heap := h\<rparr>)"
    "seg h (Some p) ps None" "group_of h = group_of (gca_heap l)" "dom h = dom (gca_heap l)" by blast
  have "seg (h(p \<mapsto> ?n)) None (p # ps) None" using h(2) assms(2) n(2) by (auto intro: seg_frame)
  then have "list_ok (l\<lparr>gca_heap := h(p \<mapsto> ?n), root_announces := Some p\<rparr>) (p # ps)"
    using assms(2) dist dom h(3,4) wf' n(1) by (auto simp: list_ok_def)
  moreover have "insert_announces p cid l = Some (l\<lparr>gca_heap := h(p \<mapsto> ?n), root_announces := Some p\<rparr>)"
    unfolding insert_announces_def h(1) using root assms(3) by (simp add: size_defs)
  ultimately show ?thesis using h(3) n(1) by auto
qed

lemma list_ok_write:
  assumes ok: "list_ok l ps" and a: "gca_heap l p = Some a"
    and f: "gca_chat_id a' = gca_chat_id a" "next_announce a' = next_announce a" "prev_announce a' = prev_announce a"
      "length (peer_announces a') = GCA_MAX_SAVED_ANNOUNCES_PER_GC"
  shows "list_ok (l\<lparr>gca_heap := (gca_heap l)(p \<mapsto> a')\<rparr>) ps"
proof -
  have s: "seg h prev qs nxt \<Longrightarrow> h p = Some a \<Longrightarrow> seg (h(p \<mapsto> a')) prev qs nxt" for h prev qs nxt
    by (induction qs arbitrary: prev) (use f in auto)
  have g: "group_of (gca_heap l) p = Some (gca_chat_id a, content a)" using a by (simp add: group_of_def)
  have wf: "groups_wf (group_of (gca_heap l))" using ok by (simp add: list_ok_def)
  have "groups_wf ((group_of (gca_heap l))(p \<mapsto> (gca_chat_id a, content a')))"
    using groups_wf_unique [OF wf g] group_length(1) [OF ok a] f(4) by (intro groups_wf_update [OF wf]) (auto simp: content_def)
  then show ?thesis using ok s [of "gca_heap l" None ps None] a f(1) by (auto simp: list_ok_def)
qed

text \<open>Storing an announce in a group that is in the list.\<close>

lemma store_announce:
  assumes "stores l M" "gca_heap l p = Some a" "M (gca_chat_id a) = Some (content a)"
  shows "\<exists>l'. gca_write p (\<lambda>b. b\<lparr>last_announce_received_timestamp := now,
      peer_announces := (peer_announces b)[unat (gca_index a) mod 16 := \<lparr>base_announce = g, ga_timestamp = now\<rparr>],
      gca_index := gca_index b + 1\<rparr>) l = Some l' \<and> stores l' (M(gca_chat_id a \<mapsto> push now g (content a)))"
proof -
  obtain ps where ok: "list_ok l ps" and rep: "represents (group_of (gca_heap l)) M" using assms(1) by (auto simp: stores_def)
  let ?a = "a\<lparr>last_announce_received_timestamp := now,
      peer_announces := (peer_announces a)[unat (gca_index a) mod 16 := \<lparr>base_announce = g, ga_timestamp = now\<rparr>], gca_index := gca_index a + 1\<rparr>"
  have "list_ok (l\<lparr>gca_heap := (gca_heap l)(p \<mapsto> ?a)\<rparr>) ps"
    using group_length(2) [OF ok assms(2)] by (intro list_ok_write [OF ok assms(2)]) simp_all
  moreover have "content ?a = push now g (content a)" by (simp add: content_def push_def)
  moreover have "represents ((group_of (gca_heap l))(p \<mapsto> (gca_chat_id a, push now g (content a)))) (M(gca_chat_id a \<mapsto> push now g (content a)))"
    using ok assms(2) by (intro represents_update [OF rep]) (auto simp: list_ok_def group_of_def)
  ultimately show ?thesis using assms(2) by (auto simp: gca_write_def stores_def)
qed

lemma add_stores:
  assumes "stores l M" "length (chat_public_key ann) = 32" "p \<notin> dom (gca_heap l)"
  shows "\<exists>q i l'. gca_add_announce (Some p) mt l ann = Some (Some (q, i), l') \<and> i < 16 \<and>
    stores l' (M(chat_public_key ann \<mapsto> push (mono_time_get mt) (public_base_announce ann)
      (case M (chat_public_key ann) of None \<Rightarrow> no_announces | Some g \<Rightarrow> g)))"
  using get_announces_spec [OF assms(1,2)]
proof
  let ?cid = "chat_public_key ann"
  assume "\<exists>p a. get_announces_by_chat_id l ?cid = Some (Some p) \<and> gca_heap l p = Some a \<and> gca_chat_id a = ?cid \<and> M ?cid = Some (content a)"
  then obtain q a where q: "get_announces_by_chat_id l ?cid = Some (Some q)" "gca_heap l q = Some a" "gca_chat_id a = ?cid" "M ?cid = Some (content a)" by blast
  then show ?thesis
    using store_announce [OF assms(1) q(2), where now = "mono_time_get mt" and g = "public_base_announce ann"]
    by (auto simp: gca_add_announce_def size_defs Let_def)
next
  let ?cid = "chat_public_key ann"
  assume none: "M ?cid = None \<and> get_announces_by_chat_id l ?cid = Some None"
  obtain ps where ok: "list_ok l ps" and rep: "represents (group_of (gca_heap l)) M" using assms(1) by (auto simp: stores_def)
  have new: "\<forall>q d. group_of (gca_heap l) q \<noteq> Some (?cid, d)" using none rep by (metis represents_def option.distinct(1))
  have "p \<notin> set ps" using ok assms(3) by (auto simp: list_ok_def)
  from insert_announces_list [OF ok this assms(2) new] obtain l1 where l1: "insert_announces p ?cid l = Some l1" "list_ok l1 (p # ps)"
    "group_of (gca_heap l1) = (group_of (gca_heap l))(p \<mapsto> (?cid, no_announces))" by blast
  have "group_of (gca_heap l) p = None" using assms(3) by (auto simp: group_of_def)
  then have "represents (group_of (gca_heap l1)) (M(?cid \<mapsto> no_announces))"
    unfolding l1(3) using ok none by (intro represents_update [OF rep]) (auto simp: list_ok_def)
  then have st: "stores l1 (M(?cid \<mapsto> no_announces))" using l1(2) by (auto simp: stores_def)
  have "group_of (gca_heap l1) p = Some (?cid, no_announces)" by (simp add: l1(3))
  then obtain a where a: "gca_heap l1 p = Some a" "gca_chat_id a = ?cid" "content a = no_announces" by (auto simp: group_of_def)
  from store_announce [OF st a(1), where now = "mono_time_get mt" and g = "public_base_announce ann"] a
  show ?thesis using none l1(1) by (auto simp: gca_add_announce_def size_defs Let_def)
qed

definition stale :: "Mono_Time \<Rightarrow> group_announces \<Rightarrow> bool" where
  "stale mt g \<longleftrightarrow> mono_time_is_timeout mt (received_at g) GCA_ANNOUNCE_SAVE_TIMEOUT"

lemma do_gca_loop_list:
  assumes "list_ok l (xs @ ys)"
  shows "\<exists>l' zs. do_gca_loop mt (first ys None) l = Some l' \<and> list_ok l' zs \<and>
    group_of (gca_heap l') = (\<lambda>p. if p \<in> set ys \<and> (\<exists>cid g. group_of (gca_heap l) p = Some (cid, g) \<and> stale mt g) then None else group_of (gca_heap l) p)"
  using assms
proof (induction ys arbitrary: xs l)
  case Nil
  then show ?case by (subst do_gca_loop.simps) (auto simp: fun_eq_iff)
next
  case (Cons p ys)
  obtain a where a: "gca_heap l p = Some a" "next_announce a = first ys None"
    using Cons.prems by (auto simp: list_ok_def seg_append)
  have p: "p \<notin> set ys" using Cons.prems by (auto simp: list_ok_def)
  have g: "group_of (gca_heap l) p = Some (gca_chat_id a, content a)" using a by (simp add: group_of_def)
  have st: "stale mt (content a) \<longleftrightarrow> mono_time_is_timeout mt (last_announce_received_timestamp a) GCA_ANNOUNCE_SAVE_TIMEOUT"
    by (simp add: stale_def content_def)
  show ?case
  proof (cases "stale mt (content a)")
    case True
    obtain l1 where l1: "remove_announces l p = Some l1" "list_ok l1 (xs @ ys)" "group_of (gca_heap l1) = (group_of (gca_heap l))(p := None)"
      using remove_announces_list [OF Cons.prems] by blast
    from Cons.IH [OF l1(2)] obtain l' zs where l': "do_gca_loop mt (first ys None) l1 = Some l'" "list_ok l' zs"
      "group_of (gca_heap l') = (\<lambda>q. if q \<in> set ys \<and> (\<exists>cid g. group_of (gca_heap l1) q = Some (cid, g) \<and> stale mt g) then None else group_of (gca_heap l1) q)"
      by blast
    have "do_gca_loop mt (first (p # ys) None) l = Some l'"
      using a True st l1(1) l'(1) by (subst do_gca_loop.simps) simp
    moreover have "group_of (gca_heap l') = (\<lambda>q. if q \<in> set (p # ys) \<and> (\<exists>cid g. group_of (gca_heap l) q = Some (cid, g) \<and> stale mt g) then None
        else group_of (gca_heap l) q)"
      unfolding l'(3) l1(3) using p g True by (auto simp: fun_eq_iff)
    ultimately show ?thesis using l'(2) by blast
  next
    case False
    have "list_ok l ((xs @ [p]) @ ys)" using Cons.prems by simp
    from Cons.IH [OF this] obtain l' zs where l': "do_gca_loop mt (first ys None) l = Some l'" "list_ok l' zs"
      "group_of (gca_heap l') = (\<lambda>q. if q \<in> set ys \<and> (\<exists>cid g. group_of (gca_heap l) q = Some (cid, g) \<and> stale mt g) then None else group_of (gca_heap l) q)"
      by blast
    have "do_gca_loop mt (first (p # ys) None) l = Some l'"
      using a False st l'(1) by (subst do_gca_loop.simps) simp
    moreover have "group_of (gca_heap l') = (\<lambda>q. if q \<in> set (p # ys) \<and> (\<exists>cid g. group_of (gca_heap l) q = Some (cid, g) \<and> stale mt g) then None
        else group_of (gca_heap l) q)"
      unfolding l'(3) using p g False by (auto simp: fun_eq_iff)
    ultimately show ?thesis using l'(2) by blast
  qed
qed

definition live :: "Mono_Time \<Rightarrow> (bytes \<rightharpoonup> group_announces) \<Rightarrow> bytes \<rightharpoonup> group_announces" where
  "live mt M cid = (case M cid of None \<Rightarrow> None | Some g \<Rightarrow> if stale mt g then None else Some g)"

lemma represents_live:
  assumes "represents G M" "groups_wf G"
    and "G' = (\<lambda>p. if \<exists>cid g. G p = Some (cid, g) \<and> stale mt g then None else G p)"
  shows "represents G' (live mt M)"
  unfolding represents_def
proof (intro allI)
  fix cid c
  have M: "M cid = Some c \<longleftrightarrow> (\<exists>p. G p = Some (cid, c))" using assms(1) by (simp add: represents_def)
  have "live mt M cid = Some c \<longleftrightarrow> M cid = Some c \<and> \<not> stale mt c" by (auto simp: live_def split: option.splits)
  also have "\<dots> \<longleftrightarrow> (\<exists>p. G p = Some (cid, c) \<and> \<not> stale mt c)" using M by blast
  also have "\<dots> \<longleftrightarrow> (\<exists>p. G' p = Some (cid, c))" by (intro ex_cong1) (auto simp: assms(3))
  finally show "live mt M cid = Some c \<longleftrightarrow> (\<exists>p. G' p = Some (cid, c))" .
qed

lemma do_gca_stores:
  assumes "stores l M"
  shows "\<exists>l'. do_gca mt l = Some l' \<and>
    stores l' (if mono_time_is_timeout mt (last_timeout_check l) GCA_DO_GCA_TIMEOUT then live mt M else M)"
proof (cases "mono_time_is_timeout mt (last_timeout_check l) GCA_DO_GCA_TIMEOUT")
  case True
  obtain ps where ok: "list_ok l ps" and rep: "represents (group_of (gca_heap l)) M" using assms by (auto simp: stores_def)
  let ?l = "l\<lparr>last_timeout_check := mono_time_get mt\<rparr>"
  have "list_ok ?l ([] @ ps)" using ok by (simp add: list_ok_def)
  moreover have heap: "gca_heap ?l = gca_heap l" by simp
  ultimately obtain l' zs where l': "do_gca_loop mt (first ps None) ?l = Some l'" "list_ok l' zs"
    "group_of (gca_heap l') = (\<lambda>p. if p \<in> set ps \<and> (\<exists>cid g. group_of (gca_heap l) p = Some (cid, g) \<and> stale mt g) then None else group_of (gca_heap l) p)"
    using do_gca_loop_list [of ?l "[]" ps mt] unfolding heap by blast
  have "p \<in> set ps" if "group_of (gca_heap l) p \<noteq> None" for p using that ok by (auto simp: group_of_def list_ok_def)
  then have "group_of (gca_heap l') = (\<lambda>p. if \<exists>cid g. group_of (gca_heap l) p = Some (cid, g) \<and> stale mt g then None else group_of (gca_heap l) p)"
    unfolding l'(3) by (intro ext if_cong) auto
  then have "represents (group_of (gca_heap l')) (live mt M)"
    using ok by (intro represents_live [OF rep]) (simp_all add: list_ok_def)
  moreover have "root_announces l = first ps None" using ok by (simp add: list_ok_def)
  ultimately show ?thesis using True l'(1,2) by (auto simp: do_gca_def stores_def)
qed (use assms in \<open>simp add: do_gca_def\<close>)

text \<open>Every node is freed.\<close>

lemma kill_gca_loop_seg: "seg h prev ps None \<Longrightarrow> distinct ps \<Longrightarrow> kill_gca_loop h (first ps None) = Some (h |` (- set ps))"
proof (induction ps arbitrary: h prev)
  case Nil
  show ?case by (subst kill_gca_loop.simps) (simp add: restrict_map_def)
next
  case (Cons p ps)
  then obtain a where a: "h p = Some a" "next_announce a = first ps None" "seg h (Some p) ps None" by auto
  have "seg (h(p := None)) (Some p) ps None" using a(3) Cons.prems(2) by (auto intro: seg_frame)
  moreover have "distinct ps" using Cons.prems(2) by simp
  ultimately have "kill_gca_loop (h(p := None)) (first ps None) = Some ((h(p := None)) |` (- set ps))" by (rule Cons.IH)
  moreover have "(h(p := None)) |` (- set ps) = h |` (- set (p # ps))" by (auto simp: restrict_map_def fun_eq_iff)
  ultimately show ?case using a(1,2) by (subst kill_gca_loop.simps) simp
qed

lemma kill_gca_frees: "stores l M \<Longrightarrow> kill_gca l = Some Map.empty"
proof -
  assume "stores l M"
  then obtain ps where ok: "list_ok l ps" by (auto simp: stores_def)
  then have "gca_heap l |` (- set ps) = Map.empty" by (auto simp: list_ok_def restrict_map_def fun_eq_iff)
  then show ?thesis using kill_gca_loop_seg [of "gca_heap l" None ps] ok by (simp add: list_ok_def kill_gca_def)
qed

lemma new_gca_list_stores: "new_gca_list P = Some l \<Longrightarrow> stores l Map.empty"
  by (auto simp: new_gca_list_def stores_def list_ok_def groups_wf_def represents_def group_of_def split: if_splits intro: exI [of _ "[]"])

section \<open>Reading announces\<close>

text \<open>The announces a peer is sent: one for every other peer with a saved announce, as many as fit.\<close>

definition sent_announces :: "nat \<Rightarrow> bytes \<Rightarrow> group_announces option \<Rightarrow> GC_Announce list" where
  "sent_announces n except g = (case g of None \<Rightarrow> []
     | Some g \<Rightarrow> get_announces_loop n except (take (min (unat (announced g)) 16) (saved g)) [])"

lemma get_stores:
  assumes "stores l M" "length cid = 32"
  shows "gca_get_announces (Some l) n (Some cid) (Some except) = Some (if n = 0 then None else Some (sent_announces (unat n) except (M cid)))"
  using get_announces_spec [OF assms]
  by (elim disjE exE conjE) (simp_all add: gca_get_announces_def sent_announces_def content_def size_defs)

lemma get_announces_loop_spec:
  assumes "length except = 32" "\<forall>a \<in> set as. length (peer_public_key (base_announce a)) = 32" "\<forall>g \<in> set added. length (peer_public_key g) = 32"
    and "distinct (map peer_public_key added)" "length added \<le> n"
  shows "let r = get_announces_loop n except as added in
    distinct (map peer_public_key r) \<and> length r \<le> n \<and> set added \<subseteq> set r \<and> set r \<subseteq> set added \<union> base_announce ` set as \<and>
    (\<forall>g \<in> set r - set added. peer_public_key g \<noteq> except) \<and>
    (length r < n \<longrightarrow> (\<forall>a \<in> set as. peer_public_key (base_announce a) \<noteq> except \<longrightarrow>
      peer_public_key (base_announce a) \<in> peer_public_key ` set r))"
  using assms
proof (induction as arbitrary: added)
  case (Cons a as)
  let ?k = "peer_public_key (base_announce a)"
  have eq: "memcmp (take ENC_PUBLIC_KEY_SIZE x) (take ENC_PUBLIC_KEY_SIZE y) = 0 \<longleftrightarrow> x = y" if "length x = 32" "length y = 32" for x y
    using that by (simp add: memcmp_eq_0 size_defs)
  have k: "length ?k = 32" using Cons.prems(2) by simp
  have known: "list_ex (\<lambda>g. memcmp (take ENC_PUBLIC_KEY_SIZE (peer_public_key g)) (take ENC_PUBLIC_KEY_SIZE ?k) = 0) added \<longleftrightarrow>
      ?k \<in> peer_public_key ` set added"
    using Cons.prems(3) k eq by (auto simp: list_ex_iff image_iff) metis+
  consider "n \<le> length added" | "length added < n" "?k = except" | "length added < n" "?k \<noteq> except" "?k \<in> peer_public_key ` set added"
    | "length added < n" "?k \<noteq> except" "?k \<notin> peer_public_key ` set added" by linarith
  then show ?case
  proof cases
    case 1
    then show ?thesis using Cons.prems by (auto simp: Let_def)
  next
    case 2
    then have "get_announces_loop n except (a # as) added = get_announces_loop n except as added" using eq [OF Cons.prems(1) k] by simp
    then show ?thesis using Cons.IH [OF Cons.prems(1) _ Cons.prems(3-5)] Cons.prems(2) 2(2) by (auto simp: Let_def)
  next
    case 3
    then have "get_announces_loop n except (a # as) added = get_announces_loop n except as added" using eq [OF Cons.prems(1) k] known by simp
    moreover have "?k \<in> peer_public_key ` set (get_announces_loop n except as added)"
      using 3(3) Cons.IH [OF Cons.prems(1) _ Cons.prems(3-5)] Cons.prems(2) by (auto simp: Let_def)
    ultimately show ?thesis using Cons.IH [OF Cons.prems(1) _ Cons.prems(3-5)] Cons.prems(2) by (auto simp: Let_def)
  next
    case 4
    then have e: "get_announces_loop n except (a # as) added = get_announces_loop n except as (added @ [base_announce a])"
      using eq [OF Cons.prems(1) k] known by simp
    have "distinct (map peer_public_key (added @ [base_announce a]))" using Cons.prems(4) 4(3) by simp
    moreover have "length (added @ [base_announce a]) \<le> n" using 4(1) by simp
    moreover have "\<forall>g \<in> set (added @ [base_announce a]). length (peer_public_key g) = 32" using Cons.prems(3) k by simp
    ultimately have "let r = get_announces_loop n except as (added @ [base_announce a]) in
      distinct (map peer_public_key r) \<and> length r \<le> n \<and> set (added @ [base_announce a]) \<subseteq> set r \<and> set r \<subseteq> set (added @ [base_announce a]) \<union> base_announce ` set as \<and>
      (\<forall>g \<in> set r - set (added @ [base_announce a]). peer_public_key g \<noteq> except) \<and>
      (length r < n \<longrightarrow> (\<forall>a \<in> set as. peer_public_key (base_announce a) \<noteq> except \<longrightarrow>
        peer_public_key (base_announce a) \<in> peer_public_key ` set r))"
      using Cons.prems(2) by (intro Cons.IH [OF Cons.prems(1)]) auto
    then show ?thesis unfolding e using 4(2) by (auto simp: Let_def)
  qed
qed simp

section \<open>The interface of the store\<close>

text \<open>What the users of the store rely on: a map from groups to their announces. \<open>used\<close> are the addresses in use.\<close>

locale announce_store =
  fixes holds :: "'s \<Rightarrow> (bytes \<rightharpoonup> group_announces) \<Rightarrow> bool"
    and used :: "'s \<Rightarrow> nat set"
    and add :: "nat option \<Rightarrow> Mono_Time \<Rightarrow> 's \<Rightarrow> GC_Public_Announce \<Rightarrow> ((nat \<times> nat) option \<times> 's) option"
    and get :: "'s option \<Rightarrow> byte \<Rightarrow> bytes option \<Rightarrow> bytes option \<Rightarrow> GC_Announce list option option"
    and forget :: "'s \<Rightarrow> bytes \<Rightarrow> 's option"
  assumes add_holds: "holds s M \<Longrightarrow> length (chat_public_key a) = 32 \<Longrightarrow> p \<notin> used s \<Longrightarrow>
      \<exists>q i s'. add (Some p) mt s a = Some (Some (q, i), s') \<and> i < 16 \<and>
        holds s' (M(chat_public_key a \<mapsto> push (mono_time_get mt) (public_base_announce a)
          (case M (chat_public_key a) of None \<Rightarrow> no_announces | Some g \<Rightarrow> g)))"
    and get_holds: "holds s M \<Longrightarrow> length cid = 32 \<Longrightarrow>
      get (Some s) n (Some cid) (Some except) = Some (if n = 0 then None else Some (sent_announces (unat n) except (M cid)))"
    and forget_holds: "holds s M \<Longrightarrow> length cid = 32 \<Longrightarrow> \<exists>s'. forget s cid = Some s' \<and> holds s' (M(cid := None))"
    and saved_16: "holds s M \<Longrightarrow> M cid = Some g \<Longrightarrow> length (saved g) = 16"
begin

text \<open>A peer that announces itself is among the announces every other peer of the group can get.\<close>

lemma announced_peer_found:
  assumes "holds s M" "length (chat_public_key a) = 32" "p \<notin> used s" "length except = 32" "16 < n"
    and "case M (chat_public_key a) of None \<Rightarrow> True | Some g \<Rightarrow> list_all (\<lambda>x. length (peer_public_key (base_announce x)) = 32) (saved g) \<and> announced g \<noteq> - 1"
    and "length (peer_public_key (public_base_announce a)) = 32" "peer_public_key (public_base_announce a) \<noteq> except"
  shows "\<exists>r s' gs. add (Some p) mt s a = Some (Some r, s') \<and> get (Some s') n (Some (chat_public_key a)) (Some except) = Some (Some gs) \<and>
    peer_public_key (public_base_announce a) \<in> peer_public_key ` set gs"
proof -
  define g where "g = (case M (chat_public_key a) of None \<Rightarrow> no_announces | Some g \<Rightarrow> g)"
  let ?g = "push (mono_time_get mt) (public_base_announce a) g"
  obtain q i s' where s': "add (Some p) mt s a = Some (Some (q, i), s')" "holds s' (M(chat_public_key a \<mapsto> ?g))"
    using add_holds [OF assms(1-3), of mt] unfolding g_def by blast
  have g: "length (saved g) = 16" "list_all (\<lambda>x. length (peer_public_key (base_announce x)) = 32) (saved g)" "announced g \<noteq> - 1"
    using assms(6) saved_16 [OF assms(1)] by (auto simp: g_def no_announces_def content_def empty_gc_announces_def empty_gc_announce_def size_defs list_all_iff split: option.splits)
  have idx: "unat (announced g + 1) = Suc (unat (announced g))"
    using g(3) by (metis add.commute unatSuc add_eq_0_iff)
  define as where "as = take (min (unat (announced ?g)) 16) (saved ?g)"
  have pos: "unat (announced g) mod 16 < min (unat (announced ?g)) 16"
    using idx by (simp add: push_def)
  have "as ! (unat (announced g) mod 16) = \<lparr>base_announce = public_base_announce a, ga_timestamp = mono_time_get mt\<rparr>" "length as = min (unat (announced ?g)) 16"
    using pos g(1) by (simp_all add: as_def push_def)
  then have a: "\<lparr>base_announce = public_base_announce a, ga_timestamp = mono_time_get mt\<rparr> \<in> set as"
    using pos by (metis nth_mem)
  have keys: "\<forall>x \<in> set as. length (peer_public_key (base_announce x)) = 32"
    using g(2) assms(7) set_update_subset_insert [of "saved g"] by (fastforce simp: as_def push_def list_all_iff dest: in_set_takeD)
  define r where "r = get_announces_loop (unat n) except as []"
  have spec: "length r \<le> length as \<and> (length r < unat n \<longrightarrow> (\<forall>x \<in> set as. peer_public_key (base_announce x) \<noteq> except \<longrightarrow>
      peer_public_key (base_announce x) \<in> peer_public_key ` set r))"
  proof -
    have "distinct (map peer_public_key r)" "set r \<subseteq> base_announce ` set as"
      "length r < unat n \<longrightarrow> (\<forall>x \<in> set as. peer_public_key (base_announce x) \<noteq> except \<longrightarrow> peer_public_key (base_announce x) \<in> peer_public_key ` set r)"
      using get_announces_loop_spec [OF assms(4) keys, of "[]" "unat n"] by (auto simp: r_def Let_def)
    moreover have "length r = card (peer_public_key ` set r)" using calculation(1) by (metis distinct_card length_map set_map)
    moreover have "card (peer_public_key ` set r) \<le> card (set as)"
      using calculation(2) by (metis List.finite_set card_image_le card_mono finite_imageI order_trans)
    ultimately show ?thesis using card_length [of as] by simp
  qed
  have "length as \<le> 16" by (simp add: as_def)
  moreover have "16 < unat n" using assms(5) by (simp add: word_less_nat_alt)
  ultimately have "peer_public_key (public_base_announce a) \<in> peer_public_key ` set r"
    using spec a assms(8) by fastforce
  moreover have "get (Some s') n (Some (chat_public_key a)) (Some except) = Some (Some r)"
    using get_holds [OF s'(2) assms(2), of n except] assms(5) by (auto simp: sent_announces_def r_def as_def)
  ultimately show ?thesis using s'(1) by blast
qed

end

lemma stores_saved_16:
  assumes "stores l M" "M cid = Some g"
  shows "length (saved g) = 16"
proof -
  obtain ps p where ok: "list_ok l ps" and p: "group_of (gca_heap l) p = Some (cid, g)"
    using assms by (auto simp: stores_def represents_def)
  then have "groups_wf (group_of (gca_heap l))" by (simp add: list_ok_def)
  with p show ?thesis by (simp add: groups_wf_def size_defs)
qed

interpretation gca: announce_store stores "\<lambda>l. dom (gca_heap l)" gca_add_announce gca_get_announces cleanup_gca
  by unfold_locales (blast intro: add_stores cleanup_stores get_stores stores_saved_16)+

section \<open>Round trips\<close>

text \<open>Announces that can be packed and read back: relays and addresses of families the reader accepts.\<close>

definition announce_clean :: "GC_Announce \<Rightarrow> bool" where
  "announce_clean a \<longleftrightarrow> length (peer_public_key a) = 32 \<and> length (ga_tcp_relays a) = GCA_MAX_ANNOUNCED_TCP_RELAYS \<and>
     unat (tcp_relays_count a) \<le> GCA_MAX_ANNOUNCED_TCP_RELAYS \<and> (tcp_relays_count a > 0 \<or> ip_port_is_set a) \<and>
     (tcp_relays_count a > 0 \<longrightarrow> list_all node_clean (ga_tcp_relays a)) \<and>
     (ip_port_is_set a \<longrightarrow> node_clean \<lparr>nf_public_key = peer_public_key a, nf_ip_port = ga_ip_port a\<rparr> \<and>
        node_udp \<lparr>nf_public_key = peer_public_key a, nf_ip_port = ga_ip_port a\<rparr>)"

text \<open>What the reader gets: unset parts stay as they were in its memory.\<close>

definition received :: "GC_Announce \<Rightarrow> GC_Announce \<Rightarrow> GC_Announce" where
  "received target a = a\<lparr>ga_ip_port := if ip_port_is_set a then ga_ip_port a else ga_ip_port target,
     ga_tcp_relays := if tcp_relays_count a = 0 then ga_tcp_relays target else ga_tcp_relays a\<rparr>"

lemma byte_le_1: "unat (b :: byte) \<le> 1 \<Longrightarrow> b = 0 \<or> b = 1"
proof -
  assume "unat b \<le> 1"
  then have "unat b = 0 \<or> unat b = 1" by linarith
  then show ?thesis by (metis unat_0 unat_1 word_unat_eq_iff)
qed

lemma pack_announce_clean:
  assumes "announce_clean a" "136 \<le> len"
  obtains ipp nodes where
    "gca_pack_announce len a = Some (Some (peer_public_key a @ [if ip_port_is_set a then 1 else 0, tcp_relays_count a] @ ipp @ nodes))"
    "length ipp \<le> 19" "length nodes \<le> 51" "ip_port_is_set a \<longrightarrow> ipp \<noteq> []"
    "\<forall>rest (target :: GC_Announce). (if ip_port_is_set a then unpack_ip_port (ipp @ rest) False else Some (0, ga_ip_port target)) =
       Some (length ipp, if ip_port_is_set a then ga_ip_port a else ga_ip_port target)"
    "\<forall>rest. unpack_nodes (unat (tcp_relays_count a)) (nodes @ rest) True = Some (take (unat (tcp_relays_count a)) (ga_tcp_relays a), length nodes)"
proof -
  let ?c = "unat (tcp_relays_count a)"
  have c: "?c = 0 \<or> ?c = 1" and len: "length (peer_public_key a) = 32" "length (ga_tcp_relays a) = 1" and valid: "\<not> (\<not> ip_port_is_set a \<and> tcp_relays_count a = 0)"
    using assms(1) by (auto simp: announce_clean_def size_defs word_gt_0 dest: byte_le_1)
  have relays: "\<forall>n \<in> set (take ?c (ga_tcp_relays a)). node_clean n" "length (take ?c (ga_tcp_relays a)) = ?c"
    using assms(1) c len(2) by (auto simp: announce_clean_def list_all_iff word_gt_0 dest: in_set_takeD)
  obtain ipp where ipp: "(if ip_port_is_set a then pack_ip_port (len - 34) (ga_ip_port a) else Some []) = Some ipp" "length ipp \<le> 19"
    "ip_port_is_set a \<longrightarrow> ipp \<noteq> []"
    "\<forall>rest (target :: GC_Announce). (if ip_port_is_set a then unpack_ip_port (ipp @ rest) False else Some (0, ga_ip_port target)) =
       Some (length ipp, if ip_port_is_set a then ga_ip_port a else ga_ip_port target)"
  proof (cases "ip_port_is_set a")
    case True
    then have n: "ip_wf (ip (ga_ip_port a))" "family (ip (ga_ip_port a)) \<in> {TOX_AF_INET, TOX_AF_INET6}"
      "family (ip (ga_ip_port a)) \<in> {TOX_AF_INET, TCP_INET} \<Longrightarrow> drop 4 (addr (ip (ga_ip_port a))) = replicate 12 0"
      using assms(1) by (auto simp: announce_clean_def node_clean_def node_udp_def)
    have "\<not> len - 34 < 7" "\<not> len - 34 < 19" using assms(2) by simp_all
    then obtain ipp where p: "pack_ip_port (len - 34) (ga_ip_port a) = Some ipp" "length ipp \<le> 19"
      using n(1,2) by (auto simp: pack_ip_port_def family_defs size_defs ip_wf_def)
    have "unpack_ip_port (ipp @ rest) False = Some (length ipp, ga_ip_port a)" for rest
      using unpack_pack_ip_port(1) [OF p(1) n(1,3)] unpack_ip_port_udp [OF p(1) n(2)] by metis
    then show ?thesis using that [of ipp] True p unpack_pack_ip_port(3) [OF p(1) n(1,3)] by simp
  next
    case False
    then show ?thesis by (intro that [of "[]"]) simp_all
  qed
  have room: "52 * length (take ?c (ga_tcp_relays a)) < len - (34 + length ipp)" using assms(2) ipp(2) c len(2) by auto
  from pack_nodes_fits [OF relays(1) room] obtain nodes where nodes: "pack_nodes (len - (34 + length ipp)) (take ?c (ga_tcp_relays a)) = Some nodes"
    "length nodes \<le> 51" using c relays(2) by auto
  have "length nodes < len - (34 + length ipp)" using nodes(2) ipp(2) assms(2) by linarith
  from unpack_pack_nodes_append [OF nodes(1) this, of True] relays
  have un: "unpack_nodes ?c (nodes @ rest) True = Some (take ?c (ga_tcp_relays a), length nodes)" for rest by simp
  have un': "\<forall>rest. unpack_nodes ?c (nodes @ rest) True = Some (take ?c (ga_tcp_relays a), length nodes)" using un by blast
  have pack: "gca_pack_announce len a = Some (Some (peer_public_key a @ [if ip_port_is_set a then 1 else 0, tcp_relays_count a] @ ipp @ nodes))"
    unfolding gca_pack_announce_def Let_def using assms(2) valid len c ipp(1) nodes(1) by (auto simp: size_defs)
  show thesis by (rule that [OF pack ipp(2) nodes(2) ipp(3,4) un'])
qed

lemma unpack_pack_announce:
  assumes "announce_clean a" "136 \<le> len" "gca_pack_announce len a = Some (Some bs)" "length (ga_tcp_relays target) = 1"
  shows "gca_unpack_announce target (bs @ rest) = Some (received target a, length bs)" "length bs \<le> 104" "bs \<noteq> []"
proof -
  obtain ipp nodes where p: "gca_pack_announce len a = Some (Some (peer_public_key a @ [if ip_port_is_set a then 1 else 0, tcp_relays_count a] @ ipp @ nodes))"
    "length ipp \<le> 19" "length nodes \<le> 51" "ip_port_is_set a \<longrightarrow> ipp \<noteq> []"
    "\<forall>rest (target :: GC_Announce). (if ip_port_is_set a then unpack_ip_port (ipp @ rest) False else Some (0, ga_ip_port target)) =
       Some (length ipp, if ip_port_is_set a then ga_ip_port a else ga_ip_port target)"
    "\<forall>rest. unpack_nodes (unat (tcp_relays_count a)) (nodes @ rest) True = Some (take (unat (tcp_relays_count a)) (ga_tcp_relays a), length nodes)"
    by (rule pack_announce_clean [OF assms(1,2)])
  have bs: "bs = peer_public_key a @ [if ip_port_is_set a then 1 else 0, tcp_relays_count a] @ ipp @ nodes" using p(1) assms(3) by simp
  have len: "length (peer_public_key a) = 32" "length (ga_tcp_relays a) = 1" "unat (tcp_relays_count a) \<le> 1"
    using assms(1) by (simp_all add: announce_clean_def size_defs)
  show "length bs \<le> 104" "bs \<noteq> []" using bs len p(2,3) by simp_all
  have set: "net_unpack_bool (drop ENC_PUBLIC_KEY_SIZE (bs @ rest)) = ip_port_is_set a" "(bs @ rest) ! (ENC_PUBLIC_KEY_SIZE + 1) = tcp_relays_count a"
    "drop (ENC_PUBLIC_KEY_SIZE + 2) (bs @ rest) = ipp @ nodes @ rest" "drop (ENC_PUBLIC_KEY_SIZE + 2 + length ipp) (bs @ rest) = nodes @ rest"
    "take ENC_PUBLIC_KEY_SIZE (bs @ rest) = peer_public_key a" "length bs = 34 + length ipp + length nodes"
    using len by (simp_all add: bs net_unpack_bool_def size_defs nth_append)
  note c = byte_le_1 [OF len(3)]
  have r: "received target a = \<lparr>ga_tcp_relays = take (unat (tcp_relays_count a)) (ga_tcp_relays a) @ drop (unat (tcp_relays_count a)) (ga_tcp_relays target),
      tcp_relays_count = tcp_relays_count a, ip_port_is_set = ip_port_is_set a,
      ga_ip_port = (if ip_port_is_set a then ga_ip_port a else ga_ip_port target), peer_public_key = peer_public_key a\<rparr>"
    using c len(2) assms(4) by (cases a) (auto simp: received_def)
  show "gca_unpack_announce target (bs @ rest) = Some (received target a, length bs)"
    unfolding gca_unpack_announce_def Let_def set p(5) [rule_format] option.case prod.case p(6) [rule_format] r
    using len p(4) set(6) c by (auto simp: size_defs)
qed

lemma pack_announces_list_fits:
  assumes "list_all announce_clean as" "104 * length as + 32 \<le> len"
  shows "\<exists>bs. gca_pack_announces_list len as = Some (Some bs) \<and> length bs \<le> 104 * length as \<and>
    (\<forall>targets. list_all2 (\<lambda>t a. length (ga_tcp_relays t) = 1) targets as \<longrightarrow>
       gca_unpack_announces_list targets bs = Some (map2 received targets as))"
  using assms
proof (induction as arbitrary: len)
  case (Cons a as)
  have a: "announce_clean a" and len: "136 \<le> len" using Cons.prems by auto
  obtain ipp nodes where "gca_pack_announce len a = Some (Some (peer_public_key a @ [if ip_port_is_set a then 1 else 0, tcp_relays_count a] @ ipp @ nodes))"
    by (rule pack_announce_clean [OF a len])
  then obtain b where b: "gca_pack_announce len a = Some (Some b)" by blast
  have target: "length (ga_tcp_relays empty_gc_announce) = 1" by (simp add: empty_gc_announce_def)
  note up = unpack_pack_announce [OF a len b]
  have "104 * length as + 32 \<le> len - length b" using Cons.prems(2) up(2) [OF target] by simp
  from Cons.IH [OF _ this] Cons.prems(1) obtain bs where bs: "gca_pack_announces_list (len - length b) as = Some (Some bs)"
    "length bs \<le> 104 * length as" "\<forall>targets. list_all2 (\<lambda>t a. length (ga_tcp_relays t) = 1) targets as \<longrightarrow>
       gca_unpack_announces_list targets bs = Some (map2 received targets as)" by auto
  have "gca_unpack_announces_list targets (b @ bs) = Some (map2 received targets (a # as))"
    if "list_all2 (\<lambda>t a. length (ga_tcp_relays t) = 1) targets (a # as)" for targets
    using that up bs(3) by (cases targets) auto
  with b bs(1,2) up(2) [OF target] show ?case by auto
qed (auto simp: list_all2_Nil2)

section \<open>Properties\<close>

text \<open>C32: The doubly linked list of groups, with the pointers of its nodes in memory, implements a finite map from groups to their announces: announcing,
  forgetting and expiring groups return, never read a null or dangling pointer, and change the map as specified, reading gives the
  announces the map holds, and destroying the list frees every node.\<close>

theorem announce_list_refines_map:
  assumes "stores l M" "length (chat_public_key a) = 32" "p \<notin> dom (gca_heap l)" "length cid = 32"
  shows "(\<exists>q i l'. gca_add_announce (Some p) mt l a = Some (Some (q, i), l') \<and>
       stores l' (M(chat_public_key a \<mapsto> push (mono_time_get mt) (public_base_announce a)
         (case M (chat_public_key a) of None \<Rightarrow> no_announces | Some g \<Rightarrow> g)))) \<and>
    (\<exists>l'. cleanup_gca l cid = Some l' \<and> stores l' (M(cid := None))) \<and>
    (\<exists>l'. do_gca mt l = Some l' \<and> stores l' (if mono_time_is_timeout mt (last_timeout_check l) GCA_DO_GCA_TIMEOUT then live mt M else M)) \<and>
    gca_get_announces (Some l) n (Some cid) (Some except) = Some (if n = 0 then None else Some (sent_announces (unat n) except (M cid))) \<and>
    kill_gca l = Some Map.empty"
  using gca.add_holds [OF assms(1-3), of mt] gca.forget_holds [OF assms(1,4)] do_gca_stores [OF assms(1), of mt]
    gca.get_holds [OF assms(1,4), of n except] kill_gca_frees [OF assms(1)] by blast

definition example_announce :: "byte \<Rightarrow> GC_Public_Announce" where
  "example_announce k = \<lparr>public_base_announce = empty_gc_announce\<lparr>peer_public_key := replicate 32 k, ip_port_is_set := True,
     ga_ip_port := \<lparr>ip = \<lparr>family = TOX_AF_INET, addr = [77, 0, 0, k] @ replicate 12 0\<rparr>, port = 99\<rparr>\<rparr>, chat_public_key = replicate 32 1\<rparr>"

theorem announce_list_refines_map_witness:
  "\<exists>l q i l'. new_gca_list fuzz_platform = Some l \<and>
     gca_add_announce (Some 7) \<lparr>cur_time = 1000, base_time = 0\<rparr> l (example_announce 5) = Some (Some (q, i), l') \<and> kill_gca l = Some Map.empty"
proof -
  obtain l where l: "new_gca_list fuzz_platform = Some l" by (simp add: new_gca_list_def)
  have a: "length (chat_public_key (example_announce 5)) = 32" "7 \<notin> dom (gca_heap l)" "length (replicate 32 0 :: bytes) = 32"
    using l by (auto simp: example_announce_def new_gca_list_def)
  show ?thesis
    using l announce_list_refines_map [OF new_gca_list_stores [OF l] a, of "\<lparr>cur_time = 1000, base_time = 0\<rparr>" 0 "[]"] by blast
qed

text \<open>A peer that announces itself is found: the announces that any other peer of the group gets afterwards, if it asks for more than 16,
  contain one with its key.\<close>

theorem announced_peer_is_found:
  assumes "stores l M" "length (chat_public_key a) = 32" "p \<notin> dom (gca_heap l)" "length except = 32" "16 < n"
    and "case M (chat_public_key a) of None \<Rightarrow> True | Some g \<Rightarrow> list_all (\<lambda>x. length (peer_public_key (base_announce x)) = 32) (saved g) \<and> announced g \<noteq> - 1"
    and "length (peer_public_key (public_base_announce a)) = 32" "peer_public_key (public_base_announce a) \<noteq> except"
  shows "\<exists>r l' gs. gca_add_announce (Some p) mt l a = Some (Some r, l') \<and>
    gca_get_announces (Some l') n (Some (chat_public_key a)) (Some except) = Some (Some gs) \<and>
    peer_public_key (public_base_announce a) \<in> peer_public_key ` set gs"
  using assms by (rule gca.announced_peer_found)

theorem announced_peer_is_found_witness:
  "\<exists>l r l' gs. new_gca_list fuzz_platform = Some l \<and>
     gca_add_announce (Some 7) \<lparr>cur_time = 1000, base_time = 0\<rparr> l (example_announce 5) = Some (Some r, l') \<and>
     gca_get_announces (Some l') 20 (Some (replicate 32 1)) (Some (replicate 32 6)) = Some (Some gs) \<and> replicate 32 5 \<in> peer_public_key ` set gs"
proof -
  obtain l where l: "new_gca_list fuzz_platform = Some l" by (simp add: new_gca_list_def)
  have "7 \<notin> dom (gca_heap l)" "replicate 32 5 \<noteq> (replicate 32 6 :: bytes)" using l by (auto simp: new_gca_list_def)
  then show ?thesis
    using l announced_peer_is_found [OF new_gca_list_stores [OF l], of "example_announce 5" 7 "replicate 32 6" 20]
    by (auto simp: example_announce_def)
qed

text \<open>C33: A buffer of the size computed for a number of announces (at most 481 of them, so that the 16-bit product does not wrap around)
  is large enough: every list of so many announces is packed into it, within that size and in at most 104 bytes each, and reading the
  bytes gives back every announce, with unset addresses and relays left as they were in the memory of the reader. A buffer smaller than the
  size computed for one announce is refused.\<close>

theorem announces_list_round_trip:
  assumes "list_all announce_clean as" "length as \<le> 481" "unat (gca_pack_announces_list_size (of_nat (length as))) \<le> len"
    and "list_all2 (\<lambda>t a. length (ga_tcp_relays t) = 1) targets as"
  shows "\<exists>bs. gca_pack_announces_list len as = Some (Some bs) \<and> length bs \<le> unat (gca_pack_announces_list_size (of_nat (length as))) \<and>
    length bs \<le> 104 * length as \<and> gca_unpack_announces_list targets bs = Some (map2 received targets as) \<and>
    (\<forall>short a. short < unat (gca_pack_announces_list_size 1) \<longrightarrow> gca_pack_announces_list short (a # as) = Some None)"
proof -
  have size: "unat (gca_pack_announces_list_size (of_nat n)) = 136 * n" if "n \<le> 481" for n
    using that by (simp add: gca_pack_announces_list_size_def size_defs unat_word_ariths unat_of_nat)
  have "\<exists>bs. gca_pack_announces_list len as = Some (Some bs) \<and> length bs \<le> 104 * length as \<and>
    gca_unpack_announces_list targets bs = Some (map2 received targets as)"
  proof (cases "as = []")
    case True
    with assms(4) show ?thesis by simp
  next
    case False
    then have "length as \<noteq> 0" by simp
    with assms(3) size [OF assms(2)] have "104 * length as + 32 \<le> len" by linarith
    from pack_announces_list_fits [OF assms(1) this] assms(4) show ?thesis by blast
  qed
  moreover have "gca_pack_announces_list short (a # as) = Some None" if "short < unat (gca_pack_announces_list_size 1)" for short a
    using that size [of 1] by (simp add: gca_pack_announce_def size_defs)
  ultimately show ?thesis using size [OF assms(2)] by auto
qed

theorem announces_list_round_trip_witness:
  "\<exists>bs. gca_pack_announces_list (unat (gca_pack_announces_list_size 2))
       [public_base_announce (example_announce 5), public_base_announce (example_announce 6)] = Some (Some bs) \<and>
     gca_unpack_announces_list [empty_gc_announce, empty_gc_announce] bs =
       Some [public_base_announce (example_announce 5), public_base_announce (example_announce 6)]"
proof -
  let ?as = "[public_base_announce (example_announce 5), public_base_announce (example_announce 6)]"
  have a: "list_all announce_clean ?as"
    by (simp add: announce_clean_def example_announce_def empty_gc_announce_def node_clean_def node_udp_def ip_wf_def size_defs)
  have t: "list_all2 (\<lambda>t a. length (ga_tcp_relays t) = 1) [empty_gc_announce, empty_gc_announce] ?as" by (simp add: empty_gc_announce_def)
  have r: "map2 received [empty_gc_announce, empty_gc_announce] ?as = ?as" by (simp add: received_def example_announce_def empty_gc_announce_def)
  have n: "length ?as \<le> 481" "unat (gca_pack_announces_list_size (of_nat (length ?as))) \<le> unat (gca_pack_announces_list_size 2)" by simp_all
  from announces_list_round_trip [OF a n t] show ?thesis unfolding r by blast
qed

end
