(* ===== verification/Onion_Announce.thy ===== *)
theory Onion_Announce
  imports Onion Timed_Auth Group_Announce
begin

text \<open>
  \<^verbatim>\<open>toxcore/onion_announce.c\<close> and \<^verbatim>\<open>toxcore/group_onion_announce.c\<close>: a node stores the clients that announce themselves through the onion, together with
  the way back to them, tells others who is announced, and passes data on to them. An announce for a group carries extra data, which
  a callback stores (\<^verbatim>\<open>pack_group_announces\<close>).

  A client proves that it can be reached at its address before it is stored: it has to send back a ping id, an
  authenticator of its key and address (\<open>Timed_Auth\<close>). The function \<^verbatim>\<open>qsort\<close> at the type of the entries is an argument. A result \<open>None\<close>
  is a write past the end of an array, or a fault of the callback.
\<close>

section \<open>Definitions\<close>

definition ONION_ANNOUNCE_MAX_ENTRIES :: nat where [size_defs]: "ONION_ANNOUNCE_MAX_ENTRIES = 160"
definition ONION_ANNOUNCE_TIMEOUT :: nat where [size_defs]: "ONION_ANNOUNCE_TIMEOUT = 300"
definition ONION_PING_ID_SIZE :: nat where [size_defs]: "ONION_PING_ID_SIZE = TIMED_AUTH_SIZE"
definition ONION_MAX_EXTRA_DATA_SIZE :: nat where [size_defs]: "ONION_MAX_EXTRA_DATA_SIZE = 136"
definition ONION_ANNOUNCE_SENDBACK_DATA_LENGTH :: nat where [size_defs]: "ONION_ANNOUNCE_SENDBACK_DATA_LENGTH = 8"
definition ONION_ANNOUNCE_REQUEST_MIN_SIZE :: nat where
  [size_defs]: "ONION_ANNOUNCE_REQUEST_MIN_SIZE = 1 + CRYPTO_NONCE_SIZE + CRYPTO_PUBLIC_KEY_SIZE + ONION_PING_ID_SIZE +
    CRYPTO_PUBLIC_KEY_SIZE + CRYPTO_PUBLIC_KEY_SIZE + ONION_ANNOUNCE_SENDBACK_DATA_LENGTH + CRYPTO_MAC_SIZE"
definition ONION_ANNOUNCE_REQUEST_MAX_SIZE :: nat where
  [size_defs]: "ONION_ANNOUNCE_REQUEST_MAX_SIZE = ONION_ANNOUNCE_REQUEST_MIN_SIZE + ONION_MAX_EXTRA_DATA_SIZE"
definition ONION_ANNOUNCE_RESPONSE_MIN_SIZE :: nat where
  [size_defs]: "ONION_ANNOUNCE_RESPONSE_MIN_SIZE = 2 + ONION_ANNOUNCE_SENDBACK_DATA_LENGTH + CRYPTO_NONCE_SIZE + ONION_PING_ID_SIZE + CRYPTO_MAC_SIZE"
definition ONION_ANNOUNCE_RESPONSE_MAX_SIZE :: nat where
  [size_defs]: "ONION_ANNOUNCE_RESPONSE_MAX_SIZE = ONION_ANNOUNCE_RESPONSE_MIN_SIZE + ONION_MAX_EXTRA_DATA_SIZE * MAX_SENT_NODES"
definition ONION_ANNOUNCE_REQUEST_SIZE :: nat where
  [size_defs]: "ONION_ANNOUNCE_REQUEST_SIZE = 1 + CRYPTO_NONCE_SIZE + CRYPTO_PUBLIC_KEY_SIZE + ONION_PING_ID_SIZE +
    CRYPTO_PUBLIC_KEY_SIZE + CRYPTO_PUBLIC_KEY_SIZE + ONION_ANNOUNCE_SENDBACK_DATA_LENGTH + CRYPTO_MAC_SIZE"
definition ONION_DATA_REQUEST_MIN_SIZE :: nat where
  [size_defs]: "ONION_DATA_REQUEST_MIN_SIZE = 1 + CRYPTO_PUBLIC_KEY_SIZE + CRYPTO_NONCE_SIZE + CRYPTO_PUBLIC_KEY_SIZE + CRYPTO_MAC_SIZE"
definition ANNOUNCE_REQUEST_MIN_SIZE_RECV :: nat where
  [size_defs]: "ANNOUNCE_REQUEST_MIN_SIZE_RECV = ONION_ANNOUNCE_REQUEST_MIN_SIZE + ONION_RETURN_3"
definition ANNOUNCE_REQUEST_MAX_SIZE_RECV :: nat where
  [size_defs]: "ANNOUNCE_REQUEST_MAX_SIZE_RECV = ONION_ANNOUNCE_REQUEST_MAX_SIZE + ONION_RETURN_3"
definition ANNOUNCE_REQUEST_SIZE_RECV :: nat where
  [size_defs]: "ANNOUNCE_REQUEST_SIZE_RECV = ONION_ANNOUNCE_REQUEST_SIZE + ONION_RETURN_3"
definition DATA_REQUEST_MIN_SIZE :: nat where [size_defs]: "DATA_REQUEST_MIN_SIZE = ONION_DATA_REQUEST_MIN_SIZE"
definition DATA_REQUEST_MIN_SIZE_RECV :: nat where [size_defs]: "DATA_REQUEST_MIN_SIZE_RECV = DATA_REQUEST_MIN_SIZE + ONION_RETURN_3"
definition ONION_MINIMAL_SIZE :: nat where
  [size_defs]: "ONION_MINIMAL_SIZE = ONION_PING_ID_SIZE + CRYPTO_PUBLIC_KEY_SIZE * 2 + ONION_ANNOUNCE_SENDBACK_DATA_LENGTH"

text \<open>Structures in memory on a 64-bit host.\<close>

definition sizeof_Cmp_Data :: nat where [size_defs]: "sizeof_Cmp_Data = 304"
definition sizeof_Onion_Announce :: nat where [size_defs]: "sizeof_Onion_Announce = 46184"
definition sizeof_GC_Announce :: nat where [size_defs]: "sizeof_GC_Announce = 136"

record Onion_Announce_Entry =
  oe_public_key :: bytes
  ret_ip_port :: IP_Port
  oe_ret :: bytes
  data_public_key :: bytes
  announce_time :: u64

text \<open>What a call of the callback finds in memory: the address \<^verbatim>\<open>calloc\<close> returns and an uninitialised structure. It gets the object, the number
  of nodes, the extra data of the request and the room in the response, and answers with the bytes it adds.\<close>

type_synonym extra_mem = "nat option \<times> GC_Public_Announce"
type_synonym pack_extra_data_cb =
  "extra_mem \<Rightarrow> GC_Announces_List \<Rightarrow> Mono_Time \<Rightarrow> byte \<Rightarrow> bytes \<Rightarrow> nat \<Rightarrow> (bytes option \<times> GC_Announces_List) option"

record Onion_Announce =
  oa_dht :: DHT
  oa_entries :: "Onion_Announce_Entry list"
  hmac_key :: bytes
  oa_shared_keys_recv :: Shared_Key_Cache
  extra_data_max_size :: u16
  extra_data_callback :: "pack_extra_data_cb option"
  extra_data_object :: GC_Announces_List

type_synonym entry_sort = "(Onion_Announce_Entry \<Rightarrow> Onion_Announce_Entry \<Rightarrow> int) \<Rightarrow> Onion_Announce_Entry list \<Rightarrow> Onion_Announce_Entry list"

definition empty_announce_entry :: Onion_Announce_Entry where
  "empty_announce_entry = \<lparr>oe_public_key = replicate 32 0, ret_ip_port = empty_ip_port, oe_ret = replicate 177 0,
     data_public_key = replicate 32 0, announce_time = 0\<rparr>"

definition onion_announce_extra_data_callback ::
  "Onion_Announce \<Rightarrow> u16 \<Rightarrow> pack_extra_data_cb option \<Rightarrow> GC_Announces_List \<Rightarrow> Onion_Announce" where
  "onion_announce_extra_data_callback onion_a max_size callback object =
     onion_a\<lparr>extra_data_max_size := max_size, extra_data_callback := callback, extra_data_object := object\<rparr>"

definition onion_announce_entry_public_key :: "Onion_Announce \<Rightarrow> nat \<Rightarrow> bytes" where
  "onion_announce_entry_public_key onion_a entry = oe_public_key (oa_entries onion_a ! entry)"

definition onion_announce_entry_set_time :: "Onion_Announce \<Rightarrow> nat \<Rightarrow> u64 \<Rightarrow> Onion_Announce" where
  "onion_announce_entry_set_time onion_a entry time =
     onion_a\<lparr>oa_entries := (oa_entries onion_a)[entry := (oa_entries onion_a ! entry)\<lparr>announce_time := time\<rparr>]\<rparr>"

section \<open>Requests\<close>

definition create_announce_request ::
  "platform \<Rightarrow> bytes \<Rightarrow> Random \<Rightarrow> nat \<Rightarrow> bytes \<Rightarrow> bytes \<Rightarrow> bytes \<Rightarrow> bytes \<Rightarrow> bytes \<Rightarrow> bytes \<Rightarrow> u64 \<Rightarrow> bytes option \<times> Random" where
  "create_announce_request P stack r max_packet_length dest_client_id public_key secret_key pid client_id data_pk sendback_data =
     (if max_packet_length < ONION_ANNOUNCE_REQUEST_MIN_SIZE then (None, r)
      else
        let plain = take ONION_PING_ID_SIZE pid @ take CRYPTO_PUBLIC_KEY_SIZE client_id @ take CRYPTO_PUBLIC_KEY_SIZE data_pk @ host_bytes 8 sendback_data;
            (nonce, r) = random_nonce r
        in case encrypt_data P stack dest_client_id secret_key nonce plain of
             None \<Rightarrow> (None, r)
           | Some enc \<Rightarrow>
               if length enc + 1 + CRYPTO_NONCE_SIZE + CRYPTO_PUBLIC_KEY_SIZE \<noteq> ONION_ANNOUNCE_REQUEST_MIN_SIZE then (None, r)
               else (Some (NET_PACKET_ANNOUNCE_REQUEST_OLD # nonce @ take CRYPTO_PUBLIC_KEY_SIZE public_key @ enc), r))"

definition create_data_request ::
  "platform \<Rightarrow> bytes \<Rightarrow> Random \<Rightarrow> nat \<Rightarrow> bytes \<Rightarrow> bytes \<Rightarrow> bytes \<Rightarrow> bytes \<Rightarrow> bytes option \<times> Random" where
  "create_data_request P stack r max_packet_length public_key encrypt_public_key nonce data =
     (if DATA_REQUEST_MIN_SIZE + length data > max_packet_length then (None, r)
      else if DATA_REQUEST_MIN_SIZE + length data > ONION_MAX_DATA_SIZE then (None, r)
      else
        let ((random_public_key, random_secret_key), r) = crypto_new_keypair r
        in case encrypt_data P stack encrypt_public_key random_secret_key (take CRYPTO_NONCE_SIZE nonce) data of
             None \<Rightarrow> (None, r)
           | Some enc \<Rightarrow>
               if 1 + CRYPTO_PUBLIC_KEY_SIZE + CRYPTO_NONCE_SIZE + CRYPTO_PUBLIC_KEY_SIZE + length enc \<noteq> DATA_REQUEST_MIN_SIZE + length data then (None, r)
               else (Some (NET_PACKET_ONION_DATA_REQUEST # take CRYPTO_PUBLIC_KEY_SIZE public_key @ take CRYPTO_NONCE_SIZE nonce
                             @ take CRYPTO_PUBLIC_KEY_SIZE random_public_key @ enc), r))"

text \<open>Wrapping a request and sending it to the first relay; the random source and the socket are those of the DHT.\<close>

definition send_over_path :: "host \<Rightarrow> DHT \<Rightarrow> Onion_Path \<Rightarrow> IP_Port \<Rightarrow> bytes \<Rightarrow> int \<times> DHT" where
  "send_over_path h dht path dest request =
     (case create_onion_packet (plat h) (rng dht) ONION_MAX_PACKET_SIZE path dest request of
        (None, r) \<Rightarrow> (- 1, dht\<lparr>rng := r\<rparr>)
      | (Some packet, r) \<Rightarrow>
          (case dht_send h (dht\<lparr>rng := r\<rparr>) (ip_port1 path) packet of (n, dht) \<Rightarrow> (if n \<noteq> int (length packet) then - 1 else 0, dht)))"

definition send_announce_request ::
  "host \<Rightarrow> bytes \<Rightarrow> DHT \<Rightarrow> Onion_Path \<Rightarrow> Node_format \<Rightarrow> bytes \<Rightarrow> bytes \<Rightarrow> bytes \<Rightarrow> bytes \<Rightarrow> bytes \<Rightarrow> u64 \<Rightarrow> int \<times> DHT" where
  "send_announce_request h stack dht path dest public_key secret_key pid client_id data_pk sendback_data =
     (case create_announce_request (plat h) stack (rng dht) ONION_ANNOUNCE_REQUEST_MIN_SIZE (nf_public_key dest) public_key secret_key
             pid client_id data_pk sendback_data of
        (None, r) \<Rightarrow> (- 1, dht\<lparr>rng := r\<rparr>)
      | (Some request, r) \<Rightarrow>
          if length request \<noteq> ONION_ANNOUNCE_REQUEST_MIN_SIZE then (- 1, dht\<lparr>rng := r\<rparr>)
          else send_over_path h (dht\<lparr>rng := r\<rparr>) path (nf_ip_port dest) request)"

definition send_data_request ::
  "host \<Rightarrow> bytes \<Rightarrow> DHT \<Rightarrow> Onion_Path \<Rightarrow> IP_Port \<Rightarrow> bytes \<Rightarrow> bytes \<Rightarrow> bytes \<Rightarrow> bytes \<Rightarrow> int \<times> DHT" where
  "send_data_request h stack dht path dest public_key encrypt_public_key nonce data =
     (case create_data_request (plat h) stack (rng dht) ONION_MAX_DATA_SIZE public_key encrypt_public_key nonce data of
        (None, r) \<Rightarrow> (- 1, dht\<lparr>rng := r\<rparr>)
      | (Some request, r) \<Rightarrow> send_over_path h (dht\<lparr>rng := r\<rparr>) path dest request)"

section \<open>Entries\<close>

definition entry_timeout :: "Mono_Time \<Rightarrow> Onion_Announce_Entry \<Rightarrow> bool" where
  "entry_timeout mt e \<longleftrightarrow> mono_time_is_timeout mt (announce_time e) (of_nat ONION_ANNOUNCE_TIMEOUT)"

definition in_entries :: "Onion_Announce \<Rightarrow> bytes \<Rightarrow> nat option" where
  "in_entries onion_a public_key =
     find_index (\<lambda>e. \<not> entry_timeout (dht_mono_time (oa_dht onion_a)) e \<and> pk_equal (oe_public_key e) public_key) (oa_entries onion_a)"

definition cmp_entry :: "Mono_Time \<Rightarrow> bytes \<Rightarrow> Onion_Announce_Entry \<Rightarrow> Onion_Announce_Entry \<Rightarrow> int" where
  "cmp_entry mt base_public_key entry1 entry2 =
     (let t1 = entry_timeout mt entry1; t2 = entry_timeout mt entry2 in
      if t1 \<and> t2 then 0 else if t1 then - 1 else if t2 then 1
      else
        let closest = id_closest base_public_key (oe_public_key entry1) (oe_public_key entry2)
        in if closest = 1 then 1 else if closest = 2 then - 1 else 0)"

definition sort_onion_announce_list :: "platform \<Rightarrow> entry_sort \<Rightarrow> Onion_Announce_Entry list \<Rightarrow> Mono_Time \<Rightarrow> bytes \<Rightarrow> Onion_Announce_Entry list" where
  "sort_onion_announce_list P qsort list mt comp_public_key =
     (if \<not> malloc_ok P (length list * sizeof_Cmp_Data) then list else qsort (cmp_entry mt comp_public_key) list)"

text \<open>The last entry that timed out.\<close>

definition last_timeout :: "Mono_Time \<Rightarrow> Onion_Announce_Entry list \<Rightarrow> nat option" where
  "last_timeout mt es = (case filter (\<lambda>i. entry_timeout mt (es ! i)) [0..<length es] of [] \<Rightarrow> None | is \<Rightarrow> Some (last is))"

definition entry_position :: "Onion_Announce \<Rightarrow> bytes \<Rightarrow> nat option" where
  "entry_position onion_a public_key =
     (case in_entries onion_a public_key of
        Some pos \<Rightarrow> Some pos
      | None \<Rightarrow>
          (case last_timeout (dht_mono_time (oa_dht onion_a)) (oa_entries onion_a) of
             Some pos \<Rightarrow> Some pos
           | None \<Rightarrow> if id_closest (self_public_key (oa_dht onion_a)) public_key (oe_public_key (oa_entries onion_a ! 0)) = 1 then Some 0 else None))"

definition add_to_entries ::
  "platform \<Rightarrow> entry_sort \<Rightarrow> Onion_Announce \<Rightarrow> IP_Port \<Rightarrow> bytes \<Rightarrow> bytes \<Rightarrow> bytes \<Rightarrow> nat option \<times> Onion_Announce" where
  "add_to_entries P qsort onion_a ret_ipp public_key data_pk ret =
     (case entry_position onion_a public_key of
        None \<Rightarrow> (None, onion_a)
      | Some pos \<Rightarrow>
          let mt = dht_mono_time (oa_dht onion_a);
              entry = \<lparr>oe_public_key = take CRYPTO_PUBLIC_KEY_SIZE public_key, ret_ip_port = ret_ipp, oe_ret = take ONION_RETURN_3 ret,
                data_public_key = take CRYPTO_PUBLIC_KEY_SIZE data_pk, announce_time = mono_time_get mt\<rparr>;
              onion_a = onion_a\<lparr>oa_entries :=
                sort_onion_announce_list P qsort ((oa_entries onion_a)[pos := entry]) mt (self_public_key (oa_dht onion_a))\<rparr>
          in (in_entries onion_a public_key, onion_a))"

definition make_announce_payload_helper :: "Onion_Announce \<Rightarrow> bytes \<Rightarrow> nat option \<Rightarrow> bytes \<Rightarrow> bytes \<Rightarrow> bytes" where
  "make_announce_payload_helper onion_a pid index packet_public_key data_pk =
     (case index of
        None \<Rightarrow> 0 # take ONION_PING_ID_SIZE pid
      | Some i \<Rightarrow>
          let e = oa_entries onion_a ! i in
          if pk_equal (oe_public_key e) packet_public_key then
            (if \<not> pk_equal (data_public_key e) data_pk then 0 # take ONION_PING_ID_SIZE pid else 2 # take ONION_PING_ID_SIZE pid)
          else 1 # take CRYPTO_PUBLIC_KEY_SIZE (data_public_key e))"

section \<open>Handlers\<close>

text \<open>\<open>stack\<close> is the uninitialised array of \<^verbatim>\<open>check_timed_auth\<close>; the response is written to an array of \<^verbatim>\<open>ONION_ANNOUNCE_RESPONSE_MAX_SIZE\<close> bytes.\<close>

definition send_announce_response ::
  "host \<Rightarrow> Onion_Announce \<Rightarrow> IP_Port \<Rightarrow> bytes \<Rightarrow> byte \<Rightarrow> bytes \<Rightarrow> bytes \<Rightarrow> bytes \<Rightarrow> bytes \<Rightarrow> (int \<times> Onion_Announce) option" where
  "send_announce_response h onion_a source packet response_packet_id shared_key nonce plain response =
     (case encrypt_data_symmetric (plat h) (Some shared_key) nonce response of
        None \<Rightarrow> Some (1, onion_a)
      | Some enc \<Rightarrow>
          if 1 + ONION_ANNOUNCE_SENDBACK_DATA_LENGTH + CRYPTO_NONCE_SIZE + length enc > ONION_ANNOUNCE_RESPONSE_MAX_SIZE then None
          else if length enc \<noteq> length response + CRYPTO_MAC_SIZE then Some (1, onion_a)
          else
            let data = response_packet_id #
                  slice (ONION_PING_ID_SIZE + CRYPTO_PUBLIC_KEY_SIZE + CRYPTO_PUBLIC_KEY_SIZE) ONION_ANNOUNCE_SENDBACK_DATA_LENGTH plain @ nonce @ enc;
                (n, dht) = send_onion_response h (oa_dht onion_a) source data (drop (length packet - ONION_RETURN_3) packet);
                onion_a = onion_a\<lparr>oa_dht := dht\<rparr>
            in Some (if n = - 1 then 1 else 0, onion_a))"

definition handle_announce_request_common ::
  "host \<Rightarrow> entry_sort \<Rightarrow> bytes \<Rightarrow> extra_mem \<Rightarrow> Onion_Announce \<Rightarrow> IP_Port \<Rightarrow> bytes \<Rightarrow> byte \<Rightarrow> nat \<Rightarrow> bool \<Rightarrow> nat \<Rightarrow> pack_extra_data_cb option
    \<Rightarrow> (int \<times> Onion_Announce) option" where
  "handle_announce_request_common h qsort stack mem onion_a source packet response_packet_id plain_size want_node_count max_extra_size callback =
     (let packet_public_key = slice (1 + CRYPTO_NONCE_SIZE) CRYPTO_PUBLIC_KEY_SIZE packet;
          mt = dht_mono_time (oa_dht onion_a);
          (shared_key, cache) = shared_key_cache_lookup (plat h) mt (oa_shared_keys_recv onion_a) packet_public_key;
          onion_a = onion_a\<lparr>oa_shared_keys_recv := cache\<rparr>
      in case shared_key of
           None \<Rightarrow> Some (1, onion_a)
         | Some shared_key \<Rightarrow>
             if \<not> malloc_ok (plat h) plain_size then Some (1, onion_a)
             else case decrypt_data_symmetric (plat h) (Some shared_key) (slice 1 CRYPTO_NONCE_SIZE packet)
                    (slice (1 + CRYPTO_NONCE_SIZE + CRYPTO_PUBLIC_KEY_SIZE) (plain_size + CRYPTO_MAC_SIZE) packet) of
                 None \<Rightarrow> Some (1, onion_a)
               | Some plain \<Rightarrow>
                   if length plain \<noteq> plain_size then Some (1, onion_a)
                   else
                     let pid_data = packet_public_key @ ip_port_mem source;
                         data_pk = slice (ONION_PING_ID_SIZE + CRYPTO_PUBLIC_KEY_SIZE) CRYPTO_PUBLIC_KEY_SIZE plain;
                         client_id = slice ONION_PING_ID_SIZE CRYPTO_PUBLIC_KEY_SIZE plain;
                         (index, onion_a) =
                           (if check_timed_auth (plat h) mt (of_nat ONION_ANNOUNCE_TIMEOUT) (hmac_key onion_a) (Some pid_data)
                                 (take TIMED_AUTH_SIZE plain) stack
                            then add_to_entries (plat h) qsort onion_a source packet_public_key data_pk (drop (length packet - ONION_RETURN_3) packet)
                            else (in_entries onion_a client_id, onion_a));
                         (nodes_list, num_nodes) = get_close_nodes (oa_dht onion_a) client_id TOX_AF_UNSPEC (ip_is_lan (ip source)) False;
                         (nonce, r) = random_nonce (rng (oa_dht onion_a));
                         onion_a = onion_a\<lparr>oa_dht := (oa_dht onion_a)\<lparr>rng := r\<rparr>\<rparr>;
                         nodes_offset = 1 + ONION_PING_ID_SIZE + (if want_node_count then 1 else 0);
                         response_size = nodes_offset + MAX_SENT_NODES * PACKED_NODE_SIZE_IP6 + max_extra_size
                     in if \<not> malloc_ok (plat h) response_size then Some (1, onion_a)
                        else
                          let pid = generate_timed_auth (plat h) mt (of_nat ONION_ANNOUNCE_TIMEOUT) (hmac_key onion_a) (Some pid_data) stack;
                              payload = make_announce_payload_helper onion_a pid index packet_public_key data_pk
                          in case (if num_nodes \<noteq> 0 then pack_nodes (SIZEOF_Node_format * MAX_SENT_NODES) (take num_nodes nodes_list) else Some []) of
                               None \<Rightarrow> Some (1, onion_a)
                             | Some nodes \<Rightarrow>
                                 if num_nodes \<noteq> 0 \<and> nodes = [] then Some (1, onion_a)
                                 else
                                   let response = payload @ (if want_node_count then [of_nat num_nodes] else []) @ nodes
                                   in case callback of
                                        None \<Rightarrow> send_announce_response h onion_a source packet response_packet_id shared_key nonce plain response
                                      | Some f \<Rightarrow>
                                          (case f mem (extra_data_object onion_a) mt (of_nat num_nodes)
                                                  (slice ONION_MINIMAL_SIZE (length packet - ANNOUNCE_REQUEST_MIN_SIZE_RECV) plain)
                                                  (response_size - length response) of
                                             None \<Rightarrow> None
                                           | Some (None, object) \<Rightarrow> Some (1, onion_a\<lparr>extra_data_object := object\<rparr>)
                                           | Some (Some extra, object) \<Rightarrow>
                                               send_announce_response h (onion_a\<lparr>extra_data_object := object\<rparr>) source packet
                                                 response_packet_id shared_key nonce plain (response @ extra)))"

definition handle_gca_announce_request ::
  "host \<Rightarrow> entry_sort \<Rightarrow> bytes \<Rightarrow> extra_mem \<Rightarrow> Onion_Announce \<Rightarrow> IP_Port \<Rightarrow> bytes \<Rightarrow> (int \<times> Onion_Announce) option" where
  "handle_gca_announce_request h qsort stack mem onion_a source packet =
     (if length packet > ANNOUNCE_REQUEST_MAX_SIZE_RECV \<or> length packet \<le> ANNOUNCE_REQUEST_MIN_SIZE_RECV then Some (1, onion_a)
      else case extra_data_callback onion_a of
          None \<Rightarrow> Some (1, onion_a)
        | Some f \<Rightarrow> handle_announce_request_common h qsort stack mem onion_a source packet NET_PACKET_ANNOUNCE_RESPONSE
            (ONION_MINIMAL_SIZE + length packet - ANNOUNCE_REQUEST_MIN_SIZE_RECV) True (unat (extra_data_max_size onion_a)) (Some f))"

definition handle_announce_request ::
  "host \<Rightarrow> entry_sort \<Rightarrow> bytes \<Rightarrow> extra_mem \<Rightarrow> Onion_Announce \<Rightarrow> IP_Port \<Rightarrow> bytes \<Rightarrow> (int \<times> Onion_Announce) option" where
  "handle_announce_request h qsort stack mem onion_a source packet =
     (if length packet \<noteq> ANNOUNCE_REQUEST_MIN_SIZE_RECV then handle_gca_announce_request h qsort stack mem onion_a source packet
      else handle_announce_request_common h qsort stack mem onion_a source packet NET_PACKET_ANNOUNCE_RESPONSE
        (ONION_PING_ID_SIZE + CRYPTO_PUBLIC_KEY_SIZE * 2 + ONION_ANNOUNCE_SENDBACK_DATA_LENGTH) True 0 None)"

definition handle_announce_request_old ::
  "host \<Rightarrow> entry_sort \<Rightarrow> bytes \<Rightarrow> extra_mem \<Rightarrow> Onion_Announce \<Rightarrow> IP_Port \<Rightarrow> bytes \<Rightarrow> (int \<times> Onion_Announce) option" where
  "handle_announce_request_old h qsort stack mem onion_a source packet =
     (if length packet \<noteq> ANNOUNCE_REQUEST_SIZE_RECV then Some (1, onion_a)
      else handle_announce_request_common h qsort stack mem onion_a source packet NET_PACKET_ANNOUNCE_RESPONSE_OLD
        (ONION_PING_ID_SIZE + CRYPTO_PUBLIC_KEY_SIZE * 2 + ONION_ANNOUNCE_SENDBACK_DATA_LENGTH) False 0 None)"

definition handle_data_request :: "host \<Rightarrow> Onion_Announce \<Rightarrow> bytes \<Rightarrow> int \<times> Onion_Announce" where
  "handle_data_request h onion_a packet =
     (if length packet \<le> DATA_REQUEST_MIN_SIZE_RECV then (1, onion_a)
      else if length packet > ONION_MAX_PACKET_SIZE then (1, onion_a)
      else case in_entries onion_a (drop 1 packet) of
          None \<Rightarrow> (1, onion_a)
        | Some index \<Rightarrow>
            let data = NET_PACKET_ONION_DATA_RESPONSE #
                  slice (1 + CRYPTO_PUBLIC_KEY_SIZE) (length packet - (1 + CRYPTO_PUBLIC_KEY_SIZE + ONION_RETURN_3)) packet;
                e = oa_entries onion_a ! index;
                (n, dht) = send_onion_response h (oa_dht onion_a) (ret_ip_port e) data (oe_ret e)
            in (if n = - 1 then 1 else 0, onion_a\<lparr>oa_dht := dht\<rparr>))"

text \<open>The object of a missing callback is a null pointer, here an empty list that no operation reads.\<close>

definition new_onion_announce :: "platform \<Rightarrow> DHT option \<Rightarrow> Onion_Announce option" where
  "new_onion_announce P dht =
     (case dht of
        None \<Rightarrow> None
      | Some dht \<Rightarrow>
          if \<not> malloc_ok P sizeof_Onion_Announce then None
          else
            let (key, r) = new_hmac_key (rng dht)
            in case shared_key_cache_new P (Some (dht_mono_time dht)) (Some (dht_self_secret_key dht)) KEYS_TIMEOUT MAX_KEYS_PER_SLOT of
                 None \<Rightarrow> None
               | Some c \<Rightarrow>
                   Some \<lparr>oa_dht = dht\<lparr>rng := r\<rparr>, oa_entries = replicate ONION_ANNOUNCE_MAX_ENTRIES empty_announce_entry, hmac_key = key,
                     oa_shared_keys_recv = c, extra_data_max_size = 0, extra_data_callback = None,
                     extra_data_object = \<lparr>gca_heap = Map.empty, root_announces = None, last_timeout_check = 0\<rparr>\<rparr>)"

section \<open>Announces of groups\<close>

definition pack_group_announces :: pack_extra_data_cb where
  "pack_group_announces mem gc_announces_list mono_time num_nodes plain room =
     (case gca_unpack_public_announce (snd mem) plain of
        None \<Rightarrow> Some (None, gc_announces_list)
      | Some (public_announce, _) \<Rightarrow> do {
          (added, l) \<leftarrow> gca_add_announce (fst mem) mono_time gc_announces_list public_announce;
          case added of
            None \<Rightarrow> Some (None, l)
          | Some (p, i) \<Rightarrow> do {
              a \<leftarrow> gca_heap l p;
              found \<leftarrow> gca_get_announces (Some l) (of_nat GCA_MAX_SENT_ANNOUNCES) (Some (chat_public_key public_announce))
                         (Some (peer_public_key (base_announce (peer_announces a ! i))));
              case found of
                None \<Rightarrow> Some (None, l)
              | Some gc_announces \<Rightarrow> do {
                  packed \<leftarrow> gca_pack_announces_list room gc_announces;
                  Some (packed, l)
                }
            }
        })"

definition gca_onion_init :: "GC_Announces_List \<Rightarrow> Onion_Announce \<Rightarrow> Onion_Announce" where
  "gca_onion_init group_announce onion_a =
     onion_announce_extra_data_callback onion_a (of_nat (GCA_MAX_SENT_ANNOUNCES * sizeof_GC_Announce)) (Some pack_group_announces) group_announce"

text \<open>More than \<^verbatim>\<open>GCA_ANNOUNCE_MAX_SIZE\<close> bytes of group data do not fit the array of the plain text.\<close>

definition create_gca_announce_request ::
  "platform \<Rightarrow> bytes \<Rightarrow> Random \<Rightarrow> nat \<Rightarrow> bytes \<Rightarrow> bytes \<Rightarrow> bytes \<Rightarrow> bytes \<Rightarrow> bytes \<Rightarrow> bytes \<Rightarrow> u64 \<Rightarrow> bytes \<Rightarrow> (bytes option \<times> Random) option" where
  "create_gca_announce_request P stack r max_packet_length dest_client_id public_key secret_key pid client_id data_pk sendback_data gc_data =
     (if max_packet_length < ONION_ANNOUNCE_REQUEST_MAX_SIZE \<or> length gc_data = 0 then Some (None, r)
      else if length gc_data > GCA_ANNOUNCE_MAX_SIZE then None
      else
        let plain = take ONION_PING_ID_SIZE pid @ take CRYPTO_PUBLIC_KEY_SIZE client_id @ take CRYPTO_PUBLIC_KEY_SIZE data_pk
                      @ host_bytes 8 sendback_data @ gc_data;
            (nonce, r) = random_nonce r
        in case encrypt_data P stack dest_client_id secret_key nonce plain of
             None \<Rightarrow> Some (None, r)
           | Some enc \<Rightarrow>
               if length enc + 1 + CRYPTO_NONCE_SIZE + CRYPTO_PUBLIC_KEY_SIZE \<noteq> ONION_ANNOUNCE_REQUEST_MIN_SIZE + length gc_data then Some (None, r)
               else Some (Some (NET_PACKET_ANNOUNCE_REQUEST # nonce @ take CRYPTO_PUBLIC_KEY_SIZE public_key @ enc), r))"

end
