(* ===== verification/Onion_Announce_Store.thy ===== *)
theory Onion_Announce_Store
  imports Onion_Announce Onion_Route
begin

text \<open>
  What \<^verbatim>\<open>onion_announce.c\<close> promises: the entries are the clients closest to the node, a client that answers with its ping id is stored and gets
  the data sent to it, and which responses fit their array.
\<close>

section \<open>The order of the entries\<close>

lemma cmp_entry_le:
  assumes "length self = 32" "length (oe_public_key a) = 32" "length (oe_public_key b) = 32"
  shows "cmp_entry mt self a b \<le> 0 \<longleftrightarrow>
    entry_timeout mt a \<or> \<not> entry_timeout mt b \<and> key_distance self (oe_public_key b) \<le> key_distance self (oe_public_key a)"
  using id_closest_distance [OF assms] by (auto simp: cmp_entry_def Let_def)

lemma cmp_entry_consistent:
  assumes "length self = 32" "\<forall>e \<in> S. length (oe_public_key e) = 32"
  shows "consistent (cmp_entry mt self) S"
  using assms by (auto simp: consistent_def cmp_entry_le)

definition live_keys :: "Mono_Time \<Rightarrow> Onion_Announce_Entry list \<Rightarrow> bytes multiset" where
  "live_keys mt es = image_mset oe_public_key (filter_mset (\<lambda>e. \<not> entry_timeout mt e) (mset es))"

text \<open>The entries at time \<open>mt\<close>: sorted, timed out ones first and then by falling distance, and no live key twice.\<close>

definition entries_inv :: "Mono_Time \<Rightarrow> bytes \<Rightarrow> Onion_Announce_Entry list \<Rightarrow> bool" where
  "entries_inv mt self es \<longleftrightarrow> length es = ONION_ANNOUNCE_MAX_ENTRIES \<and> 
     (\<forall>e \<in> set es. length (oe_public_key e) = 32 \<and> length (data_public_key e) = 32 \<and> length (oe_ret e) = 177) \<and>
     sorted_wrt (\<lambda>a b. cmp_entry mt self a b \<le> 0) es \<and> (\<forall>k. count (live_keys mt es) k \<le> 1)"

definition time_passes :: "Mono_Time \<Rightarrow> Mono_Time \<Rightarrow> Onion_Announce_Entry list \<Rightarrow> bool" where
  "time_passes mt0 mt es \<longleftrightarrow> list_all (\<lambda>e. entry_timeout mt0 e \<longrightarrow> entry_timeout mt e) es"

lemma first_is_farthest:
  assumes "length self = 32" "entries_inv mt0 self es" "time_passes mt0 mt es" "\<forall>e \<in> set es. \<not> entry_timeout mt e" "e \<in> set es"
  shows "key_distance self (oe_public_key e) \<le> key_distance self (oe_public_key (es ! 0))"
proof -
  obtain i where i: "i < length es" "e = es ! i" using assms(5) by (auto simp: in_set_conv_nth)
  have keys: "length (oe_public_key (es ! 0)) = 32" "length (oe_public_key e) = 32"
    using assms(2,5) i(1) by (auto simp: entries_inv_def)
  have "es ! 0 \<in> set es" using i(1) by (intro nth_mem) linarith
  then have live: "\<not> entry_timeout mt0 (es ! 0)"
    using assms(3,4) by (auto simp: time_passes_def list_all_iff)
  show ?thesis
  proof (cases "i = 0")
    case False
    then have "cmp_entry mt0 self (es ! 0) e \<le> 0"
      using assms(2) i by (auto simp: entries_inv_def sorted_wrt_iff_nth_less)
    then show ?thesis using cmp_entry_le [OF assms(1) keys] live by simp
  qed (use i in simp)
qed

lemma count_image_two:
  assumes "x \<in># M" "y \<in># M" "x \<noteq> y" "f x = k" "f y = k"
  shows "2 \<le> count (image_mset f M) k"
proof -
  obtain M1 where "M = add_mset x M1" using assms(1) by (meson mset_add)
  moreover with assms(2,3) have "y \<in># M1" by simp
  then obtain M2 where "M1 = add_mset y M2" by (meson mset_add)
  ultimately show ?thesis using assms(4,5) by simp
qed

lemma live_key_unique:
  assumes "\<forall>k. count (live_keys mt es) k \<le> 1" "x \<in> set es" "y \<in> set es" "\<not> entry_timeout mt x" "\<not> entry_timeout mt y"
    "oe_public_key x = oe_public_key y"
  shows "x = y"
proof (rule ccontr)
  assume "x \<noteq> y"
  then have "2 \<le> count (live_keys mt es) (oe_public_key y)"
    unfolding live_keys_def using assms by (intro count_image_two [of x _ y]) auto
  with assms(1) show False by (metis one_add_one not_less_eq_eq Suc_1 One_nat_def order_trans)
qed

lemma live_keys_replace:
  assumes "mset es' + {#v#} = mset es + {#new#}" "\<not> entry_timeout mt new"
  shows "live_keys mt es' + (if entry_timeout mt v then {#} else {#oe_public_key v#}) = live_keys mt es + {#oe_public_key new#}"
proof -
  have "filter_mset (\<lambda>e. \<not> entry_timeout mt e) (mset es' + {#v#}) = filter_mset (\<lambda>e. \<not> entry_timeout mt e) (mset es + {#new#})"
    using assms(1) by simp
  then have "image_mset oe_public_key (filter_mset (\<lambda>e. \<not> entry_timeout mt e) (mset es' + {#v#})) =
      image_mset oe_public_key (filter_mset (\<lambda>e. \<not> entry_timeout mt e) (mset es + {#new#}))" by simp
  then show ?thesis using assms(2) by (simp add: live_keys_def split: if_splits)
qed

lemma live_keys_later: "time_passes mt0 mt es \<Longrightarrow> count (live_keys mt es) k \<le> count (live_keys mt0 es) k"
proof (unfold live_keys_def, rule mset_subset_eq_count, rule image_mset_subseteq_mono)
  assume "time_passes mt0 mt es"
  then show "filter_mset (\<lambda>e. \<not> entry_timeout mt e) (mset es) \<subseteq># filter_mset (\<lambda>e. \<not> entry_timeout mt0 e) (mset es)"
    by (intro multiset_filter_mono filter_mset_mono_strong) (auto simp: time_passes_def list_all_iff)
qed

section \<open>Storing an entry\<close>

lemma last_timeout_None: "last_timeout mt es = None \<longleftrightarrow> (\<forall>e \<in> set es. \<not> entry_timeout mt e)"
proof -
  have "last_timeout mt es = None \<longleftrightarrow> filter (\<lambda>i. entry_timeout mt (es ! i)) [0..<length es] = []"
    by (simp add: last_timeout_def split: list.split)
  also have "\<dots> \<longleftrightarrow> (\<forall>i < length es. \<not> entry_timeout mt (es ! i))" by (auto simp: filter_empty_conv)
  also have "\<dots> \<longleftrightarrow> (\<forall>e \<in> set es. \<not> entry_timeout mt e)" by (simp add: all_set_conv_all_nth)
  finally show ?thesis .
qed

lemma last_timeout_Some:
  assumes "last_timeout mt es = Some i"
  shows "i < length es \<and> entry_timeout mt (es ! i)"
proof -
  let ?is = "filter (\<lambda>i. entry_timeout mt (es ! i)) [0..<length es]"
  have ne: "?is \<noteq> []" and i: "i = last ?is" using assms by (auto simp: last_timeout_def split: list.splits)
  have "last ?is \<in> set ?is" using ne by (rule last_in_set)
  then have "i \<in> set ?is" unfolding i .
  then show ?thesis by simp
qed

definition entry_for :: "Mono_Time \<Rightarrow> IP_Port \<Rightarrow> bytes \<Rightarrow> bytes \<Rightarrow> bytes \<Rightarrow> Onion_Announce_Entry" where
  "entry_for mt ipp pk data_pk ret = \<lparr>oe_public_key = take CRYPTO_PUBLIC_KEY_SIZE pk, ret_ip_port = ipp, oe_ret = take ONION_RETURN_3 ret,
     data_public_key = take CRYPTO_PUBLIC_KEY_SIZE data_pk, announce_time = mono_time_get mt\<rparr>"

text \<open>Which entry gives way.\<close>

lemma entry_position_victim:
  assumes "length self = 32" "length pk = 32" "self_public_key (oa_dht oa) = self" "dht_mono_time (oa_dht oa) = mt"
    and inv: "entries_inv mt0 self (oa_entries oa)" and t: "time_passes mt0 mt (oa_entries oa)"
  shows "case entry_position oa pk of
      None \<Rightarrow> (\<forall>e \<in> set (oa_entries oa). \<not> entry_timeout mt e \<and> key_distance self (oe_public_key e) \<le> key_distance self pk)
    | Some pos \<Rightarrow> pos < length (oa_entries oa) \<and>
        (let v = oa_entries oa ! pos in
          entry_timeout mt v \<and> pk \<notin># live_keys mt (oa_entries oa) \<or> \<not> entry_timeout mt v \<and> oe_public_key v = pk \<or>
          \<not> entry_timeout mt v \<and> pk \<notin># live_keys mt (oa_entries oa) \<and> key_distance self pk < key_distance self (oe_public_key v) \<and>
          (\<forall>e \<in> set (oa_entries oa). \<not> entry_timeout mt e \<and> key_distance self (oe_public_key e) \<le> key_distance self (oe_public_key v)))"
proof -
  let ?es = "oa_entries oa"
  have keys: "\<forall>e \<in> set ?es. length (oe_public_key e) = 32" and len: "0 < length ?es" using inv by (auto simp: entries_inv_def size_defs)
  have first: "?es ! 0 \<in> set ?es" using len by (rule nth_mem)
  have eq: "pk_equal (oe_public_key e) pk \<longleftrightarrow> oe_public_key e = pk" if "e \<in> set ?es" for e
    using keys that assms(2) by (simp add: pk_equal_iff)
  show ?thesis
  proof (cases "in_entries oa pk")
    case (Some pos)
    then have "pos < length ?es" "\<not> entry_timeout mt (?es ! pos)" "pk_equal (oe_public_key (?es ! pos)) pk"
      using find_index_SomeD [OF Some [unfolded in_entries_def]] assms(4) by auto
    then show ?thesis using Some eq by (simp add: entry_position_def)
  next
    case None
    then have new: "pk \<notin># live_keys mt ?es"
      using eq assms(4) by (auto simp: in_entries_def live_keys_def)
    show ?thesis
    proof (cases "last_timeout mt ?es")
      case (Some pos)
      then show ?thesis using None new last_timeout_Some [OF Some] assms(4) by (simp add: entry_position_def)
    next
      case noto: None
      then have live: "\<forall>e \<in> set ?es. \<not> entry_timeout mt e" by (simp add: last_timeout_None)
      note far = first_is_farthest [OF assms(1) inv t live]
      have "id_closest self pk (oe_public_key (?es ! 0)) = 1 \<longleftrightarrow> key_distance self pk < key_distance self (oe_public_key (?es ! 0))"
        using id_closest_distance [OF assms(1,2)] keys first by auto
      then show ?thesis
        using None noto new live far first len assms(3,4) by (fastforce simp: entry_position_def not_less Let_def)
    qed
  qed
qed

lemma add_to_entries_spec:
  assumes "qsort_contract qs" "\<And>n. malloc_ok P n" "length self = 32" "length pk = 32" "self_public_key (oa_dht oa) = self"
    "dht_mono_time (oa_dht oa) = mt" "length data_pk = 32" "length ret = 177"
    and inv: "entries_inv mt0 self (oa_entries oa)" and t: "time_passes mt0 mt (oa_entries oa)"
    and fresh: "\<not> entry_timeout mt (entry_for mt ipp pk data_pk ret)"
    and add: "add_to_entries P qs oa ipp pk data_pk ret = (idx, oa')"
  shows "(idx = None \<longrightarrow> oa' = oa \<and> (\<forall>e \<in> set (oa_entries oa). \<not> entry_timeout mt e \<and> key_distance self (oe_public_key e) \<le> key_distance self pk)) \<and>
    (idx \<noteq> None \<longrightarrow> (\<exists>i victim. idx = Some i \<and> in_entries oa' pk = Some i \<and> i < length (oa_entries oa') \<and> oa_entries oa' ! i = entry_for mt ipp pk data_pk ret \<and>
       oa' = oa\<lparr>oa_entries := oa_entries oa'\<rparr> \<and> entries_inv mt self (oa_entries oa') \<and>
       mset (oa_entries oa') + {#victim#} = mset (oa_entries oa) + {#entry_for mt ipp pk data_pk ret#} \<and>
       (entry_timeout mt victim \<or> oe_public_key victim = pk \<or>
        key_distance self pk < key_distance self (oe_public_key victim) \<and>
        (\<forall>e \<in> set (oa_entries oa). \<not> entry_timeout mt e \<and> key_distance self (oe_public_key e) \<le> key_distance self (oe_public_key victim)))))"
proof -
  let ?es = "oa_entries oa" and ?new = "entry_for mt ipp pk data_pk ret"
  note victim = entry_position_victim [OF assms(3-6) inv t]
  have npk: "oe_public_key ?new = pk" using assms(4) by (simp add: entry_for_def size_defs)
  show ?thesis
  proof (cases "entry_position oa pk")
    case None
    then show ?thesis using add victim by (simp add: add_to_entries_def)
  next
    case (Some pos)
    define es where "es = sort_onion_announce_list P qs (?es[pos := ?new]) mt self"
    have oa': "oa' = oa\<lparr>oa_entries := es\<rparr>" and idx: "idx = in_entries oa' pk"
      using add Some assms(5,6) by (auto simp: add_to_entries_def es_def entry_for_def Let_def)
    have pos: "pos < length ?es" using victim Some by simp
    have keys: "\<forall>e \<in> set (?es[pos := ?new]). length (oe_public_key e) = 32"
      using inv npk assms(4) set_update_subset_insert [of ?es pos ?new] by (auto simp: entries_inv_def)
    have sorted: "mset es = mset (?es[pos := ?new])" "sorted_wrt (\<lambda>a b. cmp_entry mt self a b \<le> 0) es"
      unfolding es_def sort_onion_announce_list_def using assms(2)
      by (simp_all add: qsort_contract.qsort_mset [OF assms(1)] qsort_contract.qsort_sorted [OF assms(1) cmp_entry_consistent [OF assms(3) keys]])
    let ?v = "?es ! pos"
    have ms: "mset es + {#?v#} = mset ?es + {#?new#}" using mset_list_update_add [OF pos, of ?new] sorted(1) by simp
    have set: "set es = set (?es[pos := ?new])" using sorted(1) by (metis set_mset_mset)
    have old: "count (live_keys mt ?es) k \<le> 1" for k
      using live_keys_later [OF t, of k] inv unfolding entries_inv_def by (meson order_trans)
    have lk: "live_keys mt es + (if entry_timeout mt ?v then {#} else {#oe_public_key ?v#}) = live_keys mt ?es + {#pk#}"
      using live_keys_replace [OF ms fresh] npk by simp
    have uniq: "count (live_keys mt es) k \<le> 1" for k
    proof -
      have "count (live_keys mt es) k + (if \<not> entry_timeout mt ?v \<and> k = oe_public_key ?v then 1 else 0) =
          count (live_keys mt ?es) k + (if k = pk then 1 else 0)"
        using arg_cong [OF lk, of "\<lambda>M. count M k"] by (auto split: if_splits)
      moreover have "count (live_keys mt ?es) pk = 0 \<or> \<not> entry_timeout mt ?v \<and> oe_public_key ?v = pk"
        using victim Some by (auto simp: Let_def not_in_iff)
      ultimately show ?thesis using old [of k] by (cases "k = pk") (auto split: if_splits)
    qed
    have "\<forall>e \<in> set (?es[pos := ?new]). length (data_public_key e) = 32 \<and> length (oe_ret e) = 177"
      using inv assms(7,8) set_update_subset_insert [of ?es pos ?new] by (fastforce simp: entries_inv_def entry_for_def size_defs)
    then have inv': "entries_inv mt self es"
      using sorted uniq keys set inv by (auto simp: entries_inv_def dest: mset_eq_length)
    have "?new \<in> set es" using set pos by (simp add: set_update_memI)
    then have "\<exists>e \<in> set es. \<not> entry_timeout mt e \<and> pk_equal (oe_public_key e) pk" using fresh npk by auto
    then obtain i where i: "in_entries oa' pk = Some i"
      using assms(6) oa' by (cases "in_entries oa' pk") (auto simp: in_entries_def)
    then have e: "i < length es" "\<not> entry_timeout mt (es ! i)" "pk_equal (oe_public_key (es ! i)) pk"
      using find_index_SomeD [OF i [unfolded in_entries_def]] assms(6) oa' by auto
    have "length (oe_public_key (es ! i)) = 32" using keys e(1) unfolding set [symmetric] by simp
    then have "oe_public_key (es ! i) = pk" using e(3) assms(4) by (simp add: pk_equal_iff)
    then have "es ! i = ?new"
      using e npk fresh \<open>?new \<in> set es\<close> uniq by (intro live_key_unique [of mt es]) auto
    then show ?thesis
      using idx i e(1) oa' ms inv' victim Some by (auto simp: Let_def intro!: exI [of _ ?v])
  qed
qed

section \<open>Answering requests\<close>

text \<open>What a node adds to its outgoing packets when it answers \<open>response\<close> to the request that came with the return part \<open>ret\<close>.\<close>

definition answered :: "platform \<Rightarrow> bytes \<Rightarrow> IP_Port \<Rightarrow> bytes \<Rightarrow> byte \<Rightarrow> bytes \<Rightarrow> bytes \<Rightarrow> (IP_Port \<times> bytes) list \<Rightarrow> (IP_Port \<times> bytes) list \<Rightarrow> bool" where
  "answered P k source ret response_id sendback response before after \<longleftrightarrow>
     (\<exists>nonce enc. length nonce = 24 \<and> decrypt_data_symmetric P (Some k) nonce enc = Some response \<and>
        after = before @ [(source, NET_PACKET_ONION_RECV_3 # ret @ response_id # sendback @ nonce @ enc)])"

lemma send_announce_response_fits:
  assumes box: "box_platform (plat h)" and "length nonce = 24" "response \<noteq> []" "length ret = 177" "packet = front @ ret"
    and "slice 96 8 plain = sendback" "length sendback = 8"
  shows "if length response \<le> 577
    then \<exists>r d. send_announce_response h oa source packet rid k nonce plain response = Some (r, oa\<lparr>oa_dht := d\<rparr>) \<and>
      answered (plat h) k source ret rid sendback response (sent (oa_dht oa)) (sent d) \<and> d = (oa_dht oa)\<lparr>sent := sent d\<rparr>
    else send_announce_response h oa source packet rid k nonce plain response = None"
proof -
  from box_platform.encrypt_decrypt [OF box assms(3), of k nonce] obtain enc where
    enc: "encrypt_data_symmetric (plat h) (Some k) nonce response = Some enc" "length enc = length response + 16"
    "decrypt_data_symmetric (plat h) (Some k) nonce enc = Some response" by blast
  have ret: "drop (length packet - ONION_RETURN_3) packet = ret" using assms(4,5) by (simp add: size_defs)
  show ?thesis
  proof (cases "length response \<le> 577")
    case True
    let ?data = "rid # sendback @ nonce @ enc"
    have "length ?data \<le> ONION_RESPONSE_MAX_DATA_SIZE" using True enc(2) assms(2,7) by (simp add: size_defs)
    then have "sent (snd (send_onion_response h (oa_dht oa) source ?data ret)) = sent (oa_dht oa) @ [(source, NET_PACKET_ONION_RECV_3 # ret @ ?data)]"
      "snd (send_onion_response h (oa_dht oa) source ?data ret) = (oa_dht oa)\<lparr>sent := sent (snd (send_onion_response h (oa_dht oa) source ?data ret))\<rparr>"
      using assms(4) by (simp_all add: send_onion_response_def Let_def dht_send_def size_defs)
    moreover obtain n d where nd: "send_onion_response h (oa_dht oa) source ?data ret = (n, d)" by fastforce
    ultimately have "sent d = sent (oa_dht oa) @ [(source, NET_PACKET_ONION_RECV_3 # ret @ ?data)]" "d = (oa_dht oa)\<lparr>sent := sent d\<rparr>" by simp_all
    moreover have "send_announce_response h oa source packet rid k nonce plain response = Some (if n = - 1 then 1 else 0, oa\<lparr>oa_dht := d\<rparr>)"
      using True enc(2) assms(6) nd
      unfolding send_announce_response_def enc(1) option.case Let_def ret by (simp add: size_defs)
    moreover have "answered (plat h) k source ret rid sendback response (sent (oa_dht oa)) (sent d)"
      using calculation(1) enc(3) assms(2) unfolding answered_def by blast
    ultimately show ?thesis using True by auto
  next
    case False
    then show ?thesis using enc(2) unfolding send_announce_response_def enc(1) option.case by (simp add: size_defs)
  qed
qed

text \<open>A request that opens under the shared key, with the parts of its plain text.\<close>

definition opens :: "platform \<Rightarrow> bytes \<Rightarrow> bytes \<Rightarrow> bytes \<Rightarrow> bytes \<Rightarrow> bytes \<Rightarrow> bytes \<Rightarrow> bytes \<Rightarrow> bytes \<Rightarrow> bytes \<Rightarrow> bytes \<Rightarrow> bool" where
  "opens P sk pk k pid client_id data_pk sendback extra ret packet \<longleftrightarrow>
     length pk = 32 \<and> length pid = 32 \<and> length client_id = 32 \<and> length data_pk = 32 \<and> length sendback = 8 \<and> length ret = 177 \<and>
     encrypt_precompute P pk sk = Some k \<and>
     (\<exists>t nonce enc. packet = t # nonce @ pk @ enc @ ret \<and> length nonce = 24 \<and> length enc = 120 + length extra \<and>
        decrypt_data_symmetric P (Some k) nonce enc = Some (pid @ client_id @ data_pk @ sendback @ extra))"

definition announce_ok :: "platform \<Rightarrow> Onion_Announce \<Rightarrow> bool" where
  "announce_ok P oa \<longleftrightarrow> cache_inv P (oa_shared_keys_recv oa) \<and> skc_timeout (oa_shared_keys_recv oa) = 0 \<and>
     self_secret_key (oa_shared_keys_recv oa) = dht_self_secret_key (oa_dht oa)"

definition ping_id_of :: "platform \<Rightarrow> Onion_Announce \<Rightarrow> Mono_Time \<Rightarrow> bytes \<Rightarrow> IP_Port \<Rightarrow> bytes" where
  "ping_id_of P oa mt pk source = crypto_hmac P (hmac_key oa) (host_bytes 8 (mono_time_get mt div 300) @ pk @ ip_port_mem source)"

lemma add_to_entries_frame: "add_to_entries P qs oa ipp pk data_pk ret = (idx, oa') \<Longrightarrow> oa' = oa\<lparr>oa_entries := oa_entries oa'\<rparr>"
  by (auto simp: add_to_entries_def Let_def split: option.splits)

lemma close_nodes_pack:
  assumes "num \<le> MAX_SENT_NODES" "length nodes = MAX_SENT_NODES" "list_all node_clean (take num nodes)"
  obtains packed where "(if num \<noteq> 0 then pack_nodes (SIZEOF_Node_format * MAX_SENT_NODES) (take num nodes) else Some []) = Some packed"
    "\<not> (num \<noteq> 0 \<and> packed = [])" "length packed \<le> 51 * num"
proof -
  have ln: "length (take num nodes) = num" using assms(1,2) by simp
  have "\<forall>n \<in> set (take num nodes). node_clean n" using assms(3) by (simp add: list_all_iff)
  moreover have "52 * length (take num nodes) < 256" using assms(1) by (simp add: ln size_defs)
  ultimately obtain packed where
    "pack_nodes 256 (take num nodes) = Some packed" "39 * num \<le> length packed" "length packed \<le> 51 * num"
    using pack_nodes_fits [of "take num nodes" 256] ln by auto
  then show thesis by (intro that [of "if num \<noteq> 0 then packed else []"]) (auto simp: size_defs)
qed

text \<open>The handler on a request that opens, up to sending the response.\<close>

lemma announce_opened:
  assumes box: "box_platform (plat h)" and ok: "announce_ok (plat h) oa"
    and opn: "opens (plat h) (dht_self_secret_key (oa_dht oa)) pk k pid client_id data_pk sendback extra ret packet"
    and stack: "length stack = 72" and mt: "dht_mono_time (oa_dht oa) = mt" and hm: "hmac_platform (plat h)"
    and close: "get_close_nodes (oa_dht oa) client_id TOX_AF_UNSPEC (ip_is_lan (ip source)) False = (nodes, num)"
    and num: "num \<le> MAX_SENT_NODES" "length nodes = MAX_SENT_NODES" "list_all node_clean (take num nodes)"
    and own: "length (ip_port_mem source) = 32"
  shows "\<exists>cache nonce r packed index oa2. cache_inv (plat h) cache \<and> skc_timeout cache = 0 \<and> self_secret_key cache = self_secret_key (oa_shared_keys_recv oa) \<and>
    length nonce = 24 \<and> length packed \<le> 51 * num \<and>
    (if num \<noteq> 0 then pack_nodes (SIZEOF_Node_format * MAX_SENT_NODES) (take num nodes) else Some []) = Some packed \<and>
    (if pid \<in> {ping_id_of (plat h) oa mt pk source,
          crypto_hmac (plat h) (hmac_key oa) (host_bytes 8 (mono_time_get mt div 300 - 1) @ pk @ ip_port_mem source)}
     then add_to_entries (plat h) qs (oa\<lparr>oa_shared_keys_recv := cache\<rparr>) source pk data_pk ret
     else (in_entries (oa\<lparr>oa_shared_keys_recv := cache\<rparr>) client_id, oa\<lparr>oa_shared_keys_recv := cache\<rparr>)) = (index, oa2) \<and>
    (let oa3 = oa2\<lparr>oa_dht := (oa_dht oa)\<lparr>rng := r\<rparr>\<rparr>;
         plain = pid @ client_id @ data_pk @ sendback @ extra;
         response = make_announce_payload_helper oa3 (ping_id_of (plat h) oa mt pk source) index pk data_pk @ (if want then [of_nat num] else []) @ packed
     in handle_announce_request_common h qs stack mem oa source packet rid (104 + length extra) want max_extra callback =
       (case callback of
          None \<Rightarrow> send_announce_response h oa3 source packet rid k nonce plain response
        | Some f \<Rightarrow>
            (case f mem (extra_data_object oa3) mt (of_nat num) (slice 104 (length packet - 354) plain)
                    (33 + (if want then 1 else 0) + 204 + max_extra - length response) of
               None \<Rightarrow> None
             | Some (None, object) \<Rightarrow> Some (1, oa3\<lparr>extra_data_object := object\<rparr>)
             | Some (Some ex, object) \<Rightarrow>
                 send_announce_response h (oa3\<lparr>extra_data_object := object\<rparr>) source packet rid k nonce plain (response @ ex))))"
proof -
  let ?P = "plat h" and ?plain = "pid @ client_id @ data_pk @ sendback @ extra"
  obtain t nonce enc where len: "length pk = 32" "length pid = 32" "length client_id = 32" "length data_pk = 32" "length sendback = 8" "length ret = 177"
    and key: "encrypt_precompute ?P pk (dht_self_secret_key (oa_dht oa)) = Some k"
    and p: "packet = t # nonce @ pk @ enc @ ret" "length nonce = 24" "length enc = 120 + length extra"
    and dec: "decrypt_data_symmetric ?P (Some k) nonce enc = Some ?plain"
    using opn by (auto simp: opens_def)
  obtain cache where look: "shared_key_cache_lookup ?P mt (oa_shared_keys_recv oa) pk = (Some k, cache)"
    and cache: "cache_inv ?P cache" "skc_timeout cache = 0" "self_secret_key cache = self_secret_key (oa_shared_keys_recv oa)"
    using cache_lookup [of ?P "oa_shared_keys_recv oa" pk mt] ok key len(1) by (metis announce_ok_def surj_pair)
  obtain nonce' r where n: "random_nonce (rng (oa_dht oa)) = (nonce', r)" by fastforce
  obtain packed where packed: "(if num \<noteq> 0 then pack_nodes (SIZEOF_Node_format * MAX_SENT_NODES) (take num nodes) else Some []) = Some packed"
    "\<not> (num \<noteq> 0 \<and> packed = [])" "length packed \<le> 51 * num" by (rule close_nodes_pack [OF num])
  let ?oa1 = "oa\<lparr>oa_shared_keys_recv := cache\<rparr>"
  have parts: "slice (1 + CRYPTO_NONCE_SIZE) CRYPTO_PUBLIC_KEY_SIZE packet = pk" "slice 1 CRYPTO_NONCE_SIZE packet = nonce"
    "slice (1 + CRYPTO_NONCE_SIZE + CRYPTO_PUBLIC_KEY_SIZE) (104 + length extra + CRYPTO_MAC_SIZE) packet = enc"
    "drop (length packet - ONION_RETURN_3) packet = ret"
    using len(1,6) p drop_return_part [of nonce pk enc t ret] by (simp_all add: size_defs slice_def)
  have plains: "slice (ONION_PING_ID_SIZE + CRYPTO_PUBLIC_KEY_SIZE) CRYPTO_PUBLIC_KEY_SIZE ?plain = data_pk"
    "slice ONION_PING_ID_SIZE CRYPTO_PUBLIC_KEY_SIZE ?plain = client_id" "take TIMED_AUTH_SIZE ?plain = pid" "length ?plain = 104 + length extra"
    using len by (simp_all add: size_defs slice_def)
  have st: "length stack = 8 + length (pk @ ip_port_mem source)" using stack len(1) own by simp
  have T: "(ucast (of_nat ONION_ANNOUNCE_TIMEOUT :: u16) :: u64) = 300" by (simp add: size_defs)
  have check: "check_timed_auth ?P mt (of_nat ONION_ANNOUNCE_TIMEOUT) (hmac_key oa) (Some (pk @ ip_port_mem source)) pid stack \<longleftrightarrow>
      pid \<in> {ping_id_of ?P oa mt pk source, crypto_hmac ?P (hmac_key oa) (host_bytes 8 (mono_time_get mt div 300 - 1) @ pk @ ip_port_mem source)}"
    using hmac_platform.check_iff [OF hm st, of mt "of_nat ONION_ANNOUNCE_TIMEOUT"] by (simp only: T Let_def ping_id_of_def) simp
  have gen: "generate_timed_auth ?P mt (of_nat ONION_ANNOUNCE_TIMEOUT) (hmac_key oa) (Some (pk @ ip_port_mem source)) stack = ping_id_of ?P oa mt pk source"
    using to_hash_eq [OF st, of mt "of_nat ONION_ANNOUNCE_TIMEOUT" False] by (simp add: generate_timed_auth_def ping_id_of_def T)
  obtain index oa2 where branch: "(if pid \<in> {ping_id_of ?P oa mt pk source,
        crypto_hmac ?P (hmac_key oa) (host_bytes 8 (mono_time_get mt div 300 - 1) @ pk @ ip_port_mem source)}
      then add_to_entries ?P qs ?oa1 source pk data_pk ret else (in_entries ?oa1 client_id, ?oa1)) = (index, oa2)" by fastforce
  then have oa2: "oa2 = ?oa1\<lparr>oa_entries := oa_entries oa2\<rparr>"
    using add_to_entries_frame [of ?P qs ?oa1 source pk data_pk ret index oa2] by (cases oa) (auto split: if_splits)
  have fields: "oa_dht oa2 = oa_dht oa" "hmac_key oa2 = hmac_key oa" "extra_data_object oa2 = extra_data_object oa"
    by (subst oa2, simp)+
  have hk: "hmac_key ?oa1 = hmac_key oa" "hmac_key (oa2\<lparr>oa_dht := d\<rparr>) = hmac_key oa" for d using fields(2) by simp_all
  have sizes: "ONION_MINIMAL_SIZE = 104" "ANNOUNCE_REQUEST_MIN_SIZE_RECV = 354" "1 + ONION_PING_ID_SIZE = 33" "MAX_SENT_NODES * PACKED_NODE_SIZE_IP6 = 204"
    by (simp_all add: size_defs)
  have mem: "malloc_ok ?P n = True" for n using box_platform.memory [OF box] by simp
  have "handle_announce_request_common h qs stack mem oa source packet rid (104 + length extra) want max_extra callback =
       (let oa3 = oa2\<lparr>oa_dht := (oa_dht oa)\<lparr>rng := r\<rparr>\<rparr>;
         response = make_announce_payload_helper oa3 (ping_id_of ?P oa mt pk source) index pk data_pk @ (if want then [of_nat num] else []) @ packed
        in case callback of
          None \<Rightarrow> send_announce_response h oa3 source packet rid k nonce' ?plain response
        | Some f \<Rightarrow>
            (case f mem (extra_data_object oa3) mt (of_nat num) (slice 104 (length packet - 354) ?plain)
                    (33 + (if want then 1 else 0) + 204 + max_extra - length response) of
               None \<Rightarrow> None
             | Some (None, object) \<Rightarrow> Some (1, oa3\<lparr>extra_data_object := object\<rparr>)
             | Some (Some ex, object) \<Rightarrow>
                 send_announce_response h (oa3\<lparr>extra_data_object := object\<rparr>) source packet rid k nonce' ?plain (response @ ex)))"
    unfolding handle_announce_request_common_def mt parts look Let_def prod.case option.case mem dec plains not_True_eq_False if_False
      hk(1) check branch fields(1) close n packed(1) hk(2) gen sizes
    using packed(2) by (simp only: if_False simp_thms)
  then show ?thesis
    using cache length_random_nonce [OF n] packed(1,3)
    by (intro exI [of _ cache] exI [of _ nonce'] exI [of _ r] exI [of _ packed] exI [of _ index] exI [of _ oa2])
      (simp only: Let_def branch simp_thms)
qed

text \<open>The ping id a node gives to a client is accepted from the same address for 300 seconds.\<close>

lemma ping_id_accepted:
  assumes "hmac_platform P" "mono_time_get mt1 \<le> mono_time_get mt2" "unat (mono_time_get mt2) \<le> unat (mono_time_get mt1) + 300"
    and "hmac_key oa2 = hmac_key oa1"
  shows "ping_id_of P oa1 mt1 pk source \<in> {ping_id_of P oa2 mt2 pk source,
    crypto_hmac P (hmac_key oa2) (host_bytes 8 (mono_time_get mt2 div 300 - 1) @ pk @ ip_port_mem source)}"
proof -
  let ?d = "pk @ ip_port_mem source" and ?stack = "replicate (8 + length (pk @ ip_port_mem source)) 0 :: bytes"
  have T: "(ucast (300 :: u16) :: u64) = 300" "(0 :: u16) < 300" "unat (300 :: u16) = 300" by simp_all
  have st: "length ?stack = 8 + length ?d" by (rule length_replicate)
  have "check_timed_auth P mt2 300 (hmac_key oa2) (Some ?d) (generate_timed_auth P mt1 300 (hmac_key oa2) (Some ?d) ?stack) ?stack"
    by (rule timed_auth_accepted [OF assms(1) T(2) assms(2) _ st st]) (use assms(3) T(3) in simp)
  moreover have "generate_timed_auth P mt1 300 (hmac_key oa2) (Some ?d) ?stack = ping_id_of P oa1 mt1 pk source"
    using to_hash_eq [OF st, of mt1 300 False] assms(4) by (simp add: generate_timed_auth_def ping_id_of_def T(1))
  ultimately show ?thesis
    using hmac_platform.check_iff [OF assms(1) st, of mt2 300 "hmac_key oa2"] by (simp add: ping_id_of_def T(1) Let_def)
qed

lemma length_source_mem: "length (addr (ip a)) = 16 \<Longrightarrow> length (ip_port_mem a) = 32"
  by (simp add: ip_port_mem_def)

lemma in_entries_key: "in_entries oa pk = Some i \<Longrightarrow> pk_equal (oe_public_key (oa_entries oa ! i)) pk"
  using find_index_SomeD [of _ "oa_entries oa" i] by (fastforce simp: in_entries_def)

lemma in_entries_dht: "dht_mono_time d = dht_mono_time (oa_dht oa) \<Longrightarrow> in_entries (oa\<lparr>oa_dht := d\<rparr>) pk = in_entries oa pk"
  by (simp add: in_entries_def)

lemma payload_length: "length (make_announce_payload_helper oa pid index pk data_pk) \<le> 33" "make_announce_payload_helper oa pid index pk data_pk \<noteq> []"
  by (auto simp: make_announce_payload_helper_def Let_def size_defs split: option.split)

lemma opens_size: "opens P sk pk k pid client_id data_pk sendback extra ret packet \<Longrightarrow> length packet = 354 + length extra"
  by (auto simp: opens_def)

lemma opens_parts:
  assumes "opens P sk pk k pid client_id data_pk sendback extra ret packet"
  obtains front where "packet = front @ ret" "length ret = 177" "slice 96 8 (pid @ client_id @ data_pk @ sendback @ extra) = sendback" "length sendback = 8"
proof -
  obtain t nonce enc where "packet = t # nonce @ pk @ enc @ ret" using assms by (auto simp: opens_def)
  then have "packet = (t # nonce @ pk @ enc) @ ret" by simp
  then show thesis using assms by (intro that [of "t # nonce @ pk @ enc"]) (auto simp: opens_def slice_def)
qed

text \<open>A request without extra data is always answered, with or without the number of nodes.\<close>

lemma announce_request_answered:
  assumes box: "box_platform (plat h)" and "announce_ok (plat h) oa"
    and opn: "opens (plat h) (dht_self_secret_key (oa_dht oa)) pk k pid client_id data_pk sendback [] ret packet"
    and "length stack = 72" "dht_mono_time (oa_dht oa) = mt" "hmac_platform (plat h)"
    and "get_close_nodes (oa_dht oa) client_id TOX_AF_UNSPEC (ip_is_lan (ip source)) False = (nodes, num)"
    and num: "num \<le> MAX_SENT_NODES" "length nodes = MAX_SENT_NODES" "list_all node_clean (take num nodes)"
    and own: "length (addr (ip source)) = 16"
  shows "\<exists>cache index oa2 d res rest.
    (if pid \<in> {ping_id_of (plat h) oa mt pk source,
          crypto_hmac (plat h) (hmac_key oa) (host_bytes 8 (mono_time_get mt div 300 - 1) @ pk @ ip_port_mem source)}
     then add_to_entries (plat h) qs (oa\<lparr>oa_shared_keys_recv := cache\<rparr>) source pk data_pk ret
     else (in_entries (oa\<lparr>oa_shared_keys_recv := cache\<rparr>) client_id, oa\<lparr>oa_shared_keys_recv := cache\<rparr>)) = (index, oa2) \<and>
    handle_announce_request_common h qs stack mem oa source packet rid 104 want 0 None = Some (res, oa2\<lparr>oa_dht := d\<rparr>) \<and>
    dht_mono_time d = mt \<and> self_public_key d = self_public_key (oa_dht oa) \<and>
    answered (plat h) k source ret rid sendback
      (make_announce_payload_helper oa2 (ping_id_of (plat h) oa mt pk source) index pk data_pk @ rest) (sent (oa_dht oa)) (sent d)"
proof -
  let ?P = "plat h"
  obtain front where parts: "packet = front @ ret" "length ret = 177" "slice 96 8 (pid @ client_id @ data_pk @ sendback @ []) = sendback" "length sendback = 8"
    by (rule opens_parts [OF opn])
  from announce_opened [OF box assms(2-10) length_source_mem [OF own], of qs want mem rid 0 None]
  obtain cache nonce r packed index oa2 where n: "length nonce = 24" "length packed \<le> 51 * num"
    and b: "(if pid \<in> {ping_id_of ?P oa mt pk source, crypto_hmac ?P (hmac_key oa) (host_bytes 8 (mono_time_get mt div 300 - 1) @ pk @ ip_port_mem source)}
      then add_to_entries ?P qs (oa\<lparr>oa_shared_keys_recv := cache\<rparr>) source pk data_pk ret
      else (in_entries (oa\<lparr>oa_shared_keys_recv := cache\<rparr>) client_id, oa\<lparr>oa_shared_keys_recv := cache\<rparr>)) = (index, oa2)"
    and eq: "handle_announce_request_common h qs stack mem oa source packet rid (104 + length ([] :: bytes)) want 0 None =
      send_announce_response h (oa2\<lparr>oa_dht := (oa_dht oa)\<lparr>rng := r\<rparr>\<rparr>) source packet rid k nonce (pid @ client_id @ data_pk @ sendback @ [])
        (make_announce_payload_helper (oa2\<lparr>oa_dht := (oa_dht oa)\<lparr>rng := r\<rparr>\<rparr>) (ping_id_of ?P oa mt pk source) index pk data_pk @ (if want then [of_nat num] else []) @ packed)"
    unfolding Let_def option.case by blast
  let ?oa3 = "oa2\<lparr>oa_dht := (oa_dht oa)\<lparr>rng := r\<rparr>\<rparr>"
  let ?resp = "make_announce_payload_helper ?oa3 (ping_id_of ?P oa mt pk source) index pk data_pk @ (if want then [of_nat num] else []) @ packed"
  have "num \<le> 4" using num(1) by (simp add: size_defs)
  then have "length ?resp \<le> 577" "?resp \<noteq> []" using n(2) payload_length [of ?oa3 "ping_id_of ?P oa mt pk source" index pk data_pk] by simp_all
  with send_announce_response_fits [OF box n(1) _ parts(2,1,3,4), of ?resp ?oa3 source rid k] obtain res d where
    d: "send_announce_response h ?oa3 source packet rid k nonce (pid @ client_id @ data_pk @ sendback @ []) ?resp = Some (res, ?oa3\<lparr>oa_dht := d\<rparr>)"
      "answered ?P k source ret rid sendback ?resp (sent (oa_dht oa)) (sent d)" "d = (oa_dht oa)\<lparr>rng := r, sent := sent d\<rparr>" by auto
  have "handle_announce_request_common h qs stack mem oa source packet rid 104 want 0 None = Some (res, oa2\<lparr>oa_dht := d\<rparr>)"
    using eq d(1) by simp
  moreover have "make_announce_payload_helper ?oa3 p i x y = make_announce_payload_helper oa2 p i x y" for p i x y
    by (simp add: make_announce_payload_helper_def Let_def split: option.split)
  note d(2) [unfolded this]
  moreover have "dht_mono_time d = mt" "self_public_key d = self_public_key (oa_dht oa)" using assms(5) by (subst d(3), simp)+
  ultimately show ?thesis using b by blast
qed

text \<open>A client that looks for its own key is told the ping id.\<close>

lemma payload_own_key:
  assumes "index = None \<or> (\<exists>i. index = Some i \<and> pk_equal (oe_public_key (oa_entries oa ! i)) pk)" "length pid = 32"
  shows "\<exists>b \<in> {0, 2}. make_announce_payload_helper oa pid index pk data_pk = b # pid"
  using assms by (auto simp: make_announce_payload_helper_def Let_def size_defs)

lemma add_to_entries_index: "add_to_entries P qs oa ipp pk data_pk ret = (Some i, oa') \<Longrightarrow> in_entries oa' pk = Some i"
  by (auto simp: add_to_entries_def Let_def split: option.splits)

lemma ping_id_told:
  assumes "box_platform (plat h)" "announce_ok (plat h) oa"
    and "opens (plat h) (dht_self_secret_key (oa_dht oa)) pk k pid pk data_pk sendback [] ret packet"
    and "length stack = 72" "dht_mono_time (oa_dht oa) = mt" and hm: "hmac_platform (plat h)"
    and "get_close_nodes (oa_dht oa) pk TOX_AF_UNSPEC (ip_is_lan (ip source)) False = (nodes, num)"
    and "num \<le> MAX_SENT_NODES" "length nodes = MAX_SENT_NODES" "list_all node_clean (take num nodes)"
    and "length (addr (ip source)) = 16" and key: "length (hmac_key oa) = 32"
  shows "\<exists>r b oa' rest. handle_announce_request_common h qs stack mem oa source packet rid 104 want 0 None = Some (r, oa') \<and> b \<in> {0, 2} \<and> hmac_key oa' = hmac_key oa \<and>
    answered (plat h) k source ret rid sendback (b # ping_id_of (plat h) oa mt pk source @ rest)
      (sent (oa_dht oa)) (sent (oa_dht oa'))"
proof -
  obtain cache index oa2 d res rest where
    b: "(if pid \<in> {ping_id_of (plat h) oa mt pk source, crypto_hmac (plat h) (hmac_key oa) (host_bytes 8 (mono_time_get mt div 300 - 1) @ pk @ ip_port_mem source)}
      then add_to_entries (plat h) qs (oa\<lparr>oa_shared_keys_recv := cache\<rparr>) source pk data_pk ret
      else (in_entries (oa\<lparr>oa_shared_keys_recv := cache\<rparr>) pk, oa\<lparr>oa_shared_keys_recv := cache\<rparr>)) = (index, oa2)"
    and r: "handle_announce_request_common h qs stack mem oa source packet rid 104 want 0 None = Some (res, oa2\<lparr>oa_dht := d\<rparr>)"
      "answered (plat h) k source ret rid sendback
        (make_announce_payload_helper oa2 (ping_id_of (plat h) oa mt pk source) index pk data_pk @ rest) (sent (oa_dht oa)) (sent d)"
    using announce_request_answered [OF assms(1-11), of qs mem rid want] by blast
  have oa2: "hmac_key oa2 = hmac_key oa \<and> (index = None \<or> (\<exists>i. index = Some i \<and> in_entries oa2 pk = Some i))"
  proof (cases "pid \<in> {ping_id_of (plat h) oa mt pk source, crypto_hmac (plat h) (hmac_key oa) (host_bytes 8 (mono_time_get mt div 300 - 1) @ pk @ ip_port_mem source)}")
    case True
    then have add: "add_to_entries (plat h) qs (oa\<lparr>oa_shared_keys_recv := cache\<rparr>) source pk data_pk ret = (index, oa2)" using b by simp
    have "hmac_key oa2 = hmac_key oa" using arg_cong [OF add_to_entries_frame [OF add], of hmac_key] by simp
    then show ?thesis using add add_to_entries_index by (cases index) auto
  next
    case False
    then show ?thesis using b by (cases index) auto
  qed
  have "length (ping_id_of (plat h) oa mt pk source) = 32" unfolding ping_id_of_def by (rule hmac_platform.hmac_length [OF hm key])
  then obtain c where "c \<in> {0, 2}" "make_announce_payload_helper oa2 (ping_id_of (plat h) oa mt pk source) index pk data_pk = c # ping_id_of (plat h) oa mt pk source"
    using payload_own_key [of index oa2 pk] oa2 in_entries_key by blast
  then show ?thesis using r oa2
    by (intro exI [of _ res] exI [of _ c] exI [of _ "oa2\<lparr>oa_dht := d\<rparr>"] exI [of _ rest]) simp
qed

text \<open>Data for a stored client is passed on to it.\<close>

lemma data_passed_on:
  assumes "in_entries oa pk = Some i" "length pk = 32" "length (oe_ret (oa_entries oa ! i)) = 177" "length ret = 177"
    and "72 < length payload" "length payload \<le> 1190"
  shows "sent (oa_dht (snd (handle_data_request h oa (NET_PACKET_ONION_DATA_REQUEST # pk @ payload @ ret)))) =
    sent (oa_dht oa) @ [(ret_ip_port (oa_entries oa ! i), NET_PACKET_ONION_RECV_3 # oe_ret (oa_entries oa ! i) @ NET_PACKET_ONION_DATA_RESPONSE # payload)]"
proof -
  have find: "in_entries oa (pk @ payload @ ret) = Some i"
    using assms(1,2) by (simp add: in_entries_def pk_equal_def size_defs)
  show ?thesis
    unfolding handle_data_request_def drop_Suc_Cons [of 0, simplified, unfolded One_nat_def [symmetric]]
    using find assms(2-6) by (simp add: size_defs slice_def send_onion_response_def dht_send_def Let_def)
qed

lemma entry_for_fresh:
  assumes "unat (mono_time_get mt) + 300 < 2 ^ 64"
  shows "\<not> entry_timeout mt (entry_for mt ipp pk data_pk ret)"
  using assms by (simp add: entry_timeout_def entry_for_def mono_time_is_timeout_def size_defs word_le_nat_alt unat_word_ariths)

lemma client_stored:
  assumes "box_platform (plat h)" "announce_ok (plat h) oa"
    and opn: "opens (plat h) (dht_self_secret_key (oa_dht oa)) pk k pid pk data_pk sendback [] ret packet"
    and "length stack = 72" and mt: "dht_mono_time (oa_dht oa) = mt" and hm: "hmac_platform (plat h)"
    and "get_close_nodes (oa_dht oa) pk TOX_AF_UNSPEC (ip_is_lan (ip source)) False = (nodes, num)"
    and "num \<le> MAX_SENT_NODES" "length nodes = MAX_SENT_NODES" "list_all node_clean (take num nodes)"
    and "length (addr (ip source)) = 16" and key: "length (hmac_key oa) = 32"
    and qs: "qsort_contract qs" and self: "length (self_public_key (oa_dht oa)) = 32"
    and inv: "entries_inv mt0 (self_public_key (oa_dht oa)) (oa_entries oa)" "time_passes mt0 mt (oa_entries oa)"
    and now: "unat (mono_time_get mt) + 300 < 2 ^ 64"
    and accepted: "pid \<in> {ping_id_of (plat h) oa mt pk source,
      crypto_hmac (plat h) (hmac_key oa) (host_bytes 8 (mono_time_get mt div 300 - 1) @ pk @ ip_port_mem source)}"
  shows "\<exists>r b oa' rest. handle_announce_request_common h qs stack mem oa source packet rid 104 want 0 None = Some (r, oa') \<and>
    answered (plat h) k source ret rid sendback (b # ping_id_of (plat h) oa mt pk source @ rest)
      (sent (oa_dht oa)) (sent (oa_dht oa')) \<and>
    (b = 0 \<and> (\<forall>e \<in> set (oa_entries oa). \<not> entry_timeout mt e \<and>
       key_distance (self_public_key (oa_dht oa)) (oe_public_key e) \<le> key_distance (self_public_key (oa_dht oa)) pk) \<or>
     b = 2 \<and> (\<exists>i. in_entries oa' pk = Some i \<and> oa_entries oa' ! i = entry_for mt source pk data_pk ret))"
proof -
  let ?self = "self_public_key (oa_dht oa)" and ?pid = "ping_id_of (plat h) oa mt pk source"
  obtain cache index oa2 d res rest where
    add: "add_to_entries (plat h) qs (oa\<lparr>oa_shared_keys_recv := cache\<rparr>) source pk data_pk ret = (index, oa2)"
    and r: "handle_announce_request_common h qs stack mem oa source packet rid 104 want 0 None = Some (res, oa2\<lparr>oa_dht := d\<rparr>)" "dht_mono_time d = mt"
      "answered (plat h) k source ret rid sendback
        (make_announce_payload_helper oa2 ?pid index pk data_pk @ rest) (sent (oa_dht oa)) (sent d)"
    using announce_request_answered [OF assms(1-11), of qs mem rid want] unfolding if_P [OF accepted] by blast
  have len: "length pk = 32" "length data_pk = 32" "length ret = 177" using opn by (auto simp: opens_def)
  have pid: "length ?pid = 32" unfolding ping_id_of_def by (rule hmac_platform.hmac_length [OF hm key])
  let ?oa1 = "oa\<lparr>oa_shared_keys_recv := cache\<rparr>"
  have "self_public_key (oa_dht ?oa1) = ?self" "dht_mono_time (oa_dht ?oa1) = mt" "entries_inv mt0 ?self (oa_entries ?oa1)" "time_passes mt0 mt (oa_entries ?oa1)"
    using mt inv by simp_all
  note spec = add_to_entries_spec [OF qs box_platform.memory [OF assms(1)] self len(1) this(1,2) len(2,3) this(3,4) entry_for_fresh [OF now] add]
  show ?thesis
  proof (cases index)
    case None
    then have "make_announce_payload_helper oa2 ?pid index pk data_pk = 0 # ?pid" using pid by (simp add: make_announce_payload_helper_def size_defs)
    with r None spec show ?thesis by (auto intro!: exI [of _ res] exI [of _ "0 :: byte"] exI [of _ "oa2\<lparr>oa_dht := d\<rparr>"] exI [of _ rest])
  next
    case (Some i)
    then obtain i where i: "index = Some i" "in_entries oa2 pk = Some i" "oa_entries oa2 ! i = entry_for mt source pk data_pk ret"
      "oa_dht oa2 = oa_dht oa" using spec by (metis Onion_Announce.select_convs(1) Onion_Announce.surjective Onion_Announce.update_convs(2,4) option.distinct(1))
    have "make_announce_payload_helper oa2 ?pid index pk data_pk = 2 # ?pid"
      using pid i(1,3) len by (simp add: make_announce_payload_helper_def entry_for_def size_defs)
    moreover have "in_entries (oa2\<lparr>oa_dht := d\<rparr>) pk = Some i" using i(2,4) r(2) mt by (subst in_entries_dht) simp_all
    ultimately show ?thesis using r i(3) by (auto intro!: exI [of _ res] exI [of _ "2 :: byte"] exI [of _ "oa2\<lparr>oa_dht := d\<rparr>"] exI [of _ rest])
  qed
qed

section \<open>Requests of clients\<close>

text \<open>A request without extra data is handled in the same way by both handlers.\<close>

lemma opened_by_old:
  assumes "opens P sk pk k pid client_id data_pk sendback [] ret packet"
  shows "handle_announce_request_old h qs stack mem oa source packet = handle_announce_request_common h qs stack mem oa source packet NET_PACKET_ANNOUNCE_RESPONSE_OLD 104 False 0 None"
  using opens_size [OF assms] by (simp add: handle_announce_request_old_def size_defs)

lemma created_request_opens:
  assumes "box_platform P" "encrypt_precompute P node_pk sk = Some k" "encrypt_precompute P pk node_sk = Some k"
    and len: "length pk = 32" "length pid = 32" "length client_id = 32" "length data_pk = 32" "length ret = 177"
  obtains request r' where "create_announce_request P junk r ONION_ANNOUNCE_REQUEST_MIN_SIZE node_pk pk sk pid client_id data_pk sendback = (Some request, r')"
    "opens P node_sk pk k pid client_id data_pk (host_bytes 8 sendback) [] ret (request @ ret)"
proof -
  let ?plain = "pid @ client_id @ data_pk @ host_bytes 8 sendback"
  obtain nonce r' where n: "random_nonce r = (nonce, r')" by fastforce
  have "?plain \<noteq> []" using len(2) by auto
  from box_platform.encrypt_decrypt [OF assms(1) this, of k nonce] obtain enc where
    enc: "encrypt_data_symmetric P (Some k) nonce ?plain = Some enc" "length enc = 120" "decrypt_data_symmetric P (Some k) nonce enc = Some ?plain" using len by auto
  have "create_announce_request P junk r ONION_ANNOUNCE_REQUEST_MIN_SIZE node_pk pk sk pid client_id data_pk sendback =
      (Some (NET_PACKET_ANNOUNCE_REQUEST_OLD # nonce @ pk @ enc), r')"
    using len n enc(1,2) assms(2) by (simp add: create_announce_request_def encrypt_data_def size_defs)
  moreover have "opens P node_sk pk k pid client_id data_pk (host_bytes 8 sendback) [] ret ((NET_PACKET_ANNOUNCE_REQUEST_OLD # nonce @ pk @ enc) @ ret)"
    using len assms(3) enc(2,3) length_random_nonce [OF n] unfolding opens_def
    by (intro conjI exI [of _ NET_PACKET_ANNOUNCE_REQUEST_OLD] exI [of _ nonce] exI [of _ enc]) simp_all
  ultimately show thesis by (rule that)
qed

lemma created_data_request:
  assumes "box_platform P" "crypto_new_keypair r = ((rpk, rsk), r')" "encrypt_precompute P data_pk rsk = Some kd" "encrypt_precompute P rpk data_sk = Some kd"
    and len: "length pk = 32" "length rpk = 32" "length nonce = 24" and "data \<noteq> []" "DATA_REQUEST_MIN_SIZE + length data \<le> ONION_MAX_DATA_SIZE"
  obtains enc where "create_data_request P junk r ONION_MAX_DATA_SIZE pk data_pk nonce data = (Some (NET_PACKET_ONION_DATA_REQUEST # pk @ nonce @ rpk @ enc), r')"
    "decrypt_data P junk rpk data_sk nonce enc = Some data" "72 < length (nonce @ rpk @ enc)" "length (nonce @ rpk @ enc) \<le> 1190"
proof -
  from box_platform.encrypt_decrypt [OF assms(1,8), of kd nonce] obtain enc where
    enc: "encrypt_data_symmetric P (Some kd) nonce data = Some enc" "length enc = length data + 16" "decrypt_data_symmetric P (Some kd) nonce enc = Some data" by blast
  show thesis
  proof (rule that [of enc])
    show "create_data_request P junk r ONION_MAX_DATA_SIZE pk data_pk nonce data = (Some (NET_PACKET_ONION_DATA_REQUEST # pk @ nonce @ rpk @ enc), r')"
      using assms(2,3,9) len enc(1,2) by (simp add: create_data_request_def encrypt_data_def size_defs)
    show "decrypt_data P junk rpk data_sk nonce enc = Some data" using assms(4) enc(3) by (simp add: decrypt_data_def)
    show "72 < length (nonce @ rpk @ enc)" "length (nonce @ rpk @ enc) \<le> 1190" using len enc(2) assms(8,9) by (simp_all add: size_defs)
  qed
qed

section \<open>Responses with extra data\<close>

definition ready :: "host \<Rightarrow> Onion_Announce \<Rightarrow> IP_Port \<Rightarrow> bytes \<Rightarrow> bool" where
  "ready h oa source client_id \<longleftrightarrow> announce_ok (plat h) oa \<and> length (hmac_key oa) = 32 \<and> length (self_public_key (oa_dht oa)) = 32 \<and>
     (case get_close_nodes (oa_dht oa) client_id TOX_AF_UNSPEC (ip_is_lan (ip source)) False of
        (nodes, num) \<Rightarrow> num \<le> MAX_SENT_NODES \<and> length nodes = MAX_SENT_NODES \<and> list_all node_clean (take num nodes))"

lemma payload_33:
  assumes "length pid = 32" "\<And>i. index = Some i \<Longrightarrow> length (data_public_key (oa_entries oa ! i)) = 32"
  shows "length (make_announce_payload_helper oa pid index pk data_pk) = 33"
  using assms by (auto simp: make_announce_payload_helper_def Let_def size_defs split: option.split)

lemma in_entries_less: "in_entries oa pk = Some i \<Longrightarrow> i < length (oa_entries oa)"
  unfolding in_entries_def by (auto dest: find_index_SomeD)

text \<open>The index that the response is made for belongs to a well-formed entry.\<close>

lemma branch_entry_ok:
  assumes qs: "qsort_contract qs" and mem: "\<And>n. malloc_ok P n" and self: "length (self_public_key (oa_dht oa)) = 32"
    and len: "length pk = 32" "length data_pk = 32" "length ret = 177"
    and inv: "entries_inv mt0 (self_public_key (oa_dht oa)) (oa_entries oa)" "time_passes mt0 (dht_mono_time (oa_dht oa)) (oa_entries oa)"
    and now: "unat (mono_time_get (dht_mono_time (oa_dht oa))) + 300 < 2 ^ 64"
    and b: "(if c then add_to_entries P qs oa source pk data_pk ret else (in_entries oa client_id, oa)) = (Some i, oa2)"
  shows "length (data_public_key (oa_entries oa2 ! i)) = 32"
proof (cases c)
  case True
  then have add: "add_to_entries P qs oa source pk data_pk ret = (Some i, oa2)" using b by simp
  from add_to_entries_spec [OF qs mem self len(1) refl refl len(2,3) inv entry_for_fresh [OF now] add]
  have "oa_entries oa2 ! i = entry_for (dht_mono_time (oa_dht oa)) source pk data_pk ret" by auto
  then show ?thesis using len(2) by (simp add: entry_for_def size_defs)
next
  case False
  then have "in_entries oa client_id = Some i" "oa2 = oa" using b by auto
  then have "oa_entries oa2 ! i \<in> set (oa_entries oa)" using in_entries_less by (metis nth_mem)
  then show ?thesis using inv(1) by (auto simp: entries_inv_def)
qed

lemma extra_response:
  assumes box: "box_platform (plat h)" and hm: "hmac_platform (plat h)" and ready: "ready h oa source client_id" and qs: "qsort_contract qs"
    and opn: "opens (plat h) (dht_self_secret_key (oa_dht oa)) pk k pid client_id data_pk sendback extra ret packet"
    and size: "0 < length extra" "length extra \<le> ONION_MAX_EXTRA_DATA_SIZE"
    and stack: "length stack = 72" and own: "length (addr (ip source)) = 16" and f: "extra_data_callback oa = Some f"
    and inv: "entries_inv mt0 (self_public_key (oa_dht oa)) (oa_entries oa)" "time_passes mt0 (dht_mono_time (oa_dht oa)) (oa_entries oa)"
    and now: "unat (mono_time_get (dht_mono_time (oa_dht oa))) + 300 < 2 ^ 64"
    and close: "get_close_nodes (oa_dht oa) client_id TOX_AF_UNSPEC (ip_is_lan (ip source)) False = (nodes, num)"
    and packed: "(if num \<noteq> 0 then pack_nodes (SIZEOF_Node_format * MAX_SENT_NODES) (take num nodes) else Some []) = Some packed"
    and call: "f mem (extra_data_object oa) (dht_mono_time (oa_dht oa)) (of_nat num) extra (204 + unat (extra_data_max_size oa) - length packed) = Some (Some ex, object)"
  shows "handle_announce_request h qs stack mem oa source packet = None \<longleftrightarrow> 543 < length packed + length ex"
proof -
  let ?P = "plat h" and ?mt = "dht_mono_time (oa_dht oa)" and ?plain = "pid @ client_id @ data_pk @ sendback @ extra"
  let ?pid = "ping_id_of ?P oa ?mt pk source"
  have num: "num \<le> MAX_SENT_NODES" "length nodes = MAX_SENT_NODES" "list_all node_clean (take num nodes)"
    and ok: "announce_ok ?P oa" "length (hmac_key oa) = 32" "length (self_public_key (oa_dht oa)) = 32"
    using ready close by (auto simp: ready_def)
  have len: "length pk = 32" "length pid = 32" "length client_id = 32" "length data_pk = 32" "length sendback = 8" "length ret = 177"
    using opn by (auto simp: opens_def)
  note pl = opens_size [OF opn]
  obtain front where parts: "packet = front @ ret" "length ret = 177" "slice 96 8 ?plain = sendback" "length sendback = 8"
    by (rule opens_parts [OF opn])
  from announce_opened [OF box ok(1) opn stack refl hm close num length_source_mem [OF own], of qs True mem NET_PACKET_ANNOUNCE_RESPONSE
      "unat (extra_data_max_size oa)" "Some f", unfolded Let_def option.case if_True]
  obtain cache nonce r packed' index oa2 where n: "length nonce = 24" and p': "(if num \<noteq> 0 then pack_nodes (SIZEOF_Node_format * MAX_SENT_NODES) (take num nodes) else Some []) = Some packed'"
    and b: "(if pid \<in> {?pid, crypto_hmac ?P (hmac_key oa) (host_bytes 8 (mono_time_get ?mt div 300 - 1) @ pk @ ip_port_mem source)}
      then add_to_entries ?P qs (oa\<lparr>oa_shared_keys_recv := cache\<rparr>) source pk data_pk ret
      else (in_entries (oa\<lparr>oa_shared_keys_recv := cache\<rparr>) client_id, oa\<lparr>oa_shared_keys_recv := cache\<rparr>)) = (index, oa2)"
    and eq: "handle_announce_request_common h qs stack mem oa source packet NET_PACKET_ANNOUNCE_RESPONSE (104 + length extra) True (unat (extra_data_max_size oa)) (Some f) =
      (case f mem (extra_data_object (oa2\<lparr>oa_dht := (oa_dht oa)\<lparr>rng := r\<rparr>\<rparr>)) ?mt (of_nat num) (slice 104 (length packet - 354) ?plain)
          (33 + 1 + 204 + unat (extra_data_max_size oa) - length (make_announce_payload_helper (oa2\<lparr>oa_dht := (oa_dht oa)\<lparr>rng := r\<rparr>\<rparr>) ?pid index pk data_pk @ [of_nat num] @ packed')) of
         None \<Rightarrow> None
       | Some (None, object) \<Rightarrow> Some (1, oa2\<lparr>oa_dht := (oa_dht oa)\<lparr>rng := r\<rparr>, extra_data_object := object\<rparr>)
       | Some (Some ex, object) \<Rightarrow>
           send_announce_response h (oa2\<lparr>oa_dht := (oa_dht oa)\<lparr>rng := r\<rparr>, extra_data_object := object\<rparr>) source packet NET_PACKET_ANNOUNCE_RESPONSE k nonce ?plain
             ((make_announce_payload_helper (oa2\<lparr>oa_dht := (oa_dht oa)\<lparr>rng := r\<rparr>\<rparr>) ?pid index pk data_pk @ [of_nat num] @ packed') @ ex))"
    by blast
  have pp: "packed' = packed" using p' packed by simp
  let ?oa1 = "oa\<lparr>oa_shared_keys_recv := cache\<rparr>" and ?oa3 = "oa2\<lparr>oa_dht := (oa_dht oa)\<lparr>rng := r\<rparr>\<rparr>"
  have obj: "extra_data_object oa2 = extra_data_object oa"
    using b add_to_entries_frame [of ?P qs ?oa1 source pk data_pk ret index oa2, THEN arg_cong, of extra_data_object] by (auto split: if_splits)
  have "length (data_public_key (oa_entries oa2 ! i)) = 32" if "index = Some i" for i
    using branch_entry_ok [where oa = ?oa1, OF qs box_platform.memory [OF box] _ len(1,4,6) _ _ _ b [unfolded that]] ok(3) inv now by simp
  moreover have "length ?pid = 32" unfolding ping_id_of_def by (rule hmac_platform.hmac_length [OF hm ok(2)])
  ultimately have pay: "length (make_announce_payload_helper ?oa3 ?pid index pk data_pk) = 33" by (intro payload_33) simp_all
  have sl: "slice 104 (length packet - 354) ?plain = extra" using len pl by (simp add: slice_def)
  have eo: "extra_data_object ?oa3 = extra_data_object oa" using obj by simp
  have room: "33 + 1 + 204 + unat (extra_data_max_size oa) - length (make_announce_payload_helper ?oa3 ?pid index pk data_pk @ [of_nat num] @ packed) =
      204 + unat (extra_data_max_size oa) - length packed" using pay by simp
  have res: "handle_announce_request h qs stack mem oa source packet =
      send_announce_response h (?oa3\<lparr>extra_data_object := object\<rparr>) source packet NET_PACKET_ANNOUNCE_RESPONSE k nonce ?plain
        ((make_announce_payload_helper ?oa3 ?pid index pk data_pk @ [of_nat num] @ packed) @ ex)"
  proof -
    have "\<not> (length packet > ANNOUNCE_REQUEST_MAX_SIZE_RECV \<or> length packet \<le> ANNOUNCE_REQUEST_MIN_SIZE_RECV)" "length packet \<noteq> ANNOUNCE_REQUEST_MIN_SIZE_RECV"
      "ONION_MINIMAL_SIZE + length packet - ANNOUNCE_REQUEST_MIN_SIZE_RECV = 104 + length extra"
      using pl size by (simp_all add: size_defs)
    then show ?thesis
      using eq [unfolded pp sl eo room call] f by (simp add: handle_announce_request_def handle_gca_announce_request_def)
  qed
  have "(make_announce_payload_helper ?oa3 ?pid index pk data_pk @ [of_nat num] @ packed) @ ex \<noteq> []" using payload_length(2) by simp
  from send_announce_response_fits [OF box n(1) this parts(2,1,3,4), of "?oa3\<lparr>extra_data_object := object\<rparr>" source NET_PACKET_ANNOUNCE_RESPONSE k]
  show ?thesis unfolding res using pay by (auto split: if_splits)
qed

section \<open>Properties\<close>

text \<open>C6: The entries of a node are the announced clients closest to it: adding a client fails only if every entry is live and at least as close, and otherwise
  stores the client under the returned index, sorts the entries, and gives up one entry: one that timed out, the old entry of the same client, or the
  farthest, if the client is closer.\<close>

theorem announce_entries_keep_closest:
  assumes "qsort_contract qs" "\<And>n. malloc_ok P n" "length self = 32" "length pk = 32" "self_public_key (oa_dht oa) = self"
    "dht_mono_time (oa_dht oa) = mt" "length data_pk = 32" "length ret = 177"
    and "entries_inv mt0 self (oa_entries oa)" "time_passes mt0 mt (oa_entries oa)" "unat (mono_time_get mt) + 300 < 2 ^ 64"
    and "add_to_entries P qs oa ipp pk data_pk ret = (idx, oa')"
  shows "(idx = None \<longrightarrow> oa' = oa \<and> (\<forall>e \<in> set (oa_entries oa). \<not> entry_timeout mt e \<and> key_distance self (oe_public_key e) \<le> key_distance self pk)) \<and>
    (idx \<noteq> None \<longrightarrow> (\<exists>i victim. idx = Some i \<and> in_entries oa' pk = Some i \<and> i < length (oa_entries oa') \<and> oa_entries oa' ! i = entry_for mt ipp pk data_pk ret \<and>
       oa' = oa\<lparr>oa_entries := oa_entries oa'\<rparr> \<and> entries_inv mt self (oa_entries oa') \<and>
       mset (oa_entries oa') + {#victim#} = mset (oa_entries oa) + {#entry_for mt ipp pk data_pk ret#} \<and>
       (entry_timeout mt victim \<or> oe_public_key victim = pk \<or>
        key_distance self pk < key_distance self (oe_public_key victim) \<and>
        (\<forall>e \<in> set (oa_entries oa). \<not> entry_timeout mt e \<and> key_distance self (oe_public_key e) \<le> key_distance self (oe_public_key victim)))))"
  by (rule add_to_entries_spec [OF assms(1-10) entry_for_fresh [OF assms(11)] assms(12)])

text \<open>A node without any entry, at time 1000.\<close>

definition example_announce_node :: Onion_Announce where
  "example_announce_node = \<lparr>oa_dht = (example_node_dht 6)\<lparr>close_clientlist := []\<rparr>, oa_entries = replicate ONION_ANNOUNCE_MAX_ENTRIES empty_announce_entry,
     hmac_key = replicate 32 8, oa_shared_keys_recv = new_cache (replicate 32 6), extra_data_max_size = 0, extra_data_callback = None,
     extra_data_object = \<lparr>gca_heap = Map.empty, root_announces = None, last_timeout_check = 0\<rparr>\<rparr>"

lemma example_announce_node:
  "oa_dht example_announce_node = (example_node_dht 6)\<lparr>close_clientlist := []\<rparr>" "length (hmac_key example_announce_node) = 32"
  "oa_entries example_announce_node = replicate ONION_ANNOUNCE_MAX_ENTRIES empty_announce_entry"
  by (simp_all add: example_announce_node_def)

lemma entry_timeout_empty: "entry_timeout example_time empty_announce_entry"
  by (simp add: entry_timeout_def empty_announce_entry_def mono_time_is_timeout_def mono_time_get_def example_time_def size_defs word_le_nat_alt)

lemma example_entries_inv: "entries_inv example_time self (replicate ONION_ANNOUNCE_MAX_ENTRIES empty_announce_entry)"
proof -
  have "cmp_entry example_time self empty_announce_entry empty_announce_entry = 0" by (simp add: cmp_entry_def entry_timeout_empty)
  then have "sorted_wrt (\<lambda>a b. cmp_entry example_time self a b \<le> 0) (replicate n empty_announce_entry)" for n by (induction n) auto
  moreover have "live_keys example_time (replicate n empty_announce_entry) = {#}" for n
    by (induction n) (simp_all add: live_keys_def entry_timeout_empty)
  ultimately show ?thesis by (simp add: entries_inv_def empty_announce_entry_def)
qed

lemma time_passes_refl: "time_passes mt mt es"
  by (simp add: time_passes_def list_all_iff)

lemma example_now: "unat (mono_time_get example_time) + 300 < 2 ^ 64" "length (self_public_key ((example_node_dht 6)\<lparr>close_clientlist := []\<rparr>)) = 32"
  by (simp_all add: mono_time_get_def example_time_def example_node_dht)

theorem announce_entries_keep_closest_witness:
  "\<exists>i oa'. add_to_entries xor_platform insertion_qsort example_announce_node example_ipp (replicate 32 5) (replicate 32 4) (replicate 177 3) = (Some i, oa') \<and>
     oa_entries oa' ! i = entry_for example_time example_ipp (replicate 32 5) (replicate 32 4) (replicate 177 3)"
proof -
  obtain idx oa' where add: "add_to_entries xor_platform insertion_qsort example_announce_node example_ipp (replicate 32 5) (replicate 32 4) (replicate 177 3) = (idx, oa')"
    by fastforce
  have facts: "self_public_key (oa_dht example_announce_node) = replicate 32 6" "dht_mono_time (oa_dht example_announce_node) = example_time"
    "length (replicate 32 6 :: bytes) = 32" "length (replicate 32 5 :: bytes) = 32" "length (replicate 32 4 :: bytes) = 32" "length (replicate 177 3 :: bytes) = 177"
    by (simp_all add: example_announce_node example_node_dht)
  have inv: "entries_inv example_time (replicate 32 6) (oa_entries example_announce_node)"
    unfolding example_announce_node(3) by (rule example_entries_inv)
  note kept = announce_entries_keep_closest [OF iqs.qsort_contract_axioms box_platform.memory [OF xor_box_platform] facts(3,4,1,2,5,6) inv
      time_passes_refl example_now(1) add]
  have "empty_announce_entry \<in> set (oa_entries example_announce_node)" by (simp add: example_announce_node size_defs)
  then have "idx \<noteq> None" using kept entry_timeout_empty by blast
  then show ?thesis using kept add by blast
qed

text \<open>C7: A client becomes reachable through a node in two steps, with the requests that \<^verbatim>\<open>create_announce_request\<close> makes and that arrive with a return part appended. Its
  first request, whatever ping id it contains, is answered with the ping id for its key and address. A second request with that ping id from the same address within 300
  seconds stores the client and is answered with 2, or it is answered with 0, and then all 160 entries of the node are live and none is farther from the node. If it is
  stored, data that anyone sends for the client with \<^verbatim>\<open>create_data_request\<close> is passed on along the return path of that request, and the client opens it to the data that
  was sent.\<close>

theorem announced_client_gets_data:
  assumes "box_platform P" "hmac_platform P" "plat h = P" "qsort_contract qs" "length (addr (ip source)) = 16" "length stack = 72"
    and keys: "encrypt_precompute P node_pk sk = Some k" "encrypt_precompute P pk node_sk = Some k"
      "dht_self_secret_key (oa_dht oa1) = node_sk" "dht_self_secret_key (oa_dht oa2) = node_sk"
    and len: "length pk = 32" "length any_id = 32" "length data_pk = 32" "length ret1 = 177" "length ret2 = 177" "length ret3 = 177"
    and "ready h oa1 source pk" "dht_mono_time (oa_dht oa1) = mt1" "ready h oa2 source pk" "dht_mono_time (oa_dht oa2) = mt2" "hmac_key oa2 = hmac_key oa1"
    and "mono_time_get mt1 \<le> mono_time_get mt2" "unat (mono_time_get mt2) \<le> unat (mono_time_get mt1) + 300" "unat (mono_time_get mt2) + 300 < 2 ^ 64"
    and "entries_inv mt0 (self_public_key (oa_dht oa2)) (oa_entries oa2)" "time_passes mt0 mt2 (oa_entries oa2)"
    and data: "crypto_new_keypair r3 = ((rpk, rsk), r3')" "encrypt_precompute P data_pk rsk = Some kd" "encrypt_precompute P rpk data_sk = Some kd"
      "length rpk = 32" "length nonce = 24" "data \<noteq> []" "DATA_REQUEST_MIN_SIZE + length data \<le> ONION_MAX_DATA_SIZE"
  shows "\<exists>request1 request2 request3 enc r1' r2'.
    create_announce_request P junk r1 ONION_ANNOUNCE_REQUEST_MIN_SIZE node_pk pk sk any_id pk data_pk sendback1 = (Some request1, r1') \<and>
    create_announce_request P junk r2 ONION_ANNOUNCE_REQUEST_MIN_SIZE node_pk pk sk (ping_id_of P oa1 mt1 pk source) pk data_pk sendback2 = (Some request2, r2') \<and>
    create_data_request P junk r3 ONION_MAX_DATA_SIZE pk data_pk nonce data = (Some request3, r3') \<and>
    decrypt_data P junk rpk data_sk nonce enc = Some data \<and>
    (\<exists>r b oa' rest. handle_announce_request_old h qs stack mem oa1 source (request1 @ ret1) = Some (r, oa') \<and>
      answered P k source ret1 NET_PACKET_ANNOUNCE_RESPONSE_OLD (host_bytes 8 sendback1) (b # ping_id_of P oa1 mt1 pk source @ rest)
        (sent (oa_dht oa1)) (sent (oa_dht oa'))) \<and>
    (\<exists>r b oa' rest. handle_announce_request_old h qs stack mem oa2 source (request2 @ ret2) = Some (r, oa') \<and>
      answered P k source ret2 NET_PACKET_ANNOUNCE_RESPONSE_OLD (host_bytes 8 sendback2) (b # ping_id_of P oa2 mt2 pk source @ rest)
        (sent (oa_dht oa2)) (sent (oa_dht oa')) \<and>
      (b = 0 \<and> (\<forall>e \<in> set (oa_entries oa2). \<not> entry_timeout mt2 e \<and>
         key_distance (self_public_key (oa_dht oa2)) (oe_public_key e) \<le> key_distance (self_public_key (oa_dht oa2)) pk) \<or>
       b = 2 \<and> sent (oa_dht (snd (handle_data_request h oa' (request3 @ ret3)))) =
         sent (oa_dht oa') @ [(source, NET_PACKET_ONION_RECV_3 # ret2 @ NET_PACKET_ONION_DATA_RESPONSE # nonce @ rpk @ enc)]))"
proof -
  obtain nodes1 num1 nodes2 num2 where close: "get_close_nodes (oa_dht oa1) pk TOX_AF_UNSPEC (ip_is_lan (ip source)) False = (nodes1, num1)"
    "get_close_nodes (oa_dht oa2) pk TOX_AF_UNSPEC (ip_is_lan (ip source)) False = (nodes2, num2)" by fastforce
  have ready1: "announce_ok P oa1" "length (hmac_key oa1) = 32" "num1 \<le> MAX_SENT_NODES" "length nodes1 = MAX_SENT_NODES" "list_all node_clean (take num1 nodes1)"
    and ready2: "announce_ok P oa2" "length (hmac_key oa2) = 32" "num2 \<le> MAX_SENT_NODES" "length nodes2 = MAX_SENT_NODES" "list_all node_clean (take num2 nodes2)"
      "length (self_public_key (oa_dht oa2)) = 32"
    using assms(3,17,19) close by (auto simp: ready_def)
  note acc = ping_id_accepted [OF assms(2,22,23,21), of pk source]
  have pid: "length (ping_id_of P oa1 mt1 pk source) = 32" unfolding ping_id_of_def by (rule hmac_platform.hmac_length [OF assms(2) ready1(2)])
  obtain request1 r1' where q1: "create_announce_request P junk r1 ONION_ANNOUNCE_REQUEST_MIN_SIZE node_pk pk sk any_id pk data_pk sendback1 = (Some request1, r1')"
    "opens P (dht_self_secret_key (oa_dht oa1)) pk k any_id pk data_pk (host_bytes 8 sendback1) [] ret1 (request1 @ ret1)"
    unfolding keys(3) by (rule created_request_opens [OF assms(1) keys(1,2) len(1,2,1,3,4)])
  obtain request2 r2' where q2: "create_announce_request P junk r2 ONION_ANNOUNCE_REQUEST_MIN_SIZE node_pk pk sk (ping_id_of P oa1 mt1 pk source) pk data_pk sendback2 = (Some request2, r2')"
    "opens P (dht_self_secret_key (oa_dht oa2)) pk k (ping_id_of P oa1 mt1 pk source) pk data_pk (host_bytes 8 sendback2) [] ret2 (request2 @ ret2)"
    unfolding keys(4) by (rule created_request_opens [OF assms(1) keys(1,2) len(1) pid len(1,3,5)])
  obtain enc where q3: "create_data_request P junk r3 ONION_MAX_DATA_SIZE pk data_pk nonce data = (Some (NET_PACKET_ONION_DATA_REQUEST # pk @ nonce @ rpk @ enc), r3')"
    "decrypt_data P junk rpk data_sk nonce enc = Some data" "72 < length (nonce @ rpk @ enc)" "length (nonce @ rpk @ enc) \<le> 1190"
    by (rule created_data_request [OF assms(1) data(1-3) len(1) data(4-7)])
  note old = opened_by_old [OF q1(2), of h qs stack mem oa1 source] opened_by_old [OF q2(2), of h qs stack mem oa2 source]
  from ping_id_told [of h, unfolded assms(3), OF assms(1) ready1(1) q1(2) assms(6,18,2) close(1) ready1(3-5) assms(5) ready1(2), of qs mem NET_PACKET_ANNOUNCE_RESPONSE_OLD False]
  have one: "\<exists>r b oa' rest. handle_announce_request_old h qs stack mem oa1 source (request1 @ ret1) = Some (r, oa') \<and>
      answered P k source ret1 NET_PACKET_ANNOUNCE_RESPONSE_OLD (host_bytes 8 sendback1) (b # ping_id_of P oa1 mt1 pk source @ rest) (sent (oa_dht oa1)) (sent (oa_dht oa'))"
    unfolding old by blast
  from client_stored [of h, unfolded assms(3), OF assms(1) ready2(1) q2(2) assms(6,20,2) close(2) ready2(3-5) assms(5) ready2(2) assms(4) ready2(6) assms(25,26,24) acc,
      of mem NET_PACKET_ANNOUNCE_RESPONSE_OLD False]
  obtain r b oa' rest where two: "handle_announce_request_old h qs stack mem oa2 source (request2 @ ret2) = Some (r, oa')"
    "answered P k source ret2 NET_PACKET_ANNOUNCE_RESPONSE_OLD (host_bytes 8 sendback2) (b # ping_id_of P oa2 mt2 pk source @ rest) (sent (oa_dht oa2)) (sent (oa_dht oa'))"
    and stored: "b = 0 \<and> (\<forall>e \<in> set (oa_entries oa2). \<not> entry_timeout mt2 e \<and>
         key_distance (self_public_key (oa_dht oa2)) (oe_public_key e) \<le> key_distance (self_public_key (oa_dht oa2)) pk) \<or>
       b = 2 \<and> (\<exists>i. in_entries oa' pk = Some i \<and> oa_entries oa' ! i = entry_for mt2 source pk data_pk ret2)" unfolding old by blast
  have "sent (oa_dht (snd (handle_data_request h oa' ((NET_PACKET_ONION_DATA_REQUEST # pk @ nonce @ rpk @ enc) @ ret3)))) =
      sent (oa_dht oa') @ [(source, NET_PACKET_ONION_RECV_3 # ret2 @ NET_PACKET_ONION_DATA_RESPONSE # nonce @ rpk @ enc)]"
    if "in_entries oa' pk = Some i" "oa_entries oa' ! i = entry_for mt2 source pk data_pk ret2" for i
    using data_passed_on [OF that(1) len(1) _ len(6) q3(3,4), of h] that(2) len(5) by (simp add: entry_for_def size_defs)
  with one two stored q1(1) q2(1) q3(1,2) show ?thesis by blast
qed

lemma opens_exists:
  assumes "box_platform P" "encrypt_precompute P pk sk = Some k" "length pk = 32" "length pid = 32" "length client_id = 32" "length data_pk = 32"
    "length sendback = 8" "length ret = 177"
  obtains packet where "opens P sk pk k pid client_id data_pk sendback extra ret packet"
proof -
  have "pid @ client_id @ data_pk @ sendback @ extra \<noteq> []" using assms(4) by auto
  from box_platform.encrypt_decrypt [OF assms(1) this, of k "replicate 24 0"] obtain enc where
    "length enc = length (pid @ client_id @ data_pk @ sendback @ extra) + 16"
    "decrypt_data_symmetric P (Some k) (replicate 24 0) enc = Some (pid @ client_id @ data_pk @ sendback @ extra)" by blast
  then have "opens P sk pk k pid client_id data_pk sendback extra ret (0 # replicate 24 0 @ pk @ enc @ ret)"
    using assms unfolding opens_def by (intro conjI exI [of _ 0] exI [of _ "replicate 24 0"] exI [of _ enc]) simp_all
  then show thesis by (rule that)
qed

interpretation xor_hmac: hmac_platform xor_platform
  by unfold_locales (simp_all add: xor_platform_def fuzz_platform_def)

lemma example_ready: "ready xor_host example_announce_node source pk"
proof -
  have "get_close_nodes ((example_node_dht 6)\<lparr>close_clientlist := []\<rparr>) pk TOX_AF_UNSPEC lan False = (replicate MAX_SENT_NODES empty_node_format, 0)" for lan
    by (simp add: get_close_nodes_def get_somewhat_close_nodes_def get_close_nodes_inner_def example_node_dht_def example_dht_def family_defs)
  then show ?thesis
    by (simp add: ready_def announce_ok_def example_announce_node_def new_cache_def cache_inv_def example_node_dht plat_xor_host)
qed

theorem announced_client_gets_data_witness:
  "\<exists>request1 request2 request3 enc r1' r2' r3' r b oa' rest.
    create_announce_request xor_platform [] counting_random ONION_ANNOUNCE_REQUEST_MIN_SIZE (replicate 32 6) (replicate 32 5) (replicate 32 5)
      (replicate 32 0) (replicate 32 5) (replicate 32 5) 1 = (Some request1, r1') \<and>
    create_announce_request xor_platform [] counting_random ONION_ANNOUNCE_REQUEST_MIN_SIZE (replicate 32 6) (replicate 32 5) (replicate 32 5)
      (ping_id_of xor_platform example_announce_node example_time (replicate 32 5) example_ipp) (replicate 32 5) (replicate 32 5) 2 = (Some request2, r2') \<and>
    create_data_request xor_platform [] (counting_random\<lparr>r_pos := 6\<rparr>) ONION_MAX_DATA_SIZE (replicate 32 5) (replicate 32 5) (replicate 24 8) [7, 7] = (Some request3, r3') \<and>
    handle_announce_request_old xor_host insertion_qsort (replicate 72 0) (None, example_announce 1) example_announce_node example_ipp (request1 @ replicate 177 2) \<noteq> None \<and>
    handle_announce_request_old xor_host insertion_qsort (replicate 72 0) (None, example_announce 1) example_announce_node example_ipp (request2 @ replicate 177 2) = Some (r, oa') \<and>
    answered xor_platform (replicate 32 3) example_ipp (replicate 177 2) NET_PACKET_ANNOUNCE_RESPONSE_OLD (host_bytes 8 (2 :: u64))
      (2 # ping_id_of xor_platform example_announce_node example_time (replicate 32 5) example_ipp @ rest) [] (sent (oa_dht oa')) \<and>
    sent (oa_dht (snd (handle_data_request xor_host oa' (request3 @ replicate 177 9)))) =
      sent (oa_dht oa') @ [(example_ipp, NET_PACKET_ONION_RECV_3 # replicate 177 2 @ NET_PACKET_ONION_DATA_RESPONSE # replicate 24 8 @ replicate 32 6 @ enc)] \<and>
    decrypt_data xor_platform [] (replicate 32 6) (replicate 32 5) (replicate 24 8) enc = Some [7, 7]"
proof -
  let ?n = example_announce_node and ?pk = "replicate 32 5 :: bytes"
  have sk: "dht_self_secret_key (oa_dht ?n) = replicate 32 6" "dht_mono_time (oa_dht ?n) = example_time" "sent (oa_dht ?n) = []"
    by (simp_all add: example_announce_node example_node_dht)
  have inv: "entries_inv example_time (self_public_key (oa_dht ?n)) (oa_entries ?n)" unfolding example_announce_node(3) by (rule example_entries_inv)
  have facts: "length (addr (ip example_ipp)) = 16" "mono_time_get example_time \<le> mono_time_get example_time"
    "unat (mono_time_get example_time) \<le> unat (mono_time_get example_time) + 300" "[7, 7 :: byte] \<noteq> []"
    "DATA_REQUEST_MIN_SIZE + length [7, 7 :: byte] \<le> ONION_MAX_DATA_SIZE"
    by (simp_all add: example_ipp_def size_defs)
  have kp: "crypto_new_keypair (counting_random\<lparr>r_pos := 6\<rparr>) = ((replicate 32 6, replicate 32 6), counting_random\<lparr>r_pos := 7\<rparr>)"
    by (simp add: crypto_new_keypair_def counting_random_def)
  have "empty_announce_entry \<in> set (oa_entries ?n)" by (simp add: example_announce_node size_defs)
  then have no: "\<not> (\<forall>e \<in> set (oa_entries ?n). \<not> entry_timeout example_time e \<and>
      key_distance (self_public_key (oa_dht ?n)) (oe_public_key e) \<le> key_distance (self_public_key (oa_dht ?n)) ?pk)" using entry_timeout_empty by blast
  have len: "length ?pk = 32" "length (replicate 32 0 :: bytes) = 32" "length (replicate 177 2 :: bytes) = 177" "length (replicate 177 9 :: bytes) = 177"
    "length (replicate 72 0 :: bytes) = 72" "length (replicate 32 6 :: bytes) = 32" "length (replicate 24 8 :: bytes) = 24" by simp_all
  note both = announced_client_gets_data [OF xor_box_platform xor_hmac.hmac_platform_axioms plat_xor_host iqs.qsort_contract_axioms facts(1) len(5)
      example_exchange(1,2) sk(1,1) len(1,2,1,3,3,4) example_ready sk(2) example_ready sk(2) refl facts(2,3) example_now(1) inv time_passes_refl
      kp example_exchange(2,1) len(6,7) facts(4,5), where junk = "[]" and mem = "(None, example_announce 1)" and ?sendback1.0 = 1 and ?sendback2.0 = 2
      and ?r1.0 = counting_random and ?r2.0 = counting_random]
  from both show ?thesis unfolding sk
  proof (elim exE conjE disjE, goal_cases)
    case 1
    then show ?case using no unfolding sk by blast
  next
    case (2 request1 request2 request3 enc r1' r2' r r' b b' oa1 oa' rest1 rest)
    then have b: "b' = 2" by blast
    have "handle_announce_request_old xor_host insertion_qsort (replicate 72 0) (None, example_announce 1) example_announce_node example_ipp (request1 @ replicate 177 2) \<noteq> None"
      using 2 by simp
    with 2 [unfolded b] show ?case by (intro exI conjI)
  qed
qed

text \<open>C8: The response to an announce with extra data overflows its array exactly if the nodes and the extra data together take more than 543 bytes: the array has room
  for 544 bytes of extra data, but the nodes, up to 204 bytes, are stored in front of it.\<close>

theorem announce_response_overflow:
  assumes "box_platform (plat h)" "hmac_platform (plat h)" "ready h oa source client_id" "qsort_contract qs"
    and "opens (plat h) (dht_self_secret_key (oa_dht oa)) pk k pid client_id data_pk sendback extra ret packet"
    and "0 < length extra" "length extra \<le> ONION_MAX_EXTRA_DATA_SIZE" "length stack = 72" "length (addr (ip source)) = 16" "extra_data_callback oa = Some f"
    and "entries_inv mt0 (self_public_key (oa_dht oa)) (oa_entries oa)" "time_passes mt0 (dht_mono_time (oa_dht oa)) (oa_entries oa)"
    and "unat (mono_time_get (dht_mono_time (oa_dht oa))) + 300 < 2 ^ 64"
    and "get_close_nodes (oa_dht oa) client_id TOX_AF_UNSPEC (ip_is_lan (ip source)) False = (nodes, num)"
    and "(if num \<noteq> 0 then pack_nodes (SIZEOF_Node_format * MAX_SENT_NODES) (take num nodes) else Some []) = Some packed"
    and "f mem (extra_data_object oa) (dht_mono_time (oa_dht oa)) (of_nat num) extra (204 + unat (extra_data_max_size oa) - length packed) = Some (Some ex, object)"
  shows "handle_announce_request h qs stack mem oa source packet = None \<longleftrightarrow> 543 < length packed + length ex"
  using assms by (rule extra_response)

text \<open>Four close nodes and four announces of a group with IPv6 addresses, and the announce of a fifth peer.\<close>

definition example_ip6 :: "byte \<Rightarrow> byte \<Rightarrow> IP_Port" where
  "example_ip6 f k = \<lparr>ip = \<lparr>family = f, addr = 0x20 # replicate 14 0 @ [k]\<rparr>, port = 99\<rparr>"

definition example_client6 :: "byte \<Rightarrow> Client_data" where
  "example_client6 k = empty_client\<lparr>cd_public_key := replicate 32 k,
     assoc6 := empty_ipptspng\<lparr>assoc_ip_port := example_ip6 TOX_AF_INET6 k, timestamp := 1000\<rparr>\<rparr>"

definition wide_announce :: "byte \<Rightarrow> GC_Peer_Announce" where
  "wide_announce k = \<lparr>base_announce = \<lparr>ga_tcp_relays = [\<lparr>nf_public_key = replicate 32 k, nf_ip_port = example_ip6 TCP_INET6 k\<rparr>], tcp_relays_count = 1,
     ip_port_is_set = True, ga_ip_port = example_ip6 TOX_AF_INET6 k, peer_public_key = replicate 32 k\<rparr>, ga_timestamp = 1000\<rparr>"

definition example_store :: GC_Announces_List where
  "example_store = \<lparr>gca_heap = [7 \<mapsto> empty_gc_announces\<lparr>gca_chat_id := replicate 32 1, gca_index := 4, last_announce_received_timestamp := 1000,
     peer_announces := map wide_announce [11, 12, 13, 14] @ drop 4 (peer_announces empty_gc_announces)\<rparr>], root_announces = Some 7, last_timeout_check = 1000\<rparr>"

definition example_gc_data :: bytes where
  "example_gc_data = the (the (gca_pack_public_announce 200 (example_announce 5)))"

definition example_full_node :: Onion_Announce where
  "example_full_node = gca_onion_init example_store
     (example_announce_node\<lparr>oa_dht := (example_node_dht 6)\<lparr>close_clientlist := map example_client6 [1, 2, 3, 4]\<rparr>\<rparr>)"

lemma example_full_fields:
  "oa_dht example_full_node = (example_node_dht 6)\<lparr>close_clientlist := map example_client6 [1, 2, 3, 4]\<rparr>" "hmac_key example_full_node = hmac_key example_announce_node"
  "oa_entries example_full_node = oa_entries example_announce_node" "oa_shared_keys_recv example_full_node = oa_shared_keys_recv example_announce_node"
  "extra_data_callback example_full_node = Some pack_group_announces" "extra_data_object example_full_node = example_store"
  "unat (extra_data_max_size example_full_node) = 544"
  by (simp_all add: example_full_node_def gca_onion_init_def onion_announce_extra_data_callback_def size_defs)

lemma example_full_close:
  "\<exists>nodes packed. get_close_nodes (oa_dht example_full_node) (replicate 32 5) TOX_AF_UNSPEC (ip_is_lan (ip example_ipp)) False = (nodes, 4) \<and>
     length nodes = 4 \<and> list_all node_clean nodes \<and> pack_nodes 256 nodes = Some packed \<and> length packed = 204"
proof -
  have now: "dht_cur_time (oa_dht example_full_node) = 1000" "all_clients (oa_dht example_full_node) = map example_client6 [1, 2, 3, 4]"
    by (simp_all add: example_full_fields example_node_dht_def example_dht_def all_clients_def)
  obtain nodes num where r: "get_close_nodes (oa_dht example_full_node) (replicate 32 5) TOX_AF_UNSPEC (ip_is_lan (ip example_ipp)) False = (nodes, num)" by fastforce
  have "(\<lambda>(nodes, num). (map_option length (pack_nodes 256 nodes), list_all node_clean nodes, length nodes, num)) (nodes, num) = (Some 204, True, 4, 4)"
    unfolding r [symmetric] get_close_nodes_eq [of TOX_AF_UNSPEC, simplified] now by code_simp
  with r show ?thesis by auto
qed

lemma example_group_announces:
  "length example_gc_data = 73"
  "\<exists>ex object. pack_group_announces (None, example_announce 0) example_store example_time 4 example_gc_data 544 = Some (Some ex, object) \<and> length ex = 416"
proof -
  show "length example_gc_data = 73" by code_simp
  have "map_option (map_option length \<circ> fst) (pack_group_announces (None, example_announce 0) example_store example_time 4 example_gc_data 544) = Some (Some 416)"
    by code_simp
  then show "\<exists>ex object. pack_group_announces (None, example_announce 0) example_store example_time 4 example_gc_data 544 = Some (Some ex, object) \<and> length ex = 416"
    by auto
qed

theorem announce_response_overflow_witness:
  "\<exists>packet. opens xor_platform (replicate 32 6) (replicate 32 5) (replicate 32 3) (replicate 32 0) (replicate 32 5) (replicate 32 4) (replicate 8 1) example_gc_data (replicate 177 2) packet \<and>
     handle_announce_request xor_host insertion_qsort (replicate 72 0) (None, example_announce 0) example_full_node example_ipp packet = None"
proof -
  let ?n = example_full_node
  have sk: "dht_self_secret_key (oa_dht ?n) = replicate 32 6" "dht_mono_time (oa_dht ?n) = example_time" "self_public_key (oa_dht ?n) = replicate 32 6"
    by (simp_all add: example_full_fields example_node_dht)
  obtain packet where p: "opens xor_platform (dht_self_secret_key (oa_dht ?n)) (replicate 32 5) (replicate 32 3) (replicate 32 0) (replicate 32 5) (replicate 32 4) (replicate 8 1)
      example_gc_data (replicate 177 2) packet"
    unfolding sk by (rule opens_exists [OF xor_box_platform example_exchange(2) length_replicate length_replicate length_replicate length_replicate length_replicate length_replicate])
  obtain nodes packed where c: "get_close_nodes (oa_dht ?n) (replicate 32 5) TOX_AF_UNSPEC (ip_is_lan (ip example_ipp)) False = (nodes, 4)" "length nodes = 4"
    "list_all node_clean nodes" "pack_nodes 256 nodes = Some packed" "length packed = 204" using example_full_close by blast
  have ready: "ready xor_host ?n example_ipp (replicate 32 5)"
    using c(1-3) example_ready [of example_ipp "replicate 32 5"]
    by (simp add: ready_def announce_ok_def example_full_fields example_announce_node example_node_dht size_defs)
  obtain ex object where e: "pack_group_announces (None, example_announce 0) example_store example_time 4 example_gc_data 544 = Some (Some ex, object)" "length ex = 416"
    using example_group_announces(2) by blast
  have call: "pack_group_announces (None, example_announce 0) (extra_data_object ?n) (dht_mono_time (oa_dht ?n)) (of_nat 4) example_gc_data
      (204 + unat (extra_data_max_size ?n) - length packed) = Some (Some ex, object)" using e(1) by (simp add: example_full_fields(6,7) sk(2) c(5))
  have pack: "(if (4 :: nat) \<noteq> 0 then pack_nodes (SIZEOF_Node_format * MAX_SENT_NODES) (take 4 nodes) else Some []) = Some packed" using c(2,4) by (simp add: size_defs)
  have inv: "entries_inv example_time (self_public_key (oa_dht ?n)) (oa_entries ?n)"
    unfolding example_full_fields(3) example_announce_node(3) by (rule example_entries_inv)
  have tp: "time_passes example_time (dht_mono_time (oa_dht ?n)) (oa_entries ?n)" unfolding sk(2) by (rule time_passes_refl)
  have facts: "0 < length example_gc_data" "length example_gc_data \<le> ONION_MAX_EXTRA_DATA_SIZE" "length (replicate 72 0 :: bytes) = 72" "length (addr (ip example_ipp)) = 16"
    by (simp_all add: example_group_announces(1) size_defs example_ipp_def)
  have "handle_announce_request xor_host insertion_qsort (replicate 72 0) (None, example_announce 0) ?n example_ipp packet = None \<longleftrightarrow> 543 < length packed + length ex"
    by (rule announce_response_overflow [where h = xor_host, unfolded plat_xor_host, OF xor_box_platform xor_hmac.hmac_platform_axioms ready iqs.qsort_contract_axioms p facts
          example_full_fields(5) inv tp _ c(1) pack call]) (simp only: sk(2) example_now(1))
  then show ?thesis using p c(5) e(2) unfolding sk by auto
qed

end
