(* ===== verification/TCP_Common.thy ===== *)
theory TCP_Common
  imports Network Util "HOL-Library.Monad_Syntax"
begin

text \<open>
  \<^verbatim>\<open>toxcore/TCP_common.c\<close>: encrypted packets on a stream socket. A packet is its length and its encrypted
  contents. What the socket does not take at once is kept: a normal packet in the array \<^verbatim>\<open>last_packet\<close>, priority
  packets in a linked list with a pointer to its last node.

  The nodes of the list are values at addresses of a heap; a result \<open>None\<close> of an operation is a read or a write through a
  null or dangling pointer. The answers of the host to \<^verbatim>\<open>send\<close>, \<^verbatim>\<open>recv\<close> and \<^verbatim>\<open>FIONREAD\<close> are functions of the
  number of calls so far and of the lengths; the bytes written and the bytes that wait to be read are fields of the socket. The address of a new node
  is an argument, \<open>None\<close> if no memory is left.
\<close>

section \<open>Sockets\<close>

record Sock =
  sk_send :: "nat \<Rightarrow> nat \<Rightarrow> int"
  sk_recv :: "nat \<Rightarrow> nat \<Rightarrow> nat \<Rightarrow> int"
  sk_count :: "nat \<Rightarrow> nat \<Rightarrow> int"
  sk_calls :: nat
  sk_wire :: bytes
  sk_in :: bytes

definition net_send :: "Sock \<Rightarrow> bytes \<Rightarrow> int \<times> Sock" where
  "net_send sock buf =
     (let res = sk_send sock (sk_calls sock) (length buf)
      in (res, sock\<lparr>sk_calls := sk_calls sock + 1, sk_wire := sk_wire sock @ take (nat res) buf\<rparr>))"

definition net_recv :: "Sock \<Rightarrow> nat \<Rightarrow> int \<times> bytes \<times> Sock" where
  "net_recv sock len =
     (let res = sk_recv sock (sk_calls sock) (length (sk_in sock)) len
      in (res, take (nat res) (sk_in sock), sock\<lparr>sk_calls := sk_calls sock + 1, sk_in := drop (nat res) (sk_in sock)\<rparr>))"

definition net_socket_data_recv_buffer :: "Sock \<Rightarrow> u16" where
  "net_socket_data_recv_buffer sock =
     ucast (max_s32 0 (min_s32 (word_of_int (sk_count sock (sk_calls sock) (length (sk_in sock)))) 0xffff))"

text \<open>What is relied on: \<^verbatim>\<open>send\<close> takes at most the bytes offered, \<^verbatim>\<open>FIONREAD\<close> counts no byte that has not arrived, and \<^verbatim>\<open>recv\<close> gives all bytes asked for
  if they have arrived.\<close>

locale stream_socket =
  fixes send :: "nat \<Rightarrow> nat \<Rightarrow> int" and recv :: "nat \<Rightarrow> nat \<Rightarrow> nat \<Rightarrow> int" and count :: "nat \<Rightarrow> nat \<Rightarrow> int"
  assumes send_le: "send n len \<le> int len"
    and recv_all: "0 < len \<Longrightarrow> len \<le> avail \<Longrightarrow> recv n avail len = int len"
    and count_le: "0 \<le> count n avail" "count n avail \<le> int avail" "count n avail < 2 ^ 31"

section \<open>Connections\<close>

definition MAX_PACKET_SIZE :: nat where [size_defs]: "MAX_PACKET_SIZE = 2048"
definition sizeof_TCP_Priority_List :: nat where [size_defs]: "sizeof_TCP_Priority_List = 24"

record TCP_Priority_List =
  pq_next :: "nat option"
  pq_size :: u16
  pq_sent :: u16
  pq_data :: bytes

record TCP_Connection =
  tc_ns :: bool
  tc_sock :: Sock
  tc_ip_port :: IP_Port
  tc_sent_nonce :: bytes
  tc_shared_key :: bytes
  last_packet :: bytes
  last_packet_length :: u16
  last_packet_sent :: u16
  priority_queue_start :: "nat option"
  priority_queue_end :: "nat option"
  pq_heap :: "nat \<rightharpoonup> TCP_Priority_List"

text \<open>\<open>tc_ns\<close> is whether the pointer \<^verbatim>\<open>ns\<close> is set: it is null in a connection filled with zeros.\<close>

definition con_send :: "TCP_Connection \<Rightarrow> bytes \<Rightarrow> (int \<times> TCP_Connection) option" where
  "con_send con buf = (if tc_ns con then case net_send (tc_sock con) buf of (len, sock) \<Rightarrow> Some (len, con\<lparr>tc_sock := sock\<rparr>) else None)"

partial_function (option) wipe_priority_list :: "(nat \<rightharpoonup> TCP_Priority_List) \<Rightarrow> nat option \<Rightarrow> (nat \<rightharpoonup> TCP_Priority_List) option" where
  "wipe_priority_list h p =
     (case p of
        None \<Rightarrow> Some h
      | Some pp \<Rightarrow> do { node \<leftarrow> h pp; wipe_priority_list (h(pp := None)) (pq_next node) })"

definition send_pending_data_nonpriority :: "TCP_Connection \<Rightarrow> (int \<times> TCP_Connection) option" where
  "send_pending_data_nonpriority con =
     (if last_packet_length con = 0 then Some (0, con)
      else do {
        let left = last_packet_length con - last_packet_sent con;
        (len, con) \<leftarrow> con_send con (slice (unat (last_packet_sent con)) (unat left) (last_packet con));
        Some (if len \<le> 0 then (- 1, con)
              else if len = uint left then (0, con\<lparr>last_packet_length := 0, last_packet_sent := 0\<rparr>)
              else (- 1, con\<lparr>last_packet_sent := last_packet_sent con + word_of_int len\<rparr>))
      })"

partial_function (option) send_pending_loop :: "nat option \<Rightarrow> TCP_Connection \<Rightarrow> (nat option \<times> TCP_Connection) option" where
  "send_pending_loop p con =
     (case p of
        None \<Rightarrow> Some (None, con)
      | Some a \<Rightarrow> do {
          node \<leftarrow> pq_heap con a;
          let left = pq_size node - pq_sent node;
          (len, con) \<leftarrow> con_send con (slice (unat (pq_sent node)) (unat left) (pq_data node));
          if len \<noteq> uint left then
            Some (Some a, if len > 0 then con\<lparr>pq_heap := (pq_heap con)(a \<mapsto> node\<lparr>pq_sent := pq_sent node + word_of_int len\<rparr>)\<rparr> else con)
          else send_pending_loop (pq_next node) (con\<lparr>pq_heap := (pq_heap con)(a := None)\<rparr>)
        })"

definition send_pending_data :: "TCP_Connection \<Rightarrow> (int \<times> TCP_Connection) option" where
  "send_pending_data con =
     do {
       (r, con) \<leftarrow> send_pending_data_nonpriority con;
       if r = - 1 then Some (- 1, con)
       else do {
         (p, con) \<leftarrow> send_pending_loop (priority_queue_start con) con;
         let con = con\<lparr>priority_queue_start := p\<rparr>;
         Some (if p = None then (0, con\<lparr>priority_queue_end := None\<rparr>) else (- 1, con))
       }
     }"

definition add_priority :: "platform \<Rightarrow> nat option \<Rightarrow> TCP_Connection \<Rightarrow> bytes \<Rightarrow> u16 \<Rightarrow> (bool \<times> TCP_Connection) option" where
  "add_priority P calloc con packet sent =
     (case calloc of
        None \<Rightarrow> Some (False, con)
      | Some new_list \<Rightarrow>
          if \<not> malloc_ok P (length packet) then Some (False, con)
          else do {
            let con1 = con\<lparr>pq_heap := (pq_heap con)(new_list \<mapsto>
              \<lparr>pq_next = None, pq_size = of_nat (length packet), pq_sent = sent, pq_data = packet\<rparr>)\<rparr>;
            con2 \<leftarrow> (case priority_queue_end con of
                None \<Rightarrow> Some (con1\<lparr>priority_queue_start := Some new_list\<rparr>)
              | Some p \<Rightarrow> do { node \<leftarrow> pq_heap con1 p; Some (con1\<lparr>pq_heap := (pq_heap con1)(p \<mapsto> node\<lparr>pq_next := Some new_list\<rparr>)\<rparr>) });
            Some (True, con2\<lparr>priority_queue_end := Some new_list\<rparr>)
          })"

definition write_packet_TCP_secure_connection ::
  "platform \<Rightarrow> nat option \<Rightarrow> TCP_Connection \<Rightarrow> bytes \<Rightarrow> bool \<Rightarrow> (int \<times> TCP_Connection) option" where
  "write_packet_TCP_secure_connection P calloc con data priority =
     (if length data + CRYPTO_MAC_SIZE > MAX_PACKET_SIZE then Some (- 1, con)
      else do {
        (pending, con) \<leftarrow> send_pending_data con;
        if pending = - 1 \<and> \<not> priority then Some (0, con)
        else case encrypt_data_symmetric P (Some (tc_shared_key con)) (tc_sent_nonce con) data of
            None \<Rightarrow> Some (- 1, con)
          | Some enc \<Rightarrow>
              if length enc \<noteq> length data + CRYPTO_MAC_SIZE then Some (- 1, con)
              else
                let packet = host_bytes 2 (net_htons (of_nat (length data + CRYPTO_MAC_SIZE))) @ enc
                in if priority then do {
                     (len, con) \<leftarrow> (if pending \<noteq> - 1 then con_send con packet else Some (0, con));
                     let len = (if len \<le> 0 then 0 else len);
                     let con = con\<lparr>tc_sent_nonce := increment_nonce (tc_sent_nonce con)\<rparr>;
                     if len = int (length packet) then Some (1, con)
                     else do { (ok, con) \<leftarrow> add_priority P calloc con packet (word_of_int len); Some (if ok then 1 else 0, con) }
                   }
                   else do {
                     (len, con) \<leftarrow> con_send con packet;
                     if len \<le> 0 then Some (0, con)
                     else
                       let con = con\<lparr>tc_sent_nonce := increment_nonce (tc_sent_nonce con)\<rparr>
                       in if len = int (length packet) then Some (1, con)
                          else Some (1, con\<lparr>last_packet := packet @ drop (length packet) (last_packet con),
                                            last_packet_length := of_nat (length packet), last_packet_sent := word_of_int len\<rparr>)
                   }
      })"

section \<open>Reading\<close>

definition read_TCP_packet :: "Sock \<Rightarrow> nat \<Rightarrow> bytes option \<times> Sock" where
  "read_TCP_packet sock len =
     (if unat (net_socket_data_recv_buffer sock) < len then (None, sock)
      else case net_recv sock len of (n, data, sock) \<Rightarrow> (if n \<noteq> int len then None else Some data, sock))"

definition read_TCP_length :: "Sock \<Rightarrow> u16 \<times> Sock" where
  "read_TCP_length sock =
     (if net_socket_data_recv_buffer sock \<ge> 2 then
        case net_recv sock 2 of
          (len, length_buf, sock) \<Rightarrow>
            if len \<noteq> 2 then (0, sock)
            else if unat (net_unpack_u16 length_buf) > MAX_PACKET_SIZE then (- 1, sock)
            else (net_unpack_u16 length_buf, sock)
      else (0, sock))"

text \<open>The fields of a structure that the reader of a connection passes by address: the socket, the length of the packet that is
  being read and the nonce.\<close>

record tcp_reader =
  rd_sock :: Sock
  next_packet_length :: u16
  rd_nonce :: bytes

text \<open>The result of the C function is the length of the data, -1 or 0. A packet of 15 bytes is not decrypted and yet passes the check of its length, with the result \<^verbatim>\<open>-1\<close>.\<close>

datatype tcp_read = Killed | Nothing | Packet bytes

definition read_packet_TCP_secure_connection :: "platform \<Rightarrow> bytes \<Rightarrow> nat \<Rightarrow> tcp_reader \<Rightarrow> tcp_read \<times> tcp_reader" where
  "read_packet_TCP_secure_connection P shared_key max_len r =
     (let (len, r) =
        (if next_packet_length r = 0 then
           case read_TCP_length (rd_sock r) of (len, sock) \<Rightarrow> (len, r\<lparr>rd_sock := sock\<rparr>)
         else (next_packet_length r, r))
      in if next_packet_length r = 0 \<and> len = - 1 then (Killed, r)
         else if next_packet_length r = 0 \<and> len = 0 then (Nothing, r)
         else
           let r = r\<lparr>next_packet_length := len\<rparr>
           in if max_len + CRYPTO_MAC_SIZE < unat len then (Killed, r)
              else case read_TCP_packet (rd_sock r) (unat len) of
                  (None, sock) \<Rightarrow> (Nothing, r\<lparr>rd_sock := sock\<rparr>)
                | (Some data_encrypted, sock) \<Rightarrow>
                    let r = r\<lparr>rd_sock := sock, next_packet_length := 0\<rparr>
                    in case decrypt_data_symmetric P (Some shared_key) (rd_nonce r) data_encrypted of
                         None \<Rightarrow> (Killed, if length data_encrypted = 15 then r\<lparr>rd_nonce := increment_nonce (rd_nonce r)\<rparr> else r)
                       | Some data \<Rightarrow>
                           if length data + CRYPTO_MAC_SIZE \<noteq> length data_encrypted then (Killed, r)
                           else (Packet data, r\<lparr>rd_nonce := increment_nonce (rd_nonce r)\<rparr>))"

end
