(* ===== verification/TCP_Stream.thy ===== *)
theory TCP_Stream
  imports TCP_Common "HOL-Library.Sublist"
begin

text \<open>
  The stream of bytes of a TCP connection. The bytes that a connection has handed to the socket, followed by those it keeps, are the
  packets it accepted, one after the other (\<open>con_stream\<close>); a reader that gets these bytes in pieces of any size reads the same packets.
\<close>

section \<open>The list of priority packets\<close>

definition node_ok :: "TCP_Priority_List \<Rightarrow> bool" where
  "node_ok n \<longleftrightarrow> unat (pq_size n) = length (pq_data n) \<and> pq_sent n < pq_size n"

definition node_rest :: "TCP_Priority_List \<Rightarrow> bytes" where
  "node_rest n = drop (unat (pq_sent n)) (pq_data n)"

fun pq_seg :: "(nat \<rightharpoonup> TCP_Priority_List) \<Rightarrow> nat option \<Rightarrow> nat list \<Rightarrow> bool" where
  "pq_seg h p [] \<longleftrightarrow> p = None"
| "pq_seg h p (a # as) \<longleftrightarrow> p = Some a \<and> (\<exists>n. h a = Some n \<and> node_ok n \<and> pq_seg h (pq_next n) as)"

definition pq_bytes :: "(nat \<rightharpoonup> TCP_Priority_List) \<Rightarrow> nat list \<Rightarrow> bytes" where
  "pq_bytes h as = concat (map (\<lambda>a. node_rest (the (h a))) as)"

definition last_ok :: "TCP_Connection \<Rightarrow> bool" where
  "last_ok con \<longleftrightarrow> length (last_packet con) = 2 + MAX_PACKET_SIZE \<and> unat (last_packet_length con) \<le> 2 + MAX_PACKET_SIZE \<and>
     (last_packet_length con \<noteq> 0 \<longrightarrow> last_packet_sent con < last_packet_length con)"

definition last_rest :: "TCP_Connection \<Rightarrow> bytes" where
  "last_rest con = (if last_packet_length con = 0 then []
     else slice (unat (last_packet_sent con)) (unat (last_packet_length con) - unat (last_packet_sent con)) (last_packet con))"

definition queue_ok :: "TCP_Connection \<Rightarrow> nat list \<Rightarrow> bool" where
  "queue_ok con as \<longleftrightarrow> pq_seg (pq_heap con) (priority_queue_start con) as \<and> distinct as \<and> dom (pq_heap con) = set as \<and>
     priority_queue_end con = (if as = [] then None else Some (last as))"

definition con_stream :: "TCP_Connection \<Rightarrow> bytes \<Rightarrow> bool" where
  "con_stream con s \<longleftrightarrow> last_ok con \<and>
     (\<exists>as. queue_ok con as \<and> s = sk_wire (tc_sock con) @ last_rest con @ pq_bytes (pq_heap con) as)"

text \<open>Nothing is kept back.\<close>

definition con_idle :: "TCP_Connection \<Rightarrow> bool" where
  "con_idle con \<longleftrightarrow> last_packet_length con = 0 \<and> priority_queue_start con = None"

definition same_peer :: "TCP_Connection \<Rightarrow> TCP_Connection \<Rightarrow> bool" where
  "same_peer con con' \<longleftrightarrow> tc_shared_key con' = tc_shared_key con \<and> tc_sent_nonce con' = tc_sent_nonce con \<and>
     sk_send (tc_sock con') = sk_send (tc_sock con) \<and> tc_ns con' = tc_ns con"

definition send_ok :: "TCP_Connection \<Rightarrow> bool" where
  "send_ok con \<longleftrightarrow> tc_ns con \<and> (\<forall>n len. sk_send (tc_sock con) n len \<le> int len)"

lemma same_peer_refl [simp]: "same_peer con con"
  by (simp add: same_peer_def)

lemma same_peer_trans: "same_peer a b \<Longrightarrow> same_peer b c \<Longrightarrow> same_peer a c"
  by (simp add: same_peer_def)

lemma send_ok_same: "same_peer con con' \<Longrightarrow> send_ok con' = send_ok con"
  by (simp add: same_peer_def send_ok_def)

lemma con_send_eq:
  assumes "send_ok con"
  obtains len where "con_send con buf = Some (len, con\<lparr>tc_sock := (tc_sock con)\<lparr>sk_calls := sk_calls (tc_sock con) + 1,
      sk_wire := sk_wire (tc_sock con) @ take (nat len) buf\<rparr>\<rparr>)" "len \<le> int (length buf)"
  using assms by (auto simp: con_send_def net_send_def Let_def send_ok_def)

lemma unat_left: "b < (a :: u16) \<Longrightarrow> unat (a - b) = unat a - unat b"
  by (simp add: unat_sub less_imp_le)

lemma u16_advance:
  assumes "b < (a :: u16)" "0 < len" "len < uint (a - b)"
  shows "b + word_of_int len < a" "unat (b + word_of_int len) = unat b + nat len"
proof -
  have l: "nat len < unat a - unat b" using assms(2,3) unat_left [OF assms(1)] by (simp add: uint_nat)
  have w: "(word_of_int len :: u16) = of_nat (nat len)" using assms(2) by simp
  have small: "unat b + nat len < 2 ^ 16" proof -
    have "unat a < 2 ^ LENGTH(16)" by (rule unsigned_less)
    then show ?thesis using l by simp
  qed
  then have "unat (word_of_int len :: u16) = nat len" unfolding w by (simp add: unat_of_nat take_bit_eq_mod)
  with small show u: "unat (b + word_of_int len) = unat b + nat len" by (simp add: unat_word_ariths(1))
  show "b + word_of_int len < a" unfolding word_less_nat_alt u using l by simp
qed

lemma pq_seg_cong: "\<forall>a \<in> set as. h' a = h a \<Longrightarrow> pq_seg h' p as = pq_seg h p as"
  by (induction as arbitrary: p) auto

lemma pq_bytes_cong: "\<forall>a \<in> set as. h' a = h a \<Longrightarrow> pq_bytes h' as = pq_bytes h as"
  by (simp add: pq_bytes_def cong: map_cong)

lemma pq_bytes_simps [simp]: "pq_bytes h [] = []" "pq_bytes h (a # as) = node_rest (the (h a)) @ pq_bytes h as"
  by (simp_all add: pq_bytes_def)

lemma pq_bytes_append: "pq_bytes h (as @ bs) = pq_bytes h as @ pq_bytes h bs"
  by (simp add: pq_bytes_def)

lemma pq_seg_None: "pq_seg h None as = (as = [])"
  by (cases as) auto

lemma node_rest_send:
  assumes "node_ok n"
  shows "slice (unat (pq_sent n)) (unat (pq_size n - pq_sent n)) (pq_data n) = node_rest n" "length (node_rest n) = unat (pq_size n - pq_sent n)"
  using assms unat_left [of "pq_sent n" "pq_size n"] by (auto simp: node_ok_def node_rest_def slice_def)

section \<open>Sending what is pending\<close>

lemma send_nonpriority:
  assumes "send_ok con" "last_ok con"
  obtains r con' where "send_pending_data_nonpriority con = Some (r, con')" "r = 0 \<or> r = - 1" "same_peer con con'" "last_ok con'"
    "r = 0 \<longrightarrow> last_packet_length con' = 0"
    "sk_wire (tc_sock con') @ last_rest con' = sk_wire (tc_sock con) @ last_rest con"
    "pq_heap con' = pq_heap con" "priority_queue_start con' = priority_queue_start con" "priority_queue_end con' = priority_queue_end con"
proof (cases "last_packet_length con = 0")
  case True
  then show ?thesis using assms by (intro that [of 0 con]) (simp_all add: send_pending_data_nonpriority_def)
next
  case False
  let ?left = "last_packet_length con - last_packet_sent con"
  let ?buf = "slice (unat (last_packet_sent con)) (unat ?left) (last_packet con)"
  have lt: "last_packet_sent con < last_packet_length con" using assms(2) False by (simp add: last_ok_def)
  note left = unat_left [OF lt]
  have rest: "last_rest con = ?buf" using False left by (simp add: last_rest_def)
  have lenbuf: "length ?buf = unat ?left" using assms(2) left by (auto simp: slice_def last_ok_def)
  obtain len where s: "con_send con ?buf = Some (len, con\<lparr>tc_sock := (tc_sock con)\<lparr>sk_calls := sk_calls (tc_sock con) + 1,
      sk_wire := sk_wire (tc_sock con) @ take (nat len) ?buf\<rparr>\<rparr>)" (is "_ = Some (len, ?c)") and le: "len \<le> int (length ?buf)"
    using con_send_eq [OF assms(1)] by blast
  have le': "len \<le> uint ?left" using le lenbuf by simp
  consider "len \<le> 0" | "len = uint ?left" "0 < len" | "0 < len" "len < uint ?left" using le' by linarith
  then show ?thesis
  proof cases
    case 1
    then show ?thesis using s False assms(2) rest
      by (intro that [of "- 1" ?c]) (simp_all add: send_pending_data_nonpriority_def same_peer_def last_ok_def last_rest_def)
  next
    case 2
    let ?c' = "?c\<lparr>last_packet_length := 0, last_packet_sent := 0\<rparr>"
    have "nat len = length ?buf" using 2(1) lenbuf by (simp add: nat_uint_eq)
    then have all: "take (nat len) ?buf = ?buf" by simp
    have run: "send_pending_data_nonpriority con = Some (0, ?c')" using s False 2 by (simp add: send_pending_data_nonpriority_def Let_def)
    show ?thesis
      by (rule that [OF run]) (use assms(2) rest all in \<open>simp_all add: same_peer_def last_ok_def last_rest_def\<close>)
  next
    case 3
    note adv = u16_advance [OF lt 3]
    let ?c' = "?c\<lparr>last_packet_sent := last_packet_sent con + word_of_int len\<rparr>"
    have "int (unat ?left) = uint ?left" by simp
    then have n: "nat len < unat ?left" using 3 by linarith
    have r': "last_rest ?c' = drop (nat len) ?buf"
      using False adv(2) left n by (simp add: last_rest_def slice_def drop_take add.commute)
    show ?thesis using s False assms(2) rest 3 r' adv
      by (intro that [of "- 1" ?c']) (simp_all add: send_pending_data_nonpriority_def same_peer_def last_ok_def)
  qed
qed

lemma send_loop:
  assumes "send_ok con" "pq_seg (pq_heap con) p as" "distinct as" "dom (pq_heap con) = set as"
  obtains p' con' as' sks where "send_pending_loop p con = Some (p', con')" "same_peer con con'" "suffix as' as"
    "pq_seg (pq_heap con') p' as'" "dom (pq_heap con') = set as'"
    "sk_wire (tc_sock con') @ pq_bytes (pq_heap con') as' = sk_wire (tc_sock con) @ pq_bytes (pq_heap con) as"
    "con' = con\<lparr>tc_sock := tc_sock con', pq_heap := pq_heap con'\<rparr>"
  using assms
proof (induction as arbitrary: p con thesis)
  case Nil
  then show ?case by (intro Nil.prems(1) [of None con "[]"]) (simp_all add: send_pending_loop.simps)
next
  case (Cons a as)
  obtain n where p: "p = Some a" and n: "pq_heap con a = Some n" "node_ok n" "pq_seg (pq_heap con) (pq_next n) as" using Cons.prems(3) by auto
  let ?left = "pq_size n - pq_sent n"
  obtain len where s: "con_send con (node_rest n) = Some (len, con\<lparr>tc_sock := (tc_sock con)\<lparr>sk_calls := sk_calls (tc_sock con) + 1,
      sk_wire := sk_wire (tc_sock con) @ take (nat len) (node_rest n)\<rparr>\<rparr>)" (is "_ = Some (len, ?c)") and le: "len \<le> int (length (node_rest n))"
    using con_send_eq [OF Cons.prems(2)] by blast
  have a: "a \<notin> set as" "distinct as" using Cons.prems(4) by auto
  note step = send_pending_loop.simps [of p con]
  have frame: "\<And>h. same_peer con (?c\<lparr>pq_heap := h\<rparr>)" "same_peer con ?c" by (simp_all add: same_peer_def)
  have le': "len \<le> uint ?left" using le node_rest_send(2) [OF n(2)] by simp
  consider "len = uint ?left" | "len \<le> 0" "len \<noteq> uint ?left" | "0 < len" "len < uint ?left" using le' by linarith
  then show ?case
  proof cases
    case 1
    let ?c' = "?c\<lparr>pq_heap := (pq_heap con)(a := None)\<rparr>"
    have keep: "\<forall>b \<in> set as. ((pq_heap con)(a := None)) b = pq_heap con b" using a by auto
    have "nat len = length (node_rest n)" using 1 node_rest_send(2) [OF n(2)] by (simp add: nat_uint_eq)
    then have w: "sk_wire (tc_sock ?c') = sk_wire (tc_sock con) @ node_rest n" by simp
    have ih: "send_ok ?c'" "pq_seg (pq_heap ?c') (pq_next n) as" "dom (pq_heap ?c') = set as"
      using Cons.prems(2,5) a(1) n(3) by (auto simp: send_ok_def pq_seg_cong [OF keep])
    obtain p' con' as' where r: "send_pending_loop (pq_next n) ?c' = Some (p', con')" "same_peer ?c' con'" "suffix as' as"
      "pq_seg (pq_heap con') p' as'" "dom (pq_heap con') = set as'"
      "sk_wire (tc_sock con') @ pq_bytes (pq_heap con') as' = sk_wire (tc_sock ?c') @ pq_bytes (pq_heap ?c') as"
      "con' = ?c'\<lparr>tc_sock := tc_sock con', pq_heap := pq_heap con'\<rparr>"
      using Cons.IH [OF _ ih(1,2) a(2) ih(3)] by metis
    have run: "send_pending_loop p con = Some (p', con')"
      unfolding step using 1 s r(1) by (simp add: p n(1) node_rest_send(1) [OF n(2)])
    have eq: "con' = con\<lparr>tc_sock := tc_sock con', pq_heap := pq_heap con'\<rparr>" by (subst r(7)) simp
    show ?thesis
      by (rule Cons.prems(1) [OF run same_peer_trans [OF frame(1) r(2)] _ r(4,5) _ eq])
        (use r(3,6) w keep in \<open>simp_all add: suffix_ConsI pq_bytes_cong [OF keep] n(1)\<close>)
  next
    case 2
    have run: "send_pending_loop p con = Some (Some a, ?c)"
      unfolding step using 2 s by (simp add: p n(1) node_rest_send(1) [OF n(2)])
    show ?thesis by (rule Cons.prems(1) [OF run frame(2), of "a # as"]) (use Cons.prems(3,5) 2(1) p in \<open>simp_all\<close>)
  next
    case 3
    let ?n = "n\<lparr>pq_sent := pq_sent n + word_of_int len\<rparr>"
    let ?c' = "?c\<lparr>pq_heap := (pq_heap con)(a \<mapsto> ?n)\<rparr>"
    have lt: "pq_sent n < pq_size n" using n(2) by (simp add: node_ok_def)
    note adv = u16_advance [OF lt 3]
    have keep: "\<forall>b \<in> set as. ((pq_heap con)(a \<mapsto> ?n)) b = pq_heap con b" using a by auto
    have rest: "node_rest ?n = drop (nat len) (node_rest n)" using adv(2) by (simp add: node_rest_def add.commute)
    have run: "send_pending_loop p con = Some (Some a, ?c')"
      unfolding step using 3 s by (simp add: p n(1) node_rest_send(1) [OF n(2)])
    have "pq_seg ((pq_heap con)(a \<mapsto> ?n)) (Some a) (a # as)"
      using n(2,3) adv(1) by (simp add: pq_seg_cong [OF keep] node_ok_def)
    moreover have "pq_bytes ((pq_heap con)(a \<mapsto> ?n)) (a # as) = drop (nat len) (node_rest n) @ pq_bytes (pq_heap con) as"
      unfolding pq_bytes_simps pq_bytes_cong [OF keep] by (simp add: rest)
    moreover have "dom ((pq_heap con)(a \<mapsto> ?n)) = set (a # as)" using Cons.prems(5) by auto
    ultimately show ?thesis by (intro Cons.prems(1) [OF run frame(1), of "a # as"]) (simp_all add: n(1) del: fun_upd_apply)
  qed
qed

text \<open>Sending what is pending returns and keeps the stream; with the result 0 nothing is left.\<close>

lemma send_pending:
  assumes "send_ok con" "con_stream con s"
  obtains r con' where "send_pending_data con = Some (r, con')" "r = 0 \<or> r = - 1" "same_peer con con'" "con_stream con' s" "r = 0 \<longrightarrow> con_idle con'"
    "dom (pq_heap con') \<subseteq> dom (pq_heap con)"
proof -
  obtain as where as: "queue_ok con as" "s = sk_wire (tc_sock con) @ last_rest con @ pq_bytes (pq_heap con) as" and l: "last_ok con"
    using assms(2) by (auto simp: con_stream_def)
  obtain r c1 where r: "send_pending_data_nonpriority con = Some (r, c1)" "r = 0 \<or> r = - 1" "same_peer con c1" "last_ok c1" "r = 0 \<longrightarrow> last_packet_length c1 = 0"
    "sk_wire (tc_sock c1) @ last_rest c1 = sk_wire (tc_sock con) @ last_rest con"
    "pq_heap c1 = pq_heap con" "priority_queue_start c1 = priority_queue_start con" "priority_queue_end c1 = priority_queue_end con"
    using send_nonpriority [OF assms(1) l] by blast
  have q1: "queue_ok c1 as" using as(1) r(7-9) by (simp add: queue_ok_def)
  have s1: "s = sk_wire (tc_sock c1) @ last_rest c1 @ pq_bytes (pq_heap c1) as" using as(2) r(6,7) by (metis append.assoc)
  show ?thesis
  proof (cases "r = - 1")
    case True
    then show ?thesis using r(1,3,4,7) q1 s1 by (intro that [of "- 1" c1]) (auto simp: send_pending_data_def con_stream_def)
  next
    case False
    then have r0: "r = 0" "last_packet_length c1 = 0" using r(2,5) by auto
    obtain p' c2 as' where c2: "send_pending_loop (priority_queue_start c1) c1 = Some (p', c2)" "same_peer c1 c2" "suffix as' as"
      "pq_seg (pq_heap c2) p' as'" "dom (pq_heap c2) = set as'"
      "sk_wire (tc_sock c2) @ pq_bytes (pq_heap c2) as' = sk_wire (tc_sock c1) @ pq_bytes (pq_heap c1) as"
      "c2 = c1\<lparr>tc_sock := tc_sock c2, pq_heap := pq_heap c2\<rparr>"
      using send_loop [of c1 "priority_queue_start c1" as] q1 assms(1) send_ok_same [OF r(3)] unfolding queue_ok_def by metis
    let ?c3 = "c2\<lparr>priority_queue_start := p'\<rparr>"
    have f: "last_packet c2 = last_packet c1" "last_packet_length c2 = 0" "last_packet_sent c2 = last_packet_sent c1" "priority_queue_end c2 = priority_queue_end c1"
      by (subst c2(7), simp add: r0)+
    have d: "distinct as'" using c2(3) q1 by (auto simp: queue_ok_def suffix_def)
    have e: "as' \<noteq> [] \<longrightarrow> priority_queue_end c2 = Some (last as')" using c2(3) q1 f(4) by (auto simp: queue_ok_def suffix_def)
    have ok: "last_ok ?c3" using r(4) f by (simp add: last_ok_def)
    have st: "s = sk_wire (tc_sock c2) @ pq_bytes (pq_heap c2) as'" using s1 r0(2) c2(6) by (simp add: last_rest_def)
    have pr: "same_peer con ?c3" using same_peer_trans [OF r(3) c2(2)] by (simp add: same_peer_def)
    have sub: "dom (pq_heap ?c3) \<subseteq> dom (pq_heap con)" using c2(3,5) as(1) set_mono_suffix by (auto simp: queue_ok_def)
    show ?thesis
    proof (cases p')
      case None
      then have "as' = []" using c2(4) by (simp add: pq_seg_None)
      then show ?thesis using None r(1) r0 c2(1,4,5) ok st pr sub f
        by (intro that [of 0 "?c3\<lparr>priority_queue_end := None\<rparr>"])
          (simp_all add: send_pending_data_def con_stream_def last_ok_def last_rest_def con_idle_def queue_ok_def same_peer_def)
    next
      case (Some a)
      then have ne: "as' \<noteq> []" using c2(4) by auto
      then have q: "queue_ok ?c3 as'" using c2(4,5) d e by (simp add: queue_ok_def)
      show ?thesis using Some r(1) r0 c2(1) pr ok q st sub f
        by (intro that [of "- 1" ?c3]) (auto simp: send_pending_data_def con_stream_def last_rest_def)
    qed
  qed
qed

lemma pq_seg_snoc:
  assumes "pq_seg h p as" "distinct as" "new \<notin> set as" "node_ok n" "pq_next n = None" "as \<noteq> []" "h (last as) = Some l" "new \<notin> dom h"
  shows "pq_seg (h(new \<mapsto> n, last as \<mapsto> l\<lparr>pq_next := Some new\<rparr>)) p (as @ [new])"
  using assms
proof (induction as arbitrary: p)
  case (Cons a as)
  obtain x where x: "p = Some a" "h a = Some x" "node_ok x" "pq_seg h (pq_next x) as" using Cons.prems(1) by auto
  show ?case
  proof (cases "as = []")
    case True
    then show ?thesis using x Cons.prems by (auto simp: node_ok_def)
  next
    case False
    then have "last as \<noteq> a" using Cons.prems(2) last_in_set by auto
    then show ?thesis using Cons.IH [OF x(4)] Cons.prems False x(1-3) by auto
  qed
qed simp

text \<open>A packet of which a part is sent already is put at the end of the list.\<close>

lemma add_priority_stream:
  assumes "box_platform P" "con_stream con s" "new \<notin> dom (pq_heap con)" "length packet < 2 ^ 16" "unat k < length packet"
  obtains con' where "add_priority P (Some new) con packet k = Some (True, con')" "con_stream con' (s @ drop (unat k) packet)" "same_peer con con'"
proof -
  let ?n = "\<lparr>pq_next = None, pq_size = of_nat (length packet), pq_sent = k, pq_data = packet\<rparr>"
  obtain as where as: "queue_ok con as" "s = sk_wire (tc_sock con) @ last_rest con @ pq_bytes (pq_heap con) as" and l: "last_ok con"
    using assms(2) by (auto simp: con_stream_def)
  have new: "new \<notin> set as" using as(1) assms(3) by (simp add: queue_ok_def)
  have "unat (of_nat (length packet) :: u16) = length packet" using assms(4) by (simp add: unat_of_nat take_bit_eq_mod)
  then have ok: "node_ok ?n" "node_rest ?n = drop (unat k) packet" using assms(5) by (simp_all add: node_ok_def node_rest_def word_less_nat_alt)
  note mem = box_platform.memory [OF assms(1)]
  show ?thesis
  proof (cases "as = []")
    case True
    let ?c = "con\<lparr>pq_heap := (pq_heap con)(new \<mapsto> ?n), priority_queue_start := Some new, priority_queue_end := Some new\<rparr>"
    have "add_priority P (Some new) con packet k = Some (True, ?c)" using True as(1) by (simp add: add_priority_def mem queue_ok_def)
    moreover have "queue_ok ?c [new]" using True as(1) ok(1) by (simp add: queue_ok_def)
    ultimately show ?thesis using as(2) l True ok(2)
      by (intro that [of ?c]) (auto simp: con_stream_def last_ok_def last_rest_def same_peer_def intro!: exI [of _ "[new]"])
  next
    case False
    let ?e = "last as"
    have q: "pq_seg (pq_heap con) (priority_queue_start con) as" "distinct as" "dom (pq_heap con) = set as" "priority_queue_end con = Some ?e"
      using as(1) False by (simp_all add: queue_ok_def)
    obtain x where x: "pq_heap con ?e = Some x" using q(3) last_in_set [OF False] by blast
    have ne: "?e \<noteq> new" using new last_in_set [OF False] by auto
    let ?h = "(pq_heap con)(new \<mapsto> ?n, ?e \<mapsto> x\<lparr>pq_next := Some new\<rparr>)"
    let ?c = "con\<lparr>pq_heap := ?h, priority_queue_end := Some new\<rparr>"
    have run: "add_priority P (Some new) con packet k = Some (True, ?c)" using ne x q(4) by (simp add: add_priority_def mem)
    have "pq_seg ?h (priority_queue_start con) (as @ [new])" by (rule pq_seg_snoc [OF q(1,2) new ok(1) _ False x assms(3)]) simp
    moreover have "dom ?h = set (as @ [new])" using q(3) last_in_set [OF False] by auto
    ultimately have qc: "queue_ok ?c (as @ [new])" using q(2) new by (simp add: queue_ok_def)
    have "node_rest (the (?h a)) = node_rest (the (pq_heap con a))" if "a \<in> set as" for a
      using that new x by (auto simp: node_rest_def)
    then have "pq_bytes ?h as = pq_bytes (pq_heap con) as" by (simp add: pq_bytes_def cong: map_cong)
    then have "pq_bytes ?h (as @ [new]) = pq_bytes (pq_heap con) as @ drop (unat k) packet" using ne ok(2) by (simp add: pq_bytes_append)
    then have "con_stream ?c (s @ drop (unat k) packet)"
      unfolding con_stream_def using qc as(2) l by (auto simp: last_ok_def last_rest_def simp del: fun_upd_apply intro!: exI [of _ "as @ [new]"])
    then show ?thesis using run by (intro that [of ?c]) (simp_all add: same_peer_def)
  qed
qed

text \<open>Destroying a connection frees every node.\<close>

lemma wipe_priority_list_frees:
  assumes "pq_seg h p as" "distinct as"
  shows "wipe_priority_list h p = Some (h |` (- set as))"
  using assms
proof (induction as arbitrary: h p)
  case (Cons a as)
  obtain n where n: "p = Some a" "h a = Some n" "pq_seg h (pq_next n) as" using Cons.prems(1) by auto
  have keep: "\<forall>b \<in> set as. (h(a := None)) b = h b" using Cons.prems(2) by auto
  have "pq_seg (h(a := None)) (pq_next n) as" using n(3) by (simp add: pq_seg_cong [OF keep])
  moreover have "(h(a := None)) |` (- set as) = h |` (- set (a # as))" by (auto simp: restrict_map_def)
  ultimately show ?case using Cons.IH [of "h(a := None)" "pq_next n"] Cons.prems(2) n(1,2)
    by (subst wipe_priority_list.simps) (simp del: fun_upd_apply)
qed (simp add: wipe_priority_list.simps restrict_map_def)

section \<open>Writing packets\<close>

definition packet_frame :: "platform \<Rightarrow> bytes \<Rightarrow> bytes \<Rightarrow> bytes \<Rightarrow> bytes" where
  "packet_frame P key nonce data =
     host_bytes 2 (net_htons (of_nat (length data + CRYPTO_MAC_SIZE))) @ the (encrypt_data_symmetric P (Some key) nonce data)"

text \<open>Something is pending only if the socket did not take it.\<close>

lemma con_stream_idle: "con_idle con \<Longrightarrow> con_stream con s \<Longrightarrow> s = sk_wire (tc_sock con) \<and> pq_heap con = Map.empty \<and> last_ok con \<and> priority_queue_end con = None"
  by (auto simp: con_stream_def con_idle_def queue_ok_def pq_seg_None last_rest_def)

lemma con_stream_send:
  assumes "con_idle con" "con_stream con s"
  shows "con_stream (con\<lparr>tc_sock := (tc_sock con)\<lparr>sk_calls := n, sk_wire := sk_wire (tc_sock con) @ bs\<rparr>\<rparr>) (s @ bs)"
proof -
  obtain as where "queue_ok con as" "s = sk_wire (tc_sock con) @ last_rest con @ pq_bytes (pq_heap con) as" "last_ok con"
    using assms(2) by (auto simp: con_stream_def)
  moreover have "as = []" "last_rest con = []" using calculation(1) assms(1) by (simp_all add: queue_ok_def con_idle_def pq_seg_None last_rest_def)
  ultimately show ?thesis by (auto simp: con_stream_def queue_ok_def last_ok_def last_rest_def)
qed

lemma con_stream_nonce: "con_stream (con\<lparr>tc_sent_nonce := n\<rparr>) s = con_stream con s"
  by (simp add: con_stream_def queue_ok_def last_ok_def last_rest_def)

lemma con_stream_last:
  assumes "con_idle con" "con_stream con s" "length packet \<le> 2 + MAX_PACKET_SIZE" "0 < len" "len < int (length packet)"
  shows "con_stream (con\<lparr>last_packet := packet @ drop (length packet) (last_packet con), last_packet_length := of_nat (length packet),
      last_packet_sent := word_of_int len\<rparr>) (s @ drop (nat len) packet)" (is "con_stream ?c _")
proof -
  obtain as where as: "queue_ok con as" "s = sk_wire (tc_sock con) @ last_rest con @ pq_bytes (pq_heap con) as" "last_ok con"
    using assms(2) by (auto simp: con_stream_def)
  have e: "as = []" "last_rest con = []" using as(1) assms(1) by (simp_all add: queue_ok_def con_idle_def pq_seg_None last_rest_def)
  have u: "unat (of_nat (length packet) :: u16) = length packet" using assms(3) by (simp add: unat_of_nat take_bit_eq_mod size_defs)
  have "(word_of_int len :: u16) = of_nat (nat len)" using assms(4) by simp
  then have k: "unat (word_of_int len :: u16) = nat len" using assms(3,5) by (simp add: unat_of_nat take_bit_eq_mod size_defs)
  have nz: "(of_nat (length packet) :: u16) \<noteq> 0" 
  proof
    assume "(of_nat (length packet) :: u16) = 0"
    then have "length packet = 0" using u by simp
    then show False using assms(4,5) by simp
  qed
  have "last_rest ?c = drop (nat len) packet" using nz u k by (simp add: last_rest_def slice_def)
  moreover have "nat len < length packet" using assms(4,5) by linarith
  then have "last_ok ?c" using as(3) assms(3) u k by (simp add: last_ok_def word_less_nat_alt)
  ultimately show ?thesis unfolding con_stream_def using as(1,2) e by (auto simp: queue_ok_def intro!: exI [of _ as])
qed

definition sendable :: "bytes \<Rightarrow> bool" where
  "sendable data \<longleftrightarrow> data \<noteq> [] \<and> length data + CRYPTO_MAC_SIZE \<le> MAX_PACKET_SIZE"

lemma packet_frame_enc:
  assumes "box_platform P" "sendable data"
  obtains c where "encrypt_data_symmetric P (Some key) nonce data = Some c" "length c = length data + CRYPTO_MAC_SIZE"
    "decrypt_data_symmetric P (Some key) nonce c = Some data"
    "packet_frame P key nonce data = host_bytes 2 (net_htons (of_nat (length data + CRYPTO_MAC_SIZE))) @ c"
    "length (packet_frame P key nonce data) \<le> 2 + MAX_PACKET_SIZE" "packet_frame P key nonce data \<noteq> []"
proof -
  obtain c where "encrypt_data_symmetric P (Some key) nonce data = Some c" "length c = length data + 16" "decrypt_data_symmetric P (Some key) nonce c = Some data"
    using box_platform.encrypt_decrypt [OF assms(1), of data key nonce] assms(2) by (auto simp: sendable_def)
  then show ?thesis using assms(2) by (intro that [of c]) (auto simp: packet_frame_def sendable_def size_defs)
qed

text \<open>A packet is accepted whole, in which case it is at the end of the stream, or the stream stays as it is; a priority packet is always accepted.\<close>

lemma write_packet:
  assumes "box_platform P" "send_ok con" "con_stream con s" "a \<notin> dom (pq_heap con)"
  obtains r con' where "write_packet_TCP_secure_connection P (Some a) con data priority = Some (r, con')"
    "tc_shared_key con' = tc_shared_key con" "sk_send (tc_sock con') = sk_send (tc_sock con) \<and> tc_ns con' = tc_ns con"
    "r = 1 \<and> sendable data \<and> con_stream con' (s @ packet_frame P (tc_shared_key con) (tc_sent_nonce con) data) \<and>
       tc_sent_nonce con' = increment_nonce (tc_sent_nonce con) \<or>
     (r = 0 \<or> r = - 1) \<and> \<not> (priority \<and> sendable data) \<and> con_stream con' s \<and> tc_sent_nonce con' = tc_sent_nonce con"
proof (cases "length data + CRYPTO_MAC_SIZE > MAX_PACKET_SIZE")
  case True
  then show ?thesis using assms(3) by (intro that [of "- 1" con]) (auto simp: write_packet_TCP_secure_connection_def sendable_def)
next
  case small: False
  obtain pr c1 where c1: "send_pending_data con = Some (pr, c1)" "pr = 0 \<or> pr = - 1" "same_peer con c1" "con_stream c1 s" "pr = 0 \<longrightarrow> con_idle c1"
    "dom (pq_heap c1) \<subseteq> dom (pq_heap con)" using send_pending [OF assms(2,3)] by blast
  note peer = c1(3) [unfolded same_peer_def]
  note run = write_packet_TCP_secure_connection_def [of P "Some a" con data priority] c1(1)
  consider "pr = - 1" "\<not> priority" | "pr = - 1 \<longrightarrow> priority" "data = []" | "pr = - 1 \<longrightarrow> priority" "data \<noteq> []" by blast
  then show ?thesis
  proof cases
    case 1
    then show ?thesis using run small peer c1(4) by (intro that [of 0 c1]) simp_all
  next
    case 2
    then show ?thesis using run small peer c1(4)
      by (intro that [of "- 1" c1]) (auto simp: encrypt_data_symmetric_def sendable_def)
  next
    case 3
    then have sd: "sendable data" using small by (simp add: sendable_def)
    let ?key = "tc_shared_key con" and ?nonce = "tc_sent_nonce con"
    let ?pkt = "packet_frame P ?key ?nonce data"
    obtain c where c: "encrypt_data_symmetric P (Some ?key) ?nonce data = Some c" "length c = length data + CRYPTO_MAC_SIZE"
      "?pkt = host_bytes 2 (net_htons (of_nat (length data + CRYPTO_MAC_SIZE))) @ c" "length ?pkt \<le> 2 + MAX_PACKET_SIZE" "?pkt \<noteq> []"
      using packet_frame_enc [OF assms(1) sd] by metis
    obtain len where sent: "con_send c1 ?pkt = Some (len, c1\<lparr>tc_sock := (tc_sock c1)\<lparr>sk_calls := sk_calls (tc_sock c1) + 1,
        sk_wire := sk_wire (tc_sock c1) @ take (nat len) ?pkt\<rparr>\<rparr>)" (is "_ = Some (len, ?c2)") and le: "len \<le> int (length ?pkt)"
      using con_send_eq [of c1] assms(2) send_ok_same [OF c1(3)] by metis
    let ?n = "\<lambda>con. con\<lparr>tc_sent_nonce := increment_nonce ?nonce\<rparr>"
    have packet: "host_bytes 2 (net_htons (of_nat (length data + CRYPTO_MAC_SIZE))) @ c = ?pkt" using c(3) by simp
    show ?thesis
    proof (cases priority)
      case True
      define x where "x = (if pr = 0 then ?c2 else c1)"
      define l where "l = (if pr = 0 \<and> 0 < len then len else 0)"
      have x: "con_stream (?n x) (s @ take (nat l) ?pkt)" "a \<notin> dom (pq_heap (?n x))" "tc_shared_key x = ?key" "tc_sent_nonce x = ?nonce" "sk_send (tc_sock x) = sk_send (tc_sock con) \<and> tc_ns x = tc_ns con"
        using con_stream_send [of c1 s "take (nat len) ?pkt" "sk_calls (tc_sock c1) + 1"] c1(2,4,5,6) peer assms(4)
        by (auto simp: x_def l_def con_stream_nonce)
      have l: "0 \<le> l" "l \<le> int (length ?pkt)" using le by (auto simp: l_def)
      have res: "write_packet_TCP_secure_connection P (Some a) con data priority =
          (if l = int (length ?pkt) then Some (1, ?n x)
           else do { (ok, con) \<leftarrow> add_priority P (Some a) (?n x) ?pkt (word_of_int l); Some (if ok then 1 else 0, con) })"
        using run small peer True c(1,2,5) c1(2) sent by (auto simp: packet Let_def x_def l_def simp del: append_assoc of_nat_add)
      show ?thesis
      proof (cases "l = int (length ?pkt)")
        case True
        then show ?thesis using res x sd by (intro that [of 1 "?n x"]) simp_all
      next
        case False
        then have lt: "nat l < length ?pkt" using l by linarith
        have "(word_of_int l :: u16) = of_nat (nat l)" using l(1) by simp
        then have k: "unat (word_of_int l :: u16) = nat l" using lt c(4) by (simp add: unat_of_nat take_bit_eq_mod size_defs)
        obtain con' where "add_priority P (Some a) (?n x) ?pkt (word_of_int l) = Some (True, con')"
          "con_stream con' ((s @ take (nat l) ?pkt) @ drop (nat l) ?pkt)" "same_peer (?n x) con'"
          using add_priority_stream [OF assms(1) x(1,2), of ?pkt "word_of_int l"] c(4) lt k by (auto simp: size_defs)
        then show ?thesis using res False x sd by (intro that [of 1 con']) (simp_all add: same_peer_def)
      qed
    next
      case False
      then have idle: "pr = 0" "con_idle c1" using 3 c1(2,5) by auto
      have idle2: "con_idle (?n ?c2)" using idle(2) by (simp add: con_idle_def)
      note st = con_stream_send [OF idle(2) c1(4), of "take (nat len) ?pkt" "sk_calls (tc_sock c1) + 1"]
      have res: "write_packet_TCP_secure_connection P (Some a) con data priority =
          (if len \<le> 0 then Some (0, ?c2) else if len = int (length ?pkt) then Some (1, ?n ?c2)
           else Some (1, (?n ?c2)\<lparr>last_packet := ?pkt @ drop (length ?pkt) (last_packet (?n ?c2)),
                last_packet_length := of_nat (length ?pkt), last_packet_sent := word_of_int len\<rparr>))"
        using run small peer idle(1) False c(1,2) sent by (simp add: packet Let_def del: append_assoc of_nat_add)
      consider "len \<le> 0" | "len = int (length ?pkt)" "0 < len" | "0 < len" "len < int (length ?pkt)" using le by linarith
      then show ?thesis
      proof cases
        case 1
        then show ?thesis using res st peer False by (intro that [of 0 ?c2]) simp_all
      next
        case 2
        then show ?thesis using res st peer sd by (intro that [of 1 "?n ?c2"]) (simp_all add: con_stream_nonce)
      next
        case 3
        have "con_stream (?n ?c2) (s @ take (nat len) ?pkt)" using st by (simp add: con_stream_nonce)
        note st' = con_stream_last [OF idle2 this c(4) 3]
        have run': "write_packet_TCP_secure_connection P (Some a) con data priority = Some (1, (?n ?c2)\<lparr>last_packet := ?pkt @ drop (length ?pkt) (last_packet (?n ?c2)),
            last_packet_length := of_nat (length ?pkt), last_packet_sent := word_of_int len\<rparr>)" using res 3 by simp
        show ?thesis by (rule that [OF run']) (use st' peer sd in simp_all)
      qed
    qed
  qed
qed

section \<open>Reading packets\<close>

fun frames :: "platform \<Rightarrow> bytes \<Rightarrow> bytes \<Rightarrow> bytes list \<Rightarrow> bytes" where
  "frames P key nonce [] = []"
| "frames P key nonce (p # ps) = packet_frame P key nonce p @ frames P key (increment_nonce nonce) ps"

definition nonce_after :: "bytes \<Rightarrow> nat \<Rightarrow> bytes" where
  "nonce_after nonce n = (increment_nonce ^^ n) nonce"

lemma nonce_after_simps [simp]: "nonce_after nonce 0 = nonce" "nonce_after nonce (Suc n) = increment_nonce (nonce_after nonce n)"
  by (simp_all add: nonce_after_def)

lemma nonce_after_shift: "nonce_after (increment_nonce nonce) n = increment_nonce (nonce_after nonce n)"
  by (induction n) simp_all

lemma frames_append: "frames P key nonce (ps @ qs) = frames P key nonce ps @ frames P key (nonce_after nonce (length ps)) qs"
  by (induction ps arbitrary: nonce) (simp_all add: nonce_after_shift)

text \<open>The bytes \<open>u\<close> that a reader has not read yet are the packets \<open>ps\<close>, of which it may have read the length of the first.\<close>

definition expects :: "platform \<Rightarrow> bytes \<Rightarrow> tcp_reader \<Rightarrow> bytes \<Rightarrow> bytes list \<Rightarrow> bool" where
  "expects P key r u ps \<longleftrightarrow> list_all sendable ps \<and>
     (if next_packet_length r = 0 then u = frames P key (rd_nonce r) ps
      else \<exists>p qs. ps = p # qs \<and> unat (next_packet_length r) = length p + CRYPTO_MAC_SIZE \<and>
             u = the (encrypt_data_symmetric P (Some key) (rd_nonce r) p) @ frames P key (increment_nonce (rd_nonce r)) qs)"

lemma recv_buffer_le:
  assumes "stream_socket send (sk_recv sock) (sk_count sock)"
  shows "unat (net_socket_data_recv_buffer sock) = min (nat (sk_count sock (sk_calls sock) (length (sk_in sock)))) 65535"
    "unat (net_socket_data_recv_buffer sock) \<le> length (sk_in sock)"
proof -
  let ?c = "sk_count sock (sk_calls sock) (length (sk_in sock))"
  have c: "0 \<le> ?c" "?c \<le> int (length (sk_in sock))" "?c < 2 ^ 31" using stream_socket.count_le [OF assms] by auto
  define n where "n = nat ?c"
  have n: "?c = int n" "n < 2 ^ 31" using c by (simp_all add: n_def)
  have s: "sint (word_of_nat n :: 32 word) = int n" using n(2) by (simp add: signed_of_nat signed_take_bit_int_eq_self)
  show e: "unat (net_socket_data_recv_buffer sock) = min (nat ?c) 65535"
  proof (cases "n < 65535")
    case True
    then have "min_s32 (word_of_nat n) 0xffff = word_of_nat n" "max_s32 0 (word_of_nat n) = word_of_nat n" using s by (auto simp: min_s32_def max_s32_def)
    then have "net_socket_data_recv_buffer sock = ucast (word_of_nat n :: 32 word)" using n(1) by (simp add: net_socket_data_recv_buffer_def)
    then show ?thesis using True n(1) by (simp add: unsigned_ucast_eq unat_of_nat take_bit_eq_mod)
  next
    case False
    then have "net_socket_data_recv_buffer sock = 0xffff" using n(1) s by (simp add: net_socket_data_recv_buffer_def max_s32_def min_s32_def)
    then show ?thesis using False n(1) by simp
  qed
  show "unat (net_socket_data_recv_buffer sock) \<le> length (sk_in sock)" unfolding e using c by linarith
qed

lemma net_recv_all:
  assumes "stream_socket send (sk_recv sock) (sk_count sock)" "0 < len" "len \<le> unat (net_socket_data_recv_buffer sock)"
  shows "net_recv sock len = (int len, take len (sk_in sock), sock\<lparr>sk_calls := sk_calls sock + 1, sk_in := drop len (sk_in sock)\<rparr>)"
    "len \<le> length (sk_in sock)"
proof -
  show le: "len \<le> length (sk_in sock)" using recv_buffer_le(2) [OF assms(1)] assms(3) by simp
  show "net_recv sock len = (int len, take len (sk_in sock), sock\<lparr>sk_calls := sk_calls sock + 1, sk_in := drop len (sk_in sock)\<rparr>)"
    using stream_socket.recv_all [OF assms(1,2) le] by (simp add: net_recv_def)
qed

lemma unpack_length: "net_unpack_u16 (host_bytes 2 (net_htons v)) = v"
proof -
  have "host_bytes 2 (net_htons v) = rev (host_bytes 2 v)" unfolding net_htons_def by (rule host_bytes_host_word) simp_all
  also have "\<dots> = net_pack_u16 v"
    by (simp add: net_pack_u16_def host_bytes_Suc numeral_2_eq_2 host_bytes_def) (auto intro!: bit_word_eqI simp: bit_simps word_masks bit_beyond)
  finally show ?thesis using unpack_pack_u16 [of v "[]"] by simp
qed

lemma frames_Cons_bytes:
  assumes "inb @ f = packet_frame P key nonce p @ rest" "2 \<le> length inb"
  shows "take 2 inb = host_bytes 2 (net_htons (of_nat (length p + CRYPTO_MAC_SIZE)))"
    "drop 2 inb @ f = the (encrypt_data_symmetric P (Some key) nonce p) @ rest"
proof -
  have "take 2 (inb @ f) = take 2 (packet_frame P key nonce p @ rest)" "drop 2 (inb @ f) = drop 2 (packet_frame P key nonce p @ rest)" by (simp_all only: assms(1))
  then show "take 2 inb = host_bytes 2 (net_htons (of_nat (length p + CRYPTO_MAC_SIZE)))"
    "drop 2 inb @ f = the (encrypt_data_symmetric P (Some key) nonce p) @ rest" using assms(2) by (simp_all add: packet_frame_def)
qed

lemma read_length:
  assumes "stream_socket send (sk_recv (rd_sock r)) (sk_count (rd_sock r))" "next_packet_length r = 0" "expects P key r (sk_in (rd_sock r) @ f) ps"
  obtains "unat (net_socket_data_recv_buffer (rd_sock r)) < 2" "read_TCP_length (rd_sock r) = (0, rd_sock r)"
  | len sock where "2 \<le> unat (net_socket_data_recv_buffer (rd_sock r))" "read_TCP_length (rd_sock r) = (len, sock)" "len \<noteq> 0" "len \<noteq> - 1"
      "expects P key (r\<lparr>rd_sock := sock, next_packet_length := len\<rparr>) (sk_in sock @ f) ps"
      "sk_recv sock = sk_recv (rd_sock r)" "sk_count sock = sk_count (rd_sock r)" "sk_calls sock = sk_calls (rd_sock r) + 1" "sk_in sock = drop 2 (sk_in (rd_sock r))"
proof (cases "2 \<le> unat (net_socket_data_recv_buffer (rd_sock r))")
  case False
  then show ?thesis using that(1) by (simp add: read_TCP_length_def word_le_nat_alt)
next
  case True
  let ?sock = "rd_sock r"
  note recv = net_recv_all [OF assms(1) _ True]
  have u: "sk_in ?sock @ f = frames P key (rd_nonce r) ps" "list_all sendable ps" using assms(2,3) by (simp_all add: expects_def)
  have "ps \<noteq> []" using u(1) recv(2) by auto
  then obtain p qs where ps: "ps = p # qs" by (cases ps) auto
  let ?len = "of_nat (length p + CRYPTO_MAC_SIZE) :: u16"
  note bytes = frames_Cons_bytes [of "sk_in ?sock" f P key "rd_nonce r" p "frames P key (increment_nonce (rd_nonce r)) qs"]
  have b: "take 2 (sk_in ?sock) = host_bytes 2 (net_htons ?len)"
    "drop 2 (sk_in ?sock) @ f = the (encrypt_data_symmetric P (Some key) (rd_nonce r) p) @ frames P key (increment_nonce (rd_nonce r)) qs"
    using bytes u(1) ps recv(2) by simp_all
  have small: "length p + CRYPTO_MAC_SIZE \<le> MAX_PACKET_SIZE" using u(2) ps by (simp add: sendable_def)
  then have un: "unat ?len = length p + CRYPTO_MAC_SIZE" unfolding unat_of_nat by (simp add: take_bit_eq_mod size_defs)
  have read: "read_TCP_length ?sock = (?len, ?sock\<lparr>sk_calls := sk_calls ?sock + 1, sk_in := drop 2 (sk_in ?sock)\<rparr>)"
    using True recv(1) small un by (simp add: read_TCP_length_def word_le_nat_alt b(1) unpack_length del: of_nat_add)
  have nz: "?len \<noteq> 0" "?len \<noteq> - 1"
    using un small by (auto simp del: of_nat_add simp: size_defs unsigned_minus_1_eq_mask mask_eq_exp_minus_1)
  show ?thesis
    by (rule that(2) [OF True read nz]) (use u(2) ps un b(2) nz(1) in \<open>simp_all add: expects_def del: of_nat_add\<close>)
qed

definition read_step :: "platform \<Rightarrow> bytes \<Rightarrow> bytes \<Rightarrow> bytes list \<Rightarrow> tcp_reader \<Rightarrow> tcp_read \<Rightarrow> tcp_reader \<Rightarrow> bool" where
  "read_step P key f ps r x r' \<longleftrightarrow> sk_recv (rd_sock r') = sk_recv (rd_sock r) \<and> sk_count (rd_sock r') = sk_count (rd_sock r) \<and>
     (x = Nothing \<and> expects P key r' (sk_in (rd_sock r') @ f) ps \<and> rd_nonce r' = rd_nonce r \<or>
      (\<exists>p qs. ps = p # qs \<and> x = Packet p \<and> expects P key r' (sk_in (rd_sock r') @ f) qs \<and> rd_nonce r' = increment_nonce (rd_nonce r)))"

text \<open>\<^verbatim>\<open>FIONREAD\<close> counts all bytes that arrived.\<close>

definition exact_count :: "Sock \<Rightarrow> bool" where
  "exact_count sock \<longleftrightarrow> (\<forall>n avail. sk_count sock n avail = int (min avail (2 ^ 31 - 1)))"

lemma exact_recv_buffer:
  assumes "stream_socket send (sk_recv sock) (sk_count sock)" "exact_count sock"
  shows "unat (net_socket_data_recv_buffer sock) = min (length (sk_in sock)) 65535"
  using recv_buffer_le(1) [OF assms(1)] assms(2) by (auto simp: exact_count_def)

lemma read_body:
  assumes "box_platform P" "stream_socket send (sk_recv (rd_sock r)) (sk_count (rd_sock r))" "expects P key r (sk_in (rd_sock r) @ f) ps"
    and "MAX_PACKET_SIZE \<le> max_len + CRYPTO_MAC_SIZE" "next_packet_length r \<noteq> 0"
  shows "read_step P key f ps r (fst (read_packet_TCP_secure_connection P key max_len r)) (snd (read_packet_TCP_secure_connection P key max_len r))"
    "exact_count (rd_sock r) \<and> f = [] \<longrightarrow> fst (read_packet_TCP_secure_connection P key max_len r) \<noteq> Nothing"
proof -
  let ?sock = "rd_sock r" and ?len = "unat (next_packet_length r)"
  obtain p qs where ps: "ps = p # qs" "?len = length p + CRYPTO_MAC_SIZE"
    "sk_in ?sock @ f = the (encrypt_data_symmetric P (Some key) (rd_nonce r) p) @ frames P key (increment_nonce (rd_nonce r)) qs"
    "list_all sendable (p # qs)"
    using assms(3,5) by (auto simp: expects_def)
  have sd: "sendable p" using ps(4) by simp
  obtain c where c: "encrypt_data_symmetric P (Some key) (rd_nonce r) p = Some c" "length c = length p + CRYPTO_MAC_SIZE"
    "decrypt_data_symmetric P (Some key) (rd_nonce r) c = Some p" using packet_frame_enc [OF assms(1) sd] by metis
  have pos: "0 < ?len" "\<not> max_len + CRYPTO_MAC_SIZE < ?len" using ps(2) sd assms(4) by (simp_all add: sendable_def size_defs)
  note run = read_packet_TCP_secure_connection_def [of P key max_len r]
  have "read_step P key f ps r (fst (read_packet_TCP_secure_connection P key max_len r)) (snd (read_packet_TCP_secure_connection P key max_len r)) \<and>
    (exact_count ?sock \<and> f = [] \<longrightarrow> fst (read_packet_TCP_secure_connection P key max_len r) \<noteq> Nothing)"
  proof (cases "?len \<le> unat (net_socket_data_recv_buffer ?sock)")
    case False
    then have "read_packet_TCP_secure_connection P key max_len r = (Nothing, r)" using run assms(5) pos(2) by (simp add: read_TCP_packet_def)
    moreover have "\<not> (exact_count ?sock \<and> f = [])"
    proof
      assume e: "exact_count ?sock \<and> f = []"
      then have "length c \<le> length (sk_in ?sock)" using ps(3) c(1) by (metis append_Nil2 length_append le_add1 option.sel)
      then show False using False exact_recv_buffer [OF assms(2)] e ps(2) c(2) sd by (simp add: sendable_def size_defs)
    qed
    ultimately show ?thesis using assms(3) by (simp add: read_step_def)
  next
    case True
    note recv = net_recv_all [OF assms(2) pos(1) True]
    have tk: "take ?len (sk_in ?sock) = c" "drop ?len (sk_in ?sock) @ f = frames P key (increment_nonce (rd_nonce r)) qs"
    proof -
      have "take ?len (sk_in ?sock @ f) = c" "drop ?len (sk_in ?sock @ f) = frames P key (increment_nonce (rd_nonce r)) qs"
        unfolding ps(3) using c(1,2) ps(2) by simp_all
      then show "take ?len (sk_in ?sock) = c" "drop ?len (sk_in ?sock) @ f = frames P key (increment_nonce (rd_nonce r)) qs" using recv(2) by simp_all
    qed
    let ?s' = "?sock\<lparr>sk_calls := sk_calls ?sock + 1, sk_in := drop ?len (sk_in ?sock)\<rparr>"
    have pkt: "read_TCP_packet ?sock ?len = (Some c, ?s')" using True recv(1) tk(1) by (simp add: read_TCP_packet_def)
    have "read_packet_TCP_secure_connection P key max_len r =
        (Packet p, r\<lparr>rd_sock := ?s', next_packet_length := 0, rd_nonce := increment_nonce (rd_nonce r)\<rparr>)"
      using run assms(5) pos(2) pkt c(2,3) by simp
    then show ?thesis using ps(1,4) tk(2) by (simp add: read_step_def expects_def)
  qed
  then show "read_step P key f ps r (fst (read_packet_TCP_secure_connection P key max_len r)) (snd (read_packet_TCP_secure_connection P key max_len r))"
    "exact_count (rd_sock r) \<and> f = [] \<longrightarrow> fst (read_packet_TCP_secure_connection P key max_len r) \<noteq> Nothing" by auto
qed

lemma read_packet:
  assumes "box_platform P" "stream_socket send (sk_recv (rd_sock r)) (sk_count (rd_sock r))" "expects P key r (sk_in (rd_sock r) @ f) ps"
    and "MAX_PACKET_SIZE \<le> max_len + CRYPTO_MAC_SIZE"
  shows "read_step P key f ps r (fst (read_packet_TCP_secure_connection P key max_len r)) (snd (read_packet_TCP_secure_connection P key max_len r)) \<and>
    (exact_count (rd_sock r) \<and> f = [] \<and> ps \<noteq> [] \<longrightarrow> fst (read_packet_TCP_secure_connection P key max_len r) \<noteq> Nothing)"
proof (cases "next_packet_length r = 0")
  case False
  then show ?thesis using read_body [OF assms] by auto
next
  case True
  note run = read_packet_TCP_secure_connection_def [of P key max_len r]
  from assms(2) True assms(3) show ?thesis
  proof (cases rule: read_length)
    case 1
    then have none: "read_packet_TCP_secure_connection P key max_len r = (Nothing, r)" using run True by simp
    have "\<not> (exact_count (rd_sock r) \<and> f = [] \<and> ps \<noteq> [])"
    proof
      assume e: "exact_count (rd_sock r) \<and> f = [] \<and> ps \<noteq> []"
      then obtain p qs where ps: "ps = p # qs" by (cases ps) auto
      then have "2 \<le> length (sk_in (rd_sock r))" using assms(3) True e by (simp add: expects_def packet_frame_def)
      then show False using 1(1) exact_recv_buffer [OF assms(2)] e by simp
    qed
    then show ?thesis unfolding none using assms(3) by (auto simp: read_step_def)
  next
    case (2 len sock)
    let ?r = "r\<lparr>rd_sock := sock, next_packet_length := len\<rparr>"
    have eq: "read_packet_TCP_secure_connection P key max_len r = read_packet_TCP_secure_connection P key max_len ?r"
      unfolding read_packet_TCP_secure_connection_def using True 2(2-4) by simp
    have "stream_socket send (sk_recv (rd_sock ?r)) (sk_count (rd_sock ?r))" "next_packet_length ?r \<noteq> 0" "expects P key ?r (sk_in (rd_sock ?r) @ f) ps"
      using assms(2) 2(3,5-7) by simp_all
    note b = read_body [OF assms(1) this(1,3) assms(4) this(2)]
    show ?thesis unfolding eq using b 2(6,7) by (auto simp: read_step_def exact_count_def)
  qed
qed

section \<open>A connection and its reader\<close>

text \<open>The two ends of a connection with the bytes between them: the packets accepted by the writer, those returned by the reader, the number of bytes that have arrived, and whether
  the reader asked to kill the connection.\<close>

record tcp_link =
  lk_con :: TCP_Connection
  lk_reader :: tcp_reader
  lk_arrived :: nat
  lk_written :: "bytes list"
  lk_read :: "bytes list"
  lk_killed :: bool

definition arrive :: "nat \<Rightarrow> tcp_link \<Rightarrow> tcp_link" where
  "arrive n s =
     (let bs = take n (drop (lk_arrived s) (sk_wire (tc_sock (lk_con s))));
          sock = rd_sock (lk_reader s)
      in s\<lparr>lk_arrived := lk_arrived s + length bs, lk_reader := (lk_reader s)\<lparr>rd_sock := sock\<lparr>sk_in := sk_in sock @ bs\<rparr>\<rparr>\<rparr>)"

inductive tcp_step :: "platform \<Rightarrow> bytes \<Rightarrow> nat \<Rightarrow> tcp_link \<Rightarrow> tcp_link \<Rightarrow> bool" for P key max_len where
  step_write: "a \<notin> dom (pq_heap (lk_con s)) \<Longrightarrow> write_packet_TCP_secure_connection P (Some a) (lk_con s) data priority = Some (r, con) \<Longrightarrow>
    tcp_step P key max_len s (s\<lparr>lk_con := con, lk_written := lk_written s @ (if r = 1 then [data] else [])\<rparr>)"
| step_flush: "send_pending_data (lk_con s) = Some (r, con) \<Longrightarrow> tcp_step P key max_len s (s\<lparr>lk_con := con\<rparr>)"
| step_arrive: "tcp_step P key max_len s (arrive n s)"
| step_read: "read_packet_TCP_secure_connection P key max_len (lk_reader s) = (x, rd) \<Longrightarrow>
    tcp_step P key max_len s (s\<lparr>lk_reader := rd, lk_read := lk_read s @ (case x of Packet p \<Rightarrow> [p] | _ \<Rightarrow> []), lk_killed := lk_killed s \<or> x = Killed\<rparr>)"

definition new_link :: "Sock \<Rightarrow> Sock \<Rightarrow> IP_Port \<Rightarrow> bytes \<Rightarrow> bytes \<Rightarrow> tcp_link" where
  "new_link a b ipp key nonce =
     \<lparr>lk_con = \<lparr>tc_ns = True, tc_sock = a\<lparr>sk_wire := []\<rparr>, tc_ip_port = ipp, tc_sent_nonce = nonce, tc_shared_key = key, last_packet = replicate (2 + MAX_PACKET_SIZE) 0,
        last_packet_length = 0, last_packet_sent = 0, priority_queue_start = None, priority_queue_end = None, pq_heap = Map.empty\<rparr>,
      lk_reader = \<lparr>rd_sock = b\<lparr>sk_in := []\<rparr>, next_packet_length = 0, rd_nonce = nonce\<rparr>, lk_arrived = 0, lk_written = [], lk_read = [], lk_killed = False\<rparr>"

definition link_socks :: "tcp_link \<Rightarrow> bool" where
  "link_socks s \<longleftrightarrow> tc_ns (lk_con s) \<and> stream_socket (sk_send (tc_sock (lk_con s))) (sk_recv (rd_sock (lk_reader s))) (sk_count (rd_sock (lk_reader s)))"

definition link_inv :: "platform \<Rightarrow> bytes \<Rightarrow> bytes \<Rightarrow> tcp_link \<Rightarrow> bool" where
  "link_inv P key nonce s \<longleftrightarrow> \<not> lk_killed s \<and> link_socks s \<and> tc_shared_key (lk_con s) = key \<and>
     tc_sent_nonce (lk_con s) = nonce_after nonce (length (lk_written s)) \<and> rd_nonce (lk_reader s) = nonce_after nonce (length (lk_read s)) \<and>
     (\<exists>st ps. con_stream (lk_con s) st \<and> st = frames P key nonce (lk_written s) \<and> lk_written s = lk_read s @ ps \<and> lk_arrived s \<le> length st \<and>
        expects P key (lk_reader s) (sk_in (rd_sock (lk_reader s)) @ drop (lk_arrived s) st) ps)"

lemma link_send_ok: "link_socks s \<Longrightarrow> send_ok (lk_con s)"
  using stream_socket.send_le by (auto simp: link_socks_def send_ok_def)

lemma nonce_after_add: "nonce_after (nonce_after nonce m) n = nonce_after nonce (m + n)"
  by (induction n) simp_all

lemma expects_snoc:
  assumes "expects P key r u ps" "sendable data"
  shows "expects P key r (u @ packet_frame P key (nonce_after (rd_nonce r) (length ps)) data) (ps @ [data])"
  using assms by (auto simp: expects_def frames_append nonce_after_shift)

lemma new_link_inv:
  assumes "stream_socket (sk_send a) (sk_recv b) (sk_count b)"
  shows "link_inv P key nonce (new_link a b ipp key nonce)"
  using assms by (simp add: link_inv_def new_link_def link_socks_def con_stream_def last_ok_def queue_ok_def expects_def last_rest_def size_defs)

lemma link_inv_write:
  assumes "box_platform P" "link_inv P key nonce s" "a \<notin> dom (pq_heap (lk_con s))"
    and "write_packet_TCP_secure_connection P (Some a) (lk_con s) data priority = Some (r, con)"
  shows "link_inv P key nonce (s\<lparr>lk_con := con, lk_written := lk_written s @ (if r = 1 then [data] else [])\<rparr>)"
proof -
  obtain st ps where inv: "con_stream (lk_con s) st" "st = frames P key nonce (lk_written s)" "lk_written s = lk_read s @ ps" "lk_arrived s \<le> length st"
    "expects P key (lk_reader s) (sk_in (rd_sock (lk_reader s)) @ drop (lk_arrived s) st) ps"
    and i: "\<not> lk_killed s" "link_socks s" "tc_shared_key (lk_con s) = key" "tc_sent_nonce (lk_con s) = nonce_after nonce (length (lk_written s))"
    "rd_nonce (lk_reader s) = nonce_after nonce (length (lk_read s))"
    using assms(2) unfolding link_inv_def by blast
  have res: "tc_shared_key con = key" "sk_send (tc_sock con) = sk_send (tc_sock (lk_con s)) \<and> tc_ns con = tc_ns (lk_con s)"
    "r = 1 \<and> sendable data \<and> con_stream con (st @ packet_frame P key (tc_sent_nonce (lk_con s)) data) \<and> tc_sent_nonce con = increment_nonce (tc_sent_nonce (lk_con s)) \<or>
     (r = 0 \<or> r = - 1) \<and> con_stream con st \<and> tc_sent_nonce con = tc_sent_nonce (lk_con s)"
    using write_packet [OF assms(1) link_send_ok [OF i(2)] inv(1) assms(3), of data priority] assms(4) i(3) by auto
  show ?thesis
  proof (cases "r = 1")
    case True
    have n: "nonce_after (rd_nonce (lk_reader s)) (length ps) = tc_sent_nonce (lk_con s)" using i(4,5) inv(3) by (simp add: nonce_after_add)
    let ?st = "st @ packet_frame P key (tc_sent_nonce (lk_con s)) data"
    have e: "expects P key (lk_reader s) (sk_in (rd_sock (lk_reader s)) @ drop (lk_arrived s) ?st) (ps @ [data])"
      using expects_snoc [OF inv(5), of data] True res(3) inv(4) by (simp add: n)
    have f: "?st = frames P key nonce (lk_written s @ [data])" using inv(2) i(4) by (simp add: frames_append)
    have len: "lk_arrived s \<le> length ?st" using inv(4) by simp
    have "con_stream con ?st" using True res(3) by auto
    with e f len inv(3) have ex: "\<exists>st' ps'. con_stream con st' \<and> st' = frames P key nonce (lk_written s @ [data]) \<and> lk_written s @ [data] = lk_read s @ ps' \<and>
        lk_arrived s \<le> length st' \<and> expects P key (lk_reader s) (sk_in (rd_sock (lk_reader s)) @ drop (lk_arrived s) st') ps'" by auto
    have "tc_sent_nonce con = nonce_after nonce (length (lk_written s @ [data]))" using True res(3) i(4) by auto
    then show ?thesis unfolding link_inv_def using True res(1,2) i ex by (simp add: link_socks_def)
  next
    case False
    then show ?thesis using res i inv by (auto simp: link_inv_def link_socks_def)
  qed
qed

lemma link_inv_flush:
  assumes "link_inv P key nonce s" "send_pending_data (lk_con s) = Some (r, con)"
  shows "link_inv P key nonce (s\<lparr>lk_con := con\<rparr>)"
proof -
  obtain st where "con_stream (lk_con s) st" "link_socks s" using assms(1) by (auto simp: link_inv_def)
  from send_pending [OF link_send_ok [OF this(2)] this(1)] assms(2) have "same_peer (lk_con s) con" "\<And>st. con_stream (lk_con s) st \<longrightarrow> con_stream con st"
    by (metis (no_types) option.inject prod.inject send_pending link_send_ok [OF \<open>link_socks s\<close>])+
  then show ?thesis using assms(1) by (auto simp: link_inv_def link_socks_def same_peer_def)
qed

lemma link_inv_arrive:
  assumes "link_inv P key nonce s"
  shows "link_inv P key nonce (arrive n s)"
proof -
  obtain st ps where inv: "con_stream (lk_con s) st" "st = frames P key nonce (lk_written s)" "lk_written s = lk_read s @ ps" "lk_arrived s \<le> length st"
    "expects P key (lk_reader s) (sk_in (rd_sock (lk_reader s)) @ drop (lk_arrived s) st) ps"
    using assms unfolding link_inv_def by blast
  let ?w = "sk_wire (tc_sock (lk_con s))"
  define bs where "bs = take n (drop (lk_arrived s) ?w)"
  obtain rest where st: "st = ?w @ rest" using inv(1) by (auto simp: con_stream_def)
  have split: "drop (lk_arrived s) st = bs @ drop (lk_arrived s + length bs) st" "lk_arrived s + length bs \<le> length st"
  proof -
    have "drop (lk_arrived s + length bs) ?w = drop (length bs) (drop (lk_arrived s) ?w)" by (simp add: add.commute)
    moreover have "bs = take (length bs) (drop (lk_arrived s) ?w)" by (simp add: bs_def min_def)
    ultimately have "bs @ drop (lk_arrived s + length bs) ?w = drop (lk_arrived s) ?w" by (metis append_take_drop_id)
    moreover have "lk_arrived s + length bs \<le> max (lk_arrived s) (length ?w)" "length ?w \<le> lk_arrived s \<longrightarrow> bs = []" by (auto simp: bs_def)
    ultimately show "drop (lk_arrived s) st = bs @ drop (lk_arrived s + length bs) st" "lk_arrived s + length bs \<le> length st"
      using inv(4) by (cases "length ?w \<le> lk_arrived s"; auto simp: st)+
  qed
  have "expects P key ((lk_reader s)\<lparr>rd_sock := (rd_sock (lk_reader s))\<lparr>sk_in := sk_in (rd_sock (lk_reader s)) @ bs\<rparr>\<rparr>)
      ((sk_in (rd_sock (lk_reader s)) @ bs) @ drop (lk_arrived s + length bs) st) ps"
    using inv(5) unfolding split(1) by (simp add: expects_def)
  then show ?thesis using assms inv split(2) by (auto simp: link_inv_def link_socks_def arrive_def Let_def bs_def [symmetric])
qed

lemma link_inv_read:
  assumes "box_platform P" "MAX_PACKET_SIZE \<le> max_len + CRYPTO_MAC_SIZE" "link_inv P key nonce s"
    and "read_packet_TCP_secure_connection P key max_len (lk_reader s) = (x, rd)"
  shows "link_inv P key nonce (s\<lparr>lk_reader := rd, lk_read := lk_read s @ (case x of Packet p \<Rightarrow> [p] | _ \<Rightarrow> []), lk_killed := lk_killed s \<or> x = Killed\<rparr>)"
    "exact_count (rd_sock (lk_reader s)) \<Longrightarrow> con_idle (lk_con s) \<Longrightarrow> lk_arrived s = length (sk_wire (tc_sock (lk_con s))) \<Longrightarrow> lk_read s \<noteq> lk_written s \<Longrightarrow>
       x = Packet (lk_written s ! length (lk_read s))"
proof -
  obtain st ps where inv: "con_stream (lk_con s) st" "st = frames P key nonce (lk_written s)" "lk_written s = lk_read s @ ps" "lk_arrived s \<le> length st"
    "expects P key (lk_reader s) (sk_in (rd_sock (lk_reader s)) @ drop (lk_arrived s) st) ps"
    and i: "\<not> lk_killed s" "link_socks s" "tc_shared_key (lk_con s) = key" "tc_sent_nonce (lk_con s) = nonce_after nonce (length (lk_written s))"
    "rd_nonce (lk_reader s) = nonce_after nonce (length (lk_read s))"
    using assms(3) unfolding link_inv_def by blast
  have step: "read_step P key (drop (lk_arrived s) st) ps (lk_reader s) x rd"
    "exact_count (rd_sock (lk_reader s)) \<and> drop (lk_arrived s) st = [] \<and> ps \<noteq> [] \<longrightarrow> x \<noteq> Nothing"
    using read_packet [OF assms(1) conjunct2 [OF i(2) [unfolded link_socks_def]] inv(5) assms(2)] assms(4) by simp_all
  have socks: "link_socks (s\<lparr>lk_reader := rd, lk_read := rs, lk_killed := b\<rparr>)" "link_socks (s\<lparr>lk_reader := rd, lk_killed := b\<rparr>)" for rs b using step(1) i(2) by (simp_all add: read_step_def link_socks_def)
  show "link_inv P key nonce (s\<lparr>lk_reader := rd, lk_read := lk_read s @ (case x of Packet p \<Rightarrow> [p] | _ \<Rightarrow> []), lk_killed := lk_killed s \<or> x = Killed\<rparr>)"
    using step(1) unfolding read_step_def
  proof (elim conjE disjE exE)
    assume "x = Nothing" "expects P key rd (sk_in (rd_sock rd) @ drop (lk_arrived s) st) ps" "rd_nonce rd = rd_nonce (lk_reader s)"
    then show ?thesis using socks i inv by (auto simp: link_inv_def)
  next
    fix p qs
    assume p: "ps = p # qs" "x = Packet p" "expects P key rd (sk_in (rd_sock rd) @ drop (lk_arrived s) st) qs" "rd_nonce rd = increment_nonce (rd_nonce (lk_reader s))"
    have ex: "\<exists>st' ps'. con_stream (lk_con s) st' \<and> st' = frames P key nonce (lk_written s) \<and> lk_written s = (lk_read s @ [p]) @ ps' \<and>
        lk_arrived s \<le> length st' \<and> expects P key rd (sk_in (rd_sock rd) @ drop (lk_arrived s) st') ps'"
      using inv p by (intro exI [of _ st] exI [of _ qs]) simp
    show ?thesis unfolding link_inv_def using socks i ex p(2,4) by simp
  qed
  assume e: "exact_count (rd_sock (lk_reader s))" "con_idle (lk_con s)" "lk_arrived s = length (sk_wire (tc_sock (lk_con s)))" "lk_read s \<noteq> lk_written s"
  have "drop (lk_arrived s) st = []" "ps \<noteq> []" using con_stream_idle [OF e(2) inv(1)] e(3,4) inv(3) by auto
  then have "x \<noteq> Nothing" using step(2) e(1) by blast
  then show "x = Packet (lk_written s ! length (lk_read s))" using step(1) inv(3) by (auto simp: read_step_def)
qed

lemma tcp_step_inv:
  assumes "tcp_step P key max_len s s'" "box_platform P" "MAX_PACKET_SIZE \<le> max_len + CRYPTO_MAC_SIZE" "link_inv P key nonce s"
  shows "link_inv P key nonce s'"
  using assms
proof (induction rule: tcp_step.induct)
  case (step_write a s data priority r con)
  then show ?case using link_inv_write by blast
next
  case (step_flush s r con)
  then show ?case using link_inv_flush by blast
next
  case (step_arrive s n)
  then show ?case using link_inv_arrive by blast
next
  case (step_read s x rd)
  then show ?case using link_inv_read(1) by blast
qed

lemma tcp_reachable_inv:
  assumes "(tcp_step P key max_len)\<^sup>*\<^sup>* s s'" "box_platform P" "MAX_PACKET_SIZE \<le> max_len + CRYPTO_MAC_SIZE" "link_inv P key nonce s"
  shows "link_inv P key nonce s'"
  using assms(1) by (induction rule: rtranclp_induct) (use assms(4) tcp_step_inv [OF _ assms(2,3)] in blast)+

section \<open>Properties\<close>

text \<open>C3: Whatever part of the data the sockets take and deliver at a time, the reader of a TCP connection returns exactly the packets that the writer accepted, in order, and
  never asks to kill the connection. The writer never follows a null or dangling pointer, and it accepts every priority packet. Once all bytes are sent and
  have arrived, a read returns the next packet.\<close>

theorem tcp_packets_delivered:
  assumes "box_platform P" "MAX_PACKET_SIZE \<le> max_len + CRYPTO_MAC_SIZE" "stream_socket (sk_send a) (sk_recv b) (sk_count b)"
    and "(tcp_step P key max_len)\<^sup>*\<^sup>* (new_link a b ipp key nonce) s"
  shows "\<not> lk_killed s \<and> prefix (lk_read s) (lk_written s) \<and>
    (new \<notin> dom (pq_heap (lk_con s)) \<longrightarrow>
       (\<exists>r con. write_packet_TCP_secure_connection P (Some new) (lk_con s) data priority = Some (r, con) \<and> (priority \<and> sendable data \<longrightarrow> r = 1))) \<and>
    (\<exists>r con. send_pending_data (lk_con s) = Some (r, con)) \<and>
    (exact_count (rd_sock (lk_reader s)) \<and> con_idle (lk_con s) \<and> lk_arrived s = length (sk_wire (tc_sock (lk_con s))) \<and> lk_read s \<noteq> lk_written s \<longrightarrow>
       fst (read_packet_TCP_secure_connection P key max_len (lk_reader s)) = Packet (lk_written s ! length (lk_read s)))"
proof -
  have inv: "link_inv P key nonce s" by (rule tcp_reachable_inv [OF assms(4,1,2) new_link_inv [OF assms(3)]])
  then obtain st where st: "con_stream (lk_con s) st" "send_ok (lk_con s)" by (auto simp: link_inv_def link_send_ok)
  have "prefix (lk_read s) (lk_written s)" "\<not> lk_killed s" using inv by (auto simp: link_inv_def)
  moreover have "\<exists>r con. write_packet_TCP_secure_connection P (Some new) (lk_con s) data priority = Some (r, con) \<and> (priority \<and> sendable data \<longrightarrow> r = 1)"
    if "new \<notin> dom (pq_heap (lk_con s))"
    using write_packet [OF assms(1) st(2,1) that, of data priority] by metis
  moreover have "\<exists>r con. send_pending_data (lk_con s) = Some (r, con)" using send_pending [OF st(2,1)] by metis
  ultimately show ?thesis using link_inv_read(2) [OF assms(1,2) inv] by (auto simp: prod_eq_iff)
qed

text \<open>Sockets that take and give at most five bytes at a time.\<close>

definition slow_sock :: Sock where
  "slow_sock = \<lparr>sk_send = (\<lambda>n len. int (min 5 len)), sk_recv = (\<lambda>n avail len. int (min avail len)), sk_count = (\<lambda>n avail. int (min avail (2 ^ 31 - 1))),
     sk_calls = 0, sk_wire = [], sk_in = []\<rparr>"

interpretation slow: stream_socket "sk_send slow_sock" "sk_recv slow_sock" "sk_count slow_sock"
  by unfold_locales (auto simp: slow_sock_def)

theorem tcp_packets_delivered_witness:
  "\<exists>s. (tcp_step fuzz_platform (replicate 32 1) 2048)\<^sup>*\<^sup>* (new_link slow_sock slow_sock empty_ip_port (replicate 32 1) (replicate 24 0)) s \<and>
     lk_written s = [[1, 2, 3]] \<and> \<not> lk_killed s \<and> prefix (lk_read s) [[1, 2, 3]]"
proof -
  let ?s = "new_link slow_sock slow_sock empty_ip_port (replicate 32 1) (replicate 24 0)"
  note T = tcp_packets_delivered [OF fuzz.box_platform_axioms _ slow.stream_socket_axioms]
  have m: "MAX_PACKET_SIZE \<le> 2048 + CRYPTO_MAC_SIZE" "sendable [1, 2, 3]" "0 \<notin> dom (pq_heap (lk_con ?s))" by (simp_all add: size_defs sendable_def new_link_def)
  obtain con where w: "write_packet_TCP_secure_connection fuzz_platform (Some 0) (lk_con ?s) [1, 2, 3] True = Some (1, con)"
    using T [OF m(1) rtranclp.rtrancl_refl, where new = 0 and data = "[1, 2, 3]" and priority = True] m(2,3) by blast
  let ?t = "?s\<lparr>lk_con := con, lk_written := lk_written ?s @ (if (1 :: int) = 1 then [[1, 2, 3]] else [])\<rparr>"
  have t: "(tcp_step fuzz_platform (replicate 32 1) 2048)\<^sup>*\<^sup>* ?s ?t" using step_write [OF m(3) w] by blast
  have "lk_written ?t = [[1, 2, 3]]" by (simp add: new_link_def)
  then show ?thesis using T [OF m(1) t] t by metis
qed

text \<open>C37: If no memory is left, a priority packet that the socket takes in part is lost in the middle: the result says that it was not sent, but its
  first bytes are in the stream and the nonce has moved on, so that nothing that follows can be decrypted.\<close>

theorem priority_packet_cut_off:
  assumes "box_platform P" "send_ok con" "con_stream con s" "con_idle con" "sendable data"
    and "sk_send (tc_sock con) (sk_calls (tc_sock con)) (length (packet_frame P (tc_shared_key con) (tc_sent_nonce con) data)) = int n"
    and "0 < n" "n < length (packet_frame P (tc_shared_key con) (tc_sent_nonce con) data)"
  shows "\<exists>con'. write_packet_TCP_secure_connection P None con data True = Some (0, con') \<and>
    con_stream con' (s @ take n (packet_frame P (tc_shared_key con) (tc_sent_nonce con) data)) \<and> con_idle con' \<and>
    tc_sent_nonce con' = increment_nonce (tc_sent_nonce con)"
proof -
  let ?pkt = "packet_frame P (tc_shared_key con) (tc_sent_nonce con) data"
  obtain c where c: "encrypt_data_symmetric P (Some (tc_shared_key con)) (tc_sent_nonce con) data = Some c" "length c = length data + CRYPTO_MAC_SIZE"
    "?pkt = host_bytes 2 (net_htons (of_nat (length data + CRYPTO_MAC_SIZE))) @ c"
    using packet_frame_enc [OF assms(1,5)] by metis
  let ?c = "con\<lparr>tc_sock := (tc_sock con)\<lparr>sk_calls := sk_calls (tc_sock con) + 1, sk_wire := sk_wire (tc_sock con) @ take n ?pkt\<rparr>\<rparr>"
  have pend: "send_pending_data con = Some (0, con)"
    using assms(4) con_stream_idle [OF assms(4,3)]
    by (simp add: send_pending_data_def send_pending_data_nonpriority_def con_idle_def send_pending_loop.simps)
  have sent: "con_send con ?pkt = Some (int n, ?c)" using assms(2,6) by (simp add: con_send_def net_send_def send_ok_def)
  have "write_packet_TCP_secure_connection P None con data True = Some (0, ?c\<lparr>tc_sent_nonce := increment_nonce (tc_sent_nonce con)\<rparr>)"
    using assms(5,7,8) pend c(1,2) sent by (simp add: write_packet_TCP_secure_connection_def sendable_def c(3) [symmetric] add_priority_def del: of_nat_add)
  moreover have "con_stream (?c\<lparr>tc_sent_nonce := increment_nonce (tc_sent_nonce con)\<rparr>) (s @ take n ?pkt)"
    unfolding con_stream_nonce by (rule con_stream_send [OF assms(4,3)])
  ultimately show ?thesis using assms(4) by (auto simp: con_idle_def)
qed

theorem priority_packet_cut_off_witness:
  "\<exists>con'. write_packet_TCP_secure_connection fuzz_platform None (lk_con (new_link slow_sock slow_sock empty_ip_port (replicate 32 1) (replicate 24 0))) [1, 2, 3] True = Some (0, con') \<and>
     con_idle con'"
proof -
  let ?con = "lk_con (new_link slow_sock slow_sock empty_ip_port (replicate 32 1) (replicate 24 0))"
  have ok: "send_ok ?con" "con_stream ?con []" "con_idle ?con" "sendable [1, 2, 3]"
    by (auto simp: new_link_def slow_sock_def send_ok_def con_stream_def last_ok_def last_rest_def queue_ok_def con_idle_def sendable_def size_defs)
  have n: "length (packet_frame fuzz_platform (tc_shared_key ?con) (tc_sent_nonce ?con) [1, 2, 3]) = 21"
    by (simp add: packet_frame_def encrypt_fuzz encrypt_data_symmetric_fuzz_def size_defs)
  show ?thesis using priority_packet_cut_off [OF fuzz.box_platform_axioms ok, of 5] unfolding n by (auto simp: new_link_def slow_sock_def)
qed

end
