(* ===== verification/Forwarding.thy ===== *)
theory Forwarding
  imports DHT_NAT Timed_Auth
begin

text \<open>
  \<^verbatim>\<open>toxcore/forwarding.c\<close>: packets for nodes that can only be reached through other nodes. A request names a chain of keys; every node of the chain passes the rest on to the
  next key, together with a sendback: an authenticator (\<open>Timed_Auth\<close>) of where the request came from, so that the node needs to keep no
  state and still knows the way of the reply.

  The functions registered by other modules are numbers; their calls are recorded in order, and the result of the function for
  replies is an argument. \<open>mem n\<close> is the contents of an uninitialised array of \<open>n\<close> bytes.
\<close>

section \<open>Definitions\<close>

definition NET_PACKET_FORWARD_REQUEST :: byte where [size_defs]: "NET_PACKET_FORWARD_REQUEST = 0x90"
definition NET_PACKET_FORWARDING :: byte where [size_defs]: "NET_PACKET_FORWARDING = 0x91"
definition NET_PACKET_FORWARD_REPLY :: byte where [size_defs]: "NET_PACKET_FORWARD_REPLY = 0x92"
definition SENDBACK_IPPORT :: byte where [size_defs]: "SENDBACK_IPPORT = 0"
definition SENDBACK_FORWARD :: byte where [size_defs]: "SENDBACK_FORWARD = 1"
definition SENDBACK_TCP :: byte where [size_defs]: "SENDBACK_TCP = 2"
definition MAX_SENDBACK_SIZE :: nat where [size_defs]: "MAX_SENDBACK_SIZE = 0xff - 1"
definition MAX_FORWARD_DATA_SIZE :: nat where [size_defs]: "MAX_FORWARD_DATA_SIZE = MAX_UDP_PACKET_SIZE - (1 + 1 + MAX_SENDBACK_SIZE)"
definition MAX_FORWARD_CHAIN_LENGTH :: nat where [size_defs]: "MAX_FORWARD_CHAIN_LENGTH = 4"
definition MAX_PACKED_IPPORT_SIZE :: nat where [size_defs]: "MAX_PACKED_IPPORT_SIZE = 1 + SIZE_IP6 + 2"
definition SENDBACK_TIMEOUT :: u16 where [size_defs]: "SENDBACK_TIMEOUT = 3600"
definition FORWARD_REQUEST_MIN_PACKET_SIZE :: nat where [size_defs]: "FORWARD_REQUEST_MIN_PACKET_SIZE = 1 + CRYPTO_PUBLIC_KEY_SIZE"
definition FORWARD_REPLY_MIN_PACKET_SIZE :: nat where [size_defs]: "FORWARD_REPLY_MIN_PACKET_SIZE = 1 + 1 + TIMED_AUTH_SIZE"
definition FORWARDING_MIN_PACKET_SIZE :: nat where [size_defs]: "FORWARDING_MIN_PACKET_SIZE = 1 + 1"
definition sizeof_Forwarding :: nat where [size_defs]: "sizeof_Forwarding = 120"

datatype forwarding_call =
    Forward_reply nat bytes bytes
  | Forwarded_request nat IP_Port bytes bytes
  | Forwarded_response nat bytes

record Forwarding =
  fw_dht :: DHT
  fw_hmac_key :: bytes
  forward_reply_callback :: "nat option"
  forwarded_request_callback :: "nat option"
  forwarded_response_callback :: "nat option"
  fw_called :: "forwarding_call list"

definition forwarding_get_dht :: "Forwarding \<Rightarrow> DHT" where
  "forwarding_get_dht fw = fw_dht fw"

definition forward_chain_packet_size :: "nat \<Rightarrow> nat \<Rightarrow> nat" where
  "forward_chain_packet_size chain_length data_length = (chain_length * (1 + CRYPTO_PUBLIC_KEY_SIZE) + data_length) mod 2 ^ 16"

text \<open>The keys of the chain follow each other in one array.\<close>

definition create_forward_chain_packet :: "bytes \<Rightarrow> nat \<Rightarrow> bytes \<Rightarrow> bytes option" where
  "create_forward_chain_packet chain_keys chain_length data =
     (if chain_length = 0 \<or> chain_length > MAX_FORWARD_CHAIN_LENGTH \<or> length data > MAX_FORWARD_DATA_SIZE then None
      else Some (concat (map (\<lambda>j. NET_PACKET_FORWARD_REQUEST # slice (j * CRYPTO_PUBLIC_KEY_SIZE) CRYPTO_PUBLIC_KEY_SIZE chain_keys) [0..<chain_length]) @ data))"

definition send_forward_request :: "host \<Rightarrow> DHT \<Rightarrow> IP_Port \<Rightarrow> bytes \<Rightarrow> nat \<Rightarrow> bytes \<Rightarrow> bool \<times> DHT" where
  "send_forward_request h dht forwarder chain_keys chain_length data =
     (if chain_length = 0 \<or> chain_length > MAX_FORWARD_CHAIN_LENGTH \<or> length data > MAX_FORWARD_DATA_SIZE then (False, dht)
      else case create_forward_chain_packet chain_keys chain_length data of
          None \<Rightarrow> (False, dht)
        | Some packet \<Rightarrow> (case dht_send h dht forwarder packet of (n, dht) \<Rightarrow> (n = int (forward_chain_packet_size chain_length (length data)), dht)))"

definition forwarding_packet_length :: "nat \<Rightarrow> nat \<Rightarrow> nat" where
  "forwarding_packet_length sendback_data_len data_length =
     (let sendback_len = (if sendback_data_len = 0 then 0 else (TIMED_AUTH_SIZE + sendback_data_len) mod 2 ^ 16)
      in (1 + 1 + sendback_len + data_length) mod 2 ^ 16)"

text \<open>A sendback that is too long leaves the rest of the array as it is; the callers do not look at the result.\<close>

definition create_forwarding_packet :: "platform \<Rightarrow> (nat \<Rightarrow> bytes) \<Rightarrow> Forwarding \<Rightarrow> bytes \<Rightarrow> bytes \<Rightarrow> bool \<times> bytes" where
  "create_forwarding_packet P mem fw sendback_data data =
     (if sendback_data = [] then (True, NET_PACKET_FORWARDING # 0 # data)
      else
        let sendback_len = TIMED_AUTH_SIZE + length sendback_data
        in if sendback_len > MAX_SENDBACK_SIZE then
             (False, NET_PACKET_FORWARDING # drop 1 (mem (forwarding_packet_length (length sendback_data) (length data))))
           else
             (True, NET_PACKET_FORWARDING # of_nat sendback_len #
               generate_timed_auth P (dht_mono_time (fw_dht fw)) SENDBACK_TIMEOUT (fw_hmac_key fw) (Some sendback_data) (mem (8 + length sendback_data)) @
               sendback_data @ data))"

definition send_forwarding :: "host \<Rightarrow> (nat \<Rightarrow> bytes) \<Rightarrow> Forwarding \<Rightarrow> IP_Port \<Rightarrow> bytes \<Rightarrow> bytes \<Rightarrow> bool \<times> Forwarding" where
  "send_forwarding h mem fw dest sendback_data data =
     (if length data > MAX_FORWARD_DATA_SIZE then (False, fw)
      else
        let len = forwarding_packet_length (length sendback_data) (length data);
            (_, packet) = create_forwarding_packet (plat h) mem fw sendback_data data;
            (n, dht) = dht_send h (fw_dht fw) dest packet
        in (n = int len, fw\<lparr>fw_dht := dht\<rparr>))"

definition handle_forward_request_dht :: "host \<Rightarrow> (nat \<Rightarrow> bytes) \<Rightarrow> Forwarding \<Rightarrow> bytes \<Rightarrow> bytes \<Rightarrow> bool \<times> Forwarding" where
  "handle_forward_request_dht h mem fw sendback_data packet =
     (if length packet < FORWARD_REQUEST_MIN_PACKET_SIZE then (False, fw)
      else
        let public_key = slice 1 CRYPTO_PUBLIC_KEY_SIZE packet;
            forward_data = drop (1 + CRYPTO_PUBLIC_KEY_SIZE) packet
        in if TIMED_AUTH_SIZE + length sendback_data > MAX_SENDBACK_SIZE \<or> length forward_data > MAX_FORWARD_DATA_SIZE then (False, fw)
           else
             let len = forwarding_packet_length (length sendback_data) (length forward_data);
                 (_, forwarding_packet) = create_forwarding_packet (plat h) mem fw sendback_data forward_data;
                 (n, dht) = route_packet h (fw_dht fw) public_key forwarding_packet
             in (n = int len, fw\<lparr>fw_dht := dht\<rparr>))"

definition handle_forward_request :: "host \<Rightarrow> (nat \<Rightarrow> bytes) \<Rightarrow> Forwarding \<Rightarrow> IP_Port \<Rightarrow> bytes \<Rightarrow> int \<times> Forwarding" where
  "handle_forward_request h mem fw source packet =
     (case pack_ip_port MAX_PACKED_IPPORT_SIZE source of
        None \<Rightarrow> (1, fw)
      | Some ipp \<Rightarrow> (case handle_forward_request_dht h mem fw (SENDBACK_IPPORT # ipp) packet of (ok, fw) \<Rightarrow> (if ok then 0 else 1, fw)))"

definition forward_reply :: "host \<Rightarrow> DHT \<Rightarrow> IP_Port \<Rightarrow> bytes \<Rightarrow> bytes \<Rightarrow> bool \<times> DHT" where
  "forward_reply h dht forwarder sendback data =
     (if length sendback > MAX_SENDBACK_SIZE \<or> length data > MAX_FORWARD_DATA_SIZE then (False, dht)
      else
        let packet = NET_PACKET_FORWARD_REPLY # of_nat (length sendback) # sendback @ data;
            (n, dht) = dht_send h dht forwarder packet
        in (n = int (1 + 1 + length sendback + length data), dht))"

definition handle_forward_reply :: "host \<Rightarrow> (nat \<Rightarrow> bytes) \<Rightarrow> bool \<Rightarrow> Forwarding \<Rightarrow> bytes \<Rightarrow> int \<times> Forwarding" where
  "handle_forward_reply h mem result fw packet =
     (if length packet < FORWARD_REPLY_MIN_PACKET_SIZE then (1, fw)
      else
        let sendback_len = unat (packet ! 1);
            sendback_auth = slice (1 + 1) TIMED_AUTH_SIZE packet
        in if sendback_len > MAX_SENDBACK_SIZE then (1, fw)
           else if sendback_len < TIMED_AUTH_SIZE + 1 then (1, fw)
           else if length packet < 1 + 1 + sendback_len then (1, fw)
           else
             let sendback_data = slice (1 + 1 + TIMED_AUTH_SIZE) (sendback_len - TIMED_AUTH_SIZE) packet;
                 to_forward = drop (1 + 1 + sendback_len) packet
             in if \<not> check_timed_auth (plat h) (dht_mono_time (fw_dht fw)) SENDBACK_TIMEOUT (fw_hmac_key fw) (Some sendback_data) sendback_auth
                      (mem (8 + length sendback_data)) then (1, fw)
                else if hd sendback_data = SENDBACK_IPPORT then
                  (case unpack_ip_port (tl sendback_data) False of
                     None \<Rightarrow> (1, fw)
                   | Some (n, dest) \<Rightarrow>
                       if n \<noteq> length sendback_data - 1 then (1, fw)
                       else (case send_forwarding h mem fw dest [] to_forward of (ok, fw) \<Rightarrow> (if ok then 0 else 1, fw)))
                else if hd sendback_data = SENDBACK_FORWARD then
                  (case unpack_ip_port (tl sendback_data) False of
                     None \<Rightarrow> (1, fw)
                   | Some (ipport_length, forwarder) \<Rightarrow>
                       (case forward_reply h (fw_dht fw) forwarder (drop (1 + ipport_length) sendback_data) to_forward of
                          (ok, dht) \<Rightarrow> (if ok then 0 else 1, fw\<lparr>fw_dht := dht\<rparr>)))
                else case forward_reply_callback fw of
                    None \<Rightarrow> (1, fw)
                  | Some f \<Rightarrow> (if result then 0 else 1, fw\<lparr>fw_called := fw_called fw @ [Forward_reply f sendback_data to_forward]\<rparr>))"

definition handle_forwarding :: "host \<Rightarrow> (nat \<Rightarrow> bytes) \<Rightarrow> Forwarding \<Rightarrow> IP_Port \<Rightarrow> bytes \<Rightarrow> int \<times> Forwarding" where
  "handle_forwarding h mem fw source packet =
     (if length packet < FORWARDING_MIN_PACKET_SIZE then (1, fw)
      else
        let sendback_len = unat (packet ! 1)
        in if length packet < 1 + 1 + sendback_len then (1, fw)
           else
             let sendback = slice (1 + 1) sendback_len packet;
                 forwarded = drop (1 + 1 + sendback_len) packet
             in if length forwarded \<ge> 1 \<and> hd forwarded = NET_PACKET_FORWARD_REQUEST then
                  (case pack_ip_port MAX_PACKED_IPPORT_SIZE source of
                     None \<Rightarrow> (1, fw)
                   | Some ipp \<Rightarrow>
                       (case handle_forward_request_dht h mem fw (SENDBACK_FORWARD # ipp @ sendback) forwarded of (ok, fw) \<Rightarrow> (if ok then 0 else 1, fw)))
                else if sendback_len > 0 then
                  (case forwarded_request_callback fw of
                     None \<Rightarrow> (1, fw)
                   | Some f \<Rightarrow> (0, fw\<lparr>fw_called := fw_called fw @ [Forwarded_request f source sendback forwarded]\<rparr>))
                else
                  (case forwarded_response_callback fw of
                     None \<Rightarrow> (1, fw)
                   | Some f \<Rightarrow> (0, fw\<lparr>fw_called := fw_called fw @ [Forwarded_response f forwarded]\<rparr>)))"

definition set_callback_forwarded_request :: "Forwarding \<Rightarrow> nat option \<Rightarrow> Forwarding" where
  "set_callback_forwarded_request fw f = fw\<lparr>forwarded_request_callback := f\<rparr>"

definition set_callback_forwarded_response :: "Forwarding \<Rightarrow> nat option \<Rightarrow> Forwarding" where
  "set_callback_forwarded_response fw f = fw\<lparr>forwarded_response_callback := f\<rparr>"

definition set_callback_forward_reply :: "Forwarding \<Rightarrow> nat option \<Rightarrow> Forwarding" where
  "set_callback_forward_reply fw f = fw\<lparr>forward_reply_callback := f\<rparr>"

definition new_forwarding :: "platform \<Rightarrow> DHT option \<Rightarrow> Forwarding option" where
  "new_forwarding P dht =
     (case dht of
        None \<Rightarrow> None
      | Some dht \<Rightarrow>
          if \<not> malloc_ok P sizeof_Forwarding then None
          else
            let (key, r) = new_hmac_key (rng dht)
            in Some \<lparr>fw_dht = dht\<lparr>rng := r\<rparr>, fw_hmac_key = key, forward_reply_callback = None, forwarded_request_callback = None,
                 forwarded_response_callback = None, fw_called = []\<rparr>)"

section \<open>One hop\<close>

text \<open>An address of a UDP node that survives packing.\<close>

definition udp_address :: "IP_Port \<Rightarrow> bool" where
  "udp_address a \<longleftrightarrow> ip_wf (ip a) \<and> family (ip a) \<in> {TOX_AF_INET, TOX_AF_INET6} \<and> (family (ip a) = TOX_AF_INET \<longrightarrow> drop 4 (addr (ip a)) = replicate 12 0)"

definition sendback :: "platform \<Rightarrow> Mono_Time \<Rightarrow> bytes \<Rightarrow> bytes \<Rightarrow> bytes" where
  "sendback P mt key data = crypto_hmac P key (host_bytes 8 (mono_time_get mt div ucast SENDBACK_TIMEOUT) @ data) @ data"

text \<open>The node with the key is reached at the address.\<close>

definition reaches :: "host \<Rightarrow> DHT \<Rightarrow> bytes \<Rightarrow> IP_Port \<Rightarrow> bool" where
  "reaches h dht key a \<longleftrightarrow> (\<forall>p. sent (snd (route_packet h dht key p)) = sent dht @ [(a, p)])"

text \<open>The state of a node at a later time, at most an hour after the first and with the same key.\<close>

definition still :: "Forwarding \<Rightarrow> Forwarding \<Rightarrow> bool" where
  "still fw fw' \<longleftrightarrow> fw_hmac_key fw' = fw_hmac_key fw \<and> length (fw_hmac_key fw) = 32 \<and>
     mono_time_get (dht_mono_time (fw_dht fw)) \<le> mono_time_get (dht_mono_time (fw_dht fw')) \<and>
     unat (mono_time_get (dht_mono_time (fw_dht fw'))) \<le> unat (mono_time_get (dht_mono_time (fw_dht fw))) + unat SENDBACK_TIMEOUT"

lemma udp_address_packs:
  assumes "udp_address a"
  obtains bs where "pack_ip_port MAX_PACKED_IPPORT_SIZE a = Some bs" "length bs \<le> 19" "bs \<noteq> []"
    "\<forall>rest. unpack_ip_port (bs @ rest) False = Some (length bs, a)"
proof -
  have fam: "family (ip a) = TOX_AF_INET \<or> family (ip a) = TOX_AF_INET6" using assms by (simp add: udp_address_def)
  then obtain bs where bs: "pack_ip_port MAX_PACKED_IPPORT_SIZE a = Some bs" by (auto simp: pack_ip_port_def family_defs size_defs)
  have clean: "family (ip a) \<in> {TOX_AF_INET, TCP_INET} \<Longrightarrow> drop 4 (addr (ip a)) = replicate 12 0" "ip_wf (ip a)"
    using assms fam by (auto simp: udp_address_def family_defs size_defs)
  note up = unpack_pack_ip_port [OF bs clean(2,1)]
  have "unpack_ip_port (bs @ rest) False = Some (length bs, a)" for rest
    using up(1) [of rest] unpack_ip_port_udp [OF bs, of rest False] fam by simp
  then show ?thesis using that bs up(2,3) by (simp add: size_defs)
qed

lemma sendback_length: "hmac_platform P \<Longrightarrow> length key = 32 \<Longrightarrow> length (sendback P mt key data) = 32 + length data"
  by (simp add: sendback_def hmac_platform.hmac_length)

lemma created_packet:
  assumes "\<forall>n. length (mem n) = n" "data \<noteq> []" "length data \<le> 222"
  shows "create_forwarding_packet P mem fw data forward =
    (True, NET_PACKET_FORWARDING # of_nat (32 + length data) # sendback P (dht_mono_time (fw_dht fw)) (fw_hmac_key fw) data @ forward)"
  using assms to_hash_eq [of "mem (8 + length data)" data "dht_mono_time (fw_dht fw)" SENDBACK_TIMEOUT False]
  by (simp add: create_forwarding_packet_def generate_timed_auth_def sendback_def size_defs)

lemma request_passed_on:
  assumes "\<forall>n. length (mem n) = n" "sb \<noteq> []" "length sb \<le> 222" "length key = 32" "length forward \<le> MAX_FORWARD_DATA_SIZE" "reaches h (fw_dht fw) key a"
  shows "sent (fw_dht (snd (handle_forward_request_dht h mem fw sb (NET_PACKET_FORWARD_REQUEST # key @ forward)))) = sent (fw_dht fw) @
    [(a, NET_PACKET_FORWARDING # of_nat (32 + length sb) # sendback (plat h) (dht_mono_time (fw_dht fw)) (fw_hmac_key fw) sb @ forward)]"
  using assms(2-6) created_packet [OF assms(1-3), of "plat h" fw forward]
  by (simp add: handle_forward_request_dht_def size_defs slice_def reaches_def case_prod_beta)

text \<open>A sendback is accepted for an hour; the rest of the reply is what it came with.\<close>

lemma reply_opened:
  assumes "hmac_platform (plat h)" "\<forall>n. length (mem n) = n" "sb \<noteq> []" "length sb \<le> 222" "still fw fw'"
  shows "handle_forward_reply h mem result fw' (NET_PACKET_FORWARD_REPLY # of_nat (32 + length sb) #
      sendback (plat h) (dht_mono_time (fw_dht fw)) (fw_hmac_key fw) sb @ reply) =
    (if hd sb = SENDBACK_IPPORT then
       (case unpack_ip_port (tl sb) False of
          None \<Rightarrow> (1, fw')
        | Some (n, dest) \<Rightarrow> if n \<noteq> length sb - 1 then (1, fw')
            else (case send_forwarding h mem fw' dest [] reply of (ok, fw) \<Rightarrow> (if ok then 0 else 1, fw)))
     else if hd sb = SENDBACK_FORWARD then
       (case unpack_ip_port (tl sb) False of
          None \<Rightarrow> (1, fw')
        | Some (n, forwarder) \<Rightarrow> (case forward_reply h (fw_dht fw') forwarder (drop (1 + n) sb) reply of (ok, dht) \<Rightarrow> (if ok then 0 else 1, fw'\<lparr>fw_dht := dht\<rparr>)))
     else case forward_reply_callback fw' of
         None \<Rightarrow> (1, fw')
       | Some f \<Rightarrow> (if result then 0 else 1, fw'\<lparr>fw_called := fw_called fw' @ [Forward_reply f sb reply]\<rparr>))"
proof -
  let ?auth = "crypto_hmac (plat h) (fw_hmac_key fw) (host_bytes 8 (mono_time_get (dht_mono_time (fw_dht fw)) div ucast SENDBACK_TIMEOUT) @ sb)"
  have key: "fw_hmac_key fw' = fw_hmac_key fw" "length (fw_hmac_key fw) = 32" using assms(5) by (simp_all add: still_def)
  have la: "length ?auth = 32" using hmac_platform.hmac_length [OF assms(1) key(2)] .
  have n: "unat (of_nat (32 + length sb) :: byte) = 32 + length sb" unfolding unat_of_nat using assms(4) by (simp add: take_bit_eq_mod)
  have st: "length (mem (8 + length sb)) = 8 + length sb" using assms(2) by simp
  have "check_timed_auth (plat h) (dht_mono_time (fw_dht fw')) SENDBACK_TIMEOUT (fw_hmac_key fw) (Some sb)
      (generate_timed_auth (plat h) (dht_mono_time (fw_dht fw)) SENDBACK_TIMEOUT (fw_hmac_key fw) (Some sb) (mem (8 + length sb))) (mem (8 + length sb))"
    using assms(5) st by (intro timed_auth_accepted [OF assms(1)]) (simp_all add: still_def size_defs)
  then have ok: "check_timed_auth (plat h) (dht_mono_time (fw_dht fw')) SENDBACK_TIMEOUT (fw_hmac_key fw) (Some sb) ?auth (mem (8 + length sb))"
    using to_hash_eq [OF st] by (simp add: generate_timed_auth_def)
  define p where "p = NET_PACKET_FORWARD_REPLY # of_nat (32 + length sb) # (?auth @ sb) @ reply"
  have two: "1 + 1 + (32 + length sb) = Suc (Suc (length (?auth @ sb)))" using la by simp
  have rest: "drop (1 + 1 + (32 + length sb)) p = reply" unfolding two p_def drop_Suc_Cons by simp
  have parts: "length p = 34 + length sb + length reply" "unat (p ! 1) = 32 + length sb" "slice (1 + 1) 32 p = ?auth" "slice (1 + 1 + 32) (length sb) p = sb"
    using la n by (simp_all add: p_def slice_def del: of_nat_add)
  show ?thesis
    unfolding sendback_def p_def [symmetric] handle_forward_reply_def
    using assms(3,4) ok parts rest key(1) by (simp add: size_defs)
qed

lemma forwarded_parts:
  assumes "length sb < 256"
  shows "handle_forwarding h mem fw source (NET_PACKET_FORWARDING # of_nat (length sb) # sb @ forwarded) =
    (if forwarded \<noteq> [] \<and> hd forwarded = NET_PACKET_FORWARD_REQUEST then
       (case pack_ip_port MAX_PACKED_IPPORT_SIZE source of
          None \<Rightarrow> (1, fw)
        | Some ipp \<Rightarrow> (case handle_forward_request_dht h mem fw (SENDBACK_FORWARD # ipp @ sb) forwarded of (ok, fw) \<Rightarrow> (if ok then 0 else 1, fw)))
     else if sb \<noteq> [] then
       (case forwarded_request_callback fw of
          None \<Rightarrow> (1, fw)
        | Some f \<Rightarrow> (0, fw\<lparr>fw_called := fw_called fw @ [Forwarded_request f source sb forwarded]\<rparr>))
     else
       (case forwarded_response_callback fw of
          None \<Rightarrow> (1, fw)
        | Some f \<Rightarrow> (0, fw\<lparr>fw_called := fw_called fw @ [Forwarded_response f forwarded]\<rparr>)))"
proof -
  define p where "p = NET_PACKET_FORWARDING # of_nat (length sb) # sb @ forwarded"
  have n: "unat (of_nat (length sb) :: byte) = length sb" unfolding unat_of_nat using assms by (simp add: take_bit_eq_mod)
  have parts: "length p = 2 + length sb + length forwarded" "unat (p ! 1) = length sb" "slice (1 + 1) (length sb) p = sb" "drop (1 + 1 + length sb) p = forwarded"
    using n by (simp_all add: p_def slice_def)
  have "(length forwarded \<ge> 1 \<and> hd forwarded = NET_PACKET_FORWARD_REQUEST) = (forwarded \<noteq> [] \<and> hd forwarded = NET_PACKET_FORWARD_REQUEST)"
    "(0 < length sb) = (sb \<noteq> [])" by (cases forwarded; simp) simp
  then show ?thesis
    unfolding p_def [symmetric] handle_forwarding_def using parts by (simp add: FORWARDING_MIN_PACKET_SIZE_def)
qed

lemma reply_sent:
  assumes "length sb \<le> MAX_SENDBACK_SIZE" "length reply \<le> MAX_FORWARD_DATA_SIZE"
  shows "sent (snd (forward_reply h dht a sb reply)) = sent dht @ [(a, NET_PACKET_FORWARD_REPLY # of_nat (length sb) # sb @ reply)]"
  using assms by (simp add: forward_reply_def dht_send_def Let_def)

lemma last_hop_sent:
  assumes "length reply \<le> MAX_FORWARD_DATA_SIZE"
  shows "sent (fw_dht (snd (send_forwarding h mem fw a [] reply))) = sent (fw_dht fw) @ [(a, NET_PACKET_FORWARDING # 0 # reply)]"
  using assms by (simp add: send_forwarding_def create_forwarding_packet_def dht_send_def)

lemma chain_of_two:
  assumes "length k2 = 32" "length kd = 32" "length data \<le> MAX_FORWARD_DATA_SIZE"
  shows "sent (snd (send_forward_request h dht a (k2 @ kd) 2 data)) =
    sent dht @ [(a, NET_PACKET_FORWARD_REQUEST # k2 @ NET_PACKET_FORWARD_REQUEST # kd @ data)]"
  using assms by (simp add: send_forward_request_def create_forward_chain_packet_def dht_send_def slice_def size_defs upt_rec numeral_2_eq_2)

section \<open>Properties\<close>

text \<open>C9: A request sent along a chain of two forwarders reaches the node at its end with exactly the data, and a reply that this node sends with the sendback it
  was given comes back through the same forwarders to the node that asked. The forwarders store nothing; they find the way back in
  the sendback, for one hour.\<close>

theorem forward_round_trip:
  assumes "hmac_platform (plat h1)" "hmac_platform (plat h2)" "\<forall>n. length (mem n) = n"
    and "length k2 = 32" "length kd = 32" "length data \<le> MAX_FORWARD_DATA_SIZE - 33" "data = [] \<or> hd data \<noteq> NET_PACKET_FORWARD_REQUEST"
    and "length reply \<le> MAX_FORWARD_DATA_SIZE" "reply = [] \<or> hd reply \<noteq> NET_PACKET_FORWARD_REQUEST"
    and "udp_address asker" "udp_address a1" "reaches h1 (fw_dht fw1) k2 a2" "reaches h2 (fw_dht fw2) kd ad" "still fw1 fw1'" "still fw2 fw2'"
    and "forwarded_request_callback fwd = Some f" "forwarded_response_callback fwr = Some g"
  shows "\<exists>p0 p1 p2 sb q2 q1 q0.
    sent (snd (send_forward_request h dht f1 (k2 @ kd) 2 data)) = sent dht @ [(f1, p0)] \<and>
    sent (fw_dht (snd (handle_forward_request h1 mem fw1 asker p0))) = sent (fw_dht fw1) @ [(a2, p1)] \<and>
    sent (fw_dht (snd (handle_forwarding h2 mem fw2 a1 p1))) = sent (fw_dht fw2) @ [(ad, p2)] \<and>
    handle_forwarding h mem fwd s2 p2 = (0, fwd\<lparr>fw_called := fw_called fwd @ [Forwarded_request f s2 sb data]\<rparr>) \<and>
    sent (snd (forward_reply h d4 s2 sb reply)) = sent d4 @ [(s2, q2)] \<and>
    sent (fw_dht (snd (handle_forward_reply h2 mem result fw2' q2))) = sent (fw_dht fw2') @ [(a1, q1)] \<and>
    sent (fw_dht (snd (handle_forward_reply h1 mem result fw1' q1))) = sent (fw_dht fw1') @ [(asker, q0)] \<and>
    handle_forwarding h mem fwr s1 q0 = (0, fwr\<lparr>fw_called := fw_called fwr @ [Forwarded_response g reply]\<rparr>)"
proof -
  obtain x where x: "pack_ip_port MAX_PACKED_IPPORT_SIZE asker = Some x" "length x \<le> 19" "\<forall>rest. unpack_ip_port (x @ rest) False = Some (length x, asker)"
    using udp_address_packs [OF assms(10)] by metis
  obtain y where y: "pack_ip_port MAX_PACKED_IPPORT_SIZE a1 = Some y" "length y \<le> 19" "\<forall>rest. unpack_ip_port (y @ rest) False = Some (length y, a1)"
    using udp_address_packs [OF assms(11)] by metis
  define b1 where "b1 = SENDBACK_IPPORT # x"
  define s1 where "s1 = sendback (plat h1) (dht_mono_time (fw_dht fw1)) (fw_hmac_key fw1) b1"
  define b2 where "b2 = SENDBACK_FORWARD # y @ s1"
  define s2 where "s2 = sendback (plat h2) (dht_mono_time (fw_dht fw2)) (fw_hmac_key fw2) b2"
  have keys: "length (fw_hmac_key fw1) = 32" "length (fw_hmac_key fw2) = 32" using assms(14,15) by (simp_all add: still_def)
  have l: "length s1 = 32 + length b1" "length s2 = 32 + length b2" "length b1 \<le> 20" "length b2 \<le> 72"
    using x(2) y(2) sendback_length [OF assms(1) keys(1)] sendback_length [OF assms(2) keys(2)] by (simp_all add: b1_def b2_def s1_def s2_def)
  have ne: "b1 \<noteq> []" "b2 \<noteq> []" "s1 \<noteq> []" "s2 \<noteq> []" using l by (auto simp: b1_def b2_def)
  let ?rest = "NET_PACKET_FORWARD_REQUEST # kd @ data"
  have small: "length ?rest \<le> MAX_FORWARD_DATA_SIZE" "length data \<le> MAX_FORWARD_DATA_SIZE" using assms(5,6) by (simp_all add: size_defs)
  have "handle_forward_request h1 mem fw1 asker (NET_PACKET_FORWARD_REQUEST # k2 @ ?rest) =
      (case handle_forward_request_dht h1 mem fw1 b1 (NET_PACKET_FORWARD_REQUEST # k2 @ ?rest) of (ok, fw) \<Rightarrow> (if ok then 0 else 1, fw))"
    by (simp add: handle_forward_request_def x(1) b1_def)
  then have step1: "sent (fw_dht (snd (handle_forward_request h1 mem fw1 asker (NET_PACKET_FORWARD_REQUEST # k2 @ ?rest)))) =
      sent (fw_dht fw1) @ [(a2, NET_PACKET_FORWARDING # of_nat (length s1) # s1 @ ?rest)]"
    using request_passed_on [OF assms(3) ne(1) _ assms(4) small(1) assms(12)] l(1,3) by (simp add: s1_def case_prod_beta)
  have step2: "sent (fw_dht (snd (handle_forwarding h2 mem fw2 a1 (NET_PACKET_FORWARDING # of_nat (length s1) # s1 @ ?rest)))) =
      sent (fw_dht fw2) @ [(ad, NET_PACKET_FORWARDING # of_nat (length s2) # s2 @ data)]"
    using request_passed_on [OF assms(3) ne(2) _ assms(5) small(2) assms(13)] l forwarded_parts [of s1 h2 mem fw2 a1 ?rest]
    by (simp add: y(1) b2_def [symmetric] s2_def case_prod_beta)
  have step3: "handle_forwarding h mem fwd s2' (NET_PACKET_FORWARDING # of_nat (length s2) # s2 @ data) =
      (0, fwd\<lparr>fw_called := fw_called fwd @ [Forwarded_request f s2' s2 data]\<rparr>)" for s2'
    using forwarded_parts [of s2 h mem fwd s2' data] l assms(7,16) ne(4) by auto
  have fits: "length s1 \<le> MAX_SENDBACK_SIZE" "length s2 \<le> MAX_SENDBACK_SIZE" using l by (simp_all add: size_defs)
  have heads: "hd b1 = SENDBACK_IPPORT" "tl b1 = x @ []" "hd b2 \<noteq> SENDBACK_IPPORT" "hd b2 = SENDBACK_FORWARD" "tl b2 = y @ s1" "drop (1 + length y) b2 = s1" "length x = length b1 - 1"
    by (simp_all add: b1_def b2_def SENDBACK_IPPORT_def SENDBACK_FORWARD_def)
  have open2: "handle_forward_reply h2 mem result fw2' (NET_PACKET_FORWARD_REPLY # of_nat (length s2) # s2 @ reply) =
      (case forward_reply h2 (fw_dht fw2') a1 s1 reply of (ok, dht) \<Rightarrow> (if ok then 0 else 1, fw2'\<lparr>fw_dht := dht\<rparr>))"
    using reply_opened [OF assms(2,3) ne(2) _ assms(15), of result reply, folded s2_def, folded l(2)] l(4) heads y(3) by (simp del: append_Nil2)
  have open1: "handle_forward_reply h1 mem result fw1' (NET_PACKET_FORWARD_REPLY # of_nat (length s1) # s1 @ reply) =
      (case send_forwarding h1 mem fw1' asker [] reply of (ok, fw) \<Rightarrow> (if ok then 0 else 1, fw))"
    using reply_opened [OF assms(1,3) ne(1) _ assms(14), of result reply, folded s1_def, folded l(1)] l(3) heads x(3) by (simp del: append_Nil2)
  have step5: "sent (fw_dht (snd (handle_forward_reply h2 mem result fw2' (NET_PACKET_FORWARD_REPLY # of_nat (length s2) # s2 @ reply)))) =
      sent (fw_dht fw2') @ [(a1, NET_PACKET_FORWARD_REPLY # of_nat (length s1) # s1 @ reply)]"
    unfolding open2 using reply_sent [OF fits(1) assms(8), of h2 "fw_dht fw2'" a1] by (simp add: case_prod_beta)
  have step6: "sent (fw_dht (snd (handle_forward_reply h1 mem result fw1' (NET_PACKET_FORWARD_REPLY # of_nat (length s1) # s1 @ reply)))) =
      sent (fw_dht fw1') @ [(asker, NET_PACKET_FORWARDING # 0 # reply)]"
    unfolding open1 using last_hop_sent [OF assms(8), of h1 mem fw1' asker] by (simp add: case_prod_beta)
  have step7: "handle_forwarding h mem fwr s' (NET_PACKET_FORWARDING # 0 # reply) = (0, fwr\<lparr>fw_called := fw_called fwr @ [Forwarded_response g reply]\<rparr>)" for s'
    using forwarded_parts [of "[]" h mem fwr s' reply] assms(9,17) by auto
  show ?thesis
    using chain_of_two [OF assms(4,5) small(2)] step1 step2 step3 reply_sent [OF fits(2) assms(8)] step5 step6 step7 by blast
qed

text \<open>A node that knows the node with the key \<open>k\<close>.\<close>

definition example_forwarder :: "byte \<Rightarrow> Forwarding" where
  "example_forwarder k = \<lparr>fw_dht = (example_dht (replicate 32 1) (replicate 32 1))\<lparr>close_clientlist :=
       [empty_client\<lparr>cd_public_key := replicate 32 k, assoc4 := empty_ipptspng\<lparr>assoc_ip_port := example_ipp\<rparr>\<rparr>]\<rparr>,
     fw_hmac_key = replicate 32 9, forward_reply_callback = None, forwarded_request_callback = Some 5, forwarded_response_callback = Some 6, fw_called = []\<rparr>"

theorem forward_round_trip_witness:
  "\<exists>p0 p1 p2 sb q2 q1 q0.
    sent (snd (send_forward_request example_host (example_dht [] []) example_ipp (replicate 32 2 @ replicate 32 3) 2 [7, 8])) = [(example_ipp, p0)] \<and>
    sent (fw_dht (snd (handle_forward_request example_host (\<lambda>n. replicate n 0) (example_forwarder 2) example_ipp p0))) = [(example_ipp, p1)] \<and>
    sent (fw_dht (snd (handle_forwarding example_host (\<lambda>n. replicate n 0) (example_forwarder 3) example_ipp p1))) = [(example_ipp, p2)] \<and>
    fw_called (snd (handle_forwarding example_host (\<lambda>n. replicate n 0) (example_forwarder 4) example_ipp p2)) = [Forwarded_request 5 example_ipp sb [7, 8]] \<and>
    sent (snd (forward_reply example_host (example_dht [] []) example_ipp sb [9])) = [(example_ipp, q2)] \<and>
    sent (fw_dht (snd (handle_forward_reply example_host (\<lambda>n. replicate n 0) False (example_forwarder 3) q2))) = [(example_ipp, q1)] \<and>
    sent (fw_dht (snd (handle_forward_reply example_host (\<lambda>n. replicate n 0) False (example_forwarder 2) q1))) = [(example_ipp, q0)] \<and>
    fw_called (snd (handle_forwarding example_host (\<lambda>n. replicate n 0) (example_forwarder 4) example_ipp q0)) = [Forwarded_response 6 [9]]"
proof -
  have h: "hmac_platform (plat example_host)" using hp.hmac_platform_axioms by (simp add: example_host_def)
  have u: "udp_address example_ipp" by (simp add: udp_address_def example_ipp_def ip_wf_def)
  have pos: "find_index (\<lambda>c. pk_equal (replicate 32 k) (cd_public_key c)) (close_clientlist (fw_dht (example_forwarder k))) = Some 0" for k
    by (simp add: example_forwarder_def pk_equal_iff)
  have isset: "ip_isset (ip example_ipp)" "\<not> ip_isset (ip (assoc_ip_port empty_ipptspng))"
    by (simp_all add: ip_isset_def net_family_is_unspec_def example_ipp_def empty_ipptspng_def empty_ip_port_def empty_ip_def size_defs)
  have r: "reaches example_host (fw_dht (example_forwarder k)) (replicate 32 k) example_ipp" for k
    unfolding reaches_def route_packet_def pos using isset by (simp add: example_forwarder_def dht_send_def empty_client_def)
  have st: "still (example_forwarder k) (example_forwarder k)" for k by (simp add: still_def example_forwarder_def)
  have cb: "forwarded_request_callback (example_forwarder 4) = Some 5" "forwarded_response_callback (example_forwarder 4) = Some 6"
    "fw_called (example_forwarder 4) = []" "\<And>k. sent (fw_dht (example_forwarder k)) = []" "sent (example_dht [] []) = []"
    by (simp_all add: example_forwarder_def example_dht_def)
  have d: "\<forall>n. length (replicate n (0 :: byte)) = n" "length (replicate 32 (2 :: byte)) = 32" "length (replicate 32 (3 :: byte)) = 32"
    "length [7, 8 :: byte] \<le> MAX_FORWARD_DATA_SIZE - 33" "[7, 8] = [] \<or> hd [7, 8] \<noteq> NET_PACKET_FORWARD_REQUEST"
    "length [9 :: byte] \<le> MAX_FORWARD_DATA_SIZE" "[9] = [] \<or> hd [9] \<noteq> NET_PACKET_FORWARD_REQUEST" by (simp_all add: size_defs)
  show ?thesis
    using forward_round_trip [OF h h d u u r r st st cb(1,2), where h = example_host and dht = "example_dht [] []" and ?f1.0 = example_ipp
        and ?s2.0 = example_ipp and ?d4.0 = "example_dht [] []" and result = False and ?s1.0 = example_ipp]
    unfolding cb(4,5) by (auto simp: cb(3))
qed

end
