(* ===== verification/TCP_Server.thy ===== *)
theory TCP_Server
  imports TCP_Common BS_List Onion Forwarding
begin

text \<open>
  \<^verbatim>\<open>toxcore/TCP_server.c\<close>: a relay for clients that cannot reach each other. A client connects, shakes hands, confirms the connection with its
  first packet and then asks for connections to the keys of other clients. When two clients asked for each other, the relay links the
  two slots and passes packets between them. It also passes out-of-band packets, onion packets and packets to be forwarded.

  The array of accepted connections is a list that is empty when the pointer is null; a pointer to one of its elements is the index. A result \<open>None\<close> is a read or
  write outside an array or through a null pointer. The calls of the relay to the onion and to the forwarding module, and the sockets it closes, are recorded in
  order. The host answers the calls on sockets and of \<^verbatim>\<open>epoll\<close>; whether the server is built with \<^verbatim>\<open>epoll\<close> is a field of it.
\<close>

section \<open>State\<close>

definition NUM_RESERVED_PORTS :: byte where [size_defs]: "NUM_RESERVED_PORTS = 16"
definition NUM_CLIENT_CONNECTIONS :: nat where [size_defs]: "NUM_CLIENT_CONNECTIONS = 256 - unat NUM_RESERVED_PORTS"
definition TCP_PACKET_ROUTING_REQUEST :: byte where [size_defs]: "TCP_PACKET_ROUTING_REQUEST = 0"
definition TCP_PACKET_ROUTING_RESPONSE :: byte where [size_defs]: "TCP_PACKET_ROUTING_RESPONSE = 1"
definition TCP_PACKET_CONNECTION_NOTIFICATION :: byte where [size_defs]: "TCP_PACKET_CONNECTION_NOTIFICATION = 2"
definition TCP_PACKET_DISCONNECT_NOTIFICATION :: byte where [size_defs]: "TCP_PACKET_DISCONNECT_NOTIFICATION = 3"
definition TCP_PACKET_PING :: byte where [size_defs]: "TCP_PACKET_PING = 4"
definition TCP_PACKET_PONG :: byte where [size_defs]: "TCP_PACKET_PONG = 5"
definition TCP_PACKET_OOB_SEND :: byte where [size_defs]: "TCP_PACKET_OOB_SEND = 6"
definition TCP_PACKET_OOB_RECV :: byte where [size_defs]: "TCP_PACKET_OOB_RECV = 7"
definition TCP_PACKET_ONION_REQUEST :: byte where [size_defs]: "TCP_PACKET_ONION_REQUEST = 8"
definition TCP_PACKET_ONION_RESPONSE :: byte where [size_defs]: "TCP_PACKET_ONION_RESPONSE = 9"
definition TCP_PACKET_FORWARD_REQUEST :: byte where [size_defs]: "TCP_PACKET_FORWARD_REQUEST = 10"
definition TCP_PACKET_FORWARDING :: byte where [size_defs]: "TCP_PACKET_FORWARDING = 11"
definition TCP_HANDSHAKE_PLAIN_SIZE :: nat where [size_defs]: "TCP_HANDSHAKE_PLAIN_SIZE = CRYPTO_PUBLIC_KEY_SIZE + CRYPTO_NONCE_SIZE"
definition TCP_SERVER_HANDSHAKE_SIZE :: nat where
  [size_defs]: "TCP_SERVER_HANDSHAKE_SIZE = CRYPTO_NONCE_SIZE + TCP_HANDSHAKE_PLAIN_SIZE + CRYPTO_MAC_SIZE"
definition TCP_CLIENT_HANDSHAKE_SIZE :: nat where [size_defs]: "TCP_CLIENT_HANDSHAKE_SIZE = CRYPTO_PUBLIC_KEY_SIZE + TCP_SERVER_HANDSHAKE_SIZE"
definition TCP_MAX_OOB_DATA_LENGTH :: nat where [size_defs]: "TCP_MAX_OOB_DATA_LENGTH = 1024"
definition TCP_PING_FREQUENCY :: u64 where [size_defs]: "TCP_PING_FREQUENCY = 30"
definition TCP_PING_TIMEOUT :: u64 where [size_defs]: "TCP_PING_TIMEOUT = 10"
definition MAX_INCOMING_CONNECTIONS :: nat where [size_defs]: "MAX_INCOMING_CONNECTIONS = 256"
definition sizeof_TCP_Secure_Connection :: nat where [size_defs]: "sizeof_TCP_Secure_Connection = 11872"
definition sizeof_TCP_Server :: nat where [size_defs]: "sizeof_TCP_Server = 6078736"

datatype TCP_Status = TCP_STATUS_NO_STATUS | TCP_STATUS_CONNECTED | TCP_STATUS_UNCONFIRMED | TCP_STATUS_CONFIRMED

record TCP_Secure_Conn =
  sn_public_key :: bytes
  sn_index :: u32
  sn_status :: byte
  sn_other_id :: byte

record TCP_Secure_Connection =
  sc_con :: TCP_Connection
  sc_public_key :: bytes
  sc_recv_nonce :: bytes
  sc_next_packet_length :: u16
  connections :: "TCP_Secure_Conn list"
  sc_status :: TCP_Status
  sc_identifier :: u64
  sc_last_pinged :: u64
  sc_ping_id :: u64

datatype socket_kind = TCP_SOCKET_LISTENING | TCP_SOCKET_INCOMING | TCP_SOCKET_UNCONFIRMED | TCP_SOCKET_CONFIRMED

datatype server_call =
    Call_onion_send_1 bytes IP_Port bytes
  | Call_send_forwarding IP_Port bytes bytes
  | Call_kill_sock Sock
  | Call_kill_listening nat
  | Call_epoll_ctl socket_kind nat

record TCP_Server =
  srv_rng :: Random
  srv_onion :: bool
  srv_forwarding :: bool
  num_listening_socks :: nat
  srv_public_key :: bytes
  srv_secret_key :: bytes
  incoming_connection_queue :: "TCP_Secure_Connection list"
  incoming_connection_queue_index :: u16
  unconfirmed_connection_queue :: "TCP_Secure_Connection list"
  unconfirmed_connection_queue_index :: u16
  accepted_connection_array :: "TCP_Secure_Connection list"
  num_accepted_connections :: u32
  counter :: u64
  accepted_key_list :: BS_List
  last_run_pinged :: u64
  srv_calls :: "server_call list"
  host_calls :: nat

text \<open>An event of \<^verbatim>\<open>epoll\<close>: whether an error or a hangup is reported, whether there is input, and the kind and the index that the socket was registered with.
  Listening sockets are registered with the number 0; they are identified by their place in the array of listening sockets.\<close>

record epoll_event =
  ev_error :: bool
  ev_in :: bool
  ev_kind :: socket_kind
  ev_index :: nat

text \<open>The host: NaCl and memory, the address of a new list node, the contents of uninitialised memory, the key derivation, and the answers to the calls on
  listening and new sockets and of \<^verbatim>\<open>epoll\<close>, which depend on the number of calls so far.\<close>

record listen_answers =
  la_socket :: bool
  la_nonblock :: bool
  la_dualstack :: bool
  la_reuseaddr :: bool
  la_bind :: bool
  la_listen :: bool

record tcp_env =
  te_plat :: platform
  te_calloc :: "(nat \<rightharpoonup> TCP_Priority_List) \<Rightarrow> nat option"
  te_fill :: "byte \<times> int"
  te_stack :: bytes
  te_derive :: "bytes \<Rightarrow> bytes"
  te_listen :: "u16 \<Rightarrow> listen_answers"
  te_accept :: "nat \<Rightarrow> nat \<Rightarrow> Sock option"
  te_nonblock :: "Sock \<Rightarrow> bool"
  te_nosigpipe :: "Sock \<Rightarrow> bool"
  te_use_epoll :: bool
  te_epoll_create :: bool
  te_epoll_ctl :: "nat \<Rightarrow> bool"
  te_epoll_wait :: "nat \<Rightarrow> epoll_event list"

definition null_sock :: Sock where
  "null_sock = \<lparr>sk_send = (\<lambda>_ _. - 1), sk_recv = (\<lambda>_ _ _. - 1), sk_count = (\<lambda>_ _. 0), sk_calls = 0, sk_wire = [], sk_in = []\<rparr>"

definition zero_secure_conn :: TCP_Secure_Conn where
  "zero_secure_conn = \<lparr>sn_public_key = replicate 32 0, sn_index = 0, sn_status = 0, sn_other_id = 0\<rparr>"

definition zero_tcp_connection :: TCP_Connection where
  "zero_tcp_connection = \<lparr>tc_ns = False, tc_sock = null_sock, tc_ip_port = empty_ip_port, tc_sent_nonce = replicate 24 0, tc_shared_key = replicate 32 0,
     last_packet = replicate (2 + MAX_PACKET_SIZE) 0, last_packet_length = 0, last_packet_sent = 0, priority_queue_start = None, priority_queue_end = None,
     pq_heap = Map.empty\<rparr>"

definition zero_secure_connection :: TCP_Secure_Connection where
  "zero_secure_connection = \<lparr>sc_con = zero_tcp_connection, sc_public_key = replicate 32 0, sc_recv_nonce = replicate 24 0, sc_next_packet_length = 0,
     connections = replicate NUM_CLIENT_CONNECTIONS zero_secure_conn, sc_status = TCP_STATUS_NO_STATUS, sc_identifier = 0, sc_last_pinged = 0, sc_ping_id = 0\<rparr>"

definition log_srv :: "server_call \<Rightarrow> TCP_Server \<Rightarrow> TCP_Server" where
  "log_srv c srv = srv\<lparr>srv_calls := srv_calls srv @ [c]\<rparr>"

definition tcp_server_public_key :: "TCP_Server \<Rightarrow> bytes" where
  "tcp_server_public_key srv = srv_public_key srv"

definition tcp_server_listen_count :: "TCP_Server \<Rightarrow> nat" where
  "tcp_server_listen_count srv = num_listening_socks srv"

section \<open>The array of connections\<close>

definition alloc_new_connections :: "platform \<Rightarrow> TCP_Server \<Rightarrow> u32 \<Rightarrow> int \<times> TCP_Server" where
  "alloc_new_connections P srv num =
     (let size = of_nat (length (accepted_connection_array srv)) :: u32; new_size = size + num
      in if new_size < size then (- 1, srv)
         else if \<not> malloc_ok P (unat new_size * sizeof_TCP_Secure_Connection) then (- 1, srv)
         else (0, srv\<lparr>accepted_connection_array := accepted_connection_array srv @ replicate (unat num) zero_secure_connection\<rparr>))"

text \<open>The nodes of the list of priority packets are freed before the structure is zeroed.\<close>

definition wipe_secure_connection :: "TCP_Secure_Connection \<Rightarrow> TCP_Secure_Connection option" where
  "wipe_secure_connection con =
     (if sc_status con \<noteq> TCP_STATUS_NO_STATUS then
        do { _ \<leftarrow> wipe_priority_list (pq_heap (sc_con con)) (priority_queue_start (sc_con con)); Some zero_secure_connection }
      else Some con)"

fun wipe_all :: "TCP_Secure_Connection list \<Rightarrow> unit option" where
  "wipe_all [] = Some ()"
| "wipe_all (con # cons) = do { _ \<leftarrow> wipe_secure_connection con; wipe_all cons }"

definition free_accepted_connection_array :: "TCP_Server \<Rightarrow> TCP_Server option" where
  "free_accepted_connection_array srv =
     do { _ \<leftarrow> wipe_all (accepted_connection_array srv); Some (srv\<lparr>accepted_connection_array := []\<rparr>) }"

definition get_TCP_connection_index :: "TCP_Server \<Rightarrow> bytes \<Rightarrow> int option" where
  "get_TCP_connection_index srv public_key = bs_list_find (accepted_key_list srv) public_key"

definition accepted :: "TCP_Server \<Rightarrow> nat \<Rightarrow> TCP_Secure_Connection option" where
  "accepted srv i = (if i < length (accepted_connection_array srv) then Some (accepted_connection_array srv ! i) else None)"

definition set_accepted :: "nat \<Rightarrow> TCP_Secure_Connection \<Rightarrow> TCP_Server \<Rightarrow> TCP_Server" where
  "set_accepted i con srv = srv\<lparr>accepted_connection_array := (accepted_connection_array srv)[i := con]\<rparr>"

definition write_accepted :: "tcp_env \<Rightarrow> nat \<Rightarrow> bytes \<Rightarrow> bool \<Rightarrow> TCP_Server \<Rightarrow> (int \<times> TCP_Server) option" where
  "write_accepted E i data priority srv =
     do {
       con \<leftarrow> accepted srv i;
       (ret, c) \<leftarrow> write_packet_TCP_secure_connection (te_plat E) (te_calloc E (pq_heap (sc_con con))) (sc_con con) data priority;
       Some (ret, set_accepted i (con\<lparr>sc_con := c\<rparr>) srv)
     }"

definition get_conn :: "TCP_Secure_Connection \<Rightarrow> nat \<Rightarrow> TCP_Secure_Conn option" where
  "get_conn con n = (if n < NUM_CLIENT_CONNECTIONS then Some (connections con ! n) else None)"

definition upd_conn :: "nat \<Rightarrow> nat \<Rightarrow> (TCP_Secure_Conn \<Rightarrow> TCP_Secure_Conn) \<Rightarrow> TCP_Server \<Rightarrow> TCP_Server option" where
  "upd_conn i n f srv =
     do {
       con \<leftarrow> accepted srv i;
       c \<leftarrow> get_conn con n;
       Some (set_accepted i (con\<lparr>connections := (connections con)[n := f c]\<rparr>) srv)
     }"

section \<open>Notifications\<close>

definition send_routing_response :: "tcp_env \<Rightarrow> nat \<Rightarrow> byte \<Rightarrow> bytes \<Rightarrow> TCP_Server \<Rightarrow> (int \<times> TCP_Server) option" where
  "send_routing_response E i rpid public_key srv =
     write_accepted E i ([TCP_PACKET_ROUTING_RESPONSE, rpid] @ take CRYPTO_PUBLIC_KEY_SIZE public_key) True srv"

definition send_connect_notification :: "tcp_env \<Rightarrow> nat \<Rightarrow> byte \<Rightarrow> TCP_Server \<Rightarrow> (int \<times> TCP_Server) option" where
  "send_connect_notification E i n srv = write_accepted E i [TCP_PACKET_CONNECTION_NOTIFICATION, n + NUM_RESERVED_PORTS] True srv"

definition send_disconnect_notification :: "tcp_env \<Rightarrow> nat \<Rightarrow> byte \<Rightarrow> TCP_Server \<Rightarrow> (int \<times> TCP_Server) option" where
  "send_disconnect_notification E i n srv = write_accepted E i [TCP_PACKET_DISCONNECT_NOTIFICATION, n + NUM_RESERVED_PORTS] True srv"

definition rm_connection_index :: "tcp_env \<Rightarrow> TCP_Server \<Rightarrow> nat \<Rightarrow> byte \<Rightarrow> (int \<times> TCP_Server) option" where
  "rm_connection_index E srv i con_number =
     (if unat con_number \<ge> NUM_CLIENT_CONNECTIONS then Some (- 1, srv)
      else do {
        con \<leftarrow> accepted srv i;
        c \<leftarrow> get_conn con (unat con_number);
        if sn_status c = 0 then Some (- 1, srv)
        else if sn_status c = 2 \<and> unat (sn_index c) \<ge> length (accepted_connection_array srv) then Some (- 1, srv)
        else do {
          srv \<leftarrow> (if sn_status c = 2 then do {
              srv \<leftarrow> upd_conn (unat (sn_index c)) (unat (sn_other_id c)) (\<lambda>x. x\<lparr>sn_other_id := 0, sn_index := 0, sn_status := 1\<rparr>) srv;
              (_, srv) \<leftarrow> send_disconnect_notification E (unat (sn_index c)) (sn_other_id c) srv;
              Some srv
            }
            else Some srv);
          srv \<leftarrow> upd_conn i (unat con_number) (\<lambda>x. x\<lparr>sn_index := 0, sn_other_id := 0, sn_status := 0\<rparr>) srv;
          Some (0, srv)
        }
      })"

section \<open>Adding and removing connections\<close>

definition del_accepted :: "tcp_env \<Rightarrow> TCP_Server \<Rightarrow> nat \<Rightarrow> (int \<times> TCP_Server) option" where
  "del_accepted E srv i =
     (case accepted srv i of
        None \<Rightarrow> Some (- 1, srv)
      | Some con \<Rightarrow>
          if sc_status con = TCP_STATUS_NO_STATUS then Some (- 1, srv)
          else do {
            (ok, keys) \<leftarrow> bs_list_remove (te_plat E) (te_fill E) (accepted_key_list srv) (sc_public_key con) (int i);
            let srv = srv\<lparr>accepted_key_list := keys\<rparr>;
            if \<not> ok then Some (- 1, srv)
            else do {
              con \<leftarrow> wipe_secure_connection con;
              let srv = (set_accepted i con srv)\<lparr>num_accepted_connections := num_accepted_connections srv - 1\<rparr>;
              srv \<leftarrow> (if num_accepted_connections srv = 0 then free_accepted_connection_array srv else Some srv);
              Some (0, srv)
            }
          })"

fun rm_connections :: "tcp_env \<Rightarrow> nat \<Rightarrow> nat list \<Rightarrow> TCP_Server \<Rightarrow> TCP_Server option" where
  "rm_connections E i [] srv = Some srv"
| "rm_connections E i (n # ns) srv = do { (_, srv) \<leftarrow> rm_connection_index E srv i (of_nat n); rm_connections E i ns srv }"

definition kill_accepted :: "tcp_env \<Rightarrow> TCP_Server \<Rightarrow> nat \<Rightarrow> (int \<times> TCP_Server) option" where
  "kill_accepted E srv i =
     (if i \<ge> length (accepted_connection_array srv) then Some (- 1, srv)
      else do {
        srv \<leftarrow> rm_connections E i [0..<NUM_CLIENT_CONNECTIONS] srv;
        con \<leftarrow> accepted srv i;
        (r, srv) \<leftarrow> del_accepted E srv i;
        Some (if r \<noteq> 0 then (- 1, srv) else (0, log_srv (Call_kill_sock (tc_sock (sc_con con))) srv))
      })"

definition last_free :: "TCP_Secure_Connection list \<Rightarrow> nat option" where
  "last_free cons = (case filter (\<lambda>i. sc_status (cons ! i) = TCP_STATUS_NO_STATUS) (rev [0..<length cons]) of [] \<Rightarrow> None | i # _ \<Rightarrow> Some i)"

text \<open>The third result is what is left of the connection: it is moved into the array on success.\<close>

definition add_accepted :: "tcp_env \<Rightarrow> Mono_Time \<Rightarrow> TCP_Server \<Rightarrow> TCP_Secure_Connection \<Rightarrow> (nat option \<times> TCP_Server \<times> TCP_Secure_Connection) option" where
  "add_accepted E mt srv con =
     do {
       old \<leftarrow> get_TCP_connection_index srv (sc_public_key con);
       srv \<leftarrow> (if old \<noteq> - 1 then do { (_, srv) \<leftarrow> kill_accepted E srv (nat old); Some srv } else Some srv);
       let (index, srv) =
         (if of_nat (length (accepted_connection_array srv)) = num_accepted_connections srv then
            (case alloc_new_connections (te_plat E) srv 4 of
               (r, srv') \<Rightarrow> if r = - 1 then (None, srv) else (Some (unat (num_accepted_connections srv')), srv'))
          else (last_free (accepted_connection_array srv), srv));
       case index of
         None \<Rightarrow> Some (None, srv, con)
       | Some i \<Rightarrow> do {
           (ok, keys) \<leftarrow> bs_list_add (te_plat E) (te_fill E) (accepted_key_list srv) (sc_public_key con) (int i);
           let srv = srv\<lparr>accepted_key_list := keys\<rparr>;
           if \<not> ok then Some (None, srv, con)
           else do {
             _ \<leftarrow> accepted srv i;
             let new = con\<lparr>sc_status := TCP_STATUS_CONFIRMED, sc_identifier := counter srv + 1, sc_last_pinged := mono_time_get mt, sc_ping_id := 0\<rparr>;
             Some (Some i, (set_accepted i new srv)\<lparr>num_accepted_connections := num_accepted_connections srv + 1, counter := counter srv + 1\<rparr>,
               zero_secure_connection)
           }
         }
     }"

definition kill_TCP_secure_connection :: "TCP_Server \<Rightarrow> TCP_Secure_Connection \<Rightarrow> (TCP_Server \<times> TCP_Secure_Connection) option" where
  "kill_TCP_secure_connection srv con =
     do {
       _ \<leftarrow> (if tc_ns (sc_con con) then Some () else None);
       con' \<leftarrow> wipe_secure_connection con;
       Some (log_srv (Call_kill_sock (tc_sock (sc_con con))) srv, con')
     }"

section \<open>Handshake\<close>

text \<open>The results of both calls of \<^verbatim>\<open>encrypt_precompute\<close> are ignored: on failure the first key is what was on the stack, the second stays as it was.\<close>

definition handle_TCP_handshake ::
  "tcp_env \<Rightarrow> Random \<Rightarrow> TCP_Secure_Connection \<Rightarrow> bytes \<Rightarrow> bytes \<Rightarrow> (int \<times> Random \<times> TCP_Secure_Connection) option" where
  "handle_TCP_handshake E r con data self_sk =
     (if length data \<noteq> TCP_CLIENT_HANDSHAKE_SIZE then Some (- 1, r, con)
      else if sc_status con \<noteq> TCP_STATUS_CONNECTED then Some (- 1, r, con)
      else
        let public_key = take CRYPTO_PUBLIC_KEY_SIZE data;
            shared_key = (case encrypt_precompute (te_plat E) public_key self_sk of None \<Rightarrow> te_stack E | Some k \<Rightarrow> k)
        in case decrypt_data_symmetric (te_plat E) (Some shared_key) (slice CRYPTO_PUBLIC_KEY_SIZE CRYPTO_NONCE_SIZE data)
                  (slice (CRYPTO_PUBLIC_KEY_SIZE + CRYPTO_NONCE_SIZE) (TCP_HANDSHAKE_PLAIN_SIZE + CRYPTO_MAC_SIZE) data) of
             None \<Rightarrow> Some (- 1, r, con)
           | Some plain \<Rightarrow>
               if length plain \<noteq> TCP_HANDSHAKE_PLAIN_SIZE then Some (- 1, r, con)
               else
                 let ((temp_public_key, temp_secret_key), r) = crypto_new_keypair r;
                     (sent_nonce, r) = random_nonce r;
                     resp_plain = temp_public_key @ sent_nonce;
                     con = con\<lparr>sc_public_key := public_key, sc_recv_nonce := slice CRYPTO_PUBLIC_KEY_SIZE CRYPTO_NONCE_SIZE plain,
                               sc_con := (sc_con con)\<lparr>tc_sent_nonce := sent_nonce\<rparr>\<rparr>;
                     (nonce, r) = random_nonce r
                 in case encrypt_data_symmetric (te_plat E) (Some shared_key) nonce resp_plain of
                      None \<Rightarrow> Some (- 1, r, con)
                    | Some enc \<Rightarrow>
                        if length enc \<noteq> TCP_HANDSHAKE_PLAIN_SIZE + CRYPTO_MAC_SIZE then Some (- 1, r, con)
                        else do {
                          (n, c) \<leftarrow> con_send (sc_con con) (nonce @ enc);
                          let con = con\<lparr>sc_con := c\<rparr>;
                          if n \<noteq> int TCP_SERVER_HANDSHAKE_SIZE then Some (- 1, r, con)
                          else
                            let key = (case encrypt_precompute (te_plat E) (take CRYPTO_PUBLIC_KEY_SIZE plain) temp_secret_key of
                                         None \<Rightarrow> tc_shared_key c | Some k \<Rightarrow> k)
                            in Some (1, r, con\<lparr>sc_con := c\<lparr>tc_shared_key := key\<rparr>, sc_status := TCP_STATUS_UNCONFIRMED\<rparr>)
                        })"

definition read_connection_handshake ::
  "tcp_env \<Rightarrow> Random \<Rightarrow> TCP_Secure_Connection \<Rightarrow> bytes \<Rightarrow> (int \<times> Random \<times> TCP_Secure_Connection) option" where
  "read_connection_handshake E r con self_sk =
     (if \<not> tc_ns (sc_con con) then None
      else case read_TCP_packet (tc_sock (sc_con con)) TCP_CLIENT_HANDSHAKE_SIZE of
          (None, sock) \<Rightarrow> Some (0, r, con\<lparr>sc_con := (sc_con con)\<lparr>tc_sock := sock\<rparr>\<rparr>)
        | (Some data, sock) \<Rightarrow> handle_TCP_handshake E r (con\<lparr>sc_con := (sc_con con)\<lparr>tc_sock := sock\<rparr>\<rparr>) data self_sk)"

section \<open>Packets of clients\<close>

definition handle_TCP_routing_req :: "tcp_env \<Rightarrow> TCP_Server \<Rightarrow> nat \<Rightarrow> bytes \<Rightarrow> (int \<times> TCP_Server) option" where
  "handle_TCP_routing_req E srv con_id public_key =
     do {
       con \<leftarrow> accepted srv con_id;
       if pk_equal (sc_public_key con) public_key then do {
         (r, srv) \<leftarrow> send_routing_response E con_id 0 public_key srv;
         Some (if r = - 1 then - 1 else 0, srv)
       }
       else case find_index (\<lambda>c. sn_status c \<noteq> 0 \<and> pk_equal public_key (sn_public_key c)) (connections con) of
           Some i \<Rightarrow> do {
             (r, srv) \<leftarrow> send_routing_response E con_id (of_nat i + NUM_RESERVED_PORTS) public_key srv;
             Some (if r = - 1 then - 1 else 0, srv)
           }
         | None \<Rightarrow>
             (case find_index (\<lambda>c. sn_status c = 0) (connections con) of
                None \<Rightarrow> do {
                  (r, srv) \<leftarrow> send_routing_response E con_id 0 public_key srv;
                  Some (if r = - 1 then - 1 else 0, srv)
                }
              | Some index \<Rightarrow> do {
                  (ret, srv) \<leftarrow> send_routing_response E con_id (of_nat index + NUM_RESERVED_PORTS) public_key srv;
                  if ret = 0 then Some (0, srv)
                  else if ret = - 1 then Some (- 1, srv)
                  else do {
                    srv \<leftarrow> upd_conn con_id index (\<lambda>c. c\<lparr>sn_status := 1, sn_public_key := take CRYPTO_PUBLIC_KEY_SIZE public_key\<rparr>) srv;
                    other_index \<leftarrow> get_TCP_connection_index srv public_key;
                    if other_index = - 1 then Some (0, srv)
                    else do {
                      other_conn \<leftarrow> accepted srv (nat other_index);
                      case find_index (\<lambda>c. sn_status c = 1 \<and> pk_equal (sn_public_key c) (sc_public_key con)) (connections other_conn) of
                        None \<Rightarrow> Some (0, srv)
                      | Some other_id \<Rightarrow> do {
                          srv \<leftarrow> upd_conn con_id index (\<lambda>c. c\<lparr>sn_status := 2, sn_index := of_int other_index, sn_other_id := of_nat other_id\<rparr>) srv;
                          srv \<leftarrow> upd_conn (nat other_index) other_id (\<lambda>c. c\<lparr>sn_status := 2, sn_index := of_nat con_id, sn_other_id := of_nat index\<rparr>) srv;
                          (_, srv) \<leftarrow> send_connect_notification E con_id (of_nat index) srv;
                          (_, srv) \<leftarrow> send_connect_notification E (nat other_index) (of_nat other_id) srv;
                          Some (0, srv)
                        }
                    }
                  }
                })
     }"

definition handle_TCP_oob_send :: "tcp_env \<Rightarrow> TCP_Server \<Rightarrow> nat \<Rightarrow> bytes \<Rightarrow> bytes \<Rightarrow> (int \<times> TCP_Server) option" where
  "handle_TCP_oob_send E srv con_id public_key data =
     (if length data = 0 \<or> length data > TCP_MAX_OOB_DATA_LENGTH then Some (- 1, srv)
      else do {
        con \<leftarrow> accepted srv con_id;
        other_index \<leftarrow> get_TCP_connection_index srv public_key;
        if other_index = - 1 then Some (0, srv)
        else do {
          (_, srv) \<leftarrow> write_accepted E (nat other_index) (TCP_PACKET_OOB_RECV # take CRYPTO_PUBLIC_KEY_SIZE (sc_public_key con) @ data) False srv;
          Some (0, srv)
        }
      })"

definition con_id_to_ip_port :: "u32 \<Rightarrow> u64 \<Rightarrow> IP_Port" where
  "con_id_to_ip_port con_id ident =
     \<lparr>ip = \<lparr>family = TCP_CLIENT_FAMILY, addr = host_bytes 4 con_id @ replicate 4 0 @ host_bytes 8 ident\<rparr>, port = 0\<rparr>"

definition ip_port_to_con_id :: "TCP_Server \<Rightarrow> IP_Port \<Rightarrow> nat option" where
  "ip_port_to_con_id srv ip_port =
     (let con_id = unat (host_word (take 4 (addr (ip ip_port))) :: u32)
      in if net_family_is_tcp_client (family (ip ip_port)) \<and> con_id < length (accepted_connection_array srv) \<and>
            sc_identifier (accepted_connection_array srv ! con_id) = host_word (slice 8 8 (addr (ip ip_port))) then Some con_id else None)"

definition handle_onion_recv_1 :: "tcp_env \<Rightarrow> TCP_Server \<Rightarrow> IP_Port \<Rightarrow> bytes \<Rightarrow> (int \<times> TCP_Server) option" where
  "handle_onion_recv_1 E srv dest data =
     (case ip_port_to_con_id srv dest of
        None \<Rightarrow> Some (1, srv)
      | Some index \<Rightarrow> do {
          (r, srv) \<leftarrow> write_accepted E index (TCP_PACKET_ONION_RESPONSE # data) False srv;
          Some (if r \<noteq> 1 then 1 else 0, srv)
        })"

definition tcp_sendback_data :: "u32 \<Rightarrow> u64 \<Rightarrow> bytes" where
  "tcp_sendback_data con_id ident = SENDBACK_TCP # net_pack_u32 con_id @ net_pack_u64 ident"

definition handle_forward_reply_tcp :: "tcp_env \<Rightarrow> TCP_Server \<Rightarrow> bytes \<Rightarrow> bytes \<Rightarrow> (bool \<times> TCP_Server) option" where
  "handle_forward_reply_tcp E srv sendback_data data =
     (if length sendback_data \<noteq> 1 + 4 + 8 then Some (False, srv)
      else if hd sendback_data \<noteq> SENDBACK_TCP then Some (False, srv)
      else
        let con_id = unat (net_unpack_u32 (drop 1 sendback_data));
            ident = net_unpack_u64 (drop (1 + 4) sendback_data)
        in case accepted srv con_id of
             None \<Rightarrow> Some (False, srv)
           | Some con \<Rightarrow>
               if sc_identifier con \<noteq> ident then Some (False, srv)
               else do { (r, srv) \<leftarrow> write_accepted E con_id (TCP_PACKET_FORWARDING # data) False srv; Some (r = 1, srv) })"

definition handle_TCP_packet :: "tcp_env \<Rightarrow> TCP_Server \<Rightarrow> nat \<Rightarrow> bytes \<Rightarrow> (int \<times> TCP_Server) option" where
  "handle_TCP_packet E srv con_id data =
     (if length data = 0 then Some (- 1, srv)
      else do {
        con \<leftarrow> accepted srv con_id;
        let t = data ! 0;
        if t = TCP_PACKET_ROUTING_REQUEST then
          (if length data \<noteq> 1 + CRYPTO_PUBLIC_KEY_SIZE then Some (- 1, srv) else handle_TCP_routing_req E srv con_id (drop 1 data))
        else if t = TCP_PACKET_CONNECTION_NOTIFICATION then Some (if length data \<noteq> 2 then - 1 else 0, srv)
        else if t = TCP_PACKET_DISCONNECT_NOTIFICATION then
          (if length data \<noteq> 2 then Some (- 1, srv) else rm_connection_index E srv con_id (data ! 1 - NUM_RESERVED_PORTS))
        else if t = TCP_PACKET_PING then
          (if length data \<noteq> 1 + 8 then Some (- 1, srv)
           else do { (_, srv) \<leftarrow> write_accepted E con_id (TCP_PACKET_PONG # drop 1 data) True srv; Some (0, srv) })
        else if t = TCP_PACKET_PONG then
          (if length data \<noteq> 1 + 8 then Some (- 1, srv)
           else
             let pid = host_word (drop 1 data) :: u64
             in if pid \<noteq> 0 then Some (0, if pid = sc_ping_id con then set_accepted con_id (con\<lparr>sc_ping_id := 0\<rparr>) srv else srv)
                else Some (- 1, srv))
        else if t = TCP_PACKET_OOB_SEND then
          (if length data \<le> 1 + CRYPTO_PUBLIC_KEY_SIZE then Some (- 1, srv)
           else handle_TCP_oob_send E srv con_id (slice 1 CRYPTO_PUBLIC_KEY_SIZE data) (drop (1 + CRYPTO_PUBLIC_KEY_SIZE) data))
        else if t = TCP_PACKET_ONION_REQUEST then
          (if \<not> srv_onion srv then Some (0, srv)
           else if length data \<le> 1 + CRYPTO_NONCE_SIZE + ONION_SEND_BASE * 2 then Some (- 1, srv)
           else Some (0, log_srv (Call_onion_send_1 (drop (1 + CRYPTO_NONCE_SIZE) data) (con_id_to_ip_port (of_nat con_id) (sc_identifier con)) (drop 1 data)) srv))
        else if t = TCP_PACKET_ONION_RESPONSE then Some (- 1, srv)
        else if t = TCP_PACKET_FORWARD_REQUEST then
          (if \<not> srv_forwarding srv then Some (- 1, srv)
           else case unpack_ip_port (drop 1 data) False of
               None \<Rightarrow> Some (- 1, srv)
             | Some (ipport_length, dest) \<Rightarrow>
                 let forward_data = drop (1 + ipport_length) data
                 in if length forward_data > MAX_FORWARD_DATA_SIZE then Some (- 1, srv)
                    else Some (0, log_srv (Call_send_forwarding dest (tcp_sendback_data (of_nat con_id) (sc_identifier con)) forward_data) srv))
        else if t = TCP_PACKET_FORWARDING then Some (- 1, srv)
        else if t < NUM_RESERVED_PORTS then Some (- 1, srv)
        else
          let c_id = unat (t - NUM_RESERVED_PORTS)
          in if c_id \<ge> NUM_CLIENT_CONNECTIONS then Some (- 1, srv)
             else do {
               c \<leftarrow> get_conn con c_id;
               if sn_status c = 0 then Some (- 1, srv)
               else if sn_status c \<noteq> 2 then Some (0, srv)
               else do {
                 (ret, srv) \<leftarrow> write_accepted E (unat (sn_index c)) ((sn_other_id c + NUM_RESERVED_PORTS) # drop 1 data) False srv;
                 Some (if ret = - 1 then - 1 else 0, srv)
               }
             }
      })"

section \<open>Queues\<close>

definition set_incoming :: "nat \<Rightarrow> TCP_Secure_Connection \<Rightarrow> TCP_Server \<Rightarrow> TCP_Server" where
  "set_incoming i con srv = srv\<lparr>incoming_connection_queue := (incoming_connection_queue srv)[i := con]\<rparr>"

definition set_unconfirmed :: "nat \<Rightarrow> TCP_Secure_Connection \<Rightarrow> TCP_Server \<Rightarrow> TCP_Server" where
  "set_unconfirmed i con srv = srv\<lparr>unconfirmed_connection_queue := (unconfirmed_connection_queue srv)[i := con]\<rparr>"

text \<open>The connection is the one at \<open>i\<close> of the queue of unconfirmed connections; a log message at the end reads only memory.\<close>

definition confirm_TCP_connection :: "tcp_env \<Rightarrow> Mono_Time \<Rightarrow> TCP_Server \<Rightarrow> nat \<Rightarrow> bytes \<Rightarrow> (int \<times> TCP_Server) option" where
  "confirm_TCP_connection E mt srv i data =
     do {
       (index, srv, con) \<leftarrow> add_accepted E mt srv (unconfirmed_connection_queue srv ! i);
       case index of
         None \<Rightarrow> do {
           (srv, con) \<leftarrow> kill_TCP_secure_connection srv con;
           Some (- 1, set_unconfirmed i con srv)
         }
       | Some index \<Rightarrow> do {
           con \<leftarrow> wipe_secure_connection con;
           let srv = set_unconfirmed i con srv;
           (r, srv) \<leftarrow> handle_TCP_packet E srv index data;
           if r = - 1 then do { (_, srv) \<leftarrow> kill_accepted E srv index; Some (- 1, srv) }
           else Some (int index, srv)
         }
     }"

definition accept_connection :: "tcp_env \<Rightarrow> TCP_Server \<Rightarrow> Sock option \<Rightarrow> (int \<times> TCP_Server) option" where
  "accept_connection E srv sock =
     (case sock of
        None \<Rightarrow> Some (- 1, srv)
      | Some sock \<Rightarrow>
          if \<not> te_nonblock E sock then Some (- 1, log_srv (Call_kill_sock sock) srv)
          else if \<not> te_nosigpipe E sock then Some (- 1, log_srv (Call_kill_sock sock) srv)
          else
            let index = unat (incoming_connection_queue_index srv) mod MAX_INCOMING_CONNECTIONS;
                conn = incoming_connection_queue srv ! index
            in do {
                 (srv, conn) \<leftarrow> (if sc_status conn \<noteq> TCP_STATUS_NO_STATUS then kill_TCP_secure_connection srv conn else Some (srv, conn));
                 let conn = conn\<lparr>sc_status := TCP_STATUS_CONNECTED, sc_con := (sc_con conn)\<lparr>tc_ns := True, tc_sock := sock\<rparr>, sc_next_packet_length := 0\<rparr>;
                 Some (int index, (set_incoming index conn srv)\<lparr>incoming_connection_queue_index := incoming_connection_queue_index srv + 1\<rparr>)
               })"

definition new_listening_TCP_socket :: "tcp_env \<Rightarrow> bool \<Rightarrow> u16 \<Rightarrow> bool" where
  "new_listening_TCP_socket E ipv6 prt =
     (let a = te_listen E prt
      in la_socket a \<and> la_nonblock a \<and> (ipv6 \<longrightarrow> la_dualstack a) \<and> la_reuseaddr a \<and> la_bind a \<and> la_listen a)"

fun open_listening :: "tcp_env \<Rightarrow> bool \<Rightarrow> u16 list \<Rightarrow> nat \<times> nat \<Rightarrow> nat \<times> nat" where
  "open_listening E ipv6 [] (n, calls) = (n, calls)"
| "open_listening E ipv6 (prt # ps) (n, calls) =
     (if \<not> new_listening_TCP_socket E ipv6 prt then open_listening E ipv6 ps (n, calls)
      else if te_use_epoll E \<and> \<not> te_epoll_ctl E calls then open_listening E ipv6 ps (n, calls + 1)
      else open_listening E ipv6 ps (n + 1, if te_use_epoll E then calls + 1 else calls))"

definition new_TCP_server :: "tcp_env \<Rightarrow> Random \<Rightarrow> bool \<Rightarrow> u16 list \<Rightarrow> bytes \<Rightarrow> bool \<Rightarrow> bool \<Rightarrow> TCP_Server option" where
  "new_TCP_server E r ipv6_enabled ports secret_key onion forwarding =
     (if ports = [] then None
      else if \<not> malloc_ok (te_plat E) sizeof_TCP_Server \<or> \<not> malloc_ok (te_plat E) (length ports * 4) then None
      else if te_use_epoll E \<and> \<not> te_epoll_create E then None
      else case open_listening E ipv6_enabled ports (0, 0) of
        (n, calls) \<Rightarrow>
          if n = 0 then None
          else Some \<lparr>srv_rng = r, srv_onion = onion, srv_forwarding = forwarding, num_listening_socks = n, srv_public_key = te_derive E secret_key,
             srv_secret_key = take CRYPTO_SECRET_KEY_SIZE secret_key,
             incoming_connection_queue = replicate MAX_INCOMING_CONNECTIONS zero_secure_connection, incoming_connection_queue_index = 0,
             unconfirmed_connection_queue = replicate MAX_INCOMING_CONNECTIONS zero_secure_connection, unconfirmed_connection_queue_index = 0,
             accepted_connection_array = [], num_accepted_connections = 0, counter = 0,
             accepted_key_list = snd (bs_list_init (te_plat E) (te_fill E) CRYPTO_PUBLIC_KEY_SIZE 8), last_run_pinged = 0, srv_calls = [], host_calls = calls\<rparr>)"

text \<open>The callbacks at the onion and at the forwarding module are withdrawn; then all memory is freed.\<close>

definition kill_TCP_server :: "TCP_Server \<Rightarrow> server_call list option" where
  "kill_TCP_server srv =
     do {
       _ \<leftarrow> wipe_all (incoming_connection_queue srv @ unconfirmed_connection_queue srv);
       srv \<leftarrow> free_accepted_connection_array srv;
       Some (srv_calls srv @ map Call_kill_listening [0..<num_listening_socks srv])
     }"

definition net_accept :: "tcp_env \<Rightarrow> nat \<Rightarrow> TCP_Server \<Rightarrow> Sock option \<times> TCP_Server" where
  "net_accept E sock_idx srv = (te_accept E sock_idx (host_calls srv), srv\<lparr>host_calls := host_calls srv + 1\<rparr>)"

fun do_TCP_accept_loop :: "tcp_env \<Rightarrow> nat \<Rightarrow> nat \<Rightarrow> TCP_Server \<Rightarrow> TCP_Server option" where
  "do_TCP_accept_loop E sock_idx 0 srv = Some srv"
| "do_TCP_accept_loop E sock_idx (Suc k) srv =
     do {
       let (sock, srv) = net_accept E sock_idx srv;
       (r, srv) \<leftarrow> accept_connection E srv sock;
       if r = - 1 then Some srv else do_TCP_accept_loop E sock_idx k srv
     }"

fun do_TCP_accept_socks :: "tcp_env \<Rightarrow> nat list \<Rightarrow> TCP_Server \<Rightarrow> TCP_Server option" where
  "do_TCP_accept_socks E [] srv = Some srv"
| "do_TCP_accept_socks E (s # ss) srv = do { srv \<leftarrow> do_TCP_accept_loop E s MAX_INCOMING_CONNECTIONS srv; do_TCP_accept_socks E ss srv }"

definition do_TCP_accept_new :: "tcp_env \<Rightarrow> TCP_Server \<Rightarrow> TCP_Server option" where
  "do_TCP_accept_new E srv = do_TCP_accept_socks E [0..<num_listening_socks srv] srv"

definition do_incoming :: "tcp_env \<Rightarrow> TCP_Server \<Rightarrow> nat \<Rightarrow> (int \<times> TCP_Server) option" where
  "do_incoming E srv i =
     (let conn = incoming_connection_queue srv ! i
      in if sc_status conn \<noteq> TCP_STATUS_CONNECTED then Some (- 1, srv)
         else do {
           (ret, r, conn) \<leftarrow> read_connection_handshake E (srv_rng srv) conn (srv_secret_key srv);
           let srv = srv\<lparr>srv_rng := r\<rparr>;
           if ret = - 1 then do { (srv, conn) \<leftarrow> kill_TCP_secure_connection srv conn; Some (- 1, set_incoming i conn srv) }
           else if ret \<noteq> 1 then Some (- 1, set_incoming i conn srv)
           else do {
             let index_new = unat (unconfirmed_connection_queue_index srv) mod MAX_INCOMING_CONNECTIONS;
             let conn_new = unconfirmed_connection_queue srv ! index_new;
             (srv, _) \<leftarrow> (if sc_status conn_new \<noteq> TCP_STATUS_NO_STATUS then kill_TCP_secure_connection srv conn_new else Some (srv, conn_new));
             Some (int index_new, (set_incoming i zero_secure_connection (set_unconfirmed index_new conn srv))
               \<lparr>unconfirmed_connection_queue_index := unconfirmed_connection_queue_index srv + 1\<rparr>)
           }
         })"

text \<open>Reading the next packet of a connection.\<close>

definition read_secure :: "tcp_env \<Rightarrow> TCP_Secure_Connection \<Rightarrow> (tcp_read \<times> TCP_Secure_Connection) option" where
  "read_secure E conn =
     (if \<not> tc_ns (sc_con conn) then None
      else case read_packet_TCP_secure_connection (te_plat E) (tc_shared_key (sc_con conn)) MAX_PACKET_SIZE
                  \<lparr>rd_sock = tc_sock (sc_con conn), next_packet_length = sc_next_packet_length conn, rd_nonce = sc_recv_nonce conn\<rparr> of
          (x, rd) \<Rightarrow> Some (x, conn\<lparr>sc_con := (sc_con conn)\<lparr>tc_sock := rd_sock rd\<rparr>, sc_next_packet_length := next_packet_length rd, sc_recv_nonce := rd_nonce rd\<rparr>))"

definition do_unconfirmed :: "tcp_env \<Rightarrow> Mono_Time \<Rightarrow> TCP_Server \<Rightarrow> nat \<Rightarrow> (int \<times> TCP_Server) option" where
  "do_unconfirmed E mt srv i =
     (let conn = unconfirmed_connection_queue srv ! i
      in if sc_status conn \<noteq> TCP_STATUS_UNCONFIRMED then Some (- 1, srv)
         else do {
           (x, conn) \<leftarrow> read_secure E conn;
           case x of
             Nothing \<Rightarrow> Some (- 1, set_unconfirmed i conn srv)
           | Killed \<Rightarrow> do { (srv, conn) \<leftarrow> kill_TCP_secure_connection srv conn; Some (- 1, set_unconfirmed i conn srv) }
           | Packet packet \<Rightarrow> confirm_TCP_connection E mt (set_unconfirmed i conn srv) i packet
         })"

definition tcp_process_secure_packet :: "tcp_env \<Rightarrow> TCP_Server \<Rightarrow> nat \<Rightarrow> (bool \<times> TCP_Server) option" where
  "tcp_process_secure_packet E srv i =
     do {
       conn \<leftarrow> accepted srv i;
       (x, conn) \<leftarrow> read_secure E conn;
       let srv = set_accepted i conn srv;
       case x of
         Nothing \<Rightarrow> Some (False, srv)
       | Killed \<Rightarrow> do { (_, srv) \<leftarrow> kill_accepted E srv i; Some (False, srv) }
       | Packet packet \<Rightarrow> do {
           (r, srv) \<leftarrow> handle_TCP_packet E srv i packet;
           if r = - 1 then do { (_, srv) \<leftarrow> kill_accepted E srv i; Some (False, srv) }
           else Some (True, srv)
         }
     }"

partial_function (option) do_confirmed_recv :: "tcp_env \<Rightarrow> nat \<Rightarrow> TCP_Server \<Rightarrow> TCP_Server option" where
  "do_confirmed_recv E i srv =
     do { (more, srv) \<leftarrow> tcp_process_secure_packet E srv i; if more then do_confirmed_recv E i srv else Some srv }"

fun do_TCP_incoming_loop :: "tcp_env \<Rightarrow> nat list \<Rightarrow> TCP_Server \<Rightarrow> TCP_Server option" where
  "do_TCP_incoming_loop E [] srv = Some srv"
| "do_TCP_incoming_loop E (i # is) srv = do { (_, srv) \<leftarrow> do_incoming E srv i; do_TCP_incoming_loop E is srv }"

definition do_TCP_incoming :: "tcp_env \<Rightarrow> TCP_Server \<Rightarrow> TCP_Server option" where
  "do_TCP_incoming E srv = do_TCP_incoming_loop E [0..<MAX_INCOMING_CONNECTIONS] srv"

fun do_TCP_unconfirmed_loop :: "tcp_env \<Rightarrow> Mono_Time \<Rightarrow> nat list \<Rightarrow> TCP_Server \<Rightarrow> TCP_Server option" where
  "do_TCP_unconfirmed_loop E mt [] srv = Some srv"
| "do_TCP_unconfirmed_loop E mt (i # is) srv = do { (_, srv) \<leftarrow> do_unconfirmed E mt srv i; do_TCP_unconfirmed_loop E mt is srv }"

definition do_TCP_unconfirmed :: "tcp_env \<Rightarrow> Mono_Time \<Rightarrow> TCP_Server \<Rightarrow> TCP_Server option" where
  "do_TCP_unconfirmed E mt srv = do_TCP_unconfirmed_loop E mt [0..<MAX_INCOMING_CONNECTIONS] srv"

text \<open>One round of the loop of \<^verbatim>\<open>do_TCP_confirmed\<close>: the result of the first part tells whether the connection is still there.\<close>

definition ping_confirmed :: "tcp_env \<Rightarrow> Mono_Time \<Rightarrow> TCP_Server \<Rightarrow> nat \<Rightarrow> (bool \<times> TCP_Server) option" where
  "ping_confirmed E mt srv i =
     do {
       conn \<leftarrow> accepted srv i;
       if \<not> mono_time_is_timeout mt (sc_last_pinged conn) TCP_PING_FREQUENCY then Some (True, srv)
       else do {
         let (n, r) = random_u64 (srv_rng srv);
         let pid = (if n = 0 then n + 1 else n);
         (ret, srv) \<leftarrow> write_accepted E i (TCP_PACKET_PING # host_bytes 8 pid) True (srv\<lparr>srv_rng := r\<rparr>);
         if ret = 1 then do {
           conn \<leftarrow> accepted srv i;
           Some (True, set_accepted i (conn\<lparr>sc_last_pinged := mono_time_get mt, sc_ping_id := pid\<rparr>) srv)
         }
         else if mono_time_is_timeout mt (sc_last_pinged conn) (TCP_PING_FREQUENCY + TCP_PING_TIMEOUT) then
           do { (_, srv) \<leftarrow> kill_accepted E srv i; Some (False, srv) }
         else Some (True, srv)
       }
     }"

definition do_confirmed :: "tcp_env \<Rightarrow> Mono_Time \<Rightarrow> TCP_Server \<Rightarrow> nat \<Rightarrow> TCP_Server option" where
  "do_confirmed E mt srv i =
     do {
       conn \<leftarrow> accepted srv i;
       if sc_status conn \<noteq> TCP_STATUS_CONFIRMED then Some srv
       else do {
         (alive, srv) \<leftarrow> ping_confirmed E mt srv i;
         if \<not> alive then Some srv
         else do {
           conn \<leftarrow> accepted srv i;
           if sc_ping_id conn \<noteq> 0 \<and> mono_time_is_timeout mt (sc_last_pinged conn) TCP_PING_TIMEOUT then
             do { (_, srv) \<leftarrow> kill_accepted E srv i; Some srv }
           else do {
             (_, c) \<leftarrow> send_pending_data (sc_con conn);
             let srv = set_accepted i (conn\<lparr>sc_con := c\<rparr>) srv;
             if te_use_epoll E then Some srv else do_confirmed_recv E i srv
           }
         }
       }
     }"

text \<open>The array does not grow in the loop, but it may be freed.\<close>

fun do_TCP_confirmed_loop :: "tcp_env \<Rightarrow> Mono_Time \<Rightarrow> nat list \<Rightarrow> TCP_Server \<Rightarrow> TCP_Server option" where
  "do_TCP_confirmed_loop E mt [] srv = Some srv"
| "do_TCP_confirmed_loop E mt (i # is) srv =
     (if i < length (accepted_connection_array srv) then do { srv \<leftarrow> do_confirmed E mt srv i; do_TCP_confirmed_loop E mt is srv } else Some srv)"

definition do_TCP_confirmed :: "tcp_env \<Rightarrow> Mono_Time \<Rightarrow> TCP_Server \<Rightarrow> TCP_Server option" where
  "do_TCP_confirmed E mt srv =
     (if te_use_epoll E \<and> last_run_pinged srv = mono_time_get mt then Some srv
      else do_TCP_confirmed_loop E mt [0..<length (accepted_connection_array srv)] (if te_use_epoll E then srv\<lparr>last_run_pinged := mono_time_get mt\<rparr> else srv))"

section \<open>Events\<close>

definition epoll_ctl :: "tcp_env \<Rightarrow> socket_kind \<Rightarrow> nat \<Rightarrow> TCP_Server \<Rightarrow> bool \<times> TCP_Server" where
  "epoll_ctl E kind index srv = (te_epoll_ctl E (host_calls srv), (log_srv (Call_epoll_ctl kind index) srv)\<lparr>host_calls := host_calls srv + 1\<rparr>)"

definition kill_incoming :: "nat \<Rightarrow> TCP_Server \<Rightarrow> TCP_Server option" where
  "kill_incoming index srv =
     (if index < MAX_INCOMING_CONNECTIONS then
        do { (srv, conn) \<leftarrow> kill_TCP_secure_connection srv (incoming_connection_queue srv ! index); Some (set_incoming index conn srv) }
      else None)"

definition kill_unconfirmed :: "nat \<Rightarrow> TCP_Server \<Rightarrow> TCP_Server option" where
  "kill_unconfirmed index srv =
     (if index < MAX_INCOMING_CONNECTIONS then
        do { (srv, conn) \<leftarrow> kill_TCP_secure_connection srv (unconfirmed_connection_queue srv ! index); Some (set_unconfirmed index conn srv) }
      else None)"

partial_function (option) epoll_accept :: "tcp_env \<Rightarrow> nat \<Rightarrow> TCP_Server \<Rightarrow> TCP_Server option" where
  "epoll_accept E sock_idx srv =
     (case net_accept E sock_idx srv of
        (None, srv) \<Rightarrow> Some srv
      | (Some sock_new, srv) \<Rightarrow> do {
          (index_new, srv) \<leftarrow> accept_connection E srv (Some sock_new);
          if index_new = - 1 then epoll_accept E sock_idx srv
          else do {
            let (ok, srv) = epoll_ctl E TCP_SOCKET_INCOMING (nat index_new) srv;
            srv \<leftarrow> (if ok then Some srv else kill_incoming (nat index_new) srv);
            epoll_accept E sock_idx srv
          }
        })"

definition epoll_incoming :: "tcp_env \<Rightarrow> nat \<Rightarrow> TCP_Server \<Rightarrow> TCP_Server option" where
  "epoll_incoming E index srv =
     do {
       (index_new, srv) \<leftarrow> (if index < MAX_INCOMING_CONNECTIONS then do_incoming E srv index else None);
       if index_new = - 1 then Some srv
       else do {
         let (ok, srv) = epoll_ctl E TCP_SOCKET_UNCONFIRMED (nat index_new) srv;
         if ok then Some srv else kill_unconfirmed (nat index_new) srv
       }
     }"

definition epoll_unconfirmed :: "tcp_env \<Rightarrow> Mono_Time \<Rightarrow> nat \<Rightarrow> TCP_Server \<Rightarrow> TCP_Server option" where
  "epoll_unconfirmed E mt index srv =
     do {
       (index_new, srv) \<leftarrow> (if index < MAX_INCOMING_CONNECTIONS then do_unconfirmed E mt srv index else None);
       if index_new = - 1 then Some srv
       else do {
         let (ok, srv) = epoll_ctl E TCP_SOCKET_CONFIRMED (nat index_new) srv;
         if ok then Some srv else do { (_, srv) \<leftarrow> kill_accepted E srv (nat index_new); Some srv }
       }
     }"

definition epoll_handle_event :: "tcp_env \<Rightarrow> Mono_Time \<Rightarrow> epoll_event \<Rightarrow> TCP_Server \<Rightarrow> TCP_Server option" where
  "epoll_handle_event E mt ev srv =
     (if ev_error ev then
        (case ev_kind ev of
           TCP_SOCKET_LISTENING \<Rightarrow> Some srv
         | TCP_SOCKET_INCOMING \<Rightarrow> kill_incoming (ev_index ev) srv
         | TCP_SOCKET_UNCONFIRMED \<Rightarrow> kill_unconfirmed (ev_index ev) srv
         | TCP_SOCKET_CONFIRMED \<Rightarrow> do { (_, srv) \<leftarrow> kill_accepted E srv (ev_index ev); Some srv })
      else if \<not> ev_in ev then Some srv
      else
        (case ev_kind ev of
           TCP_SOCKET_LISTENING \<Rightarrow> epoll_accept E (ev_index ev) srv
         | TCP_SOCKET_INCOMING \<Rightarrow> epoll_incoming E (ev_index ev) srv
         | TCP_SOCKET_UNCONFIRMED \<Rightarrow> epoll_unconfirmed E mt (ev_index ev) srv
         | TCP_SOCKET_CONFIRMED \<Rightarrow> do_confirmed_recv E (ev_index ev) srv))"

fun epoll_handle_events :: "tcp_env \<Rightarrow> Mono_Time \<Rightarrow> epoll_event list \<Rightarrow> TCP_Server \<Rightarrow> TCP_Server option" where
  "epoll_handle_events E mt [] srv = Some srv"
| "epoll_handle_events E mt (ev # evs) srv = do { srv \<leftarrow> epoll_handle_event E mt ev srv; epoll_handle_events E mt evs srv }"

definition MAX_EVENTS :: nat where [size_defs]: "MAX_EVENTS = 16"

definition tcp_epoll_process :: "tcp_env \<Rightarrow> Mono_Time \<Rightarrow> TCP_Server \<Rightarrow> (bool \<times> TCP_Server) option" where
  "tcp_epoll_process E mt srv =
     (let events = take MAX_EVENTS (te_epoll_wait E (host_calls srv))
      in do {
           srv \<leftarrow> epoll_handle_events E mt events (srv\<lparr>host_calls := host_calls srv + 1\<rparr>);
           Some (events \<noteq> [], srv)
         })"

partial_function (option) do_TCP_epoll :: "tcp_env \<Rightarrow> Mono_Time \<Rightarrow> TCP_Server \<Rightarrow> TCP_Server option" where
  "do_TCP_epoll E mt srv = do { (more, srv) \<leftarrow> tcp_epoll_process E mt srv; if more then do_TCP_epoll E mt srv else Some srv }"

definition do_TCP_server :: "tcp_env \<Rightarrow> Mono_Time \<Rightarrow> TCP_Server \<Rightarrow> TCP_Server option" where
  "do_TCP_server E mt srv =
     do {
       srv \<leftarrow> (if te_use_epoll E then do_TCP_epoll E mt srv
               else do {
                 srv \<leftarrow> do_TCP_accept_new E srv;
                 srv \<leftarrow> do_TCP_incoming E srv;
                 do_TCP_unconfirmed E mt srv
               });
       do_TCP_confirmed E mt srv
     }"

end
