(* ===== verification/TCP_Links.thy ===== *)
theory TCP_Links
  imports TCP_Server TCP_Stream
begin

text \<open>
  Who is linked with whom at a TCP relay. The clients are seen as a partial function from the indices of the array to their keys, the slots as a function of two
  indices. Two clients are linked exactly if each of them asked for the key of the other, and the links of both sides point at each other (\<open>links_ok\<close>). All operations of
  the relay keep this, none of them leaves an array or follows a null pointer.
\<close>

section \<open>Links\<close>

type_synonym relay_keys = "nat \<rightharpoonup> bytes"
type_synonym relay_slots = "nat \<Rightarrow> nat \<Rightarrow> TCP_Secure_Conn"

definition used :: "TCP_Secure_Conn \<Rightarrow> bool" where "used c \<longleftrightarrow> sn_status c = 1 \<or> sn_status c = 2"

definition points_to :: "TCP_Secure_Conn \<Rightarrow> nat \<Rightarrow> nat \<Rightarrow> bool" where
  "points_to c j m \<longleftrightarrow> sn_status c = 2 \<and> unat (sn_index c) = j \<and> unat (sn_other_id c) = m"

text \<open>The slots of one client: statuses, and no key twice.\<close>

definition slots_ok :: "bytes option \<Rightarrow> (nat \<Rightarrow> TCP_Secure_Conn) \<Rightarrow> bool" where
  "slots_ok k s \<longleftrightarrow>
     (\<forall>n. sn_status (s n) \<noteq> 0 \<longrightarrow> used (s n) \<and> n < NUM_CLIENT_CONNECTIONS \<and> k \<noteq> None \<and> k \<noteq> Some (sn_public_key (s n)) \<and> length (sn_public_key (s n)) = 32) \<and>
     (\<forall>n m. used (s n) \<and> used (s m) \<and> sn_public_key (s n) = sn_public_key (s m) \<longrightarrow> n = m)"

text \<open>A linked slot points at a linked slot of the client with the key it was asked for, and that slot points back; slots of two clients that asked for each other are linked.\<close>

definition links_ok :: "relay_keys \<Rightarrow> relay_slots \<Rightarrow> bool" where
  "links_ok kf s \<longleftrightarrow> inj_on kf (dom kf) \<and> (\<forall>i. slots_ok (kf i) (s i)) \<and>
     (\<forall>i n. sn_status (s i n) = 2 \<longrightarrow> (\<exists>j m. points_to (s i n) j m \<and> points_to (s j m) i n \<and> kf j = Some (sn_public_key (s i n)))) \<and>
     (\<forall>i j n m. used (s i n) \<and> used (s j m) \<and> kf j = Some (sn_public_key (s i n)) \<and> kf i = Some (sn_public_key (s j m)) \<longrightarrow> sn_status (s i n) = 2)"

definition set_slot :: "nat \<Rightarrow> nat \<Rightarrow> TCP_Secure_Conn \<Rightarrow> relay_slots \<Rightarrow> relay_slots" where
  "set_slot i n c s = s(i := (s i)(n := c))"

lemma set_slot_apply: "set_slot i n c s j m = (if j = i \<and> m = n then c else s j m)"
  by (simp add: set_slot_def)

lemma points_to_used: "points_to c j m \<Longrightarrow> used c"
  by (simp add: points_to_def used_def)

lemma used_cases: "used c \<longleftrightarrow> sn_status c = 1 \<or> sn_status c = 2"
  by (simp add: used_def)

lemma links_slots: "links_ok kf s \<Longrightarrow> slots_ok (kf i) (s i)"
  by (simp add: links_ok_def)

lemma links_keys: "links_ok kf s \<Longrightarrow> kf i = Some k \<Longrightarrow> kf j = Some k \<Longrightarrow> i = j"
  by (auto simp: links_ok_def inj_on_def dom_def)

lemma slot_status: "slots_ok k s \<Longrightarrow> sn_status (s n) = 0 \<or> used (s n)"
  by (auto simp: slots_ok_def)

lemma slot_used: "slots_ok k s \<Longrightarrow> used (s n) \<Longrightarrow> n < NUM_CLIENT_CONNECTIONS \<and> k \<noteq> None \<and> k \<noteq> Some (sn_public_key (s n)) \<and> length (sn_public_key (s n)) = 32"
  by (subgoal_tac "sn_status (s n) \<noteq> 0") (auto simp: slots_ok_def used_def)

lemma slot_unique: "slots_ok k s \<Longrightarrow> used (s n) \<Longrightarrow> used (s m) \<Longrightarrow> sn_public_key (s n) = sn_public_key (s m) \<Longrightarrow> n = m"
  by (auto simp: slots_ok_def)

lemma links_linked:
  assumes "links_ok kf s" "sn_status (s i n) = 2"
  obtains j m where "points_to (s i n) j m" "points_to (s j m) i n" "kf j = Some (sn_public_key (s i n))" "kf i = Some (sn_public_key (s j m))" "i \<noteq> j"
    "m < NUM_CLIENT_CONNECTIONS"
proof -
  obtain j m where j: "points_to (s i n) j m" "points_to (s j m) i n" "kf j = Some (sn_public_key (s i n))"
    using assms unfolding links_ok_def by blast
  then have "sn_status (s j m) = 2" by (simp add: points_to_def)
  then obtain i' n' where i: "points_to (s j m) i' n'" "kf i' = Some (sn_public_key (s j m))"
    using assms(1) unfolding links_ok_def by blast
  then have "i' = i" using j(2) by (simp add: points_to_def)
  moreover have "i \<noteq> j" using slot_used [OF links_slots [OF assms(1)] points_to_used [OF j(1)]] j(3) by auto
  moreover have "m < NUM_CLIENT_CONNECTIONS" using slot_used [OF links_slots [OF assms(1)] points_to_used [OF j(2)]] by simp
  ultimately show ?thesis using that [OF j] i(2) by simp
qed

lemma links_mutual:
  assumes "links_ok kf s" "used (s i n)" "used (s j m)" "kf j = Some (sn_public_key (s i n))" "kf i = Some (sn_public_key (s j m))"
  shows "points_to (s i n) j m"
proof -
  have "sn_status (s i n) = 2" using assms unfolding links_ok_def by blast
  from links_linked [OF assms(1) this] obtain j' m' where j: "points_to (s i n) j' m'" "points_to (s j' m') i n"
    "kf j' = Some (sn_public_key (s i n))" "kf i = Some (sn_public_key (s j' m'))" by metis
  then have "j' = j" using links_keys [OF assms(1)] assms(4) by simp
  moreover have "m' = m" using slot_unique [OF links_slots [OF assms(1), of j], of m' m] j(2,4) assms(3,5) calculation points_to_used by auto
  ultimately show ?thesis using j(1) by simp
qed

lemma links_okI:
  assumes "\<And>i j k. kf i = Some k \<Longrightarrow> kf j = Some k \<Longrightarrow> i = j" "\<And>i. slots_ok (kf i) (s i)"
    and "\<And>i n. sn_status (s i n) = 2 \<Longrightarrow> \<exists>j m. points_to (s i n) j m \<and> points_to (s j m) i n \<and> kf j = Some (sn_public_key (s i n))"
    and "\<And>i j n m. used (s i n) \<Longrightarrow> used (s j m) \<Longrightarrow> kf j = Some (sn_public_key (s i n)) \<Longrightarrow> kf i = Some (sn_public_key (s j m)) \<Longrightarrow> sn_status (s i n) = 2"
  shows "links_ok kf s"
  unfolding links_ok_def using assms by (fastforce simp: inj_on_def dom_def)

lemma slots_okI:
  assumes "\<And>n. sn_status (s n) \<noteq> 0 \<Longrightarrow> used (s n) \<and> n < NUM_CLIENT_CONNECTIONS \<and> k \<noteq> None \<and> k \<noteq> Some (sn_public_key (s n)) \<and> length (sn_public_key (s n)) = 32"
    and "\<And>n m. used (s n) \<Longrightarrow> used (s m) \<Longrightarrow> sn_public_key (s n) = sn_public_key (s m) \<Longrightarrow> n = m"
  shows "slots_ok k s"
  using assms by (simp add: slots_ok_def)

lemma used_0: "sn_status c = 0 \<Longrightarrow> \<not> used c"
  by (simp add: used_def)

text \<open>Emptying a slot, or keeping its key and status class.\<close>

lemma slots_ok_clear:
  assumes "slots_ok k s" "sn_status c = 0"
  shows "slots_ok k (s(n := c))"
  using assms slot_used [OF assms(1)] slot_status [OF assms(1)] slot_unique [OF assms(1)] used_0 [OF assms(2)]
  by (intro slots_okI) (auto simp: fun_upd_def split: if_splits)

lemma slots_ok_same:
  assumes "slots_ok k s" "used (s n)" "used c" "sn_public_key c = sn_public_key (s n)"
  shows "slots_ok k (s(n := c))"
proof (rule slots_okI)
  have same: "used ((s(n := c)) m) = used (s m)" "sn_public_key ((s(n := c)) m) = sn_public_key (s m)" for m
    using assms by (simp_all add: fun_upd_def)
  fix m
  show "used ((s(n := c)) m) \<and> m < NUM_CLIENT_CONNECTIONS \<and> k \<noteq> None \<and> k \<noteq> Some (sn_public_key ((s(n := c)) m)) \<and> length (sn_public_key ((s(n := c)) m)) = 32"
    if "sn_status ((s(n := c)) m) \<noteq> 0"
  proof -
    have "used (s m)" using that assms(2) slot_status [OF assms(1), of m] by (cases "m = n") simp_all
    then show ?thesis unfolding same using slot_used [OF assms(1)] by simp
  qed
  show "m = m'" if "used ((s(n := c)) m)" "used ((s(n := c)) m')" "sn_public_key ((s(n := c)) m) = sn_public_key ((s(n := c)) m')" for m'
    using that unfolding same by (rule slot_unique [OF assms(1)])
qed

lemma slots_ok_new:
  assumes "slots_ok (Some k) s" "n < NUM_CLIENT_CONNECTIONS" "used c" "sn_public_key c \<noteq> k" "length (sn_public_key c) = 32"
    and "\<And>m. used (s m) \<Longrightarrow> sn_public_key (s m) \<noteq> sn_public_key c"
  shows "slots_ok (Some k) (s(n := c))"
proof (rule slots_okI)
  fix m
  show "used ((s(n := c)) m) \<and> m < NUM_CLIENT_CONNECTIONS \<and> Some k \<noteq> None \<and> Some k \<noteq> Some (sn_public_key ((s(n := c)) m)) \<and> length (sn_public_key ((s(n := c)) m)) = 32"
    if "sn_status ((s(n := c)) m) \<noteq> 0"
    using that assms slot_status [OF assms(1), of m] slot_used [OF assms(1), of m] by (cases "m = n") auto
  show "m = m'" if "used ((s(n := c)) m)" "used ((s(n := c)) m')" "sn_public_key ((s(n := c)) m) = sn_public_key ((s(n := c)) m')" for m'
    using that assms(6) [of m] assms(6) [of m'] slot_unique [OF assms(1), of m m'] by (cases "m = n"; cases "m' = n") auto
qed

lemma set_slot_row: "set_slot i n c s j = (if j = i then (s i)(n := c) else s j)"
  by (simp add: set_slot_def)

text \<open>A client asks for a key; nobody with that key asked for the client.\<close>

lemma links_ask:
  assumes "links_ok kf s" "kf i = Some ki" "sn_status (s i n) = 0" "n < NUM_CLIENT_CONNECTIONS" "sn_status c = 1" "sn_public_key c \<noteq> ki"
    "length (sn_public_key c) = 32" "\<And>m. used (s i m) \<Longrightarrow> sn_public_key (s i m) \<noteq> sn_public_key c"
    and none: "\<And>j m. kf j = Some (sn_public_key c) \<Longrightarrow> used (s j m) \<Longrightarrow> sn_public_key (s j m) \<noteq> ki"
  shows "links_ok kf (set_slot i n c s)" (is "links_ok kf ?s")
proof (rule links_okI)
  have u: "used c" using assms(5) by (simp add: used_def)
  show "slots_ok (kf j) (?s j)" for j
    using links_slots [OF assms(1), of j] slots_ok_new [of ki "s i" n c] assms u by (auto simp: set_slot_row)
  show "\<exists>j m. points_to (?s i' n') j m \<and> points_to (?s j m) i' n' \<and> kf j = Some (sn_public_key (?s i' n'))" if st: "sn_status (?s i' n') = 2" for i' n'
  proof -
    have ne: "?s i' n' = s i' n'" using st assms(5) by (auto simp: set_slot_apply split: if_splits)
    then obtain j m where j: "points_to (s i' n') j m" "points_to (s j m) i' n'" "kf j = Some (sn_public_key (s i' n'))"
      using links_linked [OF assms(1), of i' n'] st by metis
    have "?s j m = s j m" using j(2) assms(3) by (auto simp: set_slot_apply points_to_def)
    then show ?thesis using j ne by metis
  qed
  show "sn_status (?s i' n') = 2"
    if "used (?s i' n')" "used (?s j m)" "kf j = Some (sn_public_key (?s i' n'))" "kf i' = Some (sn_public_key (?s j m))" for i' n' j m
  proof (cases "(i', n') = (i, n) \<or> (j, m) = (i, n)")
    case True
    then show ?thesis using that assms(2,6) none [of j m] none [of i' n'] by (auto simp: set_slot_apply split: if_splits)
  next
    case False
    then show ?thesis using that links_mutual [OF assms(1), of i' n' j m] by (auto simp: set_slot_apply points_to_def split: if_splits)
  qed
qed (use links_keys [OF assms(1)] in blast)

text \<open>A client asks for a key, and the client with that key has asked for it.\<close>

lemma waiting_slot:
  assumes "links_ok kf s" "kf i = Some ki" "kf j = Some kj" "used (s j m)" "sn_public_key (s j m) = ki" "\<And>m. used (s i m) \<Longrightarrow> sn_public_key (s i m) \<noteq> kj"
  shows "sn_status (s j m) = 1"
proof (rule ccontr)
  assume "sn_status (s j m) \<noteq> 1"
  then have "sn_status (s j m) = 2" using assms(4) by (simp add: used_def)
  then obtain i' n' where "points_to (s i' n') j m" "kf i' = Some ki" "kf j = Some (sn_public_key (s i' n'))"
    using links_linked [OF assms(1)] assms(5) by metis
  then show False using links_keys [OF assms(1,2), of i'] assms(3,6) points_to_used by force
qed

lemma links_link:
  assumes "links_ok kf s" "kf i = Some ki" "sn_status (s i n) = 0" "n < NUM_CLIENT_CONNECTIONS"
    "length kj = 32" "kj \<noteq> ki" "\<And>m. used (s i m) \<Longrightarrow> sn_public_key (s i m) \<noteq> kj" "kf j = Some kj" "used (s j m)" "sn_public_key (s j m) = ki"
    and c: "points_to c j m" "sn_public_key c = kj" and d: "points_to d i n" "sn_public_key d = ki"
  shows "links_ok kf (set_slot j m d (set_slot i n c s))" (is "links_ok kf ?s")
proof (rule links_okI)
  have ij: "i \<noteq> j" using assms(2,6,8) by auto
  have w: "sn_status (s j m) = 1" by (rule waiting_slot [OF assms(1,2,8-10,7)])
  note uc = points_to_used [OF c(1)] points_to_used [OF d(1)]
  show "slots_ok (kf x) (?s x)" for x
    using links_slots [OF assms(1), of x] slots_ok_new [of ki "s i" n c] slots_ok_same [of "Some kj" "s j" m d] assms uc ij by (auto simp: set_slot_row)
  show "\<exists>j' m'. points_to (?s i' n') j' m' \<and> points_to (?s j' m') i' n' \<and> kf j' = Some (sn_public_key (?s i' n'))" if st: "sn_status (?s i' n') = 2" for i' n'
  proof (cases "(i', n') = (i, n) \<or> (i', n') = (j, m)")
    case True
    then show ?thesis using ij assms(2,8) c d by (auto simp: set_slot_apply)
  next
    case False
    then have e: "?s i' n' = s i' n'" by (auto simp: set_slot_apply)
    then obtain x y where x: "points_to (s i' n') x y" "points_to (s x y) i' n'" "kf x = Some (sn_public_key (s i' n'))"
      using links_linked [OF assms(1), of i' n'] st by metis
    have "?s x y = s x y" using x(2) assms(3) w by (auto simp: set_slot_apply points_to_def)
    then show ?thesis using x e by metis
  qed
  show "sn_status (?s i' n') = 2"
    if that: "used (?s i' n')" "used (?s x y)" "kf x = Some (sn_public_key (?s i' n'))" "kf i' = Some (sn_public_key (?s x y))" for i' n' x y
  proof (cases "(i', n') = (i, n) \<or> (i', n') = (j, m)")
    case True
    then show ?thesis using c(1) d(1) by (auto simp: set_slot_apply points_to_def)
  next
    case False
    then have e: "?s i' n' = s i' n'" by (auto simp: set_slot_apply)
    have "\<not> (x = i \<and> y = n)"
    proof
      assume xy: "x = i \<and> y = n"
      then have "kf i' = Some kj" "sn_public_key (s i' n') = ki" "used (s i' n')" using that ij c e assms(2) by (auto simp: set_slot_apply split: if_splits)
      then have "i' = j" using links_keys [OF assms(1)] assms(8) by blast
      then have "n' = m" using slot_unique [OF links_slots [OF assms(1), of j], of n' m] assms(9,10) \<open>used (s i' n')\<close> \<open>sn_public_key (s i' n') = ki\<close> by simp
      then show False using False \<open>i' = j\<close> by simp
    qed
    moreover have "\<not> (x = j \<and> y = m)"
    proof
      assume xy: "x = j \<and> y = m"
      then have "kf i' = Some ki" "sn_public_key (s i' n') = kj" "used (s i' n')" using that d e assms(8) by (auto simp: set_slot_apply split: if_splits)
      then show False using links_keys [OF assms(1,2), of i'] assms(7) by auto
    qed
    ultimately have "?s x y = s x y" by (auto simp: set_slot_apply)
    then show ?thesis using that e links_mutual [OF assms(1), of i' n' x y] by (simp add: points_to_def)
  qed
qed (use links_keys [OF assms(1)] in blast)

text \<open>A slot that is not linked is emptied.\<close>

lemma links_drop:
  assumes "links_ok kf s" "sn_status (s i n) \<noteq> 2" "sn_status c = 0"
  shows "links_ok kf (set_slot i n c s)" (is "links_ok kf ?s")
proof (rule links_okI)
  show "slots_ok (kf x) (?s x)" for x
    using links_slots [OF assms(1), of x] slots_ok_clear [of "kf i" "s i" c n] assms(3) by (auto simp: set_slot_row)
  show "\<exists>j m. points_to (?s i' n') j m \<and> points_to (?s j m) i' n' \<and> kf j = Some (sn_public_key (?s i' n'))" if st: "sn_status (?s i' n') = 2" for i' n'
  proof -
    have ne: "?s i' n' = s i' n'" using st assms(3) by (auto simp: set_slot_apply split: if_splits)
    then obtain j m where j: "points_to (s i' n') j m" "points_to (s j m) i' n'" "kf j = Some (sn_public_key (s i' n'))"
      using links_linked [OF assms(1), of i' n'] st by metis
    have "?s j m = s j m" using j(2) assms(2) by (auto simp: set_slot_apply points_to_def)
    then show ?thesis using j ne by metis
  qed
  show "sn_status (?s i' n') = 2"
    if "used (?s i' n')" "used (?s j m)" "kf j = Some (sn_public_key (?s i' n'))" "kf i' = Some (sn_public_key (?s j m))" for i' n' j m
    using that links_mutual [OF assms(1), of i' n' j m] used_0 [OF assms(3)] by (auto simp: set_slot_apply points_to_def split: if_splits)
qed (use links_keys [OF assms(1)] in blast)

text \<open>A linked slot is emptied; the other side waits again.\<close>

lemma links_unlink:
  assumes "links_ok kf s" "points_to (s i n) j m" "sn_status c = 0" "sn_status d = 1" "sn_public_key d = sn_public_key (s j m)"
  shows "links_ok kf (set_slot i n c (set_slot j m d s))" (is "links_ok kf ?s")
proof (rule links_okI)
  obtain p: "points_to (s j m) i n" "kf j = Some (sn_public_key (s i n))" "kf i = Some (sn_public_key (s j m))" "i \<noteq> j"
    using links_linked [OF assms(1), of i n] assms(2) by (force simp: points_to_def)
  note u = used_0 [OF assms(3)] points_to_used [OF p(1)] points_to_used [OF assms(2)]
  have ud: "used d" using assms(4) by (simp add: used_def)
  show "slots_ok (kf x) (?s x)" for x
    using links_slots [OF assms(1), of x] slots_ok_clear [of "kf i" "s i" c n] slots_ok_same [of "kf j" "s j" m d] assms u ud p(4) by (auto simp: set_slot_row)
  show "\<exists>j' m'. points_to (?s i' n') j' m' \<and> points_to (?s j' m') i' n' \<and> kf j' = Some (sn_public_key (?s i' n'))" if st: "sn_status (?s i' n') = 2" for i' n'
  proof -
    have e: "?s i' n' = s i' n'" and ne: "(i', n') \<noteq> (i, n)" "(i', n') \<noteq> (j, m)" using st assms(3,4) by (auto simp: set_slot_apply split: if_splits)
    then obtain x y where x: "points_to (s i' n') x y" "points_to (s x y) i' n'" "kf x = Some (sn_public_key (s i' n'))"
      using links_linked [OF assms(1), of i' n'] st by metis
    have "?s x y = s x y" using x(2) ne p(1) assms(2) by (auto simp: set_slot_apply points_to_def)
    then show ?thesis using x e by metis
  qed
  show "sn_status (?s i' n') = 2"
    if that: "used (?s i' n')" "used (?s x y)" "kf x = Some (sn_public_key (?s i' n'))" "kf i' = Some (sn_public_key (?s x y))" for i' n' x y
  proof -
    have ne: "(i', n') \<noteq> (i, n)" "(x, y) \<noteq> (i, n)" using that(1,2) u(1) by (auto simp: set_slot_apply)
    have key: "sn_public_key (?s a b) = sn_public_key (s a b) \<and> used (s a b)" if "used (?s a b)" "(a, b) \<noteq> (i, n)" for a b
      using that u assms(5) by (auto simp: set_slot_apply split: if_splits)
    have pt: "points_to (s i' n') x y" using links_mutual [OF assms(1), of i' n' x y] that key ne by metis
    moreover have "(i', n') \<noteq> (j, m)" using pt p(1) ne by (auto simp: points_to_def)
    ultimately show ?thesis using ne by (auto simp: set_slot_apply points_to_def)
  qed
qed (use links_keys [OF assms(1)] in blast)

text \<open>Clients come and go without slots.\<close>

lemma links_connect:
  assumes "links_ok kf s" "kf i = None" "k \<notin> ran kf"
  shows "links_ok (kf(i \<mapsto> k)) s"
proof (rule links_okI)
  have e: "\<not> used (s i n)" for n using links_slots [OF assms(1), of i] slot_used [of "kf i" "s i" n] assms(2) by auto
  show "x = y" if "(kf(i \<mapsto> k)) x = Some k'" "(kf(i \<mapsto> k)) y = Some k'" for x y k'
    using that assms(3) links_keys [OF assms(1)] by (auto simp: ran_def split: if_splits)
  show "slots_ok ((kf(i \<mapsto> k)) x) (s x)" for x
    using links_slots [OF assms(1), of x] slot_status [OF links_slots [OF assms(1), of i]] e by (auto simp: slots_ok_def)
  show "\<exists>j m. points_to (s i' n) j m \<and> points_to (s j m) i' n \<and> (kf(i \<mapsto> k)) j = Some (sn_public_key (s i' n))" if st: "sn_status (s i' n) = 2" for i' n
  proof -
    obtain j m where j: "points_to (s i' n) j m" "points_to (s j m) i' n" "kf j = Some (sn_public_key (s i' n))"
      using links_linked [OF assms(1) st] by metis
    then have "j \<noteq> i" using assms(2) by auto
    then show ?thesis using j by auto
  qed
  show "sn_status (s i' n) = 2"
    if "used (s i' n)" "used (s j m)" "(kf(i \<mapsto> k)) j = Some (sn_public_key (s i' n))" "(kf(i \<mapsto> k)) i' = Some (sn_public_key (s j m))" for i' n j m
    using that e links_mutual [OF assms(1), of i' n j m] by (auto simp: points_to_def split: if_splits)
qed

lemma links_disconnect:
  assumes "links_ok kf s" "\<And>n. sn_status (s i n) = 0"
  shows "links_ok (kf(i := None)) s"
proof (rule links_okI)
  have e: "\<not> used (s i n)" for n using assms(2) by (simp add: used_def)
  show "x = y" if "(kf(i := None)) x = Some k'" "(kf(i := None)) y = Some k'" for x y k'
    using that links_keys [OF assms(1)] by (auto split: if_splits)
  show "slots_ok ((kf(i := None)) x) (s x)" for x
    using links_slots [OF assms(1), of x] assms(2) e by (auto simp: slots_ok_def)
  show "\<exists>j m. points_to (s i' n) j m \<and> points_to (s j m) i' n \<and> (kf(i := None)) j = Some (sn_public_key (s i' n))" if st: "sn_status (s i' n) = 2" for i' n
  proof -
    obtain j m where j: "points_to (s i' n) j m" "points_to (s j m) i' n" "kf j = Some (sn_public_key (s i' n))"
      using links_linked [OF assms(1) st] by metis
    then have "j \<noteq> i" using points_to_used e by blast
    then show ?thesis using j by auto
  qed
  show "sn_status (s i' n) = 2"
    if "used (s i' n)" "used (s j m)" "(kf(i := None)) j = Some (sn_public_key (s i' n))" "(kf(i := None)) i' = Some (sn_public_key (s j m))" for i' n j m
    using that e links_mutual [OF assms(1), of i' n j m] by (auto simp: points_to_def split: if_splits)
qed

section \<open>What sending leaves alone\<close>

text \<open>The same socket later: what has been written only grows.\<close>

definition sock_later :: "Sock \<Rightarrow> Sock \<Rightarrow> bool" where
  "sock_later a b \<longleftrightarrow> sk_send b = sk_send a \<and> sk_recv b = sk_recv a \<and> sk_count b = sk_count a \<and> prefix (sk_wire a) (sk_wire b)"

lemma sock_later_refl [simp]: "sock_later a a"
  by (simp add: sock_later_def)

lemma sock_later_trans: "sock_later a b \<Longrightarrow> sock_later b c \<Longrightarrow> sock_later a c"
  by (auto simp: sock_later_def intro: prefix_order.trans)

definition sock_frame :: "TCP_Connection \<Rightarrow> TCP_Connection \<Rightarrow> bool" where
  "sock_frame c c' \<longleftrightarrow> tc_ns c' = tc_ns c \<and> sock_later (tc_sock c) (tc_sock c') \<and> sk_in (tc_sock c') = sk_in (tc_sock c)"

lemma sock_frame_refl [simp]: "sock_frame c c"
  by (simp add: sock_frame_def)

lemma sock_frame_trans: "sock_frame a b \<Longrightarrow> sock_frame b c \<Longrightarrow> sock_frame a c"
  by (auto simp: sock_frame_def intro: sock_later_trans)

lemma sock_frame_upd [simp]:
  "sock_frame a (c\<lparr>tc_sent_nonce := x1\<rparr>) = sock_frame a c" "sock_frame a (c\<lparr>last_packet := x2\<rparr>) = sock_frame a c"
  "sock_frame a (c\<lparr>last_packet_length := x3\<rparr>) = sock_frame a c" "sock_frame a (c\<lparr>last_packet_sent := x4\<rparr>) = sock_frame a c"
  "sock_frame a (c\<lparr>priority_queue_start := x5\<rparr>) = sock_frame a c" "sock_frame a (c\<lparr>priority_queue_end := x6\<rparr>) = sock_frame a c"
  "sock_frame a (c\<lparr>pq_heap := x7\<rparr>) = sock_frame a c"
  by (simp_all add: sock_frame_def)

lemma sock_frame_upd_left [simp]:
  "sock_frame (c\<lparr>tc_sent_nonce := x1\<rparr>) a = sock_frame c a" "sock_frame (c\<lparr>pq_heap := x7\<rparr>) a = sock_frame c a"
  by (simp_all add: sock_frame_def)

lemma con_send_frame: "con_send c buf = Some (n, c') \<Longrightarrow> sock_frame c c'"
  by (auto simp: con_send_def net_send_def Let_def sock_frame_def sock_later_def split: if_splits)

lemma nonpriority_frame:
  assumes "send_pending_data_nonpriority c = Some (r, c')"
  shows "sock_frame c c'"
proof (cases "last_packet_length c = 0")
  case True
  then show ?thesis using assms by (simp add: send_pending_data_nonpriority_def)
next
  case False
  then obtain len c1 where s: "con_send c (slice (unat (last_packet_sent c)) (unat (last_packet_length c - last_packet_sent c)) (last_packet c)) = Some (len, c1)"
    using assms by (auto simp: send_pending_data_nonpriority_def Let_def bind_eq_Some_conv)
  then show ?thesis using con_send_frame [OF s] s assms False by (auto simp: send_pending_data_nonpriority_def Let_def split: if_splits)
qed

lemma send_loop_frame:
  assumes "send_pending_loop p c = Some y"
  shows "sock_frame c (snd y)"
proof (rule send_pending_loop.raw_induct [OF _ assms])
  fix loop p c y
  assume 1: "\<And>p c y. loop p c = Some y \<Longrightarrow> sock_frame c (snd y)"
    "(case p of None \<Rightarrow> Some (None, c)
      | Some a \<Rightarrow> do {
          node \<leftarrow> pq_heap c a;
          let left = pq_size node - pq_sent node;
          (len, c) \<leftarrow> con_send c (slice (unat (pq_sent node)) (unat left) (pq_data node));
          if len \<noteq> uint left then
            Some (Some a, if len > 0 then c\<lparr>pq_heap := (pq_heap c)(a \<mapsto> node\<lparr>pq_sent := pq_sent node + word_of_int len\<rparr>)\<rparr> else c)
          else loop (pq_next node) (c\<lparr>pq_heap := (pq_heap c)(a := None)\<rparr>)
        }) = Some y"
  show "sock_frame c (snd y)"
  proof (cases p)
    case None
    then show ?thesis using 1(2) by auto
  next
    case (Some a)
    then obtain node len c1 where s: "pq_heap c a = Some node"
      "con_send c (slice (unat (pq_sent node)) (unat (pq_size node - pq_sent node)) (pq_data node)) = Some (len, c1)"
      using 1(2) by (auto simp: bind_eq_Some_conv Let_def)
    note f = con_send_frame [OF s(2)]
    show ?thesis
    proof (cases "len = uint (pq_size node - pq_sent node)")
      case True
      then have "loop (pq_next node) (c1\<lparr>pq_heap := (pq_heap c1)(a := None)\<rparr>) = Some y" using 1(2) Some s by simp
      then show ?thesis using 1(1) sock_frame_trans [OF f] by fastforce
    next
      case False
      then show ?thesis using 1(2) Some s f by auto
    qed
  qed
qed

lemma pending_frame:
  assumes "send_pending_data c = Some (r, c')"
  shows "sock_frame c c'"
proof -
  obtain r1 c1 where n: "send_pending_data_nonpriority c = Some (r1, c1)" using assms by (auto simp: send_pending_data_def bind_eq_Some_conv)
  note f = nonpriority_frame [OF n]
  show ?thesis
  proof (cases "r1 = - 1")
    case True
    then show ?thesis using assms n f by (simp add: send_pending_data_def)
  next
    case False
    then obtain p c2 where l: "send_pending_loop (priority_queue_start c1) c1 = Some (p, c2)" using assms n by (auto simp: send_pending_data_def bind_eq_Some_conv)
    have "sock_frame c c2" using sock_frame_trans [OF f] send_loop_frame [OF l] by simp
    then show ?thesis using assms n l False by (auto simp: send_pending_data_def Let_def split: if_splits)
  qed
qed

lemma add_priority_frame:
  assumes "add_priority P a c packet k = Some (ok, c')"
  shows "sock_frame c c'"
  using assms by (cases a; cases "priority_queue_end c") (auto simp: add_priority_def Let_def bind_eq_Some_conv split: if_splits)

lemma write_packet_frame:
  assumes "write_packet_TCP_secure_connection P a c data priority = Some (r, c')"
  shows "sock_frame c c'"
proof (cases "length data + CRYPTO_MAC_SIZE > MAX_PACKET_SIZE")
  case True
  then show ?thesis using assms by (simp add: write_packet_TCP_secure_connection_def)
next
  case small: False
  obtain pr c1 where p: "send_pending_data c = Some (pr, c1)" using assms small by (auto simp: write_packet_TCP_secure_connection_def bind_eq_Some_conv)
  note f = pending_frame [OF p]
  have snd: "sock_frame c c2" if "con_send c1 pk = Some (n, c2)" for pk n c2 using sock_frame_trans [OF f con_send_frame [OF that]] .
  have add: "sock_frame c c3" if "add_priority P a (c2\<lparr>tc_sent_nonce := x\<rparr>) pk k = Some (ok, c3)" "sock_frame c c2" for c2 c3 x pk k ok
    using sock_frame_trans [OF that(2)] add_priority_frame [OF that(1)] by simp
  show ?thesis using assms small p f
    by (auto simp: write_packet_TCP_secure_connection_def Let_def bind_eq_Some_conv split: if_splits option.splits dest: snd add)
qed

section \<open>Connections in order\<close>

definition con_ok :: "TCP_Connection \<Rightarrow> bool" where
  "con_ok c \<longleftrightarrow> tc_ns c \<and> stream_socket (sk_send (tc_sock c)) (sk_recv (tc_sock c)) (sk_count (tc_sock c)) \<and> (\<exists>s. con_stream c s)"

lemma con_ok_send: "con_ok c \<Longrightarrow> send_ok c"
  by (auto simp: con_ok_def send_ok_def stream_socket.send_le)

lemma con_ok_frame: "con_ok c \<Longrightarrow> sock_frame c c' \<Longrightarrow> con_stream c' s \<Longrightarrow> con_ok c'"
  by (auto simp: con_ok_def sock_frame_def sock_later_def)

lemma write_con_ok:
  assumes "box_platform P" "\<And>h. finite (dom h) \<Longrightarrow> \<exists>a. calloc h = Some a \<and> a \<notin> dom h" "con_ok c"
  obtains r c' where "write_packet_TCP_secure_connection P (calloc (pq_heap c)) c data priority = Some (r, c')" "con_ok c'" "sock_frame c c'"
proof -
  obtain s where s: "con_stream c s" using assms(3) by (auto simp: con_ok_def)
  then have "finite (dom (pq_heap c))" by (auto simp: con_stream_def queue_ok_def)
  then obtain a where a: "calloc (pq_heap c) = Some a" "a \<notin> dom (pq_heap c)" using assms(2) by blast
  obtain r c' s' where w: "write_packet_TCP_secure_connection P (Some a) c data priority = Some (r, c')" "con_stream c' s'"
    using write_packet [OF assms(1) con_ok_send [OF assms(3)] s a(2), of data priority] by metis
  note f = write_packet_frame [OF w(1)]
  show ?thesis using that w a(1) f con_ok_frame [OF assms(3) f w(2)] by simp
qed

lemma pending_ok:
  assumes "con_ok c"
  obtains r c' where "send_pending_data c = Some (r, c')" "con_ok c'" "sock_frame c c'" "r = 0 \<longrightarrow> con_idle c'"
proof -
  obtain s where s: "con_stream c s" using assms by (auto simp: con_ok_def)
  obtain r c' where w: "send_pending_data c = Some (r, c')" "con_stream c' s" "r = 0 \<longrightarrow> con_idle c'" using send_pending [OF con_ok_send [OF assms] s] by metis
  note f = pending_frame [OF w(1)]
  show ?thesis using that [OF w(1) con_ok_frame [OF assms f w(2)] f w(3)] .
qed

text \<open>What the relay relies on: memory and NaCl, a fresh address for every node, and stream sockets from \<^verbatim>\<open>accept\<close>.\<close>

locale relay_host =
  fixes E :: tcp_env
  assumes plat: "box_platform (te_plat E)"
    and calloc: "finite (dom h) \<Longrightarrow> \<exists>a. te_calloc E h = Some a \<and> a \<notin> dom h"
    and accept: "te_accept E sock_idx n = Some sock \<Longrightarrow> stream_socket (sk_send sock) (sk_recv sock) (sk_count sock)"
begin

lemma write_ok:
  assumes "con_ok c"
  obtains r c' where "write_packet_TCP_secure_connection (te_plat E) (te_calloc E (pq_heap c)) c data priority = Some (r, c')" "con_ok c'" "sock_frame c c'"
  by (rule write_con_ok [OF plat calloc assms])

end

lemma wipe_ok:
  assumes "con_ok c"
  obtains h where "wipe_priority_list (pq_heap c) (priority_queue_start c) = Some h"
  using assms wipe_priority_list_frees unfolding con_ok_def con_stream_def queue_ok_def by metis

end
