(* ===== verification/TCP_Relay.thy ===== *)
theory TCP_Relay
  imports TCP_Links
begin

text \<open>
  The operations of the TCP relay keep its state in order.
\<close>

section \<open>The state of the relay\<close>

definition keys_of :: "TCP_Server \<Rightarrow> relay_keys" where
  "keys_of srv i = (case accepted srv i of None \<Rightarrow> None
     | Some con \<Rightarrow> if sc_status con = TCP_STATUS_CONFIRMED then Some (sc_public_key con) else None)"

definition slots_of :: "TCP_Server \<Rightarrow> relay_slots" where
  "slots_of srv i n = (case accepted srv i of None \<Rightarrow> zero_secure_conn
     | Some con \<Rightarrow> if n < NUM_CLIENT_CONNECTIONS then connections con ! n else zero_secure_conn)"

definition inputs :: "TCP_Server \<Rightarrow> nat \<Rightarrow> bytes" where
  "inputs srv i = (case accepted srv i of None \<Rightarrow> [] | Some con \<Rightarrow> sk_in (tc_sock (sc_con con)))"

definition idents_of :: "TCP_Server \<Rightarrow> nat \<Rightarrow> u64" where
  "idents_of srv i = (case accepted srv i of None \<Rightarrow> 0 | Some con \<Rightarrow> sc_identifier con)"

definition sock_at :: "TCP_Server \<Rightarrow> nat \<Rightarrow> Sock" where
  "sock_at srv i = tc_sock (sc_con (case accepted srv i of None \<Rightarrow> zero_secure_connection | Some con \<Rightarrow> con))"

definition secure_ok :: "TCP_Status \<Rightarrow> TCP_Secure_Connection \<Rightarrow> bool" where
  "secure_ok st con \<longleftrightarrow> con = zero_secure_connection \<or>
     sc_status con = st \<and> con_ok (sc_con con) \<and> length (sc_public_key con) = 32 \<and> length (connections con) = NUM_CLIENT_CONNECTIONS"

definition queued_ok :: "TCP_Status \<Rightarrow> TCP_Secure_Connection \<Rightarrow> bool" where
  "queued_ok st con \<longleftrightarrow> secure_ok st con \<and> connections con = replicate NUM_CLIENT_CONNECTIONS zero_secure_conn"

definition queues_ok :: "TCP_Server \<Rightarrow> bool" where
  "queues_ok srv \<longleftrightarrow> length (incoming_connection_queue srv) = MAX_INCOMING_CONNECTIONS \<and> length (unconfirmed_connection_queue srv) = MAX_INCOMING_CONNECTIONS \<and>
     list_all (queued_ok TCP_STATUS_CONNECTED) (incoming_connection_queue srv) \<and> list_all (queued_ok TCP_STATUS_UNCONFIRMED) (unconfirmed_connection_queue srv)"

text \<open>The index of keys, the number of clients and their identifiers.\<close>

definition index_ok :: "relay_keys \<Rightarrow> BS_List \<Rightarrow> bool" where
  "index_ok kf l \<longleftrightarrow> bs_inv l \<and> bs_element_size l = 32 \<and> (\<forall>k i. bs_map l k = Some (int i) \<longleftrightarrow> kf i = Some k) \<and>
     (\<forall>k j. bs_map l k = Some j \<longrightarrow> 0 \<le> j)"

definition idents_ok :: "relay_keys \<Rightarrow> (nat \<Rightarrow> u64) \<Rightarrow> u64 \<Rightarrow> bool" where
  "idents_ok kf f c \<longleftrightarrow> (\<forall>i. kf i = None \<longrightarrow> f i = 0) \<and> (\<forall>i \<in> dom kf. 0 < f i \<and> f i \<le> c) \<and> inj_on f (dom kf)"

definition array_ok :: "TCP_Server \<Rightarrow> bool" where
  "array_ok srv \<longleftrightarrow> list_all (secure_ok TCP_STATUS_CONFIRMED) (accepted_connection_array srv) \<and> length (accepted_connection_array srv) < 2 ^ 32"

definition relay_base :: "TCP_Server \<Rightarrow> bool" where
  "relay_base srv \<longleftrightarrow> array_ok srv \<and> queues_ok srv \<and> index_ok (keys_of srv) (accepted_key_list srv) \<and>
     unat (num_accepted_connections srv) = card (dom (keys_of srv)) \<and> idents_ok (keys_of srv) (idents_of srv) (counter srv)"

definition relay_ok :: "TCP_Server \<Rightarrow> bool" where
  "relay_ok srv \<longleftrightarrow> relay_base srv \<and> links_ok (keys_of srv) (slots_of srv)"

text \<open>Steps that change neither the clients nor the queues nor the input.\<close>

definition quiet :: "TCP_Server \<Rightarrow> TCP_Server \<Rightarrow> bool" where
  "quiet srv srv' \<longleftrightarrow> keys_of srv' = keys_of srv \<and> inputs srv' = inputs srv \<and> idents_of srv' = idents_of srv \<and>
     length (accepted_connection_array srv') = length (accepted_connection_array srv) \<and> counter srv' = counter srv \<and>
     accepted_key_list srv' = accepted_key_list srv \<and> num_accepted_connections srv' = num_accepted_connections srv \<and>
     incoming_connection_queue srv' = incoming_connection_queue srv \<and> unconfirmed_connection_queue srv' = unconfirmed_connection_queue srv \<and>
     (\<forall>i. sock_later (sock_at srv i) (sock_at srv' i)) \<and> prefix (srv_calls srv) (srv_calls srv')"

lemma quiet_refl [simp]: "quiet srv srv"
  by (simp add: quiet_def)

lemma quiet_trans: "quiet a b \<Longrightarrow> quiet b c \<Longrightarrow> quiet a c"
  using sock_later_trans prefix_order.trans by (auto simp: quiet_def) blast+

lemma accepted_set: "i < length (accepted_connection_array srv) \<Longrightarrow>
  accepted (set_accepted i con srv) = (accepted srv)(i \<mapsto> con)"
  by (auto simp: accepted_def set_accepted_def fun_eq_iff)

lemma accepted_Some: "accepted srv i = Some con \<longleftrightarrow> i < length (accepted_connection_array srv) \<and> con = accepted_connection_array srv ! i"
  by (auto simp: accepted_def)

lemma accepted_ok: "array_ok srv \<Longrightarrow> accepted srv i = Some con \<Longrightarrow> secure_ok TCP_STATUS_CONFIRMED con"
  by (auto simp: array_ok_def accepted_Some list_all_length)

lemma keys_of_Some:
  "keys_of srv i = Some k \<longleftrightarrow> (\<exists>con. accepted srv i = Some con \<and> sc_status con = TCP_STATUS_CONFIRMED \<and> sc_public_key con = k)"
  by (auto simp: keys_of_def split: option.splits)

lemma keys_of_dom: "dom (keys_of srv) \<subseteq> {..<length (accepted_connection_array srv)}"
  by (auto simp: keys_of_Some accepted_Some)

lemma finite_keys [simp]: "finite (dom (keys_of srv))"
  using keys_of_dom finite_subset by blast

text \<open>A client of the relay.\<close>

lemma clientE:
  assumes "array_ok srv" "keys_of srv i = Some k"
  obtains con where "accepted srv i = Some con" "sc_status con = TCP_STATUS_CONFIRMED" "sc_public_key con = k" "con_ok (sc_con con)" "length k = 32"
    "length (connections con) = NUM_CLIENT_CONNECTIONS" "i < length (accepted_connection_array srv)"
proof -
  obtain con where c: "accepted srv i = Some con" "sc_status con = TCP_STATUS_CONFIRMED" "sc_public_key con = k" using assms(2) by (auto simp: keys_of_Some)
  then show ?thesis using accepted_ok [OF assms(1) c(1)] that by (auto simp: secure_ok_def zero_secure_connection_def accepted_Some)
qed

lemma nonclient:
  assumes "array_ok srv" "accepted srv i = Some con" "keys_of srv i = None"
  shows "con = zero_secure_connection"
  using accepted_ok [OF assms(1,2)] assms(2,3) by (auto simp: secure_ok_def keys_of_def)

text \<open>Replacing a client by itself with another connection or other slots.\<close>

lemma relay_put:
  assumes "relay_base srv" "accepted srv i = Some con" "sc_status con = TCP_STATUS_CONFIRMED"
    and "secure_ok TCP_STATUS_CONFIRMED con'" "sc_status con' = TCP_STATUS_CONFIRMED" "sc_public_key con' = sc_public_key con" "sc_identifier con' = sc_identifier con"
  shows "relay_base (set_accepted i con' srv)" "keys_of (set_accepted i con' srv) = keys_of srv"
proof -
  have i: "i < length (accepted_connection_array srv)" using assms(2) by (simp add: accepted_Some)
  show k: "keys_of (set_accepted i con' srv) = keys_of srv" using assms(2-6) by (auto simp: keys_of_def accepted_set [OF i] fun_eq_iff)
  have f: "idents_of (set_accepted i con' srv) = idents_of srv" using assms(2,7) by (auto simp: idents_of_def accepted_set [OF i] fun_eq_iff)
  have "array_ok (set_accepted i con' srv)" using assms(1,4) i by (auto simp: relay_base_def array_ok_def set_accepted_def list_all_length nth_list_update)
  then show "relay_base (set_accepted i con' srv)" using assms(1) unfolding relay_base_def k f
    by (simp add: set_accepted_def queues_ok_def)
qed

definition con_upd :: "nat \<Rightarrow> TCP_Connection \<Rightarrow> TCP_Server \<Rightarrow> TCP_Server" where
  "con_upd i c srv = set_accepted i ((accepted_connection_array srv ! i)\<lparr>sc_con := c\<rparr>) srv"

lemma con_upd:
  assumes "relay_base srv" "keys_of srv i = Some k" "con_ok c"
  shows "relay_base (con_upd i c srv)" "keys_of (con_upd i c srv) = keys_of srv" "slots_of (con_upd i c srv) = slots_of srv"
    "inputs (con_upd i c srv) = (inputs srv)(i := sk_in (tc_sock c))" "sk_in (tc_sock c) = inputs srv i \<Longrightarrow> sock_later (sock_at srv i) (tc_sock c) \<Longrightarrow> quiet srv (con_upd i c srv)"
proof -
  obtain con where con: "accepted srv i = Some con" "sc_status con = TCP_STATUS_CONFIRMED" "con_ok (sc_con con)" "length (sc_public_key con) = 32"
    "length (connections con) = NUM_CLIENT_CONNECTIONS" "i < length (accepted_connection_array srv)"
    using clientE [of srv i k] assms(1,2) by (metis relay_base_def)
  have e: "con_upd i c srv = set_accepted i (con\<lparr>sc_con := c\<rparr>) srv" using con(1) by (simp add: con_upd_def accepted_Some)
  have ok: "secure_ok TCP_STATUS_CONFIRMED (con\<lparr>sc_con := c\<rparr>)" using con assms(3) by (simp add: secure_ok_def)
  show "relay_base (con_upd i c srv)" and k: "keys_of (con_upd i c srv) = keys_of srv"
    unfolding e using relay_put [OF assms(1) con(1,2) ok] con by simp_all
  show "slots_of (con_upd i c srv) = slots_of srv" using con(1) by (auto simp: e slots_of_def accepted_set [OF con(6)] fun_eq_iff)
  show in': "inputs (con_upd i c srv) = (inputs srv)(i := sk_in (tc_sock c))" by (auto simp: e inputs_def accepted_set [OF con(6)] fun_eq_iff)
  have "idents_of (con_upd i c srv) = idents_of srv" using con(1) by (auto simp: e idents_of_def accepted_set [OF con(6)] fun_eq_iff)
  moreover have "sock_at (con_upd i c srv) = (sock_at srv)(i := tc_sock c)" by (auto simp: e sock_at_def accepted_set [OF con(6)] fun_eq_iff)
  ultimately show "quiet srv (con_upd i c srv)" if "sk_in (tc_sock c) = inputs srv i" "sock_later (sock_at srv i) (tc_sock c)"
    using that k in' by (simp add: quiet_def) (simp add: con_upd_def set_accepted_def)
qed

lemma upd_conn:
  assumes "relay_base srv" "keys_of srv i = Some k" "n < NUM_CLIENT_CONNECTIONS"
  obtains srv' where "upd_conn i n f srv = Some srv'" "relay_base srv'" "quiet srv srv'" "slots_of srv' = set_slot i n (f (slots_of srv i n)) (slots_of srv)"
proof -
  obtain con where con: "accepted srv i = Some con" "sc_status con = TCP_STATUS_CONFIRMED" "con_ok (sc_con con)" "length (sc_public_key con) = 32"
    "length (connections con) = NUM_CLIENT_CONNECTIONS" "i < length (accepted_connection_array srv)"
    using clientE [of srv i k] assms(1,2) by (metis relay_base_def)
  let ?con = "con\<lparr>connections := (connections con)[n := f (connections con ! n)]\<rparr>"
  let ?srv = "set_accepted i ?con srv"
  have ok: "secure_ok TCP_STATUS_CONFIRMED ?con" using con by (simp add: secure_ok_def)
  have b: "relay_base ?srv" "keys_of ?srv = keys_of srv" using relay_put [OF assms(1) con(1,2) ok] con by simp_all
  have s: "slots_of ?srv = set_slot i n (f (slots_of srv i n)) (slots_of srv)"
    using con(1,5) assms(3) by (auto simp: slots_of_def accepted_set [OF con(6)] set_slot_apply fun_eq_iff nth_list_update)
  have "idents_of ?srv = idents_of srv" "inputs ?srv = inputs srv" "sock_at ?srv = sock_at srv"
    using con(1) by (auto simp: inputs_def idents_of_def sock_at_def accepted_set [OF con(6)] fun_eq_iff)
  then have "quiet srv ?srv" using b(2) by (simp add: quiet_def) (simp add: set_accepted_def)
  then show ?thesis using that [OF _ b(1) _ s] con(1) assms(3) by (simp add: upd_conn_def get_conn_def)
qed

section \<open>Sending and unlinking\<close>

context relay_host
begin

lemma write_accepted_ok:
  assumes "relay_base srv" "keys_of srv i = Some k"
  obtains r srv' where "write_accepted E i data priority srv = Some (r, srv')" "relay_base srv'" "quiet srv srv'" "slots_of srv' = slots_of srv"
proof -
  obtain con where con: "accepted srv i = Some con" "con_ok (sc_con con)" using clientE [of srv i k] assms by (metis relay_base_def)
  have A: "accepted_connection_array srv ! i = con" using con(1) by (simp add: accepted_Some)
  obtain r c where w: "write_packet_TCP_secure_connection (te_plat E) (te_calloc E (pq_heap (sc_con con))) (sc_con con) data priority = Some (r, c)"
    "con_ok c" "sock_frame (sc_con con) c" using write_ok [OF con(2), of data priority] by blast
  note u = con_upd [OF assms w(2)]
  have "sk_in (tc_sock c) = inputs srv i" "sock_later (sock_at srv i) (tc_sock c)" using w(3) con(1) by (simp_all add: sock_frame_def inputs_def sock_at_def)
  moreover have "write_accepted E i data priority srv = Some (r, con_upd i c srv)" using con(1) w(1) A by (simp add: write_accepted_def con_upd_def)
  ultimately show ?thesis using that u by blast
qed

lemma rm_connection_index_ok:
  assumes "relay_ok srv" "keys_of srv i = Some k"
  obtains r srv' where "rm_connection_index E srv i n = Some (r, srv')" "relay_ok srv'" "quiet srv srv'"
    "unat n < NUM_CLIENT_CONNECTIONS \<longrightarrow> sn_status (slots_of srv' i (unat n)) = 0" "\<forall>m. m \<noteq> unat n \<longrightarrow> slots_of srv' i m = slots_of srv i m"
proof -
  note ok = assms(1) [unfolded relay_ok_def]
  obtain con where con: "accepted srv i = Some con" "length (connections con) = NUM_CLIENT_CONNECTIONS" "i < length (accepted_connection_array srv)"
    using clientE [of srv i k] assms ok by (metis relay_base_def)
  let ?n = "unat n" and ?s = "slots_of srv"
  let ?z = "\<lambda>x. x\<lparr>sn_index := 0, sn_other_id := 0, sn_status := 0\<rparr>" and ?w = "\<lambda>x. x\<lparr>sn_other_id := 0, sn_index := 0, sn_status := 1\<rparr>"
  show ?thesis
  proof (cases "?n < NUM_CLIENT_CONNECTIONS")
    case False
    then show ?thesis using that [of "- 1" srv] assms(1) by (simp add: rm_connection_index_def)
  next
    case n: True
    have get: "get_conn con ?n = Some (?s i ?n)" using n con(1) by (simp add: get_conn_def slots_of_def)
    note slot = links_slots [OF ok [THEN conjunct2], of i]
    consider "sn_status (?s i ?n) = 0" | "sn_status (?s i ?n) = 1" | "sn_status (?s i ?n) = 2" using slot_status [OF slot, of ?n] by (auto simp: used_def)
    then show ?thesis
    proof cases
      case 1
      then show ?thesis using that [of "- 1" srv] assms(1) n con get by (simp add: rm_connection_index_def)
    next
      case 2
      obtain srv' where u: "upd_conn i ?n ?z srv = Some srv'" "relay_base srv'" "quiet srv srv'" "slots_of srv' = set_slot i ?n (?z (?s i ?n)) ?s"
        using upd_conn [OF ok [THEN conjunct1] assms(2) n, of ?z] by metis
      have "relay_ok srv'" using u ok links_drop [of "keys_of srv" ?s i ?n "?z (?s i ?n)"] 2 by (simp add: relay_ok_def quiet_def)
      moreover have "rm_connection_index E srv i n = Some (0, srv')" using n con get 2 u(1) by (simp add: rm_connection_index_def)
      ultimately show ?thesis using that [of 0 srv'] u(3,4) by (simp add: set_slot_apply)
    next
      case 3
      obtain j m where p: "points_to (?s i ?n) j m" "keys_of srv j = Some (sn_public_key (?s i ?n))" "i \<noteq> j" "m < NUM_CLIENT_CONNECTIONS"
        using links_linked [OF ok [THEN conjunct2] 3] by metis
      have jm: "unat (sn_index (?s i ?n)) = j" "unat (sn_other_id (?s i ?n)) = m" using p(1) by (simp_all add: points_to_def)
      have j: "j < length (accepted_connection_array srv)" using p(2) keys_of_dom by blast
      obtain s1 where u1: "upd_conn j m ?w srv = Some s1" "relay_base s1" "quiet srv s1" "slots_of s1 = set_slot j m (?w (?s j m)) ?s"
        using upd_conn [OF ok [THEN conjunct1] p(2,4), of ?w] by metis
      have kj: "keys_of s1 j = Some (sn_public_key (?s i ?n))" "keys_of s1 = keys_of srv" using p(2) u1(3) by (simp_all add: quiet_def)
      obtain r s2 where u2: "send_disconnect_notification E j (sn_other_id (?s i ?n)) s1 = Some (r, s2)" "relay_base s2" "quiet s1 s2" "slots_of s2 = slots_of s1"
        using write_accepted_ok [OF u1(2) kj(1)] unfolding send_disconnect_notification_def by metis
      have ki: "keys_of s2 i = Some k" "keys_of s2 = keys_of srv" using assms(2) u2(3) kj(2) by (simp_all add: quiet_def)
      obtain s3 where u3: "upd_conn i ?n ?z s2 = Some s3" "relay_base s3" "quiet s2 s3" "slots_of s3 = set_slot i ?n (?z (slots_of s2 i ?n)) (slots_of s2)"
        using upd_conn [OF u2(2) ki(1) n, of ?z] by metis
      have e: "slots_of s2 i ?n = ?s i ?n" using u2(4) u1(4) p(3) by (simp add: set_slot_apply)
      have sl: "slots_of s3 = set_slot i ?n (?z (?s i ?n)) (set_slot j m (?w (?s j m)) ?s)" using u3(4) u2(4) u1(4) e by simp
      have q: "quiet srv s3" using quiet_trans u1(3) u2(3) u3(3) by blast
      have "relay_ok s3" using u3(2) ok q sl links_unlink [of "keys_of srv" ?s i ?n j m "?z (?s i ?n)" "?w (?s j m)"] p(1)
        by (simp add: relay_ok_def quiet_def)
      moreover have "rm_connection_index E srv i n = Some (0, s3)" using n con get 3 u1(1) u2(1) u3(1) j by (simp add: rm_connection_index_def jm)
      ultimately show ?thesis using that [of 0 s3] q sl p(3) by (simp add: set_slot_apply)
    qed
  qed
qed

lemma rm_connections_ok:
  assumes "relay_ok srv" "keys_of srv i = Some k" "\<forall>n \<in> set ns. n < NUM_CLIENT_CONNECTIONS"
  obtains srv' where "rm_connections E i ns srv = Some srv'" "relay_ok srv'" "quiet srv srv'" "\<forall>n \<in> set ns. sn_status (slots_of srv' i n) = 0"
    "\<forall>n. n \<notin> set ns \<longrightarrow> slots_of srv' i n = slots_of srv i n"
  using assms
proof (induction ns arbitrary: srv thesis)
  case Nil
  show ?case by (rule Nil.prems(1) [of srv]) (use Nil.prems(2) in simp_all)
next
  case (Cons n ns)
  have n: "unat (of_nat n :: byte) = n" using Cons.prems(4) by (simp add: unat_of_nat take_bit_eq_mod size_defs)
  obtain r s1 where s0: "rm_connection_index E srv i (of_nat n) = Some (r, s1)" "relay_ok s1" "quiet srv s1"
    "unat (of_nat n :: byte) < NUM_CLIENT_CONNECTIONS \<longrightarrow> sn_status (slots_of s1 i (unat (of_nat n :: byte))) = 0"
    "\<forall>m. m \<noteq> unat (of_nat n :: byte) \<longrightarrow> slots_of s1 i m = slots_of srv i m"
    using rm_connection_index_ok [OF Cons.prems(2,3), of "of_nat n"] by blast
  have z1: "sn_status (slots_of s1 i n) = 0" using s0(4) Cons.prems(4) by (simp add: n)
  note s1 = s0(1-3) z1 s0(5) [unfolded n]
  have k: "keys_of s1 i = Some k" using Cons.prems(3) s1(3) by (simp add: quiet_def)
  obtain s2 where s2: "rm_connections E i ns s1 = Some s2" "relay_ok s2" "quiet s1 s2" "\<forall>n \<in> set ns. sn_status (slots_of s2 i n) = 0"
    "\<forall>n. n \<notin> set ns \<longrightarrow> slots_of s2 i n = slots_of s1 i n" using Cons.IH [OF _ s1(2) k] Cons.prems(4) by auto
  have z: "sn_status (slots_of s2 i n) = 0" using s1(4) s2(4,5) by (cases "n \<in> set ns") auto
  show ?case by (rule Cons.prems(1) [of s2]) (use s1 s2 z quiet_trans [OF s1(3) s2(3)] in auto)
qed

end

section \<open>Removing and adding clients\<close>

lemma index_map: "index_ok kf l \<Longrightarrow> bs_map l k = Some (int i) \<longleftrightarrow> kf i = Some k"
  by (simp add: index_ok_def)

lemma index_Some:
  assumes "index_ok kf l" "bs_map l k = Some j"
  obtains i where "j = int i" "kf i = Some k"
proof -
  have "j = int (nat j)" using assms by (simp add: index_ok_def)
  then show ?thesis using that index_map [OF assms(1)] assms(2) by metis
qed

lemma index_inj: "index_ok kf l \<Longrightarrow> kf i = Some k \<Longrightarrow> kf j = Some k \<Longrightarrow> i = j"
  using index_map by (metis of_nat_eq_iff option.inject)

lemma index_del:
  assumes "index_ok kf l" "kf i = Some k" "bs_inv l'" "bs_map l' = (bs_map l)(k := None)" "bs_element_size l' = bs_element_size l"
  shows "index_ok (kf(i := None)) l'"
proof -
  have "bs_map l' k' = Some (int j) \<longleftrightarrow> (kf(i := None)) j = Some k'" for k' j
  proof (cases "j = i")
    case True
    then show ?thesis using index_map [OF assms(1), of k' j] assms(2,4) by auto
  next
    case False
    then have "kf j \<noteq> Some k" using index_inj [OF assms(1,2), of j] by blast
    then show ?thesis using False index_map [OF assms(1), of k' j] assms(4) by auto
  qed
  moreover have "0 \<le> j" if "bs_map l' k' = Some j" for k' j
    using that assms(1,4) by (auto simp: index_ok_def split: if_splits)
  ultimately show ?thesis using assms(1,3,5) by (simp add: index_ok_def)
qed

lemma index_add:
  assumes "index_ok kf l" "kf i = None" "k \<notin> ran kf" "bs_inv l'" "bs_map l' = (bs_map l)(k \<mapsto> int i)" "bs_element_size l' = bs_element_size l"
  shows "index_ok (kf(i \<mapsto> k)) l'"
proof -
  have "bs_map l' k' = Some (int j) \<longleftrightarrow> (kf(i \<mapsto> k)) j = Some k'" for k' j
  proof (cases "j = i")
    case True
    then show ?thesis using index_map [OF assms(1), of k' j] assms(2,5) by auto
  next
    case False
    then show ?thesis using index_map [OF assms(1), of k' j] assms(3,5) by (auto simp: ran_def)
  qed
  moreover have "0 \<le> j" if "bs_map l' k' = Some j" for k' j
    using that assms(1,5) by (auto simp: index_ok_def split: if_splits)
  ultimately show ?thesis using assms(1,4,6) by (simp add: index_ok_def)
qed

lemma index_find:
  assumes "index_ok kf l" "length k = 32"
  obtains "bs_list_find l k = Some (- 1)" "k \<notin> ran kf" | i where "bs_list_find l k = Some (int i)" "kf i = Some k"
proof (cases "bs_map l k")
  case None
  then have "kf i \<noteq> Some k" for i using index_map [OF assms(1), of k i] by simp
  then show ?thesis using None that(1) bs_list_find_eq [of l k] assms by (simp add: index_ok_def bs_key_def ran_def)
next
  case (Some j)
  then obtain i where "j = int i" "kf i = Some k" using index_Some [OF assms(1)] by blast
  then show ?thesis using Some that(2) bs_list_find_eq [of l k] assms by (simp add: index_ok_def bs_key_def)
qed

lemma bs_n_card: "bs_inv l \<Longrightarrow> bs_n l = card (dom (bs_map l))"
  using bs_elems_distinct [of l] by (simp add: bs_map_def bs_inv_def dom_map_of_zip distinct_card)

lemma index_card:
  assumes "index_ok kf l" "finite (dom kf)"
  shows "bs_n l = card (dom kf)"
proof -
  have "dom (bs_map l) = ran kf" using index_Some [OF assms(1)] index_map [OF assms(1)] by (fastforce simp: ran_def dom_def)
  also have "\<dots> = (\<lambda>i. the (kf i)) ` dom kf" by (force simp: ran_def dom_def)
  finally have "card (dom (bs_map l)) = card (dom kf)"
    using index_inj [OF assms(1)] by (auto intro!: card_image inj_onI)
  then show ?thesis using bs_n_card assms(1) by (simp add: index_ok_def)
qed

lemma idents_del: "idents_ok kf f c \<Longrightarrow> idents_ok (kf(i := None)) (f(i := 0)) c"
  by (auto simp: idents_ok_def inj_on_def)

lemma idents_add:
  assumes "idents_ok kf f c" "unat c + 1 < 2 ^ 64"
  shows "idents_ok (kf(i \<mapsto> k)) (f(i := c + 1)) (c + 1)"
proof -
  have c: "c < c + 1" using assms(2) by (simp add: word_less_nat_alt unat_word_ariths(1))
  have le: "f x \<le> c" if "x \<in> dom kf" for x using assms(1) that by (auto simp: idents_ok_def)
  have ne: "f x \<noteq> c + 1" if "x \<in> dom kf" for x using le [OF that] c by auto
  have le': "f x \<le> c + 1" if "x \<in> dom kf" for x using le [OF that] c by simp
  have pos: "0 < c + 1" using c by (metis word_gt_0 word_not_simps(1))
  have inj: "inj_on (f(i := c + 1)) (dom (kf(i \<mapsto> k)))"
  proof (rule inj_onI)
    fix x y assume xy: "x \<in> dom (kf(i \<mapsto> k))" "y \<in> dom (kf(i \<mapsto> k))" "(f(i := c + 1)) x = (f(i := c + 1)) y"
    have "inj_on f (dom kf)" using assms(1) by (simp add: idents_ok_def)
    then show "x = y" using xy ne [of x] ne [of y] by (cases "x = i"; cases "y = i") (auto dest: inj_onD)
  qed
  have "(f(i := c + 1)) x = 0" if "(kf(i \<mapsto> k)) x = None" for x using that assms(1) by (auto simp: idents_ok_def split: if_splits)
  moreover have "0 < (f(i := c + 1)) x \<and> (f(i := c + 1)) x \<le> c + 1" if "x \<in> dom (kf(i \<mapsto> k))" for x
    using that le' [of x] pos assms(1) by (cases "x = i") (auto simp: idents_ok_def)
  ultimately show ?thesis using inj unfolding idents_ok_def by blast
qed

lemma links_cong:
  assumes "links_ok kf s" "\<And>i n. s' i n = s i n \<or> sn_status (s' i n) = 0 \<and> sn_status (s i n) = 0"
  shows "links_ok kf s'"
proof (rule links_okI)
  have u: "s' i n = s i n" if "sn_status (s' i n) \<noteq> 0 \<or> sn_status (s i n) \<noteq> 0" for i n using that assms(2) [of i n] by auto
  have u': "s' i n = s i n" if "used (s' i n) \<or> used (s i n)" for i n using that u [of i n] by (auto simp: used_def)
  show "slots_ok (kf i) (s' i)" for i
  proof (rule slots_okI)
    show "used (s' i n) \<and> n < NUM_CLIENT_CONNECTIONS \<and> kf i \<noteq> None \<and> kf i \<noteq> Some (sn_public_key (s' i n)) \<and> length (sn_public_key (s' i n)) = 32"
      if "sn_status (s' i n) \<noteq> 0" for n
      using that u [of i n] links_slots [OF assms(1), of i] by (simp add: slots_ok_def)
    show "n = m" if "used (s' i n)" "used (s' i m)" "sn_public_key (s' i n) = sn_public_key (s' i m)" for n m
      using that u' [of i n] u' [of i m] slot_unique [OF links_slots [OF assms(1), of i]] by simp
  qed
  show "\<exists>j m. points_to (s' i n) j m \<and> points_to (s' j m) i n \<and> kf j = Some (sn_public_key (s' i n))" if st: "sn_status (s' i n) = 2" for i n
  proof -
    have e: "s' i n = s i n" using st u by simp
    then obtain j m where "points_to (s i n) j m" "points_to (s j m) i n" "kf j = Some (sn_public_key (s i n))" using st links_linked [OF assms(1)] by metis
    then show ?thesis using e u' [of j m] points_to_used by metis
  qed
  show "sn_status (s' i n) = 2" if "used (s' i n)" "used (s' j m)" "kf j = Some (sn_public_key (s' i n))" "kf i = Some (sn_public_key (s' j m))" for i n j m
    using that u' [of i n] u' [of j m] links_mutual [OF assms(1), of i n j m] by (simp add: points_to_def)
qed (use links_keys [OF assms(1)] in blast)

text \<open>An array without clients holds zeros only.\<close>

lemma zero_row [simp]: "connections zero_secure_connection = replicate NUM_CLIENT_CONNECTIONS zero_secure_conn"
  "sc_status zero_secure_connection = TCP_STATUS_NO_STATUS" "sc_identifier zero_secure_connection = 0"
  by (simp_all add: zero_secure_connection_def)

lemma nonclient_view:
  assumes "array_ok srv" "keys_of srv i = None"
  shows "slots_of srv i n = zero_secure_conn" "idents_of srv i = 0"
  using nonclient [OF assms(1) _ assms(2)] by (auto simp: slots_of_def idents_of_def split: option.splits)

lemma wipe_all_zero: "list_all (\<lambda>con. con = zero_secure_connection) cons \<Longrightarrow> wipe_all cons = Some ()"
  by (induction cons) (simp_all add: wipe_secure_connection_def)

lemma free_array_ok:
  assumes "relay_ok srv" "dom (keys_of srv) = {}"
  obtains srv' where "free_accepted_connection_array srv = Some srv'" "relay_ok srv'" "keys_of srv' = keys_of srv" "srv' = srv\<lparr>accepted_connection_array := []\<rparr>"
proof -
  have a: "array_ok srv" using assms(1) by (simp add: relay_ok_def relay_base_def)
  have k: "keys_of srv i = None" for i using assms(2) by auto
  have z: "con = zero_secure_connection" if c: "con \<in> set (accepted_connection_array srv)" for con
  proof -
    obtain i where "i < length (accepted_connection_array srv)" "con = accepted_connection_array srv ! i" using c by (auto simp: in_set_conv_nth)
    then show ?thesis using nonclient [OF a _ k [of i]] by (simp add: accepted_def)
  qed
  let ?s = "srv\<lparr>accepted_connection_array := []\<rparr>"
  have v: "keys_of ?s = keys_of srv" "slots_of ?s = slots_of srv" "idents_of ?s = idents_of srv"
    using k nonclient_view [OF a k] by (simp_all add: keys_of_def slots_of_def idents_of_def accepted_def fun_eq_iff)
  have "relay_ok ?s" using assms(1) by (simp add: relay_ok_def relay_base_def v array_ok_def queues_ok_def)
  then show ?thesis using that [of ?s] v(1) wipe_all_zero [of "accepted_connection_array srv"] z by (simp add: free_accepted_connection_array_def list_all_iff)
qed

lemma rm_connections_zero:
  assumes "accepted srv i = Some zero_secure_connection"
  shows "rm_connections E i ns srv = Some srv"
proof (induction ns)
  case (Cons n ns)
  have "rm_connection_index E srv i x = Some (- 1, srv)" for x
    using assms by (simp add: rm_connection_index_def get_conn_def zero_secure_conn_def)
  then show ?case using Cons by simp
qed simp

lemma relay_index: "relay_ok srv \<Longrightarrow> index_ok (keys_of srv) (accepted_key_list srv)" "relay_ok srv \<Longrightarrow> array_ok srv"
  "relay_ok srv \<Longrightarrow> relay_base srv" "relay_ok srv \<Longrightarrow> links_ok (keys_of srv) (slots_of srv)"
  by (simp_all add: relay_ok_def relay_base_def)

text \<open>The entry of a client without slots is filled with zeros.\<close>

lemma remove_client:
  assumes "relay_ok srv" "keys_of srv i = Some k" "\<And>n. sn_status (slots_of srv i n) = 0"
    and l: "bs_inv l" "bs_map l = (bs_map (accepted_key_list srv))(k := None)" "bs_element_size l = bs_element_size (accepted_key_list srv)"
  defines "srv' \<equiv> (set_accepted i zero_secure_connection (srv\<lparr>accepted_key_list := l\<rparr>))\<lparr>num_accepted_connections := num_accepted_connections srv - 1\<rparr>"
  shows "relay_ok srv'" "keys_of srv' = (keys_of srv)(i := None)" "idents_of srv' = (idents_of srv)(i := 0)" "j \<noteq> i \<Longrightarrow> sock_at srv' j = sock_at srv j"
proof -
  note ok = assms(1) [unfolded relay_ok_def relay_base_def]
  have i: "i < length (accepted_connection_array srv)" using assms(2) keys_of_dom by blast
  have acc: "accepted srv' = (accepted srv)(i \<mapsto> zero_secure_connection)" using i by (auto simp: srv'_def accepted_def set_accepted_def fun_eq_iff)
  show k: "keys_of srv' = (keys_of srv)(i := None)" by (auto simp: keys_of_def acc fun_eq_iff)
  show f: "idents_of srv' = (idents_of srv)(i := 0)" by (auto simp: idents_of_def acc fun_eq_iff)
  show "j \<noteq> i \<Longrightarrow> sock_at srv' j = sock_at srv j" by (simp add: sock_at_def acc)
  have row: "slots_of srv' j n = (if j = i then zero_secure_conn else slots_of srv j n)" for j n by (simp add: slots_of_def acc)
  have z: "sn_status zero_secure_conn = 0" by (simp add: zero_secure_conn_def)
  have "links_ok (keys_of srv') (slots_of srv)" unfolding k by (rule links_disconnect) (use ok assms(3) in simp_all)
  then have "links_ok (keys_of srv') (slots_of srv')" by (rule links_cong) (simp add: row z assms(3))
  moreover have "array_ok srv'" using ok i by (auto simp: array_ok_def srv'_def set_accepted_def list_all_length nth_list_update secure_ok_def)
  moreover have "index_ok (keys_of srv') (accepted_key_list srv')" using index_del [of "keys_of srv" "accepted_key_list srv" i k l] assms(2) l ok unfolding k by (simp add: srv'_def set_accepted_def)
  moreover have "unat (num_accepted_connections srv') = card (dom (keys_of srv'))"
  proof -
    have "i \<in> dom (keys_of srv)" using assms(2) by auto
    then have c: "card (dom (keys_of srv')) = card (dom (keys_of srv)) - 1" "0 < card (dom (keys_of srv))"
      using card_Diff_singleton [of i "dom (keys_of srv)"] by (auto simp: k card_gt_0_iff)
    then have "0 < num_accepted_connections srv" using ok by (simp add: word_gt_0_no unat_gt_0 word_less_nat_alt)
    then have "unat (num_accepted_connections srv - 1) = unat (num_accepted_connections srv) - 1" by (simp add: unat_minus_one word_gt_0)
    then show ?thesis using c ok by (simp add: srv'_def)
  qed
  moreover have "queues_ok srv'" using ok by (simp add: queues_ok_def srv'_def set_accepted_def)
  moreover have "idents_ok (keys_of srv') (idents_of srv') (counter srv')" using ok idents_del unfolding k f by (simp add: srv'_def set_accepted_def)
  ultimately show "relay_ok srv'" by (simp add: relay_ok_def relay_base_def)
qed

text \<open>What no operation on clients changes.\<close>

definition same_queues :: "TCP_Server \<Rightarrow> TCP_Server \<Rightarrow> bool" where
  "same_queues srv srv' \<longleftrightarrow> incoming_connection_queue srv' = incoming_connection_queue srv \<and> unconfirmed_connection_queue srv' = unconfirmed_connection_queue srv"

lemma same_queues_refl [simp]: "same_queues srv srv"
  by (simp add: same_queues_def)

lemma quiet_queues: "quiet srv srv' \<Longrightarrow> same_queues srv srv'"
  by (simp add: quiet_def same_queues_def)

lemma same_queues_trans: "same_queues a b \<Longrightarrow> same_queues b c \<Longrightarrow> same_queues a c"
  by (simp add: same_queues_def)

text \<open>A client that is the same as before, on the same socket, and a socket that has been closed in the meantime, as the record of the calls to the host says.\<close>

definition same_client :: "TCP_Server \<Rightarrow> TCP_Server \<Rightarrow> nat \<Rightarrow> bool" where
  "same_client srv srv' i \<longleftrightarrow> keys_of srv' i = keys_of srv i \<and> idents_of srv' i = idents_of srv i \<and> sock_later (sock_at srv i) (sock_at srv' i)"

definition closed_since :: "TCP_Server \<Rightarrow> TCP_Server \<Rightarrow> Sock \<Rightarrow> bool" where
  "closed_since srv srv' sock \<longleftrightarrow> (\<exists>s. Call_kill_sock s \<in> set (drop (length (srv_calls srv)) (srv_calls srv')) \<and> sock_later sock s)"

lemma same_client_refl [simp]: "same_client srv srv i"
  by (simp add: same_client_def)

lemma same_client_trans: "same_client a b i \<Longrightarrow> same_client b c i \<Longrightarrow> same_client a c i"
  by (auto simp: same_client_def intro: sock_later_trans)

lemma closed_since_extend: "closed_since a b s \<Longrightarrow> prefix (srv_calls b) (srv_calls c) \<Longrightarrow> closed_since a c s"
  by (auto simp: closed_since_def prefix_def)

lemma closed_since_before:
  assumes "sock_later s s'" "closed_since b c s'" "prefix (srv_calls a) (srv_calls b)"
  shows "closed_since a c s"
proof -
  obtain x where x: "Call_kill_sock x \<in> set (drop (length (srv_calls b)) (srv_calls c))" "sock_later s' x" using assms(2) by (auto simp: closed_since_def)
  have "set (drop (length (srv_calls b)) (srv_calls c)) \<subseteq> set (drop (length (srv_calls a)) (srv_calls c))"
    by (rule set_drop_subset_set_drop) (use assms(3) in \<open>simp add: prefix_length_le\<close>)
  then show ?thesis using x sock_later_trans [OF assms(1) x(2)] by (auto simp: closed_since_def)
qed

text \<open>A client with an old identifier is an old client, and an old client is still there unless its connection has been closed.\<close>

definition ages :: "TCP_Server \<Rightarrow> TCP_Server \<Rightarrow> bool" where
  "ages srv srv' \<longleftrightarrow> counter srv \<le> counter srv' \<and> prefix (srv_calls srv) (srv_calls srv') \<and>
     (\<forall>j. keys_of srv' j \<noteq> None \<and> idents_of srv' j \<le> counter srv \<longrightarrow> same_client srv srv' j) \<and>
     (\<forall>j. keys_of srv j \<noteq> None \<longrightarrow> same_client srv srv' j \<or> closed_since srv srv' (sock_at srv j))"

lemma ages_trans:
  assumes "ages a b" "ages b c"
  shows "ages a c"
proof -
  note ab = assms(1) [unfolded ages_def] and bc = assms(2) [unfolded ages_def]
  have "same_client a c j" if j: "keys_of c j \<noteq> None" "idents_of c j \<le> counter a" for j
  proof -
    have "idents_of c j \<le> counter b" using j(2) ab order.trans by blast
    then have "same_client b c j" using j(1) bc by simp
    moreover from this have "same_client a b j" using j ab by (simp add: same_client_def)
    ultimately show ?thesis using same_client_trans by blast
  qed
  moreover have "same_client a c j \<or> closed_since a c (sock_at a j)" if j: "keys_of a j \<noteq> None" for j
  proof (cases "closed_since a b (sock_at a j)")
    case True
    then show ?thesis using closed_since_extend bc by blast
  next
    case False
    then have s: "same_client a b j" using ab j by blast
    then have "keys_of b j \<noteq> None" using j by (simp add: same_client_def)
    then consider "same_client b c j" | "closed_since b c (sock_at b j)" using bc by blast
    then show ?thesis
    proof cases
      case 1
      then show ?thesis using same_client_trans [OF s] by blast
    next
      case 2
      have "sock_later (sock_at a j) (sock_at b j)" using s by (simp add: same_client_def)
      then show ?thesis using closed_since_before [OF _ 2] ab by blast
    qed
  qed
  moreover have "counter a \<le> counter c" using order.trans ab bc by blast
  moreover have "prefix (srv_calls a) (srv_calls c)" using prefix_order.trans ab bc by blast
  ultimately show ?thesis by (simp add: ages_def)
qed

lemma ages_view: "keys_of srv' = keys_of srv \<Longrightarrow> idents_of srv' = idents_of srv \<Longrightarrow> counter srv' = counter srv \<Longrightarrow>
  (\<And>i. sock_later (sock_at srv i) (sock_at srv' i)) \<Longrightarrow> prefix (srv_calls srv) (srv_calls srv') \<Longrightarrow> ages srv srv'"
  by (simp add: ages_def same_client_def)

lemma ages_refl [simp]: "ages srv srv"
  by (simp add: ages_view)

definition grows :: "nat \<Rightarrow> TCP_Server \<Rightarrow> TCP_Server \<Rightarrow> bool" where
  "grows k srv srv' \<longleftrightarrow> length (accepted_connection_array srv') \<le> length (accepted_connection_array srv) + 4 * k \<and>
     unat (counter srv') \<le> unat (counter srv) + k \<and> ages srv srv'"

lemma quiet_grows: "quiet srv srv' \<Longrightarrow> grows 0 srv srv'"
  by (simp add: quiet_def grows_def ages_view)

lemma grows_refl [simp]: "grows k srv srv"
  by (simp add: grows_def)

lemma grows_trans: "grows k a b \<Longrightarrow> grows l b c \<Longrightarrow> grows (k + l) a c"
  by (auto simp: grows_def intro: ages_trans)

lemma view_cong:
  assumes "accepted_connection_array srv' = accepted_connection_array srv"
  shows "accepted srv' = accepted srv" "keys_of srv' = keys_of srv" "slots_of srv' = slots_of srv" "inputs srv' = inputs srv" "idents_of srv' = idents_of srv"
    "sock_at srv' = sock_at srv"
proof -
  show a: "accepted srv' = accepted srv" using assms by (simp add: accepted_def fun_eq_iff)
  show "keys_of srv' = keys_of srv" "slots_of srv' = slots_of srv" "inputs srv' = inputs srv" "idents_of srv' = idents_of srv" "sock_at srv' = sock_at srv"
    by (simp_all add: keys_of_def slots_of_def inputs_def idents_of_def sock_at_def a fun_eq_iff)
qed

lemma relay_cong:
  assumes "accepted_connection_array srv' = accepted_connection_array srv" "accepted_key_list srv' = accepted_key_list srv"
    "num_accepted_connections srv' = num_accepted_connections srv" "counter srv' = counter srv" "queues_ok srv' = queues_ok srv"
  shows "relay_ok srv' = relay_ok srv"
  using assms by (simp add: relay_ok_def relay_base_def array_ok_def view_cong [OF assms(1)])

lemma relay_log [simp]:
  "keys_of (log_srv c srv) = keys_of srv" "slots_of (log_srv c srv) = slots_of srv" "relay_ok (log_srv c srv) = relay_ok srv"
  "quiet srv (log_srv c srv)" "accepted (log_srv c srv) = accepted srv"
  using view_cong [of "log_srv c srv" srv] relay_cong [of "log_srv c srv" srv] by (simp_all add: log_srv_def queues_ok_def quiet_def)

lemma log_srv_queue [simp]:
  "incoming_connection_queue (log_srv c srv) = incoming_connection_queue srv" "unconfirmed_connection_queue (log_srv c srv) = unconfirmed_connection_queue srv"
  "accepted_connection_array (log_srv c srv) = accepted_connection_array srv" "counter (log_srv c srv) = counter srv"
  by (simp_all add: log_srv_def)

context relay_host
begin

lemma kill_accepted_ok:
  assumes "relay_ok srv"
  obtains r srv' where "kill_accepted E srv i = Some (r, srv')" "relay_ok srv'" "keys_of srv' = (keys_of srv)(i := None)"
    "same_queues srv srv'" "grows 0 srv srv'"
    "2 \<le> card (dom (keys_of srv)) \<longrightarrow> length (accepted_connection_array srv') = length (accepted_connection_array srv)"
proof (cases "keys_of srv i")
  case none: None
  show ?thesis
  proof (cases "accepted srv i")
    case None
    then show ?thesis using that [of "- 1" srv] assms none by (auto simp: kill_accepted_def accepted_def fun_upd_idem split: if_splits)
  next
    case (Some con)
    then have z: "accepted srv i = Some zero_secure_connection" using nonclient [OF relay_index(2) [OF assms] Some none] by simp
    then have "kill_accepted E srv i = Some (- 1, srv)"
      by (auto simp: kill_accepted_def rm_connections_zero del_accepted_def accepted_def split: if_splits)
    then show ?thesis using that [of "- 1" srv] assms none by (simp add: fun_upd_idem)
  qed
next
  case (Some k)
  obtain s1 where s1: "rm_connections E i [0..<NUM_CLIENT_CONNECTIONS] srv = Some s1" "relay_ok s1" "quiet srv s1"
    "\<forall>n \<in> set [0..<NUM_CLIENT_CONNECTIONS]. sn_status (slots_of s1 i n) = 0"
    by (rule rm_connections_ok [OF assms Some, of "[0..<NUM_CLIENT_CONNECTIONS]"]) auto
  have k: "keys_of s1 i = Some k" "keys_of s1 = keys_of srv" using Some s1(3) by (simp_all add: quiet_def)
  obtain con where con: "accepted s1 i = Some con" "sc_status con = TCP_STATUS_CONFIRMED" "sc_public_key con = k" "con_ok (sc_con con)" "length k = 32"
    using clientE [OF relay_index(2) [OF s1(2)] k(1)] by metis
  have z: "sn_status (slots_of s1 i n) = 0" for n using s1(4) by (cases "n < NUM_CLIENT_CONNECTIONS") (auto simp: slots_of_def zero_secure_conn_def split: option.splits)
  note ix = relay_index(1) [OF s1(2)]
  have m: "bs_map (accepted_key_list s1) k = Some (int i)" using index_map [OF ix] k(1) by simp
  obtain l where l: "bs_list_remove (te_plat E) (te_fill E) (accepted_key_list s1) k (int i) = Some (True, l)" "bs_inv l"
    "bs_map l = (bs_map (accepted_key_list s1))(k := None)" "bs_element_size l = bs_element_size (accepted_key_list s1)"
    using bs_list_remove_cases [of "accepted_key_list s1" k "te_plat E" "te_fill E" "int i"] ix con(5) box_platform.memory [OF plat] m
    by (auto simp: index_ok_def bs_key_def)
  let ?s = "(set_accepted i zero_secure_connection (s1\<lparr>accepted_key_list := l\<rparr>))\<lparr>num_accepted_connections := num_accepted_connections s1 - 1\<rparr>"
  note r = remove_client [OF s1(2) k(1) z l(2-4)]
  obtain h where h: "wipe_priority_list (pq_heap (sc_con con)) (priority_queue_start (sc_con con)) = Some h" using wipe_ok [OF con(4)] by blast
  have w: "wipe_secure_connection con = Some zero_secure_connection" using con(2) h by (simp add: wipe_secure_connection_def)
  obtain s2 where s2: "(if num_accepted_connections ?s = 0 then free_accepted_connection_array ?s else Some ?s) = Some s2" "relay_ok s2" "keys_of s2 = keys_of ?s"
    "s2 = ?s \<or> s2 = ?s\<lparr>accepted_connection_array := []\<rparr> \<and> card (dom (keys_of ?s)) = 0"
  proof (cases "num_accepted_connections ?s = 0")
    case True
    have "unat (num_accepted_connections ?s) = card (dom (keys_of ?s))" using r(1) unfolding relay_ok_def relay_base_def by blast
    then have "card (dom (keys_of ?s)) = 0" unfolding True by simp
    then have c0: "dom (keys_of ?s) = {}" "card (dom (keys_of ?s)) = 0" by simp_all
    from free_array_ok [OF r(1) c0(1)] obtain s2 where "free_accepted_connection_array ?s = Some s2" "relay_ok s2" "keys_of s2 = keys_of ?s" "s2 = ?s\<lparr>accepted_connection_array := []\<rparr>" by metis
    then show ?thesis using that True c0(2) by simp
  next
    case False
    show ?thesis by (rule that [OF _ r(1) refl disjI1 [OF refl]]) (use False in \<open>simp only: if_False\<close>)
  qed
  have "del_accepted E s1 i = (if num_accepted_connections ?s = 0 then free_accepted_connection_array ?s else Some ?s) \<bind> (\<lambda>s. Some (0, s))"
    using con(1-3) l(1) w by (simp add: del_accepted_def Let_def)
  then have d: "del_accepted E s1 i = Some (0, s2)" unfolding s2(1) by simp
  have "i < length (accepted_connection_array srv)" using Some keys_of_dom by blast
  then have kill: "kill_accepted E srv i = Some (0, log_srv (Call_kill_sock (tc_sock (sc_con con))) s2)"
    using s1(1) con(1) d by (simp add: kill_accepted_def)
  let ?s3 = "log_srv (Call_kill_sock (tc_sock (sc_con con))) s2"
  have v3: "keys_of ?s3 = keys_of s2" "idents_of ?s3 = idents_of s2" "sock_at ?s3 = sock_at s2" "accepted_connection_array ?s3 = accepted_connection_array s2"
    using view_cong [of ?s3 s2] by simp_all
  have same: "same_client srv ?s3 j" if "keys_of s2 j \<noteq> None" for j
  proof -
    have "j \<noteq> i" using that s2(3) r(2) by (auto split: if_splits)
    moreover have "keys_of (?s\<lparr>accepted_connection_array := []\<rparr>) j = None" by (simp add: keys_of_def accepted_def)
    then have "s2 = ?s" using that s2(4) by metis
    ultimately have "j \<noteq> i" "s2 = ?s" by simp_all
    then show ?thesis using r(2-3) r(4) [of j] s1(3) unfolding same_client_def v3 by (simp add: quiet_def)
  qed
  have p1: "prefix (srv_calls srv) (srv_calls s1)" and c1: "counter s1 = counter srv" "sock_later (sock_at srv i) (sock_at s1 i)" using s1(3) by (simp_all add: quiet_def)
  have p: "srv_calls s2 = srv_calls s1" "counter s2 = counter srv" using s2(4) c1(1) by (auto simp: set_accepted_def)
  have "closed_since srv ?s3 (sock_at srv i)"
    using p1 c1(2) con(1) by (auto simp: closed_since_def log_srv_def p prefix_def sock_at_def)
  moreover have "keys_of s2 j \<noteq> None \<or> j = i" if "keys_of srv j \<noteq> None" for j using that s2(3) r(2) k(2) by auto
  moreover have "prefix (srv_calls srv) (srv_calls ?s3)" "counter ?s3 = counter srv" using p1 p by (simp_all add: log_srv_def)
  ultimately have a: "ages srv ?s3" using same by (auto simp: ages_def v3)
  have q: "same_queues srv ?s3" "grows 0 srv ?s3" using s2(4) s1(3) a by (auto simp: same_queues_def quiet_def grows_def set_accepted_def v3 p(2))
  have "card (dom (keys_of srv)) \<le> Suc (card (dom (keys_of ?s)))"
    unfolding r(2) k(2) by (simp add: card_Diff_singleton_if) arith
  then have len: "2 \<le> card (dom (keys_of srv)) \<longrightarrow> length (accepted_connection_array s2) = length (accepted_connection_array srv)"
    using s2(4) s1(3) by (auto simp: quiet_def set_accepted_def)
  show ?thesis by (rule that [OF kill]) (use s2(2,3) r(2) k(2) q len in \<open>simp_all add: v3\<close>)
qed

end

lemma alloc_ok:
  assumes "relay_ok srv" "length (accepted_connection_array srv) + 4 < 2 ^ 32" "malloc_ok P = (\<lambda>_. True)"
  defines "srv' \<equiv> srv\<lparr>accepted_connection_array := accepted_connection_array srv @ replicate 4 zero_secure_connection\<rparr>"
  shows "alloc_new_connections P srv 4 = (0, srv')" "relay_ok srv'" "keys_of srv' = keys_of srv" "idents_of srv' = idents_of srv"
    "sock_at srv' = sock_at srv"
proof -
  let ?n = "length (accepted_connection_array srv)"
  have n: "unat (of_nat ?n :: u32) = ?n" using assms(2) by (simp add: unat_of_nat take_bit_eq_mod)
  have "unat (of_nat ?n + 4 :: u32) = ?n + 4" using assms(2) n by (simp add: unat_word_ariths(1))
  then have "\<not> (of_nat ?n + 4 :: u32) < of_nat ?n" by (simp add: word_less_nat_alt n)
  then show "alloc_new_connections P srv 4 = (0, srv')" using assms(3) by (simp add: alloc_new_connections_def srv'_def Let_def)
  have acc: "accepted srv' i = (case accepted srv i of None \<Rightarrow> if i < ?n + 4 then Some zero_secure_connection else None | Some con \<Rightarrow> Some con)" for i
    by (auto simp: srv'_def accepted_def nth_append)
  show k: "keys_of srv' = keys_of srv" by (auto simp: keys_of_def acc fun_eq_iff split: option.splits)
  have s: "slots_of srv' = slots_of srv" by (auto simp: slots_of_def acc fun_eq_iff split: option.splits)
  show f: "idents_of srv' = idents_of srv" by (auto simp: idents_of_def acc fun_eq_iff split: option.splits)
  show "sock_at srv' = sock_at srv" by (auto simp: sock_at_def acc fun_eq_iff split: option.splits)
  have "array_ok srv'" using assms(1,2) by (auto simp: relay_ok_def relay_base_def array_ok_def srv'_def list_all_iff secure_ok_def)
  then show "relay_ok srv'" using assms(1) by (simp add: relay_ok_def relay_base_def k s f) (simp add: srv'_def queues_ok_def)
qed

lemma last_free_iff:
  "last_free cons = Some x \<longleftrightarrow> x < length cons \<and> sc_status (cons ! x) = TCP_STATUS_NO_STATUS \<and>
     (\<forall>y. x < y \<and> y < length cons \<longrightarrow> sc_status (cons ! y) \<noteq> TCP_STATUS_NO_STATUS)"
proof -
  have "(case filter P (rev [0..<n]) of [] \<Rightarrow> None | i # _ \<Rightarrow> Some i) = Some x \<longleftrightarrow> x < n \<and> P x \<and> (\<forall>y. x < y \<and> y < n \<longrightarrow> \<not> P y)" for P and n :: nat
    by (induction n) (auto simp: less_Suc_eq)
  then show ?thesis by (simp add: last_free_def)
qed

lemma last_free_Some: "last_free cons = Some i \<Longrightarrow> i < length cons \<and> sc_status (cons ! i) = TCP_STATUS_NO_STATUS"
  by (simp add: last_free_iff)

lemma last_free_None: "last_free cons = None \<Longrightarrow> i < length cons \<Longrightarrow> sc_status (cons ! i) \<noteq> TCP_STATUS_NO_STATUS"
  by (auto simp: last_free_def filter_empty_conv split: list.splits)

lemma last_free_keys:
  assumes "array_ok srv"
  shows "last_free (accepted_connection_array srv) = Some x \<longleftrightarrow>
    x < length (accepted_connection_array srv) \<and> keys_of srv x = None \<and> (\<forall>y. x < y \<and> y < length (accepted_connection_array srv) \<longrightarrow> keys_of srv y \<noteq> None)"
proof -
  have free: "sc_status (accepted_connection_array srv ! y) = TCP_STATUS_NO_STATUS \<longleftrightarrow> keys_of srv y = None" if "y < length (accepted_connection_array srv)" for y
    using that accepted_ok [OF assms, of y] by (auto simp: keys_of_def accepted_def secure_ok_def zero_secure_connection_def)
  have "last_free cons = Some x \<longleftrightarrow> x < length cons \<and> sc_status (cons ! x) = TCP_STATUS_NO_STATUS \<and>
      (\<forall>y. x < y \<and> y < length cons \<longrightarrow> sc_status (cons ! y) \<noteq> TCP_STATUS_NO_STATUS)" for cons
    by (rule last_free_iff)
  then show ?thesis using free by auto
qed

lemma free_place:
  assumes "relay_ok srv" "card (dom (keys_of srv)) \<noteq> length (accepted_connection_array srv)"
  obtains i where "last_free (accepted_connection_array srv) = Some i" "i < length (accepted_connection_array srv)" "keys_of srv i = None"
proof (cases "last_free (accepted_connection_array srv)")
  case None
  have "i \<in> dom (keys_of srv)" if "i < length (accepted_connection_array srv)" for i
    using that last_free_None [OF None that] accepted_ok [OF relay_index(2) [OF assms(1)], of i]
    by (auto simp: keys_of_def accepted_def secure_ok_def)
  then have "dom (keys_of srv) = {..<length (accepted_connection_array srv)}" using keys_of_dom by blast
  then show ?thesis using assms(2) by simp
next
  case (Some i)
  then show ?thesis using that last_free_Some [OF Some] by (auto simp: keys_of_def accepted_def)
qed

text \<open>A new client without slots is put at a free place.\<close>

lemma add_client:
  fixes t :: u64
  assumes "relay_ok srv" "keys_of srv i = None" "i < length (accepted_connection_array srv)" "sc_public_key con \<notin> ran (keys_of srv)"
    and con: "con_ok (sc_con con)" "length (sc_public_key con) = 32" "connections con = replicate NUM_CLIENT_CONNECTIONS zero_secure_conn"
    and l: "bs_inv l" "bs_map l = (bs_map (accepted_key_list srv))(sc_public_key con \<mapsto> int i)" "bs_element_size l = bs_element_size (accepted_key_list srv)"
    and "unat (counter srv) + 1 < 2 ^ 64"
  defines "new \<equiv> con\<lparr>sc_status := TCP_STATUS_CONFIRMED, sc_identifier := counter srv + 1, sc_last_pinged := t, sc_ping_id := 0\<rparr>"
  defines "srv' \<equiv> (set_accepted i new (srv\<lparr>accepted_key_list := l\<rparr>))\<lparr>num_accepted_connections := num_accepted_connections srv + 1, counter := counter srv + 1\<rparr>"
  shows "relay_ok srv'" "keys_of srv' = (keys_of srv)(i \<mapsto> sc_public_key con)" "idents_of srv' = (idents_of srv)(i := counter srv + 1)"
    "j \<noteq> i \<Longrightarrow> sock_at srv' j = sock_at srv j"
proof -
  note ok = assms(1) [unfolded relay_ok_def relay_base_def]
  have a: "array_ok srv" using ok by simp
  have acc: "accepted srv' = (accepted srv)(i \<mapsto> new)" using assms(3) by (auto simp: srv'_def accepted_def set_accepted_def fun_eq_iff)
  show k: "keys_of srv' = (keys_of srv)(i \<mapsto> sc_public_key con)" by (auto simp: keys_of_def acc fun_eq_iff new_def)
  show f: "idents_of srv' = (idents_of srv)(i := counter srv + 1)" by (auto simp: idents_of_def acc fun_eq_iff new_def)
  show "j \<noteq> i \<Longrightarrow> sock_at srv' j = sock_at srv j" by (simp add: sock_at_def acc)
  have s: "slots_of srv' = slots_of srv"
  proof (intro ext)
    show "slots_of srv' j n = slots_of srv j n" for j n
    proof (cases "j = i")
      case True
      then show ?thesis using nonclient_view(1) [OF a assms(2), of n] con(3) by (simp add: slots_of_def [of srv'] acc new_def)
    next
      case False
      then show ?thesis by (simp add: slots_of_def acc)
    qed
  qed
  have "links_ok (keys_of srv') (slots_of srv')" unfolding k s using links_connect assms(2,4) ok by blast
  moreover have "array_ok srv'" using ok assms(3) con
    by (auto simp: array_ok_def srv'_def set_accepted_def list_all_length nth_list_update secure_ok_def new_def)
  moreover have "index_ok (keys_of srv') (accepted_key_list srv')"
    using index_add [of "keys_of srv" "accepted_key_list srv" i "sc_public_key con" l] assms(2,4) l ok unfolding k by (simp add: srv'_def set_accepted_def)
  moreover have "unat (num_accepted_connections srv') = card (dom (keys_of srv'))"
  proof -
    have "dom (keys_of srv) \<subset> {..<length (accepted_connection_array srv)}" using keys_of_dom [of srv] assms(2,3) by auto
    from psubset_card_mono [OF finite_lessThan this] have "card (dom (keys_of srv)) < length (accepted_connection_array srv)" by simp
    then have "unat (num_accepted_connections srv + 1) = unat (num_accepted_connections srv) + 1"
      using ok by (simp add: unat_word_ariths(1) array_ok_def)
    moreover have "i \<notin> dom (keys_of srv)" using assms(2) by auto
    ultimately show ?thesis using ok unfolding k by (simp add: srv'_def)
  qed
  moreover have "queues_ok srv'" using ok by (simp add: queues_ok_def srv'_def set_accepted_def)
  moreover have "idents_ok (keys_of srv') (idents_of srv') (counter srv')" using ok idents_add [OF _ assms(11)] unfolding k f by (simp add: srv'_def)
  ultimately show "relay_ok srv'" by (simp add: relay_ok_def relay_base_def)
qed

text \<open>Room for some more clients.\<close>

definition room :: "nat \<Rightarrow> TCP_Server \<Rightarrow> bool" where
  "room k srv \<longleftrightarrow> length (accepted_connection_array srv) + 4 * k \<le> 2 ^ 26 \<and> unat (counter srv) + k < 2 ^ 64"

lemma room_grows: "room (k + l) srv \<Longrightarrow> grows k srv srv' \<Longrightarrow> room l srv'"
  by (auto simp: room_def grows_def)

lemma room_fits:
  assumes "relay_ok srv" "room k srv"
  shows "bs_fits (accepted_key_list srv)"
proof -
  have "bs_n (accepted_key_list srv) = card (dom (keys_of srv))" by (rule index_card [OF relay_index(1) [OF assms(1)]]) simp
  moreover have "card (dom (keys_of srv)) \<le> length (accepted_connection_array srv)" using card_mono [OF _ keys_of_dom] by force
  ultimately have "bs_n (accepted_key_list srv) \<le> 2 ^ 26" using assms(2) by (simp add: room_def)
  then show ?thesis using relay_index(1) [OF assms(1)] by (simp add: bs_fits_def index_ok_def)
qed

context relay_host
begin

lemma memory: "malloc_ok (te_plat E) = (\<lambda>_. True)"
  using box_platform.memory [OF plat] by (simp add: fun_eq_iff)

text \<open>A connection that is in order is always accepted; an older connection with the same key is closed first.\<close>

lemma place_client_ok:
  assumes "relay_ok srv" "bs_fits (accepted_key_list srv)" "sc_public_key con \<notin> ran (keys_of srv)" and con: "length (sc_public_key con) = 32"
  obtains l where "bs_list_add (te_plat E) (te_fill E) (accepted_key_list srv) (sc_public_key con) (int i) = Some (True, l)"
    "bs_inv l" "bs_map l = (bs_map (accepted_key_list srv))(sc_public_key con \<mapsto> int i)" "bs_element_size l = bs_element_size (accepted_key_list srv)"
proof -
  note ix = relay_index(1) [OF assms(1)]
  have none: "bs_map (accepted_key_list srv) (sc_public_key con) = None"
  proof (rule ccontr)
    assume "bs_map (accepted_key_list srv) (sc_public_key con) \<noteq> None"
    then obtain j where "bs_map (accepted_key_list srv) (sc_public_key con) = Some j" by blast
    then obtain x where "keys_of srv x = Some (sc_public_key con)" using index_Some [OF ix] by metis
    then show False using assms(3) by (simp add: ranI)
  qed
  have "bs_key (accepted_key_list srv) (sc_public_key con)" "bs_inv (accepted_key_list srv)" using ix con by (simp_all add: bs_key_def index_ok_def)
  from bs_list_add_cases [OF this(2,1) assms(2), of "te_plat E" "te_fill E" "int i"] none
  show ?thesis using that by (auto simp: memory)
qed

lemma add_accepted_ok:
  assumes "relay_ok srv" "room 1 srv" "con_ok (sc_con con)" "length (sc_public_key con) = 32" "connections con = replicate NUM_CLIENT_CONNECTIONS zero_secure_conn"
  obtains i srv' where "add_accepted E mt srv con = Some (Some i, srv', zero_secure_connection)" "relay_ok srv'" "keys_of srv' i = Some (sc_public_key con)"
    "same_queues srv srv'" "grows 1 srv srv'"
    "\<forall>j x. keys_of srv j = Some (sc_public_key con) \<and> last_free (accepted_connection_array srv) = Some x \<and> j < x \<and> 2 \<le> card (dom (keys_of srv)) \<longrightarrow>
       keys_of srv' j = None \<and> j < length (accepted_connection_array srv') \<and> 2 \<le> card (dom (keys_of srv'))"
proof -
  let ?k = "sc_public_key con"
  obtain old s1 where s1: "get_TCP_connection_index srv ?k = Some old"
    "(if old \<noteq> - 1 then do { (_, srv) \<leftarrow> kill_accepted E srv (nat old); Some srv } else Some srv) = Some s1" "relay_ok s1" "?k \<notin> ran (keys_of s1)"
    "same_queues srv s1" "grows 0 srv s1"
    "\<forall>j. keys_of srv j = Some ?k \<longrightarrow> keys_of s1 = (keys_of srv)(j := None) \<and>
       (2 \<le> card (dom (keys_of srv)) \<longrightarrow> length (accepted_connection_array s1) = length (accepted_connection_array srv))"
  proof (rule index_find [OF relay_index(1) [OF assms(1)] assms(4)])
    assume "bs_list_find (accepted_key_list srv) ?k = Some (- 1)" "?k \<notin> ran (keys_of srv)"
    then show ?thesis using that [of "- 1" srv] assms(1) by (auto simp: get_TCP_connection_index_def ran_def)
  next
    fix j assume j: "bs_list_find (accepted_key_list srv) ?k = Some (int j)" "keys_of srv j = Some ?k"
    obtain r s1 where k: "kill_accepted E srv j = Some (r, s1)" "relay_ok s1" "keys_of s1 = (keys_of srv)(j := None)" "same_queues srv s1" "grows 0 srv s1"
      "2 \<le> card (dom (keys_of srv)) \<longrightarrow> length (accepted_connection_array s1) = length (accepted_connection_array srv)"
      using kill_accepted_ok [OF assms(1)] by blast
    have only: "j' = j" if "keys_of srv j' = Some ?k" for j' using index_inj [OF relay_index(1) [OF assms(1)] j(2) that] by simp
    have "?k \<notin> ran (keys_of s1)" using index_inj [OF relay_index(1) [OF assms(1)] j(2)] unfolding k(3) by (auto simp: ran_def split: if_splits)
    then show ?thesis using that [of "int j" s1] j(1) k only by (auto simp: get_TCP_connection_index_def)
  qed
  have rm: "room 1 s1" using room_grows [of 0 1] assms(2) s1(6) by simp
  let ?A = "accepted_connection_array s1"
  have len: "length ?A + 4 < 2 ^ 32" using rm by (simp add: room_def)
  obtain i s2 where s2: "(if of_nat (length ?A) = num_accepted_connections s1 then
        (case alloc_new_connections (te_plat E) s1 4 of (r, s') \<Rightarrow> if r = - 1 then (None, s1) else (Some (unat (num_accepted_connections s')), s'))
      else (last_free ?A, s1)) = (Some i, s2)" "relay_ok s2" "keys_of s2 = keys_of s1" "keys_of s2 i = None" "i < length (accepted_connection_array s2)"
    "same_queues s1 s2" "counter s2 = counter s1" "length (accepted_connection_array s2) \<le> length ?A + 4" "accepted_key_list s2 = accepted_key_list s1"
    "\<forall>x. last_free ?A = Some x \<longrightarrow> i = x \<and> s2 = s1" "idents_of s2 = idents_of s1"
    "sock_at s2 = sock_at s1" "srv_calls s2 = srv_calls s1"
  proof (cases "of_nat (length ?A) = num_accepted_connections s1")
    case True
    have n: "unat (num_accepted_connections s1) = length ?A" unfolding True [symmetric] using len by (simp add: unat_of_nat take_bit_eq_mod)
    have "length ?A \<notin> dom (keys_of s1)" using keys_of_dom by fastforce
    moreover have "last_free ?A \<noteq> Some x" for x
    proof
      assume "last_free ?A = Some x"
      then have "dom (keys_of s1) \<subset> {..<length ?A}" using keys_of_dom [of s1] unfolding last_free_keys [OF relay_index(2) [OF s1(3)]] by auto
      from psubset_card_mono [OF finite_lessThan this] show False using n s1(3) by (simp add: relay_ok_def relay_base_def)
    qed
    ultimately show ?thesis using True alloc_ok [OF s1(3) len memory] n
      by (intro that [of "length ?A" "s1\<lparr>accepted_connection_array := ?A @ replicate 4 zero_secure_connection\<rparr>"]) (auto simp: same_queues_def)
  next
    case False
    have "card (dom (keys_of s1)) \<noteq> length ?A"
    proof
      assume "card (dom (keys_of s1)) = length ?A"
      then have "unat (num_accepted_connections s1) = length ?A" using s1(3) by (simp add: relay_ok_def relay_base_def)
      then show False using False by (metis of_nat_unat ucast_id)
    qed
    then obtain i where "last_free ?A = Some i" "i < length ?A" "keys_of s1 i = None" using free_place [OF s1(3)] by blast
    then show ?thesis using False s1(3) by (intro that [of i s1]) simp_all
  qed
  have k: "?k \<notin> ran (keys_of s2)" "bs_fits (accepted_key_list s2)" using s1(4) s2(3,9) room_fits [OF s1(3) rm] by simp_all
  obtain l where l: "bs_list_add (te_plat E) (te_fill E) (accepted_key_list s2) ?k (int i) = Some (True, l)"
    "bs_inv l" "bs_map l = (bs_map (accepted_key_list s2))(?k \<mapsto> int i)" "bs_element_size l = bs_element_size (accepted_key_list s2)"
    using place_client_ok [OF s2(2) k(2,1) assms(4)] by blast
  let ?new = "con\<lparr>sc_status := TCP_STATUS_CONFIRMED, sc_identifier := counter s2 + 1, sc_last_pinged := mono_time_get mt, sc_ping_id := 0\<rparr>"
  let ?s = "(set_accepted i ?new (s2\<lparr>accepted_key_list := l\<rparr>))\<lparr>num_accepted_connections := num_accepted_connections s2 + 1, counter := counter s2 + 1\<rparr>"
  have c: "unat (counter s2) + 1 < 2 ^ 64" using rm s2(7) by (simp add: room_def)
  note new = add_client [OF s2(2,4,5) k(1) assms(3-5) l(2-4) c, where t = "mono_time_get mt"]
  have acc: "accepted (s2\<lparr>accepted_key_list := l\<rparr>) i = Some (accepted_connection_array s2 ! i)" using s2(5) by (simp add: accepted_def)
  have run: "add_accepted E mt srv con = Some (Some i, ?s, zero_secure_connection)"
    unfolding add_accepted_def using s1(1) s1(2) s2(1) l(1) acc by (simp add: set_accepted_def del: of_nat_eq_iff)
  have q: "same_queues srv ?s" using s1(5) s2(6) by (simp add: same_queues_def set_accepted_def)
  have "unat (counter s2 + 1) = unat (counter s2) + 1" using c by (simp add: unat_word_ariths(1))
  moreover have "ages s1 ?s"
  proof -
    have lt: "counter s1 < counter s2 + 1" using c s2(7) by (simp add: word_less_nat_alt unat_word_ariths(1))
    have same: "same_client s1 ?s j" if "j \<noteq> i" for j
      using that new(4) [OF that] unfolding same_client_def new(2,3) s2(3,11,12) by simp
    have "same_client s1 ?s j" if "idents_of ?s j \<le> counter s1" for j
      by (rule same) (use that lt in \<open>auto simp: new(3)\<close>)
    moreover have "j \<noteq> i" if "keys_of s1 j \<noteq> None" for j using that s2(3,4) by auto
    moreover have "srv_calls ?s = srv_calls s1" using s2(13) by (simp add: set_accepted_def)
    ultimately show ?thesis using lt same by (simp add: ages_def)
  qed
  ultimately have g: "grows 1 srv ?s" using s1(6) s2(7,8) ages_trans [of srv s1 ?s] by (simp add: grows_def set_accepted_def)
  have moved: "keys_of ?s j = None \<and> j < length (accepted_connection_array ?s) \<and> 2 \<le> card (dom (keys_of ?s))"
    if j: "keys_of srv j = Some ?k" "last_free (accepted_connection_array srv) = Some x" "j < x" "2 \<le> card (dom (keys_of srv))" for j x
  proof -
    have kj: "keys_of s1 = (keys_of srv)(j := None)" "length ?A = length (accepted_connection_array srv)" using s1(7) j(1,4) by simp_all
    have "last_free ?A = Some x" using j(2,3) unfolding last_free_keys [OF relay_index(2) [OF assms(1)]] last_free_keys [OF relay_index(2) [OF s1(3)]] kj by auto
    then have ix: "i = x" "s2 = s1" using s2(10) by simp_all
    have ks: "keys_of ?s = ((keys_of srv)(j := None))(x \<mapsto> ?k)" using new(2) ix kj(1) by simp
    have "x \<notin> dom (keys_of srv)" "j \<in> dom (keys_of srv)" using j(1,2) unfolding last_free_keys [OF relay_index(2) [OF assms(1)]] by auto
    then have "card (dom (keys_of ?s)) = card (dom (keys_of srv))" unfolding ks using j(3) by (simp add: card.insert_remove card_Diff_singleton_if) (metis Suc_pred card_gt_0_iff empty_iff finite_keys)
    moreover have "j < length (accepted_connection_array srv)" using j(1) keys_of_dom by blast
    ultimately show ?thesis using j(3,4) ks kj(2) ix by (simp add: set_accepted_def)
  qed
  have k': "keys_of ?s i = Some ?k" by (simp add: new(2))
  show ?thesis by (rule that [OF run new(1) k' q g]) (use moved in blast)
qed

end

end
