(* ===== verification/TCP_Requests.thy ===== *)
theory TCP_Requests
  imports TCP_Relay
begin

text \<open>
  What clients ask of the TCP relay, and its periodic work: every handler returns, keeps the relay in order, and passes packets between linked clients only.
\<close>

section \<open>Requests of clients\<close>

lemma find_slot:
  assumes "array_ok srv" "keys_of srv i = Some k" "accepted srv i = Some con"
  obtains "find_index P (connections con) = None" "\<forall>n < NUM_CLIENT_CONNECTIONS. \<not> P (slots_of srv i n)"
  | n where "find_index P (connections con) = Some n" "n < NUM_CLIENT_CONNECTIONS" "P (slots_of srv i n)"
proof -
  have len: "length (connections con) = NUM_CLIENT_CONNECTIONS" using clientE [OF assms(1,2)] assms(3) by auto
  have s: "slots_of srv i n = connections con ! n" if "n < NUM_CLIENT_CONNECTIONS" for n using that assms(3) by (simp add: slots_of_def)
  show ?thesis
  proof (cases "find_index P (connections con)")
    case None
    then show ?thesis using that(1) len s by (simp add: all_set_conv_all_nth)
  next
    case (Some n)
    then show ?thesis using that(2) [of n] find_index_SomeD [OF Some] len s by simp
  qed
qed

lemma accepted_quiet: "quiet srv srv' \<Longrightarrow> keys_of srv i = Some k \<Longrightarrow> keys_of srv' i = Some k"
  by (simp add: quiet_def)

lemma relay_okI: "relay_base srv' \<Longrightarrow> quiet srv srv' \<Longrightarrow> links_ok (keys_of srv) (slots_of srv') \<Longrightarrow> relay_ok srv'"
  by (simp add: relay_ok_def quiet_def)

context relay_host
begin

text \<open>Both slots are linked and both clients told.\<close>

lemma link_ok:
  assumes "relay_base srv" "keys_of srv i = Some ki" "keys_of srv j = Some kj" "i \<noteq> j" "n < NUM_CLIENT_CONNECTIONS" "m < NUM_CLIENT_CONNECTIONS"
    and links: "\<And>c d. points_to c j m \<Longrightarrow> sn_public_key c = sn_public_key (slots_of srv i n) \<Longrightarrow> points_to d i n \<Longrightarrow> sn_public_key d = sn_public_key (slots_of srv j m) \<Longrightarrow>
       links_ok (keys_of srv) (set_slot j m d (set_slot i n c (slots_of srv)))"
  obtains s1 s2 s3 s4 r1 r2 where
    "upd_conn i n (\<lambda>c. c\<lparr>sn_status := 2, sn_index := of_int (int j), sn_other_id := of_nat m\<rparr>) srv = Some s1"
    "upd_conn j m (\<lambda>c. c\<lparr>sn_status := 2, sn_index := of_nat i, sn_other_id := of_nat n\<rparr>) s1 = Some s2"
    "send_connect_notification E i (of_nat n) s2 = Some (r1, s3)" "send_connect_notification E j (of_nat m) s3 = Some (r2, s4)"
    "relay_ok s4" "quiet srv s4"
proof -
  let ?c = "\<lambda>c. c\<lparr>sn_status := 2, sn_index := of_int (int j), sn_other_id := of_nat m\<rparr>" and ?d = "\<lambda>c. c\<lparr>sn_status := 2, sn_index := of_nat i, sn_other_id := of_nat n\<rparr>"
  have ij: "i < 2 ^ 32" "j < 2 ^ 32" using assms(1-3) keys_of_dom by (force simp: relay_base_def array_ok_def)+
  have nm: "n < 2 ^ 8" "m < 2 ^ 8" using assms(5,6) by (simp_all add: size_defs)
  have p: "points_to (?c x) j m" "points_to (?d x) i n" for x
    using ij nm by (simp_all add: points_to_def unat_of_nat take_bit_eq_mod)
  obtain s1 where s1: "upd_conn i n ?c srv = Some s1" "relay_base s1" "quiet srv s1" "slots_of s1 = set_slot i n (?c (slots_of srv i n)) (slots_of srv)"
    using upd_conn [OF assms(1,2,5), of ?c] by blast
  obtain s2 where s2: "upd_conn j m ?d s1 = Some s2" "relay_base s2" "quiet s1 s2" "slots_of s2 = set_slot j m (?d (slots_of s1 j m)) (slots_of s1)"
    using upd_conn [OF s1(2) accepted_quiet [OF s1(3) assms(3)] assms(6), of ?d] by blast
  have q2: "quiet srv s2" using quiet_trans [OF s1(3) s2(3)] .
  obtain r1 s3 where s3: "send_connect_notification E i (of_nat n) s2 = Some (r1, s3)" "relay_base s3" "quiet s2 s3" "slots_of s3 = slots_of s2"
    using write_accepted_ok [OF s2(2) accepted_quiet [OF q2 assms(2)]] unfolding send_connect_notification_def by blast
  have q3: "quiet srv s3" using quiet_trans [OF q2 s3(3)] .
  obtain r2 s4 where s4: "send_connect_notification E j (of_nat m) s3 = Some (r2, s4)" "relay_base s4" "quiet s3 s4" "slots_of s4 = slots_of s3"
    using write_accepted_ok [OF s3(2) accepted_quiet [OF q3 assms(3)]] unfolding send_connect_notification_def by blast
  have e: "slots_of s4 = set_slot j m (?d (slots_of srv j m)) (set_slot i n (?c (slots_of srv i n)) (slots_of srv))"
    using s1(4) s2(4) s3(4) s4(4) assms(4) by (simp add: set_slot_apply)
  have "links_ok (keys_of srv) (slots_of s4)" unfolding e by (rule links) (use p in simp_all)
  then show ?thesis using that [OF s1(1) s2(1) s3(1) s4(1)] relay_okI [OF s4(2)] quiet_trans [OF q3 s4(3)] by blast
qed

lemma handle_TCP_routing_req_ok:
  assumes "relay_ok srv" "keys_of srv i = Some ki" "length pk = 32"
  obtains r srv' where "handle_TCP_routing_req E srv i pk = Some (r, srv')" "relay_ok srv'" "quiet srv srv'"
proof -
  note ok = relay_index(2-4) [OF assms(1)]
  obtain con where con: "accepted srv i = Some con" "sc_public_key con = ki" "length ki = 32" using clientE [OF ok(1) assms(2)] by metis
  let ?s = "slots_of srv"
  let ?used = "\<lambda>c. sn_status c \<noteq> 0 \<and> pk_equal pk (sn_public_key c)" and ?free = "\<lambda>c. sn_status c = 0"
  note slots = links_slots [OF ok(3), of i]
  obtain resp where resp: "\<And>x. resp x = the (send_routing_response E i x pk srv)" by simp
  have sent: "send_routing_response E i x pk srv = Some (resp x) \<and> relay_base (snd (resp x)) \<and> quiet srv (snd (resp x)) \<and> slots_of (snd (resp x)) = ?s" for x
    using write_accepted_ok [OF ok(2) assms(2)] unfolding resp send_routing_response_def by (metis option.sel snd_conv)
  have resp_ok: "relay_ok (snd (resp x))" for x using sent [of x] ok(3) relay_okI by metis
  have answer: "\<exists>r srv'. do { (r, srv) \<leftarrow> send_routing_response E i x pk srv; Some (if r = - 1 then - 1 else 0 :: int, srv) } = Some (r, srv') \<and> relay_ok srv' \<and> quiet srv srv'" for x
    using sent [of x] resp_ok [of x] by (cases "resp x") auto
  note run = handle_TCP_routing_req_def [of E srv i pk]
  show ?thesis
  proof (cases "pk_equal ki pk")
    case True
    then show ?thesis using run con(1,2) answer [of 0] that by auto
  next
    case ne: False
    then have k: "pk \<noteq> ki" by auto
    show ?thesis
    proof (rule find_slot [OF ok(1) assms(2) con(1), of ?used])
      fix n assume "find_index ?used (connections con) = Some n"
      then show ?thesis using run con(1,2) ne answer [of "of_nat n + NUM_RESERVED_PORTS"] that by auto
    next
      assume f1: "find_index ?used (connections con) = None" "\<forall>n < NUM_CLIENT_CONNECTIONS. \<not> ?used (?s i n)"
      have new: "sn_public_key (?s i n) \<noteq> pk" if "used (?s i n)" for n
        using f1(2) slot_used [OF slots that] that by (auto simp: used_def)
      show ?thesis
      proof (rule find_slot [OF ok(1) assms(2) con(1), of ?free])
        assume "find_index ?free (connections con) = None"
        then show ?thesis using run con(1,2) ne f1(1) answer [of 0] that by (auto simp del: find_index_None)
      next
        fix n assume f2: "find_index ?free (connections con) = Some n" "n < NUM_CLIENT_CONNECTIONS" "?free (?s i n)"
        let ?ask = "\<lambda>c. c\<lparr>sn_status := 1, sn_public_key := take CRYPTO_PUBLIC_KEY_SIZE pk\<rparr>"
        obtain r s1 where s1: "send_routing_response E i (of_nat n + NUM_RESERVED_PORTS) pk srv = Some (r, s1)" "relay_base s1" "quiet srv s1" "slots_of s1 = ?s" "relay_ok s1"
          using sent [of "of_nat n + NUM_RESERVED_PORTS"] resp_ok [of "of_nat n + NUM_RESERVED_PORTS"] by (metis prod.collapse)
        have tk: "take CRYPTO_PUBLIC_KEY_SIZE pk = pk" using assms(3) by (simp add: size_defs)
        obtain s2 where s2: "upd_conn i n ?ask s1 = Some s2" "relay_base s2" "quiet s1 s2" "slots_of s2 = set_slot i n (?ask (?s i n)) ?s"
          using upd_conn [OF s1(2) accepted_quiet [OF s1(3) assms(2)] f2(2), of ?ask] s1(4) by metis
        have q2: "quiet srv s2" using quiet_trans [OF s1(3) s2(3)] .
        have k2: "keys_of s2 = keys_of srv" "accepted_key_list s2 = accepted_key_list srv" using q2 by (simp_all add: quiet_def)
        note run2 = run con(1,2) ne f1(1) f2(1) s1(1) s2(1)
        have asked: "relay_ok s2" if "\<And>j m. keys_of srv j = Some pk \<Longrightarrow> used (?s j m) \<Longrightarrow> sn_public_key (?s j m) \<noteq> ki"
          by (rule relay_okI [OF s2(2) q2]) (unfold s2(4), rule links_ask [OF ok(3) assms(2) f2(3,2)], use that new k assms(3) tk in simp_all)
        consider "r = 0 \<or> r = - 1" | "r \<noteq> 0" "r \<noteq> - 1" by blast
        then show ?thesis
        proof cases
          case 1
          then show ?thesis using run2 s1(3,5) that by (auto simp del: find_index_None)
        next
          case r: 2
          show ?thesis
          proof (rule index_find [OF relay_index(1) [OF assms(1)] assms(3)])
            assume "bs_list_find (accepted_key_list srv) pk = Some (- 1)" "pk \<notin> ran (keys_of srv)"
            moreover have "relay_ok s2" using asked calculation(2) by (simp add: ran_def)
            ultimately show ?thesis using run2 r that [OF _ _ q2] by (auto simp: get_TCP_connection_index_def k2 simp del: find_index_None)
          next
            fix j assume j: "bs_list_find (accepted_key_list srv) pk = Some (int j)" "keys_of srv j = Some pk"
            have kj: "keys_of s2 j = Some pk" "array_ok s2" using j(2) k2 s2(2) by (simp_all add: relay_base_def)
            have ij: "i \<noteq> j" using j(2) assms(2) k by auto
            have row: "slots_of s2 j m = ?s j m" for m using s2(4) ij by (simp add: set_slot_apply)
            obtain oc where oc: "accepted s2 j = Some oc" using clientE [OF kj(2,1)] by metis
            let ?wait = "\<lambda>c. sn_status c = 1 \<and> pk_equal (sn_public_key c) ki"
            note run3 = run2 r j(1) oc
            show ?thesis
            proof (rule find_slot [OF kj(2,1) oc, of ?wait])
              assume f3: "find_index ?wait (connections oc) = None" "\<forall>m < NUM_CLIENT_CONNECTIONS. \<not> ?wait (slots_of s2 j m)"
              have "sn_public_key (?s j' m) \<noteq> ki" if "keys_of srv j' = Some pk" "used (?s j' m)" for j' m
              proof
                assume key: "sn_public_key (?s j' m) = ki"
                have "j' = j" using links_keys [OF ok(3) that(1) j(2)] .
                then show False using f3(2) waiting_slot [OF ok(3) assms(2) that key new] slot_used [OF links_slots [OF ok(3), of j'] that(2)] key row by force
              qed
              then have "relay_ok s2" by (rule asked)
              then show ?thesis using run3 f3(1) that [OF _ _ q2] by (auto simp: get_TCP_connection_index_def k2 simp del: find_index_None)
            next
              fix m assume f3: "find_index ?wait (connections oc) = Some m" "m < NUM_CLIENT_CONNECTIONS" "?wait (slots_of s2 j m)"
              have w: "used (?s j m)" "sn_public_key (?s j m) = ki"
              proof -
                show u: "used (?s j m)" using f3(3) row by (simp add: used_def)
                show "sn_public_key (?s j m) = ki" using f3(3) row slot_used [OF links_slots [OF ok(3), of j] u] con(3) by (simp add: pk_equal_iff)
              qed
              have "set_slot j m d (set_slot i n c (slots_of s2)) = set_slot j m d (set_slot i n c ?s)" for c d unfolding s2(4) by (auto simp: set_slot_def fun_eq_iff)
              then have links: "links_ok (keys_of s2) (set_slot j m d (set_slot i n c (slots_of s2)))"
                if "points_to c j m" "sn_public_key c = sn_public_key (slots_of s2 i n)" "points_to d i n" "sn_public_key d = sn_public_key (slots_of s2 j m)" for c d
                using links_link [OF ok(3) assms(2) f2(3,2) assms(3) k new j(2) w that(1) _ that(3)] that(2,4) s2(4) tk w(2) k2(1) row by (simp add: set_slot_apply)
              obtain a1 a2 a3 a4 r1 r2 where "upd_conn i n (\<lambda>c. c\<lparr>sn_status := 2, sn_index := of_int (int j), sn_other_id := of_nat m\<rparr>) s2 = Some a1"
                "upd_conn j m (\<lambda>c. c\<lparr>sn_status := 2, sn_index := of_nat i, sn_other_id := of_nat n\<rparr>) a1 = Some a2"
                "send_connect_notification E i (of_nat n) a2 = Some (r1, a3)" "send_connect_notification E j (of_nat m) a3 = Some (r2, a4)" "relay_ok a4" "quiet s2 a4"
                by (rule link_ok [OF s2(2) accepted_quiet [OF q2 assms(2)] kj(1) ij f2(2) f3(2) links])
              then show ?thesis using run3 f3(1) that [OF _ _ quiet_trans [OF q2]] by (auto simp: get_TCP_connection_index_def k2 simp del: find_index_None)
            qed
          qed
        qed
      qed
    qed
  qed
qed

end

text \<open>The times of pings are no part of the links.\<close>

lemma ping_put:
  fixes t x :: u64
  assumes "relay_ok srv" "keys_of srv i = Some k" "accepted srv i = Some con"
  defines "srv' \<equiv> set_accepted i (con\<lparr>sc_last_pinged := t, sc_ping_id := x\<rparr>) srv"
  shows "relay_ok srv'" "quiet srv srv'"
proof -
  let ?con = "con\<lparr>sc_last_pinged := t, sc_ping_id := x\<rparr>"
  have con: "sc_status con = TCP_STATUS_CONFIRMED" "i < length (accepted_connection_array srv)"
    using assms(2,3) by (auto simp: keys_of_Some accepted_Some)
  then have ok: "secure_ok TCP_STATUS_CONFIRMED ?con" using accepted_ok [OF relay_index(2) [OF assms(1)] assms(3)] by (auto simp: secure_ok_def)
  note p = relay_put [OF relay_index(3) [OF assms(1)] assms(3) con(1) ok, folded srv'_def]
  have "slots_of srv' = slots_of srv" "inputs srv' = inputs srv" "idents_of srv' = idents_of srv" "sock_at srv' = sock_at srv"
    using assms(3) by (auto simp: srv'_def slots_of_def inputs_def idents_of_def sock_at_def accepted_set [OF con(2)] fun_eq_iff)
  then show "quiet srv srv'" "relay_ok srv'" using p con(1) relay_index(4) [OF assms(1)]
    by (simp_all add: quiet_def relay_ok_def) (simp_all add: srv'_def set_accepted_def)
qed

context relay_host
begin

lemma write_ok_relay:
  assumes "relay_ok srv" "keys_of srv i = Some k"
  obtains r srv' where "write_accepted E i data priority srv = Some (r, srv')" "relay_ok srv'" "quiet srv srv'" "slots_of srv' = slots_of srv"
  using write_accepted_ok [OF relay_index(3) [OF assms(1)] assms(2), of data priority] relay_index(4) [OF assms(1)] relay_okI by metis

lemma handle_TCP_oob_send_ok:
  assumes "relay_ok srv" "keys_of srv i = Some ki" "length pk = 32"
  obtains r srv' where "handle_TCP_oob_send E srv i pk data = Some (r, srv')" "relay_ok srv'" "quiet srv srv'"
proof -
  obtain con where con: "accepted srv i = Some con" using assms(2) by (auto simp: keys_of_Some)
  note run = handle_TCP_oob_send_def [of E srv i pk data] con
  show ?thesis
  proof (cases "length data = 0 \<or> length data > TCP_MAX_OOB_DATA_LENGTH")
    case True
    then show ?thesis using run that [of "- 1" srv] assms(1) by simp
  next
    case False
    show ?thesis
    proof (rule index_find [OF relay_index(1) [OF assms(1)] assms(3)])
      assume "bs_list_find (accepted_key_list srv) pk = Some (- 1)"
      then show ?thesis using False run that [of 0 srv] assms(1) by (simp add: get_TCP_connection_index_def)
    next
      fix j assume j: "bs_list_find (accepted_key_list srv) pk = Some (int j)" "keys_of srv j = Some pk"
      obtain r srv' where "write_accepted E j (TCP_PACKET_OOB_RECV # take CRYPTO_PUBLIC_KEY_SIZE (sc_public_key con) @ data) False srv = Some (r, srv')" "relay_ok srv'" "quiet srv srv'"
        using write_ok_relay [OF assms(1) j(2)] by metis
      then show ?thesis using False run j(1) that [of 0 srv'] by (simp add: get_TCP_connection_index_def)
    qed
  qed
qed

text \<open>A packet for a slot: passed on to the linked client under the number of its slot, dropped if the other side is not there.\<close>

lemma data_packet_ok:
  assumes "relay_ok srv" "keys_of srv i = Some ki" "accepted srv i = Some con" "n < NUM_CLIENT_CONNECTIONS"
  obtains r srv' where
    "do {
       c \<leftarrow> get_conn con n;
       if sn_status c = 0 then Some (- 1, srv)
       else if sn_status c \<noteq> 2 then Some (0, srv)
       else do {
         (ret, srv) \<leftarrow> write_accepted E (unat (sn_index c)) ((sn_other_id c + NUM_RESERVED_PORTS) # rest) False srv;
         Some (if ret = - 1 then - 1 else 0 :: int, srv)
       }
     } = Some (r, srv')" "relay_ok srv'" "quiet srv srv'"
proof -
  have get: "get_conn con n = Some (slots_of srv i n)" using assms(3,4) by (simp add: get_conn_def slots_of_def)
  show ?thesis
  proof (cases "sn_status (slots_of srv i n) = 2")
    case True
    then obtain j m where j: "points_to (slots_of srv i n) j m" "keys_of srv j = Some (sn_public_key (slots_of srv i n))"
      using links_linked [OF relay_index(4) [OF assms(1)] True] by metis
    obtain r srv' where "write_accepted E j ((sn_other_id (slots_of srv i n) + NUM_RESERVED_PORTS) # rest) False srv = Some (r, srv')" "relay_ok srv'" "quiet srv srv'"
      using write_ok_relay [OF assms(1) j(2)] by metis
    then show ?thesis using that [of "if r = - 1 then - 1 else 0" srv'] get True j(1) by (simp add: points_to_def)
  next
    case False
    then show ?thesis using that [of "if sn_status (slots_of srv i n) = 0 then - 1 else 0" srv] get assms(1) by simp
  qed
qed

lemma handle_TCP_packet_ok:
  assumes "relay_ok srv" "keys_of srv i = Some ki"
  obtains r srv' where "handle_TCP_packet E srv i data = Some (r, srv')" "relay_ok srv'" "quiet srv srv'"
proof -
  define good where "good y \<longleftrightarrow> (\<exists>r srv'. y = Some (r :: int, srv') \<and> relay_ok srv' \<and> quiet srv srv')" for y
  obtain con where con: "accepted srv i = Some con" using assms(2) by (auto simp: keys_of_Some)
  have log: "good (Some (r, srv))" "good (Some (r, log_srv c srv))" for r c using assms(1) by (simp_all add: good_def)
  have ifI: "good (if b then x else y)" if "b \<Longrightarrow> good x" "\<not> b \<Longrightarrow> good y" for b x y using that by simp
  have routing: "good (handle_TCP_routing_req E srv i (drop 1 data))" if "\<not> length data \<noteq> 1 + CRYPTO_PUBLIC_KEY_SIZE"
    by (rule handle_TCP_routing_req_ok [OF assms, of "drop 1 data"]) (use that in \<open>simp_all add: good_def size_defs\<close>)
  have rm: "good (rm_connection_index E srv i x)" for x using rm_connection_index_ok [OF assms] unfolding good_def by metis
  have wr: "good (write_accepted E i x p srv \<bind> (\<lambda>(_, srv). Some (0, srv)))" for x p
    by (rule write_ok_relay [OF assms, of x p]) (simp add: good_def)
  have pong: "good (Some (0, if b then set_accepted i (con\<lparr>sc_ping_id := 0\<rparr>) srv else srv))" for b
    using assms(1) ping_put [OF assms con, where t = "sc_last_pinged con" and x = 0] by (simp add: good_def)
  have oob: "good (handle_TCP_oob_send E srv i (slice 1 CRYPTO_PUBLIC_KEY_SIZE data) x)" if "\<not> length data \<le> 1 + CRYPTO_PUBLIC_KEY_SIZE" for x
    by (rule handle_TCP_oob_send_ok [OF assms, of "slice 1 CRYPTO_PUBLIC_KEY_SIZE data" x])
      (use that in \<open>simp_all add: good_def slice_def size_defs\<close>)
  have fwd: "good (case p of None \<Rightarrow> Some (- 1, srv) | Some (l, dest) \<Rightarrow> if b l then Some (- 1, srv) else Some (0, log_srv (g l dest) srv))" for p b g
    by (simp add: log split: option.split prod.split)
  have slot: "good (get_conn con n \<bind> (\<lambda>c. if sn_status c = 0 then Some (- 1, srv) else if sn_status c \<noteq> 2 then Some (0, srv)
       else write_accepted E (unat (sn_index c)) ((sn_other_id c + NUM_RESERVED_PORTS) # rest) False srv \<bind> (\<lambda>(ret, srv). Some (if ret = - 1 then - 1 else 0, srv))))"
    if "\<not> NUM_CLIENT_CONNECTIONS \<le> n" for n rest
    by (rule data_packet_ok [OF assms con that [unfolded not_le], of rest]) (unfold good_def, blast)
  have "good (handle_TCP_packet E srv i data)"
    unfolding handle_TCP_packet_def con bind.bind_lunit Let_def
    by (rule ifI log routing rm wr pong oob fwd slot | assumption)+
  then show ?thesis using that by (auto simp: good_def)
qed

end

end
