(* ===== verification/TCP_Work.thy ===== *)
theory TCP_Work
  imports TCP_Requests
begin

text \<open>
  The periodic work of the TCP relay: it ends, and it keeps the relay in order.
\<close>

section \<open>Reading\<close>

definition read_frame :: "Sock \<Rightarrow> Sock \<Rightarrow> bool" where
  "read_frame a b \<longleftrightarrow> sk_send b = sk_send a \<and> sk_recv b = sk_recv a \<and> sk_count b = sk_count a \<and> sk_wire b = sk_wire a \<and> length (sk_in b) \<le> length (sk_in a)"

lemma read_frame_refl [simp]: "read_frame a a"
  by (simp add: read_frame_def)

lemma read_frame_later: "read_frame a b \<Longrightarrow> sock_later a b"
  by (simp add: read_frame_def sock_later_def)

lemma read_frame_trans: "read_frame a b \<Longrightarrow> read_frame b c \<Longrightarrow> read_frame a c"
  by (auto simp: read_frame_def)

lemma net_recv_frame: "net_recv a len = (n, data, b) \<Longrightarrow> read_frame a b"
  by (auto simp: net_recv_def Let_def read_frame_def)

lemma con_ok_read: "con_ok c \<Longrightarrow> read_frame (tc_sock c) sock \<Longrightarrow> con_ok (c\<lparr>tc_sock := sock\<rparr>)"
  by (simp add: con_ok_def read_frame_def con_stream_def queue_ok_def last_ok_def last_rest_def)

lemma read_TCP_length_frame: "read_TCP_length a = (len, b) \<Longrightarrow> read_frame a b"
  by (auto simp: read_TCP_length_def split: if_splits prod.splits dest!: net_recv_frame)

lemma read_TCP_packet_frame: "read_TCP_packet a len = (x, b) \<Longrightarrow> read_frame a b"
  by (auto simp: read_TCP_packet_def split: if_splits prod.splits dest!: net_recv_frame)

lemma read_TCP_packet_consumes:
  assumes "read_TCP_packet a len = (Some data, b)" "0 < len" "stream_socket (sk_send a) (sk_recv a) (sk_count a)"
  shows "length (sk_in b) < length (sk_in a)"
proof -
  have le: "len \<le> length (sk_in a)" using assms(1) recv_buffer_le(2) [OF assms(3)] by (auto simp: read_TCP_packet_def split: if_splits)
  have "b = a\<lparr>sk_calls := sk_calls a + 1, sk_in := drop len (sk_in a)\<rparr>"
    using assms(1) by (auto simp: read_TCP_packet_def net_recv_def Let_def split: if_splits)
  then show ?thesis using le assms(2) by simp
qed

lemma read_packet_frame:
  assumes "read_packet_TCP_secure_connection P key m r = (x, r')"
  shows "read_frame (rd_sock r) (rd_sock r')"
proof -
  obtain len r1 where l: "(if next_packet_length r = 0 then case read_TCP_length (rd_sock r) of (len, sock) \<Rightarrow> (len, r\<lparr>rd_sock := sock\<rparr>) else (next_packet_length r, r)) = (len, r1)"
    by force
  have f1: "read_frame (rd_sock r) (rd_sock r1)" using l by (auto split: if_splits prod.splits dest!: read_TCP_length_frame)
  obtain y sock where y: "read_TCP_packet (rd_sock r1) (unat len) = (y, sock)" by fastforce
  have f2: "read_frame (rd_sock r) sock" using read_frame_trans [OF f1 read_TCP_packet_frame [OF y]] .
  show ?thesis using assms l y f1 f2 unfolding read_packet_TCP_secure_connection_def
    by (auto simp: Let_def split: if_splits option.splits)
qed

lemma read_packet_consumes:
  assumes "read_packet_TCP_secure_connection P key m r = (Packet p, r')" "stream_socket (sk_send (rd_sock r)) (sk_recv (rd_sock r)) (sk_count (rd_sock r))"
  shows "length (sk_in (rd_sock r')) < length (sk_in (rd_sock r))"
proof -
  obtain len r1 where l: "(if next_packet_length r = 0 then case read_TCP_length (rd_sock r) of (len, sock) \<Rightarrow> (len, r\<lparr>rd_sock := sock\<rparr>) else (next_packet_length r, r)) = (len, r1)"
    by force
  have f1: "read_frame (rd_sock r) (rd_sock r1)" using l by (auto split: if_splits prod.splits dest!: read_TCP_length_frame)
  have nz: "len \<noteq> 0" and "\<exists>data sock. read_TCP_packet (rd_sock r1) (unat len) = (Some data, sock) \<and> rd_sock r' = sock"
    using assms(1) l unfolding read_packet_TCP_secure_connection_def
    by (auto simp: Let_def split: if_splits option.splits prod.splits)
  then obtain data where "read_TCP_packet (rd_sock r1) (unat len) = (Some data, rd_sock r')" by blast
  then have "length (sk_in (rd_sock r')) < length (sk_in (rd_sock r1))"
    by (rule read_TCP_packet_consumes) (use nz f1 assms(2) in \<open>simp_all add: read_frame_def unat_gt_0\<close>)
  then show ?thesis using f1 by (simp add: read_frame_def)
qed

lemma read_secure_ok:
  assumes "con_ok (sc_con con)"
  obtains x c a b where "read_secure E con = Some (x, con\<lparr>sc_con := c, sc_next_packet_length := a, sc_recv_nonce := b\<rparr>)" "con_ok c"
    "\<forall>p. x = Packet p \<longrightarrow> length (sk_in (tc_sock c)) < length (sk_in (tc_sock (sc_con con)))" "sock_later (tc_sock (sc_con con)) (tc_sock c)"
proof -
  let ?r = "\<lparr>rd_sock = tc_sock (sc_con con), next_packet_length = sc_next_packet_length con, rd_nonce = sc_recv_nonce con\<rparr>"
  obtain x rd where r: "read_packet_TCP_secure_connection (te_plat E) (tc_shared_key (sc_con con)) MAX_PACKET_SIZE ?r = (x, rd)" by fastforce
  have "con_ok ((sc_con con)\<lparr>tc_sock := rd_sock rd\<rparr>)" "sock_later (tc_sock (sc_con con)) (rd_sock rd)"
    using con_ok_read [OF assms] read_packet_frame [OF r] read_frame_later by simp_all
  moreover have "length (sk_in (rd_sock rd)) < length (sk_in (tc_sock (sc_con con)))" if "x = Packet p" for p
    using read_packet_consumes [of _ _ _ ?r p rd] r that assms by (simp add: con_ok_def)
  moreover have "tc_ns (sc_con con)" using assms by (simp add: con_ok_def)
  ultimately show ?thesis using that [where x = x and c = "(sc_con con)\<lparr>tc_sock := rd_sock rd\<rparr>" and a = "next_packet_length rd" and b = "rd_nonce rd"] r by (simp add: read_secure_def)
qed

text \<open>A client after reading.\<close>

lemma reader_put:
  fixes a :: u16 and b :: bytes
  assumes "relay_ok srv" "keys_of srv i = Some k" "accepted srv i = Some con" "con_ok c" "sock_later (tc_sock (sc_con con)) (tc_sock c)"
  defines "srv' \<equiv> set_accepted i (con\<lparr>sc_con := c, sc_next_packet_length := a, sc_recv_nonce := b\<rparr>) srv"
  shows "relay_ok srv'" "keys_of srv' = keys_of srv" "inputs srv' i = sk_in (tc_sock c)" "same_queues srv srv'" "grows 0 srv srv'"
proof -
  let ?con = "con\<lparr>sc_con := c, sc_next_packet_length := a, sc_recv_nonce := b\<rparr>"
  have con: "sc_status con = TCP_STATUS_CONFIRMED" "i < length (accepted_connection_array srv)"
    using assms(2,3) by (auto simp: keys_of_Some accepted_Some)
  then have ok: "secure_ok TCP_STATUS_CONFIRMED ?con"
    using accepted_ok [OF relay_index(2) [OF assms(1)] assms(3)] assms(4) by (auto simp: secure_ok_def)
  note p = relay_put [OF relay_index(3) [OF assms(1)] assms(3) con(1) ok, folded srv'_def]
  have "slots_of srv' = slots_of srv" using assms(3) by (auto simp: srv'_def slots_of_def accepted_set [OF con(2)] fun_eq_iff)
  then show "relay_ok srv'" "keys_of srv' = keys_of srv" using p con(1) relay_index(4) [OF assms(1)] by (simp_all add: relay_ok_def)
  show "inputs srv' i = sk_in (tc_sock c)" by (simp add: srv'_def inputs_def accepted_set [OF con(2)])
  have "idents_of srv' = idents_of srv" using assms(3) by (auto simp: srv'_def idents_of_def accepted_set [OF con(2)] fun_eq_iff)
  moreover have "sock_later (sock_at srv j) (sock_at srv' j)" for j using assms(3,5) by (simp add: srv'_def sock_at_def accepted_set [OF con(2)])
  moreover have "srv_calls srv' = srv_calls srv" "counter srv' = counter srv" by (simp_all add: srv'_def set_accepted_def)
  ultimately have "ages srv srv'" using p(2) con(1) by (intro ages_view) simp_all
  then show "same_queues srv srv'" "grows 0 srv srv'" by (simp_all add: grows_def) (simp_all add: srv'_def same_queues_def set_accepted_def)
qed

context relay_host
begin

lemma kill_some_ok:
  assumes "relay_ok srv" "same_queues srv0 srv" "grows 0 srv0 srv"
  shows "\<exists>srv'. do { (_, srv) \<leftarrow> kill_accepted E srv i; Some (x, srv) } = Some (x, srv') \<and> relay_ok srv' \<and> same_queues srv0 srv' \<and> grows 0 srv0 srv'"
proof (rule kill_accepted_ok [OF assms(1), of i])
  fix r srv' assume k: "kill_accepted E srv i = Some (r, srv')" "relay_ok srv'" "same_queues srv srv'" "grows 0 srv srv'"
  show ?thesis using k same_queues_trans [OF assms(2) k(3)] grows_trans [OF assms(3) k(4)] by simp
qed

lemma tcp_process_secure_packet_ok:
  assumes "relay_ok srv" "keys_of srv i = Some k"
  obtains more srv' where "tcp_process_secure_packet E srv i = Some (more, srv')" "relay_ok srv'" "same_queues srv srv'" "grows 0 srv srv'"
    "more \<Longrightarrow> keys_of srv' i = Some k \<and> length (inputs srv' i) < length (inputs srv i)"
proof -
  obtain con where con: "accepted srv i = Some con" "con_ok (sc_con con)" using clientE [OF relay_index(2) [OF assms(1)] assms(2)] by metis
  obtain x c a b where r: "read_secure E con = Some (x, con\<lparr>sc_con := c, sc_next_packet_length := a, sc_recv_nonce := b\<rparr>)" "con_ok c"
    "\<forall>p. x = Packet p \<longrightarrow> length (sk_in (tc_sock c)) < length (sk_in (tc_sock (sc_con con)))" "sock_later (tc_sock (sc_con con)) (tc_sock c)"
    by (rule read_secure_ok [OF con(2), where E = E], rule that) assumption+
  let ?s = "set_accepted i (con\<lparr>sc_con := c, sc_next_packet_length := a, sc_recv_nonce := b\<rparr>) srv"
  note s = reader_put [OF assms con(1) r(2,4), where a = a and b = b]
  note run = tcp_process_secure_packet_def [of E srv i] con(1) r(1)
  have kill: "\<exists>srv'. do { (_, srv) \<leftarrow> kill_accepted E s1 i; Some (False, srv) } = Some (False, srv') \<and> relay_ok srv' \<and> same_queues srv srv' \<and> grows 0 srv srv'"
    if "relay_ok s1" "same_queues srv s1" "grows 0 srv s1" for s1 by (rule kill_some_ok [OF that])
  show ?thesis
  proof (cases x)
    case Nothing
    then show ?thesis using run s that [of False ?s] by simp
  next
    case Killed
    then show ?thesis using run kill [OF s(1,4,5)] that by auto
  next
    case (Packet p)
    have k: "keys_of ?s i = Some k" using s(2) assms(2) by simp
    obtain rr s1 where h: "handle_TCP_packet E ?s i p = Some (rr, s1)" "relay_ok s1" "quiet ?s s1" using handle_TCP_packet_ok [OF s(1) k] by metis
    have q: "same_queues srv s1" "grows 0 srv s1" using same_queues_trans [OF s(4) quiet_queues [OF h(3)]] grows_trans [OF s(5) quiet_grows [OF h(3)]] by simp_all
    show ?thesis
    proof (cases "rr = - 1")
      case True
      then show ?thesis using run Packet h(1) kill [OF h(2) q] that by auto
    next
      case False
      have "keys_of s1 i = Some k \<and> length (inputs s1 i) < length (inputs srv i)"
        using h(3) k s(3) r(3) Packet con(1) by (simp add: quiet_def inputs_def [of srv])
      then show ?thesis using that [OF _ h(2) q] run Packet h(1) False by simp
    qed
  qed
qed

text \<open>The loop ends when the input is used up.\<close>

lemma do_confirmed_recv_ok:
  assumes "relay_ok srv" "keys_of srv i = Some k"
  obtains srv' where "do_confirmed_recv E i srv = Some srv'" "relay_ok srv'" "same_queues srv srv'" "grows 0 srv srv'"
  using assms
proof (induction "length (inputs srv i)" arbitrary: srv thesis rule: less_induct)
  case less
  obtain more s1 where s1: "tcp_process_secure_packet E srv i = Some (more, s1)" "relay_ok s1" "same_queues srv s1" "grows 0 srv s1"
    "more \<Longrightarrow> keys_of s1 i = Some k \<and> length (inputs s1 i) < length (inputs srv i)"
    using tcp_process_secure_packet_ok [OF less.prems(2,3)] by metis
  show ?case
  proof (cases more)
    case False
    then show ?thesis using s1 less.prems(1) [of s1] by (simp add: do_confirmed_recv.simps)
  next
    case True
    obtain s2 where s2: "do_confirmed_recv E i s1 = Some s2" "relay_ok s2" "same_queues s1 s2" "grows 0 s1 s2"
      using less.hyps [of s1] s1(2,5) True by blast
    have run: "do_confirmed_recv E i srv = Some s2" using s1(1) s2(1) True by (subst do_confirmed_recv.simps) simp
    show ?thesis using less.prems(1) [OF run s2(2)] same_queues_trans [OF s1(3) s2(3)] grows_trans [OF s1(4) s2(4)] by simp
  qed
qed

end

section \<open>Clients\<close>

text \<open>A step of the relay that keeps it in order.\<close>

definition stable :: "nat \<Rightarrow> TCP_Server \<Rightarrow> TCP_Server \<Rightarrow> bool" where
  "stable n srv srv' \<longleftrightarrow> relay_ok srv' \<and> same_queues srv srv' \<and> grows n srv srv'"

lemma stable_refl: "relay_ok srv \<Longrightarrow> stable n srv srv"
  by (simp add: stable_def)

lemma stable_trans: "stable m a b \<Longrightarrow> stable n b c \<Longrightarrow> stable (m + n) a c"
  using same_queues_trans grows_trans by (fastforce simp: stable_def)

lemma stable_trans0: "stable 0 a b \<Longrightarrow> stable 0 b c \<Longrightarrow> stable 0 a c"
  using stable_trans [of 0 a b 0 c] by simp

lemma quiet_stable: "quiet srv srv' \<Longrightarrow> relay_ok srv' \<Longrightarrow> stable 0 srv srv'"
  by (simp add: stable_def quiet_queues quiet_grows)

lemma rng_upd:
  "accepted (srv\<lparr>srv_rng := r\<rparr>) = accepted srv" "keys_of (srv\<lparr>srv_rng := r\<rparr>) = keys_of srv" "relay_ok (srv\<lparr>srv_rng := r\<rparr>) = relay_ok srv" "quiet srv (srv\<lparr>srv_rng := r\<rparr>)"
  using view_cong [of "srv\<lparr>srv_rng := r\<rparr>" srv] relay_cong [of "srv\<lparr>srv_rng := r\<rparr>" srv] by (simp_all add: queues_ok_def quiet_def)

context relay_host
begin

lemma kill_stable:
  assumes "relay_ok srv"
  obtains r srv' where "kill_accepted E srv i = Some (r, srv')" "stable 0 srv srv'"
  using kill_accepted_ok [OF assms, of i] by (metis stable_def)

lemma ping_confirmed_ok:
  assumes "relay_ok srv" "keys_of srv i = Some k"
  obtains alive srv' where "ping_confirmed E mt srv i = Some (alive, srv')" "stable 0 srv srv'" "alive \<longrightarrow> keys_of srv' i = Some k"
proof -
  obtain con where con: "accepted srv i = Some con" using assms(2) by (auto simp: keys_of_Some)
  obtain n r where nr: "random_u64 (srv_rng srv) = (n, r)" by fastforce
  let ?pid = "if n = 0 then n + 1 else n" and ?s = "srv\<lparr>srv_rng := r\<rparr>"
  have s: "relay_ok ?s" "keys_of ?s i = Some k" using assms by (simp_all add: rng_upd)
  obtain ret s1 where w: "write_accepted E i (TCP_PACKET_PING # host_bytes 8 ?pid) True ?s = Some (ret, s1)" "relay_ok s1" "quiet ?s s1"
    by (rule write_ok_relay [OF s, where data = "TCP_PACKET_PING # host_bytes 8 ?pid" and priority = True])
  have q1: "quiet srv s1" using quiet_trans [OF rng_upd(4) w(3)] .
  have k1: "keys_of s1 i = Some k" using q1 assms(2) by (simp add: quiet_def)
  obtain con1 where con1: "accepted s1 i = Some con1" using k1 by (auto simp: keys_of_Some)
  note run = ping_confirmed_def [of E mt srv i] con
  show ?thesis
  proof (cases "mono_time_is_timeout mt (sc_last_pinged con) TCP_PING_FREQUENCY")
    case False
    then show ?thesis using run that [of True srv] assms stable_refl by simp
  next
    case True
    note run1 = run True nr w(1)
    consider "ret = 1" | "ret \<noteq> 1" "mono_time_is_timeout mt (sc_last_pinged con) (TCP_PING_FREQUENCY + TCP_PING_TIMEOUT)"
      | "ret \<noteq> 1" "\<not> mono_time_is_timeout mt (sc_last_pinged con) (TCP_PING_FREQUENCY + TCP_PING_TIMEOUT)" by blast
    then show ?thesis
    proof cases
      case 1
      note p = ping_put [OF w(2) k1 con1, where t = "mono_time_get mt" and x = ?pid]
      let ?s2 = "set_accepted i (con1\<lparr>sc_last_pinged := mono_time_get mt, sc_ping_id := ?pid\<rparr>) s1"
      have res: "ping_confirmed E mt srv i = Some (True, ?s2)" using run1 con1 1 by simp
      show ?thesis by (rule that [OF res quiet_stable [OF quiet_trans [OF q1 p(2)] p(1)]]) (use p(2) k1 in \<open>simp add: quiet_def\<close>)
    next
      case 2
      obtain rr s2 where k: "kill_accepted E s1 i = Some (rr, s2)" "stable 0 s1 s2" using kill_stable [OF w(2)] by blast
      show ?thesis by (rule that [of False s2]) (use run1 2 k stable_trans0 [OF quiet_stable [OF q1 w(2)] k(2)] in simp_all)
    next
      case 3
      show ?thesis by (rule that [of True s1]) (use run1 3 quiet_stable [OF q1 w(2)] k1 in simp_all)
    qed
  qed
qed

lemma do_confirmed_ok:
  assumes "relay_ok srv" "i < length (accepted_connection_array srv)"
  obtains srv' where "do_confirmed E mt srv i = Some srv'" "stable 0 srv srv'"
proof -
  obtain con where con: "accepted srv i = Some con" using assms(2) by (simp add: accepted_def)
  note run = do_confirmed_def [of E mt srv i] con
  show ?thesis
  proof (cases "sc_status con = TCP_STATUS_CONFIRMED")
    case False
    then show ?thesis using run that [of srv] assms(1) stable_refl by simp
  next
    case True
    then obtain k where k: "keys_of srv i = Some k" using con by (simp add: keys_of_def)
    obtain alive s1 where s1: "ping_confirmed E mt srv i = Some (alive, s1)" "stable 0 srv s1" "alive \<longrightarrow> keys_of s1 i = Some k" by (rule ping_confirmed_ok [OF assms(1) k])
    have ok1: "relay_ok s1" using s1(2) by (simp add: stable_def)
    show ?thesis
    proof (cases alive)
      case False
      then show ?thesis using run True s1(1,2) that by simp
    next
      case alive: True
      then have k1: "keys_of s1 i = Some k" using s1(3) by simp
      obtain con1 where con1: "accepted s1 i = Some con1" "con_ok (sc_con con1)" using clientE [OF relay_index(2) [OF ok1] k1] by metis
      note run1 = run True s1(1) alive con1(1)
      show ?thesis
      proof (cases "sc_ping_id con1 \<noteq> 0 \<and> mono_time_is_timeout mt (sc_last_pinged con1) TCP_PING_TIMEOUT")
        case late: True
        obtain r s2 where "kill_accepted E s1 i = Some (r, s2)" "stable 0 s1 s2" using kill_stable [OF ok1] by blast
        then show ?thesis using run1 late that [of s2] stable_trans0 [OF s1(2)] by simp
      next
        case False
        obtain r c where c: "send_pending_data (sc_con con1) = Some (r, c)" "con_ok c" "sock_frame (sc_con con1) c" by (rule pending_ok [OF con1(2)])
        have later: "sock_later (tc_sock (sc_con con1)) (tc_sock c)" using c(3) by (simp add: sock_frame_def)
        note p = reader_put [OF ok1 k1 con1(1) c(2) later, where a = "sc_next_packet_length con1" and b = "sc_recv_nonce con1", simplified]
        let ?s = "set_accepted i (con1\<lparr>sc_con := c\<rparr>) s1"
        have k2: "keys_of ?s i = Some k" using p(2) k1 by simp
        obtain s3 where s3: "do_confirmed_recv E i ?s = Some s3" "relay_ok s3" "same_queues ?s s3" "grows 0 ?s s3" using do_confirmed_recv_ok [OF p(1) k2] by blast
        have st: "stable 0 s1 ?s" "stable 0 ?s s3" using p(1,4,5) s3(2-4) by (simp_all add: stable_def)
        have res: "do_confirmed E mt srv i = (if te_use_epoll E then Some ?s else Some s3)" using run1 False c(1) s3(1) by (simp add: Let_def)
        show ?thesis by (rule that [of "if te_use_epoll E then ?s else s3"]) (use res stable_trans0 [OF s1(2) st(1)] stable_trans0 [OF s1(2) stable_trans0 [OF st]] in simp_all)
      qed
    qed
  qed
qed

lemma do_TCP_confirmed_loop_ok:
  assumes "relay_ok srv"
  obtains srv' where "do_TCP_confirmed_loop E mt is srv = Some srv'" "stable 0 srv srv'"
  using assms
proof (induction "is" arbitrary: srv thesis)
  case Nil
  show ?case by (rule Nil.prems(1) [of srv]) (use Nil.prems(2) stable_refl in simp_all)
next
  case (Cons i "is")
  show ?case
  proof (cases "i < length (accepted_connection_array srv)")
    case False
    then show ?thesis using Cons.prems(1) [of srv] Cons.prems(2) stable_refl by simp
  next
    case True
    obtain s1 where s1: "do_confirmed E mt srv i = Some s1" "stable 0 srv s1" using do_confirmed_ok [OF Cons.prems(2) True] by blast
    then obtain s2 where s2: "do_TCP_confirmed_loop E mt is s1 = Some s2" "stable 0 s1 s2" using Cons.IH [of s1] by (auto simp: stable_def)
    show ?thesis by (rule Cons.prems(1) [of s2]) (use True s1 s2 stable_trans0 [OF s1(2) s2(2)] in simp_all)
  qed
qed

end

section \<open>Queues\<close>

definition kept :: "nat \<Rightarrow> TCP_Server \<Rightarrow> TCP_Server \<Rightarrow> bool" where
  "kept n srv srv' \<longleftrightarrow> relay_ok srv' \<and> grows n srv srv'"

lemma kept_refl: "relay_ok srv \<Longrightarrow> kept n srv srv"
  by (simp add: kept_def)

lemma kept_trans: "kept m a b \<Longrightarrow> kept n b c \<Longrightarrow> kept (m + n) a c"
  using grows_trans by (auto simp: kept_def)

lemma kept_trans0: "kept 0 a b \<Longrightarrow> kept n b c \<Longrightarrow> kept n a c" "kept n a b \<Longrightarrow> kept 0 b c \<Longrightarrow> kept n a c"
  using kept_trans [of 0 a b n c] kept_trans [of n a b 0 c] by simp_all

lemma kept_weaken: "kept m a b \<Longrightarrow> m \<le> n \<Longrightarrow> kept n a b"
  by (auto simp: kept_def grows_def)

lemma stable_kept: "stable n a b \<Longrightarrow> kept n a b"
  by (simp add: stable_def kept_def)

text \<open>Fields that nothing depends on.\<close>

lemma kept_same:
  assumes "relay_ok srv" "accepted_connection_array srv' = accepted_connection_array srv" "accepted_key_list srv' = accepted_key_list srv"
    "num_accepted_connections srv' = num_accepted_connections srv" "counter srv' = counter srv" "queues_ok srv'" "prefix (srv_calls srv) (srv_calls srv')"
  shows "kept 0 srv srv'"
proof -
  have "queues_ok srv" using assms(1) by (simp add: relay_ok_def relay_base_def)
  then show ?thesis using assms relay_cong [of srv' srv] ages_view [of srv' srv] view_cong [OF assms(2)] by (simp add: kept_def grows_def)
qed

lemma queued_zero [simp]: "queued_ok st zero_secure_connection"
  by (simp add: queued_ok_def secure_ok_def)

lemma queues: "relay_ok srv \<Longrightarrow> queues_ok srv"
  by (simp add: relay_ok_def relay_base_def)

lemma queue_nth:
  assumes "queues_ok srv" "i < MAX_INCOMING_CONNECTIONS"
  shows "queued_ok TCP_STATUS_CONNECTED (incoming_connection_queue srv ! i)" "queued_ok TCP_STATUS_UNCONFIRMED (unconfirmed_connection_queue srv ! i)"
    "i < length (incoming_connection_queue srv)" "i < length (unconfirmed_connection_queue srv)"
  using assms by (simp_all add: queues_ok_def list_all_length)

lemma set_incoming_ok:
  assumes "queues_ok srv" "queued_ok TCP_STATUS_CONNECTED con"
  shows "queues_ok (set_incoming i con srv)"
proof -
  have "list_all (queued_ok TCP_STATUS_CONNECTED) ((incoming_connection_queue srv)[i := con])"
    using assms set_update_subset_insert [of "incoming_connection_queue srv" i con] by (auto simp: queues_ok_def list_all_iff)
  then show ?thesis using assms(1) by (simp add: queues_ok_def set_incoming_def)
qed

lemma set_unconfirmed_ok:
  assumes "queues_ok srv" "queued_ok TCP_STATUS_UNCONFIRMED con"
  shows "queues_ok (set_unconfirmed i con srv)"
proof -
  have "list_all (queued_ok TCP_STATUS_UNCONFIRMED) ((unconfirmed_connection_queue srv)[i := con])"
    using assms set_update_subset_insert [of "unconfirmed_connection_queue srv" i con] by (auto simp: queues_ok_def list_all_iff)
  then show ?thesis using assms(1) by (simp add: queues_ok_def set_unconfirmed_def)
qed

lemma set_queue_kept:
  assumes "relay_ok srv"
  shows "queued_ok TCP_STATUS_CONNECTED con \<Longrightarrow> kept 0 srv (set_incoming i con srv)" "queued_ok TCP_STATUS_UNCONFIRMED con \<Longrightarrow> kept 0 srv (set_unconfirmed i con srv)"
    "kept 0 srv (log_srv c srv)"
proof -
  note q = queues [OF assms]
  show "kept 0 srv (set_incoming i con srv)" if "queued_ok TCP_STATUS_CONNECTED con"
    by (rule kept_same [OF assms]) (use set_incoming_ok [OF q that] in \<open>simp_all add: set_incoming_def\<close>)
  show "kept 0 srv (set_unconfirmed i con srv)" if "queued_ok TCP_STATUS_UNCONFIRMED con"
    by (rule kept_same [OF assms]) (use set_unconfirmed_ok [OF q that] in \<open>simp_all add: set_unconfirmed_def\<close>)
  show "kept 0 srv (log_srv c srv)" by (rule kept_same [OF assms]) (use q in \<open>simp_all add: log_srv_def queues_ok_def\<close>)
qed

lemma queued_con: "queued_ok st con \<Longrightarrow> sc_status con \<noteq> TCP_STATUS_NO_STATUS \<Longrightarrow>
  sc_status con = st \<and> con_ok (sc_con con) \<and> length (sc_public_key con) = 32 \<and> connections con = replicate NUM_CLIENT_CONNECTIONS zero_secure_conn"
  by (auto simp: queued_ok_def secure_ok_def)

lemma queuedI: "sc_status con = st \<Longrightarrow> con_ok (sc_con con) \<Longrightarrow> length (sc_public_key con) = 32 \<Longrightarrow>
  connections con = replicate NUM_CLIENT_CONNECTIONS zero_secure_conn \<Longrightarrow> queued_ok st con"
  by (simp add: queued_ok_def secure_ok_def)

lemma kill_secure_ok:
  assumes "con_ok (sc_con con)" "sc_status con \<noteq> TCP_STATUS_NO_STATUS"
  shows "kill_TCP_secure_connection srv con = Some (log_srv (Call_kill_sock (tc_sock (sc_con con))) srv, zero_secure_connection)"
proof -
  obtain h where "wipe_priority_list (pq_heap (sc_con con)) (priority_queue_start (sc_con con)) = Some h" using wipe_ok [OF assms(1)] by blast
  then show ?thesis using assms by (simp add: kill_TCP_secure_connection_def wipe_secure_connection_def con_ok_def)
qed

context relay_host
begin

lemma confirm_TCP_connection_ok:
  assumes "relay_ok srv" "room 1 srv" "i < MAX_INCOMING_CONNECTIONS" "sc_status (unconfirmed_connection_queue srv ! i) \<noteq> TCP_STATUS_NO_STATUS"
  obtains r srv' where "confirm_TCP_connection E mt srv i data = Some (r, srv')" "kept 1 srv srv'"
proof -
  let ?con = "unconfirmed_connection_queue srv ! i"
  note c = queued_con [OF queue_nth(2) [OF queues [OF assms(1)] assms(3)] assms(4)]
  obtain x s1 where s1: "add_accepted E mt srv ?con = Some (Some x, s1, zero_secure_connection)" "relay_ok s1" "keys_of s1 x = Some (sc_public_key ?con)" "grows 1 srv s1"
    using add_accepted_ok [OF assms(1,2), of ?con mt] c by metis
  let ?s = "set_unconfirmed i zero_secure_connection s1"
  note k = set_queue_kept(2) [OF s1(2) queued_zero, of i]
  have k1: "kept 1 srv ?s" using k s1(2,4) kept_trans0(2) by (auto simp: kept_def)
  have ok: "relay_ok ?s" "keys_of ?s x = Some (sc_public_key ?con)" using k s1(3) view_cong [of ?s s1] by (simp_all add: kept_def set_unconfirmed_def)
  obtain r s2 where s2: "handle_TCP_packet E ?s x data = Some (r, s2)" "relay_ok s2" "quiet ?s s2" using handle_TCP_packet_ok [OF ok] by metis
  have k2: "kept 1 srv s2" using kept_trans0(2) [OF k1] s2(2) quiet_grows [OF s2(3)] by (simp add: kept_def)
  obtain rr s3 where s3: "kill_accepted E s2 x = Some (rr, s3)" "stable 0 s2 s3" using kill_stable [OF s2(2)] by blast
  note run = confirm_TCP_connection_def [of E mt srv i data] s1(1) s2(1) s3(1)
  show ?thesis
  proof (cases "r = - 1")
    case True
    then show ?thesis using run that [of "- 1" s3] kept_trans0(2) [OF k2 stable_kept [OF s3(2)]] by (simp add: wipe_secure_connection_def)
  next
    case False
    then show ?thesis using run that [of "int x" s2] k2 by (simp add: wipe_secure_connection_def)
  qed
qed

lemma do_unconfirmed_ok:
  assumes "relay_ok srv" "room 1 srv" "i < MAX_INCOMING_CONNECTIONS"
  obtains r srv' where "do_unconfirmed E mt srv i = Some (r, srv')" "kept 1 srv srv'"
proof -
  let ?con = "unconfirmed_connection_queue srv ! i"
  note nth = queue_nth [OF queues [OF assms(1)] assms(3)]
  show ?thesis
  proof (cases "sc_status ?con = TCP_STATUS_UNCONFIRMED")
    case False
    then show ?thesis using that [of "- 1" srv] kept_refl [OF assms(1)] by (simp add: do_unconfirmed_def)
  next
    case True
    then have c: "con_ok (sc_con ?con)" "length (sc_public_key ?con) = 32" "connections ?con = replicate NUM_CLIENT_CONNECTIONS zero_secure_conn"
      using queued_con [OF nth(2)] by simp_all
    obtain x c a b where r: "read_secure E ?con = Some (x, ?con\<lparr>sc_con := c, sc_next_packet_length := a, sc_recv_nonce := b\<rparr>)" "con_ok c"
      by (rule read_secure_ok [OF c(1), where E = E], rule that) assumption+
    let ?con' = "?con\<lparr>sc_con := c, sc_next_packet_length := a, sc_recv_nonce := b\<rparr>"
    have q: "queued_ok TCP_STATUS_UNCONFIRMED ?con'" by (rule queuedI) (use True c r(2) in simp_all)
    let ?s = "set_unconfirmed i ?con' srv"
    have k: "kept 0 srv ?s" by (rule set_queue_kept(2) [OF assms(1) q])
    note run = do_unconfirmed_def [of E mt srv i] True r(1)
    show ?thesis
    proof (cases x)
      case Nothing
      then show ?thesis using run that [of "- 1" ?s] kept_weaken [OF k] by simp
    next
      case Killed
      let ?l = "log_srv (Call_kill_sock (tc_sock c)) srv"
      have "relay_ok ?l" using assms(1) by simp
      have kk: "kept 1 srv (set_unconfirmed i zero_secure_connection ?l)"
        using kept_trans0(1) [OF set_queue_kept(3) [OF assms(1)] set_queue_kept(2) [OF \<open>relay_ok ?l\<close> queued_zero]] kept_weaken by blast
      show ?thesis by (rule that [OF _ kk, of "- 1"]) (use run Killed kill_secure_ok [of ?con' srv] r(2) True in simp)
    next
      case (Packet p)
      have n: "unconfirmed_connection_queue ?s ! i = ?con'" using nth(4) by (simp add: set_unconfirmed_def)
      have ok: "relay_ok ?s" "room 1 ?s" using k room_grows [of 0 1 srv ?s] assms(2) by (simp_all add: kept_def)
      obtain rr s1 where s1: "confirm_TCP_connection E mt ?s i p = Some (rr, s1)" "kept 1 ?s s1"
        using confirm_TCP_connection_ok [OF ok assms(3), of mt p] n True by auto
      show ?thesis by (rule that [OF _ kept_trans0(1) [OF k s1(2)], of rr]) (use run Packet s1(1) in simp)
    qed
  qed
qed

lemma do_TCP_unconfirmed_loop_ok:
  assumes "relay_ok srv" "room (length is) srv" "\<forall>i \<in> set is. i < MAX_INCOMING_CONNECTIONS"
  obtains srv' where "do_TCP_unconfirmed_loop E mt is srv = Some srv'" "kept (length is) srv srv'"
  using assms
proof (induction "is" arbitrary: srv thesis)
  case Nil
  show ?case by (rule Nil.prems(1) [of srv]) (use Nil.prems(2) kept_refl in simp_all)
next
  case (Cons i "is")
  have "room 1 srv" "room (1 + length is) srv" using Cons.prems(3) by (simp_all add: room_def)
  then obtain r s1 where s1: "do_unconfirmed E mt srv i = Some (r, s1)" "kept 1 srv s1" using do_unconfirmed_ok [OF Cons.prems(2)] Cons.prems(4) by (metis list.set_intros(1))
  have ok: "relay_ok s1" "room (length is) s1" using s1(2) room_grows [of 1 "length is" srv s1] \<open>room (1 + length is) srv\<close> by (simp_all add: kept_def)
  obtain s2 where s2: "do_TCP_unconfirmed_loop E mt is s1 = Some s2" "kept (length is) s1 s2" using Cons.IH [OF _ ok] Cons.prems(4) by auto
  show ?case by (rule Cons.prems(1) [of s2]) (use s1(1) s2(1) kept_trans [OF s1(2) s2(2)] in simp_all)
qed

end

section \<open>New connections\<close>

lemma new_con_ok:
  assumes "stream_socket (sk_send sock) (sk_recv sock) (sk_count sock)"
  shows "con_ok ((sc_con zero_secure_connection)\<lparr>tc_ns := True, tc_sock := sock\<rparr>)"
  using assms by (auto simp: con_ok_def zero_secure_connection_def zero_tcp_connection_def con_stream_def last_ok_def last_rest_def queue_ok_def)

lemma con_ok_con_send:
  assumes "con_ok c" "con_send c buf = Some (n, c')"
  shows "con_ok c'"
proof -
  obtain as where as: "last_ok c" "queue_ok c as" using assms(1) by (auto simp: con_ok_def con_stream_def)
  obtain sock where c': "c' = c\<lparr>tc_sock := sock\<rparr>" using assms(2) by (auto simp: con_send_def split: if_splits prod.splits)
  have "con_stream c' (sk_wire sock @ last_rest c' @ pq_bytes (pq_heap c') as)"
    using as by (auto simp: con_stream_def c' queue_ok_def last_ok_def)
  then show ?thesis by (rule con_ok_frame [OF assms(1) con_send_frame [OF assms(2)]])
qed

lemma con_ok_upd: "con_ok (c\<lparr>tc_sent_nonce := x\<rparr>) = con_ok c" "con_ok (c\<lparr>tc_shared_key := y\<rparr>) = con_ok c"
  by (simp_all add: con_ok_def con_stream_def queue_ok_def last_ok_def last_rest_def)

lemma con_ok_send_Some: "con_ok c \<Longrightarrow> \<exists>n c'. con_send c buf = Some (n, c')"
  by (auto simp: con_ok_def con_send_def split: prod.split)

text \<open>A connection in the handshake.\<close>

definition shaking :: "TCP_Secure_Connection \<Rightarrow> bool" where
  "shaking con \<longleftrightarrow> con_ok (sc_con con) \<and> length (sc_public_key con) = 32 \<and> connections con = replicate NUM_CLIENT_CONNECTIONS zero_secure_conn"

definition shook :: "(int \<times> Random \<times> TCP_Secure_Connection) option \<Rightarrow> bool" where
  "shook y \<longleftrightarrow> (\<exists>ret r con. y = Some (ret, r, con) \<and> shaking con \<and> sc_status con = (if ret = 1 then TCP_STATUS_UNCONFIRMED else TCP_STATUS_CONNECTED))"

lemma shookI:
  "shaking con \<Longrightarrow> sc_status con = TCP_STATUS_CONNECTED \<Longrightarrow> ret \<noteq> 1 \<Longrightarrow> shook (Some (ret, r, con))"
  "shaking con \<Longrightarrow> sc_status con = TCP_STATUS_UNCONFIRMED \<Longrightarrow> shook (Some (1, r, con))"
  by (auto simp: shook_def)

lemma handle_TCP_handshake_ok:
  assumes "shaking con" "sc_status con = TCP_STATUS_CONNECTED"
  shows "shook (handle_TCP_handshake E r con data sk)"
proof (cases "length data = TCP_CLIENT_HANDSHAKE_SIZE")
  case False
  then show ?thesis using assms by (simp add: handle_TCP_handshake_def shookI)
next
  case len: True
  let ?pk = "take CRYPTO_PUBLIC_KEY_SIZE data"
  define key where "key = (case encrypt_precompute (te_plat E) ?pk sk of None \<Rightarrow> te_stack E | Some k \<Rightarrow> k)"
  have pk: "length ?pk = 32" using len by (simp add: size_defs)
  define d where "d = decrypt_data_symmetric (te_plat E) (Some key) (slice CRYPTO_PUBLIC_KEY_SIZE CRYPTO_NONCE_SIZE data)
    (slice (CRYPTO_PUBLIC_KEY_SIZE + CRYPTO_NONCE_SIZE) (TCP_HANDSHAKE_PLAIN_SIZE + CRYPTO_MAC_SIZE) data)"
  show ?thesis
  proof (cases "\<exists>plain. d = Some plain \<and> length plain = TCP_HANDSHAKE_PLAIN_SIZE")
    case False
    then show ?thesis using len assms by (cases d) (simp_all add: handle_TCP_handshake_def Let_def shookI d_def key_def)
  next
    case True
    then obtain plain where plain: "d = Some plain" "length plain = TCP_HANDSHAKE_PLAIN_SIZE" by blast
    obtain tpk tsk r1 where r1: "crypto_new_keypair r = ((tpk, tsk), r1)" by (metis prod.collapse)
    obtain sn r2 where r2: "random_nonce r1 = (sn, r2)" by fastforce
    obtain nonce r3 where r3: "random_nonce r2 = (nonce, r3)" by fastforce
    let ?con = "con\<lparr>sc_public_key := ?pk, sc_recv_nonce := slice CRYPTO_PUBLIC_KEY_SIZE CRYPTO_NONCE_SIZE plain, sc_con := (sc_con con)\<lparr>tc_sent_nonce := sn\<rparr>\<rparr>"
    have c1: "shaking ?con" using assms(1) pk by (simp add: shaking_def con_ok_upd)
    show ?thesis
    proof (cases "\<exists>enc. encrypt_data_symmetric (te_plat E) (Some key) nonce (tpk @ sn) = Some enc \<and> length enc = TCP_HANDSHAKE_PLAIN_SIZE + CRYPTO_MAC_SIZE")
      case False
      then show ?thesis using len assms(2) plain r1 r2 r3 c1
        by (cases "encrypt_data_symmetric (te_plat E) (Some key) nonce (tpk @ sn)") (simp_all add: handle_TCP_handshake_def Let_def shookI d_def key_def)
    next
      case True
      then obtain enc where enc: "encrypt_data_symmetric (te_plat E) (Some key) nonce (tpk @ sn) = Some enc" "length enc = TCP_HANDSHAKE_PLAIN_SIZE + CRYPTO_MAC_SIZE" by blast
      obtain n c where s: "con_send ((sc_con con)\<lparr>tc_sent_nonce := sn\<rparr>) (nonce @ enc) = Some (n, c)"
        using con_ok_send_Some [of "(sc_con con)\<lparr>tc_sent_nonce := sn\<rparr>" "nonce @ enc"] assms(1) by (auto simp: shaking_def con_ok_upd)
      have c: "con_ok c" using con_ok_con_send [OF _ s] assms(1) by (simp add: shaking_def con_ok_upd)
      show ?thesis using len assms plain r1 r2 r3 enc s c pk by (simp add: handle_TCP_handshake_def Let_def shookI shaking_def con_ok_upd d_def key_def)
    qed
  qed
qed

lemma read_connection_handshake_ok:
  assumes "shaking con" "sc_status con = TCP_STATUS_CONNECTED"
  shows "shook (read_connection_handshake E r con sk)"
proof -
  obtain x sock where x: "read_TCP_packet (tc_sock (sc_con con)) TCP_CLIENT_HANDSHAKE_SIZE = (x, sock)" by fastforce
  let ?con = "con\<lparr>sc_con := (sc_con con)\<lparr>tc_sock := sock\<rparr>\<rparr>"
  have c: "shaking ?con" using assms(1) con_ok_read [OF _ read_TCP_packet_frame [OF x]] by (simp add: shaking_def)
  have ns: "tc_ns (sc_con con)" using assms(1) by (simp add: shaking_def con_ok_def)
  show ?thesis
  proof (cases x)
    case None
    then show ?thesis using x c ns assms(2) by (simp add: read_connection_handshake_def shookI)
  next
    case (Some data)
    then show ?thesis using x ns handle_TCP_handshake_ok [OF c, of E r data sk] assms(2) by (simp add: read_connection_handshake_def)
  qed
qed

lemma queued_shaking: "queued_ok st con \<Longrightarrow> sc_status con \<noteq> TCP_STATUS_NO_STATUS \<Longrightarrow> shaking con \<and> sc_status con = st"
  using queued_con by (simp add: shaking_def)

lemma shaking_queued: "shaking con \<Longrightarrow> sc_status con = st \<Longrightarrow> queued_ok st con"
  by (simp add: shaking_def queuedI)

lemma MAX_pos: "x mod MAX_INCOMING_CONNECTIONS < MAX_INCOMING_CONNECTIONS"
  by (simp add: size_defs)

text \<open>A place of a queue is vacated: what was there is closed.\<close>

lemma vacate_ok:
  assumes "queued_ok st con" "st \<noteq> TCP_STATUS_NO_STATUS"
  obtains s1 where "(if sc_status con \<noteq> TCP_STATUS_NO_STATUS then kill_TCP_secure_connection srv con else Some (srv, con)) = Some (s1, zero_secure_connection)"
    "s1 = srv \<or> s1 = log_srv (Call_kill_sock (tc_sock (sc_con con))) srv"
proof (cases "sc_status con = TCP_STATUS_NO_STATUS")
  case True
  then show ?thesis using that [of srv] assms by (auto simp: queued_ok_def secure_ok_def)
next
  case False
  then show ?thesis using that kill_secure_ok [of con srv] queued_con [OF assms(1) False] by simp
qed

context relay_host
begin

lemma accept_connection_ok:
  assumes "relay_ok srv" "\<And>s. sock = Some s \<Longrightarrow> stream_socket (sk_send s) (sk_recv s) (sk_count s)"
  obtains r srv' where "accept_connection E srv sock = Some (r, srv')" "kept 0 srv srv'"
proof (cases sock)
  case None
  then show ?thesis using that [of "- 1" srv] kept_refl [OF assms(1)] by (simp add: accept_connection_def)
next
  case (Some s)
  show ?thesis
  proof (cases "te_nonblock E s \<and> te_nosigpipe E s")
    case False
    then show ?thesis using that [of "- 1" "log_srv (Call_kill_sock s) srv"] set_queue_kept(3) [OF assms(1)] Some by (auto simp: accept_connection_def)
  next
    case True
    let ?i = "unat (incoming_connection_queue_index srv) mod MAX_INCOMING_CONNECTIONS"
    note q = queue_nth(1) [OF queues [OF assms(1)] MAX_pos, of "unat (incoming_connection_queue_index srv)"]
    obtain s1 where s1: "(if sc_status (incoming_connection_queue srv ! ?i) \<noteq> TCP_STATUS_NO_STATUS then kill_TCP_secure_connection srv (incoming_connection_queue srv ! ?i)
        else Some (srv, incoming_connection_queue srv ! ?i)) = Some (s1, zero_secure_connection)" "s1 = srv \<or> s1 = log_srv (Call_kill_sock (tc_sock (sc_con (incoming_connection_queue srv ! ?i)))) srv"
      by (rule vacate_ok [OF q]) simp_all
    have k1: "kept 0 srv s1" using s1(2) kept_refl [OF assms(1)] set_queue_kept(3) [OF assms(1)] by auto
    let ?con = "zero_secure_connection\<lparr>sc_status := TCP_STATUS_CONNECTED, sc_con := (sc_con zero_secure_connection)\<lparr>tc_ns := True, tc_sock := s\<rparr>, sc_next_packet_length := 0\<rparr>"
    have c: "queued_ok TCP_STATUS_CONNECTED ?con" using new_con_ok [OF assms(2) [OF Some]] by (intro queuedI) (simp_all add: zero_secure_connection_def)
    let ?s = "(set_incoming ?i ?con s1)\<lparr>incoming_connection_queue_index := incoming_connection_queue_index s1 + 1\<rparr>"
    have ok: "relay_ok s1" using k1 by (simp add: kept_def)
    have "queues_ok ?s" using set_incoming_ok [OF queues [OF ok] c, of ?i] by (simp add: queues_ok_def)
    then have k2: "kept 0 s1 ?s" by (intro kept_same [OF ok]) (simp_all add: set_incoming_def)
    show ?thesis by (rule that [OF _ kept_trans0(1) [OF k1 k2], of "int ?i"]) (use s1(1) True Some in \<open>simp add: accept_connection_def Let_def\<close>)
  qed
qed

lemma net_accept_ok:
  assumes "relay_ok srv" "net_accept E idx srv = (sock, srv')"
  shows "kept 0 srv srv'" "\<And>s. sock = Some s \<Longrightarrow> stream_socket (sk_send s) (sk_recv s) (sk_count s)"
proof -
  show "kept 0 srv srv'" by (rule kept_same [OF assms(1)]) (use assms queues [OF assms(1)] in \<open>auto simp: net_accept_def queues_ok_def\<close>)
  show "\<And>s. sock = Some s \<Longrightarrow> stream_socket (sk_send s) (sk_recv s) (sk_count s)" using assms(2) accept by (auto simp: net_accept_def)
qed

lemma do_TCP_accept_loop_ok:
  assumes "relay_ok srv"
  obtains srv' where "do_TCP_accept_loop E idx n srv = Some srv'" "kept 0 srv srv'"
  using assms
proof (induction n arbitrary: srv thesis)
  case 0
  show ?case by (rule "0.prems"(1) [of srv]) (use "0.prems"(2) kept_refl in simp_all)
next
  case (Suc n)
  obtain sock s1 where s1: "net_accept E idx srv = (sock, s1)" by fastforce
  note a = net_accept_ok [OF Suc.prems(2) s1]
  have ok1: "relay_ok s1" using a(1) by (simp add: kept_def)
  obtain r s2 where s2: "accept_connection E s1 sock = Some (r, s2)" "kept 0 s1 s2" using accept_connection_ok [OF ok1 a(2)] by blast
  have k2: "kept 0 srv s2" "relay_ok s2" using kept_trans0(1) [OF a(1) s2(2)] by (simp_all add: kept_def)
  obtain s3 where s3: "do_TCP_accept_loop E idx n s2 = Some s3" "kept 0 s2 s3" using Suc.IH [of s2] k2(2) by blast
  show ?case
  proof (cases "r = - 1")
    case True
    show ?thesis by (rule Suc.prems(1) [of s2]) (use True s1 s2 k2 in simp_all)
  next
    case False
    show ?thesis by (rule Suc.prems(1) [of s3]) (use False s1 s2 s3 kept_trans0(1) [OF k2(1) s3(2)] in simp_all)
  qed
qed

lemma do_TCP_accept_socks_ok:
  assumes "relay_ok srv"
  obtains srv' where "do_TCP_accept_socks E ss srv = Some srv'" "kept 0 srv srv'"
  using assms
proof (induction ss arbitrary: srv thesis)
  case Nil
  show ?case by (rule Nil.prems(1) [of srv]) (use Nil.prems(2) kept_refl in simp_all)
next
  case (Cons s ss)
  obtain s1 where s1: "do_TCP_accept_loop E s MAX_INCOMING_CONNECTIONS srv = Some s1" "kept 0 srv s1" using do_TCP_accept_loop_ok [OF Cons.prems(2)] by blast
  obtain s2 where s2: "do_TCP_accept_socks E ss s1 = Some s2" "kept 0 s1 s2" using Cons.IH [of s1] s1(2) by (auto simp: kept_def)
  show ?case by (rule Cons.prems(1) [of s2]) (use s1(1) s2(1) kept_trans0(1) [OF s1(2) s2(2)] in simp_all)
qed

lemma do_incoming_ok:
  assumes "relay_ok srv" "i < MAX_INCOMING_CONNECTIONS"
  obtains r srv' where "do_incoming E srv i = Some (r, srv')" "kept 0 srv srv'"
proof -
  let ?con = "incoming_connection_queue srv ! i"
  note nth = queue_nth [OF queues [OF assms(1)] assms(2)]
  show ?thesis
  proof (cases "sc_status ?con = TCP_STATUS_CONNECTED")
    case False
    then show ?thesis using that [of "- 1" srv] kept_refl [OF assms(1)] by (simp add: do_incoming_def)
  next
    case True
    then have c: "shaking ?con" using queued_shaking [OF nth(1)] by simp
    obtain ret r con where h: "read_connection_handshake E (srv_rng srv) ?con (srv_secret_key srv) = Some (ret, r, con)" "shaking con"
      "sc_status con = (if ret = 1 then TCP_STATUS_UNCONFIRMED else TCP_STATUS_CONNECTED)"
      using read_connection_handshake_ok [OF c True, of E "srv_rng srv" "srv_secret_key srv"] unfolding shook_def by blast
    let ?s = "srv\<lparr>srv_rng := r\<rparr>"
    have k: "kept 0 srv ?s" by (rule kept_same [OF assms(1)]) (use queues [OF assms(1)] in \<open>simp_all add: queues_ok_def\<close>)
    have ok: "relay_ok ?s" using k by (simp add: kept_def)
    note run = do_incoming_def [of E srv i] True h(1)
    have zq: "kept 0 ?s (set_incoming i zero_secure_connection s)" if "kept 0 ?s s" for s
      using kept_trans0(1) [OF that set_queue_kept(1) [OF _ queued_zero]] that by (simp add: kept_def)
    consider "ret = - 1" | "ret \<noteq> - 1" "ret \<noteq> 1" | "ret = 1" by blast
    then show ?thesis
    proof cases
      case 1
      have "kill_TCP_secure_connection ?s con = Some (log_srv (Call_kill_sock (tc_sock (sc_con con))) ?s, zero_secure_connection)"
        using kill_secure_ok [of con] h(2,3) 1 by (simp add: shaking_def)
      then show ?thesis using run 1 that [OF _ kept_trans0(1) [OF k zq [OF set_queue_kept(3) [OF ok]]]] by simp
    next
      case 2
      then have "queued_ok TCP_STATUS_CONNECTED con" using shaking_queued [OF h(2)] h(3) by simp
      then show ?thesis using run 2 that [OF _ kept_trans0(1) [OF k set_queue_kept(1) [OF ok]]] by simp
    next
      case 3
      let ?j = "unat (unconfirmed_connection_queue_index srv) mod MAX_INCOMING_CONNECTIONS"
      have q: "queued_ok TCP_STATUS_UNCONFIRMED (unconfirmed_connection_queue ?s ! ?j)" using queue_nth(2) [OF queues [OF ok] MAX_pos] by simp
      obtain s1 where s1: "(if sc_status (unconfirmed_connection_queue ?s ! ?j) \<noteq> TCP_STATUS_NO_STATUS then kill_TCP_secure_connection ?s (unconfirmed_connection_queue ?s ! ?j)
          else Some (?s, unconfirmed_connection_queue ?s ! ?j)) = Some (s1, zero_secure_connection)"
        "s1 = ?s \<or> s1 = log_srv (Call_kill_sock (tc_sock (sc_con (unconfirmed_connection_queue ?s ! ?j)))) ?s"
        by (rule vacate_ok [OF q]) simp_all
      have k1: "kept 0 ?s s1" using s1(2) kept_refl [OF ok] set_queue_kept(3) [OF ok] by auto
      have uc: "queued_ok TCP_STATUS_UNCONFIRMED con" using shaking_queued [OF h(2)] h(3) 3 by simp
      let ?s2 = "set_unconfirmed ?j con s1" let ?s3 = "set_incoming i zero_secure_connection ?s2"
      let ?s4 = "?s3\<lparr>unconfirmed_connection_queue_index := unconfirmed_connection_queue_index s1 + 1\<rparr>"
      have k2: "kept 0 ?s ?s2" using kept_trans0(1) [OF k1 set_queue_kept(2) [OF _ uc]] k1 by (simp add: kept_def)
      have k3: "kept 0 ?s ?s3" by (rule zq [OF k2])
      have ok3: "relay_ok ?s3" using k3 by (simp add: kept_def)
      have k4: "kept 0 ?s3 ?s4" by (rule kept_same [OF ok3]) (use queues [OF ok3] in \<open>simp_all add: queues_ok_def\<close>)
      have res: "do_incoming E srv i = Some (int ?j, ?s4)" using run 3 s1(1)
        by (cases "sc_status (unconfirmed_connection_queue ?s ! ?j) = TCP_STATUS_NO_STATUS") (auto simp: Let_def)
      show ?thesis by (rule that [OF res kept_trans0(1) [OF k kept_trans0(1) [OF k3 k4]]])
    qed
  qed
qed

lemma do_TCP_incoming_loop_ok:
  assumes "relay_ok srv" "\<forall>i \<in> set is. i < MAX_INCOMING_CONNECTIONS"
  obtains srv' where "do_TCP_incoming_loop E is srv = Some srv'" "kept 0 srv srv'"
  using assms
proof (induction "is" arbitrary: srv thesis)
  case Nil
  show ?case by (rule Nil.prems(1) [of srv]) (use Nil.prems(2) kept_refl in simp_all)
next
  case (Cons i "is")
  obtain r s1 where s1: "do_incoming E srv i = Some (r, s1)" "kept 0 srv s1" using do_incoming_ok [OF Cons.prems(2)] Cons.prems(3) by (metis list.set_intros(1))
  obtain s2 where s2: "do_TCP_incoming_loop E is s1 = Some s2" "kept 0 s1 s2" using Cons.IH [of s1] s1(2) Cons.prems(3) by (auto simp: kept_def)
  show ?case by (rule Cons.prems(1) [of s2]) (use s1(1) s2(1) kept_trans0(1) [OF s1(2) s2(2)] in simp_all)
qed

lemma do_TCP_server_ok:
  assumes "relay_ok srv" "room MAX_INCOMING_CONNECTIONS srv" "\<not> te_use_epoll E"
  obtains srv' where "do_TCP_server E mt srv = Some srv'" "kept MAX_INCOMING_CONNECTIONS srv srv'"
proof -
  obtain s1 where s1: "do_TCP_accept_new E srv = Some s1" "kept 0 srv s1" using do_TCP_accept_socks_ok [OF assms(1)] unfolding do_TCP_accept_new_def by blast
  have ok1: "relay_ok s1" using s1(2) by (simp add: kept_def)
  obtain s2 where s2: "do_TCP_incoming E s1 = Some s2" "kept 0 s1 s2" unfolding do_TCP_incoming_def
    by (rule do_TCP_incoming_loop_ok [OF ok1, of "[0..<MAX_INCOMING_CONNECTIONS]"]) auto
  have k2: "kept 0 srv s2" using kept_trans0(1) [OF s1(2) s2(2)] .
  have ok2: "relay_ok s2" "room MAX_INCOMING_CONNECTIONS s2" using k2 room_grows [of 0 MAX_INCOMING_CONNECTIONS srv s2] assms(2) by (simp_all add: kept_def)
  obtain s3 where s3: "do_TCP_unconfirmed E mt s2 = Some s3" "kept MAX_INCOMING_CONNECTIONS s2 s3" unfolding do_TCP_unconfirmed_def
    by (rule do_TCP_unconfirmed_loop_ok [OF ok2(1), of "[0..<MAX_INCOMING_CONNECTIONS]" mt]) (use ok2(2) in auto)
  have k3: "kept MAX_INCOMING_CONNECTIONS srv s3" using kept_trans0(1) [OF k2 s3(2)] .
  obtain s4 where s4: "do_TCP_confirmed E mt s3 = Some s4" "stable 0 s3 s4"
    using do_TCP_confirmed_loop_ok [of s3 mt "[0..<length (accepted_connection_array s3)]"] assms(3) k3 by (auto simp: kept_def do_TCP_confirmed_def)
  show ?thesis by (rule that [OF _ kept_trans0(2) [OF k3 stable_kept [OF s4(2)]]]) (use assms(3) s1(1) s2(1) s3(1) s4(1) in \<open>simp add: do_TCP_server_def\<close>)
qed

end

end
