(* ===== verification/TCP_Relay_Run.thy ===== *)
theory TCP_Relay_Run
  imports TCP_Work
begin

text \<open>
  The TCP relay over time: who is linked, where packets and replies go, and what happens if an event of \<^verbatim>\<open>epoll\<close> is out of date.
\<close>

section \<open>Start\<close>

lemma new_server_ok:
  assumes "relay_host E" "new_TCP_server E r ipv6 ports sk onion fwd = Some srv"
  shows "relay_ok srv" "keys_of srv = Map.empty" "accepted_connection_array srv = []" "counter srv = 0"
proof -
  have mem: "malloc_ok (te_plat E) = (\<lambda>_. True)" using relay_host.memory [OF assms(1)] .
  let ?l = "snd (bs_list_init (te_plat E) (te_fill E) CRYPTO_PUBLIC_KEY_SIZE 8)"
  have s: "incoming_connection_queue srv = replicate MAX_INCOMING_CONNECTIONS zero_secure_connection"
    "unconfirmed_connection_queue srv = replicate MAX_INCOMING_CONNECTIONS zero_secure_connection" "num_accepted_connections srv = 0" "accepted_key_list srv = ?l"
    and A: "accepted_connection_array srv = []" "counter srv = 0"
    using assms(2) by (auto simp: new_TCP_server_def split: if_splits prod.splits)
  show "accepted_connection_array srv = []" "counter srv = 0" by fact+
  have acc: "accepted srv i = None" for i using A(1) by (simp add: accepted_def)
  show k: "keys_of srv = Map.empty" by (simp add: keys_of_def acc fun_eq_iff)
  have l: "bs_list_init (te_plat E) (te_fill E) CRYPTO_PUBLIC_KEY_SIZE 8 = (1, ?l)"
    by (simp add: bs_list_init_def resize_def Let_def mem size_defs)
  have ix: "index_ok Map.empty ?l" using bs_list_init_inv [OF l] by (simp add: index_ok_def size_defs)
  have "links_ok Map.empty (slots_of srv)"
    by (rule links_okI) (simp_all add: slots_of_def acc slots_ok_def used_def zero_secure_conn_def)
  then show "relay_ok srv" using ix s A by (simp add: relay_ok_def relay_base_def array_ok_def queues_ok_def idents_ok_def k list_all_length idents_of_def acc)
qed

section \<open>Replies\<close>

lemma con_id_round_trip:
  assumes "i < 2 ^ 32"
  shows "ip_port_to_con_id srv (con_id_to_ip_port (of_nat i) x) = (if i < length (accepted_connection_array srv) \<and> idents_of srv i = x then Some i else None)"
proof -
  have a: "take 4 (host_bytes 4 (of_nat i :: u32) @ replicate 4 0 @ host_bytes 8 x) = host_bytes 4 (of_nat i :: u32)"
    "slice 8 8 (host_bytes 4 (of_nat i :: u32) @ replicate 4 0 @ host_bytes 8 x) = host_bytes 8 x" by (simp_all add: slice_def)
  have "unat (of_nat i :: u32) = i" using assms by (simp add: unat_of_nat take_bit_eq_mod)
  then show ?thesis by (simp add: ip_port_to_con_id_def con_id_to_ip_port_def a host_word_host_bytes Let_def idents_of_def accepted_def net_family_is_tcp_client_def)
qed

lemma client_at:
  assumes "relay_ok srv" "idents_of srv i = x" "x \<noteq> 0"
  obtains k where "keys_of srv i = Some k" "i < length (accepted_connection_array srv)"
proof -
  have "keys_of srv i \<noteq> None" using assms by (auto simp: relay_ok_def relay_base_def idents_ok_def)
  then show ?thesis using that keys_of_dom by blast
qed

lemma onion_reply:
  assumes "relay_ok srv" "i < 2 ^ 32" "x \<noteq> 0"
  shows "handle_onion_recv_1 E srv (con_id_to_ip_port (of_nat i) x) data =
    (if idents_of srv i = x then do { (r, srv) \<leftarrow> write_accepted E i (TCP_PACKET_ONION_RESPONSE # data) False srv; Some (if r \<noteq> 1 then 1 else 0, srv) } else Some (1, srv))"
  using client_at [OF assms(1) _ assms(3), of i] by (auto simp: handle_onion_recv_1_def con_id_round_trip [OF assms(2)])

lemma forward_reply_tcp:
  assumes "relay_ok srv" "i < 2 ^ 32" "x \<noteq> 0"
  shows "handle_forward_reply_tcp E srv (tcp_sendback_data (of_nat i) x) data =
    (if idents_of srv i = x then do { (r, srv) \<leftarrow> write_accepted E i (TCP_PACKET_FORWARDING # data) False srv; Some (r = 1, srv) } else Some (False, srv))"
proof -
  have l: "length (tcp_sendback_data (of_nat i) x) = 13" "hd (tcp_sendback_data (of_nat i) x) = SENDBACK_TCP"
    by (simp_all add: tcp_sendback_data_def net_pack_u32_def net_pack_u64_def net_pack_u16_def)
  have d: "drop 1 (tcp_sendback_data (of_nat i) x) = net_pack_u32 (of_nat i) @ net_pack_u64 x @ []"
    "drop (1 + 4) (tcp_sendback_data (of_nat i) x) = net_pack_u64 x @ []"
    by (simp_all add: tcp_sendback_data_def net_pack_u32_def net_pack_u16_def)
  have u: "unat (of_nat i :: u32) = i" using assms(2) by (simp add: unat_of_nat take_bit_eq_mod)
  have "handle_forward_reply_tcp E srv (tcp_sendback_data (of_nat i) x) data =
      (case accepted srv i of None \<Rightarrow> Some (False, srv)
       | Some con \<Rightarrow> if sc_identifier con \<noteq> x then Some (False, srv)
           else do { (r, srv) \<leftarrow> write_accepted E i (TCP_PACKET_FORWARDING # data) False srv; Some (r = 1, srv) })"
    unfolding handle_forward_reply_tcp_def by (simp only: l d unpack_pack_u32 unpack_pack_u64 u Let_def) simp
  then show ?thesis using client_at [OF assms(1) _ assms(3), of i] assms(3) by (auto simp: idents_of_def split: option.splits)
qed

section \<open>Events\<close>

definition vacant :: "TCP_Server \<Rightarrow> nat \<Rightarrow> bool" where
  "vacant srv i \<longleftrightarrow> i < length (accepted_connection_array srv) \<and> keys_of srv i = None"

text \<open>Reading at a free place goes through the null pointer of the zeroed entry.\<close>

lemma recv_vacant:
  assumes "relay_ok srv" "vacant srv i"
  shows "do_confirmed_recv E i srv = None"
proof -
  obtain con where con: "accepted srv i = Some con" using assms(2) by (simp add: vacant_def accepted_def)
  have "con = zero_secure_connection" using nonclient [OF relay_index(2) [OF assms(1)] con] assms(2) by (simp add: vacant_def)
  then have "tcp_process_secure_packet E srv i = None"
    using con by (simp add: tcp_process_secure_packet_def read_secure_def zero_secure_connection_def zero_tcp_connection_def)
  then show ?thesis by (simp add: do_confirmed_recv.simps)
qed

lemma recv_client:
  assumes "relay_ok srv" "do_confirmed_recv E i srv = Some srv'"
  obtains k where "keys_of srv i = Some k"
proof -
  have "\<not> vacant srv i" using recv_vacant [OF assms(1)] assms(2) by force
  moreover have "i < length (accepted_connection_array srv)"
  proof (rule ccontr)
    assume "\<not> i < length (accepted_connection_array srv)"
    then have "tcp_process_secure_packet E srv i = None" by (simp add: tcp_process_secure_packet_def accepted_def)
    then show False using assms(2) by (simp add: do_confirmed_recv.simps)
  qed
  ultimately show ?thesis using that by (auto simp: vacant_def)
qed

lemma kill_queued_kept:
  assumes "relay_ok srv"
  shows "kill_incoming i srv = Some srv' \<Longrightarrow> kept 0 srv srv'" "kill_unconfirmed i srv = Some srv' \<Longrightarrow> kept 0 srv srv'"
proof -
  have kill: "con' = zero_secure_connection \<and> (\<exists>s. s1 = log_srv (Call_kill_sock s) srv)"
    if "kill_TCP_secure_connection srv con = Some (s1, con')" "queued_ok st con" "st \<noteq> TCP_STATUS_NO_STATUS" for con st s1 con'
  proof -
    have "con \<noteq> zero_secure_connection" using that(1) by (auto simp: kill_TCP_secure_connection_def zero_secure_connection_def zero_tcp_connection_def)
    then show ?thesis using that kill_secure_ok [of con srv] by (auto simp: queued_ok_def secure_ok_def)
  qed
  note z = set_queue_kept(1,2) [OF _ queued_zero] and l = set_queue_kept(3) [OF assms]
  have both: "kept 0 srv (set_incoming i zero_secure_connection (log_srv c srv))" "kept 0 srv (set_unconfirmed i zero_secure_connection (log_srv c srv))" for c
    using kept_trans0(1) [OF l z(1)] kept_trans0(1) [OF l z(2)] assms by simp_all
  note q = queue_nth(1,2) [OF queues [OF assms]]
  show "kept 0 srv srv'" if "kill_incoming i srv = Some srv'"
    using that q(1) [of i] both(1) by (auto simp: kill_incoming_def bind_eq_Some_conv split: if_splits dest!: kill)
  show "kept 0 srv srv'" if "kill_unconfirmed i srv = Some srv'"
    using that q(2) [of i] both(2) by (auto simp: kill_unconfirmed_def bind_eq_Some_conv split: if_splits dest!: kill)
qed

lemma epoll_ctl_kept:
  assumes "relay_ok srv" "epoll_ctl E kind i srv = (ok, srv')"
  shows "kept 0 srv srv'"
  by (rule kept_same [OF assms(1)]) (use assms(2) queues [OF assms(1)] in \<open>auto simp: epoll_ctl_def log_srv_def queues_ok_def\<close>)

context relay_host
begin

lemma epoll_accept_kept:
  assumes "epoll_accept E idx srv = Some srv'" "relay_ok srv"
  shows "kept 0 srv srv'"
proof -
  have "E = E \<longrightarrow> relay_ok srv \<longrightarrow> kept 0 srv srv'"
  proof (rule epoll_accept.raw_induct [where P = "\<lambda>E' _ srv s. E' = E \<longrightarrow> relay_ok srv \<longrightarrow> kept 0 srv s", OF _ assms(1)], intro impI)
    fix loop E' idx srv srv'
    assume IH: "\<And>E' idx srv s. loop E' idx srv = Some s \<Longrightarrow> E' = E \<longrightarrow> relay_ok srv \<longrightarrow> kept 0 srv s"
      and step: "(case net_accept E' idx srv of (None, srv) \<Rightarrow> Some srv
        | (Some sock_new, srv) \<Rightarrow> do {
            (index_new, srv) \<leftarrow> accept_connection E' srv (Some sock_new);
            if index_new = - 1 then loop E' idx srv
            else do {
              let (ok, srv) = epoll_ctl E' TCP_SOCKET_INCOMING (nat index_new) srv;
              srv \<leftarrow> (if ok then Some srv else kill_incoming (nat index_new) srv);
              loop E' idx srv
            }
          }) = Some srv'"
      and E': "E' = E" and ok: "relay_ok srv"
    have IH: "kept 0 a c" if "kept 0 a b" "loop E idx b = Some c" for a b c
      using IH [OF that(2)] kept_trans0(1) [OF that(1)] that(1) by (simp add: kept_def)
    obtain sock s1 where a: "net_accept E idx srv = (sock, s1)" by fastforce
    note k1 = net_accept_ok [OF ok a]
    have ok1: "relay_ok s1" using k1(1) by (simp add: kept_def)
    obtain r s2 where r: "accept_connection E s1 sock = Some (r, s2)" "kept 0 s1 s2" by (rule accept_connection_ok [OF ok1 k1(2)])
    have k2: "kept 0 srv s2" "relay_ok s2" using kept_trans0(1) [OF k1(1) r(2)] by (simp_all add: kept_def)
    obtain b s3 where e: "epoll_ctl E TCP_SOCKET_INCOMING (nat r) s2 = (b, s3)" by fastforce
    have k3: "kept 0 srv s3" "relay_ok s3" using kept_trans0(1) [OF k2(1) epoll_ctl_kept [OF k2(2) e]] by (simp_all add: kept_def)
    have k4: "kept 0 srv s4" if "kill_incoming (nat r) s3 = Some s4" for s4 using kept_trans0(1) [OF k3(1) kill_queued_kept(1) [OF k3(2) that]] .
    show "kept 0 srv srv'"
    proof (cases sock)
      case None
      then show ?thesis using step a k1(1) by (simp add: E')
    next
      case (Some sock_new)
      then show ?thesis using step a r(1) e IH [OF k2(1)] IH [OF k3(1)] IH [OF k4] by (auto simp: E' bind_eq_Some_conv split: if_splits)
    qed
  qed
  then show ?thesis using assms(2) by simp
qed

lemma epoll_incoming_kept:
  assumes "epoll_incoming E i srv = Some srv'" "relay_ok srv"
  shows "kept 0 srv srv'"
proof -
  have i: "i < MAX_INCOMING_CONNECTIONS" using assms(1) by (auto simp: epoll_incoming_def bind_eq_Some_conv split: if_splits)
  obtain r s1 where s1: "do_incoming E srv i = Some (r, s1)" "kept 0 srv s1" by (rule do_incoming_ok [OF assms(2) i])
  obtain b s2 where e: "epoll_ctl E TCP_SOCKET_UNCONFIRMED (nat r) s1 = (b, s2)" by fastforce
  have k2: "kept 0 srv s2" "relay_ok s2" using kept_trans0(1) [OF s1(2) epoll_ctl_kept [OF _ e]] s1(2) by (simp_all add: kept_def)
  have "kept 0 srv s3" if "kill_unconfirmed (nat r) s2 = Some s3" for s3 using kept_trans0(1) [OF k2(1) kill_queued_kept(2) [OF k2(2) that]] .
  then show ?thesis using assms(1) i s1 e k2(1) by (auto simp: epoll_incoming_def split: if_splits)
qed

lemma epoll_unconfirmed_kept:
  assumes "epoll_unconfirmed E mt i srv = Some srv'" "relay_ok srv" "room 1 srv"
  shows "kept 1 srv srv'"
proof -
  have i: "i < MAX_INCOMING_CONNECTIONS" using assms(1) by (auto simp: epoll_unconfirmed_def bind_eq_Some_conv split: if_splits)
  obtain r s1 where s1: "do_unconfirmed E mt srv i = Some (r, s1)" "kept 1 srv s1" by (rule do_unconfirmed_ok [OF assms(2,3) i])
  obtain b s2 where e: "epoll_ctl E TCP_SOCKET_CONFIRMED (nat r) s1 = (b, s2)" by fastforce
  have k2: "kept 1 srv s2" "relay_ok s2" using kept_trans0(2) [OF s1(2) epoll_ctl_kept [OF _ e]] s1(2) by (simp_all add: kept_def)
  obtain x s3 where s3: "kill_accepted E s2 (nat r) = Some (x, s3)" "stable 0 s2 s3" by (rule kill_stable [OF k2(2)])
  have "kept 1 srv s3" using kept_trans0(2) [OF k2(1) stable_kept [OF s3(2)]] .
  then show ?thesis using assms(1) i s1 e k2(1) s3(1) by (auto simp: epoll_unconfirmed_def split: if_splits)
qed

text \<open>An event whose handling does not crash keeps the relay in order, also if it is out of date.\<close>

lemma epoll_event_kept:
  assumes "epoll_handle_event E mt ev srv = Some srv'" "relay_ok srv" "room 1 srv"
  shows "kept 1 srv srv'"
proof -
  obtain x s1 where kill: "kill_accepted E srv (ev_index ev) = Some (x, s1)" "stable 0 srv s1" by (rule kill_stable [OF assms(2)])
  have recv: "kept 0 srv s" if r: "do_confirmed_recv E (ev_index ev) srv = Some s" for s
  proof -
    obtain k where k: "keys_of srv (ev_index ev) = Some k" by (rule recv_client [OF assms(2) r])
    show ?thesis by (rule do_confirmed_recv_ok [OF assms(2) k]) (use r in \<open>simp add: kept_def\<close>)
  qed
  have "kept 0 srv srv' \<or> kept 1 srv srv'"
    using assms(1) kept_refl [OF assms(2)] kill_queued_kept [OF assms(2)] stable_kept [OF kill(2)] kill(1) recv
      epoll_accept_kept [OF _ assms(2)] epoll_incoming_kept [OF _ assms(2)] epoll_unconfirmed_kept [OF _ assms(2,3)]
    by (cases "ev_kind ev") (auto simp: epoll_handle_event_def split: if_splits)
  then show ?thesis using kept_weaken by auto
qed

lemma do_TCP_confirmed_kept:
  assumes "relay_ok srv"
  obtains srv' where "do_TCP_confirmed E mt srv = Some srv'" "kept 0 srv srv'"
proof -
  let ?s = "if te_use_epoll E then srv\<lparr>last_run_pinged := mono_time_get mt\<rparr> else srv"
  have k: "kept 0 srv ?s" by (rule kept_same [OF assms]) (use queues [OF assms] in \<open>simp_all add: queues_ok_def\<close>)
  then have ok: "relay_ok ?s" by (simp add: kept_def)
  obtain s1 where "do_TCP_confirmed_loop E mt [0..<length (accepted_connection_array srv)] ?s = Some s1" "stable 0 ?s s1"
    by (rule do_TCP_confirmed_loop_ok [OF ok])
  then show ?thesis using that kept_refl [OF assms] kept_trans0(1) [OF k] stable_kept by (cases "te_use_epoll E \<and> last_run_pinged srv = mono_time_get mt") (auto simp: do_TCP_confirmed_def)
qed

end

section \<open>Runs\<close>

text \<open>The calls from outside: the periodic work, and answers that the onion and the forwarding module hand back with an address that the relay made.
  With \<^verbatim>\<open>epoll\<close> the periodic work is a call of \<^verbatim>\<open>epoll_wait\<close>, any events, and the loop over the clients.\<close>

inductive relay_run :: "tcp_env \<Rightarrow> TCP_Server \<Rightarrow> TCP_Server \<Rightarrow> bool" for E where
  run_refl: "relay_run E srv srv"
| run_work: "relay_run E a srv \<Longrightarrow> \<not> te_use_epoll E \<Longrightarrow> room MAX_INCOMING_CONNECTIONS srv \<Longrightarrow> do_TCP_server E mt srv = Some srv' \<Longrightarrow> relay_run E a srv'"
| run_wait: "relay_run E a srv \<Longrightarrow> relay_run E a (srv\<lparr>host_calls := n\<rparr>)"
| run_event: "relay_run E a srv \<Longrightarrow> room 1 srv \<Longrightarrow> epoll_handle_event E mt ev srv = Some srv' \<Longrightarrow> relay_run E a srv'"
| run_confirmed: "relay_run E a srv \<Longrightarrow> do_TCP_confirmed E mt srv = Some srv' \<Longrightarrow> relay_run E a srv'"
| run_onion: "relay_run E a srv \<Longrightarrow> i < 2 ^ 32 \<Longrightarrow> x \<noteq> 0 \<Longrightarrow> handle_onion_recv_1 E srv (con_id_to_ip_port (of_nat i) x) data = Some (r, srv') \<Longrightarrow> relay_run E a srv'"
| run_forward: "relay_run E a srv \<Longrightarrow> i < 2 ^ 32 \<Longrightarrow> x \<noteq> 0 \<Longrightarrow> handle_forward_reply_tcp E srv (tcp_sendback_data (of_nat i) x) data = Some (b, srv') \<Longrightarrow> relay_run E a srv'"

context relay_host
begin

lemma reply_ok:
  assumes "relay_ok srv" "x \<noteq> 0" "idents_of srv i = x"
  obtains r srv' where "write_accepted E i data False srv = Some (r, srv')" "relay_ok srv'" "ages srv srv'"
proof -
  obtain k where "keys_of srv i = Some k" using client_at [OF assms(1,3,2)] by blast
  then show ?thesis using write_ok_relay [OF assms(1), of i k data False] that quiet_grows unfolding grows_def by metis
qed

lemma onion_reply_ok:
  assumes "relay_ok srv" "i < 2 ^ 32" "x \<noteq> 0"
  obtains r srv' where "handle_onion_recv_1 E srv (con_id_to_ip_port (of_nat i) x) data = Some (r, srv')" "relay_ok srv'" "ages srv srv'"
proof (cases "idents_of srv i = x")
  case True
  obtain r srv' where "write_accepted E i (TCP_PACKET_ONION_RESPONSE # data) False srv = Some (r, srv')" "relay_ok srv'" "ages srv srv'" by (rule reply_ok [OF assms(1,3) True])
  then show ?thesis using that [of "if r \<noteq> 1 then 1 else 0" srv'] True by (simp add: onion_reply [OF assms])
next
  case False
  then show ?thesis using that [of 1 srv] assms(1) by (simp add: onion_reply [OF assms])
qed

lemma forward_reply_ok:
  assumes "relay_ok srv" "i < 2 ^ 32" "x \<noteq> 0"
  obtains b srv' where "handle_forward_reply_tcp E srv (tcp_sendback_data (of_nat i) x) data = Some (b, srv')" "relay_ok srv'" "ages srv srv'"
proof (cases "idents_of srv i = x")
  case True
  obtain r srv' where "write_accepted E i (TCP_PACKET_FORWARDING # data) False srv = Some (r, srv')" "relay_ok srv'" "ages srv srv'" by (rule reply_ok [OF assms(1,3) True])
  then show ?thesis using that [of "r = 1" srv'] True by (simp add: forward_reply_tcp [OF assms])
next
  case False
  then show ?thesis using that [of False srv] assms(1) by (simp add: forward_reply_tcp [OF assms])
qed

lemma run_ok:
  assumes "relay_run E a srv" "relay_ok a"
  shows "relay_ok srv \<and> ages a srv"
  using assms
proof (induction rule: relay_run.induct)
  case (run_work a srv mt srv')
  obtain s where "do_TCP_server E mt srv = Some s" "kept MAX_INCOMING_CONNECTIONS srv s" using do_TCP_server_ok [of srv mt] run_work by blast
  then show ?case using run_work ages_trans by (auto simp: kept_def grows_def)
next
  case (run_wait a srv n)
  then have ok: "relay_ok srv" by simp
  have "kept 0 srv (srv\<lparr>host_calls := n\<rparr>)" by (rule kept_same [OF ok]) (use queues [OF ok] in \<open>simp_all add: queues_ok_def\<close>)
  then show ?case using run_wait ages_trans by (auto simp: kept_def grows_def)
next
  case (run_event a srv mt ev srv')
  then have "kept 1 srv srv'" using epoll_event_kept by blast
  then show ?case using run_event ages_trans by (auto simp: kept_def grows_def)
next
  case (run_confirmed a srv mt srv')
  then obtain s where "do_TCP_confirmed E mt srv = Some s" "kept 0 srv s" using do_TCP_confirmed_kept [of srv mt] by blast
  then show ?case using run_confirmed ages_trans by (auto simp: kept_def grows_def)
next
  case (run_onion a srv i x data r srv')
  then show ?case using onion_reply_ok [of srv i x data] ages_trans by (metis option.inject prod.inject)
next
  case (run_forward a srv i x data b srv')
  then show ?case using forward_reply_ok [of srv i x data] ages_trans by (metis option.inject prod.inject)
qed simp

end

text \<open>The periodic work with \<^verbatim>\<open>epoll\<close> is such a run, as long as there is room.\<close>

lemma epoll_events_run:
  assumes "epoll_handle_events E mt evs srv = Some srv'" "relay_run E a srv" "\<And>s. relay_run E a s \<Longrightarrow> room 1 s"
  shows "relay_run E a srv'"
  using assms(1,2)
proof (induction evs arbitrary: srv)
  case (Cons ev evs)
  then obtain s1 where s1: "epoll_handle_event E mt ev srv = Some s1" "epoll_handle_events E mt evs s1 = Some srv'" by (auto simp: bind_eq_Some_conv)
  show ?case by (rule Cons.IH [OF s1(2) run_event [OF Cons.prems(2) assms(3) [OF Cons.prems(2)] s1(1)]])
qed simp

lemma epoll_loop_run:
  assumes "do_TCP_epoll E mt srv = Some srv'" "relay_run E a srv" "\<And>s. relay_run E a s \<Longrightarrow> room 1 s"
  shows "relay_run E a srv'"
proof -
  have "E = E \<longrightarrow> relay_run E a srv \<longrightarrow> relay_run E a srv'"
  proof (rule do_TCP_epoll.raw_induct [where P = "\<lambda>E' _ srv s. E' = E \<longrightarrow> relay_run E a srv \<longrightarrow> relay_run E a s", OF _ assms(1)], intro impI)
    fix loop E' mt srv srv'
    assume IH: "\<And>E' mt srv s. loop E' mt srv = Some s \<Longrightarrow> E' = E \<longrightarrow> relay_run E a srv \<longrightarrow> relay_run E a s"
      and step: "do { (more, srv) \<leftarrow> tcp_epoll_process E' mt srv; if more then loop E' mt srv else Some srv } = Some srv'"
      and run: "E' = E" "relay_run E a srv"
    obtain more s1 where s1: "tcp_epoll_process E mt srv = Some (more, s1)" "(if more then loop E mt s1 else Some s1) = Some srv'"
      using step run(1) by (auto simp: bind_eq_Some_conv)
    have "relay_run E a s1" using s1(1) epoll_events_run [OF _ run_wait [OF run(2)] assms(3)] by (auto simp: tcp_epoll_process_def Let_def bind_eq_Some_conv)
    then show "relay_run E a srv'" using s1(2) IH by (auto split: if_splits)
  qed
  then show ?thesis using assms(2) by simp
qed

lemma epoll_work_run:
  assumes "te_use_epoll E" "do_TCP_server E mt srv = Some srv'" "relay_run E a srv" "\<And>s. relay_run E a s \<Longrightarrow> room 1 s"
  shows "relay_run E a srv'"
proof -
  obtain s where s: "do_TCP_epoll E mt srv = Some s" "do_TCP_confirmed E mt s = Some srv'" using assms(1,2) by (auto simp: do_TCP_server_def bind_eq_Some_conv)
  show ?thesis by (rule run_confirmed [OF epoll_loop_run [OF s(1) assms(3,4)] s(2)])
qed

lemma linked_iff:
  assumes "links_ok kf s" "kf i = Some ki" "kf j = Some kj"
  shows "points_to (s i n) j m \<and> points_to (s j m) i n \<longleftrightarrow> used (s i n) \<and> sn_public_key (s i n) = kj \<and> used (s j m) \<and> sn_public_key (s j m) = ki"
proof
  assume p: "points_to (s i n) j m \<and> points_to (s j m) i n"
  then have "sn_status (s i n) = 2" by (simp add: points_to_def)
  then obtain j' m' where j: "points_to (s i n) j' m'" "kf j' = Some (sn_public_key (s i n))" "kf i = Some (sn_public_key (s j' m'))" using links_linked [OF assms(1)] by metis
  then have "j' = j" "m' = m" using p by (simp_all add: points_to_def)
  then show "used (s i n) \<and> sn_public_key (s i n) = kj \<and> used (s j m) \<and> sn_public_key (s j m) = ki" using j p assms(2,3) points_to_used by auto
next
  assume "used (s i n) \<and> sn_public_key (s i n) = kj \<and> used (s j m) \<and> sn_public_key (s j m) = ki"
  then show "points_to (s i n) j m \<and> points_to (s j m) i n" using links_mutual [OF assms(1), of i n j m] links_mutual [OF assms(1), of j m i n] assms(2,3) by simp
qed

text \<open>Packets for slots are told apart from all others by their first byte.\<close>

lemma slot_packet:
  assumes "array_ok srv" "keys_of srv i = Some ki" "n < NUM_CLIENT_CONNECTIONS"
  shows "handle_TCP_packet E srv i ((of_nat n + NUM_RESERVED_PORTS) # payload) =
    (let c = slots_of srv i n in if sn_status c = 0 then Some (- 1, srv) else if sn_status c \<noteq> 2 then Some (0, srv)
     else do { (ret, srv) \<leftarrow> write_accepted E (unat (sn_index c)) ((sn_other_id c + NUM_RESERVED_PORTS) # payload) False srv; Some (if ret = - 1 then - 1 else 0, srv) })"
proof -
  obtain con where con: "accepted srv i = Some con" using assms(2) by (auto simp: keys_of_Some)
  let ?t = "of_nat n + NUM_RESERVED_PORTS :: byte"
  have n: "unat (of_nat n :: byte) = n" using assms(3) by (simp add: unat_of_nat take_bit_eq_mod size_defs)
  have t: "unat ?t = n + 16" using assms(3) n by (simp add: unat_word_ariths(1) size_defs)
  have ne: "?t \<noteq> b" if "unat b < 16" for b :: byte using that t by auto
  have sp: "?t \<noteq> TCP_PACKET_ROUTING_REQUEST" "?t \<noteq> TCP_PACKET_CONNECTION_NOTIFICATION" "?t \<noteq> TCP_PACKET_DISCONNECT_NOTIFICATION" "?t \<noteq> TCP_PACKET_PING" "?t \<noteq> TCP_PACKET_PONG"
    "?t \<noteq> TCP_PACKET_OOB_SEND" "?t \<noteq> TCP_PACKET_ONION_REQUEST" "?t \<noteq> TCP_PACKET_ONION_RESPONSE" "?t \<noteq> TCP_PACKET_FORWARD_REQUEST" "?t \<noteq> TCP_PACKET_FORWARDING"
    by (rule ne; simp add: size_defs)+
  have "\<not> ?t < NUM_RESERVED_PORTS" unfolding word_less_nat_alt t by (simp add: size_defs)
  moreover have "?t - NUM_RESERVED_PORTS = of_nat n" by simp
  moreover have "get_conn con n = Some (slots_of srv i n)" using con assms(3) by (simp add: get_conn_def slots_of_def)
  ultimately show ?thesis using con sp n assms(3) by (simp add: handle_TCP_packet_def Let_def)
qed

section \<open>Properties\<close>

text \<open>C4: As long as its array of clients can grow, the periodic work of a TCP relay without \<^verbatim>\<open>epoll\<close> always ends, and neither it nor the delivery of replies leaves an
  array or follows a null or dangling pointer. At any time two clients are linked, with both slots pointing at each other, exactly if each has asked for the key of the other.\<close>

theorem relay_links_mutual:
  assumes "relay_host E" "\<not> te_use_epoll E" "new_TCP_server E rnd ipv6 ports sk onion fwd = Some s0" "relay_run E s0 srv"
  shows "relay_ok srv \<and> (room MAX_INCOMING_CONNECTIONS srv \<longrightarrow> (\<exists>srv'. do_TCP_server E mt srv = Some srv')) \<and>
    (i < 2 ^ 32 \<and> x \<noteq> 0 \<longrightarrow> (\<exists>y. handle_onion_recv_1 E srv (con_id_to_ip_port (of_nat i) x) data = Some y) \<and>
       (\<exists>y. handle_forward_reply_tcp E srv (tcp_sendback_data (of_nat i) x) data = Some y)) \<and>
    (keys_of srv i = Some ki \<and> keys_of srv j = Some kj \<longrightarrow>
       (points_to (slots_of srv i n) j m \<and> points_to (slots_of srv j m) i n \<longleftrightarrow>
        used (slots_of srv i n) \<and> sn_public_key (slots_of srv i n) = kj \<and> used (slots_of srv j m) \<and> sn_public_key (slots_of srv j m) = ki))"
proof -
  have ok: "relay_ok srv" using relay_host.run_ok [OF assms(1,4) new_server_ok(1) [OF assms(1,3)]] by simp
  have "\<exists>srv'. do_TCP_server E mt srv = Some srv'" if "room MAX_INCOMING_CONNECTIONS srv"
    using relay_host.do_TCP_server_ok [OF assms(1) ok that assms(2), of mt] by metis
  moreover have "(\<exists>y. handle_onion_recv_1 E srv (con_id_to_ip_port (of_nat i) x) data = Some y) \<and> (\<exists>y. handle_forward_reply_tcp E srv (tcp_sendback_data (of_nat i) x) data = Some y)"
    if "i < 2 ^ 32" "x \<noteq> 0"
    using relay_host.onion_reply_ok [OF assms(1) ok that, of data] relay_host.forward_reply_ok [OF assms(1) ok that, of data] by metis
  moreover have "points_to (slots_of srv i n) j m \<and> points_to (slots_of srv j m) i n \<longleftrightarrow>
        used (slots_of srv i n) \<and> sn_public_key (slots_of srv i n) = kj \<and> used (slots_of srv j m) \<and> sn_public_key (slots_of srv j m) = ki"
    if k: "keys_of srv i = Some ki" "keys_of srv j = Some kj"
    using linked_iff [OF relay_index(4) [OF ok] k] .
  ultimately show ?thesis using ok by blast
qed

text \<open>C10: A packet that a client sends on a slot it got for a key is passed on to the client with that key, under the number of the slot which that client has for the sender. If
  there is no such client, or it has not asked for the sender, the packet is dropped and nothing changes.\<close>

theorem relay_passes_packets:
  assumes ok: "relay_ok srv" and "keys_of srv i = Some ki" "used (slots_of srv i n)" "sn_public_key (slots_of srv i n) = kj"
  shows "(\<forall>j m. keys_of srv j = Some kj \<and> used (slots_of srv j m) \<and> sn_public_key (slots_of srv j m) = ki \<longrightarrow>
      handle_TCP_packet E srv i ((of_nat n + NUM_RESERVED_PORTS) # payload) =
        do { (ret, srv) \<leftarrow> write_accepted E j ((of_nat m + NUM_RESERVED_PORTS) # payload) False srv; Some (if ret = - 1 then - 1 else 0, srv) }) \<and>
    ((\<nexists>j m. keys_of srv j = Some kj \<and> used (slots_of srv j m) \<and> sn_public_key (slots_of srv j m) = ki) \<longrightarrow>
      handle_TCP_packet E srv i ((of_nat n + NUM_RESERVED_PORTS) # payload) = Some (0, srv))"
proof -
  note l = relay_index(4) [OF ok]
  note run = slot_packet [OF relay_index(2) [OF ok] assms(2) slot_used [OF links_slots [OF l] assms(3), THEN conjunct1], of E payload]
  have "handle_TCP_packet E srv i ((of_nat n + NUM_RESERVED_PORTS) # payload) =
      do { (ret, srv) \<leftarrow> write_accepted E j ((of_nat m + NUM_RESERVED_PORTS) # payload) False srv; Some (if ret = - 1 then - 1 else 0, srv) }"
    if "keys_of srv j = Some kj" "used (slots_of srv j m)" "sn_public_key (slots_of srv j m) = ki" for j m
  proof -
    have p: "points_to (slots_of srv i n) j m" using links_mutual [OF l assms(3) that(2)] that assms(2,4) by simp
    have "of_nat m = sn_other_id (slots_of srv i n)" using p unfolding points_to_def by (metis of_nat_unat ucast_id)
    then show ?thesis unfolding run using p by (simp add: points_to_def)
  qed
  moreover have "handle_TCP_packet E srv i ((of_nat n + NUM_RESERVED_PORTS) # payload) = Some (0, srv)"
    if none: "\<nexists>j m. keys_of srv j = Some kj \<and> used (slots_of srv j m) \<and> sn_public_key (slots_of srv j m) = ki"
  proof -
    have "sn_status (slots_of srv i n) \<noteq> 2"
    proof
      assume "sn_status (slots_of srv i n) = 2"
      then obtain j m where "points_to (slots_of srv j m) i n" "keys_of srv j = Some kj" "keys_of srv i = Some (sn_public_key (slots_of srv j m))"
        using links_linked [OF l] assms(4) by metis
      then show False using none assms(2) points_to_used by (metis option.inject)
    qed
    then show ?thesis unfolding run using assms(3) by (auto simp: used_def)
  qed
  ultimately show ?thesis by blast
qed

text \<open>C11: The relay passes an onion request or a forward request of a client on with an address that names the place and the identifier of that client. Whatever has happened since,
  with or without \<^verbatim>\<open>epoll\<close>, an answer to that address is written to that client, which is still there with its key on its socket; or that socket has been
  closed, and then the answer is written to nobody: not to a client that took its place. Only a closed connection loses its answers: the calls of the relay to the host are
  recorded, and the second case needs a call that closes the socket on which the client was connected.\<close>

theorem relay_replies_to_asker:
  assumes "relay_host E" and ok: "relay_ok srv" and "keys_of srv i = Some k" "relay_run E srv srv'"
  shows "(srv_onion srv \<and> 1 + CRYPTO_NONCE_SIZE + ONION_SEND_BASE * 2 < length (TCP_PACKET_ONION_REQUEST # req) \<longrightarrow>
      handle_TCP_packet E srv i (TCP_PACKET_ONION_REQUEST # req) =
        Some (0, log_srv (Call_onion_send_1 (drop CRYPTO_NONCE_SIZE req) (con_id_to_ip_port (of_nat i) (idents_of srv i)) req) srv)) \<and>
    (srv_forwarding srv \<and> unpack_ip_port req False = Some (n, dest) \<and> length (drop n req) \<le> MAX_FORWARD_DATA_SIZE \<longrightarrow>
      handle_TCP_packet E srv i (TCP_PACKET_FORWARD_REQUEST # req) =
        Some (0, log_srv (Call_send_forwarding dest (tcp_sendback_data (of_nat i) (idents_of srv i)) (drop n req)) srv)) \<and>
    (same_client srv srv' i \<and>
       handle_onion_recv_1 E srv' (con_id_to_ip_port (of_nat i) (idents_of srv i)) data =
         do { (r, s) \<leftarrow> write_accepted E i (TCP_PACKET_ONION_RESPONSE # data) False srv'; Some (if r \<noteq> 1 then 1 else 0, s) } \<and>
       handle_forward_reply_tcp E srv' (tcp_sendback_data (of_nat i) (idents_of srv i)) data =
         do { (r, s) \<leftarrow> write_accepted E i (TCP_PACKET_FORWARDING # data) False srv'; Some (r = 1, s) } \<or>
     closed_since srv srv' (sock_at srv i) \<and>
       handle_onion_recv_1 E srv' (con_id_to_ip_port (of_nat i) (idents_of srv i)) data = Some (1, srv') \<and>
       handle_forward_reply_tcp E srv' (tcp_sendback_data (of_nat i) (idents_of srv i)) data = Some (False, srv'))"
proof (intro conjI impI)
  obtain con where con: "accepted srv i = Some con" "sc_identifier con = idents_of srv i" using assms(3) by (auto simp: keys_of_Some idents_of_def)
  note run = handle_TCP_packet_def [of E srv i] con Let_def
  show "handle_TCP_packet E srv i (TCP_PACKET_ONION_REQUEST # req) =
        Some (0, log_srv (Call_onion_send_1 (drop CRYPTO_NONCE_SIZE req) (con_id_to_ip_port (of_nat i) (idents_of srv i)) req) srv)"
    if "srv_onion srv \<and> 1 + CRYPTO_NONCE_SIZE + ONION_SEND_BASE * 2 < length (TCP_PACKET_ONION_REQUEST # req)"
    using that by (simp add: run size_defs)
  show "handle_TCP_packet E srv i (TCP_PACKET_FORWARD_REQUEST # req) =
        Some (0, log_srv (Call_send_forwarding dest (tcp_sendback_data (of_nat i) (idents_of srv i)) (drop n req)) srv)"
    if "srv_forwarding srv \<and> unpack_ip_port req False = Some (n, dest) \<and> length (drop n req) \<le> MAX_FORWARD_DATA_SIZE"
    using that by (simp add: run size_defs)
next
  have ok': "relay_ok srv'" "ages srv srv'" using relay_host.run_ok [OF assms(1,4) ok] by simp_all
  have "i \<in> dom (keys_of srv)" using assms(3) by auto
  then have x: "idents_of srv i \<noteq> 0" "idents_of srv i \<le> counter srv" using ok unfolding relay_ok_def relay_base_def idents_ok_def by force+
  have i: "i < 2 ^ 32" using assms(3) keys_of_dom relay_index(2) [OF ok] by (force simp: array_ok_def)
  have "same_client srv srv' i" if e: "idents_of srv' i = idents_of srv i"
  proof -
    have "keys_of srv' i \<noteq> None" by (rule client_at [OF ok'(1) e x(1)]) simp
    then show ?thesis using ok'(2) x(2) unfolding ages_def e [symmetric] by blast
  qed
  moreover have "same_client srv srv' i \<or> closed_since srv srv' (sock_at srv i)" using ok'(2) assms(3) by (simp add: ages_def)
  ultimately show "same_client srv srv' i \<and>
       handle_onion_recv_1 E srv' (con_id_to_ip_port (of_nat i) (idents_of srv i)) data =
         do { (r, s) \<leftarrow> write_accepted E i (TCP_PACKET_ONION_RESPONSE # data) False srv'; Some (if r \<noteq> 1 then 1 else 0, s) } \<and>
       handle_forward_reply_tcp E srv' (tcp_sendback_data (of_nat i) (idents_of srv i)) data =
         do { (r, s) \<leftarrow> write_accepted E i (TCP_PACKET_FORWARDING # data) False srv'; Some (r = 1, s) } \<or>
     closed_since srv srv' (sock_at srv i) \<and>
       handle_onion_recv_1 E srv' (con_id_to_ip_port (of_nat i) (idents_of srv i)) data = Some (1, srv') \<and>
       handle_forward_reply_tcp E srv' (tcp_sendback_data (of_nat i) (idents_of srv i)) data = Some (False, srv')"
    unfolding onion_reply [OF ok'(1) i x(1)] forward_reply_tcp [OF ok'(1) i x(1)] by (cases "idents_of srv' i = idents_of srv i") (auto simp: same_client_def)
qed

section \<open>Events that are out of date\<close>

text \<open>A client that connects again is put at the highest free place, and its old place stays free.\<close>

context relay_host
begin

lemma kill_keeps_vacant:
  assumes "relay_ok srv" "vacant srv i" "2 \<le> card (dom (keys_of srv))"
  obtains r srv' where "kill_accepted E srv x = Some (r, srv')" "relay_ok srv'" "vacant srv' i"
  using kill_accepted_ok [OF assms(1), of x] assms(2,3) by (metis fun_upd_apply vacant_def)

lemma confirm_vacates:
  assumes "relay_ok srv" "room 1 srv" "u < MAX_INCOMING_CONNECTIONS" "sc_status (unconfirmed_connection_queue srv ! u) \<noteq> TCP_STATUS_NO_STATUS"
    "keys_of srv i = Some (sc_public_key (unconfirmed_connection_queue srv ! u))" "last_free (accepted_connection_array srv) = Some x" "i < x" "2 \<le> card (dom (keys_of srv))"
  obtains r srv' where "confirm_TCP_connection E mt srv u data = Some (r, srv')" "relay_ok srv'" "vacant srv' i" "r \<noteq> - 1 \<longrightarrow> 2 \<le> card (dom (keys_of srv'))"
proof -
  let ?con = "unconfirmed_connection_queue srv ! u"
  note c = queued_con [OF queue_nth(2) [OF queues [OF assms(1)] assms(3)] assms(4)]
  obtain y s1 where s1: "add_accepted E mt srv ?con = Some (Some y, s1, zero_secure_connection)" "relay_ok s1" "keys_of s1 y = Some (sc_public_key ?con)"
    "keys_of s1 i = None \<and> i < length (accepted_connection_array s1) \<and> 2 \<le> card (dom (keys_of s1))"
    using add_accepted_ok [OF assms(1,2), of ?con mt] c assms(5-8) by metis
  let ?s = "set_unconfirmed u zero_secure_connection s1"
  have v: "keys_of ?s = keys_of s1" "accepted_connection_array ?s = accepted_connection_array s1" using view_cong [of ?s s1] by (simp_all add: set_unconfirmed_def)
  have ok: "relay_ok ?s" "keys_of ?s y = Some (sc_public_key ?con)" using set_queue_kept(2) [OF s1(2) queued_zero, of u] s1(3) v by (simp_all add: kept_def)
  obtain r s2 where s2: "handle_TCP_packet E ?s y data = Some (r, s2)" "relay_ok s2" "quiet ?s s2" using handle_TCP_packet_ok [OF ok] by metis
  have v2: "vacant s2 i" "2 \<le> card (dom (keys_of s2))" using s1(4) s2(3) v by (simp_all add: vacant_def quiet_def)
  obtain rr s3 where s3: "kill_accepted E s2 y = Some (rr, s3)" "relay_ok s3" "vacant s3 i" by (rule kill_keeps_vacant [OF s2(2) v2])
  note run = confirm_TCP_connection_def [of E mt srv u data] s1(1) s2(1) s3(1)
  show ?thesis
  proof (cases "r = - 1")
    case True
    then show ?thesis using run that [of "- 1" s3] s3 by (simp add: wipe_secure_connection_def)
  next
    case False
    then show ?thesis using run that [of "int y" s2] s2(2) v2 by (simp add: wipe_secure_connection_def)
  qed
qed

end

abbreviation input_event :: "socket_kind \<Rightarrow> nat \<Rightarrow> epoll_event" where
  "input_event kind i \<equiv> \<lparr>ev_error = False, ev_in = True, ev_kind = kind, ev_index = i\<rparr>"

lemma stale_event_crashes:
  assumes "relay_host E" "relay_ok srv" "room 1 srv" "u < MAX_INCOMING_CONNECTIONS" "sc_status (unconfirmed_connection_queue srv ! u) = TCP_STATUS_UNCONFIRMED"
    and "keys_of srv i = Some (sc_public_key (unconfirmed_connection_queue srv ! u))" "last_free (accepted_connection_array srv) = Some x" "i < x" "2 \<le> card (dom (keys_of srv))"
    and "read_secure E (unconfirmed_connection_queue srv ! u) = Some (Packet p, con)"
  shows "epoll_handle_events E mt [input_event TCP_SOCKET_UNCONFIRMED u, input_event TCP_SOCKET_CONFIRMED i] srv = None"
proof -
  let ?con = "unconfirmed_connection_queue srv ! u"
  have c: "con_ok (sc_con ?con)" "length (sc_public_key ?con) = 32" "connections ?con = replicate NUM_CLIENT_CONNECTIONS zero_secure_conn"
    using queued_con [OF queue_nth(2) [OF queues [OF assms(2)] assms(4)]] assms(5) by simp_all
  obtain c' a b where con: "con = ?con\<lparr>sc_con := c', sc_next_packet_length := a, sc_recv_nonce := b\<rparr>" "con_ok c'"
    by (rule read_secure_ok [OF c(1), where E = E], rule that) (use assms(10) in simp_all)
  let ?s = "set_unconfirmed u con srv"
  have "queued_ok TCP_STATUS_UNCONFIRMED con" by (rule queuedI) (use con c assms(5) in simp_all)
  then have "kept 0 srv ?s" by (rule set_queue_kept(2) [OF assms(2)])
  then have ok: "relay_ok ?s" "room 1 ?s" using room_grows [of 0 1 srv ?s] assms(3) by (simp_all add: kept_def)
  have v: "keys_of ?s = keys_of srv" "accepted_connection_array ?s = accepted_connection_array srv" using view_cong [of ?s srv] by (simp_all add: set_unconfirmed_def)
  have n: "unconfirmed_connection_queue ?s ! u = con" using queue_nth(4) [OF queues [OF assms(2)] assms(4)] by (simp add: set_unconfirmed_def)
  have st: "sc_status con \<noteq> TCP_STATUS_NO_STATUS" "sc_public_key con = sc_public_key ?con" using con(1) assms(5) by simp_all
  obtain r s1 where s1: "confirm_TCP_connection E mt ?s u p = Some (r, s1)" "relay_ok s1" "vacant s1 i" "r \<noteq> - 1 \<longrightarrow> 2 \<le> card (dom (keys_of s1))"
    by (rule relay_host.confirm_vacates [OF assms(1) ok assms(4), where i = i and x = x and mt = mt and data = p]) (use n st v assms(6-9) in simp_all)
  have d: "do_unconfirmed E mt srv u = Some (r, s1)" using assms(5,10) s1(1) by (simp add: do_unconfirmed_def)
  obtain s2 where s2: "epoll_unconfirmed E mt u srv = Some s2" "relay_ok s2" "vacant s2 i"
  proof (cases "r = - 1")
    case True
    then show ?thesis using that [of s1] d s1 assms(4) by (simp add: epoll_unconfirmed_def)
  next
    case False
    let ?l = "(log_srv (Call_epoll_ctl TCP_SOCKET_CONFIRMED (nat r)) s1)\<lparr>host_calls := host_calls s1 + 1\<rparr>"
    have l: "relay_ok ?l" "keys_of ?l = keys_of s1" "accepted_connection_array ?l = accepted_connection_array s1"
      using view_cong [of ?l s1] relay_cong [of ?l s1] s1(2) by (simp_all add: log_srv_def queues_ok_def)
    have vl: "vacant ?l i" "2 \<le> card (dom (keys_of ?l))" using s1(3,4) False l by (simp_all add: vacant_def)
    obtain rr s3 where k: "kill_accepted E ?l (nat r) = Some (rr, s3)" "relay_ok s3" "vacant s3 i" by (rule relay_host.kill_keeps_vacant [OF assms(1) l(1) vl])
    show ?thesis
    proof (cases "te_epoll_ctl E (host_calls s1)")
      case True
      then show ?thesis using that [of ?l] d False assms(4) l(1) vl(1) by (simp add: epoll_unconfirmed_def epoll_ctl_def)
    next
      case fail: False
      then show ?thesis using that [of s3] d False assms(4) k by (simp add: epoll_unconfirmed_def epoll_ctl_def)
    qed
  qed
  then show ?thesis using recv_vacant [OF s2(2,3), of E] by (simp add: epoll_handle_event_def)
qed

text \<open>C14: With \<^verbatim>\<open>epoll\<close>, a client that connects twice can crash the relay. Let at least two clients be connected and let there be a free place above the place of one of them, so
  that it does not get its old place again. If that client has a second connection with its key waiting for its first packet, that packet has arrived completely, and one call
  of \<^verbatim>\<open>epoll_wait\<close> reports input of the new connection first and of the old one next, then handling the first event closes the old connection and zeroes its entry, and the
  second event is handled at that entry all the same: the relay follows the null pointer \<^verbatim>\<open>con.ns\<close>.\<close>

theorem epoll_event_out_of_date:
  assumes "relay_host E" "te_use_epoll E" "relay_ok srv" "room 1 srv" "u < MAX_INCOMING_CONNECTIONS" "sc_status (unconfirmed_connection_queue srv ! u) = TCP_STATUS_UNCONFIRMED"
    and "keys_of srv i = Some (sc_public_key (unconfirmed_connection_queue srv ! u))" "last_free (accepted_connection_array srv) = Some x" "i < x" "2 \<le> card (dom (keys_of srv))"
    and "read_secure E (unconfirmed_connection_queue srv ! u) = Some (Packet p, con)"
    and ev: "te_epoll_wait E (host_calls srv) = input_event TCP_SOCKET_UNCONFIRMED u # input_event TCP_SOCKET_CONFIRMED i # evs"
  shows "do_TCP_server E mt srv = None"
proof -
  let ?s = "srv\<lparr>host_calls := host_calls srv + 1\<rparr>"
  have k: "kept 0 srv ?s" by (rule kept_same [OF assms(3)]) (use queues [OF assms(3)] in \<open>simp_all add: queues_ok_def\<close>)
  have ok: "relay_ok ?s" "room 1 ?s" using k room_grows [of 0 1 srv ?s] assms(4) by (simp_all add: kept_def)
  have v: "keys_of ?s = keys_of srv" by (rule view_cong) simp
  have crash: "epoll_handle_events E mt [input_event TCP_SOCKET_UNCONFIRMED u, input_event TCP_SOCKET_CONFIRMED i] ?s = None"
    by (rule stale_event_crashes [OF assms(1) ok assms(5), where x = x and p = p and con = con]) (use assms(6-11) v in simp_all)
  have more: "epoll_handle_events E mt (a @ b) s = do { s \<leftarrow> epoll_handle_events E mt a s; epoll_handle_events E mt b s }" for a b s
  proof (induction a arbitrary: s)
    case (Cons ev a)
    then show ?case by (cases "epoll_handle_event E mt ev s") simp_all
  qed simp
  have "take MAX_EVENTS (te_epoll_wait E (host_calls srv)) = [input_event TCP_SOCKET_UNCONFIRMED u, input_event TCP_SOCKET_CONFIRMED i] @ take 14 evs"
    by (simp add: ev size_defs)
  then have "tcp_epoll_process E mt srv = None" unfolding tcp_epoll_process_def Let_def by (simp only: more crash) simp
  then have "do_TCP_epoll E mt srv = None" by (subst do_TCP_epoll.simps) simp
  then show ?thesis using assms(2) by (simp add: do_TCP_server_def)
qed

section \<open>A relay with two clients\<close>

text \<open>The host takes and gives what it can; memory never runs out.\<close>

definition test_host :: tcp_env where
  "test_host = \<lparr>te_plat = fuzz_platform, te_calloc = (\<lambda>h. Some (LEAST a. a \<notin> dom h)), te_fill = (0, 0), te_stack = replicate 32 0, te_derive = id,
     te_listen = (\<lambda>_. \<lparr>la_socket = True, la_nonblock = True, la_dualstack = True, la_reuseaddr = True, la_bind = True, la_listen = True\<rparr>),
     te_accept = (\<lambda>_ n. if n = 0 then Some slow_sock else None), te_nonblock = (\<lambda>_. True), te_nosigpipe = (\<lambda>_. True), te_use_epoll = False, te_epoll_create = True,
     te_epoll_ctl = (\<lambda>_. True), te_epoll_wait = (\<lambda>_. [])\<rparr>"

interpretation test: relay_host test_host
proof unfold_locales
  show "\<exists>c. crypto_box_afternm (te_plat test_host) m n k = Some c \<and> length c = length m \<and> take 16 c = replicate 16 0 \<and> crypto_box_open_afternm (te_plat test_host) c n k = Some m"
    if "32 \<le> length m" "take 32 m = replicate 32 0" for m n k using fuzz.afternm [OF that] by (simp add: test_host_def)
  show "malloc_ok (te_plat test_host) sz" for sz by (simp add: test_host_def)
  show "\<exists>a. te_calloc test_host h = Some a \<and> a \<notin> dom h" if "finite (dom h)" for h :: "nat \<rightharpoonup> TCP_Priority_List"
    using ex_new_if_finite [OF infinite_UNIV_nat that] LeastI_ex [of "\<lambda>a. a \<notin> dom h"] by (simp add: test_host_def)
  show "sk_send sock n len \<le> int len" if "te_accept test_host idx c = Some sock" for idx c sock n len
    using that slow.send_le by (simp add: test_host_def split: if_splits)
  show "sk_recv sock n avail len = int len" if "te_accept test_host idx c = Some sock" "0 < len" "len \<le> avail" for idx c sock n avail len
    using that slow.recv_all by (simp add: test_host_def split: if_splits)
  show "0 \<le> sk_count sock n avail" "sk_count sock n avail \<le> int avail" "sk_count sock n avail < 2 ^ 31" if "te_accept test_host idx c = Some sock" for idx c sock n avail
    using that slow.count_le by (simp_all add: test_host_def split: if_splits)
qed

text \<open>The same host with \<^verbatim>\<open>epoll\<close>, which reports input of a new connection before input of a client.\<close>

definition epoll_host :: tcp_env where
  "epoll_host = test_host\<lparr>te_use_epoll := True, te_epoll_wait := (\<lambda>n. if n = 0 then [input_event TCP_SOCKET_UNCONFIRMED 0, input_event TCP_SOCKET_CONFIRMED 0] else [])\<rparr>"

interpretation events: relay_host epoll_host
proof (rule relay_host.intro)
  show "box_platform (te_plat epoll_host)" by (simp add: epoll_host_def test.plat)
  show "\<exists>a. te_calloc epoll_host h = Some a \<and> a \<notin> dom h" if "finite (dom h)" for h using test.calloc [OF that] by (simp add: epoll_host_def)
qed (use test.accept in \<open>simp_all add: epoll_host_def stream_socket_def\<close>)

definition test_slot :: "byte \<Rightarrow> u32 \<Rightarrow> TCP_Secure_Conn" where
  "test_slot k j = \<lparr>sn_public_key = replicate 32 k, sn_index = j, sn_status = 2, sn_other_id = 0\<rparr>"

definition test_con :: "bytes \<Rightarrow> TCP_Connection" where
  "test_con input = zero_tcp_connection\<lparr>tc_ns := True, tc_sock := slow_sock\<lparr>sk_in := input\<rparr>\<rparr>"

definition test_client :: "byte \<Rightarrow> u64 \<Rightarrow> TCP_Secure_Conn \<Rightarrow> TCP_Secure_Connection" where
  "test_client k x s = zero_secure_connection\<lparr>sc_con := test_con [], sc_public_key := replicate 32 k, connections := s # replicate 239 zero_secure_conn,
     sc_status := TCP_STATUS_CONFIRMED, sc_identifier := x\<rparr>"

text \<open>A connection with the key of the first client, and input for its first packet.\<close>

definition test_waiting :: TCP_Secure_Connection where
  "test_waiting = zero_secure_connection\<lparr>sc_con := test_con ([0, 17, 255] @ replicate 16 0), sc_public_key := replicate 32 1, sc_status := TCP_STATUS_UNCONFIRMED\<rparr>"

definition relay_two :: TCP_Server where
  "relay_two = \<lparr>srv_rng = counting_random, srv_onion = True, srv_forwarding = True, num_listening_socks = 1, srv_public_key = replicate 32 9, srv_secret_key = replicate 32 8,
     incoming_connection_queue = replicate MAX_INCOMING_CONNECTIONS zero_secure_connection, incoming_connection_queue_index = 0,
     unconfirmed_connection_queue = test_waiting # replicate 255 zero_secure_connection, unconfirmed_connection_queue_index = 1,
     accepted_connection_array = [test_client 1 1 (test_slot 2 3), zero_secure_connection, zero_secure_connection, test_client 2 2 (test_slot 1 0)],
     num_accepted_connections = 2, counter = 2,
     accepted_key_list = \<lparr>bs_n = 2, bs_capacity = 2, bs_element_size = 32, bs_data = replicate 32 1 @ replicate 32 2, bs_ids = [0, 3]\<rparr>,
     last_run_pinged = 0, srv_calls = [], host_calls = 0\<rparr>"

lemma accepted_two: "accepted relay_two i =
  (if i = 0 then Some (test_client 1 1 (test_slot 2 3)) else if i = 3 then Some (test_client 2 2 (test_slot 1 0)) else if i < 4 then Some zero_secure_connection else None)"
  by (auto simp: accepted_def relay_two_def less_Suc_eq numeral_eq_Suc)

lemma keys_two: "keys_of relay_two = [0 \<mapsto> replicate 32 1, 3 \<mapsto> replicate 32 2]"
  by (auto simp: keys_of_def accepted_two test_client_def fun_eq_iff)

lemma slots_two: "slots_of relay_two i n = (if n = 0 \<and> i = 0 then test_slot 2 3 else if n = 0 \<and> i = 3 then test_slot 1 0 else zero_secure_conn)"
  by (auto simp: slots_of_def accepted_two test_client_def nth_Cons' size_defs)

lemma idents_two: "idents_of relay_two i = (if i = 0 then 1 else if i = 3 then 2 else 0)"
  by (auto simp: idents_of_def accepted_two test_client_def)

lemma test_con_ok: "con_ok (test_con input)"
  using slow.stream_socket_axioms by (auto simp: con_ok_def test_con_def zero_tcp_connection_def slow_sock_def con_stream_def last_ok_def last_rest_def queue_ok_def)

lemma links_two: "links_ok (keys_of relay_two) (slots_of relay_two)"
proof (rule links_okI)
  show "i = j" if "keys_of relay_two i = Some k" "keys_of relay_two j = Some k" for i j k
    using that by (auto simp: keys_two split: if_splits)
  show "slots_ok (keys_of relay_two i) (slots_of relay_two i)" for i
    by (rule slots_okI) (auto simp: keys_two slots_two used_def test_slot_def zero_secure_conn_def size_defs split: if_splits)
  show "\<exists>j m. points_to (slots_of relay_two i n) j m \<and> points_to (slots_of relay_two j m) i n \<and> keys_of relay_two j = Some (sn_public_key (slots_of relay_two i n))"
    if "sn_status (slots_of relay_two i n) = 2" for i n
    using that by (auto simp: slots_two keys_two points_to_def test_slot_def zero_secure_conn_def split: if_splits)
  show "sn_status (slots_of relay_two i n) = 2" if "used (slots_of relay_two i n)" for i j n m
    using that by (auto simp: slots_two used_def test_slot_def zero_secure_conn_def split: if_splits)
qed

lemma be_val_less:
  assumes "a < (b :: byte)"
  shows "be_val (replicate (Suc n) a) < be_val (replicate (Suc n) b)"
proof -
  have "be_val (replicate (Suc n) a) < Suc (unat a) * 256 ^ n" using be_val_bound [of "replicate n a"] by simp
  also have "\<dots> \<le> unat b * 256 ^ n" using assms by (intro mult_right_mono) (simp_all add: word_less_nat_alt)
  also have "\<dots> \<le> be_val (replicate (Suc n) b)" by simp
  finally show ?thesis .
qed

lemma index_two: "index_ok (keys_of relay_two) (accepted_key_list relay_two)"
proof -
  let ?l = "accepted_key_list relay_two"
  have e: "bs_elems ?l = [replicate 32 1, replicate 32 2]" by (simp add: bs_elems_def bs_elem_def relay_two_def slice_def upt_rec)
  have "be_val (replicate 32 1 :: bytes) < be_val (replicate 32 2)" using be_val_less [of 1 2 31] by simp
  then have "bs_inv ?l" unfolding bs_inv_def e by (simp add: relay_two_def)
  moreover have "bs_map ?l = [replicate 32 1 \<mapsto> 0, replicate 32 2 \<mapsto> 3]" unfolding bs_map_def e by (simp add: relay_two_def fun_eq_iff)
  moreover have "(replicate 32 1 :: bytes) \<noteq> replicate 32 2" by simp
  moreover have "bs_element_size ?l = 32" by (simp add: relay_two_def)
  ultimately show ?thesis unfolding index_ok_def keys_two by (auto split: if_splits)
qed

lemma relay_two_ok: "relay_ok relay_two"
proof -
  have "array_ok relay_two"
    using test_con_ok by (simp add: array_ok_def relay_two_def secure_ok_def test_client_def) (simp add: size_defs)
  moreover have "queued_ok TCP_STATUS_UNCONFIRMED test_waiting" using test_con_ok by (intro queuedI) (simp_all add: test_waiting_def)
  then have "queues_ok relay_two" by (simp add: queues_ok_def relay_two_def list_all_iff) (simp add: size_defs)
  moreover have d: "dom (keys_of relay_two) = {0, 3}" by (auto simp: keys_two split: if_splits)
  have n: "num_accepted_connections relay_two = 2" "counter relay_two = 2" by (simp_all add: relay_two_def)
  have "unat (num_accepted_connections relay_two) = card (dom (keys_of relay_two))" by (simp add: d n)
  moreover have "idents_ok (keys_of relay_two) (idents_of relay_two) (counter relay_two)"
    unfolding idents_ok_def d n by (auto simp: keys_two inj_on_def idents_two)
  ultimately show ?thesis using links_two index_two by (simp add: relay_ok_def relay_base_def)
qed

theorem relay_links_mutual_witness:
  "\<exists>srv. new_TCP_server test_host counting_random True [33445] (replicate 32 8) True True = Some srv \<and> relay_ok srv \<and> (\<exists>srv'. do_TCP_server test_host example_time srv = Some srv')"
proof -
  obtain srv where s: "new_TCP_server test_host counting_random True [33445] (replicate 32 8) True True = Some srv"
    by (simp add: new_TCP_server_def test_host_def new_listening_TCP_socket_def)
  have "room MAX_INCOMING_CONNECTIONS srv" using new_server_ok [OF test.relay_host_axioms s] by (simp add: room_def size_defs)
  moreover have "\<not> te_use_epoll test_host" by (simp add: test_host_def)
  ultimately show ?thesis using relay_links_mutual [OF test.relay_host_axioms _ s run_refl] s by blast
qed

theorem relay_passes_packets_witness:
  "handle_TCP_packet test_host relay_two 0 (16 # [7]) =
     do { (ret, srv) \<leftarrow> write_accepted test_host 3 (16 # [7]) False relay_two; Some (if ret = - 1 then - 1 else 0, srv) }"
  using relay_passes_packets [OF relay_two_ok, of 0 "replicate 32 1" 0 "replicate 32 2" test_host "[7]", THEN conjunct1, THEN spec, of 3, THEN spec, of 0]
  by (simp add: keys_two slots_two test_slot_def used_def NUM_RESERVED_PORTS_def)

theorem relay_replies_to_asker_witness:
  "idents_of relay_two 3 = 2 \<and> handle_TCP_packet test_host relay_two 3 (TCP_PACKET_ONION_REQUEST # replicate 500 7) =
      Some (0, log_srv (Call_onion_send_1 (replicate 476 7) (con_id_to_ip_port 3 2) (replicate 500 7)) relay_two) \<and>
    handle_onion_recv_1 test_host relay_two (con_id_to_ip_port 3 2) [7] =
      do { (r, s) \<leftarrow> write_accepted test_host 3 (TCP_PACKET_ONION_RESPONSE # [7]) False relay_two; Some (if r \<noteq> 1 then 1 else 0, s) }"
proof -
  have k: "keys_of relay_two 3 = Some (replicate 32 2)" by (simp add: keys_two)
  have o: "srv_onion relay_two" by (simp add: relay_two_def)
  have "\<not> closed_since relay_two relay_two s" for s by (simp add: closed_since_def)
  then show ?thesis
    using relay_replies_to_asker [OF test.relay_host_axioms relay_two_ok k run_refl, of "replicate 500 7" _ _ "[7]"] o by (simp add: idents_two size_defs)
qed

theorem epoll_event_out_of_date_witness:
  "te_use_epoll epoll_host \<and> relay_ok relay_two \<and> do_TCP_server epoll_host example_time relay_two = None"
proof -
  have a: "unconfirmed_connection_queue relay_two ! 0 = test_waiting" "length (accepted_connection_array relay_two) = 4" "counter relay_two = 2" by (simp_all add: relay_two_def)
  have r: "\<exists>con. read_secure epoll_host test_waiting = Some (Packet [255], con)"
  proof -
    let ?s = "slow_sock\<lparr>sk_in := [0, 17, 255] @ replicate 16 0\<rparr>"
    have st: "stream_socket (sk_send s) (sk_recv s) (sk_count s)" if "sk_send s = sk_send slow_sock" "sk_recv s = sk_recv slow_sock" "sk_count s = sk_count slow_sock" for s
      using that slow.stream_socket_axioms by simp
    have c: "unat (net_socket_data_recv_buffer s) = length (sk_in s)"
      if "sk_send s = sk_send slow_sock" "sk_recv s = sk_recv slow_sock" "sk_count s = sk_count slow_sock" "length (sk_in s) < 100" for s
      using recv_buffer_le(1) [OF st [OF that(1-3)]] that by (simp add: slow_sock_def)
    have "net_socket_data_recv_buffer ?s \<ge> 2" by (simp add: word_le_nat_alt c)
    then have l: "read_TCP_length ?s = (17, ?s\<lparr>sk_calls := 1, sk_in := 255 # replicate 16 0\<rparr>)"
      by (simp add: read_TCP_length_def net_recv_def slow_sock_def net_unpack_u16_def size_defs)
    have p: "read_TCP_packet (?s\<lparr>sk_calls := 1, sk_in := 255 # replicate 16 0\<rparr>) 17 = (Some (255 # replicate 16 0), ?s\<lparr>sk_calls := 2, sk_in := []\<rparr>)"
      by (simp add: read_TCP_packet_def c) (simp add: net_recv_def slow_sock_def)
    have d: "decrypt_data_symmetric fuzz_platform (Some k) n (255 # replicate 16 0) = Some [255]" for k n
      by (simp add: decrypt_fuzz decrypt_data_symmetric_fuzz_def size_defs)
    show ?thesis using l p d by (simp add: read_secure_def read_packet_TCP_secure_connection_def test_waiting_def test_con_def epoll_host_def test_host_def zero_secure_connection_def
        zero_tcp_connection_def size_defs)
  qed
  have h: "te_use_epoll epoll_host" "te_epoll_wait epoll_host (host_calls relay_two) = [input_event TCP_SOCKET_UNCONFIRMED 0, input_event TCP_SOCKET_CONFIRMED 0]"
    by (simp_all add: epoll_host_def relay_two_def)
  have "room 1 relay_two" by (simp add: room_def a)
  moreover have "last_free (accepted_connection_array relay_two) = Some 2"
    unfolding last_free_keys [OF relay_index(2) [OF relay_two_ok]] a by (auto simp: keys_two)
  moreover have "card (dom (keys_of relay_two)) = 2" by (simp add: keys_two)
  ultimately show ?thesis
    using epoll_event_out_of_date [OF events.relay_host_axioms _ relay_two_ok, of 0 0 2 "[255]" _ "[]" example_time] r a h relay_two_ok by (auto simp: keys_two test_waiting_def size_defs)
qed

end
