(* ===== verification/TCP_Client.thy ===== *)
theory TCP_Client
  imports TCP_Server
begin

text \<open>
  \<^verbatim>\<open>toxcore/TCP_client.c\<close>: the connection of a client to a TCP relay, directly or through an HTTP or SOCKS5 proxy. After the handshake the client asks for connections to
  keys; the relay answers with slots, tells whether the other side is there, and passes packets.

  The functions registered by the user of the connection, each with its object, are named by numbers and given by the environment; they may change the connection. The generator of random numbers, which the connection
  points to, is passed along. A result \<open>None\<close> is a write or a call through a null or dangling pointer.
\<close>

section \<open>State\<close>

definition TCP_CONNECTION_TIMEOUT :: u64 where [size_defs]: "TCP_CONNECTION_TIMEOUT = 10"
definition TCP_SOCKS5_PROXY_HS_VERSION_SOCKS5 :: byte where [size_defs]: "TCP_SOCKS5_PROXY_HS_VERSION_SOCKS5 = 5"
definition TCP_SOCKS5_PROXY_HS_COMM_ESTABLISH_REQUEST :: byte where [size_defs]: "TCP_SOCKS5_PROXY_HS_COMM_ESTABLISH_REQUEST = 1"
definition TCP_SOCKS5_PROXY_HS_COMM_REQUEST_GRANTED :: byte where [size_defs]: "TCP_SOCKS5_PROXY_HS_COMM_REQUEST_GRANTED = 0"
definition TCP_SOCKS5_PROXY_HS_AUTH_METHODS_SUPPORTED :: byte where [size_defs]: "TCP_SOCKS5_PROXY_HS_AUTH_METHODS_SUPPORTED = 1"
definition TCP_SOCKS5_PROXY_HS_NO_AUTH :: byte where [size_defs]: "TCP_SOCKS5_PROXY_HS_NO_AUTH = 0"
definition TCP_SOCKS5_PROXY_HS_RESERVED :: byte where [size_defs]: "TCP_SOCKS5_PROXY_HS_RESERVED = 0"
definition TCP_SOCKS5_PROXY_HS_ADDR_TYPE_IPV4 :: byte where [size_defs]: "TCP_SOCKS5_PROXY_HS_ADDR_TYPE_IPV4 = 1"
definition TCP_SOCKS5_PROXY_HS_ADDR_TYPE_IPV6 :: byte where [size_defs]: "TCP_SOCKS5_PROXY_HS_ADDR_TYPE_IPV6 = 4"
definition sizeof_TCP_Client_Connection :: nat where [size_defs]: "sizeof_TCP_Client_Connection = 12192"

text \<open>\<^verbatim>\<open>proxy_type\<close> is a byte that holds one of the three types.\<close>

datatype TCP_Proxy_Type = TCP_PROXY_NONE | TCP_PROXY_HTTP | TCP_PROXY_SOCKS5

record TCP_Proxy_Info =
  pi_ip_port :: IP_Port
  pi_proxy_type :: TCP_Proxy_Type

datatype TCP_Client_Status = TCP_CLIENT_NO_STATUS | TCP_CLIENT_PROXY_HTTP_CONNECTING | TCP_CLIENT_PROXY_SOCKS5_CONNECTING | TCP_CLIENT_PROXY_SOCKS5_UNCONFIRMED
  | TCP_CLIENT_CONNECTING | TCP_CLIENT_UNCONFIRMED | TCP_CLIENT_CONFIRMED | TCP_CLIENT_DISCONNECTED

record TCP_Client_Conn =
  cn_status :: byte
  cn_public_key :: bytes
  cn_number :: u32

record TCP_Client_Connection =
  cl_con :: TCP_Connection
  cl_status :: TCP_Client_Status
  cl_self_public_key :: bytes
  cl_public_key :: bytes
  cl_ip_port :: IP_Port
  cl_proxy_info :: TCP_Proxy_Info
  cl_recv_nonce :: bytes
  cl_next_packet_length :: u16
  cl_temp_secret_key :: bytes
  kill_at :: u64
  cl_last_pinged :: u64
  cl_ping_id :: u64
  ping_response_id :: u64
  ping_request_id :: u64
  cl_connections :: "TCP_Client_Conn list"
  response_callback :: "nat option"
  status_callback :: "nat option"
  data_callback :: "nat option"
  oob_data_callback :: "nat option"
  onion_callback :: "nat option"
  forwarded_response_callback :: "nat option"
  custom_object :: "nat option"
  custom_uint :: u32

datatype client_call =
    Cb_response byte bytes
  | Cb_status u32 byte byte
  | Cb_data u32 byte bytes
  | Cb_oob bytes bytes
  | Cb_onion bytes
  | Cb_forwarded bytes

text \<open>The host and the user of the connection. \<open>ce_inet_ntop\<close> is the text of an address, which the standard library makes.\<close>

record client_env =
  ce_plat :: platform
  ce_calloc :: "(nat \<rightharpoonup> TCP_Priority_List) \<Rightarrow> nat option"
  ce_socket :: "byte \<Rightarrow> Sock option"
  ce_nosigpipe :: "Sock \<Rightarrow> bool"
  ce_nonblock :: "Sock \<Rightarrow> bool"
  ce_connect :: "Sock \<Rightarrow> IP_Port \<Rightarrow> bool"
  ce_inet_ntop :: "IP \<Rightarrow> bytes option"
  ce_call :: "nat \<Rightarrow> client_call \<Rightarrow> TCP_Client_Connection \<Rightarrow> TCP_Client_Connection"

definition tcp_con_public_key :: "TCP_Client_Connection \<Rightarrow> bytes" where "tcp_con_public_key con = cl_public_key con"
definition tcp_con_ip_port :: "TCP_Client_Connection \<Rightarrow> IP_Port" where "tcp_con_ip_port con = cl_ip_port con"
definition tcp_con_status :: "TCP_Client_Connection \<Rightarrow> TCP_Client_Status" where "tcp_con_status con = cl_status con"
definition tcp_con_custom_object :: "TCP_Client_Connection \<Rightarrow> nat option" where "tcp_con_custom_object con = custom_object con"
definition tcp_con_custom_uint :: "TCP_Client_Connection \<Rightarrow> u32" where "tcp_con_custom_uint con = custom_uint con"
definition tcp_con_set_custom_object :: "TCP_Client_Connection \<Rightarrow> nat option \<Rightarrow> TCP_Client_Connection" where
  "tcp_con_set_custom_object con obj = con\<lparr>custom_object := obj\<rparr>"
definition tcp_con_set_custom_uint :: "TCP_Client_Connection \<Rightarrow> u32 \<Rightarrow> TCP_Client_Connection" where
  "tcp_con_set_custom_uint con v = con\<lparr>custom_uint := v\<rparr>"

definition routing_response_handler :: "TCP_Client_Connection \<Rightarrow> nat option \<Rightarrow> TCP_Client_Connection" where
  "routing_response_handler con cb = con\<lparr>response_callback := cb\<rparr>"
definition routing_status_handler :: "TCP_Client_Connection \<Rightarrow> nat option \<Rightarrow> TCP_Client_Connection" where
  "routing_status_handler con cb = con\<lparr>status_callback := cb\<rparr>"
definition routing_data_handler :: "TCP_Client_Connection \<Rightarrow> nat option \<Rightarrow> TCP_Client_Connection" where
  "routing_data_handler con cb = con\<lparr>data_callback := cb\<rparr>"
definition oob_data_handler :: "TCP_Client_Connection \<Rightarrow> nat option \<Rightarrow> TCP_Client_Connection" where
  "oob_data_handler con cb = con\<lparr>oob_data_callback := cb\<rparr>"
definition onion_response_handler :: "TCP_Client_Connection \<Rightarrow> nat option \<Rightarrow> TCP_Client_Connection" where
  "onion_response_handler con cb = con\<lparr>onion_callback := cb\<rparr>"
definition forwarding_handler :: "TCP_Client_Connection \<Rightarrow> nat option \<Rightarrow> TCP_Client_Connection" where
  "forwarding_handler con cb = con\<lparr>forwarded_response_callback := cb\<rparr>"

definition connect_sock_to :: "client_env \<Rightarrow> Sock \<Rightarrow> IP_Port \<Rightarrow> TCP_Proxy_Info \<Rightarrow> bool" where
  "connect_sock_to E sock ip_port proxy = ce_connect E sock (if pi_proxy_type proxy \<noteq> TCP_PROXY_NONE then pi_ip_port proxy else ip_port)"

section \<open>Proxies\<close>

definition ascii :: "string \<Rightarrow> bytes" where
  "ascii s = map (\<lambda>c. of_nat (of_char c)) s"

fun decimal :: "nat \<Rightarrow> bytes" where
  "decimal n = (if n < 10 then [48 + of_nat n] else decimal (n div 10) @ [48 + of_nat (n mod 10)])"

declare decimal.simps [simp del]

definition crlf :: bytes where "crlf = [13, 10]"

definition upd_con :: "(TCP_Connection \<Rightarrow> TCP_Connection) \<Rightarrow> TCP_Client_Connection \<Rightarrow> TCP_Client_Connection" where
  "upd_con f con = con\<lparr>cl_con := f (cl_con con)\<rparr>"

text \<open>The packet at the beginning of \<^verbatim>\<open>last_packet\<close> is to be sent.\<close>

definition set_last_packet :: "bytes \<Rightarrow> nat \<Rightarrow> TCP_Client_Connection \<Rightarrow> TCP_Client_Connection" where
  "set_last_packet bs n con = upd_con (\<lambda>c. c\<lparr>last_packet := write_at 0 bs (last_packet c), last_packet_length := of_nat n, last_packet_sent := 0\<rparr>) con"

text \<open>\<^verbatim>\<open>snprintf\<close> writes at most the size it is given, with a zero at the end.\<close>

definition proxy_http_generate_connection_request :: "client_env \<Rightarrow> TCP_Client_Connection \<Rightarrow> int \<times> TCP_Client_Connection" where
  "proxy_http_generate_connection_request E con =
     (case ce_inet_ntop E (ip (cl_ip_port con)) of
        None \<Rightarrow> (0, con)
      | Some txt \<Rightarrow>
          let prt = decimal (unat (net_ntohs (port (cl_ip_port con))));
              text = ascii ''CONNECT '' @ txt @ ascii '':'' @ prt @ ascii '' HTTP/1.1'' @ [10] @ ascii ''Host: '' @ txt @ ascii '':'' @ prt @ crlf @ crlf
          in if length text > MAX_PACKET_SIZE
             then (0, upd_con (\<lambda>c. c\<lparr>last_packet := write_at 0 (take (MAX_PACKET_SIZE - 1) text @ [0]) (last_packet c)\<rparr>) con)
             else (1, set_last_packet (take (MAX_PACKET_SIZE - 1) text @ [0]) (length text) con))"

definition upd_sock :: "Sock \<Rightarrow> TCP_Client_Connection \<Rightarrow> TCP_Client_Connection" where
  "upd_sock sock con = upd_con (\<lambda>c. c\<lparr>tc_sock := sock\<rparr>) con"

fun drain :: "nat \<Rightarrow> Sock \<Rightarrow> Sock" where
  "drain data_left sock =
     (if data_left = 0 then sock
      else case read_TCP_packet sock (min data_left 16) of
          (None, sock) \<Rightarrow> sock
        | (Some _, sock) \<Rightarrow> drain (data_left - min data_left 16) sock)"

declare drain.simps [simp del]

definition strstr :: "bytes \<Rightarrow> bytes \<Rightarrow> bool" where
  "strstr text pat = (let s = takeWhile (\<lambda>b. b \<noteq> 0) text in list_ex (\<lambda>i. take (length pat) (drop i s) = pat) [0..<length s])"

definition proxy_http_read_connection_response :: "TCP_Client_Connection \<Rightarrow> int \<times> TCP_Client_Connection" where
  "proxy_http_read_connection_response con =
     (case read_TCP_packet (tc_sock (cl_con con)) 15 of
        (None, sock) \<Rightarrow> (0, upd_sock sock con)
      | (Some data, sock) \<Rightarrow>
          if strstr data (ascii ''200'') then (1, upd_sock (drain (unat (net_socket_data_recv_buffer sock)) sock) con) else (- 1, upd_sock sock con))"

definition proxy_socks5_generate_greetings :: "TCP_Client_Connection \<Rightarrow> TCP_Client_Connection" where
  "proxy_socks5_generate_greetings con =
     set_last_packet [TCP_SOCKS5_PROXY_HS_VERSION_SOCKS5, TCP_SOCKS5_PROXY_HS_AUTH_METHODS_SUPPORTED, TCP_SOCKS5_PROXY_HS_NO_AUTH] 3 con"

definition socks5_granted :: "bytes \<Rightarrow> bool" where
  "socks5_granted data \<longleftrightarrow> data ! 0 = TCP_SOCKS5_PROXY_HS_VERSION_SOCKS5 \<and> data ! 1 = TCP_SOCKS5_PROXY_HS_COMM_REQUEST_GRANTED"

definition socks5_read_handshake_response :: "TCP_Client_Connection \<Rightarrow> int \<times> TCP_Client_Connection" where
  "socks5_read_handshake_response con =
     (case read_TCP_packet (tc_sock (cl_con con)) 2 of
        (None, sock) \<Rightarrow> (0, upd_sock sock con)
      | (Some data, sock) \<Rightarrow> (if socks5_granted data then 1 else - 1, upd_sock sock con))"

definition proxy_socks5_generate_connection_request :: "TCP_Client_Connection \<Rightarrow> TCP_Client_Connection" where
  "proxy_socks5_generate_connection_request con =
     (let a = ip (cl_ip_port con);
          packet = [TCP_SOCKS5_PROXY_HS_VERSION_SOCKS5, TCP_SOCKS5_PROXY_HS_COMM_ESTABLISH_REQUEST, TCP_SOCKS5_PROXY_HS_RESERVED] @
            (if net_family_is_ipv4 (family a) then TCP_SOCKS5_PROXY_HS_ADDR_TYPE_IPV4 # take SIZE_IP4 (addr a)
             else TCP_SOCKS5_PROXY_HS_ADDR_TYPE_IPV6 # take SIZE_IP6 (addr a)) @ host_bytes 2 (port (cl_ip_port con))
      in set_last_packet packet (length packet) con)"

definition proxy_socks5_read_connection_response :: "TCP_Client_Connection \<Rightarrow> int \<times> TCP_Client_Connection" where
  "proxy_socks5_read_connection_response con =
     (case read_TCP_packet (tc_sock (cl_con con)) (if net_family_is_ipv4 (family (ip (cl_ip_port con))) then 4 + SIZE_IP4 + 2 else 4 + SIZE_IP6 + 2) of
        (None, sock) \<Rightarrow> (0, upd_sock sock con)
      | (Some data, sock) \<Rightarrow> (if socks5_granted data then 1 else - 1, upd_sock sock con))"

section \<open>Handshake\<close>

text \<open>The nonce is written into the packet before the encryption can fail.\<close>

definition generate_handshake :: "platform \<Rightarrow> Random \<Rightarrow> TCP_Client_Connection \<Rightarrow> int \<times> Random \<times> TCP_Client_Connection" where
  "generate_handshake P r con =
     (let ((temp_public_key, temp_secret_key), r) = crypto_new_keypair r;
          (sent_nonce, r) = random_nonce r;
          plain = temp_public_key @ sent_nonce;
          (nonce, r) = random_nonce r;
          con = upd_con (\<lambda>c. c\<lparr>tc_sent_nonce := sent_nonce,
            last_packet := write_at 0 (take CRYPTO_PUBLIC_KEY_SIZE (cl_self_public_key con) @ nonce) (last_packet c)\<rparr>) (con\<lparr>cl_temp_secret_key := temp_secret_key\<rparr>)
      in case encrypt_data_symmetric P (Some (tc_shared_key (cl_con con))) nonce plain of
           None \<Rightarrow> (- 1, r, con)
         | Some enc \<Rightarrow>
             let con = upd_con (\<lambda>c. c\<lparr>last_packet := write_at (CRYPTO_PUBLIC_KEY_SIZE + CRYPTO_NONCE_SIZE) enc (last_packet c)\<rparr>) con
             in if length enc \<noteq> CRYPTO_PUBLIC_KEY_SIZE + CRYPTO_NONCE_SIZE + CRYPTO_MAC_SIZE then (- 1, r, con)
                else (0, r, upd_con (\<lambda>c. c\<lparr>last_packet_length :=
                  of_nat (CRYPTO_PUBLIC_KEY_SIZE + CRYPTO_NONCE_SIZE + (CRYPTO_PUBLIC_KEY_SIZE + CRYPTO_NONCE_SIZE) + CRYPTO_MAC_SIZE), last_packet_sent := 0\<rparr>) con))"

definition handle_handshake :: "platform \<Rightarrow> TCP_Client_Connection \<Rightarrow> bytes \<Rightarrow> int \<times> TCP_Client_Connection" where
  "handle_handshake P con data =
     (case decrypt_data_symmetric P (Some (tc_shared_key (cl_con con))) (take CRYPTO_NONCE_SIZE data)
             (slice CRYPTO_NONCE_SIZE (TCP_SERVER_HANDSHAKE_SIZE - CRYPTO_NONCE_SIZE) data) of
        None \<Rightarrow> (- 1, con)
      | Some plain \<Rightarrow>
          if length plain \<noteq> CRYPTO_PUBLIC_KEY_SIZE + CRYPTO_NONCE_SIZE then (- 1, con)
          else
            let key = (case encrypt_precompute P (take CRYPTO_PUBLIC_KEY_SIZE plain) (cl_temp_secret_key con) of None \<Rightarrow> tc_shared_key (cl_con con) | Some k \<Rightarrow> k)
            in (0, upd_con (\<lambda>c. c\<lparr>tc_shared_key := key\<rparr>)
                 (con\<lparr>cl_recv_nonce := slice CRYPTO_PUBLIC_KEY_SIZE CRYPTO_NONCE_SIZE plain, cl_temp_secret_key := replicate CRYPTO_SECRET_KEY_SIZE 0\<rparr>)))"

section \<open>Sending\<close>

definition client_write :: "client_env \<Rightarrow> bytes \<Rightarrow> bool \<Rightarrow> TCP_Client_Connection \<Rightarrow> (int \<times> TCP_Client_Connection) option" where
  "client_write E data priority con =
     do {
       (r, c) \<leftarrow> write_packet_TCP_secure_connection (ce_plat E) (ce_calloc E (pq_heap (cl_con con))) (cl_con con) data priority;
       Some (r, con\<lparr>cl_con := c\<rparr>)
     }"

definition send_routing_request :: "client_env \<Rightarrow> TCP_Client_Connection \<Rightarrow> bytes \<Rightarrow> (int \<times> TCP_Client_Connection) option" where
  "send_routing_request E con public_key = client_write E (TCP_PACKET_ROUTING_REQUEST # take CRYPTO_PUBLIC_KEY_SIZE public_key) True con"

definition tcp_send_ping_request :: "client_env \<Rightarrow> TCP_Client_Connection \<Rightarrow> (int \<times> TCP_Client_Connection) option" where
  "tcp_send_ping_request E con =
     (if ping_request_id con = 0 then Some (1, con)
      else do {
        (ret, con) \<leftarrow> client_write E (TCP_PACKET_PING # host_bytes 8 (ping_request_id con)) True con;
        Some (ret, if ret = 1 then con\<lparr>ping_request_id := 0\<rparr> else con)
      })"

definition tcp_send_ping_response :: "client_env \<Rightarrow> TCP_Client_Connection \<Rightarrow> (int \<times> TCP_Client_Connection) option" where
  "tcp_send_ping_response E con =
     (if ping_response_id con = 0 then Some (1, con)
      else do {
        (ret, con) \<leftarrow> client_write E (TCP_PACKET_PONG # host_bytes 8 (ping_response_id con)) True con;
        Some (ret, if ret = 1 then con\<lparr>ping_response_id := 0\<rparr> else con)
      })"

definition send_data :: "client_env \<Rightarrow> TCP_Client_Connection \<Rightarrow> byte \<Rightarrow> bytes \<Rightarrow> (int \<times> TCP_Client_Connection) option" where
  "send_data E con con_id data =
     (if unat con_id \<ge> NUM_CLIENT_CONNECTIONS then Some (- 1, con)
      else if cn_status (cl_connections con ! unat con_id) \<noteq> 2 then Some (- 1, con)
      else do {
        (a, con) \<leftarrow> tcp_send_ping_response E con;
        if a = 0 then Some (0, con)
        else do {
          (b, con) \<leftarrow> tcp_send_ping_request E con;
          if b = 0 then Some (0, con) else client_write E ((con_id + NUM_RESERVED_PORTS) # data) False con
        }
      })"

definition send_oob_packet :: "client_env \<Rightarrow> TCP_Client_Connection \<Rightarrow> bytes \<Rightarrow> bytes \<Rightarrow> (int \<times> TCP_Client_Connection) option" where
  "send_oob_packet E con public_key data =
     (if length data = 0 \<or> length data > TCP_MAX_OOB_DATA_LENGTH then Some (- 1, con)
      else client_write E (TCP_PACKET_OOB_SEND # take CRYPTO_PUBLIC_KEY_SIZE public_key @ data) False con)"

definition upd_slot :: "nat \<Rightarrow> (TCP_Client_Conn \<Rightarrow> TCP_Client_Conn) \<Rightarrow> TCP_Client_Connection \<Rightarrow> TCP_Client_Connection" where
  "upd_slot i f con = con\<lparr>cl_connections := (cl_connections con)[i := f (cl_connections con ! i)]\<rparr>"

definition set_tcp_connection_number :: "TCP_Client_Connection \<Rightarrow> byte \<Rightarrow> u32 \<Rightarrow> int \<times> TCP_Client_Connection" where
  "set_tcp_connection_number con con_id number =
     (if unat con_id \<ge> NUM_CLIENT_CONNECTIONS then (- 1, con)
      else if cn_status (cl_connections con ! unat con_id) = 0 then (- 1, con)
      else (0, upd_slot (unat con_id) (\<lambda>c. c\<lparr>cn_number := number\<rparr>) con))"

definition client_send_disconnect_notification :: "client_env \<Rightarrow> TCP_Client_Connection \<Rightarrow> byte \<Rightarrow> (int \<times> TCP_Client_Connection) option" where
  "client_send_disconnect_notification E con n = client_write E [TCP_PACKET_DISCONNECT_NOTIFICATION, n] True con"

definition send_disconnect_request :: "client_env \<Rightarrow> TCP_Client_Connection \<Rightarrow> byte \<Rightarrow> (int \<times> TCP_Client_Connection) option" where
  "send_disconnect_request E con con_id =
     (if unat con_id \<ge> NUM_CLIENT_CONNECTIONS then Some (- 1, con)
      else client_send_disconnect_notification E (upd_slot (unat con_id) (\<lambda>c. c\<lparr>cn_status := 0, cn_number := 0\<rparr>) con) (con_id + NUM_RESERVED_PORTS))"

definition send_onion_request :: "client_env \<Rightarrow> TCP_Client_Connection \<Rightarrow> bytes \<Rightarrow> (int \<times> TCP_Client_Connection) option" where
  "send_onion_request E con data = client_write E (TCP_PACKET_ONION_REQUEST # data) False con"

definition send_forward_request_tcp :: "client_env \<Rightarrow> TCP_Client_Connection \<Rightarrow> IP_Port \<Rightarrow> bytes \<Rightarrow> (int \<times> TCP_Client_Connection) option" where
  "send_forward_request_tcp E con dest data =
     (if length data > MAX_FORWARD_DATA_SIZE then Some (- 1, con)
      else case pack_ip_port MAX_PACKED_IPPORT_SIZE dest of
          None \<Rightarrow> Some (0, con)
        | Some bs \<Rightarrow> client_write E (TCP_PACKET_FORWARD_REQUEST # bs @ data) False con)"

section \<open>New connections\<close>

definition zero_client_conn :: TCP_Client_Conn where
  "zero_client_conn = \<lparr>cn_status = 0, cn_public_key = replicate 32 0, cn_number = 0\<rparr>"

definition new_client :: "client_env \<Rightarrow> Sock \<Rightarrow> IP_Port \<Rightarrow> bytes \<Rightarrow> bytes \<Rightarrow> bytes \<Rightarrow> TCP_Proxy_Info \<Rightarrow> TCP_Client_Connection" where
  "new_client E sock ip_port public_key self_pk self_sk proxy_info =
     \<lparr>cl_con = zero_tcp_connection\<lparr>tc_ns := True, tc_sock := sock, tc_ip_port := ip_port,
        tc_shared_key := (case encrypt_precompute (ce_plat E) (take CRYPTO_PUBLIC_KEY_SIZE public_key) self_sk of None \<Rightarrow> replicate 32 0 | Some k \<Rightarrow> k)\<rparr>,
      cl_status = TCP_CLIENT_NO_STATUS, cl_self_public_key = take CRYPTO_PUBLIC_KEY_SIZE self_pk, cl_public_key = take CRYPTO_PUBLIC_KEY_SIZE public_key,
      cl_ip_port = ip_port, cl_proxy_info = proxy_info, cl_recv_nonce = replicate 24 0, cl_next_packet_length = 0, cl_temp_secret_key = replicate 32 0, kill_at = 0,
      cl_last_pinged = 0, cl_ping_id = 0, ping_response_id = 0, ping_request_id = 0, cl_connections = replicate NUM_CLIENT_CONNECTIONS zero_client_conn,
      response_callback = None, status_callback = None, data_callback = None, oob_data_callback = None, onion_callback = None, forwarded_response_callback = None,
      custom_object = None, custom_uint = 0\<rparr>"

text \<open>The result is the connection, or the socket that was closed.\<close>

definition new_TCP_connection ::
  "client_env \<Rightarrow> Mono_Time \<Rightarrow> Random \<Rightarrow> IP_Port \<Rightarrow> bytes \<Rightarrow> bytes \<Rightarrow> bytes \<Rightarrow> TCP_Proxy_Info option \<Rightarrow> (Sock option + TCP_Client_Connection) \<times> Random" where
  "new_TCP_connection E mt r ip_port public_key self_pk self_sk proxy =
     (let proxy_info = (case proxy of None \<Rightarrow> \<lparr>pi_ip_port = empty_ip_port, pi_proxy_type = TCP_PROXY_NONE\<rparr> | Some p \<Rightarrow> p);
          fam = (if pi_proxy_type proxy_info \<noteq> TCP_PROXY_NONE then family (ip (pi_ip_port proxy_info)) else family (ip ip_port))
      in if \<not> net_family_is_ipv4 (family (ip ip_port)) \<and> \<not> net_family_is_ipv6 (family (ip ip_port)) then (Inl None, r)
         else case ce_socket E fam of
             None \<Rightarrow> (Inl None, r)
           | Some sock \<Rightarrow>
               if \<not> ce_nosigpipe E sock then (Inl (Some sock), r)
               else if \<not> (ce_nonblock E sock \<and> connect_sock_to E sock ip_port proxy_info) then (Inl (Some sock), r)
               else if \<not> malloc_ok (ce_plat E) sizeof_TCP_Client_Connection then (Inl (Some sock), r)
               else
                 let temp = new_client E sock ip_port public_key self_pk self_sk proxy_info;
                     timer = (\<lambda>con. con\<lparr>kill_at := mono_time_get mt + TCP_CONNECTION_TIMEOUT\<rparr>)
                 in case pi_proxy_type proxy_info of
                      TCP_PROXY_HTTP \<Rightarrow> (Inr (timer (snd (proxy_http_generate_connection_request E (temp\<lparr>cl_status := TCP_CLIENT_PROXY_HTTP_CONNECTING\<rparr>)))), r)
                    | TCP_PROXY_SOCKS5 \<Rightarrow> (Inr (timer (proxy_socks5_generate_greetings (temp\<lparr>cl_status := TCP_CLIENT_PROXY_SOCKS5_CONNECTING\<rparr>))), r)
                    | TCP_PROXY_NONE \<Rightarrow>
                        (case generate_handshake (ce_plat E) r (temp\<lparr>cl_status := TCP_CLIENT_CONNECTING\<rparr>) of
                           (ret, r, con) \<Rightarrow> (if ret = - 1 then Inl (Some sock) else Inr (timer con), r)))"

definition kill_TCP_connection :: "TCP_Client_Connection \<Rightarrow> Sock option" where
  "kill_TCP_connection con =
     do { _ \<leftarrow> wipe_priority_list (pq_heap (cl_con con)) (priority_queue_start (cl_con con)); if tc_ns (cl_con con) then Some (tc_sock (cl_con con)) else None }"

section \<open>Packets from the relay\<close>

definition callback :: "client_env \<Rightarrow> nat option \<Rightarrow> client_call \<Rightarrow> TCP_Client_Connection \<Rightarrow> TCP_Client_Connection" where
  "callback E registered c con = (case registered of None \<Rightarrow> con | Some f \<Rightarrow> ce_call E f c con)"

definition handle_TCP_client_routing_response :: "client_env \<Rightarrow> TCP_Client_Connection \<Rightarrow> bytes \<Rightarrow> int \<times> TCP_Client_Connection" where
  "handle_TCP_client_routing_response E conn data =
     (if length data \<noteq> 1 + 1 + CRYPTO_PUBLIC_KEY_SIZE then (- 1, conn)
      else if data ! 1 < NUM_RESERVED_PORTS then (0, conn)
      else
        let con_id = data ! 1 - NUM_RESERVED_PORTS; pk = slice 2 CRYPTO_PUBLIC_KEY_SIZE data
        in if cn_status (cl_connections conn ! unat con_id) \<noteq> 0 then (0, conn)
           else
             let conn = upd_slot (unat con_id) (\<lambda>c. c\<lparr>cn_status := 1, cn_number := - 1, cn_public_key := pk\<rparr>) conn
             in (0, callback E (response_callback conn) (Cb_response con_id pk) conn))"

definition handle_TCP_client_connection_notification :: "client_env \<Rightarrow> TCP_Client_Connection \<Rightarrow> bytes \<Rightarrow> int \<times> TCP_Client_Connection" where
  "handle_TCP_client_connection_notification E conn data =
     (if length data \<noteq> 1 + 1 then (- 1, conn)
      else if data ! 1 < NUM_RESERVED_PORTS then (- 1, conn)
      else
        let con_id = data ! 1 - NUM_RESERVED_PORTS
        in if cn_status (cl_connections conn ! unat con_id) \<noteq> 1 then (0, conn)
           else
             let conn = upd_slot (unat con_id) (\<lambda>c. c\<lparr>cn_status := 2\<rparr>) conn
             in (0, callback E (status_callback conn) (Cb_status (cn_number (cl_connections conn ! unat con_id)) con_id 2) conn))"

definition handle_TCP_client_disconnect_notification :: "client_env \<Rightarrow> TCP_Client_Connection \<Rightarrow> bytes \<Rightarrow> int \<times> TCP_Client_Connection" where
  "handle_TCP_client_disconnect_notification E conn data =
     (if length data \<noteq> 1 + 1 then (- 1, conn)
      else if data ! 1 < NUM_RESERVED_PORTS then (- 1, conn)
      else
        let con_id = data ! 1 - NUM_RESERVED_PORTS
        in if cn_status (cl_connections conn ! unat con_id) = 0 then (0, conn)
           else if cn_status (cl_connections conn ! unat con_id) \<noteq> 2 then (0, conn)
           else
             let conn = upd_slot (unat con_id) (\<lambda>c. c\<lparr>cn_status := 1\<rparr>) conn
             in (0, callback E (status_callback conn) (Cb_status (cn_number (cl_connections conn ! unat con_id)) con_id 1) conn))"

definition handle_TCP_client_ping :: "client_env \<Rightarrow> TCP_Client_Connection \<Rightarrow> bytes \<Rightarrow> (int \<times> TCP_Client_Connection) option" where
  "handle_TCP_client_ping E conn data =
     (if length data \<noteq> 1 + 8 then Some (- 1, conn)
      else do { (_, conn) \<leftarrow> tcp_send_ping_response E (conn\<lparr>ping_response_id := host_word (drop 1 data)\<rparr>); Some (0, conn) })"

definition handle_TCP_client_pong :: "TCP_Client_Connection \<Rightarrow> bytes \<Rightarrow> int \<times> TCP_Client_Connection" where
  "handle_TCP_client_pong conn data =
     (if length data \<noteq> 1 + 8 then (- 1, conn)
      else
        let pid = host_word (drop 1 data)
        in if pid \<noteq> 0 then (0, if pid = cl_ping_id conn then conn\<lparr>cl_ping_id := 0\<rparr> else conn) else (- 1, conn))"

definition handle_TCP_client_oob_recv :: "client_env \<Rightarrow> TCP_Client_Connection \<Rightarrow> bytes \<Rightarrow> int \<times> TCP_Client_Connection" where
  "handle_TCP_client_oob_recv E conn data =
     (if length data \<le> 1 + CRYPTO_PUBLIC_KEY_SIZE then (- 1, conn)
      else (0, callback E (oob_data_callback conn) (Cb_oob (slice 1 CRYPTO_PUBLIC_KEY_SIZE data) (drop (1 + CRYPTO_PUBLIC_KEY_SIZE) data)) conn))"

definition handle_TCP_client_packet :: "client_env \<Rightarrow> TCP_Client_Connection \<Rightarrow> bytes \<Rightarrow> (int \<times> TCP_Client_Connection) option" where
  "handle_TCP_client_packet E conn data =
     (if length data \<le> 1 then Some (- 1, conn)
      else
        let t = data ! 0
        in if t = TCP_PACKET_ROUTING_RESPONSE then Some (handle_TCP_client_routing_response E conn data)
           else if t = TCP_PACKET_CONNECTION_NOTIFICATION then Some (handle_TCP_client_connection_notification E conn data)
           else if t = TCP_PACKET_DISCONNECT_NOTIFICATION then Some (handle_TCP_client_disconnect_notification E conn data)
           else if t = TCP_PACKET_PING then handle_TCP_client_ping E conn data
           else if t = TCP_PACKET_PONG then Some (handle_TCP_client_pong conn data)
           else if t = TCP_PACKET_OOB_RECV then Some (handle_TCP_client_oob_recv E conn data)
           else if t = TCP_PACKET_ONION_RESPONSE then Some (0, callback E (onion_callback conn) (Cb_onion (drop 1 data)) conn)
           else if t = TCP_PACKET_FORWARDING then Some (0, callback E (forwarded_response_callback conn) (Cb_forwarded (drop 1 data)) conn)
           else if t < NUM_RESERVED_PORTS then Some (- 1, conn)
           else
             let con_id = t - NUM_RESERVED_PORTS
             in Some (0, callback E (data_callback conn) (Cb_data (cn_number (cl_connections conn ! unat con_id)) con_id (drop 1 data)) conn))"

definition tcp_process_packet :: "client_env \<Rightarrow> TCP_Client_Connection \<Rightarrow> (bool \<times> TCP_Client_Connection) option" where
  "tcp_process_packet E conn =
     (if \<not> tc_ns (cl_con conn) then None
      else case read_packet_TCP_secure_connection (ce_plat E) (tc_shared_key (cl_con conn)) MAX_PACKET_SIZE
                  \<lparr>rd_sock = tc_sock (cl_con conn), next_packet_length = cl_next_packet_length conn, rd_nonce = cl_recv_nonce conn\<rparr> of
          (x, rd) \<Rightarrow>
            let conn = (upd_sock (rd_sock rd) conn)\<lparr>cl_next_packet_length := next_packet_length rd, cl_recv_nonce := rd_nonce rd\<rparr>
            in case x of
                 Nothing \<Rightarrow> Some (False, conn)
               | Killed \<Rightarrow> Some (False, conn\<lparr>cl_status := TCP_CLIENT_DISCONNECTED\<rparr>)
               | Packet packet \<Rightarrow> do {
                   (r, conn) \<leftarrow> handle_TCP_client_packet E conn packet;
                   Some (if r = - 1 then (False, conn\<lparr>cl_status := TCP_CLIENT_DISCONNECTED\<rparr>) else (True, conn))
                 })"

partial_function (option) process_packets :: "client_env \<Rightarrow> TCP_Client_Connection \<Rightarrow> TCP_Client_Connection option" where
  "process_packets E conn = do { (more, conn) \<leftarrow> tcp_process_packet E conn; if more then process_packets E conn else Some conn }"

definition do_confirmed_TCP :: "client_env \<Rightarrow> Mono_Time \<Rightarrow> Random \<Rightarrow> TCP_Client_Connection \<Rightarrow> (Random \<times> TCP_Client_Connection) option" where
  "do_confirmed_TCP E mt r conn =
     do {
       (_, c) \<leftarrow> send_pending_data (cl_con conn);
       (_, conn) \<leftarrow> tcp_send_ping_response E (conn\<lparr>cl_con := c\<rparr>);
       (_, conn) \<leftarrow> tcp_send_ping_request E conn;
       (r, conn) \<leftarrow> (if mono_time_is_timeout mt (cl_last_pinged conn) TCP_PING_FREQUENCY then do {
           let (n, r) = random_u64 r;
           let pid = (if n = 0 then n + 1 else n);
           (_, conn) \<leftarrow> tcp_send_ping_request E (conn\<lparr>ping_request_id := pid, cl_ping_id := pid\<rparr>);
           Some (r, conn\<lparr>cl_last_pinged := mono_time_get mt\<rparr>)
         }
         else Some (r, conn));
       if cl_ping_id conn \<noteq> 0 \<and> mono_time_is_timeout mt (cl_last_pinged conn) TCP_PING_TIMEOUT then
         Some (r, conn\<lparr>cl_status := TCP_CLIENT_DISCONNECTED\<rparr>)
       else do { conn \<leftarrow> process_packets E conn; Some (r, conn) }
     }"

text \<open>A step in which pending data is sent and, once all of it is sent, an answer is read.\<close>

definition after_sending ::
  "(TCP_Client_Connection \<Rightarrow> Random \<Rightarrow> (Random \<times> TCP_Client_Connection) option) \<Rightarrow> Random \<Rightarrow> TCP_Client_Connection \<Rightarrow> (Random \<times> TCP_Client_Connection) option" where
  "after_sending f r con =
     do {
       (ret, c) \<leftarrow> send_pending_data (cl_con con);
       let con = con\<lparr>cl_con := c\<rparr>;
       if ret = 0 then f con r else Some (r, con)
     }"

definition give_up :: "TCP_Client_Connection \<Rightarrow> TCP_Client_Connection" where
  "give_up con = con\<lparr>kill_at := 0, cl_status := TCP_CLIENT_DISCONNECTED\<rparr>"

definition answer ::
  "(TCP_Client_Connection \<Rightarrow> int \<times> TCP_Client_Connection) \<Rightarrow> (Random \<Rightarrow> TCP_Client_Connection \<Rightarrow> Random \<times> TCP_Client_Connection) \<Rightarrow> TCP_Client_Connection \<Rightarrow> Random
     \<Rightarrow> (Random \<times> TCP_Client_Connection) option" where
  "answer read granted con r =
     (if \<not> tc_ns (cl_con con) then None
      else case read con of
          (ret, con) \<Rightarrow> Some (if ret = - 1 then (r, give_up con) else if ret = 1 then granted r con else (r, con)))"

definition start_handshake :: "platform \<Rightarrow> Random \<Rightarrow> TCP_Client_Connection \<Rightarrow> Random \<times> TCP_Client_Connection" where
  "start_handshake P r con = (case generate_handshake P r con of (_, r, con) \<Rightarrow> (r, con\<lparr>cl_status := TCP_CLIENT_CONNECTING\<rparr>))"

definition step_http :: "client_env \<Rightarrow> Random \<Rightarrow> TCP_Client_Connection \<Rightarrow> (Random \<times> TCP_Client_Connection) option" where
  "step_http E r con =
     (if cl_status con \<noteq> TCP_CLIENT_PROXY_HTTP_CONNECTING then Some (r, con)
      else after_sending (answer proxy_http_read_connection_response (start_handshake (ce_plat E))) r con)"

definition step_socks5 :: "Random \<Rightarrow> TCP_Client_Connection \<Rightarrow> (Random \<times> TCP_Client_Connection) option" where
  "step_socks5 r con =
     (if cl_status con \<noteq> TCP_CLIENT_PROXY_SOCKS5_CONNECTING then Some (r, con)
      else after_sending (answer socks5_read_handshake_response
        (\<lambda>r con. (r, (proxy_socks5_generate_connection_request con)\<lparr>cl_status := TCP_CLIENT_PROXY_SOCKS5_UNCONFIRMED\<rparr>))) r con)"

definition step_socks5_unconfirmed :: "client_env \<Rightarrow> Random \<Rightarrow> TCP_Client_Connection \<Rightarrow> (Random \<times> TCP_Client_Connection) option" where
  "step_socks5_unconfirmed E r con =
     (if cl_status con \<noteq> TCP_CLIENT_PROXY_SOCKS5_UNCONFIRMED then Some (r, con)
      else after_sending (answer proxy_socks5_read_connection_response (start_handshake (ce_plat E))) r con)"

definition step_connecting :: "Random \<Rightarrow> TCP_Client_Connection \<Rightarrow> (Random \<times> TCP_Client_Connection) option" where
  "step_connecting r con =
     (if cl_status con \<noteq> TCP_CLIENT_CONNECTING then Some (r, con)
      else after_sending (\<lambda>con r. Some (r, con\<lparr>cl_status := TCP_CLIENT_UNCONFIRMED\<rparr>)) r con)"

definition step_unconfirmed :: "client_env \<Rightarrow> TCP_Client_Connection \<Rightarrow> TCP_Client_Connection option" where
  "step_unconfirmed E con =
     (if cl_status con \<noteq> TCP_CLIENT_UNCONFIRMED then Some con
      else if \<not> tc_ns (cl_con con) then None
      else case read_TCP_packet (tc_sock (cl_con con)) TCP_SERVER_HANDSHAKE_SIZE of
          (None, sock) \<Rightarrow> Some (upd_sock sock con)
        | (Some data, sock) \<Rightarrow>
            case handle_handshake (ce_plat E) (upd_sock sock con) data of
              (ret, con) \<Rightarrow> Some (if ret = 0 then con\<lparr>kill_at := - 1, cl_status := TCP_CLIENT_CONFIRMED\<rparr> else give_up con))"

definition do_TCP_connection :: "client_env \<Rightarrow> Mono_Time \<Rightarrow> Random \<Rightarrow> TCP_Client_Connection \<Rightarrow> (Random \<times> TCP_Client_Connection) option" where
  "do_TCP_connection E mt r con =
     (if cl_status con = TCP_CLIENT_DISCONNECTED then Some (r, con)
      else do {
        (r, con) \<leftarrow> step_http E r con;
        (r, con) \<leftarrow> step_socks5 r con;
        (r, con) \<leftarrow> step_socks5_unconfirmed E r con;
        (r, con) \<leftarrow> step_connecting r con;
        con \<leftarrow> step_unconfirmed E con;
        (r, con) \<leftarrow> (if cl_status con = TCP_CLIENT_CONFIRMED then do_confirmed_TCP E mt r con else Some (r, con));
        Some (r, if kill_at con \<le> mono_time_get mt then con\<lparr>cl_status := TCP_CLIENT_DISCONNECTED\<rparr> else con)
      })"

end
