(* ===== verification/TCP_Client_Run.thy ===== *)
theory TCP_Client_Run
  imports TCP_Client TCP_Relay_Run
begin

text \<open>
  A client of a TCP relay: the handshake gives both sides the same key and nonces, and the periodic work of the client ends, keeps the connection well-formed
  and leads through the states of a connection in order.
\<close>

section \<open>Handshake\<close>

lemma take_write_at: "take (length a + length b) (write_at (length a) b (write_at 0 a buf)) = a @ b"
  by (simp add: write_at_def)

lemma upd_con_sel [simp]:
  "cl_con (upd_con f con) = f (cl_con con)" "cl_status (upd_con f con) = cl_status con" "kill_at (upd_con f con) = kill_at con"
  "cl_connections (upd_con f con) = cl_connections con" "cl_temp_secret_key (upd_con f con) = cl_temp_secret_key con"
  "cl_self_public_key (upd_con f con) = cl_self_public_key con" "cl_recv_nonce (upd_con f con) = cl_recv_nonce con"
  by (simp_all add: upd_con_def)

lemma sealed_keys:
  assumes "box_platform P" "length pk = 32" "length csn = 24"
  obtains enc where "encrypt_data_symmetric P (Some k) n (pk @ csn) = Some enc" "length enc = 72" "decrypt_data_symmetric P (Some k) n enc = Some (pk @ csn)"
proof -
  have "pk @ csn \<noteq> []" using assms(2) by auto
  from box_platform.encrypt_decrypt [OF assms(1) this] that show ?thesis using assms(2,3) by fastforce
qed

lemma generate_handshake_packet:
  assumes "box_platform P" "length (cl_self_public_key con) = 32" "length (last_packet (cl_con con)) = 2 + MAX_PACKET_SIZE"
    "crypto_new_keypair r = ((pk, sk), r1)" "length pk = 32" "random_nonce r1 = (csn, r2)" "random_nonce r2 = (nonce, r3)"
  obtains con' enc where "generate_handshake P r con = (0, r3, con')" "encrypt_data_symmetric P (Some (tc_shared_key (cl_con con))) nonce (pk @ csn) = Some enc"
    "length enc = 72" "length csn = 24" "length nonce = 24"
    "con' = con\<lparr>cl_temp_secret_key := sk, cl_con := (cl_con con)\<lparr>tc_sent_nonce := csn,
       last_packet := write_at 0 (cl_self_public_key con @ nonce @ enc) (last_packet (cl_con con)), last_packet_length := 128, last_packet_sent := 0\<rparr>\<rparr>"
proof -
  have n: "length csn = 24" "length nonce = 24" using assms(6,7) by (auto dest: length_random_nonce)
  obtain enc where enc: "encrypt_data_symmetric P (Some (tc_shared_key (cl_con con))) nonce (pk @ csn) = Some enc" "length enc = 72"
    using sealed_keys [OF assms(1,5) n(1)] by blast
  have w: "write_at 56 enc (write_at 0 (cl_self_public_key con @ nonce) (last_packet (cl_con con))) =
    write_at 0 (cl_self_public_key con @ nonce @ enc) (last_packet (cl_con con))" using assms(2) n by (simp add: write_at_def add.commute)
  show ?thesis
  proof (rule that [OF _ enc n refl])
    show "generate_handshake P r con = (0, r3, con\<lparr>cl_temp_secret_key := sk, cl_con := (cl_con con)\<lparr>tc_sent_nonce := csn,
       last_packet := write_at 0 (cl_self_public_key con @ nonce @ enc) (last_packet (cl_con con)), last_packet_length := 128, last_packet_sent := 0\<rparr>\<rparr>)"
      using assms(2,4-7) enc w by (simp add: generate_handshake_def upd_con_def size_defs)
  qed
qed

lemma relay_answers:
  assumes "box_platform (te_plat E)" "sc_status con = TCP_STATUS_CONNECTED" "tc_ns (sc_con con)"
    "sk_send (tc_sock (sc_con con)) (sk_calls (tc_sock (sc_con con))) TCP_SERVER_HANDSHAKE_SIZE = int TCP_SERVER_HANDSHAKE_SIZE"
    "length cpk = 32" "length nonce = 24" "encrypt_precompute (te_plat E) cpk sk = Some k"
    "length pk = 32" "length csn = 24" "encrypt_data_symmetric (te_plat E) (Some k) nonce (pk @ csn) = Some enc"
    "crypto_new_keypair r = ((spk, ssk), r1)" "length spk = 32" "random_nonce r1 = (ssn, r2)" "random_nonce r2 = (snonce, r3)"
    "encrypt_precompute (te_plat E) pk ssk = Some session"
  obtains con' reply where "handle_TCP_handshake E r con (cpk @ nonce @ enc) sk = Some (1, r3, con')"
    "encrypt_data_symmetric (te_plat E) (Some k) snonce (spk @ ssn) = Some reply" "length reply = 72" "length snonce = 24" "length ssn = 24"
    "sk_wire (tc_sock (sc_con con')) = sk_wire (tc_sock (sc_con con)) @ snonce @ reply" "sc_status con' = TCP_STATUS_UNCONFIRMED" "sc_public_key con' = cpk"
    "sc_recv_nonce con' = csn" "tc_sent_nonce (sc_con con') = ssn" "tc_shared_key (sc_con con') = session"
proof -
  have n: "length ssn = 24" "length snonce = 24" using assms(13,14) by (auto dest: length_random_nonce)
  have enc: "length enc = 72" "decrypt_data_symmetric (te_plat E) (Some k) nonce enc = Some (pk @ csn)"
    using sealed_keys [OF assms(1,8,9), of k nonce] assms(10) by auto
  obtain reply where reply: "encrypt_data_symmetric (te_plat E) (Some k) snonce (spk @ ssn) = Some reply" "length reply = 72"
    using sealed_keys [OF assms(1,12) n(1)] by blast
  show ?thesis
    by (rule that [OF _ reply n(2,1), of "con\<lparr>sc_public_key := cpk, sc_recv_nonce := csn, sc_status := TCP_STATUS_UNCONFIRMED,
        sc_con := (sc_con con)\<lparr>tc_sent_nonce := ssn, tc_shared_key := session,
          tc_sock := (tc_sock (sc_con con))\<lparr>sk_calls := sk_calls (tc_sock (sc_con con)) + 1, sk_wire := sk_wire (tc_sock (sc_con con)) @ snonce @ reply\<rparr>\<rparr>\<rparr>"])
      (use assms n enc reply in \<open>simp_all add: handle_TCP_handshake_def size_defs slice_def con_send_def net_send_def\<close>)
qed

text \<open>C12: The handshake of a client with a relay whose key it knows. The client queues 128 bytes behind what it has written; the relay, if its socket takes its answer at once, answers them with 96
  bytes and knows the key of the client; the client accepts the answer. Then both have the same session key, made of the temporary keys, and the nonce each side sends with
  is the one the other reads with.\<close>

theorem tcp_handshake_agreement:
  assumes "box_platform (te_plat E)"
    and "encrypt_precompute (te_plat E) (cl_self_public_key con) relay_sk = Some (tc_shared_key (cl_con con))" "length (cl_self_public_key con) = 32"
    and "con_ok (cl_con con)" "con_idle (cl_con con)"
    and "sc_status rcon = TCP_STATUS_CONNECTED" "con_ok (sc_con rcon)"
      "sk_send (tc_sock (sc_con rcon)) (sk_calls (tc_sock (sc_con rcon))) TCP_SERVER_HANDSHAKE_SIZE = int TCP_SERVER_HANDSHAKE_SIZE"
    and "crypto_new_keypair r = ((cpk, csk), r1)" "crypto_new_keypair q = ((spk, ssk), q1)" "length cpk = 32" "length spk = 32"
      "encrypt_precompute (te_plat E) cpk ssk = Some session" "encrypt_precompute (te_plat E) spk csk = Some session"
  shows "\<exists>r' con1 packet q' rcon1 reply con2. generate_handshake (te_plat E) r con = (0, r', con1) \<and> length packet = TCP_CLIENT_HANDSHAKE_SIZE \<and>
    con_stream (cl_con con1) (sk_wire (tc_sock (cl_con con)) @ packet) \<and>
    handle_TCP_handshake E q rcon packet relay_sk = Some (1, q', rcon1) \<and> sc_public_key rcon1 = cl_self_public_key con \<and>
    sk_wire (tc_sock (sc_con rcon1)) = sk_wire (tc_sock (sc_con rcon)) @ reply \<and> length reply = TCP_SERVER_HANDSHAKE_SIZE \<and>
    handle_handshake (te_plat E) con1 reply = (0, con2) \<and>
    tc_shared_key (cl_con con2) = session \<and> tc_shared_key (sc_con rcon1) = session \<and>
    cl_recv_nonce con2 = tc_sent_nonce (sc_con rcon1) \<and> sc_recv_nonce rcon1 = tc_sent_nonce (cl_con con2)"
proof -
  obtain csn r2 where r2: "random_nonce r1 = (csn, r2)" by fastforce
  obtain nonce r3 where r3: "random_nonce r2 = (nonce, r3)" by fastforce
  obtain ssn q2 where q2: "random_nonce q1 = (ssn, q2)" by fastforce
  obtain snonce q3 where q3: "random_nonce q2 = (snonce, q3)" by fastforce
  obtain s where stream: "con_stream (cl_con con) s" using assms(4) by (auto simp: con_ok_def)
  have last: "length (last_packet (cl_con con)) = 2 + MAX_PACKET_SIZE" using stream by (auto simp: con_stream_def last_ok_def)
  obtain con1 enc where g: "generate_handshake (te_plat E) r con = (0, r3, con1)"
    "encrypt_data_symmetric (te_plat E) (Some (tc_shared_key (cl_con con))) nonce (cpk @ csn) = Some enc" "length enc = 72" "length csn = 24" "length nonce = 24"
    and con1: "con1 = con\<lparr>cl_temp_secret_key := csk, cl_con := (cl_con con)\<lparr>tc_sent_nonce := csn,
       last_packet := write_at 0 (cl_self_public_key con @ nonce @ enc) (last_packet (cl_con con)), last_packet_length := 128, last_packet_sent := 0\<rparr>\<rparr>"
    using generate_handshake_packet [OF assms(1,3) last assms(9,11) r2 r3] by blast
  let ?packet = "cl_self_public_key con @ nonce @ enc"
  obtain rcon1 reply where h: "handle_TCP_handshake E q rcon ?packet relay_sk = Some (1, q3, rcon1)"
    "encrypt_data_symmetric (te_plat E) (Some (tc_shared_key (cl_con con))) snonce (spk @ ssn) = Some reply" "length reply = 72" "length snonce = 24" "length ssn = 24"
    "sk_wire (tc_sock (sc_con rcon1)) = sk_wire (tc_sock (sc_con rcon)) @ snonce @ reply" "sc_public_key rcon1 = cl_self_public_key con"
    "sc_recv_nonce rcon1 = csn" "tc_sent_nonce (sc_con rcon1) = ssn" "tc_shared_key (sc_con rcon1) = session"
    using relay_answers [OF assms(1,6) _ assms(8,3) g(5) assms(2,11) g(4,2) assms(10,12) q2 q3 assms(13)] assms(7) unfolding con_ok_def by metis
  have "decrypt_data_symmetric (te_plat E) (Some (tc_shared_key (cl_con con))) snonce reply = Some (spk @ ssn)"
    using sealed_keys [OF assms(1,12) h(5), of "tc_shared_key (cl_con con)" snonce] h(2) by auto
  then have hh: "handle_handshake (te_plat E) con1 (snonce @ reply) =
      (0, con1\<lparr>cl_con := (cl_con con1)\<lparr>tc_shared_key := session\<rparr>, cl_recv_nonce := ssn, cl_temp_secret_key := replicate CRYPTO_SECRET_KEY_SIZE 0\<rparr>)"
    (is "_ = (0, ?con2)") using h(3-5) assms(12,14) by (simp add: handle_handshake_def con1 upd_con_def size_defs slice_def)
  have st: "con_stream (cl_con con1) (sk_wire (tc_sock (cl_con con)) @ ?packet)"
    using stream assms(3,5) g(3-5) last by (auto simp: con1 con_stream_def con_idle_def last_ok_def last_rest_def queue_ok_def pq_seg_None write_at_def slice_def size_defs)
  have len: "length ?packet = TCP_CLIENT_HANDSHAKE_SIZE" "length (snonce @ reply) = TCP_SERVER_HANDSHAKE_SIZE" using assms(3) g(3-5) h(3,4) by (simp_all add: size_defs)
  have c2: "tc_shared_key (cl_con ?con2) = session" "cl_recv_nonce ?con2 = ssn" "tc_sent_nonce (cl_con ?con2) = csn" by (simp_all add: con1)
  show ?thesis
    by (intro exI conjI, rule g(1), rule len(1), rule st, rule h(1), rule h(7), rule h(6), rule len(2), rule hh) (simp_all only: c2 h(8-10))
qed

section \<open>Well-formed connections\<close>

definition slot_ok :: "TCP_Client_Conn \<Rightarrow> bool" where
  "slot_ok c \<longleftrightarrow> cn_status c \<le> 2 \<and> length (cn_public_key c) = CRYPTO_PUBLIC_KEY_SIZE"

text \<open>A confirmed connection has no deadline.\<close>

definition client_ok :: "TCP_Client_Connection \<Rightarrow> bool" where
  "client_ok con \<longleftrightarrow> con_ok (cl_con con) \<and> length (cl_self_public_key con) = CRYPTO_PUBLIC_KEY_SIZE \<and> length (cl_connections con) = NUM_CLIENT_CONNECTIONS \<and>
     (\<forall>c \<in> set (cl_connections con). slot_ok c) \<and> (cl_status con = TCP_CLIENT_CONFIRMED \<longrightarrow> kill_at con = - 1)"

definition waiting :: "TCP_Client_Connection \<Rightarrow> nat" where
  "waiting con = length (sk_in (tc_sock (cl_con con)))"

text \<open>State and deadline stay, and no input arrives.\<close>

definition calm :: "TCP_Client_Connection \<Rightarrow> TCP_Client_Connection \<Rightarrow> bool" where
  "calm a b \<longleftrightarrow> cl_status b = cl_status a \<and> kill_at b = kill_at a \<and> waiting b \<le> waiting a"

lemma calm_refl [simp]: "calm a a"
  by (simp add: calm_def)

lemma calm_trans: "calm a b \<Longrightarrow> calm b c \<Longrightarrow> calm a c"
  by (auto simp: calm_def)

lemma client_okI:
  assumes "client_ok con" "con_ok (cl_con con')" "cl_self_public_key con' = cl_self_public_key con" "cl_connections con' = cl_connections con"
    "cl_status con' = TCP_CLIENT_CONFIRMED \<longrightarrow> kill_at con' = - 1"
  shows "client_ok con'"
  using assms by (simp add: client_ok_def)

lemma client_ok_upd [simp]:
  "client_ok (con\<lparr>ping_request_id := a\<rparr>) = client_ok con" "client_ok (con\<lparr>ping_response_id := a\<rparr>) = client_ok con"
  "client_ok (con\<lparr>cl_ping_id := a\<rparr>) = client_ok con" "client_ok (con\<lparr>cl_last_pinged := a\<rparr>) = client_ok con"
  "client_ok (con\<lparr>cl_recv_nonce := n\<rparr>) = client_ok con" "client_ok (con\<lparr>cl_next_packet_length := l\<rparr>) = client_ok con"
  by (simp_all add: client_ok_def)

lemma client_ok_disconnected [simp]: "client_ok con \<Longrightarrow> client_ok (con\<lparr>cl_status := TCP_CLIENT_DISCONNECTED\<rparr>)"
  by (simp add: client_ok_def)

lemma waiting_upd [simp]:
  "waiting (con\<lparr>ping_request_id := a\<rparr>) = waiting con" "waiting (con\<lparr>ping_response_id := a\<rparr>) = waiting con" "waiting (con\<lparr>cl_ping_id := a\<rparr>) = waiting con"
  "waiting (con\<lparr>cl_last_pinged := a\<rparr>) = waiting con" "waiting (con\<lparr>cl_recv_nonce := n\<rparr>) = waiting con" "waiting (con\<lparr>cl_next_packet_length := l\<rparr>) = waiting con"
  "waiting (con\<lparr>cl_status := st\<rparr>) = waiting con" "waiting (con\<lparr>cl_con := c\<rparr>) = length (sk_in (tc_sock c))"
  by (simp_all add: waiting_def)

lemma calm_upd [simp]:
  "calm con (con\<lparr>ping_request_id := a\<rparr>)" "calm con (con\<lparr>ping_response_id := a\<rparr>)" "calm con (con\<lparr>cl_ping_id := a\<rparr>)" "calm con (con\<lparr>cl_last_pinged := a\<rparr>)"
  "calm (con\<lparr>ping_request_id := a\<rparr>) con' = calm con con'" "calm (con\<lparr>ping_response_id := a\<rparr>) con' = calm con con'" "calm (con\<lparr>cl_ping_id := a\<rparr>) con' = calm con con'"
  "calm con (con'\<lparr>ping_request_id := a\<rparr>) = calm con con'" "calm con (con'\<lparr>ping_response_id := a\<rparr>) = calm con con'" "calm con (con'\<lparr>cl_last_pinged := a\<rparr>) = calm con con'"
  by (simp_all add: calm_def)

lemma upd_slot_ok:
  assumes "client_ok con" "i < NUM_CLIENT_CONNECTIONS" "slot_ok (f (cl_connections con ! i))"
  shows "client_ok (upd_slot i f con)" "calm con (upd_slot i f con)"
proof -
  have "set ((cl_connections con)[i := f (cl_connections con ! i)]) \<subseteq> insert (f (cl_connections con ! i)) (set (cl_connections con))" by (rule set_update_subset_insert)
  then show "client_ok (upd_slot i f con)" using assms by (auto simp: client_ok_def upd_slot_def)
  show "calm con (upd_slot i f con)" by (simp add: calm_def waiting_def upd_slot_def)
qed

lemma client_slot: "client_ok con \<Longrightarrow> i < NUM_CLIENT_CONNECTIONS \<Longrightarrow> slot_ok (cl_connections con ! i)"
  by (simp add: client_ok_def)

text \<open>Public keys of new pairs have 32 bytes.\<close>

definition keypairs_ok :: "Random \<Rightarrow> bool" where
  "keypairs_ok r \<longleftrightarrow> (\<forall>n. length (fst (r_keypair r n)) = CRYPTO_PUBLIC_KEY_SIZE)"

lemma keypairs_ok_keypair:
  assumes "keypairs_ok r" "crypto_new_keypair r = ((pk, sk), r')"
  shows "length pk = 32" "keypairs_ok r'"
proof -
  have "pk = fst (r_keypair r (r_pos r))" "r' = r\<lparr>r_pos := r_pos r + 1\<rparr>" using assms(2) by (auto simp: crypto_new_keypair_def)
  then show "length pk = 32" "keypairs_ok r'" using assms(1) by (simp_all add: keypairs_ok_def size_defs)
qed

lemma keypairs_ok_random: "keypairs_ok r \<Longrightarrow> random_nonce r = (n, r') \<Longrightarrow> keypairs_ok r'" "keypairs_ok r \<Longrightarrow> random_u64 r = (x, r') \<Longrightarrow> keypairs_ok r'"
  by (auto simp: keypairs_ok_def random_nonce_def random_u64_def random_bytes_def Let_def)

text \<open>What the client relies on: memory and NaCl, a fresh address for every node, stream sockets, and functions of its user that keep the connection well-formed, its state and its deadline.\<close>

locale client_host =
  fixes E :: client_env
  assumes plat: "box_platform (ce_plat E)"
    and calloc: "finite (dom h) \<Longrightarrow> \<exists>a. ce_calloc E h = Some a \<and> a \<notin> dom h"
    and call: "client_ok con \<Longrightarrow> client_ok (ce_call E f c con)" "client_ok con \<Longrightarrow> calm con (ce_call E f c con)"
    and socket: "ce_socket E fam = Some sock \<Longrightarrow> stream_socket (sk_send sock) (sk_recv sock) (sk_count sock)"
begin

lemma client_write_ok:
  assumes "client_ok con"
  obtains r con' where "client_write E data priority con = Some (r, con')" "client_ok con'" "calm con con'"
proof -
  have ok: "con_ok (cl_con con)" using assms by (simp add: client_ok_def)
  obtain r c where w: "write_packet_TCP_secure_connection (ce_plat E) (ce_calloc E (pq_heap (cl_con con))) (cl_con con) data priority = Some (r, c)" "con_ok c" "sock_frame (cl_con con) c"
    by (rule write_con_ok [OF plat calloc ok])
  show ?thesis
  proof (rule that)
    show "client_write E data priority con = Some (r, con\<lparr>cl_con := c\<rparr>)" using w(1) by (simp add: client_write_def)
    show "client_ok (con\<lparr>cl_con := c\<rparr>)" using assms w(2) by (simp add: client_ok_def)
    show "calm con (con\<lparr>cl_con := c\<rparr>)" using w(3) by (simp add: calm_def waiting_def sock_frame_def)
  qed
qed

lemma ping_request_ok:
  assumes "client_ok con"
  obtains r con' where "tcp_send_ping_request E con = Some (r, con')" "client_ok con'" "calm con con'"
proof (cases "ping_request_id con = 0")
  case True
  then show ?thesis using that [of 1 con] assms by (simp add: tcp_send_ping_request_def)
next
  case False
  obtain r con' where w: "client_write E (TCP_PACKET_PING # host_bytes 8 (ping_request_id con)) True con = Some (r, con')" "client_ok con'" "calm con con'"
    by (rule client_write_ok [OF assms])
  show ?thesis by (rule that [of r "if r = 1 then con'\<lparr>ping_request_id := 0\<rparr> else con'"]) (use False w in \<open>simp_all add: tcp_send_ping_request_def\<close>)
qed

lemma ping_response_ok:
  assumes "client_ok con"
  obtains r con' where "tcp_send_ping_response E con = Some (r, con')" "client_ok con'" "calm con con'"
proof (cases "ping_response_id con = 0")
  case True
  then show ?thesis using that [of 1 con] assms by (simp add: tcp_send_ping_response_def)
next
  case False
  obtain r con' where w: "client_write E (TCP_PACKET_PONG # host_bytes 8 (ping_response_id con)) True con = Some (r, con')" "client_ok con'" "calm con con'"
    by (rule client_write_ok [OF assms])
  show ?thesis by (rule that [of r "if r = 1 then con'\<lparr>ping_response_id := 0\<rparr> else con'"]) (use False w in \<open>simp_all add: tcp_send_ping_response_def\<close>)
qed

lemma callback_ok: "client_ok con \<Longrightarrow> client_ok (callback E b c con)" "client_ok con \<Longrightarrow> calm con (callback E b c con)"
  by (simp_all add: callback_def call split: option.split)

lemma slot_event_ok:
  assumes "client_ok con" "\<not> d < NUM_RESERVED_PORTS" "\<And>c. slot_ok c \<Longrightarrow> slot_ok (f c)"
  shows "client_ok (callback E b x (upd_slot (unat (d - NUM_RESERVED_PORTS)) f con))" "calm con (callback E b x (upd_slot (unat (d - NUM_RESERVED_PORTS)) f con))"
proof -
  have "unat d < 256" by (rule order_less_le_trans [OF unsigned_less]) simp
  then have i: "unat (d - NUM_RESERVED_PORTS) < NUM_CLIENT_CONNECTIONS"
    using assms(2) by (simp add: not_less unat_sub size_defs)
  note u = upd_slot_ok [OF assms(1) i, of f, OF assms(3) [OF client_slot [OF assms(1) i]]]
  show "client_ok (callback E b x (upd_slot (unat (d - NUM_RESERVED_PORTS)) f con))" using callback_ok(1) [OF u(1)] .
  show "calm con (callback E b x (upd_slot (unat (d - NUM_RESERVED_PORTS)) f con))" using calm_trans [OF u(2) callback_ok(2) [OF u(1)]] .
qed

lemma handle_slot_packets_ok:
  assumes "client_ok con"
  shows "client_ok (snd (handle_TCP_client_routing_response E con data)) \<and> calm con (snd (handle_TCP_client_routing_response E con data))"
    "client_ok (snd (handle_TCP_client_connection_notification E con data)) \<and> calm con (snd (handle_TCP_client_connection_notification E con data))"
    "client_ok (snd (handle_TCP_client_disconnect_notification E con data)) \<and> calm con (snd (handle_TCP_client_disconnect_notification E con data))"
  using assms
  by (auto simp: handle_TCP_client_routing_response_def handle_TCP_client_connection_notification_def handle_TCP_client_disconnect_notification_def Let_def
    intro!: slot_event_ok) (auto simp: slot_ok_def slice_def size_defs)

lemma handle_packet_ok:
  assumes "client_ok con"
  obtains r con' where "handle_TCP_client_packet E con data = Some (r, con')" "client_ok con'" "calm con con'"
proof -
  have p: "\<exists>r con'. Some x = Some (r, con') \<and> client_ok con' \<and> calm con con'" if "client_ok (snd x) \<and> calm con (snd x)" for x :: "int \<times> TCP_Client_Connection"
    using that by (metis prod.collapse)
  have ping: "\<exists>r con'. handle_TCP_client_ping E con data = Some (r, con') \<and> client_ok con' \<and> calm con con'"
  proof -
    obtain r con' where "tcp_send_ping_response E (con\<lparr>ping_response_id := host_word (drop 1 data)\<rparr>) = Some (r, con')" "client_ok con'" "calm (con\<lparr>ping_response_id := host_word (drop 1 data)\<rparr>) con'"
      by (rule ping_response_ok [of "con\<lparr>ping_response_id := host_word (drop 1 data)\<rparr>"]) (use assms in simp_all)
    then show ?thesis using assms by (auto simp: handle_TCP_client_ping_def)
  qed
  have pong: "client_ok (snd (handle_TCP_client_pong con data)) \<and> calm con (snd (handle_TCP_client_pong con data))"
    using assms by (simp add: handle_TCP_client_pong_def Let_def)
  have oob: "client_ok (snd (handle_TCP_client_oob_recv E con data)) \<and> calm con (snd (handle_TCP_client_oob_recv E con data))"
    using assms by (simp add: handle_TCP_client_oob_recv_def callback_ok)
  have "\<exists>r con'. handle_TCP_client_packet E con data = Some (r, con') \<and> client_ok con' \<and> calm con con'"
    unfolding handle_TCP_client_packet_def Let_def
    using p [OF handle_slot_packets_ok(1) [OF assms]] p [OF handle_slot_packets_ok(2) [OF assms]] p [OF handle_slot_packets_ok(3) [OF assms]] p [OF pong] p [OF oob] ping assms callback_ok
    by (simp split del: option.split)
  then show ?thesis using that by blast
qed

lemma process_packet_ok:
  assumes "client_ok con"
  obtains more con' where "tcp_process_packet E con = Some (more, con')" "client_ok con'" "kill_at con' = kill_at con"
    "more \<Longrightarrow> cl_status con' = cl_status con \<and> waiting con' < waiting con" "cl_status con' = cl_status con \<or> cl_status con' = TCP_CLIENT_DISCONNECTED"
proof -
  let ?r = "\<lparr>rd_sock = tc_sock (cl_con con), next_packet_length = cl_next_packet_length con, rd_nonce = cl_recv_nonce con\<rparr>"
  obtain x rd where r: "read_packet_TCP_secure_connection (ce_plat E) (tc_shared_key (cl_con con)) MAX_PACKET_SIZE ?r = (x, rd)" by fastforce
  have ok: "con_ok (cl_con con)" using assms by (simp add: client_ok_def)
  define c1 where "c1 = (upd_sock (rd_sock rd) con)\<lparr>cl_next_packet_length := next_packet_length rd, cl_recv_nonce := rd_nonce rd\<rparr>"
  have c1: "client_ok c1" "kill_at c1 = kill_at con" "cl_status c1 = cl_status con"
    using assms con_ok_read [OF ok] read_packet_frame [OF r] by (simp_all add: c1_def client_ok_def upd_sock_def)
  have less: "waiting c1 < waiting con" if "x = Packet p" for p
    using read_packet_consumes [of _ _ _ ?r p rd] r that ok by (simp add: c1_def waiting_def upd_sock_def con_ok_def)
  have ns: "tc_ns (cl_con con)" using ok by (simp add: con_ok_def)
  show ?thesis
  proof (cases x)
    case Nothing
    then show ?thesis by (intro that [of False c1]) (use r ns c1 in \<open>simp_all add: tcp_process_packet_def flip: c1_def\<close>)
  next
    case Killed
    then show ?thesis by (intro that [of False "c1\<lparr>cl_status := TCP_CLIENT_DISCONNECTED\<rparr>"]) (use r ns c1 in \<open>simp_all add: tcp_process_packet_def flip: c1_def\<close>)
  next
    case (Packet p)
    obtain q c2 where h: "handle_TCP_client_packet E c1 p = Some (q, c2)" "client_ok c2" "calm c1 c2" by (rule handle_packet_ok [OF c1(1)])
    have t: "tcp_process_packet E con = Some (if q = - 1 then (False, c2\<lparr>cl_status := TCP_CLIENT_DISCONNECTED\<rparr>) else (True, c2))"
      using r ns Packet h(1) by (simp add: tcp_process_packet_def flip: c1_def)
    then show ?thesis
      by (intro that [of "q \<noteq> - 1" "if q = - 1 then c2\<lparr>cl_status := TCP_CLIENT_DISCONNECTED\<rparr> else c2"]) (use h c1 less [OF Packet] in \<open>auto simp: calm_def\<close>)
  qed
qed

lemma process_packets_ok:
  assumes "client_ok con"
  shows "\<exists>con'. process_packets E con = Some con' \<and> client_ok con' \<and> kill_at con' = kill_at con \<and> (cl_status con' = cl_status con \<or> cl_status con' = TCP_CLIENT_DISCONNECTED)"
  using assms
proof (induction "waiting con" arbitrary: con rule: less_induct)
  case less
  obtain more con' where p: "tcp_process_packet E con = Some (more, con')" "client_ok con'" "kill_at con' = kill_at con"
    "more \<Longrightarrow> cl_status con' = cl_status con \<and> waiting con' < waiting con" "cl_status con' = cl_status con \<or> cl_status con' = TCP_CLIENT_DISCONNECTED"
    by (rule process_packet_ok [OF less(2)]) blast
  show ?case
  proof (cases more)
    case True
    then show ?thesis using less(1) [OF _ p(2)] p by (subst process_packets.simps) simp
  next
    case False
    then show ?thesis using p by (subst process_packets.simps) simp
  qed
qed

lemma do_confirmed_ok:
  assumes "client_ok con" "keypairs_ok r"
  shows "\<exists>r' con'. do_confirmed_TCP E mt r con = Some (r', con') \<and> keypairs_ok r' \<and> client_ok con' \<and> kill_at con' = kill_at con \<and> (cl_status con' = cl_status con \<or> cl_status con' = TCP_CLIENT_DISCONNECTED)"
proof -
  have ok: "con_ok (cl_con con)" using assms(1) by (simp add: client_ok_def)
  obtain x c where s: "send_pending_data (cl_con con) = Some (x, c)" "con_ok c" "sock_frame (cl_con con) c" by (rule pending_ok [OF ok])
  have c0: "client_ok (con\<lparr>cl_con := c\<rparr>)" "calm con (con\<lparr>cl_con := c\<rparr>)" using assms(1) s by (simp_all add: client_ok_def calm_def waiting_def sock_frame_def)
  obtain a c1 where r1: "tcp_send_ping_response E (con\<lparr>cl_con := c\<rparr>) = Some (a, c1)" "client_ok c1" "calm (con\<lparr>cl_con := c\<rparr>) c1" by (rule ping_response_ok [OF c0(1)])
  obtain b c2 where r2: "tcp_send_ping_request E c1 = Some (b, c2)" "client_ok c2" "calm c1 c2" by (rule ping_request_ok [OF r1(2)])
  have 2: "calm con c2" using calm_trans [OF c0(2) calm_trans [OF r1(3) r2(3)]] .
  have "\<exists>r' c3. (if mono_time_is_timeout mt (cl_last_pinged c2) TCP_PING_FREQUENCY then do {
           let (n, r) = random_u64 r;
           let pid = (if n = 0 then n + 1 else n);
           (_, conn) \<leftarrow> tcp_send_ping_request E (c2\<lparr>ping_request_id := pid, cl_ping_id := pid\<rparr>);
           Some (r, conn\<lparr>cl_last_pinged := mono_time_get mt\<rparr>)
         } else Some (r, c2)) = Some (r', c3) \<and> keypairs_ok r' \<and> client_ok c3 \<and> calm c2 c3" (is "\<exists>r' c3. ?ping = _ \<and> _")
  proof (cases "mono_time_is_timeout mt (cl_last_pinged c2) TCP_PING_FREQUENCY")
    case True
    obtain n r' where n: "random_u64 r = (n, r')" by fastforce
    let ?c = "c2\<lparr>ping_request_id := if n = 0 then n + 1 else n, cl_ping_id := if n = 0 then n + 1 else n\<rparr>"
    obtain d c3 where "tcp_send_ping_request E ?c = Some (d, c3)" "client_ok c3" "calm ?c c3" by (rule ping_request_ok [of ?c]) (use r2(2) in simp_all)
    then show ?thesis using True n keypairs_ok_random(2) [OF assms(2) n] by (simp add: Let_def)
  qed (use r2(2) assms(2) in simp)
  then obtain r' c3 where r3: "?ping = Some (r', c3)" "client_ok c3" "calm c2 c3" and k: "keypairs_ok r'" by blast
  obtain c4 where r4: "process_packets E c3 = Some c4" "client_ok c4" "kill_at c4 = kill_at c3" "cl_status c4 = cl_status c3 \<or> cl_status c4 = TCP_CLIENT_DISCONNECTED"
    using process_packets_ok [OF r3(2)] by blast
  have "do_confirmed_TCP E mt r con = Some (r', if cl_ping_id c3 \<noteq> 0 \<and> mono_time_is_timeout mt (cl_last_pinged c3) TCP_PING_TIMEOUT then c3\<lparr>cl_status := TCP_CLIENT_DISCONNECTED\<rparr> else c4)"
    unfolding do_confirmed_TCP_def using s(1) r1(1) r2(1) r3(1) r4(1) by simp
  then show ?thesis using calm_trans [OF 2 r3(3)] r3(2) r4 k by (auto simp: calm_def)
qed

end

section \<open>States of a connection\<close>

inductive client_next :: "TCP_Client_Status \<Rightarrow> TCP_Client_Status \<Rightarrow> bool" where
  http: "client_next TCP_CLIENT_PROXY_HTTP_CONNECTING TCP_CLIENT_CONNECTING"
| greeted: "client_next TCP_CLIENT_PROXY_SOCKS5_CONNECTING TCP_CLIENT_PROXY_SOCKS5_UNCONFIRMED"
| socks5: "client_next TCP_CLIENT_PROXY_SOCKS5_UNCONFIRMED TCP_CLIENT_CONNECTING"
| shake: "client_next TCP_CLIENT_CONNECTING TCP_CLIENT_UNCONFIRMED"
| confirm: "client_next TCP_CLIENT_UNCONFIRMED TCP_CLIENT_CONFIRMED"
| give_up: "client_next st TCP_CLIENT_DISCONNECTED"

text \<open>A deadline is kept, or the connection is given up at once, or it has been confirmed.\<close>

definition moves :: "TCP_Client_Connection \<Rightarrow> TCP_Client_Connection \<Rightarrow> bool" where
  "moves a b \<longleftrightarrow> client_ok b \<and> client_next\<^sup>*\<^sup>* (cl_status a) (cl_status b) \<and>
     (kill_at b = kill_at a \<or> kill_at b = 0 \<or> cl_status b = TCP_CLIENT_CONFIRMED \<or> cl_status b = TCP_CLIENT_DISCONNECTED)"

lemma moves_refl: "client_ok a \<Longrightarrow> moves a a"
  by (simp add: moves_def)

lemma confirmed_next: "client_next\<^sup>*\<^sup>* a b \<Longrightarrow> a = TCP_CLIENT_CONFIRMED \<or> a = TCP_CLIENT_DISCONNECTED \<Longrightarrow> b = TCP_CLIENT_CONFIRMED \<or> b = TCP_CLIENT_DISCONNECTED"
  by (induction rule: rtranclp_induct) (auto elim: client_next.cases)

lemma moves_trans:
  assumes "moves a b" "moves b c"
  shows "moves a c"
proof -
  have "client_next\<^sup>*\<^sup>* (cl_status a) (cl_status c)" using assms by (auto simp: moves_def)
  then show ?thesis using assms confirmed_next [of "cl_status b" "cl_status c"] by (auto simp: moves_def)
qed

lemma moves_step:
  assumes "client_ok b" "kill_at b = kill_at a" "cl_status b = cl_status a \<or> client_next (cl_status a) (cl_status b)"
  shows "moves a b"
  using assms by (auto simp: moves_def)

lemma calm_moves: "client_ok b \<Longrightarrow> calm a b \<Longrightarrow> moves a b"
  by (rule moves_step) (simp_all add: calm_def)

text \<open>What the client does to its connection, drawing random numbers.\<close>

definition goes :: "TCP_Client_Connection \<Rightarrow> (Random \<times> TCP_Client_Connection) option \<Rightarrow> bool" where
  "goes con x \<longleftrightarrow> (\<exists>r con'. x = Some (r, con') \<and> keypairs_ok r \<and> moves con con')"

lemma goesI: "keypairs_ok r \<Longrightarrow> moves con con' \<Longrightarrow> goes con (Some (r, con'))"
  by (auto simp: goes_def)

lemma goes_trans:
  assumes "moves a b" "goes b x"
  shows "goes a x"
  using assms(2) moves_trans [OF assms(1)] unfolding goes_def by blast

lemma goes_bind:
  assumes "goes con x" "\<And>r con'. keypairs_ok r \<Longrightarrow> client_ok con' \<Longrightarrow> goes con' (f (r, con'))"
  shows "goes con (x \<bind> f)"
proof -
  obtain r b where b: "x = Some (r, b)" "keypairs_ok r" "moves con b" using assms(1) by (auto simp: goes_def)
  have "goes b (f (r, b))" using assms(2) b(2,3) by (simp add: moves_def)
  then show ?thesis using goes_trans [OF b(3)] b(1) by simp
qed

lemma set_last_packet_ok:
  assumes "con_ok c" "length bs \<le> 2 + MAX_PACKET_SIZE" "0 < n" "n \<le> MAX_PACKET_SIZE"
  shows "con_ok (c\<lparr>last_packet := write_at 0 bs (last_packet c), last_packet_length := of_nat n, last_packet_sent := 0\<rparr>)"
proof -
  obtain as where as: "queue_ok c as" "last_ok c" using assms(1) by (auto simp: con_ok_def con_stream_def)
  have u: "unat (of_nat n :: u16) = n" using assms(4) by (simp add: size_defs unsigned_of_nat take_bit_nat_eq_self)
  let ?c = "c\<lparr>last_packet := write_at 0 bs (last_packet c), last_packet_length := of_nat n, last_packet_sent := 0\<rparr>"
  have "last_ok ?c" using as(2) assms(2-4) u by (simp add: last_ok_def word_less_nat_alt)
  then have "con_stream ?c (sk_wire (tc_sock ?c) @ last_rest ?c @ pq_bytes (pq_heap ?c) as)" using as(1) by (auto simp: con_stream_def queue_ok_def)
  then show ?thesis using assms(1) by (auto simp: con_ok_def)
qed

lemma set_last_packet_client:
  assumes "client_ok con" "length bs \<le> 2 + MAX_PACKET_SIZE" "0 < n" "n \<le> MAX_PACKET_SIZE"
  shows "client_ok (set_last_packet bs n con)" "calm con (set_last_packet bs n con)"
  using assms set_last_packet_ok [OF _ assms(2-4)] by (simp_all add: client_ok_def set_last_packet_def upd_con_def calm_def waiting_def)

lemma upd_sock_ok:
  assumes "client_ok con" "read_frame (tc_sock (cl_con con)) sock"
  shows "client_ok (upd_sock sock con)" "calm con (upd_sock sock con)"
  using assms con_ok_read [OF _ assms(2)] by (simp_all add: client_ok_def upd_sock_def upd_con_def calm_def waiting_def read_frame_def)

lemma drain_frame: "read_frame sock (drain n sock)"
proof (induction n sock rule: drain.induct)
  case (1 n sock)
  obtain x s where x: "read_TCP_packet sock (min n 16) = (x, s)" by fastforce
  note f = read_TCP_packet_frame [OF x]
  show ?case
  proof (cases "n = 0 \<or> x = None")
    case True
    then show ?thesis using x f by (subst drain.simps) auto
  next
    case False
    then show ?thesis using x 1 [OF _ x [symmetric]] read_frame_trans [OF f] by (subst drain.simps) auto
  qed
qed

text \<open>A function that reads an answer of a proxy.\<close>

definition reads :: "(TCP_Client_Connection \<Rightarrow> int \<times> TCP_Client_Connection) \<Rightarrow> bool" where
  "reads f \<longleftrightarrow> (\<forall>con. \<exists>sock. snd (f con) = upd_sock sock con \<and> read_frame (tc_sock (cl_con con)) sock)"

lemma reads_answers: "reads socks5_read_handshake_response" "reads proxy_socks5_read_connection_response" "reads proxy_http_read_connection_response"
proof -
  show "reads socks5_read_handshake_response" "reads proxy_socks5_read_connection_response"
    unfolding reads_def by (auto simp: socks5_read_handshake_response_def proxy_socks5_read_connection_response_def split: prod.split option.split dest!: read_TCP_packet_frame)
  have d: "read_frame a b \<Longrightarrow> read_frame a (drain n b)" for a b n by (rule read_frame_trans [OF _ drain_frame])
  show "reads proxy_http_read_connection_response" unfolding reads_def
  proof
    fix con :: TCP_Client_Connection
    obtain x sock where x: "read_TCP_packet (tc_sock (cl_con con)) 15 = (x, sock)" by fastforce
    show "\<exists>sock. snd (proxy_http_read_connection_response con) = upd_sock sock con \<and> read_frame (tc_sock (cl_con con)) sock"
      using x d [OF read_TCP_packet_frame [OF x]] read_TCP_packet_frame [OF x]
      by (cases x) (auto simp: proxy_http_read_connection_response_def)
  qed
qed

lemma after_sending_goes:
  assumes "client_ok con" "keypairs_ok r" "\<And>con'. client_ok con' \<Longrightarrow> cl_status con' = cl_status con \<Longrightarrow> goes con' (f con' r)"
  shows "goes con (after_sending f r con)"
proof -
  have "con_ok (cl_con con)" using assms(1) by (simp add: client_ok_def)
  then obtain x c where s: "send_pending_data (cl_con con) = Some (x, c)" "con_ok c" "sock_frame (cl_con con) c" by (rule pending_ok)
  have c: "client_ok (con\<lparr>cl_con := c\<rparr>)" "calm con (con\<lparr>cl_con := c\<rparr>)" using assms(1) s by (simp_all add: client_ok_def calm_def waiting_def sock_frame_def)
  note m = calm_moves [OF c]
  show ?thesis using s(1) goes_trans [OF m assms(3) [OF c(1)]] goesI [OF assms(2) m] by (simp add: after_sending_def Let_def)
qed

lemma client_ok_ns: "client_ok con \<Longrightarrow> tc_ns (cl_con con)"
  by (simp add: client_ok_def con_ok_def)

lemma answer_goes:
  assumes "client_ok con" "keypairs_ok r" "reads f" "\<And>con'. client_ok con' \<Longrightarrow> cl_status con' = cl_status con \<Longrightarrow> goes con' (Some (granted r con'))"
  shows "goes con (answer f granted con r)"
proof -
  obtain ret sock where f: "f con = (ret, upd_sock sock con)" "read_frame (tc_sock (cl_con con)) sock" using assms(3) unfolding reads_def by (metis prod.collapse)
  note u = upd_sock_ok [OF assms(1) f(2)]
  have st: "cl_status (upd_sock sock con) = cl_status con" by (simp add: upd_sock_def)
  have g: "moves (upd_sock sock con) (give_up (upd_sock sock con))" using u(1) by (auto simp: moves_def give_up_def client_ok_def intro: client_next.give_up)
  have "goes (upd_sock sock con) (answer f granted con r)"
    using f(1) client_ok_ns [OF assms(1)] assms(4) [OF u(1) st] goesI [OF assms(2) g] goesI [OF assms(2) moves_refl [OF u(1)]] by (simp add: answer_def)
  then show ?thesis by (rule goes_trans [OF calm_moves [OF u]])
qed

context client_host
begin

lemma generate_handshake_ok:
  assumes "client_ok con" "keypairs_ok r"
  obtains r' con' where "generate_handshake (ce_plat E) r con = (0, r', con')" "keypairs_ok r'" "client_ok con'" "calm con con'"
proof -
  obtain pk sk r1 where r1: "crypto_new_keypair r = ((pk, sk), r1)" by (metis prod.collapse)
  obtain csn r2 where r2: "random_nonce r1 = (csn, r2)" by fastforce
  obtain nonce r3 where r3: "random_nonce r2 = (nonce, r3)" by fastforce
  have ok: "con_ok (cl_con con)" "length (cl_self_public_key con) = 32" using assms(1) by (simp_all add: client_ok_def size_defs)
  then have last: "length (last_packet (cl_con con)) = 2 + MAX_PACKET_SIZE" by (auto simp: con_ok_def con_stream_def last_ok_def)
  note k = keypairs_ok_keypair [OF assms(2) r1]
  obtain con' enc where g: "generate_handshake (ce_plat E) r con = (0, r3, con')" "length enc = 72" "length nonce = 24"
    and con': "con' = con\<lparr>cl_temp_secret_key := sk, cl_con := (cl_con con)\<lparr>tc_sent_nonce := csn,
       last_packet := write_at 0 (cl_self_public_key con @ nonce @ enc) (last_packet (cl_con con)), last_packet_length := 128, last_packet_sent := 0\<rparr>\<rparr>"
    using generate_handshake_packet [OF plat ok(2) last r1 k(1) r2 r3] by blast
  have "con_ok (cl_con con')"
    using set_last_packet_ok [of "(cl_con con)\<lparr>tc_sent_nonce := csn\<rparr>" "cl_self_public_key con @ nonce @ enc" 128] ok g(2,3) by (simp add: con' con_ok_upd size_defs)
  then have "client_ok con'" "calm con con'" using assms(1) by (simp_all add: client_ok_def con' calm_def waiting_def)
  then show ?thesis by (rule that [OF g(1) keypairs_ok_random(1) [OF keypairs_ok_random(1) [OF k(2) r2] r3]])
qed

lemma start_handshake_goes:
  assumes "client_ok con" "keypairs_ok r" "client_next (cl_status con) TCP_CLIENT_CONNECTING"
  shows "goes con (Some (start_handshake (ce_plat E) r con))"
proof -
  obtain r' con' where g: "generate_handshake (ce_plat E) r con = (0, r', con')" "keypairs_ok r'" "client_ok con'" "calm con con'"
    by (rule generate_handshake_ok [OF assms(1,2)])
  have "moves con (con'\<lparr>cl_status := TCP_CLIENT_CONNECTING\<rparr>)" using g(3,4) assms(3) by (intro moves_step) (simp_all add: client_ok_def calm_def)
  then show ?thesis using g(1,2) by (simp add: start_handshake_def goesI)
qed

lemma proxy_steps:
  assumes "client_ok con" "keypairs_ok r"
  shows "goes con (step_http E r con)" "goes con (step_socks5_unconfirmed E r con)"
proof -
  have *: "goes con (if cl_status con \<noteq> st then Some (r, con) else after_sending (answer f (start_handshake (ce_plat E))) r con)"
    if "reads f" "client_next st TCP_CLIENT_CONNECTING" for f st
  proof (cases "cl_status con = st")
    case True
    have "goes con (after_sending (answer f (start_handshake (ce_plat E))) r con)"
      by (intro after_sending_goes answer_goes start_handshake_goes assms that(1)) (simp_all add: True that(2))
    then show ?thesis using True by simp
  qed (use assms goesI moves_refl in auto)
  show "goes con (step_http E r con)" "goes con (step_socks5_unconfirmed E r con)"
    using * [OF reads_answers(3) client_next.http] * [OF reads_answers(2) client_next.socks5] by (simp_all add: step_http_def step_socks5_unconfirmed_def)
qed

lemma socks5_request: "\<exists>bs. proxy_socks5_generate_connection_request con = set_last_packet bs (length bs) con \<and> 0 < length bs \<and> length bs \<le> MAX_PACKET_SIZE"
  unfolding proxy_socks5_generate_connection_request_def Let_def by (rule exI, rule conjI, rule refl) (simp add: size_defs min_le_iff_disj)

lemma step_socks5_goes:
  assumes "client_ok con" "keypairs_ok r"
  shows "goes con (step_socks5 r con)"
proof -
  have g: "goes con' (Some (r, (proxy_socks5_generate_connection_request con')\<lparr>cl_status := TCP_CLIENT_PROXY_SOCKS5_UNCONFIRMED\<rparr>))"
    if "client_ok con'" "cl_status con' = TCP_CLIENT_PROXY_SOCKS5_CONNECTING" for con'
  proof -
    obtain bs where bs: "proxy_socks5_generate_connection_request con' = set_last_packet bs (length bs) con'" "0 < length bs" "length bs \<le> MAX_PACKET_SIZE"
      using socks5_request [of con'] by blast
    have "client_ok (set_last_packet bs (length bs) con')" "calm con' (set_last_packet bs (length bs) con')"
      using set_last_packet_client [OF that(1), of bs "length bs"] bs(2,3) by simp_all
    then have "moves con' ((set_last_packet bs (length bs) con')\<lparr>cl_status := TCP_CLIENT_PROXY_SOCKS5_UNCONFIRMED\<rparr>)"
      using that(2) by (intro moves_step) (simp_all add: client_ok_def calm_def client_next.greeted)
    then show ?thesis using assms(2) by (simp add: bs(1) goesI)
  qed
  show ?thesis
  proof (cases "cl_status con = TCP_CLIENT_PROXY_SOCKS5_CONNECTING")
    case True
    have "goes con (after_sending (answer socks5_read_handshake_response
        (\<lambda>r con. (r, (proxy_socks5_generate_connection_request con)\<lparr>cl_status := TCP_CLIENT_PROXY_SOCKS5_UNCONFIRMED\<rparr>))) r con)"
      by (intro after_sending_goes answer_goes g assms reads_answers) (simp_all add: True)
    then show ?thesis using True by (simp add: step_socks5_def)
  qed (use assms in \<open>auto simp: step_socks5_def intro: goesI moves_refl\<close>)
qed

lemma step_connecting_goes:
  assumes "client_ok con" "keypairs_ok r"
  shows "goes con (step_connecting r con)"
proof (cases "cl_status con = TCP_CLIENT_CONNECTING")
  case True
  have "goes con' (Some (r, con'\<lparr>cl_status := TCP_CLIENT_UNCONFIRMED\<rparr>))" if "client_ok con'" "cl_status con' = TCP_CLIENT_CONNECTING" for con'
    using that by (intro goesI assms moves_step) (simp_all add: client_ok_def client_next.shake)
  then have "goes con (after_sending (\<lambda>con r. Some (r, con\<lparr>cl_status := TCP_CLIENT_UNCONFIRMED\<rparr>)) r con)" by (intro after_sending_goes assms) (simp_all add: True)
  then show ?thesis using True by (simp add: step_connecting_def)
qed (use assms in \<open>auto simp: step_connecting_def intro: goesI moves_refl\<close>)

lemma step_unconfirmed_moves:
  assumes "client_ok con"
  shows "\<exists>con'. step_unconfirmed E con = Some con' \<and> moves con con'"
proof (cases "cl_status con = TCP_CLIENT_UNCONFIRMED")
  case True
  obtain x sock where x: "read_TCP_packet (tc_sock (cl_con con)) TCP_SERVER_HANDSHAKE_SIZE = (x, sock)" by fastforce
  note u = upd_sock_ok [OF assms read_TCP_packet_frame [OF x]] and ns = client_ok_ns [OF assms]
  show ?thesis
  proof (cases x)
    case None
    then show ?thesis using True x ns calm_moves [OF u] by (simp add: step_unconfirmed_def)
  next
    case (Some data)
    obtain ret c where h: "handle_handshake (ce_plat E) (upd_sock sock con) data = (ret, c)" by fastforce
    have "ret = 0 \<or> c = upd_sock sock con" "client_ok (c\<lparr>kill_at := k, cl_status := st\<rparr>)" if "st = TCP_CLIENT_CONFIRMED \<longrightarrow> k = - 1" for st k
      using h u(1) that by (auto simp: handle_handshake_def client_ok_def con_ok_upd Let_def split: option.splits if_splits)
    then have c: "client_ok (c\<lparr>kill_at := - 1, cl_status := TCP_CLIENT_CONFIRMED\<rparr>)" "client_ok (give_up c)" by (simp_all add: give_up_def)
    have "cl_status con = TCP_CLIENT_UNCONFIRMED" by (rule True)
    then have "moves con (c\<lparr>kill_at := - 1, cl_status := TCP_CLIENT_CONFIRMED\<rparr>)" "moves con (give_up c)"
      using c by (auto simp: moves_def give_up_def intro: client_next.intros)
    then show ?thesis using True x ns Some h by (simp add: step_unconfirmed_def)
  qed
qed (use assms moves_refl in \<open>simp add: step_unconfirmed_def\<close>)

lemma confirmed_goes:
  assumes "client_ok con" "keypairs_ok r"
  shows "goes con (if cl_status con = TCP_CLIENT_CONFIRMED then do_confirmed_TCP E mt r con else Some (r, con))"
proof (cases "cl_status con = TCP_CLIENT_CONFIRMED")
  case True
  obtain r' con' where c: "do_confirmed_TCP E mt r con = Some (r', con')" "keypairs_ok r'" "client_ok con'" "kill_at con' = kill_at con"
    "cl_status con' = cl_status con \<or> cl_status con' = TCP_CLIENT_DISCONNECTED" using do_confirmed_ok [OF assms] by blast
  have "moves con con'" using c(3-5) by (intro moves_step) (auto intro: client_next.give_up)
  then show ?thesis using True c(1,2) by (simp add: goesI)
qed (use assms in \<open>simp add: goesI moves_refl\<close>)

lemma do_TCP_connection_goes:
  assumes "client_ok con" "keypairs_ok r"
  shows "goes con (do_TCP_connection E mt r con)"
proof (cases "cl_status con = TCP_CLIENT_DISCONNECTED")
  case True
  then show ?thesis using assms by (simp add: do_TCP_connection_def goesI moves_refl)
next
  case False
  let ?fin = "\<lambda>r con. Some (r, if kill_at con \<le> mono_time_get mt then con\<lparr>cl_status := TCP_CLIENT_DISCONNECTED\<rparr> else con)"
  let ?confirmed = "\<lambda>r con. do { (r, con) \<leftarrow> (if cl_status con = TCP_CLIENT_CONFIRMED then do_confirmed_TCP E mt r con else Some (r, con)); ?fin r con }"
  have e: "goes con (?fin r con)" if "client_ok con" "keypairs_ok r" for con r
    using that by (intro goesI moves_step) (auto intro: client_next.give_up)
  have c: "goes con (?confirmed r con)" if "client_ok con" "keypairs_ok r" for con r
    by (rule goes_bind [OF confirmed_goes [OF that]]) (use e in simp)
  let ?u = "\<lambda>(r, con). do { con \<leftarrow> step_unconfirmed E con; ?confirmed r con }"
  have u: "goes con (?u (r, con))" if ok: "client_ok con" "keypairs_ok r" for con r
  proof -
    obtain con' where "step_unconfirmed E con = Some con'" "moves con con'" using step_unconfirmed_moves [OF ok(1)] by blast
    then show ?thesis using goes_trans [OF _ c [OF _ ok(2)]] by (simp add: moves_def)
  qed
  let ?s = "\<lambda>(r, con). step_connecting r con \<bind> ?u"
  have s: "goes con (?s (r, con))" if "client_ok con" "keypairs_ok r" for con r
    using goes_bind [of con _ ?u, OF step_connecting_goes [OF that] u] by simp
  let ?t = "\<lambda>(r, con). step_socks5_unconfirmed E r con \<bind> ?s"
  have t: "goes con (?t (r, con))" if "client_ok con" "keypairs_ok r" for con r
    using goes_bind [of con _ ?s, OF proxy_steps(2) [OF that] s] by simp
  let ?v = "\<lambda>(r, con). step_socks5 r con \<bind> ?t"
  have v: "goes con (?v (r, con))" if "client_ok con" "keypairs_ok r" for con r
    using goes_bind [of con _ ?t, OF step_socks5_goes [OF that] t] by simp
  show ?thesis using goes_bind [of con _ ?v, OF proxy_steps(1) [OF assms] v] False unfolding do_TCP_connection_def by simp
qed

lemma deadline:
  assumes "client_ok con" "keypairs_ok r" "do_TCP_connection E mt r con = Some (r', con')" "kill_at con \<le> mono_time_get mt"
  shows "cl_status con' = TCP_CLIENT_CONFIRMED \<or> cl_status con' = TCP_CLIENT_DISCONNECTED"
proof -
  have "moves con con'" using do_TCP_connection_goes [OF assms(1,2), of mt] assms(3) by (simp add: goes_def)
  moreover have "cl_status con' = TCP_CLIENT_DISCONNECTED" if "kill_at con' \<le> mono_time_get mt"
  proof (cases "cl_status con = TCP_CLIENT_DISCONNECTED")
    case True
    then show ?thesis using assms(3) by (simp add: do_TCP_connection_def)
  next
    case False
    then obtain c where c: "con' = (if kill_at c \<le> mono_time_get mt then c\<lparr>cl_status := TCP_CLIENT_DISCONNECTED\<rparr> else c)"
      using assms(3) by (clarsimp simp: do_TCP_connection_def bind_eq_Some_conv split del: if_split)
    show ?thesis
    proof (cases "kill_at c \<le> mono_time_get mt")
      case True
      then show ?thesis using c by simp
    next
      case False
      then show ?thesis using c that by simp
    qed
  qed
  ultimately show ?thesis using assms(4) by (auto simp: moves_def)
qed

lemma sends_ok:
  assumes "client_ok con"
  shows "\<exists>x con'. send_routing_request E con pk = Some (x, con') \<and> client_ok con'" "\<exists>x con'. send_data E con con_id data = Some (x, con') \<and> client_ok con'"
    "\<exists>x con'. send_oob_packet E con pk data = Some (x, con') \<and> client_ok con'" "\<exists>x con'. send_disconnect_request E con con_id = Some (x, con') \<and> client_ok con'"
    "\<exists>x con'. send_onion_request E con data = Some (x, con') \<and> client_ok con'" "\<exists>x con'. send_forward_request_tcp E con dest data = Some (x, con') \<and> client_ok con'"
proof -
  have w: "\<exists>x con'. client_write E bs pr con = Some (x, con') \<and> client_ok con'" if "client_ok con" for bs pr con
    using client_write_ok [OF that] by metis
  show "\<exists>x con'. send_routing_request E con pk = Some (x, con') \<and> client_ok con'" "\<exists>x con'. send_onion_request E con data = Some (x, con') \<and> client_ok con'"
    using w [OF assms] by (simp_all add: send_routing_request_def send_onion_request_def)
  show "\<exists>x con'. send_oob_packet E con pk data = Some (x, con') \<and> client_ok con'" "\<exists>x con'. send_forward_request_tcp E con dest data = Some (x, con') \<and> client_ok con'"
    using w [OF assms] assms by (simp_all add: send_oob_packet_def send_forward_request_tcp_def split: option.split)
  have "slot_ok (c\<lparr>cn_status := 0, cn_number := 0\<rparr>) = (length (cn_public_key c) = CRYPTO_PUBLIC_KEY_SIZE)" for c by (simp add: slot_ok_def)
  then have d: "client_ok (upd_slot (unat con_id) (\<lambda>c. c\<lparr>cn_status := 0, cn_number := 0\<rparr>) con)" if "unat con_id < NUM_CLIENT_CONNECTIONS"
    using client_slot [OF assms that] by (intro upd_slot_ok assms that) (simp add: slot_ok_def)
  show "\<exists>x con'. send_disconnect_request E con con_id = Some (x, con') \<and> client_ok con'"
    using w [OF d] assms by (simp add: send_disconnect_request_def client_send_disconnect_notification_def)
  obtain a c1 where r1: "tcp_send_ping_response E con = Some (a, c1)" "client_ok c1" by (rule ping_response_ok [OF assms])
  obtain b c2 where r2: "tcp_send_ping_request E c1 = Some (b, c2)" "client_ok c2" by (rule ping_request_ok [OF r1(2)])
  show "\<exists>x con'. send_data E con con_id data = Some (x, con') \<and> client_ok con'" using r1 r2 w [OF r2(2)] assms by (simp add: send_data_def)
qed

end

section \<open>Connections that are used\<close>

text \<open>What the user of a connection does with it: the periodic work, sending, numbering a slot, registering a function (or none) for any of the six kinds of events, and
  attaching an object or a number; and the arrival of bytes from the relay.\<close>

inductive client_step :: "client_env \<Rightarrow> TCP_Client_Connection \<Rightarrow> TCP_Client_Connection \<Rightarrow> bool" for E con where
  work: "do_TCP_connection E mt r con = Some (r', con') \<Longrightarrow> keypairs_ok r \<Longrightarrow> client_step E con con'"
| route: "send_routing_request E con pk = Some (x, con') \<Longrightarrow> client_step E con con'"
| data: "send_data E con con_id bs = Some (x, con') \<Longrightarrow> client_step E con con'"
| oob: "send_oob_packet E con pk bs = Some (x, con') \<Longrightarrow> client_step E con con'"
| disconnect: "send_disconnect_request E con con_id = Some (x, con') \<Longrightarrow> client_step E con con'"
| onion: "send_onion_request E con bs = Some (x, con') \<Longrightarrow> client_step E con con'"
| forward: "send_forward_request_tcp E con dest bs = Some (x, con') \<Longrightarrow> client_step E con con'"
| number: "client_step E con (snd (set_tcp_connection_number con con_id v))"
| register: "h \<in> {routing_response_handler, routing_status_handler, routing_data_handler, oob_data_handler, onion_response_handler, forwarding_handler} \<Longrightarrow> client_step E con (h con cb)"
| custom_object: "client_step E con (tcp_con_set_custom_object con obj)"
| custom_uint: "client_step E con (tcp_con_set_custom_uint con w)"
| input: "client_step E con (upd_con (\<lambda>c. c\<lparr>tc_sock := (tc_sock c)\<lparr>sk_in := sk_in (tc_sock c) @ bs\<rparr>\<rparr>) con)"

context client_host
begin

lemma client_step_ok:
  assumes "client_step E con con'" "client_ok con"
  shows "client_ok con'"
  using assms(1)
proof cases
  case (work mt r r')
  then show ?thesis using do_TCP_connection_goes [OF assms(2), of r mt] by (simp add: goes_def moves_def)
next
  case (number con_id v)
  have "slot_ok (c\<lparr>cn_number := v\<rparr>) = slot_ok c" for c by (simp add: slot_ok_def)
  then show ?thesis using number assms(2) client_slot [OF assms(2), of "unat con_id"] by (auto simp: set_tcp_connection_number_def intro: upd_slot_ok)
next
  case (input bs)
  then show ?thesis using assms(2) by (simp add: client_ok_def upd_con_def con_ok_def con_stream_def queue_ok_def last_ok_def last_rest_def)
next
  case (register h cb)
  then show ?thesis using assms(2) by (auto simp: client_ok_def routing_response_handler_def routing_status_handler_def routing_data_handler_def oob_data_handler_def
    onion_response_handler_def forwarding_handler_def)
next
  case (custom_object obj)
  then show ?thesis using assms(2) by (simp add: client_ok_def tcp_con_set_custom_object_def)
next
  case (custom_uint w)
  then show ?thesis using assms(2) by (simp add: client_ok_def tcp_con_set_custom_uint_def)
next
  case (route pk x)
  then show ?thesis using sends_ok(1) [OF assms(2), of pk] by simp
next
  case (data con_id bs x)
  then show ?thesis using sends_ok(2) [OF assms(2), of con_id bs] by simp
next
  case (oob pk bs x)
  then show ?thesis using sends_ok(3) [OF assms(2), of pk bs] by simp
next
  case (disconnect con_id x)
  then show ?thesis using sends_ok(4) [OF assms(2), of con_id] by simp
next
  case (onion bs x)
  then show ?thesis using sends_ok(5) [OF assms(2), of bs] by simp
next
  case (forward dest bs x)
  then show ?thesis using sends_ok(6) [OF assms(2), of dest bs] by simp
qed

lemma new_client_ok:
  assumes "stream_socket (sk_send sock) (sk_recv sock) (sk_count sock)" "length self_pk = CRYPTO_PUBLIC_KEY_SIZE" "st \<noteq> TCP_CLIENT_CONFIRMED"
  shows "client_ok ((new_client E sock ip_port pk self_pk self_sk proxy_info)\<lparr>cl_status := st\<rparr>)"
  using assms by (auto simp: client_ok_def new_client_def con_ok_def zero_tcp_connection_def con_stream_def last_ok_def last_rest_def queue_ok_def
    slot_ok_def zero_client_conn_def size_defs)

lemma http_request_ok:
  assumes "client_ok con"
  shows "client_ok (snd (proxy_http_generate_connection_request E con)) \<and> calm con (snd (proxy_http_generate_connection_request E con))"
proof -
  have "con_ok (c\<lparr>last_packet := write_at 0 bs (last_packet c)\<rparr>)" if c: "con_ok c" "length bs \<le> 2 + MAX_PACKET_SIZE" for c bs
  proof -
    obtain as where "queue_ok c as" "last_ok c" using c(1) by (auto simp: con_ok_def con_stream_def)
    then have "con_stream (c\<lparr>last_packet := write_at 0 bs (last_packet c)\<rparr>)
      (sk_wire (tc_sock c) @ last_rest (c\<lparr>last_packet := write_at 0 bs (last_packet c)\<rparr>) @ pq_bytes (pq_heap c) as)"
      using c(2) by (auto simp: con_stream_def last_ok_def queue_ok_def)
    then show ?thesis using c(1) by (auto simp: con_ok_def)
  qed
  then have w: "client_ok (upd_con (\<lambda>c. c\<lparr>last_packet := write_at 0 bs (last_packet c)\<rparr>) con)" if "length bs \<le> 2 + MAX_PACKET_SIZE" for bs
    using assms that by (simp add: client_ok_def upd_con_def)
  have k: "calm con (upd_con (\<lambda>c. c\<lparr>last_packet := write_at 0 bs (last_packet c)\<rparr>) con)" for bs by (simp add: calm_def waiting_def)
  show ?thesis
  proof (cases "ce_inet_ntop E (ip (cl_ip_port con))")
    case (Some a)
    define t where "t = (let prt = decimal (unat (net_ntohs (port (cl_ip_port con)))) in
      ascii ''CONNECT '' @ a @ ascii '':'' @ prt @ ascii '' HTTP/1.1'' @ [10] @ ascii ''Host: '' @ a @ ascii '':'' @ prt @ crlf @ crlf)"
    let ?bs = "take (MAX_PACKET_SIZE - 1) t @ [0]"
    have p: "proxy_http_generate_connection_request E con = (if length t > MAX_PACKET_SIZE then (0, upd_con (\<lambda>c. c\<lparr>last_packet := write_at 0 ?bs (last_packet c)\<rparr>) con)
      else (1, set_last_packet ?bs (length t) con))" using Some by (simp add: proxy_http_generate_connection_request_def t_def Let_def)
    have t: "0 < length t" "length ?bs \<le> 2 + MAX_PACKET_SIZE" by (simp_all add: t_def Let_def ascii_def)
    show ?thesis
    proof (cases "length t > MAX_PACKET_SIZE")
      case True
      then show ?thesis using w [OF t(2)] k by (simp only: p if_True snd_conv simp_thms)
    next
      case False
      then show ?thesis using set_last_packet_client [OF assms t(2,1)] by (simp add: p)
    qed
  qed (use assms in \<open>simp add: proxy_http_generate_connection_request_def\<close>)
qed

lemma new_TCP_connection_ok:
  assumes "new_TCP_connection E mt r ip_port pk self_pk self_sk proxy = (Inr con, r')" "length self_pk = CRYPTO_PUBLIC_KEY_SIZE" "keypairs_ok r"
  shows "client_ok con"
proof -
  define pinfo where "pinfo = (case proxy of None \<Rightarrow> \<lparr>pi_ip_port = empty_ip_port, pi_proxy_type = TCP_PROXY_NONE\<rparr> | Some p \<Rightarrow> p)"
  let ?fam = "if pi_proxy_type pinfo \<noteq> TCP_PROXY_NONE then family (ip (pi_ip_port pinfo)) else family (ip ip_port)" and ?k = "mono_time_get mt + TCP_CONNECTION_TIMEOUT"
  obtain sock where s: "ce_socket E ?fam = Some sock"
    using assms(1) unfolding new_TCP_connection_def Let_def pinfo_def [symmetric] by (cases "ce_socket E ?fam") (simp_all split: if_splits)
  have n: "case pi_proxy_type pinfo of
      TCP_PROXY_HTTP \<Rightarrow> con = (snd (proxy_http_generate_connection_request E ((new_client E sock ip_port pk self_pk self_sk pinfo)\<lparr>cl_status := TCP_CLIENT_PROXY_HTTP_CONNECTING\<rparr>)))\<lparr>kill_at := ?k\<rparr>
    | TCP_PROXY_SOCKS5 \<Rightarrow> con = (proxy_socks5_generate_greetings ((new_client E sock ip_port pk self_pk self_sk pinfo)\<lparr>cl_status := TCP_CLIENT_PROXY_SOCKS5_CONNECTING\<rparr>))\<lparr>kill_at := ?k\<rparr>
    | TCP_PROXY_NONE \<Rightarrow> con = (snd (snd (generate_handshake (ce_plat E) r ((new_client E sock ip_port pk self_pk self_sk pinfo)\<lparr>cl_status := TCP_CLIENT_CONNECTING\<rparr>))))\<lparr>kill_at := ?k\<rparr>"
    using assms(1) s unfolding new_TCP_connection_def Let_def pinfo_def [symmetric]
    by (auto split: if_splits TCP_Proxy_Type.splits prod.splits)
  have c: "client_ok ((new_client E sock ip_port pk self_pk self_sk pinfo)\<lparr>cl_status := st\<rparr>)" if "st \<noteq> TCP_CLIENT_CONFIRMED" for st
    by (rule new_client_ok [OF socket [OF s] assms(2) that])
  have k: "client_ok (c\<lparr>kill_at := k\<rparr>)" if "client_ok c" "cl_status c \<noteq> TCP_CLIENT_CONFIRMED" for c k using that by (simp add: client_ok_def)
  show ?thesis
  proof (cases "pi_proxy_type pinfo")
    case TCP_PROXY_HTTP
    then show ?thesis using n http_request_ok [OF c, of TCP_CLIENT_PROXY_HTTP_CONNECTING] by (auto simp: calm_def intro!: k)
  next
    case TCP_PROXY_SOCKS5
    have "client_ok (proxy_socks5_generate_greetings ((new_client E sock ip_port pk self_pk self_sk pinfo)\<lparr>cl_status := TCP_CLIENT_PROXY_SOCKS5_CONNECTING\<rparr>))"
      unfolding proxy_socks5_generate_greetings_def by (rule set_last_packet_client [OF c]) (simp_all add: size_defs)
    then show ?thesis using TCP_PROXY_SOCKS5 n by (auto simp: proxy_socks5_generate_greetings_def set_last_packet_def intro!: k)
  next
    case TCP_PROXY_NONE
    let ?c = "(new_client E sock ip_port pk self_pk self_sk pinfo)\<lparr>cl_status := TCP_CLIENT_CONNECTING\<rparr>"
    obtain r1 c1 where g: "generate_handshake (ce_plat E) r ?c = (0, r1, c1)" "client_ok c1" "calm ?c c1"
      by (rule generate_handshake_ok [OF _ assms(3), of ?c]) (simp_all add: c)
    then show ?thesis using n TCP_PROXY_NONE by (auto simp: calm_def intro!: k)
  qed
qed

end

text \<open>C13: A connection that was made by \<^verbatim>\<open>new_TCP_connection\<close> and used in any way, with any functions registered for its events that leave it
  well-formed and its state and deadline alone, stays well-formed: its 240 slots have one of the three states, its queues hold no dangling pointer, and
  a confirmed connection has no deadline. Its periodic work returns, with whatever bytes have arrived. The state of the connection only moves forward, from the proxy over the handshake to the
  confirmed connection, or to its end; and a connection whose deadline has passed is confirmed or ended.\<close>

theorem tcp_client_runs:
  assumes "client_host E" "new_TCP_connection E mt0 r0 ip_port pk self_pk self_sk proxy = (Inr con0, r1)" "length self_pk = CRYPTO_PUBLIC_KEY_SIZE" "keypairs_ok r0"
    and "(client_step E)\<^sup>*\<^sup>* con0 con" "keypairs_ok r"
  shows "client_ok con \<and> (\<exists>r' con'. do_TCP_connection E mt r con = Some (r', con') \<and> client_next\<^sup>*\<^sup>* (cl_status con) (cl_status con') \<and>
    (kill_at con \<le> mono_time_get mt \<longrightarrow> cl_status con' = TCP_CLIENT_CONFIRMED \<or> cl_status con' = TCP_CLIENT_DISCONNECTED))"
proof -
  have ok: "client_ok con" using assms(5)
    by (induction rule: rtranclp_induct) (use client_host.new_TCP_connection_ok [OF assms(1-4)] client_host.client_step_ok [OF assms(1)] in auto)
  obtain r' con' where w: "do_TCP_connection E mt r con = Some (r', con')" "moves con con'"
    using client_host.do_TCP_connection_goes [OF assms(1) ok assms(6), of mt] unfolding goes_def by blast
  then show ?thesis using ok client_host.deadline [OF assms(1) ok assms(6) w(1)] by (auto simp: moves_def)
qed

section \<open>Examples\<close>

text \<open>A host for clients whose user numbers the connections that the relay reports, as \<^verbatim>\<open>tcp_response_callback\<close> of \<^verbatim>\<open>TCP_connection.c\<close> does.\<close>

definition test_user :: client_env where
  "test_user = \<lparr>ce_plat = xor_platform, ce_calloc = (\<lambda>h. Some (LEAST a. a \<notin> dom h)), ce_socket = (\<lambda>_. Some slow_sock), ce_nosigpipe = (\<lambda>_. True), ce_nonblock = (\<lambda>_. True),
     ce_connect = (\<lambda>_ _. True), ce_inet_ntop = (\<lambda>_. None),
     ce_call = (\<lambda>_ c con. case c of Cb_response con_id pk \<Rightarrow> snd (set_tcp_connection_number con con_id 7) | _ \<Rightarrow> con)\<rparr>"

lemma set_number_ok: "client_ok con \<Longrightarrow> client_ok (snd (set_tcp_connection_number con con_id v))" "client_ok con \<Longrightarrow> calm con (snd (set_tcp_connection_number con con_id v))"
  using client_slot [of con "unat con_id"] by (auto simp: set_tcp_connection_number_def slot_ok_def intro!: upd_slot_ok)

interpretation user: client_host test_user
proof unfold_locales
  show "\<exists>c. crypto_box_afternm (ce_plat test_user) m n k = Some c \<and> length c = length m \<and> take 16 c = replicate 16 0 \<and> crypto_box_open_afternm (ce_plat test_user) c n k = Some m"
    if "32 \<le> length m" "take 32 m = replicate 32 0" for m n k using box_platform.afternm [OF xor_box_platform that] by (simp add: test_user_def)
  show "malloc_ok (ce_plat test_user) sz" for sz using box_platform.memory [OF xor_box_platform] by (simp add: test_user_def)
  show "\<exists>a. ce_calloc test_user h = Some a \<and> a \<notin> dom h" if "finite (dom h)" for h :: "nat \<rightharpoonup> TCP_Priority_List"
    using ex_new_if_finite [OF infinite_UNIV_nat that] LeastI_ex [of "\<lambda>a. a \<notin> dom h"] by (simp add: test_user_def)
  show "client_ok (ce_call test_user f c con)" "calm con (ce_call test_user f c con)" if "client_ok con" for f c con
    using that set_number_ok by (simp_all add: test_user_def split: client_call.split)
  show "sk_send sock n len \<le> int len" if "ce_socket test_user fam = Some sock" for fam sock n len
    using that slow.send_le by (auto simp: test_user_def)
  show "sk_recv sock n avail len = int len" if "ce_socket test_user fam = Some sock" "0 < len" "len \<le> avail" for fam sock n avail len
    using that slow.recv_all by (auto simp: test_user_def)
  show "0 \<le> sk_count sock n avail" "sk_count sock n avail \<le> int avail" "sk_count sock n avail < 2 ^ 31" if "ce_socket test_user fam = Some sock" for fam sock n avail
    using that slow.count_le by (auto simp: test_user_def)
qed

lemma keypairs_counting: "keypairs_ok counting_random"
  by (simp add: keypairs_ok_def counting_random_def size_defs)

definition test_ip_port :: IP_Port where
  "test_ip_port = \<lparr>ip = \<lparr>family = TOX_AF_INET, addr = replicate 16 0\<rparr>, port = 33445\<rparr>"

theorem tcp_client_runs_witness:
  "\<exists>con0 con r' con'. new_TCP_connection test_user example_time counting_random test_ip_port (replicate 32 6) (replicate 32 5) (replicate 32 5)
      (Some \<lparr>pi_ip_port = test_ip_port, pi_proxy_type = TCP_PROXY_SOCKS5\<rparr>) = (Inr con0, counting_random) \<and>
    con = routing_response_handler (routing_data_handler con0 (Some 2)) (Some 1) \<and> response_callback con = Some 1 \<and> data_callback con = Some 2 \<and> client_ok con \<and>
    do_TCP_connection test_user example_time counting_random con = Some (r', con') \<and> client_next\<^sup>*\<^sup>* (cl_status con) (cl_status con')"
proof -
  obtain con0 where n: "new_TCP_connection test_user example_time counting_random test_ip_port (replicate 32 6) (replicate 32 5) (replicate 32 5)
      (Some \<lparr>pi_ip_port = test_ip_port, pi_proxy_type = TCP_PROXY_SOCKS5\<rparr>) = (Inr con0, counting_random)"
    using box_platform.memory [OF xor_box_platform] by (simp add: new_TCP_connection_def test_user_def test_ip_port_def net_family_is_ipv4_def connect_sock_to_def)
  let ?c1 = "routing_data_handler con0 (Some 2)"
  let ?con = "routing_response_handler ?c1 (Some 1)"
  have "client_step test_user con0 ?c1" "client_step test_user ?c1 ?con" by (rule register, simp)+
  then have run: "(client_step test_user)\<^sup>*\<^sup>* con0 ?con" by simp
  have cb: "response_callback ?con = Some 1" "data_callback ?con = Some 2" by (simp_all add: routing_response_handler_def routing_data_handler_def)
  show ?thesis
    using tcp_client_runs [OF user.client_host_axioms n _ keypairs_counting run keypairs_counting, of example_time] n cb by (auto simp: size_defs)
qed

text \<open>A relay, and a client of it that knows its key.\<close>

definition xor_relay :: tcp_env where
  "xor_relay = test_host\<lparr>te_plat := xor_platform\<rparr>"

definition fast_sock :: Sock where
  "fast_sock = slow_sock\<lparr>sk_send := \<lambda>n len. int len\<rparr>"

definition test_incoming :: TCP_Secure_Connection where
  "test_incoming = zero_secure_connection\<lparr>sc_con := zero_tcp_connection\<lparr>tc_ns := True, tc_sock := fast_sock\<rparr>, sc_status := TCP_STATUS_CONNECTED\<rparr>"

definition test_new_client :: TCP_Client_Connection where
  "test_new_client = new_client test_user slow_sock test_ip_port (replicate 32 6) (replicate 32 5) (replicate 32 5) \<lparr>pi_ip_port = empty_ip_port, pi_proxy_type = TCP_PROXY_NONE\<rparr>"

theorem tcp_handshake_agreement_witness:
  "\<exists>r' con1 packet q' rcon1 reply con2. generate_handshake xor_platform (counting_random\<lparr>r_pos := 5\<rparr>) test_new_client = (0, r', con1) \<and>
    handle_TCP_handshake xor_relay (counting_random\<lparr>r_pos := 6\<rparr>) test_incoming packet (replicate 32 6) = Some (1, q', rcon1) \<and> sc_public_key rcon1 = replicate 32 5 \<and>
    handle_handshake xor_platform con1 reply = (0, con2) \<and> tc_shared_key (cl_con con2) = replicate 32 3 \<and> tc_shared_key (sc_con rcon1) = replicate 32 3"
proof -
  have s: "stream_socket (sk_send fast_sock) (sk_recv fast_sock) (sk_count fast_sock)" by unfold_locales (auto simp: fast_sock_def slow_sock_def)
  have p: "te_plat xor_relay = xor_platform" by (simp add: xor_relay_def)
  have k: "tc_shared_key (cl_con test_new_client) = replicate 32 3" "cl_self_public_key test_new_client = replicate 32 5"
    using example_exchange(1) by (simp_all add: test_new_client_def new_client_def test_user_def size_defs)
  have c: "con_ok (cl_con test_new_client)" "con_idle (cl_con test_new_client)"
    using slow.stream_socket_axioms by (auto simp: test_new_client_def new_client_def con_ok_def zero_tcp_connection_def con_stream_def last_ok_def last_rest_def queue_ok_def con_idle_def)
  have r: "con_ok (sc_con test_incoming)" "sc_status test_incoming = TCP_STATUS_CONNECTED" "tc_sock (sc_con test_incoming) = fast_sock"
    using s by (auto simp: test_incoming_def zero_tcp_connection_def con_ok_def con_stream_def last_ok_def last_rest_def queue_ok_def)
  have kp: "crypto_new_keypair (counting_random\<lparr>r_pos := n\<rparr>) = ((replicate 32 (of_nat n), replicate 32 (of_nat n)), counting_random\<lparr>r_pos := n + 1\<rparr>)" for n
    by (simp add: crypto_new_keypair_def counting_random_def)
  show ?thesis
    using tcp_handshake_agreement [of xor_relay test_new_client "replicate 32 6" test_incoming, OF _ _ _ c r(2,1) _ kp [of 5] kp [of 6], of "replicate 32 3"]
      xor_box_platform example_exchange(1,2) unfolding p k r(3) by (simp add: fast_sock_def) blast
qed

end
