(* ===== verification/Spec2Isabelle.thy ===== *)
theory Spec2Isabelle
  imports Util Mono_Time Crypto_Core BS_List Packets_Array Timed_Auth Ping_Array Shared_Key_Cache State_File Network
    DHT_Packets DHT_Lists Tox_Random DHT_State Ping_Node DHT_Nodes DHT_Maintenance DHT_NAT DHT_Save DHT_Main
    Net_Crypto_Handshake Net_Crypto_Connection Net_Crypto_Data Onion Onion_Route
    Group_Announce Onion_Announce Onion_Announce_Store
    TCP_Common TCP_Stream Forwarding TCP_Server TCP_Links TCP_Relay TCP_Requests TCP_Work TCP_Relay_Run TCP_Client TCP_Client_Run
begin

text \<open>
  A verification development for c-toxcore, a peer-to-peer messaging library. The parts of the program, from the bottom up:

  \<^item> helpers: \<^verbatim>\<open>toxcore/util.c\<close> (checksums, hashes), \<^verbatim>\<open>mono_time.c\<close> (the clock), \<^verbatim>\<open>crypto_core.c\<close> (keys, nonces, random numbers
    and authenticated encryption on top of NaCl), \<^verbatim>\<open>network.c\<close> (addresses, byte order, packets on the socket),
    \<^verbatim>\<open>LAN_discovery.c\<close> (classes of local addresses);
  \<^item> data structures: \<^verbatim>\<open>list.c\<close> (a sorted array that maps byte strings to ids), \<^verbatim>\<open>ping_array.c\<close> (outstanding requests),
    \<^verbatim>\<open>timed_auth.c\<close> (authenticators with a lifetime), \<^verbatim>\<open>shared_key_cache.c\<close> (precomputed keys), \<^verbatim>\<open>state.c\<close> (sections of the save file);
  \<^item> the distributed hash table: \<^verbatim>\<open>DHT.c\<close> with \<^verbatim>\<open>ping.c\<close>. A node keeps the nodes close to its own key and those close to each
    friend's key, exchanges nodes with them, checks that they are alive, routes packets to friends, punches
    holes into NATs and saves the nodes it knows;
  \<^item> encrypted connections between friends: \<^verbatim>\<open>net_crypto.c\<close>. A handshake with cookies, then lossless and lossy data packets over UDP or
    TCP relays, found again by the address they come from (\<^verbatim>\<open>list.c\<close>);
  \<^item> the onion: \<^verbatim>\<open>onion.c\<close> sends packets through three relays so that nobody sees both ends; with \<^verbatim>\<open>onion_announce.c\<close> a node stores where clients can be reached
    and passes data to them; \<^verbatim>\<open>group_announce.c\<close> and \<^verbatim>\<open>group_onion_announce.c\<close> add the peers of group chats to such announces;
  \<^item> TCP relays: \<^verbatim>\<open>TCP_common.c\<close> (packets on stream sockets), \<^verbatim>\<open>TCP_server.c\<close> (a relay that links clients which asked for each other, and passes packets between them, to
    the onion and to \<^verbatim>\<open>forwarding.c\<close>, which passes packets along chains of nodes) and \<^verbatim>\<open>TCP_client.c\<close> (the connection of a client to a relay, also through a proxy);
  \<^item> above these, not modelled: the pool of connections to relays, friend connections, the messenger, group chats, the public interface
    and audio and video.

  Conventions. Structures are records, enumerations datatypes, integers words of their width, byte arrays lists of
  bytes, and a memory image of an integer is little-endian. An operation takes the state and returns its result
  with the new state. NaCl and the allocator are a record of functions (\<open>platform\<close>); the host (\<open>host\<close>) adds
  \<^verbatim>\<open>qsort\<close>, the uniform random function and the socket. What is relied on of them is stated in locales: \<open>box_platform\<close>
  (decryption inverts encryption, memory is available), \<open>hash_platform\<close>, \<open>hmac_platform\<close>, \<open>qsort_contract\<close>, \<open>uniform_random\<close>; each is interpreted on concrete functions, the first on the
  fuzzing build of \<^verbatim>\<open>crypto_core.c\<close> itself. Random bytes and keys come from a stream with a position. Packets sent are recorded in the state, in
  order. A result \<open>None\<close> of an operation of the connections is a read through a null or dangling pointer or an endless loop.

  The theories.

  \<^item> \<open>Tox_Prelude\<close>: memory operations, big-endian values of byte strings, \<^verbatim>\<open>memcmp\<close>, integers in memory, searching lists; the collections
    \<open>size_defs\<close>, \<open>wire_simps\<close> and \<open>keep_inv\<close>.
  \<^item> \<open>Util\<close>, \<open>Mono_Time\<close>, \<open>Crypto_Core\<close>, \<open>Tox_Random\<close>, \<open>Network\<close>: the helpers. Nonces add as 192-bit numbers; decryption inverts
    encryption; addresses are equal exactly if they are equal after mapping; sending and receiving keeps an address.
  \<^item> \<open>BS_List\<close>: the search ends inside the array; insertion and removal refine a finite map (locale \<open>id_index\<close>).
  \<^item> \<open>Packets_Array\<close>: the windows of packets of \<^verbatim>\<open>net_crypto.c\<close> refine finite maps over wrapping numbers (locale \<open>packet_window\<close>); a generated request keeps what the
    peer misses.
  \<^item> \<open>Timed_Auth\<close>, \<open>Ping_Array\<close>, \<open>Shared_Key_Cache\<close>, \<open>State_File\<close>: acceptance windows, survival of outstanding pings, transparency of the cache,
    and exactly which files load.
  \<^item> \<open>DHT_Packets\<close>, \<open>DHT_Lists\<close>, \<open>DHT_State\<close>: the metric, node encodings, client lists and their eviction, the state of the DHT with friends and
    locks, and the invariant \<open>dht_inv\<close>.
  \<^item> \<open>Ping_Node\<close>, \<open>DHT_Nodes\<close>, \<open>DHT_Maintenance\<close>, \<open>DHT_NAT\<close>, \<open>DHT_Save\<close>: the handlers and the periodic work; only solicited responses count, a complete exchange
    succeeds, nodes survive saving.
  \<^item> \<open>DHT_Main\<close>: creation, dispatch, periodic work, the setters of the own keys, and the step relation \<open>dht_step\<close> of all operations; every reachable state satisfies \<open>dht_inv\<close>. The own secret key may be
    replaced as long as no shared keys are cached; afterwards the caches keep keys of the old one.
  \<^item> \<open>Net_Crypto_Handshake\<close>: cookies and handshake packets; a handshake gives both sides the keys and nonces of the other.
  \<^item> \<open>Net_Crypto_Connection\<close>: the table of connections, the state machine, data packets, the entry points. Clients and TCP connections are functions of the
    environment \<open>nc_env\<close>; the callbacks may change the state.
  \<^item> \<open>Net_Crypto_Data\<close>: data packets open within the nonce window and the window follows; lossless packets are delivered in order (specification
    \<open>flush\<close>).
  \<^item> \<open>Onion\<close>, \<open>Onion_Route\<close>: paths, packets and the six handlers; a packet reaches its destination through three relays and an answer comes back.
  \<^item> \<open>Group_Announce\<close>: the encodings of announces, and the doubly linked list of groups as nodes at addresses of a heap; the list implements a finite map
    (locale \<open>announce_store\<close>).
  \<^item> \<open>Onion_Announce\<close>, \<open>Onion_Announce_Store\<close>: the entries of announced clients, announce and data requests with and without group announces. The entries are the closest
    clients; a client that announces itself gets a place unless all are taken by closer ones, and then the data sent to it; a response can overflow its array.
  \<^item> \<open>TCP_Common\<close>, \<open>TCP_Stream\<close>: packets on stream sockets (\<^verbatim>\<open>TCP_common.c\<close>). Whatever pieces the sockets (locale \<open>stream_socket\<close>) take and deliver, the reader
    gets the packets that the writer accepted, in order; the list of priority packets is a list of nodes in a heap.
  \<^item> \<open>Forwarding\<close>: packets passed along chains of nodes (\<^verbatim>\<open>forwarding.c\<close>); a reply finds its way back by the authenticated sendback alone.
  \<^item> \<open>TCP_Server\<close>: the relay (\<^verbatim>\<open>TCP_server.c\<close>), with and without \<^verbatim>\<open>epoll\<close>; the host is the record \<open>tcp_env\<close>.
  \<^item> \<open>TCP_Links\<close>, \<open>TCP_Relay\<close>, \<open>TCP_Requests\<close>, \<open>TCP_Work\<close>, \<open>TCP_Relay_Run\<close>: slots and links as functions of indices and the steps that change them (\<open>links_ok\<close>); the invariant
    \<open>relay_ok\<close> of the whole state, kept by every operation on clients, by every request and by the periodic work (locale \<open>relay_host\<close> for the host); in every reachable state clients are
    linked exactly if they asked for each other, packets go where they should, a reply goes to the client that asked or, when its socket was closed since, to nobody, with and without \<^verbatim>\<open>epoll\<close>; with \<^verbatim>\<open>epoll\<close> an
    event that is out of date can crash the relay.
  \<^item> \<open>TCP_Client\<close>, \<open>TCP_Client_Run\<close>: the client of a relay (\<^verbatim>\<open>TCP_client.c\<close>); its host and its user are the record \<open>client_env\<close>, with the laws of the locale \<open>client_host\<close>. The handshake with the
    relay gives both the same key and nonces, which is where \<open>tcp_packets_delivered\<close> starts; a connection stays well-formed (\<open>client_ok\<close>) however it is used, with any callbacks registered at any time, its periodic work returns, and its state
    only moves forward.

  Bounds. Loops are recursive functions with termination proofs, except those that follow pointers of the list of groups, which are partial functions and return on every well-formed list, the loops of the relay and of its client that read until the input is used up, and \<open>read_loop\<close>, which calls the client and is a partial function; it
  returns for clients that leave the connections alone. \<open>flush\<close> takes a number of steps; 32768, the size of a window, is always enough. The theorems about one round of the relay ask for room for 256 more
  clients below 67 million entries, far above what memory allows, and below 2 to the 64 connections in all.

  Where a definition is simpler than the C code. A cache of shared keys holds a copy of the secret key where C has a pointer to it; the setter of the DHT changes the copies with the key. \<open>ping_array_check\<close> returns the data
  itself, where C returns its length as a signed number and copies it into the buffer of the caller (negative for lengths from 2 to the 31, which no caller adds). The number of friends is the length of the list, where C has 16 bits that would wrap at 65536 friends. Lengths
  in \<open>create_request\<close> and in \<open>pack_nodes\<close> are natural numbers: the callers pass lengths of at most one packet, except \<open>dht_save\<close>, where the truncation to 16 bits is part of the model. The assertions on sizes below
  2 to the 31 in \<^verbatim>\<open>encrypt_data_symmetric\<close> are left out. Padding bytes of \<^verbatim>\<open>IP_Port\<close> in memory are zero. The shift of the cookie of a section is the one of 32 bits also where C shifts into the sign. Sockets of the relay are numbers; that a place
  of the relay still holds the same connection is said by its identifier and by its socket never having been closed since.

  Not modelled: the congestion control of \<^verbatim>\<open>send_crypto_packets\<close> (floating point), the text reports of connections, sockets and name
  resolution of \<^verbatim>\<open>network.c\<close>, logging, and the parts named above; the manifest lists them.
\<close>

end
